(* ===== verification/Prelude.thy ===== *)
theory Prelude
  imports Main "HOL-Library.Word" "HOL-Library.AList"
begin

text \<open>
  Shared vocabulary of the development: bytes and text, the application errors, the
  state-and-error effects in which the stateful classes are written, a small Hoare logic over
  them, and lemmas on JavaScript-style insertion-ordered records (association lists).
\<close>

section \<open>Automation shared by the components\<close>

named_theorems effs \<open>unfolding equations of the effect combinators\<close>
named_theorems keeps_intros \<open>introduction rules for preserved predicates\<close>
named_theorems hoare_rules \<open>rules of the effect Hoare logic\<close>

section \<open>Bytes and text\<close>

text \<open>
  A \<open>Uint8Array\<close> is a list of bytes. A JavaScript string is a list of characters; every
  character stands for one code unit of its UTF-8 form, so that \<open>TextEncoder\<close> is a
  map over the characters.
\<close>

type_synonym byte = "8 word"
type_synonym bytes = "byte list"

definition byte_of_char :: "char \<Rightarrow> byte" where
  "byte_of_char c = word_of_nat (of_char c)"

definition char_of_byte :: "byte \<Rightarrow> char" where
  "char_of_byte b = char_of (unat b)"

definition utf8_encode :: "string \<Rightarrow> bytes" where
  "utf8_encode = map byte_of_char"

definition utf8_decode :: "bytes \<Rightarrow> string" where
  "utf8_decode = map char_of_byte"

lemma char_of_byte_of_char [simp]: "char_of_byte (byte_of_char c) = c"
proof -
  have "(of_char c :: nat) < 256"
    by simp
  then have "unat (word_of_nat (of_char c) :: byte) = of_char c"
    by (simp add: unat_of_nat take_bit_nat_eq_self)
  then show ?thesis
    by (simp add: char_of_byte_def byte_of_char_def)
qed

lemma byte_of_char_of_byte [simp]: "byte_of_char (char_of_byte b) = b"
proof -
  have "unat b < 256"
    using unsigned_less [of b] by simp
  then show ?thesis
    by (simp add: char_of_byte_def byte_of_char_def)
qed

lemma utf8_decode_encode [simp]: "utf8_decode (utf8_encode s) = s"
  by (simp add: utf8_decode_def utf8_encode_def comp_def)

lemma utf8_encode_decode [simp]: "utf8_encode (utf8_decode b) = b"
  by (simp add: utf8_decode_def utf8_encode_def comp_def)

lemma length_utf8_encode [simp]: "length (utf8_encode s) = length s"
  by (simp add: utf8_encode_def)

lemma length_utf8_decode [simp]: "length (utf8_decode b) = length b"
  by (simp add: utf8_decode_def)

lemma utf8_encode_inject [simp]: "utf8_encode s = utf8_encode t \<longleftrightarrow> s = t"
  by (metis utf8_decode_encode)

text \<open>Characters: a range, \<open>toUpperCase\<close> and \<open>\s\<close> on ASCII.\<close>

definition in_range :: "char \<Rightarrow> char \<Rightarrow> char \<Rightarrow> bool" where
  "in_range a c b \<longleftrightarrow> (of_char a :: nat) \<le> of_char c \<and> (of_char c :: nat) \<le> of_char b"

definition to_upper :: "char \<Rightarrow> char" where
  "to_upper c = (if in_range CHR ''a'' c CHR ''z'' then char_of ((of_char c :: nat) - 32) else c)"

definition is_space :: "char \<Rightarrow> bool" where
  "is_space c \<longleftrightarrow> (of_char c :: nat) \<in> {9, 10, 11, 12, 13, 32}"

text \<open>\<open>String.startsWith\<close>.\<close>

definition starts_with :: "string \<Rightarrow> string \<Rightarrow> bool" where
  "starts_with s p \<longleftrightarrow> take (length p) s = p"

lemma starts_with_append [simp]: "starts_with (p @ s) p"
  by (simp add: starts_with_def)

lemma starts_with_iff: "starts_with s p \<longleftrightarrow> (\<exists>r. s = p @ r)"
  by (auto simp: starts_with_def) (metis append_take_drop_id)

text \<open>\<open>Array.join\<close> and \<open>String.split\<close> on a one-character separator.\<close>

fun join :: "string \<Rightarrow> string list \<Rightarrow> string" where
  "join sep [] = []"
| "join sep [s] = s"
| "join sep (s # t # ss) = s @ sep @ join sep (t # ss)"

fun split_on :: "char \<Rightarrow> string \<Rightarrow> string list" where
  "split_on c [] = [[]]"
| "split_on c (x # xs) =
     (if x = c then [] # split_on c xs else (x # hd (split_on c xs)) # tl (split_on c xs))"

lemma split_on_not_Nil [simp]: "split_on c s \<noteq> []"
  by (cases s) auto

lemma join_Cons: "ss \<noteq> [] \<Longrightarrow> join sep (s # ss) = s @ sep @ join sep ss"
  by (cases ss) auto

lemma join_split [simp]: "join [c] (split_on c s) = s"
proof (induction s)
  case Nil
  then show ?case by simp
next
  case (Cons x s)
  show ?case
  proof (cases "split_on c s")
    case Nil
    then show ?thesis by simp
  next
    case (Cons y ys)
    with Cons.IH show ?thesis by (cases ys) auto
  qed
qed

lemma split_on_plain: "c \<notin> set s \<Longrightarrow> split_on c s = [s]"
  by (induction s) auto

lemma split_on_append: "c \<notin> set s \<Longrightarrow> split_on c (s @ c # t) = s # split_on c t"
  by (induction s) auto

lemma split_join: "ss \<noteq> [] \<Longrightarrow> list_all (\<lambda>s. c \<notin> set s) ss \<Longrightarrow> split_on c (join [c] ss) = ss"
  by (induction "[c]" ss rule: join.induct) (auto simp: split_on_plain split_on_append)

lemma split_on_parts: "s \<in> set (split_on c t) \<Longrightarrow> c \<notin> set s"
proof (induction t arbitrary: s)
  case (Cons x t)
  then show ?case
    by (cases "split_on c t") (auto split: if_splits)
qed simp

section \<open>Application errors\<close>

text \<open>
  The error bodies of \<open>@arxhub/errors\<close> and of the components, told apart by the
  \<open>code\<close> that \<open>hasErrorCode\<close> reads; the string of the general ones is the fixed
  part of the message. \<open>SyntaxFailure\<close> is what \<open>JSON.parse\<close> throws, \<open>IoFailure\<close>
  a raw file-system error and \<open>Thrown\<close> whatever foreign code threw.
\<close>

datatype app_error =
    ValidationError string
  | IllegalStateError string
  | FileNotFound string
  | ScopeAccessDenied string
  | SyncHeadMovedError
  | RepoHeadMovedError
  | SyntaxFailure
  | IoFailure string
  | KeyFailure string
  | DecryptionError
  | HttpStatus nat
  | Thrown string

section \<open>Effects\<close>

text \<open>
  A method of a stateful class: it reads and writes the state and either throws or returns.
  What was written before a throw stays written.
\<close>

type_synonym ('s, 'a) eff = "'s \<Rightarrow> (app_error + 'a) \<times> 's"

definition ret :: "'a \<Rightarrow> ('s, 'a) eff" where
  [effs]: "ret a = (\<lambda>s. (Inr a, s))"

definition throw :: "app_error \<Rightarrow> ('s, 'a) eff" where
  [effs]: "throw e = (\<lambda>s. (Inl e, s))"

definition gets :: "('s \<Rightarrow> 'a) \<Rightarrow> ('s, 'a) eff" where
  [effs]: "gets f = (\<lambda>s. (Inr (f s), s))"

definition modify :: "('s \<Rightarrow> 's) \<Rightarrow> ('s, unit) eff" where
  [effs]: "modify f = (\<lambda>s. (Inr (), f s))"

definition bnd :: "('s, 'a) eff \<Rightarrow> ('a \<Rightarrow> ('s, 'b) eff) \<Rightarrow> ('s, 'b) eff" where
  [effs]: "bnd m f = (\<lambda>s. case m s of (Inl e, t) \<Rightarrow> (Inl e, t) | (Inr a, t) \<Rightarrow> f a t)"

definition seq :: "('s, 'a) eff \<Rightarrow> ('s, 'b) eff \<Rightarrow> ('s, 'b) eff" where
  [effs]: "seq m n = bnd m (\<lambda>_. n)"

definition when_do :: "bool \<Rightarrow> ('s, unit) eff \<Rightarrow> ('s, unit) eff" where
  [effs]: "when_do b m = (if b then m else ret ())"

definition catch :: "('s, 'a) eff \<Rightarrow> (app_error \<Rightarrow> ('s, 'a) eff) \<Rightarrow> ('s, 'a) eff" where
  [effs]: "catch m h = (\<lambda>s. case m s of (Inl e, t) \<Rightarrow> h e t | (Inr a, t) \<Rightarrow> (Inr a, t))"

definition lift_sum :: "(app_error + 'a) \<Rightarrow> ('s, 'a) eff" where
  [effs]: "lift_sum r = (\<lambda>s. (r, s))"

text \<open>A \<open>for\<close> loop that threads an accumulator.\<close>

fun fold_eff :: "('a \<Rightarrow> 'b \<Rightarrow> ('s, 'b) eff) \<Rightarrow> 'a list \<Rightarrow> 'b \<Rightarrow> ('s, 'b) eff" where
  "fold_eff f [] acc = ret acc"
| "fold_eff f (x # xs) acc = bnd (f x acc) (fold_eff f xs)"

definition for_each :: "'a list \<Rightarrow> ('a \<Rightarrow> ('s, unit) eff) \<Rightarrow> ('s, unit) eff" where
  "for_each xs f = fold_eff (\<lambda>x _. f x) xs ()"

lemma for_each_simps [simp]:
  "for_each [] f = ret ()"
  "for_each (x # xs) f = seq (f x) (for_each xs f)"
  by (auto simp: for_each_def seq_def)

lemma bnd_ret [simp]: "bnd (ret a) f = f a"
  by (simp add: effs)

lemma bnd_throw [simp]: "bnd (throw e) f = throw e"
  by (simp add: effs)

lemma bnd_assoc: "bnd (bnd m f) g = bnd m (\<lambda>a. bnd (f a) g)"
  by (auto simp: effs split: sum.splits prod.splits)

lemma bnd_Inr: "bnd m f s = (Inr b, t) \<longleftrightarrow> (\<exists>a u. m s = (Inr a, u) \<and> f a u = (Inr b, t))"
  by (auto simp: effs split: sum.splits prod.splits)

lemma seq_Inr: "seq m n s = (Inr b, t) \<longleftrightarrow> (\<exists>a u. m s = (Inr a, u) \<and> n u = (Inr b, t))"
  by (auto simp: effs split: sum.splits prod.splits)

lemma bnd_run: "m s = (Inr a, t) \<Longrightarrow> bnd m f s = f a t"
  by (simp add: bnd_def)

lemma bnd_fail: "m s = (Inl e, t) \<Longrightarrow> bnd m f s = (Inl e, t)"
  by (simp add: bnd_def)

lemma seq_run: "m s = (Inr a, t) \<Longrightarrow> seq m n s = n t"
  by (simp add: seq_def bnd_def)

lemma seq_fail: "m s = (Inl e, t) \<Longrightarrow> seq m n s = (Inl e, t)"
  by (simp add: seq_def bnd_def)

section \<open>A Hoare logic of effects\<close>

text \<open>\<open>hoare P m Q R\<close>: from a state in P the method returns into Q or throws into R.\<close>

definition hoare ::
    "('s \<Rightarrow> bool) \<Rightarrow> ('s, 'a) eff \<Rightarrow> ('a \<Rightarrow> 's \<Rightarrow> bool) \<Rightarrow> (app_error \<Rightarrow> 's \<Rightarrow> bool) \<Rightarrow> bool" where
  "hoare P m Q R \<longleftrightarrow>
     (\<forall>s. P s \<longrightarrow> (case m s of (Inl e, t) \<Rightarrow> R e t | (Inr a, t) \<Rightarrow> Q a t))"

text \<open>\<open>keeps I m\<close>: the method preserves I whether it returns or throws.\<close>

definition keeps :: "('s \<Rightarrow> bool) \<Rightarrow> ('s, 'a) eff \<Rightarrow> bool" where
  "keeps I m \<longleftrightarrow> (\<forall>s. I s \<longrightarrow> I (snd (m s)))"

lemma hoareD_ok: "hoare P m Q R \<Longrightarrow> P s \<Longrightarrow> m s = (Inr a, t) \<Longrightarrow> Q a t"
  by (fastforce simp: hoare_def)

lemma hoareD_err: "hoare P m Q R \<Longrightarrow> P s \<Longrightarrow> m s = (Inl e, t) \<Longrightarrow> R e t"
  by (fastforce simp: hoare_def)

lemma hoare_bnd [hoare_rules]:
  "hoare P m Q R \<Longrightarrow> (\<And>a. hoare (Q a) (f a) Q' R) \<Longrightarrow> hoare P (bnd m f) Q' R"
  by (fastforce simp: hoare_def effs split: sum.splits prod.splits)

lemma hoare_seq [hoare_rules]:
  "hoare P m (\<lambda>_. Q) R \<Longrightarrow> hoare Q n Q' R \<Longrightarrow> hoare P (seq m n) Q' R"
  unfolding seq_def by (rule hoare_bnd)

lemma hoare_weaken:
  "hoare P m Q R \<Longrightarrow> (\<And>s. P' s \<Longrightarrow> P s) \<Longrightarrow> (\<And>a s. Q a s \<Longrightarrow> Q' a s) \<Longrightarrow>
     (\<And>e s. R e s \<Longrightarrow> R' e s) \<Longrightarrow> hoare P' m Q' R'"
  by (fastforce simp: hoare_def split: sum.splits prod.splits)

lemma keepsI: "(\<And>s. I s \<Longrightarrow> I (snd (m s))) \<Longrightarrow> keeps I m"
  by (simp add: keeps_def)

lemma keepsD: "keeps I m \<Longrightarrow> I s \<Longrightarrow> m s = (r, t) \<Longrightarrow> I t"
  by (metis keeps_def snd_conv)

lemma keeps_hoare: "keeps I m \<Longrightarrow> hoare I m (\<lambda>_. I) (\<lambda>_. I)"
  by (fastforce simp: keeps_def hoare_def split: sum.splits prod.splits)

lemma keeps_ret [keeps_intros]: "keeps I (ret a)"
  by (simp add: keeps_def effs)

lemma keeps_throw [keeps_intros]: "keeps I (throw e)"
  by (simp add: keeps_def effs)

lemma keeps_gets [keeps_intros]: "keeps I (gets f)"
  by (simp add: keeps_def effs)

lemma keeps_lift [keeps_intros]: "keeps I (lift_sum r)"
  by (simp add: keeps_def effs)

lemma keeps_modify: "(\<And>s. I s \<Longrightarrow> I (f s)) \<Longrightarrow> keeps I (modify f)"
  by (simp add: keeps_def effs)

lemma keeps_bnd [keeps_intros]: "keeps I m \<Longrightarrow> (\<And>a. keeps I (f a)) \<Longrightarrow> keeps I (bnd m f)"
  by (fastforce simp: keeps_def effs split: sum.splits prod.splits)

lemma keeps_seq [keeps_intros]: "keeps I m \<Longrightarrow> keeps I n \<Longrightarrow> keeps I (seq m n)"
  unfolding seq_def by (rule keeps_bnd)

lemma keeps_when [keeps_intros]: "(b \<Longrightarrow> keeps I m) \<Longrightarrow> keeps I (when_do b m)"
  by (simp add: when_do_def keeps_ret)

lemma keeps_if [keeps_intros]:
  "(b \<Longrightarrow> keeps I m) \<Longrightarrow> (\<not> b \<Longrightarrow> keeps I n) \<Longrightarrow> keeps I (if b then m else n)"
  by simp

lemma keeps_catch [keeps_intros]:
  "keeps I m \<Longrightarrow> (\<And>e. keeps I (h e)) \<Longrightarrow> keeps I (catch m h)"
  by (fastforce simp: keeps_def effs split: sum.splits prod.splits)

lemma keeps_option [keeps_intros]:
  "(x = None \<Longrightarrow> keeps I m) \<Longrightarrow> (\<And>a. x = Some a \<Longrightarrow> keeps I (f a)) \<Longrightarrow>
     keeps I (case x of None \<Rightarrow> m | Some a \<Rightarrow> f a)"
  by (cases x) simp_all

lemma keeps_prod [keeps_intros]:
  "(\<And>a b. x = (a, b) \<Longrightarrow> keeps I (f a b)) \<Longrightarrow> keeps I (case x of (a, b) \<Rightarrow> f a b)"
  by (cases x) simp

lemma keeps_prod_app [keeps_intros]:
  "(\<And>a b. x = (a, b) \<Longrightarrow> keeps I (f a b c)) \<Longrightarrow> keeps I ((case x of (a, b) \<Rightarrow> f a b) c)"
  by (cases x) simp

lemma keeps_nat [keeps_intros]:
  "(n = 0 \<Longrightarrow> keeps I m) \<Longrightarrow> (\<And>k. n = Suc k \<Longrightarrow> keeps I (f k)) \<Longrightarrow> keeps I (case n of 0 \<Rightarrow> m | Suc k \<Rightarrow> f k)"
  by (cases n) simp_all

lemma keeps_fold_eff [keeps_intros]:
  "(\<And>x acc. x \<in> set xs \<Longrightarrow> keeps I (f x acc)) \<Longrightarrow> keeps I (fold_eff f xs acc)"
  by (induction xs arbitrary: acc) (auto intro: keeps_intros)

lemma keeps_for_each [keeps_intros]:
  "(\<And>x. x \<in> set xs \<Longrightarrow> keeps I (f x)) \<Longrightarrow> keeps I (for_each xs f)"
  unfolding for_each_def by (rule keeps_fold_eff) auto

text \<open>A loop invariant indexed by the elements already visited.\<close>

lemma hoare_fold_eff:
  assumes "\<And>done x todo acc. xs = done @ x # todo \<Longrightarrow>
      hoare (Inv done acc) (f x acc) (Inv (done @ [x])) R"
  shows "hoare (Inv [] acc) (fold_eff f xs acc) (Inv xs) R"
proof -
  have "hoare (Inv pre acc) (fold_eff f suf acc) (Inv xs) R" if "xs = pre @ suf" for pre suf acc
    using that
  proof (induction suf arbitrary: pre acc)
    case Nil
    then show ?case by (simp add: hoare_def effs)
  next
    case (Cons x suf)
    show ?case
      by (simp, rule hoare_bnd [OF assms [OF Cons.prems]], rule Cons.IH) (simp add: Cons.prems)
  qed
  from this [of "[]" xs acc] show ?thesis by simp
qed

section \<open>Insertion-ordered records\<close>

text \<open>
  A JavaScript record keeps its keys in insertion order and is iterated in that order, so it is
  an association list with distinct keys: assignment is \<^const>\<open>AList.update\<close> (an existing key
  keeps its place, a new one goes last) and \<open>delete\<close> is \<^const>\<open>AList.delete\<close>.
\<close>

type_synonym 'v rec = "(string \<times> 'v) list"

abbreviation rget :: "'v rec \<Rightarrow> string \<Rightarrow> 'v option" where
  "rget \<equiv> map_of"

abbreviation rset :: "string \<Rightarrow> 'v \<Rightarrow> 'v rec \<Rightarrow> 'v rec" where
  "rset \<equiv> AList.update"

abbreviation rdel :: "string \<Rightarrow> 'v rec \<Rightarrow> 'v rec" where
  "rdel \<equiv> AList.delete"

abbreviation rkeys :: "'v rec \<Rightarrow> string list" where
  "rkeys r \<equiv> map fst r"

lemma map_of_rset [simp]: "map_of (AList.update k v r) = (map_of r)(k \<mapsto> v)"
  by (rule AList.update_conv')

lemma map_of_rdel [simp]: "map_of (AList.delete k r) = (map_of r)(k := None)"
  by (rule AList.delete_conv')

lemma distinct_rset [simp]: "distinct (map fst r) \<Longrightarrow> distinct (map fst (AList.update k v r))"
  by (rule AList.distinct_update)

lemma distinct_rdel [simp]: "distinct (map fst r) \<Longrightarrow> distinct (map fst (AList.delete k r))"
  by (rule AList.distinct_delete)

lemma set_fst_dom: "set (map fst r) = dom (map_of r)"
  by (simp add: dom_map_of_conv_image_fst)

text \<open>\<open>new Set([...xs, ...ys])\<close> as it is iterated: first occurrences, in order.\<close>

fun uniq_onto :: "'a list \<Rightarrow> 'a list \<Rightarrow> 'a list" where
  "uniq_onto acc [] = rev acc"
| "uniq_onto acc (x # xs) = (if x \<in> set acc then uniq_onto acc xs else uniq_onto (x # acc) xs)"

definition uniq :: "'a list \<Rightarrow> 'a list" where
  "uniq = uniq_onto []"

lemma set_uniq_onto: "set (uniq_onto acc xs) = set acc \<union> set xs"
  by (induction acc xs rule: uniq_onto.induct) auto

lemma distinct_uniq_onto: "distinct acc \<Longrightarrow> distinct (uniq_onto acc xs)"
  by (induction acc xs rule: uniq_onto.induct) auto

lemma set_uniq [simp]: "set (uniq xs) = set xs"
  by (simp add: uniq_def set_uniq_onto)

lemma distinct_uniq [simp]: "distinct (uniq xs)"
  by (simp add: uniq_def distinct_uniq_onto)

end
