(* ===== verification/Wire.thy ===== *)
theory Wire
  imports Prelude
begin

text \<open>
  The wire format that moves objects between a device and a server: the object address
  (\<open>remote/is-object-hash.ts\<close>) and the binary batch frame (\<open>remote/encode-object-frame.ts\<close>,
  \<open>remote/decode-object-frame.ts\<close>).
\<close>

section \<open>Object addresses\<close>

text \<open>The pattern \<open>/^[0-9a-f]{64}$/\<close>.\<close>

definition is_lower_hex :: "char \<Rightarrow> bool" where
  "is_lower_hex c \<longleftrightarrow> c \<in> set ''0123456789abcdef''"

definition is_object_hash :: "string \<Rightarrow> bool" where
  "is_object_hash value \<longleftrightarrow> length value = 64 \<and> list_all is_lower_hex value"

lemma is_object_hash_length: "is_object_hash h \<Longrightarrow> length h = 64"
  by (simp add: is_object_hash_def)

section \<open>Big-endian 32-bit lengths\<close>

text \<open>\<open>DataView.setUint32\<close> and \<open>getUint32\<close> in their default, big-endian order.\<close>

definition set_uint32 :: "nat \<Rightarrow> bytes" where
  "set_uint32 n =
     (let w = (word_of_nat n :: 32 word)
      in [ucast (drop_bit 24 w), ucast (drop_bit 16 w), ucast (drop_bit 8 w), ucast w])"

definition get_uint32 :: "bytes \<Rightarrow> nat" where
  "get_uint32 bs = foldl (\<lambda>acc b. acc * 256 + unat b) 0 (take 4 bs)"

lemma length_set_uint32 [simp]: "length (set_uint32 n) = 4"
  by (simp add: set_uint32_def Let_def)

lemma set_uint32_not_Nil [simp]: "set_uint32 n \<noteq> []"
  by (simp add: set_uint32_def Let_def)

lemma unat_octet:
  assumes "n < 2 ^ 32"
  shows "unat (ucast (drop_bit k (word_of_nat n :: 32 word)) :: byte) = n div 2 ^ k mod 256"
proof -
  have "unat (ucast (drop_bit k (word_of_nat n :: 32 word)) :: byte)
      = take_bit 8 (unat (drop_bit k (word_of_nat n :: 32 word)))"
    by (simp add: unsigned_ucast_eq)
  also have "unat (drop_bit k (word_of_nat n :: 32 word)) = drop_bit k n"
    using assms by (simp add: unsigned_drop_bit_eq unat_of_nat take_bit_nat_eq_self)
  finally show ?thesis
    by (simp add: take_bit_eq_mod drop_bit_eq_div)
qed

lemma unat_low_octet: "n < 2 ^ 32 \<Longrightarrow> unat (ucast (word_of_nat n :: 32 word) :: byte) = n mod 256"
  using unat_octet [of n 0] by simp

lemma base_256:
  fixes n :: nat
  assumes "n < 2 ^ 32"
  shows "((n div 2 ^ 24 mod 256 * 256 + n div 2 ^ 16 mod 256) * 256 + n div 2 ^ 8 mod 256) * 256 + n mod 256 = n"
proof -
  define q1 q2 q3 where "q1 = n div 256" and "q2 = q1 div 256" and "q3 = q2 div 256"
  have quotients: "n div 2 ^ 8 = q1" "n div 2 ^ 16 = q2" "n div 2 ^ 24 = q3"
    by (simp_all add: q1_def q2_def q3_def div_mult2_eq [symmetric])
  have "q3 < 256"
    using assms by (simp add: q1_def q2_def q3_def div_mult2_eq [symmetric] less_mult_imp_div_less)
  then have "q3 mod 256 = q3" by simp
  moreover have "q3 * 256 + q2 mod 256 = q2" "q2 * 256 + q1 mod 256 = q1" "q1 * 256 + n mod 256 = n"
    by (simp_all add: q1_def q2_def q3_def)
  ultimately show ?thesis
    unfolding quotients by simp
qed

lemma get_set_uint32:
  assumes "n < 2 ^ 32"
  shows "get_uint32 (set_uint32 n @ rest) = n"
proof -
  have take4: "take 4 (set_uint32 n @ rest) = set_uint32 n"
    by simp
  have "get_uint32 (set_uint32 n @ rest)
      = ((n div 2 ^ 24 mod 256 * 256 + n div 2 ^ 16 mod 256) * 256 + n div 2 ^ 8 mod 256) * 256 + n mod 256"
    unfolding get_uint32_def take4
    by (simp add: set_uint32_def Let_def unat_octet [OF assms] unat_low_octet [OF assms])
  then show ?thesis
    by (simp only: base_256 [OF assms])
qed

lemma octet_digit:
  fixes x y :: nat
  assumes "x < 256"
  shows "(y * 256 + x) div 256 = y \<and> (y * 256 + x) mod 256 = x"
  using assms by simp

lemma uint32_bytes:
  assumes "4 \<le> length bs"
  shows "set_uint32 (get_uint32 bs) = take 4 bs \<and> get_uint32 bs < 2 ^ 32"
proof -
  from assms obtain a b c d rest where bs: "bs = a # b # c # d # rest"
    by (metis Suc_le_length_iff numeral_eq_Suc pred_numeral_simps(2,3) semiring_norm(26,27,28))
  define n where "n = get_uint32 bs"
  have n: "n = ((unat a * 256 + unat b) * 256 + unat c) * 256 + unat d"
    by (simp add: n_def bs get_uint32_def)
  have small: "unat a < 256" "unat b < 256" "unat c < 256" "unat d < 256"
    using unsigned_less [of a] unsigned_less [of b] unsigned_less [of c] unsigned_less [of d] by simp_all
  then have bound: "n < 2 ^ 32"
    unfolding n by simp
  have q1: "n div 256 = (unat a * 256 + unat b) * 256 + unat c" "n mod 256 = unat d"
    unfolding n using octet_digit [OF small(4)] by blast+
  have q2: "n div 256 div 256 = unat a * 256 + unat b" "n div 256 mod 256 = unat c"
    unfolding q1 using octet_digit [OF small(3)] by blast+
  have q3: "n div 256 div 256 div 256 = unat a" "n div 256 div 256 mod 256 = unat b"
    unfolding q2 using octet_digit [OF small(2)] by blast+
  have shifts: "n div 16777216 = unat a" "n div 65536 = n div 256 div 256"
    using q3(1) by (simp_all add: div_mult2_eq [symmetric])
  have "set_uint32 n = [a, b, c, d]"
    using q1(2) q2(2) q3(2) small(1)
    by (simp add: shifts set_uint32_def Let_def word_unat_eq_iff unat_octet [OF bound] unat_low_octet [OF bound])
  with bound show ?thesis
    by (simp add: n_def bs)
qed

section \<open>Object frames\<close>

text \<open>
  One record is \<open>[64-byte ascii hex hash][u32 BE payload length][payload]\<close>; a frame is the
  repetition of the records of the map, in insertion order.
\<close>

fun encode_object_frame :: "bytes rec \<Rightarrow> app_error + bytes" where
  "encode_object_frame [] = Inr []"
| "encode_object_frame ((hash, payload) # objects) =
     (if \<not> is_object_hash hash then Inl (ValidationError ''Invalid object hash'')
      else case encode_object_frame objects of
          Inl e \<Rightarrow> Inl e
        | Inr rest \<Rightarrow> Inr (utf8_encode hash @ set_uint32 (length payload) @ payload @ rest))"

function decode_from :: "bytes \<Rightarrow> bytes rec \<Rightarrow> app_error + bytes rec" where
  "decode_from frame objects =
     (if frame = [] then Inr objects
      else if length frame < 68 then Inl (ValidationError ''Truncated object frame header'')
      else
        let hash = utf8_decode (take 64 frame);
            len = get_uint32 (drop 64 frame);
            payload = drop 68 frame
        in if \<not> is_object_hash hash then Inl (ValidationError ''Invalid object hash in frame'')
           else if length payload < len then Inl (ValidationError ''Truncated object frame payload'')
           else decode_from (drop len payload) (rset hash (take len payload) objects))"
  by pat_completeness auto
termination
  by (relation "measure (\<lambda>(frame, objects). length frame)") auto

declare decode_from.simps [simp del]

definition decode_object_frame :: "bytes \<Rightarrow> app_error + bytes rec" where
  "decode_object_frame frame = decode_from frame []"

subsection \<open>What a frame is made of\<close>

definition record_bytes :: "string \<times> bytes \<Rightarrow> bytes" where
  "record_bytes r = utf8_encode (fst r) @ set_uint32 (length (snd r)) @ snd r"

definition framable :: "string \<times> bytes \<Rightarrow> bool" where
  "framable r \<longleftrightarrow> is_object_hash (fst r) \<and> length (snd r) < 2 ^ 32"

lemma framable_simps [simp]: "framable (h, b) \<longleftrightarrow> is_object_hash h \<and> length b < 2 ^ 32"
  by (simp add: framable_def)

lemma encode_object_frame_eq:
  "list_all framable rs \<Longrightarrow> encode_object_frame rs = Inr (concat (map record_bytes rs))"
  by (induction rs rule: encode_object_frame.induct) (auto simp: record_bytes_def)

lemma encode_object_frame_Inr:
  "encode_object_frame rs = Inr f \<Longrightarrow> f = concat (map record_bytes rs) \<and> list_all (is_object_hash \<circ> fst) rs"
  by (induction rs arbitrary: f rule: encode_object_frame.induct)
    (auto simp: record_bytes_def split: if_splits sum.splits)

lemma decode_from_record:
  assumes "framable r"
  shows "decode_from (record_bytes r @ rest) objects = decode_from rest (rset (fst r) (snd r) objects)"
proof -
  obtain h b where r: "r = (h, b)" by fastforce
  with assms have h: "is_object_hash h" "length h = 64" and b: "length b < 2 ^ 32"
    by (auto simp: is_object_hash_length)
  let ?f = "utf8_encode h @ set_uint32 (length b) @ b @ rest"
  have take64: "take 64 ?f = utf8_encode h" and drop64: "drop 64 ?f = set_uint32 (length b) @ b @ rest"
    and drop68: "drop 68 ?f = b @ rest"
    using h by (auto simp: drop_append)
  have size: "length ?f \<ge> 68" "?f \<noteq> []" using h by simp_all
  show ?thesis
    unfolding r record_bytes_def
    by (subst decode_from.simps)
      (use size h b in \<open>simp add: Let_def take64 drop64 drop68 get_set_uint32 del: append_is_Nil_conv\<close>)
qed

lemma decode_from_frame:
  "list_all framable rs \<Longrightarrow>
     decode_from (concat (map record_bytes rs)) objects = Inr (foldl (\<lambda>m r. rset (fst r) (snd r) m) objects rs)"
proof (induction rs arbitrary: objects)
  case Nil
  then show ?case by (simp add: decode_from.simps)
next
  case (Cons r rs)
  then show ?case by (simp add: decode_from_record)
qed

lemma foldl_rset_new:
  "distinct (map fst (objects @ rs)) \<Longrightarrow> foldl (\<lambda>m r. rset (fst r) (snd r) m) objects rs = objects @ rs"
proof (induction rs arbitrary: objects)
  case Nil
  then show ?case by simp
next
  case (Cons r rs)
  have new: "rset (fst r) (snd r) objects = objects @ [r]" if "fst r \<notin> fst ` set objects" for objects
    using that by (induction objects) auto
  from Cons.prems have "foldl (\<lambda>m r. rset (fst r) (snd r) m) (objects @ [r]) rs = (objects @ [r]) @ rs"
    by (intro Cons.IH) auto
  with Cons.prems new [of objects] show ?case by auto
qed

lemma decode_from_Inr:
  "decode_from f objects = Inr m \<Longrightarrow>
     \<exists>rs. list_all framable rs \<and> f = concat (map record_bytes rs)
        \<and> m = foldl (\<lambda>m r. rset (fst r) (snd r) m) objects rs"
proof (induction f objects rule: decode_from.induct)
  case (1 f objects)
  show ?case
  proof (cases "f = []")
    case True
    with "1.prems" show ?thesis
      by (intro exI [of _ "[]"]) (simp add: decode_from.simps)
  next
    case False
    let ?hash = "utf8_decode (take 64 f)" and ?len = "get_uint32 (drop 64 f)" and ?payload = "drop 68 f"
    from False "1.prems" have long: "68 \<le> length f" and hash: "is_object_hash ?hash"
      and fits: "?len \<le> length ?payload"
      and step: "decode_from (drop ?len ?payload) (rset ?hash (take ?len ?payload) objects) = Inr m"
      by (simp_all add: decode_from.simps [of f] Let_def not_less split: if_splits)
    obtain rs where rs: "list_all framable rs" "drop ?len ?payload = concat (map record_bytes rs)"
      "m = foldl (\<lambda>m r. rset (fst r) (snd r) m) (rset ?hash (take ?len ?payload) objects) rs"
      using "1.IH" [OF False _ refl refl refl] long hash fits step by (auto simp: not_less)
    let ?r = "(?hash, take ?len ?payload)"
    have len_bytes: "set_uint32 ?len = take 4 (drop 64 f)" and len_bound: "?len < 2 ^ 32"
      using uint32_bytes [of "drop 64 f"] long by auto
    have "take 64 f @ take 4 (drop 64 f) @ drop 4 (drop 64 f) = f"
      by (simp only: append_take_drop_id)
    then have "f = take 64 f @ take 4 (drop 64 f) @ drop 68 f"
      by simp
    then have "f = take 64 f @ take 4 (drop 64 f) @ take ?len ?payload @ drop ?len ?payload"
      by (simp only: append_take_drop_id)
    moreover have "length (take ?len ?payload) = ?len"
      using fits by simp
    ultimately have "f = record_bytes ?r @ drop ?len ?payload"
      by (simp add: record_bytes_def len_bytes del: length_take)
    with rs show ?thesis
      using hash len_bound fits by (intro exI [of _ "?r # rs"]) auto
  qed
qed

section \<open>Properties\<close>

text \<open>
  A batch of objects with distinct, well-formed addresses survives the wire: the receiver
  decodes exactly the map the sender encoded, in the same order.
\<close>

theorem object_frame_roundtrip:
  assumes "distinct (map fst objects)" and "list_all framable objects"
  shows "\<exists>frame. encode_object_frame objects = Inr frame \<and> decode_object_frame frame = Inr objects"
  using assms foldl_rset_new [of "[]" objects]
  by (simp add: encode_object_frame_eq decode_object_frame_def decode_from_frame)

theorem object_frame_roundtrip_witness:
  "\<exists>frame. encode_object_frame [(replicate 64 CHR ''a'', [1, 2, 3]), (replicate 64 CHR ''7'', [])] = Inr frame
     \<and> decode_object_frame frame = Inr [(replicate 64 CHR ''a'', [1, 2, 3]), (replicate 64 CHR ''7'', [])]"
  by (rule object_frame_roundtrip) (simp_all add: is_object_hash_def is_lower_hex_def list_all_iff)

text \<open>
  C40: decoding is strict. A frame is accepted exactly when it is a whole number of well-formed
  records, and the result is the map those records build (a repeated address keeps its last
  payload); a truncated or malformed frame is an error, never a smaller map.
\<close>

theorem decode_object_frame_exact:
  "decode_object_frame frame = Inr objects \<longleftrightarrow>
     (\<exists>rs. list_all framable rs \<and> frame = concat (map record_bytes rs)
        \<and> objects = foldl (\<lambda>m r. rset (fst r) (snd r) m) [] rs)"
  using decode_from_frame decode_from_Inr by (fastforce simp: decode_object_frame_def)

end
