(* ===== verification/Path.thy ===== *)
theory Path
  imports Prelude
begin

text \<open>
  Path strings: \<open>normalizePath\<close> of \<open>packages/path/src/index.node.ts\<close>, the functions of
  Node's \<open>path.posix\<close> that package re-exports (\<open>normalize\<close>, \<open>join\<close> and the
  \<open>resolve\<close> of a relative path against an absolute one), and \<open>splitPathname\<close> of
  \<open>packages/stdlib/src/fs/split-pathname.ts\<close>.
\<close>

abbreviation slash :: char where
  "slash \<equiv> CHR ''/''"

section \<open>Normalisation\<close>

text \<open>\<open>path.replace(/^\\/+/, '')\<close>.\<close>

definition normalize_path :: "string \<Rightarrow> string" where
  "normalize_path = dropWhile (\<lambda>c. c = slash)"

text \<open>
  One segment of Node's \<open>normalizeString\<close>, on the reversed list of the segments kept so far:
  empty segments and \<open>.\<close> vanish, \<open>..\<close> removes the segment before it or stays when there is
  none and it may.
\<close>

definition seg_step :: "bool \<Rightarrow> string list \<Rightarrow> string \<Rightarrow> string list" where
  "seg_step climb st seg =
     (if seg = [] \<or> seg = ''.'' then st
      else if seg = ''..'' then
        (case st of
           [] \<Rightarrow> if climb then [''..''] else []
         | s # rest \<Rightarrow> if s = ''..'' then (if climb then ''..'' # st else st) else rest)
      else seg # st)"

definition norm_segs :: "bool \<Rightarrow> string list \<Rightarrow> string list \<Rightarrow> string list" where
  "norm_segs climb base segs = rev (foldl (seg_step climb) (rev base) segs)"

definition posix_normalize :: "string \<Rightarrow> string" where
  "posix_normalize p =
     (if p = [] then ''.''
      else
        let absolute = hd p = slash; trailing = last p = slash;
            segs = norm_segs (\<not> absolute) [] (split_on slash p)
        in if segs = [] then (if absolute then ''/'' else if trailing then ''./'' else ''.'')
           else (if absolute then ''/'' else []) @ join ''/'' segs @ (if trailing then ''/'' else []))"

definition posix_join :: "string list \<Rightarrow> string" where
  "posix_join ps =
     (let given = filter (\<lambda>p. p \<noteq> []) ps in if given = [] then ''.'' else posix_normalize (join ''/'' given))"

text \<open>\<open>path.resolve(root, p)\<close> for a relative p and an absolute root given by its segments.\<close>

definition resolve_segs :: "string list \<Rightarrow> string \<Rightarrow> string list" where
  "resolve_segs root p = norm_segs False root (split_on slash p)"

subsection \<open>The shape of normalised segments\<close>

definition proper :: "string \<Rightarrow> bool" where
  "proper s \<longleftrightarrow> s \<noteq> [] \<and> s \<noteq> ''.'' \<and> s \<noteq> ''..'' \<and> slash \<notin> set s"

text \<open>Leading \<open>..\<close> segments, then names.\<close>

definition climbs :: "string list \<Rightarrow> bool" where
  "climbs ss \<longleftrightarrow> list_all proper (dropWhile (\<lambda>s. s = ''..'') ss)"

lemma seg_step_proper [simp]: "proper s \<Longrightarrow> seg_step climb st s = s # st"
  by (simp add: seg_step_def proper_def)

lemma foldl_seg_step_proper: "list_all proper ss \<Longrightarrow> foldl (seg_step climb) st ss = rev ss @ st"
  by (induction ss arbitrary: st) auto

lemma norm_segs_proper: "list_all proper ss \<Longrightarrow> norm_segs climb base ss = base @ ss"
  by (simp add: norm_segs_def foldl_seg_step_proper)

lemma norm_segs_append: "norm_segs climb base (ss @ ts) = norm_segs climb (norm_segs climb base ss) ts"
  by (simp add: norm_segs_def)

lemma norm_segs_Nil [simp]: "norm_segs climb base [] = base"
  by (simp add: norm_segs_def)

lemma climbs_Cons: "climbs (s # ss) \<longleftrightarrow> (if s = ''..'' then climbs ss else list_all proper (s # ss))"
  by (simp add: climbs_def)

lemma climbs_proper: "list_all proper ss \<Longrightarrow> climbs ss"
  by (cases ss) (auto simp: climbs_def proper_def)

lemma climbs_snoc_proper: "climbs ss \<Longrightarrow> proper s \<Longrightarrow> climbs (ss @ [s])"
  by (induction ss) (auto simp: climbs_Cons climbs_proper proper_def split: if_splits)

lemma climbs_dots: "climbs (ss @ [''..'']) \<longleftrightarrow> list_all (\<lambda>s. s = ''..'') ss"
  by (induction ss) (auto simp: climbs_Cons climbs_def proper_def split: if_splits)

lemma climbs_butlast: "climbs (ss @ [s]) \<Longrightarrow> climbs ss"
  by (induction ss) (auto simp: climbs_Cons climbs_def split: if_splits)

lemma seg_step_climbs:
  assumes "climbs (rev st)" and "slash \<notin> set s"
  shows "climbs (rev (seg_step True st s))"
proof -
  consider "s = [] \<or> s = ''.''" | "s = ''..''" | "proper s"
    using assms(2) by (auto simp: proper_def)
  then show ?thesis
  proof cases
    case 1
    with assms(1) show ?thesis by (simp add: seg_step_def)
  next
    case 3
    with assms(1) climbs_snoc_proper show ?thesis by simp
  next
    case 2
    show ?thesis
    proof (cases st)
      case Nil
      then show ?thesis
        using 2 by (simp add: seg_step_def climbs_def)
    next
      case (Cons a list)
      then show ?thesis
        using 2 assms(1) climbs_dots [of "rev list @ [''..'']"] climbs_dots [of "rev list"]
        by (auto simp: seg_step_def dest: climbs_butlast)
    qed
  qed
qed

lemma norm_segs_climbs:
  assumes "list_all (\<lambda>s. slash \<notin> set s) ss" and "climbs base"
  shows "climbs (norm_segs True base ss)"
proof -
  have "climbs (rev (foldl (seg_step True) st ss))" if "climbs (rev st)" for st
    using assms(1) that by (induction ss arbitrary: st) (auto simp: seg_step_climbs)
  from this [of "rev base"] assms(2) show ?thesis
    by (simp add: norm_segs_def)
qed

lemma split_on_no_slash: "list_all (\<lambda>s. slash \<notin> set s) (split_on slash p)"
  by (auto simp: list_all_iff dest: split_on_parts)

lemma climbs_no_slash: "climbs ss \<Longrightarrow> list_all (\<lambda>s. slash \<notin> set s) ss"
  by (induction ss) (auto simp: climbs_Cons proper_def list_all_iff split: if_splits)

lemma join_snoc_empty: "ss \<noteq> [] \<Longrightarrow> join [c] ss @ [c] = join [c] (ss @ [[]])"
  by (induction "[c]" ss rule: join.induct) auto

text \<open>What a normalised relative path splits into.\<close>

lemma split_posix_normalize:
  assumes "hd p \<noteq> slash" and "p \<noteq> []"
  shows "\<exists>ss tail. split_on slash (posix_normalize p) = ss @ tail \<and> tail \<in> {[], [[]]} \<and> (climbs ss \<and> ss \<noteq> [] \<or> ss = [''.''])"
proof -
  let ?ss = "norm_segs True [] (split_on slash p)"
  have "climbs ?ss"
    by (intro norm_segs_climbs split_on_no_slash) (simp add: climbs_def)
  then have "list_all (\<lambda>s. slash \<notin> set s) ?ss"
    by (rule climbs_no_slash)
  then have split: "?ss \<noteq> [] \<Longrightarrow> split_on slash (join ''/'' ?ss) = ?ss"
    "?ss \<noteq> [] \<Longrightarrow> split_on slash (join ''/'' ?ss @ ''/'') = ?ss @ [[]]"
    by (simp_all add: split_join join_snoc_empty)
  show ?thesis
  proof (cases "?ss = []")
    case True
    with assms show ?thesis
      by (intro exI [of _ "[''.'']"] exI [of _ "if last p = slash then [[]] else []"])
        (simp add: posix_normalize_def Let_def)
  next
    case False
    with assms split \<open>climbs ?ss\<close> show ?thesis
      by (intro exI [of _ ?ss] exI [of _ "if last p = slash then [[]] else []"])
        (simp add: posix_normalize_def Let_def)
  qed
qed

lemma dropWhile_hd: "xs \<noteq> [] \<Longrightarrow> \<not> P (hd xs) \<Longrightarrow> dropWhile P xs = xs"
  by (cases xs) auto

lemma normalize_path_id: "p \<noteq> [] \<Longrightarrow> hd p \<noteq> slash \<Longrightarrow> normalize_path p = p"
  by (simp add: normalize_path_def dropWhile_hd)

lemma join_not_Nil: "ss \<noteq> [] \<Longrightarrow> hd ss \<noteq> [] \<Longrightarrow> join sep ss \<noteq> [] \<and> hd (join sep ss) = hd (hd ss)"
  by (induction sep ss rule: join.induct) auto

lemma climbs_hd: "climbs ss \<Longrightarrow> ss \<noteq> [] \<Longrightarrow> hd ss \<noteq> [] \<and> hd (hd ss) \<noteq> slash"
  by (cases ss) (auto simp: climbs_Cons proper_def split: if_splits dest: hd_in_set)

lemma posix_normalize_hd:
  assumes "p \<noteq> []" and "hd p \<noteq> slash"
  shows "posix_normalize p \<noteq> [] \<and> hd (posix_normalize p) \<noteq> slash"
proof -
  let ?ss = "norm_segs True [] (split_on slash p)"
  have "climbs ?ss"
    by (intro norm_segs_climbs split_on_no_slash) (simp add: climbs_def)
  with assms join_not_Nil [of ?ss "''/''"] climbs_hd [of ?ss] show ?thesis
    by (auto simp: posix_normalize_def Let_def)
qed

lemma normalize_path_plain: "ss \<noteq> [] \<Longrightarrow> list_all proper ss \<Longrightarrow> normalize_path (join ''/'' ss) = join ''/'' ss"
  using join_not_Nil [of ss "''/''"] climbs_hd [OF climbs_proper] by (intro normalize_path_id) auto

section \<open>Splitting a pathname\<close>

text \<open>\<open>String.lastIndexOf\<close>; \<open>None\<close> is -1.\<close>

fun last_index :: "char \<Rightarrow> string \<Rightarrow> nat option" where
  "last_index c [] = None"
| "last_index c (x # xs) =
     (case last_index c xs of Some i \<Rightarrow> Some (Suc i) | None \<Rightarrow> if x = c then Some 0 else None)"

definition split_pathname :: "string \<Rightarrow> string \<times> string \<times> string" where
  "split_pathname pathname =
     (let (path, filename) =
        (case last_index slash pathname of
           None \<Rightarrow> ([], pathname)
         | Some i \<Rightarrow> (take i pathname, drop (Suc i) pathname))
      in if starts_with filename ''.'' \<and> CHR ''.'' \<notin> set (drop 1 filename) then (path, filename, [])
         else case last_index (CHR ''.'') filename of
             None \<Rightarrow> (path, filename, [])
           | Some i \<Rightarrow> (path, take i filename, drop (Suc i) filename))"

lemma last_index_None: "last_index c s = None \<longleftrightarrow> c \<notin> set s"
  by (induction s) (auto split: option.splits)

lemma last_index_Some:
  "last_index c s = Some i \<Longrightarrow> s = take i s @ c # drop (Suc i) s \<and> c \<notin> set (drop (Suc i) s) \<and> i < length s"
  by (induction s arbitrary: i) (auto simp: last_index_None split: option.splits if_splits)

text \<open>The parts of a pathname, with the separators between them, give it back.\<close>

lemma split_pathname_recompose:
  assumes "split_pathname p = (path, name, ext)"
  shows "\<exists>sep dot. p = path @ sep @ name @ dot @ ext \<and> sep \<in> {[], ''/''} \<and> dot \<in> {[], ''.''}
     \<and> slash \<notin> set (name @ ext) \<and> (ext \<noteq> [] \<longrightarrow> dot = ''.'')"
proof -
  obtain dir base where split: "(case last_index slash p of None \<Rightarrow> ([], p) | Some i \<Rightarrow> (take i p, drop (Suc i) p)) = (dir, base)"
    by fastforce
  have p: "\<exists>sep. p = dir @ sep @ base \<and> sep \<in> {[], ''/''}" and base: "slash \<notin> set base"
    using split last_index_None [of slash p] last_index_Some [of slash p]
    by (auto split: option.splits)
  have parts: "\<exists>dot. base = name @ dot @ ext \<and> dot \<in> {[], ''.''} \<and> (ext \<noteq> [] \<longrightarrow> dot = ''.'')" "path = dir"
    using assms split last_index_Some [of "CHR ''.''" base]
    by (auto simp: split_pathname_def split: if_splits option.splits)
  then obtain dot where "base = name @ dot @ ext" "dot \<in> {[], ''.''}" "ext \<noteq> [] \<longrightarrow> dot = ''.''"
    by blast
  with p base parts(2) show ?thesis
    by (elim exE) (intro exI conjI, auto)
qed

end
