(* ===== verification/NodeFs.thy ===== *)
theory NodeFs
  imports Path
begin

text \<open>
  The disk and \<open>NodeFileSystem\<close> (\<open>packages/vfs-node/src/node-file-system.ts\<close>), the
  backend every other file-system layer ends in. The operating system's part (a tree of files and
  directories with modification times) is explicit; failures of the device itself are not modelled.
  Times are milliseconds; an operation that stamps a file takes the stamp as an argument, so that
  the granularity of the file system's clock is the caller's choice.
\<close>

section \<open>The disk\<close>

datatype node =
    File bytes int int
  | Dir int

text \<open>
  A file's content, modification and birth times; a directory's modification time. A disk: the folder the backend was opened on, and what lies under it, by path segments.
\<close>

record disk =
  root_dir :: "string list"
  nodes :: "(string list \<times> node) list"

record file_head =
  head_size :: nat
  head_modifiedAt :: int
  head_createdAt :: int

datatype vfs_entry = FileEntry string | DirEntry string

datatype errno = ENOENT | ENOTDIR

text \<open>The directories above a path, outermost first.\<close>

definition ancestors :: "string list \<Rightarrow> string list list" where
  "ancestors ks = map (\<lambda>i. take i ks) [1..<length ks]"

definition is_file :: "node option \<Rightarrow> bool" where
  "is_file n = (case n of Some (File _ _ _) \<Rightarrow> True | _ \<Rightarrow> False)"

definition is_dir :: "node option \<Rightarrow> bool" where
  "is_dir n = (case n of Some (Dir _) \<Rightarrow> True | _ \<Rightarrow> False)"

definition os_stat :: "disk \<Rightarrow> string list \<Rightarrow> errno + node" where
  "os_stat d ks =
     (if ks = [] then Inr (Dir 0)
      else case map_of (nodes d) ks of
          Some n \<Rightarrow> Inr n
        | None \<Rightarrow> if list_ex (\<lambda>p. is_file (map_of (nodes d) p)) (ancestors ks) then Inl ENOTDIR else Inl ENOENT)"

text \<open>\<open>fs.mkdir(dir, { recursive: true })\<close> over the directories to make, outermost first.\<close>

fun make_dirs :: "int \<Rightarrow> string list list \<Rightarrow> (string list \<times> node) list \<Rightarrow> app_error + (string list \<times> node) list" where
  "make_dirs t [] ns = Inr ns"
| "make_dirs t (p # ps) ns =
     (case map_of ns p of
        Some (Dir _) \<Rightarrow> make_dirs t ps ns
      | Some (File _ _ _) \<Rightarrow> Inl (IoFailure ''ENOTDIR'')
      | None \<Rightarrow> make_dirs t ps (ns @ [(p, Dir t)]))"

section \<open>The operating-system boundary\<close>

text \<open>\<open>path.relative(from, to)\<close> of two absolute paths.\<close>

fun relative_segs :: "string list \<Rightarrow> string list \<Rightarrow> string list" where
  "relative_segs (x # xs) (y # ys) =
     (if x = y then relative_segs xs ys else map (\<lambda>_. ''..'') (x # xs) @ y # ys)"
| "relative_segs xs ys = map (\<lambda>_. ''..'') xs @ ys"

text \<open>\<open>toOsPath\<close>; the result is given relative to the root it is guaranteed to be under.\<close>

definition to_os_path :: "disk \<Rightarrow> string \<Rightarrow> app_error + string list" where
  "to_os_path d pathname =
     (let abs = resolve_segs (root_dir d) (normalize_path pathname);
          rel = relative_segs (root_dir d) abs
      in if rel \<noteq> [] \<and> hd rel = ''..'' then Inl (ScopeAccessDenied pathname) else Inr rel)"

text \<open>Names of half-written replacements: \<open>/\.arxhub-replace-[0-9a-f-]{36}$/\<close>.\<close>

definition replacing :: "string \<Rightarrow> bool" where
  "replacing name =
     (let n = length name; marker = ''.arxhub-replace-''
      in n \<ge> length marker + 36 \<and>
         take (length marker) (drop (n - (length marker + 36)) name) = marker \<and>
         list_all (\<lambda>c. c \<in> set ''0123456789abcdef-'') (drop (n - 36) name))"

text \<open>\<open>replaceFile\<close>: the temporary is written and renamed over the target in one step of the disk.\<close>

definition replace_file :: "int \<Rightarrow> string list \<Rightarrow> bytes \<Rightarrow> (disk, unit) eff" where
  "replace_file t ks b = (\<lambda>d.
     case make_dirs t (ancestors ks) (nodes d) of
       Inl e \<Rightarrow> (Inl e, d)
     | Inr ns \<Rightarrow>
         if ks = [] \<or> is_dir (map_of ns ks) then (Inl (IoFailure ''EISDIR''), d\<lparr>nodes := ns\<rparr>)
         else (Inr (), d\<lparr>nodes := AList.update ks (File b t t) ns\<rparr>))"

definition on_path :: "string \<Rightarrow> (string list \<Rightarrow> (disk, 'a) eff) \<Rightarrow> (disk, 'a) eff" where
  "on_path pathname f = bnd (gets (\<lambda>d. to_os_path d pathname)) (\<lambda>r. bnd (lift_sum r) f)"

definition fs_list :: "string \<Rightarrow> (disk, vfs_entry list) eff" where
  "fs_list prefix =
     (let norm = normalize_path prefix
      in on_path norm (\<lambda>ks d.
        case os_stat d ks of
          Inl ENOENT \<Rightarrow> (Inr [], d)
        | Inl ENOTDIR \<Rightarrow> (Inl (IoFailure ''File listing failed''), d)
        | Inr (File _ _ _) \<Rightarrow> (Inr (if norm \<noteq> [] then [FileEntry norm] else []), d)
        | Inr (Dir _) \<Rightarrow>
            (Inr (map (\<lambda>(p, n). (let rel = if norm = [] then last p else norm @ ''/'' @ last p
                                  in if is_dir (Some n) then DirEntry rel else FileEntry rel))
                   (filter (\<lambda>(p, n). p \<noteq> [] \<and> butlast p = ks \<and> \<not> replacing (last p)) (nodes d))), d)))"

definition fs_read :: "string \<Rightarrow> (disk, bytes) eff" where
  "fs_read pathname = on_path pathname (\<lambda>ks d.
     case os_stat d ks of
       Inr (File b _ _) \<Rightarrow> (Inr b, d)
     | Inl ENOENT \<Rightarrow> (Inl (FileNotFound pathname), d)
     | _ \<Rightarrow> (Inl (IoFailure ''File read failed''), d))"

text \<open>\<open>readable\<close> followed by reading its stream to the end.\<close>

definition fs_readable :: "string \<Rightarrow> (disk, bytes) eff" where
  "fs_readable pathname = on_path pathname (\<lambda>ks d.
     case os_stat d ks of
       Inr (File b _ _) \<Rightarrow> (Inr b, d)
     | Inr (Dir _) \<Rightarrow> (Inl (IoFailure ''EISDIR''), d)
     | Inl _ \<Rightarrow> (Inl (FileNotFound pathname), d))"

definition fs_write :: "int \<Rightarrow> string \<Rightarrow> bytes \<Rightarrow> (disk, unit) eff" where
  "fs_write t pathname b = on_path pathname (\<lambda>ks. replace_file t ks b)"

text \<open>
  \<open>writable\<close>: opening truncates the file (and keeps its birth time), every chunk written to the
  stream goes to its end.
\<close>

definition fs_truncate :: "int \<Rightarrow> string \<Rightarrow> (disk, unit) eff" where
  "fs_truncate t pathname = on_path pathname (\<lambda>ks d.
     case make_dirs t (ancestors ks) (nodes d) of
       Inl e \<Rightarrow> (Inl e, d)
     | Inr ns \<Rightarrow>
         if ks = [] \<or> is_dir (map_of ns ks) then (Inl (IoFailure ''EISDIR''), d\<lparr>nodes := ns\<rparr>)
         else (Inr (), d\<lparr>nodes := AList.update ks
                 (File [] t (case map_of ns ks of Some (File _ _ c) \<Rightarrow> c | _ \<Rightarrow> t)) ns\<rparr>))"

definition fs_append :: "int \<Rightarrow> string \<Rightarrow> bytes \<Rightarrow> (disk, unit) eff" where
  "fs_append t pathname b = on_path pathname (\<lambda>ks d.
     case make_dirs t (ancestors ks) (nodes d) of
       Inl e \<Rightarrow> (Inl e, d)
     | Inr ns \<Rightarrow>
         if ks = [] \<or> is_dir (map_of ns ks) then (Inl (IoFailure ''EISDIR''), d\<lparr>nodes := ns\<rparr>)
         else (Inr (), d\<lparr>nodes := AList.update ks
                 (case map_of ns ks of Some (File old _ c) \<Rightarrow> File (old @ b) t c | _ \<Rightarrow> File b t t) ns\<rparr>))"

text \<open>\<open>fs.rm\<close> and the handling of its failures.\<close>

definition fs_delete :: "bool \<Rightarrow> bool \<Rightarrow> string \<Rightarrow> (disk, unit) eff" where
  "fs_delete force recursive pathname = on_path pathname (\<lambda>ks d.
     case os_stat d ks of
       Inl ENOENT \<Rightarrow> (if force then Inr () else Inl (FileNotFound pathname), d)
     | Inl ENOTDIR \<Rightarrow> (if force then Inr () else Inl (IoFailure ''ENOTDIR''), d)
     | Inr (File _ _ _) \<Rightarrow> (Inr (), d\<lparr>nodes := AList.delete ks (nodes d)\<rparr>)
     | Inr (Dir _) \<Rightarrow>
         if recursive then (Inr (), d\<lparr>nodes := filter (\<lambda>(p, n). take (length ks) p \<noteq> ks) (nodes d)\<rparr>)
         else (if force then Inr () else Inl (IoFailure ''ERR_FS_EISDIR''), d))"

definition fs_exists :: "string \<Rightarrow> (disk, bool) eff" where
  "fs_exists pathname = on_path pathname (\<lambda>ks d. (Inr (case os_stat d ks of Inr _ \<Rightarrow> True | Inl _ \<Rightarrow> False), d))"

text \<open>A directory's \<open>stat\<close> reports the size of its own block.\<close>

definition dir_size :: nat where "dir_size = 4096"

definition fs_head :: "string \<Rightarrow> (disk, file_head) eff" where
  "fs_head pathname = on_path pathname (\<lambda>ks d.
     case os_stat d ks of
       Inr (File b m c) \<Rightarrow> (Inr \<lparr>head_size = length b, head_modifiedAt = m, head_createdAt = c\<rparr>, d)
     | Inr (Dir m) \<Rightarrow> (Inr \<lparr>head_size = dir_size, head_modifiedAt = m, head_createdAt = m\<rparr>, d)
     | Inl _ \<Rightarrow> (Inl (FileNotFound pathname), d))"


text \<open>
  \<open>resolveRange\<close> (\<open>packages/vfs/src/ops/read-range.ts\<close>). An argument is a whole number
  or one that \<open>Number.isInteger\<close> rejects.
\<close>

datatype num_arg = Whole int | NotWhole

definition resolve_range :: "nat \<Rightarrow> num_arg \<Rightarrow> num_arg option \<Rightarrow> app_error + nat \<times> nat" where
  "resolve_range sz offset len =
     (case offset of
        NotWhole \<Rightarrow> Inl (ValidationError ''Range offset must be an integer'')
      | Whole off \<Rightarrow>
          if (case len of Some NotWhole \<Rightarrow> True | Some (Whole l) \<Rightarrow> l < 0 | None \<Rightarrow> False)
          then Inl (ValidationError ''Range length must be a non-negative integer'')
          else if off < 0 then
            (if len \<noteq> None then Inl (ValidationError ''A suffix range takes no length'')
             else Inr (nat (max 0 (int sz + off)), sz))
          else
            let start = min (nat off) sz
            in Inr (start, case len of Some (Whole l) \<Rightarrow> min (start + nat l) sz | _ \<Rightarrow> sz))"

definition slice :: "nat \<Rightarrow> nat \<Rightarrow> bytes \<Rightarrow> bytes" where
  "slice start stop b = drop start (take stop b)"

definition fs_read_range :: "string \<Rightarrow> num_arg \<Rightarrow> num_arg option \<Rightarrow> (disk, bytes) eff" where
  "fs_read_range pathname offset len = on_path pathname (\<lambda>ks d.
     case os_stat d ks of
       Inl _ \<Rightarrow> (Inl (FileNotFound pathname), d)
     | Inr (File b _ _) \<Rightarrow>
         (case resolve_range (length b) offset len of
            Inl e \<Rightarrow> (Inl e, d)
          | Inr (start, stop) \<Rightarrow> (Inr (slice start stop b), d))
     | Inr (Dir _) \<Rightarrow>
         (case resolve_range dir_size offset len of
            Inl e \<Rightarrow> (Inl e, d)
          | Inr (start, stop) \<Rightarrow> (if stop - start = 0 then Inr [] else Inl (IoFailure ''EISDIR''), d)))"

text \<open>\<open>sameBytes\<close> of \<open>packages/vfs/src/ops/compare-and-swap.ts\<close>.\<close>

fun same_bytes :: "bytes option \<Rightarrow> bytes option \<Rightarrow> bool" where
  "same_bytes None b = (b = None)"
| "same_bytes (Some a) None = False"
| "same_bytes (Some a) (Some b) =
     (if length a \<noteq> length b then False else list_all (\<lambda>i. a ! i = b ! i) [0..<length a])"

lemma same_bytes_eq [simp]: "same_bytes a b \<longleftrightarrow> a = b"
  by (cases a; cases b) (auto simp: list_all_iff intro: nth_equalityI)

definition fs_cas :: "int \<Rightarrow> string \<Rightarrow> bytes option \<Rightarrow> bytes \<Rightarrow> (disk, bool) eff" where
  "fs_cas t pathname expected next = on_path pathname (\<lambda>ks d.
     let current = (case os_stat d ks of
           Inr (File b _ _) \<Rightarrow> Inr (Some b)
         | Inl ENOENT \<Rightarrow> Inr None
         | Inl ENOTDIR \<Rightarrow> Inl (IoFailure ''ENOTDIR'')
         | Inr (Dir _) \<Rightarrow> Inl (IoFailure ''EISDIR''))
     in case current of
          Inl e \<Rightarrow> (Inl e, d)
        | Inr c \<Rightarrow>
            if \<not> same_bytes c expected then (Inr False, d)
            else bnd (replace_file t ks next) (\<lambda>_. ret True) d)"

text \<open>\<open>rename\<close>: \<open>mkdir\<close> of the destination's folder, then \<open>fs.rename\<close> with its refusals.\<close>

definition starts :: "'a list \<Rightarrow> 'a list \<Rightarrow> bool" where
  "starts ks p \<longleftrightarrow> take (length ks) p = ks"

definition move_entry :: "string list \<Rightarrow> string list \<Rightarrow> string list \<times> node \<Rightarrow> string list \<times> node" where
  "move_entry src dest e = (if starts src (fst e) then (dest @ drop (length src) (fst e), snd e) else e)"

definition os_rename :: "string list \<Rightarrow> string list \<Rightarrow> (string list \<times> node) list \<Rightarrow> app_error + (string list \<times> node) list" where
  "os_rename src dest ns =
     (if src = [] \<or> dest = [] then Inl (IoFailure ''EBUSY'')
      else case map_of ns src of
        None \<Rightarrow> Inl (IoFailure ''ENOENT'')
      | Some n \<Rightarrow>
          if src = dest then Inr ns
          else if is_dir (Some n) \<and> starts src dest then Inl (IoFailure ''EINVAL'')
          else if starts dest src then Inl (IoFailure ''ENOTEMPTY'')
          else if is_file (Some n) \<and> is_dir (map_of ns dest) then Inl (IoFailure ''EISDIR'')
          else if is_dir (Some n) \<and> is_file (map_of ns dest) then Inl (IoFailure ''ENOTDIR'')
          else if list_ex (\<lambda>(p, _). starts dest p \<and> p \<noteq> dest) ns then Inl (IoFailure ''ENOTEMPTY'')
          else Inr (map (move_entry src dest) (AList.delete dest ns)))"

definition fs_rename :: "int \<Rightarrow> string \<Rightarrow> string \<Rightarrow> (disk, unit) eff" where
  "fs_rename t src dest = on_path src (\<lambda>fro. on_path dest (\<lambda>to d.
     case make_dirs t (ancestors to) (nodes d) of
       Inl e \<Rightarrow> (Inl e, d)
     | Inr ns \<Rightarrow>
         (case os_rename fro to ns of
            Inl e \<Rightarrow> (Inl e, d\<lparr>nodes := ns\<rparr>)
          | Inr ns' \<Rightarrow> (Inr (), d\<lparr>nodes := ns'\<rparr>))))"

section \<open>Containment\<close>

lemma norm_segs_contained:
  assumes "list_all proper base" and "list_all (\<lambda>s. slash \<notin> set s) ss"
  shows "list_all proper (norm_segs False base ss)"
proof -
  have "list_all proper (rev (foldl (seg_step False) st ss))" if "list_all proper (rev st)" for st
    using assms(2) that
  proof (induction ss arbitrary: st)
    case (Cons s ss)
    have "list_all proper (rev (seg_step False st s))"
      using Cons.prems by (cases st) (auto simp: seg_step_def, simp_all add: proper_def)
    with Cons show ?case by simp
  qed simp
  from this [of "rev base"] assms(1) show ?thesis
    by (simp add: norm_segs_def)
qed

lemma relative_segs_under: "relative_segs xs (xs @ ys) = ys"
  by (induction xs) auto

lemma relative_segs_self: "relative_segs xs xs = []"
  using relative_segs_under [of xs "[]"] by simp

lemma proper_no_slash: "list_all proper ks \<Longrightarrow> list_all (\<lambda>s. slash \<notin> set s) ks"
  by (auto simp: list_all_iff proper_def)

lemma hd_dots: "xs \<noteq> [] \<Longrightarrow> hd (map (\<lambda>_. ''..'') xs) = ''..''"
  by (cases xs) auto

lemma relative_segs_outside:
  "list_all proper ys \<Longrightarrow> (relative_segs xs ys \<noteq> [] \<and> hd (relative_segs xs ys) = ''..'') \<longleftrightarrow> \<not> starts xs ys"
proof (induction xs arbitrary: ys)
  case Nil
  then show ?case
    by (cases ys) (auto simp: starts_def proper_def)
next
  case (Cons x xs)
  then show ?case
    by (cases ys) (auto simp: starts_def hd_dots)
qed

lemma starts_iff: "starts xs ys \<longleftrightarrow> (\<exists>zs. ys = xs @ zs)"
  by (auto simp: starts_def) (metis append_take_drop_id)

lemma resolve_segs_proper: "list_all proper r \<Longrightarrow> list_all proper (resolve_segs r p)"
  unfolding resolve_segs_def by (intro norm_segs_contained split_on_no_slash)

lemma to_os_path_Inr:
  assumes "list_all proper (root_dir d)"
  shows "to_os_path d p = Inr ks \<longleftrightarrow> resolve_segs (root_dir d) (normalize_path p) = root_dir d @ ks"
proof -
  let ?abs = "resolve_segs (root_dir d) (normalize_path p)"
  have "list_all proper ?abs"
    using assms by (rule resolve_segs_proper)
  from relative_segs_outside [OF this, of "root_dir d"] show ?thesis
    by (auto simp: to_os_path_def Let_def starts_iff relative_segs_under relative_segs_self)
qed

lemma to_os_path_proper: "list_all proper (root_dir d) \<Longrightarrow> to_os_path d p = Inr ks \<Longrightarrow> list_all proper ks"
  using resolve_segs_proper [of "root_dir d" "normalize_path p"] by (simp add: to_os_path_Inr)

lemma to_os_path_plain:
  "list_all proper ks \<Longrightarrow> ks \<noteq> [] \<Longrightarrow> list_all proper (root_dir d) \<Longrightarrow> to_os_path d (join ''/'' ks) = Inr ks"
  using norm_segs_proper [of ks False "root_dir d"]
  by (simp add: to_os_path_Inr resolve_segs_def normalize_path_plain split_join proper_no_slash)

section \<open>The tree stays a tree\<close>

text \<open>Every entry has a proper name and lies in directories that are themselves entries.\<close>

definition tree_ok :: "(string list \<times> node) list \<Rightarrow> bool" where
  "tree_ok ns \<longleftrightarrow> distinct (map fst ns) \<and>
     (\<forall>(p, n) \<in> set ns. p \<noteq> [] \<and> list_all proper p \<and> (\<forall>a \<in> set (ancestors p). is_dir (map_of ns a)))"

definition wf_disk :: "disk \<Rightarrow> bool" where
  "wf_disk d \<longleftrightarrow> list_all proper (root_dir d) \<and> tree_ok (nodes d)"

lemma tree_okD:
  assumes "tree_ok ns" and "map_of ns p = Some n"
  shows "p \<noteq> []" "list_all proper p" "a \<in> set (ancestors p) \<Longrightarrow> is_dir (map_of ns a)"
  using assms map_of_SomeD [OF assms(2)] by (auto simp: tree_ok_def)

lemma tree_okI:
  assumes "distinct (map fst ns)"
    and "\<And>p n. map_of ns p = Some n \<Longrightarrow> p \<noteq> [] \<and> list_all proper p \<and> (\<forall>a \<in> set (ancestors p). is_dir (map_of ns a))"
  shows "tree_ok ns"
  unfolding tree_ok_def
proof (intro conjI ballI assms(1))
  fix e assume "e \<in> set ns"
  then have "map_of ns (fst e) = Some (snd e)"
    using assms(1) by simp
  with assms(2) show "case e of (p, n) \<Rightarrow> p \<noteq> [] \<and> list_all proper p \<and> (\<forall>a \<in> set (ancestors p). is_dir (map_of ns a))"
    by (cases e) simp
qed

lemma is_dir_simps [simp]: "is_dir (Some (Dir m))" "\<not> is_dir (Some (File b m c))" "\<not> is_dir None"
  by (simp_all add: is_dir_def)

lemma is_file_simps [simp]: "is_file (Some (File b m c))" "\<not> is_file (Some (Dir m))" "\<not> is_file None"
  by (simp_all add: is_file_def)

lemma is_dirE: "is_dir x \<Longrightarrow> (\<And>m. x = Some (Dir m) \<Longrightarrow> P) \<Longrightarrow> P"
  by (auto simp: is_dir_def split: option.splits node.splits)

lemma not_file_dir: "is_file x \<Longrightarrow> \<not> is_dir x"
  by (auto simp: is_dir_def is_file_def split: option.splits node.splits)

lemma ancestors_iff: "a \<in> set (ancestors p) \<longleftrightarrow> (\<exists>i. 1 \<le> i \<and> i < length p \<and> a = take i p)"
  by (auto simp: ancestors_def image_iff Bex_def)

lemma ancestors_trans: "a \<in> set (ancestors p) \<Longrightarrow> p \<in> set (ancestors q) \<Longrightarrow> a \<in> set (ancestors q)"
proof -
  assume "a \<in> set (ancestors p)" and "p \<in> set (ancestors q)"
  then obtain i j where "1 \<le> i" "i < length p" "a = take i p" "j < length q" "p = take j q"
    by (auto simp: ancestors_iff)
  then have "1 \<le> i \<and> i < length q \<and> a = take i q"
    by (simp add: min_def)
  then show ?thesis
    unfolding ancestors_iff by blast
qed

lemma ancestor_not_self: "p \<notin> set (ancestors p)"
proof
  assume "p \<in> set (ancestors p)"
  then obtain i where "i < length p" "p = take i p"
    by (auto simp: ancestors_iff)
  then have "length p \<le> i"
    by (metis length_take min.cobounded2)
  with \<open>i < length p\<close> show False by simp
qed

lemma ancestor_ok: "a \<in> set (ancestors p) \<Longrightarrow> list_all proper p \<Longrightarrow> a \<noteq> [] \<and> list_all proper a"
  by (auto simp: ancestors_iff list_all_iff dest: in_set_takeD)

lemma map_of_snoc: "map_of (ns @ [(p, n)]) q = (case map_of ns q of Some m \<Rightarrow> Some m | None \<Rightarrow> if q = p then Some n else None)"
  by (simp add: map_add_def split: option.split)

lemma make_dirs_lookup:
  "make_dirs t ps ns = Inr ns' \<Longrightarrow>
     map_of ns' q = (case map_of ns q of Some n \<Rightarrow> Some n | None \<Rightarrow> if q \<in> set ps then Some (Dir t) else None)"
  by (induction t ps ns rule: make_dirs.induct) (auto simp: map_of_snoc split: option.splits node.splits)

lemma make_dirs_distinct: "make_dirs t ps ns = Inr ns' \<Longrightarrow> distinct (map fst ns) \<Longrightarrow> distinct (map fst ns')"
  by (induction t ps ns rule: make_dirs.induct)
    (auto simp: map_of_eq_None_iff split: option.splits node.splits)

lemma make_dirs_dirs: "make_dirs t ps ns = Inr ns' \<Longrightarrow> q \<in> set ps \<Longrightarrow> is_dir (map_of ns' q)"
proof (induction t ps ns rule: make_dirs.induct)
  case (2 t p ps ns)
  then show ?case
    by (cases "q \<in> set ps") (auto simp: make_dirs_lookup map_of_snoc split: option.splits node.splits)
qed simp

lemma make_dirs_fail: "make_dirs t ps ns = Inl e \<Longrightarrow> e = IoFailure ''ENOTDIR'' \<and> (\<exists>q \<in> set ps. is_file (map_of ns q))"
proof (induction t ps ns rule: make_dirs.induct)
  case (2 t p ps ns)
  show ?case
  proof (cases "map_of ns p")
    case None
    with 2 have "e = IoFailure ''ENOTDIR'' \<and> (\<exists>q \<in> set ps. is_file (map_of (ns @ [(p, Dir t)]) q))"
      by simp
    then obtain q where "q \<in> set ps" "is_file (map_of (ns @ [(p, Dir t)]) q)" and e: "e = IoFailure ''ENOTDIR''"
      by blast
    have "is_file (map_of ns q)"
    proof (cases "map_of ns q")
      case None
      then have "map_of (ns @ [(p, Dir t)]) q = (if q = p then Some (Dir t) else None)"
        by (simp only: map_of_snoc option.case)
      with \<open>is_file (map_of (ns @ [(p, Dir t)]) q)\<close> show ?thesis
        by (simp split: if_splits)
    next
      case (Some m)
      then have "map_of (ns @ [(p, Dir t)]) q = map_of ns q"
        by (simp only: map_of_snoc option.case)
      with \<open>is_file (map_of (ns @ [(p, Dir t)]) q)\<close> show ?thesis
        by (simp only:)
    qed
    with e \<open>q \<in> set ps\<close> show ?thesis by auto
  next
    case (Some n)
    with 2 show ?thesis
      by (cases n) auto
  qed
qed simp

lemma make_dirs_ok:
  assumes "tree_ok ns" and "list_all proper ks" and made: "make_dirs t (ancestors ks) ns = Inr ns'"
  shows "tree_ok ns'"
proof (rule tree_okI)
  show "distinct (map fst ns')"
    using assms by (auto simp: tree_ok_def intro: make_dirs_distinct)
  fix p n assume p: "map_of ns' p = Some n"
  show "p \<noteq> [] \<and> list_all proper p \<and> (\<forall>a \<in> set (ancestors p). is_dir (map_of ns' a))"
  proof (cases "map_of ns p")
    case None
    with p made have "p \<in> set (ancestors ks)"
      by (simp add: make_dirs_lookup split: if_splits)
    with ancestor_ok assms(2) make_dirs_dirs [OF made] show ?thesis
      by (blast intro: ancestors_trans)
  next
    case (Some m)
    have "is_dir (map_of ns' a)" if "a \<in> set (ancestors p)" for a
      using tree_okD(3) [OF assms(1) Some that] by (auto simp: make_dirs_lookup [OF made] elim: is_dirE)
    with tree_okD [OF assms(1) Some] show ?thesis by blast
  qed
qed

lemma update_file_ok:
  assumes "tree_ok ns" and "ks \<noteq> []" and "list_all proper ks"
    and "\<forall>a \<in> set (ancestors ks). is_dir (map_of ns a)" and "\<not> is_dir (map_of ns ks)"
  shows "tree_ok (AList.update ks (File b m c) ns)"
proof (rule tree_okI)
  show "distinct (map fst (AList.update ks (File b m c) ns))"
    using assms(1) by (simp add: tree_ok_def AList.distinct_update)
  fix p n assume p: "map_of (AList.update ks (File b m c) ns) p = Some n"
  have "a \<noteq> ks \<and> is_dir (map_of ns a)" if "a \<in> set (ancestors p)" for a
    using that p assms tree_okD(3) [OF assms(1)] by (cases "p = ks") (auto simp: update_conv')
  with p assms tree_okD(1,2) [OF assms(1)]
  show "p \<noteq> [] \<and> list_all proper p \<and> (\<forall>a \<in> set (ancestors p). is_dir (map_of (AList.update ks (File b m c) ns) a))"
    by (cases "p = ks") (auto simp: update_conv')
qed

lemma filter_tree_ok:
  assumes "tree_ok ns"
    and "\<And>p a. a \<in> set (ancestors p) \<Longrightarrow> P p \<Longrightarrow> p \<in> set (map fst ns) \<Longrightarrow> P a"
  shows "tree_ok (filter (\<lambda>(p, n). P p) ns)"
proof (rule tree_okI)
  have dist: "distinct (map fst ns)"
    using assms(1) by (simp add: tree_ok_def)
  then show "distinct (map fst (filter (\<lambda>(p, n). P p) ns))"
    by (induction ns) auto
  have look: "map_of (filter (\<lambda>(p, n). P p) ns) q = (if P q then map_of ns q else None)" for q
    by (induction ns) auto
  fix p n assume "map_of (filter (\<lambda>(p, n). P p) ns) p = Some n"
  then have p: "P p" "map_of ns p = Some n"
    by (simp_all add: look split: if_splits)
  from p(2) have "p \<in> set (map fst ns)"
    by (force dest: map_of_SomeD)
  with p tree_okD [OF assms(1) p(2)] assms(2)
  show "p \<noteq> [] \<and> list_all proper p \<and> (\<forall>a \<in> set (ancestors p). is_dir (map_of (filter (\<lambda>(p, n). P p) ns) a))"
    by (auto simp: look)
qed

lemma delete_file_ok:
  assumes "tree_ok ns" and "\<not> is_dir (map_of ns ks)"
  shows "tree_ok (AList.delete ks ns)"
proof -
  have "tree_ok (filter (\<lambda>(p, n). p \<noteq> ks) ns)"
  proof (rule filter_tree_ok [OF assms(1)])
    fix p a assume "a \<in> set (ancestors p)" "p \<in> set (map fst ns)"
    then show "a \<noteq> ks"
      using tree_okD(3) [OF assms(1)] assms(2) by (fastforce simp: map_of_eq_None_iff dest: not_None_eq [THEN iffD1])
  qed
  then show ?thesis
    by (simp add: AList.delete_eq eq_commute)
qed


lemma starts_refl [simp]: "starts p p"
  by (simp add: starts_def)

lemma starts_trans: "starts a b \<Longrightarrow> starts b c \<Longrightarrow> starts a c"
  by (auto simp: starts_iff)

lemma ancestor_starts: "a \<in> set (ancestors p) \<Longrightarrow> starts a p"
  by (auto simp: ancestors_iff starts_def)

lemma ancestors_append:
  "a \<in> set (ancestors (q @ r)) \<Longrightarrow> q \<noteq> [] \<Longrightarrow>
     a \<in> set (ancestors q) \<or> (\<exists>s. a = q @ s \<and> (s = [] \<or> s \<in> set (ancestors r)))"
proof -
  assume "a \<in> set (ancestors (q @ r))" and "q \<noteq> []"
  then obtain i where i: "1 \<le> i" "i < length q + length r" "a = take i (q @ r)"
    by (auto simp: ancestors_iff)
  show ?thesis
  proof (cases "i < length q")
    case True
    with i have "a \<in> set (ancestors q)"
      by (auto simp: ancestors_iff)
    then show ?thesis ..
  next
    case False
    let ?s = "take (i - length q) r"
    have "a = q @ ?s"
      using i False by simp
    moreover have "?s = [] \<or> ?s \<in> set (ancestors r)"
      using i False by (cases "i = length q") (auto simp: ancestors_iff intro!: exI [of _ "i - length q"])
    ultimately show ?thesis by blast
  qed
qed

lemma starts_ancestor: "starts q p \<Longrightarrow> p \<noteq> q \<Longrightarrow> q \<noteq> [] \<Longrightarrow> q \<in> set (ancestors p)"
  by (auto simp: starts_iff ancestors_iff Suc_le_eq intro!: exI [of _ "length q"])

lemma ancestors_under: "s \<in> set (ancestors r) \<or> s = [] \<and> r \<noteq> [] \<Longrightarrow> q \<noteq> [] \<Longrightarrow> q @ s \<in> set (ancestors (q @ r))"
proof -
  assume "s \<in> set (ancestors r) \<or> s = [] \<and> r \<noteq> []" and "q \<noteq> []"
  then obtain i where "i < length r" "s = take i r"
    by (auto simp: ancestors_iff)
  with \<open>q \<noteq> []\<close> have "1 \<le> length q + i \<and> length q + i < length (q @ r) \<and> q @ s = take (length q + i) (q @ r)"
    by (simp add: Suc_le_eq)
  then show ?thesis
    unfolding ancestors_iff by blast
qed

lemma starts_comparable: "starts a q \<Longrightarrow> starts b q \<Longrightarrow> starts a b \<or> starts b a"
  by (auto simp: starts_iff append_eq_append_conv2)

lemma starts_app [simp]: "starts q (q @ r)"
  by (auto simp: starts_iff)

lemma is_dir_entry: "distinct (map fst ns) \<Longrightarrow> is_dir (map_of ns p) \<longleftrightarrow> (\<exists>m. (p, Dir m) \<in> set ns)"
  by (auto elim: is_dirE dest: map_of_SomeD)

lemma move_entry_inside: "fst (move_entry src dest (src @ r, n)) = dest @ r" "snd (move_entry src dest e) = snd e"
  by (simp_all add: move_entry_def)

lemma move_entry_outside: "\<not> starts src p \<Longrightarrow> move_entry src dest (p, n) = (p, n)"
  by (simp add: move_entry_def)

lemma move_entries_ok:
  assumes ok: "tree_ok ns" and dest: "dest \<noteq> []" "list_all proper dest"
    and above: "\<forall>a \<in> set (ancestors dest). is_dir (map_of ns a)"
    and apart: "src \<noteq> []" "\<not> starts src dest" "\<not> starts dest src"
    and vacant: "\<forall>(p, n) \<in> set ns. \<not> starts dest p"
  shows "tree_ok (map (move_entry src dest) ns)"
proof -
  let ?ns' = "map (move_entry src dest) ns"
  have dist: "distinct (map fst ns)"
    using ok by (simp add: tree_ok_def)
  have "inj_on (fst \<circ> move_entry src dest) (set ns)"
  proof (rule inj_onI)
    fix x y assume xy: "x \<in> set ns" "y \<in> set ns" "(fst \<circ> move_entry src dest) x = (fst \<circ> move_entry src dest) y"
    have fresh: "\<not> starts dest (fst x)" "\<not> starts dest (fst y)"
      using vacant xy(1,2) by auto
    have "starts src (fst x) = starts src (fst y)"
      using xy(3) fresh by (auto simp: move_entry_def split: if_splits) (metis starts_app)+
    with xy(3) have "fst x = fst y"
      by (auto simp: move_entry_def starts_iff split: if_splits)
    with xy dist show "x = y"
      by (metis eq_key_imp_eq_value prod.collapse)
  qed
  then have dist': "distinct (map fst ?ns')"
    using dist by (simp add: distinct_map comp_inj_on_iff inj_on_def)
  have keep: "is_dir (map_of ?ns' a)" if "is_dir (map_of ns a)" "\<not> starts src a" for a
  proof -
    from that obtain m where "(a, Dir m) \<in> set ns" by (auto simp: is_dir_entry [OF dist])
    with that(2) have "(a, Dir m) \<in> set ?ns'" by (force simp: move_entry_outside)
    then show ?thesis by (auto simp: is_dir_entry [OF dist'])
  qed
  have moved: "is_dir (map_of ?ns' (dest @ s))" if "is_dir (map_of ns (src @ s))" for s
  proof -
    from that obtain m where "(src @ s, Dir m) \<in> set ns" by (auto simp: is_dir_entry [OF dist])
    then have "move_entry src dest (src @ s, Dir m) \<in> set ?ns'" by auto
    then have "(dest @ s, Dir m) \<in> set ?ns'" by (simp add: move_entry_def)
    then show ?thesis by (auto simp: is_dir_entry [OF dist'])
  qed
  show ?thesis
  proof (rule tree_okI [OF dist'])
    fix p n assume "map_of ?ns' p = Some n"
    then obtain p0 where e: "(p0, n) \<in> set ns" "p = fst (move_entry src dest (p0, n))"
      by (force dest: map_of_SomeD simp: move_entry_def split: if_splits)
    then have p0: "map_of ns p0 = Some n" using dist by simp
    show "p \<noteq> [] \<and> list_all proper p \<and> (\<forall>a \<in> set (ancestors p). is_dir (map_of ?ns' a))"
    proof (cases "starts src p0")
      case True
      then obtain r where r: "p0 = src @ r" "p = dest @ r"
        using e(2) by (auto simp: starts_iff move_entry_inside)
      have "is_dir (map_of ?ns' a)" if a: "a \<in> set (ancestors p)" for a
        using ancestors_append [OF a [unfolded r(2)] dest(1)]
      proof
        assume "a \<in> set (ancestors dest)"
        with above apart(2) show ?thesis
          by (blast intro: keep dest: ancestor_starts starts_trans)
      next
        assume "\<exists>s. a = dest @ s \<and> (s = [] \<or> s \<in> set (ancestors r))"
        then obtain s where s: "a = dest @ s" "s = [] \<or> s \<in> set (ancestors r)" by blast
        with a ancestor_not_self [of p] have "s \<in> set (ancestors r) \<or> s = [] \<and> r \<noteq> []"
          by (auto simp: r)
        then have "src @ s \<in> set (ancestors p0)"
          unfolding r(1) using apart(1) by (rule ancestors_under)
        with tree_okD(3) [OF ok p0] s(1) show ?thesis
          by (simp add: moved)
      qed
      with dest tree_okD(2) [OF ok p0] show ?thesis
        by (simp add: r)
    next
      case False
      with e have "p = p0" by (simp add: move_entry_outside)
      with False tree_okD [OF ok p0] show ?thesis
        by (auto intro!: keep dest: ancestor_starts starts_trans)
    qed
  qed
qed

lemma os_rename_ok:
  assumes ok: "tree_ok ns" and dest: "list_all proper dest" and above: "\<forall>a \<in> set (ancestors dest). is_dir (map_of ns a)"
    and renamed: "os_rename src dest ns = Inr ns'"
  shows "tree_ok ns'"
proof -
  from renamed obtain n where n: "map_of ns src = Some n" "src \<noteq> []" "dest \<noteq> []"
    by (auto simp: os_rename_def split: if_splits option.splits)
  show ?thesis
  proof (cases "src = dest")
    case True
    with renamed n ok show ?thesis by (auto simp: os_rename_def)
  next
    case False
    with renamed n have checks: "\<not> (is_dir (Some n) \<and> starts src dest)" "\<not> starts dest src"
      "is_dir (Some n) \<longrightarrow> \<not> is_file (map_of ns dest)" "is_file (Some n) \<longrightarrow> \<not> is_dir (map_of ns dest)"
      and vacant: "\<forall>(p, n) \<in> set ns. starts dest p \<longrightarrow> p = dest"
      and ns': "ns' = map (move_entry src dest) (AList.delete dest ns)"
      by (auto simp: os_rename_def list_ex_iff split: if_splits)
    have "\<not> starts src dest"
      using checks(1) above n False starts_ancestor [of src dest] by (cases n) fastforce+
    have eq: "AList.delete dest ns = filter (\<lambda>(p, n). p \<noteq> dest) ns"
      by (simp add: AList.delete_eq eq_commute)
    have "tree_ok (AList.delete dest ns)"
      unfolding eq
    proof (rule filter_tree_ok [OF ok])
      fix p a assume "a \<in> set (ancestors p)" "p \<in> set (map fst ns)"
      then show "a \<noteq> dest"
        using vacant ancestor_starts [of a p] ancestor_not_self by fastforce
    qed
    moreover have "\<forall>a \<in> set (ancestors dest). is_dir (map_of (AList.delete dest ns) a)"
      using above ancestor_not_self [of dest] by auto
    moreover have "\<forall>(p, n) \<in> set (AList.delete dest ns). \<not> starts dest p"
      using vacant by (auto simp: AList.delete_eq)
    ultimately show ?thesis
      unfolding ns' using n dest \<open>\<not> starts src dest\<close> checks(2) by (intro move_entries_ok)
  qed
qed

subsection \<open>Every operation preserves it\<close>

lemma keeps_on_path:
  assumes "\<And>d ks. wf_disk d \<Longrightarrow> to_os_path d p = Inr ks \<Longrightarrow> list_all proper ks \<Longrightarrow> wf_disk (snd (f ks d))"
  shows "keeps wf_disk (on_path p f)"
proof (rule keepsI)
  fix d assume d: "wf_disk d"
  then have "to_os_path d p = Inr ks \<Longrightarrow> list_all proper ks" for ks
    by (auto simp: wf_disk_def intro: to_os_path_proper)
  with d assms show "wf_disk (snd (on_path p f d))"
    by (cases "to_os_path d p") (auto simp: on_path_def effs)
qed

lemma wf_disk_nodes [simp]: "wf_disk (d\<lparr>nodes := ns\<rparr>) \<longleftrightarrow> list_all proper (root_dir d) \<and> tree_ok ns"
  by (simp add: wf_disk_def)

lemma made_update_ok:
  assumes "tree_ok ns" and "list_all proper ks" and "make_dirs t (ancestors ks) ns = Inr ns'"
    and "\<not> (ks = [] \<or> is_dir (map_of ns' ks))"
  shows "tree_ok (AList.update ks (File b m c) ns')"
  using assms make_dirs_ok make_dirs_dirs by (intro update_file_ok) auto

lemma keeps_replace_file: "list_all proper ks \<Longrightarrow> keeps wf_disk (replace_file t ks b)"
  by (rule keepsI) (auto simp: replace_file_def wf_disk_def made_update_ok intro: make_dirs_ok split: sum.split)

lemma keeps_replace_fileD: "list_all proper ks \<Longrightarrow> wf_disk d \<Longrightarrow> wf_disk (snd (replace_file t ks b d))"
  using keeps_replace_file by (auto simp: keeps_def)

lemma keeps_fs_write [keeps_intros]: "keeps wf_disk (fs_write t p b)"
  unfolding fs_write_def by (rule keeps_on_path) (rule keeps_replace_fileD)

lemma keeps_fs_truncate [keeps_intros]: "keeps wf_disk (fs_truncate t p)"
  unfolding fs_truncate_def
  by (rule keeps_on_path) (auto simp: wf_disk_def made_update_ok intro: make_dirs_ok split: sum.split)

lemma keeps_fs_append [keeps_intros]: "keeps wf_disk (fs_append t p b)"
  unfolding fs_append_def
  by (rule keeps_on_path)
    (auto simp: wf_disk_def made_update_ok intro: make_dirs_ok split: sum.split option.split node.split)

lemma keeps_fs_delete [keeps_intros]: "keeps wf_disk (fs_delete force recursive p)"
  unfolding fs_delete_def
proof (rule keeps_on_path)
  fix d ks assume d: "wf_disk d" and "list_all proper ks"
  have "tree_ok (filter (\<lambda>(p, n). take (length ks) p \<noteq> ks) (nodes d))"
    using d by (intro filter_tree_ok) (auto simp: wf_disk_def simp flip: starts_def dest: ancestor_starts starts_trans)
  moreover have "\<not> is_dir (map_of (nodes d) ks) \<Longrightarrow> tree_ok (AList.delete ks (nodes d))"
    using d by (intro delete_file_ok) (simp_all add: wf_disk_def)
  ultimately show "wf_disk (snd (case os_stat d ks of
       Inl ENOENT \<Rightarrow> (if force then Inr () else Inl (FileNotFound p), d)
     | Inl ENOTDIR \<Rightarrow> (if force then Inr () else Inl (IoFailure ''ENOTDIR''), d)
     | Inr (File _ _ _) \<Rightarrow> (Inr (), d\<lparr>nodes := AList.delete ks (nodes d)\<rparr>)
     | Inr (Dir _) \<Rightarrow>
         if recursive then (Inr (), d\<lparr>nodes := filter (\<lambda>(p, n). take (length ks) p \<noteq> ks) (nodes d)\<rparr>)
         else (if force then Inr () else Inl (IoFailure ''ERR_FS_EISDIR''), d)))"
    using d by (auto simp: wf_disk_def os_stat_def split: sum.split errno.split node.split option.split)
qed

lemma keeps_fs_cas [keeps_intros]: "keeps wf_disk (fs_cas t p expected next)"
  unfolding fs_cas_def
  by (rule keeps_on_path)
    (auto simp: Let_def effs dest: keeps_replace_fileD split: sum.split errno.split node.split prod.split
      intro: keepsD [OF keeps_replace_file])

lemma keeps_fs_rename [keeps_intros]: "keeps wf_disk (fs_rename t src dest)"
  unfolding fs_rename_def
proof (rule keeps_on_path)
  fix d fro assume d: "wf_disk d"
  let ?f = "\<lambda>to d. case make_dirs t (ancestors to) (nodes d) of
       Inl e \<Rightarrow> (Inl e, d)
     | Inr ns \<Rightarrow>
         (case os_rename fro to ns of
            Inl e \<Rightarrow> (Inl e, d\<lparr>nodes := ns\<rparr>)
          | Inr ns' \<Rightarrow> (Inr (), d\<lparr>nodes := ns'\<rparr>))"
  have "keeps wf_disk (on_path dest ?f)"
    by (rule keeps_on_path)
      (auto simp: wf_disk_def intro: make_dirs_ok os_rename_ok dest: make_dirs_dirs split: sum.split)
  with d show "wf_disk (snd (on_path dest ?f d))"
    by (simp add: keeps_def)
qed

text \<open>The operations that only look.\<close>

definition reads :: "('s, 'a) eff \<Rightarrow> bool" where
  "reads m \<longleftrightarrow> (\<forall>s. snd (m s) = s)"

lemma reads_on_path: "(\<And>ks. reads (f ks)) \<Longrightarrow> reads (on_path p f)"
  by (auto simp: reads_def on_path_def effs split: sum.split)

lemma fs_queries_read [simp]:
  "reads (fs_list p)" "reads (fs_read p)" "reads (fs_readable p)" "reads (fs_exists p)" "reads (fs_head p)"
  "reads (fs_read_range p off len)"
  unfolding fs_list_def fs_read_def fs_readable_def fs_exists_def fs_head_def fs_read_range_def Let_def
  by (rule reads_on_path; simp add: reads_def split: sum.split errno.split node.split prod.split)+

section \<open>File contents\<close>

lemma keeps_reads: "reads m \<Longrightarrow> keeps I m"
  by (simp add: keeps_def reads_def)

definition file_at :: "disk \<Rightarrow> string \<Rightarrow> bytes option" where
  "file_at d p =
     (case to_os_path d p of
        Inr ks \<Rightarrow> (case os_stat d ks of Inr (File b _ _) \<Rightarrow> Some b | _ \<Rightarrow> None)
      | Inl _ \<Rightarrow> None)"

lemma to_os_path_cong: "root_dir d = root_dir d' \<Longrightarrow> to_os_path d p = to_os_path d' p"
  by (simp add: to_os_path_def)

lemma to_os_path_nodes [simp]: "to_os_path (d\<lparr>nodes := ns\<rparr>) p = to_os_path d p"
  by (simp add: to_os_path_def)

lemma on_path_cases:
  "on_path p f d = (case to_os_path d p of Inl e \<Rightarrow> (Inl e, d) | Inr ks \<Rightarrow> f ks d)"
  by (auto simp: on_path_def effs split: sum.split)

lemma file_at_key: "to_os_path d p = Inr ks \<Longrightarrow>
    file_at d p = (case map_of (nodes d) ks of Some (File b _ _) \<Rightarrow> if ks = [] then None else Some b | _ \<Rightarrow> None)"
  by (auto simp: file_at_def os_stat_def split: option.split node.split)

lemma fs_read_ok: "fs_read p d = (Inr b, d') \<longleftrightarrow> d' = d \<and> file_at d p = Some b"
  by (auto simp: fs_read_def on_path_cases file_at_def split: sum.split errno.split node.split)

lemma fs_readable_ok: "fs_readable p d = (Inr b, d') \<longleftrightarrow> d' = d \<and> file_at d p = Some b"
  by (auto simp: fs_readable_def on_path_cases file_at_def split: sum.split errno.split node.split)

lemma make_dirs_file: "make_dirs t ps ns = Inr ns' \<Longrightarrow> map_of ns' q = Some (File b m c) \<longleftrightarrow> map_of ns q = Some (File b m c)"
  by (auto simp: make_dirs_lookup split: option.splits if_splits)

lemma updated_contents:
  assumes "to_os_path d p = Inr ks" and "make_dirs t (ancestors ks) (nodes d) = Inr ns" and "ks \<noteq> []"
  shows "file_at (d\<lparr>nodes := AList.update ks (File b m c) ns\<rparr>) q
    = (if to_os_path d q = Inr ks then Some b else file_at d q)"
proof (cases "to_os_path d q")
  case (Inl e)
  then show ?thesis by (simp add: file_at_def)
next
  case (Inr ks')
  have "(case map_of ns ks' of Some (File b m c) \<Rightarrow> if ks' = [] then None else Some b | _ \<Rightarrow> None)
    = (case map_of (nodes d) ks' of Some (File b m c) \<Rightarrow> if ks' = [] then None else Some b | _ \<Rightarrow> None)"
    using assms(2) by (auto simp: make_dirs_lookup split: option.split node.split)
  with Inr assms show ?thesis
    by (simp add: file_at_key)
qed

lemma replace_file_ok:
  assumes "to_os_path d p = Inr ks" and "replace_file t ks b d = (Inr u, d')"
  shows "root_dir d' = root_dir d \<and> (\<forall>q. file_at d' q = (if to_os_path d q = to_os_path d p then Some b else file_at d q))"
  using assms by (auto simp: replace_file_def updated_contents split: sum.splits if_splits)

lemma made_dirs_contents:
  assumes "make_dirs t (ancestors ks) (nodes d) = Inr ns"
  shows "file_at (d\<lparr>nodes := ns\<rparr>) = file_at d"
proof
  fix q show "file_at (d\<lparr>nodes := ns\<rparr>) q = file_at d q"
    using make_dirs_lookup [OF assms]
    by (cases "to_os_path d q") (auto simp: file_at_key file_at_def [of _ q] os_stat_def split: option.split node.split)
qed

lemma replace_file_contents_err:
  assumes "to_os_path d p = Inr ks" and "replace_file t ks b d = (Inl e, d')"
  shows "root_dir d' = root_dir d \<and> file_at d' = file_at d"
  using assms by (auto simp: replace_file_def made_dirs_contents split: sum.splits if_splits)

lemma fs_write_ok:
  assumes "fs_write t p b d = (Inr u, d')"
  shows "root_dir d' = root_dir d \<and> (\<forall>q. file_at d' q = (if to_os_path d q = to_os_path d p then Some b else file_at d q))"
  using assms replace_file_ok by (fastforce simp: fs_write_def on_path_cases split: sum.splits)

lemma fs_write_err:
  assumes "fs_write t p b d = (Inl e, d')"
  shows "root_dir d' = root_dir d \<and> file_at d' = file_at d"
  using assms replace_file_contents_err by (fastforce simp: fs_write_def on_path_cases split: sum.splits)

lemma fs_cas_ok:
  assumes "fs_cas t p expected next d = (Inr r, d')"
  shows "root_dir d' = root_dir d \<and> (r \<longleftrightarrow> file_at d p = expected)
     \<and> (\<forall>q. file_at d' q = (if r \<and> to_os_path d q = to_os_path d p then Some next else file_at d q)) \<and> (\<not> r \<longrightarrow> d' = d)"
  using assms replace_file_ok
  by (fastforce simp: fs_cas_def on_path_cases file_at_def [of d p] effs Let_def split: sum.splits errno.splits node.splits
      prod.splits if_splits)

lemma fs_cas_err:
  assumes "fs_cas t p expected next d = (Inl e, d')"
  shows "root_dir d' = root_dir d \<and> file_at d' = file_at d"
  using assms replace_file_contents_err
  by (fastforce simp: fs_cas_def on_path_cases effs Let_def split: sum.splits errno.splits node.splits
      prod.splits if_splits)


lemma fs_append_ok:
  assumes "fs_append t p b d = (Inr u, d')"
  shows "root_dir d' = root_dir d \<and> (\<forall>q. file_at d' q
    = (if to_os_path d q = to_os_path d p then Some (case_option [] id (file_at d p) @ b) else file_at d q))"
proof -
  obtain ks ns where ks: "to_os_path d p = Inr ks" "ks \<noteq> []" and made: "make_dirs t (ancestors ks) (nodes d) = Inr ns"
    and dir: "\<not> is_dir (map_of ns ks)"
    and d': "d' = d\<lparr>nodes := AList.update ks
        (case map_of ns ks of Some (File old _ c) \<Rightarrow> File (old @ b) t c | _ \<Rightarrow> File b t t) ns\<rparr>"
    using assms by (auto simp: fs_append_def on_path_cases split: sum.splits if_splits)
  show ?thesis
  proof (cases "map_of ns ks")
    case None
    then have "file_at d p = None"
      using ks made by (auto simp: file_at_key make_dirs_lookup split: option.splits if_splits)
    with d' None ks made show ?thesis
      by (simp add: updated_contents)
  next
    case (Some n)
    with dir obtain old m c where n: "n = File old m c" by (cases n) auto
    with Some have "file_at d p = Some old"
      using ks made by (auto simp: file_at_key make_dirs_file)
    with d' Some n ks made show ?thesis
      by (simp add: updated_contents)
  qed
qed

lemma fs_append_err: "fs_append t p b d = (Inl e, d') \<Longrightarrow> root_dir d' = root_dir d \<and> file_at d' = file_at d"
  by (auto simp: fs_append_def on_path_cases made_dirs_contents split: sum.splits if_splits)

lemma fs_truncate_ok:
  assumes "fs_truncate t p d = (Inr u, d')"
  shows "root_dir d' = root_dir d \<and> (\<forall>q. file_at d' q = (if to_os_path d q = to_os_path d p then Some [] else file_at d q))"
  using assms by (auto simp: fs_truncate_def on_path_cases updated_contents split: sum.splits if_splits)

lemma fs_truncate_err: "fs_truncate t p d = (Inl e, d') \<Longrightarrow> root_dir d' = root_dir d \<and> file_at d' = file_at d"
  by (auto simp: fs_truncate_def on_path_cases made_dirs_contents split: sum.splits if_splits)

lemma fs_delete_ok:
  assumes "fs_delete force recursive p d = (Inr u, d')" and "file_at d' q \<noteq> file_at d q"
  shows "file_at d' q = None \<and> (\<exists>ks r. to_os_path d p = Inr ks \<and> to_os_path d q = Inr (ks @ r))"
proof -
  obtain ks where ks: "to_os_path d p = Inr ks"
    using assms by (auto simp: fs_delete_def on_path_cases split: sum.splits)
  obtain ks' where ks': "to_os_path d q = Inr ks'"
    using assms by (cases "to_os_path d q")
      (auto simp: file_at_def fs_delete_def on_path_cases ks split: sum.splits errno.splits node.splits if_splits)
  have look: "map_of (filter (\<lambda>(p, n). take (length ks) p \<noteq> ks) ns) x = (if starts ks x then None else map_of ns x)" for ns x
    by (induction ns) (auto simp: starts_def)
  from assms(2) have "d' \<noteq> d" by blast
  with assms(1) consider "d' = d\<lparr>nodes := AList.delete ks (nodes d)\<rparr>"
    | "d' = d\<lparr>nodes := filter (\<lambda>(p, n). take (length ks) p \<noteq> ks) (nodes d)\<rparr>"
    by (auto simp: fs_delete_def on_path_cases ks split: sum.splits errno.splits node.splits if_splits)
  then show ?thesis
    using assms(2)
    by cases (auto simp: ks ks' file_at_key look delete_conv' starts_iff split: if_splits)
qed

lemma fs_delete_err: "fs_delete force recursive p d = (Inl e, d') \<Longrightarrow> d' = d"
  by (auto simp: fs_delete_def on_path_cases split: sum.splits errno.splits node.splits if_splits)

lemma moved_lookup_other:
  assumes "\<not> starts src q" and "\<not> starts dest q"
  shows "map_of (map (move_entry src dest) ns) q = map_of ns q"
  using assms by (induction ns) (auto simp: move_entry_def starts_iff)

lemma fs_rename_ok:
  assumes "fs_rename t src dest d = (Inr u, d')" and "file_at d' q \<noteq> file_at d q"
  shows "\<exists>ks r. (to_os_path d dest = Inr ks \<or> to_os_path d src = Inr ks) \<and> to_os_path d q = Inr (ks @ r)"
proof -
  obtain s0 d0 ns ns' where s0: "to_os_path d src = Inr s0" "to_os_path d dest = Inr d0"
    and made: "make_dirs t (ancestors d0) (nodes d) = Inr ns" and moved: "os_rename s0 d0 ns = Inr ns'"
    and d': "d' = d\<lparr>nodes := ns'\<rparr>"
    using assms(1) by (auto simp: fs_rename_def on_path_cases split: sum.splits)
  obtain k where k: "to_os_path d q = Inr k"
    using assms(2) by (cases "to_os_path d q") (auto simp: file_at_def d')
  have "starts s0 k \<or> starts d0 k"
  proof (rule ccontr)
    assume "\<not> (starts s0 k \<or> starts d0 k)"
    then have "map_of ns' k = map_of ns k"
      using moved moved_lookup_other [of s0 k d0 "AList.delete d0 ns"]
      by (auto simp: os_rename_def delete_conv' split: if_splits option.splits)
    then have "file_at d' q = file_at (d\<lparr>nodes := ns\<rparr>) q"
      using k by (simp add: d' file_at_key)
    with assms(2) made show False
      by (simp add: made_dirs_contents)
  qed
  with k s0 show ?thesis
    by (auto simp: starts_iff)
qed

lemma fs_rename_err: "fs_rename t src dest d = (Inl e, d') \<Longrightarrow> file_at d' = file_at d"
  by (auto simp: fs_rename_def on_path_cases made_dirs_contents split: sum.splits)

lemma fs_delete_root: "fs_delete force recursive p d = (r, d') \<Longrightarrow> root_dir d' = root_dir d"
  by (auto simp: fs_delete_def on_path_cases split: sum.splits errno.splits node.splits if_splits)

lemma fs_rename_root: "fs_rename t src dest d = (r, d') \<Longrightarrow> root_dir d' = root_dir d"
  by (auto simp: fs_rename_def on_path_cases split: sum.splits)

end
