(* ===== verification/Json.thy ===== *)
theory Json
  imports Prelude "HOL-Library.Multiset" "HOL-Library.List_Lexorder" "HOL-Library.Char_ord"
begin

text \<open>
  JSON text as the sync code uses it: \<open>JSON.stringify\<close> (compact, and with the two-space
  indentation of \<open>VirtualFile.writeJSON\<close>), \<open>JSON.parse\<close>, and \<open>stableStringify\<close>
  of \<open>packages/stdlib/src/record/stable-stringify.ts\<close>. Numbers are thousandths: sizes are
  whole numbers, a checkpoint's timestamp is milliseconds divided by 1000.
\<close>

section \<open>Values\<close>

datatype json =
    JNull
  | JBool bool
  | JNum int
  | JStr string
  | JArr "json list"
  | JObj "(string \<times> json) list"

section \<open>Printing\<close>

fun hex_digit :: "nat \<Rightarrow> char" where
  "hex_digit n = (if n < 10 then char_of (48 + n) else char_of (87 + n))"

definition dquote :: char where "dquote = CHR 0x22"
definition backslash :: char where "backslash = CHR 0x5C"

definition escape_char :: "char \<Rightarrow> string" where
  "escape_char c =
     (let n = (of_char c :: nat)
      in if c = dquote \<or> c = backslash then [backslash, c]
         else if n = 8 then [backslash, CHR ''b''] else if n = 9 then [backslash, CHR ''t'']
         else if n = 10 then [backslash, CHR ''n''] else if n = 12 then [backslash, CHR ''f'']
         else if n = 13 then [backslash, CHR ''r'']
         else if n < 32 then [backslash, CHR ''u'', CHR ''0'', CHR ''0'', hex_digit (n div 16), hex_digit (n mod 16)]
         else [c])"

definition quote_json :: "string \<Rightarrow> string" where
  "quote_json s = dquote # concat (map escape_char s) @ [dquote]"

fun show_nat :: "nat \<Rightarrow> string" where
  "show_nat n = (if n < 10 then [char_of (48 + n)] else show_nat (n div 10) @ [char_of (48 + n mod 10)])"

declare show_nat.simps [simp del]

text \<open>At most three decimals, without trailing zeros.\<close>

definition show_fraction :: "nat \<Rightarrow> string" where
  "show_fraction f =
     (let a = char_of (48 + f div 100); b = char_of (48 + f div 10 mod 10); c = char_of (48 + f mod 10)
      in if f = 0 then [] else if f mod 100 = 0 then [CHR ''.'', a]
         else if f mod 10 = 0 then [CHR ''.'', a, b] else [CHR ''.'', a, b, c])"

definition show_num :: "int \<Rightarrow> string" where
  "show_num k = (if k < 0 then ''-'' else '''') @ show_nat (nat \<bar>k\<bar> div 1000) @ show_fraction (nat \<bar>k\<bar> mod 1000)"

text \<open>
  One printer for both forms: \<open>gap l\<close> is what separates the members at nesting level l
  (nothing, or a line break and the indentation), \<open>colon\<close> what follows a key.
\<close>

fun show_json :: "(nat \<Rightarrow> string) \<Rightarrow> string \<Rightarrow> nat \<Rightarrow> json \<Rightarrow> string" where
  "show_json gap colon l JNull = ''null''"
| "show_json gap colon l (JBool b) = (if b then ''true'' else ''false'')"
| "show_json gap colon l (JNum k) = show_num k"
| "show_json gap colon l (JStr s) = quote_json s"
| "show_json gap colon l (JArr vs) =
     (if vs = [] then ''[]''
      else ''['' @ gap (Suc l) @ join ('','' @ gap (Suc l)) (map (show_json gap colon (Suc l)) vs) @ gap l @ '']'')"
| "show_json gap colon l (JObj kvs) =
     (if kvs = [] then ''{}''
      else ''{'' @ gap (Suc l) @
        join ('','' @ gap (Suc l)) (map (\<lambda>(k, v). quote_json k @ colon @ show_json gap colon (Suc l) v) kvs) @ gap l @ ''}'')"

text \<open>\<open>JSON.stringify(value)\<close> and \<open>JSON.stringify(value, null, 2)\<close>.\<close>

definition stringify :: "json \<Rightarrow> string" where
  "stringify = show_json (\<lambda>_. []) '':'' 0"

definition stringify_indented :: "json \<Rightarrow> string" where
  "stringify_indented = show_json (\<lambda>l. char_of (10::nat) # replicate (2 * l) (CHR '' '')) '': '' 0"

text \<open>\<open>stableStringify\<close>: keys sorted at every level, no separators.\<close>

fun stable_stringify :: "json \<Rightarrow> string" where
  "stable_stringify (JArr vs) = ''['' @ join '','' (map stable_stringify vs) @ '']''"
| "stable_stringify (JObj kvs) =
     ''{'' @ join '','' (map (\<lambda>(k, t). quote_json k @ '':'' @ t)
        (sort_key fst (map (\<lambda>(k, v). (k, stable_stringify v)) kvs))) @ ''}''"
| "stable_stringify v = stringify v"

section \<open>Parsing\<close>

definition is_ws :: "char \<Rightarrow> bool" where
  "is_ws c \<longleftrightarrow> (of_char c :: nat) \<in> {9, 10, 13, 32}"

definition skip_ws :: "string \<Rightarrow> string" where
  "skip_ws = dropWhile is_ws"

definition digit_of :: "char \<Rightarrow> nat option" where
  "digit_of c = (let n = of_char c in if 48 \<le> n \<and> n \<le> 57 then Some (n - 48) else None)"

definition hex_of :: "char \<Rightarrow> nat option" where
  "hex_of c =
     (let n = of_char c
      in if 48 \<le> n \<and> n \<le> 57 then Some (n - 48)
         else if 97 \<le> n \<and> n \<le> 102 then Some (n - 87)
         else if 65 \<le> n \<and> n \<le> 70 then Some (n - 55) else None)"

fun unescape :: "char \<Rightarrow> char option" where
  "unescape c =
     (if c = dquote \<or> c = backslash \<or> c = CHR ''/'' then Some c
      else if c = CHR ''b'' then Some (char_of (8::nat)) else if c = CHR ''t'' then Some (char_of (9::nat))
      else if c = CHR ''n'' then Some (char_of (10::nat)) else if c = CHR ''f'' then Some (char_of (12::nat))
      else if c = CHR ''r'' then Some (char_of (13::nat)) else None)"

text \<open>The rest of a string literal, after its opening quote.\<close>

fun parse_string :: "string \<Rightarrow> (string \<times> string) option" where
  "parse_string [] = None"
| "parse_string (c # r) =
     (if c = dquote then Some ([], r)
      else if c = backslash then
        (case r of
           [] \<Rightarrow> None
         | d # r1 \<Rightarrow>
             if d = CHR ''u'' then
               (case r1 of
                  z1 # z2 # h # g # r2 \<Rightarrow>
                    (case (hex_of z1, hex_of z2, hex_of h, hex_of g) of
                       (Some 0, Some 0, Some a, Some b) \<Rightarrow>
                         map_option (\<lambda>(t, q). (char_of (16 * a + b) # t, q)) (parse_string r2)
                     | _ \<Rightarrow> None)
                | _ \<Rightarrow> None)
             else
               (case unescape d of
                  None \<Rightarrow> None
                | Some e \<Rightarrow> map_option (\<lambda>(t, q). (e # t, q)) (parse_string r1)))
      else if (of_char c :: nat) < 32 then None
      else map_option (\<lambda>(t, q). (c # t, q)) (parse_string r))"

fun parse_digits :: "nat \<Rightarrow> string \<Rightarrow> nat \<times> string" where
  "parse_digits n [] = (n, [])"
| "parse_digits n (c # r) = (case digit_of c of Some d \<Rightarrow> parse_digits (10 * n + d) r | None \<Rightarrow> (n, c # r))"

definition parse_nat :: "string \<Rightarrow> (nat \<times> string) option" where
  "parse_nat s =
     (case s of
        [] \<Rightarrow> None
      | c # r \<Rightarrow> (case digit_of c of Some d \<Rightarrow> Some (parse_digits d r) | None \<Rightarrow> None))"

definition parse_fraction :: "string \<Rightarrow> (nat \<times> string) option" where
  "parse_fraction s =
     (case s of
        p # r \<Rightarrow>
          if p \<noteq> CHR ''.'' then Some (0, s)
          else (case parse_nat r of
                  None \<Rightarrow> None
                | Some (f, q) \<Rightarrow>
                    (let k = length r - length q
                     in if k = 1 then Some (100 * f, q) else if k = 2 then Some (10 * f, q)
                        else if k = 3 then Some (f, q) else None))
      | [] \<Rightarrow> Some (0, s))"

text \<open>The grammar takes no digit after a leading zero.\<close>

definition zero_padded :: "string \<Rightarrow> bool" where
  "zero_padded s = (case s of c # d # _ \<Rightarrow> c = CHR ''0'' \<and> digit_of d \<noteq> None | _ \<Rightarrow> False)"

definition parse_unsigned :: "string \<Rightarrow> (int \<times> string) option" where
  "parse_unsigned s =
     (if zero_padded s then None
      else case parse_nat s of
          None \<Rightarrow> None
        | Some (n, r) \<Rightarrow> map_option (\<lambda>(f, q). (int (1000 * n + f), q)) (parse_fraction r))"

definition parse_num :: "string \<Rightarrow> (int \<times> string) option" where
  "parse_num s =
     (case s of
        [] \<Rightarrow> None
      | c # r \<Rightarrow> if c = CHR ''-'' then map_option (\<lambda>(k, q). (- k, q)) (parse_unsigned r) else parse_unsigned s)"

definition literal :: "string \<Rightarrow> json \<Rightarrow> string \<Rightarrow> (json \<times> string) option" where
  "literal w v s = (if starts_with s w then Some (v, drop (length w) s) else None)"

fun parse_value :: "nat \<Rightarrow> string \<Rightarrow> (json \<times> string) option"
  and parse_elems :: "nat \<Rightarrow> string \<Rightarrow> (json list \<times> string) option"
  and parse_members :: "nat \<Rightarrow> string \<Rightarrow> ((string \<times> json) list \<times> string) option" where
  "parse_value 0 s = None"
| "parse_value (Suc n) s =
     (case skip_ws s of
        [] \<Rightarrow> None
      | c # r \<Rightarrow>
          if c = dquote then map_option (\<lambda>(t, q). (JStr t, q)) (parse_string r)
          else if c = CHR ''['' then
            (if skip_ws r \<noteq> [] \<and> hd (skip_ws r) = CHR '']'' then Some (JArr [], tl (skip_ws r))
             else map_option (\<lambda>(vs, q). (JArr vs, q)) (parse_elems n r))
          else if c = CHR ''{'' then
            (if skip_ws r \<noteq> [] \<and> hd (skip_ws r) = CHR ''}'' then Some (JObj [], tl (skip_ws r))
             else map_option (\<lambda>(kvs, q). (JObj kvs, q)) (parse_members n r))
          else if c = CHR ''n'' then literal ''null'' JNull (c # r)
          else if c = CHR ''t'' then literal ''true'' (JBool True) (c # r)
          else if c = CHR ''f'' then literal ''false'' (JBool False) (c # r)
          else map_option (\<lambda>(k, q). (JNum k, q)) (parse_num (c # r)))"
| "parse_elems 0 s = None"
| "parse_elems (Suc n) s =
     (case parse_value n s of
        None \<Rightarrow> None
      | Some (v, r) \<Rightarrow>
          (case skip_ws r of
             [] \<Rightarrow> None
           | c # q \<Rightarrow>
               if c = CHR '','' then map_option (\<lambda>(vs, t). (v # vs, t)) (parse_elems n q)
               else if c = CHR '']'' then Some ([v], q) else None))"
| "parse_members 0 s = None"
| "parse_members (Suc n) s =
     (case skip_ws s of
        [] \<Rightarrow> None
      | d # r0 \<Rightarrow>
          if d \<noteq> dquote then None
          else (case parse_string r0 of
             None \<Rightarrow> None
           | Some (k, r1) \<Rightarrow>
               (case skip_ws r1 of
                  [] \<Rightarrow> None
                | e # r2 \<Rightarrow>
                    if e \<noteq> CHR '':'' then None
                    else (case parse_value n r2 of
                       None \<Rightarrow> None
                     | Some (v, r) \<Rightarrow>
                         (case skip_ws r of
                            [] \<Rightarrow> None
                          | c # q \<Rightarrow>
                              if c = CHR '','' then map_option (\<lambda>(kvs, t). ((k, v) # kvs, t)) (parse_members n q)
                              else if c = CHR ''}'' then Some ([(k, v)], q) else None)))))"

text \<open>\<open>JSON.parse\<close>; the fuel exceeds the number of calls any input of this length needs.\<close>

definition parse_json :: "string \<Rightarrow> json option" where
  "parse_json s =
     (case parse_value (2 * length s + 2) s of
        None \<Rightarrow> None
      | Some (v, r) \<Rightarrow> if skip_ws r = [] then Some v else None)"

section \<open>Printed text parses back\<close>

subsection \<open>String literals\<close>

lemma of_char_eqD: "of_char c = (n::nat) \<Longrightarrow> c = char_of n"
  by (metis char_of_char)

lemma hex_of_hex_digit: "k < (16::nat) \<Longrightarrow> hex_of (hex_digit k) = Some k"
  by (simp add: hex_of_def Let_def)

lemma backslash_not_dquote [simp]: "backslash \<noteq> dquote"
  by (simp add: dquote_def backslash_def)

lemma parse_string_close: "parse_string (dquote # r) = Some ([], r)"
  by simp

lemma parse_string_simple:
  "d \<noteq> CHR ''u'' \<Longrightarrow> unescape d = Some e \<Longrightarrow>
     parse_string (backslash # d # r) = map_option (\<lambda>(t, q). (e # t, q)) (parse_string r)"
  by simp

lemma parse_string_unicode:
  assumes "hex_of h = Some a" and "hex_of g = Some b"
  shows "parse_string (backslash # CHR ''u'' # CHR ''0'' # CHR ''0'' # h # g # r)
    = map_option (\<lambda>(t, q). (char_of (16 * a + b) # t, q)) (parse_string r)"
proof -
  have "hex_of (CHR ''0'') = Some 0"
    by (simp add: hex_of_def)
  with assms show ?thesis by simp
qed

lemma parse_string_plain:
  "c \<noteq> dquote \<Longrightarrow> c \<noteq> backslash \<Longrightarrow> \<not> (of_char c :: nat) < 32 \<Longrightarrow>
     parse_string (c # r) = map_option (\<lambda>(t, q). (c # t, q)) (parse_string r)"
  by simp

declare parse_string.simps(2) [simp del] unescape.simps [simp del] hex_digit.simps [simp del]

lemma unescape_table:
  "unescape dquote = Some dquote" "unescape backslash = Some backslash"
  "unescape (CHR ''b'') = Some (char_of (8::nat))" "unescape (CHR ''t'') = Some (char_of (9::nat))"
  "unescape (CHR ''n'') = Some (char_of (10::nat))" "unescape (CHR ''f'') = Some (char_of (12::nat))"
  "unescape (CHR ''r'') = Some (char_of (13::nat))"
  by (simp_all add: unescape.simps dquote_def backslash_def)

lemma quote_not_u: "dquote \<noteq> CHR ''u''" "backslash \<noteq> CHR ''u''"
  by (simp_all add: dquote_def backslash_def)

lemma parse_string_escape:
  "parse_string (escape_char c @ r) = map_option (\<lambda>(t, q). (c # t, q)) (parse_string r)"
proof -
  let ?n = "of_char c :: nat"
  consider "c = dquote" | "c = backslash"
    | "c \<noteq> dquote" "c \<noteq> backslash" "?n = 8" | "c \<noteq> dquote" "c \<noteq> backslash" "?n = 9"
    | "c \<noteq> dquote" "c \<noteq> backslash" "?n = 10" | "c \<noteq> dquote" "c \<noteq> backslash" "?n = 12"
    | "c \<noteq> dquote" "c \<noteq> backslash" "?n = 13"
    | "c \<noteq> dquote" "c \<noteq> backslash" "?n < 32" "?n \<notin> {8, 9, 10, 12, 13}"
    | "c \<noteq> dquote" "c \<noteq> backslash" "\<not> ?n < 32"
    by blast
  then show ?thesis
  proof cases
    case 8
    then have digits: "?n div 16 < 16" "?n mod 16 < 16"
      by auto
    have "char_of (16 * (?n div 16) + ?n mod 16) = c"
      by (metis char_of_char mult_div_mod_eq)
    moreover have "escape_char c = [backslash, CHR ''u'', CHR ''0'', CHR ''0'', hex_digit (?n div 16), hex_digit (?n mod 16)]"
      using 8 by (simp add: escape_char_def Let_def)
    ultimately show ?thesis
      using parse_string_unicode [OF hex_of_hex_digit [OF digits(1)] hex_of_hex_digit [OF digits(2)], of r] by simp
  qed (simp_all add: escape_char_def Let_def parse_string_simple [OF _ unescape_table(1)]
      parse_string_simple [OF _ unescape_table(2)] parse_string_simple [OF _ unescape_table(3)]
      parse_string_simple [OF _ unescape_table(4)] parse_string_simple [OF _ unescape_table(5)]
      parse_string_simple [OF _ unescape_table(6)] parse_string_simple [OF _ unescape_table(7)]
      quote_not_u of_char_eqD [symmetric] parse_string_plain)
qed

lemma parse_string_quote: "parse_string (concat (map escape_char s) @ dquote # rest) = Some (s, rest)"
  by (induction s) (simp_all add: parse_string_escape parse_string_close)

subsection \<open>Numbers\<close>

definition no_digit :: "string \<Rightarrow> bool" where
  "no_digit s \<longleftrightarrow> (case s of [] \<Rightarrow> True | c # _ \<Rightarrow> digit_of c = None)"

definition number_end :: "string \<Rightarrow> bool" where
  "number_end s \<longleftrightarrow> no_digit s \<and> (case s of [] \<Rightarrow> True | c # _ \<Rightarrow> c \<noteq> CHR ''.'')"

lemma digit_of_digit: "k < 10 \<Longrightarrow> digit_of (char_of (48 + k)) = Some k"
  by (simp add: digit_of_def Let_def)

lemma parse_digits_stop: "no_digit s \<Longrightarrow> parse_digits n s = (n, s)"
  by (cases s) (auto simp: no_digit_def)

lemma parse_digits_show_nat:
  "\<exists>m. parse_digits a (show_nat n @ rest) = parse_digits (a * m + n) rest"
proof (induction n arbitrary: rest rule: show_nat.induct)
  case (1 n)
  show ?case
  proof (cases "n < 10")
    case True
    then show ?thesis
      by (intro exI [of _ 10]) (simp add: show_nat.simps [of n] digit_of_digit mult.commute)
  next
    case False
    let ?d = "char_of (48 + n mod 10) # rest"
    obtain m where "parse_digits a (show_nat (n div 10) @ ?d) = parse_digits (a * m + n div 10) ?d"
      using "1.IH" [OF False] by blast
    with False have "parse_digits a (show_nat n @ rest) = parse_digits (10 * (a * m + n div 10) + n mod 10) rest"
      by (simp add: show_nat.simps [of n] digit_of_digit)
    then have "parse_digits a (show_nat n @ rest) = parse_digits (a * (10 * m) + n) rest"
      by (simp add: algebra_simps)
    then show ?thesis by blast
  qed
qed

lemma show_nat_head: "\<exists>k r. show_nat n = char_of (48 + k) # r \<and> k < (10::nat)"
proof (induction n rule: show_nat.induct)
  case (1 n)
  then show ?case
    by (cases "n < 10") (auto simp: show_nat.simps [of n] simp del: char_of_quasi_inj)
qed

lemma parse_nat_digits:
  "digit_of c = Some d \<Longrightarrow> parse_nat (c # r) = Some (parse_digits 0 (c # r))"
  by (simp add: parse_nat_def)

lemma parse_nat_show: "no_digit rest \<Longrightarrow> parse_nat (show_nat n @ rest) = Some (n, rest)"
proof -
  assume stop: "no_digit rest"
  obtain k :: nat and r where head: "show_nat n = char_of (48 + k) # r" "k < 10"
    using show_nat_head by blast
  obtain m where "parse_digits 0 (show_nat n @ rest) = parse_digits (0 * m + n) rest"
    using parse_digits_show_nat by blast
  then show ?thesis
    using parse_nat_digits [OF digit_of_digit [OF head(2)], of "r @ rest"] head
    by (simp add: parse_digits_stop [OF stop])
qed

lemma parse_nat_literal:
  assumes "no_digit rest" and "a < 10" and "b < 10" and "c < 10"
  shows "parse_nat (char_of (48 + a) # rest) = Some (a, rest)"
    and "parse_nat (char_of (48 + a) # char_of (48 + b) # rest) = Some (10 * a + b, rest)"
    and "parse_nat (char_of (48 + a) # char_of (48 + b) # char_of (48 + c) # rest) = Some (100 * a + 10 * b + c, rest)"
  using assms by (simp_all add: parse_nat_def digit_of_digit parse_digits_stop)

lemma parse_fraction_show:
  assumes "f < 1000" and "number_end rest"
  shows "parse_fraction (show_fraction f @ rest) = Some (f, rest)"
proof -
  have stop: "no_digit rest" and dot: "rest \<noteq> [] \<Longrightarrow> hd rest \<noteq> CHR ''.''"
    using assms(2) by (auto simp: number_end_def split: list.splits)
  have digits: "f div 100 < 10" "f div 10 mod 10 < 10" "f mod 10 < 10"
    using assms(1) by auto
  have "f div 100 = f div 10 div 10"
    by (simp add: div_mult2_eq [symmetric])
  moreover have "10 * (f div 10 div 10) + f div 10 mod 10 = f div 10" and "10 * (f div 10) + f mod 10 = f"
    by simp_all
  ultimately have hundreds: "100 * (f div 100) + 10 * (f div 10 mod 10) + f mod 10 = f"
    by linarith
  have tens: "100 * (f div 100) + 10 * (f div 10 mod 10) = f" if "f mod 10 = 0"
    using hundreds that by simp
  have ones: "100 * (f div 100) = f" if "f mod 100 = 0"
    using that by auto
  note lits = parse_nat_literal [OF stop digits]
  let ?a = "char_of (48 + f div 100)" and ?b = "char_of (48 + f div 10 mod 10)" and ?c = "char_of (48 + f mod 10)"
  consider "f = 0" | "f \<noteq> 0" "f mod 100 = 0" | "f mod 100 \<noteq> 0" "f mod 10 = 0" | "f mod 10 \<noteq> 0"
    by auto
  then show ?thesis
  proof cases
    case 1
    with dot show ?thesis
      by (auto simp: show_fraction_def parse_fraction_def Let_def split: list.splits)
  next
    case 2
    then have "show_fraction f = [CHR ''.'', ?a]"
      by (simp add: show_fraction_def Let_def)
    then show ?thesis
      using ones [OF 2(2)] by (simp add: parse_fraction_def lits(1) Let_def)
  next
    case 3
    then have "f \<noteq> 0" by auto
    with 3 have "show_fraction f = [CHR ''.'', ?a, ?b]"
      by (simp add: show_fraction_def Let_def)
    then show ?thesis
      using tens [OF 3(2)] by (simp add: parse_fraction_def lits(2) Let_def)
  next
    case 4
    moreover have "f mod 100 mod 10 = f mod 10"
      by (rule mod_mod_cancel) simp
    ultimately have "f \<noteq> 0" "f mod 100 \<noteq> 0"
      by (metis mod_0)+
    with 4 have "show_fraction f = [CHR ''.'', ?a, ?b, ?c]"
      by (simp add: show_fraction_def Let_def)
    then show ?thesis
      using hundreds by (simp add: parse_fraction_def lits(3) Let_def)
  qed
qed

lemma fraction_no_digit: "number_end rest \<Longrightarrow> no_digit (show_fraction f @ rest)"
  by (auto simp: show_fraction_def number_end_def no_digit_def digit_of_def Let_def)

lemma show_nat_lead: "show_nat n = CHR ''0'' # r \<Longrightarrow> r = [] \<and> n = 0"
proof (induction n arbitrary: r rule: show_nat.induct)
  case (1 n)
  show ?case
  proof (cases "n < 10")
    case True
    with 1(2) have "r = []" "char_of (48 + n) = CHR ''0''" by (simp_all add: show_nat.simps)
    from arg_cong [OF this(2), where f = "of_char :: char \<Rightarrow> nat"] True \<open>r = []\<close> show ?thesis by simp
  next
    case False
    with 1(2) have split: "show_nat (n div 10) @ [char_of (48 + n mod 10)] = CHR ''0'' # r"
      by (subst (asm) show_nat.simps) simp
    obtain q where q: "show_nat (n div 10) = CHR ''0'' # q"
      using show_nat_head [of "n div 10"] split by auto
    with 1(1) False have "n div 10 = 0" by blast
    with False show ?thesis by simp
  qed
qed

lemma show_nat_not_padded: "no_digit t \<Longrightarrow> \<not> zero_padded (show_nat n @ t)"
  using show_nat_lead [of n] show_nat_head [of n]
  by (auto simp: zero_padded_def no_digit_def split: list.splits)

lemma parse_unsigned_show:
  assumes "number_end rest"
  shows "parse_unsigned (show_nat (n div 1000) @ show_fraction (n mod 1000) @ rest) = Some (int n, rest)"
  using assms
  by (simp add: parse_unsigned_def show_nat_not_padded parse_nat_show fraction_no_digit parse_fraction_show del: of_nat_add of_nat_mult)

lemma parse_num_show: "number_end rest \<Longrightarrow> parse_num (show_num k @ rest) = Some (k, rest)"
proof -
  assume stop: "number_end rest"
  obtain j :: nat and r where head: "show_nat (nat \<bar>k\<bar> div 1000) = char_of (48 + j) # r" "j < 10"
    using show_nat_head by blast
  have "digit_of (CHR ''-'') = None"
    by (simp add: digit_of_def)
  then have "char_of (48 + j) \<noteq> CHR ''-''"
    using digit_of_digit [OF head(2)] by fastforce
  then show ?thesis
    using parse_unsigned_show [OF stop, of "nat \<bar>k\<bar>"] head
    by (auto simp: parse_num_def show_num_def)
qed

subsection \<open>Whole values\<close>

text \<open>The calls a value costs, and the text it takes.\<close>

fun json_cost :: "json \<Rightarrow> nat" where
  "json_cost (JArr vs) = Suc (sum_list (map (\<lambda>v. Suc (json_cost v)) vs))"
| "json_cost (JObj kvs) = Suc (sum_list (map (\<lambda>(k, v). Suc (json_cost v)) kvs))"
| "json_cost v = 1"

definition all_ws :: "string \<Rightarrow> bool" where
  "all_ws s \<longleftrightarrow> list_all is_ws s"

lemma skip_ws_append: "all_ws w \<Longrightarrow> skip_ws (w @ s) = skip_ws s"
  by (induction w) (auto simp: all_ws_def skip_ws_def)

lemma skip_ws_Cons: "\<not> is_ws c \<Longrightarrow> skip_ws (c # s) = c # s"
  by (simp add: skip_ws_def)

lemma parse_value_skip: "all_ws w \<Longrightarrow> parse_value n (w @ s) = parse_value n s"
  by (cases n) (simp_all add: skip_ws_append)

lemma parse_elems_skip: "all_ws w \<Longrightarrow> parse_elems n (w @ s) = parse_elems n s"
  by (cases n) (simp_all add: parse_value_skip)

lemma parse_members_skip: "all_ws w \<Longrightarrow> parse_members n (w @ s) = parse_members n s"
  by (cases n) (simp_all add: skip_ws_append)

lemma punctuation_not_ws:
  "\<not> is_ws dquote" "\<not> is_ws (CHR ''['')" "\<not> is_ws (CHR '']'')" "\<not> is_ws (CHR ''{'')" "\<not> is_ws (CHR ''}'')"
  "\<not> is_ws (CHR '','')" "\<not> is_ws (CHR '':'')" "\<not> is_ws (CHR ''n'')" "\<not> is_ws (CHR ''t'')" "\<not> is_ws (CHR ''f'')"
  by (simp_all add: is_ws_def dquote_def)

lemma is_ws_number_end: "is_ws c \<Longrightarrow> number_end (c # s)"
  by (auto simp: is_ws_def number_end_def no_digit_def digit_of_def Let_def)

lemma punctuation_number_end:
  "number_end (CHR '']'' # s)" "number_end (CHR ''}'' # s)" "number_end (CHR '','' # s)" "number_end []"
  by (simp_all add: number_end_def no_digit_def digit_of_def)

lemma gap_number_end: "all_ws w \<Longrightarrow> number_end r \<Longrightarrow> number_end (w @ r)"
  by (cases w) (auto simp: all_ws_def is_ws_number_end)

definition number_start :: "char \<Rightarrow> bool" where
  "number_start c \<longleftrightarrow> \<not> is_ws c \<and> c \<notin> {dquote, CHR ''['', CHR ''{'', CHR ''n'', CHR ''t'', CHR ''f'', CHR '']''}"

lemma digit_number_start: "k < (10::nat) \<Longrightarrow> number_start (char_of (48 + k))"
proof -
  assume "k < 10"
  then have "k \<in> {0, 1, 2, 3, 4, 5, 6, 7, 8, 9}" by auto
  then show ?thesis
    by (elim insertE emptyE) (simp_all add: number_start_def is_ws_def dquote_def char_of_def)
qed

lemma show_num_head: "\<exists>c r. show_num k = c # r \<and> number_start c"
proof -
  obtain j :: nat and r where head: "show_nat (nat \<bar>k\<bar> div 1000) = char_of (48 + j) # r" "j < 10"
    using show_nat_head by blast
  have "number_start (CHR ''-'')"
    by (simp add: number_start_def is_ws_def dquote_def)
  with head digit_number_start [OF head(2)] show ?thesis
    by (auto simp: show_num_def)
qed

text \<open>The first character of a printed value: never white space, never a closing bracket.\<close>

lemma show_json_head: "\<exists>c r. show_json gap colon l v = c # r \<and> \<not> is_ws c \<and> c \<noteq> CHR '']''"
proof (cases v)
  case (JNum k)
  then show ?thesis
    using show_num_head [of k] by (auto simp: number_start_def)
next
  case (JStr t)
  then show ?thesis
    by (simp add: quote_json_def punctuation_not_ws) (simp add: dquote_def)
qed (auto simp: punctuation_not_ws)

lemma parse_elems_printed:
  assumes "\<And>v n rest. v \<in> set vs \<Longrightarrow> json_cost v \<le> n \<Longrightarrow> number_end rest \<Longrightarrow>
      parse_value n (f v @ rest) = Some (v, rest)"
    and "all_ws g" and "all_ws w" and "vs \<noteq> []"
    and "sum_list (map (\<lambda>v. Suc (json_cost v)) vs) \<le> n"
  shows "parse_elems n (join (CHR '','' # g) (map f vs) @ w @ CHR '']'' # rest) = Some (vs, rest)"
  using assms(1,4,5)
proof (induction vs arbitrary: n)
  case Nil
  then show ?case by simp
next
  case (Cons v vs)
  then obtain m where n: "n = Suc m" "json_cost v \<le> m"
    by (cases n) auto
  show ?case
  proof (cases vs)
    case Nil
    then have "parse_value m (f v @ w @ CHR '']'' # rest) = Some (v, w @ CHR '']'' # rest)"
      using Cons.prems(1) n(2) gap_number_end [OF assms(3) punctuation_number_end(1)] by auto
    then show ?thesis
      using n Nil by (simp add: skip_ws_append [OF assms(3)] skip_ws_Cons [OF punctuation_not_ws(3)])
  next
    case (Cons u us)
    let ?tail = "join (CHR '','' # g) (map f vs) @ w @ CHR '']'' # rest"
    have first: "parse_value m (f v @ CHR '','' # g @ ?tail) = Some (v, CHR '','' # g @ ?tail)"
      using Cons.prems(1) n(2) punctuation_number_end(3) by auto
    have "parse_elems m ?tail = Some (vs, rest)"
      by (rule Cons.IH) (use Cons.prems Cons n in \<open>auto\<close>)
    with first show ?thesis
      using n Cons by (simp add: skip_ws_Cons [OF punctuation_not_ws(6)] parse_elems_skip [OF assms(2)])
  qed
qed

lemma parse_members_printed:
  assumes "\<And>k v n rest. (k, v) \<in> set kvs \<Longrightarrow> json_cost v \<le> n \<Longrightarrow> number_end rest \<Longrightarrow>
      parse_value n (f v @ rest) = Some (v, rest)"
    and "all_ws g" and "all_ws w" and "all_ws x" and "kvs \<noteq> []"
    and "sum_list (map (\<lambda>(k, v). Suc (json_cost v)) kvs) \<le> n"
  shows "parse_members n
      (join (CHR '','' # g) (map (\<lambda>(k, v). quote_json k @ (CHR '':'' # x) @ f v) kvs) @ w @ CHR ''}'' # rest)
    = Some (kvs, rest)"
  using assms(1,5,6)
proof (induction kvs arbitrary: n)
  case Nil
  then show ?case by simp
next
  case (Cons kv kvs)
  obtain k v where kv: "kv = (k, v)" by fastforce
  with Cons.prems obtain m where n: "n = Suc m" "json_cost v \<le> m"
    by (cases n) auto
  have key: "parse_members (Suc m) (quote_json k @ (CHR '':'' # x) @ s) =
      (case parse_value m s of
         None \<Rightarrow> None
       | Some (v, r) \<Rightarrow>
           (case skip_ws r of
              [] \<Rightarrow> None
            | c # q \<Rightarrow>
                if c = CHR '','' then map_option (\<lambda>(kvs, t). ((k, v) # kvs, t)) (parse_members m q)
                else if c = CHR ''}'' then Some ([(k, v)], q) else None))" for s
    by (simp add: quote_json_def skip_ws_Cons punctuation_not_ws parse_string_quote parse_value_skip [OF assms(4)])
  show ?case
  proof (cases kvs)
    case Nil
    then have "parse_value m (f v @ w @ CHR ''}'' # rest) = Some (v, w @ CHR ''}'' # rest)"
      using Cons.prems(1) kv n(2) gap_number_end [OF assms(3) punctuation_number_end(2)] by auto
    then show ?thesis
      using n Nil kv key by (simp add: skip_ws_append [OF assms(3)] skip_ws_Cons punctuation_not_ws)
  next
    case (Cons u us)
    let ?tail = "join (CHR '','' # g) (map (\<lambda>(k, v). quote_json k @ (CHR '':'' # x) @ f v) kvs) @ w @ CHR ''}'' # rest"
    have first: "parse_value m (f v @ CHR '','' # g @ ?tail) = Some (v, CHR '','' # g @ ?tail)"
      by (rule Cons.prems(1) [of k]) (use kv n(2) punctuation_number_end(3) in \<open>simp_all\<close>)
    have "parse_members m ?tail = Some (kvs, rest)"
      by (rule Cons.IH) (use Cons.prems Cons n kv in \<open>auto\<close>)
    with first show ?thesis
      using n Cons kv key by (simp add: skip_ws_Cons [OF punctuation_not_ws(6)] parse_members_skip [OF assms(2)])
  qed
qed

definition layout :: "(nat \<Rightarrow> string) \<Rightarrow> string \<Rightarrow> bool" where
  "layout gap colon \<longleftrightarrow> (\<forall>l. all_ws (gap l)) \<and> (\<exists>x. colon = CHR '':'' # x \<and> all_ws x)"

lemma parse_value_printed:
  assumes lay: "layout gap colon"
  shows "json_cost v \<le> n \<Longrightarrow> number_end rest \<Longrightarrow>
     parse_value n (show_json gap colon l v @ rest) = Some (v, rest)"
proof (induction v arbitrary: n l rest)
  case (JNum k)
  obtain c r where head: "show_num k = c # r" "number_start c"
    using show_num_head by blast
  from JNum obtain m where "n = Suc m" by (cases n) auto
  with JNum head parse_num_show [of rest k] show ?case
    by (auto simp: number_start_def skip_ws_Cons)
next
  case (JStr s)
  then obtain m where "n = Suc m" by (cases n) auto
  then show ?case
    by (simp add: quote_json_def skip_ws_Cons punctuation_not_ws parse_string_quote)
next
  case (JArr vs)
  then obtain m where n: "n = Suc m" by (cases n) auto
  have bracket: "CHR ''['' \<noteq> dquote" by (simp add: dquote_def)
  have gaps: "all_ws (gap i)" for i
    using lay by (simp add: layout_def)
  show ?case
  proof (cases "vs = []")
    case True
    with n bracket show ?thesis
      by (simp add: skip_ws_Cons punctuation_not_ws)
  next
    case False
    let ?body = "join (CHR '','' # gap (Suc l)) (map (show_json gap colon (Suc l)) vs) @ gap l @ CHR '']'' # rest"
    have elems: "parse_elems m ?body = Some (vs, rest)"
      by (rule parse_elems_printed [OF _ gaps gaps False]) (use JArr n in \<open>auto\<close>)
    obtain u us where vs: "vs = u # us" using False by (cases vs) auto
    obtain c r where head: "show_json gap colon (Suc l) u = c # r" "\<not> is_ws c" "c \<noteq> CHR '']''"
      using show_json_head by blast
    have "\<exists>r'. ?body = c # r'"
      using head(1) vs by (cases us) auto
    then have "skip_ws (gap (Suc l) @ ?body) \<noteq> [] \<and> hd (skip_ws (gap (Suc l) @ ?body)) \<noteq> CHR '']''"
      using head by (auto simp: skip_ws_append [OF gaps] skip_ws_Cons)
    then show ?thesis
      using n False bracket elems
      by (simp add: skip_ws_Cons punctuation_not_ws parse_elems_skip [OF gaps])
  qed
next
  case (JObj kvs)
  then obtain m where n: "n = Suc m" by (cases n) auto
  have brace: "CHR ''{'' \<noteq> dquote" "dquote \<noteq> CHR ''}''" by (simp_all add: dquote_def)
  obtain x where colon: "colon = CHR '':'' # x" and x: "all_ws x"
    using lay by (auto simp: layout_def)
  have gaps: "all_ws (gap i)" for i
    using lay by (simp add: layout_def)
  show ?case
  proof (cases "kvs = []")
    case True
    with n brace show ?thesis
      by (simp add: skip_ws_Cons punctuation_not_ws)
  next
    case False
    let ?body = "join (CHR '','' # gap (Suc l)) (map (\<lambda>(k, v). quote_json k @ (CHR '':'' # x) @ show_json gap colon (Suc l) v) kvs)
        @ gap l @ CHR ''}'' # rest"
    have members: "parse_members m ?body = Some (kvs, rest)"
      by (rule parse_members_printed [OF _ gaps gaps x False]) (use JObj n in \<open>fastforce simp: case_prod_beta'\<close>)+
    obtain k0 v0 us where "kvs = (k0, v0) # us"
      using False by (cases kvs) auto
    then have "\<exists>r'. ?body = dquote # r'"
      by (cases us) (auto simp: quote_json_def)
    then have "skip_ws (gap (Suc l) @ ?body) \<noteq> [] \<and> hd (skip_ws (gap (Suc l) @ ?body)) \<noteq> CHR ''}''"
      using brace by (auto simp: skip_ws_append [OF gaps] skip_ws_Cons punctuation_not_ws)
    then show ?thesis
      using n False brace members colon
      by (simp add: skip_ws_Cons punctuation_not_ws parse_members_skip [OF gaps])
  qed
qed (auto simp: literal_def starts_with_def skip_ws_Cons punctuation_not_ws dquote_def gr0_conv_Suc dest!: Suc_le_D)

lemma length_join: "ss \<noteq> [] \<Longrightarrow> length (join sep ss) = sum_list (map length ss) + (length ss - 1) * length sep"
  by (induction sep ss rule: join.induct) auto

lemma sum_list_le_map: "(\<And>x. x \<in> set xs \<Longrightarrow> f x \<le> (g x :: nat)) \<Longrightarrow> sum_list (map f xs) \<le> sum_list (map g xs)"
  by (rule sum_list_mono)

lemma show_nat_not_Nil [simp]: "show_nat n \<noteq> []"
  using show_nat_head [of n] by auto

lemma json_cost_length: "json_cost v \<le> 2 * length (show_json gap colon l v)"
proof (induction v arbitrary: l)
  case (JNum k)
  show ?case
    using show_num_head [of k] by auto
next
  case (JArr vs)
  show ?case
  proof (cases "vs = []")
    case False
    have "sum_list (map (\<lambda>v. Suc (json_cost v)) vs)
        \<le> sum_list (map (\<lambda>v. Suc (2 * length (show_json gap colon (Suc l) v))) vs)"
      using JArr by (intro sum_list_le_map) auto
    also have "\<dots> = length vs + 2 * sum_list (map (length \<circ> show_json gap colon (Suc l)) vs)"
      by (simp add: sum_list_Suc sum_list_const_mult comp_def)
    finally show ?thesis
      using False by (simp add: length_join)
  qed simp
next
  case (JObj kvs)
  show ?case
  proof (cases "kvs = []")
    case False
    let ?text = "\<lambda>(k, v). quote_json k @ colon @ show_json gap colon (Suc l) v"
    have "sum_list (map (\<lambda>(k, v). Suc (json_cost v)) kvs) \<le> sum_list (map (\<lambda>kv. Suc (2 * length (?text kv))) kvs)"
    proof (rule sum_list_le_map)
      fix kv assume kv: "kv \<in> set kvs"
      obtain k v where split: "kv = (k, v)" by fastforce
      with kv JObj have "json_cost v \<le> 2 * length (show_json gap colon (Suc l) v)"
        by (metis snds.intros snd_conv)
      with split show "(case kv of (k, v) \<Rightarrow> Suc (json_cost v)) \<le> Suc (2 * length (?text kv))"
        by simp
    qed
    also have "\<dots> = length kvs + 2 * sum_list (map (length \<circ> ?text) kvs)"
      by (simp add: sum_list_Suc sum_list_const_mult comp_def)
    finally show ?thesis
      using False by (simp add: length_join)
  qed simp
qed (simp_all add: quote_json_def)

lemma layout_compact: "layout (\<lambda>_. []) '':''"
  by (simp add: layout_def all_ws_def)

lemma layout_indented: "layout (\<lambda>l. char_of (10::nat) # replicate (2 * l) (CHR '' '')) '': ''"
  by (simp add: layout_def all_ws_def is_ws_def list_all_iff)

lemma parse_json_printed: "layout gap colon \<Longrightarrow> parse_json (show_json gap colon l v) = Some v"
  using parse_value_printed [of gap colon v "2 * length (show_json gap colon l v) + 2" "[]" l]
    json_cost_length [of v gap colon l]
  by (simp add: parse_json_def punctuation_number_end skip_ws_def)

lemma parse_stringify [simp]: "parse_json (stringify v) = Some v"
  by (simp add: stringify_def parse_json_printed [OF layout_compact])

lemma parse_stringify_indented [simp]: "parse_json (stringify_indented v) = Some v"
  by (simp add: stringify_indented_def parse_json_printed [OF layout_indented])

section \<open>The canonical form\<close>

fun sort_json :: "json \<Rightarrow> json" where
  "sort_json (JArr vs) = JArr (map sort_json vs)"
| "sort_json (JObj kvs) = JObj (sort_key fst (map (\<lambda>(k, v). (k, sort_json v)) kvs))"
| "sort_json v = v"

lemma map_insort_key_fst:
  "map (\<lambda>(k, v). (k, f v)) (insort_key fst x xs) = insort_key fst (case x of (k, v) \<Rightarrow> (k, f v)) (map (\<lambda>(k, v). (k, f v)) xs)"
  by (induction xs) (auto split: prod.splits)

lemma map_sort_key_fst:
  "map (\<lambda>(k, v). (k, f v)) (sort_key fst xs) = sort_key fst (map (\<lambda>(k, v). (k, f v)) xs)"
  by (induction xs) (simp_all add: map_insort_key_fst)

lemma stable_stringify_eq: "stable_stringify v = show_json (\<lambda>_. []) '':'' l (sort_json v)"
proof (induction v arbitrary: l)
  case (JArr vs)
  then have "map stable_stringify vs = map (show_json (\<lambda>_. []) '':'' (Suc l)) (map sort_json vs)"
    by simp
  then show ?case
    by (cases "vs = []") (simp_all del: map_map)
next
  case (JObj kvs)
  let ?show = "show_json (\<lambda>_. []) '':'' (Suc l)"
  have "map (\<lambda>(k, v). (k, stable_stringify v)) kvs
      = map (\<lambda>(k, v). (k, ?show v)) (map (\<lambda>(k, v). (k, sort_json v)) kvs)"
    using JObj by fastforce
  then have "sort_key fst (map (\<lambda>(k, v). (k, stable_stringify v)) kvs)
      = map (\<lambda>(k, v). (k, ?show v)) (sort_key fst (map (\<lambda>(k, v). (k, sort_json v)) kvs))"
    by (simp only: map_sort_key_fst)
  then show ?case
    by (cases kvs) (simp_all add: case_prod_beta' comp_def)
qed (simp_all add: stringify_def)

text \<open>Two values with one canonical text are equal up to the order of keys.\<close>

lemma stable_stringify_inject: "stable_stringify v = stable_stringify w \<Longrightarrow> sort_json v = sort_json w"
  by (metis layout_compact option.inject parse_json_printed stable_stringify_eq)

lemma distinct_map_fst_sort_key: "distinct (map fst (sort_key fst xs)) \<longleftrightarrow> distinct (map fst xs)"
  by (metis mset_map mset_sort mset_eq_imp_distinct_iff)

lemma sort_json_JObj_lookup:
  assumes "sort_json (JObj kvs) = sort_json (JObj kvs')"
    and "distinct (map fst kvs)" and "distinct (map fst kvs')"
  shows "map_option sort_json (map_of kvs k) = map_option sort_json (map_of kvs' k)"
proof -
  have keyed: "map_of (sort_key fst (map (\<lambda>(k, v). (k, sort_json v)) xs)) k = map_option sort_json (map_of xs k)"
    if "distinct (map fst xs)" for xs :: "(string \<times> json) list"
  proof -
    have "distinct (map fst (map (\<lambda>(k, v). (k, sort_json v)) xs))"
      using that by (simp add: case_prod_beta' comp_def)
    then have "map_of (sort_key fst (map (\<lambda>(k, v). (k, sort_json v)) xs)) = map_of (map (\<lambda>(k, v). (k, sort_json v)) xs)"
      by (subst map_of_inject_set) (simp_all add: distinct_map_fst_sort_key)
    then show ?thesis
      by (simp add: map_of_map)
  qed
  from assms show ?thesis
    using keyed [of kvs] keyed [of kvs'] by simp
qed

end
