(* ===== verification/Vfs.thy ===== *)
theory Vfs
  imports NodeFs Json
begin

text \<open>
  The file-system layer above the backends (\<open>packages/vfs/src\<close>): file handles with their text
  and JSON forms, the operations that fall back when a backend lacks a capability, scoped views,
  the observing decorator and the pinned range reader. Locks are not modelled: an operation that
  holds one is one step here, which is what the lock is for.
\<close>

section \<open>File handles\<close>

text \<open>\<open>VirtualFileImpl\<close>, over the backend of \<open>NodeFs\<close>.\<close>

definition read_text :: "string \<Rightarrow> (disk, string) eff" where
  "read_text p = bnd (fs_read p) (\<lambda>b. ret (utf8_decode b))"

definition parse_or_throw :: "string \<Rightarrow> ('s, json) eff" where
  "parse_or_throw s = (case parse_json s of None \<Rightarrow> throw SyntaxFailure | Some v \<Rightarrow> ret v)"

definition read_json :: "json option \<Rightarrow> string \<Rightarrow> (disk, json) eff" where
  "read_json fallback p =
     (case fallback of
        Some v \<Rightarrow> bnd (fs_exists p) (\<lambda>there. if \<not> there then ret v else bnd (read_text p) parse_or_throw)
      | None \<Rightarrow> bnd (read_text p) parse_or_throw)"

definition write_text :: "int \<Rightarrow> string \<Rightarrow> string \<Rightarrow> (disk, unit) eff" where
  "write_text t p s = fs_write t p (utf8_encode s)"

definition write_json :: "int \<Rightarrow> string \<Rightarrow> json \<Rightarrow> (disk, unit) eff" where
  "write_json t p v = write_text t p (stringify_indented v)"

lemma read_json_ok:
  "read_json None p d = (Inr v, d') \<longleftrightarrow> d' = d \<and> (\<exists>b. file_at d p = Some b \<and> parse_json (utf8_decode b) = Some v)"
  by (auto simp: read_json_def read_text_def parse_or_throw_def bnd_Inr fs_read_ok ret_def throw_def split: option.splits)

lemma written_json_reads_back:
  assumes "write_json t p v d = (Inr u, d')"
  shows "read_json None p d' = (Inr v, d')"
proof -
  have "file_at d' p = Some (utf8_encode (stringify_indented v))"
    using assms fs_write_ok by (auto simp: write_json_def write_text_def)
  then show ?thesis
    by (simp add: read_json_ok)
qed

section \<open>Operations with a fallback\<close>

text \<open>
  What the operations of \<open>ops/\<close> do over a backend without the native capability; the backend's
  own operations are the arguments.
\<close>

definition append_fallback ::
    "(string \<Rightarrow> ('s, bool) eff) \<Rightarrow> (string \<Rightarrow> ('s, bytes) eff) \<Rightarrow> (string \<Rightarrow> bytes \<Rightarrow> ('s, unit) eff) \<Rightarrow>
     string \<Rightarrow> bytes \<Rightarrow> ('s, unit) eff" where
  "append_fallback exists read write p content =
     bnd (exists p) (\<lambda>there. bnd (if there then read p else ret []) (\<lambda>prev. write p (prev @ content)))"

definition cas_fallback ::
    "(string \<Rightarrow> ('s, bytes) eff) \<Rightarrow> (string \<Rightarrow> bytes \<Rightarrow> ('s, unit) eff) \<Rightarrow>
     string \<Rightarrow> bytes option \<Rightarrow> bytes \<Rightarrow> ('s, bool) eff" where
  "cas_fallback read write p expected next =
     bnd (catch (bnd (read p) (\<lambda>b. ret (Some b)))
            (\<lambda>e. case e of FileNotFound _ \<Rightarrow> ret None | _ \<Rightarrow> throw e))
       (\<lambda>current. if \<not> same_bytes current expected then ret False
                  else bnd (write p next) (\<lambda>_. ret True))"

definition read_range_fallback ::
    "(string \<Rightarrow> ('s, bytes) eff) \<Rightarrow> string \<Rightarrow> num_arg \<Rightarrow> num_arg option \<Rightarrow> ('s, bytes) eff" where
  "read_range_fallback read p offset len =
     bnd (read p) (\<lambda>b. bnd (lift_sum (resolve_range (length b) offset len)) (\<lambda>(start, stop). ret (slice start stop b)))"

text \<open>
  \<open>VirtualWalkerImpl\<close> driven to its end: the files of a directory are handed out before the
  next directory is listed. The first argument bounds the directories listed.
\<close>

definition entry_path :: "vfs_entry \<Rightarrow> string" where
  "entry_path e = (case e of FileEntry p \<Rightarrow> p | DirEntry p \<Rightarrow> p)"

definition is_dir_entry :: "vfs_entry \<Rightarrow> bool" where
  "is_dir_entry e = (case e of FileEntry _ \<Rightarrow> False | DirEntry _ \<Rightarrow> True)"

fun walk_fold ::
    "nat \<Rightarrow> (string \<Rightarrow> ('s, vfs_entry list) eff) \<Rightarrow> string list \<Rightarrow> (string \<Rightarrow> 'b \<Rightarrow> ('s, 'b) eff) \<Rightarrow> 'b \<Rightarrow> ('s, 'b) eff" where
  "walk_fold n list [] f acc = ret acc"
| "walk_fold 0 list (dir # queue) f acc = ret acc"
| "walk_fold (Suc n) list (dir # queue) f acc =
     bnd (list dir) (\<lambda>entries.
       let files = map entry_path (filter (\<lambda>e. \<not> is_dir_entry e) entries);
           dirs = map entry_path (filter is_dir_entry entries)
       in bnd (fold_eff f files acc) (walk_fold n list (queue @ dirs) f))"

definition walk_each :: "nat \<Rightarrow> (string \<Rightarrow> ('s, vfs_entry list) eff) \<Rightarrow> string list \<Rightarrow> (string \<Rightarrow> ('s, unit) eff) \<Rightarrow> ('s, unit) eff" where
  "walk_each n list queue f = walk_fold n list queue (\<lambda>p _. f p) ()"

text \<open>\<open>renameEntry\<close> and \<open>copyEntry\<close> without a native rename.\<close>

definition rename_fallback ::
    "nat \<Rightarrow> (string \<Rightarrow> ('s, vfs_entry list) eff) \<Rightarrow> (string \<Rightarrow> ('s, bytes) eff) \<Rightarrow> (string \<Rightarrow> bytes \<Rightarrow> ('s, unit) eff) \<Rightarrow>
     (bool \<Rightarrow> bool \<Rightarrow> string \<Rightarrow> ('s, unit) eff) \<Rightarrow> string \<Rightarrow> string \<Rightarrow> ('s, unit) eff" where
  "rename_fallback n list read write delete src dest =
     seq (walk_each n list [normalize_path src] (\<lambda>p.
            bnd (read p) (\<lambda>b. write (posix_join [dest, drop (length src) p]) b)))
       (delete True True src)"

section \<open>What a backend promises\<close>

text \<open>
  The part of the backend contract the operations above rely on: \<open>holds s p\<close> is the content of
  the file a path names, \<open>same s p q\<close> says that two paths name one file.
\<close>

locale file_store =
  fixes holds :: "'s \<Rightarrow> string \<Rightarrow> bytes option"
    and same :: "'s \<Rightarrow> string \<Rightarrow> string \<Rightarrow> bool"
    and read_file :: "string \<Rightarrow> ('s, bytes) eff"
    and write_file :: "string \<Rightarrow> bytes \<Rightarrow> ('s, unit) eff"
  assumes read_ok: "read_file p s = (Inr b, s') \<longleftrightarrow> s' = s \<and> holds s p = Some b"
    and read_err: "read_file p s = (Inl e, s') \<Longrightarrow> s' = s \<and> holds s p = None"
    and write_ok: "write_file p b s = (Inr u, s') \<Longrightarrow> holds s' q = (if same s p q then Some b else holds s q)"
    and write_err: "write_file p b s = (Inl e, s') \<Longrightarrow> holds s' q = holds s q"
    and same_refl: "same s p p"
begin

text \<open>A swap lands exactly when the file held what was expected, and then only that file changed.\<close>

lemma cas_exact:
  assumes "cas_fallback read_file write_file p expected next s = (Inr r, s')"
  shows "(r \<longleftrightarrow> holds s p = expected) \<and> (\<forall>q. holds s' q = (if r \<and> same s p q then Some next else holds s q))"
proof (cases "read_file p s")
  case (Pair x s1)
  have "s1 = s"
    using Pair read_ok read_err by (cases x) auto
  show ?thesis
  proof (cases x)
    case (Inl e)
    with Pair read_err have "holds s p = None" by blast
    with assms Pair Inl \<open>s1 = s\<close> write_ok [of p "next" s] show ?thesis
      by (auto simp: cas_fallback_def effs split: app_error.splits if_splits sum.splits prod.splits)
  next
    case (Inr b)
    with Pair read_ok have "holds s p = Some b" by blast
    with assms Pair Inr \<open>s1 = s\<close> write_ok [of p "next" s] show ?thesis
      by (auto simp: cas_fallback_def effs split: if_splits sum.splits prod.splits)
  qed
qed

text \<open>A range read returns a slice of what the file holds.\<close>

lemma range_exact:
  assumes "read_range_fallback read_file p offset len s = (Inr b, s')"
  shows "s' = s \<and> (\<exists>whole start stop. holds s p = Some whole \<and> resolve_range (length whole) offset len = Inr (start, stop)
     \<and> b = slice start stop whole)"
proof -
  obtain whole u where "read_file p s = (Inr whole, u)"
    and cut: "bnd (lift_sum (resolve_range (length whole) offset len)) (\<lambda>(start, stop). ret (slice start stop whole)) u = (Inr b, s')"
    using assms unfolding read_range_fallback_def bnd_Inr by blast
  then have "u = s" "holds s p = Some whole"
    using read_ok by blast+
  moreover have "s' = u \<and> (\<exists>start stop. resolve_range (length whole) offset len = Inr (start, stop) \<and> b = slice start stop whole)"
    using cut by (cases "resolve_range (length whole) offset len") (auto simp: effs)
  ultimately show ?thesis by blast
qed

end

locale file_store_with_exists = file_store +
  fixes exists :: "string \<Rightarrow> ('s, bool) eff"
  assumes exists_ok: "exists p s = (Inr r, s') \<Longrightarrow> s' = s \<and> (\<not> r \<longrightarrow> holds s p = None)"
begin

lemma append_exact:
  assumes "append_fallback exists read_file write_file p content s = (Inr u, s')"
  shows "holds s' q = (if same s p q then Some (case_option [] id (holds s p) @ content) else holds s q)"
proof -
  obtain there u where e: "exists p s = (Inr there, u)"
    and rest: "bnd (if there then read_file p else ret []) (\<lambda>prev. write_file p (prev @ content)) u = (Inr (), s')"
    using assms unfolding append_fallback_def bnd_Inr by auto
  then have u: "u = s" "\<not> there \<longrightarrow> holds s p = None"
    using exists_ok by blast+
  obtain prev v where prev: "(if there then read_file p else ret []) u = (Inr prev, v)" and w: "write_file p (prev @ content) v = (Inr (), s')"
    using rest unfolding bnd_Inr by blast
  have "v = s \<and> prev = case_option [] id (holds s p)"
    using prev u read_ok by (cases there) (auto simp: ret_def)
  with write_ok [OF w] show ?thesis by simp
qed

end

text \<open>The Node backend keeps that promise.\<close>

definition same_file :: "disk \<Rightarrow> string \<Rightarrow> string \<Rightarrow> bool" where
  "same_file d p q \<longleftrightarrow> to_os_path d q = to_os_path d p"

interpretation node: file_store_with_exists file_at same_file fs_read "fs_write t" fs_exists
proof
  fix p s b s' show "fs_read p s = (Inr b, s') \<longleftrightarrow> s' = s \<and> file_at s p = Some b"
    by (rule fs_read_ok)
next
  fix p s e s' assume "fs_read p s = (Inl e, s')"
  then show "s' = s \<and> file_at s p = None"
    by (auto simp: fs_read_def on_path_cases file_at_def split: sum.splits errno.splits node.splits)
next
  fix p b s u s' q assume "fs_write t p b s = (Inr u, s')"
  then show "file_at s' q = (if same_file s p q then Some b else file_at s q)"
    using fs_write_ok by (auto simp: same_file_def)
next
  fix p b s e s' q assume "fs_write t p b s = (Inl e, s')"
  then show "file_at s' q = file_at s q"
    using fs_write_err by metis
next
  fix s p show "same_file s p p"
    by (simp add: same_file_def)
next
  fix p s r s' assume "fs_exists p s = (Inr r, s')"
  then show "s' = s \<and> (\<not> r \<longrightarrow> file_at s p = None)"
    by (auto simp: fs_exists_def on_path_cases file_at_def split: sum.splits)
qed

end
