(* ===== verification/Views.thy ===== *)
theory Views
  imports Vfs
begin

text \<open>
  The decorators of \<open>packages/vfs/src\<close>: \<open>ScopedFileSystem\<close> (a view rooted at a prefix),
  \<open>ObservedFileSystem\<close> (a view that reports what it changed) and the range reader that pins
  the stat a file had when it was opened.
\<close>

section \<open>Scoped views\<close>

definition scoped_base :: "string \<Rightarrow> string" where
  "scoped_base prefix =
     (let p = normalize_path prefix;
          b = normalize_path (posix_normalize (if p = [] then ''.'' else p))
      in if b = ''.'' then [] else b)"

definition scoped_resolve :: "string \<Rightarrow> string \<Rightarrow> app_error + string" where
  "scoped_resolve base p =
     (let q = normalize_path p;
          rel = normalize_path (posix_normalize (if q = [] then ''.'' else q));
          inner = (if base \<noteq> []
                   then normalize_path (posix_normalize (posix_join [base, if rel = ''.'' then [] else rel]))
                   else if rel = ''.'' then [] else rel)
      in if base \<noteq> [] \<and> inner \<noteq> base \<and> \<not> starts_with inner (base @ ''/'')
         then Inl (ScopeAccessDenied p) else Inr inner)"

definition strip_scope :: "string \<Rightarrow> string \<Rightarrow> string" where
  "strip_scope base inner =
     (if base = [] then inner
      else if inner = base then []
      else if starts_with inner (base @ ''/'') then drop (length base + 1) inner
      else inner)"

definition scoped :: "string \<Rightarrow> string \<Rightarrow> (string \<Rightarrow> ('s, 'a) eff) \<Rightarrow> ('s, 'a) eff" where
  "scoped base p f = bnd (lift_sum (scoped_resolve base p)) f"

definition strip_entry :: "string \<Rightarrow> vfs_entry \<Rightarrow> vfs_entry" where
  "strip_entry base e =
     (case e of FileEntry p \<Rightarrow> FileEntry (strip_scope base p) | DirEntry p \<Rightarrow> DirEntry (strip_scope base p))"

definition scoped_list :: "string \<Rightarrow> string \<Rightarrow> (disk, vfs_entry list) eff" where
  "scoped_list base p = scoped base p (\<lambda>inner. bnd (fs_list inner) (\<lambda>es. ret (map (strip_entry base) es)))"

definition scoped_read :: "string \<Rightarrow> string \<Rightarrow> (disk, bytes) eff" where
  "scoped_read base p = scoped base p fs_read"

definition scoped_readable :: "string \<Rightarrow> string \<Rightarrow> (disk, bytes) eff" where
  "scoped_readable base p = scoped base p fs_readable"

definition scoped_read_range :: "string \<Rightarrow> string \<Rightarrow> num_arg \<Rightarrow> num_arg option \<Rightarrow> (disk, bytes) eff" where
  "scoped_read_range base p off len = scoped base p (\<lambda>inner. fs_read_range inner off len)"

definition scoped_write :: "int \<Rightarrow> string \<Rightarrow> string \<Rightarrow> bytes \<Rightarrow> (disk, unit) eff" where
  "scoped_write t base p b = scoped base p (\<lambda>inner. fs_write t inner b)"

definition scoped_append :: "int \<Rightarrow> string \<Rightarrow> string \<Rightarrow> bytes \<Rightarrow> (disk, unit) eff" where
  "scoped_append t base p b = scoped base p (\<lambda>inner. fs_append t inner b)"

definition scoped_cas :: "int \<Rightarrow> string \<Rightarrow> string \<Rightarrow> bytes option \<Rightarrow> bytes \<Rightarrow> (disk, bool) eff" where
  "scoped_cas t base p expected b = scoped base p (\<lambda>inner. fs_cas t inner expected b)"

text \<open>
  \<open>writable\<close> with what its holder then writes to the stream (each chunk at its moment): the file
  is truncated when the stream opens, and every chunk goes to its end.
\<close>

definition scoped_writable :: "int \<Rightarrow> string \<Rightarrow> string \<Rightarrow> (int \<times> bytes) list \<Rightarrow> (disk, unit) eff" where
  "scoped_writable t base p writes = scoped base p (\<lambda>inner.
     seq (fs_truncate t inner) (for_each writes (\<lambda>(u, b). fs_append u inner b)))"

definition scoped_delete :: "string \<Rightarrow> bool \<Rightarrow> bool \<Rightarrow> string \<Rightarrow> (disk, unit) eff" where
  "scoped_delete base force recursive p = scoped base p (fs_delete force recursive)"

definition scoped_exists :: "string \<Rightarrow> string \<Rightarrow> (disk, bool) eff" where
  "scoped_exists base p = scoped base p fs_exists"

definition scoped_head :: "string \<Rightarrow> string \<Rightarrow> (disk, file_head) eff" where
  "scoped_head base p = scoped base p fs_head"

subsection \<open>A view never leaves its prefix\<close>

lemma starts_split:
  assumes "list_all proper names" and "names \<noteq> []"
    and "inner = join ''/'' names \<or> starts_with inner (join ''/'' names @ ''/'')"
  shows "\<exists>rest. split_on slash inner = names @ rest"
proof -
  have "split_on slash (join ''/'' names) = names"
    using assms(1,2) by (simp add: split_join proper_no_slash)
  moreover have "split_on slash (join ''/'' ns @ slash # r) = split_on slash (join ''/'' ns) @ split_on slash r" for ns r
  proof -
    have "split_on slash (x @ slash # r) = split_on slash x @ split_on slash r" for x
      by (induction x) auto
    then show ?thesis .
  qed
  ultimately show ?thesis
    using assms(3) by (auto simp: starts_with_iff)
qed

lemma climbs_tail: "climbs (n # ss) \<Longrightarrow> proper n \<Longrightarrow> list_all proper ss"
  by (simp add: climbs_Cons proper_def)

lemma seg_step_keeps_base:
  assumes "list_all (\<lambda>s. s = [] \<or> proper s) segs"
  shows "\<exists>more. norm_segs False base segs = base @ more"
proof -
  have "\<exists>more. rev (foldl (seg_step False) st segs) = rev st @ more" for st
    using assms
  proof (induction segs arbitrary: st)
    case (Cons s segs)
    have "seg_step False st [] = st"
      by (simp add: seg_step_def)
    with Cons.prems have "seg_step False st s = st \<or> seg_step False st s = s # st"
      by auto
    moreover have "\<exists>more. rev (foldl (seg_step False) u segs) = rev u @ more" for u
      using Cons by simp
    from this [of "seg_step False st s"] obtain more
      where "rev (foldl (seg_step False) st (s # segs)) = rev (seg_step False st s) @ more"
      by auto
    ultimately show ?case by auto
  qed simp
  from this [of "rev base"] show ?thesis
    by (simp add: norm_segs_def)
qed

lemma scoped_segments:
  assumes names: "list_all proper names" "names \<noteq> []"
    and inner: "scoped_resolve (join ''/'' names) p = Inr inner"
  shows "\<exists>rest. split_on slash inner = names @ rest \<and> list_all (\<lambda>s. s = [] \<or> proper s) rest"
proof -
  let ?base = "join ''/'' names"
  have base: "?base \<noteq> []" "hd ?base \<noteq> slash"
    using join_not_Nil [of names "''/''"] climbs_hd [OF climbs_proper] names by auto
  let ?rel = "normalize_path (posix_normalize (if normalize_path p = [] then ''.'' else normalize_path p))"
  let ?q = "posix_join [?base, if ?rel = ''.'' then [] else ?rel]"
  have q: "?q \<noteq> []" "hd ?q \<noteq> slash"
    using base posix_normalize_hd [of "?base @ slash # ?rel"] posix_normalize_hd [of ?base]
    by (auto simp: posix_join_def Let_def)
  then have norm: "normalize_path (posix_normalize ?q) = posix_normalize ?q"
    using posix_normalize_hd by (intro normalize_path_id) auto
  then have eq: "inner = posix_normalize ?q" and under: "inner = ?base \<or> starts_with inner (?base @ ''/'')"
    using inner base(1) by (auto simp: scoped_resolve_def Let_def split: if_splits)
  obtain rest where rest: "split_on slash inner = names @ rest"
    using starts_split [OF names under] by blast
  obtain ss tail where ss: "split_on slash inner = ss @ tail" "tail \<in> {[], [[]]}" "climbs ss \<and> ss \<noteq> [] \<or> ss = [''.'']"
    using split_posix_normalize [OF q(2,1)] eq by blast
  obtain n ns where n: "names = n # ns" "proper n"
    using names by (cases names) auto
  with rest ss obtain ts where ts: "ss = n # ts" "ns @ rest = ts @ tail"
    by (cases ss) (auto simp: proper_def)
  with ss(3) n(2) have "list_all proper ts"
    by (auto simp: proper_def dest: climbs_tail)
  with ss(2) have "list_all (\<lambda>s. s = [] \<or> proper s) (ts @ tail)"
    by (auto simp: list_all_iff)
  with ts(2) have "list_all (\<lambda>s. s = [] \<or> proper s) (ns @ rest)"
    by simp
  with rest show ?thesis by (auto simp: list_all_iff)
qed

lemma scoped_contained:
  assumes "list_all proper names" and "names \<noteq> []" and "list_all proper (root_dir d)"
    and "scoped_resolve (join ''/'' names) p = Inr inner"
  shows "\<exists>ks. to_os_path d inner = Inr ks \<and> starts names ks"
proof -
  obtain rest where rest: "split_on slash inner = names @ rest" "list_all (\<lambda>s. s = [] \<or> proper s) rest"
    using scoped_segments [OF assms(1,2,4)] by blast
  obtain n ns where n: "names = n # ns" "n \<noteq> []" "hd n \<noteq> slash"
    using assms(1,2) climbs_hd [OF climbs_proper [OF assms(1)] assms(2)] by (cases names) auto
  have "inner \<noteq> []" "hd inner \<noteq> slash"
    using rest(1) n by (cases inner; auto split: if_splits)+
  then have id: "normalize_path inner = inner"
    by (rule normalize_path_id)
  obtain more where "norm_segs False (root_dir d @ names) rest = (root_dir d @ names) @ more"
    using seg_step_keeps_base [OF rest(2)] by blast
  then have "resolve_segs (root_dir d) inner = root_dir d @ (names @ more)"
    by (simp add: resolve_segs_def rest(1) norm_segs_append norm_segs_proper assms(1))
  then show ?thesis
    using assms(3) by (intro exI [of _ "names @ more"]) (simp add: to_os_path_Inr id starts_iff)
qed

lemma scoped_base_plain:
  assumes "list_all proper names" and "names \<noteq> []"
  shows "scoped_base (join ''/'' names) = join ''/'' names"
proof -
  let ?base = "join ''/'' names"
  have base: "?base \<noteq> []" "hd ?base \<noteq> slash"
    using join_not_Nil [of names "''/''"] climbs_hd [OF climbs_proper] assms by auto
  have split: "split_on slash ?base = names"
    using assms by (simp add: split_join proper_no_slash)
  have "last ?base \<noteq> slash"
  proof
    assume "last ?base = slash"
    then obtain b where b: "?base = b @ [slash]"
      using base(1) by (metis append_butlast_last_id)
    have "\<exists>xs. xs \<noteq> [] \<and> split_on slash (b @ [slash]) = xs @ [[]]"
    proof (induction b)
      case (Cons a b)
      then obtain xs where "xs \<noteq> []" "split_on slash (b @ [slash]) = xs @ [[]]" by blast
      with Cons show ?case by (cases xs) auto
    qed simp
    then have "[] \<in> set names"
      using split by (auto simp: b)
    with assms(1) show False
      by (auto simp: list_all_iff proper_def)
  qed
  then have "posix_normalize ?base = ?base"
    using base split assms by (simp add: posix_normalize_def Let_def norm_segs_proper)
  moreover have "?base \<noteq> ''.''"
  proof
    assume "?base = ''.''"
    then have "split_on slash ?base = [''.'']" by simp
    then have "names = [''.'']" unfolding split .
    with assms(1) show False by (simp add: proper_def)
  qed
  ultimately show ?thesis
    using base by (simp add: scoped_base_def Let_def normalize_path_id)
qed

section \<open>Observed views\<close>

datatype vfs_change = Written string | Deleted string | Renamed string string

text \<open>
  The wrapped file system together with what the watcher was told, latest first.
  \<open>Renamed dest src\<close> is the change of kind \<open>renamed\<close> with its \<open>from\<close>.
\<close>

type_synonym observed = "disk \<times> vfs_change list"

definition on_inner :: "(disk, 'a) eff \<Rightarrow> (observed, 'a) eff" where
  "on_inner m = (\<lambda>(d, log). case m d of (r, d') \<Rightarrow> (r, (d', log)))"

definition notify :: "vfs_change \<Rightarrow> (observed, unit) eff" where
  "notify c = modify (\<lambda>(d, log). (d, c # log))"

definition observed_write :: "int \<Rightarrow> string \<Rightarrow> bytes \<Rightarrow> (observed, unit) eff" where
  "observed_write t p b = seq (on_inner (fs_write t p b)) (notify (Written p))"

definition observed_append :: "int \<Rightarrow> string \<Rightarrow> bytes \<Rightarrow> (observed, unit) eff" where
  "observed_append t p b = seq (on_inner (fs_append t p b)) (notify (Written p))"

definition observed_cas :: "int \<Rightarrow> string \<Rightarrow> bytes option \<Rightarrow> bytes \<Rightarrow> (observed, bool) eff" where
  "observed_cas t p expected b =
     bnd (on_inner (fs_cas t p expected b)) (\<lambda>swapped. seq (when_do swapped (notify (Written p))) (ret swapped))"

definition observed_delete :: "bool \<Rightarrow> bool \<Rightarrow> string \<Rightarrow> (observed, unit) eff" where
  "observed_delete force recursive p = seq (on_inner (fs_delete force recursive p)) (notify (Deleted p))"

definition observed_rename :: "int \<Rightarrow> string \<Rightarrow> string \<Rightarrow> (observed, unit) eff" where
  "observed_rename t src dest = seq (on_inner (fs_rename t src dest)) (notify (Renamed dest src))"

text \<open>
  Without a native rename the copies go through \<open>RenameCopyFileSystem\<close>, which reports each
  destination as it is written; the removal of the source is not reported.
\<close>

definition observed_rename_copying :: "nat \<Rightarrow> int \<Rightarrow> string \<Rightarrow> string \<Rightarrow> (observed, unit) eff" where
  "observed_rename_copying n t src dest =
     seq (rename_fallback n (\<lambda>p. on_inner (scoped_list [] p)) (\<lambda>p. on_inner (scoped_read [] p))
            (\<lambda>p b. seq (on_inner (scoped_write t [] p b)) (notify (Written p)))
            (\<lambda>force recursive p. on_inner (scoped_delete [] force recursive p)) src dest)
       (notify (Renamed dest src))"

text \<open>The files a report is about.\<close>

definition covers :: "disk \<Rightarrow> vfs_change \<Rightarrow> string \<Rightarrow> bool" where
  "covers d c q =
     (case c of
        Written p \<Rightarrow> same_file d p q
      | Deleted p \<Rightarrow> (\<exists>ks. to_os_path d p = Inr ks \<and> (\<exists>r. to_os_path d q = Inr (ks @ r)))
      | Renamed dest src \<Rightarrow>
          (\<exists>ks. (to_os_path d dest = Inr ks \<or> to_os_path d src = Inr ks) \<and> (\<exists>r. to_os_path d q = Inr (ks @ r))))"

text \<open>Whatever an operation changed is in the reports it made, whether it succeeded or not.\<close>

definition reports_changes :: "(observed, 'a) eff \<Rightarrow> bool" where
  "reports_changes m \<longleftrightarrow>
     (\<forall>d log r d' log'. m (d, log) = (r, (d', log')) \<longrightarrow> root_dir d' = root_dir d \<and>
        (\<exists>told. log' = told @ log \<and> (\<forall>q. file_at d' q \<noteq> file_at d q \<longrightarrow> (\<exists>c \<in> set told. covers d c q))))"

lemma covers_root: "root_dir d' = root_dir d \<Longrightarrow> covers d' c q = covers d c q"
  using to_os_path_cong [of d' d] by (simp add: covers_def same_file_def split: vfs_change.split)

lemma reports_inner_notify:
  assumes ok: "\<And>d d' u. m d = (Inr u, d') \<Longrightarrow>
      root_dir d' = root_dir d \<and> (\<forall>q. file_at d' q \<noteq> file_at d q \<longrightarrow> covers d c q)"
    and err: "\<And>d d' e. m d = (Inl e, d') \<Longrightarrow> root_dir d' = root_dir d \<and> file_at d' = file_at d"
  shows "reports_changes (seq (on_inner m) (notify c))"
  unfolding reports_changes_def
proof (intro allI impI)
  fix d log r d' log' assume run: "seq (on_inner m) (notify c) (d, log) = (r, (d', log'))"
  obtain x d1 where m: "m d = (x, d1)" by fastforce
  show "root_dir d' = root_dir d \<and>
      (\<exists>told. log' = told @ log \<and> (\<forall>q. file_at d' q \<noteq> file_at d q \<longrightarrow> (\<exists>c \<in> set told. covers d c q)))"
  proof (cases x)
    case (Inl e)
    with run m err [of d e d1] show ?thesis
      by (auto simp: seq_def bnd_def on_inner_def)
  next
    case (Inr u)
    with run m have "d' = d1" "log' = [c] @ log"
      by (auto simp: seq_def bnd_def on_inner_def notify_def modify_def)
    with m Inr ok [of d u d1] show ?thesis
      by (intro conjI exI [of _ "[c]"]) auto
  qed
qed

lemma reports_bnd:
  assumes "reports_changes m" and "\<And>a. reports_changes (f a)"
  shows "reports_changes (bnd m f)"
  unfolding reports_changes_def
proof (intro allI impI)
  fix d log r d' log' assume run: "bnd m f (d, log) = (r, (d', log'))"
  obtain x d1 log1 where m: "m (d, log) = (x, (d1, log1))" by (metis prod_cases3)
  with assms(1) obtain told1 where one: "root_dir d1 = root_dir d" "log1 = told1 @ log"
    "\<forall>q. file_at d1 q \<noteq> file_at d q \<longrightarrow> (\<exists>c \<in> set told1. covers d c q)"
    unfolding reports_changes_def by blast
  show "root_dir d' = root_dir d \<and>
      (\<exists>told. log' = told @ log \<and> (\<forall>q. file_at d' q \<noteq> file_at d q \<longrightarrow> (\<exists>c \<in> set told. covers d c q)))"
  proof (cases x)
    case (Inl e)
    with run m one show ?thesis by (auto simp: bnd_def)
  next
    case (Inr a)
    with run m have "f a (d1, log1) = (r, (d', log'))" by (simp add: bnd_def)
    with assms(2) obtain told2 where "root_dir d' = root_dir d1" "log' = told2 @ log1"
      "\<forall>q. file_at d' q \<noteq> file_at d1 q \<longrightarrow> (\<exists>c \<in> set told2. covers d1 c q)"
      unfolding reports_changes_def by blast
    with one covers_root [OF one(1)] show ?thesis
      by (intro conjI exI [of _ "told2 @ told1"]) (simp, simp, metis UnCI set_append)
  qed
qed

lemma reports_seq: "reports_changes m \<Longrightarrow> reports_changes n \<Longrightarrow> reports_changes (seq m n)"
  unfolding seq_def by (rule reports_bnd)

lemma reports_queries: "reports_changes (ret a)" "reports_changes (throw e)"
  by (simp_all add: reports_changes_def ret_def throw_def)

lemma reports_inner_reads: "reads m \<Longrightarrow> reports_changes (on_inner m)"
  by (auto simp: reports_changes_def on_inner_def reads_def split: prod.splits) (metis snd_conv)+

lemma reports_fold_eff: "(\<And>x acc. reports_changes (f x acc)) \<Longrightarrow> reports_changes (fold_eff f xs acc)"
  by (induction xs arbitrary: acc) (auto simp: reports_queries intro: reports_bnd)

lemma reports_walk_fold:
  assumes "\<And>p. reports_changes (list p)" and "\<And>p acc. reports_changes (f p acc)"
  shows "reports_changes (walk_fold n list queue f acc)"
  using assms
  by (induction n list queue f acc rule: walk_fold.induct)
    (auto simp: Let_def reports_queries intro!: reports_bnd reports_fold_eff)

lemma observed_write_reports: "reports_changes (observed_write t p b)"
  unfolding observed_write_def
  by (rule reports_inner_notify) (auto dest!: fs_write_ok fs_write_err simp: covers_def same_file_def split: if_splits)

lemma observed_append_reports: "reports_changes (observed_append t p b)"
  unfolding observed_append_def
  by (rule reports_inner_notify) (auto dest!: fs_append_ok fs_append_err simp: covers_def same_file_def split: if_splits)

lemma delete_reports:
  assumes "\<And>d ks r q. to_os_path d p = Inr ks \<Longrightarrow> to_os_path d q = Inr (ks @ r) \<Longrightarrow> covers d c q"
  shows "reports_changes (seq (on_inner (fs_delete force recursive p)) (notify c))"
proof (rule reports_inner_notify)
  fix d d' u assume run: "fs_delete force recursive p d = (Inr u, d')"
  show "root_dir d' = root_dir d \<and> (\<forall>q. file_at d' q \<noteq> file_at d q \<longrightarrow> covers d c q)"
    using fs_delete_root [OF run] fs_delete_ok [OF run] assms by blast
next
  fix d d' e assume "fs_delete force recursive p d = (Inl e, d')"
  then show "root_dir d' = root_dir d \<and> file_at d' = file_at d"
    by (auto dest: fs_delete_err)
qed

lemma observed_delete_reports: "reports_changes (observed_delete force recursive p)"
  unfolding observed_delete_def by (rule delete_reports) (simp add: covers_def)

lemma observed_rename_reports: "reports_changes (observed_rename t src dest)"
  unfolding observed_rename_def
proof (rule reports_inner_notify)
  fix d d' u assume run: "fs_rename t src dest d = (Inr u, d')"
  show "root_dir d' = root_dir d \<and> (\<forall>q. file_at d' q \<noteq> file_at d q \<longrightarrow> covers d (Renamed dest src) q)"
    using fs_rename_root [OF run] fs_rename_ok [OF run] by (auto simp: covers_def)
next
  fix d d' e assume run: "fs_rename t src dest d = (Inl e, d')"
  show "root_dir d' = root_dir d \<and> file_at d' = file_at d"
    using fs_rename_root [OF run] fs_rename_err [OF run] by blast
qed

lemma observed_cas_reports: "reports_changes (observed_cas t p expected b)"
  unfolding reports_changes_def
proof (intro allI impI)
  fix d log r d' log' assume run: "observed_cas t p expected b (d, log) = (r, (d', log'))"
  obtain x d1 where m: "fs_cas t p expected b d = (x, d1)" by fastforce
  have d1: "d' = d1"
    using run m by (auto simp: observed_cas_def effs on_inner_def notify_def split: sum.splits if_splits)
  show "root_dir d' = root_dir d \<and>
      (\<exists>told. log' = told @ log \<and> (\<forall>q. file_at d' q \<noteq> file_at d q \<longrightarrow> (\<exists>c \<in> set told. covers d c q)))"
  proof (cases "\<exists>r. x = Inr r \<and> r")
    case True
    with run m have "log' = [Written p] @ log"
      by (auto simp: observed_cas_def effs on_inner_def notify_def)
    moreover have "root_dir d1 = root_dir d \<and> (\<forall>q. file_at d1 q \<noteq> file_at d q \<longrightarrow> covers d (Written p) q)"
      using True m fs_cas_ok [of t p expected b d True d1] by (auto simp: covers_def same_file_def split: if_splits)
    ultimately show ?thesis
      unfolding d1 by (intro conjI exI [of _ "[Written p]"]) auto
  next
    case False
    with run m have "log' = log"
      by (auto simp: observed_cas_def effs on_inner_def split: sum.splits)
    moreover have "root_dir d1 = root_dir d \<and> file_at d1 = file_at d"
      using False m fs_cas_ok [of t p expected b d False d1] fs_cas_err [of t p expected b d _ d1]
      by (cases x) auto
    ultimately show ?thesis
      unfolding d1 by (intro conjI exI [of _ "[]"]) auto
  qed
qed

section \<open>The pinned range reader\<close>

text \<open>
  \<open>openRangeReader\<close> and its \<open>readRange\<close>. Other writers may run wherever the reader
  awaits the backend: the two steps between its three calls are arguments.
\<close>

definition open_range_reader :: "string \<Rightarrow> (disk, file_head) eff" where
  "open_range_reader p = fs_head p"

definition pinned_read ::
    "(disk \<Rightarrow> disk) \<Rightarrow> (disk \<Rightarrow> disk) \<Rightarrow> file_head \<Rightarrow> string \<Rightarrow> num_arg \<Rightarrow> num_arg option \<Rightarrow> (disk, bytes) eff" where
  "pinned_read others1 others2 pinned p offset len =
     bnd (lift_sum (resolve_range (head_size pinned) offset len)) (\<lambda>(start, stop).
     bnd (fs_head p) (\<lambda>current.
       if head_size current \<noteq> head_size pinned \<or> head_modifiedAt current \<noteq> head_modifiedAt pinned
       then throw (IllegalStateError ''The file changed while it was being read'')
       else seq (modify others1) (bnd (fs_read_range p offset len) (\<lambda>bytes.
         if length bytes \<noteq> stop - start then throw (IllegalStateError ''Short range read'')
         else seq (modify others2) (bnd (fs_head p) (\<lambda>after.
           if head_size after \<noteq> head_size pinned \<or> head_modifiedAt after \<noteq> head_modifiedAt pinned
           then throw (IllegalStateError ''The file changed while it was being read'')
           else ret bytes))))))"

text \<open>A file's content with its modification time.\<close>

definition stamped :: "disk \<Rightarrow> string \<Rightarrow> (bytes \<times> int) option" where
  "stamped d p =
     (case to_os_path d p of
        Inr ks \<Rightarrow> (case os_stat d ks of Inr (File b m _) \<Rightarrow> Some (b, m) | _ \<Rightarrow> None)
      | Inl _ \<Rightarrow> None)"

text \<open>
  What the reader relies on: a rewrite of the file is visible in a later modification time. A
  directory is not a file.
\<close>

definition visible_rewrites :: "string \<Rightarrow> disk \<Rightarrow> disk \<Rightarrow> bool" where
  "visible_rewrites p d d' \<longleftrightarrow>
     (\<forall>b m b' m'. stamped d p = Some (b, m) \<longrightarrow> stamped d' p = Some (b', m') \<longrightarrow> m \<le> m' \<and> (b' \<noteq> b \<longrightarrow> m < m'))"

lemma fs_head_file:
  "stamped d p = Some (b, m) \<Longrightarrow> \<exists>c. fs_head p d = (Inr \<lparr>head_size = length b, head_modifiedAt = m, head_createdAt = c\<rparr>, d)"
  by (auto simp: stamped_def fs_head_def on_path_cases split: sum.splits node.splits)

lemma fs_read_range_file:
  "stamped d p = Some (b, m) \<Longrightarrow>
     fs_read_range p off len d
       = (case resolve_range (length b) off len of Inl e \<Rightarrow> (Inl e, d) | Inr (start, stop) \<Rightarrow> (Inr (slice start stop b), d))"
  by (auto simp: stamped_def fs_read_range_def on_path_cases split: sum.splits node.splits)

lemma pinned_read_stable:
  assumes pinned: "stamped d0 p = Some (b0, m0)" "fs_head p d0 = (Inr pinned, d0)"
    and files: "stamped d1 p = Some (b1, m1)" "stamped (others1 d1) p = Some (b2, m2)" "stamped (others2 (others1 d1)) p = Some (b3, m3)"
    and visible: "visible_rewrites p d0 d1" "visible_rewrites p d1 (others1 d1)" "visible_rewrites p (others1 d1) (others2 (others1 d1))"
    and run: "pinned_read others1 others2 pinned p offset len d1 = (Inr bytes, d')"
  shows "\<exists>start stop. resolve_range (length b0) offset len = Inr (start, stop) \<and> bytes = slice start stop b0"
proof -
  obtain c0 c1 c3 where heads: "pinned = \<lparr>head_size = length b0, head_modifiedAt = m0, head_createdAt = c0\<rparr>"
    "fs_head p d1 = (Inr \<lparr>head_size = length b1, head_modifiedAt = m1, head_createdAt = c1\<rparr>, d1)"
    "fs_head p (others2 (others1 d1)) = (Inr \<lparr>head_size = length b3, head_modifiedAt = m3, head_createdAt = c3\<rparr>, others2 (others1 d1))"
    using fs_head_file pinned files by (metis Inr_inject Pair_inject)
  obtain start stop where range: "resolve_range (length b0) offset len = Inr (start, stop)"
    using run heads(1) by (cases "resolve_range (length b0) offset len") (auto simp: pinned_read_def effs)
  have m1: "m1 = m0"
    using run heads range by (auto simp: pinned_read_def effs split: if_splits)
  obtain whole where read: "fs_read_range p offset len (others1 d1) = (Inr whole, others1 d1)"
    using run heads range m1 fs_read_range_file [OF files(2)]
    by (cases "resolve_range (length b2) offset len") (auto simp: pinned_read_def effs split: if_splits)
  then have m3: "m3 = m0" and bytes: "bytes = whole"
    using run heads range m1 by (auto simp: pinned_read_def effs split: if_splits)
  have "m1 \<le> m2" "m2 \<le> m3"
    using visible files unfolding visible_rewrites_def by blast+
  then have m2: "m2 = m0"
    using m1 m3 by simp
  have "b1 = b0" "b2 = b1"
    using visible pinned(1) files m1 m2 unfolding visible_rewrites_def by (metis less_irrefl)+
  with read bytes range fs_read_range_file [OF files(2)] show ?thesis
    by auto
qed

end
