(* ===== verification/Snapshot.thy ===== *)
theory Snapshot
  imports Vfs
begin

text \<open>
  Snapshots (\<open>packages/sync/src/types/snapshot.ts\<close>), the JSON they are stored as, and their
  address (\<open>snapshot-hash.ts\<close>, \<open>empty-snapshot-hash.ts\<close>). SHA-256 comes from a package
  outside the repository: it is the parameter \<open>sha\<close>, from bytes to the hexadecimal digest.
\<close>

section \<open>Snapshots\<close>

record chunk_ref =
  ck_hash :: string
  ck_size :: "int option"

record snap_file =
  sf_fileId :: "string option"
  sf_identity :: "string option"
  sf_historySource :: "string option"
  sf_hash :: string
  sf_size :: "int option"
  sf_pathname :: string
  sf_chunks :: "chunk_ref list"

text \<open>The timestamp is in milliseconds: the number of seconds in the JSON has three decimals.\<close>

record snapshot =
  sn_hash :: string
  sn_parent :: "string option"
  sn_timestamp :: int
  sn_files :: "snap_file rec"

section \<open>Their JSON\<close>

definition opt_field :: "string \<Rightarrow> ('a \<Rightarrow> json) \<Rightarrow> 'a option \<Rightarrow> (string \<times> json) list" where
  "opt_field k f x = (case x of None \<Rightarrow> [] | Some a \<Rightarrow> [(k, f a)])"

definition json_of_int :: "int \<Rightarrow> json" where
  "json_of_int k = JNum (1000 * k)"

definition json_of_chunk :: "chunk_ref \<Rightarrow> json" where
  "json_of_chunk c = JObj ((''hash'', JStr (ck_hash c)) # opt_field ''size'' json_of_int (ck_size c))"

definition json_of_file :: "snap_file \<Rightarrow> json" where
  "json_of_file f = JObj
     (opt_field ''fileId'' JStr (sf_fileId f) @ opt_field ''identity'' JStr (sf_identity f) @
      opt_field ''historySource'' JStr (sf_historySource f) @ [(''hash'', JStr (sf_hash f))] @
      opt_field ''size'' json_of_int (sf_size f) @
      [(''pathname'', JStr (sf_pathname f)), (''chunks'', JArr (map json_of_chunk (sf_chunks f)))])"

definition json_of_files :: "snap_file rec \<Rightarrow> json" where
  "json_of_files fs = JObj (map (\<lambda>(p, f). (p, json_of_file f)) fs)"

definition json_of_parent :: "string option \<Rightarrow> json" where
  "json_of_parent p = (case p of None \<Rightarrow> JNull | Some h \<Rightarrow> JStr h)"

definition json_of_snapshot :: "snapshot \<Rightarrow> json" where
  "json_of_snapshot s = JObj
     [(''hash'', JStr (sn_hash s)), (''parent'', json_of_parent (sn_parent s)),
      (''timestamp'', JNum (sn_timestamp s)), (''files'', json_of_files (sn_files s))]"

text \<open>
  Reading a parsed value as a snapshot. A repeated key keeps its last value, as in a JavaScript
  object; a value of another shape is \<open>None\<close> (the code would fail on it with a type error).
\<close>

definition field :: "string \<Rightarrow> (string \<times> json) list \<Rightarrow> json option" where
  "field k kvs = map_of (rev kvs) k"

definition str_of :: "json \<Rightarrow> string option" where
  "str_of v = (case v of JStr s \<Rightarrow> Some s | _ \<Rightarrow> None)"

definition num_of :: "json \<Rightarrow> int option" where
  "num_of v = (case v of JNum k \<Rightarrow> Some k | _ \<Rightarrow> None)"

definition int_of :: "json \<Rightarrow> int option" where
  "int_of v = (case v of JNum k \<Rightarrow> if k mod 1000 = 0 then Some (k div 1000) else None | _ \<Rightarrow> None)"

text \<open>An optional field: absent, or present with a value of its type.\<close>

definition opt_of :: "(json \<Rightarrow> 'a option) \<Rightarrow> json option \<Rightarrow> 'a option option" where
  "opt_of f v = (case v of None \<Rightarrow> Some None | Some j \<Rightarrow> (case f j of None \<Rightarrow> None | Some a \<Rightarrow> Some (Some a)))"

fun all_some :: "'a option list \<Rightarrow> 'a list option" where
  "all_some [] = Some []"
| "all_some (None # xs) = None"
| "all_some (Some x # xs) = map_option (Cons x) (all_some xs)"

definition chunk_of_json :: "json \<Rightarrow> chunk_ref option" where
  "chunk_of_json v =
     (case v of
        JObj kvs \<Rightarrow>
          (case (Option.bind (field ''hash'' kvs) str_of, opt_of int_of (field ''size'' kvs)) of
             (Some h, Some n) \<Rightarrow> Some \<lparr>ck_hash = h, ck_size = n\<rparr>
           | _ \<Rightarrow> None)
      | _ \<Rightarrow> None)"

definition chunks_of_json :: "json \<Rightarrow> chunk_ref list option" where
  "chunks_of_json v = (case v of JArr vs \<Rightarrow> all_some (map chunk_of_json vs) | _ \<Rightarrow> None)"

definition file_of_json :: "json \<Rightarrow> snap_file option" where
  "file_of_json v =
     (case v of
        JObj kvs \<Rightarrow>
          Option.bind (opt_of str_of (field ''fileId'' kvs)) (\<lambda>fid.
          Option.bind (opt_of str_of (field ''identity'' kvs)) (\<lambda>ident.
          Option.bind (opt_of str_of (field ''historySource'' kvs)) (\<lambda>src.
          Option.bind (Option.bind (field ''hash'' kvs) str_of) (\<lambda>h.
          Option.bind (opt_of int_of (field ''size'' kvs)) (\<lambda>n.
          Option.bind (Option.bind (field ''pathname'' kvs) str_of) (\<lambda>p.
          Option.bind (Option.bind (field ''chunks'' kvs) chunks_of_json) (\<lambda>cs.
            Some \<lparr>sf_fileId = fid, sf_identity = ident, sf_historySource = src, sf_hash = h, sf_size = n,
                   sf_pathname = p, sf_chunks = cs\<rparr>)))))))
      | _ \<Rightarrow> None)"

definition files_of_json :: "json \<Rightarrow> snap_file rec option" where
  "files_of_json v =
     (case v of
        JObj kvs \<Rightarrow>
          map_option (foldl (\<lambda>m e. rset (fst e) (snd e) m) [])
            (all_some (map (\<lambda>(p, j). map_option (Pair p) (file_of_json j)) kvs))
      | _ \<Rightarrow> None)"

definition parent_of_json :: "json \<Rightarrow> string option option" where
  "parent_of_json v = (case v of JNull \<Rightarrow> Some None | JStr h \<Rightarrow> Some (Some h) | _ \<Rightarrow> None)"

definition snapshot_of_json :: "json \<Rightarrow> snapshot option" where
  "snapshot_of_json v =
     (case v of
        JObj kvs \<Rightarrow>
          Option.bind (Option.bind (field ''hash'' kvs) str_of) (\<lambda>h.
          Option.bind (Option.bind (field ''parent'' kvs) parent_of_json) (\<lambda>p.
          Option.bind (Option.bind (field ''timestamp'' kvs) num_of) (\<lambda>k.
          Option.bind (Option.bind (field ''files'' kvs) files_of_json) (\<lambda>fs.
            Some \<lparr>sn_hash = h, sn_parent = p, sn_timestamp = k, sn_files = fs\<rparr>))))
      | _ \<Rightarrow> None)"

subsection \<open>A stored snapshot reads back\<close>

lemma all_some_map: "(\<And>x. x \<in> set xs \<Longrightarrow> f x = Some (g x)) \<Longrightarrow> all_some (map f xs) = Some (map g xs)"
  by (induction xs) auto

lemma int_of_json_of_int [simp]: "int_of (json_of_int k) = Some k"
  by (simp add: int_of_def json_of_int_def)

lemma num_of_JNum [simp]: "num_of (JNum k) = Some k"
  by (simp add: num_of_def)

lemma str_of_JStr [simp]: "str_of (JStr s) = Some s"
  by (simp add: str_of_def)

lemma chunk_json [simp]: "chunk_of_json (json_of_chunk c) = Some c"
  by (cases c; cases "ck_size c") (auto simp: chunk_of_json_def json_of_chunk_def field_def opt_field_def opt_of_def)

lemma chunks_json [simp]: "chunks_of_json (JArr (map json_of_chunk cs)) = Some cs"
  using all_some_map [of cs "chunk_of_json \<circ> json_of_chunk" id] by (simp add: chunks_of_json_def comp_def)

lemma opt_of_opt_field: "(\<And>a. g (f a) = Some a) \<Longrightarrow> opt_of g (map_of (opt_field k f x) k) = Some x"
  by (cases x) (auto simp: opt_of_def opt_field_def)

lemma map_of_opt_field: "map_of (opt_field k f x) k' = (if k' = k then map_option f x else None)"
  by (cases x) (auto simp: opt_field_def)

lemma rev_opt_field [simp]: "rev (opt_field k f x) = opt_field k f x"
  by (cases x) (auto simp: opt_field_def)

lemma opt_of_map_option: "(\<And>a. g (f a) = Some a) \<Longrightarrow> opt_of g (map_option f x) = Some x"
  by (cases x) (auto simp: opt_of_def)

lemma file_json [simp]: "file_of_json (json_of_file f) = Some f"
  by (cases "sf_fileId f"; cases "sf_identity f"; cases "sf_historySource f"; cases "sf_size f")
    (simp_all add: file_of_json_def json_of_file_def field_def opt_field_def opt_of_def)

lemma foldl_rset_distinct:
  "distinct (map fst (done @ fs)) \<Longrightarrow> foldl (\<lambda>m e. rset (fst e) (snd e) m) done fs = done @ fs"
proof (induction fs arbitrary: "done")
  case (Cons e fs)
  have "rset (fst e) (snd e) m = m @ [e]" if "fst e \<notin> fst ` set m" for m :: "'a rec"
    using that by (induction m) auto
  with Cons show ?case by simp
qed simp

lemma files_json: "distinct (map fst fs) \<Longrightarrow> files_of_json (json_of_files fs) = Some fs"
proof -
  assume dist: "distinct (map fst fs)"
  have "all_some (map (\<lambda>(p, j). map_option (Pair p) (file_of_json j)) (map (\<lambda>(p, f). (p, json_of_file f)) fs)) = Some fs"
    by (induction fs) auto
  with dist foldl_rset_distinct [of "[]" fs] show ?thesis
    by (simp add: files_of_json_def json_of_files_def)
qed

lemma parent_json [simp]: "parent_of_json (json_of_parent p) = Some p"
  by (cases p) (auto simp: parent_of_json_def json_of_parent_def)

lemma snapshot_json: "distinct (map fst (sn_files s)) \<Longrightarrow> snapshot_of_json (json_of_snapshot s) = Some s"
  by (cases s) (simp add: snapshot_of_json_def json_of_snapshot_def field_def files_json)

lemma files_of_json_distinct: "files_of_json v = Some fs \<Longrightarrow> distinct (map fst fs)"
proof -
  have "distinct (map fst (foldl (\<lambda>m e. rset (fst e) (snd e) m) m es))" if "distinct (map fst m)" for m es :: "snap_file rec"
    using that by (induction es arbitrary: m) auto
  then show "files_of_json v = Some fs \<Longrightarrow> distinct (map fst fs)"
    by (auto simp: files_of_json_def split: json.splits)
qed

lemma snapshot_of_json_distinct: "snapshot_of_json v = Some s \<Longrightarrow> distinct (map fst (sn_files s))"
  by (auto simp: snapshot_of_json_def bind_eq_Some_conv split: json.split_asm dest!: files_of_json_distinct)


section \<open>The address of a snapshot\<close>

definition snapshot_hash :: "(bytes \<Rightarrow> string) \<Rightarrow> string option \<Rightarrow> snap_file rec \<Rightarrow> string" where
  "snapshot_hash sha parent files =
     sha (utf8_encode (stable_stringify (JObj [(''files'', json_of_files files), (''parent'', json_of_parent parent)])))"

definition empty_snapshot_hash :: "(bytes \<Rightarrow> string) \<Rightarrow> string" where
  "empty_snapshot_hash sha = snapshot_hash sha None []"

text \<open>The text an address is the digest of.\<close>

definition address_text :: "string option \<Rightarrow> snap_file rec \<Rightarrow> string" where
  "address_text parent files = stable_stringify (JObj [(''files'', json_of_files files), (''parent'', json_of_parent parent)])"

lemma snapshot_hash_text: "snapshot_hash sha parent files = sha (utf8_encode (address_text parent files))"
  by (simp add: snapshot_hash_def address_text_def)

subsection \<open>It commits to the files and to the parent\<close>

lemma sort_json_field:
  assumes "sort_json (JObj kvs) = sort_json (JObj kvs')" and "distinct (map fst kvs)" and "distinct (map fst kvs')"
    and "map_of kvs k = Some v"
  shows "\<exists>v'. map_of kvs' k = Some v' \<and> sort_json v = sort_json v'"
  using sort_json_JObj_lookup [OF assms(1-3), of k] assms(4) by (cases "map_of kvs' k") auto

lemma sort_json_chunk: "sort_json (json_of_chunk c) = sort_json (json_of_chunk c') \<Longrightarrow> c = c'"
  by (cases c; cases c'; cases "ck_size c"; cases "ck_size c'")
    (auto simp: json_of_chunk_def opt_field_def json_of_int_def)

lemma sort_json_chunks:
  "sort_json (JArr (map json_of_chunk cs)) = sort_json (JArr (map json_of_chunk cs')) \<Longrightarrow> cs = cs'"
  by (induction cs arbitrary: cs') (auto simp: sort_json_chunk elim!: map_eq_Cons_D)

lemma sort_json_leaf:
  "sort_json v = JStr s \<longleftrightarrow> v = JStr s" "sort_json v = JNum k \<longleftrightarrow> v = JNum k" "sort_json v = JNull \<longleftrightarrow> v = JNull"
  by (cases v; simp)+

definition file_fields :: "snap_file \<Rightarrow> (string \<times> json) list" where
  "file_fields f =
     opt_field ''fileId'' JStr (sf_fileId f) @ opt_field ''identity'' JStr (sf_identity f) @
      opt_field ''historySource'' JStr (sf_historySource f) @ [(''hash'', JStr (sf_hash f))] @
      opt_field ''size'' json_of_int (sf_size f) @
      [(''pathname'', JStr (sf_pathname f)), (''chunks'', JArr (map json_of_chunk (sf_chunks f)))]"

lemma json_of_file_fields: "json_of_file f = JObj (file_fields f)"
  by (simp add: json_of_file_def file_fields_def)

lemma opt_field_keys: "set (map fst (opt_field k f x)) \<subseteq> {k}"
  by (cases x) (auto simp: opt_field_def)

lemma opt_field_absent [simp]: "k' \<noteq> k \<Longrightarrow> map_of (opt_field k f x @ rest) k' = map_of rest k'"
  by (cases x) (auto simp: opt_field_def)

lemma opt_field_present: "map_of rest k = None \<Longrightarrow> map_of (opt_field k f x @ rest) k = map_option f x"
  by (cases x) (auto simp: opt_field_def)

lemma file_fields_lookup:
  "map_of (file_fields f) ''fileId'' = map_option JStr (sf_fileId f)"
  "map_of (file_fields f) ''identity'' = map_option JStr (sf_identity f)"
  "map_of (file_fields f) ''historySource'' = map_option JStr (sf_historySource f)"
  "map_of (file_fields f) ''hash'' = Some (JStr (sf_hash f))"
  "map_of (file_fields f) ''size'' = map_option json_of_int (sf_size f)"
  "map_of (file_fields f) ''pathname'' = Some (JStr (sf_pathname f))"
  "map_of (file_fields f) ''chunks'' = Some (JArr (map json_of_chunk (sf_chunks f)))"
  by (simp_all add: file_fields_def opt_field_present del: map_of_append)

lemma file_fields_distinct: "distinct (map fst (file_fields f))"
  by (cases "sf_fileId f"; cases "sf_identity f"; cases "sf_historySource f"; cases "sf_size f")
    (simp_all add: file_fields_def opt_field_def)

lemma sort_json_file:
  assumes "sort_json (json_of_file f) = sort_json (json_of_file g)"
  shows "f = g"
proof -
  have look: "map_option sort_json (map_of (file_fields f) k) = map_option sort_json (map_of (file_fields g) k)" for k
    using assms unfolding json_of_file_fields
    by (rule sort_json_JObj_lookup [OF _ file_fields_distinct file_fields_distinct])
  have opt: "map_option sort_json (map_option JStr x) = map_option sort_json (map_option JStr y) \<Longrightarrow> x = y" for x y
    by (cases x; cases y) auto
  have num: "map_option sort_json (map_option json_of_int x) = map_option sort_json (map_option json_of_int y) \<Longrightarrow> x = y" for x y
    by (cases x; cases y) (auto simp: json_of_int_def)
  have "sf_chunks f = sf_chunks g"
    using look [of "''chunks''"] by (simp only: file_fields_lookup option.map option.inject sort_json_chunks)
  then show ?thesis
    using opt [OF look [of "''fileId''", unfolded file_fields_lookup]]
      opt [OF look [of "''identity''", unfolded file_fields_lookup]]
      opt [OF look [of "''historySource''", unfolded file_fields_lookup]]
      num [OF look [of "''size''", unfolded file_fields_lookup]]
      look [of "''hash''"] look [of "''pathname''"]
    by (simp add: file_fields_lookup snap_file.equality)
qed

lemma sort_json_files:
  assumes "sort_json (json_of_files fs) = sort_json (json_of_files gs)"
    and "distinct (map fst fs)" and "distinct (map fst gs)"
  shows "map_of fs = map_of gs"
proof
  fix p
  have dist: "distinct (map fst (map (\<lambda>(p, f). (p, json_of_file f)) hs))" if "distinct (map fst hs)" for hs
    using that by (simp add: comp_def case_prod_beta')
  have "map_option sort_json (map_of (map (\<lambda>(p, f). (p, json_of_file f)) fs) p)
      = map_option sort_json (map_of (map (\<lambda>(p, f). (p, json_of_file f)) gs) p)"
    using assms by (intro sort_json_JObj_lookup dist) (simp_all add: json_of_files_def)
  then have "map_option sort_json (map_option json_of_file (map_of fs p))
      = map_option sort_json (map_option json_of_file (map_of gs p))"
    by (simp add: map_of_map)
  then show "map_of fs p = map_of gs p"
    by (cases "map_of fs p"; cases "map_of gs p") (auto simp: sort_json_file)
qed

lemma address_text_inject:
  assumes "address_text p fs = address_text q gs" and "distinct (map fst fs)" and "distinct (map fst gs)"
  shows "p = q \<and> map_of fs = map_of gs"
proof -
  let ?obj = "\<lambda>p fs. JObj [(''files'', json_of_files fs), (''parent'', json_of_parent p)]"
  have look: "map_option sort_json (map_of [(''files'', json_of_files fs), (''parent'', json_of_parent p)] k)
      = map_option sort_json (map_of [(''files'', json_of_files gs), (''parent'', json_of_parent q)] k)" for k
    using assms(1) stable_stringify_inject [of "?obj p fs" "?obj q gs"]
    by (intro sort_json_JObj_lookup) (simp_all add: address_text_def)
  from look [of "''files''"] have "sort_json (json_of_files fs) = sort_json (json_of_files gs)"
    by simp
  moreover from look [of "''parent''"] have "p = q"
    by (cases p; cases q) (auto simp: json_of_parent_def)
  ultimately show ?thesis
    using assms sort_json_files by blast
qed

lemma address_text_order:
  assumes "distinct (map fst fs)" and "distinct (map fst gs)" and "map_of fs = map_of gs"
  shows "address_text p fs = address_text p gs"
proof -
  have "sort_key fst (map (\<lambda>(p, f). (p, stable_stringify (json_of_file f))) fs)
      = sort_key fst (map (\<lambda>(p, f). (p, stable_stringify (json_of_file f))) gs)"
  proof (rule properties_for_sort_key)
    have "set fs = set gs"
      using assms by (simp add: map_of_inject_set [symmetric])
    then have "mset fs = mset gs"
      using assms by (simp add: distinct_map set_eq_iff_mset_eq_distinct)
    then show "mset (sort_key fst (map (\<lambda>(p, f). (p, stable_stringify (json_of_file f))) gs))
        = mset (map (\<lambda>(p, f). (p, stable_stringify (json_of_file f))) fs)"
      by simp
  next
    fix k
    have one: "filter (\<lambda>y. fst k = fst y) (map (\<lambda>(p, f). (p, h f)) hs)
        = (case map_of hs (fst k) of None \<Rightarrow> [] | Some f \<Rightarrow> [(fst k, h f)])"
      if "distinct (map fst hs)" for hs :: "snap_file rec" and h :: "snap_file \<Rightarrow> string"
      using that
    proof (induction hs)
      case (Cons e hs)
      show ?case
      proof (cases "fst e = fst k")
        case True
        with Cons.prems have "map_of hs (fst k) = None"
          by (auto simp: map_of_eq_None_iff)
        with Cons True show ?thesis
          by (simp add: case_prod_beta')
      next
        case False
        with Cons show ?thesis
          by (simp add: case_prod_beta')
      qed
    qed simp
    show "filter (\<lambda>y. fst k = fst y) (sort_key fst (map (\<lambda>(p, f). (p, stable_stringify (json_of_file f))) gs))
        = filter (\<lambda>y. fst k = fst y) (map (\<lambda>(p, f). (p, stable_stringify (json_of_file f))) fs)"
      by (simp add: filter_sort one assms split: option.split)
  qed simp
  then show ?thesis
    by (simp add: address_text_def json_of_files_def case_prod_beta' comp_def)
qed

end
