(* ===== verification/Checkout.thy ===== *)
theory Checkout
  imports Snapshot
begin

text \<open>
  The state the sync code works on, and this device's view of its working tree:
  \<open>packages/sync/src/checkout.ts\<close>.
\<close>

section \<open>The world of a repository\<close>

record checkout_entry =
  ce_size :: nat
  ce_mtime :: int
  ce_hash :: string
  ce_checkedAt :: int

record checkout_index =
  ix_entries :: "checkout_entry rec"
  ix_pending :: "string rec"

text \<open>
  The working tree and the repository store (two file systems), the clock, the supply of random
  ids, and what a \<open>Checkout\<close> keeps in memory. \<open>w_rivals\<close> are the steps other writers
  sharing the store and the tree (a second tab, another worker) will take: one runs between the
  moment this writer read the head and the moment it swaps it.
\<close>

record world =
  w_tree :: disk
  w_store :: disk
  w_clock :: int
  w_uuids :: nat
  w_index :: "checkout_index option"
  w_dirty :: bool
  w_rivals :: "(disk \<times> disk \<Rightarrow> disk \<times> disk) list"

text \<open>
  What comes from outside the repository's code: SHA-256, the content-defined cuts of the Rabin
  chunker, the pieces in which a file's stream delivers its bytes, the random ids, the policy that
  says which files this device holds, and the content merger a plugin may register.
\<close>

record params =
  px_sha :: "bytes \<Rightarrow> string"
  px_cut :: "bytes \<Rightarrow> bool \<Rightarrow> nat list"
  px_pieces :: "bytes \<Rightarrow> bytes list"
  px_uuid :: "nat \<Rightarrow> string"
  px_policy :: "snap_file \<Rightarrow> bool"
  px_merger :: "(string \<Rightarrow> bytes option \<Rightarrow> bytes \<Rightarrow> bytes \<Rightarrow> (bytes \<times> nat) option) option"

definition on_tree :: "(int \<Rightarrow> (disk, 'a) eff) \<Rightarrow> (world, 'a) eff" where
  "on_tree m = (\<lambda>w. case m (w_clock w) (w_tree w) of (r, d) \<Rightarrow> (r, w\<lparr>w_tree := d\<rparr>))"

definition on_store :: "(int \<Rightarrow> (disk, 'a) eff) \<Rightarrow> (world, 'a) eff" where
  "on_store m = (\<lambda>w. case m (w_clock w) (w_store w) of (r, d) \<Rightarrow> (r, w\<lparr>w_store := d\<rparr>))"

definition date_now :: "(world, int) eff" where
  "date_now = gets w_clock"

definition random_uuid :: "params \<Rightarrow> (world, string) eff" where
  "random_uuid px = (\<lambda>w. (Inr (px_uuid px (w_uuids w)), w\<lparr>w_uuids := Suc (w_uuids w)\<rparr>))"

section \<open>The index file\<close>

definition json_of_entry :: "checkout_entry \<Rightarrow> json" where
  "json_of_entry e = JObj
     [(''size'', json_of_int (int (ce_size e))), (''mtime'', json_of_int (ce_mtime e)),
      (''hash'', JStr (ce_hash e)), (''checkedAt'', json_of_int (ce_checkedAt e))]"

definition json_of_index :: "checkout_index \<Rightarrow> json" where
  "json_of_index ix = JObj
     [(''entries'', JObj (map (\<lambda>(p, e). (p, json_of_entry e)) (ix_entries ix))),
      (''pending'', JObj (map (\<lambda>(p, h). (p, JStr h)) (ix_pending ix)))]"

definition entry_of_json :: "json \<Rightarrow> checkout_entry option" where
  "entry_of_json v =
     (case v of
        JObj kvs \<Rightarrow>
          Option.bind (Option.bind (field ''size'' kvs) int_of) (\<lambda>n.
          Option.bind (Option.bind (field ''mtime'' kvs) int_of) (\<lambda>m.
          Option.bind (Option.bind (field ''hash'' kvs) str_of) (\<lambda>h.
          Option.bind (Option.bind (field ''checkedAt'' kvs) int_of) (\<lambda>c.
            Some \<lparr>ce_size = nat n, ce_mtime = m, ce_hash = h, ce_checkedAt = c\<rparr>))))
      | _ \<Rightarrow> None)"

definition rec_of_json :: "(json \<Rightarrow> 'a option) \<Rightarrow> json \<Rightarrow> 'a rec option" where
  "rec_of_json f v =
     (case v of
        JObj kvs \<Rightarrow>
          map_option (foldl (\<lambda>m e. rset (fst e) (snd e) m) [])
            (all_some (map (\<lambda>(p, j). map_option (Pair p) (f j)) kvs))
      | _ \<Rightarrow> None)"

text \<open>\<open>{ entries: raw.entries ?? {}, pending: raw.pending ?? {} }\<close>\<close>

definition or_empty :: "(json \<Rightarrow> 'a rec option) \<Rightarrow> json option \<Rightarrow> 'a rec option" where
  "or_empty f v = (case v of None \<Rightarrow> Some [] | Some JNull \<Rightarrow> Some [] | Some j \<Rightarrow> f j)"

definition index_of_json :: "json \<Rightarrow> checkout_index option" where
  "index_of_json v =
     (case v of
        JObj kvs \<Rightarrow>
          Option.bind (or_empty (rec_of_json entry_of_json) (field ''entries'' kvs)) (\<lambda>es.
          Option.bind (or_empty (rec_of_json str_of) (field ''pending'' kvs)) (\<lambda>ps.
            Some \<lparr>ix_entries = es, ix_pending = ps\<rparr>))
      | _ \<Rightarrow> None)"

definition index_path :: string where "index_path = ''/repo/index''"

section \<open>Checkout\<close>

definition type_error :: app_error where
  "type_error = Thrown ''TypeError''"

definition or_type_error :: "'a option \<Rightarrow> ('s, 'a) eff" where
  "or_type_error x = (case x of None \<Rightarrow> throw type_error | Some a \<Rightarrow> ret a)"

definition load_index :: "(world, checkout_index) eff" where
  "load_index = (\<lambda>w.
     case w_index w of
       Some ix \<Rightarrow> (Inr ix, w)
     | None \<Rightarrow>
         (bnd (on_store (\<lambda>_. read_json (Some (JObj [])) index_path)) (\<lambda>raw.
          bnd (or_type_error (index_of_json raw)) (\<lambda>ix.
          seq (modify (\<lambda>w. w\<lparr>w_index := Some ix\<rparr>)) (ret ix)))) w)"

definition set_index :: "(checkout_index \<Rightarrow> checkout_index) \<Rightarrow> (world, unit) eff" where
  "set_index f = modify (\<lambda>w. w\<lparr>w_index := map_option f (w_index w), w_dirty := True\<rparr>)"

definition racy_ms :: int where "racy_ms = 2000"

definition trusted :: "checkout_entry \<Rightarrow> file_head \<Rightarrow> bool" where
  "trusted known head \<longleftrightarrow>
     ce_size known = head_size head \<and> ce_mtime known = head_modifiedAt head \<and>
     ce_mtime known + racy_ms < ce_checkedAt known"

definition put_entry :: "string \<Rightarrow> file_head \<Rightarrow> string \<Rightarrow> int \<Rightarrow> (world, unit) eff" where
  "put_entry p head hash now =
     set_index (\<lambda>ix. ix\<lparr>ix_entries := rset p
       \<lparr>ce_size = head_size head, ce_mtime = head_modifiedAt head, ce_hash = hash, ce_checkedAt = now\<rparr> (ix_entries ix)\<rparr>)"

definition digest :: "params \<Rightarrow> string \<Rightarrow> (world, string) eff" where
  "digest px p = bnd (on_tree (\<lambda>_. fs_readable p)) (\<lambda>b. ret (px_sha px b))"

definition hash_of :: "params \<Rightarrow> string \<Rightarrow> (world, string option) eff" where
  "hash_of px p =
     bnd load_index (\<lambda>ix.
     bnd (catch (bnd (on_tree (\<lambda>_. fs_head p)) (\<lambda>h. ret (Some h)))
            (\<lambda>e. case e of FileNotFound _ \<Rightarrow> ret None | _ \<Rightarrow> throw e)) (\<lambda>head.
       case head of
         None \<Rightarrow> ret None
       | Some head \<Rightarrow>
           if (case rget (ix_entries ix) p of Some known \<Rightarrow> trusted known head | None \<Rightarrow> False)
           then ret (map_option ce_hash (rget (ix_entries ix) p))
           else bnd (digest px p) (\<lambda>hash.
                bnd date_now (\<lambda>now.
                seq (put_entry p head hash now) (ret (Some hash))))))"

definition record_hash :: "string \<Rightarrow> string \<Rightarrow> (world, unit) eff" where
  "record_hash p hash =
     bnd load_index (\<lambda>_.
     bnd (on_tree (\<lambda>_. fs_head p)) (\<lambda>head.
     bnd date_now (\<lambda>now. put_entry p head hash now)))"

definition forget :: "string \<Rightarrow> (world, unit) eff" where
  "forget p =
     bnd load_index (\<lambda>ix.
     when_do (rget (ix_entries ix) p \<noteq> None)
       (set_index (\<lambda>ix. ix\<lparr>ix_entries := rdel p (ix_entries ix)\<rparr>)))"

definition knows :: "string \<Rightarrow> (world, bool) eff" where
  "knows p = bnd load_index (\<lambda>ix. ret (rget (ix_entries ix) p \<noteq> None))"

definition is_pending :: "string \<Rightarrow> (world, bool) eff" where
  "is_pending p = bnd load_index (\<lambda>ix. ret (rget (ix_pending ix) p \<noteq> None))"

definition mark_pending :: "string \<Rightarrow> string \<Rightarrow> (world, unit) eff" where
  "mark_pending p hash =
     bnd load_index (\<lambda>ix.
     if rget (ix_pending ix) p = Some hash then ret ()
     else set_index (\<lambda>ix. ix\<lparr>ix_pending := rset p hash (ix_pending ix), ix_entries := rdel p (ix_entries ix)\<rparr>))"

definition clear_pending :: "string \<Rightarrow> (world, unit) eff" where
  "clear_pending p =
     bnd load_index (\<lambda>ix.
     when_do (rget (ix_pending ix) p \<noteq> None)
       (set_index (\<lambda>ix. ix\<lparr>ix_pending := rdel p (ix_pending ix)\<rparr>)))"

definition pending_paths :: "(world, string list) eff" where
  "pending_paths = bnd load_index (\<lambda>ix. ret (rkeys (ix_pending ix)))"

definition flush :: "(world, unit) eff" where
  "flush = (\<lambda>w.
     if \<not> w_dirty w \<or> w_index w = None then (Inr (), w)
     else seq (on_store (\<lambda>t. write_json t index_path (json_of_index (the (w_index w)))))
            (modify (\<lambda>w. w\<lparr>w_dirty := False\<rparr>)) w)"

end
