(* ===== verification/Chunker.thy ===== *)
theory Chunker
  imports Checkout
begin

text \<open>
  \<open>packages/sync/src/chunker.ts\<close>: cutting a file's stream into content-defined chunks, and
  joining chunks again. Where the cuts fall is the Rabin library's decision (\<open>px_cut\<close>).
\<close>

section \<open>Splitting\<close>

fun apply_cuts :: "nat list \<Rightarrow> bytes \<Rightarrow> bytes list \<times> bytes" where
  "apply_cuts [] b = ([], b)"
| "apply_cuts (c # cs) b = (let (out, rest) = apply_cuts cs (drop c b) in (take c b # out, rest))"

text \<open>
  The reader is at the end of the stream: cut what is buffered until nothing is left. \<open>None\<close> is
  the loop that never ends because the cuts consume nothing.
\<close>

function drain :: "(bytes \<Rightarrow> bool \<Rightarrow> nat list) \<Rightarrow> bytes \<Rightarrow> bytes list option" where
  "drain cutter buf =
     (if buf = [] then Some []
      else let (out, rest) = apply_cuts (cutter buf True) buf
           in if length rest < length buf then map_option (append out) (drain cutter rest) else None)"
  by pat_completeness auto
termination
  by (relation "measure (length \<circ> snd)") auto

declare drain.simps [simp del]

fun split_from :: "(bytes \<Rightarrow> bool \<Rightarrow> nat list) \<Rightarrow> bytes \<Rightarrow> bytes list \<Rightarrow> bytes list option" where
  "split_from cutter buf [] = drain cutter buf"
| "split_from cutter buf (p # ps) =
     (if buf @ p = [] then Some []
      else let (out, rest) = apply_cuts (cutter (buf @ p) False) (buf @ p)
           in map_option (append out) (split_from cutter rest ps))"

definition split_chunks :: "params \<Rightarrow> bytes list \<Rightarrow> bytes list option" where
  "split_chunks px stream = split_from (px_cut px) [] stream"

text \<open>\<open>split\<close> of a file; a split that never ends is the error no caller sees.\<close>

definition stuck :: app_error where
  "stuck = Thrown ''stuck''"

definition chunks_of :: "params \<Rightarrow> bytes list \<Rightarrow> ('s, bytes list) eff" where
  "chunks_of px stream = (case split_chunks px stream of None \<Rightarrow> throw stuck | Some cs \<Rightarrow> ret cs)"

section \<open>Joining\<close>

text \<open>
  \<open>merge\<close> of stored chunks piped into an open file: each chunk is read from the store and goes
  to the end of the target.
\<close>

definition pipe_chunks :: "string list \<Rightarrow> string \<Rightarrow> (world, unit) eff" where
  "pipe_chunks chunk_files target =
     seq (on_tree (\<lambda>t. fs_truncate t target))
       (for_each chunk_files (\<lambda>c. bnd (on_store (\<lambda>_. fs_readable c)) (\<lambda>b. on_tree (\<lambda>t. fs_append t target b))))"

section \<open>No byte is lost or made up\<close>

lemma apply_cuts_concat: "apply_cuts cs b = (out, rest) \<Longrightarrow> concat out @ rest = b"
  by (induction cs b arbitrary: out rest rule: apply_cuts.induct) (auto split: prod.splits)

text \<open>
  What the Rabin library documents: at the end of the input its cuts consume something of what is
  left, and no cut is empty.
\<close>

definition cuts_progress :: "(bytes \<Rightarrow> bool \<Rightarrow> nat list) \<Rightarrow> bool" where
  "cuts_progress cutter \<longleftrightarrow>
     (\<forall>b. b \<noteq> [] \<longrightarrow> cutter b True \<noteq> [] \<and> hd (cutter b True) > 0)"

lemma apply_cuts_shorter: "cs \<noteq> [] \<Longrightarrow> hd cs > 0 \<Longrightarrow> b \<noteq> [] \<Longrightarrow> length (snd (apply_cuts cs b)) < length b"
proof -
  have le: "length (snd (apply_cuts cs b)) \<le> length b" for cs b
    by (induction cs b rule: apply_cuts.induct) (auto split: prod.splits)
  assume "cs \<noteq> []" "hd cs > 0" "b \<noteq> []"
  then obtain c cs' where "cs = c # cs'" "c > 0" by (cases cs) auto
  moreover have "length b - c < length b"
    using \<open>b \<noteq> []\<close> \<open>c > 0\<close> by simp
  ultimately show ?thesis
    using le [of cs' "drop c b"] by (auto split: prod.splits)
qed

lemma drain_concat:
  assumes "cuts_progress cutter"
  shows "\<exists>cs. drain cutter buf = Some cs \<and> concat cs = buf"
proof (induction "length buf" arbitrary: buf rule: less_induct)
  case less
  show ?case
  proof (cases "buf = []")
    case True
    then show ?thesis by (simp add: drain.simps)
  next
    case False
    obtain out rest where cuts: "apply_cuts (cutter buf True) buf = (out, rest)" by fastforce
    with assms False apply_cuts_shorter [of "cutter buf True" buf] have "length rest < length buf"
      by (auto simp: cuts_progress_def)
    with less obtain cs where "drain cutter rest = Some cs" "concat cs = rest" by blast
    with False cuts \<open>length rest < length buf\<close> apply_cuts_concat [OF cuts] show ?thesis
      by (simp add: drain.simps [of cutter buf])
  qed
qed

lemma split_from_concat:
  assumes "cuts_progress cutter" and "[] \<notin> set ps"
  shows "\<exists>cs. split_from cutter buf ps = Some cs \<and> concat cs = buf @ concat ps"
  using assms(2)
proof (induction ps arbitrary: buf)
  case Nil
  then show ?case using drain_concat [OF assms(1)] by simp
next
  case (Cons p ps)
  obtain out rest where cuts: "apply_cuts (cutter (buf @ p) False) (buf @ p) = (out, rest)" by fastforce
  from Cons obtain cs where "split_from cutter rest ps = Some cs" "concat cs = rest @ concat ps" by auto
  with Cons.prems cuts apply_cuts_concat [OF cuts] show ?case
    by auto
qed

text \<open>What the library and the file system together promise of a content's stream.\<close>

definition streams :: "params \<Rightarrow> bool" where
  "streams px \<longleftrightarrow> cuts_progress (px_cut px) \<and> (\<forall>b. concat (px_pieces px b) = b \<and> [] \<notin> set (px_pieces px b))"

lemma split_file_concat: "streams px \<Longrightarrow> \<exists>cs. split_chunks px (px_pieces px b) = Some cs \<and> concat cs = b"
  using split_from_concat [of "px_cut px" "px_pieces px b" "[]"] by (auto simp: streams_def split_chunks_def)

end
