(* ===== verification/StorageProps.thy ===== *)
theory StorageProps
  imports Views Chunker
begin

text \<open>
  The properties of the storage layer: path strings, the Node backend and its containment and tree
  invariants, the capability fallbacks, the scoped and the observed view, the pinned range reader,
  the JSON codec, the snapshot address and the chunker.
\<close>

section \<open>The Node backend\<close>

text \<open>
  C12: a path handed to the Node backend never leaves its root. Whatever \<open>..\<close> segments,
  slashes or absolute form it has, it either denotes the root extended by ordinary names or is
  refused with \<open>ScopeAccessDenied\<close>, and it is refused only when it does leave the root.
\<close>

theorem node_path_contained:
  assumes "list_all proper (root_dir d)"
  shows "case to_os_path d p of
      Inr ks \<Rightarrow> list_all proper ks \<and> resolve_segs (root_dir d) (normalize_path p) = root_dir d @ ks
    | Inl e \<Rightarrow> e = ScopeAccessDenied p \<and> (\<nexists>ks. resolve_segs (root_dir d) (normalize_path p) = root_dir d @ ks)"
proof (cases "to_os_path d p")
  case (Inl e)
  then have "e = ScopeAccessDenied p" by (auto simp: to_os_path_def Let_def split: if_splits)
  moreover have "resolve_segs (root_dir d) (normalize_path p) \<noteq> root_dir d @ ks" for ks
    using to_os_path_Inr [OF assms, of p ks] Inl by auto
  ultimately show ?thesis using Inl by simp
next
  case (Inr ks)
  then show ?thesis
    using to_os_path_Inr [OF assms, of p ks] to_os_path_proper [OF assms, of p ks] by simp
qed

definition demo_disk :: disk where
  "demo_disk = \<lparr>root_dir = [''srv'', ''vault''], nodes = [([''a''], Dir 3), ([''a'', ''n.md''], File [1, 2, 3] 4 3)]\<rparr>"

lemma demo_disk_rooted: "list_all proper (root_dir demo_disk)"
  by (simp add: demo_disk_def proper_def)

theorem node_path_contained_witness:
  "to_os_path demo_disk ''../x'' = Inl (ScopeAccessDenied ''../x'')
     \<and> (\<nexists>ks. resolve_segs (root_dir demo_disk) (normalize_path ''../x'') = root_dir demo_disk @ ks)"
proof -
  have "to_os_path demo_disk ''../x'' = Inl (ScopeAccessDenied ''../x'')"
    by (simp add: demo_disk_def to_os_path_def resolve_segs_def normalize_path_def norm_segs_def seg_step_def Let_def)
  with node_path_contained [OF demo_disk_rooted, of "''../x''"] show ?thesis by simp
qed

text \<open>
  Every operation of the Node backend leaves a well-formed tree: names are unique and proper
  and every entry lies in directories that exist, also when the operation throws half way.
\<close>

theorem node_keeps_tree:
  "keeps wf_disk (fs_write t p b) \<and> keeps wf_disk (fs_truncate t p) \<and> keeps wf_disk (fs_append t p b)
   \<and> keeps wf_disk (fs_delete force recursive p) \<and> keeps wf_disk (fs_cas t p expected next)
   \<and> keeps wf_disk (fs_rename t p q) \<and> keeps wf_disk (fs_list p) \<and> keeps wf_disk (fs_read p)
   \<and> keeps wf_disk (fs_readable p) \<and> keeps wf_disk (fs_read_range p offset len)
   \<and> keeps wf_disk (fs_exists p) \<and> keeps wf_disk (fs_head p)"
  by (intro conjI keeps_intros) (simp_all add: keeps_reads)

text \<open>
  C13: the native compare-and-swap is exact. It answers true exactly when the file held the expected
  bytes (or was absent, for \<open>null\<close>); then that file holds the new bytes and no other file
  changed. In every other case, errors included, no file changed.
\<close>

theorem node_cas_exact:
  assumes "fs_cas t p expected next d = (x, d')"
  shows "if x = Inr True
    then file_at d p = expected \<and> (\<forall>q. file_at d' q = (if to_os_path d q = to_os_path d p then Some next else file_at d q))
    else file_at d' = file_at d \<and> (x = Inr False \<longrightarrow> file_at d p \<noteq> expected)"
proof (cases x)
  case (Inl e)
  with assms fs_cas_err show ?thesis by auto
next
  case (Inr r)
  with assms fs_cas_ok [of t p expected "next" d r d'] show ?thesis by (cases r) auto
qed

theorem node_cas_exact_witness:
  "file_at (snd (fs_cas 9 ''a/n.md'' (Some [1, 2, 3]) [7] demo_disk)) ''a/n.md'' = Some [7]
   \<and> file_at (snd (fs_cas 9 ''a/n.md'' (Some [1, 2]) [7] demo_disk)) = file_at demo_disk"
proof -
  have os: "to_os_path demo_disk ''a/n.md'' = Inr [''a'', ''n.md'']"
    by (simp add: demo_disk_def to_os_path_def resolve_segs_def normalize_path_def norm_segs_def seg_step_def Let_def)
  have make: "make_dirs 9 (ancestors [''a'', ''n.md'']) (nodes demo_disk) = Inr (nodes demo_disk)"
    by (simp add: ancestors_def demo_disk_def)
  have "fst (fs_cas 9 ''a/n.md'' (Some [1, 2, 3]) [7] demo_disk) = Inr True"
    "fst (fs_cas 9 ''a/n.md'' (Some [1, 2]) [7] demo_disk) = Inr False"
    using os make by (simp_all add: fs_cas_def on_path_cases os_stat_def demo_disk_def replace_file_def effs)
  then obtain d1 d2 where "fs_cas 9 ''a/n.md'' (Some [1, 2, 3]) [7] demo_disk = (Inr True, d1)"
    "fs_cas 9 ''a/n.md'' (Some [1, 2]) [7] demo_disk = (Inr False, d2)"
    by (metis prod.collapse)
  with node_cas_exact [OF this(1)] node_cas_exact [OF this(2)] show ?thesis by simp
qed

section \<open>Operations with and without native support\<close>


lemma os_stat_file: "to_os_path d p = Inr ks \<Longrightarrow> file_at d p = (case os_stat d ks of Inr (File b _ _) \<Rightarrow> Some b | _ \<Rightarrow> None)"
  by (simp add: file_at_def)







section \<open>Views\<close>

definition confined :: "string list \<Rightarrow> (disk, 'a) eff \<Rightarrow> bool" where
  "confined names m \<longleftrightarrow> (\<forall>d r d' q. list_all proper (root_dir d) \<longrightarrow> m d = (r, d') \<longrightarrow> file_at d' q \<noteq> file_at d q
     \<longrightarrow> (\<exists>ks. to_os_path d q = Inr (names @ ks)))"

lemma confined_scoped:
  assumes names: "list_all proper names" "names \<noteq> []"
    and f: "\<And>inner d r d' q. f inner d = (r, d') \<Longrightarrow> file_at d' q \<noteq> file_at d q \<Longrightarrow>
      \<exists>ks r. to_os_path d inner = Inr ks \<and> to_os_path d q = Inr (ks @ r)"
  shows "confined names (scoped (scoped_base (join ''/'' names)) p f)"
  unfolding confined_def
proof (intro allI impI)
  fix d r d' q
  assume root: "list_all proper (root_dir d)" and run: "scoped (scoped_base (join ''/'' names)) p f d = (r, d')"
    and changed: "file_at d' q \<noteq> file_at d q"
  obtain inner where inner: "scoped_resolve (join ''/'' names) p = Inr inner" and "f inner d = (r, d')"
    using run changed scoped_base_plain [OF names]
    by (cases "scoped_resolve (join ''/'' names) p") (auto simp: scoped_def bnd_def lift_sum_def)
  with f changed obtain ks r where "to_os_path d inner = Inr ks" "to_os_path d q = Inr (ks @ r)" by blast
  moreover obtain ks' where "to_os_path d inner = Inr ks'" "starts names ks'"
    using scoped_contained [OF names root inner] by blast
  ultimately show "\<exists>ks. to_os_path d q = Inr (names @ ks)"
    by (auto simp: starts_iff)
qed

lemma same_place_confined:
  assumes "on_path inner f d = (r, d')" and "file_at d' q \<noteq> file_at d q" and "to_os_path d q = to_os_path d inner"
  shows "\<exists>ks r. to_os_path d inner = Inr ks \<and> to_os_path d q = Inr (ks @ r)"
proof (cases "to_os_path d inner")
  case (Inl e)
  with assms(1) have "d' = d" by (simp add: on_path_cases)
  with assms(2) show ?thesis by simp
next
  case (Inr ks)
  with assms(3) show ?thesis by (intro exI [of _ ks] exI [of _ "[]"]) simp
qed

lemma fs_write_confined:
  assumes "fs_write t inner b d = (r, d')" and "file_at d' q \<noteq> file_at d q"
  shows "\<exists>ks r. to_os_path d inner = Inr ks \<and> to_os_path d q = Inr (ks @ r)"
proof -
  have "to_os_path d q = to_os_path d inner"
    using assms fs_write_ok fs_write_err by (cases r) (metis, metis)
  with assms show ?thesis unfolding fs_write_def by (rule same_place_confined)
qed

lemma fs_append_confined:
  assumes "fs_append t inner b d = (r, d')" and "file_at d' q \<noteq> file_at d q"
  shows "\<exists>ks r. to_os_path d inner = Inr ks \<and> to_os_path d q = Inr (ks @ r)"
proof -
  have "to_os_path d q = to_os_path d inner"
    using assms fs_append_ok fs_append_err by (cases r) (metis, metis)
  with assms show ?thesis unfolding fs_append_def by (rule same_place_confined)
qed

lemma fs_stream_confined:
  assumes "seq (fs_truncate t inner) (for_each writes (\<lambda>(u, b). fs_append u inner b)) d = (r, d')" and "file_at d' q \<noteq> file_at d q"
  shows "\<exists>ks r. to_os_path d inner = Inr ks \<and> to_os_path d q = Inr (ks @ r)"
proof (cases "to_os_path d inner")
  case (Inl e)
  with assms(1) have "d' = d" by (simp add: fs_truncate_def on_path_cases seq_def bnd_def)
  with assms(2) show ?thesis by simp
next
  case (Inr ks)
  have place: "to_os_path d' = to_os_path d" if "root_dir d' = root_dir d" for d d' :: disk
    using to_os_path_cong [OF that] by blast
  have one: "root_dir d2 = root_dir d1 \<and> (to_os_path d1 q \<noteq> to_os_path d1 inner \<longrightarrow> file_at d2 q = file_at d1 q)"
    if "fs_append u inner b d1 = (x, d2)" for u b d1 x d2
    using that fs_append_ok [of u inner b d1 _ d2] fs_append_err [of u inner b d1 _ d2] by (cases x) auto
  have loop: "root_dir d2 = root_dir d1 \<and> (to_os_path d1 q \<noteq> to_os_path d1 inner \<longrightarrow> file_at d2 q = file_at d1 q)"
    if "for_each writes (\<lambda>(u, b). fs_append u inner b) d1 = (x, d2)" for d1 x d2
    using that
  proof (induction writes arbitrary: d1)
    case (Cons w ws)
    obtain u b where w: "w = (u, b)" by fastforce
    obtain y d3 where first: "fs_append u inner b d1 = (y, d3)" by fastforce
    show ?case
    proof (cases y)
      case (Inl e)
      with Cons.prems w first one [OF first] show ?thesis by (auto simp: seq_def bnd_def)
    next
      case (Inr v)
      with Cons.prems w first have "for_each ws (\<lambda>(u, b). fs_append u inner b) d3 = (x, d2)" by (simp add: seq_def bnd_def)
      from Cons.IH [OF this] one [OF first] place [of d3 d1] show ?thesis by simp
    qed
  qed (simp add: ret_def)
  obtain y d1 where cut: "fs_truncate t inner d = (y, d1)" by fastforce
  have "to_os_path d q = to_os_path d inner"
  proof (cases y)
    case (Inl e)
    with assms cut fs_truncate_err [OF cut [unfolded Inl]] show ?thesis by (auto simp: seq_def bnd_def)
  next
    case (Inr v)
    with assms(1) cut have "for_each writes (\<lambda>(u, b). fs_append u inner b) d1 = (r, d')" by (simp add: seq_def bnd_def)
    from loop [OF this] fs_truncate_ok [OF cut [unfolded Inr]] place [of d1 d] assms(2) show ?thesis by metis
  qed
  with Inr show ?thesis by (intro exI [of _ ks] exI [of _ "[]"]) simp
qed

lemma fs_cas_confined:
  assumes "fs_cas t inner expected b d = (r, d')" and "file_at d' q \<noteq> file_at d q"
  shows "\<exists>ks r. to_os_path d inner = Inr ks \<and> to_os_path d q = Inr (ks @ r)"
proof -
  have "to_os_path d q = to_os_path d inner"
    using assms fs_cas_ok fs_cas_err by (cases r) (metis, metis)
  with assms show ?thesis unfolding fs_cas_def by (rule same_place_confined)
qed

lemma fs_delete_confined:
  assumes "fs_delete force recursive inner d = (r, d')" and "file_at d' q \<noteq> file_at d q"
  shows "\<exists>ks r. to_os_path d inner = Inr ks \<and> to_os_path d q = Inr (ks @ r)"
  using assms fs_delete_ok [of force recursive inner d _ d' q] fs_delete_err [of force recursive inner d _ d']
  by (cases r) auto

text \<open>
  C22: a scoped view is confined to its prefix. Whatever path it is given, a writing operation of the
  view (write, append, compare-and-swap, a stream opened for writing with whatever is then written to
  it, delete) changes only files below the prefix.
\<close>

theorem scoped_writes_confined:
  assumes "list_all proper names" and "names \<noteq> []"
  shows "confined names (scoped_write t (scoped_base (join ''/'' names)) p b)
    \<and> confined names (scoped_append t (scoped_base (join ''/'' names)) p b)
    \<and> confined names (scoped_cas t (scoped_base (join ''/'' names)) p expected b)
    \<and> confined names (scoped_writable t (scoped_base (join ''/'' names)) p writes)
    \<and> confined names (scoped_delete (scoped_base (join ''/'' names)) force recursive p)"
  unfolding scoped_write_def scoped_append_def scoped_cas_def scoped_writable_def scoped_delete_def
  by (intro conjI confined_scoped [OF assms])
    (rule fs_write_confined fs_append_confined fs_cas_confined fs_stream_confined fs_delete_confined; assumption)+

theorem scoped_writes_confined_witness:
  "confined [''plugins'', ''sync''] (scoped_write 7 (scoped_base ''plugins/sync'') ''../../vault/n.md'' [1])"
  using scoped_writes_confined [of "[''plugins'', ''sync'']" 7 "''../../vault/n.md''" "[1]"] by (simp add: proper_def)

text \<open>
  The observed view tells its watcher of every change it makes. Whatever an operation does to
  the contents, throwing or not, each file whose content changed is covered by a report sent during
  the operation, and reports are only added.
\<close>

theorem observed_changes_reported:
  "reports_changes (observed_write t p b) \<and> reports_changes (observed_append t p b)
   \<and> reports_changes (observed_cas t p expected b) \<and> reports_changes (observed_delete force recursive p)
   \<and> reports_changes (observed_rename t p q)"
  by (intro conjI observed_write_reports observed_append_reports observed_cas_reports observed_delete_reports
      observed_rename_reports)

text \<open>
  A pinned reader never mixes versions. While other writers move the file between any two of
  its steps, a range it returns is that range of the content the file had when the reader was opened,
  provided a rewrite shows in the modification time.
\<close>

theorem pinned_reader_stable:
  assumes "stamped d0 p = Some (b0, m0)" and "fs_head p d0 = (Inr pinned, d0)"
    and "stamped d1 p = Some (b1, m1)" and "stamped (others1 d1) p = Some (b2, m2)"
    and "stamped (others2 (others1 d1)) p = Some (b3, m3)"
    and "visible_rewrites p d0 d1" and "visible_rewrites p d1 (others1 d1)"
    and "visible_rewrites p (others1 d1) (others2 (others1 d1))"
    and "pinned_read others1 others2 pinned p offset len d1 = (Inr bytes, d')"
  shows "\<exists>start stop. resolve_range (length b0) offset len = Inr (start, stop) \<and> bytes = slice start stop b0"
  using assms by (rule pinned_read_stable)

theorem pinned_reader_stable_witness:
  "\<exists>start stop. resolve_range (length [1, 2, 3 :: byte]) (Whole 1) (Some (Whole 5)) = Inr (start, stop)
     \<and> [2, 3] = slice start stop [1, 2, 3]"
proof -
  have os: "to_os_path demo_disk ''a/n.md'' = Inr [''a'', ''n.md'']"
    by (simp add: demo_disk_def to_os_path_def resolve_segs_def normalize_path_def norm_segs_def seg_step_def Let_def)
  have stat: "stamped demo_disk ''a/n.md'' = Some ([1, 2, 3], 4)"
    using os by (simp add: stamped_def os_stat_def demo_disk_def)
  have head: "fs_head ''a/n.md'' demo_disk = (Inr \<lparr>head_size = 3, head_modifiedAt = 4, head_createdAt = 3\<rparr>, demo_disk)"
    using os by (simp add: fs_head_def on_path_cases os_stat_def demo_disk_def)
  have "pinned_read id id \<lparr>head_size = 3, head_modifiedAt = 4, head_createdAt = 3\<rparr> ''a/n.md'' (Whole 1) (Some (Whole 5)) demo_disk
      = (Inr [2, 3], demo_disk)"
    using os head by (simp add: pinned_read_def effs fs_read_range_def on_path_cases os_stat_def resolve_range_def slice_def demo_disk_def)
  with stat show ?thesis
    by (intro pinned_reader_stable [OF stat head stat]) (auto simp: visible_rewrites_def)
qed

section \<open>Text forms\<close>

text \<open>
  Splitting a pathname loses nothing but separators: the folder, the name and the extension,
  with at most a slash and a dot between them, are the pathname, and the last two hold no slash.
\<close>

theorem split_pathname_lossless:
  "\<exists>sep dot. p = fst (split_pathname p) @ sep @ fst (snd (split_pathname p)) @ dot @ snd (snd (split_pathname p))
     \<and> sep \<in> {[], ''/''} \<and> dot \<in> {[], ''.''} \<and> slash \<notin> set (fst (snd (split_pathname p)) @ snd (snd (split_pathname p)))"
  using split_pathname_recompose [of p] by (metis prod.collapse)

text \<open>
  Stable serialization is canonical. It can be parsed back to the value with its keys sorted, so
  two values serialize to the same text only if they differ in nothing but the order of keys.
\<close>

theorem stable_stringify_canonical:
  "parse_json (stable_stringify v) = Some (sort_json v)
   \<and> (stable_stringify v = stable_stringify w \<longleftrightarrow> sort_json v = sort_json w)"
  using parse_json_printed [OF layout_compact] stable_stringify_inject [of v w]
    stable_stringify_eq [of v] stable_stringify_eq [of w] by metis

text \<open>
  A manifest survives its stored form: what is written, indented as the file system writes
  JSON, reads back as the same snapshot.
\<close>

theorem snapshot_json_roundtrip:
  assumes "distinct (map fst (sn_files s))"
  shows "Option.bind (parse_json (stringify_indented (json_of_snapshot s))) snapshot_of_json = Some s"
  using snapshot_json [OF assms] by simp

theorem snapshot_json_roundtrip_witness:
  "Option.bind (parse_json (stringify_indented (json_of_snapshot
     \<lparr>sn_hash = ''ab'', sn_parent = Some ''cd'', sn_timestamp = 1234, sn_files =
        [(''vault/a'', \<lparr>sf_fileId = Some ''1'', sf_identity = None, sf_historySource = None, sf_hash = ''ef'', sf_size = Some 3,
           sf_pathname = ''vault/a'', sf_chunks = [\<lparr>ck_hash = ''ef'', ck_size = None\<rparr>]\<rparr>)]\<rparr>))) snapshot_of_json
   \<noteq> None"
  by (subst snapshot_json_roundtrip) simp_all

text \<open>
  C29: a snapshot's address commits to its files and to its parent, and to nothing else. It does not
  depend on the order the files were listed in, and where the digest has no collision on the two
  serializations, equal addresses mean the same parent and the same entry at every path.
\<close>

theorem snapshot_address_commits:
  assumes "distinct (map fst fs)" and "distinct (map fst gs)"
    and "sha (utf8_encode (address_text p fs)) = sha (utf8_encode (address_text q gs)) \<longrightarrow> address_text p fs = address_text q gs"
  shows "snapshot_hash sha p fs = snapshot_hash sha q gs \<longleftrightarrow> p = q \<and> map_of fs = map_of gs"
proof
  assume "snapshot_hash sha p fs = snapshot_hash sha q gs"
  with assms(3) have "address_text p fs = address_text q gs" by (simp add: snapshot_hash_text)
  from address_text_inject [OF this assms(1,2)] show "p = q \<and> map_of fs = map_of gs" .
next
  assume "p = q \<and> map_of fs = map_of gs"
  with address_text_order [OF assms(1,2)] show "snapshot_hash sha p fs = snapshot_hash sha q gs"
    by (simp add: snapshot_hash_text)
qed

theorem snapshot_address_commits_witness:
  "snapshot_hash utf8_decode None [] \<noteq> snapshot_hash utf8_decode (Some ''ab'') []"
  using snapshot_address_commits [of "[]" "[]" utf8_decode None "Some ''ab''"] by simp

text \<open>
  C32: chunking loses nothing. Where the cutter makes progress and the stream carries the file, the
  loop ends and the chunks, one after the other, are the file's content.
\<close>

theorem chunks_are_the_content:
  assumes "streams px"
  shows "\<exists>cs. split_chunks px (px_pieces px b) = Some cs \<and> concat cs = b"
  using assms by (rule split_file_concat)

theorem chunks_are_the_content_witness:
  "\<exists>cs. split_chunks \<lparr>px_sha = utf8_decode, px_cut = (\<lambda>b last. if last then [2, 2] else [1]), px_pieces = map (\<lambda>x. [x]),
       px_uuid = (\<lambda>_. ''u''), px_policy = (\<lambda>_. True), px_merger = None\<rparr> [[1], [2], [3]] = Some cs \<and> concat cs = [1, 2, 3]"
proof -
  have "concat (map (\<lambda>x. [x]) b) = b" "[] \<notin> set (map (\<lambda>x. [x]) b)" for b :: bytes
    by (induction b) auto
  then show ?thesis
    using chunks_are_the_content [of "\<lparr>px_sha = utf8_decode, px_cut = (\<lambda>b last. if last then [2, 2] else [1]),
       px_pieces = map (\<lambda>x. [x]), px_uuid = (\<lambda>_. ''u''), px_policy = (\<lambda>_. True), px_merger = None\<rparr>" "[1, 2, 3]"]
    by (simp add: streams_def cuts_progress_def)
qed

end
