(* ===== verification/Repo.thy ===== *)
theory Repo
  imports Chunker
begin

text \<open>
  The local repository: \<open>packages/sync/src/repo.ts\<close>. This theory has the store's layout, the
  journal, status, snapshots and the history walks; \<open>Merge\<close> has the merge and the rebase.
\<close>

section \<open>The layout of the store\<close>

definition changes_path :: string where "changes_path = ''/repo/changes''"
definition head_path :: string where "head_path = ''/repo/head''"
definition last_synced_path :: string where "last_synced_path = ''/repo/last-synced''"

definition snapshot_path :: "string \<Rightarrow> string" where
  "snapshot_path h = ''/repo/snapshots/'' @ h"

definition chunk_path :: "string \<Rightarrow> string" where
  "chunk_path h = ''/repo/chunks/'' @ take 2 h @ ''/'' @ take 2 (drop 2 h) @ ''/'' @ h"

definition max_head_retries :: nat where "max_head_retries = 16"

section \<open>Snapshots in the store\<close>

definition load_snapshot :: "disk \<Rightarrow> string \<Rightarrow> app_error + snapshot" where
  "load_snapshot d h = fst (bnd (read_json None (snapshot_path h)) (\<lambda>j. or_type_error (snapshot_of_json j)) d)"

definition read_snapshot :: "string \<Rightarrow> (world, snapshot) eff" where
  "read_snapshot h = (\<lambda>w. (load_snapshot (w_store w) h, w))"

definition write_snapshot :: "snapshot \<Rightarrow> (world, unit) eff" where
  "write_snapshot s = on_store (\<lambda>t. write_json t (snapshot_path (sn_hash s)) (json_of_snapshot s))"

definition get_head_snapshot :: "(world, snapshot) eff" where
  "get_head_snapshot = bnd (on_store (\<lambda>_. read_text head_path)) read_snapshot"

definition rival_step :: "(world, unit) eff" where
  "rival_step = modify (\<lambda>w. case w_rivals w of
       [] \<Rightarrow> w
     | r # rs \<Rightarrow> (case r (w_tree w, w_store w) of (t, s) \<Rightarrow> w\<lparr>w_tree := t, w_store := s, w_rivals := rs\<rparr>))"

text \<open>The one way the head moves; another writer may have moved it just before.\<close>

definition advance_head :: "string option \<Rightarrow> string \<Rightarrow> (world, bool) eff" where
  "advance_head expected next =
     seq rival_step (on_store (\<lambda>t. fs_cas t head_path (map_option utf8_encode expected) (utf8_encode next)))"

definition prepare :: "params \<Rightarrow> (world, unit) eff" where
  "prepare px =
     (let hash = empty_snapshot_hash (px_sha px)
      in bnd (on_store (\<lambda>_. fs_exists (snapshot_path hash))) (\<lambda>there.
         seq (when_do (\<not> there)
                (write_snapshot \<lparr>sn_hash = hash, sn_parent = None, sn_timestamp = 0, sn_files = []\<rparr>))
         (bnd (on_store (\<lambda>_. fs_exists head_path)) (\<lambda>headed.
            when_do (\<not> headed) (bnd (advance_head None hash) (\<lambda>_. ret ()))))))"

section \<open>History\<close>

text \<open>The parents named by stored snapshots: what bounds a walk up the chain.\<close>

definition parent_in :: "bytes \<Rightarrow> string option" where
  "parent_in b = Option.bind (parse_json (utf8_decode b)) (\<lambda>j. Option.bind (snapshot_of_json j) sn_parent)"

definition stored_parents :: "disk \<Rightarrow> string set" where
  "stored_parents d = {h. \<exists>(k, n) \<in> set (nodes d). case n of File b _ _ \<Rightarrow> parent_in b = Some h | Dir _ \<Rightarrow> False}"

lemma finite_stored_parents: "finite (stored_parents d)"
proof -
  have "stored_parents d \<subseteq> (\<Union>(k, n) \<in> set (nodes d). case n of File b _ _ \<Rightarrow> set_option (parent_in b) | Dir _ \<Rightarrow> {})"
    by (auto simp: stored_parents_def split: node.splits)
  moreover have "finite (set_option x)" for x :: "string option"
    by (cases x) auto
  ultimately show ?thesis
    by (elim finite_subset) (auto split: node.split)
qed

lemma load_snapshot_parent:
  assumes "load_snapshot d h = Inr s" and "sn_parent s = Some p"
  shows "p \<in> stored_parents d"
proof -
  obtain b where b: "file_at d (snapshot_path h) = Some b" "parent_in b = Some p"
    using assms
    by (auto simp: load_snapshot_def parent_in_def bnd_def or_type_error_def ret_def throw_def read_json_ok
        split: sum.splits prod.splits option.splits dest!: read_json_ok [THEN iffD1])
  then obtain ks m c where "map_of (nodes d) ks = Some (File b m c)"
    by (auto simp: file_at_def os_stat_def split: sum.splits option.splits node.splits if_splits)
  with b(2) show ?thesis
    by (force simp: stored_parents_def dest: map_of_SomeD)
qed

text \<open>
  \<open>ancestry\<close> with the consumer's exit: the snapshots handed out before the one that satisfies
  \<open>stop\<close>, and that one. A missing snapshot ends the walk, any other failure ends it loudly.
\<close>

function ancestry :: "disk \<Rightarrow> (snapshot \<Rightarrow> bool) \<Rightarrow> string list \<Rightarrow> string option \<Rightarrow> app_error + snapshot list \<times> snapshot option" where
  "ancestry d stop visited current =
     (case current of
        None \<Rightarrow> Inr ([], None)
      | Some h \<Rightarrow>
          if h \<in> set visited then Inr ([], None)
          else case load_snapshot d h of
              Inl (FileNotFound _) \<Rightarrow> Inr ([], None)
            | Inl e \<Rightarrow> Inl e
            | Inr s \<Rightarrow>
                if stop s then Inr ([], Some s)
                else map_sum id (\<lambda>(ss, found). (s # ss, found)) (ancestry d stop (h # visited) (sn_parent s)))"
  by pat_completeness auto
termination
proof (relation "measure (\<lambda>(d, _, visited, current). card ((set_option current \<union> stored_parents d) - set visited))")
  fix d :: disk and stop :: "snapshot \<Rightarrow> bool" and visited :: "string list" and current :: "string option" and h s
  assume current: "current = Some h" and new: "h \<notin> set visited" and loaded: "load_snapshot d h = Inr s"
  let ?next = "(set_option (sn_parent s) \<union> stored_parents d) - set (h # visited)"
  have "?next \<subseteq> stored_parents d - set (h # visited)"
    using load_snapshot_parent [OF loaded] by (auto split: option.splits)
  then have "?next \<subset> (set_option current \<union> stored_parents d) - set visited"
    using current new by auto
  then show "((d, stop, h # visited, sn_parent s), (d, stop, visited, current))
      \<in> measure (\<lambda>(d, _, visited, current). card ((set_option current \<union> stored_parents d) - set visited))"
    by (simp add: psubset_card_mono finite_stored_parents)
qed simp

declare ancestry.simps [simp del]

definition walk_ancestry :: "(snapshot \<Rightarrow> bool) \<Rightarrow> string \<Rightarrow> (world, snapshot list \<times> snapshot option) eff" where
  "walk_ancestry stop h = (\<lambda>w. (ancestry (w_store w) stop [] (Some h), w))"

definition is_ancestor :: "string \<Rightarrow> string \<Rightarrow> (world, bool) eff" where
  "is_ancestor anc head =
     (if anc = head then ret True
      else bnd (walk_ancestry (\<lambda>s. sn_hash s = anc \<or> sn_parent s = Some anc) head)
             (\<lambda>(_, found). ret (found \<noteq> None)))"

definition find_base_snapshot :: "string \<Rightarrow> string \<Rightarrow> (world, snapshot option) eff" where
  "find_base_snapshot local_head remote_head =
     bnd (walk_ancestry (\<lambda>_. False) local_head) (\<lambda>(locals, _).
       let local_ancestors = foldl (\<lambda>m s. rset (sn_hash s) s m) [] locals
       in bnd (walk_ancestry (\<lambda>s. rget local_ancestors (sn_hash s) \<noteq> None) remote_head) (\<lambda>(_, found).
            ret (Option.bind found (\<lambda>s. rget local_ancestors (sn_hash s)))))"

section \<open>The journal and the status\<close>

definition strings_of_json :: "json \<Rightarrow> string list option" where
  "strings_of_json v = (case v of JArr vs \<Rightarrow> all_some (map str_of vs) | _ \<Rightarrow> None)"

definition read_changes :: "(world, string list) eff" where
  "read_changes =
     bnd (on_store (\<lambda>_. read_json (Some (JArr [])) changes_path)) (\<lambda>j. or_type_error (strings_of_json j))"

definition write_changes :: "string list \<Rightarrow> (world, unit) eff" where
  "write_changes ps = on_store (\<lambda>t. write_json t changes_path (JArr (map JStr ps)))"

definition add_change :: "string \<Rightarrow> (world, unit) eff" where
  "add_change p = bnd read_changes (\<lambda>ps. if p \<in> set ps then ret () else write_changes (ps @ [p]))"

datatype change_type = StCreated | StModified | StDeleted

record file_status =
  fs_pathname :: string
  fs_type :: change_type

definition file_status_of :: "params \<Rightarrow> string \<Rightarrow> snapshot \<Rightarrow> (world, file_status option) eff" where
  "file_status_of px p s =
     bnd (hash_of px p) (\<lambda>hash.
       let local = rget (sn_files s) p
       in case hash of
            None \<Rightarrow>
              (case local of
                 None \<Rightarrow> seq (clear_pending p) (ret None)
               | Some _ \<Rightarrow>
                   bnd (is_pending p) (\<lambda>pending.
                     if pending then ret None
                     else seq (forget p) (ret (Some \<lparr>fs_pathname = p, fs_type = StDeleted\<rparr>))))
          | Some h \<Rightarrow>
              seq (clear_pending p)
                (case local of
                   None \<Rightarrow> ret (Some \<lparr>fs_pathname = p, fs_type = StCreated\<rparr>)
                 | Some f \<Rightarrow> ret (if h \<noteq> sf_hash f then Some \<lparr>fs_pathname = p, fs_type = StModified\<rparr> else None)))"

type_synonym status_acc = "file_status list \<times> string list"

definition judge :: "params \<Rightarrow> snapshot \<Rightarrow> string \<Rightarrow> status_acc \<Rightarrow> (world, status_acc) eff" where
  "judge px s p acc =
     bnd (file_status_of px p s) (\<lambda>st.
       ret (case st of None \<Rightarrow> fst acc | Some c \<Rightarrow> fst acc @ [c], p # snd acc))"

definition judge_new :: "params \<Rightarrow> snapshot \<Rightarrow> string \<Rightarrow> status_acc \<Rightarrow> (world, status_acc) eff" where
  "judge_new px s p acc = (if p \<in> set (snd acc) then ret acc else judge px s p acc)"

definition walk_tree :: "string \<Rightarrow> (string \<Rightarrow> 'b \<Rightarrow> (world, 'b) eff) \<Rightarrow> 'b \<Rightarrow> (world, 'b) eff" where
  "walk_tree prefix f acc = (\<lambda>w.
     walk_fold (Suc (length (nodes (w_tree w)))) (\<lambda>dir. on_tree (\<lambda>_. fs_list dir)) [normalize_path prefix] f acc w)"

definition status :: "params \<Rightarrow> snapshot \<Rightarrow> (world, file_status list) eff" where
  "status px s =
     bnd (fold_eff (judge px s) (rkeys (sn_files s)) ([], [])) (\<lambda>acc.
     bnd read_changes (\<lambda>paths.
     bnd (fold_eff (\<lambda>path acc.
            if path \<in> set (snd acc) then ret acc else walk_tree path (judge_new px s) acc) paths acc) (\<lambda>acc.
     seq flush (ret (fst acc)))))"

section \<open>Building a snapshot\<close>

definition sized_chunks :: "chunk_ref list \<Rightarrow> (world, chunk_ref list) eff" where
  "sized_chunks cs =
     fold_eff (\<lambda>c out.
       if ck_size c \<noteq> None then ret (out @ [c])
       else bnd (on_store (\<lambda>_. fs_exists (chunk_path (ck_hash c)))) (\<lambda>there.
         if there
         then bnd (on_store (\<lambda>_. fs_head (chunk_path (ck_hash c)))) (\<lambda>h.
                ret (out @ [c\<lparr>ck_size := Some (int (head_size h))\<rparr>]))
         else ret (out @ [c]))) cs []"

definition complete_legacy_entries :: "params \<Rightarrow> snap_file rec \<Rightarrow> (world, snap_file rec) eff" where
  "complete_legacy_entries px files =
     fold_eff (\<lambda>(p, entry) fs.
       let legacy = (list_ex (\<lambda>c. ck_size c = None) (sf_chunks entry))
       in bnd (if legacy then sized_chunks (sf_chunks entry) else ret (sf_chunks entry)) (\<lambda>chunks.
            let sized = list_all (\<lambda>c. ck_size c \<noteq> None) chunks
            in if sf_fileId entry \<noteq> None \<and> \<not> legacy \<and> (sf_size entry \<noteq> None \<or> \<not> sized) then ret fs
               else bnd (case sf_fileId entry of Some i \<Rightarrow> ret i | None \<Rightarrow> random_uuid px) (\<lambda>i.
                      ret (rset p (entry\<lparr>sf_fileId := Some i, sf_chunks := chunks,
                             sf_size := if sized then Some (sum_list (map (\<lambda>c. case ck_size c of Some n \<Rightarrow> n | None \<Rightarrow> 0) chunks))
                                        else sf_size entry\<rparr>) fs)))) files files"

text \<open>A chunk goes to the store unless it is there already.\<close>

definition store_chunk :: "params \<Rightarrow> bytes \<Rightarrow> (world, chunk_ref) eff" where
  "store_chunk px b =
     (let h = px_sha px b
      in bnd (on_store (\<lambda>_. fs_exists (chunk_path h))) (\<lambda>there.
         seq (when_do (\<not> there) (on_store (\<lambda>t. fs_write t (chunk_path h) b)))
           (ret \<lparr>ck_hash = h, ck_size = Some (int (length b))\<rparr>)))"

definition store_chunks :: "params \<Rightarrow> bytes list \<Rightarrow> (world, chunk_ref list) eff" where
  "store_chunks px bs = fold_eff (\<lambda>b out. bnd (store_chunk px b) (\<lambda>c. ret (out @ [c]))) bs []"

definition refs_size :: "chunk_ref list \<Rightarrow> int" where
  "refs_size cs = sum_list (map (\<lambda>c. case ck_size c of Some n \<Rightarrow> n | None \<Rightarrow> 0) cs)"

text \<open>A truthy identity is kept: an empty one is not.\<close>

definition truthy :: "string option \<Rightarrow> string option" where
  "truthy x = (case x of Some [] \<Rightarrow> None | _ \<Rightarrow> x)"

definition build_entry :: "params \<Rightarrow> snapshot \<Rightarrow> string list \<Rightarrow> string \<Rightarrow> (world, snap_file) eff" where
  "build_entry px head deleted p =
     bnd (on_tree (\<lambda>_. fs_readable p)) (\<lambda>content.
     bnd (chunks_of px (px_pieces px content)) (\<lambda>bs.
     bnd (store_chunks px bs) (\<lambda>chunks.
     bnd (hash_of px p) (\<lambda>known.
       let file_hash = (case known of Some h \<Rightarrow> h | None \<Rightarrow> []);
           previous = (case rget (sn_files head) p of
               Some f \<Rightarrow> Some f
             | None \<Rightarrow> find (\<lambda>e. sf_hash e = file_hash \<and> sf_pathname e \<in> set deleted) (map snd (sn_files head)))
       in bnd (case Option.bind previous sf_fileId of Some i \<Rightarrow> ret i | None \<Rightarrow> random_uuid px) (\<lambda>i.
            ret \<lparr>sf_fileId = Some i, sf_identity = truthy (Option.bind previous sf_identity), sf_historySource = None,
                 sf_hash = file_hash, sf_size = Some (refs_size chunks), sf_pathname = p, sf_chunks = chunks\<rparr>)))))"

definition build_snapshot :: "params \<Rightarrow> snapshot \<Rightarrow> file_status list \<Rightarrow> (world, snapshot) eff" where
  "build_snapshot px head changes =
     (let deleted = map fs_pathname (filter (\<lambda>c. fs_type c = StDeleted) changes)
      in bnd (fold_eff (\<lambda>c files.
            if fs_type c = StDeleted then ret (rdel (fs_pathname c) files)
            else bnd (build_entry px head deleted (fs_pathname c)) (\<lambda>e. ret (rset (fs_pathname c) e files)))
            changes (sn_files head)) (\<lambda>files.
         bnd (complete_legacy_entries px files) (\<lambda>files.
         seq flush
         (bnd date_now (\<lambda>now.
            ret \<lparr>sn_hash = snapshot_hash (px_sha px) (Some (sn_hash head)) files, sn_parent = Some (sn_hash head),
                 sn_timestamp = 1000 * (now div 1000), sn_files = files\<rparr>)))))"

text \<open>\<open>snapshotChanges\<close>; the number is how many more attempts the bound allows.\<close>

fun snapshot_attempts :: "params \<Rightarrow> nat \<Rightarrow> (world, snapshot) eff" where
  "snapshot_attempts px n =
     bnd get_head_snapshot (\<lambda>head.
     bnd (status px head) (\<lambda>changes.
       if changes = [] then ret head
       else bnd (build_snapshot px head changes) (\<lambda>s.
            seq (write_snapshot s)
            (bnd (advance_head (Some (sn_hash head)) (sn_hash s)) (\<lambda>moved.
               if moved then seq (write_changes []) (ret s)
               else case n of 0 \<Rightarrow> throw RepoHeadMovedError | Suc m \<Rightarrow> snapshot_attempts px m)))))"

declare snapshot_attempts.simps [simp del]

definition take_snapshot :: "params \<Rightarrow> (world, snapshot) eff" where
  "take_snapshot px = snapshot_attempts px (max_head_retries - 1)"

end
