(* ===== verification/Merge.thy ===== *)
theory Merge
  imports Repo
begin

text \<open>
  The merge, the rebase and the materialisation of \<open>packages/sync/src/repo.ts\<close>.
\<close>

section \<open>Contents from the chunk store\<close>

fun has_chunks_in :: "chunk_ref list \<Rightarrow> (world, bool) eff" where
  "has_chunks_in [] = ret True"
| "has_chunks_in (c # cs) =
     bnd (on_store (\<lambda>_. fs_exists (chunk_path (ck_hash c)))) (\<lambda>there. if \<not> there then ret False else has_chunks_in cs)"

definition has_chunks :: "snap_file \<Rightarrow> (world, bool) eff" where
  "has_chunks f = has_chunks_in (sf_chunks f)"

definition read_chunks :: "chunk_ref list \<Rightarrow> (world, bytes) eff" where
  "read_chunks cs = fold_eff (\<lambda>c acc. bnd (on_store (\<lambda>_. fs_read (chunk_path (ck_hash c)))) (\<lambda>b. ret (acc @ b))) cs []"

definition pipe_file :: "snap_file \<Rightarrow> string \<Rightarrow> (world, unit) eff" where
  "pipe_file f target = pipe_chunks (map (\<lambda>c. chunk_path (ck_hash c)) (sf_chunks f)) target"

definition write_file_of :: "snap_file \<Rightarrow> (world, unit) eff" where
  "write_file_of f =
     seq (pipe_file f (sf_pathname f))
    (seq (record_hash (sf_pathname f) (sf_hash f))
    (seq (clear_pending (sf_pathname f))
         (add_change (sf_pathname f))))"

definition take_file :: "snap_file \<Rightarrow> (world, unit) eff" where
  "take_file f = bnd (has_chunks f) (\<lambda>here. if here then write_file_of f else mark_pending (sf_pathname f) (sf_hash f))"

definition write_merged_content :: "params \<Rightarrow> string \<Rightarrow> bytes \<Rightarrow> (world, unit) eff" where
  "write_merged_content px p b =
     seq (on_tree (\<lambda>t. fs_write t p b))
    (seq (record_hash p (px_sha px b))
    (seq (clear_pending p)
         (add_change p)))"

definition try_content_merge :: "params \<Rightarrow> string \<Rightarrow> snap_file option \<Rightarrow> snap_file \<Rightarrow> snap_file \<Rightarrow> (world, nat option) eff" where
  "try_content_merge px p base local remote =
     (case px_merger px of
        None \<Rightarrow> ret None
      | Some merger \<Rightarrow>
          bnd (has_chunks remote) (\<lambda>here.
          if \<not> here then ret None
          else bnd (case base of
                 None \<Rightarrow> ret None
               | Some f \<Rightarrow> bnd (has_chunks f) (\<lambda>there.
                   if there then bnd (read_chunks (sf_chunks f)) (\<lambda>b. ret (Some b)) else ret None)) (\<lambda>base_bytes.
               bnd (on_tree (\<lambda>_. fs_read p)) (\<lambda>local_bytes.
               bnd (read_chunks (sf_chunks remote)) (\<lambda>remote_bytes.
                 case merger p base_bytes local_bytes remote_bytes of
                   None \<Rightarrow> ret None
                 | Some (merged, conflicts) \<Rightarrow> seq (write_merged_content px p merged) (ret (Some conflicts)))))))"

section \<open>Conflict copies\<close>

definition conflict_name :: "snap_file \<Rightarrow> string \<Rightarrow> string" where
  "conflict_name remote suffix =
     (let (path, name, ext) = split_pathname (sf_pathname remote);
          stem = ''conflict-'' @ take 8 (sf_hash remote) @ ''-'' @ name
      in posix_join [path, if ext \<noteq> [] then stem @ suffix @ ''.'' @ ext else stem @ suffix])"

definition conflict_suffix :: "nat \<Rightarrow> string" where
  "conflict_suffix n = (if n < 2 then [] else ''-'' @ show_nat n)"

datatype conflict_slot = Taken string | Free string

text \<open>
  The search for a name: at n (1 for the plain one), stop at a name no file has or at one whose
  file is this very version. The first argument bounds the names tried.
\<close>

fun conflict_slot_from :: "params \<Rightarrow> snap_file \<Rightarrow> nat \<Rightarrow> nat \<Rightarrow> (world, conflict_slot) eff" where
  "conflict_slot_from px remote 0 n = throw stuck"
| "conflict_slot_from px remote (Suc fuel) n =
     (let p = conflict_name remote (conflict_suffix n)
      in bnd (hash_of px p) (\<lambda>existing.
           case existing of
             None \<Rightarrow> ret (Free p)
           | Some h \<Rightarrow> if h = sf_hash remote then ret (Taken p) else conflict_slot_from px remote fuel (Suc n)))"

definition conflict_fuel :: "world \<Rightarrow> nat" where
  "conflict_fuel w = Suc (length (nodes (w_tree w)))"

definition write_conflict_file :: "params \<Rightarrow> snap_file \<Rightarrow> (world, string) eff" where
  "write_conflict_file px remote =
     bnd (gets conflict_fuel) (\<lambda>fuel.
     bnd (conflict_slot_from px remote fuel 1) (\<lambda>slot.
       case slot of
         Taken p \<Rightarrow> ret p
       | Free p \<Rightarrow>
           seq (pipe_file remote p)
          (seq (record_hash p (sf_hash remote))
          (seq (add_change p)
               (ret p)))))"

section \<open>The three-way merge\<close>

text \<open>\<open>mr_decisions\<close> are the paths decided \<open>edit-over-delete\<close>, the only kind there is.\<close>

record merge_result =
  mr_conflicts :: "string list"
  mr_unresolved :: "(string \<times> nat) list"
  mr_decisions :: "string list"

definition drop_file :: "string \<Rightarrow> (world, unit) eff" where
  "drop_file p = seq (on_tree (\<lambda>_. fs_delete True False p)) (seq (forget p) (clear_pending p))"

definition merge_path ::
    "params \<Rightarrow> string \<Rightarrow> snap_file option \<Rightarrow> snap_file option \<Rightarrow> snap_file option \<Rightarrow> merge_result \<Rightarrow> (world, merge_result) eff" where
  "merge_path px p base local remote acc =
     (case (local, remote) of
        (Some l, None) \<Rightarrow>
          (case base of
             None \<Rightarrow> seq (take_file l) (ret acc)
           | Some b \<Rightarrow>
               if sf_hash l = sf_hash b then seq (drop_file p) (ret acc)
               else ret (acc\<lparr>mr_decisions := mr_decisions acc @ [p]\<rparr>))
      | (None, Some r) \<Rightarrow>
          (case base of
             None \<Rightarrow> seq (take_file r) (ret acc)
           | Some b \<Rightarrow>
               if sf_hash r = sf_hash b then seq (drop_file p) (ret acc)
               else seq (take_file r) (ret (acc\<lparr>mr_decisions := mr_decisions acc @ [p]\<rparr>)))
      | (None, None) \<Rightarrow> throw type_error
      | (Some l, Some r) \<Rightarrow>
          if (case base of Some b \<Rightarrow> sf_hash b = sf_hash l | None \<Rightarrow> False)
          then seq (take_file r) (ret acc)
          else if sf_hash l \<noteq> sf_hash r
          then bnd (try_content_merge px p base l r) (\<lambda>merged.
                 case merged of
                   Some n \<Rightarrow> ret (if n > 0 then acc\<lparr>mr_unresolved := mr_unresolved acc @ [(p, n)]\<rparr> else acc)
                 | None \<Rightarrow> bnd (write_conflict_file px r) (\<lambda>q. ret (acc\<lparr>mr_conflicts := mr_conflicts acc @ [q]\<rparr>)))
          else ret acc)"

definition merge_files :: "params \<Rightarrow> snap_file rec \<Rightarrow> snap_file rec \<Rightarrow> snap_file rec \<Rightarrow> (world, merge_result) eff" where
  "merge_files px base local remote =
     bnd (fold_eff (\<lambda>p. merge_path px p (rget base p) (rget local p) (rget remote p))
            (uniq (rkeys base @ rkeys local @ rkeys remote))
            \<lparr>mr_conflicts = [], mr_unresolved = [], mr_decisions = []\<rparr>) (\<lambda>result.
     seq flush (ret result))"

section \<open>The rebase\<close>

definition same_entry :: "snap_file option \<Rightarrow> snap_file option \<Rightarrow> bool" where
  "same_entry a b =
     (case (a, b) of
        (Some f, Some g) \<Rightarrow> sf_hash f = sf_hash g \<and> sf_identity f = sf_identity g
      | (None, None) \<Rightarrow> True
      | _ \<Rightarrow> False)"

text \<open>One checkpoint's changes, parent to snapshot, on top of other files.\<close>

definition replay_files :: "snap_file rec \<Rightarrow> snap_file rec \<Rightarrow> snap_file rec \<Rightarrow> snap_file rec" where
  "replay_files parent snap onto =
     foldl (\<lambda>files p.
       if same_entry (rget parent p) (rget snap p) then files
       else case rget snap p of Some f \<Rightarrow> rset p f files | None \<Rightarrow> rdel p files)
       onto (uniq (rkeys parent @ rkeys snap))"

definition replay_one :: "params \<Rightarrow> snapshot \<Rightarrow> snapshot \<Rightarrow> (world, snapshot) eff" where
  "replay_one px s head =
     bnd (case sn_parent s of Some p \<Rightarrow> read_snapshot p | None \<Rightarrow> throw type_error) (\<lambda>parent.
       let files = replay_files (sn_files parent) (sn_files s) (sn_files head);
           replayed = s\<lparr>sn_parent := Some (sn_hash head), sn_files := files,
                        sn_hash := snapshot_hash (px_sha px) (Some (sn_hash head)) files\<rparr>
       in seq (write_snapshot replayed) (ret replayed))"

definition replay :: "params \<Rightarrow> snapshot \<Rightarrow> snapshot \<Rightarrow> snapshot option \<Rightarrow> (world, snapshot) eff" where
  "replay px local remote base =
     bnd (walk_ancestry (\<lambda>s. Some (sn_hash s) = map_option sn_hash base \<or> sn_parent s = None) (sn_hash local))
       (\<lambda>(todo, _). fold_eff (replay_one px) (rev todo) remote)"

fun rebase_attempts :: "params \<Rightarrow> snapshot \<Rightarrow> snapshot option \<Rightarrow> nat \<Rightarrow> snapshot \<Rightarrow> (world, unit) eff" where
  "rebase_attempts px remote base n start =
     bnd (replay px start remote base) (\<lambda>top.
     bnd (advance_head (Some (sn_hash start)) (sn_hash top)) (\<lambda>moved.
       if moved then ret ()
       else bnd get_head_snapshot (\<lambda>current.
            if sn_hash current = sn_hash top then ret ()
            else bnd (is_ancestor (sn_hash start) (sn_hash current)) (\<lambda>grew.
                 if \<not> grew then throw RepoHeadMovedError
                 else case n of 0 \<Rightarrow> throw RepoHeadMovedError | Suc m \<Rightarrow> rebase_attempts px remote base m current))))"

declare rebase_attempts.simps [simp del]

definition rebase :: "params \<Rightarrow> snapshot \<Rightarrow> snapshot \<Rightarrow> snapshot option \<Rightarrow> (world, unit) eff" where
  "rebase px local remote base =
     (if map_option sn_hash base = Some (sn_hash remote) then ret ()
      else rebase_attempts px remote base (max_head_retries - 1) local)"

section \<open>Files left in the cloud\<close>

definition wants_content :: "params \<Rightarrow> snap_file \<Rightarrow> (world, bool) eff" where
  "wants_content px f = (if px_policy px f then ret True else knows (sf_pathname f))"

definition materialize :: "string \<Rightarrow> (world, unit) eff" where
  "materialize p =
     bnd (is_pending p) (\<lambda>pending.
     if \<not> pending then ret ()
     else bnd get_head_snapshot (\<lambda>head.
       case rget (sn_files head) p of
         None \<Rightarrow> clear_pending p
       | Some f \<Rightarrow>
           bnd (has_chunks f) (\<lambda>here.
           if \<not> here then throw (IllegalStateError ''The content has not been fetched'')
           else seq (write_file_of f) flush)))"

end
