(* ===== verification/RepoInv.thy ===== *)
theory RepoInv
  imports Merge Wire
begin

text \<open>
  What every operation of the repository keeps: the head file names a snapshot that is in the
  store, whatever other writers do in between, as long as they keep the same rule.
\<close>

section \<open>Where things are\<close>

text \<open>The digest is the lowercase hexadecimal form of 32 bytes, as \<open>bytesToHex\<close> documents.\<close>

definition hex_digests :: "params \<Rightarrow> bool" where
  "hex_digests px \<longleftrightarrow> (\<forall>b. is_object_hash (px_sha px b))"

definition rooted :: "disk \<Rightarrow> bool" where
  "rooted d \<longleftrightarrow> list_all proper (root_dir d)"

lemma hex_proper: "list_all is_lower_hex s \<Longrightarrow> s \<noteq> [] \<Longrightarrow> proper s"
proof -
  assume hex: "list_all is_lower_hex s" and "s \<noteq> []"
  have "\<not> is_lower_hex (CHR ''.'')" "\<not> is_lower_hex slash"
    by (simp_all add: is_lower_hex_def)
  moreover have "hd s \<in> set s" "is_lower_hex (hd s)"
    using hex \<open>s \<noteq> []\<close> by (auto simp: list_all_iff)
  ultimately show ?thesis
    using hex \<open>s \<noteq> []\<close> unfolding proper_def list_all_iff by (metis list.sel(1))
qed

lemma object_hash_proper: "is_object_hash h \<Longrightarrow> proper h"
  by (rule hex_proper) (auto simp: is_object_hash_def)

lemma object_hash_parts:
  assumes "is_object_hash h"
  shows "proper (take 2 h)" "proper (take 2 (drop 2 h))"
proof -
  have "list_all is_lower_hex (take 2 h)" "list_all is_lower_hex (take 2 (drop 2 h))"
    using assms by (auto simp: is_object_hash_def list_all_iff dest: in_set_takeD in_set_dropD)
  moreover have "take 2 h \<noteq> []" "take 2 (drop 2 h) \<noteq> []"
    using assms by (auto simp: is_object_hash_def)
  ultimately show "proper (take 2 h)" "proper (take 2 (drop 2 h))"
    by (auto intro: hex_proper)
qed

lemma to_os_path_slash: "to_os_path d (slash # p) = to_os_path d p \<or> to_os_path d (slash # p) = Inl (ScopeAccessDenied (slash # p))"
  by (auto simp: to_os_path_def Let_def normalize_path_def)

lemma to_os_path_slash_Inr: "to_os_path d p = Inr ks \<Longrightarrow> to_os_path d (slash # p) = Inr ks"
  by (auto simp: to_os_path_def Let_def normalize_path_def split: if_splits)

lemma to_os_path_names:
  assumes "rooted d" and "list_all proper ks" and "ks \<noteq> []"
  shows "to_os_path d (slash # join ''/'' ks) = Inr ks"
  using assms by (intro to_os_path_slash_Inr to_os_path_plain) (simp_all add: rooted_def)

lemma repo_proper: "proper ''repo''" "proper ''head''" "proper ''changes''" "proper ''index''" "proper ''last-synced''"
  "proper ''snapshots''" "proper ''chunks''"
  by (simp_all add: proper_def)

lemma os_fixed:
  assumes "rooted d"
  shows "to_os_path d head_path = Inr [''repo'', ''head'']" "to_os_path d changes_path = Inr [''repo'', ''changes'']"
    "to_os_path d index_path = Inr [''repo'', ''index'']" "to_os_path d last_synced_path = Inr [''repo'', ''last-synced'']"
  using to_os_path_names [OF assms, of "[''repo'', ''head'']"] to_os_path_names [OF assms, of "[''repo'', ''changes'']"]
    to_os_path_names [OF assms, of "[''repo'', ''index'']"] to_os_path_names [OF assms, of "[''repo'', ''last-synced'']"]
  by (simp_all add: repo_proper head_path_def changes_path_def index_path_def last_synced_path_def)

lemma os_snapshot: "rooted d \<Longrightarrow> is_object_hash h \<Longrightarrow> to_os_path d (snapshot_path h) = Inr [''repo'', ''snapshots'', h]"
  using to_os_path_names [of d "[''repo'', ''snapshots'', h]"]
  by (simp add: repo_proper object_hash_proper snapshot_path_def)

lemma os_chunk: "rooted d \<Longrightarrow> is_object_hash h \<Longrightarrow>
    to_os_path d (chunk_path h) = Inr [''repo'', ''chunks'', take 2 h, take 2 (drop 2 h), h]"
  using to_os_path_names [of d "[''repo'', ''chunks'', take 2 h, take 2 (drop 2 h), h]"]
  by (simp add: repo_proper object_hash_proper object_hash_parts chunk_path_def)

section \<open>The invariant\<close>

definition has_snapshot :: "disk \<Rightarrow> string \<Rightarrow> bool" where
  "has_snapshot d h \<longleftrightarrow> (\<exists>s. load_snapshot d h = Inr s \<and> sn_hash s = h)"

definition head_ok :: "disk \<Rightarrow> bool" where
  "head_ok d \<longleftrightarrow>
     (\<forall>b. file_at d head_path = Some b \<longrightarrow> is_object_hash (utf8_decode b) \<and> has_snapshot d (utf8_decode b))"

definition store_ok :: "disk \<Rightarrow> bool" where
  "store_ok d \<longleftrightarrow> rooted d \<and> head_ok d"

text \<open>... and the snapshots of H are there.\<close>

definition store_has :: "string set \<Rightarrow> disk \<Rightarrow> bool" where
  "store_has H d \<longleftrightarrow> store_ok d \<and> (\<forall>h \<in> H. is_object_hash h \<and> has_snapshot d h)"

text \<open>Another writer that follows the rule: it keeps the invariant and removes no snapshot.\<close>

definition fair :: "(disk \<times> disk \<Rightarrow> disk \<times> disk) \<Rightarrow> bool" where
  "fair r \<longleftrightarrow>
     (\<forall>t s. store_ok s \<longrightarrow> store_ok (snd (r (t, s))) \<and>
        (\<forall>h. is_object_hash h \<longrightarrow> has_snapshot s h \<longrightarrow> has_snapshot (snd (r (t, s))) h))"

definition repo_has :: "string set \<Rightarrow> world \<Rightarrow> bool" where
  "repo_has H w \<longleftrightarrow> store_has H (w_store w) \<and> (\<forall>r \<in> set (w_rivals w). fair r)"

lemma load_snapshot_Inr:
  "load_snapshot d h = Inr s \<longleftrightarrow>
     (\<exists>b j. file_at d (snapshot_path h) = Some b \<and> parse_json (utf8_decode b) = Some j \<and> snapshot_of_json j = Some s)"
proof -
  obtain x u where x: "read_json None (snapshot_path h) d = (x, u)" by fastforce
  show ?thesis
  proof (cases x)
    case (Inl e)
    with x have "read_json None (snapshot_path h) d \<noteq> (Inr j, d)" for j by simp
    then have "\<not> (\<exists>b j. file_at d (snapshot_path h) = Some b \<and> parse_json (utf8_decode b) = Some j)"
      unfolding read_json_ok by blast
    with x Inl show ?thesis
      by (auto simp: load_snapshot_def bnd_def)
  next
    case (Inr j)
    with x have j: "\<exists>b. file_at d (snapshot_path h) = Some b \<and> parse_json (utf8_decode b) = Some j"
      by (simp add: read_json_ok)
    with x Inr show ?thesis
      by (auto simp: load_snapshot_def bnd_def or_type_error_def ret_def throw_def split: option.split)
  qed
qed

lemma has_snapshot_cong: "file_at d' (snapshot_path h) = file_at d (snapshot_path h) \<Longrightarrow> has_snapshot d' h = has_snapshot d h"
  by (simp add: has_snapshot_def load_snapshot_Inr)

lemma store_ok_cong:
  assumes "store_ok d" and "root_dir d' = root_dir d" and "file_at d' head_path = file_at d head_path"
    and "\<And>h. is_object_hash h \<Longrightarrow> has_snapshot d h \<Longrightarrow> has_snapshot d' h"
  shows "store_ok d'"
  using assms by (auto simp: store_ok_def head_ok_def rooted_def)

lemma store_ok_same: "store_ok d \<Longrightarrow> root_dir d' = root_dir d \<Longrightarrow> file_at d' = file_at d \<Longrightarrow> store_ok d'"
  by (simp add: store_ok_def rooted_def head_ok_def has_snapshot_def load_snapshot_Inr)

lemma has_snapshot_same: "file_at d' = file_at d \<Longrightarrow> has_snapshot d' = has_snapshot d"
  by (rule ext, rule has_snapshot_cong) simp

lemma any_files_parse: "\<exists>gs. files_of_json (json_of_files fs) = Some gs"
proof -
  have "all_some (map (\<lambda>(p, j). map_option (Pair p) (file_of_json j)) (map (\<lambda>(p, f). (p, json_of_file f)) fs)) = Some fs"
    by (induction fs) auto
  then show ?thesis
    by (simp add: files_of_json_def json_of_files_def)
qed

lemma written_snapshot_loads:
  assumes "file_at d (snapshot_path (sn_hash s)) = Some (utf8_encode (stringify_indented (json_of_snapshot s)))"
  shows "has_snapshot d (sn_hash s)"
proof -
  obtain gs where "files_of_json (json_of_files (sn_files s)) = Some gs"
    using any_files_parse by blast
  then have "snapshot_of_json (json_of_snapshot s) = Some (s\<lparr>sn_files := gs\<rparr>)"
    by (cases s) (simp add: snapshot_of_json_def json_of_snapshot_def field_def)
  with assms show ?thesis
    by (auto simp: has_snapshot_def load_snapshot_Inr)
qed

subsection \<open>The store's operations\<close>

text \<open>A path that is neither the head nor a snapshot.\<close>

definition aside :: "string \<Rightarrow> bool" where
  "aside p \<longleftrightarrow> (\<forall>d. rooted d \<longrightarrow> to_os_path d p \<noteq> to_os_path d head_path \<and>
     (\<forall>h. is_object_hash h \<longrightarrow> to_os_path d p \<noteq> to_os_path d (snapshot_path h)))"

lemma aside_paths: "aside changes_path" "aside index_path" "aside last_synced_path" "is_object_hash h \<Longrightarrow> aside (chunk_path h)"
  by (auto simp: aside_def os_fixed os_snapshot os_chunk)

lemma head_not_snapshot: "rooted d \<Longrightarrow> is_object_hash h \<Longrightarrow> to_os_path d (snapshot_path h) \<noteq> to_os_path d head_path"
  by (simp add: os_fixed os_snapshot)


lemma aside_write:
  assumes "aside p" and d: "store_ok d" and run: "fs_write t p b d = (r, d')"
  shows "store_ok d' \<and> (\<forall>h. is_object_hash h \<longrightarrow> has_snapshot d' h = has_snapshot d h)"
proof (cases r)
  case (Inl e)
  with run have "fs_write t p b d = (Inl e, d')" by simp
  from fs_write_err [OF this] store_ok_same [OF d] has_snapshot_same [of d' d] show ?thesis by simp
next
  case (Inr u)
  with run have "fs_write t p b d = (Inr u, d')" by simp
  from fs_write_ok [OF this] have root: "root_dir d' = root_dir d"
    and at: "\<And>q. file_at d' q = (if to_os_path d q = to_os_path d p then Some b else file_at d q)"
    by simp_all
  have "rooted d"
    using d by (simp add: store_ok_def)
  then have same: "file_at d' head_path = file_at d head_path"
    "is_object_hash h \<Longrightarrow> file_at d' (snapshot_path h) = file_at d (snapshot_path h)" for h
    using assms unfolding aside_def by (simp add: at, metis)+
  have "store_ok d'"
    using has_snapshot_cong [OF same(2)] by (intro store_ok_cong [OF d root same(1)]) blast
  with has_snapshot_cong [OF same(2)] show ?thesis by blast
qed

lemma keeps_aside_write [keeps_intros]: "aside p \<Longrightarrow> keeps (store_has H) (fs_write t p b)"
  by (rule keepsI) (metis aside_write store_has_def surjective_pairing)

lemma keeps_aside_text [keeps_intros]: "aside p \<Longrightarrow> keeps (store_has H) (write_text t p s)"
  unfolding write_text_def by (rule keeps_aside_write)

lemma keeps_aside_json [keeps_intros]: "aside p \<Longrightarrow> keeps (store_has H) (write_json t p v)"
  unfolding write_json_def by (rule keeps_aside_text)

text \<open>A snapshot file written under a proper address takes nothing away and is there afterwards.\<close>

lemma write_snapshot_file:
  assumes d: "store_ok d" and h: "is_object_hash (sn_hash s)"
    and run: "write_json t (snapshot_path (sn_hash s)) (json_of_snapshot s) d = (r, d')"
  shows "store_ok d' \<and> (\<forall>h. is_object_hash h \<longrightarrow> has_snapshot d h \<longrightarrow> has_snapshot d' h) \<and> (\<forall>u. r = Inr u \<longrightarrow> has_snapshot d' (sn_hash s))"
proof (cases r)
  case (Inl e)
  with run have "fs_write t (snapshot_path (sn_hash s)) (utf8_encode (stringify_indented (json_of_snapshot s))) d = (Inl e, d')"
    by (simp add: write_json_def write_text_def)
  from fs_write_err [OF this] have "root_dir d' = root_dir d" "file_at d' = file_at d"
    by simp_all
  with d Inl show ?thesis
    using store_ok_same [of d d'] has_snapshot_same [of d' d] by simp
next
  case (Inr u)
  have rooted: "rooted d" using d by (simp add: store_ok_def)
  from run Inr have "fs_write t (snapshot_path (sn_hash s)) (utf8_encode (stringify_indented (json_of_snapshot s))) d = (Inr u, d')"
    by (simp add: write_json_def write_text_def)
  from fs_write_ok [OF this] have root: "root_dir d' = root_dir d"
    and at: "\<And>q. file_at d' q = (if to_os_path d q = to_os_path d (snapshot_path (sn_hash s))
      then Some (utf8_encode (stringify_indented (json_of_snapshot s))) else file_at d q)"
    by blast+
  have there: "has_snapshot d' (sn_hash s)"
    by (rule written_snapshot_loads) (simp add: at)
  have keep: "has_snapshot d' k" if "is_object_hash k" "has_snapshot d k" for k
  proof (cases "k = sn_hash s")
    case False
    then have "file_at d' (snapshot_path k) = file_at d (snapshot_path k)"
      using that(1) h rooted by (simp add: at os_snapshot)
    from has_snapshot_cong [OF this] that(2) show ?thesis by simp
  qed (use there in \<open>simp\<close>)
  have "file_at d' head_path = file_at d head_path"
    using h rooted by (simp add: at os_snapshot os_fixed)
  from store_ok_cong [OF d root this keep] keep there show ?thesis by blast
qed

text \<open>Moving the head to a snapshot that is there.\<close>

lemma cas_head:
  assumes d: "store_ok d" and h: "is_object_hash h" "has_snapshot d h"
    and run: "fs_cas t head_path expected (utf8_encode h) d = (r, d')"
  shows "store_ok d' \<and> (\<forall>k. is_object_hash k \<longrightarrow> has_snapshot d k \<longrightarrow> has_snapshot d' k)"
proof (cases r)
  case (Inl e)
  with run have "fs_cas t head_path expected (utf8_encode h) d = (Inl e, d')" by simp
  from fs_cas_err [OF this] have "root_dir d' = root_dir d" "file_at d' = file_at d"
    by simp_all
  with d show ?thesis
    using store_ok_same [of d d'] has_snapshot_same [of d' d] by simp
next
  case (Inr b)
  have rooted: "rooted d" using d by (simp add: store_ok_def)
  from run Inr have "fs_cas t head_path expected (utf8_encode h) d = (Inr b, d')" by simp
  from fs_cas_ok [OF this] have root: "root_dir d' = root_dir d"
    and at: "\<And>q. file_at d' q = (if b \<and> to_os_path d q = to_os_path d head_path then Some (utf8_encode h) else file_at d q)"
    by blast+
  have same: "has_snapshot d' k = has_snapshot d k" if "is_object_hash k" for k
    using that rooted by (intro has_snapshot_cong) (simp add: at os_snapshot os_fixed)
  show ?thesis
    using d h same rooted root by (auto simp: store_ok_def head_ok_def rooted_def at split: if_splits)
qed

section \<open>The repository's operations\<close>

lemma keeps_on_tree [keeps_intros]: "keeps (repo_has H) (on_tree m)"
  by (rule keepsI) (simp add: on_tree_def repo_has_def split: prod.split)

lemma keeps_on_store [keeps_intros]:
  assumes "\<And>t. keeps (store_has H) (m t)" shows "keeps (repo_has H) (on_store m)"
  using assms by (auto simp: keeps_def on_store_def repo_has_def split: prod.split) (metis snd_conv)

lemma keeps_index [keeps_intros]:
  "keeps (repo_has H) (modify (\<lambda>w. w\<lparr>w_index := f w\<rparr>))"
  "keeps (repo_has H) (modify (\<lambda>w. w\<lparr>w_index := f w, w_dirty := b\<rparr>))"
  "keeps (repo_has H) (modify (\<lambda>w. w\<lparr>w_dirty := b\<rparr>))"
  by (rule keeps_modify; simp add: repo_has_def)+

lemma keeps_uuid [keeps_intros]: "keeps (repo_has H) (random_uuid px)"
  by (rule keepsI) (simp add: random_uuid_def repo_has_def)

lemma keeps_or_type_error [keeps_intros]: "keeps I (or_type_error x)"
  by (simp add: or_type_error_def keeps_intros split: option.split)

lemma keeps_chunks_of [keeps_intros]: "keeps I (chunks_of px s)"
  by (simp add: chunks_of_def keeps_intros split: option.split)

lemma reads_bnd: "reads m \<Longrightarrow> (\<And>a. reads (f a)) \<Longrightarrow> reads (bnd m f)"
  by (auto simp: reads_def bnd_def split: prod.split sum.split) (metis snd_conv)+

lemma reads_basic: "reads (ret a)" "reads (throw e)" "reads (gets g)" "reads (lift_sum x)"
  by (simp_all add: reads_def effs)

lemma reads_handles [simp]: "reads (read_text p)" "reads (read_json v p)" "reads (parse_or_throw s)"
proof -
  have parse: "reads (parse_or_throw s)" for s :: string
    by (simp add: parse_or_throw_def reads_basic split: option.split)
  then have rtext: "reads (read_text p)" for p
    unfolding read_text_def by (intro reads_bnd reads_basic fs_queries_read)
  show "reads (read_text p)" "reads (parse_or_throw s)"
    by (simp_all add: parse rtext)
  show "reads (read_json v p)"
    unfolding read_json_def by (auto intro!: reads_bnd reads_basic parse rtext split: option.split)
qed

lemma keeps_disk_reads [keeps_intros]:
  "keeps I (fs_read p)" "keeps I (fs_readable p)" "keeps I (fs_exists p)" "keeps I (fs_head p)" "keeps I (fs_list p)"
  "keeps I (read_text p)" "keeps I (read_json v p)"
  by (simp_all add: keeps_reads)


subsection \<open>Committing a snapshot\<close>

lemma write_snapshot_commits:
  assumes "repo_has H w" and "is_object_hash (sn_hash s)"
  shows "case write_snapshot s w of (Inl e, w') \<Rightarrow> repo_has H w' | (Inr _, w') \<Rightarrow> repo_has (insert (sn_hash s) H) w'"
proof -
  obtain r d' where run: "write_json (w_clock w) (snapshot_path (sn_hash s)) (json_of_snapshot s) (w_store w) = (r, d')"
    by fastforce
  have "store_ok (w_store w)"
    using assms by (simp add: repo_has_def store_has_def)
  from write_snapshot_file [OF this assms(2) run] assms run show ?thesis
    by (cases r) (auto simp: write_snapshot_def on_store_def repo_has_def store_has_def)
qed

lemma keeps_write_snapshot [keeps_intros]: "is_object_hash (sn_hash s) \<Longrightarrow> keeps (repo_has H) (write_snapshot s)"
proof (rule keepsI)
  fix w assume "is_object_hash (sn_hash s)" "repo_has H w"
  from write_snapshot_commits [OF this(2,1)] show "repo_has H (snd (write_snapshot s w))"
    by (cases "write_snapshot s w"; cases "fst (write_snapshot s w)") (auto simp: repo_has_def store_has_def)
qed

lemma keeps_rival_step [keeps_intros]: "keeps (repo_has H) rival_step"
proof (rule keepsI)
  fix w assume w: "repo_has H w"
  show "repo_has H (snd (rival_step w))"
  proof (cases "w_rivals w")
    case (Cons r rs)
    obtain t s where rs: "r (w_tree w, w_store w) = (t, s)" by fastforce
    have "fair r" "store_ok (w_store w)"
      using w Cons by (auto simp: repo_has_def store_has_def)
    then have "store_ok s" "\<forall>h. is_object_hash h \<longrightarrow> has_snapshot (w_store w) h \<longrightarrow> has_snapshot s h"
      using rs unfolding fair_def by (metis snd_conv)+
    with w Cons rs show ?thesis
      by (simp add: rival_step_def modify_def repo_has_def store_has_def)
  qed (use w in \<open>simp add: rival_step_def modify_def\<close>)
qed

lemma keeps_advance_head:
  assumes "h \<in> H" shows "keeps (repo_has H) (advance_head expected h)"
  unfolding advance_head_def
proof (intro keeps_seq keeps_rival_step keeps_on_store)
  fix t show "keeps (store_has H) (fs_cas t head_path (map_option utf8_encode expected) (utf8_encode h))"
  proof (rule keepsI)
    fix d assume d: "store_has H d"
    obtain r d' where run: "fs_cas t head_path (map_option utf8_encode expected) (utf8_encode h) d = (r, d')" by fastforce
    from d assms have "store_ok d" "is_object_hash h" "has_snapshot d h"
      by (auto simp: store_has_def)
    from cas_head [OF this run] d run show "store_has H (snd (fs_cas t head_path (map_option utf8_encode expected) (utf8_encode h) d))"
      by (auto simp: store_has_def)
  qed
qed

text \<open>Writing the object first and moving the head last is always safe.\<close>

lemma keeps_commit [keeps_intros]:
  assumes "is_object_hash (sn_hash s)" and "\<And>b. keeps (repo_has H) (f b)"
  shows "keeps (repo_has H) (seq (write_snapshot s) (bnd (advance_head expected (sn_hash s)) f))"
proof (rule keepsI)
  fix w assume w: "repo_has H w"
  obtain r w1 where run: "write_snapshot s w = (r, w1)" by fastforce
  have weaker: "repo_has (insert (sn_hash s) H) v \<Longrightarrow> repo_has H v" for v
    by (auto simp: repo_has_def store_has_def)
  show "repo_has H (snd (seq (write_snapshot s) (bnd (advance_head expected (sn_hash s)) f) w))"
  proof (cases r)
    case (Inl e)
    with run write_snapshot_commits [OF w assms(1)] show ?thesis
      by (simp add: seq_def bnd_def)
  next
    case (Inr u)
    with run write_snapshot_commits [OF w assms(1)] have w1: "repo_has (insert (sn_hash s) H) w1" by simp
    obtain r2 w2 where run2: "advance_head expected (sn_hash s) w1 = (r2, w2)" by fastforce
    with keepsD [OF keeps_advance_head w1 run2] have "repo_has H w2"
      by (auto intro: weaker)
    with run run2 Inr assms(2) show ?thesis
      by (cases r2) (auto simp: seq_def bnd_def keeps_def)
  qed
qed


subsection \<open>Everything else\<close>

lemma keeps_pure_read [keeps_intros]: "keeps I (read_snapshot h)" "keeps I (walk_ancestry stop h)"
  by (simp_all add: keeps_def read_snapshot_def walk_ancestry_def)

lemma keeps_load_index [keeps_intros]: "keeps (repo_has H) load_index"
proof (rule keepsI)
  fix w assume w: "repo_has H w"
  have "keeps (repo_has H) (bnd (on_store (\<lambda>_. read_json (Some (JObj [])) index_path)) (\<lambda>raw.
          bnd (or_type_error (index_of_json raw)) (\<lambda>ix.
          seq (modify (\<lambda>w. w\<lparr>w_index := Some ix\<rparr>)) (ret ix))))"
    by (intro keeps_intros)
  with w show "repo_has H (snd (load_index w))"
    by (cases "w_index w") (auto simp: load_index_def keeps_def)
qed

lemma keeps_set_index [keeps_intros]: "keeps (repo_has H) (set_index f)"
  unfolding set_index_def by (intro keeps_intros)

lemma keeps_flush [keeps_intros]: "keeps (repo_has H) flush"
proof (rule keepsI)
  fix w assume w: "repo_has H w"
  have "keeps (repo_has H) (seq (on_store (\<lambda>t. write_json t index_path (json_of_index (the (w_index w)))))
            (modify (\<lambda>w. w\<lparr>w_dirty := False\<rparr>)))"
    by (intro keeps_intros aside_paths)
  with w show "repo_has H (snd (flush w))"
    by (simp add: flush_def keeps_def)
qed

lemma keeps_app_error [keeps_intros]:
  "(\<And>p. keeps I (f p)) \<Longrightarrow> keeps I g \<Longrightarrow> keeps I (case e of FileNotFound p \<Rightarrow> f p | _ \<Rightarrow> g)"
  by (cases e) simp_all

lemma keeps_checkout [keeps_intros]:
  "keeps (repo_has H) (hash_of px p)" "keeps (repo_has H) (record_hash p h)" "keeps (repo_has H) (forget p)"
  "keeps (repo_has H) (knows p)" "keeps (repo_has H) (is_pending p)" "keeps (repo_has H) (mark_pending p h)"
  "keeps (repo_has H) (clear_pending p)"
  unfolding hash_of_def record_hash_def forget_def knows_def is_pending_def mark_pending_def clear_pending_def
    put_entry_def digest_def date_now_def
  by (intro keeps_intros)+

lemma keeps_journal [keeps_intros]:
  "keeps (repo_has H) read_changes" "keeps (repo_has H) (write_changes ps)" "keeps (repo_has H) (add_change p)"
  unfolding add_change_def read_changes_def write_changes_def
  by (intro keeps_intros aside_paths)+

lemma keeps_get_head [keeps_intros]: "keeps (repo_has H) get_head_snapshot"
  unfolding get_head_snapshot_def by (intro keeps_intros)

lemma keeps_file_status [keeps_intros]: "keeps (repo_has H) (file_status_of px p s)"
  unfolding file_status_of_def Let_def by (intro keeps_intros)

lemma keeps_walk_fold [keeps_intros]:
  assumes "\<And>p. keeps I (list p)" and "\<And>p acc. keeps I (f p acc)"
  shows "keeps I (walk_fold n list queue f acc)"
  using assms
  by (induction n list queue f acc rule: walk_fold.induct) (auto simp: Let_def intro!: keeps_intros)

lemma keeps_walk_tree [keeps_intros]: "(\<And>p acc. keeps (repo_has H) (f p acc)) \<Longrightarrow> keeps (repo_has H) (walk_tree prefix f acc)"
proof (rule keepsI)
  fix w assume f: "\<And>p acc. keeps (repo_has H) (f p acc)" and w: "repo_has H w"
  have "keeps (repo_has H) (walk_fold n (\<lambda>dir. on_tree (\<lambda>_. fs_list dir)) ds f acc)" for n ds
    by (intro keeps_intros f)
  with w show "repo_has H (snd (walk_tree prefix f acc w))"
    by (simp add: walk_tree_def keeps_def del: walk_fold.simps)
qed

lemma keeps_judge [keeps_intros]: "keeps (repo_has H) (judge px s p acc)" "keeps (repo_has H) (judge_new px s p acc)"
  unfolding judge_def judge_new_def by (intro keeps_intros)+

lemma keeps_status [keeps_intros]: "keeps (repo_has H) (status px s)"
  unfolding status_def by (intro keeps_intros)

lemma keeps_sized_chunks [keeps_intros]: "keeps (repo_has H) (sized_chunks cs)"
  unfolding sized_chunks_def by (intro keeps_intros)

lemma keeps_complete [keeps_intros]: "keeps (repo_has H) (complete_legacy_entries px fs)"
  unfolding complete_legacy_entries_def Let_def by (intro keeps_intros)

lemma keeps_store_chunk [keeps_intros]: "hex_digests px \<Longrightarrow> keeps (repo_has H) (store_chunk px b)"
  unfolding store_chunk_def Let_def by (intro keeps_intros aside_paths) (simp add: hex_digests_def)

lemma keeps_store_chunks [keeps_intros]: "hex_digests px \<Longrightarrow> keeps (repo_has H) (store_chunks px bs)"
  unfolding store_chunks_def by (intro keeps_intros)

lemma keeps_build_entry [keeps_intros]: "hex_digests px \<Longrightarrow> keeps (repo_has H) (build_entry px head gone p)"
  unfolding build_entry_def Let_def by (intro keeps_intros)

lemma keeps_build_snapshot [keeps_intros]: "hex_digests px \<Longrightarrow> keeps (repo_has H) (build_snapshot px head changes)"
  unfolding build_snapshot_def Let_def date_now_def by (intro keeps_intros)

lemma hex_address: "hex_digests px \<Longrightarrow> is_object_hash (snapshot_hash (px_sha px) p fs)"
  by (simp add: hex_digests_def snapshot_hash_def)

text \<open>The built snapshot is addressed by its files and parent.\<close>

lemma build_snapshot_address:
  "build_snapshot px head changes w = (Inr s, w') \<Longrightarrow>
     sn_hash s = snapshot_hash (px_sha px) (sn_parent s) (sn_files s) \<and> sn_parent s = Some (sn_hash head)"
  by (auto simp: build_snapshot_def Let_def bnd_Inr seq_Inr ret_def)

lemma keeps_bnd_result:
  assumes "keeps I m" and "\<And>w a w'. m w = (Inr a, w') \<Longrightarrow> P a" and "\<And>a. P a \<Longrightarrow> keeps I (f a)"
  shows "keeps I (bnd m f)"
proof (rule keepsI)
  fix w assume w: "I w"
  obtain r w1 where run: "m w = (r, w1)" by fastforce
  with assms(1) w have "I w1" by (rule keepsD)
  with run assms(2,3) show "I (snd (bnd m f w))"
    by (cases r) (auto simp: bnd_def keeps_def)
qed

lemma keeps_built:
  assumes "hex_digests px" and "\<And>s. is_object_hash (sn_hash s) \<Longrightarrow> keeps (repo_has H) (f s)"
  shows "keeps (repo_has H) (bnd (build_snapshot px head changes) f)"
  by (rule keeps_bnd_result [where P = "\<lambda>s. is_object_hash (sn_hash s)"])
    (auto intro: keeps_build_snapshot assms dest: build_snapshot_address simp: hex_address assms)

lemma keeps_snapshot_attempts: "hex_digests px \<Longrightarrow> keeps (repo_has H) (snapshot_attempts px n)"
proof (induction n)
  case 0
  then show ?case
    by (subst snapshot_attempts.simps)
      (rule keeps_bnd [OF keeps_get_head] keeps_bnd [OF keeps_status] keeps_if keeps_ret keeps_built keeps_commit
        | assumption | intro keeps_intros | simp)+
next
  case (Suc n)
  then show ?case
    by (subst snapshot_attempts.simps)
      (rule keeps_bnd [OF keeps_get_head] keeps_bnd [OF keeps_status] keeps_if keeps_ret keeps_built keeps_commit
        | assumption | intro keeps_intros | simp)+
qed

lemma keeps_take_snapshot [keeps_intros]: "hex_digests px \<Longrightarrow> keeps (repo_has H) (take_snapshot px)"
  unfolding take_snapshot_def by (rule keeps_snapshot_attempts)

text \<open>
  \<open>prepare\<close> trusts a file that is already at the root snapshot's path: that the file is that
  snapshot is its precondition.
\<close>

definition genuine :: "disk \<Rightarrow> string \<Rightarrow> bool" where
  "genuine d h \<longleftrightarrow> (\<forall>d'. fs_exists (snapshot_path h) d = (Inr True, d') \<longrightarrow> has_snapshot d h)"

lemma prepare_ok:
  assumes hex: "hex_digests px" and w: "repo_has H w" and root: "genuine (w_store w) (empty_snapshot_hash (px_sha px))"
    and run: "prepare px w = (r, w')"
  shows "repo_has H w' \<and> (\<forall>u. r = Inr u \<longrightarrow> repo_has (insert (empty_snapshot_hash (px_sha px)) H) w')"
proof -
  let ?h = "empty_snapshot_hash (px_sha px)"
  let ?s = "\<lparr>sn_hash = ?h, sn_parent = None, sn_timestamp = 0, sn_files = []\<rparr>"
  let ?seed = "bnd (on_store (\<lambda>_. fs_exists head_path)) (\<lambda>headed.
      when_do (\<not> headed) (bnd (advance_head None ?h) (\<lambda>_. ret ())))"
  have h: "is_object_hash ?h"
    using hex by (simp add: empty_snapshot_hash_def hex_address)
  have seed: "keeps (repo_has (insert ?h H)) ?seed"
    by (intro keeps_intros keeps_advance_head) simp
  have weaker: "repo_has (insert ?h H) v \<Longrightarrow> repo_has H v" for v
    by (auto simp: repo_has_def store_has_def)
  obtain x d where ex: "fs_exists (snapshot_path ?h) (w_store w) = (x, d)" by fastforce
  then have d: "d = w_store w"
    using fs_queries_read(4) [of "snapshot_path ?h"] by (metis reads_def snd_conv)
  show ?thesis
  proof (cases x)
    case (Inl e)
    with run ex d w show ?thesis
      by (auto simp: prepare_def Let_def bnd_def on_store_def)
  next
    case (Inr there)
    let ?store_it = "when_do (\<not> there) (write_snapshot ?s)"
    let ?look = "on_store (\<lambda>_. fs_exists (snapshot_path ?h))"
    have look: "?look w = (Inr there, w)"
      using ex d Inr by (simp add: on_store_def)
    have run2: "seq ?store_it ?seed w = (r, w')"
      using run unfolding prepare_def Let_def bnd_run [where m = ?look and s = w and a = there and t = w, OF look] .
    obtain y w1 where one: "?store_it w = (y, w1)" by fastforce
    have w1: "case y of Inl e \<Rightarrow> repo_has H w1 | Inr _ \<Rightarrow> repo_has (insert ?h H) w1"
    proof (cases there)
      case True
      with root ex Inr d have "has_snapshot (w_store w) ?h" by (auto simp: genuine_def)
      with one True w h show ?thesis
        by (auto simp: when_do_def ret_def repo_has_def store_has_def)
    next
      case False
      with one write_snapshot_commits [OF w, of ?s] h show ?thesis
        by (cases y) (auto simp: when_do_def)
    qed
    show ?thesis
    proof (cases y)
      case (Inl e)
      with run2 one w1 show ?thesis by (auto simp: seq_def bnd_def)
    next
      case (Inr u)
      with run2 one have "?seed w1 = (r, w')" by (simp add: seq_def bnd_def)
      with keepsD [OF seed] w1 Inr have "repo_has (insert ?h H) w'" by fastforce
      with weaker show ?thesis by blast
    qed
  qed
qed

subsection \<open>The merge and the rebase\<close>

lemma keeps_pipe [keeps_intros]: "keeps (repo_has H) (pipe_chunks cs target)"
  unfolding pipe_chunks_def by (intro keeps_intros)

lemma keeps_has_chunks [keeps_intros]: "keeps (repo_has H) (has_chunks f)"
proof -
  have "keeps (repo_has H) (has_chunks_in cs)" for cs
    by (induction cs) (auto intro!: keeps_intros)
  then show ?thesis by (simp add: has_chunks_def)
qed

lemma keeps_writes [keeps_intros]:
  "keeps (repo_has H) (pipe_file f t)" "keeps (repo_has H) (write_file_of f)" "keeps (repo_has H) (take_file f)"
  "keeps (repo_has H) (read_chunks cs)" "keeps (repo_has H) (write_merged_content px p b)" "keeps (repo_has H) (drop_file p)"
  unfolding pipe_file_def write_file_of_def take_file_def read_chunks_def write_merged_content_def drop_file_def
  by (intro keeps_intros)+

lemma keeps_content_merge [keeps_intros]: "keeps (repo_has H) (try_content_merge px p b l r)"
  unfolding try_content_merge_def by (intro keeps_intros)

lemma keeps_conflict_slot [keeps_intros]: "keeps (repo_has H) (conflict_slot_from px f fuel n)"
  by (induction px f fuel n rule: conflict_slot_from.induct) (auto simp: Let_def intro!: keeps_intros)

lemma keeps_slot [keeps_intros]:
  "(\<And>p. keeps I (f p)) \<Longrightarrow> (\<And>p. keeps I (g p)) \<Longrightarrow> keeps I (case s of Taken p \<Rightarrow> f p | Free p \<Rightarrow> g p)"
  by (cases s) simp_all

lemma keeps_conflict_file [keeps_intros]: "keeps (repo_has H) (write_conflict_file px f)"
  unfolding write_conflict_file_def by (intro keeps_intros)

lemma keeps_merge_path [keeps_intros]: "keeps (repo_has H) (merge_path px p b l r acc)"
  unfolding merge_path_def
  by (cases l; cases r; simp only: prod.case option.case) (intro keeps_intros)+

lemma keeps_merge_files [keeps_intros]: "keeps (repo_has H) (merge_files px b l r)"
  unfolding merge_files_def by (intro keeps_intros)


lemma keeps_replay_one:
  assumes "hex_digests px" shows "keeps (repo_has H) (replay_one px s head)"
  unfolding replay_one_def Let_def by (intro keeps_intros) (simp add: hex_address assms)

lemma repo_has_insert: "repo_has (insert h H) w \<longleftrightarrow> repo_has H w \<and> is_object_hash h \<and> has_snapshot (w_store w) h"
  by (auto simp: repo_has_def store_has_def)

lemma replay_one_ok:
  assumes hex: "hex_digests px" and w: "repo_has H w" and run: "replay_one px s head w = (r, w')"
  shows "repo_has H w' \<and> (\<forall>t. r = Inr t \<longrightarrow> repo_has (insert (sn_hash t) H) w')"
proof -
  have "repo_has H w'"
    using keepsD [OF keeps_replay_one [OF hex] w run] .
  moreover have "repo_has (insert (sn_hash t) H) w'" if r: "r = Inr t" for t
  proof -
    from run r obtain w1 where step: "write_snapshot t w1 = (Inr (), w')" and address: "is_object_hash (sn_hash t)"
      and w1: "w1 = w"
      by (auto simp: replay_one_def Let_def bnd_Inr seq_Inr ret_def throw_def read_snapshot_def hex_address [OF hex]
          split: option.splits)
    with write_snapshot_commits [OF w address] show ?thesis by simp
  qed
  ultimately show ?thesis by blast
qed

lemma replay_ok:
  assumes hex: "hex_digests px" and w: "repo_has (insert (sn_hash remote) H) w" and run: "replay px local remote base w = (r, w')"
  shows "repo_has H w' \<and> (\<forall>t. r = Inr t \<longrightarrow> repo_has (insert (sn_hash t) H) w')"
proof -
  have fold: "repo_has H w' \<and> (\<forall>t. r = Inr t \<longrightarrow> repo_has (insert (sn_hash t) H) w')"
    if "fold_eff (replay_one px) ss top v = (r, w')" "repo_has (insert (sn_hash top) H) v" for ss top v
    using that
  proof (induction ss arbitrary: top v)
    case Nil
    then show ?case by (auto simp: ret_def repo_has_insert)
  next
    case (Cons s ss)
    then have v: "repo_has H v" by (simp add: repo_has_insert)
    obtain x u where one: "replay_one px s top v = (x, u)" by fastforce
    from replay_one_ok [OF hex v one] have u: "repo_has H u" "\<forall>t. x = Inr t \<longrightarrow> repo_has (insert (sn_hash t) H) u"
      by blast+
    show ?case
    proof (cases x)
      case (Inl e)
      with Cons.prems(1) one u(1) show ?thesis by (auto simp: bnd_def)
    next
      case (Inr t)
      with Cons.prems(1) one have "fold_eff (replay_one px) ss t u = (r, w')" by (simp add: bnd_def)
      with Cons.IH u(2) Inr show ?thesis by blast
    qed
  qed
  show ?thesis
  proof (cases "ancestry (w_store w) (\<lambda>s. Some (sn_hash s) = map_option sn_hash base \<or> sn_parent s = None) [] (Some (sn_hash local))")
    case (Inl e)
    with run w show ?thesis by (auto simp: replay_def bnd_def walk_ancestry_def repo_has_insert)
  next
    case (Inr a)
    with run have "fold_eff (replay_one px) (rev (fst a)) remote w = (r, w')"
      by (simp add: replay_def bnd_def walk_ancestry_def case_prod_beta')
    from fold [OF this w] show ?thesis .
  qed
qed

lemma keeps_replayed:
  assumes hex: "hex_digests px" and "sn_hash remote \<in> H"
    and rest: "\<And>top. keeps (repo_has (insert (sn_hash top) H)) (f top)"
  shows "keeps (repo_has H) (bnd (replay px start remote base) f)"
proof (rule keepsI)
  fix w assume w: "repo_has H w"
  with assms(2) have w2: "repo_has (insert (sn_hash remote) H) w" by (simp add: insert_absorb)
  obtain r w1 where run: "replay px start remote base w = (r, w1)" by fastforce
  from replay_ok [OF hex w2 run] have w1: "repo_has H w1" "\<forall>t. r = Inr t \<longrightarrow> repo_has (insert (sn_hash t) H) w1"
    by blast+
  show "repo_has H (snd (bnd (replay px start remote base) f w))"
  proof (cases r)
    case (Inl e)
    with run w1 show ?thesis by (simp add: bnd_def)
  next
    case (Inr top)
    with w1 rest [of top] have "repo_has (insert (sn_hash top) H) (snd (f top w1))"
      by (simp add: keeps_def)
    with run Inr show ?thesis by (simp add: bnd_def repo_has_insert)
  qed
qed

lemma keeps_rebase_attempts:
  "hex_digests px \<Longrightarrow> sn_hash remote \<in> H \<Longrightarrow> keeps (repo_has H) (rebase_attempts px remote base n start)"
proof (induction n arbitrary: start H)
  case 0
  show ?case
    unfolding rebase_attempts.simps [of _ _ _ 0] is_ancestor_def
    by (rule keeps_replayed [OF 0]) (intro keeps_intros keeps_advance_head insertI1; simp)
next
  case (Suc n)
  have later: "keeps (repo_has (insert h H)) (rebase_attempts px remote base n c)" for h c
    using Suc by simp
  show ?case
    unfolding rebase_attempts.simps [of _ _ _ "Suc n"] is_ancestor_def nat.case
    by (rule keeps_replayed [OF Suc.prems]) (intro keeps_intros keeps_advance_head insertI1 later)
qed

lemma keeps_rebase:
  "hex_digests px \<Longrightarrow> sn_hash remote \<in> H \<Longrightarrow> keeps (repo_has H) (rebase px local remote base)"
  unfolding rebase_def by (intro keeps_intros keeps_rebase_attempts)

lemma keeps_materialize [keeps_intros]: "keeps (repo_has H) (materialize p)"
  unfolding materialize_def by (intro keeps_intros)

lemma keeps_wants [keeps_intros]: "keeps (repo_has H) (wants_content px f)"
  unfolding wants_content_def by (intro keeps_intros)

lemma keeps_find_base [keeps_intros]: "keeps (repo_has H) (find_base_snapshot l r)" "keeps (repo_has H) (is_ancestor l r)"
  unfolding find_base_snapshot_def is_ancestor_def Let_def by (intro keeps_intros)+

end
