(* ===== verification/MergeProps.thy ===== *)
theory MergeProps
  imports RepoInv
begin

text \<open>
  What the merge does to the files of the working tree: local edits survive it, remote versions
  arrive, and what happens to files both sides or only one side touched.
\<close>

section \<open>Writing to the tree\<close>

lemma fs_delete_one:
  assumes "fs_delete force False p d = (r, d')"
  shows "root_dir d' = root_dir d \<and> (\<forall>q. to_os_path d q \<noteq> to_os_path d p \<longrightarrow> file_at d' q = file_at d q)"
proof -
  have "file_at d' q = file_at d q" if "to_os_path d q \<noteq> to_os_path d p" for q
  proof (cases "to_os_path d p")
    case (Inr ks)
    show ?thesis
    proof (cases "d' = d")
      case False
      with assms Inr have d': "d' = d\<lparr>nodes := AList.delete ks (nodes d)\<rparr>"
        by (auto simp: fs_delete_def on_path_cases split: sum.splits errno.splits node.splits if_splits)
      with that Inr show ?thesis
        by (cases "to_os_path d q") (simp add: file_at_def, simp add: file_at_key delete_conv')
    qed simp
  qed (use assms in \<open>auto simp: fs_delete_def on_path_cases\<close>)
  with fs_delete_root [OF assms] show ?thesis by blast
qed

text \<open>The content a file's chunks have in a store.\<close>

definition content_in :: "disk \<Rightarrow> snap_file \<Rightarrow> bytes option" where
  "content_in d f = map_option concat (all_some (map (\<lambda>c. file_at d (chunk_path (ck_hash c))) (sf_chunks f)))"

lemma pipe_loop:
  assumes "for_each cs (\<lambda>c. bnd (on_store (\<lambda>_. fs_readable c)) (\<lambda>b. on_tree (\<lambda>t. fs_append t q b))) w = (Inr u, w')"
    and "file_at (w_tree w) q = Some pre"
  shows "w_store w' = w_store w \<and> root_dir (w_tree w') = root_dir (w_tree w)
     \<and> (\<exists>bs. all_some (map (file_at (w_store w)) cs) = Some bs \<and> file_at (w_tree w') q = Some (pre @ concat bs))"
  using assms
proof (induction cs arbitrary: w pre)
  case Nil
  then show ?case by (auto simp: ret_def)
next
  case (Cons c cs)
  from Cons.prems(1) obtain w1 where one: "bnd (on_store (\<lambda>_. fs_readable c)) (\<lambda>b. on_tree (\<lambda>t. fs_append t q b)) w = (Inr (), w1)"
    and rest: "for_each cs (\<lambda>c. bnd (on_store (\<lambda>_. fs_readable c)) (\<lambda>b. on_tree (\<lambda>t. fs_append t q b))) w1 = (Inr u, w')"
    by (auto simp: seq_Inr)
  from one obtain b v where read: "on_store (\<lambda>_. fs_readable c) w = (Inr b, v)" and app: "on_tree (\<lambda>t. fs_append t q b) v = (Inr (), w1)"
    by (auto simp: bnd_Inr)
  from read have b: "file_at (w_store w) c = Some b" and v: "v = w"
    by (auto simp: on_store_def fs_readable_ok split: prod.splits)
  from app v obtain d1 where d1: "fs_append (w_clock w) q b (w_tree w) = (Inr (), d1)" and w1: "w1 = w\<lparr>w_tree := d1\<rparr>"
    by (auto simp: on_tree_def split: prod.splits)
  from fs_append_ok [OF d1] Cons.prems(2) have "file_at d1 q = Some (pre @ b)" "root_dir d1 = root_dir (w_tree w)"
    by auto
  with Cons.IH [OF rest] w1 b show ?case by fastforce
qed

lemma pipe_chunks_ok:
  assumes "pipe_chunks cs q w = (Inr u, w')"
  shows "w_store w' = w_store w \<and> (\<exists>bs. all_some (map (file_at (w_store w)) cs) = Some bs \<and> file_at (w_tree w') q = Some (concat bs))"
proof -
  from assms obtain w1 where cut: "on_tree (\<lambda>t. fs_truncate t q) w = (Inr (), w1)"
    and rest: "for_each cs (\<lambda>c. bnd (on_store (\<lambda>_. fs_readable c)) (\<lambda>b. on_tree (\<lambda>t. fs_append t q b))) w1 = (Inr u, w')"
    by (auto simp: pipe_chunks_def seq_Inr)
  from cut obtain d1 where d1: "fs_truncate (w_clock w) q (w_tree w) = (Inr (), d1)" and w1: "w1 = w\<lparr>w_tree := d1\<rparr>"
    by (auto simp: on_tree_def split: prod.splits)
  from fs_truncate_ok [OF d1] w1 have "file_at (w_tree w1) q = Some []" by simp
  from pipe_loop [OF rest this] w1 show ?thesis by simp
qed

section \<open>One file the rest of the merge leaves alone\<close>

text \<open>A property of the tree alone; that the tree (its folder being R) holds c at p.\<close>

definition tree_is :: "(disk \<Rightarrow> bool) \<Rightarrow> world \<Rightarrow> bool" where
  "tree_is J w \<longleftrightarrow> J (w_tree w)"

abbreviation holds_at :: "string list \<Rightarrow> string \<Rightarrow> bytes \<Rightarrow> world \<Rightarrow> bool" where
  "holds_at R p c \<equiv> tree_is (\<lambda>d. root_dir d = R \<and> file_at d p = Some c)"

abbreviation at_root :: "string list \<Rightarrow> disk" where
  "at_root R \<equiv> \<lparr>root_dir = R, nodes = []\<rparr>"

definition other_file :: "string list \<Rightarrow> string \<Rightarrow> string \<Rightarrow> bool" where
  "other_file R p q \<longleftrightarrow> to_os_path (at_root R) q \<noteq> to_os_path (at_root R) p"

lemma other_file_at: "root_dir d = R \<Longrightarrow> other_file R p q \<longleftrightarrow> to_os_path d q \<noteq> to_os_path d p"
  using to_os_path_cong [of d "at_root R"] by (simp add: other_file_def)

lemma tree_on_store [keeps_intros]: "keeps (tree_is J) (on_store m)"
  by (rule keepsI) (simp add: on_store_def tree_is_def split: prod.split)

lemma tree_on_tree:
  assumes "\<And>t d r d'. J d \<Longrightarrow> m t d = (r, d') \<Longrightarrow> J d'" shows "keeps (tree_is J) (on_tree m)"
proof (rule keepsI)
  fix w assume w: "tree_is J w"
  obtain r d' where run: "m (w_clock w) (w_tree w) = (r, d')" by fastforce
  from assms [OF _ run] w run show "tree_is J (snd (on_tree m w))"
    by (simp add: on_tree_def tree_is_def)
qed

lemma holds_on_tree:
  assumes "\<And>t d r d'. root_dir d = R \<Longrightarrow> file_at d p = Some c \<Longrightarrow> m t d = (r, d') \<Longrightarrow> root_dir d' = R \<and> file_at d' p = Some c"
  shows "keeps (holds_at R p c) (on_tree m)"
  by (rule tree_on_tree) (use assms in blast)

lemma tree_on_tree_reads [keeps_intros]: "(\<And>t. reads (m t)) \<Longrightarrow> keeps (tree_is J) (on_tree m)"
  by (rule tree_on_tree) (metis reads_def snd_conv)

lemma tree_index [keeps_intros]:
  "keeps (tree_is J) (modify (\<lambda>w. w\<lparr>w_index := f w\<rparr>))"
  "keeps (tree_is J) (modify (\<lambda>w. w\<lparr>w_index := f w, w_dirty := b\<rparr>))"
  "keeps (tree_is J) (modify (\<lambda>w. w\<lparr>w_dirty := b\<rparr>))"
  by (rule keeps_modify; simp add: tree_is_def)+

lemma tree_load_index [keeps_intros]: "keeps (tree_is J) load_index"
proof (rule keepsI)
  fix w assume w: "tree_is J w"
  have "keeps (tree_is J) (bnd (on_store (\<lambda>_. read_json (Some (JObj [])) index_path)) (\<lambda>raw.
          bnd (or_type_error (index_of_json raw)) (\<lambda>ix.
          seq (modify (\<lambda>w. w\<lparr>w_index := Some ix\<rparr>)) (ret ix))))"
    by (intro keeps_intros)
  with w show "tree_is J (snd (load_index w))"
    by (cases "w_index w") (auto simp: load_index_def keeps_def)
qed

lemma tree_set_index [keeps_intros]: "keeps (tree_is J) (set_index f)"
  unfolding set_index_def by (intro keeps_intros)

lemma tree_flush [keeps_intros]: "keeps (tree_is J) flush"
proof (rule keepsI)
  fix w assume w: "tree_is J w"
  have "keeps (tree_is J) (seq (on_store (\<lambda>t. write_json t index_path (json_of_index (the (w_index w)))))
            (modify (\<lambda>w. w\<lparr>w_dirty := False\<rparr>)))"
    by (intro keeps_intros)
  with w show "tree_is J (snd (flush w))"
    by (simp add: flush_def keeps_def)
qed

lemma tree_checkout [keeps_intros]:
  "keeps (tree_is J) (hash_of px p)" "keeps (tree_is J) (record_hash p h)" "keeps (tree_is J) (forget p)"
  "keeps (tree_is J) (mark_pending p h)" "keeps (tree_is J) (clear_pending p)" "keeps (tree_is J) (add_change p)"
  unfolding hash_of_def record_hash_def forget_def mark_pending_def clear_pending_def add_change_def
    put_entry_def digest_def date_now_def read_changes_def write_changes_def
  by (intro keeps_intros fs_queries_read)+

lemma tree_has_chunks [keeps_intros]: "keeps (tree_is J) (has_chunks f)"
proof -
  have "keeps (tree_is J) (has_chunks_in cs)" for cs
    by (induction cs) (auto intro!: keeps_intros)
  then show ?thesis by (simp add: has_chunks_def)
qed

lemma tree_conflict_slot [keeps_intros]: "keeps (tree_is J) (conflict_slot_from px f fuel n)"
  by (induction px f fuel n rule: conflict_slot_from.induct) (auto simp: Let_def intro!: keeps_intros)

lemma tree_same: "keeps (tree_is (\<lambda>d. d = w_tree w)) m \<Longrightarrow> m w = (r, w') \<Longrightarrow> w_tree w' = w_tree w"
  by (drule keepsD [of _ m w]) (simp_all add: tree_is_def)

lemma holds_tree_writes [keeps_intros]:
  assumes "other_file R p q"
  shows "keeps (holds_at R p c) (on_tree (\<lambda>t. fs_write t q b))" "keeps (holds_at R p c) (on_tree (\<lambda>t. fs_append t q b))"
    "keeps (holds_at R p c) (on_tree (\<lambda>t. fs_truncate t q))" "keeps (holds_at R p c) (on_tree (\<lambda>_. fs_delete force False q))"
proof -
  have far: "root_dir d = R \<Longrightarrow> to_os_path d p \<noteq> to_os_path d q" for d
    using assms by (auto simp: other_file_at)
  show "keeps (holds_at R p c) (on_tree (\<lambda>t. fs_write t q b))"
  proof (rule holds_on_tree)
    fix t d r d' assume d: "root_dir d = R" "file_at d p = Some c" "fs_write t q b d = (r, d')"
    then show "root_dir d' = R \<and> file_at d' p = Some c"
      using fs_write_ok [of t q b d _ d'] fs_write_err [of t q b d _ d'] far [OF d(1)] by (cases r) auto
  qed
  show "keeps (holds_at R p c) (on_tree (\<lambda>t. fs_append t q b))"
  proof (rule holds_on_tree)
    fix t d r d' assume d: "root_dir d = R" "file_at d p = Some c" "fs_append t q b d = (r, d')"
    then show "root_dir d' = R \<and> file_at d' p = Some c"
      using fs_append_ok [of t q b d _ d'] fs_append_err [of t q b d _ d'] far [OF d(1)] by (cases r) auto
  qed
  show "keeps (holds_at R p c) (on_tree (\<lambda>t. fs_truncate t q))"
  proof (rule holds_on_tree)
    fix t d r d' assume d: "root_dir d = R" "file_at d p = Some c" "fs_truncate t q d = (r, d')"
    then show "root_dir d' = R \<and> file_at d' p = Some c"
      using fs_truncate_ok [of t q d _ d'] fs_truncate_err [of t q d _ d'] far [OF d(1)] by (cases r) auto
  qed
  show "keeps (holds_at R p c) (on_tree (\<lambda>_. fs_delete force False q))"
  proof (rule holds_on_tree)
    fix t d r d' assume d: "root_dir d = R" "file_at d p = Some c" "fs_delete force False q d = (r, d')"
    then show "root_dir d' = R \<and> file_at d' p = Some c"
      using fs_delete_one [of force q d r d'] far [OF d(1)] by auto
  qed
qed


section \<open>A free name is a name no file has\<close>

lemma hash_of_None:
  assumes "hash_of px q w = (Inr None, w')" shows "file_at (w_tree w) q = None"
proof -
  from assms obtain ix w1 where ix: "load_index w = (Inr ix, w1)"
    and rest: "bnd (catch (bnd (on_tree (\<lambda>_. fs_head q)) (\<lambda>h. ret (Some h)))
            (\<lambda>e. case e of FileNotFound _ \<Rightarrow> ret None | _ \<Rightarrow> throw e)) (\<lambda>head.
       case head of
         None \<Rightarrow> ret None
       | Some head \<Rightarrow>
           if (case rget (ix_entries ix) q of Some known \<Rightarrow> trusted known head | None \<Rightarrow> False)
           then ret (map_option ce_hash (rget (ix_entries ix) q))
           else bnd (digest px q) (\<lambda>hash.
                bnd date_now (\<lambda>now.
                seq (put_entry q head hash now) (ret (Some hash))))) w1 = (Inr None, w')"
    unfolding hash_of_def bnd_Inr by blast
  have tree: "w_tree w1 = w_tree w"
    using ix by (rule tree_same [OF tree_load_index])
  show ?thesis
  proof (rule ccontr)
    assume "file_at (w_tree w) q \<noteq> None"
    then obtain h where "fs_head q (w_tree w1) = (Inr h, w_tree w1)"
      unfolding tree by (auto simp: file_at_def fs_head_def on_path_cases split: sum.splits node.splits)
    then have "on_tree (\<lambda>_. fs_head q) w1 = (Inr h, w1)"
      by (simp add: on_tree_def)
    with rest show False
      by (auto simp: bnd_def catch_def ret_def seq_def split: if_splits option.splits sum.splits prod.splits)
  qed
qed

lemma conflict_slot_free:
  assumes "conflict_slot_from px f fuel n w = (Inr (Free q), w')" shows "file_at (w_tree w) q = None \<and> w_tree w' = w_tree w"
proof -
  have "file_at (w_tree w) q = None"
    using assms
  proof (induction fuel arbitrary: n w)
    case (Suc fuel)
    then obtain h w1 where one: "hash_of px (conflict_name f (conflict_suffix n)) w = (Inr h, w1)"
      and rest: "(case h of None \<Rightarrow> ret (Free (conflict_name f (conflict_suffix n)))
        | Some h \<Rightarrow> if h = sf_hash f then ret (Taken (conflict_name f (conflict_suffix n))) else conflict_slot_from px f fuel (Suc n)) w1
          = (Inr (Free q), w')"
      by (auto simp: Let_def bnd_Inr)
    have "w_tree w1 = w_tree w"
      using one by (rule tree_same [OF tree_checkout(1)])
    with Suc.IH [of "Suc n" w1] rest hash_of_None [of px q w w1] one show ?case
      by (auto simp: ret_def split: option.splits if_splits)
  qed (simp add: throw_def)
  with tree_same [OF tree_conflict_slot assms] show ?thesis by simp
qed

lemma holds_pipe: "other_file R p q \<Longrightarrow> keeps (holds_at R p c) (pipe_chunks cs q)"
  unfolding pipe_chunks_def by (intro keeps_intros fs_queries_read)

lemma holds_take: "other_file R p (sf_pathname f) \<Longrightarrow> keeps (holds_at R p c) (take_file f)"
  unfolding take_file_def write_file_of_def pipe_file_def by (intro keeps_intros holds_pipe)

lemma holds_drop: "other_file R p q \<Longrightarrow> keeps (holds_at R p c) (drop_file q)"
  unfolding drop_file_def by (intro keeps_intros)

lemma holds_conflict_file: "keeps (holds_at R p c) (write_conflict_file px f)"
proof (rule keepsI)
  fix w assume w: "holds_at R p c w"
  obtain x w1 where slot: "conflict_slot_from px f (conflict_fuel w) 1 w = (x, w1)" by fastforce
  have w1: "holds_at R p c w1"
    using keepsD [OF tree_conflict_slot w slot] .
  have step: "write_conflict_file px f w = (case x of
      Inl e \<Rightarrow> (Inl e, w1)
    | Inr (Taken q) \<Rightarrow> (Inr q, w1)
    | Inr (Free q) \<Rightarrow> seq (pipe_file f q) (seq (record_hash q (sf_hash f)) (seq (add_change q) (ret q))) w1)"
    using slot by (auto simp: write_conflict_file_def bnd_def gets_def ret_def split: sum.split conflict_slot.split)
  show "holds_at R p c (snd (write_conflict_file px f w))"
  proof (cases "\<exists>q. x = Inr (Free q)")
    case True
    then obtain q where q: "x = Inr (Free q)" by blast
    from conflict_slot_free [OF slot [unfolded q]] have free: "file_at (w_tree w) q = None" by blast
    have "other_file R p q"
      using w free other_file_at [of "w_tree w" R p q] by (auto simp: tree_is_def file_at_def)
    then have "keeps (holds_at R p c) (seq (pipe_file f q) (seq (record_hash q (sf_hash f)) (seq (add_change q) (ret q))))"
      unfolding pipe_file_def by (intro keeps_intros holds_pipe)
    with w1 q show ?thesis
      by (simp add: step keeps_def)
  next
    case False
    with w1 show ?thesis
      by (cases x) (auto simp: step split: conflict_slot.split)
  qed
qed


lemma content_merge_off: "px_merger px = None \<Longrightarrow> try_content_merge px p b l r = ret None"
  by (simp add: try_content_merge_def)

lemma tree_read_chunks [keeps_intros]: "keeps (tree_is J) (read_chunks cs)"
  unfolding read_chunks_def by (intro keeps_intros fs_queries_read)

lemma tree_merge_base: "keeps (tree_is J) (case base of
      None \<Rightarrow> ret None
    | Some f \<Rightarrow> bnd (has_chunks f) (\<lambda>there.
        if there then bnd (read_chunks (sf_chunks f)) (\<lambda>b. ret (Some b)) else ret None))"
  by (cases base; simp only: option.case) (intro keeps_intros)+

lemma holds_content_merge: "other_file R p q \<Longrightarrow> keeps (holds_at R p c) (try_content_merge px q b l r)"
  unfolding try_content_merge_def write_merged_content_def
  by (cases "px_merger px"; simp only: option.case)
    (intro keeps_intros fs_queries_read tree_merge_base | auto split: option.split intro!: keeps_intros)+

lemma holds_merge_other:
  assumes "other_file R p q" and "\<And>f. l = Some f \<or> r = Some f \<Longrightarrow> sf_pathname f = q"
  shows "keeps (holds_at R p c) (merge_path px q b l r acc)"
proof -
  have take: "keeps (holds_at R p c) (take_file f)" if "l = Some f \<or> r = Some f" for f
    using assms that by (intro holds_take) simp
  show ?thesis
    unfolding merge_path_def
    using take holds_drop [OF assms(1)] holds_conflict_file holds_content_merge [OF assms(1)]
    by (cases l; cases r; simp only: prod.case option.case)
      (intro keeps_intros | simp split: option.split | auto intro!: keeps_intros split: option.split)+
qed

text \<open>p exists here with another content than at the common ancestor, and the remote or the ancestor has it.\<close>

definition edited_here :: "snap_file option \<Rightarrow> snap_file option \<Rightarrow> snap_file option \<Rightarrow> bool" where
  "edited_here b l r \<longleftrightarrow>
     (\<exists>f. l = Some f \<and> (b = None \<longrightarrow> r \<noteq> None) \<and> (\<forall>g. b = Some g \<longrightarrow> sf_hash g \<noteq> sf_hash f))"

lemma reads_run: "reads m \<Longrightarrow> m s = (r, s') \<Longrightarrow> s' = s"
  by (metis reads_def snd_conv)

lemma reads_on_store: "(\<And>t. reads (m t)) \<Longrightarrow> reads (on_store m)"
  by (auto simp: reads_def on_store_def split: prod.split) (metis (no_types, lifting) snd_conv world.surjective world.update_convs(2))

lemma reads_on_tree: "(\<And>t. reads (m t)) \<Longrightarrow> reads (on_tree m)"
  by (auto simp: reads_def on_tree_def split: prod.split) (metis (no_types, lifting) snd_conv world.surjective world.update_convs(1))

text \<open>What a registered merger made of the content c of p, whatever the two other contents were.\<close>

definition merged_from :: "params \<Rightarrow> string \<Rightarrow> bytes \<Rightarrow> bytes \<Rightarrow> bool" where
  "merged_from px p c x \<longleftrightarrow> (\<exists>m bb rb n. px_merger px = Some m \<and> m p bb c rb = Some (x, n))"

definition kept_or_merged :: "params \<Rightarrow> string list \<Rightarrow> string \<Rightarrow> bytes \<Rightarrow> world \<Rightarrow> bool" where
  "kept_or_merged px R p c w \<longleftrightarrow> (\<exists>x. holds_at R p x w \<and> (x = c \<or> merged_from px p c x))"

lemma write_merged_run:
  assumes "write_merged_content px p x w = (r, w')" and "holds_at R p c w"
  shows "holds_at R p x w' \<or> (\<exists>e. r = Inl e) \<and> holds_at R p c w'"
proof -
  obtain r1 d1 where wrote: "fs_write (w_clock w) p x (w_tree w) = (r1, d1)" by fastforce
  let ?rest = "seq (record_hash p (px_sha px x)) (seq (clear_pending p) (add_change p))"
  show ?thesis
  proof (cases r1)
    case (Inl e)
    with assms(1) wrote have "r = Inl e" "w' = w\<lparr>w_tree := d1\<rparr>"
      by (auto simp: write_merged_content_def seq_def bnd_def on_tree_def)
    with assms(2) fs_write_err [OF wrote [unfolded Inl]] show ?thesis by (simp add: tree_is_def)
  next
    case (Inr u)
    with assms(1) wrote have "?rest (w\<lparr>w_tree := d1\<rparr>) = (r, w')"
      by (simp add: write_merged_content_def seq_def bnd_def on_tree_def)
    moreover have "holds_at R p x (w\<lparr>w_tree := d1\<rparr>)"
      using fs_write_ok [OF wrote [unfolded Inr]] assms(2) by (simp add: tree_is_def)
    moreover have "keeps (holds_at R p x) ?rest" by (intro keeps_intros)
    ultimately show ?thesis by (blast dest: keepsD)
  qed
qed

lemma has_chunks_reads: "reads (has_chunks f)"
proof -
  have "reads (has_chunks_in cs)" for cs
    by (induction cs) (auto intro!: reads_bnd reads_on_store simp: reads_basic)
  then show ?thesis by (simp add: has_chunks_def)
qed

lemma read_chunks_reads: "reads (read_chunks cs)"
proof -
  have "reads (fold_eff (\<lambda>c acc. bnd (on_store (\<lambda>_. fs_read (chunk_path (ck_hash c)))) (\<lambda>b. ret (acc @ b))) cs out)" for out
    by (induction cs arbitrary: out) (auto intro!: reads_bnd reads_on_store simp: reads_basic)
  then show ?thesis by (simp add: read_chunks_def)
qed

definition base_content :: "snap_file option \<Rightarrow> (world, bytes option) eff" where
  "base_content base = (case base of
      None \<Rightarrow> ret None
    | Some f \<Rightarrow> bnd (has_chunks f) (\<lambda>there.
        if there then bnd (read_chunks (sf_chunks f)) (\<lambda>b. ret (Some b)) else ret None))"

lemma base_content_reads: "reads (base_content base)"
  by (auto simp: base_content_def reads_basic intro!: reads_bnd has_chunks_reads read_chunks_reads split: option.split)

text \<open>Everything the content merge does before it writes only reads.\<close>

lemma content_merge_run:
  assumes "try_content_merge px p base l r w = (res, w')"
  shows "w' = w \<and> (res = Inr None \<or> (\<exists>e. res = Inl e))
    \<or> (\<exists>m bb c rb x n. px_merger px = Some m \<and> m p bb c rb = Some (x, n) \<and> base_content base w = (Inr bb, w)
        \<and> file_at (w_tree w) p = Some c \<and> has_chunks r w = (Inr True, w) \<and> read_chunks (sf_chunks r) w = (Inr rb, w)
        \<and> seq (write_merged_content px p x) (ret (Some n)) w = (res, w'))"
proof (cases "px_merger px")
  case None
  with assms show ?thesis by (simp add: try_content_merge_def ret_def)
next
  case (Some m)
  let ?put = "\<lambda>bb c rb. case m p bb c rb of None \<Rightarrow> ret None
      | Some (merged, conflicts) \<Rightarrow> seq (write_merged_content px p merged) (ret (Some conflicts))"
  have run: "bnd (has_chunks r) (\<lambda>here. if \<not> here then ret None
      else bnd (base_content base) (\<lambda>bb. bnd (on_tree (\<lambda>_. fs_read p)) (\<lambda>c.
        bnd (read_chunks (sf_chunks r)) (\<lambda>rb. ?put bb c rb)))) w = (res, w')"
    using assms unfolding try_content_merge_def base_content_def Some option.case .
  obtain h where h: "has_chunks r w = (h, w)"
    using reads_run [OF has_chunks_reads] by (metis surj_pair)
  obtain b where b: "base_content base w = (b, w)"
    using reads_run [OF base_content_reads] by (metis surj_pair)
  obtain c where c: "on_tree (\<lambda>_. fs_read p) w = (c, w)" and c_at: "\<And>x. c = Inr x \<Longrightarrow> file_at (w_tree w) p = Some x"
  proof -
    obtain x v where run: "on_tree (\<lambda>_. fs_read p) w = (x, v)" by fastforce
    have "v = w" by (rule reads_run [OF reads_on_tree [OF fs_queries_read(2)] run])
    with run have run: "on_tree (\<lambda>_. fs_read p) w = (x, w)" by simp
    moreover from run have "x = Inr y \<Longrightarrow> file_at (w_tree w) p = Some y" for y
      by (auto simp: on_tree_def fs_read_ok split: prod.splits)
    ultimately show thesis by (rule that)
  qed
  obtain rb where rb: "read_chunks (sf_chunks r) w = (rb, w)"
    using reads_run [OF read_chunks_reads] by (metis surj_pair)
  show ?thesis
  proof (cases "h = Inr True \<and> (\<exists>x y z. b = Inr x \<and> c = Inr y \<and> rb = Inr z)")
    case True
    then obtain x y z where all: "h = Inr True" "b = Inr x" "c = Inr y" "rb = Inr z" by blast
    with run h b c rb have "?put x y z w = (res, w')" by (simp add: bnd_def)
    with Some all h b rb c_at show ?thesis
      by (cases "m p x y z") (auto simp: ret_def)
  next
    case False
    with run h b c rb show ?thesis
      by (auto simp: bnd_def ret_def split: sum.splits if_splits)
  qed
qed

lemma edited_result:
  assumes "edited_here b l r" and "holds_at R p c w"
  shows "kept_or_merged px R p c (snd (merge_path px p b l r acc w))"
proof -
  have same: "kept_or_merged px R p c v" if "holds_at R p c v" for v
    using that by (auto simp: kept_or_merged_def)
  from assms(1) obtain f where f: "l = Some f" "b = None \<Longrightarrow> r \<noteq> None" "\<And>g. b = Some g \<Longrightarrow> sf_hash g \<noteq> sf_hash f"
    unfolding edited_here_def by blast
  show ?thesis
  proof (cases "\<exists>g. r = Some g \<and> sf_hash f \<noteq> sf_hash g")
    case False
    with f assms(2) show ?thesis
      by (cases r; cases b) (auto simp: merge_path_def ret_def intro!: same)
  next
    case True
    then obtain g where g: "r = Some g" "sf_hash f \<noteq> sf_hash g" by blast
    let ?copy = "bnd (write_conflict_file px g) (\<lambda>q. ret (acc\<lparr>mr_conflicts := mr_conflicts acc @ [q]\<rparr>))"
    let ?rest = "\<lambda>merged. case merged of
        Some n \<Rightarrow> ret (if n > 0 then acc\<lparr>mr_unresolved := mr_unresolved acc @ [(p, n)]\<rparr> else acc)
      | None \<Rightarrow> ?copy"
    have path: "merge_path px p b l r acc = bnd (try_content_merge px p b f g) ?rest"
      using f g by (auto simp: merge_path_def split: option.split)
    obtain res v where run: "try_content_merge px p b f g w = (res, v)" by fastforce
    have none: "kept_or_merged px R p c (snd (?copy w))"
    proof (rule same)
      have "keeps (holds_at R p c) ?copy" by (intro keeps_bnd keeps_ret holds_conflict_file)
      with assms(2) show "holds_at R p c (snd (?copy w))" by (simp add: keeps_def)
    qed
    from content_merge_run [OF run] show ?thesis
    proof (elim disjE conjE exE)
      fix m bb y rb x n
      assume m: "px_merger px = Some m" "m p bb y rb = Some (x, n)" and y: "file_at (w_tree w) p = Some y"
        and wrote: "seq (write_merged_content px p x) (ret (Some n)) w = (res, v)"
      have "y = c" using y assms(2) by (simp add: tree_is_def)
      obtain r2 where "write_merged_content px p x w = (r2, v)"
        using wrote by (auto simp: seq_def bnd_def ret_def split: prod.splits sum.splits)
      from write_merged_run [OF this assms(2)] m \<open>y = c\<close> have "kept_or_merged px R p c v"
        by (auto simp: kept_or_merged_def merged_from_def)
      moreover have "res \<noteq> Inr None"
        using wrote by (auto simp: seq_def bnd_def ret_def split: prod.splits sum.splits)
      ultimately show ?thesis
        using run by (auto simp: path bnd_def ret_def split: sum.split option.split)
    next
      assume "v = w" "res = Inr None"
      with none run show ?thesis by (simp add: path bnd_def)
    next
      fix e assume "v = w" "res = Inl e"
      with same [OF assms(2)] run show ?thesis by (simp add: path bnd_def)
    qed
  qed
qed

text \<open>Every entry is recorded under its own path, and the paths name different files.\<close>

definition well_named :: "snap_file rec \<Rightarrow> bool" where
  "well_named fs \<longleftrightarrow> (\<forall>k f. rget fs k = Some f \<longrightarrow> sf_pathname f = k)"

lemma fold_eff_append: "fold_eff f (xs @ ys) acc = bnd (fold_eff f xs acc) (fold_eff f ys)"
proof (induction xs arbitrary: acc)
  case (Cons x xs)
  then show ?case by (auto simp: bnd_def fun_eq_iff split: sum.split prod.split)
qed (simp add: bnd_def ret_def)

lemma edited_merge_files:
  assumes named: "well_named local" "well_named remote"
    and apart: "\<forall>q \<in> set (rkeys base) \<union> set (rkeys local) \<union> set (rkeys remote). q \<noteq> p \<longrightarrow> other_file R p q"
    and edited: "edited_here (rget base p) (rget local p) (rget remote p)"
    and holds: "holds_at R p c w"
  shows "kept_or_merged px R p c (snd (merge_files px base local remote w))"
proof -
  let ?keys = "uniq (rkeys base @ rkeys local @ rkeys remote)"
  let ?step = "\<lambda>q. merge_path px q (rget base q) (rget local q) (rget remote q)"
  have "p \<in> set ?keys"
    using edited by (force simp: edited_here_def image_iff dest!: map_of_SomeD)
  then obtain ps qs where keys: "?keys = ps @ p # qs" by (blast dest: split_list)
  moreover have "distinct ?keys" by simp
  ultimately have away: "p \<notin> set ps" "p \<notin> set qs" by auto
  have far: "keeps (holds_at R p x) (?step q acc)" if "q \<in> set ps \<union> set qs" for q acc x
  proof -
    have "q \<in> set ?keys" using that keys by auto
    with that away apart have "other_file R p q" by auto
    with named show ?thesis by (intro holds_merge_other) (auto simp: well_named_def)
  qed
  have after: "keeps (kept_or_merged px R p c) (bnd (fold_eff ?step qs acc) (\<lambda>result. seq flush (ret result)))" for acc
  proof (rule keepsI)
    fix v assume "kept_or_merged px R p c v"
    then obtain x where x: "holds_at R p x v" "x = c \<or> merged_from px p c x" by (auto simp: kept_or_merged_def)
    have "keeps (holds_at R p x) (bnd (fold_eff ?step qs acc) (\<lambda>result. seq flush (ret result)))"
      using far by (intro keeps_intros) simp
    with x show "kept_or_merged px R p c (snd (bnd (fold_eff ?step qs acc) (\<lambda>result. seq flush (ret result)) v))"
      by (auto simp: keeps_def kept_or_merged_def)
  qed
  have start: "keeps (holds_at R p c) (fold_eff ?step ps acc)" for acc
    using far by (intro keeps_intros) simp
  let ?acc = "\<lparr>mr_conflicts = [], mr_unresolved = [], mr_decisions = []\<rparr>"
  obtain r1 w1 where first: "fold_eff ?step ps ?acc w = (r1, w1)" by fastforce
  have w1: "holds_at R p c w1" by (rule keepsD [OF start holds first])
  show ?thesis
  proof (cases r1)
    case (Inl e)
    with first w1 show ?thesis
      by (auto simp: merge_files_def keys fold_eff_append bnd_def kept_or_merged_def)
  next
    case (Inr acc)
    obtain r2 w2 where second: "?step p acc w1 = (r2, w2)" by fastforce
    have w2: "kept_or_merged px R p c w2"
      using edited_result [OF edited w1, of px acc] second by simp
    show ?thesis
    proof (cases r2)
      case (Inl e)
      with first second Inr w2 show ?thesis
        by (simp add: merge_files_def keys fold_eff_append bnd_def)
    next
      case (Inr acc2)
      have "snd (merge_files px base local remote w) = snd (bnd (fold_eff ?step qs acc2) (\<lambda>result. seq flush (ret result)) w2)"
        using first second \<open>r1 = Inr acc\<close> Inr by (simp add: merge_files_def keys fold_eff_append bnd_def)
      with after [of acc2] w2 show ?thesis by (simp add: keeps_def)
    qed
  qed
qed

section \<open>Remote versions\<close>

lemma keeps_store_tail:
  assumes "seq (pipe_file f q) rest w = (Inr u, w')" and "keeps (tree_is (\<lambda>d. file_at d q = content_in (w_store w) f)) rest"
  shows "file_at (w_tree w') q = content_in (w_store w) f \<and> content_in (w_store w) f \<noteq> None"
proof -
  from assms(1) obtain w1 where piped: "pipe_file f q w = (Inr (), w1)" and tail: "rest w1 = (Inr u, w')"
    by (auto simp: seq_Inr)
  from pipe_chunks_ok [OF piped [unfolded pipe_file_def]]
  have "file_at (w_tree w1) q = content_in (w_store w) f \<and> content_in (w_store w) f \<noteq> None"
    by (auto simp: content_in_def comp_def)
  with keepsD [OF assms(2) _ tail] show ?thesis
    by (simp add: tree_is_def)
qed

lemma write_file_content:
  "write_file_of f w = (Inr u, w') \<Longrightarrow> file_at (w_tree w') (sf_pathname f) = content_in (w_store w) f \<and> content_in (w_store w) f \<noteq> None"
  unfolding write_file_of_def by (erule keeps_store_tail) (intro keeps_intros)

lemma take_file_content:
  assumes "take_file f w = (Inr u, w')" and "has_chunks f w = (Inr True, w)"
  shows "file_at (w_tree w') (sf_pathname f) = content_in (w_store w) f \<and> content_in (w_store w) f \<noteq> None"
  using assms write_file_content by (simp add: take_file_def bnd_def)

definition store_is :: "disk \<Rightarrow> world \<Rightarrow> bool" where
  "store_is S w \<longleftrightarrow> w_store w = S"

lemma store_on_tree [keeps_intros]: "keeps (store_is S) (on_tree m)"
  by (rule keepsI) (simp add: on_tree_def store_is_def split: prod.split)

lemma store_on_store_reads [keeps_intros]: "(\<And>t. reads (m t)) \<Longrightarrow> keeps (store_is S) (on_store m)"
  by (rule keepsI) (auto simp: on_store_def store_is_def split: prod.split dest: reads_run)

lemma store_index [keeps_intros]:
  "keeps (store_is S) (modify (\<lambda>w. w\<lparr>w_index := f w\<rparr>))"
  "keeps (store_is S) (modify (\<lambda>w. w\<lparr>w_index := f w, w_dirty := b\<rparr>))"
  by (rule keeps_modify; simp add: store_is_def)+

lemma store_load_index [keeps_intros]: "keeps (store_is S) load_index"
proof (rule keepsI)
  fix w assume w: "store_is S w"
  have "keeps (store_is S) (bnd (on_store (\<lambda>_. read_json (Some (JObj [])) index_path)) (\<lambda>raw.
          bnd (or_type_error (index_of_json raw)) (\<lambda>ix.
          seq (modify (\<lambda>w. w\<lparr>w_index := Some ix\<rparr>)) (ret ix))))"
    by (intro keeps_intros reads_handles)
  with w show "store_is S (snd (load_index w))"
    by (cases "w_index w") (auto simp: load_index_def keeps_def)
qed

lemma store_hash_of [keeps_intros]: "keeps (store_is S) (hash_of px p)"
  unfolding hash_of_def put_entry_def digest_def date_now_def set_index_def by (intro keeps_intros)

lemma store_conflict_slot [keeps_intros]: "keeps (store_is S) (conflict_slot_from px f fuel n)"
  by (induction px f fuel n rule: conflict_slot_from.induct) (auto simp: Let_def intro!: keeps_intros)

text \<open>
  What the checkout index makes of the file at q: its digest, or the hash of an entry the index had
  for it, trusted because size and modification time are still the recorded ones.
\<close>

definition hashes_to :: "params \<Rightarrow> world \<Rightarrow> string \<Rightarrow> string \<Rightarrow> bool" where
  "hashes_to px w q h \<longleftrightarrow>
     (\<exists>c. file_at (w_tree w) q = Some c \<and> px_sha px c = h)
   \<or> (\<exists>ix w' e head. load_index w = (Inr ix, w') \<and> rget (ix_entries ix) q = Some e
        \<and> fs_head q (w_tree w) = (Inr head, w_tree w) \<and> trusted e head \<and> ce_hash e = h)"

lemma hash_of_hashes:
  assumes "hash_of px q w = (Inr x, w')"
  shows "(\<forall>h. x = Some h \<longrightarrow> hashes_to px w q h) \<and> (\<forall>p h. hashes_to px w' p h \<longrightarrow> hashes_to px w p h)"
proof -
  from assms obtain ix w1 where ix: "load_index w = (Inr ix, w1)"
    and rest: "bnd (catch (bnd (on_tree (\<lambda>_. fs_head q)) (\<lambda>h. ret (Some h)))
            (\<lambda>e. case e of FileNotFound _ \<Rightarrow> ret None | _ \<Rightarrow> throw e)) (\<lambda>head.
       case head of
         None \<Rightarrow> ret None
       | Some head \<Rightarrow>
           if (case rget (ix_entries ix) q of Some known \<Rightarrow> trusted known head | None \<Rightarrow> False)
           then ret (map_option ce_hash (rget (ix_entries ix) q))
           else bnd (digest px q) (\<lambda>hash.
                bnd date_now (\<lambda>now.
                seq (put_entry q head hash now) (ret (Some hash))))) w1 = (Inr x, w')"
    unfolding hash_of_def bnd_Inr by blast
  have tree: "w_tree w1 = w_tree w" by (rule tree_same [OF tree_load_index ix])
  have index: "w_index w1 = Some ix"
    using ix by (auto simp: load_index_def bnd_Inr seq_Inr modify_def ret_def split: option.splits)
  then have old: "hashes_to px w1 p h \<longrightarrow> hashes_to px w p h" for p h
    using ix tree by (auto simp: hashes_to_def load_index_def)
  obtain r d where head: "fs_head q (w_tree w) = (r, d)" by fastforce
  then have "d = w_tree w" by (rule reads_run [OF fs_queries_read(5)])
  with head tree have on_head: "on_tree (\<lambda>_. fs_head q) w1 = (r, w1)" by (simp add: on_tree_def)
  show ?thesis
  proof (cases r)
    case (Inl e)
    with rest on_head old show ?thesis
      by (cases e) (auto simp: bnd_def catch_def ret_def throw_def)
  next
    case (Inr hd)
    show ?thesis
    proof (cases "\<exists>e. rget (ix_entries ix) q = Some e \<and> trusted e hd")
      case True
      then obtain e where e: "rget (ix_entries ix) q = Some e" "trusted e hd" by blast
      with rest on_head Inr have run: "w' = w1" "x = Some (ce_hash e)"
        by (auto simp: bnd_def catch_def ret_def)
      with e ix head \<open>d = w_tree w\<close> Inr have "hashes_to px w q (ce_hash e)"
        by (auto simp: hashes_to_def)
      with run old show ?thesis by auto
    next
      case False
      with rest on_head Inr have run: "bnd (digest px q) (\<lambda>hash. bnd date_now (\<lambda>now.
          seq (put_entry q hd hash now) (ret (Some hash)))) w1 = (Inr x, w')"
        by (auto simp: bnd_def catch_def ret_def split: option.splits)
      then obtain c where c: "file_at (w_tree w) q = Some c" and x: "x = Some (px_sha px c)"
        and w': "w' = w1\<lparr>w_index := Some (ix\<lparr>ix_entries := rset q \<lparr>ce_size = head_size hd, ce_mtime = head_modifiedAt hd,
            ce_hash = px_sha px c, ce_checkedAt = w_clock w1\<rparr> (ix_entries ix)\<rparr>), w_dirty := True\<rparr>"
        using tree index
        by (auto simp: bnd_Inr seq_Inr digest_def date_now_def gets_def ret_def put_entry_def set_index_def modify_def on_tree_def
            fs_readable_ok split: prod.splits)
      have "hashes_to px w p h" if "hashes_to px w' p h" for p h
      proof (cases "p = q \<and> h = px_sha px c")
        case True
        with c show ?thesis by (auto simp: hashes_to_def)
      next
        case False
        with that w' index have "hashes_to px w1 p h"
          by (auto simp: hashes_to_def load_index_def split: if_splits)
        with old show ?thesis by blast
      qed
      with c x show ?thesis by (auto simp: hashes_to_def)
    qed
  qed
qed

lemma conflict_slot_taken:
  assumes "conflict_slot_from px f fuel n w = (Inr (Taken q), w')"
  shows "hashes_to px w q (sf_hash f)"
  using assms
proof (induction fuel arbitrary: n w)
  case (Suc fuel)
  let ?q = "conflict_name f (conflict_suffix n)"
  from Suc.prems obtain h w1 where one: "hash_of px ?q w = (Inr h, w1)"
    and rest: "(case h of None \<Rightarrow> ret (Free ?q)
      | Some h \<Rightarrow> if h = sf_hash f then ret (Taken ?q) else conflict_slot_from px f fuel (Suc n)) w1 = (Inr (Taken q), w')"
    by (auto simp: Let_def bnd_Inr)
  show ?case
  proof (cases "h = Some (sf_hash f)")
    case True
    with rest hash_of_hashes [OF one] show ?thesis by (auto simp: ret_def)
  next
    case False
    with rest have "conflict_slot_from px f fuel (Suc n) w1 = (Inr (Taken q), w')"
      by (auto simp: ret_def split: option.splits if_splits)
    from Suc.IH [OF this] hash_of_hashes [OF one] show ?thesis by blast
  qed
qed (simp add: throw_def)

text \<open>
  A conflict copy: the file the merge reports holds the remote's version, or is one the checkout
  index finds to be that version.
\<close>

lemma conflict_file_content:
  assumes "write_conflict_file px f w = (Inr q, w')"
  shows "file_at (w_tree w') q = content_in (w_store w) f \<and> content_in (w_store w) f \<noteq> None
     \<or> w_tree w' = w_tree w \<and> hashes_to px w q (sf_hash f)"
proof -
  from assms obtain slot w1 where slot: "conflict_slot_from px f (conflict_fuel w) 1 w = (Inr slot, w1)"
    and rest: "(case slot of Taken p \<Rightarrow> ret p
      | Free p \<Rightarrow> seq (pipe_file f p) (seq (record_hash p (sf_hash f)) (seq (add_change p) (ret p)))) w1 = (Inr q, w')"
    by (auto simp: write_conflict_file_def bnd_Inr gets_def)
  have same: "w_tree w1 = w_tree w"
    using slot by (rule tree_same [OF tree_conflict_slot])
  have "store_is (w_store w) w1"
    by (rule keepsD [OF store_conflict_slot _ slot]) (simp add: store_is_def)
  then have store: "w_store w1 = w_store w"
    by (simp add: store_is_def)
  show ?thesis
  proof (cases slot)
    case (Taken p)
    with rest conflict_slot_taken [OF slot [unfolded Taken]] same show ?thesis
      by (auto simp: ret_def)
  next
    case (Free p)
    with rest have run: "seq (pipe_file f p) (seq (record_hash p (sf_hash f)) (seq (add_change p) (ret p))) w1 = (Inr q, w')"
      by simp
    then have "q = p" by (auto simp: seq_Inr ret_def)
    moreover have "file_at (w_tree w') p = content_in (w_store w1) f \<and> content_in (w_store w1) f \<noteq> None"
      using run by (rule keeps_store_tail) (intro keeps_intros)
    ultimately show ?thesis
      by (simp add: store)
  qed
qed

lemma has_chunks_False: "has_chunks f w = (Inr False, w') \<Longrightarrow> content_in (w_store w) f = None"
proof -
  have "all_some (map (\<lambda>c. file_at (w_store w) (chunk_path (ck_hash c))) cs) = None"
    if "has_chunks_in cs w = (Inr False, v)" for cs v
    using that
  proof (induction cs)
    case (Cons c cs)
    obtain r d where "fs_exists (chunk_path (ck_hash c)) (w_store w) = (r, d)" by fastforce
    with reads_run [OF fs_queries_read(4) this] have r: "fs_exists (chunk_path (ck_hash c)) (w_store w) = (r, w_store w)" by simp
    show ?case
    proof (cases "r = Inr False")
      case True
      with r have "file_at (w_store w) (chunk_path (ck_hash c)) = None"
        by (auto simp: fs_exists_def on_path_cases file_at_def split: sum.splits)
      then show ?thesis by simp
    next
      case False
      with Cons.prems r have "has_chunks_in cs w = (Inr False, v)"
        by (auto simp: bnd_def on_store_def ret_def split: sum.splits)
      with Cons.IH show ?thesis
        by (cases "file_at (w_store w) (chunk_path (ck_hash c))") auto
    qed
  qed (simp add: ret_def)
  then show "has_chunks f w = (Inr False, w') \<Longrightarrow> content_in (w_store w) f = None"
    by (simp add: has_chunks_def content_in_def)
qed

lemma read_chunks_content:
  assumes "read_chunks (sf_chunks f) w = (Inr b, w')" shows "content_in (w_store w) f = Some b"
proof -
  have "\<exists>bs. all_some (map (\<lambda>c. file_at (w_store w) (chunk_path (ck_hash c))) cs) = Some bs \<and> b = out @ concat bs"
    if "fold_eff (\<lambda>c acc. bnd (on_store (\<lambda>_. fs_read (chunk_path (ck_hash c)))) (\<lambda>b. ret (acc @ b))) cs out w = (Inr b, v)" for cs out v
    using that
  proof (induction cs arbitrary: out)
    case (Cons c cs)
    then obtain x where "file_at (w_store w) (chunk_path (ck_hash c)) = Some x"
      and "fold_eff (\<lambda>c acc. bnd (on_store (\<lambda>_. fs_read (chunk_path (ck_hash c)))) (\<lambda>b. ret (acc @ b))) cs (out @ x) w = (Inr b, v)"
      by (auto simp: bnd_Inr on_store_def fs_read_ok ret_def split: prod.splits)
    with Cons.IH [of "out @ x"] show ?case by auto
  qed (simp add: ret_def)
  from this [of "sf_chunks f" "[]"] assms show ?thesis
    by (auto simp: read_chunks_def content_in_def)
qed

lemma base_content_ok:
  assumes "base_content base w = (Inr bb, w')"
  shows "bb = (case base of None \<Rightarrow> None | Some f \<Rightarrow> content_in (w_store w) f)"
proof (cases base)
  case None
  with assms show ?thesis by (simp add: base_content_def ret_def)
next
  case (Some f)
  with assms obtain there w1 where there: "has_chunks f w = (Inr there, w1)"
    and rest: "(if there then bnd (read_chunks (sf_chunks f)) (\<lambda>b. ret (Some b)) else ret None) w1 = (Inr bb, w')"
    by (auto simp: base_content_def bnd_Inr)
  have "w1 = w" by (rule reads_run [OF has_chunks_reads there])
  with Some there rest show ?thesis
    by (cases there) (auto simp: bnd_Inr ret_def dest: has_chunks_False read_chunks_content)
qed

end
