(* ===== verification/FileHistory.thy ===== *)
theory FileHistory
  imports RepoInv
begin

text \<open>
  The versions of one file along the snapshot chain: \<open>packages/sync/src/file-history.ts\<close>. The
  two things the class is given, what makes the repository ready and what fetches the chunks of an
  old version, are parameters of its operations.
\<close>

section \<open>Data\<close>

datatype history_query = ByIdentity string | ByPath string

record file_version =
  fv_id :: string
  fv_savedAt :: int
  fv_hash :: string
  fv_path :: string

record file_checkpoint =
  cp_path :: string
  cp_content :: bytes
  cp_identity :: "string option"
  cp_savedAt :: "int option"
  cp_source :: "string option"

definition valid_history_path :: "string \<Rightarrow> bool" where
  "valid_history_path p \<longleftrightarrow>
     (starts_with p ''vault/'' \<or> starts_with p ''storage/'') \<and> CHR 0x5C \<notin> set p
     \<and> list_all (\<lambda>part. part \<noteq> [] \<and> part \<noteq> ''.'' \<and> part \<noteq> ''..'') (split_on CHR ''/'' p)"

definition check_path :: "string \<Rightarrow> ('s, unit) eff" where
  "check_path p = (if \<not> valid_history_path p then throw (ValidationError ''Invalid history file path'') else ret ())"

section \<open>The chain\<close>

text \<open>
  The generator \<open>chain\<close>: the snapshots it yields and, when it ends in a failure, the error a
  consumer that reads that far sees.
\<close>

function chain_from :: "params \<Rightarrow> disk \<Rightarrow> string list \<Rightarrow> string option \<Rightarrow> snapshot list \<times> app_error option" where
  "chain_from px d seen current =
     (case current of
        None \<Rightarrow> ([], None)
      | Some h \<Rightarrow>
          if \<not> is_object_hash h \<or> h \<in> set seen then ([], Some (IllegalStateError ''Invalid snapshot ancestry''))
          else case load_snapshot d h of
              Inl e \<Rightarrow> ([], Some e)
            | Inr s \<Rightarrow>
                if sn_hash s \<noteq> h \<or> snapshot_hash (px_sha px) (sn_parent s) (sn_files s) \<noteq> h
                then ([], Some (IllegalStateError ''Snapshot integrity check failed''))
                else apfst (Cons s) (chain_from px d (h # seen) (sn_parent s)))"
  by pat_completeness auto
termination
proof (relation "measure (\<lambda>(px, d, seen, current). card ((set_option current \<union> stored_parents d) - set seen))")
  fix px :: params and d :: disk and seen :: "string list" and current :: "string option" and h s
  assume current: "current = Some h" and new: "\<not> (\<not> is_object_hash h \<or> h \<in> set seen)" and loaded: "load_snapshot d h = Inr s"
  have "(set_option (sn_parent s) \<union> stored_parents d) - set (h # seen) \<subset> (set_option current \<union> stored_parents d) - set seen"
    using load_snapshot_parent [OF loaded] current new by (auto split: option.splits)
  then show "((px, d, h # seen, sn_parent s), (px, d, seen, current))
      \<in> measure (\<lambda>(px, d, seen, current). card ((set_option current \<union> stored_parents d) - set seen))"
    by (simp add: psubset_card_mono finite_stored_parents)
qed simp

declare chain_from.simps [simp del]

definition history_chain :: "params \<Rightarrow> (world, snapshot list \<times> app_error option) eff" where
  "history_chain px = bnd (on_store (\<lambda>_. read_text head_path)) (\<lambda>h w. (Inr (chain_from px (w_store w) [] (Some h)), w))"

section \<open>Listing\<close>

definition find_entry :: "history_query \<Rightarrow> string list \<Rightarrow> snapshot \<Rightarrow> snap_file option" where
  "find_entry q paths s =
     (case find (\<lambda>e. case q of ByIdentity i \<Rightarrow> sf_identity e = Some i | ByPath p \<Rightarrow> sf_pathname e = p) (map snd (sn_files s)) of
        Some f \<Rightarrow> Some f
      | None \<Rightarrow> find (\<lambda>e. truthy (sf_identity e) = None \<and> sf_pathname e \<in> set paths) (map snd (sn_files s)))"

record listing =
  li_result :: "file_version list"
  li_paths :: "string list"
  li_previous :: "string option"

definition version_of :: "snapshot \<Rightarrow> snap_file \<Rightarrow> file_version" where
  "version_of s f = \<lparr>fv_id = sn_hash s, fv_savedAt = sn_timestamp s, fv_hash = sf_hash f, fv_path = sf_pathname f\<rparr>"

definition rename_last :: "snapshot \<Rightarrow> file_version list \<Rightarrow> file_version list" where
  "rename_last s vs = butlast vs @ [(last vs)\<lparr>fv_id := sn_hash s, fv_savedAt := sn_timestamp s\<rparr>]"

text \<open>One turn of the newest-first loop.\<close>

definition list_snapshot :: "history_query \<Rightarrow> listing \<Rightarrow> snapshot \<Rightarrow> listing" where
  "list_snapshot q l s =
     (case find_entry q (li_paths l) s of
        None \<Rightarrow> l\<lparr>li_previous := None\<rparr>
      | Some f \<Rightarrow>
          let l = l\<lparr>li_paths := sf_pathname f # li_paths l\<rparr>;
              key = sf_pathname f @ '':'' @ sf_hash f
          in if Some key = li_previous l
             then (if (case q of ByPath _ \<Rightarrow> True | ByIdentity i \<Rightarrow> sf_identity f = Some i)
                   then l\<lparr>li_result := rename_last s (li_result l)\<rparr> else l)
             else l\<lparr>li_previous := Some key, li_result := li_result l @ [version_of s f]\<rparr>)"

definition start_listing :: "history_query \<Rightarrow> listing" where
  "start_listing q = \<lparr>li_result = [], li_paths = (case q of ByPath p \<Rightarrow> [p] | ByIdentity _ \<Rightarrow> []), li_previous = None\<rparr>"

definition versions_along :: "history_query \<Rightarrow> snapshot list \<Rightarrow> file_version list" where
  "versions_along q ss = li_result (foldl (list_snapshot q) (start_listing q) ss)"

definition versions :: "params \<Rightarrow> history_query \<Rightarrow> (world, file_version list) eff" where
  "versions px q =
     bnd (history_chain px) (\<lambda>(ss, failure).
       case failure of Some e \<Rightarrow> throw e | None \<Rightarrow> ret (versions_along q ss))"

definition list_history :: "params \<Rightarrow> (world, unit) eff \<Rightarrow> history_query \<Rightarrow> (world, file_version list) eff" where
  "list_history px ready q = seq ready (versions px q)"

section \<open>Reading a version\<close>

definition belongs :: "history_query \<Rightarrow> file_version \<Rightarrow> snapshot \<Rightarrow> bool" where
  "belongs q v s \<longleftrightarrow>
     (case rget (sn_files s) (fv_path v) of
        None \<Rightarrow> False
      | Some f \<Rightarrow> sf_hash f = fv_hash v \<and>
          (case q of ByIdentity i \<Rightarrow> sf_identity f = Some i | ByPath p \<Rightarrow> fv_path v = p))"

definition not_its_version :: app_error where
  "not_its_version = ValidationError ''This version does not belong to the requested file''"

definition load_version :: "history_query \<Rightarrow> file_version \<Rightarrow> (world, snapshot) eff" where
  "load_version q v =
     bnd (catch (on_store (\<lambda>_. read_json None (snapshot_path (fv_id v)))) (\<lambda>_. throw not_its_version)) (\<lambda>j.
     bnd (or_type_error (snapshot_of_json j)) (\<lambda>s.
       if \<not> belongs q v s then throw not_its_version else ret s))"

text \<open>The first chunk that is not here sends for the whole file.\<close>

fun fetch_missing :: "(world, unit) eff option \<Rightarrow> chunk_ref list \<Rightarrow> (world, unit) eff" where
  "fetch_missing fetch [] = ret ()"
| "fetch_missing fetch (c # cs) =
     (if \<not> is_object_hash (ck_hash c) then throw (IllegalStateError ''Invalid history chunk address'')
      else bnd (on_store (\<lambda>_. fs_exists (chunk_path (ck_hash c)))) (\<lambda>there.
        if there then fetch_missing fetch cs
        else case fetch of
            None \<Rightarrow> throw (IllegalStateError ''Version content is unavailable offline. Connect to the sync server and retry.'')
          | Some m \<Rightarrow> m))"

definition read_checked :: "params \<Rightarrow> chunk_ref \<Rightarrow> bytes list \<Rightarrow> (world, bytes list) eff" where
  "read_checked px c out =
     bnd (on_store (\<lambda>_. fs_read (chunk_path (ck_hash c)))) (\<lambda>b.
       if px_sha px b \<noteq> ck_hash c then throw (IllegalStateError ''History chunk integrity check failed'')
       else ret (out @ [b]))"

definition read_version ::
    "params \<Rightarrow> (world, unit) eff \<Rightarrow> (snapshot \<Rightarrow> string \<Rightarrow> (world, unit) eff) option \<Rightarrow> history_query \<Rightarrow> file_version \<Rightarrow>
     (world, bytes) eff" where
  "read_version px ready fetch_file q v =
     seq ready
    (bnd (load_version q v) (\<lambda>s.
     bnd (or_type_error (rget (sn_files s) (fv_path v))) (\<lambda>f.
     seq (fetch_missing (map_option (\<lambda>g. g s (fv_path v)) fetch_file) (sf_chunks f))
    (bnd (fold_eff (read_checked px) (sf_chunks f) []) (\<lambda>chunks.
       if px_sha px (concat chunks) \<noteq> sf_hash f then throw (IllegalStateError ''History file integrity check failed'')
       else ret (concat chunks))))))"

section \<open>Recording a version\<close>

definition imported_entry :: "string \<Rightarrow> snapshot \<Rightarrow> snap_file option" where
  "imported_entry src s = find (\<lambda>e. sf_historySource e = Some src) (map snd (sn_files s))"

text \<open>The entry an earlier import of the same source left, if any; the walk stops there.\<close>

definition find_imported :: "params \<Rightarrow> string \<Rightarrow> (world, snap_file option) eff" where
  "find_imported px src =
     bnd (history_chain px) (\<lambda>(ss, failure).
       case find (\<lambda>s. imported_entry src s \<noteq> None) ss of
         Some s \<Rightarrow> ret (imported_entry src s)
       | None \<Rightarrow> (case failure of Some e \<Rightarrow> throw e | None \<Rightarrow> ret None))"

text \<open>A chunk is written again when the one in the store is not what its name says.\<close>

definition repair_chunk :: "params \<Rightarrow> bytes \<Rightarrow> chunk_ref list \<Rightarrow> (world, chunk_ref list) eff" where
  "repair_chunk px b out =
     (let h = px_sha px b
      in bnd (on_store (\<lambda>_. fs_exists (chunk_path h))) (\<lambda>there.
         bnd (if there then bnd (on_store (\<lambda>_. fs_read (chunk_path h))) (\<lambda>c. ret (px_sha px c = h)) else ret False) (\<lambda>good.
         seq (when_do (\<not> good) (on_store (\<lambda>t. fs_write t (chunk_path h) b)))
           (ret (out @ [\<lparr>ck_hash = h, ck_size = Some (int (length b))\<rparr>])))))"

definition without_identity :: "string option \<Rightarrow> string \<Rightarrow> snap_file rec \<Rightarrow> snap_file rec" where
  "without_identity identity p files =
     (case truthy identity of
        None \<Rightarrow> files
      | Some i \<Rightarrow> filter (\<lambda>(path, f). \<not> (sf_identity f = Some i \<and> path \<noteq> p)) files)"

definition checkpoint_entry :: "file_checkpoint \<Rightarrow> string \<Rightarrow> chunk_ref list \<Rightarrow> string \<Rightarrow> snap_file" where
  "checkpoint_entry cp hash chunks file_id =
     \<lparr>sf_fileId = Some file_id, sf_identity = truthy (cp_identity cp), sf_historySource = truthy (cp_source cp), sf_hash = hash,
      sf_size = Some (int (length (cp_content cp))), sf_pathname = cp_path cp, sf_chunks = chunks\<rparr>"

definition checkpoint_snapshot :: "params \<Rightarrow> file_checkpoint \<Rightarrow> string \<Rightarrow> chunk_ref list \<Rightarrow> snapshot \<Rightarrow> (world, snapshot) eff" where
  "checkpoint_snapshot px cp hash chunks head =
     bnd (case Option.bind (rget (sn_files head) (cp_path cp)) sf_fileId of Some i \<Rightarrow> ret i | None \<Rightarrow> random_uuid px) (\<lambda>i.
     bnd date_now (\<lambda>now.
       let files = rset (cp_path cp) (checkpoint_entry cp hash chunks i) (without_identity (cp_identity cp) (cp_path cp) (sn_files head))
       in ret \<lparr>sn_hash = snapshot_hash (px_sha px) (Some (sn_hash head)) files, sn_parent = Some (sn_hash head),
               sn_timestamp = (case cp_savedAt cp of Some t \<Rightarrow> t | None \<Rightarrow> now), sn_files = files\<rparr>))"

definition already_recorded :: "file_checkpoint \<Rightarrow> string \<Rightarrow> snapshot \<Rightarrow> bool" where
  "already_recorded cp hash head \<longleftrightarrow>
     truthy (cp_source cp) = None \<and>
     (case rget (sn_files head) (cp_path cp) of
        None \<Rightarrow> False
      | Some f \<Rightarrow> sf_hash f = hash \<and> sf_identity f = cp_identity cp)"

text \<open>The retry loop; the number is how many more attempts the bound allows.\<close>

fun link_checkpoint :: "params \<Rightarrow> file_checkpoint \<Rightarrow> string \<Rightarrow> chunk_ref list \<Rightarrow> nat \<Rightarrow> (world, unit) eff" where
  "link_checkpoint px cp hash chunks n =
     bnd get_head_snapshot (\<lambda>head.
       if already_recorded cp hash head then ret ()
       else bnd (checkpoint_snapshot px cp hash chunks head) (\<lambda>s.
            seq (write_snapshot s)
           (bnd (advance_head (Some (sn_hash head)) (sn_hash s)) (\<lambda>moved.
              if moved then ret ()
              else case n of 0 \<Rightarrow> throw RepoHeadMovedError | Suc m \<Rightarrow> link_checkpoint px cp hash chunks m))))"

declare link_checkpoint.simps [simp del]

definition record_checkpoint :: "params \<Rightarrow> file_checkpoint \<Rightarrow> (world, unit) eff" where
  "record_checkpoint px cp =
     (let hash = px_sha px (cp_content cp)
      in bnd (case truthy (cp_source cp) of None \<Rightarrow> ret None | Some src \<Rightarrow> find_imported px src) (\<lambda>imported.
         if (case imported of Some f \<Rightarrow> sf_hash f \<noteq> hash | None \<Rightarrow> False)
         then throw (IllegalStateError ''Imported history source has changed'')
         else bnd (chunks_of px [cp_content cp]) (\<lambda>bs.
              bnd (fold_eff (repair_chunk px) bs []) (\<lambda>chunks.
                case imported of
                  Some f \<Rightarrow>
                    if join '','' (map ck_hash (sf_chunks f)) \<noteq> join '','' (map ck_hash chunks)
                    then throw (IllegalStateError ''Imported history chunks differ; originals have been retained'')
                    else ret ()
                | None \<Rightarrow> link_checkpoint px cp hash chunks (max_head_retries - 1)))))"

definition record_history :: "params \<Rightarrow> (world, unit) eff \<Rightarrow> file_checkpoint \<Rightarrow> (world, unit) eff" where
  "record_history px ready cp = seq (check_path (cp_path cp)) (seq ready (record_checkpoint px cp))"

definition save_history ::
    "params \<Rightarrow> (world, unit) eff \<Rightarrow> file_checkpoint \<Rightarrow> file_checkpoint \<Rightarrow> (world, unit) eff \<Rightarrow> (world, unit) eff" where
  "save_history px ready before after write_it =
     seq (check_path (cp_path before))
    (seq (check_path (cp_path after))
    (seq ready
    (seq (record_checkpoint px before) (seq write_it (record_checkpoint px after)))))"

end
