(* ===== verification/Layout.thy ===== *)
theory Layout
  imports RepoInv
begin

text \<open>
  A repository store in which only the repository's own code has written: files stand where
  \<open>Repo\<close> puts them and everything else is a folder. On such a store no operation of the
  repository fails for a reason of the file system.
\<close>

section \<open>The layout\<close>

definition repo_key :: "string list \<Rightarrow> bool" where
  "repo_key ks \<longleftrightarrow>
     ks \<in> {[''repo'', ''head''], [''repo'', ''changes''], [''repo'', ''index''], [''repo'', ''last-synced'']} \<or>
     (\<exists>h. is_object_hash h \<and> (ks = [''repo'', ''snapshots'', h] \<or> ks = [''repo'', ''chunks'', take 2 h, take 2 (drop 2 h), h]))"

definition laid_out :: "disk \<Rightarrow> bool" where
  "laid_out d \<longleftrightarrow> rooted d \<and> (\<forall>ks n. map_of (nodes d) ks = Some n \<longrightarrow> (is_file (Some n) \<longleftrightarrow> repo_key ks))"

text \<open>A path of the repository.\<close>

definition repo_path :: "string \<Rightarrow> bool" where
  "repo_path p \<longleftrightarrow> (\<forall>d. rooted d \<longrightarrow> (\<exists>ks. to_os_path d p = Inr ks \<and> repo_key ks))"

lemma repo_paths:
  "repo_path head_path" "repo_path changes_path" "repo_path index_path" "repo_path last_synced_path"
  "is_object_hash h \<Longrightarrow> repo_path (snapshot_path h)" "is_object_hash h \<Longrightarrow> repo_path (chunk_path h)"
  by (auto simp: repo_path_def repo_key_def os_fixed os_snapshot os_chunk)

lemma repo_key_Nil: "repo_key ks \<Longrightarrow> ks \<noteq> []"
  by (auto simp: repo_key_def)

lemma short_ancestors:
  "ancestors [a, b] = [[a]]" "ancestors [a, b, c] = [[a], [a, b]]"
  "ancestors [a, b, c, e, f] = [[a], [a, b], [a, b, c], [a, b, c, e]]"
  by (simp_all add: ancestors_def upt_conv_Cons)

lemma repo_key_ancestor: "repo_key ks \<Longrightarrow> a \<in> set (ancestors ks) \<Longrightarrow> \<not> repo_key a"
  unfolding repo_key_def by (elim disjE exE conjE insertE emptyE) (auto simp: short_ancestors)

lemma laid_dirs:
  assumes d: "laid_out d" and k: "repo_key ks"
  obtains ns where "make_dirs t (ancestors ks) (nodes d) = Inr ns" "\<not> is_dir (map_of ns ks)"
    "\<And>q n. map_of ns q = Some n \<Longrightarrow> is_file (Some n) \<longleftrightarrow> repo_key q"
proof -
  have "\<not> is_file (map_of (nodes d) a)" if "a \<in> set (ancestors ks)" for a
    using d repo_key_ancestor [OF k that] by (cases "map_of (nodes d) a") (auto simp: laid_out_def is_file_def)
  then obtain ns where ns: "make_dirs t (ancestors ks) (nodes d) = Inr ns"
    using make_dirs_fail [of t "ancestors ks" "nodes d"] by (cases "make_dirs t (ancestors ks) (nodes d)") auto
  have files: "is_file (Some n) \<longleftrightarrow> repo_key q" if "map_of ns q = Some n" for q n
    using that make_dirs_lookup [OF ns, of q] d repo_key_ancestor [OF k, of q]
    by (auto simp: laid_out_def is_file_def split: option.splits if_splits)
  have "\<not> is_dir (map_of ns ks)"
  proof
    assume "is_dir (map_of ns ks)"
    then obtain m where "map_of ns ks = Some (Dir m)" by (auto simp: is_dir_def split: option.splits node.splits)
    from files [OF this] k show False by (simp add: is_file_def)
  qed
  with ns files show ?thesis using that by blast
qed

lemma laid_update:
  assumes "rooted d" and "repo_key ks" and "\<And>q n. map_of ns q = Some n \<Longrightarrow> is_file (Some n) \<longleftrightarrow> repo_key q"
  shows "laid_out (d\<lparr>nodes := AList.update ks (File b m c) ns\<rparr>)"
  using assms by (auto simp: laid_out_def is_file_def update_conv' rooted_def)

lemma laid_replace:
  assumes d: "laid_out d" and k: "repo_key ks"
  shows "\<exists>d'. replace_file t ks b d = (Inr (), d') \<and> laid_out d'"
proof -
  obtain ns where ns: "make_dirs t (ancestors ks) (nodes d) = Inr ns" "\<not> is_dir (map_of ns ks)"
    "\<And>q n. map_of ns q = Some n \<Longrightarrow> is_file (Some n) \<longleftrightarrow> repo_key q"
    using laid_dirs [OF d k] by blast
  with d k repo_key_Nil [OF k] show ?thesis
    using laid_update [of d ks ns] by (simp add: replace_file_def laid_out_def)
qed

section \<open>Every access succeeds\<close>

lemma laid_write:
  assumes d: "laid_out d" and p: "repo_path p"
  shows "\<exists>d'. fs_write t p b d = (Inr (), d') \<and> laid_out d'"
proof -
  obtain ks where ks: "to_os_path d p = Inr ks" "repo_key ks"
    using d p by (auto simp: laid_out_def repo_path_def)
  with laid_replace [OF d ks(2)] show ?thesis by (simp add: fs_write_def on_path_cases)
qed

lemma laid_stat:
  assumes d: "laid_out d" and p: "repo_path p"
  shows "\<exists>ks. to_os_path d p = Inr ks \<and> repo_key ks \<and>
    (case file_at d p of Some b \<Rightarrow> (\<exists>m c. os_stat d ks = Inr (File b m c)) | None \<Rightarrow> os_stat d ks = Inl ENOENT)"
proof -
  obtain ks where ks: "to_os_path d p = Inr ks" "repo_key ks"
    using d p by (auto simp: laid_out_def repo_path_def)
  have nofile: "\<not> is_file (map_of (nodes d) a)" if "a \<in> set (ancestors ks)" for a
    using d repo_key_ancestor [OF ks(2) that] by (cases "map_of (nodes d) a") (auto simp: laid_out_def is_file_def)
  have "is_file (Some n)" if "map_of (nodes d) ks = Some n" for n
    using d ks(2) that by (auto simp: laid_out_def)
  then show ?thesis
    using ks repo_key_Nil [OF ks(2)] nofile
    by (cases "map_of (nodes d) ks")
      (auto simp: file_at_key os_stat_def list_ex_iff is_file_def split: node.splits)
qed

lemma laid_exists:
  assumes "laid_out d" and "repo_path p"
  shows "fs_exists p d = (Inr (file_at d p \<noteq> None), d)"
  using laid_stat [OF assms] by (cases "file_at d p") (auto simp: fs_exists_def on_path_cases)

lemma laid_cas:
  assumes d: "laid_out d" and p: "repo_path p"
  shows "\<exists>d'. fs_cas t p expected next d = (Inr (file_at d p = expected), d') \<and> laid_out d'"
proof -
  obtain ks where ks: "to_os_path d p = Inr ks" "repo_key ks" and
      stat: "case file_at d p of Some b \<Rightarrow> (\<exists>m c. os_stat d ks = Inr (File b m c)) | None \<Rightarrow> os_stat d ks = Inl ENOENT"
    using laid_stat [OF d p] by blast
  have replace: "\<exists>d'. bnd (replace_file t ks next) (\<lambda>_. ret True) d = (Inr True, d') \<and> laid_out d'"
    using laid_replace [OF d ks(2), of t "next"] by (auto simp: bnd_def ret_def)
  show ?thesis
    using stat replace d ks by (cases "file_at d p") (auto simp: fs_cas_def on_path_cases Let_def)
qed

lemma store_read: "on_store (\<lambda>_. fs_read p) w = (Inr b, w') \<longleftrightarrow> w' = w \<and> file_at (w_store w) p = Some b"
proof -
  obtain r d where run: "fs_read p (w_store w) = (r, d)" by fastforce
  have "r = Inr b \<and> d = w_store w \<longleftrightarrow> file_at (w_store w) p = Some b" for b
    using fs_read_ok [of p "w_store w" b "w_store w"] fs_read_ok [of p "w_store w" b d] run by auto
  moreover have "d = w_store w" using fs_queries_read(2) [of p] run by (metis reads_def snd_conv)
  ultimately show ?thesis by (auto simp: on_store_def run)
qed

lemma store_write:
  assumes "laid_out (w_store w)" and "repo_path p"
  shows "\<exists>d. on_store (\<lambda>t. fs_write t p b) w = (Inr (), w\<lparr>w_store := d\<rparr>) \<and> laid_out d \<and> root_dir d = root_dir (w_store w)
    \<and> (\<forall>q. file_at d q = (if to_os_path (w_store w) q = to_os_path (w_store w) p then Some b else file_at (w_store w) q))"
proof -
  obtain d where "fs_write (w_clock w) p b (w_store w) = (Inr (), d)" "laid_out d" using laid_write [OF assms] by blast
  with fs_write_ok [OF this(1)] show ?thesis
    by (intro exI [of _ d]) (simp add: on_store_def)
qed

lemma store_exists:
  "laid_out (w_store w) \<Longrightarrow> repo_path p \<Longrightarrow> on_store (\<lambda>_. fs_exists p) w = (Inr (file_at (w_store w) p \<noteq> None), w)"
  by (simp add: on_store_def laid_exists)

section \<open>Small repositories to try things on\<close>

definition demo_px :: params where
  "demo_px = \<lparr>px_sha = (\<lambda>b. replicate 64 (if length b mod 2 = 0 then CHR ''a'' else CHR ''b'')), px_cut = (\<lambda>b _. [length b]),
     px_pieces = (\<lambda>b. [b]), px_uuid = (\<lambda>_. ''u''), px_policy = (\<lambda>_. True), px_merger = None\<rparr>"

definition new_world :: world where
  "new_world = \<lparr>w_tree = \<lparr>root_dir = [''vault''], nodes = []\<rparr>, w_store = \<lparr>root_dir = [''state''], nodes = []\<rparr>, w_clock = 0,
     w_uuids = 0, w_index = None, w_dirty = False, w_rivals = []\<rparr>"

lemma demo_px_hex: "hex_digests demo_px"
  by (simp add: hex_digests_def demo_px_def is_object_hash_def is_lower_hex_def list_all_iff)

lemma new_store_empty: "file_at (w_store new_world) p = None"
  by (auto simp: file_at_def os_stat_def new_world_def split: sum.split)

lemma new_world_ok: "repo_has {} new_world"
  using new_store_empty by (auto simp: repo_has_def store_has_def store_ok_def head_ok_def rooted_def proper_def new_world_def)

text \<open>A store that holds the root snapshot and a head that names it.\<close>

definition root_hash :: string where
  "root_hash = replicate 64 CHR ''b''"

definition root_snapshot :: snapshot where
  "root_snapshot = \<lparr>sn_hash = root_hash, sn_parent = None, sn_timestamp = 0, sn_files = []\<rparr>"

definition rooted_world :: world where
  "rooted_world = new_world\<lparr>w_store := \<lparr>root_dir = [''state''], nodes =
     [([''repo'', ''head''], File (utf8_encode root_hash) 0 0),
      ([''repo'', ''snapshots'', root_hash], File (utf8_encode (stringify_indented (json_of_snapshot root_snapshot))) 0 0)]\<rparr>\<rparr>"

lemma root_hash_ok: "is_object_hash root_hash"
  by (simp add: root_hash_def is_object_hash_def is_lower_hex_def list_all_iff)

lemma rooted_world_store: "rooted (w_store rooted_world)"
  by (simp add: rooted_world_def rooted_def proper_def)

lemma rooted_world_laid_out: "laid_out (w_store rooted_world)"
proof -
  have "repo_key [''repo'', ''head'']" "repo_key [''repo'', ''snapshots'', root_hash]"
    using root_hash_ok by (auto simp: repo_key_def)
  then show ?thesis
    using rooted_world_store by (auto simp: laid_out_def rooted_world_def is_file_def split: if_splits)
qed

lemma rooted_world_head: "file_at (w_store rooted_world) head_path = Some (utf8_encode (sn_hash root_snapshot))"
  using os_fixed(1) [OF rooted_world_store] by (simp add: file_at_key) (simp add: rooted_world_def root_snapshot_def)

lemma rooted_world_root: "load_snapshot (w_store rooted_world) (sn_hash root_snapshot) = Inr root_snapshot"
proof -
  have "file_at (w_store rooted_world) (snapshot_path root_hash)
      = Some (utf8_encode (stringify_indented (json_of_snapshot root_snapshot)))"
    using os_snapshot [OF rooted_world_store root_hash_ok] by (simp add: file_at_key) (simp add: rooted_world_def)
  moreover have "snapshot_of_json (json_of_snapshot root_snapshot) = Some root_snapshot"
    by (rule snapshot_json) (simp add: root_snapshot_def)
  ultimately show ?thesis
    by (auto simp: load_snapshot_Inr) (simp add: root_snapshot_def)
qed

lemma rooted_world_chunks: "is_object_hash h \<Longrightarrow> file_at (w_store rooted_world) (chunk_path h) = None"
  using os_chunk [OF rooted_world_store] by (simp add: file_at_key) (simp add: rooted_world_def)

lemma demo_px_cuts: "cuts_progress (px_cut demo_px)"
  by (simp add: cuts_progress_def demo_px_def)

end
