(* ===== verification/HistoryProps.thy ===== *)
theory HistoryProps
  imports FileHistory Layout
begin

text \<open>
  What the file history guarantees: recording keeps the repository's invariant, a listed version is
  one that can be read back, and what is read is what was saved.
\<close>

section \<open>Recording keeps the invariant\<close>

lemma keeps_check_path [keeps_intros]: "keeps I (check_path p)"
  unfolding check_path_def by (intro keeps_intros)

lemma keeps_history_chain [keeps_intros]: "keeps (repo_has H) (history_chain px)"
  unfolding history_chain_def by (intro keeps_bnd keeps_on_store keeps_disk_reads) (simp add: keeps_def)

lemma keeps_find_imported [keeps_intros]: "keeps (repo_has H) (find_imported px src)"
  unfolding find_imported_def by (intro keeps_intros)

lemma keeps_repair_chunk [keeps_intros]: "hex_digests px \<Longrightarrow> keeps (repo_has H) (repair_chunk px b out)"
  unfolding repair_chunk_def Let_def by (intro keeps_intros aside_paths) (simp add: hex_digests_def)

lemma checkpoint_snapshot_address:
  "checkpoint_snapshot px cp hash chunks head w = (Inr s, w') \<Longrightarrow>
     sn_hash s = snapshot_hash (px_sha px) (sn_parent s) (sn_files s)"
  by (auto simp: checkpoint_snapshot_def Let_def bnd_Inr ret_def)

lemma keeps_checkpoint_snapshot [keeps_intros]: "keeps (repo_has H) (checkpoint_snapshot px cp hash chunks head)"
  unfolding checkpoint_snapshot_def Let_def date_now_def by (intro keeps_intros)

lemma keeps_checkpoint_commit:
  assumes "hex_digests px" and "\<And>s. is_object_hash (sn_hash s) \<Longrightarrow> keeps (repo_has H) (f s)"
  shows "keeps (repo_has H) (bnd (checkpoint_snapshot px cp hash chunks head) f)"
  by (rule keeps_bnd_result [where P = "\<lambda>s. is_object_hash (sn_hash s)"])
    (auto intro!: keeps_intros assms simp: checkpoint_snapshot_address hex_address [OF assms(1)])

lemma keeps_link_checkpoint [keeps_intros]: "hex_digests px \<Longrightarrow> keeps (repo_has H) (link_checkpoint px cp hash chunks n)"
proof (induction n)
  case 0
  then show ?case
    by (subst link_checkpoint.simps) (intro keeps_intros keeps_checkpoint_commit; simp add: keeps_intros)
next
  case (Suc n)
  then show ?case
    by (subst link_checkpoint.simps) (intro keeps_intros keeps_checkpoint_commit; simp add: keeps_intros)
qed

lemma keeps_record_checkpoint [keeps_intros]: "hex_digests px \<Longrightarrow> keeps (repo_has H) (record_checkpoint px cp)"
  unfolding record_checkpoint_def Let_def by (intro keeps_intros)

lemma keeps_record_history: "hex_digests px \<Longrightarrow> keeps (repo_has H) ready \<Longrightarrow> keeps (repo_has H) (record_history px ready cp)"
  unfolding record_history_def by (intro keeps_intros)

lemma keeps_save_history:
  "hex_digests px \<Longrightarrow> keeps (repo_has H) ready \<Longrightarrow> keeps (repo_has H) write_it \<Longrightarrow>
     keeps (repo_has H) (save_history px ready before after write_it)"
  unfolding save_history_def by (intro keeps_intros)

section \<open>What is listed\<close>

text \<open>A manifest as the code writes it: an entry is filed under its own path, and its hash is no path.\<close>

definition keyed :: "snapshot \<Rightarrow> bool" where
  "keyed s \<longleftrightarrow> distinct (rkeys (sn_files s)) \<and> (\<forall>(p, f) \<in> set (sn_files s). sf_pathname f = p \<and> CHR '':'' \<notin> set (sf_hash f))"

text \<open>When a version of a path was saved: at a snapshot that has the file with a content the next older one has not.\<close>

fun saved_in :: "string \<Rightarrow> snapshot list \<Rightarrow> file_version list" where
  "saved_in p [] = []"
| "saved_in p (s # older) =
     (case rget (sn_files s) p of
        None \<Rightarrow> saved_in p older
      | Some f \<Rightarrow>
          if older \<noteq> [] \<and> map_option sf_hash (rget (sn_files (hd older)) p) = Some (sf_hash f) then saved_in p older
          else version_of s f # saved_in p older)"

lemma find_keyed: "(\<And>k f. (k, f) \<in> set fs \<Longrightarrow> sf_pathname f = k) \<Longrightarrow> find (\<lambda>e. sf_pathname e = p) (map snd fs) = map_of fs p"
  by (induction fs) auto

lemma keyed_path: "keyed s \<Longrightarrow> (k, f) \<in> set (sn_files s) \<Longrightarrow> sf_pathname f = k"
  by (auto simp: keyed_def)

lemma find_entry_path:
  assumes s: "keyed s" and paths: "set paths \<subseteq> {p}"
  shows "find_entry (ByPath p) paths s = rget (sn_files s) p"
proof -
  have path: "find (\<lambda>e. sf_pathname e = p) (map snd (sn_files s)) = rget (sn_files s) p"
    using keyed_path [OF s] by (rule find_keyed)
  have "\<not> (truthy (sf_identity e) = None \<and> sf_pathname e \<in> set paths)"
    if "rget (sn_files s) p = None" and e: "e \<in> set (map snd (sn_files s))" for e
  proof -
    obtain k where k: "(k, e) \<in> set (sn_files s)" using e by auto
    then have "k \<noteq> p" using \<open>rget (sn_files s) p = None\<close> by (metis map_of_eq_None_iff fst_conv image_eqI list.set_map)
    with keyed_path [OF s k] paths show ?thesis by auto
  qed
  then have "rget (sn_files s) p = None \<Longrightarrow>
      find (\<lambda>e. truthy (sf_identity e) = None \<and> sf_pathname e \<in> set paths) (map snd (sn_files s)) = None"
    unfolding find_None_iff by blast
  with path show ?thesis
    by (cases "rget (sn_files s) p") (simp_all add: find_entry_def)
qed

lemma keyed_entry: "keyed s \<Longrightarrow> rget (sn_files s) p = Some f \<Longrightarrow> sf_pathname f = p"
  by (auto simp: keyed_def dest: map_of_SomeD)

text \<open>The state of the loop at a path query: what the last version stands for.\<close>

definition listing_ok :: "string \<Rightarrow> listing \<Rightarrow> bool" where
  "listing_ok p l \<longleftrightarrow> set (li_paths l) \<subseteq> {p} \<and>
     (case li_previous l of None \<Rightarrow> True
      | Some k \<Rightarrow> li_result l \<noteq> [] \<and> fv_path (last (li_result l)) = p \<and> k = p @ '':'' @ fv_hash (last (li_result l)))"

definition continues :: "string \<Rightarrow> listing \<Rightarrow> snapshot list \<Rightarrow> bool" where
  "continues p l ss \<longleftrightarrow> ss \<noteq> [] \<and> li_previous l \<noteq> None \<and>
     map_option (\<lambda>f. p @ '':'' @ sf_hash f) (rget (sn_files (hd ss)) p) = li_previous l"

lemma list_path_step:
  assumes "keyed s" and "listing_ok p l" and f: "rget (sn_files s) p = Some f"
  shows "list_snapshot (ByPath p) l s =
      \<lparr>li_result = (if continues p l [s] then butlast (li_result l) else li_result l) @ [version_of s f],
       li_paths = p # li_paths l, li_previous = Some (p @ '':'' @ sf_hash f)\<rparr>"
    (is "?step = ?new")
proof -
  have find: "find_entry (ByPath p) (li_paths l) s = Some f"
    using assms find_entry_path by (simp add: listing_ok_def)
  have path: "sf_pathname f = p" using assms keyed_entry by blast
  show ?thesis
  proof (cases "Some (p @ '':'' @ sf_hash f) = li_previous l")
    case True
    with assms have "fv_path (last (li_result l)) = p" "fv_hash (last (li_result l)) = sf_hash f"
      by (auto simp: listing_ok_def split: option.splits)
    then have "(last (li_result l))\<lparr>fv_id := sn_hash s, fv_savedAt := sn_timestamp s\<rparr> = version_of s f"
      by (cases "last (li_result l)") (simp add: version_of_def path)
    moreover have "continues p l [s]" using True [symmetric] f by (simp add: continues_def)
    ultimately show ?thesis
      using True by (simp add: list_snapshot_def find path Let_def rename_last_def)
  next
    case False
    then have "\<not> continues p l [s]" using f by (auto simp: continues_def)
    with False show ?thesis
      by (simp add: list_snapshot_def find path Let_def)
  qed
qed

lemma listing_runs:
  assumes "list_all keyed ss" and "listing_ok p l"
  shows "li_result (foldl (list_snapshot (ByPath p)) l ss)
    = (if continues p l ss then butlast (li_result l) else li_result l) @ saved_in p ss"
  using assms
proof (induction ss arbitrary: l)
  case Nil
  then show ?case by (simp add: continues_def)
next
  case (Cons s ss)
  show ?case
  proof (cases "rget (sn_files s) p")
    case None
    with Cons.prems have "list_snapshot (ByPath p) l s = l\<lparr>li_previous := None\<rparr>"
      by (simp add: list_snapshot_def find_entry_path listing_ok_def)
    moreover have "listing_ok p (l\<lparr>li_previous := None\<rparr>)" using Cons.prems by (simp add: listing_ok_def)
    ultimately show ?thesis
      using Cons.IH [of "l\<lparr>li_previous := None\<rparr>"] Cons.prems None by (auto simp: continues_def)
  next
    case (Some f)
    let ?l = "list_snapshot (ByPath p) l s"
    from Cons.prems Some have new: "?l = \<lparr>li_result = (if continues p l [s] then butlast (li_result l) else li_result l) @ [version_of s f],
       li_paths = p # li_paths l, li_previous = Some (p @ '':'' @ sf_hash f)\<rparr>"
      by (intro list_path_step) simp_all
    have "sf_pathname f = p" using Cons.prems Some keyed_entry by simp blast
    then have ok: "listing_ok p ?l"
      using Cons.prems by (simp add: new listing_ok_def version_of_def)
    have same: "continues p l (s # ss) = continues p l [s]" by (simp add: continues_def)
    show ?thesis
      using Cons.IH [OF _ ok] Cons.prems(1) Some unfolding same
      by (simp add: new) (auto simp: continues_def split: option.splits)
  qed
qed

text \<open>The version a query lists, and the snapshot it names.\<close>

definition lists :: "history_query \<Rightarrow> file_version \<Rightarrow> snapshot \<Rightarrow> bool" where
  "lists q v s \<longleftrightarrow> fv_id v = sn_hash s \<and>
     (\<exists>f. rget (sn_files s) (fv_path v) = Some f \<and> sf_hash f = fv_hash v \<and>
        (belongs q v s \<or> (case q of ByIdentity _ \<Rightarrow> truthy (sf_identity f) = None | ByPath _ \<Rightarrow> False)))"

definition listing_inv :: "history_query \<Rightarrow> snapshot set \<Rightarrow> listing \<Rightarrow> bool" where
  "listing_inv q S l \<longleftrightarrow>
     (case q of ByPath p \<Rightarrow> set (li_paths l) \<subseteq> {p} | ByIdentity _ \<Rightarrow> True) \<and>
     (\<forall>v \<in> set (li_result l). \<exists>s \<in> S. lists q v s) \<and>
     (case li_previous l of None \<Rightarrow> True
      | Some k \<Rightarrow> li_result l \<noteq> [] \<and> k = fv_path (last (li_result l)) @ '':'' @ fv_hash (last (li_result l))
          \<and> CHR '':'' \<notin> set (fv_hash (last (li_result l))))"

lemma colon_key:
  assumes "p @ CHR '':'' # h = p' @ CHR '':'' # h'" and "CHR '':'' \<notin> set h" and "CHR '':'' \<notin> set h'"
  shows "p = p' \<and> h = h'"
  using assms by (auto simp: append_eq_append_conv2 append_eq_Cons_conv Cons_eq_append_conv)

lemma find_entry_lists:
  assumes s: "keyed s" and found: "find_entry q paths s = Some f"
    and paths: "case q of ByPath p \<Rightarrow> set paths \<subseteq> {p} | ByIdentity _ \<Rightarrow> True"
  shows "rget (sn_files s) (sf_pathname f) = Some f" "CHR '':'' \<notin> set (sf_hash f)"
    "case q of ByPath p \<Rightarrow> sf_pathname f = p | ByIdentity i \<Rightarrow> sf_identity f = Some i \<or> truthy (sf_identity f) = None"
proof -
  have "f \<in> set (map snd (sn_files s))"
    using found unfolding find_entry_def by (auto split: option.splits simp: find_Some_iff)
  then obtain k where k: "(k, f) \<in> set (sn_files s)" by auto
  with s show "rget (sn_files s) (sf_pathname f) = Some f" "CHR '':'' \<notin> set (sf_hash f)"
    by (auto simp: keyed_def)
  show "case q of ByPath p \<Rightarrow> sf_pathname f = p | ByIdentity i \<Rightarrow> sf_identity f = Some i \<or> truthy (sf_identity f) = None"
    using found paths unfolding find_entry_def
    by (auto split: option.splits history_query.splits simp: find_Some_iff)
qed

lemma list_snapshot_inv:
  assumes inv: "listing_inv q S l" and s: "keyed s"
  shows "listing_inv q (insert s S) (list_snapshot q l s)"
proof (cases "find_entry q (li_paths l) s")
  case None
  with inv show ?thesis
    by (auto simp: list_snapshot_def listing_inv_def split: history_query.splits)
next
  case (Some f)
  have paths: "case q of ByPath p \<Rightarrow> set (li_paths l) \<subseteq> {p} | ByIdentity _ \<Rightarrow> True"
    using inv by (simp add: listing_inv_def)
  note f = find_entry_lists [OF s Some paths]
  have new: "lists q (version_of s f) s"
    using f by (auto simp: lists_def version_of_def belongs_def split: history_query.splits)
  have results: "\<forall>v \<in> set (li_result l). \<exists>s' \<in> insert s S. lists q v s'"
    using inv by (auto simp: listing_inv_def)
  let ?l = "l\<lparr>li_paths := sf_pathname f # li_paths l\<rparr>" and ?key = "sf_pathname f @ '':'' @ sf_hash f"
  have paths': "case q of ByPath p \<Rightarrow> set (sf_pathname f # li_paths l) \<subseteq> {p} | ByIdentity _ \<Rightarrow> True"
    using f paths by (auto split: history_query.splits)
  show ?thesis
  proof (cases "Some ?key = li_previous l")
    case True
    have run: "li_result l \<noteq> []" "fv_path (last (li_result l)) = sf_pathname f" "fv_hash (last (li_result l)) = sf_hash f"
      using inv True [symmetric] f(2) colon_key [of "sf_pathname f" "sf_hash f"] by (auto simp: listing_inv_def)
    show ?thesis
    proof (cases "case q of ByPath _ \<Rightarrow> True | ByIdentity i \<Rightarrow> sf_identity f = Some i")
      case mine: True
      have "lists q ((last (li_result l))\<lparr>fv_id := sn_hash s, fv_savedAt := sn_timestamp s\<rparr>) s"
        using f mine run by (auto simp: lists_def belongs_def split: history_query.splits)
      then have "\<forall>v \<in> set (rename_last s (li_result l)). \<exists>s' \<in> insert s S. lists q v s'"
        using results by (auto simp: rename_last_def dest: in_set_butlastD)
      then show ?thesis
        using Some mine True [symmetric] run f(2) paths'
        by (cases q) (simp_all add: list_snapshot_def Let_def listing_inv_def rename_last_def)
    next
      case False
      then show ?thesis
        using Some True [symmetric] run f(2) paths' results by (cases q) (simp_all add: list_snapshot_def Let_def listing_inv_def)
    qed
  next
    case False
    then show ?thesis
      using Some f(2) paths' results new by (cases q) (simp_all add: list_snapshot_def Let_def listing_inv_def version_of_def)
  qed
qed

lemma versions_along_lists:
  assumes "list_all keyed ss" and "v \<in> set (versions_along q ss)"
  shows "\<exists>s \<in> set ss. lists q v s"
proof -
  have "listing_inv q (S \<union> set ss) (foldl (list_snapshot q) l ss)" if "listing_inv q S l" for S l
    using assms(1) that
  proof (induction ss arbitrary: S l)
    case (Cons s ss)
    with list_snapshot_inv Cons.IH [of "insert s S"] show ?case by simp
  qed simp
  moreover have "listing_inv q {} (start_listing q)"
    by (simp add: listing_inv_def start_listing_def split: history_query.split)
  ultimately have "listing_inv q (set ss) (foldl (list_snapshot q) (start_listing q) ss)" by fastforce
  with assms(2) show ?thesis by (auto simp: listing_inv_def versions_along_def)
qed

section \<open>What is read\<close>

lemma read_checked_run:
  assumes "read_checked px c out w = (Inr out', u)"
  shows "u = w \<and> (\<exists>b. file_at (w_store w) (chunk_path (ck_hash c)) = Some b \<and> px_sha px b = ck_hash c \<and> out' = out @ [b])"
proof -
  obtain b v where "on_store (\<lambda>_. fs_read (chunk_path (ck_hash c))) w = (Inr b, v)"
    and rest: "(if px_sha px b \<noteq> ck_hash c then throw (IllegalStateError ''History chunk integrity check failed'') else ret (out @ [b])) v = (Inr out', u)"
    using assms unfolding read_checked_def bnd_Inr by blast
  then show ?thesis
    by (auto simp: store_read ret_def throw_def split: if_splits)
qed

lemma read_checked_all:
  assumes "fold_eff (read_checked px) cs out w = (Inr bs, w')"
  shows "w' = w \<and> (\<exists>new. bs = out @ new \<and> map (px_sha px) new = map ck_hash cs
     \<and> list_all2 (\<lambda>c b. file_at (w_store w) (chunk_path (ck_hash c)) = Some b) cs new)"
  using assms
proof (induction cs arbitrary: out)
  case Nil
  then show ?case by (simp add: ret_def)
next
  case (Cons c cs)
  obtain out' u where step: "read_checked px c out w = (Inr out', u)" and rest: "fold_eff (read_checked px) cs out' u = (Inr bs, w')"
    using Cons.prems by (auto simp: bnd_Inr)
  from read_checked_run [OF step] obtain b
    where b: "u = w" "file_at (w_store w) (chunk_path (ck_hash c)) = Some b" "px_sha px b = ck_hash c" "out' = out @ [b]" by blast
  with Cons.IH [of out'] rest obtain new where "w' = w" "bs = out' @ new" "map (px_sha px) new = map ck_hash cs"
      "list_all2 (\<lambda>c b. file_at (w_store w) (chunk_path (ck_hash c)) = Some b) cs new" by blast
  with b show ?case by (intro conjI exI [of _ "b # new"]) simp_all
qed

section \<open>What was recorded reads back\<close>

definition ref_of :: "params \<Rightarrow> bytes \<Rightarrow> chunk_ref" where
  "ref_of px b = \<lparr>ck_hash = px_sha px b, ck_size = Some (int (length b))\<rparr>"

text \<open>No other content with the digest of one of these, among these or under their names in the store.\<close>

definition no_collision :: "params \<Rightarrow> disk \<Rightarrow> bytes list \<Rightarrow> bool" where
  "no_collision px d bs \<longleftrightarrow> (\<forall>b \<in> set bs.
     (\<forall>c. file_at d (chunk_path (px_sha px b)) = Some c \<longrightarrow> px_sha px c = px_sha px b \<longrightarrow> c = b) \<and>
     (\<forall>c \<in> set bs. px_sha px c = px_sha px b \<longrightarrow> c = b))"

text \<open>What a run that only writes chunk files leaves: everything that is no chunk, and good chunks.\<close>

definition only_chunks :: "params \<Rightarrow> world \<Rightarrow> world \<Rightarrow> bool" where
  "only_chunks px w w' \<longleftrightarrow>
     (\<exists>d. w' = w\<lparr>w_store := d\<rparr> \<and> laid_out d \<and> root_dir d = root_dir (w_store w)
       \<and> (\<forall>b. file_at (w_store w) (chunk_path (px_sha px b)) = Some b \<longrightarrow> file_at d (chunk_path (px_sha px b)) = Some b)
       \<and> (\<forall>q. (\<forall>h. is_object_hash h \<longrightarrow> to_os_path (w_store w) q \<noteq> to_os_path (w_store w) (chunk_path h))
            \<longrightarrow> file_at d q = file_at (w_store w) q))"

lemma only_chunks_refl: "laid_out (w_store w) \<Longrightarrow> only_chunks px w w"
  unfolding only_chunks_def by (intro exI [of _ "w_store w"]) simp

lemma only_chunks_laid: "only_chunks px w w' \<Longrightarrow> laid_out (w_store w')"
  by (auto simp: only_chunks_def)

lemma to_os_path_root: "root_dir d = root_dir d' \<Longrightarrow> to_os_path d = to_os_path d'"
  by (rule ext) (simp add: to_os_path_def resolve_segs_def Let_def)

lemma only_chunks_trans:
  assumes "only_chunks px w w'" and "only_chunks px w' w''" shows "only_chunks px w w''"
proof -
  obtain d where d: "w' = w\<lparr>w_store := d\<rparr>" "laid_out d" "root_dir d = root_dir (w_store w)"
    "\<forall>b. file_at (w_store w) (chunk_path (px_sha px b)) = Some b \<longrightarrow> file_at d (chunk_path (px_sha px b)) = Some b"
    "\<forall>q. (\<forall>h. is_object_hash h \<longrightarrow> to_os_path (w_store w) q \<noteq> to_os_path (w_store w) (chunk_path h)) \<longrightarrow> file_at d q = file_at (w_store w) q"
    using assms(1) unfolding only_chunks_def by blast
  obtain e where e: "w'' = w'\<lparr>w_store := e\<rparr>" "laid_out e" "root_dir e = root_dir (w_store w')"
    "\<forall>b. file_at (w_store w') (chunk_path (px_sha px b)) = Some b \<longrightarrow> file_at e (chunk_path (px_sha px b)) = Some b"
    "\<forall>q. (\<forall>h. is_object_hash h \<longrightarrow> to_os_path (w_store w') q \<noteq> to_os_path (w_store w') (chunk_path h)) \<longrightarrow> file_at e q = file_at (w_store w') q"
    using assms(2) unfolding only_chunks_def by blast
  have "to_os_path (w_store w') = to_os_path (w_store w)" using d by (intro to_os_path_root) simp
  with d e show ?thesis
    unfolding only_chunks_def by (intro exI [of _ e]) simp
qed

lemma chunk_paths_differ:
  "rooted d \<Longrightarrow> is_object_hash h \<Longrightarrow> is_object_hash k \<Longrightarrow> to_os_path d (chunk_path h) = to_os_path d (chunk_path k) \<longleftrightarrow> h = k"
  by (auto simp: os_chunk)

lemma repair_chunk_ok:
  assumes w: "laid_out (w_store w)" and hex: "hex_digests px"
    and same: "\<forall>c. file_at (w_store w) (chunk_path (px_sha px b)) = Some c \<longrightarrow> px_sha px c = px_sha px b \<longrightarrow> c = b"
  shows "\<exists>w'. repair_chunk px b out w = (Inr (out @ [ref_of px b]), w') \<and> only_chunks px w w'
    \<and> file_at (w_store w') (chunk_path (px_sha px b)) = Some b
    \<and> (\<forall>h. is_object_hash h \<longrightarrow> h \<noteq> px_sha px b \<longrightarrow> file_at (w_store w') (chunk_path h) = file_at (w_store w) (chunk_path h))"
proof -
  let ?h = "px_sha px b" and ?p = "chunk_path (px_sha px b)"
  have h: "is_object_hash ?h" and rooted: "rooted (w_store w)"
    using hex w by (simp_all add: hex_digests_def laid_out_def)
  note path = repo_paths(6) [OF h]
  have good: "bnd (if file_at (w_store w) ?p \<noteq> None then bnd (on_store (\<lambda>_. fs_read ?p)) (\<lambda>c. ret (px_sha px c = ?h)) else ret False) f w
      = f (file_at (w_store w) ?p = Some b) w" for f :: "bool \<Rightarrow> (world, chunk_ref list) eff"
  proof (cases "file_at (w_store w) ?p")
    case (Some c)
    then have "on_store (\<lambda>_. fs_read ?p) w = (Inr c, w)" by (simp add: store_read)
    moreover have "px_sha px c = ?h \<longleftrightarrow> c = b" using same Some by auto
    ultimately show ?thesis using Some by (simp add: bnd_def ret_def)
  qed (simp add: bnd_def ret_def)
  have run: "repair_chunk px b out w
      = seq (when_do (file_at (w_store w) ?p \<noteq> Some b) (on_store (\<lambda>t. fs_write t ?p b))) (ret (out @ [ref_of px b])) w"
    using good store_exists [OF w path] by (simp add: repair_chunk_def Let_def bnd_def [of "on_store _"] ref_of_def)
  show ?thesis
  proof (cases "file_at (w_store w) ?p = Some b")
    case True
    then show ?thesis
      using only_chunks_refl [OF w] by (intro exI [of _ w]) (simp add: run when_do_def seq_def ret_def bnd_def)
  next
    case False
    obtain d where d: "on_store (\<lambda>t. fs_write t ?p b) w = (Inr (), w\<lparr>w_store := d\<rparr>)" "laid_out d" "root_dir d = root_dir (w_store w)"
      "\<And>q. file_at d q = (if to_os_path (w_store w) q = to_os_path (w_store w) ?p then Some b else file_at (w_store w) q)"
      using store_write [OF w path] by blast
    have "repair_chunk px b out w = (Inr (out @ [ref_of px b]), w\<lparr>w_store := d\<rparr>)"
      using False d(1) by (simp add: run when_do_def seq_def bnd_def ret_def)
    moreover have "only_chunks px w (w\<lparr>w_store := d\<rparr>)"
      using d h chunk_paths_differ [OF rooted] hex unfolding only_chunks_def hex_digests_def
      by (intro exI [of _ d]) (simp, metis option.inject same)
    ultimately show ?thesis
      using d(4) chunk_paths_differ [OF rooted _ h] by (intro exI [of _ "w\<lparr>w_store := d\<rparr>"]) simp
  qed
qed

lemma repair_chunks_ok:
  assumes "laid_out (w_store w)" and hex: "hex_digests px" and "no_collision px (w_store w) bs" and "set cs \<subseteq> set bs"
  shows "\<exists>w'. fold_eff (repair_chunk px) cs out w = (Inr (out @ map (ref_of px) cs), w') \<and> only_chunks px w w'
    \<and> (\<forall>b \<in> set cs. file_at (w_store w') (chunk_path (px_sha px b)) = Some b)"
  using assms(1,3,4)
proof (induction cs arbitrary: w out)
  case Nil
  then show ?case by (simp add: ret_def only_chunks_refl)
next
  case (Cons b cs)
  have "\<forall>c. file_at (w_store w) (chunk_path (px_sha px b)) = Some c \<longrightarrow> px_sha px c = px_sha px b \<longrightarrow> c = b"
    using Cons.prems by (simp add: no_collision_def)
  from repair_chunk_ok [OF Cons.prems(1) hex this, of out] obtain u where
    step: "repair_chunk px b out w = (Inr (out @ [ref_of px b]), u)" "only_chunks px w u"
      "file_at (w_store u) (chunk_path (px_sha px b)) = Some b"
    and kept: "\<And>h. is_object_hash h \<Longrightarrow> h \<noteq> px_sha px b \<Longrightarrow> file_at (w_store u) (chunk_path h) = file_at (w_store w) (chunk_path h)"
    by blast
  have "file_at (w_store u) (chunk_path (px_sha px c)) = (if px_sha px c = px_sha px b then Some b else file_at (w_store w) (chunk_path (px_sha px c)))"
    for c using step(3) kept [of "px_sha px c"] hex by (auto simp: hex_digests_def)
  then have "no_collision px (w_store u) bs"
    using Cons.prems unfolding no_collision_def by (auto split: if_splits)
  from Cons.IH [OF only_chunks_laid [OF step(2)] this, of "out @ [ref_of px b]"] Cons.prems obtain w' where
    rest: "fold_eff (repair_chunk px) cs (out @ [ref_of px b]) u = (Inr ((out @ [ref_of px b]) @ map (ref_of px) cs), w')" "only_chunks px u w'"
      "\<forall>b \<in> set cs. file_at (w_store w') (chunk_path (px_sha px b)) = Some b"
    by auto
  have "file_at (w_store w') (chunk_path (px_sha px b)) = Some b"
    using rest(2) step(3) by (auto simp: only_chunks_def)
  with rest step(1) only_chunks_trans [OF step(2) rest(2)] show ?case
    by (auto simp: bnd_def)
qed

text \<open>Linking: the snapshot is written, then the head moves to it; nobody is in the way.\<close>

lemma link_checkpoint_ok:
  assumes w: "laid_out (w_store w)" and hex: "hex_digests px" and alone: "w_rivals w = []"
    and head: "file_at (w_store w) head_path = Some (utf8_encode (sn_hash head))" "load_snapshot (w_store w) (sn_hash head) = Inr head"
    and new: "\<not> already_recorded cp hash head"
  shows "\<exists>s w' i. link_checkpoint px cp hash chunks n w = (Inr (), w')
    \<and> file_at (w_store w') head_path = Some (utf8_encode (sn_hash s)) \<and> load_snapshot (w_store w') (sn_hash s) = Inr s
    \<and> sn_parent s = Some (sn_hash head) \<and> is_object_hash (sn_hash s)
    \<and> rget (sn_files s) (cp_path cp) = Some (checkpoint_entry cp hash chunks i)
    \<and> laid_out (w_store w')
    \<and> (\<forall>h. is_object_hash h \<longrightarrow> file_at (w_store w') (chunk_path h) = file_at (w_store w) (chunk_path h))"
proof -
  have rooted: "rooted (w_store w)" using w by (simp add: laid_out_def)
  have headed: "get_head_snapshot w = (Inr head, w)"
    using head by (simp add: get_head_snapshot_def on_store_def read_text_def bnd_def fs_read_ok [THEN iffD2] ret_def read_snapshot_def)
  define pick where "pick = (case Option.bind (rget (sn_files head) (cp_path cp)) sf_fileId of Some i \<Rightarrow> ret i | None \<Rightarrow> random_uuid px)"
  obtain i u where id: "pick w = (Inr i, u)" and u: "w_store u = w_store w" "w_rivals u = []" "w_clock u = w_clock w"
    using alone by (cases "Option.bind (rget (sn_files head) (cp_path cp)) sf_fileId") (auto simp: pick_def ret_def random_uuid_def)
  obtain s where s: "checkpoint_snapshot px cp hash chunks head w = (Inr s, u)"
    and files: "sn_files s = rset (cp_path cp) (checkpoint_entry cp hash chunks i) (without_identity (cp_identity cp) (cp_path cp) (sn_files head))"
    and parent: "sn_parent s = Some (sn_hash head)"
    unfolding checkpoint_snapshot_def pick_def [symmetric]
    by (simp add: id date_now_def gets_def bnd_def ret_def Let_def)
  have h: "is_object_hash (sn_hash s)"
    using checkpoint_snapshot_address [OF s] hex_address [OF hex] by simp
  obtain b j where "snapshot_of_json j = Some head"
    using head(2) unfolding load_snapshot_Inr by blast
  then have "distinct (rkeys (sn_files head))" by (rule snapshot_of_json_distinct)
  then have "distinct (rkeys (without_identity i p (sn_files head)))" for i p
    unfolding without_identity_def by (simp add: distinct_map_filter split: option.split)
  then have dist: "distinct (rkeys (sn_files s))"
    unfolding files by (intro distinct_rset)
  let ?text = "utf8_encode (stringify_indented (json_of_snapshot s))"
  obtain d where d: "on_store (\<lambda>t. fs_write t (snapshot_path (sn_hash s)) ?text) u = (Inr (), u\<lparr>w_store := d\<rparr>)" "laid_out d"
      "root_dir d = root_dir (w_store w)"
      "\<And>q. file_at d q = (if to_os_path (w_store w) q = to_os_path (w_store w) (snapshot_path (sn_hash s)) then Some ?text else file_at (w_store w) q)"
    using store_write [of u "snapshot_path (sn_hash s)" ?text] w repo_paths(5) [OF h] u(1) by auto
  then have wrote: "write_snapshot s u = (Inr (), u\<lparr>w_store := d\<rparr>)"
    by (simp add: write_snapshot_def write_json_def write_text_def)
  have dhead: "file_at d head_path = Some (utf8_encode (sn_hash head))"
    using head(1) head_not_snapshot [OF rooted h] by (simp add: d(4))
  obtain e where e: "fs_cas (w_clock w) head_path (Some (utf8_encode (sn_hash head))) (utf8_encode (sn_hash s)) d = (Inr True, e)" "laid_out e"
    using laid_cas [OF d(2) repo_paths(1), of "w_clock w" "Some (utf8_encode (sn_hash head))" "utf8_encode (sn_hash s)"] dhead by auto
  have at_e: "file_at e q = (if to_os_path d q = to_os_path d head_path then Some (utf8_encode (sn_hash s)) else file_at d q)" for q
    using fs_cas_ok [OF e(1)] by simp
  have moved: "advance_head (Some (sn_hash head)) (sn_hash s) (u\<lparr>w_store := d\<rparr>) = (Inr True, u\<lparr>w_store := e\<rparr>)"
    using e(1) u by (simp add: advance_head_def rival_step_def modify_def seq_def bnd_def on_store_def)
  have run: "link_checkpoint px cp hash chunks n w = (Inr (), u\<lparr>w_store := e\<rparr>)"
    using headed new s wrote moved by (subst link_checkpoint.simps) (simp add: bnd_def seq_def ret_def)
  have os: "to_os_path d = to_os_path (w_store w)" by (rule to_os_path_root [OF d(3)])
  have "file_at e (snapshot_path (sn_hash s)) = Some ?text"
    using head_not_snapshot [OF rooted h] by (simp add: at_e os d(4))
  then have "load_snapshot e (sn_hash s) = Inr s"
    using snapshot_json [OF dist] by (auto simp: load_snapshot_Inr)
  moreover have "file_at e (chunk_path k) = file_at (w_store w) (chunk_path k)" if "is_object_hash k" for k
    using that aside_paths(4) [OF that] rooted h by (simp add: at_e os d(4) aside_def)
  ultimately show ?thesis
    using run h parent files e(2) by (intro exI [of _ s] exI [of _ "u\<lparr>w_store := e\<rparr>"] exI [of _ i]) (simp add: at_e)
qed

lemma load_version_ok:
  assumes "load_snapshot (w_store w) (fv_id v) = Inr s" and "belongs q v s"
  shows "load_version q v w = (Inr s, w)"
proof -
  obtain b j where "file_at (w_store w) (snapshot_path (fv_id v)) = Some b" "parse_json (utf8_decode b) = Some j"
    and j: "snapshot_of_json j = Some s"
    using assms(1) unfolding load_snapshot_Inr by blast
  then have "read_json None (snapshot_path (fv_id v)) (w_store w) = (Inr j, w_store w)"
    using read_json_ok by blast
  with j assms(2) show ?thesis
    by (simp add: load_version_def on_store_def catch_def bnd_def or_type_error_def ret_def)
qed

lemma fetch_nothing:
  assumes "laid_out (w_store w)" and "\<forall>c \<in> set cs. is_object_hash (ck_hash c) \<and> file_at (w_store w) (chunk_path (ck_hash c)) \<noteq> None"
  shows "fetch_missing m cs w = (Inr (), w)"
  using assms(2) by (induction cs) (simp_all add: ret_def bnd_def store_exists [OF assms(1) repo_paths(6)])

lemma read_chunks_ok:
  assumes "\<forall>b \<in> set bs. file_at (w_store w) (chunk_path (px_sha px b)) = Some b"
  shows "fold_eff (read_checked px) (map (ref_of px) bs) out w = (Inr (out @ bs), w)"
  using assms
proof (induction bs arbitrary: out)
  case (Cons b bs)
  have "on_store (\<lambda>_. fs_read (chunk_path (px_sha px b))) w = (Inr b, w)"
    using Cons.prems by (simp add: store_read)
  then have "read_checked px (ref_of px b) out w = (Inr (out @ [b]), w)"
    by (simp add: read_checked_def ref_of_def bnd_def ret_def)
  with Cons show ?case by (simp add: bnd_def)
qed (simp add: ret_def)

lemma read_version_ok:
  assumes w: "laid_out (w_store w)" and hex: "hex_digests px"
    and s: "load_snapshot (w_store w) (sn_hash s) = Inr s" "rget (sn_files s) p = Some f"
    and f: "sf_pathname f = p" "sf_chunks f = map (ref_of px) bs" "sf_hash f = px_sha px (concat bs)"
    and chunks: "\<forall>b \<in> set bs. file_at (w_store w) (chunk_path (px_sha px b)) = Some b"
  shows "read_version px (ret ()) fetch (ByPath p) (version_of s f) w = (Inr (concat bs), w)"
proof -
  have "load_version (ByPath p) (version_of s f) w = (Inr s, w)"
    using s f(1) by (intro load_version_ok) (simp_all add: version_of_def belongs_def)
  moreover have "fetch_missing m (sf_chunks f) w = (Inr (), w)" for m
    using w hex chunks f(2) by (intro fetch_nothing) (auto simp: ref_of_def hex_digests_def)
  moreover have "fold_eff (read_checked px) (sf_chunks f) [] w = (Inr bs, w)"
    using read_chunks_ok [OF chunks, of "[]"] f(2) by simp
  ultimately show ?thesis
    using s(2) f(1,3) by (simp add: read_version_def seq_def bnd_def ret_def or_type_error_def version_of_def)
qed

text \<open>The whole of a recording, on a laid out store and with nobody in the way.\<close>

lemma record_checkpoint_ok:
  assumes w: "laid_out (w_store w)" and hex: "hex_digests px" and alone: "w_rivals w = []"
    and head: "file_at (w_store w) head_path = Some (utf8_encode (sn_hash head))" "load_snapshot (w_store w) (sn_hash head) = Inr head"
      "is_object_hash (sn_hash head)"
    and cp: "truthy (cp_source cp) = None" "\<not> already_recorded cp (px_sha px (cp_content cp)) head"
    and split: "split_chunks px [cp_content cp] = Some bs" "concat bs = cp_content cp" and free: "no_collision px (w_store w) bs"
  shows "\<exists>s f w'. record_checkpoint px cp w = (Inr (), w')
    \<and> file_at (w_store w') head_path = Some (utf8_encode (sn_hash s)) \<and> load_snapshot (w_store w') (sn_hash s) = Inr s
    \<and> sn_parent s = Some (sn_hash head) \<and> rget (sn_files s) (cp_path cp) = Some f
    \<and> read_version px (ret ()) fetch (ByPath (cp_path cp)) (version_of s f) w' = (Inr (cp_content cp), w')"
proof -
  let ?hash = "px_sha px (cp_content cp)" and ?chunks = "map (ref_of px) bs"
  obtain u where u: "fold_eff (repair_chunk px) bs [] w = (Inr ?chunks, u)" "only_chunks px w u"
    and there: "\<forall>b \<in> set bs. file_at (w_store u) (chunk_path (px_sha px b)) = Some b"
    using repair_chunks_ok [OF w hex free subset_refl, of "[]"] by auto
  have rooted: "rooted (w_store w)" using w by (simp add: laid_out_def)
  have apart: "to_os_path (w_store w) head_path \<noteq> to_os_path (w_store w) (chunk_path h)"
    "is_object_hash k \<Longrightarrow> to_os_path (w_store w) (snapshot_path k) \<noteq> to_os_path (w_store w) (chunk_path h)" if "is_object_hash h" for h k
    using aside_paths(4) [OF that] rooted unfolding aside_def by metis+
  have kept: "file_at (w_store u) q = file_at (w_store w) q"
    if "\<And>h. is_object_hash h \<Longrightarrow> to_os_path (w_store w) q \<noteq> to_os_path (w_store w) (chunk_path h)" for q
    using u(2) that unfolding only_chunks_def by auto
  have alone': "w_rivals u = []" using u(2) alone by (auto simp: only_chunks_def)
  have uhead: "file_at (w_store u) head_path = Some (utf8_encode (sn_hash head))"
    using kept [OF apart(1)] head(1) by simp
  have "load_snapshot (w_store u) (sn_hash head) = Inr head"
    using kept [OF apart(2) [OF _ head(3)]] head(2) by (simp add: load_snapshot_Inr)
  from link_checkpoint_ok [OF only_chunks_laid [OF u(2)] hex alone' uhead this cp(2), of ?chunks "max_head_retries - 1"]
  obtain s w' i where link: "link_checkpoint px cp ?hash ?chunks (max_head_retries - 1) u = (Inr (), w')"
    and s: "file_at (w_store w') head_path = Some (utf8_encode (sn_hash s))" "load_snapshot (w_store w') (sn_hash s) = Inr s"
      "sn_parent s = Some (sn_hash head)" "rget (sn_files s) (cp_path cp) = Some (checkpoint_entry cp ?hash ?chunks i)" "laid_out (w_store w')"
    and same: "\<And>h. is_object_hash h \<Longrightarrow> file_at (w_store w') (chunk_path h) = file_at (w_store u) (chunk_path h)"
    by blast
  have "\<forall>b \<in> set bs. file_at (w_store w') (chunk_path (px_sha px b)) = Some b"
    using there same hex by (simp add: hex_digests_def)
  then have "read_version px (ret ()) fetch (ByPath (cp_path cp)) (version_of s (checkpoint_entry cp ?hash ?chunks i)) w' = (Inr (cp_content cp), w')"
    using read_version_ok [OF s(5) hex s(2,4), of bs] split(2) by (simp add: checkpoint_entry_def)
  moreover have "record_checkpoint px cp w = (Inr (), w')"
    using cp(1) split(1) u(1) link by (simp add: record_checkpoint_def Let_def chunks_of_def bnd_def ret_def)
  ultimately show ?thesis using s by blast
qed

lemma split_content: "cuts_progress (px_cut px) \<Longrightarrow> \<exists>bs. split_chunks px [b] = Some bs \<and> concat bs = b"
  using split_from_concat [of "px_cut px" "[b]" "[]"] by (cases "b = []") (auto simp: split_chunks_def)

section \<open>The properties\<close>

text \<open>
  C27: listing the versions of a path gives exactly the moments its content was saved: newest first,
  one version for every snapshot of the chain whose next older snapshot had not the file with this
  content, although the loop walks newest first and renames runs as it goes.
\<close>

theorem path_versions_are_the_saves:
  assumes "list_all keyed ss"
  shows "versions_along (ByPath p) ss = saved_in p ss"
  using listing_runs [OF assms, of p "start_listing (ByPath p)"]
  by (simp add: versions_along_def start_listing_def listing_ok_def continues_def)

definition demo_version :: "string \<Rightarrow> string \<Rightarrow> snapshot" where
  "demo_version h content = \<lparr>sn_hash = h, sn_parent = None, sn_timestamp = 1000, sn_files =
     [(''vault/n'', \<lparr>sf_fileId = None, sf_identity = None, sf_historySource = None, sf_hash = content, sf_size = None,
        sf_pathname = ''vault/n'', sf_chunks = []\<rparr>)]\<rparr>"

lemma demo_version_keyed: "CHR '':'' \<notin> set content \<Longrightarrow> keyed (demo_version h content)"
  by (simp add: keyed_def demo_version_def)

theorem path_versions_are_the_saves_witness:
  "map fv_id (versions_along (ByPath ''vault/n'') [demo_version ''3'' ''b'', demo_version ''2'' ''a'', demo_version ''1'' ''a'']) = [''3'', ''1'']"
proof -
  have "list_all keyed [demo_version ''3'' ''b'', demo_version ''2'' ''a'', demo_version ''1'' ''a'']"
    by (simp add: demo_version_keyed)
  from path_versions_are_the_saves [OF this, of "''vault/n''"] show ?thesis
    by (simp add: demo_version_def version_of_def)
qed

text \<open>
  Every version a listing shows names a snapshot that holds the file with that content, and
  reading it back under the same query is not refused; the one exception is an entry from before the
  file had an identity, when the query is by identity.
\<close>

theorem listed_versions_belong:
  assumes "list_all keyed ss" and "v \<in> set (versions_along q ss)"
  shows "\<exists>s \<in> set ss. fv_id v = sn_hash s \<and> (\<exists>f. rget (sn_files s) (fv_path v) = Some f \<and> sf_hash f = fv_hash v
    \<and> (belongs q v s \<or> truthy (sf_identity f) = None \<and> \<not> (\<exists>p. q = ByPath p)))"
proof -
  obtain s where s: "s \<in> set ss" "lists q v s" using versions_along_lists [OF assms] by blast
  then show ?thesis
    unfolding lists_def by (cases q) auto
qed

theorem listed_versions_belong_witness:
  "\<exists>s \<in> set [demo_version ''3'' ''b'']. belongs (ByPath ''vault/n'') \<lparr>fv_id = ''3'', fv_savedAt = 1000, fv_hash = ''b'', fv_path = ''vault/n''\<rparr> s"
proof -
  have "list_all keyed [demo_version ''3'' ''b'']" by (simp add: demo_version_keyed)
  from listed_versions_belong [OF this, of "\<lparr>fv_id = ''3'', fv_savedAt = 1000, fv_hash = ''b'', fv_path = ''vault/n''\<rparr>" "ByPath ''vault/n''"]
  show ?thesis
    by (simp add: versions_along_def list_snapshot_def start_listing_def find_entry_def demo_version_def version_of_def Let_def)
qed

text \<open>
  That exception is real: a version saved before its file was given an identity is listed for
  the identity, and reading exactly that version under the same query is refused as not belonging to
  the file.
\<close>

theorem legacy_version_unreadable:
  assumes "find_entry (ByIdentity i) [] new = Some f" and "find_entry (ByIdentity i) [sf_pathname f] old = Some g"
    and "sf_pathname g = sf_pathname f" and "sf_identity g = None" and "sf_hash g \<noteq> sf_hash f" and "rget (sn_files old) (sf_pathname g) = Some g"
    and "load_snapshot (w_store w) (sn_hash old) = Inr old"
  shows "version_of old g \<in> set (versions_along (ByIdentity i) [new, old])
    \<and> read_version px (ret ()) fetch (ByIdentity i) (version_of old g) w = (Inl not_its_version, w)"
proof
  show "version_of old g \<in> set (versions_along (ByIdentity i) [new, old])"
    using assms(1-3,5) by (simp add: versions_along_def start_listing_def list_snapshot_def Let_def)
  obtain b j where "file_at (w_store w) (snapshot_path (sn_hash old)) = Some b" "parse_json (utf8_decode b) = Some j"
    and j: "snapshot_of_json j = Some old"
    using assms(7) unfolding load_snapshot_Inr by blast
  then have "read_json None (snapshot_path (sn_hash old)) (w_store w) = (Inr j, w_store w)"
    using read_json_ok by blast
  with j assms(4,6) have "load_version (ByIdentity i) (version_of old g) w = (Inl not_its_version, w)"
    by (simp add: load_version_def version_of_def belongs_def on_store_def catch_def bnd_def or_type_error_def ret_def throw_def)
  then show "read_version px (ret ()) fetch (ByIdentity i) (version_of old g) w = (Inl not_its_version, w)"
    by (simp add: read_version_def seq_def bnd_def ret_def)
qed

definition entry_with :: "string option \<Rightarrow> string \<Rightarrow> snap_file" where
  "entry_with i h = \<lparr>sf_fileId = None, sf_identity = i, sf_historySource = None, sf_hash = h, sf_size = None,
     sf_pathname = ''vault/n'', sf_chunks = []\<rparr>"

definition root_with :: "string option \<Rightarrow> string \<Rightarrow> snapshot" where
  "root_with i h = root_snapshot\<lparr>sn_files := [(''vault/n'', entry_with i h)]\<rparr>"

definition legacy_world :: world where
  "legacy_world = new_world\<lparr>w_store := \<lparr>root_dir = [''state''], nodes =
     [([''repo'', ''snapshots'', root_hash], File (utf8_encode (stringify_indented (json_of_snapshot (root_with None ''a'')))) 0 0)]\<rparr>\<rparr>"

lemma legacy_world_loads: "load_snapshot (w_store legacy_world) root_hash = Inr (root_with None ''a'')"
proof -
  have "rooted (w_store legacy_world)" by (simp add: legacy_world_def rooted_def proper_def)
  from os_snapshot [OF this root_hash_ok]
  have "file_at (w_store legacy_world) (snapshot_path root_hash)
      = Some (utf8_encode (stringify_indented (json_of_snapshot (root_with None ''a''))))"
    by (simp add: file_at_key) (simp add: legacy_world_def)
  moreover have "snapshot_of_json (json_of_snapshot (root_with None ''a'')) = Some (root_with None ''a'')"
    by (rule snapshot_json) (simp add: root_with_def root_snapshot_def)
  ultimately show ?thesis by (auto simp: load_snapshot_Inr)
qed

theorem legacy_version_unreadable_witness:
  "version_of (root_with None ''a'') (entry_with None ''a'') \<in>
     set (versions_along (ByIdentity ''i'') [root_with (Some ''i'') ''b'', root_with None ''a''])
   \<and> read_version demo_px (ret ()) None (ByIdentity ''i'') (version_of (root_with None ''a'') (entry_with None ''a'')) legacy_world
     = (Inl not_its_version, legacy_world)"
  by (rule legacy_version_unreadable [of _ _ "entry_with (Some ''i'') ''b''"])
    (simp_all add: find_entry_def root_with_def entry_with_def truthy_def root_snapshot_def legacy_world_loads [unfolded root_with_def root_snapshot_def entry_with_def, simplified])

text \<open>
  C21: whatever readiness and fetching do, a version that is read hashes to what the version says, is
  the concatenation of chunks that each hash to their address, and is filed in the snapshot the
  version names under the queried identity or path.
\<close>

theorem read_version_genuine:
  assumes "read_version px ready fetch q v w = (Inr content, w')"
  shows "px_sha px content = fv_hash v \<and>
    (\<exists>s f bs. rget (sn_files s) (fv_path v) = Some f \<and> belongs q v s \<and> content = concat bs \<and> map (px_sha px) bs = map ck_hash (sf_chunks f)
       \<and> list_all2 (\<lambda>c b. file_at (w_store w') (chunk_path (ck_hash c)) = Some b) (sf_chunks f) bs)"
proof -
  obtain w1 s w2 where load: "load_version q v w1 = (Inr s, w2)"
    and rest: "bnd (or_type_error (rget (sn_files s) (fv_path v))) (\<lambda>f.
     seq (fetch_missing (map_option (\<lambda>g. g s (fv_path v)) fetch) (sf_chunks f))
    (bnd (fold_eff (read_checked px) (sf_chunks f) []) (\<lambda>chunks.
       if px_sha px (concat chunks) \<noteq> sf_hash f then throw (IllegalStateError ''History file integrity check failed'')
       else ret (concat chunks)))) w2 = (Inr content, w')"
    using assms unfolding read_version_def seq_Inr bnd_Inr by blast
  then obtain f w3 bs w4 where f: "rget (sn_files s) (fv_path v) = Some f"
    and chunks: "fold_eff (read_checked px) (sf_chunks f) [] w3 = (Inr bs, w4)"
    and last: "(if px_sha px (concat bs) \<noteq> sf_hash f then throw (IllegalStateError ''History file integrity check failed'')
       else ret (concat bs)) w4 = (Inr content, w')"
    unfolding bnd_Inr seq_Inr or_type_error_def by (auto simp: ret_def throw_def split: option.splits)
  have belongs: "belongs q v s"
    using load unfolding load_version_def bnd_Inr by (auto simp: ret_def throw_def split: if_splits)
  then have "sf_hash f = fv_hash v" using f by (auto simp: belongs_def)
  moreover have "px_sha px content = sf_hash f" "content = concat bs" "w' = w4"
    using last by (auto simp: ret_def throw_def split: if_splits)
  ultimately show ?thesis
    using read_checked_all [OF chunks] f belongs by auto
qed

definition note_checkpoint :: file_checkpoint where
  "note_checkpoint = \<lparr>cp_path = ''vault/n'', cp_content = [1, 2], cp_identity = None, cp_savedAt = None, cp_source = None\<rparr>"

lemma note_pieces: "split_chunks demo_px [[1, 2]] = Some [[1, 2]]"
  by (simp add: split_chunks_def demo_px_def drain.simps)

lemma note_free: "no_collision demo_px (w_store rooted_world) [[1, 2]]"
  using rooted_world_chunks [of "px_sha demo_px [1, 2]"] demo_px_hex by (simp add: no_collision_def hex_digests_def)

lemma note_new: "\<not> already_recorded note_checkpoint h root_snapshot" "truthy (cp_source note_checkpoint) = None"
  by (simp_all add: already_recorded_def root_snapshot_def note_checkpoint_def truthy_def)

lemma root_snapshot_hash: "is_object_hash (sn_hash root_snapshot)"
  by (simp add: root_snapshot_def root_hash_ok)

theorem read_version_genuine_witness:
  "\<exists>s f w'. read_version demo_px (ret ()) None (ByPath ''vault/n'') (version_of s f) w' = (Inr [1, 2], w')
     \<and> px_sha demo_px [1, 2] = fv_hash (version_of s f)"
proof -
  have "w_rivals rooted_world = []" by (simp add: rooted_world_def new_world_def)
  from record_checkpoint_ok [OF rooted_world_laid_out demo_px_hex this rooted_world_head rooted_world_root root_snapshot_hash
      note_new(2,1) _ _ note_free]
  obtain s f w' where "read_version demo_px (ret ()) None (ByPath ''vault/n'') (version_of s f) w' = (Inr [1, 2], w')"
    using note_pieces by (fastforce simp: note_checkpoint_def)
  with read_version_genuine [OF this] show ?thesis by blast
qed

text \<open>
  C11: on a store that holds only what the repository wrote, and with nobody else writing, recording
  a new content always succeeds: the head moves to a snapshot that follows the old head and has the
  file, and reading that version gives back exactly the recorded bytes.
\<close>

theorem recorded_version_reads_back:
  assumes "laid_out (w_store w)" and "w_rivals w = []" and "hex_digests px" and "cuts_progress (px_cut px)"
    and "file_at (w_store w) head_path = Some (utf8_encode (sn_hash head))" and "load_snapshot (w_store w) (sn_hash head) = Inr head"
    and "is_object_hash (sn_hash head)"
    and "valid_history_path (cp_path cp)" and "truthy (cp_source cp) = None"
    and "\<not> already_recorded cp (px_sha px (cp_content cp)) head"
    and "\<forall>bs. split_chunks px [cp_content cp] = Some bs \<longrightarrow> no_collision px (w_store w) bs"
  shows "\<exists>s f w'. record_history px (ret ()) cp w = (Inr (), w')
    \<and> file_at (w_store w') head_path = Some (utf8_encode (sn_hash s)) \<and> load_snapshot (w_store w') (sn_hash s) = Inr s
    \<and> sn_parent s = Some (sn_hash head) \<and> rget (sn_files s) (cp_path cp) = Some f
    \<and> read_version px (ret ()) fetch (ByPath (cp_path cp)) (version_of s f) w' = (Inr (cp_content cp), w')"
proof -
  obtain bs where bs: "split_chunks px [cp_content cp] = Some bs" "concat bs = cp_content cp"
    using split_content [OF assms(4)] by blast
  have "record_history px (ret ()) cp w = record_checkpoint px cp w"
    using assms(8) by (simp add: record_history_def check_path_def seq_def ret_def bnd_def)
  then show ?thesis
    using record_checkpoint_ok [OF assms(1,3,2,5,6,7,9,10) bs, of fetch] assms(11) bs(1) by simp
qed

theorem recorded_version_reads_back_witness:
  "\<exists>s f w'. record_history demo_px (ret ()) note_checkpoint rooted_world = (Inr (), w')
     \<and> rget (sn_files s) ''vault/n'' = Some f
     \<and> read_version demo_px (ret ()) None (ByPath ''vault/n'') (version_of s f) w' = (Inr [1, 2], w')"
proof -
  have alone: "w_rivals rooted_world = []" by (simp add: rooted_world_def new_world_def)
  have valid: "valid_history_path (cp_path note_checkpoint)"
    by (simp add: note_checkpoint_def valid_history_path_def starts_with_def)
  have "\<forall>bs. split_chunks demo_px [cp_content note_checkpoint] = Some bs \<longrightarrow> no_collision demo_px (w_store rooted_world) bs"
    using note_pieces note_free by (simp add: note_checkpoint_def)
  from recorded_version_reads_back [OF rooted_world_laid_out alone demo_px_hex demo_px_cuts rooted_world_head rooted_world_root
      root_snapshot_hash valid note_new(2,1) this, of None]
  show ?thesis by (auto simp: note_checkpoint_def)
qed

end
