(* ===== verification/SyncProps.thy ===== *)
theory SyncProps
  imports MergeProps HistoryProps
begin

text \<open>
  The properties of the local repository: its head names a stored snapshot through every sequence
  of operations and other writers' steps; what a merge does to local edits and to remote versions;
  and the two paths of the merge that do not do what its comments say.
\<close>

section \<open>The repository as a state machine\<close>

text \<open>
  One public operation of the repository on any arguments, an edit of the working tree by anything
  else, or the clock moving on. Other writers of the store act inside the operations
  (\<open>w_rivals\<close>); a step may bring new ones in.
\<close>

inductive repo_step :: "params \<Rightarrow> world \<Rightarrow> world \<Rightarrow> bool" for px where
  Prepare: "genuine (w_store w) (empty_snapshot_hash (px_sha px)) \<Longrightarrow> repo_step px w (snd (prepare px w))"
| Add: "repo_step px w (snd (add_change p w))"
| Status: "repo_step px w (snd (status px s w))"
| Snapshot: "repo_step px w (snd (take_snapshot px w))"
| MergeStep: "repo_step px w (snd (merge_files px base local remote w))"
| Rebase: "is_object_hash (sn_hash remote) \<Longrightarrow> has_snapshot (w_store w) (sn_hash remote) \<Longrightarrow>
    repo_step px w (snd (rebase px local remote base w))"
| Materialize: "repo_step px w (snd (materialize p w))"
| Record: "repo_step px w (snd (record_checkpoint px cp w))"
| TreeEdit: "repo_step px w (w\<lparr>w_tree := d\<rparr>)"
| Tick: "w_clock w \<le> t \<Longrightarrow> repo_step px w (w\<lparr>w_clock := t\<rparr>)"
| Others: "\<forall>r \<in> set rs. fair r \<Longrightarrow> repo_step px w (w\<lparr>w_rivals := rs\<rparr>)"

lemma repo_step_keeps:
  assumes "hex_digests px" and "repo_step px w w'" and "repo_has H w"
  shows "repo_has H w'"
  using assms(2,3)
proof cases
  case Prepare
  obtain r v where run: "prepare px w = (r, v)" by fastforce
  from prepare_ok [OF assms(1,3) Prepare(2) run] Prepare(1) run show ?thesis by simp
next
  case (Rebase remote local base)
  with assms(3) have "repo_has (insert (sn_hash remote) H) w"
    by (simp add: repo_has_insert)
  from keepsD [OF keeps_rebase [OF assms(1)] this, of remote local base "fst (rebase px local remote base w)" w'] Rebase(1)
  show ?thesis by (simp add: repo_has_insert)
next
  case Add
  with keepsD [OF keeps_journal(3) assms(3)] show ?thesis by (metis surjective_pairing)
next
  case Status
  with keepsD [OF keeps_status assms(3)] show ?thesis by (metis surjective_pairing)
next
  case Snapshot
  with keepsD [OF keeps_take_snapshot [OF assms(1)] assms(3)] show ?thesis by (metis surjective_pairing)
next
  case Record
  with keepsD [OF keeps_record_checkpoint [OF assms(1)] assms(3)] show ?thesis by (metis surjective_pairing)
next
  case MergeStep
  with keepsD [OF keeps_merge_files assms(3)] show ?thesis by (metis surjective_pairing)
next
  case Materialize
  with keepsD [OF keeps_materialize assms(3)] show ?thesis by (metis surjective_pairing)
next
  case TreeEdit
  with assms(3) show ?thesis by (simp add: repo_has_def)
next
  case Tick
  with assms(3) show ?thesis by (simp add: repo_has_def)
next
  case Others
  with assms(3) show ?thesis by (simp add: repo_has_def)
qed

lemma repo_steps_keep:
  assumes "hex_digests px" and "(repo_step px)\<^sup>*\<^sup>* w w'" and "repo_has H w"
  shows "repo_has H w'"
  using assms(2,3) by (induction rule: rtranclp_induct) (auto intro: repo_step_keeps [OF assms(1)])

text \<open>
  C1: the head of a repository always names a snapshot that is stored under its own address, and no
  stored snapshot is ever lost. This holds after any sequence of the repository's operations, each of
  which may throw anywhere, with other writers of the same store acting in between, whatever the
  working tree does meanwhile.
\<close>

theorem head_always_stored:
  assumes "hex_digests px" and "repo_has {} w" and "(repo_step px)\<^sup>*\<^sup>* w w'"
  shows "(\<forall>b. file_at (w_store w') head_path = Some b \<longrightarrow>
      (\<exists>s. load_snapshot (w_store w') (utf8_decode b) = Inr s \<and> sn_hash s = utf8_decode b))
    \<and> (\<forall>h. is_object_hash h \<longrightarrow> has_snapshot (w_store w) h \<longrightarrow> has_snapshot (w_store w') h)"
proof -
  have "repo_has {h} w'" if "is_object_hash h" "has_snapshot (w_store w) h" for h
    using that assms(2) by (intro repo_steps_keep [OF assms(1,3)]) (simp add: repo_has_insert)
  moreover have "repo_has {} w'"
    by (rule repo_steps_keep [OF assms(1,3,2)])
  ultimately show ?thesis
    by (auto simp: repo_has_def store_has_def store_ok_def head_ok_def has_snapshot_def)
qed

lemma new_world_prepared: "(repo_step demo_px)\<^sup>*\<^sup>* new_world (snd (add_change ''vault/a'' (snd (prepare demo_px new_world))))"
proof -
  have "genuine (w_store new_world) (empty_snapshot_hash (px_sha demo_px))"
    using os_snapshot [of "w_store new_world" "empty_snapshot_hash (px_sha demo_px)"] hex_address [OF demo_px_hex]
    by (simp add: genuine_def fs_exists_def on_path_cases os_stat_def empty_snapshot_hash_def)
      (simp add: new_world_def rooted_def proper_def)
  then show ?thesis
    by (metis Add Prepare converse_rtranclp_into_rtranclp r_into_rtranclp)
qed

theorem head_always_stored_witness:
  "case file_at (w_store (snd (add_change ''vault/a'' (snd (prepare demo_px new_world))))) head_path of
     None \<Rightarrow> True
   | Some b \<Rightarrow> has_snapshot (w_store (snd (add_change ''vault/a'' (snd (prepare demo_px new_world))))) (utf8_decode b)"
  using head_always_stored [OF demo_px_hex new_world_ok new_world_prepared] by (simp add: has_snapshot_def split: option.split)

section \<open>What a merge does\<close>

text \<open>
  C7: a merge keeps local edits. A file this device changed since the common ancestor (or that both
  devices created) still holds exactly what it held, or, when a content merger is registered, what
  that merger made of exactly that content; however the merge goes on with the other files and even
  if it throws. The paths of the merge are to name different files on this disk, and each version is
  to carry the path it is listed under.
\<close>

theorem merge_keeps_local_edits:
  assumes "well_named local" and "well_named remote"
    and "\<forall>q \<in> set (rkeys base) \<union> set (rkeys local) \<union> set (rkeys remote). q \<noteq> p \<longrightarrow> to_os_path (w_tree w) q \<noteq> to_os_path (w_tree w) p"
    and "edited_here (rget base p) (rget local p) (rget remote p)" and "file_at (w_tree w) p = Some c"
  shows "\<exists>x. file_at (w_tree (snd (merge_files px base local remote w))) p = Some x
    \<and> (x = c \<or> (\<exists>m bb rb n. px_merger px = Some m \<and> m p bb c rb = Some (x, n)))"
proof -
  have "holds_at (root_dir (w_tree w)) p c w"
    using assms(5) by (simp add: tree_is_def)
  with assms(1-4) have "kept_or_merged px (root_dir (w_tree w)) p c (snd (merge_files px base local remote w))"
    by (intro edited_merge_files) (simp_all add: other_file_at [OF refl])
  then show ?thesis
    by (auto simp: kept_or_merged_def merged_from_def tree_is_def)
qed

definition demo_entry :: "string \<Rightarrow> string \<Rightarrow> snap_file" where
  "demo_entry p h = \<lparr>sf_fileId = None, sf_identity = None, sf_historySource = None, sf_hash = h, sf_size = None,
     sf_pathname = p, sf_chunks = []\<rparr>"

definition edited_world :: world where
  "edited_world = new_world\<lparr>w_tree := \<lparr>root_dir = [''vault''], nodes = [([''a''], File [1, 2] 5 5)]\<rparr>\<rparr>"

lemma edited_world_file: "file_at (w_tree edited_world) ''a'' = Some [1, 2]"
proof -
  have "to_os_path (w_tree edited_world) ''a'' = Inr [''a'']"
    by (simp add: edited_world_def to_os_path_def resolve_segs_def normalize_path_def norm_segs_def seg_step_def Let_def)
  then show ?thesis by (simp add: file_at_key edited_world_def)
qed

theorem merge_keeps_local_edits_witness:
  "file_at (w_tree (snd (merge_files demo_px [(''a'', demo_entry ''a'' ''00'')] [(''a'', demo_entry ''a'' ''11'')]
      [(''a'', demo_entry ''a'' ''22'')] edited_world))) ''a'' = Some [1, 2]"
  using merge_keeps_local_edits [of "[(''a'', demo_entry ''a'' ''11'')]" "[(''a'', demo_entry ''a'' ''22'')]"
      "[(''a'', demo_entry ''a'' ''00'')]" "''a''" edited_world "[1, 2]" demo_px] edited_world_file
  by (auto simp: demo_px_def well_named_def demo_entry_def edited_here_def split: if_splits)

definition marked :: "world \<Rightarrow> string \<Rightarrow> string \<Rightarrow> bool" where
  "marked w p h \<longleftrightarrow> (\<exists>ix. w_index w = Some ix \<and> rget (ix_pending ix) p = Some h)"

lemma load_index_run: "load_index w = (Inr ix, w') \<Longrightarrow> w_index w' = Some ix"
  by (auto simp: load_index_def bnd_Inr seq_Inr modify_def ret_def split: option.splits)

lemma mark_pending_marks: "mark_pending p h w = (Inr u, w') \<Longrightarrow> marked w' p h"
proof -
  assume "mark_pending p h w = (Inr u, w')"
  then obtain ix w1 where ix: "load_index w = (Inr ix, w1)"
    and rest: "(if rget (ix_pending ix) p = Some h then ret ()
      else set_index (\<lambda>ix. ix\<lparr>ix_pending := rset p h (ix_pending ix), ix_entries := rdel p (ix_entries ix)\<rparr>)) w1 = (Inr u, w')"
    by (auto simp: mark_pending_def bnd_Inr)
  from load_index_run [OF ix] rest show ?thesis
    by (cases "rget (ix_pending ix) p = Some h") (auto simp: marked_def ret_def set_index_def modify_def)
qed

text \<open>
  After the merge of the path p, the remote's version of it is on this device: as the file, as a
  pending mark, as a conflict copy, or in what the content merger made of the ancestor's content,
  the file's own and the version's.
\<close>

definition kept_somewhere ::
    "params \<Rightarrow> string \<Rightarrow> snap_file option \<Rightarrow> snap_file \<Rightarrow> merge_result \<Rightarrow> merge_result \<Rightarrow> world \<Rightarrow> world \<Rightarrow> bool" where
  "kept_somewhere px p base r acc result w w' \<longleftrightarrow>
     content_in (w_store w) r \<noteq> None \<and> file_at (w_tree w') (sf_pathname r) = content_in (w_store w) r
   \<or> marked w' (sf_pathname r) (sf_hash r)
   \<or> (\<exists>q. mr_conflicts result = mr_conflicts acc @ [q]
        \<and> (content_in (w_store w) r \<noteq> None \<and> file_at (w_tree w') q = content_in (w_store w) r
         \<or> w_tree w' = w_tree w \<and> hashes_to px w q (sf_hash r)))
   \<or> (\<exists>m mine theirs merged n. px_merger px = Some m
        \<and> file_at (w_tree w) p = Some mine \<and> content_in (w_store w) r = Some theirs
        \<and> m p (case base of None \<Rightarrow> None | Some f \<Rightarrow> content_in (w_store w) f) mine theirs = Some (merged, n)
        \<and> file_at (w_tree w') p = Some merged
        \<and> mr_unresolved result = mr_unresolved acc @ (if n > 0 then [(p, n)] else []))"

lemma take_file_keeps:
  assumes "take_file r w = (Inr u, w')"
  shows "kept_somewhere px p base r acc result w w'"
proof -
  obtain here w1 where chunks: "has_chunks r w = (Inr here, w1)"
    and rest: "(if here then write_file_of r else mark_pending (sf_pathname r) (sf_hash r)) w1 = (Inr u, w')"
    using assms by (auto simp: take_file_def bnd_Inr)
  have "w1 = w" by (rule reads_run [OF has_chunks_reads chunks])
  show ?thesis
  proof (cases here)
    case True
    with rest \<open>w1 = w\<close> write_file_content [of r w u w'] show ?thesis by (simp add: kept_somewhere_def)
  next
    case False
    with rest mark_pending_marks show ?thesis by (auto simp: kept_somewhere_def)
  qed
qed

lemma merged_content_keeps:
  assumes "px_merger px = Some m" and "m p bb c rb = Some (x, n)" and "base_content base w = (Inr bb, w)"
    and "file_at (w_tree w) p = Some c" and "read_chunks (sf_chunks r) w = (Inr rb, w)"
    and "seq (write_merged_content px p x) (ret (Some n)) w = (Inr y, w')"
    and "mr_unresolved result = mr_unresolved acc @ (if n > 0 then [(p, n)] else [])"
  shows "kept_somewhere px p base r acc result w w'"
proof -
  from assms(6) obtain u where "write_merged_content px p x w = (Inr u, w')"
    by (auto simp: seq_Inr ret_def)
  from write_merged_run [OF this, of "root_dir (w_tree w)" c] assms(4) have "file_at (w_tree w') p = Some x"
    by (simp add: tree_is_def)
  with assms(1,2,4,7) read_chunks_content [OF assms(5)] base_content_ok [OF assms(3)] show ?thesis
    by (auto simp: kept_somewhere_def)
qed

lemma conflicting_merge_keeps:
  assumes tried: "try_content_merge px p base l r w = (Inr merged, v)"
    and rest: "(case merged of
          Some n \<Rightarrow> ret (if n > 0 then acc\<lparr>mr_unresolved := mr_unresolved acc @ [(p, n)]\<rparr> else acc)
        | None \<Rightarrow> bnd (write_conflict_file px r) (\<lambda>q. ret (acc\<lparr>mr_conflicts := mr_conflicts acc @ [q]\<rparr>))) v = (Inr result, w')"
  shows "kept_somewhere px p base r acc result w w'"
proof (cases merged)
  case None
  with content_merge_run [OF tried] have "v = w" by (auto simp: seq_Inr ret_def)
  with None rest obtain q where copy: "write_conflict_file px r w = (Inr q, w')"
    and result: "result = acc\<lparr>mr_conflicts := mr_conflicts acc @ [q]\<rparr>"
    by (auto simp: bnd_Inr ret_def)
  with conflict_file_content [OF copy] show ?thesis
    by (auto simp: kept_somewhere_def)
next
  case (Some k)
  with content_merge_run [OF tried] obtain m bb c rb x n where run: "px_merger px = Some m" "m p bb c rb = Some (x, n)"
      "base_content base w = (Inr bb, w)" "file_at (w_tree w) p = Some c" "read_chunks (sf_chunks r) w = (Inr rb, w)"
      "seq (write_merged_content px p x) (ret (Some n)) w = (Inr (Some k), v)"
    by auto
  then have "k = n" by (auto simp: seq_Inr ret_def)
  with rest Some have "v = w'" "mr_unresolved result = mr_unresolved acc @ (if n > 0 then [(p, n)] else [])"
    by (auto simp: ret_def)
  with run merged_content_keeps [OF run(1-5)] show ?thesis by blast
qed

text \<open>
  C8: no remote version is lost. Where the remote has a version of a path that differs from the local
  one, and has not merely kept what this device deleted, then once that path is merged without
  throwing the version is on this device: as the file, as a pending mark carrying its hash, as the
  conflict copy the merge reports (a new one with exactly its content, or one already there that the
  checkout index finds to have its hash), or, with a content merger, in the file that merger made of
  the ancestor's, this device's and the version's contents.
\<close>

theorem merge_keeps_remote_version:
  assumes "merge_path px p base local (Some r) acc w = (Inr result, w')"
    and "case local of Some l \<Rightarrow> sf_hash l \<noteq> sf_hash r | None \<Rightarrow> (\<forall>b. base = Some b \<longrightarrow> sf_hash b \<noteq> sf_hash r)"
  shows "kept_somewhere px p base r acc result w w'"
proof (cases local)
  case None
  with assms obtain u where "take_file r w = (Inr u, w')"
    by (auto simp: merge_path_def seq_Inr ret_def split: option.splits if_splits)
  then show ?thesis by (rule take_file_keeps)
next
  case (Some l)
  show ?thesis
  proof (cases "\<exists>b. base = Some b \<and> sf_hash b = sf_hash l")
    case True
    with Some assms(1) obtain u where "take_file r w = (Inr u, w')"
      by (auto simp: merge_path_def seq_Inr ret_def)
    then show ?thesis by (rule take_file_keeps)
  next
    case False
    with Some assms have "bnd (try_content_merge px p base l r) (\<lambda>merged. case merged of
            Some n \<Rightarrow> ret (if n > 0 then acc\<lparr>mr_unresolved := mr_unresolved acc @ [(p, n)]\<rparr> else acc)
          | None \<Rightarrow> bnd (write_conflict_file px r) (\<lambda>q. ret (acc\<lparr>mr_conflicts := mr_conflicts acc @ [q]\<rparr>))) w = (Inr result, w')"
      by (auto simp: merge_path_def split: option.splits)
    then show ?thesis unfolding bnd_Inr using conflicting_merge_keeps by blast
  qed
qed

definition cloud_entry :: snap_file where
  "cloud_entry = (demo_entry ''a'' ''22'')\<lparr>sf_chunks := [\<lparr>ck_hash = replicate 64 CHR ''c'', ck_size = Some 3\<rparr>]\<rparr>"

definition indexed_world :: world where
  "indexed_world = new_world\<lparr>w_index := Some \<lparr>ix_entries = [], ix_pending = []\<rparr>\<rparr>"

theorem merge_keeps_remote_version_witness:
  "\<exists>w'. merge_path demo_px ''a'' None None (Some cloud_entry) \<lparr>mr_conflicts = [], mr_unresolved = [], mr_decisions = []\<rparr> indexed_world
      = (Inr \<lparr>mr_conflicts = [], mr_unresolved = [], mr_decisions = []\<rparr>, w')
    \<and> kept_somewhere demo_px ''a'' None cloud_entry \<lparr>mr_conflicts = [], mr_unresolved = [], mr_decisions = []\<rparr>
        \<lparr>mr_conflicts = [], mr_unresolved = [], mr_decisions = []\<rparr> indexed_world w'"
proof -
  let ?h = "replicate 64 CHR ''c''"
  have "is_object_hash ?h" by (simp add: is_object_hash_def is_lower_hex_def list_all_iff)
  moreover have "rooted (w_store indexed_world)" by (simp add: indexed_world_def new_world_def rooted_def proper_def)
  ultimately obtain ks where "to_os_path (w_store indexed_world) (chunk_path ?h) = Inr ks" "ks \<noteq> []"
    using os_chunk by blast
  then have "fs_exists (chunk_path ?h) (w_store indexed_world) = (Inr False, w_store indexed_world)"
    by (simp add: fs_exists_def on_path_cases os_stat_def) (simp add: indexed_world_def new_world_def)
  then have "has_chunks cloud_entry indexed_world = (Inr False, indexed_world)"
    by (simp add: has_chunks_def cloud_entry_def demo_entry_def on_store_def bnd_def ret_def)
  then obtain w' where "merge_path demo_px ''a'' None None (Some cloud_entry)
      \<lparr>mr_conflicts = [], mr_unresolved = [], mr_decisions = []\<rparr> indexed_world
      = (Inr \<lparr>mr_conflicts = [], mr_unresolved = [], mr_decisions = []\<rparr>, w')"
    by (simp add: merge_path_def take_file_def seq_def bnd_def mark_pending_def load_index_def set_index_def modify_def ret_def)
      (simp add: indexed_world_def set_index_def modify_def)
  with merge_keeps_remote_version [OF this] show ?thesis
    by auto
qed

text \<open>
  An edit wins over a deletion, and says so. Where this device changed a file the other deleted,
  nothing is written; where the other changed a file this device deleted, its version is taken; and in
  both cases the path is reported as a decision.
\<close>

theorem merge_edit_over_delete:
  assumes "sf_hash f \<noteq> sf_hash b"
  shows "merge_path px p (Some b) (Some f) None acc w = (Inr (acc\<lparr>mr_decisions := mr_decisions acc @ [p]\<rparr>), w)
    \<and> merge_path px p (Some b) None (Some f) acc = seq (take_file f) (ret (acc\<lparr>mr_decisions := mr_decisions acc @ [p]\<rparr>))"
  using assms by (simp add: merge_path_def ret_def)

theorem merge_edit_over_delete_witness:
  "merge_path demo_px ''a'' (Some (demo_entry ''a'' ''00'')) (Some (demo_entry ''a'' ''11'')) None
     \<lparr>mr_conflicts = [], mr_unresolved = [], mr_decisions = []\<rparr> new_world
   = (Inr \<lparr>mr_conflicts = [], mr_unresolved = [], mr_decisions = [''a'']\<rparr>, new_world)"
  using merge_edit_over_delete [of "demo_entry ''a'' ''11''" "demo_entry ''a'' ''00''"] by (simp add: demo_entry_def)

section \<open>Two flaws of the merge\<close>

lemma bnd_throws: "\<exists>e. fst (m w) = Inl e \<Longrightarrow> \<exists>e. fst (bnd m f w) = Inl e"
  by (auto simp: bnd_def split: prod.split sum.split)

lemma fold_eff_throws:
  assumes "x \<in> set xs" and "\<And>acc w. \<exists>e. fst (f x acc w) = Inl e"
  shows "\<exists>e. fst (fold_eff f xs acc w) = Inl e"
  using assms(1)
proof (induction xs arbitrary: acc w)
  case (Cons y xs)
  show ?case
  proof (cases "y = x")
    case True
    then show ?thesis using bnd_throws [OF assms(2)] by simp
  next
    case False
    with Cons show ?thesis by (auto simp: bnd_def split: prod.split sum.split)
  qed
qed simp

text \<open>
  C24: a path both devices deleted makes the merge throw. It is still in the common ancestor, so the
  loop visits it, no branch covers a path that is on neither side, and reading \<open>localFile.hash\<close>
  there is a type error. No such merge ever returns; and when the paths before it have been merged,
  what it throws is that type error, with the paths behind it unmerged and the index not flushed.
\<close>

theorem merge_deleted_on_both_sides_throws:
  assumes "rget base p = Some b" and "rget local p = None" and "rget remote p = None"
  shows "(\<exists>e. fst (merge_files px base local remote w) = Inl e)
    \<and> (\<forall>ps qs acc v. uniq (rkeys base @ rkeys local @ rkeys remote) = ps @ p # qs
         \<longrightarrow> fold_eff (\<lambda>q. merge_path px q (rget base q) (rget local q) (rget remote q)) ps
               \<lparr>mr_conflicts = [], mr_unresolved = [], mr_decisions = []\<rparr> w = (Inr acc, v)
         \<longrightarrow> merge_files px base local remote w = (Inl type_error, v))"
proof -
  have throws: "merge_path px p (rget base p) (rget local p) (rget remote p) acc = throw type_error" for acc
    by (simp add: assms merge_path_def)
  have "p \<in> set (uniq (rkeys base @ rkeys local @ rkeys remote))"
    using map_of_SomeD [OF assms(1)] by (force simp: image_iff)
  then have "\<exists>e. fst (fold_eff (\<lambda>p. merge_path px p (rget base p) (rget local p) (rget remote p))
      (uniq (rkeys base @ rkeys local @ rkeys remote)) acc w) = Inl e" for acc
    by (rule fold_eff_throws) (simp add: throws throw_def)
  then have "\<exists>e. fst (merge_files px base local remote w) = Inl e"
    unfolding merge_files_def by (rule bnd_throws)
  then show ?thesis
    by (auto simp: merge_files_def fold_eff_append bnd_def throws throw_def)
qed

theorem merge_deleted_on_both_sides_throws_witness:
  "merge_files demo_px [(''a'', demo_entry ''a'' ''00'')] [] [] new_world = (Inl type_error, new_world)"
  by (rule merge_deleted_on_both_sides_throws [where p = "''a''", THEN conjunct2, rule_format, where ps = "[]" and qs = "[]"])
    (simp_all add: uniq_def ret_def)

text \<open>
  A file only this device changed is treated as a conflict. Its remote version is the common
  ancestor's, yet with no content merger the merge writes a conflict copy of that old version and
  reports it.
\<close>

theorem merge_one_sided_edit_conflicts:
  assumes "px_merger px = None" and "sf_hash r = sf_hash b" and "sf_hash l \<noteq> sf_hash b"
  shows "merge_path px p (Some b) (Some l) (Some r) acc
    = bnd (write_conflict_file px r) (\<lambda>q. ret (acc\<lparr>mr_conflicts := mr_conflicts acc @ [q]\<rparr>))"
  using assms by (auto simp: merge_path_def content_merge_off)

theorem merge_one_sided_edit_conflicts_witness:
  "merge_path demo_px ''a'' (Some (demo_entry ''a'' ''00'')) (Some (demo_entry ''a'' ''11'')) (Some (demo_entry ''a'' ''00''))
     \<lparr>mr_conflicts = [], mr_unresolved = [], mr_decisions = []\<rparr>
   = bnd (write_conflict_file demo_px (demo_entry ''a'' ''00''))
       (\<lambda>q. ret \<lparr>mr_conflicts = [q], mr_unresolved = [], mr_decisions = []\<rparr>)"
  by (subst merge_one_sided_edit_conflicts) (simp_all add: demo_px_def demo_entry_def)

end
