(* ===== verification/Engine.thy ===== *)
theory Engine
  imports RepoInv
begin

text \<open>
  A sync round: \<open>packages/sync/src/engine.ts\<close> over the \<open>SyncRemote\<close> interface of
  \<open>remote/sync-remote.ts\<close>.
\<close>

section \<open>The remote's interface\<close>

text \<open>
  A remote is given by its five operations on a state of its own. Sets are lists in insertion
  order, maps are insertion-ordered records.
\<close>

record 'r remote_ops =
  ro_getHead :: "('r, string option) eff"
  ro_setHead :: "string option \<Rightarrow> string \<Rightarrow> ('r, bool) eff"
  ro_hasObjects :: "string list \<Rightarrow> ('r, string list) eff"
  ro_getObjects :: "string list \<Rightarrow> ('r, bytes rec) eff"
  ro_putObjects :: "bytes rec \<Rightarrow> ('r, unit) eff"

record fetch_progress =
  fp_filesDone :: nat
  fp_filesTotal :: nat
  fp_bytesDone :: int
  fp_bytesTotal :: int
  fp_cloudBytes :: int

text \<open>
  The device's repository, the remote, the steps other devices will take on the remote (one before
  each of this device's calls while there are any), and the progress reported so far, latest first.
\<close>

record 'r engine =
  en_local :: world
  en_remote :: 'r
  en_others :: "('r \<Rightarrow> 'r) list"
  en_progress :: "fetch_progress list"

definition on_local :: "(world, 'a) eff \<Rightarrow> ('r engine, 'a) eff" where
  "on_local m = (\<lambda>e. case m (en_local e) of (r, w) \<Rightarrow> (r, e\<lparr>en_local := w\<rparr>))"

definition others_step :: "('r engine, unit) eff" where
  "others_step = modify (\<lambda>e. case en_others e of [] \<Rightarrow> e | f # fs \<Rightarrow> e\<lparr>en_remote := f (en_remote e), en_others := fs\<rparr>)"

definition on_remote :: "('r, 'a) eff \<Rightarrow> ('r engine, 'a) eff" where
  "on_remote m = seq others_step (\<lambda>e. case m (en_remote e) of (r, s) \<Rightarrow> (r, e\<lparr>en_remote := s\<rparr>))"

definition get_batch :: nat where "get_batch = 32"
definition stat_batch :: nat where "stat_batch = 512"
definition put_batch_bytes :: nat where "put_batch_bytes = 16 * 1024 * 1024"
definition max_head_moved_retries :: nat where "max_head_moved_retries = 3"

text \<open>\<open>for (let i = 0; i < xs.length; i += n) xs.slice(i, i + n)\<close>\<close>

function batches :: "nat \<Rightarrow> 'a list \<Rightarrow> 'a list list" where
  "batches n xs = (if xs = [] \<or> n = 0 then [] else take n xs # batches n (drop n xs))"
  by pat_completeness auto
termination
  by (relation "measure (length \<circ> snd)") (auto simp: diff_less)

declare batches.simps [simp del]

section \<open>Fetching\<close>

definition vault_prefix :: string where "vault_prefix = ''vault/''"

text \<open>A chunk's bytes are stored only under the address they hash to.\<close>

definition store_fetched :: "params \<Rightarrow> bytes rec \<Rightarrow> string \<Rightarrow> ('r engine, unit) eff" where
  "store_fetched px objects hash =
     (case rget objects hash of
        None \<Rightarrow> throw (IllegalStateError ''Chunk is missing on the remote'')
      | Some content \<Rightarrow>
          if px_sha px content \<noteq> hash then throw (IllegalStateError ''Chunk integrity check failed'')
          else on_local (on_store (\<lambda>t. fs_write t (chunk_path hash) content)))"

definition fetch_and_store ::
    "params \<Rightarrow> 'r remote_ops \<Rightarrow> string list \<Rightarrow> (string list \<Rightarrow> 'b \<Rightarrow> ('r engine, 'b) eff) \<Rightarrow> 'b \<Rightarrow> ('r engine, 'b) eff" where
  "fetch_and_store px rm hashes on_batch acc =
     fold_eff (\<lambda>batch acc.
       bnd (on_remote (ro_getObjects rm batch)) (\<lambda>objects.
       seq (for_each batch (store_fetched px objects)) (on_batch batch acc))) (batches get_batch hashes) acc"

text \<open>What a head fetch finds out before it downloads anything.\<close>

record fetch_plan =
  pl_sizes :: "int rec"
  pl_local :: "string list"
  pl_missing :: "string list"
  pl_waiting :: "nat list rec"
  pl_remaining :: "nat list"
  pl_cloud :: int

definition plan_chunk :: "chunk_ref \<Rightarrow> fetch_plan \<Rightarrow> (world, fetch_plan) eff" where
  "plan_chunk c pl =
     (if rget (pl_sizes pl) (ck_hash c) \<noteq> None then ret pl
      else bnd (on_store (\<lambda>_. fs_exists (chunk_path (ck_hash c)))) (\<lambda>there.
        let pl = pl\<lparr>pl_sizes := rset (ck_hash c) (case ck_size c of Some n \<Rightarrow> n | None \<Rightarrow> 0) (pl_sizes pl)\<rparr>
        in ret (if there then pl\<lparr>pl_local := pl_local pl @ [ck_hash c]\<rparr>
                else pl\<lparr>pl_missing := pl_missing pl @ [ck_hash c]\<rparr>)))"

definition await_chunk :: "nat \<Rightarrow> fetch_plan \<Rightarrow> string \<Rightarrow> fetch_plan" where
  "await_chunk index pl h =
     (if h \<in> set (pl_local pl) then pl
      else pl\<lparr>pl_remaining := (pl_remaining pl)[index := Suc (pl_remaining pl ! index)],
              pl_waiting := rset h (case rget (pl_waiting pl) h of None \<Rightarrow> [index] | Some fs \<Rightarrow> fs @ [index]) (pl_waiting pl)\<rparr>)"

definition plan_file :: "params \<Rightarrow> bool \<Rightarrow> string \<times> snap_file \<Rightarrow> fetch_plan \<Rightarrow> (world, fetch_plan) eff" where
  "plan_file px everything e pl =
     (let (p, f) = e; counted = starts_with p vault_prefix
      in bnd (if everything then ret True else wants_content px f) (\<lambda>wanted.
         if \<not> wanted
         then ret (if counted then pl\<lparr>pl_cloud := pl_cloud pl + (case sf_size f of Some n \<Rightarrow> n | None \<Rightarrow> 0)\<rparr> else pl)
         else bnd (fold_eff plan_chunk (sf_chunks f) pl) (\<lambda>pl.
           ret (if \<not> counted then pl
                else foldl (await_chunk (length (pl_remaining pl))) (pl\<lparr>pl_remaining := pl_remaining pl @ [0]\<rparr>)
                       (uniq (map ck_hash (sf_chunks f)))))))"

definition empty_plan :: fetch_plan where
  "empty_plan = \<lparr>pl_sizes = [], pl_local = [], pl_missing = [], pl_waiting = [], pl_remaining = [], pl_cloud = 0\<rparr>"

text \<open>The counters that move while batches arrive: \<open>remaining\<close>, \<open>filesDone\<close>, \<open>bytesDone\<close>.\<close>

type_synonym counters = "nat list \<times> nat \<times> int"

definition report_progress :: "fetch_plan \<Rightarrow> counters \<Rightarrow> ('r engine, unit) eff" where
  "report_progress pl c =
     modify (\<lambda>e. e\<lparr>en_progress := \<lparr>fp_filesDone = fst (snd c), fp_filesTotal = length (pl_remaining pl),
       fp_bytesDone = snd (snd c), fp_bytesTotal = sum_list (map snd (pl_sizes pl)), fp_cloudBytes = pl_cloud pl\<rparr> # en_progress e\<rparr>)"

definition file_arrived :: "counters \<Rightarrow> nat \<Rightarrow> counters" where
  "file_arrived c index =
     (let n = fst c ! index - 1
      in ((fst c)[index := n], if n = 0 then Suc (fst (snd c)) else fst (snd c), snd (snd c)))"

definition chunk_arrived :: "fetch_plan \<Rightarrow> counters \<Rightarrow> string \<Rightarrow> counters" where
  "chunk_arrived pl c h =
     (let c = (fst c, fst (snd c), snd (snd c) + (case rget (pl_sizes pl) h of Some n \<Rightarrow> n | None \<Rightarrow> 0))
      in foldl file_arrived c (case rget (pl_waiting pl) h of Some fs \<Rightarrow> fs | None \<Rightarrow> []))"

definition start_counters :: "fetch_plan \<Rightarrow> counters" where
  "start_counters pl =
     (pl_remaining pl, length (filter (\<lambda>n. n = 0) (pl_remaining pl)),
      sum_list (map snd (filter (\<lambda>(h, n). h \<in> set (pl_local pl)) (pl_sizes pl))))"

definition fetch_chunks :: "params \<Rightarrow> 'r remote_ops \<Rightarrow> bool \<Rightarrow> snap_file rec \<Rightarrow> ('r engine, unit) eff" where
  "fetch_chunks px rm everything files =
     bnd (on_local (fold_eff (plan_file px everything) files empty_plan)) (\<lambda>pl.
     if everything then fetch_and_store px rm (pl_missing pl) (\<lambda>_ _. ret ()) ()
     else seq (report_progress pl (start_counters pl))
       (bnd (fetch_and_store px rm (pl_missing pl) (\<lambda>stored c.
           let c = foldl (chunk_arrived pl) c stored in seq (report_progress pl c) (ret c)) (start_counters pl))
         (\<lambda>_. ret ())))"

definition parse_snapshot :: "params \<Rightarrow> string \<Rightarrow> bytes \<Rightarrow> ('s, snapshot) eff" where
  "parse_snapshot px hash b =
     bnd (parse_or_throw (utf8_decode b)) (\<lambda>j.
     bnd (or_type_error (snapshot_of_json j)) (\<lambda>s.
       if sn_hash s \<noteq> hash \<or> snapshot_hash (px_sha px) (sn_parent s) (sn_files s) \<noteq> hash
       then throw (IllegalStateError ''Snapshot integrity check failed'') else ret s))"

text \<open>
  The chain of unknown snapshots, newest first. The walk follows what the remote serves, so its
  length is the remote's: the first argument bounds it, and running out is \<open>stuck\<close>.
\<close>

fun fetch_chain :: "params \<Rightarrow> 'r remote_ops \<Rightarrow> nat \<Rightarrow> string list \<Rightarrow> string option \<Rightarrow> ('r engine, (snapshot \<times> bytes) list) eff" where
  "fetch_chain px rm n visited None = ret []"
| "fetch_chain px rm 0 visited (Some h) = throw stuck"
| "fetch_chain px rm (Suc n) visited (Some h) =
     (if h \<in> set visited then ret []
      else bnd (on_local (on_store (\<lambda>_. fs_exists (snapshot_path h)))) (\<lambda>known.
        if known then ret []
        else bnd (on_remote (ro_getObjects rm [h])) (\<lambda>objects.
          case rget objects h of
            None \<Rightarrow> ret []
          | Some b \<Rightarrow>
              bnd (parse_snapshot px h b) (\<lambda>s.
              bnd (fetch_chain px rm n (h # visited) (sn_parent s)) (\<lambda>older. ret ((s, b) # older))))))"

definition fetch_head :: "params \<Rightarrow> 'r remote_ops \<Rightarrow> nat \<Rightarrow> string \<Rightarrow> ('r engine, unit) eff" where
  "fetch_head px rm n head =
     bnd (fetch_chain px rm n [] (Some head)) (\<lambda>chain.
     seq (for_each (rev chain) (\<lambda>(s, b). on_local (on_store (\<lambda>t. fs_write t (snapshot_path (sn_hash s)) b))))
     (bnd (on_local (on_store (\<lambda>_. fs_exists (snapshot_path head)))) (\<lambda>there.
        if \<not> there then throw (IllegalStateError ''Remote head could not be fetched'')
        else bnd (on_local (read_snapshot head)) (\<lambda>s. fetch_chunks px rm False (sn_files s)))))"

definition fetch_file :: "params \<Rightarrow> 'r remote_ops \<Rightarrow> snapshot \<Rightarrow> string \<Rightarrow> ('r engine, unit) eff" where
  "fetch_file px rm s p =
     (case rget (sn_files s) p of
        None \<Rightarrow> throw (IllegalStateError ''File is not present in this snapshot'')
      | Some f \<Rightarrow> fetch_chunks px rm True [(p, f)])"

definition fetch_chunk_objects :: "params \<Rightarrow> 'r remote_ops \<Rightarrow> string list \<Rightarrow> ('r engine, unit) eff" where
  "fetch_chunk_objects px rm hashes = fetch_and_store px rm hashes (\<lambda>_ _. ret ()) ()"

definition engine_materialize :: "params \<Rightarrow> 'r remote_ops \<Rightarrow> string \<Rightarrow> ('r engine, unit) eff" where
  "engine_materialize px rm p =
     bnd (on_local (is_pending p)) (\<lambda>pending.
     if \<not> pending then ret ()
     else bnd (on_local get_head_snapshot) (\<lambda>head.
          seq (fetch_file px rm head p) (on_local (materialize p))))"

section \<open>Pushing\<close>

text \<open>The local chain from a snapshot back to the head synced against, newest first.\<close>

function push_chain :: "disk \<Rightarrow> string option \<Rightarrow> string list \<Rightarrow> string option \<Rightarrow> app_error + (string \<times> bytes \<times> snapshot) list" where
  "push_chain d synced visited current =
     (case current of
        None \<Rightarrow> Inr []
      | Some h \<Rightarrow>
          if Some h = synced \<or> h \<in> set visited then Inr []
          else case fst (fs_read (snapshot_path h) d) of
              Inl (FileNotFound _) \<Rightarrow> Inr []
            | Inl e \<Rightarrow> Inl e
            | Inr b \<Rightarrow>
                (case parse_json (utf8_decode b) of
                   None \<Rightarrow> Inl SyntaxFailure
                 | Some j \<Rightarrow>
                     (case snapshot_of_json j of
                        None \<Rightarrow> Inl type_error
                      | Some s \<Rightarrow> map_sum id (Cons (h, b, s)) (push_chain d synced (h # visited) (sn_parent s)))))"
  by pat_completeness auto
termination
proof (relation "measure (\<lambda>(d, _, visited, current). card ((set_option current \<union> stored_parents d) - set visited))")
  fix d :: disk and synced :: "string option" and visited :: "string list" and current :: "string option" and h b j s
  assume current: "current = Some h" and new: "\<not> (Some h = synced \<or> h \<in> set visited)"
    and read: "fst (fs_read (snapshot_path h) d) = Inr b"
    and parsed: "parse_json (utf8_decode b) = Some j" "snapshot_of_json j = Some s"
  have "file_at d (snapshot_path h) = Some b"
    using read fs_read_ok by (metis prod.collapse)
  then have "load_snapshot d h = Inr s"
    using parsed by (auto simp: load_snapshot_Inr)
  then have "set_option (sn_parent s) \<subseteq> stored_parents d"
    using load_snapshot_parent by (auto split: option.splits)
  then have "(set_option (sn_parent s) \<union> stored_parents d) - set (h # visited)
      \<subset> (set_option current \<union> stored_parents d) - set visited"
    using current new by auto
  then show "((d, synced, h # visited, sn_parent s), (d, synced, visited, current))
      \<in> measure (\<lambda>(d, _, visited, current). card ((set_option current \<union> stored_parents d) - set visited))"
    by (simp add: psubset_card_mono finite_stored_parents)
qed simp

declare push_chain.simps [simp del]

definition snapshot_chunks :: "snapshot \<Rightarrow> string list" where
  "snapshot_chunks s = concat (map (\<lambda>(p, f). map ck_hash (sf_chunks f)) (sn_files s))"

definition missing_on_remote :: "'r remote_ops \<Rightarrow> string list \<Rightarrow> ('r engine, string list) eff" where
  "missing_on_remote rm hashes =
     fold_eff (\<lambda>batch missing.
       bnd (on_remote (ro_hasObjects rm batch)) (\<lambda>has.
         ret (missing @ filter (\<lambda>h. h \<notin> set has) batch))) (batches stat_batch hashes) []"

text \<open>Upload in payloads: one goes out when it has reached the batch size, the rest at the end.\<close>

definition upload_chunk :: "'r remote_ops \<Rightarrow> string \<Rightarrow> bytes rec \<times> nat \<Rightarrow> ('r engine, bytes rec \<times> nat) eff" where
  "upload_chunk rm h acc =
     bnd (on_local (on_store (\<lambda>_. fs_read (chunk_path h)))) (\<lambda>content.
       let payload = rset h content (fst acc); n = snd acc + length content
       in if n \<ge> put_batch_bytes
          then seq (on_remote (ro_putObjects rm payload)) (ret ([], 0))
          else ret (payload, n))"

definition upload_chunks :: "'r remote_ops \<Rightarrow> string list \<Rightarrow> ('r engine, unit) eff" where
  "upload_chunks rm missing =
     bnd (fold_eff (upload_chunk rm) missing ([], 0)) (\<lambda>(payload, _).
       when_do (payload \<noteq> []) (on_remote (ro_putObjects rm payload)))"

definition push :: "'r remote_ops \<Rightarrow> string option \<Rightarrow> snapshot \<Rightarrow> ('r engine, unit) eff" where
  "push rm synced latest =
     (if Some (sn_hash latest) = synced then ret ()
      else bnd (on_local (\<lambda>w. (push_chain (w_store w) synced [] (Some (sn_hash latest)), w))) (\<lambda>chain.
           bnd (on_remote (ro_hasObjects rm (map fst chain))) (\<lambda>known.
           let fresh = filter (\<lambda>(h, _, _). h \<notin> set known) chain;
               wanted = uniq (concat (map (\<lambda>(_, _, s). snapshot_chunks s) fresh))
           in bnd (missing_on_remote rm wanted) (\<lambda>missing.
              seq (upload_chunks rm missing)
             (seq (when_do (fresh \<noteq> [])
                     (on_remote (ro_putObjects rm (foldl (\<lambda>m (h, b, _). rset h b m) [] (rev fresh)))))
             (bnd (on_remote (ro_setHead rm synced (sn_hash latest))) (\<lambda>committed.
                if \<not> committed then throw SyncHeadMovedError else ret ())))))))"

section \<open>A round\<close>

definition is_blank :: "char \<Rightarrow> bool" where
  "is_blank c \<longleftrightarrow> (of_char c :: nat) \<in> {9, 10, 11, 12, 13, 32}"

definition trim :: "string \<Rightarrow> string" where
  "trim s = rev (dropWhile is_blank (rev (dropWhile is_blank s)))"

definition read_last_synced :: "(world, string option) eff" where
  "read_last_synced =
     bnd (on_store (\<lambda>_. fs_exists last_synced_path)) (\<lambda>there.
     if \<not> there then ret None
     else bnd (on_store (\<lambda>_. read_text last_synced_path)) (\<lambda>t. ret (if trim t = [] then None else Some (trim t))))"

definition merge_round :: "params \<Rightarrow> string option \<Rightarrow> (world, snapshot \<times> merge_result) eff" where
  "merge_round px synced =
     bnd (take_snapshot px) (\<lambda>local.
     bnd (read_snapshot (case synced of Some h \<Rightarrow> h | None \<Rightarrow> empty_snapshot_hash (px_sha px))) (\<lambda>remote.
     bnd (find_base_snapshot (sn_hash local) (sn_hash remote)) (\<lambda>base.
     bnd (merge_files px (case base of Some b \<Rightarrow> sn_files b | None \<Rightarrow> []) (sn_files local) (sn_files remote)) (\<lambda>result.
     seq (rebase px local remote base)
     (bnd (take_snapshot px) (\<lambda>latest. ret (latest, result)))))))"

definition sync_once :: "params \<Rightarrow> 'r remote_ops \<Rightarrow> nat \<Rightarrow> ('r engine, merge_result) eff" where
  "sync_once px rm n =
     seq (on_local (prepare px))
     (bnd (on_remote (ro_getHead rm)) (\<lambda>synced.
      bnd (on_local read_last_synced) (\<lambda>last.
      if last \<noteq> None \<and> synced = None then throw (IllegalStateError ''Remote head is gone'')
      else seq (case synced of Some h \<Rightarrow> fetch_head px rm n h | None \<Rightarrow> ret ())
          (bnd (case (last, synced) of
                  (Some l, Some h) \<Rightarrow> on_local (is_ancestor l h)
                | _ \<Rightarrow> ret True) (\<lambda>descends.
           if \<not> descends then throw (IllegalStateError ''Remote head does not descend from the last synced head'')
           else bnd (on_local (merge_round px synced)) (\<lambda>(latest, result).
                seq (push rm synced latest)
               (seq (on_local (on_store (\<lambda>t. write_text t last_synced_path (sn_hash latest))))
                    (ret result))))))))"

definition head_moved :: "app_error \<Rightarrow> bool" where
  "head_moved e \<longleftrightarrow> e = SyncHeadMovedError \<or> e = RepoHeadMovedError"

fun sync_attempts :: "params \<Rightarrow> 'r remote_ops \<Rightarrow> nat \<Rightarrow> nat \<Rightarrow> ('r engine, merge_result) eff" where
  "sync_attempts px rm n 0 = sync_once px rm n"
| "sync_attempts px rm n (Suc k) =
     catch (sync_once px rm n) (\<lambda>e. if head_moved e then sync_attempts px rm n k else throw e)"

definition sync :: "params \<Rightarrow> 'r remote_ops \<Rightarrow> nat \<Rightarrow> ('r engine, merge_result) eff" where
  "sync px rm n = sync_attempts px rm n (max_head_moved_retries - 1)"

end
