(* ===== verification/Remote.thy ===== *)
theory Remote
  imports Engine
begin

text \<open>
  What the engine relies on in a remote, as a locale; the remote over a file system
  (\<open>remote/vfs-sync-remote.ts\<close>), which keeps those laws; and the encrypting decorator
  (\<open>remote/encrypted-sync-remote.ts\<close>), which keeps them over any remote that does.
\<close>

section \<open>The contract\<close>

locale sync_remote =
  fixes rm :: "'r remote_ops"
    and ok :: "'r \<Rightarrow> bool"
    and objects :: "'r \<Rightarrow> string \<Rightarrow> bytes option"
    and remote_head :: "'r \<Rightarrow> string option"
  assumes get_head: "ok r \<Longrightarrow> ro_getHead rm r = (xh, r') \<Longrightarrow> r' = r \<and> (\<forall>h. xh = Inr h \<longrightarrow> h = remote_head r)"
    and has_objects: "ok r \<Longrightarrow> ro_hasObjects rm hs r = (xs, r') \<Longrightarrow>
      r' = r \<and> (\<forall>S. xs = Inr S \<longrightarrow> set S = {h \<in> set hs. objects r h \<noteq> None})"
    and get_objects: "ok r \<Longrightarrow> ro_getObjects rm hs r = (xg, r') \<Longrightarrow>
      r' = r \<and> (\<forall>m. xg = Inr m \<longrightarrow> distinct (rkeys m) \<and> (\<forall>h. rget m h = (if h \<in> set hs then objects r h else None)))"
    and put_objects: "ok r \<Longrightarrow> distinct (rkeys os) \<Longrightarrow> ro_putObjects rm os r = (xu, r') \<Longrightarrow>
      ok r' \<and> remote_head r' = remote_head r \<and>
      (\<forall>h. objects r' h = objects r h \<or> (\<exists>b. rget os h = Some b \<and> objects r' h = Some b)) \<and>
      (\<forall>u h b. xu = Inr u \<longrightarrow> rget os h = Some b \<longrightarrow> objects r' h = Some b)"
    and set_head: "ok r \<Longrightarrow> (\<And>h. expected = Some h \<Longrightarrow> is_object_hash h) \<Longrightarrow>
      ro_setHead rm expected nxt r = (xb, r') \<Longrightarrow>
      ok r' \<and> objects r' = objects r \<and>
      (if xb = Inr True then remote_head r = expected \<and> remote_head r' = Some nxt else remote_head r' = remote_head r)"

section \<open>A remote over a file system\<close>

definition remote_head_path :: string where "remote_head_path = ''/head''"

definition object_path :: "string \<Rightarrow> string" where
  "object_path h = ''/objects/'' @ take 2 h @ ''/'' @ take 2 (drop 2 h) @ ''/'' @ h"

definition object_file :: "string \<Rightarrow> (string \<Rightarrow> (disk, 'a) eff) \<Rightarrow> (disk, 'a) eff" where
  "object_file h f = (if \<not> is_object_hash h then throw (ValidationError ''Invalid object hash'') else f (object_path h))"

definition vfs_getHead :: "(disk, string option) eff" where
  "vfs_getHead =
     bnd (fs_exists remote_head_path) (\<lambda>there.
     if \<not> there then ret None
     else bnd (read_text remote_head_path) (\<lambda>t. ret (if trim t = [] then None else Some (trim t))))"

definition vfs_setHead :: "int \<Rightarrow> string option \<Rightarrow> string \<Rightarrow> (disk, bool) eff" where
  "vfs_setHead t expected next =
     (if \<not> is_object_hash next then throw (ValidationError ''Invalid head hash'')
      else fs_cas t remote_head_path (map_option utf8_encode expected) (utf8_encode next))"

definition vfs_hasObjects :: "string list \<Rightarrow> (disk, string list) eff" where
  "vfs_hasObjects hashes =
     fold_eff (\<lambda>h has. bnd (object_file h fs_exists) (\<lambda>there.
       ret (if there \<and> h \<notin> set has then has @ [h] else has))) hashes []"

definition vfs_getObjects :: "string list \<Rightarrow> (disk, bytes rec) eff" where
  "vfs_getObjects hashes =
     fold_eff (\<lambda>h m. bnd (object_file h fs_exists) (\<lambda>there.
       if there then bnd (object_file h fs_read) (\<lambda>b. ret (rset h b m)) else ret m)) hashes []"

definition vfs_putObjects :: "int \<Rightarrow> bytes rec \<Rightarrow> (disk, unit) eff" where
  "vfs_putObjects t objects = for_each objects (\<lambda>(h, b). object_file h (\<lambda>p. fs_write t p b))"

definition vfs_remote :: "int \<Rightarrow> disk remote_ops" where
  "vfs_remote t = \<lparr>ro_getHead = vfs_getHead, ro_setHead = vfs_setHead t, ro_hasObjects = vfs_hasObjects,
     ro_getObjects = vfs_getObjects, ro_putObjects = vfs_putObjects t\<rparr>"

subsection \<open>It keeps the contract\<close>

definition object_keys :: "string \<Rightarrow> string list" where
  "object_keys h = [''objects'', take 2 h, take 2 (drop 2 h), h]"

text \<open>No directory sits where an object belongs.\<close>

definition vfs_ok :: "disk \<Rightarrow> bool" where
  "vfs_ok d \<longleftrightarrow> rooted d \<and> (\<forall>h. is_object_hash h \<longrightarrow> \<not> is_dir (map_of (nodes d) (object_keys h))) \<and>
     \<not> is_dir (map_of (nodes d) [''head''])"

definition vfs_objects :: "disk \<Rightarrow> string \<Rightarrow> bytes option" where
  "vfs_objects d h = (if is_object_hash h then file_at d (object_path h) else None)"

definition vfs_head :: "disk \<Rightarrow> string option" where
  "vfs_head d =
     (case file_at d remote_head_path of
        None \<Rightarrow> None
      | Some b \<Rightarrow> if trim (utf8_decode b) = [] then None else Some (trim (utf8_decode b)))"

lemma os_object: "rooted d \<Longrightarrow> is_object_hash h \<Longrightarrow> to_os_path d (object_path h) = Inr (object_keys h)"
proof -
  assume root: "rooted d" and h: "is_object_hash h"
  have "proper ''objects''" by (simp add: proper_def)
  then have "list_all proper (object_keys h)"
    using object_hash_proper [OF h] object_hash_parts [OF h] by (simp add: object_keys_def)
  from to_os_path_names [OF root this] show ?thesis
    by (simp add: object_path_def object_keys_def)
qed

lemma os_remote_head: "rooted d \<Longrightarrow> to_os_path d remote_head_path = Inr [''head'']"
  using to_os_path_names [of d "[''head'']"] by (simp add: proper_def remote_head_path_def)

lemma exists_object:
  assumes "vfs_ok d" and "is_object_hash h"
  shows "fs_exists (object_path h) d = (Inr (vfs_objects d h \<noteq> None), d)"
proof -
  have "\<not> is_dir (map_of (nodes d) (object_keys h))" "rooted d"
    using assms by (simp_all add: vfs_ok_def)
  with assms(2) show ?thesis
    by (auto simp: fs_exists_def on_path_cases os_object vfs_objects_def file_at_key os_stat_def object_keys_def
        split: option.splits node.splits)
qed

lemma read_object:
  assumes "vfs_ok d" and "is_object_hash h" and "vfs_objects d h = Some b"
  shows "fs_read (object_path h) d = (Inr b, d)"
  using assms by (simp add: fs_read_ok vfs_objects_def)

lemma hex_not_blank: "is_lower_hex c \<Longrightarrow> \<not> is_blank c"
  unfolding is_lower_hex_def is_blank_def by auto

lemma trim_hash: "is_object_hash h \<Longrightarrow> trim h = h"
proof -
  assume h: "is_object_hash h"
  have clean: "\<forall>c \<in> set h. \<not> is_blank c"
    using h hex_not_blank by (auto simp: is_object_hash_def list_all_iff)
  have keep: "dropWhile is_blank s = s" if "\<forall>c \<in> set s. \<not> is_blank c" for s
    using that by (cases s) simp_all
  show ?thesis
    unfolding trim_def using keep [OF clean] keep [of "rev h"] clean by simp
qed

lemma vfs_has_law:
  assumes ok: "vfs_ok d" and run: "vfs_hasObjects hs d = (x, d')"
  shows "d' = d \<and> (\<forall>S. x = Inr S \<longrightarrow> set S = {h \<in> set hs. vfs_objects d h \<noteq> None})"
proof -
  have "fold_eff (\<lambda>h has. bnd (object_file h fs_exists) (\<lambda>there.
       ret (if there \<and> h \<notin> set has then has @ [h] else has))) hs acc d = (x, d') \<Longrightarrow>
     d' = d \<and> (\<forall>S. x = Inr S \<longrightarrow> set S = set acc \<union> {h \<in> set hs. vfs_objects d h \<noteq> None})" for acc
  proof (induction hs arbitrary: acc)
    case (Cons h hs)
    show ?case
    proof (cases "is_object_hash h")
      case True
      from Cons.prems have "fold_eff (\<lambda>h has. bnd (object_file h fs_exists) (\<lambda>there.
          ret (if there \<and> h \<notin> set has then has @ [h] else has))) hs
          (if vfs_objects d h \<noteq> None \<and> h \<notin> set acc then acc @ [h] else acc) d = (x, d')"
        using exists_object [OF ok True] True by (simp add: object_file_def bnd_def ret_def)
      from Cons.IH [OF this] show ?thesis by (auto split: if_splits)
    next
      case False
      with Cons.prems show ?thesis by (auto simp: object_file_def throw_def bnd_def)
    qed
  qed (auto simp: ret_def)
  from this [of "[]"] run show ?thesis by (simp add: vfs_hasObjects_def)
qed

lemma vfs_get_law:
  assumes ok: "vfs_ok d" and run: "vfs_getObjects hs d = (x, d')"
  shows "d' = d \<and> (\<forall>m. x = Inr m \<longrightarrow> distinct (rkeys m) \<and> (\<forall>h. rget m h = (if h \<in> set hs then vfs_objects d h else None)))"
proof -
  have "fold_eff (\<lambda>h m. bnd (object_file h fs_exists) (\<lambda>there.
       if there then bnd (object_file h fs_read) (\<lambda>b. ret (rset h b m)) else ret m)) hs acc d = (x, d') \<Longrightarrow>
     (\<forall>h. rget acc h \<noteq> None \<longrightarrow> rget acc h = vfs_objects d h) \<Longrightarrow>
     distinct (rkeys acc) \<Longrightarrow>
     d' = d \<and> (\<forall>m. x = Inr m \<longrightarrow> distinct (rkeys m) \<and> (\<forall>h. rget m h = (if h \<in> set hs then vfs_objects d h else rget acc h)))" for acc
  proof (induction hs arbitrary: acc)
    case (Cons h hs)
    show ?case
    proof (cases "is_object_hash h")
      case True
      let ?acc = "case vfs_objects d h of None \<Rightarrow> acc | Some b \<Rightarrow> rset h b acc"
      from Cons.prems(1) have "fold_eff (\<lambda>h m. bnd (object_file h fs_exists) (\<lambda>there.
          if there then bnd (object_file h fs_read) (\<lambda>b. ret (rset h b m)) else ret m)) hs ?acc d = (x, d')"
        using exists_object [OF ok True] read_object [OF ok True] True
        by (cases "vfs_objects d h") (auto simp: object_file_def bnd_def ret_def)
      moreover have "\<forall>k. rget ?acc k \<noteq> None \<longrightarrow> rget ?acc k = vfs_objects d k"
        using Cons.prems(2) by (auto simp: update_conv' split: option.split)
      moreover have "distinct (rkeys ?acc)"
        using Cons.prems(3) by (simp split: option.split)
      ultimately have res: "d' = d \<and> (\<forall>m. x = Inr m \<longrightarrow> distinct (rkeys m) \<and> (\<forall>k. rget m k = (if k \<in> set hs then vfs_objects d k else rget ?acc k)))"
        by (rule Cons.IH)
      have "rget ?acc k = (if k = h then vfs_objects d h else rget acc k)" if "vfs_objects d h \<noteq> None \<or> k \<noteq> h" for k
        using that by (auto simp: update_conv' split: option.split)
      moreover have "rget acc h = None" if "vfs_objects d h = None"
        using Cons.prems(2) that by metis
      ultimately have "(if k \<in> set hs then vfs_objects d k else rget ?acc k) =
          (if k \<in> set (h # hs) then vfs_objects d k else rget acc k)" for k
        by (cases "k = h"; cases "vfs_objects d h") auto
      with res show ?thesis by simp
    next
      case False
      with Cons.prems show ?thesis by (auto simp: object_file_def throw_def bnd_def)
    qed
  qed (auto simp: ret_def)
  from this [of "[]"] run show ?thesis by (simp add: vfs_getObjects_def)
qed

lemma exists_head: "vfs_ok d \<Longrightarrow> fs_exists remote_head_path d = (Inr (file_at d remote_head_path \<noteq> None), d)"
  by (auto simp: vfs_ok_def fs_exists_def on_path_cases os_remote_head file_at_key os_stat_def
      split: option.splits node.splits)

text \<open>On a store in order the head and an object can always be read.\<close>

lemma vfs_getHead_total: "vfs_ok d \<Longrightarrow> vfs_getHead d = (Inr (vfs_head d), d)"
proof (cases "file_at d remote_head_path")
  case (Some b)
  then have "read_text remote_head_path d = (Inr (utf8_decode b), d)"
    using fs_read_ok [of remote_head_path d b d] by (simp add: read_text_def bnd_def ret_def)
  moreover assume "vfs_ok d"
  ultimately show ?thesis
    using Some exists_head [of d] by (auto simp: vfs_getHead_def bnd_def ret_def vfs_head_def)
qed (simp add: vfs_getHead_def bnd_def ret_def vfs_head_def exists_head)

lemma vfs_getObjects_one:
  "vfs_ok d \<Longrightarrow> is_object_hash h \<Longrightarrow>
     vfs_getObjects [h] d = (Inr (case vfs_objects d h of None \<Rightarrow> [] | Some b \<Rightarrow> [(h, b)]), d)"
  using exists_object [of d h] read_object [of d h]
  by (auto simp: vfs_getObjects_def object_file_def bnd_def ret_def split: option.splits)

lemma vfs_head_law: "vfs_ok d \<Longrightarrow> vfs_getHead d = (x, d') \<Longrightarrow> d' = d \<and> (\<forall>h. x = Inr h \<longrightarrow> h = vfs_head d)"
  by (auto simp: vfs_getHead_total)

lemma replace_file_dirs:
  assumes run: "replace_file t ks b d = (x, d')" and new: "is_dir (map_of (nodes d') q)"
  shows "is_dir (map_of (nodes d) q) \<or> q \<in> set (ancestors ks)"
proof (cases "make_dirs t (ancestors ks) (nodes d)")
  case (Inl e)
  with run new show ?thesis by (simp add: replace_file_def)
next
  case (Inr ns)
  with run have "nodes d' = ns \<or> nodes d' = AList.update ks (File b t t) ns"
    by (auto simp: replace_file_def split: if_splits)
  then have "is_dir (map_of ns q)"
    using new by (auto simp: update_conv' split: if_splits)
  then show ?thesis
    using make_dirs_lookup [OF Inr, of q] by (auto split: option.splits if_splits)
qed

lemma replace_file_root: "replace_file t ks b d = (x, d') \<Longrightarrow> root_dir d' = root_dir d"
  by (auto simp: replace_file_def split: sum.splits if_splits)

lemma object_keys_inject: "object_keys h = object_keys k \<longleftrightarrow> h = k"
  by (auto simp: object_keys_def)

lemma write_object:
  assumes ok: "vfs_ok d" and h: "is_object_hash h" and run: "fs_write t (object_path h) b d = (x, d')"
  shows "vfs_ok d' \<and> vfs_head d' = vfs_head d \<and>
    (\<forall>k. vfs_objects d' k = (if x = Inr () \<and> k = h then Some b else vfs_objects d k))"
proof -
  have root: "rooted d" and dirs: "\<And>h. is_object_hash h \<Longrightarrow> \<not> is_dir (map_of (nodes d) (object_keys h))"
    and hd: "\<not> is_dir (map_of (nodes d) [''head''])"
    using ok by (auto simp: vfs_ok_def)
  note os = os_object [OF root h]
  have keys: "object_keys h \<noteq> []" by (simp add: object_keys_def)
  have short: "length a < 4 \<and> a \<noteq> [''head'']" if "a \<in> set (ancestors (object_keys h))" for a
    using that by (auto simp: ancestors_iff object_keys_def take_Suc_conv_app_nth dest!: arg_cong [where f = hd])
  have rep: "replace_file t (object_keys h) b d = (x, d')"
    using run by (simp add: fs_write_def on_path_cases os)
  have "root_dir d' = root_dir d \<and> (\<forall>q. is_dir (map_of (nodes d') q) \<longrightarrow> length q = 4 \<or> q = [''head''] \<longrightarrow> is_dir (map_of (nodes d) q))"
    using replace_file_root [OF rep] replace_file_dirs [OF rep] short by fastforce
  then have ok': "vfs_ok d'"
    using root dirs hd by (auto simp: vfs_ok_def rooted_def object_keys_def)
  have root': "rooted d'" using ok' by (simp add: vfs_ok_def)
  have at: "\<forall>q. file_at d' q = (if x = Inr () \<and> to_os_path d q = Inr (object_keys h) then Some b else file_at d q)"
  proof (cases x)
    case (Inl e)
    with fs_write_err run show ?thesis by auto
  next
    case (Inr u)
    with fs_write_ok run os show ?thesis by auto
  qed
  have "[''head''] \<noteq> object_keys h" by (simp add: object_keys_def)
  then have "file_at d' remote_head_path = file_at d remote_head_path"
    using at os_remote_head [OF root] by auto
  moreover have "vfs_objects d' k = (if x = Inr () \<and> k = h then Some b else vfs_objects d k)" for k
    using at os_object [OF root, of k] h by (auto simp: vfs_objects_def object_keys_inject)
  ultimately show ?thesis
    using ok' by (simp add: vfs_head_def)
qed

lemma vfs_put_law:
  assumes "vfs_ok d" and "distinct (rkeys os)" and "vfs_putObjects t os d = (x, d')"
  shows "vfs_ok d' \<and> vfs_head d' = vfs_head d \<and>
    (\<forall>h. vfs_objects d' h = vfs_objects d h \<or> (\<exists>b. rget os h = Some b \<and> vfs_objects d' h = Some b)) \<and>
    (\<forall>u h b. x = Inr u \<longrightarrow> rget os h = Some b \<longrightarrow> vfs_objects d' h = Some b)"
  using assms
proof (induction os arbitrary: d)
  case Nil
  then show ?case by (simp add: vfs_putObjects_def ret_def)
next
  case (Cons e os)
  obtain h b where e: "e = (h, b)" by fastforce
  show ?case
  proof (cases "is_object_hash h")
    case False
    then have "vfs_putObjects t (e # os) d = (Inl (ValidationError ''Invalid object hash''), d)"
      by (simp add: vfs_putObjects_def object_file_def throw_def seq_def bnd_def e)
    with Cons.prems show ?thesis by auto
  next
    case True
    then have step: "vfs_putObjects t (e # os) = seq (fs_write t (object_path h) b) (vfs_putObjects t os)"
      by (simp add: vfs_putObjects_def object_file_def e)
    obtain y d1 where w: "fs_write t (object_path h) b d = (y, d1)" by fastforce
    note W = write_object [OF Cons.prems(1) True w]
    show ?thesis
    proof (cases y)
      case (Inl er)
      with step Cons.prems(3) w have "x = Inl er" "d' = d1"
        by (simp_all add: seq_def bnd_def)
      with W Inl show ?thesis by simp
    next
      case (Inr u)
      with step Cons.prems(3) w have "vfs_putObjects t os d1 = (x, d')"
        by (simp add: seq_def bnd_def)
      note R = Cons.IH [OF conjunct1 [OF W] _ this]
      have dist: "distinct (rkeys os)" using Cons.prems(2) by simp
      have new: "rget os h = None"
        using Cons.prems(2) by (simp add: e map_of_eq_None_iff)
      then have here: "vfs_objects d' h = Some b"
        using conjunct1 [OF conjunct2 [OF conjunct2 [OF R [OF dist]]], rule_format, of h] new W Inr by simp
      have W1: "vfs_objects d1 k = (if k = h then Some b else vfs_objects d k)" for k
        using W Inr by simp
      have "vfs_objects d' k = vfs_objects d k \<or> (\<exists>c. rget (e # os) k = Some c \<and> vfs_objects d' k = Some c)" for k
        using conjunct1 [OF conjunct2 [OF conjunct2 [OF R [OF dist]]], rule_format, of k] W1 [of k] here
        by (cases "k = h") (auto simp: e)
      moreover have "vfs_objects d' k = Some c" if "x = Inr u" and "rget (e # os) k = Some c" for u k c
        using conjunct2 [OF conjunct2 [OF conjunct2 [OF R [OF dist]]], rule_format, OF that(1), of k c] that(2) here
        by (cases "k = h") (auto simp: e)
      ultimately show ?thesis
        using R [OF dist] W by simp
    qed
  qed
qed

lemma vfs_set_law:
  assumes ok: "vfs_ok d" and known: "\<And>h. expected = Some h \<Longrightarrow> is_object_hash h"
    and run: "vfs_setHead t expected nxt d = (x, d')"
  shows "vfs_ok d' \<and> vfs_objects d' = vfs_objects d \<and>
    (if x = Inr True then vfs_head d = expected \<and> vfs_head d' = Some nxt else vfs_head d' = vfs_head d)"
proof (cases "is_object_hash nxt")
  case False
  with ok run show ?thesis by (auto simp: vfs_setHead_def throw_def)
next
  case True
  then have cas: "fs_cas t remote_head_path (map_option utf8_encode expected) (utf8_encode nxt) d = (x, d')"
    using run by (simp add: vfs_setHead_def)
  have root: "rooted d" using ok by (simp add: vfs_ok_def)
  note os = os_remote_head [OF root]
  have dirs: "is_dir (map_of (nodes d) q)" if "is_dir (map_of (nodes d') q)" for q
    using cas replace_file_dirs [of t "[''head'']" "utf8_encode nxt" d _ d' q] that
    by (auto simp: fs_cas_def on_path_cases os effs Let_def ancestors_def split: sum.splits errno.splits node.splits
        prod.splits if_splits)
  have same: "root_dir d' = root_dir d"
    using fs_cas_ok fs_cas_err cas by (cases x) blast+
  have ok': "vfs_ok d'"
    using ok dirs same by (auto simp: vfs_ok_def rooted_def)
  show ?thesis
  proof (cases x)
    case (Inl e)
    with fs_cas_err cas have "file_at d' = file_at d" by blast
    then have "vfs_objects d' = vfs_objects d" "vfs_head d' = vfs_head d"
      by (auto simp: vfs_objects_def vfs_head_def)
    with Inl ok' show ?thesis by simp
  next
    case (Inr r)
    with fs_cas_ok [of t remote_head_path "map_option utf8_encode expected" "utf8_encode nxt" d r d'] cas
    have res: "r \<longleftrightarrow> file_at d remote_head_path = map_option utf8_encode expected"
      and at: "\<And>q. file_at d' q = (if r \<and> to_os_path d q = Inr [''head''] then Some (utf8_encode nxt) else file_at d q)"
      by (auto simp: os)
    have "vfs_objects d' h = vfs_objects d h" for h
      using at [of "object_path h"] os_object [OF root, of h] by (simp add: vfs_objects_def object_keys_def)
    moreover have "vfs_head d' = (if r then Some nxt else vfs_head d)"
      using at [of remote_head_path] trim_hash [OF True] True by (auto simp: os vfs_head_def is_object_hash_def)
    moreover have "vfs_head d = expected" if r
    proof (cases expected)
      case None
      with res that show ?thesis by (simp add: vfs_head_def)
    next
      case (Some h)
      with known have "is_object_hash h" by simp
      with res that Some show ?thesis by (auto simp: vfs_head_def trim_hash is_object_hash_def)
    qed
    ultimately show ?thesis using ok' Inr by auto
  qed
qed

text \<open>So a directory of the server is a remote the engine can rely on.\<close>

interpretation vfs: sync_remote "vfs_remote t" vfs_ok vfs_objects vfs_head for t
proof
  fix r r' xh
  show "vfs_ok r \<Longrightarrow> ro_getHead (vfs_remote t) r = (xh, r') \<Longrightarrow> r' = r \<and> (\<forall>h. xh = Inr h \<longrightarrow> h = vfs_head r)"
    using vfs_head_law by (simp add: vfs_remote_def)
next
  fix r r' hs xs
  show "vfs_ok r \<Longrightarrow> ro_hasObjects (vfs_remote t) hs r = (xs, r') \<Longrightarrow>
      r' = r \<and> (\<forall>S. xs = Inr S \<longrightarrow> set S = {h \<in> set hs. vfs_objects r h \<noteq> None})"
    using vfs_has_law by (simp add: vfs_remote_def)
next
  fix r r' hs xg
  show "vfs_ok r \<Longrightarrow> ro_getObjects (vfs_remote t) hs r = (xg, r') \<Longrightarrow>
      r' = r \<and> (\<forall>m. xg = Inr m \<longrightarrow> distinct (rkeys m) \<and> (\<forall>h. rget m h = (if h \<in> set hs then vfs_objects r h else None)))"
    using vfs_get_law by (simp add: vfs_remote_def)
next
  fix r r' os xu
  assume "vfs_ok r" "distinct (rkeys os)" "ro_putObjects (vfs_remote t) os r = (xu, r')"
  then show "vfs_ok r' \<and> vfs_head r' = vfs_head r \<and>
      (\<forall>h. vfs_objects r' h = vfs_objects r h \<or> (\<exists>b. rget os h = Some b \<and> vfs_objects r' h = Some b)) \<and>
      (\<forall>u h b. xu = Inr u \<longrightarrow> rget os h = Some b \<longrightarrow> vfs_objects r' h = Some b)"
    using vfs_put_law [of r os t xu r'] by (simp add: vfs_remote_def)
next
  fix r r' expected nxt xb
  assume "vfs_ok r" "\<And>h. expected = Some h \<Longrightarrow> is_object_hash h" "ro_setHead (vfs_remote t) expected nxt r = (xb, r')"
  then show "vfs_ok r' \<and> vfs_objects r' = vfs_objects r \<and>
      (if xb = Inr True then vfs_head r = expected \<and> vfs_head r' = Some nxt else vfs_head r' = vfs_head r)"
    using vfs_set_law [of r expected t nxt xb r'] by (simp add: vfs_remote_def)
qed

end
