(* ===== verification/Cipher.thy ===== *)
theory Cipher
  imports Prelude
begin

text \<open>
  Encryption as the code calls it: \<open>packages/crypto/src/cipher.ts\<close>.
\<close>

section \<open>AES-GCM with its IV in front\<close>

text \<open>
  AES-256-GCM is a library: \<open>seal key iv plaintext\<close> and \<open>unseal key iv ciphertext\<close>,
  the latter \<open>None\<close> where authentication fails. The IVs are what \<open>randomBytes(12)\<close> will return.
\<close>

record gcm =
  gcm_seal :: "bytes \<Rightarrow> bytes \<Rightarrow> bytes \<Rightarrow> bytes"
  gcm_unseal :: "bytes \<Rightarrow> bytes \<Rightarrow> bytes \<Rightarrow> bytes option"

definition iv_bytes :: nat where "iv_bytes = 12"

definition encrypt :: "gcm \<Rightarrow> bytes \<Rightarrow> bytes \<Rightarrow> bytes \<Rightarrow> bytes" where
  "encrypt g key iv plaintext = iv @ gcm_seal g key iv plaintext"

definition decrypt :: "gcm \<Rightarrow> bytes \<Rightarrow> bytes \<Rightarrow> app_error + bytes" where
  "decrypt g key blob =
     (if length blob \<le> iv_bytes then Inl DecryptionError
      else case gcm_unseal g key (take iv_bytes blob) (drop iv_bytes blob) of
          None \<Rightarrow> Inl DecryptionError
        | Some plaintext \<Rightarrow> Inr plaintext)"

text \<open>GCM as documented: what was sealed opens again, and a 16-byte tag is appended.\<close>

definition gcm_lawful :: "gcm \<Rightarrow> bool" where
  "gcm_lawful g \<longleftrightarrow> (\<forall>key iv b. gcm_unseal g key iv (gcm_seal g key iv b) = Some b \<and>
     length (gcm_seal g key iv b) = length b + 16)"

lemma decrypt_encrypt:
  assumes "gcm_lawful g" and "length iv = iv_bytes"
  shows "decrypt g key (encrypt g key iv b) = Inr b"
proof -
  have "gcm_unseal g key iv (gcm_seal g key iv b) = Some b" "length (gcm_seal g key iv b) = length b + 16"
    using assms(1) by (simp_all add: gcm_lawful_def)
  then show ?thesis
    using assms(2) by (simp add: decrypt_def encrypt_def iv_bytes_def)
qed

end
