(* ===== verification/Transport.thy ===== *)
theory Transport
  imports Remote Cipher
begin

text \<open>
  What stands between the engine and the object store: the encrypting decorator
  (\<open>remote/encrypted-sync-remote.ts\<close>), the HTTP routes
  (\<open>server.ts\<close>) and the client that calls them (\<open>remote/http-sync-remote.ts\<close>), each keeping
  the contract of the remote below it; and the survey of a remote
  (\<open>inspect-remote.ts\<close>).
\<close>

section \<open>The encrypting decorator\<close>

text \<open>The state is the inner remote's and how many IVs have been drawn.\<close>

definition on_inner :: "('r, 'a) eff \<Rightarrow> ('r \<times> nat, 'a) eff" where
  "on_inner m = (\<lambda>(r, n). case m r of (x, r') \<Rightarrow> (x, (r', n)))"

definition next_iv :: "(nat \<Rightarrow> bytes) \<Rightarrow> ('r \<times> nat, bytes) eff" where
  "next_iv ivs = (\<lambda>(r, n). (Inr (ivs n), (r, Suc n)))"

definition encrypted_getObjects :: "gcm \<Rightarrow> bytes \<Rightarrow> 'r remote_ops \<Rightarrow> string list \<Rightarrow> ('r \<times> nat, bytes rec) eff" where
  "encrypted_getObjects g key rm hashes =
     bnd (on_inner (ro_getObjects rm hashes)) (\<lambda>encrypted.
       fold_eff (\<lambda>(h, b) m. bnd (lift_sum (decrypt g key b)) (\<lambda>p. ret (rset h p m))) encrypted [])"

definition encrypted_putObjects ::
    "gcm \<Rightarrow> bytes \<Rightarrow> (nat \<Rightarrow> bytes) \<Rightarrow> 'r remote_ops \<Rightarrow> bytes rec \<Rightarrow> ('r \<times> nat, unit) eff" where
  "encrypted_putObjects g key ivs rm objects =
     bnd (fold_eff (\<lambda>(h, b) m. bnd (next_iv ivs) (\<lambda>iv. ret (rset h (encrypt g key iv b) m))) objects [])
       (\<lambda>encrypted. on_inner (ro_putObjects rm encrypted))"

definition encrypted_remote :: "gcm \<Rightarrow> bytes \<Rightarrow> (nat \<Rightarrow> bytes) \<Rightarrow> 'r remote_ops \<Rightarrow> ('r \<times> nat) remote_ops" where
  "encrypted_remote g key ivs rm = \<lparr>ro_getHead = on_inner (ro_getHead rm),
     ro_setHead = (\<lambda>expected next. on_inner (ro_setHead rm expected next)),
     ro_hasObjects = (\<lambda>hs. on_inner (ro_hasObjects rm hs)),
     ro_getObjects = encrypted_getObjects g key rm, ro_putObjects = encrypted_putObjects g key ivs rm\<rparr>"

text \<open>
  What the device sees of a store of ciphertext: an object is the plaintext, and the store is in
  order when every blob in it opens under the key.
\<close>

definition opened :: "gcm \<Rightarrow> bytes \<Rightarrow> bytes option \<Rightarrow> bytes option" where
  "opened g key x = (case x of None \<Rightarrow> None | Some b \<Rightarrow> (case decrypt g key b of Inl _ \<Rightarrow> None | Inr p \<Rightarrow> Some p))"

definition plain_objects :: "gcm \<Rightarrow> bytes \<Rightarrow> ('r \<Rightarrow> string \<Rightarrow> bytes option) \<Rightarrow> 'r \<times> nat \<Rightarrow> string \<Rightarrow> bytes option" where
  "plain_objects g key objects = (\<lambda>(r, n) h. opened g key (objects r h))"

definition sealed_ok :: "gcm \<Rightarrow> bytes \<Rightarrow> ('r \<Rightarrow> bool) \<Rightarrow> ('r \<Rightarrow> string \<Rightarrow> bytes option) \<Rightarrow> 'r \<times> nat \<Rightarrow> bool" where
  "sealed_ok g key ok objects = (\<lambda>(r, n). ok r \<and> (\<forall>h b. objects r h = Some b \<longrightarrow> (\<exists>p. decrypt g key b = Inr p)))"

lemma decrypt_all:
  assumes "fold_eff (\<lambda>(h, b) m. bnd (lift_sum (decrypt g key b)) (\<lambda>p. ret (rset h p m))) es acc s = (x, s')"
    and "distinct (rkeys es)"
  shows "s' = s \<and> (\<forall>m h. x = Inr m \<longrightarrow> rget m h = (if h \<in> set (rkeys es) then opened g key (rget es h) else rget acc h))"
  using assms
proof (induction es arbitrary: acc)
  case Nil
  then show ?case by (auto simp: ret_def)
next
  case (Cons e es)
  obtain k b where e: "e = (k, b)" by fastforce
  show ?case
  proof (cases "decrypt g key b")
    case (Inl er)
    with Cons.prems show ?thesis by (auto simp: e bnd_def lift_sum_def)
  next
    case (Inr p)
    with Cons.prems have "fold_eff (\<lambda>(h, b) m. bnd (lift_sum (decrypt g key b)) (\<lambda>p. ret (rset h p m))) es (rset k p acc) s = (x, s')"
      by (simp add: e bnd_def lift_sum_def ret_def)
    from Cons.IH [OF this] Cons.prems(2) Inr show ?thesis
      by (auto simp: e opened_def)
  qed
qed

lemma decrypt_all_distinct:
  "fold_eff (\<lambda>(h, b) m. bnd (lift_sum (decrypt g key b)) (\<lambda>p. ret (rset h p m))) es acc s = (Inr m, s') \<Longrightarrow>
     distinct (rkeys acc) \<Longrightarrow> distinct (rkeys m)"
proof (induction es arbitrary: acc)
  case (Cons e es)
  then show ?case
    by (cases e) (auto simp: bnd_def lift_sum_def ret_def split: prod.splits sum.splits)
qed (auto simp: ret_def)

lemma encrypt_all:
  assumes "\<And>n. length (ivs n) = iv_bytes" and "distinct (rkeys objects)"
    and "fold_eff (\<lambda>(h, b) m. bnd (next_iv ivs) (\<lambda>iv. ret (rset h (encrypt g key iv b) m))) objects acc (r, n) = (x, s')"
  shows "\<exists>m n'. x = Inr m \<and> s' = (r, n') \<and> (distinct (rkeys acc) \<longrightarrow> distinct (rkeys m)) \<and>
    (\<forall>h. case rget objects h of None \<Rightarrow> rget m h = rget acc h
         | Some b \<Rightarrow> \<exists>iv. length iv = iv_bytes \<and> rget m h = Some (encrypt g key iv b))"
  using assms(2,3)
proof (induction objects arbitrary: acc n)
  case Nil
  then show ?case by (auto simp: ret_def)
next
  case (Cons e objects)
  obtain k b where e: "e = (k, b)" by fastforce
  from Cons.prems have "fold_eff (\<lambda>(h, b) m. bnd (next_iv ivs) (\<lambda>iv. ret (rset h (encrypt g key iv b) m))) objects
      (rset k (encrypt g key (ivs n) b) acc) (r, Suc n) = (x, s')"
    by (simp add: e bnd_def next_iv_def ret_def)
  from Cons.IH [OF _ this] Cons.prems(1) obtain m n' where
    m: "x = Inr m" "s' = (r, n')" and dist: "distinct (rkeys (rset k (encrypt g key (ivs n) b) acc)) \<longrightarrow> distinct (rkeys m)"
    and at: "\<And>h. case rget objects h of None \<Rightarrow> rget m h = rget (rset k (encrypt g key (ivs n) b) acc) h
         | Some b \<Rightarrow> \<exists>iv. length iv = iv_bytes \<and> rget m h = Some (encrypt g key iv b)"
    by (force simp: e)
  have new: "rget objects k = None"
    using Cons.prems(1) by (simp add: e map_of_eq_None_iff)
  have "distinct (rkeys acc) \<longrightarrow> distinct (rkeys m)"
    using dist by simp
  moreover have "case rget (e # objects) h of None \<Rightarrow> rget m h = rget acc h
         | Some b \<Rightarrow> \<exists>iv. length iv = iv_bytes \<and> rget m h = Some (encrypt g key iv b)" for h
    using at [of h] new assms(1) [of n] by (cases "h = k") (auto simp: e split: option.splits)
  ultimately show ?case using m by blast
qed

lemma on_inner_run: "on_inner m s = (x, s') \<longleftrightarrow> (\<exists>r'. m (fst s) = (x, r') \<and> s' = (r', snd s))"
  by (cases s) (auto simp: on_inner_def split: prod.split)

lemma encrypted_keeps_contract:
  assumes inner: "sync_remote rm ok objects at_head" and gcm: "gcm_lawful g" and ivs: "\<And>n. length (ivs n) = iv_bytes"
  shows "sync_remote (encrypted_remote g key ivs rm) (sealed_ok g key ok objects) (plain_objects g key objects) (at_head \<circ> fst)"
proof
  fix s s' xh
  assume ok: "sealed_ok g key ok objects s" and run: "ro_getHead (encrypted_remote g key ivs rm) s = (xh, s')"
  then obtain r' where "ro_getHead rm (fst s) = (xh, r')" "s' = (r', snd s)" "ok (fst s)"
    by (cases s) (auto simp: encrypted_remote_def on_inner_run sealed_ok_def)
  with sync_remote.get_head [OF inner, of "fst s" xh r'] show "s' = s \<and> (\<forall>h. xh = Inr h \<longrightarrow> h = (at_head \<circ> fst) s)"
    by (cases s) auto
next
  fix s s' hs xs
  assume ok: "sealed_ok g key ok objects s" and run: "ro_hasObjects (encrypted_remote g key ivs rm) hs s = (xs, s')"
  then obtain r' where inner_run: "ro_hasObjects rm hs (fst s) = (xs, r')" "s' = (r', snd s)" "ok (fst s)"
    by (cases s) (auto simp: encrypted_remote_def on_inner_run sealed_ok_def)
  have "objects (fst s) h \<noteq> None \<longleftrightarrow> plain_objects g key objects s h \<noteq> None" for h
  proof (cases "objects (fst s) h")
    case (Some b)
    with ok obtain p where "decrypt g key b = Inr p" by (cases s) (auto simp: sealed_ok_def)
    with Some show ?thesis by (cases s) (simp add: plain_objects_def opened_def)
  qed (cases s; simp add: plain_objects_def opened_def)
  with inner_run sync_remote.has_objects [OF inner, of "fst s" hs xs r']
  show "s' = s \<and> (\<forall>S. xs = Inr S \<longrightarrow> set S = {h \<in> set hs. plain_objects g key objects s h \<noteq> None})"
    by (cases s) auto
next
  fix s s' hs xg
  assume ok: "sealed_ok g key ok objects s" and run: "ro_getObjects (encrypted_remote g key ivs rm) hs s = (xg, s')"
  obtain y r' where inner_run: "ro_getObjects rm hs (fst s) = (y, r')" by fastforce
  have got: "r' = fst s \<and> (\<forall>m. y = Inr m \<longrightarrow> distinct (rkeys m) \<and> (\<forall>h. rget m h = (if h \<in> set hs then objects (fst s) h else None)))"
    using sync_remote.get_objects [OF inner _ inner_run] ok by (cases s) (auto simp: sealed_ok_def)
  show "s' = s \<and> (\<forall>m. xg = Inr m \<longrightarrow> distinct (rkeys m) \<and> (\<forall>h. rget m h = (if h \<in> set hs then plain_objects g key objects s h else None)))"
  proof (cases y)
    case (Inl e)
    with run inner_run got show ?thesis
      by (cases s) (auto simp: encrypted_remote_def encrypted_getObjects_def bnd_def on_inner_def)
  next
    case (Inr em)
    with run inner_run got have all: "fold_eff (\<lambda>(h, b) m. bnd (lift_sum (decrypt g key b)) (\<lambda>p. ret (rset h p m))) em [] s = (xg, s')"
      by (cases s) (auto simp: encrypted_remote_def encrypted_getObjects_def bnd_def on_inner_def)
    have em: "distinct (rkeys em)" "\<And>h. rget em h = (if h \<in> set hs then objects (fst s) h else None)"
      using got Inr by auto
    have keys: "h \<in> set (rkeys em) \<longleftrightarrow> rget em h \<noteq> None" for h
      by (metis map_of_eq_None_iff set_map)
    have "distinct (rkeys m)" if "xg = Inr m" for m
      using decrypt_all_distinct all that by fastforce
    moreover have "rget m h = (if h \<in> set hs then plain_objects g key objects s h else None)" if "xg = Inr m" for m h
      using conjunct2 [OF decrypt_all [OF all em(1)], rule_format, OF that, of h] em(2) [of h] keys [of h]
      by (cases s) (auto simp: plain_objects_def opened_def split: if_splits)
    ultimately show ?thesis using decrypt_all [OF all em(1)] by blast
  qed
next
  fix s s' os xu
  assume ok: "sealed_ok g key ok objects s" and dist: "distinct (rkeys os)"
    and run: "ro_putObjects (encrypted_remote g key ivs rm) os s = (xu, s')"
  obtain r n where s: "s = (r, n)" by fastforce
  obtain y s1 where enc: "fold_eff (\<lambda>(h, b) m. bnd (next_iv ivs) (\<lambda>iv. ret (rset h (encrypt g key iv b) m))) os [] (r, n) = (y, s1)"
    by (meson surj_pair)
  obtain em n' where Y: "y = Inr em \<and> s1 = (r, n') \<and> (distinct (rkeys ([] :: bytes rec)) \<longrightarrow> distinct (rkeys em)) \<and>
      (\<forall>h. case rget os h of None \<Rightarrow> rget em h = rget [] h
         | Some b \<Rightarrow> \<exists>iv. length iv = iv_bytes \<and> rget em h = Some (encrypt g key iv b))"
    using encrypt_all [OF ivs dist enc] by (elim exE) (rule that)
  have none: "rget ([] :: bytes rec) h = None" for h by simp
  from Y have y: "y = Inr em" "s1 = (r, n')" "distinct (rkeys em)" by simp_all
  from Y have em: "\<And>h. case rget os h of None \<Rightarrow> rget em h = None
         | Some b \<Rightarrow> \<exists>iv. length iv = iv_bytes \<and> rget em h = Some (encrypt g key iv b)"
    unfolding none by blast
  from run enc y obtain r' where put: "ro_putObjects rm em r = (xu, r')" and s': "s' = (r', n')"
    by (auto simp: encrypted_remote_def encrypted_putObjects_def s bnd_def on_inner_def split: prod.splits)
  have "ok r" using ok by (simp add: s sealed_ok_def)
  note P = sync_remote.put_objects [OF inner this y(3) put]
  have opens: "opened g key (rget em h) = rget os h" for h
    using em [of h] decrypt_encrypt [OF gcm, of _ key] by (auto simp: opened_def split: option.splits)
  have at: "objects r' h = objects r h \<or> (\<exists>c. rget em h = Some c \<and> objects r' h = Some c)" for h
    using P by blast
  have ok': "sealed_ok g key ok objects s'"
  proof -
    have "\<exists>p. decrypt g key b = Inr p" if "objects r' h = Some b" for h b
    proof (cases "objects r' h = objects r h")
      case True
      with that ok show ?thesis by (auto simp: s sealed_ok_def)
    next
      case False
      with at [of h] that have "rget em h = Some b" by auto
      with em [of h] decrypt_encrypt [OF gcm, of _ key] show ?thesis by (auto split: option.splits)
    qed
    with P show ?thesis by (auto simp: s' sealed_ok_def)
  qed
  have view: "plain_objects g key objects s h = opened g key (objects r h)"
    "plain_objects g key objects s' h = opened g key (objects r' h)" for h
    by (simp_all add: plain_objects_def s s')
  have new: "plain_objects g key objects s' h = rget os h" if "rget em h = Some c" "objects r' h = Some c" for h c
    using opens [of h] that by (simp add: view)
  have "plain_objects g key objects s' h = plain_objects g key objects s h \<or>
      (\<exists>b. rget os h = Some b \<and> plain_objects g key objects s' h = Some b)" for h
    using at [of h] new [of h] em [of h] view by (cases "rget os h") fastforce+
  moreover have "plain_objects g key objects s' h = Some b" if "xu = Inr u" "rget os h = Some b" for u h b
  proof -
    from em [of h] that obtain c where "rget em h = Some c" by auto
    with P that have "objects r' h = Some c" by blast
    with new [OF \<open>rget em h = Some c\<close>] that show ?thesis by simp
  qed
  moreover have "at_head r' = at_head r" using P by blast
  ultimately show "sealed_ok g key ok objects s' \<and> (at_head \<circ> fst) s' = (at_head \<circ> fst) s \<and>
      (\<forall>h. plain_objects g key objects s' h = plain_objects g key objects s h \<or>
         (\<exists>b. rget os h = Some b \<and> plain_objects g key objects s' h = Some b)) \<and>
      (\<forall>u h b. xu = Inr u \<longrightarrow> rget os h = Some b \<longrightarrow> plain_objects g key objects s' h = Some b)"
    using ok' by (simp add: s s')
next
  fix s s' expected nxt xb
  assume ok: "sealed_ok g key ok objects s" and known: "\<And>h. expected = Some h \<Longrightarrow> is_object_hash h"
    and run: "ro_setHead (encrypted_remote g key ivs rm) expected nxt s = (xb, s')"
  then obtain r' where inner_run: "ro_setHead rm expected nxt (fst s) = (xb, r')" "s' = (r', snd s)" "ok (fst s)"
    by (cases s) (auto simp: encrypted_remote_def on_inner_run sealed_ok_def)
  note H = sync_remote.set_head [OF inner inner_run(3) known inner_run(1)]
  then have "sealed_ok g key ok objects s'" "plain_objects g key objects s' = plain_objects g key objects s"
    using ok inner_run(2) by (cases s; auto simp: sealed_ok_def plain_objects_def)+
  with H inner_run(2)
  show "sealed_ok g key ok objects s' \<and> plain_objects g key objects s' = plain_objects g key objects s \<and>
    (if xb = Inr True then (at_head \<circ> fst) s = expected \<and> (at_head \<circ> fst) s' = Some nxt else (at_head \<circ> fst) s' = (at_head \<circ> fst) s)"
    by simp
qed

section \<open>The routes\<close>

text \<open>
  A handler answers with a body (2xx) or a status. A \<open>ValidationError\<close> is the client's (400),
  anything else is rethrown and answered 500; a request whose hash array is longer than the
  route's schema allows is answered 422 before the handler runs.
\<close>

datatype 'a response = Success 'a | Failure nat

definition max_put_frame_bytes :: nat where "max_put_frame_bytes = 64 * 1024 * 1024"
definition max_stat_hashes :: nat where "max_stat_hashes = 1024"
definition max_get_hashes :: nat where "max_get_hashes = 64"

definition handled :: "('r, 'a) eff \<Rightarrow> ('a \<Rightarrow> 'b response) \<Rightarrow> 'r \<Rightarrow> 'b response \<times> 'r" where
  "handled m reply = (\<lambda>r. case m r of
       (Inl (ValidationError _), r') \<Rightarrow> (Failure 400, r')
     | (Inl _, r') \<Rightarrow> (Failure 500, r')
     | (Inr a, r') \<Rightarrow> (reply a, r'))"

definition route_get_head :: "'r remote_ops \<Rightarrow> 'r \<Rightarrow> string option response \<times> 'r" where
  "route_get_head rm = (\<lambda>r. case ro_getHead rm r of (Inl _, r') \<Rightarrow> (Failure 500, r') | (Inr h, r') \<Rightarrow> (Success h, r'))"

definition route_put_head :: "'r remote_ops \<Rightarrow> string option \<Rightarrow> string \<Rightarrow> 'r \<Rightarrow> unit response \<times> 'r" where
  "route_put_head rm expected next = handled (ro_setHead rm expected next) (\<lambda>ok. if ok then Success () else Failure 409)"

definition route_stat :: "'r remote_ops \<Rightarrow> string list \<Rightarrow> 'r \<Rightarrow> string list response \<times> 'r" where
  "route_stat rm hashes =
     (if length hashes > max_stat_hashes then Pair (Failure 422) else handled (ro_hasObjects rm hashes) Success)"

definition route_get_objects :: "'r remote_ops \<Rightarrow> string list \<Rightarrow> 'r \<Rightarrow> bytes response \<times> 'r" where
  "route_get_objects rm hashes =
     (if length hashes > max_get_hashes then Pair (Failure 422)
      else handled (bnd (ro_getObjects rm hashes) (\<lambda>objects. lift_sum (encode_object_frame objects))) Success)"

definition route_put_objects :: "'r remote_ops \<Rightarrow> bytes \<Rightarrow> 'r \<Rightarrow> unit response \<times> 'r" where
  "route_put_objects rm body =
     (if length body > max_put_frame_bytes then Pair (Failure 413)
      else handled (bnd (lift_sum (decode_object_frame body)) (ro_putObjects rm)) Success)"

section \<open>The client\<close>

text \<open>A request that is not answered 2xx rejects with its status.\<close>

definition request :: "('r \<Rightarrow> 'a response \<times> 'r) \<Rightarrow> ('r, 'a) eff" where
  "request route = (\<lambda>r. case route r of (Success a, r') \<Rightarrow> (Inr a, r') | (Failure n, r') \<Rightarrow> (Inl (HttpStatus n), r'))"

definition http_setHead :: "'r remote_ops \<Rightarrow> string option \<Rightarrow> string \<Rightarrow> ('r, bool) eff" where
  "http_setHead rm expected next =
     catch (seq (request (route_put_head rm expected next)) (ret True))
       (\<lambda>e. if e = HttpStatus 409 then ret False else throw e)"

definition http_hasObjects :: "'r remote_ops \<Rightarrow> string list \<Rightarrow> ('r, string list) eff" where
  "http_hasObjects rm hashes =
     (if hashes = [] then ret [] else bnd (request (route_stat rm hashes)) (\<lambda>has. ret (uniq has)))"

definition http_getObjects :: "'r remote_ops \<Rightarrow> string list \<Rightarrow> ('r, bytes rec) eff" where
  "http_getObjects rm hashes =
     (if hashes = [] then ret []
      else bnd (request (route_get_objects rm hashes)) (\<lambda>frame. lift_sum (decode_object_frame frame)))"

definition http_putObjects :: "'r remote_ops \<Rightarrow> bytes rec \<Rightarrow> ('r, unit) eff" where
  "http_putObjects rm objects =
     (if objects = [] then ret ()
      else bnd (lift_sum (encode_object_frame objects)) (\<lambda>frame. request (route_put_objects rm frame)))"

definition http_remote :: "'r remote_ops \<Rightarrow> 'r remote_ops" where
  "http_remote rm = \<lparr>ro_getHead = request (route_get_head rm), ro_setHead = http_setHead rm,
     ro_hasObjects = http_hasObjects rm, ro_getObjects = http_getObjects rm, ro_putObjects = http_putObjects rm\<rparr>"

text \<open>The frame's length field is 32 bits wide, and its addresses are hashes.\<close>

definition framed_ok :: "('r \<Rightarrow> bool) \<Rightarrow> ('r \<Rightarrow> string \<Rightarrow> bytes option) \<Rightarrow> 'r \<Rightarrow> bool" where
  "framed_ok ok objects r \<longleftrightarrow> ok r \<and> (\<forall>h b. objects r h = Some b \<longrightarrow> framable (h, b))"

lemma frame_roundtrip:
  "distinct (rkeys rs) \<Longrightarrow> list_all framable rs \<Longrightarrow> decode_object_frame (concat (map record_bytes rs)) = Inr rs"
  using foldl_rset_new [of "[]" rs] by (simp add: decode_object_frame_def decode_from_frame)

lemma record_bytes_length: "length (record_bytes (h, b)) = length h + 4 + length b"
  by (simp add: record_bytes_def)

lemma small_frame_framable:
  assumes "encode_object_frame rs = Inr f" and "length f \<le> max_put_frame_bytes"
  shows "f = concat (map record_bytes rs) \<and> list_all framable rs"
proof -
  have f: "f = concat (map record_bytes rs)" "list_all (is_object_hash \<circ> fst) rs"
    using encode_object_frame_Inr [OF assms(1)] by auto
  have "length b < 2 ^ 32" if "(h, b) \<in> set rs" for h b
  proof -
    have "length (record_bytes (h, b)) \<le> length f"
      using that by (auto simp: f(1) length_concat comp_def intro!: member_le_sum_list image_eqI [where x = "(h, b)"])
    then show ?thesis
      using assms(2) by (simp add: record_bytes_length max_put_frame_bytes_def)
  qed
  then show ?thesis
    using f by (auto simp: list_all_iff framable_def)
qed

lemma handled_run: "handled m reply r = (y, r') \<longleftrightarrow>
    (\<exists>x. m r = (x, r') \<and> y = (case x of Inr a \<Rightarrow> reply a | Inl (ValidationError _) \<Rightarrow> Failure 400 | Inl _ \<Rightarrow> Failure 500))"
  by (auto simp: handled_def split: prod.splits sum.splits app_error.splits)

lemma request_run: "request route r = (x, r') \<longleftrightarrow>
    (\<exists>y. route r = (y, r') \<and> x = (case y of Success a \<Rightarrow> Inr a | Failure n \<Rightarrow> Inl (HttpStatus n)))"
  by (auto simp: request_def split: prod.splits response.splits)

lemma http_stat_run:
  assumes "http_hasObjects rm hs r = (x, r')"
  shows "(\<exists>e. x = Inl e) \<and> r' = r \<or> hs = [] \<and> x = Inr [] \<and> r' = r \<or>
    (\<exists>y. ro_hasObjects rm hs r = (y, r') \<and> (\<forall>S. x = Inr S \<longrightarrow> (\<exists>S'. y = Inr S' \<and> set S = set S')))"
  using assms
  by (auto simp: http_hasObjects_def route_stat_def bnd_def request_def handled_def ret_def
      split: if_splits prod.splits sum.splits response.splits app_error.splits)

lemma http_get_run:
  assumes "http_getObjects rm hs r = (x, r')"
  shows "(\<exists>e. x = Inl e) \<and> r' = r \<or> hs = [] \<and> x = Inr [] \<and> r' = r \<or>
    (\<exists>y. ro_getObjects rm hs r = (y, r') \<and>
       (\<forall>m. x = Inr m \<longrightarrow> (\<exists>m' f. y = Inr m' \<and> encode_object_frame m' = Inr f \<and> decode_object_frame f = Inr m)))"
  using assms
  by (auto simp: http_getObjects_def route_get_objects_def bnd_def request_def handled_def ret_def lift_sum_def
      split: if_splits prod.splits sum.splits response.splits app_error.splits)

lemma http_put_run:
  assumes "http_putObjects rm os r = (x, r')"
  shows "(\<exists>e. x = Inl e) \<and> r' = r \<or> os = [] \<and> x = Inr () \<and> r' = r \<or>
    (\<exists>f m y. encode_object_frame os = Inr f \<and> length f \<le> max_put_frame_bytes \<and> decode_object_frame f = Inr m \<and>
       ro_putObjects rm m r = (y, r') \<and> (\<forall>u. x = Inr u \<longrightarrow> y = Inr u))"
  using assms
  by (auto simp: http_putObjects_def route_put_objects_def bnd_def request_def handled_def ret_def lift_sum_def
      split: if_splits prod.splits sum.splits response.splits app_error.splits)

lemma http_set_run:
  assumes "http_setHead rm expected nxt r = (x, r')"
  shows "\<exists>y. ro_setHead rm expected nxt r = (y, r') \<and> (x = Inr True \<longleftrightarrow> y = Inr True)"
  using assms
  by (auto simp: http_setHead_def route_put_head_def catch_def seq_def bnd_def request_def handled_def ret_def throw_def
      split: if_splits prod.splits sum.splits response.splits app_error.splits)

lemma http_keeps_contract:
  assumes inner: "sync_remote rm ok objects at_head"
  shows "sync_remote (http_remote rm) (framed_ok ok objects) objects at_head"
proof
  fix r r' xh
  assume ok: "framed_ok ok objects r" and run: "ro_getHead (http_remote rm) r = (xh, r')"
  then obtain y where y: "ro_getHead rm r = (y, r')" "\<And>h. xh = Inr h \<Longrightarrow> y = Inr h"
    by (auto simp: http_remote_def request_def route_get_head_def split: prod.splits sum.splits response.splits)
  with sync_remote.get_head [OF inner _ y(1)] ok show "r' = r \<and> (\<forall>h. xh = Inr h \<longrightarrow> h = at_head r)"
    by (auto simp: framed_ok_def)
next
  fix r r' hs xs
  assume ok: "framed_ok ok objects r" and run: "ro_hasObjects (http_remote rm) hs r = (xs, r')"
  then have "ok r" and "http_hasObjects rm hs r = (xs, r')" by (auto simp: framed_ok_def http_remote_def)
  from http_stat_run [OF this(2)] sync_remote.has_objects [OF inner \<open>ok r\<close>]
  show "r' = r \<and> (\<forall>S. xs = Inr S \<longrightarrow> set S = {h \<in> set hs. objects r h \<noteq> None})"
    by fastforce
next
  fix r r' hs xg
  assume ok: "framed_ok ok objects r" and "ro_getObjects (http_remote rm) hs r = (xg, r')"
  then have "ok r" and run: "http_getObjects rm hs r = (xg, r')" by (auto simp: framed_ok_def http_remote_def)
  from http_get_run [OF run]
  consider "\<exists>e. xg = Inl e" "r' = r" | "hs = []" "xg = Inr []" "r' = r"
    | y where "ro_getObjects rm hs r = (y, r')"
        "\<forall>m. xg = Inr m \<longrightarrow> (\<exists>m' f. y = Inr m' \<and> encode_object_frame m' = Inr f \<and> decode_object_frame f = Inr m)"
    by metis
  then show "r' = r \<and> (\<forall>m. xg = Inr m \<longrightarrow> distinct (rkeys m) \<and> (\<forall>h. rget m h = (if h \<in> set hs then objects r h else None)))"
  proof cases
    case 3
    note law = sync_remote.get_objects [OF inner \<open>ok r\<close> 3(1)]
    have "distinct (rkeys m) \<and> (\<forall>h. rget m h = (if h \<in> set hs then objects r h else None))" if got: "xg = Inr m" for m
    proof -
      obtain m' f where m': "y = Inr m'" "encode_object_frame m' = Inr f" "decode_object_frame f = Inr m"
        using 3(2) got by blast
      have "framable (h, b)" if "(h, b) \<in> set m'" for h b
      proof -
        have "distinct (rkeys m')" using law m'(1) by blast
        with that have "rget m' h = Some b" by simp
        with law m'(1) ok show ?thesis by (auto simp: framed_ok_def split: if_splits)
      qed
      then have "list_all framable m'" by (auto simp: list_all_iff)
      with m' law have "m = m'"
        using frame_roundtrip [of m'] by (simp add: encode_object_frame_eq)
      with law m'(1) show ?thesis by blast
    qed
    with law show ?thesis by blast
  qed auto
next
  fix r r' os xu
  assume ok: "framed_ok ok objects r" and dist: "distinct (rkeys os)" and "ro_putObjects (http_remote rm) os r = (xu, r')"
  then have "ok r" and run: "http_putObjects rm os r = (xu, r')" by (auto simp: framed_ok_def http_remote_def)
  from http_put_run [OF run]
  consider "\<exists>e. xu = Inl e" "r' = r" | "os = []" "r' = r"
    | f m y where "encode_object_frame os = Inr f" "length f \<le> max_put_frame_bytes" "decode_object_frame f = Inr m"
       "ro_putObjects rm m r = (y, r')" "\<forall>u. xu = Inr u \<longrightarrow> y = Inr u"
    by blast
  then show "framed_ok ok objects r' \<and> at_head r' = at_head r \<and>
      (\<forall>h. objects r' h = objects r h \<or> (\<exists>b. rget os h = Some b \<and> objects r' h = Some b)) \<and>
      (\<forall>u h b. xu = Inr u \<longrightarrow> rget os h = Some b \<longrightarrow> objects r' h = Some b)"
  proof cases
    case 3
    have small: "f = concat (map record_bytes os) \<and> list_all framable os"
      using small_frame_framable 3(1,2) by blast
    then have "m = os" using frame_roundtrip [OF dist] 3(3) by simp
    note law = sync_remote.put_objects [OF inner \<open>ok r\<close> dist 3(4) [unfolded this]]
    have "framable (h, b)" if "objects r' h = Some b" for h b
    proof (cases "objects r' h = objects r h")
      case True
      with that ok show ?thesis by (auto simp: framed_ok_def)
    next
      case False
      with law that have "rget os h = Some b" by (metis option.inject)
      then show ?thesis using small map_of_SomeD by (fastforce simp: list_all_iff)
    qed
    with law have "framed_ok ok objects r'" by (simp add: framed_ok_def)
    with law 3(5) show ?thesis by blast
  qed (use ok in auto)
next
  fix r r' expected nxt xb
  assume ok: "framed_ok ok objects r" and known: "\<And>h. expected = Some h \<Longrightarrow> is_object_hash h"
    and "ro_setHead (http_remote rm) expected nxt r = (xb, r')"
  then have "ok r" and "http_setHead rm expected nxt r = (xb, r')" by (auto simp: framed_ok_def http_remote_def)
  from http_set_run [OF this(2)] obtain y where y: "ro_setHead rm expected nxt r = (y, r')" "xb = Inr True \<longleftrightarrow> y = Inr True"
    by blast
  note law = sync_remote.set_head [OF inner \<open>ok r\<close> known y(1)]
  then have "framed_ok ok objects r'" using ok by (simp add: framed_ok_def)
  with law y(2) show "framed_ok ok objects r' \<and> objects r' = objects r \<and>
      (if xb = Inr True then at_head r = expected \<and> at_head r' = Some nxt else at_head r' = at_head r)"
    by simp
qed

section \<open>The survey of a remote\<close>

datatype remote_summary = EmptyRemote | Holding nat int

definition count_document :: "nat \<times> int \<Rightarrow> string \<times> snap_file \<Rightarrow> nat \<times> int" where
  "count_document acc e =
     (if \<not> starts_with (fst e) vault_prefix then acc
      else (Suc (fst acc), snd acc + (case sf_size (snd e) of Some n \<Rightarrow> n | None \<Rightarrow> 0)))"

definition inspect_remote :: "params \<Rightarrow> 'r remote_ops \<Rightarrow> ('r, remote_summary) eff" where
  "inspect_remote px rm =
     bnd (ro_getHead rm) (\<lambda>head.
       case head of
         None \<Rightarrow> ret EmptyRemote
       | Some h \<Rightarrow>
           if h = empty_snapshot_hash (px_sha px) then ret EmptyRemote
           else bnd (ro_getObjects rm [h]) (\<lambda>objects.
             case rget objects h of
               None \<Rightarrow> throw (IllegalStateError ''The remote does not hold its head'')
             | Some b \<Rightarrow> bnd (parse_snapshot px h b) (\<lambda>s.
                 let (documents, total) = foldl count_document (0, 0) (sn_files s)
                 in ret (if documents = 0 then EmptyRemote else Holding documents total))))"

definition vault_files :: "snap_file rec \<Rightarrow> snap_file rec" where
  "vault_files fs = filter (\<lambda>e. starts_with (fst e) ''vault/'') fs"

definition total_size :: "snap_file rec \<Rightarrow> int" where
  "total_size fs = sum_list (map (\<lambda>e. case sf_size (snd e) of Some n \<Rightarrow> n | None \<Rightarrow> 0) fs)"

lemma count_documents:
  "foldl count_document (d, t) fs = (d + length (vault_files fs), t + total_size (vault_files fs))"
  by (induction fs arbitrary: d t) (simp_all add: count_document_def vault_files_def total_size_def vault_prefix_def)

lemma parse_snapshot_run:
  "parse_snapshot px h b s = (Inr sn, s') \<longleftrightarrow>
     s' = s \<and> sn_hash sn = h \<and> snapshot_hash (px_sha px) (sn_parent sn) (sn_files sn) = h \<and>
     (\<exists>j. parse_json (utf8_decode b) = Some j \<and> snapshot_of_json j = Some sn)"
  by (auto simp: parse_snapshot_def parse_or_throw_def or_type_error_def effs split: option.splits if_splits)

lemma parse_snapshot_state: "snd (parse_snapshot px h b s) = s"
  by (auto simp: parse_snapshot_def parse_or_throw_def or_type_error_def effs split: option.splits if_splits)

text \<open>
  C39: the store a device syncs with is a lawful remote. A directory of the server behind the HTTP
  routes, called through the HTTP client and the encrypting decorator, behaves as the engine's
  contract says: the objects a device sees are the plaintexts, an object reads back as it was put,
  nothing but the named objects changes, and the head moves only by compare-and-swap.
\<close>

theorem device_remote_lawful:
  assumes "gcm_lawful g" and "\<And>n. length (ivs n) = iv_bytes"
  shows "sync_remote (encrypted_remote g key ivs (http_remote (vfs_remote t)))
     (sealed_ok g key (framed_ok vfs_ok vfs_objects) vfs_objects) (plain_objects g key vfs_objects) (vfs_head \<circ> fst)"
  using assms vfs.sync_remote_axioms [of t] by (intro encrypted_keeps_contract http_keeps_contract)

definition null_gcm :: gcm where
  "null_gcm = \<lparr>gcm_seal = (\<lambda>key iv b. b @ replicate 16 0),
     gcm_unseal = (\<lambda>key iv b. if length b < 16 then None else Some (take (length b - 16) b))\<rparr>"

theorem device_remote_lawful_witness:
  "sync_remote (encrypted_remote null_gcm [] (\<lambda>_. replicate 12 0) (http_remote (vfs_remote 5)))
     (sealed_ok null_gcm [] (framed_ok vfs_ok vfs_objects) vfs_objects) (plain_objects null_gcm [] vfs_objects) (vfs_head \<circ> fst)"
  by (rule device_remote_lawful) (simp_all add: gcm_lawful_def null_gcm_def iv_bytes_def)

text \<open>
  Surveying a server writes nothing, and what it reports is a manifest that hashes to the
  server's head: the number of files under \<open>vault/\<close> in it and the sum of their sizes.
\<close>

theorem inspect_remote_exact:
  assumes "vfs_ok d" and "inspect_remote px (vfs_remote t) d = (x, d')"
  shows "d' = d \<and> (\<forall>n total. x = Inr (Holding n total) \<longrightarrow>
     (\<exists>h sn. vfs_head d = Some h \<and> snapshot_hash (px_sha px) (sn_parent sn) (sn_files sn) = h \<and>
        (\<exists>b j. vfs_objects d h = Some b \<and> parse_json (utf8_decode b) = Some j \<and> snapshot_of_json j = Some sn) \<and>
        n = length (vault_files (sn_files sn)) \<and> total = total_size (vault_files (sn_files sn))))"
proof -
  obtain y d1 where head: "ro_getHead (vfs_remote t) d = (y, d1)" by fastforce
  from vfs.get_head [OF assms(1) head] have d1: "d1 = d" "\<And>h. y = Inr h \<Longrightarrow> h = vfs_head d" by auto
  show ?thesis
  proof (cases "\<exists>h. y = Inr (Some h) \<and> h \<noteq> empty_snapshot_hash (px_sha px)")
    case False
    with assms(2) head d1 show ?thesis
      by (auto simp: inspect_remote_def bnd_def ret_def split: sum.splits option.splits if_splits)
  next
    case True
    then obtain h where h: "y = Inr (Some h)" "h \<noteq> empty_snapshot_hash (px_sha px)" by blast
    obtain z d2 where get: "ro_getObjects (vfs_remote t) [h] d = (z, d2)" by fastforce
    note law = vfs.get_objects [OF assms(1) get]
    show ?thesis
    proof (cases "\<exists>objects b. z = Inr objects \<and> rget objects h = Some b")
      case False
      with assms(2) head d1 h get law show ?thesis
        by (auto simp: inspect_remote_def bnd_def ret_def throw_def split: sum.splits option.splits if_splits)
    next
      case True
      then obtain objects b where z: "z = Inr objects" "rget objects h = Some b" by blast
      with law have b: "vfs_objects d h = Some b" by (auto split: if_splits)
      obtain w d3 where parse: "parse_snapshot px h b d = (w, d3)" by fastforce
      with parse_snapshot_state [of px h b d] have "d3 = d" by simp
      show ?thesis
      proof (cases w)
        case (Inl e)
        with assms(2) head d1 h get law z parse \<open>d3 = d\<close> show ?thesis
          by (auto simp: inspect_remote_def bnd_def)
      next
        case (Inr sn)
        then have res: "x = Inr (if length (vault_files (sn_files sn)) = 0 then EmptyRemote
            else Holding (length (vault_files (sn_files sn))) (total_size (vault_files (sn_files sn))))" "d' = d"
          using assms(2) head d1 h get law z parse \<open>d3 = d\<close>
          by (simp_all add: inspect_remote_def bnd_def ret_def count_documents)
        from Inr parse parse_snapshot_run [of px h b d sn d3]
        have sn: "snapshot_hash (px_sha px) (sn_parent sn) (sn_files sn) = h"
            "\<exists>j. parse_json (utf8_decode b) = Some j \<and> snapshot_of_json j = Some sn" by simp_all
        have "vfs_head d = Some h" using d1(2) h(1) by auto
        have "\<exists>h sn. vfs_head d = Some h \<and> snapshot_hash (px_sha px) (sn_parent sn) (sn_files sn) = h \<and>
            (\<exists>b j. vfs_objects d h = Some b \<and> parse_json (utf8_decode b) = Some j \<and> snapshot_of_json j = Some sn) \<and>
            n = length (vault_files (sn_files sn)) \<and> total = total_size (vault_files (sn_files sn))"
          if "x = Inr (Holding n total)" for n total
          using that res(1) sn b \<open>vfs_head d = Some h\<close> by (intro exI [of _ h] exI [of _ sn]) (auto split: if_splits)
        with res(2) show ?thesis by blast
      qed
    qed
  qed
qed

definition demo_sha :: "bytes \<Rightarrow> string" where
  "demo_sha b = replicate 64 (if b = utf8_encode (address_text None []) then CHR ''0'' else CHR ''b'')"

definition demo_hash :: string where "demo_hash = replicate 64 CHR ''b''"

definition demo_file :: snap_file where
  "demo_file = \<lparr>sf_fileId = Some ''1'', sf_identity = None, sf_historySource = None, sf_hash = demo_hash, sf_size = Some 9,
     sf_pathname = ''vault/a'', sf_chunks = [\<lparr>ck_hash = demo_hash, ck_size = Some 9\<rparr>]\<rparr>"

definition demo_snapshot :: snapshot where
  "demo_snapshot = \<lparr>sn_hash = demo_hash, sn_parent = None, sn_timestamp = 5000, sn_files = [(''vault/a'', demo_file)]\<rparr>"

definition demo_server :: disk where
  "demo_server = \<lparr>root_dir = [], nodes =
     [(object_keys demo_hash, File (utf8_encode (stringify (json_of_snapshot demo_snapshot))) 0 0),
      ([''head''], File (utf8_encode demo_hash) 0 0)]\<rparr>"

definition demo_params :: params where
  "demo_params = \<lparr>px_sha = demo_sha, px_cut = (\<lambda>_ _. []), px_pieces = (\<lambda>b. [b]), px_uuid = (\<lambda>_. ''u''),
     px_policy = (\<lambda>_. True), px_merger = None\<rparr>"

lemma demo_hash_ok: "is_object_hash demo_hash"
  by (simp add: is_object_hash_def demo_hash_def is_lower_hex_def list_all_iff)

lemma demo_address: "address_text None [(''vault/a'', demo_file)] \<noteq> address_text None []"
  using address_text_inject [of None "[(''vault/a'', demo_file)]" None "[]"] by (auto simp: json_of_files_def)

lemma demo_hashes: "snapshot_hash demo_sha None (sn_files demo_snapshot) = demo_hash"
    "empty_snapshot_hash demo_sha \<noteq> demo_hash"
  using demo_address
  by (simp_all add: snapshot_hash_text empty_snapshot_hash_def demo_sha_def demo_hash_def demo_snapshot_def)

lemma demo_server_ok: "vfs_ok demo_server" "vfs_head demo_server = Some demo_hash"
    "vfs_objects demo_server demo_hash = Some (utf8_encode (stringify (json_of_snapshot demo_snapshot)))"
proof -
  have r: "rooted demo_server" by (simp add: rooted_def demo_server_def)
  have ks: "object_keys h \<noteq> [''head'']" for h by (simp add: object_keys_def)
  show ok: "vfs_ok demo_server"
    using r ks by (auto simp: vfs_ok_def demo_server_def)
  have "map_of (nodes demo_server) [''head''] = Some (File (utf8_encode demo_hash) 0 0)"
    using ks [of demo_hash] by (simp add: demo_server_def)
  then have "file_at demo_server remote_head_path = Some (utf8_encode demo_hash)"
    by (simp add: file_at_key [OF os_remote_head [OF r]])
  then show "vfs_head demo_server = Some demo_hash"
    using trim_hash [OF demo_hash_ok] by (simp add: vfs_head_def demo_hash_def)
  have "map_of (nodes demo_server) (object_keys demo_hash) = Some (File (utf8_encode (stringify (json_of_snapshot demo_snapshot))) 0 0)"
    by (simp add: demo_server_def)
  then show "vfs_objects demo_server demo_hash = Some (utf8_encode (stringify (json_of_snapshot demo_snapshot)))"
    by (simp add: vfs_objects_def demo_hash_ok file_at_key [OF os_object [OF r demo_hash_ok]] object_keys_def)
qed

lemma demo_inspect: "inspect_remote demo_params (vfs_remote 0) demo_server = (Inr (Holding 1 9), demo_server)"
proof -
  have "parse_snapshot demo_params demo_hash (utf8_encode (stringify (json_of_snapshot demo_snapshot))) demo_server
      = (Inr demo_snapshot, demo_server)"
    using demo_hashes(1) snapshot_json [of demo_snapshot]
    by (simp add: parse_snapshot_run demo_params_def) (simp add: demo_snapshot_def)
  moreover have "foldl count_document (0, 0) (sn_files demo_snapshot) = (1, 9)"
    by (simp add: count_document_def vault_prefix_def demo_snapshot_def starts_with_def demo_file_def)
  ultimately show ?thesis
    using demo_hashes(2) vfs_getHead_total [OF demo_server_ok(1)] vfs_getObjects_one [OF demo_server_ok(1) demo_hash_ok]
    by (simp add: inspect_remote_def vfs_remote_def bnd_def ret_def demo_server_ok demo_params_def)
qed

theorem inspect_remote_exact_witness:
  "\<exists>h (sn :: snapshot). vfs_head demo_server = Some h \<and> snapshot_hash demo_sha (sn_parent sn) (sn_files sn) = h \<and>
     1 = length (vault_files (sn_files sn)) \<and> 9 = total_size (vault_files (sn_files sn))"
proof -
  from conjunct2 [OF inspect_remote_exact [OF demo_server_ok(1) demo_inspect], rule_format, OF refl] obtain h and sn :: snapshot where
    "vfs_head demo_server = Some h" "snapshot_hash (px_sha demo_params) (sn_parent sn) (sn_files sn) = h"
    "1 = length (vault_files (sn_files sn))" "9 = total_size (vault_files (sn_files sn))"
    by blast
  then show ?thesis by (intro exI [of _ h] exI [of _ sn]) (simp add: demo_params_def)
qed

end
