(* ===== verification/PushProps.thy ===== *)
theory PushProps
  imports Transport
begin

text \<open>
  What a device can rely on in a sync round, over any remote that keeps the contract and with other
  devices acting on it between this device's calls: a committed push leaves nothing out, a failed one
  leaves the head alone, and nothing enters the local store under an address it does not hash to.
\<close>

section \<open>Batches\<close>

lemma concat_batches: "n > 0 \<Longrightarrow> concat (batches n xs) = xs"
  by (induction n xs rule: batches.induct) (subst batches.simps, auto)

lemma batches_size: "b \<in> set (batches n xs) \<Longrightarrow> length b \<le> n \<and> b \<noteq> []"
proof (induction n xs rule: batches.induct)
  case (1 n xs)
  then show ?case
    by (subst (asm) batches.simps) (auto split: if_splits)
qed

section \<open>What other devices may do\<close>

text \<open>
  Another device keeps the store in order and takes no object away.
\<close>

definition polite :: "('r \<Rightarrow> bool) \<Rightarrow> ('r \<Rightarrow> string \<Rightarrow> bytes option) \<Rightarrow> ('r \<Rightarrow> 'r) \<Rightarrow> bool" where
  "polite ok objects f \<longleftrightarrow> (\<forall>r. ok r \<longrightarrow> ok (f r) \<and> (\<forall>h. objects r h \<noteq> None \<longrightarrow> objects (f r) h \<noteq> None))"

definition holds_all_in ::
    "('r \<Rightarrow> bool) \<Rightarrow> ('r \<Rightarrow> string \<Rightarrow> bytes option) \<Rightarrow> string set \<Rightarrow> 'r engine \<Rightarrow> bool" where
  "holds_all_in ok objects S e \<longleftrightarrow>
     ok (en_remote e) \<and> (\<forall>f \<in> set (en_others e). polite ok objects f) \<and> (\<forall>h \<in> S. objects (en_remote e) h \<noteq> None)"

text \<open>
  The rule every device follows: a snapshot of C that is on the remote has all its chunks there.
\<close>

definition complete :: "('r \<Rightarrow> string \<Rightarrow> bytes option) \<Rightarrow> (string \<times> snapshot) set \<Rightarrow> 'r \<Rightarrow> bool" where
  "complete objects C r \<longleftrightarrow>
     (\<forall>(h, s) \<in> C. objects r h \<noteq> None \<longrightarrow> (\<forall>c \<in> set (snapshot_chunks s). objects r c \<noteq> None))"

context sync_remote begin

abbreviation holds_all :: "string set \<Rightarrow> 'r engine \<Rightarrow> bool" where
  "holds_all \<equiv> holds_all_in ok objects"

lemmas holds_all_def = holds_all_in_def [of ok objects]

lemma holds_all_local [keeps_intros]: "keeps (holds_all S) (on_local m)"
  by (rule keepsI) (simp add: on_local_def holds_all_def split: prod.split)

lemma holds_all_mono: "holds_all A e \<Longrightarrow> B \<subseteq> A \<Longrightarrow> holds_all B e"
  by (auto simp: holds_all_def)

lemma holds_all_others: "holds_all S e \<Longrightarrow> others_step e = (Inr (), e') \<Longrightarrow> holds_all S e'"
  by (cases "en_others e") (auto simp: others_step_def modify_def holds_all_def polite_def)

lemma on_remote_run:
  assumes "holds_all S e" and "on_remote m e = (x, e')"
  obtains e1 r where "holds_all S e1" "m (en_remote e1) = (x, r)" "e' = e1\<lparr>en_remote := r\<rparr>" "en_local e1 = en_local e"
proof -
  obtain e1 where e1: "others_step e = (Inr (), e1)" by (simp add: others_step_def modify_def)
  then have "holds_all S e1" by (rule holds_all_others [OF assms(1)])
  moreover have "en_local e1 = en_local e"
    using e1 by (cases "en_others e") (auto simp: others_step_def modify_def)
  ultimately show ?thesis
    using assms(2) e1 that by (auto simp: on_remote_def seq_def bnd_def split: prod.splits)
qed

lemma has_objects_run:
  assumes "holds_all S e" and "on_remote (ro_hasObjects rm hs) e = (x, e')"
  shows "holds_all S e' \<and> (\<forall>known. x = Inr known \<longrightarrow> holds_all (S \<union> set known) e' \<and> set known \<subseteq> set hs)"
  using assms
proof (rule on_remote_run)
  fix e1 r assume e1: "holds_all S e1" "ro_hasObjects rm hs (en_remote e1) = (x, r)" "e' = e1\<lparr>en_remote := r\<rparr>"
  then have "ok (en_remote e1)" by (simp add: holds_all_def)
  from has_objects [OF this e1(2)] e1 show ?thesis by (auto simp: holds_all_def)
qed

lemma put_objects_run:
  assumes "holds_all S e" and "distinct (rkeys os)" and "on_remote (ro_putObjects rm os) e = (x, e')"
  shows "holds_all S e' \<and> (\<forall>u. x = Inr u \<longrightarrow> holds_all (S \<union> set (rkeys os)) e')"
  using assms(1,3)
proof (rule on_remote_run)
  fix e1 r assume e1: "holds_all S e1" "ro_putObjects rm os (en_remote e1) = (x, r)" "e' = e1\<lparr>en_remote := r\<rparr>"
  then have "ok (en_remote e1)" by (simp add: holds_all_def)
  note law = put_objects [OF this assms(2) e1(2)]
  have grow: "objects r h \<noteq> None" if "objects (en_remote e1) h \<noteq> None" for h
    using law that by (metis option.distinct(1))
  have new: "objects r h \<noteq> None" if stored: "x = Inr u" "h \<in> set (rkeys os)" for u h
  proof -
    obtain b where "rget os h = Some b"
      using stored(2) by (metis map_of_eq_None_iff not_None_eq set_map)
    with law stored(1) show ?thesis by (metis option.distinct(1))
  qed
  have remote: "en_remote e' = r" "en_others e' = en_others e1" using e1(3) by simp_all
  have kept: "holds_all S e'"
    using grow law e1(1) unfolding holds_all_def remote by blast
  moreover have "holds_all (S \<union> set (rkeys os)) e'" if "x = Inr u" for u
    using kept new [OF that] unfolding holds_all_def remote by blast
  ultimately show ?thesis by blast
qed

lemma set_head_run:
  assumes "holds_all S e" and "\<And>h. expected = Some h \<Longrightarrow> is_object_hash h"
    and "on_remote (ro_setHead rm expected nxt) e = (x, e')"
  shows "holds_all S e' \<and> (x = Inr True \<longrightarrow> remote_head (en_remote e') = Some nxt)"
  using assms(1,3)
proof (rule on_remote_run)
  fix e1 r assume e1: "holds_all S e1" "ro_setHead rm expected nxt (en_remote e1) = (x, r)" "e' = e1\<lparr>en_remote := r\<rparr>"
  then have "ok (en_remote e1)" by (simp add: holds_all_def)
  from set_head [OF this assms(2) e1(2)] e1 show ?thesis by (auto simp: holds_all_def)
qed

lemma missing_run:
  assumes "holds_all S e" and "missing_on_remote rm hs e = (x, e')"
  shows "holds_all S e' \<and> (\<forall>missing. x = Inr missing \<longrightarrow> holds_all (S \<union> (set hs - set missing)) e' \<and> set missing \<subseteq> set hs)"
proof -
  let ?step = "\<lambda>batch missing. bnd (on_remote (ro_hasObjects rm batch)) (\<lambda>has. ret (missing @ filter (\<lambda>h. h \<notin> set has) batch))"
  have "fold_eff ?step bs acc e = (x, e') \<Longrightarrow> holds_all (S \<union> T) e \<Longrightarrow>
      holds_all S e' \<and> (\<forall>missing. x = Inr missing \<longrightarrow>
        holds_all (S \<union> T \<union> (set (concat bs) - set missing)) e' \<and> set acc \<subseteq> set missing \<and> set missing \<subseteq> set acc \<union> set (concat bs))" for bs acc T e
  proof (induction bs arbitrary: acc T e)
    case Nil
    then show ?case by (auto simp: ret_def holds_all_def)
  next
    case (Cons b bs)
    obtain y e1 where one: "on_remote (ro_hasObjects rm b) e = (y, e1)" by fastforce
    note has = has_objects_run [OF Cons.prems(2) one]
    show ?case
    proof (cases y)
      case (Inl er)
      with Cons.prems one has show ?thesis by (auto simp: bnd_def holds_all_def)
    next
      case (Inr known)
      then have rest: "fold_eff ?step bs (acc @ filter (\<lambda>h. h \<notin> set known) b) e1 = (x, e')"
        using Cons.prems(1) one by (simp add: bnd_def ret_def)
      have "holds_all (S \<union> (T \<union> set known)) e1" using has Inr by (simp add: Un_assoc)
      from Cons.IH [OF rest this] have kept: "holds_all S e'" and after: "\<And>missing. x = Inr missing \<Longrightarrow>
          holds_all (S \<union> (T \<union> set known) \<union> (set (concat bs) - set missing)) e' \<and>
          set (acc @ filter (\<lambda>h. h \<notin> set known) b) \<subseteq> set missing \<and>
          set missing \<subseteq> set (acc @ filter (\<lambda>h. h \<notin> set known) b) \<union> set (concat bs)"
        by blast+
      have "holds_all (S \<union> T \<union> (set (concat (b # bs)) - set missing)) e' \<and> set acc \<subseteq> set missing \<and>
          set missing \<subseteq> set acc \<union> set (concat (b # bs))" if "x = Inr missing" for missing
        using after [OF that] holds_all_mono [of "S \<union> (T \<union> set known) \<union> (set (concat bs) - set missing)" e'
            "S \<union> T \<union> (set (concat (b # bs)) - set missing)"] by auto
      with kept show ?thesis by blast
    qed
  qed
  from this [of "batches stat_batch hs" "[]" e "{}"] assms show ?thesis
    by (simp add: missing_on_remote_def concat_batches stat_batch_def)
qed

lemma upload_run:
  assumes "holds_all S e" and "upload_chunks rm missing e = (x, e')"
  shows "holds_all S e' \<and> (\<forall>u. x = Inr u \<longrightarrow> holds_all (S \<union> set missing) e')"
proof -
  have loop: "fold_eff (upload_chunk rm) hs (payload, n) e = (y, e') \<Longrightarrow> holds_all (S \<union> T) e \<Longrightarrow> distinct (rkeys payload) \<Longrightarrow>
      holds_all S e' \<and> (\<forall>p m. y = Inr (p, m) \<longrightarrow> distinct (rkeys p) \<and>
        (\<exists>U. holds_all (S \<union> U) e' \<and> T \<union> set (rkeys payload) \<union> set hs \<subseteq> U \<union> set (rkeys p)))" for hs payload n T e y e'
  proof (induction hs arbitrary: payload n T e)
    case Nil
    then show ?case by (auto simp: ret_def holds_all_def)
  next
    case (Cons h hs)
    obtain c e1 where read: "on_local (on_store (\<lambda>_. fs_read (chunk_path h))) e = (c, e1)" by fastforce
    have e1: "holds_all (S \<union> T) e1" using keepsD [OF holds_all_local Cons.prems(2) read] .
    have step: "(case upload_chunk rm h (payload, n) e of (Inl er, t) \<Rightarrow> (Inl er, t)
        | (Inr a, t) \<Rightarrow> fold_eff (upload_chunk rm) hs a t) = (y, e')"
      using Cons.prems(1) by (simp add: bnd_def)
    show ?case
    proof (cases c)
      case (Inl er)
      with read have "upload_chunk rm h (payload, n) e = (Inl er, e1)" by (simp add: upload_chunk_def bnd_def)
      with step e1 show ?thesis by (auto simp: holds_all_def)
    next
      case (Inr content)
      let ?p = "rset h content payload" and ?n = "n + length content"
      have dist: "distinct (rkeys ?p)" using Cons.prems(3) by simp
      have keys: "set (rkeys ?p) = insert h (set (rkeys payload))"
        by (auto simp: AList.dom_update)
      show ?thesis
      proof (cases "?n \<ge> put_batch_bytes")
        case False
        with read Inr have "upload_chunk rm h (payload, n) e = (Inr (?p, ?n), e1)"
          by (simp add: upload_chunk_def bnd_def ret_def Let_def)
        with step have "fold_eff (upload_chunk rm) hs (?p, ?n) e1 = (y, e')" by simp
        moreover have "T \<union> set (rkeys ?p) \<union> set hs = T \<union> set (rkeys payload) \<union> set (h # hs)"
          unfolding keys by auto
        ultimately show ?thesis using Cons.IH [OF _ e1 dist] by simp
      next
        case True
        obtain z e2 where put: "on_remote (ro_putObjects rm ?p) e1 = (z, e2)" by fastforce
        note P = put_objects_run [OF e1 dist put]
        show ?thesis
        proof (cases z)
          case (Inl er)
          with read Inr True put have "upload_chunk rm h (payload, n) e = (Inl er, e2)"
            by (simp add: upload_chunk_def bnd_def seq_def Let_def)
          with step P show ?thesis by (auto simp: holds_all_def)
        next
          case ok: (Inr u)
          with read Inr True put have "upload_chunk rm h (payload, n) e = (Inr ([], 0), e2)"
            by (simp add: upload_chunk_def bnd_def seq_def ret_def Let_def)
          with step have "fold_eff (upload_chunk rm) hs ([], 0) e2 = (y, e')" by simp
          moreover have "holds_all (S \<union> (T \<union> set (rkeys ?p))) e2" using P ok by (simp add: Un_assoc)
          moreover have "T \<union> set (rkeys ?p) \<union> set (rkeys ([] :: bytes rec)) \<union> set hs = T \<union> set (rkeys payload) \<union> set (h # hs)"
            unfolding keys by auto
          ultimately show ?thesis using Cons.IH [where payload = "[]" and n = 0 and e = e2 and T = "T \<union> set (rkeys ?p)"] by simp
        qed
      qed
    qed
  qed
  obtain y e1 where up: "fold_eff (upload_chunk rm) missing ([], 0) e = (y, e1)" by fastforce
  note L = loop [OF up, of "{}"]
  show ?thesis
  proof (cases y)
    case (Inl er)
    with assms up L show ?thesis by (auto simp: upload_chunks_def bnd_def)
  next
    case (Inr a)
    obtain p m where a: "a = (p, m)" by fastforce
    from L assms(1) Inr a have e1: "holds_all S e1" and dist: "distinct (rkeys p)" by auto
    from L assms(1) Inr a obtain U where U: "holds_all (S \<union> U) e1" "set missing \<subseteq> U \<union> set (rkeys p)" by auto
    have rest: "when_do (p \<noteq> []) (on_remote (ro_putObjects rm p)) e1 = (x, e')"
      using assms(2) up Inr a by (simp add: upload_chunks_def bnd_def)
    show ?thesis
    proof (cases "p = []")
      case True
      with rest U e1 holds_all_mono [OF U(1), of "S \<union> set missing"] show ?thesis by (auto simp: when_do_def ret_def)
    next
      case False
      then have put: "on_remote (ro_putObjects rm p) e1 = (x, e')" using rest by (simp add: when_do_def)
      from put_objects_run [OF U(1) dist put] U(2) holds_all_mono [of "S \<union> U \<union> set (rkeys p)" e' "S \<union> set missing"]
        holds_all_mono [of "S \<union> U" e' S]
      show ?thesis by auto
    qed
  qed
qed

lemma known_complete:
  assumes "holds_all S e" and "complete objects C (en_remote e)"
    and "\<forall>f \<in> set (en_others e). \<forall>r. ok r \<longrightarrow> complete objects C r \<longrightarrow> complete objects C (f r)"
    and run: "on_remote (ro_hasObjects rm hs) e = (Inr known, e')"
  shows "holds_all (S \<union> set known \<union> {c. \<exists>h s. h \<in> set known \<and> (h, s) \<in> C \<and> c \<in> set (snapshot_chunks s)}) e'"
proof -
  obtain e1 where e1: "others_step e = (Inr (), e1)" by (simp add: others_step_def modify_def)
  then have whole: "complete objects C (en_remote e1)" and h1: "holds_all S e1"
    using assms(1-3) holds_all_others [OF assms(1) e1]
    by (cases "en_others e"; auto simp: others_step_def modify_def holds_all_def)+
  then have ok1: "ok (en_remote e1)" by (simp add: holds_all_def)
  obtain r where r: "ro_hasObjects rm hs (en_remote e1) = (Inr known, r)" and e': "e' = e1\<lparr>en_remote := r\<rparr>"
    using run e1 by (auto simp: on_remote_def seq_def bnd_def split: prod.splits)
  from has_objects [OF ok1 r] have law: "r = en_remote e1" "set known = {h \<in> set hs. objects (en_remote e1) h \<noteq> None}" by auto
  have chunks: "objects (en_remote e1) c \<noteq> None" if "h \<in> set known" "(h, s) \<in> C" "c \<in> set (snapshot_chunks s)" for h s c
    using whole that law(2) unfolding complete_def by blast
  have objs: "objects (en_remote e1) h \<noteq> None" if "h \<in> set known" for h
    using that law(2) by simp
  have "e' = e1" using e' law(1) by simp
  show ?thesis
    using h1 chunks objs unfolding holds_all_def \<open>e' = e1\<close> by blast
qed

definition push_tail where
  "push_tail synced latest chain fresh =
     bnd (missing_on_remote rm (uniq (concat (map (\<lambda>(_, _, s). snapshot_chunks s) fresh)))) (\<lambda>missing.
              seq (upload_chunks rm missing)
             (seq (when_do (fresh \<noteq> [])
                     (on_remote (ro_putObjects rm (foldl (\<lambda>m (h, b, _). rset h b m) [] (rev fresh)))))
             (bnd (on_remote (ro_setHead rm synced (sn_hash latest))) (\<lambda>committed.
                if \<not> committed then throw SyncHeadMovedError else ret ()))))"

lemma payload_keys:
  "set (rkeys (foldl (\<lambda>m (h, b, _). rset h b m) m fresh)) = set (rkeys m) \<union> fst ` set fresh \<and>
   (distinct (rkeys m) \<longrightarrow> distinct (rkeys (foldl (\<lambda>m (h, b, _). rset h b m) m fresh)))"
proof (induction fresh arbitrary: m)
  case (Cons x fresh)
  obtain h b s where x: "x = (h, b, s)" by (cases x)
  have "set (rkeys (rset h b m)) = insert h (set (rkeys m))" by (auto simp: AList.dom_update)
  with Cons.IH [of "rset h b m"] show ?case by (auto simp: x)
qed simp

lemma push_tail_run:
  assumes "holds_all S e" and synced: "\<And>h. synced = Some h \<Longrightarrow> is_object_hash h"
    and "push_tail synced latest chain fresh e = (Inr u, e')"
  shows "remote_head (en_remote e') = Some (sn_hash latest) \<and>
    holds_all (S \<union> fst ` set fresh \<union> {c. \<exists>h b s. (h, b, s) \<in> set fresh \<and> c \<in> set (snapshot_chunks s)}) e'"
proof -
  let ?wanted = "uniq (concat (map (\<lambda>(_, _, s). snapshot_chunks s) fresh))"
  let ?put = "foldl (\<lambda>m (h, b, _). rset h b m) ([] :: bytes rec) (rev fresh)"
  from assms(3) obtain missing e1 e2 e3 where
    miss: "missing_on_remote rm ?wanted e = (Inr missing, e1)" and up: "upload_chunks rm missing e1 = (Inr (), e2)"
    and put: "when_do (fresh \<noteq> []) (on_remote (ro_putObjects rm ?put)) e2 = (Inr (), e3)"
    and hd: "bnd (on_remote (ro_setHead rm synced (sn_hash latest))) (\<lambda>committed.
                if \<not> committed then throw SyncHeadMovedError else ret ()) e3 = (Inr u, e')"
    unfolding push_tail_def by (auto simp: bnd_Inr seq_Inr)
  have keys: "set (rkeys ?put) = fst ` set fresh" "distinct (rkeys ?put)"
    using payload_keys [of "[]" "rev fresh"] by auto
  from missing_run [OF assms(1) miss] have h1: "holds_all (S \<union> (set ?wanted - set missing)) e1" by blast
  from upload_run [OF h1 up] have "holds_all (S \<union> (set ?wanted - set missing) \<union> set missing) e2" by blast
  then have h2: "holds_all (S \<union> set ?wanted) e2" by (rule holds_all_mono) auto
  have h3: "holds_all (S \<union> set ?wanted \<union> fst ` set fresh) e3"
  proof (cases "fresh = []")
    case True
    with put h2 show ?thesis by (simp add: when_do_def ret_def)
  next
    case False
    with put have "on_remote (ro_putObjects rm ?put) e2 = (Inr (), e3)" by (simp add: when_do_def)
    from put_objects_run [OF h2 keys(2) this] keys(1) show ?thesis by simp
  qed
  from hd have head: "on_remote (ro_setHead rm synced (sn_hash latest)) e3 = (Inr True, e')"
    by (auto simp: bnd_Inr throw_def ret_def split: if_splits)
  from set_head_run [OF h3 synced head] have "holds_all (S \<union> set ?wanted \<union> fst ` set fresh) e'"
    and moved: "remote_head (en_remote e') = Some (sn_hash latest)" by auto
  moreover have "S \<union> fst ` set fresh \<union> {c. \<exists>h b s. (h, b, s) \<in> set fresh \<and> c \<in> set (snapshot_chunks s)}
      \<subseteq> S \<union> set ?wanted \<union> fst ` set fresh" by force
  ultimately show ?thesis using holds_all_mono by blast
qed

lemma push_complete:
  assumes start: "holds_all {} e" "complete objects C (en_remote e)"
    and others: "\<forall>f \<in> set (en_others e). \<forall>r. ok r \<longrightarrow> complete objects C r \<longrightarrow> complete objects C (f r)"
    and chain: "push_chain (w_store (en_local e)) synced [] (Some (sn_hash latest)) = Inr chain"
    and inC: "\<forall>(h, b, s) \<in> set chain. (h, s) \<in> C"
    and synced: "\<And>h. synced = Some h \<Longrightarrow> is_object_hash h" and new: "synced \<noteq> Some (sn_hash latest)"
    and run: "push rm synced latest e = (Inr u, e')"
  shows "remote_head (en_remote e') = Some (sn_hash latest) \<and>
    (\<forall>(h, b, s) \<in> set chain. objects (en_remote e') h \<noteq> None \<and> (\<forall>c \<in> set (snapshot_chunks s). objects (en_remote e') c \<noteq> None))"
proof -
  have same: "e\<lparr>en_local := en_local e\<rparr> = e" by simp
  from new run chain same obtain known e1 where has: "on_remote (ro_hasObjects rm (map fst chain)) e = (Inr known, e1)"
    and tail: "push_tail synced latest chain (filter (\<lambda>(h, _, _). h \<notin> set known) chain) e1 = (Inr u, e')"
    unfolding push_def push_tail_def Let_def by (auto simp: bnd_Inr on_local_def)
  from known_complete [OF start others has] have h1: "holds_all
      ({} \<union> set known \<union> {c. \<exists>h s. h \<in> set known \<and> (h, s) \<in> C \<and> c \<in> set (snapshot_chunks s)}) e1" .
  from push_tail_run [OF h1 synced tail] have moved: "remote_head (en_remote e') = Some (sn_hash latest)"
    and all: "holds_all ({} \<union> set known \<union> {c. \<exists>h s. h \<in> set known \<and> (h, s) \<in> C \<and> c \<in> set (snapshot_chunks s)}
       \<union> fst ` set (filter (\<lambda>(h, _, _). h \<notin> set known) chain)
       \<union> {c. \<exists>h b s. (h, b, s) \<in> set (filter (\<lambda>(h, _, _). h \<notin> set known) chain) \<and> c \<in> set (snapshot_chunks s)}) e'"
    by blast+
  have "objects (en_remote e') h \<noteq> None \<and> (\<forall>c \<in> set (snapshot_chunks s). objects (en_remote e') c \<noteq> None)"
    if "(h, b, s) \<in> set chain" for h b s
  proof -
    from that inC have C: "(h, s) \<in> C" by auto
    have fresh: "(h, b, s) \<in> set (filter (\<lambda>(h, _, _). h \<notin> set known) chain)" if "h \<notin> set known"
      using that \<open>(h, b, s) \<in> set chain\<close> by simp
    from fresh have "h \<in> fst ` set (filter (\<lambda>(h, _, _). h \<notin> set known) chain)" if "h \<notin> set known"
      using that by force
    with all have "objects (en_remote e') h \<noteq> None" unfolding holds_all_def by blast
    moreover have "objects (en_remote e') c \<noteq> None" if "c \<in> set (snapshot_chunks s)" for c
      using all C fresh that unfolding holds_all_def by blast
    ultimately show ?thesis by blast
  qed
  with moved show ?thesis by blast
qed

end

section \<open>The properties\<close>

text \<open>
  What a push has to bring to the server: the snapshots of the local store that lie between the pushed
  one and the head the device last synced with, found by following parents.
\<close>

inductive unsynced :: "disk \<Rightarrow> string option \<Rightarrow> string \<Rightarrow> string \<Rightarrow> bool" for d synced latest where
  Latest: "synced \<noteq> Some latest \<Longrightarrow> unsynced d synced latest latest"
| Parent: "unsynced d synced latest h \<Longrightarrow> load_snapshot d h = Inr s \<Longrightarrow> sn_parent s = Some p \<Longrightarrow> synced \<noteq> Some p \<Longrightarrow>
    unsynced d synced latest p"

lemma push_chain_Inr:
  assumes "push_chain d synced visited current = Inr chain"
  shows "(\<forall>(h, b, s) \<in> set chain. load_snapshot d h = Inr s
        \<and> (\<forall>p s'. sn_parent s = Some p \<and> synced \<noteq> Some p \<and> load_snapshot d p = Inr s'
            \<longrightarrow> p \<in> set visited \<or> (\<exists>b'. (p, b', s') \<in> set chain)))
    \<and> (\<forall>h s. current = Some h \<and> synced \<noteq> Some h \<and> h \<notin> set visited \<and> load_snapshot d h = Inr s \<longrightarrow> (\<exists>b. (h, b, s) \<in> set chain))"
  using assms
proof (induction d synced visited current arbitrary: chain rule: push_chain.induct)
  case (1 d synced visited current)
  show ?case
  proof (cases "\<exists>h. current = Some h \<and> Some h \<noteq> synced \<and> h \<notin> set visited")
    case False
    with 1(2) have "chain = []" by (subst (asm) push_chain.simps) (auto split: option.splits)
    with False show ?thesis by auto
  next
    case True
    then obtain h where h: "current = Some h" "Some h \<noteq> synced" "h \<notin> set visited" by blast
    obtain r d' where read: "fs_read (snapshot_path h) d = (r, d')" by fastforce
    show ?thesis
    proof (cases r)
      case (Inl e)
      with 1(2) h read have "chain = []"
        by (subst (asm) push_chain.simps) (auto split: app_error.splits)
      moreover have "load_snapshot d h \<noteq> Inr s" for s
      proof -
        have "file_at d (snapshot_path h) = None"
          using read Inl fs_read_ok [of "snapshot_path h" d _ d] by (cases "file_at d (snapshot_path h)") auto
        then show ?thesis by (simp add: load_snapshot_Inr)
      qed
      ultimately show ?thesis using h by auto
    next
      case (Inr b)
      have step: "(case parse_json (utf8_decode b) of
            None \<Rightarrow> Inl SyntaxFailure
          | Some j \<Rightarrow> (case snapshot_of_json j of
              None \<Rightarrow> Inl type_error
            | Some s \<Rightarrow> map_sum id (Cons (h, b, s)) (push_chain d synced (h # visited) (sn_parent s)))) = Inr chain"
        using 1(2) h read Inr by (subst (asm) push_chain.simps) simp
      obtain j s where parsed: "parse_json (utf8_decode b) = Some j" "snapshot_of_json j = Some s"
        using step by (auto split: option.splits)
      with step obtain rest where rec: "push_chain d synced (h # visited) (sn_parent s) = Inr rest" and chain: "chain = (h, b, s) # rest"
        by (cases "push_chain d synced (h # visited) (sn_parent s)") auto
      have load: "load_snapshot d h = Inr s"
        using read Inr parsed fs_read_ok by (auto simp: load_snapshot_Inr)
      have IH: "(\<forall>(g, b, t) \<in> set rest. load_snapshot d g = Inr t
          \<and> (\<forall>p s'. sn_parent t = Some p \<and> synced \<noteq> Some p \<and> load_snapshot d p = Inr s'
              \<longrightarrow> p \<in> set (h # visited) \<or> (\<exists>b'. (p, b', s') \<in> set rest)))
        \<and> (\<forall>g t. sn_parent s = Some g \<and> synced \<noteq> Some g \<and> g \<notin> set (h # visited) \<and> load_snapshot d g = Inr t
              \<longrightarrow> (\<exists>b. (g, b, t) \<in> set rest))"
        using h read Inr parsed rec by (intro 1(1)) auto
      with load h chain show ?thesis by fastforce
    qed
  qed
qed

lemma unsynced_in_chain:
  assumes "unsynced d synced latest h" and "push_chain d synced [] (Some latest) = Inr chain" and "load_snapshot d h = Inr s"
  shows "\<exists>b. (h, b, s) \<in> set chain"
  using assms(1,3)
proof (induction arbitrary: s)
  case Latest
  with push_chain_Inr [OF assms(2)] show ?case by auto
next
  case (Parent h t p)
  from Parent.IH [OF Parent.hyps(2)] obtain b where "(h, b, t) \<in> set chain" by blast
  with push_chain_Inr [OF assms(2)] Parent show ?case by fastforce
qed

lemma push_chain_of_push:
  assumes "push rm synced latest e = (Inr u, e')" and "synced \<noteq> Some (sn_hash latest)"
  shows "\<exists>chain. push_chain (w_store (en_local e)) synced [] (Some (sn_hash latest)) = Inr chain"
  using assms by (auto simp: push_def bnd_Inr on_local_def)

lemma chain_is_unsynced:
  assumes "push_chain d synced visited current = Inr chain" and "\<And>h. current = Some h \<Longrightarrow> synced \<noteq> Some h \<Longrightarrow> unsynced d synced latest h"
    and "(h, b, s) \<in> set chain"
  shows "unsynced d synced latest h \<and> load_snapshot d h = Inr s"
  using assms
proof (induction d synced visited current arbitrary: chain rule: push_chain.induct)
  case (1 d synced visited current)
  from 1(2,4) obtain g where g: "current = Some g" "Some g \<noteq> synced" "g \<notin> set visited"
    by (subst (asm) push_chain.simps) (auto split: option.splits if_splits)
  obtain r d' where read: "fs_read (snapshot_path g) d = (r, d')" by fastforce
  have tried: "(case r of
        Inl (FileNotFound _) \<Rightarrow> Inr []
      | Inl e \<Rightarrow> Inl e
      | Inr b \<Rightarrow> (case parse_json (utf8_decode b) of
            None \<Rightarrow> Inl SyntaxFailure
          | Some j \<Rightarrow> (case snapshot_of_json j of
              None \<Rightarrow> Inl type_error
            | Some s \<Rightarrow> map_sum id (Cons (g, b, s)) (push_chain d synced (g # visited) (sn_parent s))))) = Inr chain"
    using 1(2) g read by (subst (asm) push_chain.simps) simp
  then obtain c where r: "r = Inr c"
    using 1(4) by (cases r) (auto split: app_error.splits)
  with tried obtain j t where parsed: "parse_json (utf8_decode c) = Some j" "snapshot_of_json j = Some t"
    by (auto split: option.splits)
  with tried r obtain rest where rec: "push_chain d synced (g # visited) (sn_parent t) = Inr rest" and chain: "chain = (g, c, t) # rest"
    by (cases "push_chain d synced (g # visited) (sn_parent t)") auto
  have load: "load_snapshot d g = Inr t"
    using read r parsed fs_read_ok by (auto simp: load_snapshot_Inr)
  have here: "unsynced d synced latest g" using 1(3) g by auto
  show ?case
  proof (cases "(h, b, s) = (g, c, t)")
    case True
    with load here show ?thesis by simp
  next
    case False
    with 1(4) chain have "(h, b, s) \<in> set rest" by auto
    with g read r parsed rec here load show ?thesis
      by (intro 1(1)) (auto intro: unsynced.Parent)
  qed
qed

text \<open>
  C9: a push that succeeds has left nothing out. When it returns, the server's head is the pushed
  snapshot, and every snapshot of the local store from it back to the synced head, however long that
  history is, is on the server together with every chunk it lists. Other devices may act on the server
  before each of this device's requests, provided they too put chunks before the snapshots that list
  them and remove nothing.
\<close>

theorem push_leaves_nothing_out:
  assumes "C = {(h, s). unsynced (w_store (en_local e)) synced (sn_hash latest) h \<and> load_snapshot (w_store (en_local e)) h = Inr s}"
    and "holds_all_in vfs_ok vfs_objects {} e" and "complete vfs_objects C (en_remote e)"
    and "\<forall>f \<in> set (en_others e). \<forall>r. vfs_ok r \<longrightarrow> complete vfs_objects C r \<longrightarrow> complete vfs_objects C (f r)"
    and "\<And>h. synced = Some h \<Longrightarrow> is_object_hash h" and "synced \<noteq> Some (sn_hash latest)"
    and "push (vfs_remote t) synced latest e = (Inr u, e')"
  shows "vfs_head (en_remote e') = Some (sn_hash latest) \<and>
    (\<forall>h s. unsynced (w_store (en_local e)) synced (sn_hash latest) h \<longrightarrow> load_snapshot (w_store (en_local e)) h = Inr s \<longrightarrow>
       vfs_objects (en_remote e') h \<noteq> None \<and> (\<forall>c \<in> set (snapshot_chunks s). vfs_objects (en_remote e') c \<noteq> None))"
proof -
  from push_chain_of_push [OF assms(7,6)] obtain chain
    where chain: "push_chain (w_store (en_local e)) synced [] (Some (sn_hash latest)) = Inr chain" by blast
  have "\<forall>(h, b, s) \<in> set chain. (h, s) \<in> C"
    using chain_is_unsynced [OF chain, of "sn_hash latest"] assms(1,6) by (auto intro: unsynced.Latest)
  from vfs.push_complete [OF assms(2-4) chain this assms(5,6,7)] unsynced_in_chain [OF _ chain] show ?thesis by fastforce
qed

definition bare_snapshot :: snapshot where
  "bare_snapshot = \<lparr>sn_hash = demo_hash, sn_parent = None, sn_timestamp = 0, sn_files = []\<rparr>"

definition bare_bytes :: bytes where "bare_bytes = utf8_encode (stringify (json_of_snapshot bare_snapshot))"

definition bare_world :: world where
  "bare_world = \<lparr>w_tree = \<lparr>root_dir = [], nodes = []\<rparr>,
     w_store = \<lparr>root_dir = [], nodes = [([''repo'', ''snapshots'', demo_hash], File bare_bytes 0 0)]\<rparr>, w_clock = 0,
     w_uuids = 0, w_index = None, w_dirty = False, w_rivals = []\<rparr>"

definition bare_engine :: "disk engine" where
  "bare_engine = \<lparr>en_local = bare_world, en_remote = \<lparr>root_dir = [], nodes = []\<rparr>, en_others = [], en_progress = []\<rparr>"

lemma bare_json: "parse_json (utf8_decode bare_bytes) = Some (json_of_snapshot bare_snapshot)"
    "snapshot_of_json (json_of_snapshot bare_snapshot) = Some bare_snapshot"
  using snapshot_json [of bare_snapshot] by (simp_all add: bare_bytes_def) (simp add: bare_snapshot_def)

lemma bare_chain: "push_chain (w_store (en_local bare_engine)) None [] (Some (sn_hash bare_snapshot))
    = Inr [(demo_hash, bare_bytes, bare_snapshot)]"
proof -
  let ?d = "w_store (en_local bare_engine)"
  have "to_os_path ?d (snapshot_path demo_hash) = Inr [''repo'', ''snapshots'', demo_hash]"
    by (rule os_snapshot [OF _ demo_hash_ok]) (simp add: rooted_def bare_engine_def bare_world_def)
  then have "fs_read (snapshot_path demo_hash) ?d = (Inr bare_bytes, ?d)"
    by (simp add: fs_read_ok file_at_key) (simp add: bare_engine_def bare_world_def)
  then show ?thesis
    using bare_json by (subst push_chain.simps) (simp add: bare_snapshot_def push_chain.simps)
qed

lemma bare_remote_ok: "holds_all_in vfs_ok vfs_objects {} bare_engine"
  by (simp add: holds_all_in_def vfs_ok_def rooted_def bare_engine_def)

lemma bare_push: "\<exists>e'. push (vfs_remote 5) None bare_snapshot bare_engine = (Inr (), e')"
proof -
  let ?d = "\<lparr>root_dir = [], nodes = []\<rparr> :: disk"
  have root: "rooted ?d" by (simp add: rooted_def)
  have ok: "vfs_ok ?d" by (simp add: vfs_ok_def root)
  note os = os_object [OF root demo_hash_ok]
  have none: "vfs_objects ?d demo_hash = None"
    by (simp add: vfs_objects_def file_at_def os os_stat_def object_keys_def)
  have has: "vfs_hasObjects [demo_hash] ?d = (Inr [], ?d)"
    using exists_object [OF ok demo_hash_ok] none by (simp add: vfs_hasObjects_def object_file_def demo_hash_ok bnd_def ret_def)
  let ?ks = "object_keys demo_hash"
  obtain ns where ns: "make_dirs 5 (ancestors ?ks) [] = Inr ns"
    using make_dirs_fail [of 5 "ancestors ?ks" "[]"] by (cases "make_dirs 5 (ancestors ?ks) []") auto
  have "map_of ns ?ks = None" "map_of ns [''head''] = None"
    using make_dirs_lookup [OF ns, of ?ks] make_dirs_lookup [OF ns, of "[''head'']"] ancestor_not_self [of ?ks]
    by (auto simp: ancestors_iff object_keys_def take_Suc_conv_app_nth dest!: arg_cong [where f = hd])
  moreover have "?ks \<noteq> []" "?ks \<noteq> [''head'']" by (simp_all add: object_keys_def)
  ultimately have put: "fs_write 5 (object_path demo_hash) bare_bytes ?d
      = (Inr (), ?d\<lparr>nodes := AList.update ?ks (File bare_bytes 5 5) ns\<rparr>)"
    and nohead: "map_of (AList.update ?ks (File bare_bytes 5 5) ns) [''head''] = None"
    using ns by (simp_all add: fs_write_def on_path_cases os replace_file_def update_conv')
  let ?d1 = "?d\<lparr>nodes := AList.update ?ks (File bare_bytes 5 5) ns\<rparr>"
  have "fst (vfs_setHead 5 None demo_hash ?d1) = Inr True"
    using nohead os_remote_head [of ?d1] root
    by (simp add: vfs_setHead_def demo_hash_ok fs_cas_def on_path_cases os_stat_def ancestors_def replace_file_def effs rooted_def)
  then obtain d2 where d2: "vfs_setHead 5 None demo_hash ?d1 = (Inr True, d2)" by (metis prod.collapse)
  have chain: "on_local (\<lambda>w. (push_chain (w_store w) None [] (Some (sn_hash bare_snapshot)), w)) bare_engine
      = (Inr [(demo_hash, bare_bytes, bare_snapshot)], bare_engine)"
    using bare_chain by (simp add: on_local_def)
  have alone: "on_remote m bare_engine = (case m ?d of (x, r) \<Rightarrow> (x, bare_engine\<lparr>en_remote := r\<rparr>))" for m :: "(disk, 'a) eff"
    by (simp add: on_remote_def others_step_def seq_def bnd_def modify_def bare_engine_def)
  have alone1: "on_remote m (bare_engine\<lparr>en_remote := r\<rparr>) = (case m r of (x, r') \<Rightarrow> (x, bare_engine\<lparr>en_remote := r'\<rparr>))"
    for m :: "(disk, 'a) eff" and r
    by (simp add: on_remote_def others_step_def seq_def bnd_def modify_def bare_engine_def)
  have upload: "missing_on_remote (vfs_remote 5) [] e = (Inr [], e)" "upload_chunks (vfs_remote 5) [] e = (Inr (), e)" for e :: "disk engine"
    by (simp_all add: missing_on_remote_def batches.simps upload_chunks_def ret_def bnd_def when_do_def)
  have files: "snapshot_chunks bare_snapshot = []" "sn_hash bare_snapshot = demo_hash"
    by (simp_all add: snapshot_chunks_def bare_snapshot_def)
  have here: "bare_engine\<lparr>en_remote := ?d\<rparr> = bare_engine" by (simp add: bare_engine_def)
  show ?thesis
    unfolding push_def using chain has put d2 files upload
    by (simp add: bnd_def seq_def alone alone1 here vfs_remote_def when_do_def vfs_putObjects_def object_file_def demo_hash_ok ret_def
        uniq_def Let_def)
qed

theorem push_leaves_nothing_out_witness:
  "\<exists>e'. push (vfs_remote 5) None bare_snapshot bare_engine = (Inr (), e') \<and> vfs_head (en_remote e') = Some demo_hash
     \<and> vfs_objects (en_remote e') demo_hash \<noteq> None"
proof -
  obtain e' where run: "push (vfs_remote 5) None bare_snapshot bare_engine = (Inr (), e')" using bare_push by blast
  let ?C = "{(h, s). unsynced (w_store (en_local bare_engine)) None (sn_hash bare_snapshot) h
      \<and> load_snapshot (w_store (en_local bare_engine)) h = Inr s}"
  have empty: "complete vfs_objects ?C (en_remote bare_engine)"
    by (simp add: complete_def bare_engine_def vfs_objects_def file_at_def os_stat_def split: sum.split)
  have "unsynced (w_store (en_local bare_engine)) None (sn_hash bare_snapshot) demo_hash"
    using unsynced.Latest [of None "sn_hash bare_snapshot" "w_store (en_local bare_engine)"] by (simp add: bare_snapshot_def)
  moreover have "load_snapshot (w_store (en_local bare_engine)) demo_hash = Inr bare_snapshot"
    using push_chain_Inr [OF bare_chain] by simp
  moreover note push_leaves_nothing_out [OF refl bare_remote_ok empty _ _ _ run]
  ultimately have "vfs_head (en_remote e') = Some demo_hash \<and> vfs_objects (en_remote e') demo_hash \<noteq> None"
    by (auto simp: bare_engine_def bare_snapshot_def)
  with run show ?thesis by blast
qed

end
