(* ===== verification/RangeReader.thy ===== *)
theory RangeReader
  imports Layout
begin

text \<open>
  Reading a part of a file out of a snapshot: \<open>packages/sync/src/snapshot-range-reader.ts\<close> and
  the two ways \<open>Repo\<close> opens such a reader. What fetches missing chunks is a parameter.
\<close>

section \<open>Spans\<close>

definition max_safe_integer :: int where
  "max_safe_integer = 2 ^ 53 - 1"

definition is_safe_integer :: "int \<Rightarrow> bool" where
  "is_safe_integer n \<longleftrightarrow> - max_safe_integer \<le> n \<and> n \<le> max_safe_integer"

record chunk_span =
  cs_chunk :: chunk_ref
  cs_start :: int
  cs_end :: int

fun spans_from :: "int \<Rightarrow> chunk_ref list \<Rightarrow> app_error + chunk_span list \<times> int" where
  "spans_from running [] = Inr ([], running)"
| "spans_from running (c # cs) =
     (let size = (case ck_size c of Some n \<Rightarrow> n | None \<Rightarrow> -1)
      in if \<not> is_safe_integer size \<or> size < 0 then Inl (IllegalStateError ''Invalid chunk size metadata'')
         else if \<not> is_safe_integer (running + size) then Inl (IllegalStateError ''Chunk sizes overflow'')
         else map_sum id (\<lambda>(spans, whole). (\<lparr>cs_chunk = c, cs_start = running, cs_end = running + size\<rparr> # spans, whole))
                (spans_from (running + size) cs))"

definition build_spans :: "snap_file \<Rightarrow> app_error + chunk_span list option" where
  "build_spans f =
     (if list_ex (\<lambda>c. ck_size c = None) (sf_chunks f) then Inr None
      else if (case sf_size f of Some n \<Rightarrow> \<not> is_safe_integer n \<or> n < 0 | None \<Rightarrow> False)
      then Inl (IllegalStateError ''Invalid size metadata'')
      else case spans_from 0 (sf_chunks f) of
          Inl e \<Rightarrow> Inl e
        | Inr (spans, running) \<Rightarrow>
            if sf_size f \<noteq> None \<and> Some running \<noteq> sf_size f
            then Inl (IllegalStateError ''Chunk sizes do not add up to the declared size'')
            else Inr (Some spans))"

section \<open>The reader\<close>

text \<open>A reader and what it keeps between calls: the outcome of the one whole-file read it makes.\<close>

record range_reader =
  rr_snapshot :: snapshot
  rr_file :: snap_file
  rr_spans :: "chunk_span list option"

record reader_state =
  rs_world :: world
  rs_full :: "(app_error + bytes) option"

definition on_world :: "(world, 'a) eff \<Rightarrow> (reader_state, 'a) eff" where
  "on_world m = (\<lambda>st. case m (rs_world st) of (r, w) \<Rightarrow> (r, st\<lparr>rs_world := w\<rparr>))"

type_synonym fetch_missing_chunks = "(string list \<Rightarrow> (world, unit) eff) option"

definition new_reader :: "snapshot \<Rightarrow> snap_file \<Rightarrow> app_error + range_reader" where
  "new_reader s f = map_sum id (\<lambda>spans. \<lparr>rr_snapshot = s, rr_file = f, rr_spans = spans\<rparr>) (build_spans f)"

definition ensure_chunks :: "fetch_missing_chunks \<Rightarrow> string list \<Rightarrow> (world, unit) eff" where
  "ensure_chunks fetch hashes =
     bnd (fold_eff (\<lambda>h out. bnd (on_store (\<lambda>_. fs_exists (chunk_path h))) (\<lambda>there. ret (if there then out else out @ [h])))
            (uniq hashes) []) (\<lambda>missing.
     if missing = [] then ret ()
     else case fetch of
         None \<Rightarrow> throw (IllegalStateError ''The requested part is unavailable offline. Connect to the sync server and retry.'')
       | Some fetch \<Rightarrow>
           seq (fetch missing)
             (for_each missing (\<lambda>h. bnd (on_store (\<lambda>_. fs_exists (chunk_path h))) (\<lambda>there.
                if there then ret () else throw (IllegalStateError ''Chunk is still missing after download'')))))"

definition read_legacy_content :: "params \<Rightarrow> fetch_missing_chunks \<Rightarrow> snap_file \<Rightarrow> (world, bytes) eff" where
  "read_legacy_content px fetch f =
     seq (ensure_chunks fetch (map ck_hash (sf_chunks f)))
    (bnd (fold_eff (\<lambda>c parts. bnd (on_store (\<lambda>_. fs_read (chunk_path (ck_hash c)))) (\<lambda>b. ret (parts @ [b]))) (sf_chunks f) [])
       (\<lambda>parts. if px_sha px (concat parts) \<noteq> sf_hash f then throw (IllegalStateError ''File integrity check failed'')
                else ret (concat parts)))"

text \<open>The promise is kept whether it was fulfilled or rejected.\<close>

definition load_legacy_content :: "params \<Rightarrow> fetch_missing_chunks \<Rightarrow> snap_file \<Rightarrow> (reader_state, bytes) eff" where
  "load_legacy_content px fetch f = (\<lambda>st.
     case rs_full st of
       Some r \<Rightarrow> (r, st)
     | None \<Rightarrow> (case read_legacy_content px fetch f (rs_world st) of (r, w) \<Rightarrow> (r, st\<lparr>rs_world := w, rs_full := Some r\<rparr>)))"

definition spans_size :: "snap_file \<Rightarrow> chunk_span list \<Rightarrow> int" where
  "spans_size f spans =
     (case sf_size f of Some n \<Rightarrow> n | None \<Rightarrow> if spans = [] then 0 else cs_end (last spans))"

definition reader_head :: "params \<Rightarrow> fetch_missing_chunks \<Rightarrow> range_reader \<Rightarrow> (reader_state, file_head) eff" where
  "reader_head px fetch rd =
     bnd (case rr_spans rd of
            None \<Rightarrow> bnd (load_legacy_content px fetch (rr_file rd)) (\<lambda>b. ret (length b))
          | Some spans \<Rightarrow> ret (nat (spans_size (rr_file rd) spans))) (\<lambda>size.
       ret \<lparr>head_size = size, head_modifiedAt = sn_timestamp (rr_snapshot rd), head_createdAt = sn_timestamp (rr_snapshot rd)\<rparr>)"

text \<open>\<open>Uint8Array.set\<close>: a source that does not fit is a range error.\<close>

definition buffer_set :: "bytes \<Rightarrow> bytes \<Rightarrow> nat \<Rightarrow> bytes option" where
  "buffer_set buf b off =
     (if off + length b \<le> length buf then Some (take off buf @ b @ drop (off + length b) buf) else None)"

definition intersects :: "nat \<Rightarrow> nat \<Rightarrow> chunk_span \<Rightarrow> bool" where
  "intersects start stop sp \<longleftrightarrow> cs_end sp > int start \<and> cs_start sp < int stop"

definition copy_span :: "nat \<Rightarrow> nat \<Rightarrow> chunk_span \<Rightarrow> bytes \<times> nat \<Rightarrow> (world, bytes \<times> nat) eff" where
  "copy_span start stop sp acc =
     bnd (on_store (\<lambda>_. fs_read (chunk_path (ck_hash (cs_chunk sp))))) (\<lambda>b.
       let declared = cs_end sp - cs_start sp
       in if int (length b) \<noteq> declared then throw (IllegalStateError ''Chunk size differs from the manifest'')
          else let lo = nat (max 0 (int start - cs_start sp)); hi = nat (min declared (int stop - cs_start sp))
               in bnd (or_type_error (buffer_set (fst acc) (slice lo hi b) (snd acc))) (\<lambda>buf.
                  ret (buf, snd acc + (hi - lo))))"

definition read_spans ::
    "fetch_missing_chunks \<Rightarrow> snap_file \<Rightarrow> chunk_span list \<Rightarrow> num_arg \<Rightarrow> num_arg option \<Rightarrow> (world, bytes) eff" where
  "read_spans fetch f spans offset len =
     bnd (lift_sum (resolve_range (nat (spans_size f spans)) offset len)) (\<lambda>(start, stop).
       if start \<ge> stop then ret []
       else let hit = filter (intersects start stop) spans
            in seq (ensure_chunks fetch (map (\<lambda>sp. ck_hash (cs_chunk sp)) hit))
              (bnd (fold_eff (copy_span start stop) hit (replicate (stop - start) 0, 0)) (\<lambda>(buf, written).
                 if written \<noteq> length buf then throw (IllegalStateError ''Short range read'') else ret buf)))"

definition read_snapshot_range ::
    "params \<Rightarrow> fetch_missing_chunks \<Rightarrow> range_reader \<Rightarrow> num_arg \<Rightarrow> num_arg option \<Rightarrow> (reader_state, bytes) eff" where
  "read_snapshot_range px fetch rd offset len =
     (case rr_spans rd of
        Some spans \<Rightarrow> on_world (read_spans fetch (rr_file rd) spans offset len)
      | None \<Rightarrow>
          bnd (lift_sum (resolve_range 0 offset len)) (\<lambda>_.
          bnd (load_legacy_content px fetch (rr_file rd)) (\<lambda>b.
          bnd (lift_sum (resolve_range (length b) offset len)) (\<lambda>(start, stop). ret (slice start stop b)))))"

section \<open>Opening a reader\<close>

definition open_snapshot_reader :: "snapshot \<Rightarrow> string \<Rightarrow> app_error + range_reader" where
  "open_snapshot_reader s p =
     (case rget (sn_files s) p of
        None \<Rightarrow> Inl (IllegalStateError ''The file is not in the snapshot'')
      | Some f \<Rightarrow> new_reader s f)"

definition open_pending_reader :: "string \<Rightarrow> (world, range_reader option) eff" where
  "open_pending_reader p =
     bnd (is_pending p) (\<lambda>pending.
     if \<not> pending then ret None
     else bnd get_head_snapshot (\<lambda>s.
       if rget (sn_files s) p = None then ret None
       else bnd (lift_sum (open_snapshot_reader s p)) (\<lambda>rd. ret (Some rd))))"

text \<open>\<open>SyncEngine.readRange\<close>; what it fetches with is the engine's \<open>fetchAndStore\<close>.\<close>

definition read_head_range ::
    "params \<Rightarrow> fetch_missing_chunks \<Rightarrow> string \<Rightarrow> num_arg \<Rightarrow> num_arg option \<Rightarrow> (world, bytes) eff" where
  "read_head_range px fetch p offset len =
     bnd get_head_snapshot (\<lambda>s.
     bnd (lift_sum (open_snapshot_reader s p)) (\<lambda>rd w.
       case read_snapshot_range px fetch rd offset len \<lparr>rs_world = w, rs_full = None\<rparr> of (r, st) \<Rightarrow> (r, rs_world st)))"

section \<open>Spans tile the file\<close>

text \<open>Contents that fit the spans: one for each, of the span's length.\<close>

definition fits :: "chunk_span list \<Rightarrow> bytes list \<Rightarrow> bool" where
  "fits = list_all2 (\<lambda>sp b. cs_end sp - cs_start sp = int (length b))"

fun tiled :: "int \<Rightarrow> chunk_span list \<Rightarrow> bool" where
  "tiled base [] = True"
| "tiled base (sp # sps) = (cs_start sp = base \<and> base \<le> cs_end sp \<and> tiled (cs_end sp) sps)"

lemma spans_from_tiled:
  "spans_from running cs = Inr (spans, whole) \<Longrightarrow>
     tiled running spans \<and> map cs_chunk spans = cs \<and> whole = (if spans = [] then running else cs_end (last spans))
     \<and> (0 \<le> running \<longrightarrow> running \<le> max_safe_integer \<longrightarrow> 0 \<le> whole \<and> whole \<le> max_safe_integer)
     \<and> list_all (\<lambda>sp. ck_size (cs_chunk sp) = Some (cs_end sp - cs_start sp) \<or> ck_size (cs_chunk sp) = None) spans"
proof (induction running cs arbitrary: spans whole rule: spans_from.induct)
  case (2 running c cs)
  let ?size = "case ck_size c of Some n \<Rightarrow> n | None \<Rightarrow> -1"
  have size: "0 \<le> ?size" "is_safe_integer (running + ?size)"
    using "2.prems" by (auto simp: Let_def split: if_splits)
  then obtain sps where rest: "spans_from (running + ?size) cs = Inr (sps, whole)"
    and spans: "spans = \<lparr>cs_chunk = c, cs_start = running, cs_end = running + ?size\<rparr> # sps"
    using "2.prems" by (cases "spans_from (running + ?size) cs") (auto simp: Let_def split: if_splits)
  have "\<not> (\<not> is_safe_integer ?size \<or> ?size < 0)" "\<not> \<not> is_safe_integer (running + ?size)"
    using "2.prems" by (auto simp: Let_def split: if_splits)
  from "2.IH" [OF refl this rest] size spans show ?case
    by (auto simp: is_safe_integer_def split: option.splits)
qed simp

lemma build_spans_tiled:
  assumes "build_spans f = Inr (Some spans)"
  shows "tiled 0 spans" "map cs_chunk spans = sf_chunks f" "spans_size f spans = (if spans = [] then 0 else cs_end (last spans))"
    "0 \<le> spans_size f spans" "spans_size f spans \<le> max_safe_integer"
    "list_all (\<lambda>sp. ck_size (cs_chunk sp) = Some (cs_end sp - cs_start sp)) spans"
proof -
  obtain running where run: "spans_from 0 (sf_chunks f) = Inr (spans, running)" and size: "sf_size f = None \<or> sf_size f = Some running"
    and sized: "\<not> list_ex (\<lambda>c. ck_size c = None) (sf_chunks f)"
    using assms unfolding build_spans_def by (auto split: if_splits sum.splits prod.splits)
  note facts = spans_from_tiled [OF run]
  then show "tiled 0 spans" "map cs_chunk spans = sf_chunks f" by blast+
  show "spans_size f spans = (if spans = [] then 0 else cs_end (last spans))"
    "0 \<le> spans_size f spans" "spans_size f spans \<le> max_safe_integer"
    using facts size by (auto simp: spans_size_def max_safe_integer_def split: if_splits)
  have "ck_size (cs_chunk sp) \<noteq> None" if "sp \<in> set spans" for sp
  proof -
    have "map cs_chunk spans = sf_chunks f" using facts by blast
    moreover have "cs_chunk sp \<in> set (map cs_chunk spans)" using that by simp
    ultimately have "cs_chunk sp \<in> set (sf_chunks f)" by simp
    with sized show ?thesis by (simp add: list_ex_iff)
  qed
  then show "list_all (\<lambda>sp. ck_size (cs_chunk sp) = Some (cs_end sp - cs_start sp)) spans"
    using facts [THEN conjunct2, THEN conjunct2, THEN conjunct2, THEN conjunct2] unfolding list_all_iff by blast
qed

section \<open>What the copy loop puts together\<close>

definition part_of :: "nat \<Rightarrow> nat \<Rightarrow> chunk_span \<Rightarrow> bytes \<Rightarrow> bytes" where
  "part_of start stop sp b =
     slice (nat (max 0 (int start - cs_start sp))) (nat (min (cs_end sp - cs_start sp) (int stop - cs_start sp))) b"

lemma part_outside:
  assumes "\<not> intersects start stop sp" and "cs_end sp - cs_start sp = int (length b)" and "start < stop"
  shows "part_of start stop sp b = []"
proof (cases "cs_end sp > int start")
  case False
  with assms(2) have "length b \<le> nat (max 0 (int start - cs_start sp))" by linarith
  then show ?thesis by (simp add: part_of_def slice_def)
next
  case True
  with assms(1) have "nat (min (cs_end sp - cs_start sp) (int stop - cs_start sp)) = 0"
    by (simp add: intersects_def)
  then show ?thesis by (simp add: part_of_def slice_def)
qed

lemma parts_are_the_slice:
  assumes "tiled (int base) spans" and "fits spans bs" and "start < stop"
  shows "concat (map (\<lambda>(sp, b). part_of start stop sp b) (zip spans bs)) = slice (start - base) (stop - base) (concat bs)"
  using assms(1,2)
proof (induction spans arbitrary: base bs)
  case Nil
  then show ?case by (simp add: fits_def slice_def)
next
  case (Cons sp sps)
  then obtain b bs' where bs: "bs = b # bs'" and len: "cs_end sp - cs_start sp = int (length b)" and fits: "fits sps bs'"
    by (auto simp: fits_def list_all2_Cons1)
  have "cs_start sp = int base" "tiled (cs_end sp) sps" using Cons.prems by auto
  moreover from this len have "cs_end sp = int (base + length b)" by simp
  ultimately have at: "cs_start sp = int base" "cs_end sp = int (base + length b)" "tiled (int (base + length b)) sps"
    by simp_all
  have "part_of start stop sp b = drop (start - base) (take (stop - base) b)"
  proof -
    have "nat (max 0 (int start - cs_start sp)) = start - base" using at by linarith
    moreover have "take (nat (min (cs_end sp - cs_start sp) (int stop - cs_start sp))) b = take (stop - base) b"
    proof (cases "length b \<le> stop - base")
      case True
      show ?thesis
      proof (cases "b = []")
        case False
        then have "0 < stop - base" using True by (cases b) auto
        then have "nat (min (cs_end sp - cs_start sp) (int stop - cs_start sp)) = length b" using at True by linarith
        with True show ?thesis by simp
      qed simp
    next
      case False
      then have "nat (min (cs_end sp - cs_start sp) (int stop - cs_start sp)) = stop - base" using at by linarith
      then show ?thesis by simp
    qed
    ultimately show ?thesis by (simp add: part_of_def slice_def)
  qed
  moreover have "concat (map (\<lambda>(sp, b). part_of start stop sp b) (zip sps bs'))
      = slice (start - (base + length b)) (stop - (base + length b)) (concat bs')"
    using Cons.IH [OF at(3) fits] .
  moreover have "drop (start - base) (take (stop - base) (b @ concat bs'))
      = drop (start - base) (take (stop - base) b) @ drop (start - (base + length b)) (take (stop - (base + length b)) (concat bs'))"
    by (cases "length b \<le> stop - base") (simp_all add: min_def)
  ultimately show ?case
    by (simp add: bs slice_def)
qed

lemma copy_span_ok:
  assumes there: "file_at (w_store w) (chunk_path (ck_hash (cs_chunk sp))) = Some b"
    and len: "cs_end sp - cs_start sp = int (length b)" and room: "length acc + length (part_of start stop sp b) \<le> n"
  shows "copy_span start stop sp (acc @ replicate (n - length acc) 0, length acc) w
    = (Inr ((acc @ part_of start stop sp b) @ replicate (n - length (acc @ part_of start stop sp b)) 0, length (acc @ part_of start stop sp b)), w)"
proof -
  let ?lo = "nat (max 0 (int start - cs_start sp))" and ?hi = "nat (min (cs_end sp - cs_start sp) (int stop - cs_start sp))"
  have read: "on_store (\<lambda>_. fs_read (chunk_path (ck_hash (cs_chunk sp)))) w = (Inr b, w)"
    using there by (simp add: store_read)
  have "?hi \<le> length b" using len by linarith
  then have width: "length (part_of start stop sp b) = ?hi - ?lo" by (simp add: part_of_def slice_def min_def)
  then have "buffer_set (acc @ replicate (n - length acc) 0) (part_of start stop sp b) (length acc)
      = Some ((acc @ part_of start stop sp b) @ replicate (n - length (acc @ part_of start stop sp b)) 0)"
    using room by (simp add: buffer_set_def)
  then show ?thesis
    using read len width by (simp add: copy_span_def bnd_def Let_def part_of_def or_type_error_def ret_def)
qed

lemma copy_loop:
  assumes "fits spans bs" and "start < stop"
    and "list_all2 (\<lambda>sp b. intersects start stop sp \<longrightarrow> file_at (w_store w) (chunk_path (ck_hash (cs_chunk sp))) = Some b) spans bs"
    and "length acc + length (concat (map (\<lambda>(sp, b). part_of start stop sp b) (zip spans bs))) \<le> n"
  shows "fold_eff (copy_span start stop) (filter (intersects start stop) spans) (acc @ replicate (n - length acc) 0, length acc) w
    = (let whole = acc @ concat (map (\<lambda>(sp, b). part_of start stop sp b) (zip spans bs))
       in (Inr (whole @ replicate (n - length whole) 0, length whole), w))"
  using assms
proof (induction spans arbitrary: bs acc)
  case Nil
  then show ?case by (simp add: ret_def)
next
  case (Cons sp sps)
  then obtain b bs' where bs: "bs = b # bs'" and len: "cs_end sp - cs_start sp = int (length b)" and fits: "fits sps bs'"
    by (auto simp: fits_def list_all2_Cons1)
  from Cons.prems(3) bs have rest: "list_all2 (\<lambda>sp b. intersects start stop sp \<longrightarrow> file_at (w_store w) (chunk_path (ck_hash (cs_chunk sp))) = Some b) sps bs'"
    and here: "intersects start stop sp \<longrightarrow> file_at (w_store w) (chunk_path (ck_hash (cs_chunk sp))) = Some b" by simp_all
  have room: "length acc + length (part_of start stop sp b) \<le> n"
    "length (acc @ part_of start stop sp b) + length (concat (map (\<lambda>(sp, b). part_of start stop sp b) (zip sps bs'))) \<le> n"
    using Cons.prems(4) bs by simp_all
  show ?case
  proof (cases "intersects start stop sp")
    case True
    with here have "file_at (w_store w) (chunk_path (ck_hash (cs_chunk sp))) = Some b" by blast
    from copy_span_ok [OF this len room(1)] Cons.IH [OF fits Cons.prems(2) rest room(2)] True bs show ?thesis
      by (simp add: bnd_def Let_def)
  next
    case False
    from part_outside [OF this len Cons.prems(2)] have "part_of start stop sp b = []" .
    with False Cons.IH [OF fits Cons.prems(2) rest, of acc] room(2) bs show ?thesis by simp
  qed
qed

lemma fits_length: "fits spans bs \<Longrightarrow> tiled (int base) spans \<Longrightarrow>
    spans \<noteq> [] \<Longrightarrow> cs_end (last spans) = int (base + length (concat bs))"
proof (induction spans arbitrary: base bs)
  case (Cons sp sps)
  then obtain b bs' where bs: "bs = b # bs'" and len: "cs_end sp - cs_start sp = int (length b)" and fits: "fits sps bs'"
    by (auto simp: fits_def list_all2_Cons1)
  have "cs_start sp = int base" "tiled (cs_end sp) sps" using Cons.prems by auto
  moreover from this len have at: "cs_end sp = int (base + length b)" by simp
  ultimately have "tiled (int (base + length b)) sps" by simp
  from Cons.IH [OF fits this] at bs fits show ?case by (cases sps) (auto simp: fits_def)
qed simp

lemma tiled_mono: "tiled base spans \<Longrightarrow> spans \<noteq> [] \<Longrightarrow> base \<le> cs_end (last spans)"
  by (induction spans arbitrary: base) (auto split: if_splits, force)

section \<open>The properties\<close>

text \<open>
  The spans built for a manifest entry start at zero, follow each other without gap or overlap,
  end at the size the reader reports, and stay within the integers a JavaScript number holds exactly.
\<close>

theorem spans_tile_the_file:
  assumes "build_spans f = Inr (Some spans)"
  shows "tiled 0 spans \<and> map cs_chunk spans = sf_chunks f \<and> spans_size f spans = sum_list (map (\<lambda>sp. cs_end sp - cs_start sp) spans)
    \<and> (\<forall>sp \<in> set spans. 0 \<le> cs_start sp \<and> cs_start sp \<le> cs_end sp \<and> cs_end sp \<le> max_safe_integer)"
proof -
  note b = build_spans_tiled [OF assms]
  have sum: "spans \<noteq> [] \<Longrightarrow> cs_end (last spans) = base + sum_list (map (\<lambda>sp. cs_end sp - cs_start sp) spans)" if "tiled base spans" for base spans
    using that by (induction spans arbitrary: base) (auto split: if_splits)
  have inside: "base \<le> cs_start sp \<and> cs_start sp \<le> cs_end sp \<and> cs_end sp \<le> cs_end (last spans)"
    if "tiled base spans" "sp \<in> set spans" for base spans sp
    using that
  proof (induction spans arbitrary: base)
    case (Cons x xs)
    show ?case
    proof (cases "xs = []")
      case False
      with Cons.prems have "cs_end x \<le> cs_end (last xs)" by (intro tiled_mono) auto
      with Cons False show ?thesis by fastforce
    qed (use Cons.prems in auto)
  qed simp
  show ?thesis
    using b sum [OF b(1)] inside [OF b(1)] by (cases "spans = []") force+
qed

definition three_chunks :: snap_file where
  "three_chunks = \<lparr>sf_fileId = None, sf_identity = None, sf_historySource = None, sf_hash = ''h'', sf_size = Some 6,
     sf_pathname = ''vault/v'', sf_chunks = [\<lparr>ck_hash = root_hash, ck_size = Some 3\<rparr>, \<lparr>ck_hash = ''x'', ck_size = Some 0\<rparr>,
       \<lparr>ck_hash = ''y'', ck_size = Some 3\<rparr>]\<rparr>"

definition three_spans :: "chunk_span list" where
  "three_spans = [\<lparr>cs_chunk = \<lparr>ck_hash = root_hash, ck_size = Some 3\<rparr>, cs_start = 0, cs_end = 3\<rparr>,
     \<lparr>cs_chunk = \<lparr>ck_hash = ''x'', ck_size = Some 0\<rparr>, cs_start = 3, cs_end = 3\<rparr>,
     \<lparr>cs_chunk = \<lparr>ck_hash = ''y'', ck_size = Some 3\<rparr>, cs_start = 3, cs_end = 6\<rparr>]"

lemma three_chunks_spans: "build_spans three_chunks = Inr (Some three_spans)"
  by (simp add: build_spans_def three_chunks_def three_spans_def is_safe_integer_def max_safe_integer_def Let_def)

theorem spans_tile_the_file_witness: "spans_size three_chunks three_spans = 6"
  using spans_tile_the_file [OF three_chunks_spans] by (simp add: three_spans_def)

text \<open>
  C26: reading a range returns exactly that range of the file. When the chunks the range touches are
  on the device (after whatever was fetched), the bytes are the slice of the joined contents, for
  every offset and length the range grammar accepts; the chunks outside the range need not be there.
\<close>

theorem range_read_is_the_slice:
  assumes "build_spans f = Inr (Some spans)" and "fits spans bs"
    and "resolve_range (length (concat bs)) offset len = Inr (start, stop)"
    and "ensure_chunks fetch (map (\<lambda>sp. ck_hash (cs_chunk sp)) (filter (intersects start stop) spans)) w = (Inr (), w')"
    and "list_all2 (\<lambda>sp b. intersects start stop sp \<longrightarrow> file_at (w_store w') (chunk_path (ck_hash (cs_chunk sp))) = Some b) spans bs"
  shows "fst (read_snapshot_range px fetch \<lparr>rr_snapshot = s, rr_file = f, rr_spans = Some spans\<rparr> offset len \<lparr>rs_world = w, rs_full = full\<rparr>)
    = Inr (slice start stop (concat bs))"
proof -
  note b = build_spans_tiled [OF assms(1)]
  have size: "nat (spans_size f spans) = length (concat bs)"
    using b(3) fits_length [OF assms(2), of 0] b(1) assms(2) by (cases "spans = []") (auto simp: fits_def)
  have "fst (read_spans fetch f spans offset len w) = Inr (slice start stop (concat bs))"
  proof (cases "start < stop")
    case False
    then show ?thesis
      using assms(3) by (simp add: read_spans_def size lift_sum_def bnd_def ret_def slice_def)
  next
    case True
    let ?parts = "concat (map (\<lambda>(sp, b). part_of start stop sp b) (zip spans bs))"
    have parts: "?parts = slice start stop (concat bs)"
      using parts_are_the_slice [of 0 spans bs start stop] b(1) assms(2) True by simp
    have "stop \<le> length (concat bs)"
      using assms(3) by (auto simp: resolve_range_def Let_def split: num_arg.splits if_splits option.splits)
    then have long: "length ?parts = stop - start" by (simp add: parts slice_def)
    have "fold_eff (copy_span start stop) (filter (intersects start stop) spans) (replicate (stop - start) 0, 0) w'
        = (Inr (?parts, stop - start), w')"
      using copy_loop [OF assms(2) True assms(5), of "[]" "stop - start"] long by (simp add: Let_def)
    then show ?thesis
      using True assms(3,4) by (simp add: read_spans_def size lift_sum_def bnd_def seq_def ret_def Let_def long parts [symmetric])
  qed
  then show ?thesis
    by (simp add: read_snapshot_range_def on_world_def case_prod_beta')
qed

definition chunk_world :: world where
  "chunk_world = new_world\<lparr>w_store := \<lparr>root_dir = [''state''], nodes =
     [([''repo'', ''chunks'', take 2 root_hash, take 2 (drop 2 root_hash), root_hash], File [7, 8, 9] 0 0)]\<rparr>\<rparr>"

lemma chunk_world_rooted: "rooted (w_store chunk_world)"
  by (simp add: chunk_world_def rooted_def proper_def)

lemma chunk_world_laid_out: "laid_out (w_store chunk_world)"
proof -
  have "repo_key [''repo'', ''chunks'', take 2 root_hash, take 2 (drop 2 root_hash), root_hash]"
    using root_hash_ok by (auto simp: repo_key_def)
  then show ?thesis
    using chunk_world_rooted by (auto simp: laid_out_def chunk_world_def is_file_def split: if_splits)
qed

lemma chunk_world_chunk: "file_at (w_store chunk_world) (chunk_path root_hash) = Some [7, 8, 9]"
  using os_chunk [OF chunk_world_rooted root_hash_ok] by (simp add: file_at_key) (simp add: chunk_world_def)

theorem range_read_is_the_slice_witness:
  "fst (read_snapshot_range demo_px None \<lparr>rr_snapshot = root_snapshot, rr_file = three_chunks, rr_spans = Some three_spans\<rparr>
     (Whole 1) (Some (Whole 2)) \<lparr>rs_world = chunk_world, rs_full = None\<rparr>) = Inr [8, 9]"
proof -
  have fit: "fits three_spans [[7, 8, 9], [], [4, 5, 6]]" by (simp add: fits_def three_spans_def)
  have hit: "filter (intersects 1 3) three_spans = [\<lparr>cs_chunk = \<lparr>ck_hash = root_hash, ck_size = Some 3\<rparr>, cs_start = 0, cs_end = 3\<rparr>]"
    by (simp add: intersects_def three_spans_def)
  have "resolve_range (length (concat [[7, 8, 9], [], [4, 5, 6 :: byte]])) (Whole 1) (Some (Whole 2)) = Inr (1, 3)"
    by (simp add: resolve_range_def)
  moreover have "ensure_chunks None (map (\<lambda>sp. ck_hash (cs_chunk sp)) (filter (intersects 1 3) three_spans)) chunk_world = (Inr (), chunk_world)"
    using store_exists [OF chunk_world_laid_out repo_paths(6) [OF root_hash_ok]] chunk_world_chunk
    unfolding hit by (simp add: ensure_chunks_def uniq_def bnd_def ret_def)
  moreover have "list_all2 (\<lambda>sp b. intersects 1 3 sp \<longrightarrow> file_at (w_store chunk_world) (chunk_path (ck_hash (cs_chunk sp))) = Some b)
      three_spans [[7, 8, 9], [], [4, 5, 6]]"
    using chunk_world_chunk by (simp add: three_spans_def intersects_def)
  ultimately show ?thesis
    using range_read_is_the_slice [OF three_chunks_spans fit, of "Whole 1" "Some (Whole 2)" 1 3 None chunk_world chunk_world] by (simp add: slice_def)
qed

text \<open>
  A reader of an entry without chunk sizes remembers a failure: after the one whole-file read has
  failed, every later range read of this reader fails with the same error, whatever has become of the
  store and whatever could be fetched by then.
\<close>

theorem legacy_failure_sticks:
  assumes "rr_spans rd = None" and "rs_full st = None" and "read_legacy_content px fetch (rr_file rd) (rs_world st) = (Inl e, w)"
    and "resolve_range 0 offset len = Inr r" and "resolve_range 0 offset' len' = Inr r'"
  shows "fst (read_snapshot_range px fetch' rd offset' len'
    ((snd (read_snapshot_range px fetch rd offset len st))\<lparr>rs_world := now\<rparr>)) = Inl e"
proof -
  have "load_legacy_content px fetch (rr_file rd) st = (Inl e, st\<lparr>rs_world := w, rs_full := Some (Inl e)\<rparr>)"
    using assms(2,3) by (simp add: load_legacy_content_def)
  then have "snd (read_snapshot_range px fetch rd offset len st) = st\<lparr>rs_world := w, rs_full := Some (Inl e)\<rparr>"
    using assms(1,4) by (simp add: read_snapshot_range_def bnd_def lift_sum_def)
  then show ?thesis
    using assms(1,5) by (simp add: read_snapshot_range_def bnd_def lift_sum_def load_legacy_content_def)
qed

definition legacy_reader :: range_reader where
  "legacy_reader = \<lparr>rr_snapshot = root_snapshot, rr_file = three_chunks\<lparr>sf_chunks := [\<lparr>ck_hash = root_hash, ck_size = None\<rparr>]\<rparr>, rr_spans = None\<rparr>"

theorem legacy_failure_sticks_witness:
  "fst (read_snapshot_range demo_px None legacy_reader (Whole 0) None
     ((snd (read_snapshot_range demo_px None legacy_reader (Whole 0) None \<lparr>rs_world = rooted_world, rs_full = None\<rparr>))\<lparr>rs_world := chunk_world\<rparr>))
   = Inl (IllegalStateError ''The requested part is unavailable offline. Connect to the sync server and retry.'')"
proof -
  have "read_legacy_content demo_px None (rr_file legacy_reader) rooted_world
      = (Inl (IllegalStateError ''The requested part is unavailable offline. Connect to the sync server and retry.''), rooted_world)"
    using store_exists [OF rooted_world_laid_out repo_paths(6) [OF root_hash_ok]] rooted_world_chunks [OF root_hash_ok]
    by (simp add: read_legacy_content_def legacy_reader_def ensure_chunks_def uniq_def bnd_def seq_def ret_def throw_def)
  moreover have "resolve_range 0 (Whole 0) None = Inr (0, 0)" by (simp add: resolve_range_def)
  moreover have "rr_spans legacy_reader = None" by (simp add: legacy_reader_def)
  ultimately show ?thesis
    by (intro legacy_failure_sticks [of _ _ _ _ _ rooted_world]) simp_all
qed

end
