(* ===== verification/TextMerge.thy ===== *)
theory TextMerge
  imports Prelude
begin

text \<open>
  The line-based three-way merge of text files: \<open>packages/sync/src/merge/text-merge.ts\<close>. The
  diff3 algorithm itself comes from the package \<open>node-diff3\<close>: it is the parameter
  \<open>diff3\<close>, from the local, the base and the remote lines to regions.
\<close>

section \<open>Lines\<close>

abbreviation newline :: char where "newline \<equiv> CHR 0x0A"

record text_lines =
  tl_lines :: "string list"
  tl_trailing :: bool

definition ends_with_newline :: "string \<Rightarrow> bool" where
  "ends_with_newline t \<longleftrightarrow> t \<noteq> [] \<and> last t = newline"

definition split_lines :: "string \<Rightarrow> text_lines" where
  "split_lines t =
     (if t = [] then \<lparr>tl_lines = [], tl_trailing = False\<rparr>
      else let trailing = ends_with_newline t
           in \<lparr>tl_lines = split_on newline (if trailing then butlast t else t), tl_trailing = trailing\<rparr>)"

section \<open>The merge\<close>

text \<open>What \<open>diff3Merge\<close> returns: a region both sides agree on, or a conflict with both sides' lines.\<close>

datatype merge_region = Agreed "string list" | Clash "string list" "string list"

record text_merge_result =
  tm_merged :: string
  tm_conflicts :: nat

definition has_crlf :: "string \<Rightarrow> bool" where
  "has_crlf t \<longleftrightarrow> (\<exists>i < length t. take 2 (drop i t) = [CHR 0x0D, newline])"

definition region_lines :: "string \<Rightarrow> merge_region \<Rightarrow> string list" where
  "region_lines eol r =
     (case r of
        Agreed ls \<Rightarrow> ls
      | Clash a b \<Rightarrow> [''<<<<<<< local'' @ eol] @ a @ [''======='' @ eol] @ b @ [''>>>>>>> remote'' @ eol])"

definition is_clash :: "merge_region \<Rightarrow> bool" where
  "is_clash r = (case r of Agreed _ \<Rightarrow> False | Clash _ _ \<Rightarrow> True)"

definition merge_text ::
    "(string list \<Rightarrow> string list \<Rightarrow> string list \<Rightarrow> merge_region list) \<Rightarrow> string option \<Rightarrow> string \<Rightarrow> string \<Rightarrow> text_merge_result" where
  "merge_text diff3 base local remote =
     (let b = split_lines (case base of None \<Rightarrow> [] | Some t \<Rightarrow> t);
          l = split_lines local;
          r = split_lines remote;
          eol = (if has_crlf local \<or> has_crlf remote then [CHR 0x0D] else []);
          regions = diff3 (tl_lines l) (tl_lines b) (tl_lines r);
          out = concat (map (region_lines eol) regions);
          trailing = (if tl_trailing l = tl_trailing b then tl_trailing r else tl_trailing l)
      in \<lparr>tm_merged = (if out = [] then [] else join [newline] out @ (if trailing then [newline] else [])),
          tm_conflicts = length (filter is_clash regions)\<rparr>)"

section \<open>Lines and text\<close>

lemma split_lines_join:
  "(if tl_lines (split_lines t) = [] then [] else join [newline] (tl_lines (split_lines t)) @ (if tl_trailing (split_lines t) then [newline] else [])) = t"
proof (cases "t = []")
  case False
  then show ?thesis
    by (auto simp: split_lines_def Let_def ends_with_newline_def) (metis append_butlast_last_id)
qed (simp add: split_lines_def)

section \<open>What diff3 promises\<close>

text \<open>
  The documented behaviour of a three-way merge the properties rely on: where one side is the base,
  the result is the other side's lines, all agreed.
\<close>

definition one_sided :: "(string list \<Rightarrow> string list \<Rightarrow> string list \<Rightarrow> merge_region list) \<Rightarrow> bool" where
  "one_sided diff3 \<longleftrightarrow> (\<forall>b x.
     (\<exists>rs. diff3 b b x = map Agreed rs \<and> concat rs = x) \<and> (\<exists>rs. diff3 x b b = map Agreed rs \<and> concat rs = x)
     \<and> (\<exists>rs. diff3 x b x = map Agreed rs \<and> concat rs = x))"

lemma agreed_regions: "concat (map (region_lines eol) (map Agreed rs)) = concat rs" "filter is_clash (map Agreed rs) = []"
  by (induction rs) (simp_all add: region_lines_def is_clash_def)

lemma merge_text_agreed:
  assumes regions: "diff3 (tl_lines (split_lines local)) (tl_lines (split_lines base)) (tl_lines (split_lines remote)) = map Agreed rs"
    and rs: "concat rs = tl_lines (split_lines t)"
    and trailing: "(if tl_trailing (split_lines local) = tl_trailing (split_lines base) then tl_trailing (split_lines remote)
          else tl_trailing (split_lines local)) = tl_trailing (split_lines t)"
  shows "merge_text diff3 (Some base) local remote = \<lparr>tm_merged = t, tm_conflicts = 0\<rparr>"
  unfolding merge_text_def Let_def option.case regions agreed_regions rs trailing split_lines_join by simp

section \<open>The properties\<close>

text \<open>
  A merge in which only one side changed the text, or both made the same change, is that side's
  text to the byte, its final newline (or the lack of one) and its carriage returns included, with no
  conflict.
\<close>

theorem one_sided_text_merge_exact:
  assumes "one_sided diff3"
  shows "merge_text diff3 (Some base) base changed = \<lparr>tm_merged = changed, tm_conflicts = 0\<rparr>
    \<and> merge_text diff3 (Some base) changed base = \<lparr>tm_merged = changed, tm_conflicts = 0\<rparr>
    \<and> merge_text diff3 (Some base) changed changed = \<lparr>tm_merged = changed, tm_conflicts = 0\<rparr>"
proof -
  obtain rs1 rs2 rs3 where
    "diff3 (tl_lines (split_lines base)) (tl_lines (split_lines base)) (tl_lines (split_lines changed)) = map Agreed rs1"
    "concat rs1 = tl_lines (split_lines changed)"
    "diff3 (tl_lines (split_lines changed)) (tl_lines (split_lines base)) (tl_lines (split_lines base)) = map Agreed rs2"
    "concat rs2 = tl_lines (split_lines changed)"
    "diff3 (tl_lines (split_lines changed)) (tl_lines (split_lines base)) (tl_lines (split_lines changed)) = map Agreed rs3"
    "concat rs3 = tl_lines (split_lines changed)"
    using assms unfolding one_sided_def by meson
  then show ?thesis
    using merge_text_agreed [of diff3 base base changed rs1 changed] merge_text_agreed [of diff3 changed base base rs2 changed]
      merge_text_agreed [of diff3 changed base changed rs3 changed] by simp
qed

definition demo_diff3 :: "string list \<Rightarrow> string list \<Rightarrow> string list \<Rightarrow> merge_region list" where
  "demo_diff3 l b r = (if l = b then [Agreed r] else if r = b \<or> r = l then [Agreed l] else [Clash l r])"

theorem one_sided_text_merge_exact_witness:
  "tm_merged (merge_text demo_diff3 (Some ''a'') ''a'' (''b'' @ [newline])) = ''b'' @ [newline]"
proof -
  have "one_sided demo_diff3"
    unfolding one_sided_def demo_diff3_def by (auto intro: exI [of _ "[x]" for x])
  from one_sided_text_merge_exact [OF this, of "''a''" "''b'' @ [newline]"] show ?thesis by simp
qed

end
