(* ===== verification/Keystore.thy ===== *)
theory Keystore
  imports Transport
begin

text \<open>
  The device's secrets and the lock over them: \<open>plugins/keystore/src\<close> (\<open>keystore.ts\<close>,
  \<open>encrypted-key-store.ts\<close>, \<open>device-lock.ts\<close>, \<open>code-backoff.ts\<close>). A store may fail at any
  write, which is how an interruption of the process is modelled: what was written before stays.
\<close>

section \<open>The interface\<close>

record 's key_store =
  kst_get :: "string \<Rightarrow> ('s, string option) eff"
  kst_set :: "string \<Rightarrow> string \<Rightarrow> ('s, unit) eff"
  kst_has :: "string \<Rightarrow> ('s, bool) eff"
  kst_delete :: "string \<Rightarrow> ('s, unit) eff"
  kst_list :: "('s, string list) eff"

text \<open>What a key store promises: \<open>contents s\<close> is the map from names to values it holds.\<close>

locale key_storage =
  fixes ks :: "'s key_store"
    and contents :: "'s \<Rightarrow> string \<Rightarrow> string option"
  assumes get_entry: "kst_get ks n s = (Inr (contents s n), s)"
    and has_entry: "kst_has ks n s = (Inr (contents s n \<noteq> None), s)"
    and list_entries: "\<exists>ns. kst_list ks s = (Inr ns, s) \<and> distinct ns \<and> set ns = dom (contents s)"
    and set_entry: "kst_set ks n v s = (r, s') \<Longrightarrow> contents s' = (case r of Inl _ \<Rightarrow> contents s | Inr _ \<Rightarrow> (contents s)(n \<mapsto> v))"
    and delete_entry: "kst_delete ks n s = (r, s') \<Longrightarrow> contents s' = (case r of Inl _ \<Rightarrow> contents s | Inr _ \<Rightarrow> (contents s)(n := None))"

section \<open>Two backends\<close>

text \<open>
  \<open>MemoryKeyStore\<close>. The number says how many writes the process will live to make; without it
  nothing fails.
\<close>

record memory =
  me_entries :: "string rec"
  me_writes :: "nat option"

definition interrupted :: app_error where
  "interrupted = Thrown ''interrupted''"

definition mem_write :: "(string rec \<Rightarrow> string rec) \<Rightarrow> (memory, unit) eff" where
  "mem_write f = (\<lambda>m. case me_writes m of
       None \<Rightarrow> (Inr (), m\<lparr>me_entries := f (me_entries m)\<rparr>)
     | Some 0 \<Rightarrow> (Inl interrupted, m)
     | Some (Suc n) \<Rightarrow> (Inr (), m\<lparr>me_entries := f (me_entries m), me_writes := Some n\<rparr>))"

definition memory_store :: "memory key_store" where
  "memory_store = \<lparr>kst_get = (\<lambda>n. gets (\<lambda>m. rget (me_entries m) n)), kst_set = (\<lambda>n v. mem_write (rset n v)),
     kst_has = (\<lambda>n. gets (\<lambda>m. rget (me_entries m) n \<noteq> None)), kst_delete = (\<lambda>n. mem_write (rdel n)),
     kst_list = gets (\<lambda>m. remdups (rkeys (me_entries m)))\<rparr>"

interpretation mem: key_storage memory_store "\<lambda>m. map_of (me_entries m)"
  by unfold_locales
    (auto simp: memory_store_def gets_def mem_write_def dom_map_of_conv_image_fst split: option.splits nat.splits)

text \<open>\<open>LocalStorageKeyStore\<close>: the same storage shared with others, under a prefix.\<close>

definition local_prefix :: string where "local_prefix = ''arxhub.keystore.''"

definition local_store :: "memory key_store" where
  "local_store = \<lparr>kst_get = (\<lambda>n. gets (\<lambda>m. rget (me_entries m) (local_prefix @ n))),
     kst_set = (\<lambda>n v. mem_write (rset (local_prefix @ n) v)),
     kst_has = (\<lambda>n. gets (\<lambda>m. rget (me_entries m) (local_prefix @ n) \<noteq> None)),
     kst_delete = (\<lambda>n. mem_write (rdel (local_prefix @ n))),
     kst_list = gets (\<lambda>m. map (drop (length local_prefix)) (filter (\<lambda>k. starts_with k local_prefix) (remdups (rkeys (me_entries m)))))\<rparr>"

lemma prefixed_names:
  "set (map (drop (length p)) (filter (\<lambda>k. starts_with k p) ks)) = {n. p @ n \<in> set ks}"
  "distinct ks \<Longrightarrow> distinct (map (drop (length p)) (filter (\<lambda>k. starts_with k p) ks))"
proof -
  show "set (map (drop (length p)) (filter (\<lambda>k. starts_with k p) ks)) = {n. p @ n \<in> set ks}"
    by (auto simp: starts_with_iff image_iff) (metis append_eq_conv_conj starts_with_append starts_with_iff)
  show "distinct ks \<Longrightarrow> distinct (map (drop (length p)) (filter (\<lambda>k. starts_with k p) ks))"
    by (auto simp: distinct_map starts_with_iff inj_on_def)
qed

interpretation local: key_storage local_store "\<lambda>m n. map_of (me_entries m) (local_prefix @ n)"
proof
  fix s :: memory
  let ?ns = "map (drop (length local_prefix)) (filter (\<lambda>k. starts_with k local_prefix) (remdups (rkeys (me_entries s))))"
  have "kst_list local_store s = (Inr ?ns, s)" by (simp add: local_store_def gets_def)
  moreover have "distinct ?ns" "set ?ns = {n. local_prefix @ n \<in> set (remdups (rkeys (me_entries s)))}"
    by (rule prefixed_names, simp) (rule prefixed_names)
  moreover have "{n. local_prefix @ n \<in> set (remdups (rkeys (me_entries s)))} = dom (\<lambda>n. map_of (me_entries s) (local_prefix @ n))"
    by (auto simp: dom_def map_of_eq_None_iff simp flip: not_None_eq)
  ultimately show "\<exists>ns. kst_list local_store s = (Inr ns, s) \<and> distinct ns
      \<and> set ns = dom (\<lambda>n. map_of (me_entries s) (local_prefix @ n))"
    by (intro exI [of _ ?ns]) simp
qed (auto simp: local_store_def gets_def mem_write_def split: option.splits nat.splits)

section \<open>Reserved names and the staging area\<close>

definition salt_entry :: string where "salt_entry = ''__vault_salt__''"
definition check_entry :: string where "check_entry = ''__vault_check__''"
definition check_value :: string where "check_value = ''arxhub-device-lock-v1''"
definition code_shape_entry :: string where "code_shape_entry = ''__vault_code_shape__''"
definition code_shape_digits_6 :: string where "code_shape_digits_6 = ''digits-6''"

definition is_reserved_entry :: "string \<Rightarrow> bool" where
  "is_reserved_entry n \<longleftrightarrow> n \<in> {salt_entry, check_entry, code_shape_entry}"

definition has_verifier :: "'s key_store \<Rightarrow> ('s, bool) eff" where
  "has_verifier ks = kst_has ks check_entry"

definition staging_prefix :: string where "staging_prefix = ''__staging__.''"

definition staging_view :: "'s key_store \<Rightarrow> 's key_store" where
  "staging_view ks = \<lparr>kst_get = (\<lambda>n. kst_get ks (staging_prefix @ n)), kst_set = (\<lambda>n v. kst_set ks (staging_prefix @ n) v),
     kst_has = (\<lambda>n. kst_has ks (staging_prefix @ n)), kst_delete = (\<lambda>n. kst_delete ks (staging_prefix @ n)),
     kst_list = bnd (kst_list ks) (\<lambda>ns. ret (map (drop (length staging_prefix)) (filter (\<lambda>n. starts_with n staging_prefix) ns)))\<rparr>"

text \<open>The staging area is itself a key store, of the names under the prefix.\<close>

context key_storage
begin

lemma staged_storage: "key_storage (staging_view ks) (\<lambda>s n. contents s (staging_prefix @ n))"
proof
  fix s
  obtain ns where ns: "kst_list ks s = (Inr ns, s)" "distinct ns" "set ns = dom (contents s)" using list_entries by blast
  let ?out = "map (drop (length staging_prefix)) (filter (\<lambda>n. starts_with n staging_prefix) ns)"
  have "kst_list (staging_view ks) s = (Inr ?out, s)" using ns by (simp add: staging_view_def bnd_def ret_def)
  moreover have "distinct ?out" using ns(2) by (rule prefixed_names)
  moreover have "set ?out = dom (\<lambda>n. contents s (staging_prefix @ n))" unfolding prefixed_names ns(3) by auto
  ultimately show "\<exists>ns. kst_list (staging_view ks) s = (Inr ns, s) \<and> distinct ns \<and> set ns = dom (\<lambda>n. contents s (staging_prefix @ n))"
    by blast
next
  fix n v s r s' assume "kst_set (staging_view ks) n v s = (r, s')"
  then have "kst_set ks (staging_prefix @ n) v s = (r, s')" by (simp add: staging_view_def)
  from set_entry [OF this]
  show "(\<lambda>n. contents s' (staging_prefix @ n)) = (case r of Inl _ \<Rightarrow> \<lambda>n. contents s (staging_prefix @ n)
      | Inr _ \<Rightarrow> (\<lambda>n. contents s (staging_prefix @ n))(n \<mapsto> v))"
    by (auto split: sum.split)
next
  fix n s r s' assume "kst_delete (staging_view ks) n s = (r, s')"
  then have "kst_delete ks (staging_prefix @ n) s = (r, s')" by (simp add: staging_view_def)
  from delete_entry [OF this]
  show "(\<lambda>n. contents s' (staging_prefix @ n)) = (case r of Inl _ \<Rightarrow> \<lambda>n. contents s (staging_prefix @ n)
      | Inr _ \<Rightarrow> (\<lambda>n. contents s (staging_prefix @ n))(n := None))"
    by (auto split: sum.split)
qed (simp_all add: staging_view_def get_entry has_entry)

end

section \<open>The encrypted view\<close>

text \<open>
  What comes from outside: AES-GCM, scrypt (\<open>deriveKeyFromPassphrase\<close>), the hexadecimal form of
  bytes, and the random bytes drawn for salts and IVs.
\<close>

record lock_crypto =
  lc_gcm :: gcm
  lc_derive :: "string \<Rightarrow> bytes \<Rightarrow> bytes"
  lc_to_hex :: "bytes \<Rightarrow> string"
  lc_from_hex :: "string \<Rightarrow> bytes option"
  lc_ivs :: "nat \<Rightarrow> bytes"
  lc_salts :: "nat \<Rightarrow> bytes"

definition lock_crypto_ok :: "lock_crypto \<Rightarrow> bool" where
  "lock_crypto_ok cr \<longleftrightarrow> gcm_lawful (lc_gcm cr) \<and> (\<forall>n. length (lc_ivs cr n) = iv_bytes) \<and> (\<forall>b. lc_from_hex cr (lc_to_hex cr b) = Some b)"

definition from_hex :: "lock_crypto \<Rightarrow> string \<Rightarrow> ('s, bytes) eff" where
  "from_hex cr h = (case lc_from_hex cr h of None \<Rightarrow> throw (Thrown ''hexToBytes'') | Some b \<Rightarrow> ret b)"

text \<open>
  An \<open>EncryptedKeyStore\<close> is the store below, how many random values were drawn, and the outcome
  of the one key derivation, once it has been asked for.
\<close>

type_synonym 's enc = "('s \<times> nat) \<times> (app_error + bytes) option"

definition below :: "('s, 'a) eff \<Rightarrow> ('s enc, 'a) eff" where
  "below m = (\<lambda>((s, n), key). case m s of (r, s') \<Rightarrow> (r, (s', n), key))"

definition derive_key :: "lock_crypto \<Rightarrow> 's key_store \<Rightarrow> string \<Rightarrow> ('s \<times> nat, bytes) eff" where
  "derive_key cr ks code =
     bnd (on_inner (kst_get ks salt_entry)) (\<lambda>stored.
     bnd (case stored of
            Some h \<Rightarrow> ret h
          | None \<Rightarrow> bnd (next_iv (lc_salts cr)) (\<lambda>salt.
              seq (on_inner (kst_set ks salt_entry (lc_to_hex cr salt))) (ret (lc_to_hex cr salt)))) (\<lambda>h.
     bnd (from_hex cr h) (\<lambda>salt. ret (lc_derive cr code salt))))"

definition enc_key :: "lock_crypto \<Rightarrow> 's key_store \<Rightarrow> string \<Rightarrow> ('s enc, bytes) eff" where
  "enc_key cr ks code = (\<lambda>(sn, key).
     case key of
       Some r \<Rightarrow> (r, sn, key)
     | None \<Rightarrow> (case derive_key cr ks code sn of (r, sn') \<Rightarrow> (r, sn', Some r)))"

definition enc_get :: "lock_crypto \<Rightarrow> 's key_store \<Rightarrow> string \<Rightarrow> string \<Rightarrow> ('s enc, string option) eff" where
  "enc_get cr ks code n =
     bnd (below (kst_get ks n)) (\<lambda>stored.
       case stored of
         None \<Rightarrow> ret None
       | Some h \<Rightarrow>
           bnd (enc_key cr ks code) (\<lambda>key.
           bnd (from_hex cr h) (\<lambda>blob.
           bnd (lift_sum (decrypt (lc_gcm cr) key blob)) (\<lambda>b. ret (Some (utf8_decode b))))))"

definition enc_set :: "lock_crypto \<Rightarrow> 's key_store \<Rightarrow> string \<Rightarrow> string \<Rightarrow> string \<Rightarrow> ('s enc, unit) eff" where
  "enc_set cr ks code n v =
     bnd (enc_key cr ks code) (\<lambda>key.
     bnd (\<lambda>(sn, k). case next_iv (lc_ivs cr) sn of (r, sn') \<Rightarrow> (r, sn', k)) (\<lambda>iv.
       below (kst_set ks n (lc_to_hex cr (encrypt (lc_gcm cr) key iv (utf8_encode v))))))"

definition encrypted_store :: "lock_crypto \<Rightarrow> 's key_store \<Rightarrow> string \<Rightarrow> ('s enc) key_store" where
  "encrypted_store cr ks code = \<lparr>kst_get = enc_get cr ks code, kst_set = enc_set cr ks code,
     kst_has = (\<lambda>n. below (kst_has ks n)), kst_delete = (\<lambda>n. below (kst_delete ks n)),
     kst_list = bnd (below (kst_list ks)) (\<lambda>ns. ret (filter (\<lambda>n. \<not> is_reserved_entry n) ns))\<rparr>"

definition write_verifier :: "lock_crypto \<Rightarrow> 's key_store \<Rightarrow> string \<Rightarrow> ('s enc, unit) eff" where
  "write_verifier cr ks code = enc_set cr ks code check_entry check_value"

definition verify_code :: "lock_crypto \<Rightarrow> 's key_store \<Rightarrow> string \<Rightarrow> ('s enc, bool) eff" where
  "verify_code cr ks code = catch (bnd (enc_get cr ks code check_entry) (\<lambda>v. ret (v = Some check_value))) (\<lambda>_. ret False)"

definition remove_verifier :: "'s key_store \<Rightarrow> ('s, unit) eff" where
  "remove_verifier ks = seq (kst_delete ks check_entry) (kst_delete ks salt_entry)"

text \<open>A fresh \<open>EncryptedKeyStore\<close>, used for the length of a computation.\<close>

definition with_store :: "('s enc, 'a) eff \<Rightarrow> ('s \<times> nat, 'a) eff" where
  "with_store m = (\<lambda>sn. case m (sn, None) of (r, sn', _) \<Rightarrow> (r, sn'))"

section \<open>The device lock\<close>

definition unlock_failed :: app_error where "unlock_failed = KeyFailure ''UnlockFailedError''"
definition unlock_code_length_error :: app_error where "unlock_code_length_error = KeyFailure ''UnlockCodeLengthError''"
definition unlock_code_not_numeric :: app_error where "unlock_code_not_numeric = KeyFailure ''UnlockCodeNotNumericError''"

definition unlock_code_length :: nat where "unlock_code_length = 6"

definition is_digit :: "char \<Rightarrow> bool" where
  "is_digit c \<longleftrightarrow> (48 :: nat) \<le> of_char c \<and> (of_char c :: nat) \<le> 57"

definition is_unlock_code_valid :: "string \<Rightarrow> bool" where
  "is_unlock_code_valid code \<longleftrightarrow> length code = unlock_code_length \<and> code \<noteq> [] \<and> list_all is_digit code"

definition require_valid_code :: "string \<Rightarrow> ('s, unit) eff" where
  "require_valid_code code =
     (if \<not> list_all is_digit code then throw unlock_code_not_numeric
      else if length code \<noteq> unlock_code_length then throw unlock_code_length_error
      else ret ())"

datatype promote_order = OrdinaryFirst | VerifierFirst

definition promote :: "'s key_store \<Rightarrow> string \<Rightarrow> ('s, unit) eff" where
  "promote ks n =
     bnd (kst_get (staging_view ks) n) (\<lambda>v. case v of None \<Rightarrow> ret () | Some v \<Rightarrow> kst_set ks n v)"

definition promote_staged :: "'s key_store \<Rightarrow> promote_order \<Rightarrow> ('s, unit) eff" where
  "promote_staged ks order =
     bnd (kst_list (staging_view ks)) (\<lambda>names.
       let ordinary = filter (\<lambda>n. \<not> is_reserved_entry n) names;
           reserved = filter (\<lambda>n. n \<in> set names) [salt_entry, check_entry, code_shape_entry]
       in seq (for_each (if order = OrdinaryFirst then ordinary else reserved) (promote ks))
         (seq (for_each (if order = OrdinaryFirst then reserved else ordinary) (promote ks))
           (for_each names (kst_delete (staging_view ks)))))"

definition clear_staging :: "'s key_store \<Rightarrow> ('s, unit) eff" where
  "clear_staging ks = bnd (kst_list (staging_view ks)) (\<lambda>ns. for_each ns (kst_delete (staging_view ks)))"

definition read_all :: "'s key_store \<Rightarrow> ('s, (string \<times> string) list) eff" where
  "read_all ks =
     bnd (kst_list ks) (\<lambda>ns.
       fold_eff (\<lambda>n out. bnd (kst_get ks n) (\<lambda>v. ret (case v of None \<Rightarrow> out | Some v \<Rightarrow> out @ [(n, v)]))) ns [])"

datatype code_shape = Digits6 | Legacy

definition get_code_shape :: "'s key_store \<Rightarrow> ('s, code_shape) eff" where
  "get_code_shape ks =
     bnd (has_verifier ks) (\<lambda>locked.
       if \<not> locked then ret Digits6
       else bnd (kst_get ks code_shape_entry) (\<lambda>v. ret (if v = Some code_shape_digits_6 then Digits6 else Legacy)))"

definition unlock_device_key_store :: "lock_crypto \<Rightarrow> 's key_store \<Rightarrow> string \<Rightarrow> ('s \<times> nat, unit) eff" where
  "unlock_device_key_store cr ks code =
     bnd (with_store (verify_code cr ks code)) (\<lambda>ok.
       if \<not> ok then throw unlock_failed
       else if is_unlock_code_valid code
       then bnd (on_inner (get_code_shape ks)) (\<lambda>shape.
              when_do (shape = Legacy) (on_inner (kst_set ks code_shape_entry code_shape_digits_6)))
       else ret ())"

text \<open>Stage a whole new generation under a code: every value, the verifier and the shape marker.\<close>

definition stage_generation :: "lock_crypto \<Rightarrow> 's key_store \<Rightarrow> string \<Rightarrow> (string \<times> string) list \<Rightarrow> ('s \<times> nat, unit) eff" where
  "stage_generation cr ks code vals =
     seq (with_store (seq (for_each vals (\<lambda>(n, v). enc_set cr (staging_view ks) code n v)) (write_verifier cr (staging_view ks) code)))
       (on_inner (kst_set (staging_view ks) code_shape_entry code_shape_digits_6))"

definition enable_device_lock :: "lock_crypto \<Rightarrow> 's key_store \<Rightarrow> string \<Rightarrow> ('s \<times> nat, unit) eff" where
  "enable_device_lock cr ks code =
     seq (require_valid_code code)
    (bnd (on_inner (has_verifier ks)) (\<lambda>locked.
       if locked then throw unlock_failed
       else seq (on_inner (clear_staging ks))
           (bnd (on_inner (read_all ks)) (\<lambda>all.
            seq (stage_generation cr ks code (filter (\<lambda>(n, _). \<not> is_reserved_entry n) all))
                (on_inner (promote_staged ks VerifierFirst))))))"

text \<open>The store opened with the current code: it is verified, then everything is read through it.\<close>

definition open_and_read :: "lock_crypto \<Rightarrow> 's key_store \<Rightarrow> string \<Rightarrow> ('s \<times> nat, (string \<times> string) list) eff" where
  "open_and_read cr ks code =
     with_store
      (bnd (verify_code cr ks code) (\<lambda>ok.
         if \<not> ok then throw unlock_failed
         else seq (below (clear_staging ks)) (read_all (encrypted_store cr ks code))))"

definition change_unlock_code :: "lock_crypto \<Rightarrow> 's key_store \<Rightarrow> string \<Rightarrow> string \<Rightarrow> ('s \<times> nat, unit) eff" where
  "change_unlock_code cr ks current_code new_code =
     seq (require_valid_code new_code)
    (bnd (open_and_read cr ks current_code) (\<lambda>vals.
     seq (stage_generation cr ks new_code vals)
         (on_inner (promote_staged ks OrdinaryFirst))))"

definition disable_device_lock :: "lock_crypto \<Rightarrow> 's key_store \<Rightarrow> string \<Rightarrow> ('s \<times> nat, unit) eff" where
  "disable_device_lock cr ks code =
     bnd (open_and_read cr ks code) (\<lambda>vals.
     on_inner
      (seq (for_each vals (\<lambda>(n, v). kst_set (staging_view ks) n v))
      (seq (promote_staged ks OrdinaryFirst)
      (seq (kst_delete ks code_shape_entry)
      (seq (kst_delete ks salt_entry) (kst_delete ks check_entry))))))"

definition reset_device_key_store :: "'s key_store \<Rightarrow> ('s, unit) eff" where
  "reset_device_key_store ks = bnd (kst_list ks) (\<lambda>ns. for_each ns (kst_delete ks))"

section \<open>The pause between wrong codes\<close>

text \<open>\<open>CodeBackoff\<close>; times are in milliseconds, the pause is counted down in whole seconds.\<close>

record backoff =
  bo_failures :: nat
  bo_remaining :: int
  bo_until :: int
  bo_ticking :: bool
  bo_ended :: nat

definition failures_before_backoff :: nat where "failures_before_backoff = 3"
definition max_backoff_seconds :: nat where "max_backoff_seconds = 30"

definition new_backoff :: backoff where
  "new_backoff = \<lparr>bo_failures = 0, bo_remaining = 0, bo_until = 0, bo_ticking = False, bo_ended = 0\<rparr>"

definition backoff_active :: "backoff \<Rightarrow> bool" where
  "backoff_active b \<longleftrightarrow> bo_remaining b > 0"

definition backoff_fail :: "int \<Rightarrow> backoff \<Rightarrow> backoff" where
  "backoff_fail now b =
     (let b = b\<lparr>bo_failures := Suc (bo_failures b)\<rparr>
      in if bo_failures b < failures_before_backoff then b
         else let seconds = min (2 ^ (bo_failures b - failures_before_backoff)) max_backoff_seconds
              in b\<lparr>bo_until := now + int seconds * 1000, bo_remaining := int seconds, bo_ticking := True\<rparr>)"

definition backoff_stop :: "backoff \<Rightarrow> backoff" where
  "backoff_stop b = b\<lparr>bo_ticking := False, bo_remaining := 0\<rparr>"

definition backoff_succeed :: "backoff \<Rightarrow> backoff" where
  "backoff_succeed b = backoff_stop (b\<lparr>bo_failures := 0\<rparr>)"

text \<open>\<open>Math.ceil(ms / 1000)\<close>\<close>

definition ceil_seconds :: "int \<Rightarrow> int" where
  "ceil_seconds ms = - ((- ms) div 1000)"

definition backoff_tick :: "int \<Rightarrow> backoff \<Rightarrow> backoff" where
  "backoff_tick now b =
     (let b = b\<lparr>bo_remaining := max 0 (ceil_seconds (bo_until b - now))\<rparr>
      in if bo_remaining b > 0 then b else (backoff_stop b)\<lparr>bo_ended := Suc (bo_ended b)\<rparr>)"

end
