(* ===== verification/KeystoreProps.thy ===== *)
theory KeystoreProps
  imports Keystore
begin

text \<open>
  What the device lock keeps: a completed change of the lock re-encrypts every secret and loses none,
  and an interrupted one leaves every secret readable under the old code or the new one, with the
  exceptions the last section shows.
\<close>

section \<open>What a store holds\<close>

text \<open>The value a stored text opens to under a code and a stored salt.\<close>

definition opened :: "lock_crypto \<Rightarrow> string \<Rightarrow> string \<Rightarrow> string \<Rightarrow> string option" where
  "opened cr code sh h =
     Option.bind (lc_from_hex cr sh) (\<lambda>salt. Option.bind (lc_from_hex cr h) (\<lambda>b.
       case decrypt (lc_gcm cr) (lc_derive cr code salt) b of Inl _ \<Rightarrow> None | Inr p \<Rightarrow> Some (utf8_decode p)))"

definition opens :: "lock_crypto \<Rightarrow> (string \<Rightarrow> string option) \<Rightarrow> string \<Rightarrow> string \<Rightarrow> string option" where
  "opens cr C code n = Option.bind (C salt_entry) (\<lambda>sh. Option.bind (C n) (opened cr code sh))"

definition real_part :: "(string \<Rightarrow> string option) \<Rightarrow> string \<Rightarrow> string option" where
  "real_part C = (\<lambda>n. if starts_with n staging_prefix then None else C n)"

definition staged_part :: "(string \<Rightarrow> string option) \<Rightarrow> string \<Rightarrow> string option" where
  "staged_part C = (\<lambda>n. C (staging_prefix @ n))"

text \<open>A secret's name: neither reserved nor staged.\<close>

definition ordinary :: "string \<Rightarrow> bool" where
  "ordinary n \<longleftrightarrow> \<not> is_reserved_entry n \<and> \<not> starts_with n staging_prefix"

text \<open>A store locked under a code: the code opens the verifier and every secret.\<close>

definition locked_under :: "lock_crypto \<Rightarrow> (string \<Rightarrow> string option) \<Rightarrow> string \<Rightarrow> bool" where
  "locked_under cr C code \<longleftrightarrow> opens cr C code check_entry = Some check_value
     \<and> (\<forall>n. ordinary n \<longrightarrow> C n \<noteq> None \<longrightarrow> opens cr C code n \<noteq> None)"

lemma reserved_not_staged: "is_reserved_entry n \<Longrightarrow> \<not> starts_with n staging_prefix"
  by (auto simp: is_reserved_entry_def starts_with_def staging_prefix_def salt_entry_def check_entry_def code_shape_entry_def)

lemma reserved_distinct: "salt_entry \<noteq> check_entry" "salt_entry \<noteq> code_shape_entry" "check_entry \<noteq> code_shape_entry"
  by (simp_all add: salt_entry_def check_entry_def code_shape_entry_def)

lemma reserved_entries: "is_reserved_entry salt_entry" "is_reserved_entry check_entry" "is_reserved_entry code_shape_entry"
  by (simp_all add: is_reserved_entry_def)

lemma real_part_staged [simp]: "real_part (C(staging_prefix @ n := x)) = real_part C"
  by (auto simp: real_part_def)

lemma staged_part_real: "\<not> starts_with n staging_prefix \<Longrightarrow> staged_part (C(n := x)) = staged_part C"
  by (rule ext) (auto simp: staged_part_def starts_with_iff)

lemma staged_part_update: "staged_part (C(staging_prefix @ n := x)) = (staged_part C)(n := x)"
  by (auto simp: staged_part_def)

text \<open>The derivation an encrypted view has cached, if it has, is that of the stored salt.\<close>

definition key_inv :: "lock_crypto \<Rightarrow> (string \<Rightarrow> string option) \<Rightarrow> string \<Rightarrow> (app_error + bytes) option \<Rightarrow> bool" where
  "key_inv cr C code key \<longleftrightarrow> key = None \<and> C salt_entry = None \<or>
     (\<exists>sh salt. C salt_entry = Some sh \<and> lc_from_hex cr sh = Some salt \<and> (key = None \<or> key = Some (Inr (lc_derive cr code salt))))"

lemma opened_encrypted:
  assumes "lock_crypto_ok cr" and "lc_from_hex cr sh = Some salt"
  shows "opened cr code sh (lc_to_hex cr (encrypt (lc_gcm cr) (lc_derive cr code salt) (lc_ivs cr i) (utf8_encode v))) = Some v"
  using assms decrypt_encrypt [of "lc_gcm cr" "lc_ivs cr i"] by (simp add: opened_def lock_crypto_ok_def)

text \<open>A whole generation under a code: the secrets, the verifier and the shape marker.\<close>

definition generation :: "lock_crypto \<Rightarrow> string \<Rightarrow> (string \<times> string) list \<Rightarrow> (string \<Rightarrow> string option) \<Rightarrow> bool" where
  "generation cr code vals T \<longleftrightarrow> (\<forall>(n, v) \<in> set vals. opens cr T code n = Some v) \<and> opens cr T code check_entry = Some check_value
     \<and> T code_shape_entry = Some code_shape_digits_6 \<and> dom T = fst ` set vals \<union> {salt_entry, check_entry, code_shape_entry}"

text \<open>Some names carried over from a staged map.\<close>

definition promoted :: "string set \<Rightarrow> (string \<Rightarrow> string option) \<Rightarrow> (string \<Rightarrow> string option) \<Rightarrow> string \<Rightarrow> string option" where
  "promoted D T R = (\<lambda>m. if m \<in> D then T m else R m)"

lemma promoted_insert: "(promoted D T R)(n := T n) = promoted (insert n D) T R"
  by (auto simp: promoted_def)

text \<open>
  What is left of a secret on a device whose lock was being changed: it opens under the old code or
  the new one, or under the new one with the salt that is still staged.
\<close>

definition recoverable :: "lock_crypto \<Rightarrow> (string \<Rightarrow> string option) \<Rightarrow> string \<Rightarrow> string \<Rightarrow> string \<Rightarrow> string \<Rightarrow> bool" where
  "recoverable cr C old new n v \<longleftrightarrow> opens cr C old n = Some v \<or> opens cr C new n = Some v \<or>
     (\<exists>sh h. staged_part C salt_entry = Some sh \<and> C n = Some h \<and> opened cr new sh h = Some v)"

section \<open>Lifting\<close>

lemma enc_result: obtains r s i key where "x = (r, ((s, i), key))"
  by (cases x) auto

lemma keeps_snd: "keeps I m \<Longrightarrow> I s \<Longrightarrow> I (snd (m s))"
  by (simp add: keeps_def)

lemma keeps_on_inner [keeps_intros]: "keeps J m \<Longrightarrow> keeps (\<lambda>sn. J (fst sn)) (on_inner m)"
  by (auto simp: keeps_def on_inner_def split: prod.splits)

lemma keeps_below [keeps_intros]: "keeps J m \<Longrightarrow> keeps (\<lambda>st. J (fst (fst st))) (below m)"
  by (auto simp: keeps_def below_def split: prod.splits)

lemma keeps_next_iv [keeps_intros]: "keeps (\<lambda>sn. J (fst sn)) (next_iv ivs)"
  by (auto simp: keeps_def next_iv_def)

lemma keeps_next_iv_enc [keeps_intros]: "keeps (\<lambda>st. J (fst (fst st))) (\<lambda>(sn, k). case next_iv ivs sn of (r, sn') \<Rightarrow> (r, sn', k))"
  by (auto simp: keeps_def next_iv_def)

lemma keeps_from_hex [keeps_intros]: "keeps I (from_hex cr h)"
  by (simp add: from_hex_def keeps_intros split: option.split)

lemma keeps_derive_key [keeps_intros]:
  assumes "\<And>n. keeps J (kst_get ks n)" and "\<And>n v. keeps J (kst_set ks n v)"
  shows "keeps (\<lambda>sn. J (fst sn)) (derive_key cr ks code)"
  unfolding derive_key_def by (intro keeps_intros assms)

lemma keeps_enc_key [keeps_intros]:
  assumes "\<And>n. keeps J (kst_get ks n)" and "\<And>n v. keeps J (kst_set ks n v)"
  shows "keeps (\<lambda>st. J (fst (fst st))) (enc_key cr ks code)"
proof (rule keepsI)
  fix st :: "'a enc" assume J: "J (fst (fst st))"
  have "J (fst (snd (derive_key cr ks code (fst st))))"
    using keeps_snd [OF keeps_derive_key [OF assms], of "fst st" cr code] J by simp
  with J show "J (fst (fst (snd (enc_key cr ks code st))))"
    by (cases st; cases "snd st") (auto simp: enc_key_def split: prod.splits)
qed

lemma keeps_enc_get [keeps_intros]:
  assumes "\<And>n. keeps J (kst_get ks n)" and "\<And>n v. keeps J (kst_set ks n v)"
  shows "keeps (\<lambda>st. J (fst (fst st))) (enc_get cr ks code n)"
  unfolding enc_get_def by (intro keeps_intros assms)

lemma keeps_enc_set [keeps_intros]:
  assumes "\<And>n. keeps J (kst_get ks n)" and "\<And>n v. keeps J (kst_set ks n v)"
  shows "keeps (\<lambda>st. J (fst (fst st))) (enc_set cr ks code n v)"
  unfolding enc_set_def by (intro keeps_intros assms)

lemma keeps_with_store [keeps_intros]:
  assumes "keeps (\<lambda>st. J (fst (fst st))) m" shows "keeps (\<lambda>sn. J (fst sn)) (with_store m)"
proof (rule keepsI)
  fix sn :: "'a \<times> nat" assume "J (fst sn)"
  with keeps_snd [OF assms, of "(sn, None)"] have "J (fst (fst (snd (m (sn, None)))))" by simp
  then show "J (fst (snd (with_store m sn)))" by (auto simp: with_store_def split: prod.splits)
qed

section \<open>One store\<close>

context key_storage
begin

lemma keeps_get [keeps_intros]: "keeps J (kst_get ks n)"
  by (simp add: keeps_def get_entry)

lemma keeps_has [keeps_intros]: "keeps J (kst_has ks n)"
  by (simp add: keeps_def has_entry)

lemma keeps_list [keeps_intros]: "keeps J (kst_list ks)"
  by (rule keepsI) (metis list_entries snd_conv)

lemma staging_view_get: "kst_get (staging_view ks) n s = (Inr (staged_part (contents s) n), s)"
  by (simp add: staging_view_def get_entry staged_part_def)

lemma keeps_staged_get [keeps_intros]: "keeps J (kst_get (staging_view ks) n)"
  by (simp add: keeps_def staging_view_get)

lemma keeps_staged_list [keeps_intros]: "keeps J (kst_list (staging_view ks))"
  unfolding staging_view_def by (auto intro!: keeps_intros)

lemma staged_list: "\<exists>ns. kst_list (staging_view ks) s = (Inr ns, s) \<and> distinct ns \<and> set ns = dom (staged_part (contents s))"
  using key_storage.list_entries [OF staged_storage] by (simp add: staged_part_def)

lemma real_staged_set [keeps_intros]: "keeps (\<lambda>s. real_part (contents s) = R) (kst_set (staging_view ks) n v)"
proof (rule keepsI)
  fix s assume R: "real_part (contents s) = R"
  obtain r s' where "kst_set ks (staging_prefix @ n) v s = (r, s')" by fastforce
  with set_entry [OF this] R show "real_part (contents (snd (kst_set (staging_view ks) n v s))) = R"
    by (simp add: staging_view_def split: sum.splits)
qed

lemma real_staged_delete [keeps_intros]: "keeps (\<lambda>s. real_part (contents s) = R) (kst_delete (staging_view ks) n)"
proof (rule keepsI)
  fix s assume R: "real_part (contents s) = R"
  obtain r s' where "kst_delete ks (staging_prefix @ n) s = (r, s')" by fastforce
  with delete_entry [OF this] R show "real_part (contents (snd (kst_delete (staging_view ks) n s))) = R"
    by (simp add: staging_view_def split: sum.splits)
qed

lemma real_clear_staging: "keeps (\<lambda>s. real_part (contents s) = R) (clear_staging ks)"
  unfolding clear_staging_def by (intro keeps_intros)

lemma real_stage_generation: "keeps (\<lambda>sn. real_part (contents (fst sn)) = R) (stage_generation cr ks code vals)"
proof -
  have "keeps (\<lambda>st. (\<lambda>s. real_part (contents s) = R) (fst (fst st))) (enc_set cr (staging_view ks) code n v)" for n v
    by (intro keeps_enc_set keeps_intros)
  moreover have "keeps (\<lambda>sn. (\<lambda>s. real_part (contents s) = R) (fst sn)) (on_inner (kst_set (staging_view ks) n v))" for n v
    by (intro keeps_on_inner keeps_intros)
  ultimately show ?thesis
    unfolding stage_generation_def write_verifier_def
    by (intro keeps_seq keeps_with_store [of "\<lambda>s. real_part (contents s) = R"] keeps_for_each) (auto split: prod.split)
qed

lemma enc_key_run:
  assumes cr: "lock_crypto_ok cr" and key: "key_inv cr (contents s) code key"
    and run: "enc_key cr ks code ((s, i), key) = (Inr k, ((s', i'), key'))"
  shows "\<exists>sh salt. contents s' = (contents s)(salt_entry \<mapsto> sh) \<and> (contents s salt_entry = None \<or> contents s salt_entry = Some sh)
    \<and> lc_from_hex cr sh = Some salt \<and> k = lc_derive cr code salt \<and> key' = Some (Inr k)"
proof (cases "contents s salt_entry")
  case (Some sh)
  with key obtain salt where salt: "lc_from_hex cr sh = Some salt" "key = None \<or> key = Some (Inr (lc_derive cr code salt))"
    by (auto simp: key_inv_def)
  have "derive_key cr ks code (s, i) = (Inr (lc_derive cr code salt), (s, i))"
    using Some salt(1) by (simp add: derive_key_def bnd_def on_inner_def get_entry from_hex_def ret_def)
  with run salt(2) have "s' = s \<and> k = lc_derive cr code salt \<and> key' = Some (Inr k)"
    by (auto simp: enc_key_def)
  with Some salt(1) show ?thesis by (intro exI [of _ sh] exI [of _ salt]) auto
next
  case None
  with key have "key = None" by (auto simp: key_inv_def)
  obtain r u where set: "kst_set ks salt_entry (lc_to_hex cr (lc_salts cr i)) s = (r, u)" by fastforce
  have hex: "lc_from_hex cr (lc_to_hex cr (lc_salts cr i)) = Some (lc_salts cr i)"
    using cr by (simp add: lock_crypto_ok_def)
  show ?thesis
  proof (cases r)
    case (Inl e)
    then have "fst (derive_key cr ks code (s, i)) = Inl e"
      using None set by (simp add: derive_key_def bnd_def seq_def on_inner_def get_entry next_iv_def ret_def)
    with run \<open>key = None\<close> show ?thesis by (auto simp: enc_key_def split: prod.splits)
  next
    case (Inr x)
    then have "derive_key cr ks code (s, i) = (Inr (lc_derive cr code (lc_salts cr i)), (u, Suc i))"
      using None set hex by (simp add: derive_key_def bnd_def seq_def on_inner_def get_entry next_iv_def from_hex_def ret_def)
    with run \<open>key = None\<close> have "s' = u \<and> k = lc_derive cr code (lc_salts cr i) \<and> key' = Some (Inr k)"
      by (auto simp: enc_key_def)
    with set_entry [OF set] Inr None hex show ?thesis
      by (intro exI [of _ "lc_to_hex cr (lc_salts cr i)"] exI [of _ "lc_salts cr i"]) simp
  qed
qed

lemma enc_set_run:
  assumes cr: "lock_crypto_ok cr" and key: "key_inv cr (contents s) code key"
    and run: "enc_set cr ks code n v ((s, i), key) = (Inr x, ((s', i'), key'))" and n: "n \<noteq> salt_entry"
  shows "\<exists>sh h. contents s' = (contents s)(salt_entry \<mapsto> sh, n \<mapsto> h) \<and> (contents s salt_entry = None \<or> contents s salt_entry = Some sh)
    \<and> opened cr code sh h = Some v \<and> key_inv cr (contents s') code key'"
proof -
  obtain k s1 i1 key1 where k: "enc_key cr ks code ((s, i), key) = (Inr k, ((s1, i1), key1))"
    and rest: "below (kst_set ks n (lc_to_hex cr (encrypt (lc_gcm cr) k (lc_ivs cr i1) (utf8_encode v)))) ((s1, Suc i1), key1) = (Inr x, ((s', i'), key'))"
    using run unfolding enc_set_def bnd_Inr by (auto simp: next_iv_def)
  let ?h = "lc_to_hex cr (encrypt (lc_gcm cr) k (lc_ivs cr i1) (utf8_encode v))"
  obtain sh salt where sh: "contents s1 = (contents s)(salt_entry \<mapsto> sh)" "contents s salt_entry = None \<or> contents s salt_entry = Some sh"
    "lc_from_hex cr sh = Some salt" "k = lc_derive cr code salt" "key1 = Some (Inr k)"
    using enc_key_run [OF cr key k] by blast
  have set: "kst_set ks n ?h s1 = (Inr x, s')" "key' = key1"
    using rest by (auto simp: below_def split: prod.splits)
  have "contents s' = (contents s1)(n \<mapsto> ?h)" using set_entry [OF set(1)] by simp
  with sh set(2) n opened_encrypted [OF cr sh(3)] show ?thesis
    by (intro exI [of _ sh] exI [of _ ?h]) (auto simp: key_inv_def)
qed

lemma enc_sets_run:
  assumes cr: "lock_crypto_ok cr" and "key_inv cr (contents s) code key"
    and "for_each vals (\<lambda>(n, v). enc_set cr ks code n v) ((s, i), key) = (Inr x, ((s', i'), key'))"
    and "distinct (map fst vals)" and "salt_entry \<notin> fst ` set vals"
  shows "key_inv cr (contents s') code key' \<and> (\<forall>sh. contents s salt_entry = Some sh \<longrightarrow> contents s' salt_entry = Some sh)
    \<and> (\<forall>n. n \<notin> fst ` set vals \<longrightarrow> n \<noteq> salt_entry \<longrightarrow> contents s' n = contents s n)
    \<and> (\<forall>(n, v) \<in> set vals. opens cr (contents s') code n = Some v)"
  using assms(2-5)
proof (induction vals arbitrary: s i key)
  case Nil
  then show ?case by (simp add: ret_def)
next
  case (Cons e vals)
  obtain n v where e: "e = (n, v)" by fastforce
  obtain y s1 i1 key1 where one: "enc_set cr ks code n v ((s, i), key) = (Inr y, ((s1, i1), key1))"
    and rest: "for_each vals (\<lambda>(n, v). enc_set cr ks code n v) ((s1, i1), key1) = (Inr x, ((s', i'), key'))"
    using Cons.prems(2) e by (auto simp: seq_Inr)
  have n: "n \<noteq> salt_entry" "n \<notin> fst ` set vals" using Cons.prems(3,4) e by auto
  obtain sh h where sh: "contents s1 = (contents s)(salt_entry \<mapsto> sh, n \<mapsto> h)" "contents s salt_entry = None \<or> contents s salt_entry = Some sh"
    "opened cr code sh h = Some v" "key_inv cr (contents s1) code key1"
    using enc_set_run [OF cr Cons.prems(1) one n(1)] by blast
  note ih = Cons.IH [OF sh(4) rest]
  have salt: "contents s1 salt_entry = Some sh" using sh(1) n(1) by simp
  have "contents s' n = Some h" "contents s' salt_entry = Some sh"
    using ih Cons.prems(3,4) n salt sh(1) by auto
  then have "opens cr (contents s') code n = Some v" using sh(3) by (simp add: opens_def)
  with ih Cons.prems(3,4) sh(1,2) e salt show ?case by auto
qed

lemma enc_get_run:
  assumes "contents s salt_entry = Some sh" and "key_inv cr (contents s) code key"
    and run: "enc_get cr ks code n ((s, i), key) = (r, ((s', i'), key'))"
  shows "s' = s \<and> i' = i \<and> key_inv cr (contents s) code key' \<and>
    (case contents s n of None \<Rightarrow> r = Inr None | Some h \<Rightarrow>
       (case opened cr code sh h of Some v \<Rightarrow> r = Inr (Some v) | None \<Rightarrow> (\<exists>e. r = Inl e)))"
proof (cases "contents s n")
  case None
  with assms show ?thesis by (simp add: enc_get_def bnd_def below_def get_entry ret_def)
next
  case (Some h)
  obtain salt where salt: "lc_from_hex cr sh = Some salt" "key = None \<or> key = Some (Inr (lc_derive cr code salt))"
    using assms(1,2) by (auto simp: key_inv_def)
  have "derive_key cr ks code (s, i) = (Inr (lc_derive cr code salt), (s, i))"
    using assms(1) salt(1) by (simp add: derive_key_def bnd_def on_inner_def get_entry from_hex_def ret_def)
  then have k: "enc_key cr ks code ((s, i), key) = (Inr (lc_derive cr code salt), ((s, i), Some (Inr (lc_derive cr code salt))))"
    using salt(2) by (auto simp: enc_key_def)
  have kinv: "key_inv cr (contents s) code (Some (Inr (lc_derive cr code salt)))"
    using assms(1) salt(1) by (auto simp: key_inv_def)
  show ?thesis
  proof (cases "lc_from_hex cr h")
    case None
    with run Some k kinv salt(1) show ?thesis
      by (auto simp: enc_get_def bnd_def below_def get_entry from_hex_def throw_def opened_def)
  next
    case (Some b)
    with run \<open>contents s n = Some h\<close> k kinv salt(1) show ?thesis
      by (cases "decrypt (lc_gcm cr) (lc_derive cr code salt) b")
        (auto simp: enc_get_def bnd_def below_def get_entry from_hex_def ret_def lift_sum_def opened_def)
  qed
qed

subsection \<open>Clearing the staging area\<close>

lemma staged_delete_loop:
  "for_each ns (kst_delete (staging_view ks)) s = (r, s') \<Longrightarrow>
     real_part (contents s') = real_part (contents s)
     \<and> (\<forall>n. staged_part (contents s') n = None \<or> staged_part (contents s') n = staged_part (contents s) n)
     \<and> (\<forall>u. r = Inr u \<longrightarrow> (\<forall>n \<in> set ns. staged_part (contents s') n = None))"
proof (induction ns arbitrary: s)
  case Nil
  then show ?case by (simp add: ret_def)
next
  case (Cons n ns)
  obtain q u where del: "kst_delete ks (staging_prefix @ n) s = (q, u)" by fastforce
  note C = delete_entry [OF del]
  show ?case
  proof (cases q)
    case (Inl e)
    with Cons.prems del C show ?thesis by (auto simp: staging_view_def seq_def bnd_def)
  next
    case (Inr x)
    with Cons.prems del have rest: "for_each ns (kst_delete (staging_view ks)) u = (r, s')"
      by (simp add: staging_view_def seq_def bnd_def)
    from C Inr have "real_part (contents u) = real_part (contents s)" "staged_part (contents u) = (staged_part (contents s))(n := None)"
      by (simp_all add: staged_part_update)
    moreover note Cons.IH [OF rest]
    ultimately show ?thesis by (auto split: if_splits)
  qed
qed

lemma clear_staging_run:
  assumes "clear_staging ks s = (Inr x, s')"
  shows "real_part (contents s') = real_part (contents s)" "staged_part (contents s') = Map.empty"
proof -
  obtain ns where ns: "kst_list (staging_view ks) s = (Inr ns, s)" "set ns = dom (staged_part (contents s))" using staged_list by blast
  with assms have "for_each ns (kst_delete (staging_view ks)) s = (Inr x, s')" by (simp add: clear_staging_def bnd_def)
  from staged_delete_loop [OF this] ns(2) show "real_part (contents s') = real_part (contents s)" "staged_part (contents s') = Map.empty"
    by (blast, intro ext) (metis domIff)
qed

lemma no_staged: "staged_part C = Map.empty \<Longrightarrow> starts_with n staging_prefix \<Longrightarrow> C n = None"
  by (auto simp: staged_part_def starts_with_iff dest: fun_cong)

subsection \<open>Opening with the current code\<close>

lemma key_inv_locked: "locked_under cr (contents s) code \<Longrightarrow>
    \<exists>sh. contents s salt_entry = Some sh \<and> key_inv cr (contents s) code None"
  by (auto simp: locked_under_def opens_def opened_def key_inv_def bind_eq_Some_conv)

lemma read_entries_run:
  assumes "contents s salt_entry = Some sh" and "key_inv cr (contents s) code key"
    and "fold_eff (\<lambda>n out. bnd (enc_get cr ks code n) (\<lambda>v. ret (case v of None \<Rightarrow> out | Some v \<Rightarrow> out @ [(n, v)]))) ns out ((s, i), key)
      = (r, ((s', i'), key'))"
  shows "s' = s \<and> (\<forall>vs. r = Inr vs \<longrightarrow> vs = out @ map (\<lambda>n. (n, the (opens cr (contents s) code n))) (filter (\<lambda>n. contents s n \<noteq> None) ns)
    \<and> (\<forall>n \<in> set ns. contents s n \<noteq> None \<longrightarrow> opens cr (contents s) code n \<noteq> None))"
  using assms(2,3)
proof (induction ns arbitrary: out i key)
  case Nil
  then show ?case by (auto simp: ret_def)
next
  case (Cons n ns)
  obtain q s1 i1 key1 where get: "enc_get cr ks code n ((s, i), key) = (q, ((s1, i1), key1))" by (metis surj_pair)
  note g = enc_get_run [OF assms(1) Cons.prems(1) get]
  show ?case
  proof (cases q)
    case (Inl e)
    with Cons.prems(2) get g have "r = Inl e \<and> s' = s" by (simp add: bnd_def)
    then show ?thesis by simp
  next
    case (Inr v)
    with Cons.prems(2) get g have rest: "fold_eff (\<lambda>n out. bnd (enc_get cr ks code n) (\<lambda>v. ret (case v of None \<Rightarrow> out | Some v \<Rightarrow> out @ [(n, v)]))) ns
        (case v of None \<Rightarrow> out | Some v \<Rightarrow> out @ [(n, v)]) ((s, i), key1) = (r, ((s', i'), key'))"
      by (simp add: bnd_def ret_def)
    have kinv: "key_inv cr (contents s) code key1" using g by blast
    show ?thesis
    proof (cases "contents s n")
      case None
      with g Inr have "v = None" by simp
      with Cons.IH [OF kinv rest] None show ?thesis by simp
    next
      case (Some h)
      with g Inr obtain w where "opened cr code sh h = Some w" "v = Some w" by (cases "opened cr code sh h") auto
      then have "opens cr (contents s) code n = Some w" using Some assms(1) by (simp add: opens_def)
      with Cons.IH [OF kinv rest] Some \<open>v = Some w\<close> show ?thesis by simp
    qed
  qed
qed

lemma verify_run:
  assumes "locked_under cr (contents s) code"
  shows "\<exists>key. verify_code cr ks code ((s, i), None) = (Inr True, ((s, i), key)) \<and> key_inv cr (contents s) code key"
proof -
  obtain sh where sh: "contents s salt_entry = Some sh" and kinv: "key_inv cr (contents s) code None"
    using key_inv_locked [OF assms] by blast
  obtain q s1 i1 key1 where get: "enc_get cr ks code check_entry ((s, i), None) = (q, ((s1, i1), key1))" by (metis surj_pair)
  from enc_get_run [OF sh kinv get] assms sh have "s1 = s" "i1 = i" "key_inv cr (contents s) code key1" "q = Inr (Some check_value)"
    by (auto simp: locked_under_def opens_def bind_eq_Some_conv split: option.splits)
  with get show ?thesis by (simp add: verify_code_def catch_def bnd_def ret_def)
qed

lemma opens_real: "ordinary n \<or> is_reserved_entry n \<Longrightarrow> opens cr (real_part C) code n = opens cr C code n"
  using reserved_not_staged [OF reserved_entries(1)] reserved_not_staged [of n]
  by (auto simp: opens_def real_part_def ordinary_def)

lemma open_and_read_run:
  assumes locked: "locked_under cr (contents s) code"
    and run: "open_and_read cr ks code (s, i) = (Inr vs, (s', i'))"
  shows "real_part (contents s') = real_part (contents s) \<and> staged_part (contents s') = Map.empty \<and> distinct (map fst vs)
    \<and> (\<forall>n v. (n, v) \<in> set vs \<longleftrightarrow> ordinary n \<and> opens cr (contents s) code n = Some v)"
proof -
  obtain key where verify: "verify_code cr ks code ((s, i), None) = (Inr True, ((s, i), key))" and kinv: "key_inv cr (contents s) code key"
    using verify_run [OF locked] by blast
  obtain j key' where after: "seq (below (clear_staging ks)) (read_all (encrypted_store cr ks code)) ((s, i), key) = (Inr vs, ((s', i'), key'))"
    using run verify by (auto simp: open_and_read_def with_store_def bnd_def split: prod.splits)
  then obtain x u where clear: "clear_staging ks s = (Inr x, u)"
    and read: "read_all (encrypted_store cr ks code) ((u, i), key) = (Inr vs, ((s', i'), key'))"
    by (auto simp: seq_Inr below_def split: prod.splits)
  note C = clear_staging_run [OF clear]
  have same: "contents u n = contents s n" if "\<not> starts_with n staging_prefix" for n
    using C(1) that by (metis real_part_def)
  obtain sh where sh: "contents s salt_entry = Some sh" using key_inv_locked [OF locked] by blast
  have salt: "contents u salt_entry = Some sh" using same [OF reserved_not_staged [OF reserved_entries(1)]] sh by simp
  have kinv': "key_inv cr (contents u) code key" using kinv sh salt by (auto simp: key_inv_def)
  obtain ns where ns: "kst_list ks u = (Inr ns, u)" "distinct ns" "set ns = dom (contents u)" using list_entries by blast
  let ?names = "filter (\<lambda>n. \<not> is_reserved_entry n) ns"
  have loop: "fold_eff (\<lambda>n out. bnd (enc_get cr ks code n) (\<lambda>v. ret (case v of None \<Rightarrow> out | Some v \<Rightarrow> out @ [(n, v)]))) ?names [] ((u, i), key)
      = (Inr vs, ((s', i'), key'))"
  proof -
    have list: "kst_list (encrypted_store cr ks code) ((u, i), key) = (Inr ?names, ((u, i), key))"
      using ns(1) by (simp add: encrypted_store_def bnd_def below_def ret_def)
    have get: "kst_get (encrypted_store cr ks code) = enc_get cr ks code" by (simp add: encrypted_store_def)
    show ?thesis
      using read unfolding read_all_def get bnd_def [of "kst_list (encrypted_store cr ks code)"] list by simp
  qed
  note got = read_entries_run [OF salt kinv' loop]
  have opens_u: "opens cr (contents u) code n = opens cr (contents s) code n" if "ordinary n" for n
    using that same salt sh by (simp add: opens_def ordinary_def)
  have names: "n \<in> set ?names \<longleftrightarrow> ordinary n \<and> contents u n \<noteq> None" for n
    using ns(3) no_staged [OF C(2)] by (auto simp: ordinary_def)
  have vs: "vs = map (\<lambda>n. (n, the (opens cr (contents u) code n))) ?names" "\<forall>n \<in> set ?names. opens cr (contents u) code n \<noteq> None"
  proof -
    have "filter (\<lambda>n. contents u n \<noteq> None) ?names = ?names" by (rule filter_True) (use names in blast)
    with got show "vs = map (\<lambda>n. (n, the (opens cr (contents u) code n))) ?names" by simp
    show "\<forall>n \<in> set ?names. opens cr (contents u) code n \<noteq> None" using got names by blast
  qed
  have "(n, v) \<in> set vs \<longleftrightarrow> ordinary n \<and> opens cr (contents s) code n = Some v" for n v
  proof
    assume "(n, v) \<in> set vs"
    then have "n \<in> set ?names" "v = the (opens cr (contents u) code n)" using vs(1) by auto
    with vs(2) names opens_u show "ordinary n \<and> opens cr (contents s) code n = Some v" by fastforce
  next
    assume n: "ordinary n \<and> opens cr (contents s) code n = Some v"
    then have "contents u n \<noteq> None" using opens_u [of n] by (auto simp: opens_def bind_eq_Some_conv)
    with n names have "n \<in> set ?names" by blast
    with vs(1) opens_u n show "(n, v) \<in> set vs" by force
  qed
  moreover have "distinct (map fst vs)" using ns(2) vs(1) by (simp add: comp_def)
  ultimately show ?thesis using C got by auto
qed

subsection \<open>Staging a generation\<close>

lemma stage_generation_run:
  assumes cr: "lock_crypto_ok cr" and empty: "staged_part (contents s) = Map.empty"
    and vals: "distinct (map fst vals)" "\<forall>(n, v) \<in> set vals. \<not> is_reserved_entry n"
    and run: "stage_generation cr ks code vals (s, i) = (Inr x, (s', i'))"
  shows "real_part (contents s') = real_part (contents s)" "generation cr code vals (staged_part (contents s'))"
proof -
  show "real_part (contents s') = real_part (contents s)"
    using keeps_snd [OF real_stage_generation, of "(s, i)" "real_part (contents s)" cr code vals] run by simp
  obtain u j where enc: "with_store (seq (for_each vals (\<lambda>(n, v). enc_set cr (staging_view ks) code n v)) (write_verifier cr (staging_view ks) code)) (s, i) = (Inr (), (u, j))"
    and shape: "kst_set (staging_view ks) code_shape_entry code_shape_digits_6 u = (Inr x, s')"
  proof -
    obtain a u j where "with_store (seq (for_each vals (\<lambda>(n, v). enc_set cr (staging_view ks) code n v)) (write_verifier cr (staging_view ks) code)) (s, i) = (Inr a, (u, j))"
      and last: "on_inner (kst_set (staging_view ks) code_shape_entry code_shape_digits_6) (u, j) = (Inr x, (s', i'))"
      using run unfolding stage_generation_def seq_Inr by (metis surj_pair)
    moreover have "kst_set (staging_view ks) code_shape_entry code_shape_digits_6 u = (Inr x, s')"
      using last by (cases "kst_set (staging_view ks) code_shape_entry code_shape_digits_6 u") (simp add: on_inner_def)
    ultimately show ?thesis using that by simp
  qed
  obtain s1 i1 key1 key2 where one: "for_each vals (\<lambda>(n, v). enc_set cr (staging_view ks) code n v) ((s, i), None) = (Inr (), ((s1, i1), key1))"
    and two: "enc_set cr (staging_view ks) code check_entry check_value ((s1, i1), key1) = (Inr (), ((u, j), key2))"
    using enc by (auto simp: with_store_def write_verifier_def seq_Inr split: prod.splits)
  let ?T = "\<lambda>s. staged_part (contents s)"
  have unreserved: "n \<notin> {salt_entry, check_entry, code_shape_entry}" if "n \<in> fst ` set vals" for n
    using vals(2) that reserved_entries by (auto simp: is_reserved_entry_def)
  have start: "key_inv cr (\<lambda>n. contents s (staging_prefix @ n)) code None"
    using fun_cong [OF empty, of salt_entry] by (simp add: key_inv_def staged_part_def)
  note k = key_storage.enc_sets_run [OF staged_storage cr start one vals(1)]
  have nosalt: "salt_entry \<notin> fst ` set vals" using unreserved by blast
  note k = k [OF nosalt]
  obtain sh h where sh: "?T u = (?T s1)(salt_entry \<mapsto> sh, check_entry \<mapsto> h)" "?T s1 salt_entry = None \<or> ?T s1 salt_entry = Some sh"
    "opened cr code sh h = Some check_value"
    using key_storage.enc_set_run [OF staged_storage cr _ two] k reserved_distinct unfolding staged_part_def by metis
  have last: "?T s' = (?T u)(code_shape_entry \<mapsto> code_shape_digits_6)"
    using key_storage.set_entry [OF staged_storage shape] by (simp add: staged_part_def)
  have others: "?T s1 n = None" if "n \<notin> fst ` set vals" "n \<noteq> salt_entry" for n
    using k that fun_cong [OF empty, of n] by (simp add: staged_part_def)
  have opened_vals: "opens cr (?T s') code n = Some v" if "(n, v) \<in> set vals" for n v
  proof -
    have n: "n \<notin> {salt_entry, check_entry, code_shape_entry}" using that by (intro unreserved) (metis fst_conv image_eqI)
    have "opens cr (?T s1) code n = Some v" using k that unfolding staged_part_def by blast
    then have "?T s1 salt_entry = Some sh" using sh(2) by (auto simp: opens_def)
    with \<open>opens cr (?T s1) code n = Some v\<close> n reserved_distinct show ?thesis by (simp add: opens_def last sh(1))
  qed
  then have "fst ` set vals \<subseteq> dom (?T s')" by (force simp: opens_def bind_eq_Some_conv dom_def)
  moreover have "dom (?T s') \<subseteq> fst ` set vals \<union> {salt_entry, check_entry, code_shape_entry}"
    using others by (auto simp: last sh(1) dom_def split: if_splits)
  moreover have "{salt_entry, check_entry, code_shape_entry} \<subseteq> dom (?T s')"
    by (auto simp: last sh(1))
  moreover have "opens cr (?T s') code check_entry = Some check_value"
    using reserved_distinct sh(3) by (simp add: opens_def last sh(1))
  ultimately show "generation cr code vals (?T s')"
    using opened_vals by (auto simp: generation_def last)
qed

subsection \<open>Promoting it\<close>

lemma promote_run:
  assumes "promote ks n s = (r, s')" and "\<not> starts_with n staging_prefix" and "staged_part (contents s) n \<noteq> None"
  shows "staged_part (contents s') = staged_part (contents s)
    \<and> real_part (contents s') = (case r of Inl _ \<Rightarrow> real_part (contents s) | Inr _ \<Rightarrow> (real_part (contents s))(n := staged_part (contents s) n))"
proof -
  obtain v where v: "staged_part (contents s) n = Some v" using assms(3) by blast
  then have "kst_set ks n v s = (r, s')" using assms(1) by (simp add: promote_def bnd_def staging_view_get)
  note C = set_entry [OF this]
  show ?thesis
  proof (cases r)
    case (Inl e)
    with C show ?thesis by simp
  next
    case (Inr x)
    with C have "contents s' = (contents s)(n := Some v)" by simp
    moreover have "real_part ((contents s)(n := Some v)) = (real_part (contents s))(n := Some v)"
      using assms(2) by (auto simp: real_part_def)
    ultimately show ?thesis using Inr v assms(2) by (simp add: staged_part_real)
  qed
qed

lemma promote_loop:
  assumes "for_each xs (promote ks) s = (r, s')" and "\<forall>x \<in> set xs. \<not> starts_with x staging_prefix \<and> T x \<noteq> None"
    and "staged_part (contents s) = T" and "real_part (contents s) = promoted D T R"
  shows "staged_part (contents s') = T \<and> (\<exists>E. E \<subseteq> set xs \<and> real_part (contents s') = promoted (D \<union> E) T R \<and> (\<forall>u. r = Inr u \<longrightarrow> E = set xs))"
  using assms
proof (induction xs arbitrary: s D)
  case Nil
  then show ?case by (auto simp: ret_def)
next
  case (Cons x xs)
  obtain q u where one: "promote ks x s = (q, u)" by fastforce
  note p = promote_run [OF one]
  show ?case
  proof (cases q)
    case (Inl e)
    with Cons.prems(1) one have "r = Inl e" "s' = u" by (simp_all add: seq_def bnd_def)
    with p Cons.prems Inl show ?thesis by (intro conjI exI [of _ "{}"]) auto
  next
    case (Inr y)
    have "real_part (contents u) = promoted (insert x D) T R" "staged_part (contents u) = T"
      using p Cons.prems Inr by (simp_all add: promoted_insert)
    moreover have "for_each xs (promote ks) u = (r, s')" using Cons.prems(1) one Inr by (simp add: seq_def bnd_def)
    ultimately obtain E where "staged_part (contents s') = T" "E \<subseteq> set xs" "real_part (contents s') = promoted (insert x D \<union> E) T R"
      "\<forall>u. r = Inr u \<longrightarrow> E = set xs"
      using Cons.IH [of u "insert x D"] Cons.prems(2) by auto
    then show ?thesis by (intro conjI exI [of _ "insert x E"]) auto
  qed
qed

text \<open>
  Whatever stops it, a promotion has carried over a set of names; in the given order, the second
  group only after the whole of the first, and the staged copies go last.
\<close>

lemma promote_staged_run:
  assumes run: "promote_staged ks order s = (r, s')" and T: "staged_part (contents s) = T" and R: "real_part (contents s) = R"
    and names: "\<forall>n \<in> dom T. \<not> starts_with n staging_prefix"
  defines "first \<equiv> {n \<in> dom T. is_reserved_entry n = (order = VerifierFirst)}"
    and "second \<equiv> {n \<in> dom T. is_reserved_entry n = (order = OrdinaryFirst)}"
  shows "\<exists>E. E \<subseteq> dom T \<and> real_part (contents s') = promoted E T R
    \<and> (E \<inter> second \<noteq> {} \<longrightarrow> first \<subseteq> E) \<and> (staged_part (contents s') = T \<or> E = dom T)
    \<and> (\<forall>u. r = Inr u \<longrightarrow> E = dom T \<and> staged_part (contents s') = Map.empty)"
proof -
  obtain ns where ns: "kst_list (staging_view ks) s = (Inr ns, s)" "set ns = dom T" using staged_list T by blast
  let ?ord = "filter (\<lambda>n. \<not> is_reserved_entry n) ns" and ?res = "filter (\<lambda>n. n \<in> set ns) [salt_entry, check_entry, code_shape_entry]"
  define fs where "fs = (if order = OrdinaryFirst then ?ord else ?res)"
  define sn where "sn = (if order = OrdinaryFirst then ?res else ?ord)"
  have res: "set ?res = {n \<in> dom T. is_reserved_entry n}" using ns(2) by (auto simp: is_reserved_entry_def)
  have sets: "set fs = first" "set sn = second"
    using res ns(2) by (auto simp: fs_def sn_def first_def second_def) (cases order; simp)+
  have cover: "first \<union> second = dom T" "first \<inter> second = {}"
    by (cases order; auto simp: first_def second_def)+
  have ok: "\<forall>x \<in> set fs. \<not> starts_with x staging_prefix \<and> T x \<noteq> None" "\<forall>x \<in> set sn. \<not> starts_with x staging_prefix \<and> T x \<noteq> None"
    using names cover(1) unfolding sets by blast+
  have loops: "seq (for_each fs (promote ks)) (seq (for_each sn (promote ks)) (for_each ns (kst_delete (staging_view ks)))) s = (r, s')"
    using run unfolding promote_staged_def bnd_def ns(1) by (simp only: prod.case sum.case Let_def fs_def sn_def)
  obtain q1 s1 where one: "for_each fs (promote ks) s = (q1, s1)" by fastforce
  have "real_part (contents s) = promoted {} T R" by (simp add: R promoted_def)
  from promote_loop [OF one ok(1) T this] obtain E1 where E1: "staged_part (contents s1) = T" "E1 \<subseteq> first"
    "real_part (contents s1) = promoted E1 T R" "\<forall>u. q1 = Inr u \<longrightarrow> E1 = first"
    by (auto simp: sets)
  show ?thesis
  proof (cases q1)
    case (Inl e)
    with loops one have "r = Inl e" "s' = s1" by (simp_all add: seq_def bnd_def)
    with E1 cover show ?thesis by (intro exI [of _ E1]) auto
  next
    case (Inr x)
    then have "E1 = first" using E1(4) by blast
    obtain q2 s2 where two: "for_each sn (promote ks) s1 = (q2, s2)" by fastforce
    from promote_loop [OF two ok(2) E1(1,3)] obtain E2 where E2: "staged_part (contents s2) = T" "E2 \<subseteq> second"
      "real_part (contents s2) = promoted (first \<union> E2) T R" "\<forall>u. q2 = Inr u \<longrightarrow> E2 = second"
      by (auto simp: sets \<open>E1 = first\<close>)
    show ?thesis
    proof (cases q2)
      case (Inl e)
      with loops one two Inr have "r = Inl e" "s' = s2" by (simp_all add: seq_def bnd_def)
      with E2 cover show ?thesis by (intro exI [of _ "first \<union> E2"]) auto
    next
      case deleted: (Inr y)
      then have "E2 = second" using E2(4) by blast
      have rest: "for_each ns (kst_delete (staging_view ks)) s2 = (r, s')"
        using loops one two Inr deleted by (simp add: seq_def bnd_def)
      note d = staged_delete_loop [OF rest]
      have "staged_part (contents s') = Map.empty" if "r = Inr u" for u
      proof
        fix n show "staged_part (contents s') n = None"
        proof (cases "n \<in> dom T")
          case True
          with d that ns(2) show ?thesis by blast
        next
          case False
          then have "T n = None" by (simp add: domIff)
          with d [THEN conjunct2, THEN conjunct1, rule_format, of n] E2(1) show ?thesis by auto
        qed
      qed
      moreover have "real_part (contents s') = promoted (dom T) T R"
        using d E2(3) \<open>E2 = second\<close> cover by simp
      moreover have "first \<subseteq> dom T" using cover(1) by blast
      ultimately show ?thesis by (intro exI [of _ "dom T"]) auto
    qed
  qed
qed

subsection \<open>The operations\<close>

lemma real_part_not_staged: "ordinary n \<or> is_reserved_entry n \<Longrightarrow> real_part C n = C n"
  using reserved_not_staged [of n] by (auto simp: real_part_def ordinary_def)

text \<open>A promoted name holds its staged copy, any other what it held.\<close>

lemma promoted_contents:
  assumes "real_part C' = promoted E T (real_part C)" and "ordinary n \<or> is_reserved_entry n"
  shows "C' n = (if n \<in> E then T n else C n)"
  using fun_cong [OF assms(1), of n] real_part_not_staged [OF assms(2)] by (simp add: promoted_def)

lemma generation_names:
  assumes "generation cr code vals T" and "\<forall>n \<in> fst ` set vals. ordinary n"
  shows "\<forall>n \<in> dom T. \<not> starts_with n staging_prefix" "n \<in> dom T \<longleftrightarrow> n \<in> fst ` set vals \<or> is_reserved_entry n"
  using assms reserved_not_staged reserved_entries by (auto simp: generation_def ordinary_def is_reserved_entry_def)

text \<open>The part of a change that follows the staging, with what it promotes.\<close>

lemma promote_generation:
  assumes gen: "generation cr code vals (staged_part (contents s))" and names: "\<forall>n \<in> fst ` set vals. ordinary n"
    and run: "promote_staged ks order s = (r, s')"
  shows "\<exists>E. (\<forall>n. ordinary n \<or> is_reserved_entry n \<longrightarrow> contents s' n = (if n \<in> E then staged_part (contents s) n else contents s n))
    \<and> E \<subseteq> fst ` set vals \<union> Collect is_reserved_entry
    \<and> (order = OrdinaryFirst \<longrightarrow> E \<inter> Collect is_reserved_entry \<noteq> {} \<longrightarrow> fst ` set vals \<subseteq> E)
    \<and> (order = VerifierFirst \<longrightarrow> E \<inter> fst ` set vals \<noteq> {} \<longrightarrow> Collect is_reserved_entry \<subseteq> E)
    \<and> (staged_part (contents s') = staged_part (contents s) \<or> E = fst ` set vals \<union> Collect is_reserved_entry)
    \<and> (\<forall>u. r = Inr u \<longrightarrow> E = fst ` set vals \<union> Collect is_reserved_entry)"
proof -
  let ?T = "staged_part (contents s)"
  note dom = generation_names [OF gen names]
  obtain E where E: "E \<subseteq> dom ?T" "real_part (contents s') = promoted E ?T (real_part (contents s))"
    "E \<inter> {n \<in> dom ?T. is_reserved_entry n = (order = OrdinaryFirst)} \<noteq> {} \<longrightarrow> {n \<in> dom ?T. is_reserved_entry n = (order = VerifierFirst)} \<subseteq> E"
    "staged_part (contents s') = ?T \<or> E = dom ?T" "\<forall>u. r = Inr u \<longrightarrow> E = dom ?T"
    using promote_staged_run [OF run refl refl dom(1)] by blast
  define A where "A = fst ` set vals"
  have D: "dom ?T = A \<union> Collect is_reserved_entry" using dom(2) unfolding A_def by blast
  have apart: "n \<in> A \<Longrightarrow> \<not> is_reserved_entry n" for n using names by (auto simp: ordinary_def A_def)
  show ?thesis unfolding A_def [symmetric]
  proof (intro exI [of _ E] conjI)
    show "\<forall>n. ordinary n \<or> is_reserved_entry n \<longrightarrow> contents s' n = (if n \<in> E then ?T n else contents s n)"
      using promoted_contents [OF E(2)] by blast
    show "E \<subseteq> A \<union> Collect is_reserved_entry" using E(1) D by simp
    show "order = OrdinaryFirst \<longrightarrow> E \<inter> Collect is_reserved_entry \<noteq> {} \<longrightarrow> A \<subseteq> E"
      using E(1,3) D apart by (cases order) auto
    show "order = VerifierFirst \<longrightarrow> E \<inter> A \<noteq> {} \<longrightarrow> Collect is_reserved_entry \<subseteq> E"
      using E(1,3) D apart by (cases order) auto
    show "staged_part (contents s') = ?T \<or> E = A \<union> Collect is_reserved_entry" using E(4) D by simp
    show "\<forall>u. r = Inr u \<longrightarrow> E = A \<union> Collect is_reserved_entry" using E(5) D by simp
  qed
qed

lemma real_same_opens: "real_part C' = real_part C \<Longrightarrow> ordinary n \<or> is_reserved_entry n \<Longrightarrow> opens cr C' code n = opens cr C code n"
  by (metis opens_real)

lemma open_and_read_err:
  assumes locked: "locked_under cr (contents s) code"
    and run: "open_and_read cr ks code (s, i) = (Inl e, (s', i'))"
  shows "real_part (contents s') = real_part (contents s)"
proof -
  obtain key where verify: "verify_code cr ks code ((s, i), None) = (Inr True, ((s, i), key))" and kinv: "key_inv cr (contents s) code key"
    using verify_run [OF locked] by blast
  obtain x u where clear: "clear_staging ks s = (x, u)" by fastforce
  have real: "real_part (contents u) = real_part (contents s)"
    using keeps_snd [OF real_clear_staging, of s "real_part (contents s)"] clear by simp
  show ?thesis
  proof (cases x)
    case (Inl f)
    with run verify clear have "s' = u" by (simp add: open_and_read_def with_store_def bnd_def seq_def below_def)
    with real show ?thesis by simp
  next
    case (Inr y)
    obtain sh where sh: "contents s salt_entry = Some sh" using key_inv_locked [OF locked] by blast
    have salt: "contents u salt_entry = Some sh"
      using sh real real_part_not_staged [of salt_entry] reserved_entries(1) by metis
    have kinv': "key_inv cr (contents u) code key" using kinv sh salt by (auto simp: key_inv_def)
    obtain ns where ns: "kst_list ks u = (Inr ns, u)" using list_entries by blast
    obtain r u' i1 key' where loop: "fold_eff (\<lambda>n out. bnd (enc_get cr ks code n) (\<lambda>v. ret (case v of None \<Rightarrow> out | Some v \<Rightarrow> out @ [(n, v)])))
        (filter (\<lambda>n. \<not> is_reserved_entry n) ns) [] ((u, i), key) = (r, ((u', i1), key'))" by (rule enc_result)
    from read_entries_run [OF salt kinv' loop] have "u' = u" by blast
    have list: "kst_list (encrypted_store cr ks code) ((u, i), key) = (Inr (filter (\<lambda>n. \<not> is_reserved_entry n) ns), ((u, i), key))"
      using ns(1) by (simp add: encrypted_store_def bnd_def below_def ret_def)
    have get: "kst_get (encrypted_store cr ks code) = enc_get cr ks code" by (simp add: encrypted_store_def)
    have "read_all (encrypted_store cr ks code) ((u, i), key) = (r, ((u', i1), key'))"
      using loop unfolding read_all_def get bnd_def [of "kst_list (encrypted_store cr ks code)"] list by simp
    with run verify clear Inr have "s' = u'" by (simp add: open_and_read_def with_store_def bnd_def seq_def below_def)
    with real \<open>u' = u\<close> show ?thesis by simp
  qed
qed

lemma change_outcome:
  assumes locked: "locked_under cr C old" and real: "real_part (contents s) = real_part C"
    and gen: "generation cr new vals (staged_part (contents s))" and names: "\<forall>n \<in> fst ` set vals. ordinary n"
    and vals: "\<And>n v. (n, v) \<in> set vals \<longleftrightarrow> ordinary n \<and> opens cr C old n = Some v"
    and run: "promote_staged ks OrdinaryFirst s = (r, s')"
  shows "(\<forall>n v. ordinary n \<longrightarrow> opens cr C old n = Some v \<longrightarrow> recoverable cr (contents s') old new n v)
    \<and> (r = Inr u \<longrightarrow> locked_under cr (contents s') new \<and> (\<forall>n. ordinary n \<longrightarrow> opens cr (contents s') new n = opens cr C old n))"
proof -
  let ?T = "staged_part (contents s)"
  obtain E where at: "\<And>n. ordinary n \<or> is_reserved_entry n \<Longrightarrow> contents s' n = (if n \<in> E then ?T n else C n)"
    and order: "E \<inter> Collect is_reserved_entry \<noteq> {} \<Longrightarrow> fst ` set vals \<subseteq> E"
    and left: "staged_part (contents s') = ?T \<or> E = fst ` set vals \<union> Collect is_reserved_entry"
    and all: "\<And>u. r = Inr u \<Longrightarrow> E = fst ` set vals \<union> Collect is_reserved_entry"
  proof -
    have base: "contents s n = C n" if "ordinary n \<or> is_reserved_entry n" for n
      using real real_part_not_staged [OF that] by metis
    from promote_generation [OF gen names run] obtain E where E:
      "\<forall>n. ordinary n \<or> is_reserved_entry n \<longrightarrow> contents s' n = (if n \<in> E then ?T n else contents s n)"
      "OrdinaryFirst = OrdinaryFirst \<longrightarrow> E \<inter> Collect is_reserved_entry \<noteq> {} \<longrightarrow> fst ` set vals \<subseteq> E"
      "staged_part (contents s') = ?T \<or> E = fst ` set vals \<union> Collect is_reserved_entry"
      "\<forall>u. r = Inr u \<longrightarrow> E = fst ` set vals \<union> Collect is_reserved_entry"
      by (elim exE conjE) (rule that, assumption+)
    show ?thesis
    proof (rule that [of E])
      fix n assume n: "ordinary n \<or> is_reserved_entry n"
      with E(1) have "contents s' n = (if n \<in> E then ?T n else contents s n)" by blast
      with base [OF n] show "contents s' n = (if n \<in> E then ?T n else C n)" by simp
    next
      assume "E \<inter> Collect is_reserved_entry \<noteq> {}"
      with E(2) show "fst ` set vals \<subseteq> E" by blast
    next
      show "staged_part (contents s') = ?T \<or> E = fst ` set vals \<union> Collect is_reserved_entry" by (rule E(3))
    next
      fix u assume "r = Inr u"
      with E(4) show "E = fst ` set vals \<union> Collect is_reserved_entry" by blast
    qed
  qed
  note salt = at [OF disjI2 [OF reserved_entries(1)]]
  obtain sh where sh: "?T salt_entry = Some sh" using gen by (auto simp: generation_def)
  have T: "?T n \<noteq> None \<and> opens cr ?T new n = Some v" if "ordinary n" "opens cr C old n = Some v" for n v
  proof -
    have "(n, v) \<in> set vals" using vals that by blast
    then have "opens cr ?T new n = Some v" using gen unfolding generation_def by blast
    moreover from this have "?T n \<noteq> None" by (auto simp: opens_def bind_eq_Some_conv)
    ultimately show ?thesis by blast
  qed
  have keep: "recoverable cr (contents s') old new n v" if n: "ordinary n" and v: "opens cr C old n = Some v" for n v
  proof (cases "n \<in> E")
    case True
    then have cn: "contents s' n = ?T n" using at n by simp
    show ?thesis
    proof (cases "salt_entry \<in> E")
      case True
      with salt cn T [OF n v] show ?thesis by (simp add: recoverable_def opens_def)
    next
      case False
      then have "staged_part (contents s') = ?T" using left reserved_entries(1) by blast
      with cn T [OF n v] sh show ?thesis
        unfolding recoverable_def by (auto simp: opens_def)
    qed
  next
    case False
    have "n \<in> fst ` set vals" using vals n v by force
    then have "salt_entry \<notin> E" using order False reserved_entries(1) by blast
    with salt at n False v show ?thesis by (simp add: recoverable_def opens_def)
  qed
  have finished: "locked_under cr (contents s') new \<and> (\<forall>n. ordinary n \<longrightarrow> opens cr (contents s') new n = opens cr C old n)" if "r = Inr u"
  proof -
    note E = all [OF that]
    have salt': "contents s' salt_entry = ?T salt_entry" "contents s' check_entry = ?T check_entry"
      using at E reserved_entries by auto
    have "opens cr (contents s') new check_entry = Some check_value"
      using gen by (simp add: opens_def salt' generation_def)
    moreover have opens': "opens cr (contents s') new n = opens cr C old n" if n: "ordinary n" for n
    proof (cases "opens cr C old n")
      case None
      then have "C n = None" using locked n by (auto simp: locked_under_def)
      moreover have "n \<notin> fst ` set vals" using vals None by auto
      ultimately have "contents s' n = None" using at n E by (auto simp: ordinary_def)
      then show ?thesis by (simp add: opens_def None [unfolded opens_def])
    next
      case (Some v)
      then have "n \<in> E" using vals n E by force
      then have "contents s' n = ?T n" using at n by simp
      then show ?thesis using T [OF n Some] Some by (simp add: opens_def salt')
    qed
    moreover have "opens cr (contents s') new n \<noteq> None" if n: "ordinary n" and "contents s' n \<noteq> None" for n
    proof (cases "opens cr C old n")
      case None
      then have "C n = None" using locked n by (auto simp: locked_under_def)
      moreover have "n \<notin> fst ` set vals" using vals None by auto
      ultimately have "contents s' n = None" using at n E by (auto simp: ordinary_def)
      then show ?thesis using that by simp
    qed (use opens' n in simp)
    ultimately show ?thesis by (simp add: locked_under_def)
  qed
  from keep finished show ?thesis by blast
qed

lemma change_run:
  assumes cr: "lock_crypto_ok cr" and locked: "locked_under cr (contents s) old"
    and run: "change_unlock_code cr ks old new (s, i) = (r, (s', i'))"
  shows "\<forall>n v. ordinary n \<longrightarrow> opens cr (contents s) old n = Some v \<longrightarrow> recoverable cr (contents s') old new n v"
    and "r = Inr u \<Longrightarrow> locked_under cr (contents s') new \<and> (\<forall>n. ordinary n \<longrightarrow> opens cr (contents s') new n = opens cr (contents s) old n)"
proof -
  have same: "(\<forall>n v. ordinary n \<longrightarrow> opens cr (contents s) old n = Some v \<longrightarrow> recoverable cr (contents s') old new n v)"
    if "real_part (contents s') = real_part (contents s)"
    using real_same_opens [OF that] by (simp add: recoverable_def)
  have "(\<forall>n v. ordinary n \<longrightarrow> opens cr (contents s) old n = Some v \<longrightarrow> recoverable cr (contents s') old new n v)
    \<and> (r = Inr u \<longrightarrow> locked_under cr (contents s') new \<and> (\<forall>n. ordinary n \<longrightarrow> opens cr (contents s') new n = opens cr (contents s) old n))"
  proof (cases "list_all is_digit new \<and> length new = unlock_code_length")
    case False
    then obtain e where "require_valid_code new (s, i) = (Inl e, (s, i))"
      by (cases "list_all is_digit new") (auto simp: require_valid_code_def throw_def)
    with run have "r = Inl e" "s' = s" by (simp_all add: change_unlock_code_def seq_fail)
    then show ?thesis using same by simp
  next
    case True
    then have valid: "require_valid_code new (s, i) = (Inr (), (s, i))" by (simp add: require_valid_code_def ret_def)
    obtain q s1 i1 where open1: "open_and_read cr ks old (s, i) = (q, (s1, i1))" by (metis surj_pair)
    show ?thesis
    proof (cases q)
      case (Inl e)
      with run valid open1 have "r = Inl e" "s' = s1" by (simp_all add: change_unlock_code_def seq_def bnd_def)
      then show ?thesis using same open_and_read_err [OF locked] open1 Inl by simp
    next
      case (Inr vals)
      from open_and_read_run [OF locked open1 [unfolded Inr]] have o: "real_part (contents s1) = real_part (contents s)"
        "staged_part (contents s1) = Map.empty" "distinct (map fst vals)"
        "\<And>n v. (n, v) \<in> set vals \<longleftrightarrow> ordinary n \<and> opens cr (contents s) old n = Some v" by blast+
      obtain q2 s2 i2 where stage: "stage_generation cr ks new vals (s1, i1) = (q2, (s2, i2))" by (metis surj_pair)
      have real2: "real_part (contents s2) = real_part (contents s)"
        using keeps_snd [OF real_stage_generation, of "(s1, i1)" "real_part (contents s)" cr new vals] stage o(1) by simp
      show ?thesis
      proof (cases q2)
        case (Inl e)
        with run valid open1 stage \<open>q = Inr vals\<close> have "r = Inl e" "s' = s2" by (simp_all add: change_unlock_code_def seq_def bnd_def)
        then show ?thesis using same real2 by simp
      next
        case staged: (Inr x)
        have unreserved: "\<forall>(n, v) \<in> set vals. \<not> is_reserved_entry n" using o(4) by (auto simp: ordinary_def)
        note gen = stage_generation_run(2) [OF cr o(2,3) unreserved stage [unfolded staged]]
        have names: "\<forall>n \<in> fst ` set vals. ordinary n" using o(4) by auto
        have promote: "promote_staged ks OrdinaryFirst s2 = (r, s')"
          using run valid open1 stage \<open>q = Inr vals\<close> staged
          by (cases "promote_staged ks OrdinaryFirst s2") (simp add: change_unlock_code_def seq_def bnd_def on_inner_def)
        show ?thesis
          using change_outcome [OF locked real2 gen names o(4) promote] by blast
      qed
    qed
  qed
  then show "\<forall>n v. ordinary n \<longrightarrow> opens cr (contents s) old n = Some v \<longrightarrow> recoverable cr (contents s') old new n v"
    "r = Inr u \<Longrightarrow> locked_under cr (contents s') new \<and> (\<forall>n. ordinary n \<longrightarrow> opens cr (contents s') new n = opens cr (contents s) old n)"
    by blast+
qed

lemma read_plain_run:
  assumes "fold_eff (\<lambda>n out. bnd (kst_get ks n) (\<lambda>v. ret (case v of None \<Rightarrow> out | Some v \<Rightarrow> out @ [(n, v)]))) ns out s = (r, s')"
  shows "s' = s \<and> r = Inr (out @ map (\<lambda>n. (n, the (contents s n))) (filter (\<lambda>n. contents s n \<noteq> None) ns))"
  using assms
proof (induction ns arbitrary: out)
  case (Cons n ns)
  let ?f = "\<lambda>n out. bnd (kst_get ks n) (\<lambda>v. ret (case v of None \<Rightarrow> out | Some v \<Rightarrow> out @ [(n, v)]))"
  have step: "?f n out s = (Inr (case contents s n of None \<Rightarrow> out | Some v \<Rightarrow> out @ [(n, v)]), s)"
    by (simp add: bnd_def get_entry ret_def)
  have "fold_eff ?f ns (case contents s n of None \<Rightarrow> out | Some v \<Rightarrow> out @ [(n, v)]) s = (r, s')"
    using Cons.prems unfolding fold_eff.simps bnd_def [of "?f n out"] step by simp
  from Cons.IH [OF this] show ?case by (cases "contents s n") auto
qed (auto simp: ret_def)

lemma read_all_run:
  "\<exists>vals. read_all ks s = (Inr vals, s) \<and> distinct (map fst vals) \<and> (\<forall>n v. (n, v) \<in> set vals \<longleftrightarrow> contents s n = Some v)"
proof -
  obtain ns where ns: "kst_list ks s = (Inr ns, s)" "distinct ns" "set ns = dom (contents s)" using list_entries by blast
  let ?vals = "map (\<lambda>n. (n, the (contents s n))) (filter (\<lambda>n. contents s n \<noteq> None) ns)"
  obtain r s' where loop: "fold_eff (\<lambda>n out. bnd (kst_get ks n) (\<lambda>v. ret (case v of None \<Rightarrow> out | Some v \<Rightarrow> out @ [(n, v)]))) ns [] s = (r, s')"
    by (rule that [OF surjective_pairing])
  from read_plain_run [OF loop] have "s' = s" "r = Inr ?vals" by simp_all
  with loop have "read_all ks s = (Inr ?vals, s)"
    using ns(1) by (simp only: read_all_def bnd_def [of "kst_list ks"] prod.case sum.case)
  moreover have "distinct (map fst ?vals)" using ns(2) by (simp add: comp_def)
  moreover have "(n, v) \<in> set ?vals \<longleftrightarrow> contents s n = Some v" for n v using ns(3) by force
  ultimately show ?thesis by blast
qed

text \<open>Enabling: the verifier goes over first, so a secret is still plain or opens under the new code.\<close>

lemma enable_outcome:
  assumes real: "real_part (contents s) = real_part C"
    and gen: "generation cr code vals (staged_part (contents s))" and names: "\<forall>n \<in> fst ` set vals. ordinary n"
    and vals: "\<And>n v. (n, v) \<in> set vals \<longleftrightarrow> ordinary n \<and> C n = Some v"
    and run: "promote_staged ks VerifierFirst s = (r, s')"
  shows "(\<forall>n v. ordinary n \<longrightarrow> C n = Some v \<longrightarrow> contents s' n = Some v \<or> opens cr (contents s') code n = Some v)
    \<and> (r = Inr u \<longrightarrow> locked_under cr (contents s') code \<and> (\<forall>n. ordinary n \<longrightarrow> opens cr (contents s') code n = C n))"
proof -
  let ?T = "staged_part (contents s)"
  obtain E where at: "\<And>n. ordinary n \<or> is_reserved_entry n \<Longrightarrow> contents s' n = (if n \<in> E then ?T n else C n)"
    and order: "E \<inter> fst ` set vals \<noteq> {} \<Longrightarrow> Collect is_reserved_entry \<subseteq> E"
    and all: "\<And>u. r = Inr u \<Longrightarrow> E = fst ` set vals \<union> Collect is_reserved_entry"
    and inside: "E \<subseteq> fst ` set vals \<union> Collect is_reserved_entry"
  proof -
    have base: "contents s n = C n" if "ordinary n \<or> is_reserved_entry n" for n
      using real real_part_not_staged [OF that] by metis
    from promote_generation [OF gen names run] obtain E where E:
      "\<forall>n. ordinary n \<or> is_reserved_entry n \<longrightarrow> contents s' n = (if n \<in> E then ?T n else contents s n)"
      "E \<subseteq> fst ` set vals \<union> Collect is_reserved_entry"
      "VerifierFirst = OrdinaryFirst \<longrightarrow> E \<inter> Collect is_reserved_entry \<noteq> {} \<longrightarrow> fst ` set vals \<subseteq> E"
      "VerifierFirst = VerifierFirst \<longrightarrow> E \<inter> fst ` set vals \<noteq> {} \<longrightarrow> Collect is_reserved_entry \<subseteq> E"
      "staged_part (contents s') = ?T \<or> E = fst ` set vals \<union> Collect is_reserved_entry"
      "\<forall>u. r = Inr u \<longrightarrow> E = fst ` set vals \<union> Collect is_reserved_entry"
      by (elim exE conjE) (rule that, assumption+)
    show ?thesis
    proof (rule that [of E])
      fix n assume n: "ordinary n \<or> is_reserved_entry n"
      with E(1) have "contents s' n = (if n \<in> E then ?T n else contents s n)" by blast
      with base [OF n] show "contents s' n = (if n \<in> E then ?T n else C n)" by simp
    next
      assume "E \<inter> fst ` set vals \<noteq> {}"
      with E(4) show "Collect is_reserved_entry \<subseteq> E" by blast
    next
      fix u assume "r = Inr u"
      with E(6) show "E = fst ` set vals \<union> Collect is_reserved_entry" by blast
    next
      show "E \<subseteq> fst ` set vals \<union> Collect is_reserved_entry" by (rule E(2))
    qed
  qed
  have T: "opens cr ?T code n = Some v" if "ordinary n" "C n = Some v" for n v
  proof -
    have "(n, v) \<in> set vals" using vals that by blast
    then show ?thesis using gen unfolding generation_def by blast
  qed
  note salt = at [OF disjI2 [OF reserved_entries(1)]]
  have keep: "contents s' n = Some v \<or> opens cr (contents s') code n = Some v" if n: "ordinary n" and v: "C n = Some v" for n v
  proof (cases "n \<in> E")
    case True
    have "n \<in> fst ` set vals" using vals n v by force
    with True order have "Collect is_reserved_entry \<subseteq> E" by blast
    then have "salt_entry \<in> E" using reserved_entries(1) by blast
    with at n True salt T [OF n v] show ?thesis by (simp add: opens_def)
  qed (use at n v in simp)
  have finished: "locked_under cr (contents s') code \<and> (\<forall>n. ordinary n \<longrightarrow> opens cr (contents s') code n = C n)" if "r = Inr u"
  proof -
    note E = all [OF that]
    have salt': "contents s' salt_entry = ?T salt_entry" "contents s' check_entry = ?T check_entry"
      using at E reserved_entries by auto
    have "opens cr (contents s') code check_entry = Some check_value"
      using gen by (simp add: opens_def salt' generation_def)
    moreover have opens': "opens cr (contents s') code n = C n" if n: "ordinary n" for n
    proof (cases "C n")
      case None
      then have "n \<notin> fst ` set vals" using vals by auto
      then have "contents s' n = None" using at n E None by (auto simp: ordinary_def)
      then show ?thesis by (simp add: opens_def None)
    next
      case (Some v)
      then have "n \<in> E" using vals n E by force
      then have "contents s' n = ?T n" using at n by simp
      then show ?thesis using T [OF n Some] Some by (simp add: opens_def salt')
    qed
    moreover have "opens cr (contents s') code n \<noteq> None" if n: "ordinary n" and "contents s' n \<noteq> None" for n
    proof (cases "C n")
      case None
      then have "n \<notin> fst ` set vals" using vals by auto
      then have "contents s' n = None" using at n E None by (auto simp: ordinary_def)
      then show ?thesis using that by simp
    qed (use opens' n in simp)
    ultimately show ?thesis by (simp add: locked_under_def)
  qed
  from keep finished show ?thesis by blast
qed

lemma enable_run:
  assumes cr: "lock_crypto_ok cr" and run: "enable_device_lock cr ks code (s, i) = (r, (s', i'))"
  shows "(\<forall>n v. ordinary n \<longrightarrow> contents s n = Some v \<longrightarrow> contents s' n = Some v \<or> opens cr (contents s') code n = Some v)
    \<and> (r = Inr u \<longrightarrow> locked_under cr (contents s') code \<and> (\<forall>n. ordinary n \<longrightarrow> opens cr (contents s') code n = contents s n))"
proof (cases "list_all is_digit code \<and> length code = unlock_code_length \<and> contents s check_entry = None")
  case False
  then obtain e where "enable_device_lock cr ks code (s, i) = (Inl e, (s, i))"
    by (cases "list_all is_digit code"; cases "length code = unlock_code_length")
      (auto simp: enable_device_lock_def require_valid_code_def throw_def ret_def seq_def bnd_def on_inner_def has_verifier_def has_entry)
  with run have "r = Inl e \<and> s' = s" by simp
  then show ?thesis by simp
next
  case True
  obtain q s1 where clear: "clear_staging ks s = (q, s1)" by fastforce
  have real1: "real_part (contents s1) = real_part (contents s)"
    using keeps_snd [OF real_clear_staging, of s "real_part (contents s)"] clear by simp
  have same: "\<forall>n v. ordinary n \<longrightarrow> contents s n = Some v \<longrightarrow> contents u n = Some v" if "real_part (contents u) = real_part (contents s)" for u
    using that real_part_not_staged by metis
  show ?thesis
  proof (cases q)
    case (Inl e)
    with run True clear have "r = Inl e" "s' = s1"
      by (simp_all add: enable_device_lock_def require_valid_code_def ret_def seq_def bnd_def on_inner_def has_verifier_def has_entry)
    then show ?thesis using same [OF real1] by simp
  next
    case (Inr x)
    obtain all where all: "read_all ks s1 = (Inr all, s1)" "distinct (map fst all)" "\<And>n v. (n, v) \<in> set all \<longleftrightarrow> contents s1 n = Some v"
      using read_all_run by blast
    let ?vals = "filter (\<lambda>(n, _). \<not> is_reserved_entry n) all"
    have empty: "staged_part (contents s1) = Map.empty" using clear_staging_run(2) clear Inr by blast
    have vals: "(n, v) \<in> set ?vals \<longleftrightarrow> ordinary n \<and> contents s n = Some v" for n v
    proof -
      have "(n, v) \<in> set ?vals \<longleftrightarrow> \<not> is_reserved_entry n \<and> contents s1 n = Some v" using all(3) by auto
      also have "\<dots> \<longleftrightarrow> ordinary n \<and> contents s1 n = Some v" using no_staged [OF empty] by (auto simp: ordinary_def)
      finally show ?thesis using real1 real_part_not_staged by metis
    qed
    have names: "\<forall>n \<in> fst ` set ?vals. ordinary n" using vals by auto
    obtain q2 s2 i2 where stage: "stage_generation cr ks code ?vals (s1, i) = (q2, (s2, i2))" by (metis surj_pair)
    have real2: "real_part (contents s2) = real_part (contents s)"
      using keeps_snd [OF real_stage_generation, of "(s1, i)" "real_part (contents s)" cr code ?vals] stage real1 by simp
    show ?thesis
    proof (cases q2)
      case (Inl e)
      with run True clear \<open>q = Inr x\<close> all(1) stage have "r = Inl e" "s' = s2"
        by (simp_all add: enable_device_lock_def require_valid_code_def ret_def seq_def bnd_def on_inner_def has_verifier_def has_entry)
      then show ?thesis using same [OF real2] by simp
    next
      case staged: (Inr y)
      have "distinct (map fst ?vals)" using all(2) by (rule distinct_map_filter)
      moreover have "\<forall>(n, v) \<in> set ?vals. \<not> is_reserved_entry n" by auto
      ultimately have gen: "generation cr code ?vals (staged_part (contents s2))"
        using stage_generation_run(2) [OF cr empty _ _ stage [unfolded staged]] by blast
      have "promote_staged ks VerifierFirst s2 = (r, s')"
        using run True clear \<open>q = Inr x\<close> all(1) stage staged
        by (cases "promote_staged ks VerifierFirst s2")
          (simp add: enable_device_lock_def require_valid_code_def ret_def seq_def bnd_def on_inner_def has_verifier_def has_entry)
      from enable_outcome [OF real2 gen names vals this] show ?thesis by blast
    qed
  qed
qed

lemma stage_plain_run:
  "for_each vals (\<lambda>(n, v). kst_set (staging_view ks) n v) s = (r, s') \<Longrightarrow> distinct (map fst vals) \<Longrightarrow>
     real_part (contents s') = real_part (contents s)
     \<and> (\<forall>u. r = Inr u \<longrightarrow> staged_part (contents s') = staged_part (contents s) ++ map_of vals)"
proof (induction vals arbitrary: s)
  case Nil
  then show ?case by (auto simp: ret_def)
next
  case (Cons e vals)
  obtain n v where e: "e = (n, v)" by fastforce
  obtain q u where set: "kst_set ks (staging_prefix @ n) v s = (q, u)" by fastforce
  note C = set_entry [OF set]
  show ?case
  proof (cases q)
    case (Inl f)
    with Cons.prems(1) e set have "r = Inl f \<and> s' = u" by (simp add: staging_view_def seq_def bnd_def)
    with C Inl show ?thesis by simp
  next
    case (Inr x)
    with Cons.prems(1) e set have rest: "for_each vals (\<lambda>(n, v). kst_set (staging_view ks) n v) u = (r, s')"
      by (simp add: staging_view_def seq_def bnd_def)
    have step: "real_part (contents u) = real_part (contents s)" "staged_part (contents u) = (staged_part (contents s))(n \<mapsto> v)"
      using C Inr by (simp_all add: staged_part_update)
    have "map_of vals n = None" using Cons.prems(2) e by (simp add: map_of_eq_None_iff)
    then have grow: "(staged_part (contents s))(n \<mapsto> v) ++ map_of vals = staged_part (contents s) ++ map_of (e # vals)"
      unfolding e by (intro ext) (auto simp: map_add_def split: option.split)
    have "distinct (map fst vals)" using Cons.prems(2) by simp
    note ih = Cons.IH [OF rest this]
    have "staged_part (contents s') = staged_part (contents s) ++ map_of (e # vals)" if "r = Inr w" for w
      using ih that step(2) grow by metis
    with ih step(1) show ?thesis by metis
  qed
qed

text \<open>Deleting the three reserved entries touches no secret.\<close>

lemma delete_other: "kst_delete ks m s = (r, s') \<Longrightarrow> n \<noteq> m \<Longrightarrow> contents s' n = contents s n"
  using delete_entry by (auto split: sum.splits)

lemma delete_reserved_run:
  assumes "seq (kst_delete ks code_shape_entry) (seq (kst_delete ks salt_entry) (kst_delete ks check_entry)) s = (r, s')"
  shows "(\<forall>n. ordinary n \<longrightarrow> contents s' n = contents s n) \<and> (\<forall>u. r = Inr u \<longrightarrow> (\<forall>n. is_reserved_entry n \<longrightarrow> contents s' n = None))"
proof -
  obtain q1 s1 where 1: "kst_delete ks code_shape_entry s = (q1, s1)" by fastforce
  obtain q2 s2 where 2: "kst_delete ks salt_entry s1 = (q2, s2)" by fastforce
  obtain q3 s3 where 3: "kst_delete ks check_entry s2 = (q3, s3)" by fastforce
  have fin: "(r, s') = (case q1 of Inl e \<Rightarrow> (Inl e, s1) | Inr _ \<Rightarrow> (case q2 of Inl e \<Rightarrow> (Inl e, s2) | Inr _ \<Rightarrow> (q3, s3)))"
    using assms 1 2 3 by (auto simp: seq_def bnd_def split: sum.splits)
  have kept: "contents s1 n = contents s n" "contents s2 n = contents s n" "contents s3 n = contents s n" if "ordinary n" for n
  proof -
    have "n \<noteq> code_shape_entry" "n \<noteq> salt_entry" "n \<noteq> check_entry" using that reserved_entries by (auto simp: ordinary_def)
    then show "contents s1 n = contents s n" "contents s2 n = contents s n" "contents s3 n = contents s n"
      by (simp_all add: delete_other [OF 1] delete_other [OF 2] delete_other [OF 3])
  qed
  have gone: "contents s3 n = None" if "q1 = Inr x1" "q2 = Inr x2" "q3 = Inr x3" "is_reserved_entry n" for n x1 x2 x3
  proof -
    have "contents s1 code_shape_entry = None" "contents s2 salt_entry = None" "contents s3 check_entry = None"
      using that delete_entry [OF 1] delete_entry [OF 2] delete_entry [OF 3] by simp_all
    then show ?thesis using that(4) delete_other [OF 2, of code_shape_entry] delete_other [OF 3, of code_shape_entry]
        delete_other [OF 3, of salt_entry] unfolding is_reserved_entry_def by force
  qed
  show ?thesis
  proof (cases q1)
    case (Inl e)
    with fin kept show ?thesis by simp
  next
    case q1: (Inr x1)
    show ?thesis
    proof (cases q2)
      case (Inl e)
      with fin kept q1 show ?thesis by simp
    next
      case q2: (Inr x2)
      from fin q1 q2 have "r = q3" "s' = s3" by simp_all
      with kept gone [OF q1 q2] show ?thesis by simp
    qed
  qed
qed

lemma disable_run:
  assumes locked: "locked_under cr (contents s) code" and run: "disable_device_lock cr ks code (s, i) = (r, (s', i'))"
  shows "(\<forall>n v. ordinary n \<longrightarrow> opens cr (contents s) code n = Some v \<longrightarrow> contents s' n = Some v \<or> opens cr (contents s') code n = Some v)
    \<and> (r = Inr u \<longrightarrow> (\<forall>n. ordinary n \<longrightarrow> contents s' n = opens cr (contents s) code n) \<and> (\<forall>n. is_reserved_entry n \<longrightarrow> contents s' n = None))"
proof -
  have same: "\<forall>n v. ordinary n \<longrightarrow> opens cr (contents s) code n = Some v \<longrightarrow> contents u n = Some v \<or> opens cr (contents u) code n = Some v"
    if "real_part (contents u) = real_part (contents s)" for u
    using real_same_opens [OF that] by simp
  obtain q s1 i1 where open1: "open_and_read cr ks code (s, i) = (q, (s1, i1))" by (metis surj_pair)
  show ?thesis
  proof (cases q)
    case (Inl e)
    with run open1 have "r = Inl e \<and> s' = s1" by (simp add: disable_device_lock_def bnd_def)
    with same [OF open_and_read_err [OF locked open1 [unfolded Inl]]] show ?thesis by simp
  next
    case (Inr vals)
    from open_and_read_run [OF locked open1 [unfolded Inr]] have o: "real_part (contents s1) = real_part (contents s)"
      "staged_part (contents s1) = Map.empty" "distinct (map fst vals)"
      "\<And>n v. (n, v) \<in> set vals \<longleftrightarrow> ordinary n \<and> opens cr (contents s) code n = Some v" by blast+
    obtain q2 s2 where stage: "for_each vals (\<lambda>(n, v). kst_set (staging_view ks) n v) s1 = (q2, s2)" by fastforce
    note st = stage_plain_run [OF stage o(3)]
    have real2: "real_part (contents s2) = real_part (contents s)" using st o(1) by simp
    show ?thesis
    proof (cases q2)
      case (Inl e)
      with run open1 stage \<open>q = Inr vals\<close> have "r = Inl e \<and> s' = s2"
        by (simp add: disable_device_lock_def bnd_def on_inner_def seq_def)
      with same [OF real2] show ?thesis by simp
    next
      case staged: (Inr x)
      have T: "staged_part (contents s2) = map_of vals" using st staged o(2) by simp
      have domT: "n \<in> dom (map_of vals) \<Longrightarrow> ordinary n" for n using o(4) by (auto dest: map_of_SomeD)
      obtain q3 s3 where promote: "promote_staged ks OrdinaryFirst s2 = (q3, s3)" by fastforce
      have "\<forall>n \<in> dom (map_of vals). \<not> starts_with n staging_prefix" using domT by (auto simp: ordinary_def)
      from promote_staged_run [OF promote T real2 this] obtain E where E: "E \<subseteq> dom (map_of vals)"
        "real_part (contents s3) = promoted E (map_of vals) (real_part (contents s))" "\<forall>u. q3 = Inr u \<longrightarrow> E = dom (map_of vals)"
        by blast
      have at: "contents s3 n = (if n \<in> E then map_of vals n else contents s n)" if "ordinary n \<or> is_reserved_entry n" for n
        using promoted_contents [OF E(2) that] .
      have salt: "contents s3 salt_entry = contents s salt_entry"
        using at [OF disjI2 [OF reserved_entries(1)]] E(1) domT [of salt_entry] reserved_entries(1) by (auto simp: ordinary_def)
      have held: "map_of vals n = opens cr (contents s) code n" if "ordinary n" for n
      proof (cases "opens cr (contents s) code n")
        case None
        then have "n \<notin> fst ` set vals" using o(4) by auto
        then show ?thesis using None by (simp add: map_of_eq_None_iff)
      next
        case (Some v)
        then show ?thesis using o(3,4) that by simp
      qed
      have kept: "contents s3 n = Some v \<or> opens cr (contents s3) code n = Some v"
        if "ordinary n" "opens cr (contents s) code n = Some v" for n v
        using at [of n] salt held that by (auto simp: opens_def)
      show ?thesis
      proof (cases q3)
        case (Inl e)
        with run open1 stage \<open>q = Inr vals\<close> staged promote have "r = Inl e \<and> s' = s3"
          by (simp add: disable_device_lock_def bnd_def on_inner_def seq_def)
        with kept show ?thesis by simp
      next
        case promoted: (Inr y)
        have "seq (kst_delete ks code_shape_entry) (seq (kst_delete ks salt_entry) (kst_delete ks check_entry)) s3 = (r, s')"
          using run open1 stage \<open>q = Inr vals\<close> staged promote promoted
          by (cases "seq (kst_delete ks code_shape_entry) (seq (kst_delete ks salt_entry) (kst_delete ks check_entry)) s3")
            (simp add: disable_device_lock_def bnd_def [of "open_and_read _ _ _"] on_inner_def seq_def bnd_def)
        note del = delete_reserved_run [OF this]
        have plain: "contents s3 n = opens cr (contents s) code n" if n: "ordinary n" for n
        proof (cases "n \<in> E")
          case True
          then show ?thesis using at n held by simp
        next
          case False
          then have "map_of vals n = None" using E(3) promoted by auto
          with held [OF n] have none: "opens cr (contents s) code n = None" by simp
          with locked n have "contents s n = None" by (auto simp: locked_under_def)
          then show ?thesis using at [of n] n False none by simp
        qed
        with del show ?thesis by simp
      qed
    qed
  qed
qed

text \<open>A code that does not open the verifier changes nothing.\<close>

lemma wrong_code_run:
  assumes "contents s salt_entry = Some sh" and "key_inv cr (contents s) code None" and "opens cr (contents s) code check_entry \<noteq> Some check_value"
  shows "\<exists>key. verify_code cr ks code ((s, i), None) = (Inr False, ((s, i), key))"
proof -
  obtain q s1 i1 key1 where get: "enc_get cr ks code check_entry ((s, i), None) = (q, ((s1, i1), key1))" by (rule enc_result)
  note g = enc_get_run [OF assms(1,2) get]
  then have "s1 = s" "i1 = i" "q \<noteq> Inr (Some check_value)"
    using assms(1,3) by (auto simp: opens_def bind_eq_Some_conv split: option.splits)
  with get show ?thesis by (cases q) (auto simp: verify_code_def catch_def bnd_def ret_def)
qed

end

end
