(* ===== verification/LockProps.thy ===== *)
theory LockProps
  imports KeystoreProps
begin

text \<open>
  The properties of the device lock and of the pause between wrong codes, stated over the in-memory
  key store. They rest on the runs proved for every lawful key store in \<open>KeystoreProps\<close>; the other
  backend and the staging area are key stores in the same sense (\<open>Keystore\<close>).
\<close>

section \<open>A device to try the lock on\<close>

definition demo_tag :: "bytes \<Rightarrow> bytes" where
  "demo_tag key = take 16 (key @ replicate 16 0)"

definition demo_lock :: lock_crypto where
  "demo_lock = \<lparr>lc_gcm = \<lparr>gcm_seal = (\<lambda>key iv b. demo_tag key @ b),
       gcm_unseal = (\<lambda>key iv b. if take 16 b = demo_tag key then Some (drop 16 b) else None)\<rparr>,
     lc_derive = (\<lambda>code salt. salt @ map (\<lambda>c. of_nat (of_char c)) code),
     lc_to_hex = map (\<lambda>w. char_of (unat w)), lc_from_hex = (\<lambda>h. Some (map (\<lambda>c. of_nat (of_char c)) h)),
     lc_ivs = (\<lambda>i. replicate iv_bytes 0), lc_salts = (\<lambda>i. [of_nat i])\<rparr>"

lemma demo_lock_ok: "lock_crypto_ok demo_lock"
proof -
  have "(word_of_nat (unat x mod 256) :: 8 word) = x" for x :: "8 word"
    using unsigned_less [of x, where 'a = nat] by simp
  moreover have "length (demo_tag key) = 16" for key by (simp add: demo_tag_def)
  ultimately show ?thesis by (simp add: lock_crypto_ok_def gcm_lawful_def demo_lock_def iv_bytes_def comp_def map_idI)
qed

definition two_secrets :: memory where
  "two_secrets = \<lparr>me_entries = [(''a'', ''x''), (''b'', ''y'')], me_writes = None\<rparr>"

definition locked_memory :: "memory \<times> nat" where
  "locked_memory = snd (enable_device_lock demo_lock memory_store ''123456'' (two_secrets, 0))"

definition for_writes :: "nat \<Rightarrow> memory \<times> nat \<Rightarrow> memory \<times> nat" where
  "for_writes k sn = ((fst sn)\<lparr>me_writes := Some k\<rparr>, snd sn)"

definition unlimited :: "memory \<times> nat \<Rightarrow> memory \<times> nat" where
  "unlimited sn = ((fst sn)\<lparr>me_writes := None\<rparr>, snd sn)"

abbreviation held :: "memory \<Rightarrow> string \<Rightarrow> string option" where
  "held m \<equiv> map_of (me_entries m)"

lemma two_secrets_lock:
  "locked_memory = (fst locked_memory, snd locked_memory)"
  "fst (enable_device_lock demo_lock memory_store ''123456'' (two_secrets, 0)) = Inr ()"
  by (simp, code_simp)


section \<open>Properties\<close>


lemma ordinary_a: "ordinary ''a''"
  by (simp add: ordinary_def is_reserved_entry_def salt_entry_def check_entry_def code_shape_entry_def starts_with_def staging_prefix_def)


text \<open>
  C37: setting a lock and taking it away again is a round trip: if both runs return, every secret is
  in the store as it was before, in the clear, and no reserved entry is left.
\<close>

theorem lock_round_trip:
  assumes "lock_crypto_ok cr" and "enable_device_lock cr memory_store code (m, i) = (Inr (), (m1, i1))"
    and "disable_device_lock cr memory_store code (m1, j) = (Inr (), (m2, j2))"
  shows "(ordinary n \<longrightarrow> held m2 n = held m n) \<and> (is_reserved_entry n \<longrightarrow> held m2 n = None)"
proof -
  note on = mem.enable_run [OF assms(1,2), of "()"]
  then have "locked_under cr (held m1) code" by simp
  from mem.disable_run [OF this assms(3), of "()"] on show ?thesis by simp
qed

theorem lock_round_trip_witness:
  "held (fst (snd (disable_device_lock demo_lock memory_store ''123456'' locked_memory))) ''a'' = Some ''x''"
proof -
  obtain r m i where run: "disable_device_lock demo_lock memory_store ''123456'' (fst locked_memory, snd locked_memory) = (r, (m, i))"
    by (metis surj_pair)
  have "fst (disable_device_lock demo_lock memory_store ''123456'' (fst locked_memory, snd locked_memory)) = Inr ()" by code_simp
  with run have r: "r = Inr ()" by simp
  have on: "enable_device_lock demo_lock memory_store ''123456'' (two_secrets, 0) = (Inr (), (fst locked_memory, snd locked_memory))"
    using two_secrets_lock(2) by (simp add: locked_memory_def prod_eq_iff)
  from lock_round_trip [OF demo_lock_ok on run [unfolded r], of "''a''"] ordinary_a run
  show ?thesis by (simp add: two_secrets_def)
qed

text \<open>
  A code that does not open the verifier is refused as such, and neither the store nor the
  number of random values drawn has changed.
\<close>

theorem wrong_code_refused:
  assumes "held m salt_entry = Some sh" and "lc_from_hex cr sh \<noteq> None" and "opens cr (held m) code check_entry \<noteq> Some check_value"
  shows "unlock_device_key_store cr memory_store code (m, i) = (Inl unlock_failed, (m, i))
    \<and> change_unlock_code cr memory_store code new (m, i) \<in> {(Inl unlock_failed, (m, i)), (Inl unlock_code_length_error, (m, i)), (Inl unlock_code_not_numeric, (m, i))}
    \<and> disable_device_lock cr memory_store code (m, i) = (Inl unlock_failed, (m, i))"
proof -
  have "key_inv cr (held m) code None" using assms(1,2) by (auto simp: key_inv_def)
  from mem.wrong_code_run [OF assms(1) this assms(3)] obtain key where
    v: "verify_code cr memory_store code ((m, i), None) = (Inr False, ((m, i), key))" by blast
  then have "open_and_read cr memory_store code (m, i) = (Inl unlock_failed, (m, i))"
    by (simp add: open_and_read_def with_store_def bnd_def throw_def)
  with v show ?thesis
    by (simp add: unlock_device_key_store_def disable_device_lock_def change_unlock_code_def with_store_def bnd_def seq_def throw_def
        require_valid_code_def ret_def)
qed

theorem wrong_code_refused_witness:
  "unlock_device_key_store demo_lock memory_store ''000000'' locked_memory = (Inl unlock_failed, locked_memory)"
proof -
  have "case held (fst locked_memory) salt_entry of None \<Rightarrow> False
      | Some sh \<Rightarrow> lc_from_hex demo_lock sh \<noteq> None \<and> opens demo_lock (held (fst locked_memory)) ''000000'' check_entry \<noteq> Some check_value"
    by code_simp
  then obtain sh where "held (fst locked_memory) salt_entry = Some sh" "lc_from_hex demo_lock sh \<noteq> None"
      "opens demo_lock (held (fst locked_memory)) ''000000'' check_entry \<noteq> Some check_value"
    by (cases "held (fst locked_memory) salt_entry") simp_all
  from wrong_code_refused [OF this, of "snd locked_memory"] show ?thesis by simp
qed

text \<open>
  What an interrupted change of the code can cost. (1) The salt of the new generation is promoted
  before its verifier; a process that dies between the two writes leaves the old verifier beside the
  new salt, and from then on neither code opens the device, nor can the code be changed or the lock
  be taken away. (2) Taking the lock away has the same window, between deleting the salt and deleting
  the verifier, with every secret already in the clear. (3) A process that dies after promoting the
  first secret leaves it under the new code with the new salt still staged; changing the code again
  then clears the staging area, salt included, before it fails on that secret, and after that no
  salt on the device opens the secret under either code.
\<close>

theorem interrupted_code_change_hazards:
  "(let died = unlimited (snd (change_unlock_code demo_lock memory_store ''123456'' ''654321'' (for_writes 8 locked_memory)))
    in fst (unlock_device_key_store demo_lock memory_store ''123456'' died) = Inl unlock_failed
     \<and> fst (unlock_device_key_store demo_lock memory_store ''654321'' died) = Inl unlock_failed
     \<and> fst (change_unlock_code demo_lock memory_store ''654321'' ''123456'' died) = Inl unlock_failed
     \<and> fst (disable_device_lock demo_lock memory_store ''654321'' died) = Inl unlock_failed)
   \<and> (let died = unlimited (snd (disable_device_lock demo_lock memory_store ''123456'' (for_writes 8 locked_memory)))
    in held (fst died) ''a'' = Some ''x'' \<and> fst (unlock_device_key_store demo_lock memory_store ''123456'' died) = Inl unlock_failed)
   \<and> (let died = unlimited (snd (change_unlock_code demo_lock memory_store ''123456'' ''654321'' (for_writes 6 locked_memory)));
       (r, again) = change_unlock_code demo_lock memory_store ''123456'' ''654321'' died
    in r = Inl DecryptionError
     \<and> staged_part (held (fst again)) salt_entry = None
     \<and> opens demo_lock (held (fst again)) ''123456'' ''a'' = None \<and> opens demo_lock (held (fst again)) ''654321'' ''a'' = None)"
  by code_simp

section \<open>The pause\<close>

text \<open>What happens to a counter: wrong codes, right ones and ticks of its timer, at some time each.\<close>

datatype backoff_event = WrongCode int | RightCode int | Tick int

fun backoff_step :: "backoff_event \<Rightarrow> backoff \<Rightarrow> backoff" where
  "backoff_step (WrongCode now) b = backoff_fail now b"
| "backoff_step (RightCode now) b = backoff_succeed b"
| "backoff_step (Tick now) b = (if bo_ticking b then backoff_tick now b else b)"

fun event_time :: "backoff_event \<Rightarrow> int" where
  "event_time (WrongCode now) = now" | "event_time (RightCode now) = now" | "event_time (Tick now) = now"

text \<open>What holds of a counter at a time after its last event.\<close>

definition paused_ok :: "int \<Rightarrow> backoff \<Rightarrow> bool" where
  "paused_ok now b \<longleftrightarrow> 0 \<le> bo_remaining b \<and> bo_remaining b \<le> int max_backoff_seconds \<and> (bo_ticking b \<longleftrightarrow> 0 < bo_remaining b)
     \<and> (bo_ticking b \<longrightarrow> bo_until b \<le> now + int max_backoff_seconds * 1000)"

lemma ceil_seconds_bounds: "ms \<le> 1000 * k \<Longrightarrow> ceil_seconds ms \<le> k" "ms \<le> 1000 * ceil_seconds ms"
  by (auto simp: ceil_seconds_def)

lemma paused_ok_step: "paused_ok t b \<Longrightarrow> t \<le> event_time e \<Longrightarrow> paused_ok (event_time e) (backoff_step e b)"
proof (cases e)
  case (WrongCode now)
  assume "paused_ok t b" "t \<le> event_time e"
  moreover have "0 < max_backoff_seconds" by (simp add: max_backoff_seconds_def)
  ultimately show ?thesis using WrongCode
    by (auto simp: paused_ok_def backoff_fail_def Let_def min_def)
next
  case (Tick now)
  assume "paused_ok t b" "t \<le> event_time e"
  with Tick ceil_seconds_bounds(1) [of "bo_until b - now" "int max_backoff_seconds"] show ?thesis
    by (auto simp: paused_ok_def backoff_tick_def backoff_stop_def Let_def max_backoff_seconds_def max_def)
qed (auto simp: paused_ok_def backoff_succeed_def backoff_stop_def max_backoff_seconds_def)

lemma paused_ok_run:
  "paused_ok t b \<Longrightarrow> sorted (t # map event_time es) \<Longrightarrow> paused_ok (last (t # map event_time es)) (fold backoff_step es b)"
  by (induction es arbitrary: t b) (auto dest: paused_ok_step)

text \<open>
  The pause between wrong codes is bounded and ends. After any sequence of wrong codes, right
  codes and ticks at times that do not go back, the seconds shown lie between 0 and 30, a pause is
  shown exactly while the timer runs, and the first tick 30 seconds later ends it.
\<close>

theorem backoff_bounded:
  assumes "sorted (map event_time es)" and "\<forall>e \<in> set es. event_time e \<le> now"
  defines "b \<equiv> fold backoff_step es new_backoff"
  shows "0 \<le> bo_remaining b \<and> bo_remaining b \<le> 30 \<and> (bo_ticking b \<longleftrightarrow> backoff_active b)
    \<and> (backoff_active b \<longrightarrow> now + 30000 \<le> later \<longrightarrow> \<not> backoff_active (backoff_tick later b) \<and> bo_ended (backoff_tick later b) = Suc (bo_ended b))"
proof -
  obtain t where t: "\<forall>e \<in> set es. t \<le> event_time e" "t \<le> now"
    using assms(2) by (cases es) (use assms(1) in \<open>auto\<close>)
  have "paused_ok t new_backoff" by (simp add: paused_ok_def new_backoff_def max_backoff_seconds_def)
  with t(1) assms(1) have "paused_ok (last (t # map event_time es)) b" unfolding b_def by (intro paused_ok_run) simp_all
  moreover have "last (t # map event_time es) \<le> now"
    using assms(2) t(2) last_in_set [of "map event_time es"] by auto
  ultimately have ok: "paused_ok now b" by (auto simp: paused_ok_def)
  have "ceil_seconds (bo_until b - later) \<le> 0" if "bo_ticking b" "now + 30000 \<le> later"
    using ok that ceil_seconds_bounds(1) [of "bo_until b - later" 0] by (simp add: paused_ok_def max_backoff_seconds_def)
  with ok show ?thesis
    by (auto simp: paused_ok_def backoff_active_def backoff_tick_def backoff_stop_def Let_def max_backoff_seconds_def max_def)
qed

theorem backoff_bounded_witness:
  "let b = fold backoff_step [WrongCode 0, WrongCode 10, WrongCode 20, Tick 270, WrongCode 2000] new_backoff
   in backoff_active b \<and> bo_remaining b \<le> 30 \<and> \<not> backoff_active (backoff_tick 40000 b)"
proof -
  let ?es = "[WrongCode 0, WrongCode 10, WrongCode 20, Tick 270, WrongCode 2000]"
  have "backoff_active (fold backoff_step ?es new_backoff)" by code_simp
  with backoff_bounded [of ?es 2000 40000] show ?thesis by (simp add: Let_def)
qed

end
