(* ===== verification/Panels.thy ===== *)
theory Panels
  imports Json Views
begin

text \<open>
  The panel workspace: \<open>plugins/panels/src\<close> (\<open>types.ts\<close>, \<open>events.ts\<close>, \<open>panel-store.ts\<close>,
  \<open>panel-title.ts\<close>, \<open>vault-panel-sync.ts\<close>, and the parser of \<open>workspace-persistence.ts\<close>). A
  layout is a binary tree of groups, a group a row of panels. Events are appended to a log where the
  code hands them to the bus.
\<close>

section \<open>Data\<close>

text \<open>A title is fixed or read from the current language (\<open>packages/i18n/src/text.ts\<close>).\<close>

datatype text_source = FixedText string | LiveText nat

text \<open>
  What comes from outside: the identifiers \<open>nanoid()\<close> will return, the texts of the current
  language, and \<open>basename\<close>.
\<close>

record panel_env =
  pe_nanoid :: "nat \<Rightarrow> string"
  pe_text :: "nat \<Rightarrow> string"
  pe_basename :: "string \<Rightarrow> string"

definition read_label :: "panel_env \<Rightarrow> text_source \<Rightarrow> string" where
  "read_label env t = (case t of FixedText s \<Rightarrow> s | LiveText k \<Rightarrow> pe_text env k)"

record panel_definition =
  pd_id :: string
  pd_title :: text_source

text \<open>A property of a panel is data, or a function, of which only the name is kept here.\<close>

datatype prop_value = PropData json | PropFunction string

record panel_instance =
  pi_id :: string
  pi_definition :: string
  pi_title :: string
  pi_props :: "prop_value rec option"

record panel_group =
  pg_id :: string
  pg_instances :: "panel_instance list"
  pg_active :: "string option"

datatype direction = Horizontal | Vertical

text \<open>Ratios are in thousandths, as every number in JSON is.\<close>

datatype layout_node =
    LayoutLeaf string
  | LayoutSplit string direction int layout_node layout_node

datatype panel_event =
    PanelOpened string string string
  | PanelClosed string string
  | PanelActivated string string
  | PanelDeactivated string string
  | GroupCreated string
  | GroupClosed string
  | GroupActivated string
  | PanelMoved string string string int

record workspace_state =
  ws_groups :: "panel_group rec"
  ws_layout :: "layout_node option"
  ws_active :: "string option"

record panel_store = workspace_state +
  ps_definitions :: "panel_definition list"
  ps_drawn :: nat
  ps_log :: "panel_event list"
  ps_asked :: "string list"

definition create_panel_store :: panel_store where
  "create_panel_store = \<lparr>ws_groups = [], ws_layout = None, ws_active = None, ps_definitions = [], ps_drawn = 0, ps_log = [], ps_asked = []\<rparr>"

section \<open>The layout tree\<close>

text \<open>
  The code holds on to a node by its identity; here a node is held by its position, the branches
  taken from the root (true for the first).
\<close>

type_synonym position = "bool list"

fun node_at :: "layout_node \<Rightarrow> position \<Rightarrow> layout_node option" where
  "node_at t [] = Some t"
| "node_at (LayoutLeaf g) (b # p) = None"
| "node_at (LayoutSplit i d r f s) (b # p) = node_at (if b then f else s) p"

fun find_and_replace :: "layout_node \<Rightarrow> position \<Rightarrow> layout_node \<Rightarrow> layout_node" where
  "find_and_replace t [] u = u"
| "find_and_replace (LayoutLeaf g) (b # p) u = LayoutLeaf g"
| "find_and_replace (LayoutSplit i d r f s) (b # p) u =
     (if b then LayoutSplit i d r (find_and_replace f p u) s else LayoutSplit i d r f (find_and_replace s p u))"

fun find_leaf :: "layout_node \<Rightarrow> string \<Rightarrow> position option" where
  "find_leaf (LayoutLeaf g) gid = (if g = gid then Some [] else None)"
| "find_leaf (LayoutSplit i d r f s) gid =
     (case find_leaf f gid of Some p \<Rightarrow> Some (True # p) | None \<Rightarrow> map_option (Cons False) (find_leaf s gid))"

text \<open>The split above a group's leaf, and whether the leaf is its first branch.\<close>

fun find_parent_split :: "layout_node \<Rightarrow> string \<Rightarrow> (position \<times> bool) option" where
  "find_parent_split (LayoutLeaf g) gid = None"
| "find_parent_split (LayoutSplit i d r f s) gid =
     (if f = LayoutLeaf gid then Some ([], True)
      else if s = LayoutLeaf gid then Some ([], False)
      else case find_parent_split f gid of
          Some (p, b) \<Rightarrow> Some (True # p, b)
        | None \<Rightarrow> map_option (\<lambda>(p, b). (False # p, b)) (find_parent_split s gid))"

fun find_split_by_id :: "layout_node \<Rightarrow> string \<Rightarrow> position option" where
  "find_split_by_id (LayoutLeaf g) sid = None"
| "find_split_by_id (LayoutSplit i d r f s) sid =
     (if i = sid then Some []
      else case find_split_by_id f sid of Some p \<Rightarrow> Some (True # p) | None \<Rightarrow> map_option (Cons False) (find_split_by_id s sid))"

fun get_all_group_ids :: "layout_node \<Rightarrow> string list" where
  "get_all_group_ids (LayoutLeaf g) = [g]"
| "get_all_group_ids (LayoutSplit i d r f s) = get_all_group_ids f @ get_all_group_ids s"

section \<open>Arrays and values\<close>

text \<open>\<open>xs[i]\<close>, \<open>findIndex\<close>, \<open>splice(i, 0, x)\<close> and \<open>splice(i, 1)\<close>; a string is true unless empty.\<close>

definition js_nth :: "'a list \<Rightarrow> int \<Rightarrow> 'a option" where
  "js_nth xs i = (if 0 \<le> i \<and> i < int (length xs) then Some (xs ! nat i) else None)"

fun find_index :: "('a \<Rightarrow> bool) \<Rightarrow> 'a list \<Rightarrow> int" where
  "find_index P [] = -1"
| "find_index P (x # xs) = (if P x then 0 else let k = find_index P xs in if k = -1 then -1 else k + 1)"

definition splice_start :: "int \<Rightarrow> 'a list \<Rightarrow> nat" where
  "splice_start i xs = nat (if i < 0 then max (int (length xs) + i) 0 else min i (int (length xs)))"

definition splice_insert :: "int \<Rightarrow> 'a \<Rightarrow> 'a list \<Rightarrow> 'a list" where
  "splice_insert i x xs = take (splice_start i xs) xs @ x # drop (splice_start i xs) xs"

definition splice_remove :: "int \<Rightarrow> 'a list \<Rightarrow> 'a list" where
  "splice_remove i xs = take (splice_start i xs) xs @ drop (Suc (splice_start i xs)) xs"

definition or_else :: "'a option \<Rightarrow> 'a option \<Rightarrow> 'a option" where
  "or_else x y = (case x of None \<Rightarrow> y | Some a \<Rightarrow> Some a)"

definition is_truthy :: "string option \<Rightarrow> bool" where
  "is_truthy s \<longleftrightarrow> s \<noteq> None \<and> s \<noteq> Some []"

section \<open>The store\<close>

definition emit :: "panel_event \<Rightarrow> panel_store \<Rightarrow> panel_store" where
  "emit e s = s\<lparr>ps_log := ps_log s @ [e]\<rparr>"

definition emit_if :: "bool \<Rightarrow> panel_event \<Rightarrow> panel_store \<Rightarrow> panel_store" where
  "emit_if b e s = (if b then emit e s else s)"

definition set_group :: "string \<Rightarrow> panel_group \<Rightarrow> panel_store \<Rightarrow> panel_store" where
  "set_group g G s = s\<lparr>ws_groups := rset g G (ws_groups s)\<rparr>"

definition new_id :: "panel_env \<Rightarrow> panel_store \<Rightarrow> string \<times> panel_store" where
  "new_id env s = (pe_nanoid env (ps_drawn s), s\<lparr>ps_drawn := Suc (ps_drawn s)\<rparr>)"

definition register_panel :: "panel_definition \<Rightarrow> panel_store \<Rightarrow> panel_store" where
  "register_panel def s =
     (if pd_id def \<in> set (map pd_id (ps_definitions s)) then s
      else s\<lparr>ps_definitions := ps_definitions s @ [def]\<rparr>)"

definition get_definition :: "panel_store \<Rightarrow> string \<Rightarrow> panel_definition option" where
  "get_definition s i = List.find (\<lambda>d. pd_id d = i) (ps_definitions s)"

definition panel_title :: "panel_env \<Rightarrow> panel_store \<Rightarrow> panel_instance \<Rightarrow> string" where
  "panel_title env s x =
     (case get_definition s (pi_definition x) of
        Some d \<Rightarrow> (case pd_title d of LiveText k \<Rightarrow> pe_text env k | FixedText _ \<Rightarrow> pi_title x)
      | None \<Rightarrow> pi_title x)"

definition activate_panel :: "string \<Rightarrow> string \<Rightarrow> panel_store \<Rightarrow> panel_store" where
  "activate_panel i g s =
     (case rget (ws_groups s) g of
        None \<Rightarrow> s
      | Some G \<Rightarrow>
          if pg_active G = Some i then s
          else let s = emit_if (is_truthy (pg_active G)) (PanelDeactivated (the (pg_active G)) g) s
               in emit (PanelActivated i g) (set_group g (G\<lparr>pg_active := Some i\<rparr>) s))"

definition activate_group :: "string \<Rightarrow> panel_store \<Rightarrow> panel_store" where
  "activate_group g s = (if ws_active s = Some g then s else emit (GroupActivated g) (s\<lparr>ws_active := Some g\<rparr>))"

text \<open>The first open instance of the definition the caller's predicate accepts, group by group.\<close>

fun find_duplicate :: "panel_group rec \<Rightarrow> string \<Rightarrow> (panel_instance \<Rightarrow> bool) \<Rightarrow> (string \<times> panel_instance) option" where
  "find_duplicate [] d dedupe = None"
| "find_duplicate ((g, G) # gs) d dedupe =
     (case List.find (\<lambda>i. pi_definition i = d \<and> dedupe i) (pg_instances G) of
        Some i \<Rightarrow> Some (g, i)
      | None \<Rightarrow> find_duplicate gs d dedupe)"

definition open_new_panel ::
    "panel_env \<Rightarrow> panel_definition \<Rightarrow> prop_value rec option \<Rightarrow> string option \<Rightarrow> string option \<Rightarrow> panel_store \<Rightarrow> string \<times> panel_store" where
  "open_new_panel env def props title target s =
     (let gid = (case target of Some g \<Rightarrow> Some g | None \<Rightarrow> ws_active s);
          (iid, s) = new_id env s;
          inst = \<lparr>pi_id = iid, pi_definition = pd_id def, pi_title = (case title of Some t \<Rightarrow> t | None \<Rightarrow> read_label env (pd_title def)), pi_props = props\<rparr>
      in case (if is_truthy gid then rget (ws_groups s) (the gid) else None) of
           None \<Rightarrow>
             let (g, s) = new_id env s;
                 s = set_group g \<lparr>pg_id = g, pg_instances = [inst], pg_active = Some iid\<rparr> s;
                 s = s\<lparr>ws_layout := Some (LayoutLeaf g), ws_active := Some g\<rparr>
             in (iid, emit (PanelActivated iid g) (emit (PanelOpened iid g (pd_id def)) (emit (GroupActivated g) (emit (GroupCreated g) s))))
         | Some G \<Rightarrow>
             let g = the gid;
                 s = set_group g (G\<lparr>pg_instances := pg_instances G @ [inst], pg_active := Some iid\<rparr>) s;
                 s = emit_if (is_truthy (pg_active G)) (PanelDeactivated (the (pg_active G)) g) s
             in (iid, emit (PanelActivated iid g) (emit (PanelOpened iid g (pd_id def)) s)))"

definition open_panel ::
    "panel_env \<Rightarrow> string \<Rightarrow> prop_value rec option \<Rightarrow> string option \<Rightarrow> string option \<Rightarrow> (panel_instance \<Rightarrow> bool) option \<Rightarrow> (panel_store, string) eff" where
  "open_panel env d props title target dedupe s =
     (case get_definition s d of
        None \<Rightarrow> (Inl (IllegalStateError ''Panel definition not found''), s)
      | Some def \<Rightarrow>
          (case (case dedupe of None \<Rightarrow> None | Some p \<Rightarrow> find_duplicate (ws_groups s) d p) of
             Some (g, i) \<Rightarrow> (Inr (pi_id i), activate_panel (pi_id i) g (activate_group g s))
           | None \<Rightarrow> (case open_new_panel env def props title target s of (i, s) \<Rightarrow> (Inr i, s))))"

definition retarget_panel :: "string \<Rightarrow> string \<Rightarrow> prop_value rec \<Rightarrow> string \<Rightarrow> panel_store \<Rightarrow> panel_store" where
  "retarget_panel i g props title s =
     (case rget (ws_groups s) g of
        None \<Rightarrow> s
      | Some G \<Rightarrow>
          if i \<notin> pi_id ` set (pg_instances G) then s
          else set_group g (G\<lparr>pg_instances := map (\<lambda>x. if pi_id x = i then x\<lparr>pi_props := Some props, pi_title := title\<rparr> else x) (pg_instances G)\<rparr>) s)"

definition close_group :: "string \<Rightarrow> panel_store \<Rightarrow> panel_store" where
  "close_group g s =
     (case ws_layout s of
        None \<Rightarrow> s
      | Some t \<Rightarrow>
          let s = s\<lparr>ws_groups := rdel g (ws_groups s)\<rparr>
          in case t of
               LayoutLeaf _ \<Rightarrow> emit (GroupClosed g) (s\<lparr>ws_layout := None, ws_active := None\<rparr>)
             | LayoutSplit _ _ _ _ _ \<Rightarrow>
                 (case find_parent_split t g of
                    None \<Rightarrow> s
                  | Some (p, is_first) \<Rightarrow>
                      (case node_at t (p @ [\<not> is_first]) of
                         None \<Rightarrow> s
                       | Some sibling \<Rightarrow>
                           let t' = find_and_replace t p sibling;
                               s = s\<lparr>ws_layout := Some t'\<rparr>;
                               s = (if ws_active s = Some g then s\<lparr>ws_active := js_nth (get_all_group_ids t') 0\<rparr> else s)
                           in emit (GroupClosed g) s)))"

definition close_panel :: "string \<Rightarrow> string \<Rightarrow> panel_store \<Rightarrow> panel_store" where
  "close_panel i g s =
     (case rget (ws_groups s) g of
        None \<Rightarrow> s
      | Some G \<Rightarrow>
          let remaining = filter (\<lambda>x. pi_id x \<noteq> i) (pg_instances G);
              was_active = (pg_active G = Some i);
              s = emit_if was_active (PanelDeactivated i g) s
          in if remaining = [] then emit (PanelClosed i g) (close_group g s)
             else let idx = find_index (\<lambda>x. pi_id x = i) (pg_instances G);
                      next_active = (if was_active
                        then map_option pi_id (or_else (js_nth (pg_instances G) (idx + 1)) (js_nth (pg_instances G) (idx - 1)))
                        else pg_active G);
                      s = set_group g (G\<lparr>pg_instances := remaining, pg_active := next_active\<rparr>) s
                  in emit_if (was_active \<and> is_truthy next_active) (PanelActivated (the next_active) g) (emit (PanelClosed i g) s))"

text \<open>The panel's own \<open>requestClose\<close> property is called, when it has one; which one is noted.\<close>

definition request_close_panel :: "string \<Rightarrow> string \<Rightarrow> panel_store \<Rightarrow> panel_store" where
  "request_close_panel i g s =
     (case Option.bind (rget (ws_groups s) g) (\<lambda>G. Option.bind (List.find (\<lambda>x. pi_id x = i) (pg_instances G))
         (\<lambda>x. Option.bind (pi_props x) (\<lambda>ps. rget ps ''requestClose''))) of
        Some (PropFunction f) \<Rightarrow> s\<lparr>ps_asked := ps_asked s @ [f]\<rparr>
      | _ \<Rightarrow> close_panel i g s)"

definition split_group :: "panel_env \<Rightarrow> string \<Rightarrow> direction \<Rightarrow> panel_store \<Rightarrow> string \<times> panel_store" where
  "split_group env g dir s =
     (case ws_layout s of
        None \<Rightarrow> (g, s)
      | Some t \<Rightarrow>
          (case find_leaf t g of
             None \<Rightarrow> (g, s)
           | Some p \<Rightarrow>
               let (g', s) = new_id env s;
                   s = set_group g' \<lparr>pg_id = g', pg_instances = [], pg_active = None\<rparr> s;
                   (sid, s) = new_id env s;
                   s = s\<lparr>ws_layout := Some (find_and_replace t p (LayoutSplit sid dir 500 (LayoutLeaf g) (LayoutLeaf g'))), ws_active := Some g'\<rparr>
               in (g', emit (GroupActivated g') (emit (GroupCreated g') s))))"

definition clamp_ratio :: "int \<Rightarrow> int" where
  "clamp_ratio r = max 100 (min 900 r)"

definition set_ratio :: "string \<Rightarrow> int \<Rightarrow> panel_store \<Rightarrow> panel_store" where
  "set_ratio sid r s =
     (case ws_layout s of
        None \<Rightarrow> s
      | Some t \<Rightarrow>
          (case find_split_by_id t sid of
             None \<Rightarrow> s
           | Some p \<Rightarrow>
               (case node_at t p of
                  Some (LayoutSplit i d _ f u) \<Rightarrow> s\<lparr>ws_layout := Some (find_and_replace t p (LayoutSplit i d (clamp_ratio r) f u))\<rparr>
                | _ \<Rightarrow> s)))"

definition get_ordered_group_ids :: "panel_store \<Rightarrow> string list" where
  "get_ordered_group_ids s = (case ws_layout s of None \<Rightarrow> [] | Some t \<Rightarrow> get_all_group_ids t)"

text \<open>Moving a panel within its group, and to another.\<close>

definition reorder_panel :: "string \<Rightarrow> panel_group \<Rightarrow> panel_instance \<Rightarrow> int \<Rightarrow> int \<Rightarrow> panel_store \<Rightarrow> panel_store" where
  "reorder_panel g G inst src to_index s =
     (if to_index = src \<or> to_index = src + 1 then s
      else let k = (if to_index > src then to_index - 1 else to_index);
               insts = splice_insert k inst (splice_remove src (pg_instances G))
           in emit (PanelMoved (pi_id inst) g g k) (set_group g (G\<lparr>pg_instances := insts\<rparr>) s))"

definition transfer_panel :: "string \<Rightarrow> panel_group \<Rightarrow> string \<Rightarrow> panel_group \<Rightarrow> panel_instance \<Rightarrow> int \<Rightarrow> int \<Rightarrow> panel_store \<Rightarrow> panel_store" where
  "transfer_panel gf F gt T inst src to_index s =
     (let i = pi_id inst;
          was_active = (pg_active F = Some i);
          remaining = filter (\<lambda>x. pi_id x \<noteq> i) (pg_instances F);
          k = min to_index (int (length (pg_instances T)));
          closes = (remaining = []);
          next_active = (if was_active \<and> \<not> closes
            then map_option pi_id (or_else (or_else (js_nth remaining src) (js_nth remaining (src - 1))) (js_nth remaining 0))
            else pg_active F);
          s = set_group gt (T\<lparr>pg_instances := splice_insert k inst (pg_instances T), pg_active := Some i\<rparr>) s;
          s = (if closes then s else set_group gf (F\<lparr>pg_instances := remaining, pg_active := next_active\<rparr>) s);
          s = s\<lparr>ws_active := Some gt\<rparr>;
          s = emit_if was_active (PanelDeactivated i gf) s;
          s = emit_if (is_truthy (pg_active T) \<and> pg_active T \<noteq> Some i) (PanelDeactivated (the (pg_active T)) gt) s;
          s = emit (PanelMoved i gf gt k) s;
          s = emit_if (\<not> closes \<and> was_active \<and> is_truthy next_active) (PanelActivated (the next_active) gf) s;
          s = emit (PanelActivated i gt) s;
          s = emit (GroupActivated gt) s
      in if closes then close_group gf s else s)"

definition move_panel :: "string \<Rightarrow> string \<Rightarrow> string \<Rightarrow> int \<Rightarrow> panel_store \<Rightarrow> panel_store" where
  "move_panel i gf gt to_index s =
     (case (rget (ws_groups s) gf, rget (ws_groups s) gt) of
        (Some F, Some T) \<Rightarrow>
          let src = find_index (\<lambda>x. pi_id x = i) (pg_instances F)
          in (case js_nth (pg_instances F) src of
                None \<Rightarrow> s
              | Some inst \<Rightarrow>
                  if gf = gt then reorder_panel gf F inst src to_index s
                  else transfer_panel gf F gt T inst src to_index s)
      | _ \<Rightarrow> s)"

datatype drop_zone = ZoneTop | ZoneRight | ZoneBottom | ZoneLeft | ZoneCenter

definition move_panel_to_zone :: "panel_env \<Rightarrow> string \<Rightarrow> string \<Rightarrow> string \<Rightarrow> drop_zone \<Rightarrow> panel_store \<Rightarrow> panel_store" where
  "move_panel_to_zone env i gf gt zone s =
     (if zone = ZoneCenter
      then (case rget (ws_groups s) gt of
              None \<Rightarrow> s
            | Some T \<Rightarrow> move_panel i gf gt (int (length (pg_instances T))) s)
      else case ws_layout s of
          None \<Rightarrow> s
        | Some t \<Rightarrow>
            (case find_leaf t gt of
               None \<Rightarrow> s
             | Some p \<Rightarrow>
                 let (g', s) = new_id env s;
                     s = set_group g' \<lparr>pg_id = g', pg_instances = [], pg_active = None\<rparr> s;
                     after = (zone = ZoneRight \<or> zone = ZoneBottom);
                     dir = (if zone = ZoneLeft \<or> zone = ZoneRight then Horizontal else Vertical);
                     (sid, s) = new_id env s;
                     u = (if after then LayoutSplit sid dir 500 (LayoutLeaf gt) (LayoutLeaf g') else LayoutSplit sid dir 500 (LayoutLeaf g') (LayoutLeaf gt));
                     s = emit (GroupCreated g') (s\<lparr>ws_layout := Some (find_and_replace t p u)\<rparr>)
                 in move_panel i gf g' 0 s))"

definition serialize_panels :: "panel_store \<Rightarrow> workspace_state" where
  "serialize_panels s = \<lparr>ws_groups = ws_groups s, ws_layout = ws_layout s, ws_active = ws_active s\<rparr>"

definition restore_panels :: "workspace_state \<Rightarrow> panel_store \<Rightarrow> panel_store" where
  "restore_panels w s = s\<lparr>ws_groups := ws_groups w, ws_layout := ws_layout w, ws_active := ws_active w\<rparr>"

section \<open>Following the vault\<close>

definition shows_path :: "string \<Rightarrow> panel_instance \<Rightarrow> bool" where
  "shows_path p x \<longleftrightarrow> Option.bind (pi_props x) (\<lambda>ps. rget ps ''path'') = Some (PropData (JStr p))"

definition find_panels_for_path :: "panel_store \<Rightarrow> string \<Rightarrow> (string \<times> string) list" where
  "find_panels_for_path s p =
     concat (map (\<lambda>(_, G). map (\<lambda>x. (pi_id x, pg_id G)) (filter (shows_path p) (pg_instances G))) (ws_groups s))"

definition retarget_to :: "panel_env \<Rightarrow> string \<Rightarrow> string \<times> string \<Rightarrow> panel_store \<Rightarrow> panel_store" where
  "retarget_to env p m s =
     (case m of (i, g) \<Rightarrow>
        (case Option.bind (rget (ws_groups s) g) (\<lambda>G. List.find (\<lambda>x. pi_id x = i) (pg_instances G)) of
           None \<Rightarrow> s
         | Some x \<Rightarrow>
             retarget_panel i g (rset ''path'' (PropData (JStr p)) (case pi_props x of None \<Rightarrow> [] | Some ps \<Rightarrow> ps)) (pe_basename env p) s))"

definition apply_vault_change :: "panel_env \<Rightarrow> vfs_change \<Rightarrow> panel_store \<Rightarrow> bool \<times> panel_store" where
  "apply_vault_change env c s =
     (case c of
        Deleted p \<Rightarrow>
          let ms = find_panels_for_path s p
          in (ms \<noteq> [], fold (\<lambda>(i, g). close_panel i g) ms s)
      | Renamed p q \<Rightarrow> (False, fold (retarget_to env p) (find_panels_for_path s q) s)
      | Written _ \<Rightarrow> (False, s))"

end
