(* ===== verification/PanelProps.thy ===== *)
theory PanelProps
  imports Panels
begin

text \<open>
  What the panel workspace keeps: the layout shows exactly the groups that exist, each once; no
  panel is lost or shown twice by a move; and the events tell a subscriber the whole of it.
\<close>

section \<open>The tree\<close>

lemma node_at_append: "node_at t (p @ q) = Option.bind (node_at t p) (\<lambda>u. node_at u q)"
  by (induction t p rule: node_at.induct) auto

lemma ids_not_Nil [simp]: "get_all_group_ids t \<noteq> []"
  by (induction t) simp_all

lemma find_leaf_at: "find_leaf t g = Some p \<Longrightarrow> node_at t p = Some (LayoutLeaf g)"
  by (induction t arbitrary: p) (auto split: if_splits option.splits)

lemma find_leaf_None: "find_leaf t g = None \<longleftrightarrow> g \<notin> set (get_all_group_ids t)"
  by (induction t) (auto split: option.splits)

lemma find_split_at: "find_split_by_id t i = Some p \<Longrightarrow> \<exists>d r f s. node_at t p = Some (LayoutSplit i d r f s)"
  by (induction t arbitrary: p) (auto split: if_splits option.splits)

lemma find_parent_at:
  "find_parent_split t g = Some (p, b) \<Longrightarrow> \<exists>i d r f s. node_at t p = Some (LayoutSplit i d r f s) \<and> (if b then f else s) = LayoutLeaf g"
proof (induction t arbitrary: p b)
  case (LayoutSplit i d r f s)
  show ?case
  proof (cases "f = LayoutLeaf g \<or> s = LayoutLeaf g")
    case True
    with LayoutSplit.prems show ?thesis by (auto split: if_splits)
  next
    case False
    with LayoutSplit.prems have *: "(case find_parent_split f g of Some (p, b) \<Rightarrow> Some (True # p, b)
        | None \<Rightarrow> map_option (\<lambda>(p, b). (False # p, b)) (find_parent_split s g)) = Some (p, b)" by simp
    show ?thesis
    proof (cases "find_parent_split f g")
      case None
      with * obtain q where q: "find_parent_split s g = Some (q, b)" "p = False # q" by auto
      from LayoutSplit.IH(2) [OF q(1)] q(2) show ?thesis by simp
    next
      case (Some qb)
      with * obtain q where q: "find_parent_split f g = Some (q, b)" "p = True # q" by (cases qb) auto
      from LayoutSplit.IH(1) [OF q(1)] q(2) show ?thesis by simp
    qed
  qed
qed simp

lemma find_parent_exists: "find_parent_split t g = None \<Longrightarrow> g \<in> set (get_all_group_ids t) \<Longrightarrow> t = LayoutLeaf g"
proof (induction t)
  case (LayoutSplit i d r f s)
  have neq: "f \<noteq> LayoutLeaf g" "s \<noteq> LayoutLeaf g" using LayoutSplit.prems(1) by (auto split: if_splits)
  have f: "find_parent_split f g = None"
  proof (rule ccontr)
    assume "find_parent_split f g \<noteq> None"
    then obtain q b where "find_parent_split f g = Some (q, b)" by fastforce
    with LayoutSplit.prems(1) neq show False by simp
  qed
  then have "find_parent_split s g = None" using LayoutSplit.prems(1) neq by simp
  with f LayoutSplit.IH LayoutSplit.prems(2) neq show ?case by auto
qed simp

lemma replaced_ids:
  "node_at t p = Some u \<Longrightarrow> mset (get_all_group_ids (find_and_replace t p v)) + mset (get_all_group_ids u) = mset (get_all_group_ids t) + mset (get_all_group_ids v)"
proof (induction t p arbitrary: u rule: node_at.induct)
  case (3 i d r f s b p)
  then show ?case by (cases b) (auto simp: ac_simps)
qed simp_all

lemma mset_Cons_facts:
  assumes "mset xs = mset (x # ys)"
  shows "set xs = insert x (set ys)" and "distinct xs \<longleftrightarrow> x \<notin> set ys \<and> distinct ys"
  using mset_eq_setD [OF assms] mset_eq_imp_distinct_iff [OF assms] by simp_all

text \<open>Splitting a leaf adds one group, closing a group removes one.\<close>

lemma split_ids:
  assumes "find_leaf t g = Some p" and "v \<in> {LayoutSplit i d r (LayoutLeaf g) (LayoutLeaf h), LayoutSplit i d r (LayoutLeaf h) (LayoutLeaf g)}"
  shows "mset (get_all_group_ids (find_and_replace t p v)) = mset (h # get_all_group_ids t)"
  using replaced_ids [OF find_leaf_at [OF assms(1)], of v] assms(2) by auto

lemma close_ids:
  assumes "find_parent_split t g = Some (p, b)"
  shows "\<exists>u. node_at t (p @ [\<not> b]) = Some u \<and> mset (get_all_group_ids t) = mset (g # get_all_group_ids (find_and_replace t p u))"
proof -
  obtain i d r f s where n: "node_at t p = Some (LayoutSplit i d r f s)" "(if b then f else s) = LayoutLeaf g"
    using find_parent_at [OF assms] by blast
  have "node_at t (p @ [\<not> b]) = Some (if b then s else f)" by (simp add: node_at_append n(1))
  moreover have "mset (get_all_group_ids t) = mset (g # get_all_group_ids (find_and_replace t p (if b then s else f)))"
    using replaced_ids [OF n(1), of "if b then s else f"] n(2) by (cases b) auto
  ultimately show ?thesis by blast
qed

lemma ratio_ids:
  assumes "node_at t p = Some (LayoutSplit i d r f s)"
  shows "mset (get_all_group_ids (find_and_replace t p (LayoutSplit i d r' f s))) = mset (get_all_group_ids t)"
  using replaced_ids [OF assms, of "LayoutSplit i d r' f s"] by simp

section \<open>Arrays\<close>

lemma find_index_js: "js_nth xs (find_index P xs) = List.find P xs"
proof (induction xs)
  case (Cons x xs)
  have "find_index P xs \<ge> -1" by (induction xs) (auto simp: Let_def)
  then show ?case using Cons by (auto simp: js_nth_def Let_def nat_add_distrib split: if_splits)
qed (simp add: js_nth_def)

lemma js_nth_set: "js_nth xs i = Some x \<Longrightarrow> x \<in> set xs"
  by (auto simp: js_nth_def split: if_splits)

lemma set_splice_insert [simp]: "set (splice_insert i x xs) = insert x (set xs)"
  by (simp add: splice_insert_def) (metis append_take_drop_id set_append)

lemma mset_splice_insert: "mset (splice_insert i x xs) = add_mset x (mset xs)"
  by (simp add: splice_insert_def) (metis append_take_drop_id mset_append)

lemma mset_splice_remove:
  assumes "js_nth xs i = Some x"
  shows "add_mset x (mset (splice_remove i xs)) = mset xs"
proof -
  have n: "nat i < length xs" "xs ! nat i = x" "splice_start i xs = nat i"
    using assms by (auto simp: js_nth_def splice_start_def split: if_splits)
  have "xs = take (nat i) xs @ x # drop (Suc (nat i)) xs" using id_take_nth_drop [OF n(1)] n(2) by simp
  then have "mset xs = mset (take (nat i) xs @ x # drop (Suc (nat i)) xs)" by simp
  then show ?thesis by (simp add: splice_remove_def n(3))
qed

section \<open>The invariant\<close>

definition instance_ids :: "panel_group \<Rightarrow> string set" where
  "instance_ids G = pi_id ` set (pg_instances G)"

definition group_ok :: "panel_group \<Rightarrow> bool" where
  "group_ok G \<longleftrightarrow> distinct (map pi_id (pg_instances G)) \<and>
     (case pg_active G of None \<Rightarrow> pg_instances G = [] | Some i \<Rightarrow> i \<in> instance_ids G)"

definition groups_ok :: "(string \<Rightarrow> panel_group option) \<Rightarrow> bool" where
  "groups_ok M \<longleftrightarrow> (\<forall>g G. M g = Some G \<longrightarrow> pg_id G = g \<and> group_ok G)
     \<and> (\<forall>g G h H. M g = Some G \<longrightarrow> M h = Some H \<longrightarrow> g \<noteq> h \<longrightarrow> instance_ids G \<inter> instance_ids H = {})"

text \<open>The identifiers in use are no future ones, and none is empty.\<close>

definition used_ids :: "(string \<Rightarrow> panel_group option) \<Rightarrow> string set" where
  "used_ids M = dom M \<union> {i. \<exists>g G. M g = Some G \<and> i \<in> instance_ids G}"

definition fresh_ids :: "panel_env \<Rightarrow> nat \<Rightarrow> (string \<Rightarrow> panel_group option) \<Rightarrow> bool" where
  "fresh_ids env n M \<longleftrightarrow> (\<forall>x \<in> used_ids M. x \<noteq> [] \<and> (\<forall>k \<ge> n. pe_nanoid env k \<noteq> x))"

definition nanoid_ok :: "panel_env \<Rightarrow> bool" where
  "nanoid_ok env \<longleftrightarrow> inj (pe_nanoid env) \<and> (\<forall>k. pe_nanoid env k \<noteq> [])"

text \<open>The layout shows the groups, each once, and the active group is one of them.\<close>

definition layout_ok :: "string set \<Rightarrow> layout_node option \<Rightarrow> string option \<Rightarrow> bool" where
  "layout_ok D t a \<longleftrightarrow> (case t of
       None \<Rightarrow> D = {} \<and> a = None
     | Some t \<Rightarrow> distinct (get_all_group_ids t) \<and> set (get_all_group_ids t) = D \<and> (\<exists>g \<in> D. a = Some g))"

definition panels_ok :: "panel_env \<Rightarrow> panel_store \<Rightarrow> bool" where
  "panels_ok env s \<longleftrightarrow> distinct (rkeys (ws_groups s)) \<and> groups_ok (rget (ws_groups s))
     \<and> fresh_ids env (ps_drawn s) (rget (ws_groups s)) \<and> layout_ok (dom (rget (ws_groups s))) (ws_layout s) (ws_active s)"

text \<open>
  What a subscriber knows: the groups with their active panels, and the panels of each group in their
  order. A move is applied the way its index is meant: the panel leaves its row and is spliced into the
  row of its new group, which may be the same one.
\<close>

type_synonym panel_view = "(string \<Rightarrow> string option option) \<times> (string \<Rightarrow> string list)"

fun observe :: "panel_event \<Rightarrow> panel_view \<Rightarrow> panel_view" where
  "observe (PanelOpened i g d) (A, P) = (A, P(g := P g @ [i]))"
| "observe (PanelClosed i g) (A, P) = (A, P(g := filter (\<lambda>x. x \<noteq> i) (P g)))"
| "observe (PanelActivated i g) (A, P) = (A(g \<mapsto> Some i), P)"
| "observe (PanelDeactivated i g) (A, P) = (A(g \<mapsto> None), P)"
| "observe (GroupCreated g) (A, P) = (A(g \<mapsto> None), P)"
| "observe (GroupClosed g) (A, P) = (A(g := None), P(g := []))"
| "observe (GroupActivated g) V = V"
| "observe (PanelMoved i f t k) (A, P) =
     (let Q = P(f := filter (\<lambda>x. x \<noteq> i) (P f)) in (A, Q(t := splice_insert k i (Q t))))"

definition panel_names :: "panel_group \<Rightarrow> string list" where
  "panel_names G = map pi_id (pg_instances G)"

definition view_of :: "(string \<Rightarrow> panel_group option) \<Rightarrow> panel_view" where
  "view_of M = (\<lambda>g. map_option pg_active (M g), \<lambda>g. case M g of None \<Rightarrow> [] | Some G \<Rightarrow> panel_names G)"

definition seen :: "panel_view \<Rightarrow> panel_store \<Rightarrow> panel_view" where
  "seen V s = fold observe (ps_log s) V"

definition tracked :: "panel_view \<Rightarrow> panel_store \<Rightarrow> bool" where
  "tracked V s \<longleftrightarrow> seen V s = view_of (rget (ws_groups s))"

subsection \<open>Small steps\<close>

lemma emit_fields [simp]:
  "ws_groups (emit e s) = ws_groups s" "ws_layout (emit e s) = ws_layout s" "ws_active (emit e s) = ws_active s"
  "ps_drawn (emit e s) = ps_drawn s" "ps_definitions (emit e s) = ps_definitions s" "seen V (emit e s) = observe e (seen V s)"
  by (simp_all add: emit_def seen_def)

lemma emit_if_fields [simp]:
  "ws_groups (emit_if b e s) = ws_groups s" "ws_layout (emit_if b e s) = ws_layout s" "ws_active (emit_if b e s) = ws_active s"
  "ps_drawn (emit_if b e s) = ps_drawn s" "ps_definitions (emit_if b e s) = ps_definitions s"
  "seen V (emit_if b e s) = (if b then observe e (seen V s) else seen V s)"
  by (simp_all add: emit_if_def)

lemma set_group_fields [simp]:
  "ws_groups (set_group g G s) = rset g G (ws_groups s)" "ws_layout (set_group g G s) = ws_layout s" "ws_active (set_group g G s) = ws_active s"
  "ps_drawn (set_group g G s) = ps_drawn s" "ps_definitions (set_group g G s) = ps_definitions s" "seen V (set_group g G s) = seen V s"
  by (simp_all add: set_group_def seen_def)

lemma seen_updates [simp]:
  "seen V (s\<lparr>ws_groups := a\<rparr>) = seen V s" "seen V (s\<lparr>ws_layout := b\<rparr>) = seen V s" "seen V (s\<lparr>ws_active := c\<rparr>) = seen V s"
  "seen V (s\<lparr>ps_drawn := n\<rparr>) = seen V s" "seen V (s\<lparr>ps_definitions := ds\<rparr>) = seen V s" "seen V (s\<lparr>ps_asked := q\<rparr>) = seen V s"
  by (simp_all add: seen_def)

lemma groups_okD:
  assumes "groups_ok M" and "M g = Some G"
  shows "pg_id G = g" "distinct (map pi_id (pg_instances G))"
    and "(pg_active G = None \<and> pg_instances G = []) \<or> (\<exists>i \<in> instance_ids G. pg_active G = Some i)"
    and "M h = Some H \<Longrightarrow> g \<noteq> h \<Longrightarrow> i \<in> instance_ids G \<Longrightarrow> i \<notin> instance_ids H"
proof -
  from assms have "pg_id G = g \<and> group_ok G" by (simp add: groups_ok_def)
  then show "pg_id G = g" "distinct (map pi_id (pg_instances G))"
    "(pg_active G = None \<and> pg_instances G = []) \<or> (\<exists>i \<in> instance_ids G. pg_active G = Some i)"
    by (auto simp: group_ok_def split: option.splits)
  show "M h = Some H \<Longrightarrow> g \<noteq> h \<Longrightarrow> i \<in> instance_ids G \<Longrightarrow> i \<notin> instance_ids H"
    using assms unfolding groups_ok_def by blast
qed

lemma groups_ok_update:
  assumes "groups_ok M" and "pg_id G = g" and "group_ok G"
    and "\<And>h H. M h = Some H \<Longrightarrow> h \<noteq> g \<Longrightarrow> instance_ids G \<inter> instance_ids H = {}"
  shows "groups_ok (M(g \<mapsto> G))"
  unfolding groups_ok_def
proof (intro conjI allI impI)
  fix h H assume "(M(g \<mapsto> G)) h = Some H"
  with assms(1-3) show "pg_id H = h" "group_ok H" by (auto simp: groups_ok_def split: if_splits)
next
  fix h H k K assume "(M(g \<mapsto> G)) h = Some H" "(M(g \<mapsto> G)) k = Some K" "h \<noteq> k"
  moreover have "M h = Some H \<Longrightarrow> M k = Some K \<Longrightarrow> instance_ids H \<inter> instance_ids K = {}"
    using assms(1) \<open>h \<noteq> k\<close> unfolding groups_ok_def by blast
  ultimately show "instance_ids H \<inter> instance_ids K = {}"
    using assms(4) [of h H] assms(4) [of k K] by (auto split: if_splits)
qed

text \<open>A group whose panels are among those it had.\<close>

lemma groups_ok_shrink:
  assumes "groups_ok M" and "M g = Some G" and "pg_id G' = g" and "group_ok G'" and "instance_ids G' \<subseteq> instance_ids G"
  shows "groups_ok (M(g \<mapsto> G'))"
  using groups_ok_update [OF assms(1,3,4)] groups_okD(4) [OF assms(1,2)] assms(5) by blast

lemma groups_ok_delete: "groups_ok M \<Longrightarrow> groups_ok (M(g := None))"
  unfolding groups_ok_def by (simp split: if_splits)

lemma fresh_ids_update:
  assumes "fresh_ids env n M" and "\<And>x. x \<in> insert g (instance_ids G) \<Longrightarrow> x \<in> used_ids M \<or> (x \<noteq> [] \<and> (\<forall>k \<ge> m. pe_nanoid env k \<noteq> x))" and "n \<le> m"
  shows "fresh_ids env m (M(g \<mapsto> G))"
proof -
  have "x \<in> used_ids M \<or> x \<in> insert g (instance_ids G)" if "x \<in> used_ids (M(g \<mapsto> G))" for x
    using that by (auto simp: used_ids_def split: if_splits)
  then show ?thesis using assms unfolding fresh_ids_def by (meson le_trans)
qed

lemma fresh_ids_delete: "fresh_ids env n M \<Longrightarrow> fresh_ids env n (M(g := None))"
  unfolding fresh_ids_def used_ids_def by (auto split: if_splits)

lemma used_group: "M g = Some G \<Longrightarrow> x \<in> insert g (instance_ids G) \<Longrightarrow> x \<in> used_ids M"
  unfolding used_ids_def by blast

text \<open>An identifier in use is true as a string.\<close>

lemma fresh_ids_truthy: "fresh_ids env n M \<Longrightarrow> x \<in> used_ids M \<Longrightarrow> is_truthy (Some x)"
  by (simp add: fresh_ids_def is_truthy_def)

lemma drawn_unused: "fresh_ids env n M \<Longrightarrow> n \<le> k \<Longrightarrow> pe_nanoid env k \<notin> used_ids M"
  by (auto simp: fresh_ids_def)

lemma nanoid_okD: "nanoid_ok env \<Longrightarrow> pe_nanoid env k \<noteq> []" "nanoid_ok env \<Longrightarrow> pe_nanoid env k = pe_nanoid env j \<longleftrightarrow> k = j"
  by (auto simp: nanoid_ok_def inj_def)

subsection \<open>Closing a group\<close>

lemma close_group_effect:
  assumes "ws_layout s = Some t" and "layout_ok D (ws_layout s) (ws_active s)" and "g \<in> D"
  shows "\<exists>t' a'. close_group g s = emit (GroupClosed g) (s\<lparr>ws_groups := rdel g (ws_groups s), ws_layout := t', ws_active := a'\<rparr>)
    \<and> layout_ok (D - {g}) t' a'"
proof -
  from assms obtain h where t: "distinct (get_all_group_ids t)" "set (get_all_group_ids t) = D" "h \<in> D" "ws_active s = Some h"
    by (auto simp: layout_ok_def)
  show ?thesis
  proof (cases t)
    case (LayoutLeaf k)
    with t assms(3) have "D = {g}" by auto
    with LayoutLeaf assms(1) show ?thesis
      by (intro exI [of _ None]) (simp add: close_group_def Let_def layout_ok_def)
  next
    case split: (LayoutSplit i d r f u)
    have "find_parent_split t g \<noteq> None" using find_parent_exists [of t g] t(2) assms(3) split by blast
    then obtain p b where pb: "find_parent_split t g = Some (p, b)" by (cases "find_parent_split t g") auto
    from close_ids [OF this] obtain w where w: "node_at t (p @ [\<not> b]) = Some w"
      "mset (get_all_group_ids t) = mset (g # get_all_group_ids (find_and_replace t p w))" by blast
    define t' where "t' = find_and_replace t p w"
    have ids: "set (get_all_group_ids t') = D - {g}" "distinct (get_all_group_ids t')"
      using mset_Cons_facts [OF w(2)] t(1,2) by (auto simp: t'_def)
    have ne: "get_all_group_ids t' \<noteq> []" by simp
    define a' where "a' = (if h = g then js_nth (get_all_group_ids t') 0 else Some h)"
    have first: "js_nth (get_all_group_ids t') 0 = Some (hd (get_all_group_ids t'))" "hd (get_all_group_ids t') \<in> D - {g}"
      using hd_in_set [OF ne] unfolding ids(1) by (simp_all add: js_nth_def hd_conv_nth)
    have "close_group g s = emit (GroupClosed g) (s\<lparr>ws_groups := rdel g (ws_groups s), ws_layout := Some t', ws_active := a'\<rparr>)"
    proof -
      have sel: "(case t of LayoutLeaf k \<Rightarrow> A k | LayoutSplit _ _ _ _ _ \<Rightarrow> B) = B" for A and B :: panel_store
        using split by simp
      show ?thesis
        unfolding close_group_def assms(1) option.case Let_def sel pb prod.case w(1) t'_def [symmetric]
        using t(4) by (cases "h = g") (simp_all add: a'_def emit_def)
    qed
    moreover have "layout_ok (D - {g}) (Some t') a'" using ids first t(3) by (auto simp: layout_ok_def a'_def)
    ultimately show ?thesis by blast
  qed
qed

definition good :: "panel_env \<Rightarrow> panel_view \<Rightarrow> panel_store \<Rightarrow> bool" where
  "good env V s \<longleftrightarrow> panels_ok env s \<and> tracked V s"

lemma observe_closed: "observe (GroupClosed g) (view_of M) = view_of (M(g := None))"
  by (auto simp: view_of_def fun_eq_iff)

lemma good_close_group:
  assumes "good env V s" and "rget (ws_groups s) g \<noteq> None"
  shows "good env V (close_group g s)"
proof -
  from assms have L: "layout_ok (dom (rget (ws_groups s))) (ws_layout s) (ws_active s)" and g: "g \<in> dom (rget (ws_groups s))"
    by (auto simp: good_def panels_ok_def)
  then obtain t where "ws_layout s = Some t" by (cases "ws_layout s") (auto simp: layout_ok_def)
  from close_group_effect [OF this L g] obtain t' a' where
    c: "close_group g s = emit (GroupClosed g) (s\<lparr>ws_groups := rdel g (ws_groups s), ws_layout := t', ws_active := a'\<rparr>)"
    "layout_ok (dom (rget (ws_groups s)) - {g}) t' a'" by blast
  have "dom ((rget (ws_groups s))(g := None)) = dom (rget (ws_groups s)) - {g}" by auto
  with assms(1) c show ?thesis
    by (simp add: good_def panels_ok_def tracked_def observe_closed groups_ok_delete fresh_ids_delete)
qed

subsection \<open>Changing one group\<close>

definition rows_ok :: "panel_env \<Rightarrow> nat \<Rightarrow> panel_group rec \<Rightarrow> bool" where
  "rows_ok env n gs \<longleftrightarrow> distinct (rkeys gs) \<and> groups_ok (rget gs) \<and> fresh_ids env n (rget gs)"

lemma panels_ok_rows:
  "panels_ok env s \<longleftrightarrow> rows_ok env (ps_drawn s) (ws_groups s) \<and> layout_ok (dom (rget (ws_groups s))) (ws_layout s) (ws_active s)"
  by (auto simp: panels_ok_def rows_ok_def)

definition new_ids :: "panel_env \<Rightarrow> nat \<Rightarrow> panel_group rec \<Rightarrow> string set \<Rightarrow> bool" where
  "new_ids env m gs X \<longleftrightarrow> (\<forall>x \<in> X. x \<noteq> [] \<and> (\<forall>h H. rget gs h = Some H \<longrightarrow> x \<notin> instance_ids H) \<and> (\<forall>k \<ge> m. pe_nanoid env k \<noteq> x))"

definition row_ids :: "panel_group option \<Rightarrow> string set" where
  "row_ids G = (case G of None \<Rightarrow> {} | Some G \<Rightarrow> instance_ids G)"

lemma rows_ok_set:
  assumes rows: "rows_ok env n gs" and "pg_id G' = g" and "group_ok G'" and ids: "instance_ids G' \<subseteq> row_ids (rget gs g) \<union> X"
    and new: "new_ids env m gs X" and g: "rget gs g \<noteq> None \<or> new_ids env m gs {g}" and "n \<le> m"
  shows "rows_ok env m (rset g G' gs)"
proof -
  have old: "x \<in> used_ids (rget gs)" if "x \<in> row_ids (rget gs h)" for x h
    using that by (auto simp: row_ids_def used_ids_def split: option.splits)
  have "instance_ids G' \<inter> instance_ids H = {}" if H: "rget gs h = Some H" "h \<noteq> g" for h H
  proof -
    have "x \<notin> row_ids (rget gs g)" if "x \<in> instance_ids H" for x
      using groups_okD(4) [of "rget gs" g _ h H x] H rows that by (auto simp: rows_ok_def row_ids_def split: option.splits)
    moreover have "x \<notin> X" if "x \<in> instance_ids H" for x
      using new H(1) that unfolding new_ids_def by blast
    ultimately show ?thesis using ids by blast
  qed
  then have "groups_ok ((rget gs)(g \<mapsto> G'))" using rows assms(2,3) by (intro groups_ok_update) (simp_all add: rows_ok_def)
  moreover have "fresh_ids env m ((rget gs)(g \<mapsto> G'))"
  proof (rule fresh_ids_update [OF _ _ \<open>n \<le> m\<close>])
    show "fresh_ids env n (rget gs)" using rows by (simp add: rows_ok_def)
    fix x assume "x \<in> insert g (instance_ids G')"
    then consider "x = g" | "x \<in> row_ids (rget gs g)" | "x \<in> X" using ids by blast
    then show "x \<in> used_ids (rget gs) \<or> (x \<noteq> [] \<and> (\<forall>k \<ge> m. pe_nanoid env k \<noteq> x))"
    proof cases
      case 1
      then show ?thesis using g by (auto simp: new_ids_def used_ids_def)
    next
      case 2
      then show ?thesis using old by blast
    next
      case 3
      then show ?thesis using new by (auto simp: new_ids_def)
    qed
  qed
  ultimately show ?thesis using rows by (simp add: rows_ok_def)
qed

text \<open>An existing group that gains no panel, and the identifiers drawn next.\<close>

lemma rows_ok_keep:
  assumes "rows_ok env n gs" and "rget gs g = Some G" and "pg_id G' = g" and "group_ok G'" and "instance_ids G' \<subseteq> instance_ids G"
  shows "rows_ok env n (rset g G' gs)"
  using rows_ok_set [OF assms(1,3,4), of "{}" n] assms(2,5) by (simp add: row_ids_def new_ids_def)

lemma new_ids_drawn:
  assumes "nanoid_ok env" and "rows_ok env n gs" and "n \<le> k" and "k < m"
  shows "new_ids env m gs {pe_nanoid env k}"
proof -
  have "pe_nanoid env k \<notin> used_ids (rget gs)" using drawn_unused [of env n "rget gs" k] assms(2,3) by (simp add: rows_ok_def)
  then show ?thesis using nanoid_okD [OF assms(1)] assms(4) unfolding new_ids_def used_ids_def by auto
qed

lemma rows_ok_later: "rows_ok env n gs \<Longrightarrow> n \<le> m \<Longrightarrow> rows_ok env m gs"
  unfolding rows_ok_def fresh_ids_def by (meson le_trans)

lemma rows_okD:
  assumes "rows_ok env n gs" and "rget gs g = Some G"
  shows "pg_id G = g" "distinct (map pi_id (pg_instances G))" "group_ok G" "g \<noteq> []"
    and "x \<in> instance_ids G \<Longrightarrow> x \<noteq> []" and "pg_active G = Some x \<Longrightarrow> x \<noteq> [] \<and> x \<in> instance_ids G"
    and "rget gs h = Some H \<Longrightarrow> g \<noteq> h \<Longrightarrow> x \<in> instance_ids G \<Longrightarrow> x \<notin> instance_ids H"
proof -
  have M: "groups_ok (rget gs)" and F: "fresh_ids env n (rget gs)" using assms(1) by (simp_all add: rows_ok_def)
  show "pg_id G = g" "distinct (map pi_id (pg_instances G))" using groups_okD [OF M assms(2)] by simp_all
  show ok: "group_ok G" using M assms(2) by (simp add: groups_ok_def)
  show "g \<noteq> []" using F used_group [of "rget gs" g G g] assms(2) by (simp add: fresh_ids_def)
  show ne: "x \<in> instance_ids G \<Longrightarrow> x \<noteq> []" for x using F used_group [of "rget gs" g G x] assms(2) by (simp add: fresh_ids_def)
  show "pg_active G = Some x \<Longrightarrow> x \<noteq> [] \<and> x \<in> instance_ids G" using ok ne by (auto simp: group_ok_def)
  show "rget gs h = Some H \<Longrightarrow> g \<noteq> h \<Longrightarrow> x \<in> instance_ids G \<Longrightarrow> x \<notin> instance_ids H" using groups_okD(4) [of "rget gs" g G h H x] M assms(2) by blast
qed

lemma goodI:
  "rows_ok env (ps_drawn s) (ws_groups s) \<Longrightarrow> layout_ok (dom (rget (ws_groups s))) (ws_layout s) (ws_active s) \<Longrightarrow>
     seen V s = view_of (rget (ws_groups s)) \<Longrightarrow> good env V s"
  by (simp add: good_def panels_ok_rows tracked_def)

lemma goodD:
  assumes "good env V s"
  shows "rows_ok env (ps_drawn s) (ws_groups s)" "layout_ok (dom (rget (ws_groups s))) (ws_layout s) (ws_active s)"
    "seen V s = view_of (rget (ws_groups s))"
  using assms by (simp_all add: good_def panels_ok_rows tracked_def)

lemma dom_update_same: "M g = Some G \<Longrightarrow> insert g (dom M) = dom M"
  by auto

subsection \<open>The operations\<close>

lemma good_activate_group:
  assumes "good env V s" and "rget (ws_groups s) g \<noteq> None"
  shows "good env V (activate_group g s)"
proof (cases "ws_active s = Some g")
  case False
  have "layout_ok (dom (rget (ws_groups s))) (ws_layout s) (Some g)"
    using goodD(2) [OF assms(1)] assms(2) by (auto simp: layout_ok_def split: option.splits)
  with goodD [OF assms(1)] False show ?thesis by (intro goodI) (simp_all add: activate_group_def)
qed (use assms(1) in \<open>simp add: activate_group_def\<close>)

lemma view_update: "view_of (M(g \<mapsto> G)) = ((fst (view_of M))(g \<mapsto> pg_active G), (snd (view_of M))(g := panel_names G))"
  by (auto simp: view_of_def fun_eq_iff)

lemma view_at: "M g = Some G \<Longrightarrow> snd (view_of M) g = panel_names G" "M g = None \<Longrightarrow> snd (view_of M) g = []"
  by (simp_all add: view_of_def)

lemma view_active: "M g = Some G \<Longrightarrow> pg_instances G' = pg_instances G \<Longrightarrow>
   view_of (M(g \<mapsto> G')) = ((fst (view_of M))(g \<mapsto> pg_active G'), snd (view_of M))"
  unfolding view_update by (auto simp: view_of_def panel_names_def)

lemma good_activate_panel:
  assumes "good env V s" and "\<And>G. rget (ws_groups s) g = Some G \<Longrightarrow> i \<in> instance_ids G"
  shows "good env V (activate_panel i g s)"
proof (cases "rget (ws_groups s) g")
  case None
  then show ?thesis using assms(1) by (simp add: activate_panel_def)
next
  case (Some G)
  show ?thesis
  proof (cases "pg_active G = Some i")
    case True
    then show ?thesis using assms(1) Some by (simp add: activate_panel_def)
  next
    case False
    let ?G = "G\<lparr>pg_active := Some i\<rparr>"
    note r = goodD [OF assms(1)]
    have "group_ok ?G" using rows_okD(3) [OF r(1) Some] assms(2) [OF Some] by (simp add: group_ok_def instance_ids_def)
    then have "rows_ok env (ps_drawn s) (rset g ?G (ws_groups s))"
      using rows_okD(1) [OF r(1) Some] by (intro rows_ok_keep [OF r(1) Some]) (simp_all add: instance_ids_def)
    moreover have "seen V (activate_panel i g s) = view_of ((rget (ws_groups s))(g \<mapsto> ?G))"
      using Some False r(3) view_active [of "rget (ws_groups s)" g G ?G]
      by (cases "view_of (rget (ws_groups s))") (simp add: activate_panel_def)
    ultimately show ?thesis
      using Some False r(2) by (intro goodI) (simp_all add: activate_panel_def dom_update_same)
  qed
qed

text \<open>Opening a panel. A group named as the target must exist.\<close>

lemma find_in: "List.find P xs = Some x \<Longrightarrow> x \<in> set xs \<and> P x"
  by (induction xs) (auto split: if_splits)

lemma find_duplicate_in:
  "find_duplicate gs d p = Some (g, i) \<Longrightarrow> \<exists>G. (g, G) \<in> set gs \<and> i \<in> set (pg_instances G)"
proof (induction gs d p rule: find_duplicate.induct)
  case (2 h H gs d p)
  show ?case
  proof (cases "List.find (\<lambda>i. pi_definition i = d \<and> p i) (pg_instances H)")
    case None
    with 2 show ?thesis by auto
  next
    case (Some x)
    with 2(2) find_in [OF Some] show ?thesis by auto
  qed
qed simp

lemma good_open_new:
  assumes env: "nanoid_ok env" and good: "good env V s" and target: "\<And>g. target = Some g \<Longrightarrow> rget (ws_groups s) g \<noteq> None"
  shows "good env V (snd (open_new_panel env def props title target s))"
proof -
  note r = goodD [OF good]
  define gid where "gid = (case target of Some g \<Rightarrow> Some g | None \<Rightarrow> ws_active s)"
  define n where "n = ps_drawn s"
  define iid where "iid = pe_nanoid env n"
  obtain inst where inst: "pi_id inst = iid" "snd (open_new_panel env def props title target s) = snd (open_new_panel env def props title target s)"
    "inst = \<lparr>pi_id = iid, pi_definition = pd_id def, pi_title = (case title of Some t \<Rightarrow> t | None \<Rightarrow> read_label env (pd_title def)), pi_props = props\<rparr>"
    by simp
  have new: "new_ids env (Suc n) (ws_groups s) {iid}" "new_ids env (Suc (Suc n)) (ws_groups s) {iid}"
    "new_ids env (Suc (Suc n)) (ws_groups s) {pe_nanoid env (Suc n)}"
    using new_ids_drawn [OF env r(1)] by (simp_all add: n_def iid_def)
  show ?thesis
  proof (cases "ws_layout s")
    case None
    then have none: "ws_groups s = []" "gid = None"
      using r(2) target by (cases target; auto simp: layout_ok_def gid_def)+
    define g where "g = pe_nanoid env (Suc n)"
    let ?G = "\<lparr>pg_id = g, pg_instances = [inst], pg_active = Some iid\<rparr>"
    have "rows_ok env (Suc (Suc n)) (rset g ?G (ws_groups s))"
      by (rule rows_ok_set [OF r(1), of _ _ "{iid}"]) (use new inst n_def none in \<open>simp_all add: group_ok_def instance_ids_def g_def\<close>)
    moreover have "seen V s = (Map.empty, \<lambda>_. [])" using r(3) none by (simp add: view_of_def)
    ultimately show ?thesis using none inst unfolding open_new_panel_def Let_def new_id_def prod.case gid_def [symmetric]
      by (intro goodI, simp_all add: is_truthy_def n_def g_def iid_def layout_ok_def view_of_def panel_names_def fun_eq_iff)
  next
    case (Some t)
    then obtain g G where g: "gid = Some g" "rget (ws_groups s) g = Some G"
      using r(2) target by (cases target) (auto simp: layout_ok_def gid_def)
    have t: "is_truthy (Some g)" using rows_okD(4) [OF r(1) g(2)] by (simp add: is_truthy_def)
    let ?G = "G\<lparr>pg_instances := pg_instances G @ [inst], pg_active := Some iid\<rparr>"
    have ids: "instance_ids ?G = insert iid (instance_ids G)" using inst by (auto simp: instance_ids_def)
    have "iid \<notin> instance_ids G" using new(1) g(2) by (auto simp: new_ids_def)
    then have "group_ok ?G" using rows_okD(2) [OF r(1) g(2)] inst by (simp add: group_ok_def instance_ids_def)
    then have "rows_ok env (Suc n) (rset g ?G (ws_groups s))"
      using rows_ok_set [OF r(1), of ?G g "{iid}" "Suc n"] new(1) g(2) rows_okD(1) [OF r(1) g(2)] ids by (auto simp: row_ids_def n_def)
    moreover have "view_of ((rget (ws_groups s))(g \<mapsto> ?G)) = ((fst (seen V s))(g \<mapsto> Some iid), (snd (seen V s))(g := snd (seen V s) g @ [iid]))"
      using inst(1) unfolding view_update by (simp add: r(3) view_at(1) [of "rget (ws_groups s)", OF g(2)] panel_names_def)
    ultimately show ?thesis
      using g t r(2) inst unfolding open_new_panel_def Let_def new_id_def prod.case gid_def [symmetric]
      by (cases "seen V s") (intro goodI, simp_all add: n_def iid_def dom_update_same)
  qed
qed

lemma good_open_panel:
  assumes "nanoid_ok env" and "good env V s" and "\<And>g. target = Some g \<Longrightarrow> rget (ws_groups s) g \<noteq> None"
  shows "good env V (snd (open_panel env d props title target dedupe s))"
proof (cases "get_definition s d")
  case None
  then show ?thesis using assms(2) by (simp add: open_panel_def)
next
  case (Some def)
  define hit where "hit = (case dedupe of None \<Rightarrow> None | Some p \<Rightarrow> find_duplicate (ws_groups s) d p)"
  show ?thesis
  proof (cases hit)
    case None
    have "good env V (snd (open_new_panel env def props title target s))" by (rule good_open_new [OF assms])
    with None Some show ?thesis
      by (cases "open_new_panel env def props title target s") (simp add: open_panel_def hit_def [symmetric])
  next
    case (Some gi)
    obtain g i where gi: "gi = (g, i)" by fastforce
    with Some obtain p where "find_duplicate (ws_groups s) d p = Some (g, i)" by (auto simp: hit_def split: option.splits)
    from find_duplicate_in [OF this] obtain G where G: "(g, G) \<in> set (ws_groups s)" "i \<in> set (pg_instances G)" by blast
    with goodD(1) [OF assms(2)] have at: "rget (ws_groups s) g = Some G" by (simp add: rows_ok_def)
    have "ws_groups (activate_group g s) = ws_groups s" by (simp add: activate_group_def)
    then have "good env V (activate_panel (pi_id i) g (activate_group g s))"
      using at G(2) good_activate_group [OF assms(2), of g] by (intro good_activate_panel) (simp_all add: instance_ids_def)
    with \<open>get_definition s d = Some def\<close> Some gi show ?thesis by (simp add: open_panel_def hit_def [symmetric])
  qed
qed

lemma good_retarget_panel:
  assumes "good env V s"
  shows "good env V (retarget_panel i g props title s)"
proof (cases "rget (ws_groups s) g")
  case None
  then show ?thesis using assms by (simp add: retarget_panel_def)
next
  case (Some G)
  let ?f = "\<lambda>x. if pi_id x = i then x\<lparr>pi_props := Some props, pi_title := title\<rparr> else x"
  let ?G = "G\<lparr>pg_instances := map ?f (pg_instances G)\<rparr>"
  note r = goodD [OF assms]
  have "pi_id (?f x) = pi_id x" for x by simp
  then have names: "map pi_id (pg_instances ?G) = map pi_id (pg_instances G)" by simp
  then have ids: "instance_ids ?G = instance_ids G" unfolding instance_ids_def set_map [symmetric] by simp
  have "group_ok ?G" using rows_okD(3) [OF r(1) Some] unfolding group_ok_def names ids by (simp split: option.splits)
  then have "rows_ok env (ps_drawn s) (rset g ?G (ws_groups s))"
    using rows_okD(1) [OF r(1) Some] ids by (intro rows_ok_keep [OF r(1) Some]) simp_all
  moreover have "view_of ((rget (ws_groups s))(g \<mapsto> ?G)) = view_of (rget (ws_groups s))"
    using Some names unfolding view_update panel_names_def by (auto simp: view_of_def panel_names_def fun_eq_iff)
  ultimately have "good env V (set_group g ?G s)" using Some r by (intro goodI) (simp_all add: dom_update_same)
  with Some assms show ?thesis by (simp add: retarget_panel_def)
qed

lemma names_without: "panel_names (G\<lparr>pg_instances := filter (\<lambda>x. pi_id x \<noteq> i) (pg_instances G), pg_active := a\<rparr>) = filter (\<lambda>x. x \<noteq> i) (panel_names G)"
  by (simp add: panel_names_def filter_map comp_def)

lemma removed_ids: "pi_id ` set (filter (\<lambda>x. pi_id x \<noteq> i) xs) = pi_id ` set xs - {i}"
  by auto

lemma names_kept: "panel_names (G\<lparr>pg_instances := filter (\<lambda>x. pi_id x \<noteq> i) (pg_instances G)\<rparr>) = filter (\<lambda>x. x \<noteq> i) (panel_names G)"
  by (simp add: panel_names_def filter_map comp_def)

text \<open>The neighbour that becomes active when a panel leaves its row.\<close>

lemma find_index_bounds: "i \<in> pi_id ` set xs \<Longrightarrow> 0 \<le> find_index (\<lambda>x. pi_id x = i) xs \<and> find_index (\<lambda>x. pi_id x = i) xs < int (length xs)
   \<and> pi_id (xs ! nat (find_index (\<lambda>x. pi_id x = i) xs)) = i"
  by (induction xs) (auto simp: Let_def nat_add_distrib)

lemma closing_neighbour:
  assumes "distinct (map pi_id xs)" and "i \<in> pi_id ` set xs" and "filter (\<lambda>x. pi_id x \<noteq> i) xs \<noteq> []"
  defines "k \<equiv> find_index (\<lambda>x. pi_id x = i) xs"
  shows "\<exists>y. or_else (js_nth xs (k + 1)) (js_nth xs (k - 1)) = Some y \<and> pi_id y \<in> pi_id ` set xs - {i}"
proof -
  have k: "0 \<le> k" "k < int (length xs)" "pi_id (xs ! nat k) = i" using find_index_bounds [OF assms(2)] by (simp_all add: k_def)
  have other: "pi_id (xs ! j) \<noteq> i" if "j < length xs" "j \<noteq> nat k" for j
    using nth_eq_iff_index_eq [OF assms(1), of j "nat k"] that k by auto
  show ?thesis
  proof (cases "k + 1 < int (length xs)")
    case True
    then have "js_nth xs (k + 1) = Some (xs ! nat (k + 1))" using k by (simp add: js_nth_def)
    moreover have "nat (k + 1) < length xs" "nat (k + 1) \<noteq> nat k" using True k by auto
    ultimately show ?thesis using other by (auto simp: or_else_def)
  next
    case False
    have "k \<noteq> 0"
    proof
      assume "k = 0"
      with False k(2) have "length xs = 1" by linarith
      then obtain x where "xs = [x]" by (cases xs) auto
      with k(3) \<open>k = 0\<close> assms(3) show False by simp
    qed
    then have "js_nth xs (k - 1) = Some (xs ! nat (k - 1))" "nat (k - 1) < length xs" "nat (k - 1) \<noteq> nat k" using k by (auto simp: js_nth_def)
    moreover have "js_nth xs (k + 1) = None" using False by (simp add: js_nth_def)
    ultimately show ?thesis using other by (auto simp: or_else_def)
  qed
qed

lemma view_same_active: "(fst (view_of M))(g \<mapsto> x, g \<mapsto> y) = (fst (view_of M))(g \<mapsto> y)"
  by simp

lemma good_close_panel:
  assumes good: "good env V s"
  shows "good env V (close_panel i g s)"
proof (cases "rget (ws_groups s) g")
  case None
  then show ?thesis using good by (simp add: close_panel_def)
next
  case (Some G)
  note r = goodD [OF good] and rG = rows_okD [OF goodD(1) [OF good] Some]
  define remaining where "remaining = filter (\<lambda>x. pi_id x \<noteq> i) (pg_instances G)"
  define active where "active \<longleftrightarrow> pg_active G = Some i"
  show ?thesis
  proof (cases "remaining = []")
    case True
    let ?s = "emit_if active (PanelDeactivated i g) s"
    let ?M = "rget (ws_groups s)"
    from r(2) Some obtain t where t: "ws_layout s = Some t" by (cases "ws_layout s") (auto simp: layout_ok_def)
    have "layout_ok (dom ?M) (ws_layout ?s) (ws_active ?s)" "ws_layout ?s = Some t" "g \<in> dom ?M" using r(2) t Some by auto
    from close_group_effect [OF this(2,1,3)] obtain t' a' where
      c: "close_group g ?s = emit (GroupClosed g) (?s\<lparr>ws_groups := rdel g (ws_groups s), ws_layout := t', ws_active := a'\<rparr>)"
      "layout_ok (dom ?M - {g}) t' a'" by auto
    have run: "close_panel i g s = emit (PanelClosed i g) (close_group g ?s)"
      using Some True by (simp add: close_panel_def Let_def remaining_def active_def)
    have "dom (?M(g := None)) = dom ?M - {g}" by auto
    moreover have "observe (PanelClosed i g) (observe (GroupClosed g) (if active then observe (PanelDeactivated i g) (view_of ?M) else view_of ?M)) = view_of (?M(g := None))"
    proof -
      have "(snd (view_of (?M(g := None))))(g := filter (\<lambda>x. x \<noteq> i) (snd (view_of (?M(g := None))) g)) = snd (view_of (?M(g := None)))"
        by (simp add: view_of_def fun_eq_iff)
      then have "observe (PanelClosed i g) (view_of (?M(g := None))) = view_of (?M(g := None))"
        by (cases "view_of (?M(g := None))") simp
      moreover have "observe (GroupClosed g) (observe (PanelDeactivated i g) (view_of ?M)) = observe (GroupClosed g) (view_of ?M)"
        by (cases "view_of ?M") simp
      ultimately show ?thesis by (simp only: observe_closed if_distrib [where f = "observe (GroupClosed g)"] if_cancel split: if_split)
    qed
    ultimately show ?thesis unfolding run c(1) using r(1,3) c(2)
      by (cases active; intro goodI; simp add: rows_ok_def groups_ok_delete fresh_ids_delete)
  next
    case False
    define k where "k = find_index (\<lambda>x. pi_id x = i) (pg_instances G)"
    define a where "a = (if active then map_option pi_id (or_else (js_nth (pg_instances G) (k + 1)) (js_nth (pg_instances G) (k - 1))) else pg_active G)"
    let ?G = "G\<lparr>pg_instances := remaining, pg_active := a\<rparr>"
    have ids: "instance_ids ?G = instance_ids G - {i}" using removed_ids [of i "pg_instances G"] by (simp add: instance_ids_def remaining_def)
    obtain y where y: "a = Some y" "y \<in> instance_ids G - {i}"
    proof (cases active)
      case True
      then have "i \<in> pi_id ` set (pg_instances G)" using rG(6) by (simp add: active_def instance_ids_def)
      from closing_neighbour [OF rG(2) this False [unfolded remaining_def]] that show ?thesis
        by (auto simp: a_def k_def True instance_ids_def)
    next
      case inactive: False
      have "pg_instances G \<noteq> []" using False by (auto simp: remaining_def)
      with rG(3) obtain y where "pg_active G = Some y" "y \<in> instance_ids G" by (auto simp: group_ok_def split: option.splits)
      with inactive that show ?thesis by (auto simp: a_def active_def)
    qed
    have "distinct (map pi_id remaining)" unfolding remaining_def using rG(2) by (rule distinct_map_filter)
    then have "group_ok ?G" using y ids by (simp add: group_ok_def)
    then have rows: "rows_ok env (ps_drawn s) (rset g ?G (ws_groups s))"
      using rG(1) ids by (intro rows_ok_keep [OF r(1) Some]) auto
    have ty: "is_truthy (Some y)" using y(2) rG(5) by (simp add: is_truthy_def)
    have run: "close_panel i g s = emit_if (active \<and> is_truthy a) (PanelActivated (the a) g) (emit (PanelClosed i g) (set_group g ?G (emit_if active (PanelDeactivated i g) s)))"
      using Some False by (simp add: close_panel_def Let_def remaining_def active_def a_def k_def)
    have view: "view_of ((rget (ws_groups s))(g \<mapsto> ?G)) = ((fst (seen V s))(g \<mapsto> a), (snd (seen V s))(g := filter (\<lambda>x. x \<noteq> i) (snd (seen V s) g)))"
      unfolding view_update remaining_def names_without by (simp add: r(3) view_at(1) [of "rget (ws_groups s)", OF Some])
    have "\<not> active \<Longrightarrow> (fst (seen V s))(g \<mapsto> a) = fst (seen V s)"
      using Some by (auto simp: r(3) view_of_def a_def fun_eq_iff)
    then have "seen V (close_panel i g s) = view_of ((rget (ws_groups s))(g \<mapsto> ?G))"
      unfolding run view using y(1) ty by (cases "seen V s"; cases active) simp_all
    then show ?thesis unfolding run using rows r(2) Some by (intro goodI) (simp_all add: dom_update_same)
  qed
qed

lemma good_request_close_panel:
  assumes "good env V s"
  shows "good env V (request_close_panel i g s)"
proof -
  have "good env V (s\<lparr>ps_asked := q\<rparr>)" for q using goodD [OF assms] by (intro goodI) simp_all
  then show ?thesis using good_close_panel [OF assms] by (simp add: request_close_panel_def split: option.split prop_value.split)
qed

subsection \<open>Splitting and moving\<close>

lemma rows_ok_cong: "rows_ok env n gs \<Longrightarrow> rget gs' = rget gs \<Longrightarrow> distinct (rkeys gs') \<Longrightarrow> rows_ok env n gs'"
  by (simp add: rows_ok_def)

lemma rows_ok_delete: "rows_ok env n gs \<Longrightarrow> rows_ok env n (rdel g gs)"
  by (simp add: rows_ok_def groups_ok_delete fresh_ids_delete)

text \<open>A new, empty group next to a leaf, whose identifier and split were drawn for it.\<close>

lemma good_add_group:
  assumes env: "nanoid_ok env" and good: "good env V s" and t: "ws_layout s = Some t" "find_leaf t g = Some p"
    and v: "v \<in> {LayoutSplit sid d q (LayoutLeaf g) (LayoutLeaf h), LayoutSplit sid d q (LayoutLeaf h) (LayoutLeaf g)}"
    and h: "h = pe_nanoid env (ps_drawn s)" and n: "n = Suc (Suc (ps_drawn s))" and a: "a = ws_active s \<or> a = Some h"
    and s': "ws_groups s' = rset h \<lparr>pg_id = h, pg_instances = [], pg_active = None\<rparr> (ws_groups s)"
      "ws_layout s' = Some (find_and_replace t p v)" "ws_active s' = a" "ps_drawn s' = n" "seen V s' = observe (GroupCreated h) (seen V s)"
  shows "good env V s'"
proof (rule goodI)
  note r = goodD [OF good]
  let ?G = "\<lparr>pg_id = h, pg_instances = [], pg_active = None\<rparr>"
  have new: "new_ids env n (ws_groups s) {h}" using new_ids_drawn [OF env r(1)] by (simp add: h n)
  have "rows_ok env n (rset h ?G (ws_groups s))"
    by (rule rows_ok_set [OF r(1), of _ _ "{}"]) (use new n in \<open>simp_all add: group_ok_def instance_ids_def new_ids_def\<close>)
  then show "rows_ok env (ps_drawn s') (ws_groups s')" by (simp add: s')
  have "mset (get_all_group_ids (find_and_replace t p v)) = mset (h # get_all_group_ids t)" using split_ids [OF t(2) v] .
  note ids = mset_Cons_facts [OF this]
  have "h \<notin> used_ids (rget (ws_groups s))" using r(1) drawn_unused [of env "ps_drawn s"] by (simp add: rows_ok_def h)
  then have none: "rget (ws_groups s) h = None" by (auto simp: used_ids_def)
  with r(2) t(1) ids a show "layout_ok (dom (rget (ws_groups s'))) (ws_layout s') (ws_active s')"
    by (auto simp: s' layout_ok_def)
  show "seen V s' = view_of (rget (ws_groups s'))"
    using none r(3) view_at(2) [of "rget (ws_groups s)" h]
    by (cases "view_of (rget (ws_groups s))") (auto simp: s' view_update panel_names_def)
qed

lemma good_split_group:
  assumes "nanoid_ok env" and "good env V s"
  shows "good env V (snd (split_group env g d s))"
proof (cases "ws_layout s")
  case None
  then show ?thesis using assms(2) by (simp add: split_group_def)
next
  case (Some t)
  show ?thesis
  proof (cases "find_leaf t g")
    case None
    then show ?thesis using assms(2) Some by (simp add: split_group_def)
  next
    case leaf: (Some p)
    show ?thesis
      by (rule good_add_group [OF assms Some leaf, of _ "pe_nanoid env (Suc (ps_drawn s))" d 500])
        (use Some leaf in \<open>simp_all add: split_group_def new_id_def Let_def\<close>)
  qed
qed

lemma good_set_ratio:
  assumes "good env V s"
  shows "good env V (set_ratio i q s)"
proof (cases "ws_layout s")
  case None
  then show ?thesis using assms by (simp add: set_ratio_def)
next
  case (Some t)
  show ?thesis
  proof (cases "find_split_by_id t i")
    case None
    then show ?thesis using assms Some by (simp add: set_ratio_def)
  next
    case split: (Some p)
    from find_split_at [OF this] obtain d r f u where n: "node_at t p = Some (LayoutSplit i d r f u)" by blast
    let ?t = "find_and_replace t p (LayoutSplit i d (clamp_ratio q) f u)"
    have "set (get_all_group_ids ?t) = set (get_all_group_ids t)" "distinct (get_all_group_ids ?t) = distinct (get_all_group_ids t)"
      using mset_eq_setD [OF ratio_ids [OF n]] mset_eq_imp_distinct_iff [OF ratio_ids [OF n]] by blast+
    with goodD [OF assms] Some have "good env V (s\<lparr>ws_layout := Some ?t\<rparr>)" by (intro goodI) (simp_all add: layout_ok_def)
    with Some split n show ?thesis by (simp add: set_ratio_def)
  qed
qed

text \<open>Taking a panel out by its place and by its name is the same.\<close>

lemma map_splice_insert: "map f (splice_insert k x xs) = splice_insert k (f x) (map f xs)"
  by (simp add: splice_insert_def splice_start_def take_map drop_map)

lemma names_of_removed:
  assumes "distinct (map pi_id xs)" and "js_nth xs k = Some x"
  shows "map pi_id (splice_remove k xs) = filter (\<lambda>y. y \<noteq> pi_id x) (map pi_id xs)"
proof -
  have n: "nat k < length xs" "xs ! nat k = x" "splice_start k xs = nat k"
    using assms(2) by (auto simp: js_nth_def splice_start_def split: if_splits)
  have xs: "map pi_id xs = map pi_id (take (nat k) xs) @ pi_id x # map pi_id (drop (Suc (nat k)) xs)"
    using id_take_nth_drop [OF n(1)] n(2) by (metis list.simps(9) map_append)
  with assms(1) have "pi_id x \<notin> set (map pi_id (take (nat k) xs))" "pi_id x \<notin> set (map pi_id (drop (Suc (nat k)) xs))"
    by auto
  then have "filter (\<lambda>y. y \<noteq> pi_id x) (map pi_id xs) = map pi_id (take (nat k) xs) @ map pi_id (drop (Suc (nat k)) xs)"
    unfolding xs filter_append filter.simps by (simp only: refl not_True_eq_False if_False) (metis (mono_tags, lifting) filter_True)
  then show ?thesis by (simp add: splice_remove_def n(3))
qed

lemma good_reorder_panel:
  assumes good: "good env V s" and G: "rget (ws_groups s) g = Some G" and inst: "js_nth (pg_instances G) k = Some inst"
  shows "good env V (reorder_panel g G inst k q s)"
proof (cases "q = k \<or> q = k + 1")
  case True
  then show ?thesis using good by (simp add: reorder_panel_def)
next
  case False
  note r = goodD [OF good] and rG = rows_okD [OF goodD(1) [OF good] G]
  define j where "j = (if q > k then q - 1 else q)"
  let ?G = "G\<lparr>pg_instances := splice_insert j inst (splice_remove k (pg_instances G))\<rparr>"
  have "mset (pg_instances ?G) = mset (pg_instances G)"
    using mset_splice_remove [OF inst] by (simp add: mset_splice_insert)
  then have same: "set (pg_instances ?G) = set (pg_instances G)" "mset (map pi_id (pg_instances ?G)) = mset (map pi_id (pg_instances G))"
    by (metis mset_eq_setD, metis mset_map)
  then have ids: "instance_ids ?G = instance_ids G" by (simp only: instance_ids_def)
  have "distinct (map pi_id (pg_instances ?G))" using mset_eq_imp_distinct_iff [OF same(2)] rG(2) by blast
  then have "group_ok ?G" using rG(3) ids same(1) by (auto simp: group_ok_def split: option.splits)
  then have "rows_ok env (ps_drawn s) (rset g ?G (ws_groups s))" using rG(1) ids by (intro rows_ok_keep [OF r(1) G]) simp_all
  moreover have "view_of ((rget (ws_groups s))(g \<mapsto> ?G)) = observe (PanelMoved (pi_id inst) g g j) (view_of (rget (ws_groups s)))"
  proof -
    obtain A P where W: "view_of (rget (ws_groups s)) = (A, P)" by fastforce
    have "fst (view_of (rget (ws_groups s))) g = Some (pg_active G)" using G by (simp add: view_of_def)
    with W view_at(1) [of "rget (ws_groups s)", OF G] have at: "A g = Some (pg_active G)" "P g = panel_names G" by simp_all
    show ?thesis
      unfolding view_update W observe.simps Let_def using at names_of_removed [OF rG(2) inst]
      by (simp add: fun_upd_idem panel_names_def map_splice_insert)
  qed
  ultimately show ?thesis using False r(2,3) G
    by (intro goodI) (simp_all add: reorder_panel_def Let_def j_def [symmetric] dom_update_same)
qed

text \<open>A panel that changes its group; a group left without panels is closed.\<close>

lemma leaving_neighbour:
  "xs \<noteq> [] \<Longrightarrow> \<exists>y \<in> set xs. or_else (or_else (js_nth xs k) (js_nth xs (k - 1))) (js_nth xs 0) = Some y"
proof -
  assume "xs \<noteq> []"
  then have "js_nth xs 0 = Some (hd xs)" "hd xs \<in> set xs" by (simp_all add: js_nth_def hd_conv_nth)
  then show ?thesis
    by (cases "js_nth xs k"; cases "js_nth xs (k - 1)") (auto simp: or_else_def dest: js_nth_set)
qed

lemma good_transfer_panel:
  assumes good: "good env V s" and F: "rget (ws_groups s) gf = Some F" and T: "rget (ws_groups s) gt = Some T" and ne: "gf \<noteq> gt"
    and inst: "inst \<in> set (pg_instances F)"
  shows "good env V (transfer_panel gf F gt T inst src q s)"
proof -
  note r = goodD [OF good] and rF = rows_okD [OF goodD(1) [OF good] F] and rT = rows_okD [OF goodD(1) [OF good] T]
  let ?M = "rget (ws_groups s)"
  define i where "i = pi_id inst"
  define was where "was \<longleftrightarrow> pg_active F = Some i"
  define remaining where "remaining = filter (\<lambda>x. pi_id x \<noteq> i) (pg_instances F)"
  define closes where "closes \<longleftrightarrow> remaining = []"
  define k where "k = min q (int (length (pg_instances T)))"
  define nx where "nx = (if was \<and> \<not> closes then map_option pi_id (or_else (or_else (js_nth remaining src) (js_nth remaining (src - 1))) (js_nth remaining 0)) else pg_active F)"
  let ?T = "T\<lparr>pg_instances := splice_insert k inst (pg_instances T), pg_active := Some i\<rparr>"
  let ?F = "F\<lparr>pg_instances := remaining, pg_active := nx\<rparr>"
  define gs where "gs = rset gt ?T (ws_groups s)"
  define s1 where "s1 = emit (GroupActivated gt) (emit (PanelActivated i gt) (emit_if (\<not> closes \<and> was \<and> is_truthy nx) (PanelActivated (the nx) gf) (emit (PanelMoved i gf gt k)
     (emit_if (is_truthy (pg_active T) \<and> pg_active T \<noteq> Some i) (PanelDeactivated (the (pg_active T)) gt)
     (emit_if was (PanelDeactivated i gf) ((if closes then set_group gt ?T s else set_group gf ?F (set_group gt ?T s))\<lparr>ws_active := Some gt\<rparr>))))))"
  have run: "transfer_panel gf F gt T inst src q s = (if closes then close_group gf s1 else s1)"
    unfolding transfer_panel_def Let_def s1_def i_def was_def remaining_def closes_def k_def nx_def by simp
  have iF: "i \<in> instance_ids F" using inst by (simp add: i_def instance_ids_def)
  then have iT: "i \<notin> instance_ids T" and i: "i \<noteq> []" using rF(7) [OF T ne] rF(5) by blast+
  have idsT: "instance_ids ?T = insert i (instance_ids T)" by (auto simp: instance_ids_def i_def)
  have idsF: "instance_ids ?F = instance_ids F - {i}" using removed_ids [of i "pg_instances F"] by (simp add: instance_ids_def remaining_def)
  have "mset (map pi_id (pg_instances ?T)) = mset (i # map pi_id (pg_instances T))" by (simp add: mset_splice_insert i_def)
  from mset_Cons_facts(2) [OF this] have "distinct (map pi_id (pg_instances ?T))" using rT(2) iT by (simp add: instance_ids_def)
  then have okT: "group_ok ?T" using idsT by (simp add: group_ok_def)
  have later: "\<forall>k \<ge> ps_drawn s. pe_nanoid env k \<noteq> i" using r(1) used_group [of ?M gf F i] F iF by (auto simp: rows_ok_def fresh_ids_def)
  have gone: "new_ids env (ps_drawn s) gs' {i}" if "rget gs' = ?M(gf \<mapsto> ?F) \<or> rget gs' = ?M(gf := None)" for gs'
    using that rF(7) iF idsF i later unfolding new_ids_def by (auto split: if_splits)
  have nx: "\<exists>y. nx = Some y \<and> y \<in> instance_ids F - {i}" if "\<not> closes"
  proof (cases was)
    case True
    from leaving_neighbour [of remaining src] that obtain y where "y \<in> set remaining" "nx = Some (pi_id y)"
      by (auto simp: nx_def True closes_def)
    then show ?thesis by (auto simp: remaining_def instance_ids_def)
  next
    case False
    have "pg_instances F \<noteq> []" using that by (auto simp: closes_def remaining_def)
    with rF(3) False show ?thesis by (auto simp: group_ok_def nx_def was_def split: option.splits)
  qed
  have tnx: "is_truthy nx" if "\<not> closes" using nx [OF that] rF(5) by (auto simp: is_truthy_def)
  have seen1: "seen V s1 = ((fst (seen V s))(gf := (if was then (if closes then Some None else Some nx) else fst (seen V s) gf), gt \<mapsto> Some i),
      (snd (seen V s))(gf := filter (\<lambda>x. x \<noteq> i) (snd (seen V s) gf), gt := splice_insert k i (snd (seen V s) gt)))"
    using tnx ne by (cases "seen V s"; cases was; cases closes; cases nx) (simp_all add: s1_def fun_eq_iff is_truthy_def)
  have fields: "ws_layout s1 = ws_layout s" "ws_active s1 = Some gt" "ps_drawn s1 = ps_drawn s"
    "ws_groups s1 = (if closes then rset gt ?T (ws_groups s) else rset gf ?F (rset gt ?T (ws_groups s)))"
    by (cases closes; simp add: s1_def)+
  have L: "layout_ok (dom ?M) (ws_layout s1) (ws_active s1)" using r(2) T unfolding fields by (auto simp: layout_ok_def split: option.splits)
  have views: "view_of ((?M(gf := x))(gt \<mapsto> ?T)) = ((fst (view_of (?M(gf := x))))(gt \<mapsto> Some i), (snd (view_of (?M(gf := x))))(gt := splice_insert k i (snd (view_of ?M) gt)))" for x
    using T ne unfolding view_update by (simp add: panel_names_def map_splice_insert i_def view_at(1) [of ?M])
  show ?thesis
  proof (cases closes)
    case False
    from nx [OF this] obtain y where y: "nx = Some y" "y \<in> instance_ids F - {i}" by blast
    have "distinct (map pi_id remaining)" unfolding remaining_def using rF(2) by (rule distinct_map_filter)
    then have "group_ok ?F" using y idsF by (simp add: group_ok_def)
    then have "rows_ok env (ps_drawn s) (rset gf ?F (ws_groups s))" using rF(1) idsF by (intro rows_ok_keep [OF r(1) F]) auto
    from rows_ok_set [OF this, of ?T gt "{i}" "ps_drawn s"] have "rows_ok env (ps_drawn s) (rset gt ?T (rset gf ?F (ws_groups s)))"
      using rT(1) okT idsT gone [of "rset gf ?F (ws_groups s)"] T ne by (simp add: row_ids_def)
    then have rows: "rows_ok env (ps_drawn s) (rset gf ?F (rset gt ?T (ws_groups s)))"
      by (rule rows_ok_cong) (use ne r(1) in \<open>simp_all add: fun_upd_twist rows_ok_def\<close>)
    have "view_of ((?M(gf \<mapsto> ?F))(gt \<mapsto> ?T)) = seen V s1"
      unfolding views seen1 r(3) view_update [of ?M gf ?F] remaining_def names_without
      using F False names_without [where G = F and i = i] by (auto simp: fun_eq_iff view_of_def nx_def names_kept)
    moreover have "rget (ws_groups s1) = ?M(gf \<mapsto> ?F, gt \<mapsto> ?T)" using ne False by (simp add: fields fun_upd_twist)
    moreover have "insert gt (insert gf (dom ?M)) = dom ?M" using F T by auto
    ultimately have "good env V s1" using rows L False by (intro goodI) (simp_all add: fields)
    with run False show ?thesis by simp
  next
    case True
    then have only: "instance_ids F = {i}" using iF by (auto simp: closes_def remaining_def instance_ids_def filter_empty_conv)
    obtain t where t: "ws_layout s1 = Some t" using r(2) F by (cases "ws_layout s") (auto simp: layout_ok_def fields)
    have "gf \<in> dom ?M" using F by blast
    from close_group_effect [OF t L this] obtain t' a' where
      c: "close_group gf s1 = emit (GroupClosed gf) (s1\<lparr>ws_groups := rdel gf (ws_groups s1), ws_layout := t', ws_active := a'\<rparr>)"
      "layout_ok (dom ?M - {gf}) t' a'" by blast
    from rows_ok_set [OF rows_ok_delete [OF r(1), of gf], of ?T gt "{i}" "ps_drawn s"]
    have "rows_ok env (ps_drawn s) (rset gt ?T (rdel gf (ws_groups s)))"
      using rT(1) okT idsT gone [of "rdel gf (ws_groups s)"] T ne by (simp add: row_ids_def)
    then have rows: "rows_ok env (ps_drawn s) (rdel gf (rset gt ?T (ws_groups s)))"
      by (rule rows_ok_cong) (use ne r(1) in \<open>simp_all add: fun_upd_twist rows_ok_def\<close>)
    have map: "(?M(gt \<mapsto> ?T))(gf := None) = (?M(gf := None))(gt \<mapsto> ?T)" using ne by (simp add: fun_upd_twist)
    have "observe (GroupClosed gf) (seen V s1) = view_of ((?M(gf := None))(gt \<mapsto> ?T))"
      unfolding views seen1 observe_closed [symmetric] r(3) using ne
      by (cases "view_of ?M") (auto simp: fun_eq_iff)
    moreover have "dom ((?M(gf := None))(gt \<mapsto> ?T)) = dom ?M - {gf}" using T ne by auto
    ultimately have "good env V (close_group gf s1)" unfolding c(1) using rows c(2) True
      by (intro goodI) (simp_all add: fields map)
    with run True show ?thesis by simp
  qed
qed

end
