(* ===== verification/PanelCalls.thy ===== *)
theory PanelCalls
  imports PanelProps
begin

text \<open>
  Any sequence of calls on the panel store, and what holds after it. A call that names a group to
  open into, to activate or to close names one that exists: the last section shows what an unknown
  one does.
\<close>

section \<open>Calls\<close>

datatype panel_call =
    Register panel_definition
  | OpenPanel string "prop_value rec option" "string option" "string option" "(panel_instance \<Rightarrow> bool) option"
  | ActivatePanel string string
  | RetargetPanel string string "prop_value rec" string
  | RequestClose string string
  | ClosePanel string string
  | ActivateGroup string
  | SplitGroup string direction
  | CloseGroup string
  | SetRatio string int
  | MovePanel string string string int
  | MoveToZone string string string drop_zone
  | VaultChange vfs_change

fun call_panels :: "panel_env \<Rightarrow> panel_call \<Rightarrow> panel_store \<Rightarrow> panel_store" where
  "call_panels env (Register d) s = register_panel d s"
| "call_panels env (OpenPanel d props title target dedupe) s = snd (open_panel env d props title target dedupe s)"
| "call_panels env (ActivatePanel i g) s = activate_panel i g s"
| "call_panels env (RetargetPanel i g props title) s = retarget_panel i g props title s"
| "call_panels env (RequestClose i g) s = request_close_panel i g s"
| "call_panels env (ClosePanel i g) s = close_panel i g s"
| "call_panels env (ActivateGroup g) s = activate_group g s"
| "call_panels env (SplitGroup g d) s = snd (split_group env g d s)"
| "call_panels env (CloseGroup g) s = close_group g s"
| "call_panels env (SetRatio i q) s = set_ratio i q s"
| "call_panels env (MovePanel i f t k) s = move_panel i f t k s"
| "call_panels env (MoveToZone i f t z) s = move_panel_to_zone env i f t z s"
| "call_panels env (VaultChange c) s = snd (apply_vault_change env c s)"

fun names_known :: "panel_store \<Rightarrow> panel_call \<Rightarrow> bool" where
  "names_known s (OpenPanel d props title target dedupe) = (case target of None \<Rightarrow> True | Some g \<Rightarrow> rget (ws_groups s) g \<noteq> None)"
| "names_known s (ActivatePanel i g) = (case rget (ws_groups s) g of None \<Rightarrow> True | Some G \<Rightarrow> i \<in> set (map pi_id (pg_instances G)))"
| "names_known s (ActivateGroup g) = (rget (ws_groups s) g \<noteq> None)"
| "names_known s (CloseGroup g) = (rget (ws_groups s) g \<noteq> None)"
| "names_known s _ = True"

inductive panels_reach :: "panel_env \<Rightarrow> panel_store \<Rightarrow> panel_store \<Rightarrow> bool" for env where
  Start: "panels_reach env s s"
| Call: "panels_reach env s t \<Longrightarrow> names_known t c \<Longrightarrow> panels_reach env s (call_panels env c t)"

fun calls_known :: "panel_env \<Rightarrow> panel_call list \<Rightarrow> panel_store \<Rightarrow> bool" where
  "calls_known env [] s = True"
| "calls_known env (c # cs) s = (names_known s c \<and> calls_known env cs (call_panels env c s))"

lemma calls_known_reach:
  "calls_known env cs t \<Longrightarrow> panels_reach env s t \<Longrightarrow> panels_reach env s (fold (call_panels env) cs t)"
  by (induction cs arbitrary: t) (auto intro: panels_reach.Call)

section \<open>Each call keeps the workspace\<close>

lemma good_move_panel:
  assumes "good env V s"
  shows "good env V (move_panel i f t k s)"
proof (cases "rget (ws_groups s) f")
  case None
  then show ?thesis using assms by (simp add: move_panel_def)
next
  case F: (Some F)
  show ?thesis
  proof (cases "rget (ws_groups s) t")
    case None
    then show ?thesis using assms F by (simp add: move_panel_def)
  next
    case T: (Some T)
    define src where "src = find_index (\<lambda>x. pi_id x = i) (pg_instances F)"
    show ?thesis
    proof (cases "js_nth (pg_instances F) src")
      case None
      then show ?thesis using assms F T by (simp add: move_panel_def Let_def src_def)
    next
      case (Some x)
      have "good env V (if f = t then reorder_panel f F x src k s else transfer_panel f F t T x src k s)"
        using good_reorder_panel [OF assms F Some] good_transfer_panel [OF assms F T _ js_nth_set [OF Some]] by auto
      then show ?thesis using F T Some by (cases "f = t") (simp_all add: move_panel_def Let_def src_def)
    qed
  qed
qed

lemma good_move_to_zone:
  assumes "nanoid_ok env" and "good env V s"
  shows "good env V (move_panel_to_zone env i f t z s)"
proof (cases "z = ZoneCenter")
  case True
  then show ?thesis using assms(2) good_move_panel by (simp add: move_panel_to_zone_def split: option.split)
next
  case zone: False
  show ?thesis
  proof (cases "ws_layout s")
    case None
    then show ?thesis using assms(2) zone by (simp add: move_panel_to_zone_def)
  next
    case lay: (Some l)
    show ?thesis
    proof (cases "find_leaf l t")
      case None
      then show ?thesis using assms(2) zone lay by (simp add: move_panel_to_zone_def)
    next
      case leaf: (Some p)
      define h where "h = pe_nanoid env (ps_drawn s)"
      define d where "d = (if z = ZoneLeft \<or> z = ZoneRight then Horizontal else Vertical)"
      define v where "v = (if z = ZoneRight \<or> z = ZoneBottom then LayoutSplit (pe_nanoid env (Suc (ps_drawn s))) d 500 (LayoutLeaf t) (LayoutLeaf h)
        else LayoutSplit (pe_nanoid env (Suc (ps_drawn s))) d 500 (LayoutLeaf h) (LayoutLeaf t))"
      define u where "u = emit (GroupCreated h) ((set_group h \<lparr>pg_id = h, pg_instances = [], pg_active = None\<rparr> (s\<lparr>ps_drawn := Suc (ps_drawn s)\<rparr>))
        \<lparr>ps_drawn := Suc (Suc (ps_drawn s)), ws_layout := Some (find_and_replace l p v)\<rparr>)"
      have "good env V u"
        by (rule good_add_group [OF assms lay leaf, of v "pe_nanoid env (Suc (ps_drawn s))" d 500 h _ "ws_active s"])
          (simp_all add: u_def v_def h_def)
      moreover have "move_panel_to_zone env i f t z s = move_panel i f h 0 u"
        using zone lay leaf by (simp add: move_panel_to_zone_def new_id_def Let_def u_def v_def h_def d_def)
      ultimately show ?thesis using good_move_panel by simp
    qed
  qed
qed

lemma good_vault_change:
  assumes "good env V s"
  shows "good env V (snd (apply_vault_change env c s))"
proof -
  have close: "good env V u \<Longrightarrow> good env V (fold (\<lambda>(i, g). close_panel i g) ms u)" for ms u
    by (induction ms arbitrary: u) (auto simp: good_close_panel)
  have "good env V u \<Longrightarrow> good env V (retarget_to env p m u)" for p m u
    using good_retarget_panel by (auto simp: retarget_to_def split: prod.split option.split)
  then have "good env V u \<Longrightarrow> good env V (fold (retarget_to env p) ms u)" for p ms u
    by (induction ms arbitrary: u) simp_all
  with close assms show ?thesis by (simp add: apply_vault_change_def Let_def split: vfs_change.split)
qed

lemma good_call:
  assumes "nanoid_ok env" and "good env V s" and "names_known s c"
  shows "good env V (call_panels env c s)"
proof (cases c)
  case (Register d)
  with goodD [OF assms(2)] assms(2) show ?thesis by (simp add: register_panel_def) (intro impI goodI, simp_all)
next
  case (OpenPanel d props title target dedupe)
  then show ?thesis using assms good_open_panel [OF assms(1,2), of target d props title dedupe] by (cases target) auto
next
  case (ActivatePanel i g)
  then show ?thesis using assms good_activate_panel [OF assms(2), of g i]
    by (cases "rget (ws_groups s) g") (auto simp: instance_ids_def)
qed (use assms in \<open>simp_all add: good_retarget_panel good_request_close_panel good_close_panel good_activate_group good_split_group
    good_close_group good_set_ratio good_move_panel good_move_to_zone good_vault_change\<close>)

lemma good_reach: "panels_reach env s t \<Longrightarrow> nanoid_ok env \<Longrightarrow> good env V s \<Longrightarrow> good env V t"
  by (induction rule: panels_reach.induct) (simp_all add: good_call)

lemma good_create: "good env (Map.empty, \<lambda>_. []) create_panel_store"
  by (intro goodI) (simp_all add: create_panel_store_def rows_ok_def groups_ok_def fresh_ids_def used_ids_def layout_ok_def seen_def view_of_def)

section \<open>Properties\<close>

definition demo_env :: panel_env where
  "demo_env = \<lparr>pe_nanoid = (\<lambda>k. CHR ''n'' # replicate k CHR ''x''), pe_text = (\<lambda>_. ''Welcome''), pe_basename = (\<lambda>p. p)\<rparr>"

lemma demo_env_ok: "nanoid_ok demo_env"
  by (auto simp: nanoid_ok_def demo_env_def inj_def)

definition note_panel :: panel_definition where
  "note_panel = \<lparr>pd_id = ''note'', pd_title = FixedText ''Note''\<rparr>"

definition demo_calls :: "panel_call list" where
  "demo_calls = [Register note_panel, OpenPanel ''note'' None None None None, SplitGroup ''nx'' Horizontal, OpenPanel ''note'' None None None None,
     MovePanel ''n'' ''nx'' ''nxx'' 1]"

definition demo_panels :: panel_store where
  "demo_panels = fold (call_panels demo_env) demo_calls create_panel_store"

lemma demo_reached: "panels_reach demo_env create_panel_store demo_panels"
proof -
  have "calls_known demo_env demo_calls create_panel_store" by code_simp
  from calls_known_reach [OF this panels_reach.Start] show ?thesis by (simp add: demo_panels_def)
qed

text \<open>
  C28: the events are enough. A subscriber that starts with nothing and follows the events alone has,
  after any sequence of calls from the empty workspace on whose named targets exist, the groups that
  exist with the active panel of each, and the panels of every group in the order in which the group
  shows them, moves within a group and between groups included.
\<close>

theorem panel_events_refine:
  assumes "nanoid_ok env" and "panels_reach env create_panel_store s"
  shows "fold observe (ps_log s) (Map.empty, \<lambda>_. []) =
    (\<lambda>g. map_option pg_active (rget (ws_groups s) g),
     \<lambda>g. case rget (ws_groups s) g of None \<Rightarrow> [] | Some G \<Rightarrow> map pi_id (pg_instances G))"
  using good_reach [OF assms(2,1) good_create]
  unfolding good_def tracked_def seen_def view_of_def panel_names_def by blast

theorem panel_events_refine_witness:
  "snd (fold observe (ps_log demo_panels) (Map.empty, \<lambda>_. [])) ''nxx'' = [''nxxxx'', ''n'']"
proof -
  have "(case rget (ws_groups demo_panels) ''nxx'' of None \<Rightarrow> [] | Some G \<Rightarrow> map pi_id (pg_instances G)) = [''nxxxx'', ''n'']" by code_simp
  then show ?thesis unfolding panel_events_refine [OF demo_env_ok demo_reached] by simp
qed

section \<open>Moving keeps every panel\<close>

definition panels_in :: "panel_store \<Rightarrow> panel_instance set" where
  "panels_in s = {x. \<exists>g G. rget (ws_groups s) g = Some G \<and> x \<in> set (pg_instances G)}"

lemma close_group_groups: "ws_layout s \<noteq> None \<Longrightarrow> ws_groups (close_group g s) = rdel g (ws_groups s)"
  by (auto simp: close_group_def Let_def split: layout_node.split option.split prod.split)

lemma panels_in_update:
  "rget (ws_groups s) g = Some G \<Longrightarrow> panels_in s = set (pg_instances G) \<union> {x. \<exists>h H. h \<noteq> g \<and> rget (ws_groups s) h = Some H \<and> x \<in> set (pg_instances H)}"
  unfolding panels_in_def by (rule set_eqI, simp, metis option.inject)

lemma transfer_groups:
  assumes "ws_layout s \<noteq> None"
  shows "\<exists>F' T'. rget (ws_groups (transfer_panel gf F gt T inst src q s)) =
      (if filter (\<lambda>x. pi_id x \<noteq> pi_id inst) (pg_instances F) = [] then ((rget (ws_groups s))(gt \<mapsto> T'))(gf := None) else (rget (ws_groups s))(gt \<mapsto> T', gf \<mapsto> F'))
    \<and> set (pg_instances T') = insert inst (set (pg_instances T)) \<and> set (pg_instances F') = {x \<in> set (pg_instances F). pi_id x \<noteq> pi_id inst}
    \<and> pg_active T' = Some (pi_id inst)"
proof -
  let ?i = "pi_id inst" and ?rem = "filter (\<lambda>x. pi_id x \<noteq> pi_id inst) (pg_instances F)"
  define nx where "nx = (if pg_active F = Some ?i \<and> ?rem \<noteq> []
    then map_option pi_id (or_else (or_else (js_nth ?rem src) (js_nth ?rem (src - 1))) (js_nth ?rem 0)) else pg_active F)"
  show ?thesis
    by (rule exI [of _ "F\<lparr>pg_instances := ?rem, pg_active := nx\<rparr>"],
        rule exI [of _ "T\<lparr>pg_instances := splice_insert (min q (int (length (pg_instances T)))) inst (pg_instances T), pg_active := Some ?i\<rparr>"])
      (use assms in \<open>simp add: transfer_panel_def Let_def close_group_groups nx_def\<close>)
qed

lemma distinct_ids_eq: "distinct (map pi_id xs) \<Longrightarrow> x \<in> set xs \<Longrightarrow> y \<in> set xs \<Longrightarrow> pi_id x = pi_id y \<Longrightarrow> x = y"
  by (simp add: distinct_map inj_on_def)

lemma panels_in_eqI:
  assumes "rget (ws_groups s) f = Some F" and "rget (ws_groups s) t = Some T" and "f \<noteq> t"
    and "\<And>h. h \<noteq> f \<Longrightarrow> h \<noteq> t \<Longrightarrow> rget (ws_groups u) h = rget (ws_groups s) h" and "rget (ws_groups u) t = Some T'"
    and "set (pg_instances T') \<union> (case rget (ws_groups u) f of None \<Rightarrow> {} | Some F' \<Rightarrow> set (pg_instances F')) = set (pg_instances F) \<union> set (pg_instances T)"
  shows "panels_in u = panels_in s"
proof -
  have split: "panels_in v = (case rget (ws_groups v) f of None \<Rightarrow> {} | Some A \<Rightarrow> set (pg_instances A)) \<union> (case rget (ws_groups v) t of None \<Rightarrow> {} | Some A \<Rightarrow> set (pg_instances A))
      \<union> {x. \<exists>h A. h \<noteq> f \<and> h \<noteq> t \<and> rget (ws_groups v) h = Some A \<and> x \<in> set (pg_instances A)}" for v
    unfolding panels_in_def by (cases "rget (ws_groups v) f"; cases "rget (ws_groups v) t"; rule set_eqI; simp; metis option.inject option.distinct(1))
  have rest: "{x. \<exists>h A. h \<noteq> f \<and> h \<noteq> t \<and> rget (ws_groups u) h = Some A \<and> x \<in> set (pg_instances A)}
      = {x. \<exists>h A. h \<noteq> f \<and> h \<noteq> t \<and> rget (ws_groups s) h = Some A \<and> x \<in> set (pg_instances A)}"
    using assms(4) by auto
  show ?thesis unfolding split [of u] split [of s] rest using assms(1,2,5,6) by (simp add: Un_ac)
qed

lemma panels_in_same_row:
  assumes "rget (ws_groups s) f = Some F" and "rget (ws_groups u) = (rget (ws_groups s))(f \<mapsto> F')" and "set (pg_instances F') = set (pg_instances F)"
  shows "panels_in u = panels_in s"
proof -
  have "(\<exists>G. rget (ws_groups u) g = Some G \<and> x \<in> set (pg_instances G)) \<longleftrightarrow> (\<exists>G. rget (ws_groups s) g = Some G \<and> x \<in> set (pg_instances G))" for g x
    using assms(1,3) by (simp add: assms(2))
  then show ?thesis by (simp add: panels_in_def)
qed

lemma move_keeps_panels:
  assumes "panels_ok env s"
  shows "panels_in (move_panel i f t k s) = panels_in s"
proof (cases "rget (ws_groups s) f")
  case None
  then show ?thesis by (simp add: move_panel_def)
next
  case F: (Some F)
  show ?thesis
  proof (cases "rget (ws_groups s) t")
    case None
    then show ?thesis using F by (simp add: move_panel_def)
  next
    case T: (Some T)
    define src where "src = find_index (\<lambda>x. pi_id x = i) (pg_instances F)"
    have rows: "rows_ok env (ps_drawn s) (ws_groups s)" and lay: "ws_layout s \<noteq> None"
      using assms F by (auto simp: panels_ok_rows layout_ok_def split: option.splits)
    show ?thesis
    proof (cases "js_nth (pg_instances F) src")
      case None
      then show ?thesis using F T by (simp add: move_panel_def Let_def src_def)
    next
      case inst: (Some x)
      show ?thesis
      proof (cases "f = t")
        case True
        define j where "j = (if k > src then k - 1 else k)"
        have same: "set (splice_insert j x (splice_remove src (pg_instances F))) = set (pg_instances F)"
          using mset_splice_remove [OF inst] by (metis mset_eq_setD mset_splice_insert)
        have "panels_in (reorder_panel f F x src k s) = panels_in s"
        proof (cases "k = src \<or> k = src + 1")
          case False
          then have "rget (ws_groups (reorder_panel f F x src k s)) = (rget (ws_groups s))(f \<mapsto> F\<lparr>pg_instances := splice_insert j x (splice_remove src (pg_instances F))\<rparr>)"
            by (simp add: reorder_panel_def Let_def j_def)
          from panels_in_same_row [OF F this] same show ?thesis by simp
        qed (simp add: reorder_panel_def)
        then show ?thesis using F T inst True by (simp add: move_panel_def Let_def src_def)
      next
        case False
        let ?u = "transfer_panel f F t T x src k s"
        obtain F' T' where m: "rget (ws_groups ?u) = (if filter (\<lambda>y. pi_id y \<noteq> pi_id x) (pg_instances F) = [] then ((rget (ws_groups s))(t \<mapsto> T'))(f := None) else (rget (ws_groups s))(t \<mapsto> T', f \<mapsto> F'))"
          "set (pg_instances T') = insert x (set (pg_instances T))" "set (pg_instances F') = {y \<in> set (pg_instances F). pi_id y \<noteq> pi_id x}"
          using transfer_groups [OF lay, of f F t T x src k] by blast
        have only: "{y \<in> set (pg_instances F). pi_id y \<noteq> pi_id x} = set (pg_instances F) - {x}"
        proof -
          have "y = x" if "y \<in> set (pg_instances F)" "pi_id y = pi_id x" for y
            using distinct_ids_eq [OF rows_okD(2) [OF rows F] that(1) js_nth_set [OF inst] that(2)] .
          then show ?thesis by auto
        qed
        have "panels_in ?u = panels_in s"
        proof (rule panels_in_eqI [OF F T False, where T' = T'])
          show "rget (ws_groups ?u) t = Some T'" using False by (simp add: m(1))
          show "h \<noteq> f \<Longrightarrow> h \<noteq> t \<Longrightarrow> rget (ws_groups ?u) h = rget (ws_groups s) h" for h by (simp add: m(1))
          have "filter (\<lambda>y. pi_id y \<noteq> pi_id x) (pg_instances F) = [] \<longleftrightarrow> set (pg_instances F) - {x} = {}"
            unfolding only [symmetric] by (auto simp: filter_empty_conv)
          then show "set (pg_instances T') \<union> (case rget (ws_groups ?u) f of None \<Rightarrow> {} | Some F' \<Rightarrow> set (pg_instances F')) = set (pg_instances F) \<union> set (pg_instances T)"
            using js_nth_set [OF inst] unfolding m(1,2) by (auto simp: m(3) only)
        qed
        then show ?thesis using F T inst False by (simp add: move_panel_def Let_def src_def)
      qed
    qed
  qed
qed

lemma panels_in_new_group:
  assumes "rget (ws_groups s) h = None" and "rget (ws_groups u) = (rget (ws_groups s))(h \<mapsto> G)" and "pg_instances G = []"
  shows "panels_in u = panels_in s"
proof -
  have "(\<exists>G. rget (ws_groups u) g = Some G \<and> x \<in> set (pg_instances G)) \<longleftrightarrow> (\<exists>G. rget (ws_groups s) g = Some G \<and> x \<in> set (pg_instances G))" for g x
    using assms(1,3) by (simp add: assms(2))
  then show ?thesis by (simp add: panels_in_def)
qed

lemma zone_keeps_panels:
  assumes env: "nanoid_ok env" and ok: "panels_ok env s"
  shows "panels_in (move_panel_to_zone env i f t z s) = panels_in s"
proof (cases "z = ZoneCenter")
  case True
  then show ?thesis using move_keeps_panels [OF ok] by (simp add: move_panel_to_zone_def split: option.split)
next
  case zone: False
  show ?thesis
  proof (cases "\<exists>l p. ws_layout s = Some l \<and> find_leaf l t = Some p")
    case False
    then show ?thesis using zone by (cases "ws_layout s") (auto simp: move_panel_to_zone_def split: option.split)
  next
    case True
    then obtain l p where lay: "ws_layout s = Some l" and leaf: "find_leaf l t = Some p" by blast
    define h where "h = pe_nanoid env (ps_drawn s)"
    have "h \<notin> used_ids (rget (ws_groups s))"
      using ok drawn_unused [of env "ps_drawn s"] by (simp add: panels_ok_def h_def)
    then have none: "rget (ws_groups s) h = None" by (auto simp: used_ids_def)
    define d where "d = (if z = ZoneLeft \<or> z = ZoneRight then Horizontal else Vertical)"
    define v where "v = (if z = ZoneRight \<or> z = ZoneBottom then LayoutSplit (pe_nanoid env (Suc (ps_drawn s))) d 500 (LayoutLeaf t) (LayoutLeaf h)
        else LayoutSplit (pe_nanoid env (Suc (ps_drawn s))) d 500 (LayoutLeaf h) (LayoutLeaf t))"
    define u where "u = emit (GroupCreated h) ((set_group h \<lparr>pg_id = h, pg_instances = [], pg_active = None\<rparr> (s\<lparr>ps_drawn := Suc (ps_drawn s)\<rparr>))
        \<lparr>ps_drawn := Suc (Suc (ps_drawn s)), ws_layout := Some (find_and_replace l p v)\<rparr>)"
    have "good env (view_of (rget (ws_groups s))) (s\<lparr>ps_log := []\<rparr>)"
      using ok by (simp add: good_def panels_ok_def tracked_def seen_def)
    then have "good env (view_of (rget (ws_groups s))) (u\<lparr>ps_log := [GroupCreated h]\<rparr>)"
      by (rule good_add_group [OF env, of _ _ l t p v "pe_nanoid env (Suc (ps_drawn s))" d 500 h _ "ws_active s"])
        (use lay leaf in \<open>simp_all add: u_def v_def h_def seen_def\<close>)
    then have "panels_ok env u" by (simp add: good_def panels_ok_def)
    moreover have "move_panel_to_zone env i f t z s = move_panel i f h 0 u"
      using zone lay leaf by (simp add: move_panel_to_zone_def new_id_def Let_def u_def v_def h_def d_def)
    moreover have "panels_in u = panels_in s"
      by (rule panels_in_new_group [OF none, where G = "\<lparr>pg_id = h, pg_instances = [], pg_active = None\<rparr>"]) (simp_all add: u_def)
    ultimately show ?thesis using move_keeps_panels by simp
  qed
qed

text \<open>
  A move loses no panel and makes none. After any sequence of calls, moving a panel within its
  group, to another group or to a new group beside one leaves the same panels open, with their
  properties and titles, whatever the indices and whether or not its old group closes; and a panel
  moved to another group is the active one there.
\<close>

theorem moving_keeps_every_panel:
  assumes "nanoid_ok env" and "panels_reach env create_panel_store s"
  shows "panels_in (move_panel i f t k s) = panels_in s \<and> panels_in (move_panel_to_zone env i f t z s) = panels_in s
    \<and> (\<forall>F T. rget (ws_groups s) f = Some F \<longrightarrow> rget (ws_groups s) t = Some T \<longrightarrow> f \<noteq> t \<longrightarrow> i \<in> pi_id ` set (pg_instances F) \<longrightarrow>
         map_option pg_active (rget (ws_groups (move_panel i f t k s)) t) = Some (Some i))"
proof -
  have ok: "panels_ok env s" using good_reach [OF assms(2,1) good_create] by (simp add: good_def)
  have "map_option pg_active (rget (ws_groups (move_panel i f t k s)) t) = Some (Some i)"
    if F: "rget (ws_groups s) f = Some F" and T: "rget (ws_groups s) t = Some T" and "f \<noteq> t" and i: "i \<in> pi_id ` set (pg_instances F)" for F T
  proof -
    have lay: "ws_layout s \<noteq> None" using ok F by (auto simp: panels_ok_rows layout_ok_def split: option.splits)
    define src where "src = find_index (\<lambda>x. pi_id x = i) (pg_instances F)"
    obtain x where x: "js_nth (pg_instances F) src = Some x" "pi_id x = i"
      using find_index_bounds [OF i] by (auto simp: src_def js_nth_def)
    have "map_option pg_active (rget (ws_groups (transfer_panel f F t T x src k s)) t) = Some (Some i)"
      using transfer_groups [OF lay, of f F t T x src k] \<open>f \<noteq> t\<close> x(2) by (auto split: if_splits)
    then show ?thesis using F T x(1) \<open>f \<noteq> t\<close> by (simp add: move_panel_def Let_def src_def)
  qed
  with move_keeps_panels [OF ok] zone_keeps_panels [OF assms(1) ok] show ?thesis by blast
qed

theorem moving_keeps_every_panel_witness:
  "panels_in (move_panel ''nxxx'' ''nxx'' ''nxx'' (-1) demo_panels) = panels_in demo_panels"
  using moving_keeps_every_panel [OF demo_env_ok demo_reached] by blast

text \<open>
  Opening a panel into a group that no longer exists hides every other group. The new panel gets
  a group of its own, and that group becomes the whole layout: the groups there were are still in the
  store, with their panels, but no part of the layout shows them.
\<close>

theorem stale_target_hides_groups:
  assumes "get_definition s d \<noteq> None" and "rget (ws_groups s) g = None" and "is_truthy (Some g)"
  shows "\<exists>i u h. open_panel env d props title (Some g) None s = (Inr i, u) \<and> get_ordered_group_ids u = [h]
    \<and> (rget (ws_groups s) k = Some G \<longrightarrow> k \<noteq> h \<longrightarrow> rget (ws_groups u) k = Some G \<and> k \<notin> set (get_ordered_group_ids u))"
  using assms by (auto simp: open_panel_def open_new_panel_def new_id_def Let_def get_ordered_group_ids_def)

theorem stale_target_hides_groups_witness:
  "\<exists>i u h. open_panel demo_env ''note'' None None (Some ''closed'') None demo_panels = (Inr i, u) \<and> get_ordered_group_ids u = [h]
    \<and> (''nxx'' \<noteq> h \<longrightarrow> rget (ws_groups u) ''nxx'' \<noteq> None \<and> ''nxx'' \<notin> set (get_ordered_group_ids u))"
proof -
  have "get_definition demo_panels ''note'' \<noteq> None" "rget (ws_groups demo_panels) ''closed'' = None" "is_truthy (Some ''closed'')"
    "rget (ws_groups demo_panels) ''nxx'' \<noteq> None" by code_simp+
  then obtain G where G: "rget (ws_groups demo_panels) ''nxx'' = Some G" by blast
  from stale_target_hides_groups [OF \<open>get_definition demo_panels ''note'' \<noteq> None\<close> \<open>rget (ws_groups demo_panels) ''closed'' = None\<close> \<open>is_truthy (Some ''closed'')\<close>,
      of demo_env None None "''nxx''" G] G
  show ?thesis by fastforce
qed

end
