(* ===== verification/PanelFile.thy ===== *)
theory PanelFile
  imports PanelCalls
begin

text \<open>
  The workspace at rest: \<open>plugins/panels/src/workspace-persistence.ts\<close>. The state is written as
  JSON and read back by a parser that trusts nothing in it.
\<close>

section \<open>Writing\<close>

text \<open>\<open>JSON.stringify\<close> drops what is undefined or a function.\<close>

definition data_props :: "prop_value rec \<Rightarrow> json rec" where
  "data_props ps = List.map_filter (\<lambda>(k, v). case v of PropData j \<Rightarrow> Some (k, j) | PropFunction _ \<Rightarrow> None) ps"

definition json_of_instance :: "panel_instance \<Rightarrow> json" where
  "json_of_instance x = JObj ([(''instanceId'', JStr (pi_id x)), (''definitionId'', JStr (pi_definition x)), (''title'', JStr (pi_title x))]
     @ (case pi_props x of None \<Rightarrow> [] | Some ps \<Rightarrow> [(''props'', JObj (data_props ps))]))"

definition json_of_name :: "string option \<Rightarrow> json" where
  "json_of_name n = (case n of None \<Rightarrow> JNull | Some s \<Rightarrow> JStr s)"

definition json_of_group :: "panel_group \<Rightarrow> json" where
  "json_of_group G = JObj [(''id'', JStr (pg_id G)), (''instances'', JArr (map json_of_instance (pg_instances G))), (''activeInstanceId'', json_of_name (pg_active G))]"

definition direction_name :: "direction \<Rightarrow> string" where
  "direction_name d = (case d of Horizontal \<Rightarrow> ''horizontal'' | Vertical \<Rightarrow> ''vertical'')"

fun json_of_layout :: "layout_node \<Rightarrow> json" where
  "json_of_layout (LayoutLeaf g) = JObj [(''type'', JStr ''leaf''), (''groupId'', JStr g)]"
| "json_of_layout (LayoutSplit i d q f s) = JObj [(''type'', JStr ''split''), (''splitId'', JStr i), (''direction'', JStr (direction_name d)),
     (''ratio'', JNum q), (''first'', json_of_layout f), (''second'', json_of_layout s)]"

definition json_of_workspace :: "workspace_state \<Rightarrow> json" where
  "json_of_workspace w = JObj [(''groups'', JObj (map (\<lambda>(g, G). (g, json_of_group G)) (ws_groups w))),
     (''layout'', case ws_layout w of None \<Rightarrow> JNull | Some t \<Rightarrow> json_of_layout t), (''activeGroupId'', json_of_name (ws_active w))]"

section \<open>Reading\<close>

definition name_of_json :: "json option \<Rightarrow> string option" where
  "name_of_json v = (case v of Some (JStr s) \<Rightarrow> Some s | _ \<Rightarrow> None)"

definition parse_instance :: "json \<Rightarrow> panel_instance option" where
  "parse_instance v =
     (case v of
        JObj kvs \<Rightarrow>
          (case (rget kvs ''instanceId'', rget kvs ''definitionId'', rget kvs ''title'') of
             (Some (JStr i), Some (JStr d), Some (JStr t)) \<Rightarrow>
               Some \<lparr>pi_id = i, pi_definition = d, pi_title = t,
                 pi_props = Some (case rget kvs ''props'' of Some (JObj ps) \<Rightarrow> map (\<lambda>(k, v). (k, PropData v)) ps | _ \<Rightarrow> [])\<rparr>
           | _ \<Rightarrow> None)
      | _ \<Rightarrow> None)"

definition parse_group :: "string \<Rightarrow> json \<Rightarrow> panel_group option" where
  "parse_group g v =
     (case v of
        JObj kvs \<Rightarrow>
          (case rget kvs ''instances'' of
             Some (JArr vs) \<Rightarrow>
               (case those (map parse_instance vs) of
                  None \<Rightarrow> None
                | Some xs \<Rightarrow> Some \<lparr>pg_id = g, pg_instances = xs, pg_active = name_of_json (rget kvs ''activeInstanceId'')\<rparr>)
           | _ \<Rightarrow> None)
      | _ \<Rightarrow> None)"

fun parse_groups :: "json rec \<Rightarrow> panel_group rec \<Rightarrow> panel_group rec option" where
  "parse_groups [] gs = Some gs"
| "parse_groups ((g, v) # kvs) gs = (case parse_group g v of None \<Rightarrow> None | Some G \<Rightarrow> parse_groups kvs (rset g G gs))"

definition direction_of :: "json option \<Rightarrow> direction option" where
  "direction_of v = (if v = Some (JStr ''horizontal'') then Some Horizontal else if v = Some (JStr ''vertical'') then Some Vertical else None)"

text \<open>The number is how many more levels are allowed: \<open>depth > 8\<close> is none left of nine.\<close>

fun parse_layout :: "panel_group rec \<Rightarrow> nat \<Rightarrow> json \<Rightarrow> layout_node option" where
  "parse_layout gs 0 v = None"
| "parse_layout gs (Suc k) v =
     (case v of
        JObj kvs \<Rightarrow>
          (if rget kvs ''type'' = Some (JStr ''leaf'')
           then (case rget kvs ''groupId'' of
                   Some (JStr g) \<Rightarrow> if rget gs g \<noteq> None then Some (LayoutLeaf g) else None
                 | _ \<Rightarrow> None)
           else if rget kvs ''type'' = Some (JStr ''split'')
           then (case (rget kvs ''splitId'', direction_of (rget kvs ''direction''), rget kvs ''ratio'') of
                   (Some (JStr i), Some d, Some (JNum q)) \<Rightarrow>
                     (case (Option.bind (rget kvs ''first'') (parse_layout gs k), Option.bind (rget kvs ''second'') (parse_layout gs k)) of
                        (Some f, Some s) \<Rightarrow> Some (LayoutSplit i d (clamp_ratio q) f s)
                      | _ \<Rightarrow> None)
                 | _ \<Rightarrow> None)
           else None)
      | _ \<Rightarrow> None)"

definition is_nullish :: "json option \<Rightarrow> bool" where
  "is_nullish v \<longleftrightarrow> v = None \<or> v = Some JNull"

definition parse_panel_workspace :: "json \<Rightarrow> workspace_state option" where
  "parse_panel_workspace v =
     (case v of
        JObj kvs \<Rightarrow>
          (case rget kvs ''groups'' of
             Some (JObj gvs) \<Rightarrow>
               (case parse_groups gvs [] of
                  None \<Rightarrow> None
                | Some gs \<Rightarrow>
                    let lay = rget kvs ''layout'';
                        tree = (if is_nullish lay then None else Option.bind lay (parse_layout gs 9));
                        active = name_of_json (rget kvs ''activeGroupId'')
                    in if \<not> is_nullish lay \<and> tree = None then None
                       else Some \<lparr>ws_groups = gs, ws_layout = tree,
                              ws_active = (case active of None \<Rightarrow> None | Some a \<Rightarrow> if rget gs a \<noteq> None then Some a else None)\<rparr>)
           | _ \<Rightarrow> None)
      | _ \<Rightarrow> None)"

text \<open>\<open>restoreAndPersistWorkspace\<close>: what was saved, if it can be read, replaces the state; and what is saved after.\<close>

definition restore_workspace :: "string option \<Rightarrow> panel_store \<Rightarrow> panel_store" where
  "restore_workspace saved s =
     (case Option.bind (Option.bind saved parse_json) parse_panel_workspace of None \<Rightarrow> s | Some w \<Rightarrow> restore_panels w s)"

definition persisted_text :: "panel_store \<Rightarrow> string" where
  "persisted_text s = stringify (json_of_workspace (serialize_panels s))"

section \<open>The round trip\<close>

fun layout_depth :: "layout_node \<Rightarrow> nat" where
  "layout_depth (LayoutLeaf g) = 0"
| "layout_depth (LayoutSplit i d q f s) = Suc (max (layout_depth f) (layout_depth s))"

fun clamp_ratios :: "layout_node \<Rightarrow> layout_node" where
  "clamp_ratios (LayoutLeaf g) = LayoutLeaf g"
| "clamp_ratios (LayoutSplit i d q f s) = LayoutSplit i d (clamp_ratio q) (clamp_ratios f) (clamp_ratios s)"

text \<open>What comes back of a panel: its data.\<close>

definition data_only :: "panel_instance \<Rightarrow> panel_instance" where
  "data_only x = x\<lparr>pi_props := Some (case pi_props x of None \<Rightarrow> [] | Some ps \<Rightarrow> map (\<lambda>(k, v). (k, PropData v)) (data_props ps))\<rparr>"

definition group_data :: "panel_group \<Rightarrow> panel_group" where
  "group_data G = G\<lparr>pg_instances := map data_only (pg_instances G)\<rparr>"

lemma parse_json_of_instance [simp]: "parse_instance (json_of_instance x) = Some (data_only x)"
  by (cases x; cases "pi_props x") (simp_all add: parse_instance_def json_of_instance_def data_only_def)

lemma name_of_json_of_name [simp]: "name_of_json (Some (json_of_name n)) = n"
  by (simp add: name_of_json_def json_of_name_def split: option.split)

lemma parse_json_of_group: "pg_id G = g \<Longrightarrow> parse_group g (json_of_group G) = Some (group_data G)"
proof -
  have "those (map parse_instance (map json_of_instance xs)) = Some (map data_only xs)" for xs by (induction xs) simp_all
  then show "pg_id G = g \<Longrightarrow> ?thesis" by (cases G) (simp add: parse_group_def json_of_group_def group_data_def)
qed

lemma update_append_new: "k \<notin> set (map fst r) \<Longrightarrow> rset k v r = r @ [(k, v)]"
  by (induction r) auto

lemma parse_groups_written:
  "distinct (rkeys (gs @ rows)) \<Longrightarrow> \<forall>(g, G) \<in> set rows. pg_id G = g \<Longrightarrow>
     parse_groups (map (\<lambda>(g, G). (g, json_of_group G)) rows) gs = Some (gs @ map (\<lambda>(g, G). (g, group_data G)) rows)"
proof (induction rows arbitrary: gs)
  case (Cons r rows)
  obtain g G where r: "r = (g, G)" by fastforce
  have "parse_groups (map (\<lambda>(g, G). (g, json_of_group G)) rows) (gs @ [(g, group_data G)])
      = Some ((gs @ [(g, group_data G)]) @ map (\<lambda>(g, G). (g, group_data G)) rows)"
    using Cons.prems r by (intro Cons.IH) auto
  moreover have "parse_group g (json_of_group G) = Some (group_data G)" using Cons.prems(2) r by (intro parse_json_of_group) simp
  moreover have "rset g (group_data G) gs = gs @ [(g, group_data G)]" using Cons.prems(1) r by (intro update_append_new) auto
  ultimately show ?case by (simp add: r)
qed simp

lemma direction_of_name [simp]: "direction_of (Some (JStr (direction_name d))) = Some d"
  by (cases d) (simp_all add: direction_of_def direction_name_def)

lemma parse_layout_written:
  "set (get_all_group_ids t) \<subseteq> set (rkeys gs) \<Longrightarrow>
     parse_layout gs k (json_of_layout t) = (if layout_depth t < k then Some (clamp_ratios t) else None)"
proof (induction t arbitrary: k)
  case (LayoutLeaf g)
  then have "rget gs g \<noteq> None" by (simp add: map_of_eq_None_iff)
  then show ?case by (cases k) auto
next
  case (LayoutSplit i d q f s)
  then show ?case by (cases k) (simp_all split: if_splits)
qed

definition workspace_data :: "workspace_state \<Rightarrow> workspace_state" where
  "workspace_data w = \<lparr>ws_groups = map (\<lambda>(g, G). (g, group_data G)) (ws_groups w), ws_layout = map_option clamp_ratios (ws_layout w), ws_active = ws_active w\<rparr>"

lemma json_of_layout_not_null [simp]: "json_of_layout t \<noteq> JNull"
  by (cases t) simp_all

lemma map_fst_rows [simp]: "map (fst \<circ> (\<lambda>(g, G). (g, f G))) gs = map fst gs"
  by (simp add: comp_def case_prod_unfold)

lemma parse_written:
  assumes "panels_ok env s"
  shows "parse_panel_workspace (json_of_workspace (serialize_panels s)) =
    (if \<exists>t. ws_layout s = Some t \<and> 8 < layout_depth t then None else Some (workspace_data (serialize_panels s)))"
proof -
  let ?rows = "map (\<lambda>(g, G). (g, group_data G)) (ws_groups s)"
  have rows: "parse_groups (map (\<lambda>(g, G). (g, json_of_group G)) (ws_groups s)) [] = Some ?rows"
  proof -
    have "distinct (rkeys (ws_groups s))" "\<forall>(g, G) \<in> set (ws_groups s). pg_id G = g"
      using assms by (auto simp: panels_ok_def groups_ok_def)
    then show ?thesis using parse_groups_written [of "[]" "ws_groups s"] by simp
  qed
  have dom: "dom (rget ?rows) = dom (rget (ws_groups s))" unfolding set_fst_dom [symmetric] map_map map_fst_rows ..
  have active: "ws_active s = Some a \<Longrightarrow> rget ?rows a \<noteq> None" for a
  proof -
    assume "ws_active s = Some a"
    then have "a \<in> dom (rget (ws_groups s))" using assms by (cases "ws_layout s") (auto simp: panels_ok_def layout_ok_def)
    then have "a \<in> dom (rget ?rows)" by (simp only: dom)
    then show ?thesis by blast
  qed
  show ?thesis
  proof (cases "ws_layout s")
    case None
    then have "ws_active s = None" using assms by (simp add: panels_ok_def layout_ok_def)
    then show ?thesis using None rows
      by (simp add: parse_panel_workspace_def json_of_workspace_def serialize_panels_def workspace_data_def is_nullish_def Let_def
          json_of_name_def name_of_json_def)
  next
    case (Some t)
    have "set (get_all_group_ids t) \<subseteq> set (rkeys ?rows)"
      using assms Some dom unfolding set_fst_dom by (simp add: panels_ok_def layout_ok_def)
    note read = parse_layout_written [OF this, of 9]
    show ?thesis using Some rows active read
      by (cases "ws_active s") (simp_all add: parse_panel_workspace_def json_of_workspace_def serialize_panels_def workspace_data_def
          is_nullish_def Let_def json_of_name_def name_of_json_def del: parse_layout.simps)
  qed
qed

section \<open>Sessions\<close>

text \<open>
  The start of the next session: a new store that reads what the last one saved. The identifiers it
  draws are further ones of the same sequence, as nanoid's never repeat.
\<close>

definition restart_panels :: "panel_store \<Rightarrow> panel_store" where
  "restart_panels s = restore_workspace (Some (persisted_text s)) (create_panel_store\<lparr>ps_drawn := ps_drawn s\<rparr>)"

inductive sessions_reach :: "panel_env \<Rightarrow> panel_store \<Rightarrow> bool" for env where
  Fresh: "sessions_reach env create_panel_store"
| Within: "sessions_reach env s \<Longrightarrow> names_known s c \<Longrightarrow> sessions_reach env (call_panels env c s)"
| Restart: "sessions_reach env s \<Longrightarrow> sessions_reach env (restart_panels s)"

lemma panels_reach_sessions: "panels_reach env s t \<Longrightarrow> sessions_reach env s \<Longrightarrow> sessions_reach env t"
  by (induction rule: panels_reach.induct) (auto intro: sessions_reach.intros)

lemma restart_run:
  assumes "panels_ok env s"
  shows "restart_panels s = (if \<exists>t. ws_layout s = Some t \<and> 8 < layout_depth t then create_panel_store\<lparr>ps_drawn := ps_drawn s\<rparr>
     else restore_panels (workspace_data (serialize_panels s)) (create_panel_store\<lparr>ps_drawn := ps_drawn s\<rparr>))"
proof -
  define deep where "deep \<longleftrightarrow> (\<exists>t. ws_layout s = Some t \<and> 8 < layout_depth t)"
  from parse_written [OF assms] show ?thesis unfolding deep_def [symmetric]
    by (cases deep) (simp_all add: restart_panels_def restore_workspace_def persisted_text_def)
qed

lemma data_ids [simp]: "pi_id (data_only x) = pi_id x" "pg_id (group_data G) = pg_id G" "pg_active (group_data G) = pg_active G"
  by (simp_all add: data_only_def group_data_def)

lemma group_data_ids [simp]: "instance_ids (group_data G) = instance_ids G" "group_ok (group_data G) = group_ok G"
proof -
  have "map pi_id (pg_instances (group_data G)) = map pi_id (pg_instances G)" by (simp add: group_data_def comp_def)
  moreover from this show "instance_ids (group_data G) = instance_ids G" unfolding instance_ids_def set_map [symmetric] by simp
  moreover have "pg_instances (group_data G) = [] \<longleftrightarrow> pg_instances G = []" by (simp add: group_data_def)
  ultimately show "group_ok (group_data G) = group_ok G" by (simp add: group_ok_def split: option.split)
qed

lemma data_rows: "rget (map (\<lambda>(g, G). (g, group_data G)) gs) = map_option group_data \<circ> rget gs"
  by (induction gs) auto

lemma rows_ok_data:
  assumes "rows_ok env n gs"
  shows "rows_ok env n (map (\<lambda>(g, G). (g, group_data G)) gs)"
proof -
  let ?M = "rget gs" and ?N = "map_option group_data \<circ> rget gs"
  have at: "?N g = Some G \<longleftrightarrow> (\<exists>H. ?M g = Some H \<and> G = group_data H)" for g G by (cases "?M g") auto
  have "groups_ok ?N"
    using assms unfolding rows_ok_def groups_ok_def at by (metis data_ids(2) group_data_ids)
  moreover have "used_ids ?N = used_ids ?M"
    unfolding used_ids_def at by (auto simp: dom_def) (metis group_data_ids(1))+
  ultimately show ?thesis using assms by (simp add: rows_ok_def fresh_ids_def data_rows)
qed

lemma clamped_ids [simp]: "get_all_group_ids (clamp_ratios t) = get_all_group_ids t"
  by (induction t) simp_all

lemma good_restart:
  assumes "panels_ok env s"
  shows "good env (view_of (rget (ws_groups (restart_panels s)))) (restart_panels s)"
proof (cases "\<exists>t. ws_layout s = Some t \<and> 8 < layout_depth t")
  case True
  then have "restart_panels s = create_panel_store\<lparr>ps_drawn := ps_drawn s\<rparr>" using restart_run [OF assms] by simp
  then show ?thesis
    by (intro goodI) (simp_all add: create_panel_store_def rows_ok_def groups_ok_def fresh_ids_def used_ids_def layout_ok_def seen_def)
next
  case False
  then have run: "restart_panels s = restore_panels (workspace_data (serialize_panels s)) (create_panel_store\<lparr>ps_drawn := ps_drawn s\<rparr>)"
    using restart_run [OF assms] by (simp only: if_False)
  have rows: "rows_ok env (ps_drawn s) (ws_groups s)" and lay: "layout_ok (dom (rget (ws_groups s))) (ws_layout s) (ws_active s)"
    using assms by (simp_all add: panels_ok_rows)
  have "dom (map_option group_data \<circ> rget (ws_groups s)) = dom (rget (ws_groups s))" by (auto simp: dom_def)
  with lay have "layout_ok (dom (map_option group_data \<circ> rget (ws_groups s))) (map_option clamp_ratios (ws_layout s)) (ws_active s)"
    by (cases "ws_layout s") (simp_all add: layout_ok_def)
  then show ?thesis using rows_ok_data [OF rows] unfolding run
    by (intro goodI) (simp_all add: restore_panels_def workspace_data_def serialize_panels_def create_panel_store_def seen_def data_rows)
qed

lemma good_sessions:
  assumes "nanoid_ok env" and "sessions_reach env s"
  shows "\<exists>V. good env V s"
  using assms(2)
proof induction
  case Fresh
  show ?case using good_create by blast
next
  case (Within s c)
  then show ?case using good_call [OF assms(1)] by blast
next
  case (Restart s)
  then obtain V where "good env V s" by blast
  then have "panels_ok env s" by (simp add: good_def)
  from good_restart [OF this] show ?case by blast
qed

section \<open>Properties\<close>

text \<open>
  C25: the workspace stays consistent. From the first start on, through any calls whose named targets
  exist (the group to open into, to activate or to close, the panel to activate in a group) and any
  restarts that read back what the session before them saved, the layout tree shows exactly the groups
  there are, each once, and one of them is the active one (with no group, neither); every panel is in
  one group only, and every group that has panels has one of its own active.
\<close>

theorem panels_consistent:
  assumes "nanoid_ok env" and "sessions_reach env s"
  shows "panels_ok env s"
  using good_sessions [OF assms] by (auto simp: good_def)

lemma demo_sessions: "sessions_reach demo_env (restart_panels demo_panels)"
  by (intro sessions_reach.Restart panels_reach_sessions [OF demo_reached] sessions_reach.Fresh)

theorem panels_consistent_witness: "panels_ok demo_env (restart_panels demo_panels)"
  by (rule panels_consistent [OF demo_env_ok demo_sessions])

text \<open>
  C38: a workspace survives a restart, down to eight splits. What is written after any sequence of
  calls (their named targets existing) and earlier restarts, and read back at the next start, is the
  same groups in the same order with the same panels, layout and active group; of the panels'
  properties those that are data come back and those that are functions do not, and the ratios come
  back clamped to the bounds the splits allow. A layout nested deeper than eight splits is refused
  whole, and the next start has an empty workspace.
\<close>

theorem workspace_survives_restart:
  assumes "nanoid_ok env" and "sessions_reach env s"
  shows "restore_workspace (Some (persisted_text s)) (create_panel_store\<lparr>ps_drawn := ps_drawn s\<rparr>) =
    (if \<exists>t. ws_layout s = Some t \<and> 8 < layout_depth t then create_panel_store\<lparr>ps_drawn := ps_drawn s\<rparr>
     else restore_panels (workspace_data (serialize_panels s)) (create_panel_store\<lparr>ps_drawn := ps_drawn s\<rparr>))"
  using good_sessions [OF assms] restart_run by (auto simp: good_def restart_panels_def)

fun deep_calls :: "nat \<Rightarrow> panel_call list" where
  "deep_calls 0 = []"
| "deep_calls (Suc k) = SplitGroup ''nx'' Vertical # deep_calls k"

theorem workspace_survives_restart_witness:
  "ws_groups (restart_panels demo_panels) = map (\<lambda>(g, G). (g, group_data G)) (ws_groups demo_panels)
   \<and> ws_groups (restart_panels (fold (call_panels demo_env) (Register note_panel # OpenPanel ''note'' None None None None # deep_calls 9) create_panel_store)) = []"
proof
  have "(case ws_layout demo_panels of None \<Rightarrow> False | Some t \<Rightarrow> layout_depth t \<le> 8)" by code_simp
  then have "\<not> (\<exists>t. ws_layout demo_panels = Some t \<and> 8 < layout_depth t)" by auto
  with workspace_survives_restart [OF demo_env_ok panels_reach_sessions [OF demo_reached sessions_reach.Fresh]]
  show "ws_groups (restart_panels demo_panels) = map (\<lambda>(g, G). (g, group_data G)) (ws_groups demo_panels)"
    by (simp add: restart_panels_def restore_panels_def workspace_data_def serialize_panels_def)
next
  define cs where "cs = Register note_panel # OpenPanel ''note'' None None None None # deep_calls 9"
  define s where "s = fold (call_panels demo_env) cs create_panel_store"
  have "calls_known demo_env (Register note_panel # OpenPanel ''note'' None None None None # deep_calls 9) create_panel_store" by code_simp
  from calls_known_reach [OF this panels_reach.Start] have r: "panels_reach demo_env create_panel_store s" by (simp add: s_def cs_def)
  have "(case ws_layout (fold (call_panels demo_env) (Register note_panel # OpenPanel ''note'' None None None None # deep_calls 9) create_panel_store) of
      None \<Rightarrow> False | Some t \<Rightarrow> 8 < layout_depth t)" by code_simp
  then have "\<exists>t. ws_layout s = Some t \<and> 8 < layout_depth t" by (auto simp: s_def cs_def split: option.splits)
  with workspace_survives_restart [OF demo_env_ok panels_reach_sessions [OF r sessions_reach.Fresh]]
  have "ws_groups (restart_panels s) = []" by (simp add: restart_panels_def create_panel_store_def)
  then show "ws_groups (restart_panels (fold (call_panels demo_env)
      (Register note_panel # OpenPanel ''note'' None None None None # deep_calls 9) create_panel_store)) = []"
    unfolding s_def cs_def .
qed

section \<open>What the parser lets in\<close>

fun layout_typed :: "panel_group rec \<Rightarrow> layout_node \<Rightarrow> bool" where
  "layout_typed gs (LayoutLeaf g) = (rget gs g \<noteq> None)"
| "layout_typed gs (LayoutSplit i d q f s) = (100 \<le> q \<and> q \<le> 900 \<and> layout_typed gs f \<and> layout_typed gs s)"

definition is_data :: "panel_instance \<Rightarrow> bool" where
  "is_data x = (case pi_props x of None \<Rightarrow> False | Some ps \<Rightarrow> list_all (\<lambda>(k, v). \<exists>j. v = PropData j) ps)"

definition workspace_typed :: "workspace_state \<Rightarrow> bool" where
  "workspace_typed w \<longleftrightarrow> distinct (rkeys (ws_groups w)) \<and> list_all (\<lambda>(g, G). pg_id G = g \<and> list_all is_data (pg_instances G)) (ws_groups w)
     \<and> (case ws_layout w of None \<Rightarrow> True | Some t \<Rightarrow> layout_typed (ws_groups w) t \<and> layout_depth t \<le> 8)
     \<and> (case ws_active w of None \<Rightarrow> True | Some a \<Rightarrow> rget (ws_groups w) a \<noteq> None)"

lemma clamp_ratio_bounds: "100 \<le> clamp_ratio q" "clamp_ratio q \<le> 900"
  by (simp_all add: clamp_ratio_def)

lemma parse_instance_data: "parse_instance v = Some x \<Longrightarrow> is_data x"
  by (auto simp: parse_instance_def is_data_def list_all_iff split: json.splits option.splits)

lemma those_all: "those xs = Some ys \<Longrightarrow> (\<And>x y. x \<in> set xs \<Longrightarrow> x = Some y \<Longrightarrow> P y) \<Longrightarrow> list_all P ys"
  by (induction xs arbitrary: ys) (auto split: option.splits)

lemma parse_group_typed:
  assumes "parse_group g v = Some G"
  shows "pg_id G = g \<and> list_all is_data (pg_instances G)"
proof -
  from assms obtain kvs vs xs where xs: "v = JObj kvs" "those (map parse_instance vs) = Some xs"
    "G = \<lparr>pg_id = g, pg_instances = xs, pg_active = name_of_json (rget kvs ''activeInstanceId'')\<rparr>"
    by (auto simp: parse_group_def split: json.splits option.splits)
  have "list_all is_data xs" by (rule those_all [OF xs(2)]) (auto dest!: sym [of "Some _"] parse_instance_data)
  then show ?thesis by (simp add: xs(3))
qed

lemma parse_groups_typed:
  "parse_groups kvs gs = Some rows \<Longrightarrow> distinct (rkeys gs) \<Longrightarrow> \<forall>(g, G) \<in> set gs. pg_id G = g \<and> list_all is_data (pg_instances G) \<Longrightarrow>
     distinct (rkeys rows) \<and> (\<forall>(g, G) \<in> set rows. pg_id G = g \<and> list_all is_data (pg_instances G))"
proof (induction kvs gs rule: parse_groups.induct)
  case (2 g v kvs gs)
  then obtain G where G: "parse_group g v = Some G" by (auto split: option.splits)
  have "set (rset g G gs) \<subseteq> insert (g, G) (set gs)" by (induction gs) auto
  with parse_group_typed [OF G] 2(4) have "\<forall>(h, H) \<in> set (rset g G gs). pg_id H = h \<and> list_all is_data (pg_instances H)" by blast
  with 2(1) [OF G] 2(2,3) G show ?case by simp
qed simp

lemma parse_layout_typed: "parse_layout gs k v = Some t \<Longrightarrow> layout_typed gs t \<and> layout_depth t < k"
proof (induction k arbitrary: v t)
  case (Suc k)
  then show ?case
    by (auto simp: clamp_ratio_bounds bind_eq_Some_conv split: json.splits if_splits option.splits)
qed simp

text \<open>
  Whatever text is found at start, the parser makes a well-typed workspace of it or nothing. The
  groups have distinct names and carry them, every panel's properties are data, every leaf of the
  layout and the active group name a group there is, every ratio lies between 0.1 and 0.9 and the
  layout is at most eight splits deep.
\<close>

theorem parsed_workspace_typed:
  "case parse_panel_workspace v of None \<Rightarrow> True | Some w \<Rightarrow> workspace_typed w"
proof (cases "parse_panel_workspace v")
  case (Some w)
  then obtain kvs gvs gs where *: "v = JObj kvs" "rget kvs ''groups'' = Some (JObj gvs)" "parse_groups gvs [] = Some gs"
    by (auto simp: parse_panel_workspace_def split: json.splits option.splits)
  define lay where "lay = rget kvs ''layout''"
  define tree where "tree = (if is_nullish lay then None else Option.bind lay (parse_layout gs 9))"
  define act where "act = name_of_json (rget kvs ''activeGroupId'')"
  have w: "w = \<lparr>ws_groups = gs, ws_layout = tree, ws_active = (case act of None \<Rightarrow> None | Some a \<Rightarrow> if rget gs a \<noteq> None then Some a else None)\<rparr>"
    using Some * unfolding parse_panel_workspace_def by (simp add: Let_def lay_def [symmetric] tree_def [symmetric] act_def [symmetric] split: if_splits)
  have "layout_typed gs t \<and> layout_depth t \<le> 8" if "tree = Some t" for t
  proof -
    from that obtain y where "parse_layout gs 9 y = Some t" by (auto simp: tree_def bind_eq_Some_conv split: if_splits)
    from parse_layout_typed [OF this] show ?thesis by linarith
  qed
  moreover have "distinct (rkeys gs) \<and> (\<forall>(g, G) \<in> set gs. pg_id G = g \<and> list_all is_data (pg_instances G))"
    by (rule parse_groups_typed [OF *(3)]) simp_all
  ultimately have "workspace_typed w" unfolding w workspace_typed_def list_all_iff by (auto split: option.split)
  then show ?thesis by (simp add: Some)
qed simp

end
