(* ===== verification/JsonFields.thy ===== *)
theory JsonFields
  imports Json
begin

text \<open>
  Reading values that \<open>JSON.parse\<close> returned, as the parsers of the plugins' file formats do: objects
  in which the last of equal keys counts, whole numbers, decimal digits, and steps that may fail.
\<close>

section \<open>Steps that may fail\<close>

definition and_then :: "'e + 'a \<Rightarrow> ('a \<Rightarrow> 'e + 'b) \<Rightarrow> 'e + 'b" where
  "and_then x f = (case x of Inl e \<Rightarrow> Inl e | Inr a \<Rightarrow> f a)"

fun fold_sum :: "('a \<Rightarrow> 'b \<Rightarrow> 'e + 'b) \<Rightarrow> 'a list \<Rightarrow> 'b \<Rightarrow> 'e + 'b" where
  "fold_sum f [] acc = Inr acc"
| "fold_sum f (x # xs) acc = and_then (f x acc) (fold_sum f xs)"

text \<open>\<open>array.map\<close> with a function that may throw; the index is counted from 1.\<close>

fun map_sum :: "(nat \<Rightarrow> 'a \<Rightarrow> 'e + 'b) \<Rightarrow> nat \<Rightarrow> 'a list \<Rightarrow> 'e + 'b list" where
  "map_sum f n [] = Inr []"
| "map_sum f n (x # xs) = and_then (f n x) (\<lambda>y. and_then (map_sum f (Suc n) xs) (\<lambda>ys. Inr (y # ys)))"

lemma and_then_simps [simp]: "and_then (Inl e) f = Inl e" "and_then (Inr a) f = f a"
  by (simp_all add: and_then_def)

lemma and_then_Inr: "and_then x f = Inr b \<longleftrightarrow> (\<exists>a. x = Inr a \<and> f a = Inr b)"
  by (simp add: and_then_def split: sum.split)

lemma fold_sum_invariant:
  assumes "fold_sum f xs acc = Inr r" and "P acc"
    and "\<And>x acc acc'. x \<in> set xs \<Longrightarrow> P acc \<Longrightarrow> f x acc = Inr acc' \<Longrightarrow> P acc'"
  shows "P r"
  using assms by (induction xs arbitrary: acc) (auto simp: and_then_Inr)

lemma map_sum_Inr: "map_sum f n xs = Inr ys \<longleftrightarrow> length ys = length xs \<and> (\<forall>i < length xs. f (n + i) (xs ! i) = Inr (ys ! i))"
proof (induction xs arbitrary: n ys)
  case (Cons x xs)
  show ?case by (cases ys) (auto simp: and_then_Inr Cons.IH All_less_Suc2)
qed auto

lemma map_sum_each: "map_sum f n xs = Inr ys \<Longrightarrow> y \<in> set ys \<Longrightarrow> \<exists>i. \<exists>x \<in> set xs. f i x = Inr y"
  by (auto simp: map_sum_Inr in_set_conv_nth) (metis nth_mem)

lemma map_sum_printed: "(\<And>i x. x \<in> set xs \<Longrightarrow> f i (g x) = Inr x) \<Longrightarrow> map_sum f n (map g xs) = Inr xs"
  by (simp add: map_sum_Inr)

section \<open>Digits\<close>

definition is_digit_char :: "char \<Rightarrow> bool" where
  "is_digit_char c \<longleftrightarrow> in_range CHR ''0'' c CHR ''9''"

definition digits_value :: "string \<Rightarrow> nat" where
  "digits_value s = foldl (\<lambda>n c. n * 10 + (of_char c - 48)) 0 s"

text \<open>\<open>0|[1-9]\d*\<close>\<close>

definition is_index :: "string \<Rightarrow> bool" where
  "is_index s \<longleftrightarrow> s \<noteq> [] \<and> list_all is_digit_char s \<and> (s = ''0'' \<or> hd s \<noteq> CHR ''0'')"

lemma char_of_neq: "n < 256 \<Longrightarrow> of_char c \<noteq> n \<Longrightarrow> char_of (n :: nat) \<noteq> c"
  by auto

lemma digit:
  assumes "n < 10"
  shows "is_digit_char (char_of (48 + n :: nat))" "(char_of (48 + n :: nat) = CHR ''0'') = (n = 0)"
proof -
  have v: "(48 + n) mod 256 = 48 + n" using assms by simp
  show "is_digit_char (char_of (48 + n :: nat))" using assms by (simp add: is_digit_char_def in_range_def v)
  have "char_of (48 + n :: nat) \<noteq> CHR ''0''" if "n \<noteq> 0" using assms that by (intro char_of_neq) simp_all
  moreover have "char_of (48 :: nat) = CHR ''0''" by code_simp
  ultimately show "(char_of (48 + n :: nat) = CHR ''0'') = (n = 0)" by (cases "n = 0") simp_all
qed

lemma digits_value_snoc: "digits_value (s @ [c]) = digits_value s * 10 + (of_char c - 48)"
  by (simp add: digits_value_def)

lemma show_nat_digits: "list_all is_digit_char (show_nat n)"
proof (induction n rule: show_nat.induct)
  case (1 n)
  then show ?case by (subst show_nat.simps) (simp add: digit(1))
qed

lemma digits_value_show [simp]: "digits_value (show_nat n) = n"
proof (induction n rule: show_nat.induct)
  case (1 n)
  show ?case
  proof (cases "n < 10")
    case True
    then show ?thesis by (subst show_nat.simps) (simp add: digits_value_def)
  next
    case False
    then show ?thesis using 1 by (subst show_nat.simps) (simp add: digits_value_snoc)
  qed
qed

lemma show_nat_hd: "0 < n \<Longrightarrow> hd (show_nat n) \<noteq> CHR ''0''"
proof (induction n rule: show_nat.induct)
  case (1 n)
  show ?case
  proof (cases "n < 10")
    case True
    then show ?thesis using 1(2) by (subst show_nat.simps) (simp add: digit(2))
  next
    case False
    then have "hd (show_nat (n div 10)) \<noteq> CHR ''0''" using 1 by simp
    then show ?thesis using False by (subst show_nat.simps) simp
  qed
qed

lemma show_nat_length: "n < 10 ^ Suc k \<Longrightarrow> length (show_nat n) \<le> Suc k"
proof (induction k arbitrary: n)
  case (Suc k)
  show ?case
  proof (cases "n < 10")
    case True
    then show ?thesis by (subst show_nat.simps) simp
  next
    case False
    have "n div 10 < 10 ^ Suc k" using Suc.prems by (simp add: less_mult_imp_div_less mult.commute)
    then have "length (show_nat (n div 10)) \<le> Suc k" by (rule Suc.IH)
    then show ?thesis using False by (subst show_nat.simps) simp
  qed
qed (subst show_nat.simps, simp)

section \<open>Objects\<close>

text \<open>What \<open>JSON.parse\<close> makes of an object: of equal keys the last counts.\<close>

definition js_object :: "'v rec \<Rightarrow> 'v rec" where
  "js_object kvs = fold (\<lambda>(k, v) r. rset k v r) kvs []"

lemma rset_fresh: "k \<notin> set (rkeys r) \<Longrightarrow> rset k v r = r @ [(k, v)]"
  by (induction r) auto

lemma js_object_fold: "distinct (rkeys kvs) \<Longrightarrow> set (rkeys r) \<inter> set (rkeys kvs) = {} \<Longrightarrow> fold (\<lambda>(k, v) r. rset k v r) kvs r = r @ kvs"
  by (induction kvs arbitrary: r) (auto simp: rset_fresh)

lemma js_object_same [simp]: "distinct (rkeys kvs) \<Longrightarrow> js_object kvs = kvs"
  by (simp add: js_object_def js_object_fold)

lemma js_object_distinct [simp]: "distinct (rkeys (js_object kvs))"
proof -
  have "distinct (rkeys r) \<Longrightarrow> distinct (rkeys (fold (\<lambda>(k, v) r. rset k v r) kvs r))" for r
    by (induction kvs arbitrary: r) (simp_all split: prod.split)
  then show ?thesis by (simp add: js_object_def)
qed

text \<open>\<open>String(value)\<close>\<close>

fun js_string :: "json \<Rightarrow> string" where
  "js_string JNull = ''null''"
| "js_string (JBool b) = (if b then ''true'' else ''false'')"
| "js_string (JNum k) = show_num k"
| "js_string (JStr s) = s"
| "js_string (JArr vs) = join '','' (map (\<lambda>v. if v = JNull then [] else js_string v) vs)"
| "js_string (JObj kvs) = ''[object Object]''"

definition only_keys :: "string list \<Rightarrow> 'v rec \<Rightarrow> bool" where
  "only_keys ks r \<longleftrightarrow> list_all (\<lambda>k. k \<in> set ks) (rkeys r)"

section \<open>Whole numbers\<close>

definition whole :: "int \<Rightarrow> bool" where
  "whole k \<longleftrightarrow> k mod 1000 = 0"

definition json_of_nat :: "nat \<Rightarrow> json" where
  "json_of_nat n = JNum (1000 * int n)"

lemma json_of_nat_eq [simp]: "json_of_nat n = json_of_nat m \<longleftrightarrow> n = m"
  by (simp add: json_of_nat_def)

section \<open>Text\<close>

text \<open>Well-formed UTF-8, as \<open>TextDecoder\<close> with \<open>fatal\<close> accepts it.\<close>

definition utf8_tail :: "nat \<Rightarrow> bool" where
  "utf8_tail c \<longleftrightarrow> 128 \<le> c \<and> c \<le> 191"

fun utf8_valid :: "nat list \<Rightarrow> bool" where
  "utf8_valid [] = True"
| "utf8_valid (b # bs) =
     (if b < 128 then utf8_valid bs
      else if 194 \<le> b \<and> b \<le> 223 then (case bs of c # r \<Rightarrow> utf8_tail c \<and> utf8_valid r | _ \<Rightarrow> False)
      else if 224 \<le> b \<and> b \<le> 239 then
        (case bs of c # d # r \<Rightarrow> (if b = 224 then 160 else 128) \<le> c \<and> c \<le> (if b = 237 then 159 else 191) \<and> utf8_tail d \<and> utf8_valid r | _ \<Rightarrow> False)
      else if 240 \<le> b \<and> b \<le> 244 then
        (case bs of c # d # e # r \<Rightarrow> (if b = 240 then 144 else 128) \<le> c \<and> c \<le> (if b = 244 then 143 else 191) \<and> utf8_tail d \<and> utf8_tail e \<and> utf8_valid r | _ \<Rightarrow> False)
      else False)"

text \<open>A byte order mark is not part of the text.\<close>

definition decode_text :: "bytes \<Rightarrow> string option" where
  "decode_text b =
     (if \<not> utf8_valid (map unat b) then None
      else Some (utf8_decode (if take 3 b = [0xEF, 0xBB, 0xBF] then drop 3 b else b)))"

text \<open>Text of ASCII characters is its own UTF-8 form.\<close>

definition ascii :: "string \<Rightarrow> bool" where
  "ascii s \<longleftrightarrow> list_all (\<lambda>c. (of_char c :: nat) < 128) s"

lemma ascii_simps [simp]: "ascii []" "ascii (c # s) \<longleftrightarrow> (of_char c :: nat) < 128 \<and> ascii s" "ascii (s @ t) \<longleftrightarrow> ascii s \<and> ascii t"
  by (simp_all add: ascii_def)

lemma ascii_quote: "ascii s \<Longrightarrow> ascii (quote_json s)"
proof -
  have "(of_char (hex_digit k) :: nat) < 128" if "k < 16" for k using that by (cases "k < 10") (simp_all add: hex_digit.simps)
  moreover have "n div 16 < 16" if "n < 128" for n :: nat using that by simp
  ultimately have "ascii (escape_char c)" if "(of_char c :: nat) < 128" for c
    using that by (auto simp: escape_char_def Let_def backslash_def dquote_def simp del: hex_digit.simps)
  then have "ascii s \<Longrightarrow> ascii (concat (map escape_char s))" by (induction s) simp_all
  then show "ascii s \<Longrightarrow> ascii (quote_json s)" by (simp add: quote_json_def dquote_def)
qed

lemma ascii_show_num: "ascii (show_num k)"
proof -
  have "ascii (show_nat n)" for n
    using show_nat_digits [of n] unfolding ascii_def by (rule list.pred_mono_strong) (auto simp: is_digit_char_def in_range_def)
  moreover have "ascii (show_fraction f)" if "f < 1000" for f using that by (auto simp: show_fraction_def Let_def)
  ultimately show ?thesis by (simp add: show_num_def)
qed

lemma decode_ascii: "ascii s \<Longrightarrow> decode_text (utf8_encode s) = Some s"
proof -
  assume s: "ascii s"
  have "unat (byte_of_char c) = of_char c" for c
  proof -
    have "(of_char c :: nat) < 256" by simp
    then show ?thesis by (simp add: byte_of_char_def unat_of_nat take_bit_nat_eq_self)
  qed
  then have nats: "map unat (utf8_encode s) = map of_char s" by (simp add: utf8_encode_def)
  have "utf8_valid (map of_char s)" using s by (induction s) (auto simp: ascii_def)
  moreover have "take 3 (utf8_encode s) \<noteq> [0xEF, 0xBB, 0xBF]"
  proof
    assume "take 3 (utf8_encode s) = [0xEF, 0xBB, 0xBF]"
    then have "take 3 (map unat (utf8_encode s)) = [239, 187, 191]" by (simp add: take_map)
    then have "take 3 (map of_char s) = [239, 187, 191 :: nat]" unfolding nats .
    then show False using s by (cases s) (auto simp: ascii_def)
  qed
  ultimately show ?thesis by (simp add: decode_text_def nats)
qed

end
