(* ===== verification/Sheets.thy ===== *)
theory Sheets
  imports JsonFields
begin

text \<open>
  One worksheet: \<open>plugins/sheets/src/model.ts\<close> with the cell format of \<open>format.ts\<close>. Addresses, the
  parser with all its limits, ranges, and the undo history of a sheet. A cell text counts its length in
  the units of the string; the numbers of the JSON are in thousandths, so that a fraction is seen and refused.
\<close>

section \<open>Limits and data\<close>

definition max_rows :: nat where "max_rows = 10000"
definition max_columns :: nat where "max_columns = 256"
definition max_cells :: nat where "max_cells = 50000"
definition max_input :: nat where "max_input = 4096"
definition max_file_bytes :: nat where "max_file_bytes = 8 * 1024 * 1024"
definition max_range :: nat where "max_range = 50000"

text \<open>The bound 2_000_000 on the text of all cells together.\<close>

definition max_content :: nat where "max_content = 2000000"

record point =
  pt_row :: nat
  pt_column :: nat

text \<open>The kind is what the parser lets through: it looks only at \<open>String(kind)\<close>.\<close>

record cell_format =
  cf_kind :: json
  cf_decimals :: nat
  cf_currency :: string

record sheet =
  sh_rows :: nat
  sh_columns :: nat
  sh_cells :: "string rec"
  sh_formats :: "cell_format rec option"
  sh_widths :: "nat rec option"
  sh_wrap :: "bool option"
  sh_freeze :: "(nat \<times> nat) option"

datatype sheets_error = SheetsError string | SheetsSyntax | SheetsTypeError

section \<open>Addresses\<close>

text \<open>The loop of \<open>columnName\<close>, from the last letter to the first.\<close>

fun column_letters :: "nat \<Rightarrow> string" where
  "column_letters n = (if n = 0 then [] else column_letters ((n - 1) div 26) @ [char_of (65 + (n - 1) mod 26)])"

declare column_letters.simps [simp del]

definition column_name :: "nat \<Rightarrow> string" where
  "column_name column = column_letters (column + 1)"

definition address :: "point \<Rightarrow> string" where
  "address p = column_name (pt_column p) @ show_nat (pt_row p + 1)"

definition is_letter :: "char \<Rightarrow> bool" where
  "is_letter c \<longleftrightarrow> in_range CHR ''A'' (to_upper c) CHR ''Z''"

definition strip_dollar :: "string \<Rightarrow> string" where
  "strip_dollar s = (if s \<noteq> [] \<and> hd s = CHR ''$'' then tl s else s)"

definition letters_value :: "string \<Rightarrow> nat" where
  "letters_value s = foldl (\<lambda>n c. n * 26 + (of_char (to_upper c) - 64)) 0 s"

definition point_of :: "string \<Rightarrow> point option" where
  "point_of v =
     (let s = strip_dollar v;
          letters = takeWhile is_letter s;
          digits = strip_dollar (dropWhile is_letter s)
      in if letters = [] \<or> length letters > 3 \<or> digits = [] \<or> length digits > 5 \<or> hd digits = CHR ''0'' \<or> \<not> list_all is_digit_char digits then None
         else let column = letters_value letters; row = digits_value digits - 1
              in if row < max_rows \<and> column \<le> max_columns then Some \<lparr>pt_row = row, pt_column = column - 1\<rparr> else None)"

definition empty_sheet :: sheet where
  "empty_sheet = \<lparr>sh_rows = 1000, sh_columns = 26, sh_cells = [], sh_formats = None, sh_widths = None, sh_wrap = None, sh_freeze = None\<rparr>"

text \<open>The test that a key is the canonical address of a cell of the sheet.\<close>

definition cell_in :: "nat \<Rightarrow> nat \<Rightarrow> string \<Rightarrow> bool" where
  "cell_in rows columns key =
     (case point_of key of
        None \<Rightarrow> False
      | Some p \<Rightarrow> address p = key \<and> pt_row p < rows \<and> pt_column p < columns)"

section \<open>The parser\<close>

text \<open>An integer from \<open>lo\<close> to \<open>hi\<close>.\<close>

definition int_field :: "json option \<Rightarrow> nat \<Rightarrow> nat \<Rightarrow> nat option" where
  "int_field v lo hi =
     (case v of
        Some (JNum k) \<Rightarrow> if whole k \<and> int lo \<le> k div 1000 \<and> k div 1000 \<le> int hi then Some (nat (k div 1000)) else None
      | _ \<Rightarrow> None)"

definition parse_cell :: "nat \<Rightarrow> nat \<Rightarrow> string \<times> json \<Rightarrow> string rec \<times> nat \<Rightarrow> sheets_error + (string rec \<times> nat)" where
  "parse_cell rows columns = (\<lambda>(key, input) (cells, sz).
     case input of
       JStr t \<Rightarrow>
         if \<not> cell_in rows columns key \<or> length t > max_input then Inl (SheetsError ''SheetInvalidCell'')
         else if sz + length t > max_content then Inl (SheetsError ''SheetContentTooLong'')
         else Inr (if t \<noteq> [] then rset key t cells else cells, sz + length t)
     | _ \<Rightarrow> Inl (SheetsError ''SheetInvalidCell''))"

definition number_kinds :: "string list" where
  "number_kinds = [''general'', ''number'', ''percent'', ''currency'', ''date'']"

definition is_currency :: "string \<Rightarrow> bool" where
  "is_currency s \<longleftrightarrow> length s = 3 \<and> list_all (\<lambda>c. in_range CHR ''A'' c CHR ''Z'') s"

definition parse_format :: "nat \<Rightarrow> nat \<Rightarrow> string \<Rightarrow> json \<Rightarrow> sheets_error + cell_format" where
  "parse_format rows columns key v =
     (case v of
        JObj kvs \<Rightarrow>
          (let f = js_object kvs in
             case (rget f ''kind'', int_field (rget f ''decimals'') 0 10, rget f ''currency'') of
               (Some kind, Some decimals, Some (JStr currency)) \<Rightarrow>
                 if \<not> cell_in rows columns key \<or> \<not> only_keys [''kind'', ''decimals'', ''currency''] f
                    \<or> js_string kind \<notin> set number_kinds \<or> \<not> is_currency currency
                 then Inl (SheetsError ''SheetInvalidFormat'')
                 else Inr \<lparr>cf_kind = kind, cf_decimals = decimals, cf_currency = currency\<rparr>
             | _ \<Rightarrow> Inl (SheetsError ''SheetInvalidFormat''))
      | _ \<Rightarrow> Inl (SheetsError ''SheetInvalidFormat''))"

definition parse_width :: "nat \<Rightarrow> string \<Rightarrow> json \<Rightarrow> sheets_error + nat" where
  "parse_width columns key v =
     (case int_field (Some v) 64 640 of
        None \<Rightarrow> Inl (SheetsError ''SheetInvalidWidth'')
      | Some w \<Rightarrow>
          if \<not> is_index key \<or> digits_value key \<ge> columns \<or> w mod 4 \<noteq> 0 then Inl (SheetsError ''SheetInvalidWidth'')
          else Inr w)"

text \<open>A record, entry by entry.\<close>

definition parse_record :: "(string \<Rightarrow> json \<Rightarrow> sheets_error + 'a) \<Rightarrow> json rec \<Rightarrow> sheets_error + 'a rec" where
  "parse_record g kvs = fold_sum (\<lambda>(key, v) r. and_then (g key v) (\<lambda>w. Inr (rset key w r))) kvs []"

definition parse_formats :: "nat \<Rightarrow> nat \<Rightarrow> json option \<Rightarrow> sheets_error + cell_format rec option" where
  "parse_formats rows columns v =
     (case v of
        None \<Rightarrow> Inr None
      | Some (JObj kvs) \<Rightarrow>
          if length (js_object kvs) > max_cells then Inl (SheetsError ''SheetInvalidFormats'')
          else and_then (parse_record (parse_format rows columns) (js_object kvs)) (\<lambda>fs. Inr (Some fs))
      | _ \<Rightarrow> Inl (SheetsError ''SheetInvalidFormats''))"

definition parse_widths :: "nat \<Rightarrow> json option \<Rightarrow> sheets_error + nat rec option" where
  "parse_widths columns v =
     (case v of
        None \<Rightarrow> Inr None
      | Some (JObj kvs) \<Rightarrow>
          if length (js_object kvs) > columns then Inl (SheetsError ''SheetInvalidWidths'')
          else and_then (parse_record (parse_width columns) (js_object kvs)) (\<lambda>ws. Inr (Some ws))
      | _ \<Rightarrow> Inl (SheetsError ''SheetInvalidWidths''))"

definition parse_wrap :: "json option \<Rightarrow> sheets_error + bool option" where
  "parse_wrap v = (case v of None \<Rightarrow> Inr None | Some (JBool b) \<Rightarrow> Inr (Some b) | _ \<Rightarrow> Inl (SheetsError ''SheetInvalidWrap''))"

definition parse_freeze :: "nat \<Rightarrow> nat \<Rightarrow> json option \<Rightarrow> sheets_error + (nat \<times> nat) option" where
  "parse_freeze rows columns v =
     (case v of
        None \<Rightarrow> Inr None
      | Some (JObj kvs) \<Rightarrow>
          (let f = js_object kvs in
             case (int_field (rget f ''rows'') 0 (min 3 rows), int_field (rget f ''columns'') 0 (min 2 columns)) of
               (Some r, Some c) \<Rightarrow> if only_keys [''rows'', ''columns''] f then Inr (Some (r, c)) else Inl (SheetsError ''SheetInvalidFreeze'')
             | _ \<Rightarrow> Inl (SheetsError ''SheetInvalidFreeze''))
      | _ \<Rightarrow> Inl (SheetsError ''SheetInvalidFreeze''))"

definition sheet_fields :: "string list" where
  "sheet_fields = [''version'', ''rows'', ''columns'', ''cells'', ''formats'', ''widths'', ''wrap'', ''freeze'']"

definition parse_sheet_value :: "json \<Rightarrow> sheets_error + sheet" where
  "parse_sheet_value value =
     (case value of
        JObj kvs \<Rightarrow>
          (let v = js_object kvs in
           if rget v ''version'' \<noteq> Some (JNum 1000) \<or> \<not> only_keys sheet_fields v then Inl (SheetsError ''SheetUnsupportedFormat'')
           else (case (int_field (rget v ''rows'') 1 max_rows, int_field (rget v ''columns'') 1 max_columns, rget v ''cells'') of
                   (Some rows, Some columns, Some (JObj cs)) \<Rightarrow>
                     if length (js_object cs) > max_cells then Inl (SheetsError ''SheetTooManyCells'')
                     else and_then (fold_sum (parse_cell rows columns) (js_object cs) ([], 0)) (\<lambda>(cells, _).
                          and_then (parse_formats rows columns (rget v ''formats'')) (\<lambda>formats.
                          and_then (parse_widths columns (rget v ''widths'')) (\<lambda>widths.
                          and_then (parse_wrap (rget v ''wrap'')) (\<lambda>wrap.
                          and_then (parse_freeze rows columns (rget v ''freeze'')) (\<lambda>freeze.
                            Inr \<lparr>sh_rows = rows, sh_columns = columns, sh_cells = cells, sh_formats = formats,
                              sh_widths = widths, sh_wrap = wrap, sh_freeze = freeze\<rparr>)))))
                 | _ \<Rightarrow> Inl (SheetsError ''SheetInvalidDimensions'')))
      | _ \<Rightarrow> Inl (SheetsError ''SheetUnsupportedFormat''))"

definition parse_sheet :: "string \<Rightarrow> sheets_error + sheet" where
  "parse_sheet raw =
     (if length raw > max_file_bytes then Inl (SheetsError ''SheetFileTooLarge'')
      else case parse_json raw of None \<Rightarrow> Inl SheetsSyntax | Some v \<Rightarrow> parse_sheet_value v)"

text \<open>\<open>JSON.stringify(sheet)\<close>, fields in the order the parser sets them.\<close>

definition json_of_format :: "cell_format \<Rightarrow> json" where
  "json_of_format f = JObj [(''kind'', cf_kind f), (''decimals'', json_of_nat (cf_decimals f)), (''currency'', JStr (cf_currency f))]"

definition opt_member :: "string \<Rightarrow> ('a \<Rightarrow> json) \<Rightarrow> 'a option \<Rightarrow> (string \<times> json) list" where
  "opt_member k f x = (case x of None \<Rightarrow> [] | Some a \<Rightarrow> [(k, f a)])"

definition json_of_rec :: "('a \<Rightarrow> json) \<Rightarrow> 'a rec \<Rightarrow> json" where
  "json_of_rec f r = JObj (map (\<lambda>(k, v). (k, f v)) r)"

definition json_of_freeze :: "nat \<times> nat \<Rightarrow> json" where
  "json_of_freeze = (\<lambda>(r, c). JObj [(''rows'', json_of_nat r), (''columns'', json_of_nat c)])"

definition json_of_meta :: "sheet \<Rightarrow> (string \<times> json) list" where
  "json_of_meta s = opt_member ''formats'' (json_of_rec json_of_format) (sh_formats s) @ opt_member ''widths'' (json_of_rec json_of_nat) (sh_widths s)
     @ opt_member ''wrap'' JBool (sh_wrap s) @ opt_member ''freeze'' json_of_freeze (sh_freeze s)"

definition json_of_sheet :: "sheet \<Rightarrow> json" where
  "json_of_sheet s = JObj ([(''version'', JNum 1000), (''rows'', json_of_nat (sh_rows s)), (''columns'', json_of_nat (sh_columns s)),
     (''cells'', json_of_rec JStr (sh_cells s))] @ json_of_meta s)"

section \<open>Ranges\<close>

definition range_points :: "point \<Rightarrow> point \<Rightarrow> sheets_error + point list" where
  "range_points a b =
     (let top = min (pt_row a) (pt_row b); bottom = max (pt_row a) (pt_row b);
          left = min (pt_column a) (pt_column b); right = max (pt_column a) (pt_column b)
      in if (bottom - top + 1) * (right - left + 1) > max_range then Inl (SheetsError ''SheetRangeTooLarge'')
         else Inr (concat (map (\<lambda>row. map (\<lambda>column. \<lparr>pt_row = row, pt_column = column\<rparr>) [left..<right + 1]) [top..<bottom + 1])))"

section \<open>The history of a sheet\<close>

record sheet_change =
  sc_before :: "string rec"
  sc_after :: "string rec"
  sc_size :: nat

text \<open>Both stacks have their top at the end.\<close>

record sheet_history =
  hi_sheet :: sheet
  hi_undo :: "sheet_change list"
  hi_redo :: "sheet_change list"
  hi_size :: int
  hi_contentSize :: int
  hi_cellCount :: int

definition content_size :: "string rec \<Rightarrow> nat" where
  "content_size cells = sum_list (map (length \<circ> snd) cells)"

definition new_history :: "sheet \<Rightarrow> sheet_history" where
  "new_history s = \<lparr>hi_sheet = s, hi_undo = [], hi_redo = [], hi_size = 0,
     hi_contentSize = int (content_size (sh_cells s)), hi_cellCount = int (length (sh_cells s))\<rparr>"

definition can_undo :: "sheet_history \<Rightarrow> bool" where "can_undo h \<longleftrightarrow> hi_undo h \<noteq> []"
definition can_redo :: "sheet_history \<Rightarrow> bool" where "can_redo h \<longleftrightarrow> hi_redo h \<noteq> []"

text \<open>\<open>cells[key] ?? ''\<close>\<close>

definition cell_text :: "string rec \<Rightarrow> string \<Rightarrow> string" where
  "cell_text cells key = (case rget cells key of None \<Rightarrow> [] | Some t \<Rightarrow> t)"

definition filled :: "string \<Rightarrow> int" where
  "filled t = (if t = [] then 0 else 1)"

definition put_cell :: "string \<Rightarrow> string \<Rightarrow> string rec \<Rightarrow> string rec" where
  "put_cell key t cells = (if t = [] then rdel key cells else rset key t cells)"

definition write_cell :: "string \<times> string \<Rightarrow> sheet_history \<Rightarrow> sheet_history" where
  "write_cell = (\<lambda>(key, t) h.
     let cells = sh_cells (hi_sheet h); old = cell_text cells key
     in h\<lparr>hi_contentSize := hi_contentSize h + (int (length t) - int (length old)), hi_cellCount := hi_cellCount h + (filled t - filled old),
          hi_sheet := (hi_sheet h)\<lparr>sh_cells := put_cell key t cells\<rparr>\<rparr>)"

definition write_patch :: "string rec \<Rightarrow> sheet_history \<Rightarrow> sheet_history" where
  "write_patch patch h = fold write_cell patch h"

text \<open>What a patch would change, with the totals it would lead to.\<close>

record patch_plan =
  pp_before :: "string rec"
  pp_after :: "string rec"
  pp_size :: int
  pp_count :: int
  pp_history :: nat

definition plan_cell :: "sheets_error \<Rightarrow> sheet \<Rightarrow> string \<times> string \<Rightarrow> patch_plan \<Rightarrow> sheets_error + patch_plan" where
  "plan_cell e s = (\<lambda>(key, input) p.
     if \<not> cell_in (sh_rows s) (sh_columns s) key \<or> length input > max_input then Inl e
     else let old = cell_text (sh_cells s) key
          in if old = input then Inr p
             else Inr (p\<lparr>pp_before := rset key old (pp_before p), pp_after := rset key input (pp_after p),
                    pp_size := pp_size p + (int (length input) - int (length old)), pp_count := pp_count p + (filled input - filled old),
                    pp_history := pp_history p + length old + length input + length key * 2\<rparr>))"

text \<open>The loop that forgets the oldest changes.\<close>

fun trim_history :: "sheet_change list \<Rightarrow> int \<Rightarrow> sheet_change list \<times> int" where
  "trim_history [] sz = ([], sz)"
| "trim_history (c # cs) sz =
     (if length (c # cs) > 100 \<or> sz > 4000000 \<and> length (c # cs) > 1 then trim_history cs (sz - int (sc_size c)) else (c # cs, sz))"

definition apply_patch :: "string rec \<Rightarrow> sheet_history \<Rightarrow> (sheets_error + string rec option) \<times> sheet_history" where
  "apply_patch patch h =
     (case fold_sum (plan_cell (SheetsError ''SheetCellOutOfBounds'') (hi_sheet h)) patch
             \<lparr>pp_before = [], pp_after = [], pp_size = hi_contentSize h, pp_count = hi_cellCount h, pp_history = 0\<rparr> of
        Inl e \<Rightarrow> (Inl e, h)
      | Inr p \<Rightarrow>
          if pp_size p > int max_content \<or> pp_count p > int max_cells then (Inl (SheetsError ''SheetCapacityExceeded''), h)
          else if pp_after p = [] then (Inr None, h)
          else let h = write_patch (pp_after p) h;
                   (undo, sz) = trim_history (hi_undo h @ [\<lparr>sc_before = pp_before p, sc_after = pp_after p, sc_size = pp_history p\<rparr>])
                     (hi_size h + int (pp_history p))
               in (Inr (Some (pp_after p)), h\<lparr>hi_redo := [], hi_undo := undo, hi_size := sz\<rparr>))"

definition undo_patch :: "sheet_history \<Rightarrow> string rec option \<times> sheet_history" where
  "undo_patch h =
     (if hi_undo h = [] then (None, h)
      else let c = last (hi_undo h)
           in (Some (sc_before c), write_patch (sc_before c)
                 (h\<lparr>hi_undo := butlast (hi_undo h), hi_size := hi_size h - int (sc_size c), hi_redo := hi_redo h @ [c]\<rparr>)))"

definition redo_patch :: "sheet_history \<Rightarrow> string rec option \<times> sheet_history" where
  "redo_patch h =
     (if hi_redo h = [] then (None, h)
      else let c = last (hi_redo h)
           in (Some (sc_after c), write_patch (sc_after c)
                 (h\<lparr>hi_redo := butlast (hi_redo h), hi_undo := hi_undo h @ [c], hi_size := hi_size h + int (sc_size c)\<rparr>)))"

end
