(* ===== verification/SheetProps.thy ===== *)
theory SheetProps
  imports Sheets
begin

text \<open>
  What one worksheet promises: addresses name cells one to one, the parser lets through only valid sheets and
  reads every valid sheet back, and undo takes back exactly what was applied.
\<close>

section \<open>Addresses\<close>

lemma letter:
  assumes "n < 26"
  shows "is_letter (char_of (65 + n :: nat))" "to_upper (char_of (65 + n)) = char_of (65 + n)" "char_of (65 + n :: nat) \<noteq> CHR ''$''"
proof -
  have v: "(65 + n) mod 256 = 65 + n" using assms by simp
  show up: "to_upper (char_of (65 + n)) = char_of (65 + n)" using assms by (simp add: to_upper_def in_range_def v)
  show "is_letter (char_of (65 + n :: nat))" using assms unfolding is_letter_def up by (simp add: in_range_def v)
  show "char_of (65 + n :: nat) \<noteq> CHR ''$''" using assms by (intro char_of_neq) simp_all
qed

lemma letters_value_snoc: "letters_value (s @ [c]) = letters_value s * 26 + (of_char (to_upper c) - 64)"
  by (simp add: letters_value_def)

lemma column_letters_all: "list_all is_letter (column_letters n)"
proof (induction n rule: column_letters.induct)
  case (1 n)
  then show ?case by (subst column_letters.simps) (simp add: letter)
qed

lemma letters_value_column [simp]: "letters_value (column_letters n) = n"
proof (induction n rule: column_letters.induct)
  case (1 n)
  show ?case
  proof (cases "n = 0")
    case True
    then show ?thesis by (simp add: column_letters.simps letters_value_def)
  next
    case False
    let ?m = "(n - 1) mod 26"
    have "letters_value (column_letters n) = letters_value (column_letters ((n - 1) div 26)) * 26 + (of_char (to_upper (char_of (65 + ?m))) - 64)"
      using False by (subst column_letters.simps) (simp add: letters_value_snoc)
    also have "\<dots> = (n - 1) div 26 * 26 + (?m + 1)" using 1 False by (simp add: letter(2))
    also have "\<dots> = n" using False by simp
    finally show ?thesis .
  qed
qed

lemma column_letters_Nil [simp]: "column_letters n = [] \<longleftrightarrow> n = 0"
  by (subst column_letters.simps) simp

lemma column_letters_hd: "0 < n \<Longrightarrow> hd (column_letters n) \<noteq> CHR ''$''"
  using column_letters_all [of n] by (cases "column_letters n") (auto simp: is_letter_def in_range_def to_upper_def)

lemma column_letters_length: "n < 26 ^ k \<Longrightarrow> length (column_letters n) \<le> k"
proof (induction k arbitrary: n)
  case (Suc k)
  show ?case
  proof (cases "n = 0")
    case False
    then have "(n - 1) div 26 < 26 ^ k" using Suc.prems by (simp add: less_mult_imp_div_less mult.commute)
    then have "length (column_letters ((n - 1) div 26)) \<le> k" by (rule Suc.IH)
    then show ?thesis using False by (subst column_letters.simps) simp
  qed (simp add: column_letters.simps)
qed (simp add: column_letters.simps)

lemma digit_not_letter: "is_digit_char c \<Longrightarrow> \<not> is_letter c \<and> c \<noteq> CHR ''$''"
  by (auto simp: is_digit_char_def is_letter_def in_range_def to_upper_def)

lemma show_nat_head_digit: "\<not> is_letter (hd (show_nat n)) \<and> hd (show_nat n) \<noteq> CHR ''$''"
  using show_nat_digits [of n] by (cases "show_nat n") (auto dest: digit_not_letter)

lemma point_of_address:
  assumes "pt_row p < max_rows" and "pt_column p < max_columns"
  shows "point_of (address p) = Some p"
proof -
  let ?l = "column_letters (pt_column p + 1)" and ?d = "show_nat (pt_row p + 1)"
  have strip: "strip_dollar (address p) = ?l @ ?d"
    using column_letters_hd [of "pt_column p + 1"] by (simp add: strip_dollar_def address_def column_name_def hd_append)
  have tw: "takeWhile is_letter (?l @ ?d) = ?l" "dropWhile is_letter (?l @ ?d) = ?d"
    using column_letters_all show_nat_head_digit [of "pt_row p + 1"]
    by (simp_all add: list_all_iff takeWhile_append2 dropWhile_append2 takeWhile_eq_Nil_iff dropWhile_eq_self_iff)
  have "length ?l \<le> 3" using assms(2) by (intro column_letters_length) (simp add: max_columns_def)
  moreover have "length ?d \<le> Suc 4" using assms(1) by (intro show_nat_length) (simp add: max_rows_def)
  moreover have "strip_dollar ?d = ?d" using show_nat_head_digit [of "pt_row p + 1"] by (simp add: strip_dollar_def)
  ultimately show ?thesis
    using assms show_nat_hd [of "pt_row p + 1"] show_nat_digits [of "pt_row p + 1"]
    unfolding point_of_def Let_def strip tw by simp
qed

section \<open>Valid sheets\<close>

text \<open>A record parses to the record of its parsed entries.\<close>

lemma parse_record_from:
  assumes "distinct (rkeys kvs)" and "set (rkeys r) \<inter> set (rkeys kvs) = {}"
  shows "fold_sum (\<lambda>(key, v) r. and_then (g key v) (\<lambda>w. Inr (rset key w r))) kvs r = Inr s \<longleftrightarrow>
    (\<exists>ws. s = r @ ws \<and> list_all2 (\<lambda>(k, v) (k', w). k' = k \<and> g k v = Inr w) kvs ws)"
  using assms
proof (induction kvs arbitrary: r s)
  case (Cons x kvs)
  obtain k v where x: "x = (k, v)" by force
  have "set (rkeys (r @ [(k, w)])) \<inter> set (rkeys kvs) = {}" for w using Cons.prems unfolding x by auto
  then have IH: "fold_sum (\<lambda>(key, v) r. and_then (g key v) (\<lambda>w. Inr (rset key w r))) kvs (r @ [(k, w)]) = Inr s \<longleftrightarrow>
    (\<exists>ws. s = (r @ [(k, w)]) @ ws \<and> list_all2 (\<lambda>(k, v) (k', w). k' = k \<and> g k v = Inr w) kvs ws)" for w s
    using Cons.prems(1) by (intro Cons.IH) simp_all
  have fresh: "rset k w r = r @ [(k, w)]" for w using Cons.prems(2) unfolding x by (intro rset_fresh) auto
  show ?case
    unfolding x by (auto simp: and_then_Inr fresh IH list_all2_Cons1)
qed auto

lemma parse_record_iff:
  "distinct (rkeys kvs) \<Longrightarrow> parse_record g kvs = Inr ws \<longleftrightarrow> list_all2 (\<lambda>(k, v) (k', w). k' = k \<and> g k v = Inr w) kvs ws"
  unfolding parse_record_def by (subst parse_record_from) auto

lemma parse_record_keys: "distinct (rkeys kvs) \<Longrightarrow> parse_record g kvs = Inr ws \<Longrightarrow> rkeys ws = rkeys kvs"
proof -
  assume "distinct (rkeys kvs)" and "parse_record g kvs = Inr ws"
  then have "list_all2 (\<lambda>(k, v) (k', w). k' = k \<and> g k v = Inr w) kvs ws" by (simp add: parse_record_iff)
  then show ?thesis by (induction rule: list_all2_induct) auto
qed

lemma parse_record_each: "distinct (rkeys kvs) \<Longrightarrow> parse_record g kvs = Inr ws \<Longrightarrow> (k, w) \<in> set ws \<Longrightarrow> \<exists>v. (k, v) \<in> set kvs \<and> g k v = Inr w"
proof -
  assume "distinct (rkeys kvs)" and "parse_record g kvs = Inr ws" and w: "(k, w) \<in> set ws"
  then have "list_all2 (\<lambda>(k, v) (k', w). k' = k \<and> g k v = Inr w) kvs ws" by (simp add: parse_record_iff)
  then show ?thesis using w by (induction rule: list_all2_induct) auto
qed

lemma parse_record_printed:
  assumes "distinct (rkeys ws)" and "\<And>k w. (k, w) \<in> set ws \<Longrightarrow> g k (f w) = Inr w"
  shows "parse_record g (map (\<lambda>(k, w). (k, f w)) ws) = Inr ws"
proof -
  have "distinct (rkeys (map (\<lambda>(k, w). (k, f w)) ws))" using assms(1) by (simp add: comp_def case_prod_unfold)
  then show ?thesis using assms(2) by (subst parse_record_iff) (auto simp: list_all2_conv_all_nth case_prod_unfold)
qed

definition format_ok :: "cell_format \<Rightarrow> bool" where
  "format_ok f \<longleftrightarrow> js_string (cf_kind f) \<in> set number_kinds \<and> cf_decimals f \<le> 10 \<and> is_currency (cf_currency f)"

definition width_ok :: "nat \<Rightarrow> string \<Rightarrow> nat \<Rightarrow> bool" where
  "width_ok columns k w \<longleftrightarrow> is_index k \<and> digits_value k < columns \<and> 64 \<le> w \<and> w \<le> 640 \<and> w mod 4 = 0"

definition cells_ok :: "nat \<Rightarrow> nat \<Rightarrow> string rec \<Rightarrow> bool" where
  "cells_ok rows columns cells \<longleftrightarrow> distinct (rkeys cells) \<and> (\<forall>(k, t) \<in> set cells. cell_in rows columns k \<and> t \<noteq> [] \<and> length t \<le> max_input)
     \<and> length cells \<le> max_cells \<and> content_size cells \<le> max_content"

definition formats_ok :: "nat \<Rightarrow> nat \<Rightarrow> cell_format rec option \<Rightarrow> bool" where
  "formats_ok rows columns x \<longleftrightarrow> (case x of None \<Rightarrow> True
     | Some fs \<Rightarrow> distinct (rkeys fs) \<and> length fs \<le> max_cells \<and> (\<forall>(k, f) \<in> set fs. cell_in rows columns k \<and> format_ok f))"

definition widths_ok :: "nat \<Rightarrow> nat rec option \<Rightarrow> bool" where
  "widths_ok columns x \<longleftrightarrow> (case x of None \<Rightarrow> True
     | Some ws \<Rightarrow> distinct (rkeys ws) \<and> length ws \<le> columns \<and> (\<forall>(k, w) \<in> set ws. width_ok columns k w))"

definition freeze_ok :: "nat \<Rightarrow> nat \<Rightarrow> (nat \<times> nat) option \<Rightarrow> bool" where
  "freeze_ok rows columns x \<longleftrightarrow> (case x of None \<Rightarrow> True | Some (r, c) \<Rightarrow> r \<le> min 3 rows \<and> c \<le> min 2 columns)"

definition sheet_ok :: "sheet \<Rightarrow> bool" where
  "sheet_ok s \<longleftrightarrow> 1 \<le> sh_rows s \<and> sh_rows s \<le> max_rows \<and> 1 \<le> sh_columns s \<and> sh_columns s \<le> max_columns
     \<and> cells_ok (sh_rows s) (sh_columns s) (sh_cells s) \<and> formats_ok (sh_rows s) (sh_columns s) (sh_formats s)
     \<and> widths_ok (sh_columns s) (sh_widths s) \<and> freeze_ok (sh_rows s) (sh_columns s) (sh_freeze s)"

lemma content_size_simps [simp]: "content_size [] = 0" "content_size (x # xs) = length (snd x) + content_size xs" "content_size (xs @ ys) = content_size xs + content_size ys"
  by (simp_all add: content_size_def)

lemma parse_cells_from:
  assumes "distinct (rkeys kvs)" and "set (rkeys r) \<inter> set (rkeys kvs) = {}"
  shows "fold_sum (parse_cell R C) kvs (r, n) = Inr (cells, m) \<longleftrightarrow>
    (\<exists>ts. kvs = map (\<lambda>(k, t). (k, JStr t)) ts \<and> (\<forall>(k, t) \<in> set ts. cell_in R C k \<and> length t \<le> max_input) \<and> m = n + content_size ts
       \<and> (ts \<noteq> [] \<longrightarrow> m \<le> max_content) \<and> cells = r @ filter (\<lambda>(k, t). t \<noteq> []) ts)"
  using assms
proof (induction kvs arbitrary: r n)
  case (Cons x kvs)
  obtain k v where x: "x = (k, v)" by force
  show ?case
  proof (cases "\<exists>t. v = JStr t \<and> cell_in R C k \<and> length t \<le> max_input \<and> n + length t \<le> max_content")
    case False
    then have "fold_sum (parse_cell R C) (x # kvs) (r, n) \<noteq> Inr (cells, m)" by (cases v) (auto simp: x parse_cell_def)
    moreover have "\<not> (\<exists>ts. x # kvs = map (\<lambda>(k, t). (k, JStr t)) ts \<and> (\<forall>(k, t) \<in> set ts. cell_in R C k \<and> length t \<le> max_input) \<and> m = n + content_size ts
       \<and> (ts \<noteq> [] \<longrightarrow> m \<le> max_content) \<and> cells = r @ filter (\<lambda>(k, t). t \<noteq> []) ts)"
      using False by (auto simp: x Cons_eq_map_conv)
    ultimately show ?thesis by blast
  next
    case True
    then obtain t where v: "v = JStr t" and ok: "cell_in R C k" "length t \<le> max_input" "n + length t \<le> max_content" by blast
    let ?r = "if t \<noteq> [] then r @ [(k, t)] else r"
    have "rset k t r = r @ [(k, t)]" using Cons.prems(2) unfolding x by (intro rset_fresh) auto
    then have "fold_sum (parse_cell R C) (x # kvs) (r, n) = fold_sum (parse_cell R C) kvs (?r, n + length t)"
      using ok by (simp add: x v parse_cell_def)
    moreover have "set (rkeys ?r) \<inter> set (rkeys kvs) = {}" using Cons.prems unfolding x by auto
    then have "fold_sum (parse_cell R C) kvs (?r, n + length t) = Inr (cells, m) \<longleftrightarrow>
      (\<exists>ts. kvs = map (\<lambda>(k, t). (k, JStr t)) ts \<and> (\<forall>(k, t) \<in> set ts. cell_in R C k \<and> length t \<le> max_input) \<and> m = n + length t + content_size ts
       \<and> (ts \<noteq> [] \<longrightarrow> m \<le> max_content) \<and> cells = ?r @ filter (\<lambda>(k, t). t \<noteq> []) ts)"
      using Cons.prems(1) by (intro Cons.IH) simp_all
    moreover have "\<dots> \<longleftrightarrow> (\<exists>ts. x # kvs = map (\<lambda>(k, t). (k, JStr t)) ts \<and> (\<forall>(k, t) \<in> set ts. cell_in R C k \<and> length t \<le> max_input) \<and> m = n + content_size ts
       \<and> (ts \<noteq> [] \<longrightarrow> m \<le> max_content) \<and> cells = r @ filter (\<lambda>(k, t). t \<noteq> []) ts)" (is "(\<exists>ts. ?P ts) \<longleftrightarrow> (\<exists>ts. ?Q ts)")
    proof
      assume "\<exists>ts. ?P ts"
      then obtain ts where "?P ts" by (rule exE)
      then have "?Q ((k, t) # ts)" using ok by (auto simp: x v)
      then show "\<exists>ts. ?Q ts" by (rule exI)
    next
      assume "\<exists>ts. ?Q ts"
      then obtain us where q: "?Q us" by (rule exE)
      then obtain ts where "us = (k, t) # ts" by (auto simp: x v Cons_eq_map_conv)
      with q have "?P ts" by auto
      then show "\<exists>ts. ?P ts" by (rule exI)
    qed
    ultimately show ?thesis by simp
  qed
qed auto

lemma int_field_iff: "int_field v lo hi = Some n \<longleftrightarrow> v = Some (json_of_nat n) \<and> lo \<le> n \<and> n \<le> hi"
proof -
  have "int_field (Some (JNum k)) lo hi = Some n \<longleftrightarrow> k = 1000 * int n \<and> lo \<le> n \<and> n \<le> hi" for k
    by (auto simp: int_field_def whole_def)
  moreover have "int_field v lo hi = None" if "\<nexists>k. v = Some (JNum k)" using that by (auto simp: int_field_def split: option.split json.split)
  ultimately show ?thesis by (cases "\<exists>k. v = Some (JNum k)") (auto simp: json_of_nat_def)
qed

lemma parse_format_ok: "parse_format R C k v = Inr f \<Longrightarrow> cell_in R C k \<and> format_ok f"
  by (auto simp: parse_format_def Let_def format_ok_def int_field_iff split: json.splits option.splits if_splits)

lemma parse_format_printed: "cell_in R C k \<Longrightarrow> format_ok f \<Longrightarrow> parse_format R C k (json_of_format f) = Inr f"
  by (simp add: parse_format_def json_of_format_def format_ok_def only_keys_def int_field_iff [of _ _ _ "cf_decimals f", THEN iffD2])

lemma parse_width_iff: "parse_width C k v = Inr w \<longleftrightarrow> v = json_of_nat w \<and> width_ok C k w"
proof (cases "int_field (Some v) 64 640")
  case None
  then show ?thesis using int_field_iff [of "Some v" 64 640 w] by (auto simp: parse_width_def width_ok_def)
next
  case (Some n)
  then show ?thesis using int_field_iff [of "Some v" 64 640 n] by (auto simp: parse_width_def width_ok_def)
qed

lemma length_rkeys: "rkeys ws = rkeys kvs \<Longrightarrow> length ws = length kvs"
  by (metis length_map)

lemma parse_sheet_value_ok:
  assumes "parse_sheet_value v = Inr s"
  shows "sheet_ok s"
proof -
  from assms obtain kvs where v: "v = JObj kvs" by (auto simp: parse_sheet_value_def split: json.splits)
  let ?o = "js_object kvs"
  from assms obtain R C cs where R: "int_field (rget ?o ''rows'') 1 max_rows = Some R" and C: "int_field (rget ?o ''columns'') 1 max_columns = Some C"
    and cs: "rget ?o ''cells'' = Some (JObj cs)"
    by (auto simp: v parse_sheet_value_def Let_def split: if_splits option.splits json.splits)
  from assms R C cs obtain cells m fs ws wr fr where len: "length (js_object cs) \<le> max_cells"
    and cells: "fold_sum (parse_cell R C) (js_object cs) ([], 0) = Inr (cells, m)"
    and fs: "parse_formats R C (rget ?o ''formats'') = Inr fs" and ws: "parse_widths C (rget ?o ''widths'') = Inr ws"
    and fr: "parse_freeze R C (rget ?o ''freeze'') = Inr fr"
    and s: "s = \<lparr>sh_rows = R, sh_columns = C, sh_cells = cells, sh_formats = fs, sh_widths = ws, sh_wrap = wr, sh_freeze = fr\<rparr>"
    by (auto simp: v parse_sheet_value_def Let_def and_then_Inr split: if_splits)
  obtain ts where ts: "js_object cs = map (\<lambda>(k, t). (k, JStr t)) ts" "\<forall>(k, t) \<in> set ts. cell_in R C k \<and> length t \<le> max_input"
    "ts \<noteq> [] \<longrightarrow> content_size ts \<le> max_content" "cells = filter (\<lambda>(k, t). t \<noteq> []) ts"
    using cells by (subst (asm) parse_cells_from) auto
  have "distinct (rkeys ts)" using js_object_distinct [of cs] unfolding ts(1) by (simp add: comp_def case_prod_unfold)
  then have "distinct (rkeys cells)" unfolding ts(4) by (rule distinct_map_filter)
  moreover have "content_size cells \<le> max_content"
  proof -
    have "content_size cells \<le> content_size ts" unfolding ts(4) by (induction ts) auto
    then show ?thesis using ts(3) by (cases "ts = []") auto
  qed
  moreover have "length cells \<le> max_cells" using len length_filter_le [of _ ts] unfolding ts by (metis (no_types, lifting) le_trans length_map)
  ultimately have "cells_ok R C cells" using ts(2,4) by (auto simp: cells_ok_def)
  moreover have "formats_ok R C fs"
  proof (cases fs)
    case (Some gs)
    with fs obtain ks where "length (js_object ks) \<le> max_cells" and g: "parse_record (parse_format R C) (js_object ks) = Inr gs"
      by (auto simp: parse_formats_def and_then_Inr not_less split: option.splits json.splits if_splits)
    with parse_record_keys [OF js_object_distinct g] parse_record_each [OF js_object_distinct g] parse_format_ok length_rkeys Some show ?thesis
      by (fastforce simp: formats_ok_def)
  qed (simp add: formats_ok_def)
  moreover have "widths_ok C ws"
  proof (cases ws)
    case (Some us)
    with ws obtain ks where "length (js_object ks) \<le> C" and g: "parse_record (parse_width C) (js_object ks) = Inr us"
      by (auto simp: parse_widths_def and_then_Inr not_less split: option.splits json.splits if_splits)
    with parse_record_keys [OF js_object_distinct g] parse_record_each [OF js_object_distinct g] length_rkeys Some show ?thesis
      by (fastforce simp: parse_width_iff widths_ok_def)
  qed (simp add: widths_ok_def)
  moreover have "freeze_ok R C fr"
    using fr by (auto simp: freeze_ok_def parse_freeze_def Let_def int_field_iff split: option.splits json.splits if_splits)
  ultimately show ?thesis using R C by (simp add: sheet_ok_def s int_field_iff)
qed

text \<open>A valid sheet is read back from what \<open>JSON.stringify\<close> makes of it.\<close>

lemma rkeys_json: "rkeys (map (\<lambda>(k, v). (k, f v)) r) = rkeys r"
  by (simp add: comp_def case_prod_unfold)

lemma parse_cells_printed:
  assumes "cells_ok R C cells"
  shows "fold_sum (parse_cell R C) (map (\<lambda>(k, t). (k, JStr t)) cells) ([], 0) = Inr (cells, content_size cells)"
proof -
  have "distinct (rkeys (map (\<lambda>(k, t). (k, JStr t)) cells))" using assms by (simp only: rkeys_json cells_ok_def)
  moreover have "filter (\<lambda>(k, t). t \<noteq> []) cells = cells" using assms by (auto simp: cells_ok_def filter_id_conv)
  ultimately show ?thesis using assms by (subst parse_cells_from) (auto simp: cells_ok_def intro!: exI [of _ cells])
qed

lemma parse_formats_printed: "formats_ok R C fs \<Longrightarrow> parse_formats R C (map_option (json_of_rec json_of_format) fs) = Inr fs"
proof (cases fs)
  case (Some gs)
  assume "formats_ok R C fs"
  with Some have g: "distinct (rkeys gs)" "length gs \<le> max_cells" "\<And>k f. (k, f) \<in> set gs \<Longrightarrow> parse_format R C k (json_of_format f) = Inr f"
    by (auto simp: formats_ok_def parse_format_printed)
  then have "distinct (rkeys (map (\<lambda>(k, v). (k, json_of_format v)) gs))" by (simp only: rkeys_json)
  with g parse_record_printed [OF g(1,3)] show ?thesis by (simp add: parse_formats_def json_of_rec_def Some)
qed (simp add: parse_formats_def)

lemma parse_widths_printed: "widths_ok C ws \<Longrightarrow> parse_widths C (map_option (json_of_rec json_of_nat) ws) = Inr ws"
proof (cases ws)
  case (Some gs)
  assume "widths_ok C ws"
  with Some have g: "distinct (rkeys gs)" "length gs \<le> C" "\<And>k w. (k, w) \<in> set gs \<Longrightarrow> parse_width C k (json_of_nat w) = Inr w"
    by (auto simp: widths_ok_def parse_width_iff)
  then have "distinct (rkeys (map (\<lambda>(k, v). (k, json_of_nat v)) gs))" by (simp only: rkeys_json)
  with g parse_record_printed [OF g(1,3)] show ?thesis by (simp add: parse_widths_def json_of_rec_def Some)
qed (simp add: parse_widths_def)

lemma parse_freeze_printed: "freeze_ok R C fr \<Longrightarrow> parse_freeze R C (map_option json_of_freeze fr) = Inr fr"
proof (cases fr)
  case (Some p)
  assume "freeze_ok R C fr"
  moreover obtain r c where "p = (r, c)" by force
  ultimately show ?thesis using Some int_field_iff [of "Some (json_of_nat r)" 0 "min 3 R" r] int_field_iff [of "Some (json_of_nat c)" 0 "min 2 C" c]
    by (simp add: parse_freeze_def freeze_ok_def json_of_freeze_def only_keys_def)
qed (simp add: parse_freeze_def)

lemma sheet_members:
  fixes s :: sheet
  defines "o1 \<equiv> [(''version'', JNum 1000), (''rows'', json_of_nat (sh_rows s)), (''columns'', json_of_nat (sh_columns s)),
     (''cells'', json_of_rec JStr (sh_cells s))] @ json_of_meta s"
  shows "distinct (rkeys o1)" "only_keys sheet_fields o1" "rget o1 ''version'' = Some (JNum 1000)" "rget o1 ''rows'' = Some (json_of_nat (sh_rows s))"
    "rget o1 ''columns'' = Some (json_of_nat (sh_columns s))" "rget o1 ''cells'' = Some (json_of_rec JStr (sh_cells s))"
    "rget o1 ''formats'' = map_option (json_of_rec json_of_format) (sh_formats s)" "rget o1 ''widths'' = map_option (json_of_rec json_of_nat) (sh_widths s)"
    "rget o1 ''wrap'' = map_option JBool (sh_wrap s)" "rget o1 ''freeze'' = map_option json_of_freeze (sh_freeze s)"
  by (cases "sh_formats s"; cases "sh_widths s"; cases "sh_wrap s"; cases "sh_freeze s";
      simp add: o1_def json_of_meta_def opt_member_def only_keys_def sheet_fields_def)+

lemma parse_sheet_value_printed:
  assumes "sheet_ok s"
  shows "parse_sheet_value (json_of_sheet s) = Inr s"
proof -
  note ok = assms [unfolded sheet_ok_def]
  have r: "int_field (Some (json_of_nat (sh_rows s))) 1 max_rows = Some (sh_rows s)"
    and c: "int_field (Some (json_of_nat (sh_columns s))) 1 max_columns = Some (sh_columns s)"
    using ok by (simp_all add: int_field_iff)
  have w: "parse_wrap (map_option JBool (sh_wrap s)) = Inr (sh_wrap s)" by (cases "sh_wrap s") (simp_all add: parse_wrap_def)
  have dc: "distinct (rkeys (sh_cells s))" "length (sh_cells s) \<le> max_cells" using ok by (simp_all add: cells_ok_def)
  have cells: "json_of_rec JStr (sh_cells s) = JObj (map (\<lambda>(k, t). (k, JStr t)) (sh_cells s))" by (simp add: json_of_rec_def)
  have dm: "js_object (map (\<lambda>(k, t). (k, JStr t)) (sh_cells s)) = map (\<lambda>(k, t). (k, JStr t)) (sh_cells s)"
    by (rule js_object_same) (simp only: rkeys_json dc)
  have fold: "fold_sum (parse_cell (sh_rows s) (sh_columns s)) (map (\<lambda>(k, t). (k, JStr t)) (sh_cells s)) ([], 0) = Inr (sh_cells s, content_size (sh_cells s))"
    using ok by (intro parse_cells_printed) simp
  have p: "parse_formats (sh_rows s) (sh_columns s) (map_option (json_of_rec json_of_format) (sh_formats s)) = Inr (sh_formats s)"
    "parse_widths (sh_columns s) (map_option (json_of_rec json_of_nat) (sh_widths s)) = Inr (sh_widths s)"
    "parse_freeze (sh_rows s) (sh_columns s) (map_option json_of_freeze (sh_freeze s)) = Inr (sh_freeze s)"
    using ok by (simp_all add: parse_formats_printed parse_widths_printed parse_freeze_printed)
  obtain o1 where o: "json_of_sheet s = JObj o1" "js_object o1 = o1" "only_keys sheet_fields o1" "rget o1 ''version'' = Some (JNum 1000)"
    "rget o1 ''rows'' = Some (json_of_nat (sh_rows s))" "rget o1 ''columns'' = Some (json_of_nat (sh_columns s))"
    "rget o1 ''cells'' = Some (json_of_rec JStr (sh_cells s))"
    "rget o1 ''formats'' = map_option (json_of_rec json_of_format) (sh_formats s)" "rget o1 ''widths'' = map_option (json_of_rec json_of_nat) (sh_widths s)"
    "rget o1 ''wrap'' = map_option JBool (sh_wrap s)" "rget o1 ''freeze'' = map_option json_of_freeze (sh_freeze s)"
    using sheet_members [of s] js_object_same [OF sheet_members(1), of s] unfolding json_of_sheet_def by blast
  show ?thesis by (simp add: parse_sheet_value_def o r c cells dm fold p w dc(2) not_less del: One_nat_def)
qed

end
