(* ===== verification/Workbook.thy ===== *)
theory Workbook
  imports SheetProps
begin

text \<open>
  The workbook of a spreadsheet file: \<open>plugins/sheets/src/workbook.ts\<close>. The parser of both file versions, the
  serializer, and the history that undoes and redoes edits of cells, formats and tabs.
\<close>

section \<open>Data\<close>

record worksheet =
  wk_id :: string
  wk_name :: string
  wk_sheet :: sheet

record workbook =
  wb_active :: string
  wb_sheets :: "worksheet list"

definition max_sheets :: nat where "max_sheets = 16"

definition workbook_of :: "sheet \<Rightarrow> workbook" where
  "workbook_of s = \<lparr>wb_active = ''sheet1'', wb_sheets = [\<lparr>wk_id = ''sheet1'', wk_name = ''Sheet1'', wk_sheet = s\<rparr>]\<rparr>"

definition trim :: "string \<Rightarrow> string" where
  "trim s = rev (dropWhile is_space (rev (dropWhile is_space s)))"

definition to_lower :: "char \<Rightarrow> char" where
  "to_lower c = (if in_range CHR ''A'' c CHR ''Z'' then char_of ((of_char c :: nat) + 32) else c)"

definition lower :: "string \<Rightarrow> string" where
  "lower = map to_lower"

definition forbidden_name_chars :: string where
  "forbidden_name_chars = backslash # ''/?*[]:!'' @ [CHR 0x27]"

definition valid_sheet_name :: "string \<Rightarrow> bool" where
  "valid_sheet_name name \<longleftrightarrow> name \<noteq> [] \<and> length name \<le> 31 \<and> trim name = name \<and> list_all (\<lambda>c. c \<notin> set forbidden_name_chars) name"

definition valid_sheet_id :: "string \<Rightarrow> bool" where
  "valid_sheet_id i \<longleftrightarrow> i \<noteq> [] \<and> length i \<le> 64 \<and> list_all (\<lambda>c. is_letter c \<or> is_digit_char c \<or> c = CHR ''_'' \<or> c = CHR ''-'') i"

section \<open>Reading and writing\<close>

record workbook_scan =
  sn_count :: nat
  sn_text :: nat
  sn_sheets :: "worksheet list"

definition parse_worksheet :: "json \<Rightarrow> workbook_scan \<Rightarrow> sheets_error + workbook_scan" where
  "parse_worksheet entry sn =
     (case entry of
        JObj kvs \<Rightarrow>
          (let e = js_object kvs in
             case (rget e ''id'', rget e ''name'') of
               (Some (JStr i), Some (JStr name)) \<Rightarrow>
                 if \<not> only_keys [''id'', ''name'', ''sheet''] e \<or> \<not> valid_sheet_id i \<or> \<not> valid_sheet_name name
                    \<or> i \<in> set (map wk_id (sn_sheets sn)) \<or> lower name \<in> set (map (lower \<circ> wk_name) (sn_sheets sn))
                 then Inl (SheetsError ''WorkbookInvalidSheet'')
                 else (case rget e ''sheet'' of
                         None \<Rightarrow> Inl SheetsTypeError
                       | Some v \<Rightarrow> and_then (parse_sheet (stringify v)) (\<lambda>s.
                           Inr \<lparr>sn_count = sn_count sn + length (sh_cells s), sn_text = sn_text sn + content_size (sh_cells s),
                             sn_sheets = sn_sheets sn @ [\<lparr>wk_id = i, wk_name = name, wk_sheet = s\<rparr>]\<rparr>))
             | _ \<Rightarrow> Inl (SheetsError ''WorkbookInvalidSheet''))
      | _ \<Rightarrow> Inl (SheetsError ''WorkbookInvalidSheet''))"

text \<open>The sheets of a file of version 2, and the checks on the whole.\<close>

definition parse_book :: "json option \<Rightarrow> json list \<Rightarrow> sheets_error + workbook" where
  "parse_book active entries =
     (if entries = [] \<or> length entries > max_sheets then Inl (SheetsError ''WorkbookUnsupportedFormat'')
      else and_then (fold_sum parse_worksheet entries \<lparr>sn_count = 0, sn_text = 0, sn_sheets = []\<rparr>) (\<lambda>sn.
        case active of
          Some (JStr a) \<Rightarrow>
            if a \<notin> set (map wk_id (sn_sheets sn)) \<or> sn_count sn > max_cells \<or> sn_text sn > max_content then Inl (SheetsError ''WorkbookInvalid'')
            else Inr \<lparr>wb_active = a, wb_sheets = sn_sheets sn\<rparr>
        | _ \<Rightarrow> Inl (SheetsError ''WorkbookInvalid'')))"

definition parse_workbook :: "string \<Rightarrow> sheets_error + workbook" where
  "parse_workbook raw =
     (if length raw > max_file_bytes then Inl (SheetsError ''WorkbookTooLarge'')
      else case parse_json raw of
          None \<Rightarrow> Inl SheetsSyntax
        | Some (JObj kvs) \<Rightarrow>
            (let v = js_object kvs in
             if rget v ''version'' = Some (JNum 1000) then and_then (parse_sheet raw) (\<lambda>s. Inr (workbook_of s))
             else if rget v ''version'' \<noteq> Some (JNum 2000) \<or> \<not> only_keys [''version'', ''active'', ''sheets''] v
             then Inl (SheetsError ''WorkbookUnsupportedFormat'')
             else (case rget v ''sheets'' of
                     Some (JArr entries) \<Rightarrow> parse_book (rget v ''active'') entries
                   | _ \<Rightarrow> Inl (SheetsError ''WorkbookUnsupportedFormat'')))
        | Some _ \<Rightarrow> Inl (SheetsError ''WorkbookUnsupportedFormat''))"

definition json_of_worksheet :: "worksheet \<Rightarrow> json" where
  "json_of_worksheet w = JObj [(''id'', JStr (wk_id w)), (''name'', JStr (wk_name w)), (''sheet'', json_of_sheet (wk_sheet w))]"

definition json_of_workbook :: "workbook \<Rightarrow> json" where
  "json_of_workbook b = JObj [(''version'', JNum 2000), (''active'', JStr (wb_active b)), (''sheets'', JArr (map json_of_worksheet (wb_sheets b)))]"

text \<open>Whether the original single-sheet envelope holds all there is.\<close>

definition plain_sheet :: "sheet \<Rightarrow> bool" where
  "plain_sheet s \<longleftrightarrow> sh_formats s = None \<and> sh_widths s = None \<and> sh_wrap s = None \<and> sh_freeze s = None"

definition single_sheet :: "workbook \<Rightarrow> sheet option" where
  "single_sheet b =
     (case wb_sheets b of
        [w] \<Rightarrow> if wk_name w = ''Sheet1'' \<and> plain_sheet (wk_sheet w) then Some (wk_sheet w) else None
      | _ \<Rightarrow> None)"

definition serialize_workbook :: "workbook \<Rightarrow> string" where
  "serialize_workbook b = (case single_sheet b of Some s \<Rightarrow> stringify (json_of_sheet s) | None \<Rightarrow> stringify (json_of_workbook b))"

section \<open>The history\<close>

text \<open>\<open>Metadata\<close> is a sheet without its cells. \<open>dl_same\<close> is whether old and new metadata are one object.\<close>

definition sheet_meta :: "sheet \<Rightarrow> sheet" where
  "sheet_meta s = s\<lparr>sh_cells := []\<rparr>"

record delta =
  dl_id :: string
  dl_before :: "string rec"
  dl_after :: "string rec"
  dl_oldMeta :: sheet
  dl_newMeta :: sheet
  dl_same :: bool

type_synonym tab = "string \<times> string"

record change =
  ch_deltas :: "delta list"
  ch_before :: "tab list"
  ch_after :: "tab list"
  ch_activeBefore :: string
  ch_activeAfter :: string
  ch_size :: nat

record history =
  wh_book :: workbook
  wh_undo :: "change list"
  wh_redo :: "change list"
  wh_size :: int
  wh_count :: int
  wh_text :: int

definition book_count :: "workbook \<Rightarrow> nat" where
  "book_count b = sum_list (map (\<lambda>w. length (sh_cells (wk_sheet w))) (wb_sheets b))"

definition book_text :: "workbook \<Rightarrow> nat" where
  "book_text b = sum_list (map (\<lambda>w. content_size (sh_cells (wk_sheet w))) (wb_sheets b))"

definition measure_history :: "history \<Rightarrow> history" where
  "measure_history h = h\<lparr>wh_count := int (book_count (wh_book h)), wh_text := int (book_text (wh_book h))\<rparr>"

definition new_workbook_history :: "workbook \<Rightarrow> history" where
  "new_workbook_history b = measure_history \<lparr>wh_book = b, wh_undo = [], wh_redo = [], wh_size = 0, wh_count = 0, wh_text = 0\<rparr>"

definition find_sheet :: "string \<Rightarrow> workbook \<Rightarrow> sheet option" where
  "find_sheet i b = map_option wk_sheet (find (\<lambda>w. wk_id w = i) (wb_sheets b))"

definition find_or_empty :: "string \<Rightarrow> workbook \<Rightarrow> sheet" where
  "find_or_empty i b = (case find_sheet i b of None \<Rightarrow> empty_sheet | Some s \<Rightarrow> s)"

definition tabs_of :: "workbook \<Rightarrow> tab list" where
  "tabs_of b = map (\<lambda>w. (wk_id w, wk_name w)) (wb_sheets b)"

definition json_of_tab :: "tab \<Rightarrow> json" where
  "json_of_tab = (\<lambda>(i, name). JObj [(''id'', JStr i), (''name'', JStr name)])"

definition json_of_metadata :: "sheet \<Rightarrow> json" where
  "json_of_metadata s = JObj ([(''version'', JNum 1000), (''rows'', json_of_nat (sh_rows s)), (''columns'', json_of_nat (sh_columns s))] @ json_of_meta s)"

definition delta_size :: "delta \<Rightarrow> nat" where
  "delta_size d = length (stringify (json_of_rec JStr (dl_before d))) + length (stringify (json_of_rec JStr (dl_after d)))
     + (if dl_same d then 0 else length (stringify (json_of_metadata (dl_oldMeta d))) + length (stringify (json_of_metadata (dl_newMeta d))))"

definition measured_change :: "change \<Rightarrow> change" where
  "measured_change c = c\<lparr>ch_size :=
     length (stringify (JObj [(''before'', JArr (map json_of_tab (ch_before c))), (''after'', JArr (map json_of_tab (ch_after c)))]))
       + sum_list (map delta_size (ch_deltas c))\<rparr>"

fun trim_changes :: "change list \<Rightarrow> int \<Rightarrow> change list \<times> int" where
  "trim_changes [] n = ([], n)"
| "trim_changes (c # cs) n =
     (if length (c # cs) > 100 \<or> n > 4000000 \<and> length (c # cs) > 1 then trim_changes cs (n - int (ch_size c)) else (c # cs, n))"

definition push_change :: "change \<Rightarrow> history \<Rightarrow> history" where
  "push_change c h =
     (let (undo, n) = trim_changes (wh_undo h @ [c]) (wh_size h + int (ch_size c))
      in h\<lparr>wh_undo := undo, wh_redo := [], wh_size := n\<rparr>)"

text \<open>\<open>if (value) cells[key] = value else delete cells[key]\<close>\<close>

definition put_cells :: "string rec \<Rightarrow> string rec \<Rightarrow> string rec" where
  "put_cells patch cells = fold (\<lambda>(k, t). put_cell k t) patch cells"

definition update_sheet :: "string \<Rightarrow> (sheet \<Rightarrow> sheet) \<Rightarrow> workbook \<Rightarrow> workbook" where
  "update_sheet i f b = b\<lparr>wb_sheets := map (\<lambda>w. if wk_id w = i then w\<lparr>wk_sheet := f (wk_sheet w)\<rparr> else w) (wb_sheets b)\<rparr>"

definition apply_cells :: "string rec \<Rightarrow> history \<Rightarrow> (sheets_error + string rec option) \<times> history" where
  "apply_cells patch h =
     (let b = wh_book h in
      case find_sheet (wb_active b) b of
        None \<Rightarrow> (Inl SheetsTypeError, h)
      | Some s \<Rightarrow>
          (case fold_sum (plan_cell (SheetsError ''WorkbookCellOutOfBounds'') s) patch
                 \<lparr>pp_before = [], pp_after = [], pp_size = wh_text h, pp_count = wh_count h, pp_history = 0\<rparr> of
             Inl e \<Rightarrow> (Inl e, h)
           | Inr p \<Rightarrow>
               if pp_count p > int max_cells \<or> pp_size p > int max_content then (Inl (SheetsError ''WorkbookCapacityExceeded''), h)
               else if pp_after p = [] then (Inr None, h)
               else let c = measured_change \<lparr>ch_deltas = [\<lparr>dl_id = wb_active b, dl_before = pp_before p, dl_after = pp_after p,
                               dl_oldMeta = sheet_meta s, dl_newMeta = sheet_meta s, dl_same = True\<rparr>],
                             ch_before = tabs_of b, ch_after = tabs_of b, ch_activeBefore = wb_active b, ch_activeAfter = wb_active b, ch_size = 0\<rparr>;
                        b' = update_sheet (wb_active b) (\<lambda>s. s\<lparr>sh_cells := put_cells (pp_after p) (sh_cells s)\<rparr>) b
                    in (Inr (Some (pp_after p)), push_change c (h\<lparr>wh_book := b', wh_count := pp_count p, wh_text := pp_size p\<rparr>))))"

text \<open>What two versions of one sheet differ in.\<close>

definition sheet_delta :: "string \<Rightarrow> sheet \<Rightarrow> sheet \<Rightarrow> delta list" where
  "sheet_delta i old new =
     (let a = sh_cells old; b = sh_cells new;
          keys = filter (\<lambda>k. cell_text a k \<noteq> cell_text b k) (uniq (rkeys a @ rkeys b))
      in if keys \<noteq> [] \<or> stringify (json_of_metadata old) \<noteq> stringify (json_of_metadata new)
         then [\<lparr>dl_id = i, dl_before = map (\<lambda>k. (k, cell_text a k)) keys, dl_after = map (\<lambda>k. (k, cell_text b k)) keys,
                 dl_oldMeta = sheet_meta old, dl_newMeta = sheet_meta new, dl_same = False\<rparr>]
         else [])"

definition write_tab :: "change \<Rightarrow> bool \<Rightarrow> workbook \<Rightarrow> tab \<Rightarrow> worksheet" where
  "write_tab c forward b = (\<lambda>(i, name).
     let old = find_or_empty i b
     in case find (\<lambda>d. dl_id d = i) (ch_deltas c) of
          None \<Rightarrow> \<lparr>wk_id = i, wk_name = name, wk_sheet = old\<rparr>
        | Some d \<Rightarrow> \<lparr>wk_id = i, wk_name = name,
            wk_sheet = (if forward then dl_newMeta d else dl_oldMeta d)\<lparr>sh_cells := put_cells (if forward then dl_after d else dl_before d) (sh_cells old)\<rparr>\<rparr>)"

definition write_book :: "change \<Rightarrow> bool \<Rightarrow> workbook \<Rightarrow> workbook" where
  "write_book c forward b =
     \<lparr>wb_active = (if forward then ch_activeAfter c else ch_activeBefore c),
      wb_sheets = map (write_tab c forward b) (if forward then ch_after c else ch_before c)\<rparr>"

definition write_change :: "change \<Rightarrow> bool \<Rightarrow> history \<Rightarrow> history" where
  "write_change c forward h = measure_history (h\<lparr>wh_book := write_book c forward (wh_book h)\<rparr>)"

definition replace_book :: "workbook \<Rightarrow> history \<Rightarrow> (sheets_error + bool) \<times> history" where
  "replace_book candidate h =
     (case parse_workbook (stringify (json_of_workbook candidate)) of
        Inl e \<Rightarrow> (Inl e, h)
      | Inr new \<Rightarrow>
          let b = wh_book h; before = tabs_of b; after = tabs_of new;
              deltas = concat (map (\<lambda>i. sheet_delta i (find_or_empty i b) (find_or_empty i new)) (uniq (map fst (before @ after))))
          in if deltas = [] \<and> before = after then (Inr False, h)
             else let c = measured_change \<lparr>ch_deltas = deltas, ch_before = before, ch_after = after,
                            ch_activeBefore = wb_active b, ch_activeAfter = wb_active new, ch_size = 0\<rparr>
                  in (Inr True, push_change c (write_change c True h)))"

definition undo_change :: "history \<Rightarrow> bool \<times> history" where
  "undo_change h =
     (if wh_undo h = [] then (False, h)
      else let c = last (wh_undo h)
           in (True, write_change c False (h\<lparr>wh_undo := butlast (wh_undo h), wh_size := wh_size h - int (ch_size c), wh_redo := wh_redo h @ [c]\<rparr>)))"

definition redo_change :: "history \<Rightarrow> bool \<times> history" where
  "redo_change h =
     (if wh_redo h = [] then (False, h)
      else let c = last (wh_redo h)
           in (True, write_change c True (h\<lparr>wh_redo := butlast (wh_redo h), wh_size := wh_size h + int (ch_size c), wh_undo := wh_undo h @ [c]\<rparr>)))"

end
