(* ===== verification/WorkbookProps.thy ===== *)
theory WorkbookProps
  imports Workbook
begin

text \<open>
  What the workbook's history promises. A workbook is looked at through its view - tabs, metadata and the text of
  every cell - because the order of the keys in a cells record is no part of the document.
\<close>

section \<open>Cells\<close>

definition clean_cells :: "string rec \<Rightarrow> bool" where
  "clean_cells cells \<longleftrightarrow> distinct (rkeys cells) \<and> (\<forall>(k, t) \<in> set cells. t \<noteq> [])"

lemma clean_text: "clean_cells cells \<Longrightarrow> rget cells k = (if cell_text cells k = [] then None else Some (cell_text cells k))"
  by (cases "rget cells k") (auto simp: cell_text_def clean_cells_def dest: map_of_SomeD)

lemma text_of_entry: "clean_cells cells \<Longrightarrow> (k, t) \<in> set cells \<Longrightarrow> cell_text cells k = t"
  by (simp add: cell_text_def clean_cells_def)

lemma clean_put_cell: "clean_cells cells \<Longrightarrow> clean_cells (put_cell k t cells)"
proof -
  assume c: "clean_cells cells"
  have d: "distinct (rkeys (put_cell k t cells))" using c by (simp add: clean_cells_def put_cell_def)
  have "u \<noteq> []" if "(j, u) \<in> set (put_cell k t cells)" for j u
  proof -
    have "rget (put_cell k t cells) j = (if j = k then (if t = [] then None else Some t) else rget cells j)" by (simp add: put_cell_def)
    moreover from that d have "rget (put_cell k t cells) j = Some u" by (rule map_of_is_SomeI [rotated])
    ultimately have "j = k \<and> t = u \<and> t \<noteq> [] \<or> rget cells j = Some u" by (auto split: if_splits)
    then show ?thesis using c map_of_SomeD [of cells j u] by (auto simp: clean_cells_def)
  qed
  then show ?thesis using d by (auto simp: clean_cells_def)
qed

lemma clean_put_cells: "clean_cells cells \<Longrightarrow> clean_cells (put_cells patch cells)"
  unfolding put_cells_def by (induction patch arbitrary: cells) (auto simp: clean_put_cell)

lemma text_put_cell [simp]: "cell_text (put_cell k t cells) = (cell_text cells)(k := t)"
  by (rule ext) (simp add: cell_text_def put_cell_def)

text \<open>A patch laid over the texts of the cells.\<close>

definition patched :: "string rec \<Rightarrow> (string \<Rightarrow> string) \<Rightarrow> string \<Rightarrow> string" where
  "patched p f = (\<lambda>k. case rget p k of None \<Rightarrow> f k | Some t \<Rightarrow> t)"

lemma text_put_cells: "distinct (rkeys p) \<Longrightarrow> cell_text (put_cells p cells) = patched p (cell_text cells)"
proof (induction p arbitrary: cells)
  case (Cons x p)
  obtain k t where x: "x = (k, t)" by force
  have "rget p k = None" using Cons.prems by (simp add: x map_of_eq_None_iff)
  then have "patched p ((cell_text cells)(k := t)) = patched (x # p) (cell_text cells)"
    by (auto simp: patched_def x fun_eq_iff split: option.split)
  with Cons show ?case by (simp add: put_cells_def x)
qed (simp add: put_cells_def patched_def)

section \<open>The view\<close>

type_synonym sheet_view = "sheet \<times> (string \<Rightarrow> string)"
type_synonym book_view = "string \<times> (string \<times> string \<times> sheet_view) list"

definition view_sheet :: "sheet \<Rightarrow> sheet_view" where
  "view_sheet s = (sheet_meta s, cell_text (sh_cells s))"

definition book_view :: "workbook \<Rightarrow> book_view" where
  "book_view b = (wb_active b, map (\<lambda>w. (wk_id w, wk_name w, view_sheet (wk_sheet w))) (wb_sheets b))"

definition view_at :: "string \<Rightarrow> book_view \<Rightarrow> sheet_view" where
  "view_at i V = (case rget (map (\<lambda>(i, n, s). (i, s)) (snd V)) i of None \<Rightarrow> view_sheet empty_sheet | Some s \<Rightarrow> s)"

definition view_delta :: "bool \<Rightarrow> delta \<Rightarrow> sheet_view \<Rightarrow> sheet_view" where
  "view_delta forward d s =
     (if forward then dl_newMeta d else dl_oldMeta d, patched (if forward then dl_after d else dl_before d) (snd s))"

definition view_write :: "change \<Rightarrow> bool \<Rightarrow> book_view \<Rightarrow> book_view" where
  "view_write c forward V =
     (if forward then ch_activeAfter c else ch_activeBefore c,
      map (\<lambda>(i, n). (i, n, case find (\<lambda>d. dl_id d = i) (ch_deltas c) of None \<Rightarrow> view_at i V | Some d \<Rightarrow> view_delta forward d (view_at i V)))
        (if forward then ch_after c else ch_before c))"

definition delta_ok :: "delta \<Rightarrow> bool" where
  "delta_ok d \<longleftrightarrow> distinct (rkeys (dl_before d)) \<and> distinct (rkeys (dl_after d)) \<and> sh_cells (dl_oldMeta d) = [] \<and> sh_cells (dl_newMeta d) = []"

definition change_ok :: "change \<Rightarrow> bool" where
  "change_ok c \<longleftrightarrow> list_all delta_ok (ch_deltas c)"

lemma view_find: "view_sheet (find_or_empty i b) = view_at i (book_view b)"
proof -
  have key: "rget (map (\<lambda>(i, n, s). (i, s)) (map (\<lambda>w. (wk_id w, wk_name w, view_sheet (wk_sheet w))) ws)) i
      = map_option (view_sheet \<circ> wk_sheet) (find (\<lambda>w. wk_id w = i) ws)" for ws
    by (induction ws) auto
  have "view_at i (book_view b) = (case map_option (view_sheet \<circ> wk_sheet) (find (\<lambda>w. wk_id w = i) (wb_sheets b)) of
      None \<Rightarrow> view_sheet empty_sheet | Some s \<Rightarrow> s)"
    by (simp only: view_at_def book_view_def snd_conv key)
  then show ?thesis by (simp add: find_or_empty_def find_sheet_def option.case_eq_if option.map_sel)
qed

lemma meta_of_cells: "sh_cells m = [] \<Longrightarrow> sheet_meta (m\<lparr>sh_cells := cs\<rparr>) = m"
  by (cases m) (simp add: sheet_meta_def)

lemma view_write_book:
  assumes "change_ok c"
  shows "book_view (write_book c forward b) = view_write c forward (book_view b)"
proof -
  have sheet: "view_sheet (wk_sheet (write_tab c forward b (i, n))) = (case find (\<lambda>d. dl_id d = i) (ch_deltas c) of
      None \<Rightarrow> view_at i (book_view b) | Some d \<Rightarrow> view_delta forward d (view_at i (book_view b)))" for i n
  proof (cases "find (\<lambda>d. dl_id d = i) (ch_deltas c)")
    case None
    then show ?thesis by (simp add: write_tab_def Let_def view_find)
  next
    case (Some d)
    then have "delta_ok d" using assms by (auto simp: change_ok_def list_all_iff find_Some_iff)
    then show ?thesis using Some
      by (simp add: write_tab_def Let_def view_sheet_def view_delta_def delta_ok_def text_put_cells meta_of_cells flip: view_find)
  qed
  have ids: "wk_id (write_tab c forward b x) = fst x" "wk_name (write_tab c forward b x) = snd x" for x
    by (cases x; simp add: write_tab_def Let_def split: option.split)+
  have sheet': "view_sheet (wk_sheet (write_tab c forward b x)) = (case find (\<lambda>d. dl_id d = fst x) (ch_deltas c) of
      None \<Rightarrow> view_at (fst x) (book_view b) | Some d \<Rightarrow> view_delta forward d (view_at (fst x) (book_view b)))" for x
    using sheet [of "fst x" "snd x"] by simp
  show ?thesis
    by (subst book_view_def) (simp only: view_write_def write_book_def workbook.simps map_map comp_def ids sheet' case_prod_unfold)
qed

section \<open>Valid workbooks\<close>

definition workbook_ok :: "workbook \<Rightarrow> bool" where
  "workbook_ok b \<longleftrightarrow> wb_sheets b \<noteq> [] \<and> length (wb_sheets b) \<le> max_sheets \<and> distinct (map wk_id (wb_sheets b))
     \<and> distinct (map (lower \<circ> wk_name) (wb_sheets b)) \<and> wb_active b \<in> set (map wk_id (wb_sheets b))
     \<and> list_all (\<lambda>w. valid_sheet_id (wk_id w) \<and> valid_sheet_name (wk_name w) \<and> sheet_ok (wk_sheet w)) (wb_sheets b)
     \<and> book_count b \<le> max_cells \<and> book_text b \<le> max_content"

definition clean_book :: "workbook \<Rightarrow> bool" where
  "clean_book b \<longleftrightarrow> list_all (\<lambda>w. clean_cells (sh_cells (wk_sheet w))) (wb_sheets b)"

lemma cells_ok_clean: "cells_ok R C cells \<Longrightarrow> clean_cells cells"
  by (auto simp: cells_ok_def clean_cells_def)

lemma workbook_ok_clean: "workbook_ok b \<Longrightarrow> clean_book b"
  by (auto simp: workbook_ok_def clean_book_def list_all_iff sheet_ok_def dest!: bspec intro: cells_ok_clean)

lemma same_text_mset:
  assumes "clean_cells a" and "clean_cells b" and "cell_text a = cell_text b"
  shows "mset a = mset b"
proof -
  have "map_of a = map_of b" using assms by (auto simp: fun_eq_iff clean_text)
  moreover have "distinct (rkeys a)" "distinct (rkeys b)" using assms(1,2) by (simp_all add: clean_cells_def)
  ultimately have "x \<in> set a \<longleftrightarrow> x \<in> set b" for x
    using map_of_eq_Some_iff [of a "fst x" "snd x"] map_of_eq_Some_iff [of b "fst x" "snd x"] by simp
  then have "set a = set b" by blast
  moreover have "distinct a" "distinct b" using assms(1,2) by (simp_all add: clean_cells_def distinct_map)
  ultimately show ?thesis by (simp add: set_eq_iff_mset_eq_distinct)
qed

lemma content_size_mset: "mset a = mset b \<Longrightarrow> content_size a = content_size b"
  unfolding content_size_def by (metis mset_map sum_mset_sum_list)

lemma same_text_ok:
  assumes "clean_cells a" and "clean_cells b" and "cell_text a = cell_text b" and "cells_ok R C a"
  shows "cells_ok R C b"
proof -
  have m: "mset a = mset b" by (rule same_text_mset [OF assms(1-3)])
  have "set a = set b" "length a = length b" using m by (metis set_mset_mset, metis size_mset)
  then show ?thesis using assms(2,4) content_size_mset [OF m] by (simp add: cells_ok_def clean_cells_def)
qed

lemma same_view_sheet:
  assumes "view_sheet s = view_sheet t" and "clean_cells (sh_cells s)" and "clean_cells (sh_cells t)"
  shows "length (sh_cells s) = length (sh_cells t)" "content_size (sh_cells s) = content_size (sh_cells t)" "sheet_ok s \<Longrightarrow> sheet_ok t"
proof -
  from assms(1) have m: "sheet_meta s = sheet_meta t" and c: "cell_text (sh_cells s) = cell_text (sh_cells t)" by (simp_all add: view_sheet_def)
  have ms: "mset (sh_cells s) = mset (sh_cells t)" by (rule same_text_mset [OF assms(2,3) c])
  show "length (sh_cells s) = length (sh_cells t)" using ms by (metis size_mset)
  show "content_size (sh_cells s) = content_size (sh_cells t)" by (rule content_size_mset [OF ms])
  assume "sheet_ok s"
  then show "sheet_ok t" using m same_text_ok [OF assms(2,3) c] by (cases s; cases t) (simp add: sheet_meta_def sheet_ok_def)
qed

lemma same_view_ok:
  assumes "book_view a = book_view b" and "workbook_ok a" and "clean_book b"
  shows "workbook_ok b"
proof -
  let ?as = "wb_sheets a" and ?bs = "wb_sheets b"
  from assms(1) have act: "wb_active a = wb_active b"
    and eq: "map (\<lambda>w. (wk_id w, wk_name w, view_sheet (wk_sheet w))) ?as = map (\<lambda>w. (wk_id w, wk_name w, view_sheet (wk_sheet w))) ?bs"
    by (simp_all add: book_view_def)
  from eq have all: "list_all2 (\<lambda>v w. wk_id v = wk_id w \<and> wk_name v = wk_name w \<and> view_sheet (wk_sheet v) = view_sheet (wk_sheet w)) ?as ?bs"
    by (simp add: list.rel_eq list_all2_map1 list_all2_map2 flip: list.rel_eq)
  then have ids: "map wk_id ?as = map wk_id ?bs" and names: "map (lower \<circ> wk_name) ?as = map (lower \<circ> wk_name) ?bs"
    by (induction rule: list_all2_induct) simp_all
  have "list_all (\<lambda>w. clean_cells (sh_cells (wk_sheet w))) ?as" "list_all (\<lambda>w. clean_cells (sh_cells (wk_sheet w))) ?bs"
    using workbook_ok_clean [OF assms(2)] assms(3) by (simp_all add: clean_book_def)
  with all have "sum_list (map (\<lambda>w. length (sh_cells (wk_sheet w))) ?as) = sum_list (map (\<lambda>w. length (sh_cells (wk_sheet w))) ?bs)
      \<and> sum_list (map (\<lambda>w. content_size (sh_cells (wk_sheet w))) ?as) = sum_list (map (\<lambda>w. content_size (sh_cells (wk_sheet w))) ?bs)
      \<and> (list_all (\<lambda>w. valid_sheet_id (wk_id w) \<and> valid_sheet_name (wk_name w) \<and> sheet_ok (wk_sheet w)) ?as
          \<longrightarrow> list_all (\<lambda>w. valid_sheet_id (wk_id w) \<and> valid_sheet_name (wk_name w) \<and> sheet_ok (wk_sheet w)) ?bs)"
    by (induction rule: list_all2_induct) (auto dest: same_view_sheet)
  then show ?thesis
    using assms(2) ids names act list_all2_lengthD [OF all] unfolding workbook_ok_def book_count_def book_text_def by auto
qed

section \<open>A patch, planned and written\<close>

definition growth :: "(string \<Rightarrow> string) \<Rightarrow> string rec \<Rightarrow> int" where
  "growth f p = sum_list (map (\<lambda>(k, t). int (length t) - int (length (f k))) p)"

definition more_cells :: "(string \<Rightarrow> string) \<Rightarrow> string rec \<Rightarrow> int" where
  "more_cells f p = sum_list (map (\<lambda>(k, t). filled t - filled (f k)) p)"

definition changed_cells :: "(string \<Rightarrow> string) \<Rightarrow> string rec \<Rightarrow> string rec" where
  "changed_cells f p = filter (\<lambda>(k, t). f k \<noteq> t) p"

lemma plan_cells:
  assumes "fold_sum (plan_cell e s) patch q = Inr p" and "distinct (rkeys patch)"
    and "set (rkeys (pp_after q)) \<inter> set (rkeys patch) = {}" and "set (rkeys (pp_before q)) \<inter> set (rkeys patch) = {}"
  defines "f \<equiv> cell_text (sh_cells s)"
  shows "pp_after p = pp_after q @ changed_cells f patch" "pp_before p = pp_before q @ map (\<lambda>(k, t). (k, f k)) (changed_cells f patch)"
    "pp_size p = pp_size q + growth f (changed_cells f patch)" "pp_count p = pp_count q + more_cells f (changed_cells f patch)"
    "\<forall>(k, t) \<in> set patch. cell_in (sh_rows s) (sh_columns s) k \<and> length t \<le> max_input"
proof -
  have "pp_after p = pp_after q @ changed_cells f patch \<and> pp_before p = pp_before q @ map (\<lambda>(k, t). (k, f k)) (changed_cells f patch)
    \<and> pp_size p = pp_size q + growth f (changed_cells f patch) \<and> pp_count p = pp_count q + more_cells f (changed_cells f patch)
    \<and> (\<forall>(k, t) \<in> set patch. cell_in (sh_rows s) (sh_columns s) k \<and> length t \<le> max_input)"
    using assms(1-4)
  proof (induction patch arbitrary: q)
    case (Cons x patch)
    obtain k t where x: "x = (k, t)" by force
    from Cons.prems(1) have ok: "cell_in (sh_rows s) (sh_columns s) k" "length t \<le> max_input"
      by (auto simp: x plan_cell_def and_then_Inr split: if_splits)
    show ?case
    proof (cases "f k = t")
      case True
      then have "fold_sum (plan_cell e s) patch q = Inr p" using Cons.prems(1) ok by (simp add: x plan_cell_def f_def Let_def)
      with Cons.IH [OF this] Cons.prems(2-4) True ok show ?thesis by (simp add: x changed_cells_def)
    next
      case False
      let ?q = "q\<lparr>pp_before := pp_before q @ [(k, f k)], pp_after := pp_after q @ [(k, t)],
        pp_size := pp_size q + (int (length t) - int (length (f k))), pp_count := pp_count q + (filled t - filled (f k)),
        pp_history := pp_history q + length (f k) + length t + length k * 2\<rparr>"
      have "rset k (f k) (pp_before q) = pp_before q @ [(k, f k)]" "rset k t (pp_after q) = pp_after q @ [(k, t)]"
        using Cons.prems(3,4) unfolding x by (auto intro!: rset_fresh)
      then have "fold_sum (plan_cell e s) patch ?q = Inr p" using Cons.prems(1) ok False by (simp add: x plan_cell_def f_def Let_def)
      moreover have "distinct (rkeys patch)" "set (rkeys (pp_after ?q)) \<inter> set (rkeys patch) = {}" "set (rkeys (pp_before ?q)) \<inter> set (rkeys patch) = {}"
        using Cons.prems(2-4) unfolding x by auto
      ultimately show ?thesis using Cons.IH [of ?q] False ok by (simp add: x changed_cells_def growth_def more_cells_def)
    qed
  qed (simp add: changed_cells_def growth_def more_cells_def)
  then show "pp_after p = pp_after q @ changed_cells f patch" "pp_before p = pp_before q @ map (\<lambda>(k, t). (k, f k)) (changed_cells f patch)"
    "pp_size p = pp_size q + growth f (changed_cells f patch)" "pp_count p = pp_count q + more_cells f (changed_cells f patch)"
    "\<forall>(k, t) \<in> set patch. cell_in (sh_rows s) (sh_columns s) k \<and> length t \<le> max_input" by blast+
qed

lemma length_rset: "length (rset k v r) = (if rget r k = None then Suc (length r) else length r)"
  by (induction r) auto

lemma size_rset: "distinct (rkeys r) \<Longrightarrow> int (content_size (rset k t r)) = int (content_size r) + int (length t) - int (length (cell_text r k))"
proof (induction r)
  case (Cons x r)
  then show ?case by (cases "fst x = k") (auto simp: cell_text_def)
qed (simp add: cell_text_def)

lemma rdel_absent: "rget r k = None \<Longrightarrow> rdel k r = r"
  by (induction r) (auto split: if_splits)

lemma length_rdel: "distinct (rkeys r) \<Longrightarrow> rget r k \<noteq> None \<Longrightarrow> Suc (length (rdel k r)) = length r"
proof (induction r)
  case (Cons x r)
  obtain a v where x: "x = (a, v)" by force
  show ?case
  proof (cases "a = k")
    case True
    then have "rget r k = None" using Cons.prems(1) by (simp add: x map_of_eq_None_iff)
    then show ?thesis using True by (simp add: x rdel_absent)
  next
    case False
    then show ?thesis using Cons by (simp add: x)
  qed
qed simp

lemma size_rdel: "distinct (rkeys r) \<Longrightarrow> int (content_size (rdel k r)) = int (content_size r) - int (length (cell_text r k))"
proof (induction r)
  case (Cons x r)
  have "rget r (fst x) = None" using Cons.prems by (simp add: map_of_eq_None_iff)
  then have "cell_text r k = [] \<and> rdel k r = r" if "k = fst x" using that by (simp add: cell_text_def rdel_absent)
  with Cons show ?case by (cases x) (auto simp: cell_text_def)
qed (simp add: cell_text_def)

lemma put_cell_totals:
  assumes "clean_cells cells"
  shows "int (content_size (put_cell k t cells)) = int (content_size cells) + (int (length t) - int (length (cell_text cells k)))"
    "int (length (put_cell k t cells)) = int (length cells) + (filled t - filled (cell_text cells k))"
proof -
  have d: "distinct (rkeys cells)" using assms by (simp add: clean_cells_def)
  show "int (content_size (put_cell k t cells)) = int (content_size cells) + (int (length t) - int (length (cell_text cells k)))"
    by (simp add: put_cell_def size_rset [OF d] size_rdel [OF d])
  show "int (length (put_cell k t cells)) = int (length cells) + (filled t - filled (cell_text cells k))"
    using clean_text [OF assms, of k] length_rdel [OF d, of k] by (auto simp: put_cell_def length_rset rdel_absent filled_def)
qed

lemma put_cells_totals:
  assumes "clean_cells cells" and "distinct (rkeys p)"
  shows "int (content_size (put_cells p cells)) = int (content_size cells) + growth (cell_text cells) p"
    "int (length (put_cells p cells)) = int (length cells) + more_cells (cell_text cells) p"
proof -
  have "int (content_size (put_cells p cells)) = int (content_size cells) + growth (cell_text cells) p
      \<and> int (length (put_cells p cells)) = int (length cells) + more_cells (cell_text cells) p"
    using assms
  proof (induction p arbitrary: cells)
    case (Cons x p)
    obtain k t where x: "x = (k, t)" by force
    have "((cell_text cells)(k := t)) j = cell_text cells j" if "j \<in> set (rkeys p)" for j using that Cons.prems(2) unfolding x by auto
    then have "growth ((cell_text cells)(k := t)) p = growth (cell_text cells) p" "more_cells ((cell_text cells)(k := t)) p = more_cells (cell_text cells) p"
      unfolding growth_def more_cells_def by (auto intro!: arg_cong [of _ _ sum_list] map_cong split: prod.splits) (metis fst_conv image_eqI)+
    then show ?case
      using Cons.IH [OF clean_put_cell [OF Cons.prems(1)], of k t] Cons.prems(2) put_cell_totals [OF Cons.prems(1), of k t]
      by (simp add: x put_cells_def growth_def more_cells_def)
  qed (simp add: put_cells_def growth_def more_cells_def)
  then show "int (content_size (put_cells p cells)) = int (content_size cells) + growth (cell_text cells) p"
    "int (length (put_cells p cells)) = int (length cells) + more_cells (cell_text cells) p" by blast+
qed

lemma keys_put_cells: "set (rkeys (put_cells p cells)) \<subseteq> set (rkeys cells) \<union> set (rkeys p)"
  unfolding put_cells_def
proof (induction p arbitrary: cells)
  case (Cons x p)
  obtain k t where x: "x = (k, t)" by force
  have "set (rkeys (put_cell k t cells)) \<subseteq> insert k (set (rkeys cells))" unfolding set_fst_dom put_cell_def by (cases "t = []") auto
  moreover note Cons.IH [of "put_cell k t cells"]
  ultimately show ?case unfolding x fold_Cons comp_apply prod.case list.map set_simps fst_conv by blast
qed simp

section \<open>Deltas\<close>

lemma json_of_rec_inj: "inj f \<Longrightarrow> json_of_rec f r = json_of_rec f r' \<Longrightarrow> r = r'"
proof -
  assume f: "inj f" and eq: "json_of_rec f r = json_of_rec f r'"
  have "inj (\<lambda>(k, v). (k, f v))" using f by (auto simp: inj_on_def)
  then have "inj (map (\<lambda>(k, v). (k, f v)))" by (rule inj_mapI)
  with eq show ?thesis by (auto simp: json_of_rec_def inj_on_def)
qed

lemma json_of_format_inj: "inj json_of_format"
proof (rule injI)
  fix f g assume "json_of_format f = json_of_format g"
  then show "f = g" by (cases f; cases g) (simp add: json_of_format_def)
qed

lemma json_of_nat_inj: "inj json_of_nat"
  by (rule injI) simp

lemma json_of_freeze_inj: "inj json_of_freeze"
  by (rule injI) (auto simp: json_of_freeze_def)

lemma meta_members:
  fixes s :: sheet
  defines "o1 \<equiv> [(''version'', JNum 1000), (''rows'', json_of_nat (sh_rows s)), (''columns'', json_of_nat (sh_columns s))] @ json_of_meta s"
  shows "rget o1 ''rows'' = Some (json_of_nat (sh_rows s))" "rget o1 ''columns'' = Some (json_of_nat (sh_columns s))"
    "rget o1 ''formats'' = map_option (json_of_rec json_of_format) (sh_formats s)" "rget o1 ''widths'' = map_option (json_of_rec json_of_nat) (sh_widths s)"
    "rget o1 ''wrap'' = map_option JBool (sh_wrap s)" "rget o1 ''freeze'' = map_option json_of_freeze (sh_freeze s)"
  by (cases "sh_formats s"; cases "sh_widths s"; cases "sh_wrap s"; cases "sh_freeze s"; simp add: o1_def json_of_meta_def opt_member_def)+

lemma metadata_inj:
  assumes "json_of_metadata s = json_of_metadata t"
  shows "sheet_meta s = sheet_meta t"
proof -
  from assms have eq: "[(''version'', JNum 1000), (''rows'', json_of_nat (sh_rows s)), (''columns'', json_of_nat (sh_columns s))] @ json_of_meta s
    = [(''version'', JNum 1000), (''rows'', json_of_nat (sh_rows t)), (''columns'', json_of_nat (sh_columns t))] @ json_of_meta t"
    by (simp add: json_of_metadata_def)
  note ms = meta_members [of s, unfolded eq] and mt = meta_members [of t]
  have "sh_rows s = sh_rows t" "sh_columns s = sh_columns t" using ms(1,2) mt(1,2) by simp_all
  moreover have "sh_formats s = sh_formats t"
    using ms(3) mt(3) json_of_rec_inj [OF json_of_format_inj] by (cases "sh_formats s"; cases "sh_formats t") simp_all
  moreover have "sh_widths s = sh_widths t"
    using ms(4) mt(4) json_of_rec_inj [OF json_of_nat_inj] by (cases "sh_widths s"; cases "sh_widths t") simp_all
  moreover have "sh_wrap s = sh_wrap t" using ms(5) mt(5) by (cases "sh_wrap s"; cases "sh_wrap t") simp_all
  moreover have "sh_freeze s = sh_freeze t"
    using ms(6) mt(6) json_of_freeze_inj by (cases "sh_freeze s"; cases "sh_freeze t") (auto dest: injD)
  ultimately show ?thesis by (cases s; cases t) (simp add: sheet_meta_def)
qed

lemma stringify_inj: "stringify v = stringify w \<Longrightarrow> v = w"
  by (metis parse_stringify option.inject)

lemma rget_map_keys: "rget (map (\<lambda>k. (k, f k)) ks) k = (if k \<in> set ks then Some (f k) else None)"
  by (induction ks) auto

lemma cell_text_absent: "k \<notin> set (rkeys cells) \<Longrightarrow> cell_text cells k = []"
  by (simp add: cell_text_def map_of_eq_None_iff [THEN iffD2])

lemma sheet_delta_views:
  shows "sheet_delta i old new = [] \<Longrightarrow> view_sheet old = view_sheet new"
    "d \<in> set (sheet_delta i old new) \<Longrightarrow> dl_id d = i \<and> delta_ok d \<and> view_delta True d (view_sheet old) = view_sheet new \<and> view_delta False d (view_sheet new) = view_sheet old"
    "sheet_delta i old new = [] \<or> (\<exists>d. sheet_delta i old new = [d])"
proof -
  let ?a = "cell_text (sh_cells old)" and ?b = "cell_text (sh_cells new)"
  define keys where "keys = filter (\<lambda>k. ?a k \<noteq> ?b k) (uniq (rkeys (sh_cells old) @ rkeys (sh_cells new)))"
  have delta: "sheet_delta i old new = (if keys \<noteq> [] \<or> stringify (json_of_metadata old) \<noteq> stringify (json_of_metadata new)
         then [\<lparr>dl_id = i, dl_before = map (\<lambda>k. (k, ?a k)) keys, dl_after = map (\<lambda>k. (k, ?b k)) keys,
                 dl_oldMeta = sheet_meta old, dl_newMeta = sheet_meta new, dl_same = False\<rparr>] else [])"
    by (simp add: sheet_delta_def Let_def keys_def)
  have dk: "distinct keys" by (simp add: keys_def)
  have key: "k \<in> set keys \<longleftrightarrow> ?a k \<noteq> ?b k" for k
    using cell_text_absent [of k "sh_cells old"] cell_text_absent [of k "sh_cells new"]
    unfolding keys_def set_filter set_uniq set_append mem_Collect_eq Un_iff by metis
  show "sheet_delta i old new = [] \<or> (\<exists>d. sheet_delta i old new = [d])" by (simp add: delta)
  { assume "sheet_delta i old new = []"
    then have none: "keys = []" and same: "stringify (json_of_metadata old) = stringify (json_of_metadata new)" by (auto simp: delta split: if_splits)
    have "?a k = ?b k" for k using key [of k] none by simp
    then have "?a = ?b" ..
    then show "view_sheet old = view_sheet new" using metadata_inj [OF stringify_inj [OF same]] by (simp add: view_sheet_def) }
  assume "d \<in> set (sheet_delta i old new)"
  then have d: "d = \<lparr>dl_id = i, dl_before = map (\<lambda>k. (k, ?a k)) keys, dl_after = map (\<lambda>k. (k, ?b k)) keys,
      dl_oldMeta = sheet_meta old, dl_newMeta = sheet_meta new, dl_same = False\<rparr>" by (auto simp: delta split: if_splits)
  have "patched (map (\<lambda>k. (k, ?b k)) keys) ?a = ?b" "patched (map (\<lambda>k. (k, ?a k)) keys) ?b = ?a"
    using key by (auto simp: patched_def fun_eq_iff rget_map_keys)
  then show "dl_id d = i \<and> delta_ok d \<and> view_delta True d (view_sheet old) = view_sheet new \<and> view_delta False d (view_sheet new) = view_sheet old"
    using dk by (simp add: d view_delta_def view_sheet_def delta_ok_def sheet_meta_def comp_def)
qed

lemma find_concat:
  fixes D :: "string \<Rightarrow> delta list"
  assumes "\<And>i d. d \<in> set (D i) \<Longrightarrow> dl_id d = i"
  shows "find (\<lambda>d. dl_id d = i) (concat (map D ids)) = (if i \<in> set ids then (case D i of [] \<Rightarrow> None | d # _ \<Rightarrow> Some d) else None)"
proof (induction ids)
  case (Cons j ids)
  have app: "find P (xs @ ys) = (case find P xs of None \<Rightarrow> find P ys | Some x \<Rightarrow> Some x)" for P :: "delta \<Rightarrow> bool" and xs ys by (induction xs) auto
  show ?case
  proof (cases "i = j")
    case True
    then show ?thesis using assms [of _ j] Cons.IH by (cases "D j") (auto simp: app)
  next
    case False
    then have "find (\<lambda>d. dl_id d = i) (D j) = None" using assms [of _ j] by (auto simp: find_None_iff)
    then show ?thesis using False Cons.IH by (simp add: app)
  qed
qed simp

lemma find_own_sheet: "distinct (map wk_id (wb_sheets b)) \<Longrightarrow> w \<in> set (wb_sheets b) \<Longrightarrow> find_or_empty (wk_id w) b = wk_sheet w"
proof -
  assume d: "distinct (map wk_id (wb_sheets b))" and w: "w \<in> set (wb_sheets b)"
  have "find (\<lambda>v. wk_id v = wk_id w) ws = Some w" if "distinct (map wk_id ws)" "w \<in> set ws" for ws
    using that by (induction ws) (auto simp: rev_image_eqI)
  from this [OF d w] show ?thesis by (simp add: find_or_empty_def find_sheet_def)
qed

lemma replaced_views:
  assumes "distinct (map wk_id (wb_sheets b))" and "distinct (map wk_id (wb_sheets new))"
    and "ch_deltas c = concat (map (\<lambda>i. sheet_delta i (find_or_empty i b) (find_or_empty i new)) (uniq (map fst (tabs_of b @ tabs_of new))))"
    and "ch_before c = tabs_of b" and "ch_after c = tabs_of new" and "ch_activeBefore c = wb_active b" and "ch_activeAfter c = wb_active new"
  shows "change_ok c" "view_write c True (book_view b) = book_view new" "view_write c False (book_view new) = book_view b"
proof -
  let ?D = "\<lambda>i. sheet_delta i (find_or_empty i b) (find_or_empty i new)"
  have ids: "dl_id d = i" if "d \<in> set (?D i)" for i d using sheet_delta_views(2) that by blast
  show "change_ok c" unfolding change_ok_def assms(3) using sheet_delta_views(2) by (auto simp: list_all_iff)
  have found: "find (\<lambda>d. dl_id d = i) (ch_deltas c) = (case ?D i of [] \<Rightarrow> None | d # _ \<Rightarrow> Some d)" if "i \<in> set (map fst (tabs_of b @ tabs_of new))" for i
    unfolding assms(3) using find_concat [where D = ?D, OF ids] that by simp
  have both: "(case find (\<lambda>d. dl_id d = i) (ch_deltas c) of None \<Rightarrow> view_at i (book_view b) | Some d \<Rightarrow> view_delta True d (view_at i (book_view b)))
        = view_sheet (find_or_empty i new)
      \<and> (case find (\<lambda>d. dl_id d = i) (ch_deltas c) of None \<Rightarrow> view_at i (book_view new) | Some d \<Rightarrow> view_delta False d (view_at i (book_view new)))
        = view_sheet (find_or_empty i b)" if "i \<in> set (map fst (tabs_of b @ tabs_of new))" for i
    using sheet_delta_views [where i = i and old = "find_or_empty i b" and new = "find_or_empty i new"] unfolding found [OF that] view_find [symmetric] by (auto split: list.split)
  show "view_write c True (book_view b) = book_view new"
    using both find_own_sheet [OF assms(2)] unfolding view_write_def book_view_def [of new] assms(5,7) by (auto simp: tabs_of_def)
  show "view_write c False (book_view new) = book_view b"
    using both find_own_sheet [OF assms(1)] unfolding view_write_def book_view_def [of b] assms(4,6) by (auto simp: tabs_of_def)
qed

section \<open>The history\<close>

text \<open>Every change on the stacks leads back and forth between valid workbooks; the top comes first.\<close>

definition view_ok :: "book_view \<Rightarrow> bool" where
  "view_ok V \<longleftrightarrow> (\<exists>b. workbook_ok b \<and> book_view b = V)"

fun undo_chain :: "book_view \<Rightarrow> change list \<Rightarrow> bool" where
  "undo_chain V [] \<longleftrightarrow> True"
| "undo_chain V (c # cs) \<longleftrightarrow> change_ok c \<and> view_ok (view_write c False V) \<and> view_write c True (view_write c False V) = V \<and> undo_chain (view_write c False V) cs"

fun redo_chain :: "book_view \<Rightarrow> change list \<Rightarrow> bool" where
  "redo_chain V [] \<longleftrightarrow> True"
| "redo_chain V (c # cs) \<longleftrightarrow> change_ok c \<and> view_ok (view_write c True V) \<and> view_write c False (view_write c True V) = V \<and> redo_chain (view_write c True V) cs"

definition history_ok :: "history \<Rightarrow> bool" where
  "history_ok h \<longleftrightarrow> workbook_ok (wh_book h) \<and> wh_count h = int (book_count (wh_book h)) \<and> wh_text h = int (book_text (wh_book h))
     \<and> undo_chain (book_view (wh_book h)) (rev (wh_undo h)) \<and> redo_chain (book_view (wh_book h)) (rev (wh_redo h))"

lemma undo_chain_prefix: "undo_chain V (xs @ ys) \<Longrightarrow> undo_chain V xs"
  by (induction xs arbitrary: V) auto

lemma trim_changes_suffix: "\<exists>pre. cs = pre @ fst (trim_changes cs n) \<and> (cs \<noteq> [] \<longrightarrow> fst (trim_changes cs n) \<noteq> [])"
proof (induction cs n rule: trim_changes.induct)
  case (2 c cs n)
  show ?case
  proof (cases "length (c # cs) > 100 \<or> n > 4000000 \<and> length (c # cs) > 1")
    case True
    then obtain pre where "cs = pre @ fst (trim_changes cs (n - int (ch_size c)))" "cs \<noteq> [] \<longrightarrow> fst (trim_changes cs (n - int (ch_size c))) \<noteq> []"
      using 2 by blast
    moreover have "cs \<noteq> []" using True by auto
    ultimately show ?thesis using True by (intro exI [of _ "c # pre"]) simp
  qed simp
qed simp

text \<open>The top of the undo stack after a push is the pushed change.\<close>

lemma push_change_undo:
  obtains pre us where "wh_undo (push_change c h) = us @ [c]" "wh_undo h = pre @ us"
proof -
  let ?t = "fst (trim_changes (wh_undo h @ [c]) (wh_size h + int (ch_size c)))"
  obtain pre where pre: "wh_undo h @ [c] = pre @ ?t" "?t \<noteq> []" using trim_changes_suffix [of "wh_undo h @ [c]" "wh_size h + int (ch_size c)"] by auto
  then obtain us where us: "?t = us @ [c]" by (metis append_butlast_last_id last_appendR last_snoc)
  with pre have "wh_undo h = pre @ us" by simp
  moreover have "wh_undo (push_change c h) = us @ [c]" using us by (simp add: push_change_def case_prod_unfold Let_def)
  ultimately show ?thesis by (rule that [rotated])
qed

lemma push_change_book [simp]: "wh_book (push_change c h) = wh_book h" "wh_redo (push_change c h) = []"
  "wh_count (push_change c h) = wh_count h" "wh_text (push_change c h) = wh_text h"
  by (simp_all add: push_change_def case_prod_unfold Let_def)

lemma write_change_book [simp]: "wh_book (write_change c f h) = write_book c f (wh_book h)" "wh_undo (write_change c f h) = wh_undo h"
  "wh_redo (write_change c f h) = wh_redo h" "wh_count (write_change c f h) = int (book_count (write_book c f (wh_book h)))"
  "wh_text (write_change c f h) = int (book_text (write_book c f (wh_book h)))"
  by (simp_all add: write_change_def measure_history_def)

lemma clean_write: "clean_book b \<Longrightarrow> change_ok c \<Longrightarrow> clean_book (write_book c f b)"
proof -
  assume b: "clean_book b" and c: "change_ok c"
  have "clean_cells (sh_cells (find_or_empty i b))" for i
  proof (cases "find (\<lambda>w. wk_id w = i) (wb_sheets b)")
    case None
    then show ?thesis by (simp add: find_or_empty_def find_sheet_def empty_sheet_def clean_cells_def)
  next
    case (Some w)
    then have "w \<in> set (wb_sheets b)" by (auto simp: find_Some_iff)
    with b Some show ?thesis by (simp add: find_or_empty_def find_sheet_def clean_book_def list_all_iff)
  qed
  then show ?thesis
    by (auto simp: clean_book_def write_book_def list_all_iff write_tab_def Let_def clean_put_cells split: option.split)
qed

text \<open>A write between two views of the chain lands on a valid workbook.\<close>

lemma write_valid:
  assumes "workbook_ok b" and "change_ok c" and "view_ok (view_write c f (book_view b))"
  shows "workbook_ok (write_book c f b)" "book_view (write_book c f b) = view_write c f (book_view b)"
proof -
  show v: "book_view (write_book c f b) = view_write c f (book_view b)" by (rule view_write_book [OF assms(2)])
  from assms(3) obtain a where "workbook_ok a" "book_view a = book_view (write_book c f b)" unfolding v view_ok_def by blast
  with clean_write [OF workbook_ok_clean [OF assms(1)] assms(2)] show "workbook_ok (write_book c f b)" by (blast intro: same_view_ok)
qed

lemma undo_history_ok:
  assumes "history_ok h"
  shows "history_ok (snd (undo_change h))"
proof (cases "wh_undo h = []")
  case True
  then show ?thesis using assms by (simp add: undo_change_def)
next
  case False
  then obtain us c where u: "wh_undo h = us @ [c]" by (metis rev_exhaust)
  note ok = assms [unfolded history_ok_def]
  from ok u have c: "change_ok c" "view_ok (view_write c False (book_view (wh_book h)))"
    "view_write c True (view_write c False (book_view (wh_book h))) = book_view (wh_book h)"
    "undo_chain (view_write c False (book_view (wh_book h))) (rev us)" by simp_all
  have v: "workbook_ok (write_book c False (wh_book h))" "book_view (write_book c False (wh_book h)) = view_write c False (book_view (wh_book h))"
    using ok write_valid [OF _ c(1,2)] by simp_all
  have "view_ok (book_view (wh_book h))" using ok by (auto simp: view_ok_def)
  with v c ok show ?thesis by (simp add: undo_change_def u history_ok_def Let_def)
qed

lemma redo_history_ok:
  assumes "history_ok h"
  shows "history_ok (snd (redo_change h))"
proof (cases "wh_redo h = []")
  case True
  then show ?thesis using assms by (simp add: redo_change_def)
next
  case False
  then obtain us c where u: "wh_redo h = us @ [c]" by (metis rev_exhaust)
  note ok = assms [unfolded history_ok_def]
  from ok u have c: "change_ok c" "view_ok (view_write c True (book_view (wh_book h)))"
    "view_write c False (view_write c True (book_view (wh_book h))) = book_view (wh_book h)"
    "redo_chain (view_write c True (book_view (wh_book h))) (rev us)" by simp_all
  have v: "workbook_ok (write_book c True (wh_book h))" "book_view (write_book c True (wh_book h)) = view_write c True (book_view (wh_book h))"
    using ok write_valid [OF _ c(1,2)] by simp_all
  have "view_ok (book_view (wh_book h))" using ok by (auto simp: view_ok_def)
  with v c ok show ?thesis by (simp add: redo_change_def u history_ok_def Let_def)
qed

text \<open>A change that was made and pushed.\<close>

lemma pushed_history_ok:
  assumes h: "history_ok h" and c: "change_ok c" "view_write c False (book_view b) = book_view (wh_book h)" "view_write c True (book_view (wh_book h)) = book_view b"
    and g: "wh_book g = b" "wh_undo g = wh_undo h" "wh_count g = int (book_count b)" "wh_text g = int (book_text b)" and b: "workbook_ok b"
  shows "history_ok (push_change c g)"
proof -
  obtain pre us where u: "wh_undo (push_change c g) = us @ [c]" "wh_undo g = pre @ us" by (rule push_change_undo)
  note ok = h [unfolded history_ok_def]
  have "undo_chain (book_view (wh_book h)) (rev us @ rev pre)" using ok u(2) g(2) by simp
  then have "undo_chain (book_view (wh_book h)) (rev us)" by (rule undo_chain_prefix)
  moreover have "view_ok (book_view (wh_book h))" using ok by (auto simp: view_ok_def)
  ultimately show ?thesis using c g b u(1) by (simp add: history_ok_def)
qed

section \<open>The parser\<close>

lemma parse_sheet_ok: "parse_sheet raw = Inr s \<Longrightarrow> sheet_ok s"
  by (auto simp: parse_sheet_def split: if_splits option.splits intro: parse_sheet_value_ok)

definition worksheet_ok :: "worksheet \<Rightarrow> bool" where
  "worksheet_ok w \<longleftrightarrow> valid_sheet_id (wk_id w) \<and> valid_sheet_name (wk_name w) \<and> sheet_ok (wk_sheet w)"

definition scan_ok :: "workbook_scan \<Rightarrow> bool" where
  "scan_ok sn \<longleftrightarrow> distinct (map wk_id (sn_sheets sn)) \<and> distinct (map (lower \<circ> wk_name) (sn_sheets sn)) \<and> list_all worksheet_ok (sn_sheets sn)
     \<and> sn_count sn = sum_list (map (\<lambda>w. length (sh_cells (wk_sheet w))) (sn_sheets sn))
     \<and> sn_text sn = sum_list (map (\<lambda>w. content_size (sh_cells (wk_sheet w))) (sn_sheets sn))"

lemma parse_worksheet_iff:
  "parse_worksheet e sn = Inr sn' \<longleftrightarrow> (\<exists>kvs i name v s. e = JObj kvs \<and> rget (js_object kvs) ''id'' = Some (JStr i) \<and> rget (js_object kvs) ''name'' = Some (JStr name)
     \<and> rget (js_object kvs) ''sheet'' = Some v \<and> only_keys [''id'', ''name'', ''sheet''] (js_object kvs) \<and> parse_sheet (stringify v) = Inr s
     \<and> valid_sheet_id i \<and> valid_sheet_name name \<and> i \<notin> set (map wk_id (sn_sheets sn)) \<and> lower name \<notin> set (map (lower \<circ> wk_name) (sn_sheets sn))
     \<and> sn' = \<lparr>sn_count = sn_count sn + length (sh_cells s), sn_text = sn_text sn + content_size (sh_cells s),
                sn_sheets = sn_sheets sn @ [\<lparr>wk_id = i, wk_name = name, wk_sheet = s\<rparr>]\<rparr>)" (is "_ \<longleftrightarrow> ?r")
proof
  assume "parse_worksheet e sn = Inr sn'"
  then show ?r by (auto simp: parse_worksheet_def Let_def and_then_Inr split: json.splits option.splits if_splits)
next
  assume ?r
  then show "parse_worksheet e sn = Inr sn'" by (auto simp: parse_worksheet_def Let_def)
qed

lemma parse_worksheet_scan: "parse_worksheet e sn = Inr sn' \<Longrightarrow> scan_ok sn \<Longrightarrow> scan_ok sn' \<and> length (sn_sheets sn') = Suc (length (sn_sheets sn))"
  unfolding parse_worksheet_iff by (auto simp: scan_ok_def worksheet_ok_def parse_sheet_ok)

lemma parse_worksheets_scan:
  "fold_sum parse_worksheet es sn = Inr sn' \<Longrightarrow> scan_ok sn \<Longrightarrow> scan_ok sn' \<and> length (sn_sheets sn') = length (sn_sheets sn) + length es"
proof (induction es arbitrary: sn)
  case (Cons e es)
  then obtain sm where "parse_worksheet e sn = Inr sm" "fold_sum parse_worksheet es sm = Inr sn'" by (auto simp: and_then_Inr)
  with Cons.IH [of sm] parse_worksheet_scan [of e sn sm] Cons.prems(2) show ?case by auto
qed simp

lemma workbook_of_ok: "sheet_ok s \<Longrightarrow> workbook_ok (workbook_of s)"
proof -
  have "valid_sheet_id ''sheet1''" by (simp add: valid_sheet_id_def is_letter_def is_digit_char_def in_range_def to_upper_def)
  moreover have "valid_sheet_name ''Sheet1''" by (simp add: valid_sheet_name_def forbidden_name_chars_def trim_def is_space_def backslash_def)
  moreover assume "sheet_ok s"
  ultimately show ?thesis
    by (simp add: workbook_ok_def workbook_of_def max_sheets_def book_count_def book_text_def sheet_ok_def cells_ok_def)
qed

lemma parse_book_iff:
  "parse_book v es = Inr b \<longleftrightarrow> (\<exists>a sn. v = Some (JStr a) \<and> es \<noteq> [] \<and> length es \<le> max_sheets
     \<and> fold_sum parse_worksheet es \<lparr>sn_count = 0, sn_text = 0, sn_sheets = []\<rparr> = Inr sn
     \<and> a \<in> set (map wk_id (sn_sheets sn)) \<and> sn_count sn \<le> max_cells \<and> sn_text sn \<le> max_content \<and> b = \<lparr>wb_active = a, wb_sheets = sn_sheets sn\<rparr>)" (is "_ \<longleftrightarrow> ?r")
proof
  assume b: "parse_book v es = Inr b"
  then have es: "es \<noteq> []" "length es \<le> max_sheets" by (simp_all add: parse_book_def split: if_splits)
  with b have "\<exists>sn. fold_sum parse_worksheet es \<lparr>sn_count = 0, sn_text = 0, sn_sheets = []\<rparr> = Inr sn \<and> (case v of
      Some (JStr a) \<Rightarrow> if a \<notin> set (map wk_id (sn_sheets sn)) \<or> sn_count sn > max_cells \<or> sn_text sn > max_content then Inl (SheetsError ''WorkbookInvalid'')
        else Inr \<lparr>wb_active = a, wb_sheets = sn_sheets sn\<rparr>
    | _ \<Rightarrow> Inl (SheetsError ''WorkbookInvalid'')) = Inr b" by (simp only: parse_book_def and_then_Inr not_less if_False simp_thms flip: not_less)
  then obtain sn where fold: "fold_sum parse_worksheet es \<lparr>sn_count = 0, sn_text = 0, sn_sheets = []\<rparr> = Inr sn" and fin: "(case v of
      Some (JStr a) \<Rightarrow> if a \<notin> set (map wk_id (sn_sheets sn)) \<or> sn_count sn > max_cells \<or> sn_text sn > max_content then Inl (SheetsError ''WorkbookInvalid'')
        else Inr \<lparr>wb_active = a, wb_sheets = sn_sheets sn\<rparr>
    | _ \<Rightarrow> Inl (SheetsError ''WorkbookInvalid'')) = Inr b" by blast
  from fin obtain a where "v = Some (JStr a)" by (cases v; cases "the v") simp_all
  with es fold fin show ?r by (simp add: not_less split: if_splits)
next
  assume ?r
  then show "parse_book v es = Inr b" by (auto simp: parse_book_def)
qed

lemma parse_book_ok: "parse_book v es = Inr b \<Longrightarrow> workbook_ok b"
proof -
  assume "parse_book v es = Inr b"
  then obtain a sn where es: "es \<noteq> []" "length es \<le> max_sheets" and fold: "fold_sum parse_worksheet es \<lparr>sn_count = 0, sn_text = 0, sn_sheets = []\<rparr> = Inr sn"
    and fin: "a \<in> set (map wk_id (sn_sheets sn))" "sn_count sn \<le> max_cells" "sn_text sn \<le> max_content"
    and b: "b = \<lparr>wb_active = a, wb_sheets = sn_sheets sn\<rparr>"
    unfolding parse_book_iff by blast
  have "scan_ok sn \<and> length (sn_sheets sn) = length es"
    using parse_worksheets_scan [OF fold] by (simp add: scan_ok_def)
  then show ?thesis using es fin
    by (auto simp: b workbook_ok_def scan_ok_def book_count_def book_text_def worksheet_ok_def list_all_iff)
qed

lemma parse_workbook_ok:
  assumes "parse_workbook raw = Inr b"
  shows "workbook_ok b"
proof -
  from assms obtain kvs where v: "parse_json raw = Some (JObj kvs)" and len: "\<not> length raw > max_file_bytes"
    by (auto simp: parse_workbook_def split: option.splits json.splits if_splits)
  show ?thesis
  proof (cases "rget (js_object kvs) ''version'' = Some (JNum 1000)")
    case True
    with assms v len obtain s where "parse_sheet raw = Inr s" "b = workbook_of s" by (auto simp: parse_workbook_def and_then_Inr Let_def)
    then show ?thesis using parse_sheet_ok workbook_of_ok by simp
  next
    case False
    with assms v len obtain es where "parse_book (rget (js_object kvs) ''active'') es = Inr b"
      by (auto simp: parse_workbook_def Let_def split: option.splits json.splits if_splits)
    then show ?thesis by (rule parse_book_ok)
  qed
qed

text \<open>What is printed inside is no longer than what it is printed into.\<close>

lemma compact_level: "show_json (\<lambda>_. []) c l v = show_json (\<lambda>_. []) c 0 v"
proof (induction v arbitrary: l)
  case (JArr vs)
  have "show_json (\<lambda>_. []) c (Suc l) w = show_json (\<lambda>_. []) c (Suc 0) w" if "w \<in> set vs" for w
    using JArr [OF that, of "Suc l"] JArr [OF that, of "Suc 0"] by simp
  then have eq: "map (show_json (\<lambda>_. []) c (Suc l)) vs = map (show_json (\<lambda>_. []) c (Suc 0)) vs" by simp
  show ?case unfolding show_json.simps eq ..
next
  case (JObj kvs)
  have "show_json (\<lambda>_. []) c (Suc l) w = show_json (\<lambda>_. []) c (Suc 0) w" if "(k, w) \<in> set kvs" for k w
    using JObj [of "(k, w)" w "Suc l"] JObj [of "(k, w)" w "Suc 0"] that by simp
  then have "map (\<lambda>(k, v). quote_json k @ c @ show_json (\<lambda>_. []) c (Suc l) v) kvs = map (\<lambda>(k, v). quote_json k @ c @ show_json (\<lambda>_. []) c (Suc 0) v) kvs"
    by auto
  then show ?case by (simp only: show_json.simps)
qed simp_all

lemma join_member: "s \<in> set ss \<Longrightarrow> length s \<le> length (join sep ss)"
  by (induction sep ss rule: join.induct) auto

lemma member_length_arr: "v \<in> set vs \<Longrightarrow> length (stringify v) \<le> length (stringify (JArr vs))"
proof -
  assume v: "v \<in> set vs"
  then have "length (show_json (\<lambda>_. []) '':'' (Suc 0) v) \<le> length (join '','' (map (show_json (\<lambda>_. []) '':'' (Suc 0)) vs))" by (intro join_member) simp
  with v show ?thesis by (auto simp: stringify_def compact_level [of _ "Suc 0"])
qed

lemma member_length_obj: "(k, v) \<in> set kvs \<Longrightarrow> length (stringify v) \<le> length (stringify (JObj kvs))"
proof -
  assume v: "(k, v) \<in> set kvs"
  let ?f = "\<lambda>(k, v). quote_json k @ '':'' @ show_json (\<lambda>_. []) '':'' (Suc 0) v"
  have "length (?f (k, v)) \<le> length (join '','' (map ?f kvs))" using v by (intro join_member) force
  with v show ?thesis by (auto simp: stringify_def compact_level [of _ "Suc 0"])
qed

lemma sheet_length: "w \<in> set (wb_sheets b) \<Longrightarrow> length (stringify (json_of_sheet (wk_sheet w))) \<le> length (stringify (json_of_workbook b))"
proof -
  assume w: "w \<in> set (wb_sheets b)"
  have "length (stringify (json_of_sheet (wk_sheet w))) \<le> length (stringify (json_of_worksheet w))"
    unfolding json_of_worksheet_def by (rule member_length_obj [of "''sheet''"]) simp
  also have "\<dots> \<le> length (stringify (JArr (map json_of_worksheet (wb_sheets b))))" using w by (intro member_length_arr) simp
  also have "\<dots> \<le> length (stringify (json_of_workbook b))"
    unfolding json_of_workbook_def by (rule member_length_obj [of "''sheets''"]) simp
  finally show ?thesis .
qed

lemma parse_sheet_printed: "sheet_ok s \<Longrightarrow> length (stringify (json_of_sheet s)) \<le> max_file_bytes \<Longrightarrow> parse_sheet (stringify (json_of_sheet s)) = Inr s"
  by (simp add: parse_sheet_def parse_sheet_value_printed)

lemma parse_worksheets_printed:
  assumes "list_all worksheet_ok ws" and "distinct (map wk_id (sn_sheets sn @ ws))" and "distinct (map (lower \<circ> wk_name) (sn_sheets sn @ ws))"
    and "\<And>w. w \<in> set ws \<Longrightarrow> length (stringify (json_of_sheet (wk_sheet w))) \<le> max_file_bytes"
  shows "fold_sum parse_worksheet (map json_of_worksheet ws) sn = Inr
    \<lparr>sn_count = sn_count sn + sum_list (map (\<lambda>w. length (sh_cells (wk_sheet w))) ws),
     sn_text = sn_text sn + sum_list (map (\<lambda>w. content_size (sh_cells (wk_sheet w))) ws), sn_sheets = sn_sheets sn @ ws\<rparr>"
  using assms
proof (induction ws arbitrary: sn)
  case (Cons w ws)
  let ?sm = "\<lparr>sn_count = sn_count sn + length (sh_cells (wk_sheet w)), sn_text = sn_text sn + content_size (sh_cells (wk_sheet w)), sn_sheets = sn_sheets sn @ [w]\<rparr>"
  have "parse_worksheet (json_of_worksheet w) sn = Inr ?sm"
    unfolding parse_worksheet_iff json_of_worksheet_def
    using Cons.prems parse_sheet_printed [of "wk_sheet w"] by (auto simp: only_keys_def worksheet_ok_def intro!: exI)
  then show ?case using Cons.IH [of ?sm] Cons.prems by (simp add: add.assoc)
qed simp

lemma parse_workbook_value:
  assumes "workbook_ok b" and "length (stringify (json_of_workbook b)) \<le> max_file_bytes"
  shows "parse_workbook (stringify (json_of_workbook b)) = Inr b"
proof -
  note ok = assms(1) [unfolded workbook_ok_def]
  have ws: "list_all worksheet_ok (wb_sheets b)" using ok by (auto simp: worksheet_ok_def list_all_iff)
  have short: "length (stringify (json_of_sheet (wk_sheet w))) \<le> max_file_bytes" if "w \<in> set (wb_sheets b)" for w
    using sheet_length [OF that] assms(2) by simp
  have fold: "fold_sum parse_worksheet (map json_of_worksheet (wb_sheets b)) \<lparr>sn_count = 0, sn_text = 0, sn_sheets = []\<rparr> = Inr
      \<lparr>sn_count = book_count b, sn_text = book_text b, sn_sheets = wb_sheets b\<rparr>"
    using parse_worksheets_printed [OF ws _ _ short, of "\<lparr>sn_count = 0, sn_text = 0, sn_sheets = []\<rparr>"] ok by (simp add: book_count_def book_text_def)
  have fields: "js_object [(''version'', JNum 2000), (''active'', JStr (wb_active b)), (''sheets'', JArr (map json_of_worksheet (wb_sheets b)))]
      = [(''version'', JNum 2000), (''active'', JStr (wb_active b)), (''sheets'', JArr (map json_of_worksheet (wb_sheets b)))]"
    by (rule js_object_same) simp
  show ?thesis
    using assms(2) ok unfolding parse_workbook_def parse_stringify
    by (simp add: json_of_workbook_def fields only_keys_def Let_def fold not_less parse_book_iff)
qed

section \<open>Edits keep the history valid\<close>

lemma replace_history:
  assumes h: "history_ok h" and r: "replace_book new h = (Inr True, g)"
  shows "history_ok g" and "\<exists>c m. g = push_change c (write_change c True h) \<and> workbook_ok m \<and> change_ok c
    \<and> view_write c False (book_view m) = book_view (wh_book h) \<and> view_write c True (book_view (wh_book h)) = book_view m"
proof -
  note ok = h [unfolded history_ok_def]
  from r obtain m where m: "parse_workbook (stringify (json_of_workbook new)) = Inr m" by (auto simp: replace_book_def split: sum.splits)
  define c where "c = measured_change \<lparr>ch_deltas = concat (map (\<lambda>i. sheet_delta i (find_or_empty i (wh_book h)) (find_or_empty i m)) (uniq (map fst (tabs_of (wh_book h) @ tabs_of m)))),
    ch_before = tabs_of (wh_book h), ch_after = tabs_of m, ch_activeBefore = wb_active (wh_book h), ch_activeAfter = wb_active m, ch_size = 0\<rparr>"
  have g: "g = push_change c (write_change c True h)" using r m by (simp add: replace_book_def c_def Let_def split: if_splits)
  have m_ok: "workbook_ok m" by (rule parse_workbook_ok [OF m])
  have v: "change_ok c" "view_write c True (book_view (wh_book h)) = book_view m" "view_write c False (book_view m) = book_view (wh_book h)"
    using replaced_views [of "wh_book h" m c] ok m_ok by (simp_all add: workbook_ok_def c_def measured_change_def)
  then show "\<exists>c m. g = push_change c (write_change c True h) \<and> workbook_ok m \<and> change_ok c
    \<and> view_write c False (book_view m) = book_view (wh_book h) \<and> view_write c True (book_view (wh_book h)) = book_view m" using g m_ok by blast
  have "view_ok (view_write c True (book_view (wh_book h)))" using v m_ok by (auto simp: view_ok_def)
  note w = write_valid [OF _ v(1) this]
  show "history_ok g"
    unfolding g using v w ok by (intro pushed_history_ok [OF h v(1), of "write_book c True (wh_book h)"]) simp_all
qed

lemma replace_failed: "fst (replace_book new h) \<noteq> Inr True \<Longrightarrow> snd (replace_book new h) = h"
  by (auto simp: replace_book_def Let_def split: sum.splits if_splits)

lemma find_sheet_Some: "find_sheet i b = Some s \<Longrightarrow> \<exists>w \<in> set (wb_sheets b). wk_id w = i \<and> wk_sheet w = s"
  by (auto simp: find_sheet_def find_Some_iff)

lemma sum_list_update_one:
  assumes "distinct (map wk_id ws)" and "w \<in> set ws" and "\<And>v. v \<in> set ws \<Longrightarrow> wk_id v \<noteq> wk_id w \<Longrightarrow> f (g v) = f v"
  shows "int (sum_list (map (f \<circ> g) ws)) = int (sum_list (map f ws)) + (int (f (g w)) - int (f w :: nat))"
  using assms
proof (induction ws)
  case (Cons x ws)
  show ?case
  proof (cases "x = w")
    case True
    then have "f (g v) = f v" if "v \<in> set ws" for v using Cons.prems that by (auto simp: image_iff)
    then have "(\<Sum>v\<leftarrow>ws. f (g v)) = (\<Sum>v\<leftarrow>ws. f v)" by (intro arg_cong [of _ _ sum_list] map_cong) auto
    then show ?thesis using True by (simp add: comp_def)
  next
    case False
    then have "wk_id x \<noteq> wk_id w" using Cons.prems(1,2) by (auto simp: image_iff)
    then show ?thesis using Cons False by auto
  qed
qed simp

text \<open>A sheet after a patch, as far as it is valid.\<close>

lemma patched_cells_ok:
  assumes cells: "cells_ok R C cells" and p: "distinct (rkeys p)" "\<forall>(k, t) \<in> set p. cell_in R C k \<and> length t \<le> max_input"
    and cap: "length (put_cells p cells) \<le> max_cells" "content_size (put_cells p cells) \<le> max_content"
  shows "cells_ok R C (put_cells p cells)"
proof -
  have clean: "clean_cells cells" by (rule cells_ok_clean [OF cells])
  then have new: "clean_cells (put_cells p cells)" by (rule clean_put_cells)
  have "cell_in R C k \<and> length x \<le> max_input" if kx: "(k, x) \<in> set (put_cells p cells)" for k x
  proof -
    have x: "patched p (cell_text cells) k = x" "x \<noteq> []"
      using text_of_entry [OF new kx] new kx by (auto simp: text_put_cells [OF p(1)] clean_cells_def)
    show ?thesis
    proof (cases "rget p k")
      case None
      with x have "(k, x) \<in> set cells" using clean_text [OF clean, of k] by (auto simp: patched_def dest: map_of_SomeD split: if_splits)
      then show ?thesis using cells by (auto simp: cells_ok_def)
    next
      case (Some y)
      with x have "(k, x) \<in> set p" by (auto simp: patched_def dest: map_of_SomeD)
      then show ?thesis using p(2) by auto
    qed
  qed
  then show ?thesis using new cap by (auto simp: cells_ok_def clean_cells_def)
qed

lemma update_sheet_views:
  "tabs_of (update_sheet i f b) = tabs_of b" "wb_active (update_sheet i f b) = wb_active b"
  "map wk_id (wb_sheets (update_sheet i f b)) = map wk_id (wb_sheets b)"
  "map (lower \<circ> wk_name) (wb_sheets (update_sheet i f b)) = map (lower \<circ> wk_name) (wb_sheets b)"
  by (simp_all add: update_sheet_def tabs_of_def)

lemma updated_book_ok:
  assumes b: "workbook_ok b" and w: "w \<in> set (wb_sheets b)" "wk_id w = i"
    and p: "distinct (rkeys p)" "\<forall>(k, t) \<in> set p. cell_in (sh_rows (wk_sheet w)) (sh_columns (wk_sheet w)) k \<and> length t \<le> max_input"
    and cap: "int (book_count b) + more_cells (cell_text (sh_cells (wk_sheet w))) p \<le> int max_cells"
      "int (book_text b) + growth (cell_text (sh_cells (wk_sheet w))) p \<le> int max_content"
  defines "b' \<equiv> update_sheet i (\<lambda>s. s\<lparr>sh_cells := put_cells p (sh_cells s)\<rparr>) b"
  shows "workbook_ok b'" "int (book_count b') = int (book_count b) + more_cells (cell_text (sh_cells (wk_sheet w))) p"
    "int (book_text b') = int (book_text b) + growth (cell_text (sh_cells (wk_sheet w))) p"
proof -
  let ?s = "wk_sheet w" and ?g = "\<lambda>v. if wk_id v = i then v\<lparr>wk_sheet := (wk_sheet v)\<lparr>sh_cells := put_cells p (sh_cells (wk_sheet v))\<rparr>\<rparr> else v"
  note ok = b [unfolded workbook_ok_def]
  have ids: "distinct (map wk_id (wb_sheets b))" using ok by simp
  have s_ok: "sheet_ok ?s" using ok w by (simp add: list_all_iff)
  then have clean: "clean_cells (sh_cells ?s)" by (auto simp: sheet_ok_def intro: cells_ok_clean)
  have sheets: "wb_sheets b' = map ?g (wb_sheets b)" by (simp add: b'_def update_sheet_def)
  show count: "int (book_count b') = int (book_count b) + more_cells (cell_text (sh_cells ?s)) p"
    using sum_list_update_one [OF ids w(1), of "\<lambda>v. length (sh_cells (wk_sheet v))" ?g] put_cells_totals(2) [OF clean p(1)] w(2)
    by (simp add: book_count_def sheets comp_def)
  show chars: "int (book_text b') = int (book_text b) + growth (cell_text (sh_cells ?s)) p"
    using sum_list_update_one [OF ids w(1), of "\<lambda>v. content_size (sh_cells (wk_sheet v))" ?g] put_cells_totals(1) [OF clean p(1)] w(2)
    by (simp add: book_text_def sheets comp_def)
  have "length (sh_cells (wk_sheet (?g w))) \<le> book_count b'" "content_size (sh_cells (wk_sheet (?g w))) \<le> book_text b'"
    unfolding book_count_def book_text_def sheets by (rule member_le_sum_list; use w in force)+
  then have "cells_ok (sh_rows ?s) (sh_columns ?s) (put_cells p (sh_cells ?s))"
    using s_ok count chars cap w(2) by (intro patched_cells_ok p) (simp_all add: sheet_ok_def)
  then have t_ok: "sheet_ok (?s\<lparr>sh_cells := put_cells p (sh_cells ?s)\<rparr>)" using s_ok by (simp add: sheet_ok_def)
  have one: "v = w" if "v \<in> set (wb_sheets b)" "wk_id v = i" for v using that w ids by (metis distinct_map inj_on_def)
  have "worksheet_ok (?g v)" if v: "v \<in> set (wb_sheets b)" for v
  proof (cases "wk_id v = i")
    case True
    with one [OF v] have "v = w" by simp
    moreover have "worksheet_ok w" using ok w(1) by (simp add: list_all_iff worksheet_ok_def)
    ultimately show ?thesis using t_ok w(2) by (simp add: worksheet_ok_def)
  next
    case False
    then show ?thesis using v ok by (simp add: list_all_iff worksheet_ok_def)
  qed
  then have "list_all worksheet_ok (wb_sheets b')" by (auto simp only: sheets list_all_iff set_map)
  moreover have "length (wb_sheets b') = length (wb_sheets b)" "wb_sheets b' \<noteq> []" using ok by (simp_all add: sheets)
  moreover have "book_count b' \<le> max_cells" "book_text b' \<le> max_content" using count chars cap by simp_all
  moreover note update_sheet_views [of i "\<lambda>s. s\<lparr>sh_cells := put_cells p (sh_cells s)\<rparr>" b, folded b'_def]
  ultimately show "workbook_ok b'"
    using ok unfolding workbook_ok_def worksheet_ok_def by (simp only: simp_thms list_all_iff)
qed

text \<open>A change of the cells of one sheet.\<close>

lemma view_write_one:
  assumes "ch_deltas c = [d]" and "(if f then ch_after c else ch_before c) = tabs_of b" and "distinct (map wk_id (wb_sheets b))"
  shows "view_write c f (book_view b) = (if f then ch_activeAfter c else ch_activeBefore c,
    map (\<lambda>w. (wk_id w, wk_name w, if wk_id w = dl_id d then view_delta f d (view_sheet (wk_sheet w)) else view_sheet (wk_sheet w))) (wb_sheets b))"
proof -
  have "view_at (wk_id w) (book_view b) = view_sheet (wk_sheet w)" if "w \<in> set (wb_sheets b)" for w
    using find_own_sheet [OF assms(3) that] by (simp flip: view_find)
  note at = this
  have "(case find (\<lambda>e. dl_id e = wk_id w) [d] of None \<Rightarrow> view_at (wk_id w) (book_view b) | Some e \<Rightarrow> view_delta f e (view_at (wk_id w) (book_view b)))
      = (if wk_id w = dl_id d then view_delta f d (view_sheet (wk_sheet w)) else view_sheet (wk_sheet w))" if "w \<in> set (wb_sheets b)" for w
  proof (cases "wk_id w = dl_id d")
    case True
    then have "find (\<lambda>e. dl_id e = wk_id w) [d] = Some d" by simp
    then show ?thesis using at [OF that, unfolded True] True by (simp only: option.case if_True refl)
  next
    case False
    then have "find (\<lambda>e. dl_id e = wk_id w) [d] = None" by simp
    then show ?thesis using False by (simp only: at [OF that] option.case if_False)
  qed
  then show ?thesis unfolding view_write_def assms(1,2) by (simp add: tabs_of_def)
qed

lemma patched_back: "distinct (rkeys p) \<Longrightarrow> patched (map (\<lambda>(k, t). (k, f k)) p) (patched p f) = f"
proof -
  have "rget (map (\<lambda>(k, t). (k, f k)) p) k = map_option (\<lambda>_. f k) (rget p k)" for k by (induction p) auto
  then show ?thesis by (auto simp: patched_def fun_eq_iff split: option.split)
qed

lemma updated_views:
  assumes ids: "distinct (map wk_id (wb_sheets b))" and w: "w \<in> set (wb_sheets b)" "wk_id w = i" and p: "distinct (rkeys p)"
    and c: "ch_deltas c = [\<lparr>dl_id = i, dl_before = map (\<lambda>(k, t). (k, cell_text (sh_cells (wk_sheet w)) k)) p, dl_after = p,
      dl_oldMeta = sheet_meta (wk_sheet w), dl_newMeta = sheet_meta (wk_sheet w), dl_same = True\<rparr>]"
      "ch_before c = tabs_of b" "ch_after c = tabs_of b" "ch_activeBefore c = wb_active b" "ch_activeAfter c = wb_active b"
  defines "b' \<equiv> update_sheet i (\<lambda>s. s\<lparr>sh_cells := put_cells p (sh_cells s)\<rparr>) b"
  shows "change_ok c" "view_write c True (book_view b) = book_view b'" "view_write c False (book_view b') = book_view b"
proof -
  have one: "v = w" if "v \<in> set (wb_sheets b)" "wk_id v = i" for v using that w ids by (metis distinct_map inj_on_def)
  show "change_ok c" using p by (simp add: change_ok_def c(1) delta_ok_def sheet_meta_def comp_def case_prod_unfold)
  have tabs: "tabs_of b' = tabs_of b" and ids': "distinct (map wk_id (wb_sheets b'))" and act: "wb_active b' = wb_active b"
    unfolding b'_def update_sheet_views using ids by simp_all
  have undone: "patched (map (\<lambda>(k, t). (k, f k)) p) (patched p f) = f" for f by (rule patched_back [OF p])
  show "view_write c True (book_view b) = book_view b'"
    unfolding view_write_one [OF c(1) _ ids, of True, unfolded if_True, OF c(3)] c(5)
    using one by (auto simp: book_view_def b'_def update_sheet_def view_delta_def view_sheet_def text_put_cells [OF p] sheet_meta_def)
  show "view_write c False (book_view b') = book_view b"
    unfolding view_write_one [OF c(1) _ ids', of False, unfolded if_False, OF c(2) [folded tabs]] c(4)
    using one undone by (auto simp: book_view_def b'_def update_sheet_def view_delta_def view_sheet_def text_put_cells [OF p] sheet_meta_def)
qed

lemma apply_history:
  assumes h: "history_ok h" and p0: "distinct (rkeys patch)" and r: "apply_cells patch h = (Inr (Some after), g)"
  shows "history_ok g" and "\<exists>c f. g = push_change c f \<and> wh_undo f = wh_undo h \<and> change_ok c
    \<and> view_write c False (book_view (wh_book g)) = book_view (wh_book h) \<and> view_write c True (book_view (wh_book h)) = book_view (wh_book g)"
proof -
  define b where "b = wh_book h"
  have ok: "workbook_ok b" "wh_count h = int (book_count b)" "wh_text h = int (book_text b)" using h by (simp_all add: b_def history_ok_def)
  from r obtain s p where s: "find_sheet (wb_active b) b = Some s"
    and p: "fold_sum (plan_cell (SheetsError ''WorkbookCellOutOfBounds'') s) patch
      \<lparr>pp_before = [], pp_after = [], pp_size = wh_text h, pp_count = wh_count h, pp_history = 0\<rparr> = Inr p"
    and cap: "pp_count p \<le> int max_cells" "pp_size p \<le> int max_content" and ne: "pp_after p \<noteq> []"
    and g0: "g = push_change (measured_change \<lparr>ch_deltas = [\<lparr>dl_id = wb_active b, dl_before = pp_before p, dl_after = pp_after p,
        dl_oldMeta = sheet_meta s, dl_newMeta = sheet_meta s, dl_same = True\<rparr>],
        ch_before = tabs_of b, ch_after = tabs_of b, ch_activeBefore = wb_active b, ch_activeAfter = wb_active b, ch_size = 0\<rparr>)
      (h\<lparr>wh_book := update_sheet (wb_active b) (\<lambda>s. s\<lparr>sh_cells := put_cells (pp_after p) (sh_cells s)\<rparr>) b, wh_count := pp_count p, wh_text := pp_size p\<rparr>)"
    by (auto simp: apply_cells_def b_def Let_def split: option.splits sum.splits if_splits)
  obtain w where w: "w \<in> set (wb_sheets b)" "wk_id w = wb_active b" and ws: "wk_sheet w = s" using find_sheet_Some [OF s] by blast
  note plan = plan_cells [OF p p0, simplified]
  have dk: "distinct (rkeys (pp_after p))" unfolding plan(1) changed_cells_def using p0 by (rule distinct_map_filter)
  have valid: "\<forall>(k, t) \<in> set (pp_after p). cell_in (sh_rows (wk_sheet w)) (sh_columns (wk_sheet w)) k \<and> length t \<le> max_input"
    using plan(1,5) by (auto simp: ws changed_cells_def)
  define b' where "b' = update_sheet (wb_active b) (\<lambda>s. s\<lparr>sh_cells := put_cells (pp_after p) (sh_cells s)\<rparr>) b"
  define c where "c = measured_change \<lparr>ch_deltas = [\<lparr>dl_id = wb_active b, dl_before = pp_before p, dl_after = pp_after p,
      dl_oldMeta = sheet_meta s, dl_newMeta = sheet_meta s, dl_same = True\<rparr>],
    ch_before = tabs_of b, ch_after = tabs_of b, ch_activeBefore = wb_active b, ch_activeAfter = wb_active b, ch_size = 0\<rparr>"
  have g: "g = push_change c (h\<lparr>wh_book := b', wh_count := pp_count p, wh_text := pp_size p\<rparr>)"
    unfolding g0 b'_def c_def ..
  have before: "pp_before p = map (\<lambda>(k, t). (k, cell_text (sh_cells (wk_sheet w)) k)) (pp_after p)" using plan(1,2) by (simp add: ws)
  have b': "workbook_ok b'" "int (book_count b') = pp_count p" "int (book_text b') = pp_size p"
    using updated_book_ok [OF ok(1) w dk valid] plan(1,3,4) cap ok(2,3) by (simp_all add: b'_def ws)
  have v: "change_ok c" "view_write c True (book_view b) = book_view b'" "view_write c False (book_view b') = book_view b"
    using updated_views [OF _ w dk, of c] ok(1) by (simp_all add: workbook_ok_def b'_def c_def measured_change_def before ws)
  show "history_ok g"
    unfolding g using v b' by (intro pushed_history_ok [OF h v(1), of b']) (simp_all add: b_def)
  show "\<exists>c f. g = push_change c f \<and> wh_undo f = wh_undo h \<and> change_ok c
    \<and> view_write c False (book_view (wh_book g)) = book_view (wh_book h) \<and> view_write c True (book_view (wh_book h)) = book_view (wh_book g)"
    using v by (intro exI [of _ c] exI [of _ "h\<lparr>wh_book := b', wh_count := pp_count p, wh_text := pp_size p\<rparr>"]) (simp add: g b_def)
qed

lemma apply_failed: "fst (apply_cells patch h) = Inl e \<or> fst (apply_cells patch h) = Inr None \<Longrightarrow> snd (apply_cells patch h) = h"
  by (auto simp: apply_cells_def Let_def split: option.splits sum.splits if_splits)

section \<open>What the workbook promises\<close>

text \<open>The calls of the editor; a patch is an object, so a key is there once.\<close>

datatype history_call = ApplyCells "string rec" | ReplaceBook workbook | UndoChange | RedoChange

fun run_history :: "history_call \<Rightarrow> history \<Rightarrow> history" where
  "run_history (ApplyCells patch) h = snd (apply_cells (js_object patch) h)"
| "run_history (ReplaceBook b) h = snd (replace_book b h)"
| "run_history UndoChange h = snd (undo_change h)"
| "run_history RedoChange h = snd (redo_change h)"

lemma run_history_ok: "history_ok h \<Longrightarrow> history_ok (run_history c h)"
proof (cases c)
  case (ApplyCells patch)
  assume h: "history_ok h"
  obtain r g where r: "apply_cells (js_object patch) h = (r, g)" by force
  then show ?thesis
    using apply_history(1) [OF h js_object_distinct, of patch _ g] apply_failed [of "js_object patch" h] h
    by (cases r; cases "projr r") (auto simp: ApplyCells)
next
  case (ReplaceBook b)
  assume h: "history_ok h"
  obtain r g where r: "replace_book b h = (r, g)" by force
  then show ?thesis using replace_history(1) [OF h, of b g] replace_failed [of b h] h by (cases "r = Inr True") (auto simp: ReplaceBook)
qed (simp_all add: undo_history_ok redo_history_ok)

lemma new_history_ok: "workbook_ok b \<Longrightarrow> history_ok (new_workbook_history b)"
  by (simp add: history_ok_def new_workbook_history_def measure_history_def)

lemma reached_history_ok: "workbook_ok b \<Longrightarrow> history_ok (fold run_history cs (new_workbook_history b))"
proof -
  have "history_ok h \<Longrightarrow> history_ok (fold run_history cs h)" for h by (induction cs arbitrary: h) (simp_all add: run_history_ok)
  then show "workbook_ok b \<Longrightarrow> ?thesis" using new_history_ok by blast
qed

text \<open>Undo and redo of a change that was just pushed.\<close>

lemma undo_pushed:
  assumes g: "g = push_change c f" and ok: "history_ok g"
    and c: "change_ok c" "view_write c False (book_view (wh_book g)) = V" "view_write c True V = book_view (wh_book g)"
  shows "fst (undo_change g)" "book_view (wh_book (snd (undo_change g))) = V" "fst (redo_change (snd (undo_change g)))"
    "book_view (wh_book (snd (redo_change (snd (undo_change g))))) = book_view (wh_book g)"
proof -
  obtain pre us where u: "wh_undo g = us @ [c]" using push_change_undo [of c f] unfolding g by blast
  then have ug: "fst (undo_change g)" "wh_book (snd (undo_change g)) = write_book c False (wh_book g)" "wh_redo (snd (undo_change g)) = wh_redo g @ [c]"
    by (simp_all add: undo_change_def Let_def)
  then show "fst (undo_change g)" "book_view (wh_book (snd (undo_change g))) = V" by (simp_all add: view_write_book [OF c(1)] c(2))
  then show "fst (redo_change (snd (undo_change g)))" "book_view (wh_book (snd (redo_change (snd (undo_change g))))) = book_view (wh_book g)"
    using ug(3) c(3) by (simp_all add: redo_change_def Let_def view_write_book [OF c(1)])
qed

definition demo_book :: workbook where
  "demo_book = workbook_of empty_sheet"

definition demo_cell :: string where
  "demo_cell = address \<lparr>pt_row = 0, pt_column = 0\<rparr>"

lemma demo_book_ok: "workbook_ok demo_book"
  unfolding demo_book_def
  by (rule workbook_of_ok) (simp add: sheet_ok_def empty_sheet_def cells_ok_def formats_ok_def widths_ok_def freeze_ok_def max_rows_def max_columns_def)

lemma demo_edit: "fst (apply_cells (js_object [(demo_cell, ''x'')]) (new_workbook_history demo_book)) = Inr (Some [(demo_cell, ''x'')])"
proof -
  have "point_of demo_cell = Some \<lparr>pt_row = 0, pt_column = 0\<rparr>"
    unfolding demo_cell_def by (rule point_of_address) (simp_all add: max_rows_def max_columns_def)
  then have "cell_in 1000 26 demo_cell" by (simp add: cell_in_def demo_cell_def)
  moreover have "js_object [(demo_cell, ''x'')] = [(demo_cell, ''x'')]" by (rule js_object_same) simp
  ultimately show ?thesis
    by (simp add: apply_cells_def new_workbook_history_def measure_history_def demo_book_def workbook_of_def find_sheet_def empty_sheet_def
        plan_cell_def cell_text_def filled_def book_count_def book_text_def max_input_def max_cells_def max_content_def Let_def and_then_def)
qed

lemma serialized_parses:
  assumes "workbook_ok b"
  shows "parse_workbook (serialize_workbook b) =
    (if length (serialize_workbook b) \<le> max_file_bytes then Inr (case single_sheet b of None \<Rightarrow> b | Some s \<Rightarrow> workbook_of s)
     else Inl (SheetsError ''WorkbookTooLarge''))"
proof (cases "length (serialize_workbook b) \<le> max_file_bytes")
  case False
  then show ?thesis by (simp add: parse_workbook_def)
next
  case fits: True
  show ?thesis
  proof (cases "single_sheet b")
    case None
    then show ?thesis using assms fits parse_workbook_value by (simp add: serialize_workbook_def)
  next
    case (Some s)
    then have "sheet_ok s" using assms by (auto simp: single_sheet_def workbook_ok_def split: list.splits if_splits)
    then have "parse_sheet (stringify (json_of_sheet s)) = Inr s" using fits Some by (intro parse_sheet_printed) (simp_all add: serialize_workbook_def)
    moreover obtain o1 where "json_of_sheet s = JObj o1" "js_object o1 = o1" "rget o1 ''version'' = Some (JNum 1000)"
      using sheet_members [of s] js_object_same [OF sheet_members(1), of s] unfolding json_of_sheet_def by blast
    ultimately show ?thesis using fits Some by (simp add: serialize_workbook_def parse_workbook_def Let_def not_less)
  qed
qed

text \<open>
  C18: whatever the editor does to a workbook that was opened - edits, replaced sheets, undo and redo in any order -,
  the workbook in memory stays valid, with at most sixteen sheets, 50000 cells and two million characters, and
  the counters that guard these limits are exact. So its file is one the parser accepts, provided it is not
  longer than the 8 MB the parser takes, which the edits do not look at (escaped texts can get there).
\<close>

theorem workbook_stays_valid:
  "case parse_workbook raw of Inl e \<Rightarrow> True
   | Inr b \<Rightarrow> let h = fold run_history calls (new_workbook_history b) in
       workbook_ok (wh_book h) \<and> wh_count h = int (book_count (wh_book h)) \<and> wh_text h = int (book_text (wh_book h))
       \<and> parse_workbook (serialize_workbook (wh_book h)) =
           (if length (serialize_workbook (wh_book h)) \<le> max_file_bytes
            then Inr (case single_sheet (wh_book h) of None \<Rightarrow> wh_book h | Some s \<Rightarrow> workbook_of s)
            else Inl (SheetsError ''WorkbookTooLarge''))"
proof (cases "parse_workbook raw")
  case (Inr b)
  then have "history_ok (fold run_history calls (new_workbook_history b))" using reached_history_ok [OF parse_workbook_ok [OF Inr], of calls] by simp
  with Inr serialized_parses show ?thesis by (simp add: history_ok_def Let_def)
qed simp

text \<open>
  C19: undo takes an edit back exactly: after any history, undoing an edit of cells or a replaced workbook gives the tabs, the
  metadata and the text of every cell there were before it, and redoing it gives what there was after it - also when the edit
  removed a sheet, and when the stacks had been trimmed.
\<close>

theorem undo_restores_workbook:
  assumes "workbook_ok b" and "h = fold run_history calls (new_workbook_history b)"
    and "(\<exists>p after. e = ApplyCells p \<and> fst (apply_cells (js_object p) h) = Inr (Some after)) \<or> (\<exists>new. e = ReplaceBook new \<and> fst (replace_book new h) = Inr True)"
  shows "let g = run_history e h; u = run_history UndoChange g in
    book_view (wh_book u) = book_view (wh_book h) \<and> book_view (wh_book (run_history RedoChange u)) = book_view (wh_book g)"
proof -
  have h: "history_ok h" unfolding assms(2) by (rule reached_history_ok [OF assms(1)])
  let ?g = "run_history e h"
  from assms(3) obtain c f where "?g = push_change c f" "history_ok ?g" "change_ok c"
    "view_write c False (book_view (wh_book ?g)) = book_view (wh_book h)" "view_write c True (book_view (wh_book h)) = book_view (wh_book ?g)"
  proof (elim disjE exE conjE)
    fix p after assume e: "e = ApplyCells p" and "fst (apply_cells (js_object p) h) = Inr (Some after)"
    then have "apply_cells (js_object p) h = (Inr (Some after), ?g)" by (simp add: prod_eq_iff)
    from apply_history [OF h js_object_distinct this] that show thesis by blast
  next
    fix new assume e: "e = ReplaceBook new" and "fst (replace_book new h) = Inr True"
    then have "replace_book new h = (Inr True, ?g)" by (simp add: prod_eq_iff)
    from replace_history [OF h this] that show thesis by (auto simp: view_write_book)
  qed
  then show ?thesis using undo_pushed [of ?g c f "book_view (wh_book h)"] by (simp add: Let_def)
qed

theorem undo_restores_workbook_witness:
  "let g = run_history (ApplyCells [(demo_cell, ''x'')]) (new_workbook_history demo_book); u = run_history UndoChange g in
    book_view (wh_book u) = book_view demo_book \<and> book_view (wh_book (run_history RedoChange u)) = book_view (wh_book g)"
  using undo_restores_workbook [OF demo_book_ok, of "new_workbook_history demo_book" "[]" "ApplyCells [(demo_cell, ''x'')]"] demo_edit
  by (simp add: new_workbook_history_def measure_history_def)

text \<open>
  C20: a valid workbook is read back from the file it is saved to. A workbook of one plain sheet named
  Sheet1 is saved in the older envelope, from which the sheet comes back whole, but under the
  identifier sheet1; every other one comes back as it was. Only a workbook whose file is longer than
  the 8 MB the parser takes is refused, with the error that says so.
\<close>

theorem workbook_round_trip:
  assumes "workbook_ok b"
  shows "parse_workbook (serialize_workbook b) =
    (if length (serialize_workbook b) \<le> max_file_bytes then Inr (case single_sheet b of None \<Rightarrow> b | Some s \<Rightarrow> workbook_of s)
     else Inl (SheetsError ''WorkbookTooLarge''))"
  using assms by (rule serialized_parses)

theorem workbook_round_trip_witness: "parse_workbook (serialize_workbook demo_book) = Inr demo_book"
proof -
  have s: "single_sheet demo_book = Some empty_sheet" by (simp add: single_sheet_def demo_book_def workbook_of_def plain_sheet_def empty_sheet_def)
  have n: "length (show_num 1000) = 1" "length (show_num 1000000) = 4" "length (show_num 26000) = 2"
    by (simp_all add: show_num_def show_nat.simps [of 1000] show_nat.simps [of 100] show_nat.simps [of 10] show_nat.simps [of 1] show_nat.simps [of "Suc 0"]
        show_nat.simps [of 26] show_nat.simps [of 2] show_fraction_def)
  have q: "length (quote_json ''version'') = 9" "length (quote_json ''rows'') = 6" "length (quote_json ''columns'') = 9" "length (quote_json ''cells'') = 7"
    by (simp_all add: quote_json_def escape_char_def Let_def dquote_def backslash_def)
  have "length (serialize_workbook demo_book) \<le> max_file_bytes"
    unfolding serialize_workbook_def s
    by (simp add: json_of_sheet_def empty_sheet_def json_of_meta_def opt_member_def stringify_def json_of_rec_def json_of_nat_def n q max_file_bytes_def)
  with workbook_round_trip [OF demo_book_ok] show ?thesis unfolding s option.case by (simp only: demo_book_def if_True)
qed

text \<open>
  C33: the parser makes a valid workbook of a file or refuses it: whatever text it is given, what it returns has valid and distinct
  identifiers and names, an active sheet that exists, and only cells, formats and widths inside the sheet and the limits.
\<close>

theorem parsed_workbook_typed: "case parse_workbook raw of Inl e \<Rightarrow> True | Inr b \<Rightarrow> workbook_ok b"
  by (cases "parse_workbook raw") (simp_all add: parse_workbook_ok)

end
