(* ===== verification/WorkbookMerge.thy ===== *)
theory WorkbookMerge
  imports WorkbookProps
begin

text \<open>
  The three-way merge of workbooks, the log of what was not taken, and what the sync engine is given:
  \<open>plugins/sheets/src/workbook-merge.ts\<close> and the content merger of \<open>sheets-plugin.ts\<close>.
\<close>

section \<open>One value\<close>

definition conflicts_sheet_name :: string where "conflicts_sheet_name = ''Conflicts''"
definition max_sheet_name :: nat where "max_sheet_name = 31"

record conflict_row =
  cr_sheet :: string
  cr_cell :: string
  cr_local :: string
  cr_remote :: string

text \<open>
  \<open>canonical\<close> is the stable printing of the value, so two values are the same when their canonical
  texts are; the values merged here are given by the function that makes JSON of them.
\<close>

definition same_value :: "('a \<Rightarrow> json) \<Rightarrow> 'a option \<Rightarrow> 'a option \<Rightarrow> bool" where
  "same_value f a b \<longleftrightarrow> (map_option (stable_stringify \<circ> f) a = map_option (stable_stringify \<circ> f) b)"

text \<open>The value and whether it is a conflict.\<close>

definition three_way :: "('a \<Rightarrow> json) \<Rightarrow> 'a option \<Rightarrow> 'a option \<Rightarrow> 'a option \<Rightarrow> 'a option \<times> bool" where
  "three_way f base local remote =
     (if same_value f local remote then (local, False)
      else if same_value f local base then (remote, False)
      else if same_value f remote base then (local, False)
      else (local, True))"

text \<open>\<open>[...keys].sort()\<close> of the keys of some records.\<close>

definition keys_of :: "string list \<Rightarrow> string list" where
  "keys_of ks = sort (uniq ks)"

definition describe_format :: "cell_format option \<Rightarrow> string" where
  "describe_format f = (case f of None \<Rightarrow> [] | Some f \<Rightarrow> js_string (cf_kind f) @ '' '' @ show_nat (cf_decimals f) @ '' '' @ cf_currency f)"

section \<open>One sheet\<close>

definition opt_rec :: "'a rec option \<Rightarrow> 'a rec" where
  "opt_rec r = (case r of None \<Rightarrow> [] | Some r \<Rightarrow> r)"

text \<open>The keyed values of one kind: the merged record, and a row for each conflict.\<close>

definition merge_cells :: "string \<Rightarrow> sheet option \<Rightarrow> sheet \<Rightarrow> sheet \<Rightarrow> string rec \<times> conflict_row list" where
  "merge_cells name base local remote =
     (let b = (case base of None \<Rightarrow> [] | Some s \<Rightarrow> sh_cells s); l = sh_cells local; r = sh_cells remote
      in fold (\<lambda>key (cells, log).
           let (value, conflict) = three_way JStr (Some (cell_text b key)) (Some (cell_text l key)) (Some (cell_text r key))
           in (case value of None \<Rightarrow> cells | Some t \<Rightarrow> if t \<noteq> [] then rset key t cells else cells,
               if conflict then log @ [\<lparr>cr_sheet = name, cr_cell = key, cr_local = cell_text l key, cr_remote = cell_text r key\<rparr>] else log))
         (keys_of (rkeys b @ rkeys l @ rkeys r)) ([], []))"

definition merge_keyed ::
  "('a \<Rightarrow> json) \<Rightarrow> (string \<Rightarrow> 'a option \<Rightarrow> 'a option \<Rightarrow> conflict_row) \<Rightarrow> 'a rec \<Rightarrow> 'a rec \<Rightarrow> 'a rec \<Rightarrow> 'a rec \<times> conflict_row list" where
  "merge_keyed f row b l r =
     fold (\<lambda>key (merged, log).
         let (value, conflict) = three_way f (rget b key) (rget l key) (rget r key)
         in (case value of None \<Rightarrow> merged | Some v \<Rightarrow> rset key v merged, if conflict then log @ [row key (rget l key) (rget r key)] else log))
       (keys_of (rkeys b @ rkeys l @ rkeys r)) ([], [])"

definition format_row :: "string \<Rightarrow> string \<Rightarrow> cell_format option \<Rightarrow> cell_format option \<Rightarrow> conflict_row" where
  "format_row name key l r = \<lparr>cr_sheet = name, cr_cell = key @ '' (format)'', cr_local = describe_format l, cr_remote = describe_format r\<rparr>"

definition width_row :: "string \<Rightarrow> string \<Rightarrow> nat option \<Rightarrow> nat option \<Rightarrow> conflict_row" where
  "width_row name key l r =
     (let text = (\<lambda>w. case w of None \<Rightarrow> [] | Some n \<Rightarrow> show_nat n)
      in \<lparr>cr_sheet = name, cr_cell = column_name (digits_value key) @ '' (width)'', cr_local = text l, cr_remote = text r\<rparr>)"

definition merge_sheet :: "string \<Rightarrow> sheet option \<Rightarrow> sheet \<Rightarrow> sheet \<Rightarrow> sheet \<times> conflict_row list" where
  "merge_sheet name base local remote =
     (let (cells, log1) = merge_cells name base local remote;
          (formats, log2) = merge_keyed json_of_format (format_row name) (opt_rec (Option.bind base sh_formats)) (opt_rec (sh_formats local)) (opt_rec (sh_formats remote));
          (widths, log3) = merge_keyed json_of_nat (width_row name) (opt_rec (Option.bind base sh_widths)) (opt_rec (sh_widths local)) (opt_rec (sh_widths remote))
      in (\<lparr>sh_rows = max (sh_rows local) (sh_rows remote), sh_columns = max (sh_columns local) (sh_columns remote), sh_cells = cells,
            sh_formats = (if formats = [] then None else Some formats), sh_widths = (if widths = [] then None else Some widths),
            sh_wrap = fst (three_way JBool (Option.bind base sh_wrap) (sh_wrap local) (sh_wrap remote)),
            sh_freeze = fst (three_way json_of_freeze (Option.bind base sh_freeze) (sh_freeze local) (sh_freeze remote))\<rparr>,
          log1 @ log2 @ log3))"

section \<open>The log\<close>

definition as_text :: "string \<Rightarrow> string" where
  "as_text v = take max_input (if starts_with v ''='' \<or> starts_with v [CHR 0x27] then CHR 0x27 # v else v)"

text \<open>The row a key ends with, counted from 0; \<open>-1\<close> when there is none.\<close>

definition row_of_key :: "string \<Rightarrow> int" where
  "row_of_key key = int (digits_value (rev (takeWhile is_digit_char (rev key)))) - 1"

definition last_used_row :: "sheet \<Rightarrow> int" where
  "last_used_row s = fold (\<lambda>key m. if row_of_key key > m then row_of_key key else m) (rkeys (sh_cells s)) (- 1)"

definition log_line :: "nat \<Rightarrow> string list \<Rightarrow> string rec \<Rightarrow> string rec" where
  "log_line row line cells =
     fold (\<lambda>(column, v) cells. if as_text v \<noteq> [] then rset (address \<lparr>pt_row = row, pt_column = column\<rparr>) (as_text v) cells else cells)
       (enumerate 0 line) cells"

definition row_texts :: "conflict_row \<Rightarrow> string list" where
  "row_texts r = [cr_sheet r, cr_cell r, cr_local r, cr_remote r]"

definition append_log :: "sheet \<Rightarrow> conflict_row list \<Rightarrow> bool \<Rightarrow> sheet" where
  "append_log s rows header =
     (let first = nat (last_used_row s + 1);
          lines = (if header then [[''Sheet'', ''Cell'', ''Local'', ''Remote'']] else []) @ map row_texts rows
      in s\<lparr>sh_cells := fold (\<lambda>(i, line). log_line (first + i) line) (enumerate 0 lines) (sh_cells s),
           sh_rows := max (sh_rows s) (min max_rows (first + length lines)), sh_columns := max (sh_columns s) 4\<rparr>)"

section \<open>Names and identifiers\<close>

definition trim_end :: "string \<Rightarrow> string" where
  "trim_end s = rev (dropWhile is_space (rev s))"

definition numbered_name :: "string \<Rightarrow> nat \<Rightarrow> string" where
  "numbered_name name n =
     (let suffix = '' ('' @ show_nat n @ '')'' in trim_end (take (max_sheet_name - length suffix) name) @ suffix)"

text \<open>The loops end at the first candidate that is free; \<open>None\<close> when they do not.\<close>

partial_function (option) free_name :: "string \<Rightarrow> string list \<Rightarrow> nat \<Rightarrow> string option" where
  "free_name name taken n =
     (if lower (numbered_name name n) \<notin> set taken then Some (numbered_name name n) else free_name name taken (Suc n))"

definition unique_name :: "string \<Rightarrow> string list \<Rightarrow> string option" where
  "unique_name name taken = (if lower name \<notin> set taken then Some name else free_name name taken 2)"

partial_function (option) free_id :: "string \<Rightarrow> string list \<Rightarrow> nat \<Rightarrow> string option" where
  "free_id stem ids n =
     (if stem @ ''-'' @ show_nat n \<notin> set ids then Some (stem @ ''-'' @ show_nat n) else free_id stem ids (Suc n))"

definition unique_id :: "string \<Rightarrow> string list \<Rightarrow> string option" where
  "unique_id stem ids = (if stem \<notin> set ids then Some stem else free_id stem ids 2)"

section \<open>The workbook\<close>

definition worksheet_at :: "string \<Rightarrow> worksheet list \<Rightarrow> worksheet option" where
  "worksheet_at i ws = rget (map (\<lambda>w. (wk_id w, w)) (rev ws)) i"

text \<open>One identifier of the order: the sheets so far and the log so far.\<close>

definition merge_worksheet :: "worksheet list \<Rightarrow> worksheet list \<Rightarrow> worksheet list \<Rightarrow> string \<Rightarrow> worksheet list \<times> conflict_row list \<Rightarrow> worksheet list \<times> conflict_row list" where
  "merge_worksheet bs ls rs i = (\<lambda>(sheets, log).
     let b = worksheet_at i bs
     in case (worksheet_at i ls, worksheet_at i rs) of
          (Some l, Some r) \<Rightarrow>
            let name = (case fst (three_way JStr (map_option wk_name b) (Some (wk_name l)) (Some (wk_name r))) of None \<Rightarrow> wk_name l | Some n \<Rightarrow> n);
                (s, rows) = merge_sheet name (map_option wk_sheet b) (wk_sheet l) (wk_sheet r)
            in (sheets @ [\<lparr>wk_id = i, wk_name = name, wk_sheet = s\<rparr>], log @ rows)
        | (Some w, None) \<Rightarrow> (if b \<noteq> None \<and> same_value json_of_worksheet b (Some w) then sheets else sheets @ [w], log)
        | (None, Some w) \<Rightarrow> (if b \<noteq> None \<and> same_value json_of_worksheet b (Some w) then sheets else sheets @ [w], log)
        | (None, None) \<Rightarrow> (sheets, log))"

text \<open>Names made unique from the first sheet on.\<close>

fun rename_sheets :: "worksheet list \<Rightarrow> string list \<Rightarrow> worksheet list option" where
  "rename_sheets [] taken = Some []"
| "rename_sheets (w # ws) taken =
     (case unique_name (wk_name w) taken of
        None \<Rightarrow> None
      | Some n \<Rightarrow> map_option (\<lambda>vs. w\<lparr>wk_name := n\<rparr> # vs) (rename_sheets ws (taken @ [lower n])))"

text \<open>Where the log goes.\<close>

definition place_log :: "string \<Rightarrow> conflict_row list \<Rightarrow> worksheet list \<Rightarrow> worksheet list option" where
  "place_log active log ws =
     (if log = [] then Some ws
      else case find (\<lambda>w. lower (wk_name w) = lower conflicts_sheet_name) ws of
          Some e \<Rightarrow> Some (map (\<lambda>w. if wk_id w = wk_id e then w\<lparr>wk_sheet := append_log (wk_sheet w) log (sh_cells (wk_sheet w) = [])\<rparr> else w) ws)
        | None \<Rightarrow>
            if length ws < max_sheets
            then map_option (\<lambda>i. ws @ [\<lparr>wk_id = i, wk_name = conflicts_sheet_name, wk_sheet = append_log empty_sheet log True\<rparr>]) (unique_id ''conflicts'' (map wk_id ws))
            else let target = (case find (\<lambda>w. wk_id w = active) ws of Some w \<Rightarrow> wk_id w | None \<Rightarrow> wk_id (hd ws))
                 in Some (map (\<lambda>w. if wk_id w = target then w\<lparr>wk_sheet := append_log (wk_sheet w) log True\<rparr> else w) ws))"

text \<open>
  \<open>None\<close> is a call that does not return; \<open>SheetsTypeError\<close> the read of \<open>sheets[0].id\<close> when no sheet is left.
\<close>

definition merge_workbooks :: "workbook option \<Rightarrow> workbook \<Rightarrow> workbook \<Rightarrow> (sheets_error + (workbook \<times> nat)) option" where
  "merge_workbooks base local remote =
     (let bs = (case base of None \<Rightarrow> [] | Some b \<Rightarrow> wb_sheets b); ls = wb_sheets local; rs = wb_sheets remote;
          order = map wk_id ls @ map wk_id (filter (\<lambda>w. wk_id w \<notin> set (map wk_id ls)) rs);
          (sheets, log) = fold (merge_worksheet bs ls rs) order ([], [])
      in case rename_sheets sheets [] of
           None \<Rightarrow> None
         | Some ws \<Rightarrow>
             let has = (\<lambda>i. i \<in> set (map wk_id ws))
             in if ws = [] then Some (Inl SheetsTypeError)
                else let active = (if has (wb_active local) then wb_active local else if has (wb_active remote) then wb_active remote else wk_id (hd ws))
                     in map_option (\<lambda>ws. Inr (\<lparr>wb_active = active, wb_sheets = ws\<rparr>, length log)) (place_log active log ws))"

section \<open>The content merger\<close>

definition parse_base :: "bytes option \<Rightarrow> sheets_error + workbook option" where
  "parse_base b = (case b of None \<Rightarrow> Inr None | Some b \<Rightarrow> and_then (parse_workbook (utf8_decode b)) (\<lambda>w. Inr (Some w)))"

text \<open>\<open>Some None\<close> is a merge that is left to a conflict copy.\<close>

definition merge_sheet_files :: "bytes option \<Rightarrow> bytes \<Rightarrow> bytes \<Rightarrow> (bytes \<times> nat) option option" where
  "merge_sheet_files base local remote =
     (case (parse_base base, parse_workbook (utf8_decode local), parse_workbook (utf8_decode remote)) of
        (Inr b, Inr l, Inr r) \<Rightarrow>
          (case merge_workbooks b l r of
             None \<Rightarrow> None
           | Some (Inl e) \<Rightarrow> Some None
           | Some (Inr (m, n)) \<Rightarrow>
               (case parse_workbook (serialize_workbook m) of
                  Inl e \<Rightarrow> Some None
                | Inr _ \<Rightarrow> Some (Some (utf8_encode (serialize_workbook m), n))))
      | _ \<Rightarrow> Some None)"

end
