(* ===== verification/WorkbookMergeProps.thy ===== *)
theory WorkbookMergeProps
  imports WorkbookMerge
begin

text \<open>
  What the merge of workbooks promises: every cell by the three-way rule, no text of either device lost, and an end.
\<close>

section \<open>Addresses\<close>

lemma letters_of_address: "takeWhile is_letter (address p) = column_name (pt_column p)"
  using column_letters_all [of "pt_column p + 1"] show_nat_head_digit [of "pt_row p + 1"]
  by (simp add: address_def column_name_def list_all_iff takeWhile_append2 takeWhile_eq_Nil_iff)

lemma digits_of_address: "takeWhile is_digit_char (rev (address p)) = rev (show_nat (pt_row p + 1))"
proof -
  have "\<not> is_digit_char c" if "c \<in> set (column_letters n)" for c n
    using that column_letters_all [of n] digit_not_letter by (auto simp: list_all_iff)
  then have "takeWhile is_digit_char (rev (column_letters (pt_column p + 1))) = []"
    by (metis hd_in_set set_rev takeWhile_eq_Nil_iff)
  moreover have "\<forall>c \<in> set (rev (show_nat (pt_row p + 1))). is_digit_char c" using show_nat_digits by (simp add: list_all_iff)
  moreover have "takeWhile P (a @ b) = a" if "\<forall>c \<in> set a. P c" "takeWhile P b = []" for P :: "char \<Rightarrow> bool" and a b using that by (induction a) auto
  ultimately show ?thesis unfolding address_def column_name_def rev_append by blast
qed

lemma row_of_address [simp]: "row_of_key (address p) = int (pt_row p)"
  by (simp add: row_of_key_def digits_of_address)

lemma address_inj [simp]: "address p = address q \<longleftrightarrow> p = q"
proof
  assume eq: "address p = address q"
  have "letters_value (column_name (pt_column p)) = letters_value (column_name (pt_column q))"
    using letters_of_address [of p] letters_of_address [of q] eq by simp
  then have "pt_column p = pt_column q" by (simp add: column_name_def)
  moreover have "pt_row p = pt_row q" using row_of_address [of p] row_of_address [of q] eq by simp
  ultimately show "p = q" by (cases p; cases q) simp
qed simp

section \<open>The log\<close>

text \<open>Texts of a line laid over the cells.\<close>

definition line_text :: "nat \<Rightarrow> string list \<Rightarrow> (string \<Rightarrow> string) \<Rightarrow> string \<Rightarrow> string" where
  "line_text row line f k =
     (if \<exists>c < length line. k = address \<lparr>pt_row = row, pt_column = c\<rparr> \<and> as_text (line ! c) \<noteq> []
      then as_text (line ! (THE c. c < length line \<and> k = address \<lparr>pt_row = row, pt_column = c\<rparr>)) else f k)"

lemma text_rset: "t \<noteq> [] \<Longrightarrow> cell_text (rset k t cells) = (cell_text cells)(k := t)"
  by (rule ext) (simp add: cell_text_def)

lemma log_line_at:
  "cell_text (log_line row line cells) (address \<lparr>pt_row = r, pt_column = c\<rparr>)
     = (if r = row \<and> c < length line \<and> as_text (line ! c) \<noteq> [] then as_text (line ! c) else cell_text cells (address \<lparr>pt_row = r, pt_column = c\<rparr>))"
proof -
  have "cell_text (fold (\<lambda>(column, v) cells. if as_text v \<noteq> [] then rset (address \<lparr>pt_row = row, pt_column = column\<rparr>) (as_text v) cells else cells) (enumerate n line) cells)
      (address \<lparr>pt_row = r, pt_column = c\<rparr>)
    = (if r = row \<and> n \<le> c \<and> c - n < length line \<and> as_text (line ! (c - n)) \<noteq> [] then as_text (line ! (c - n)) else cell_text cells (address \<lparr>pt_row = r, pt_column = c\<rparr>))" for n c
  proof (induction line arbitrary: n cells c)
    case (Cons v line)
    show ?case
    proof (cases "c = n")
      case True
      show ?thesis using True [symmetric] by (simp add: Cons.IH text_rset)
    next
      case False
      show ?thesis
      proof (cases "c < n")
        case True
        then show ?thesis using False by (simp add: Cons.IH text_rset)
      next
        case gt: False
        with False obtain d where "c = Suc (n + d)" using less_imp_Suc_add [of n c] by auto
        then show ?thesis by (simp add: Cons.IH text_rset)
      qed
    qed
  qed simp
  from this [of 0] show ?thesis by (simp add: log_line_def)
qed

lemma log_line_other: "\<nexists>c. k = address \<lparr>pt_row = row, pt_column = c\<rparr> \<Longrightarrow> cell_text (log_line row line cells) k = cell_text cells k"
proof -
  assume k: "\<nexists>c. k = address \<lparr>pt_row = row, pt_column = c\<rparr>"
  have "cell_text (fold (\<lambda>(column, v) cells. if as_text v \<noteq> [] then rset (address \<lparr>pt_row = row, pt_column = column\<rparr>) (as_text v) cells else cells) (enumerate n line) cells) k
    = cell_text cells k" for n
    using k by (induction line arbitrary: n cells) (auto simp: text_rset)
  then show ?thesis by (simp add: log_line_def)
qed

lemma log_lines_at:
  "cell_text (fold (\<lambda>(i, line). log_line (first + i) line) (enumerate n lines) cells) (address \<lparr>pt_row = r, pt_column = c\<rparr>)
   = (if first + n \<le> r \<and> r - first - n < length lines \<and> c < length (lines ! (r - first - n)) \<and> as_text (lines ! (r - first - n) ! c) \<noteq> []
      then as_text (lines ! (r - first - n) ! c) else cell_text cells (address \<lparr>pt_row = r, pt_column = c\<rparr>))"
proof (induction lines arbitrary: n cells r)
  case (Cons l ls)
  show ?case
  proof (cases "r = first + n")
    case True
    show ?thesis by (simp only: enumerate_simps fold_Cons comp_apply prod.case Cons.IH log_line_at) (simp add: True)
  next
    case False
    show ?thesis
    proof (cases "r < first + n")
      case True
      then show ?thesis by (simp add: Cons.IH log_line_at)
    next
      case gt: False
      with False obtain d where "r = Suc (first + n + d)" using less_imp_Suc_add [of "first + n" r] by auto
      then show ?thesis by (simp add: Cons.IH log_line_at)
    qed
  qed
qed simp

lemma log_lines_other:
  assumes "\<And>r c. first \<le> r \<Longrightarrow> k \<noteq> address \<lparr>pt_row = r, pt_column = c\<rparr>"
  shows "cell_text (fold (\<lambda>(i, line). log_line (first + i) line) (enumerate n lines) cells) k = cell_text cells k"
  using assms by (induction lines arbitrary: n cells) (simp_all add: log_line_other)

lemma last_used_row_bound:
  "k \<in> set (rkeys (sh_cells s)) \<Longrightarrow> row_of_key k \<le> last_used_row s" "- 1 \<le> last_used_row s"
proof -
  have m: "m \<le> fold (\<lambda>key m. if row_of_key key > m then row_of_key key else m) ks m
      \<and> (\<forall>k \<in> set ks. row_of_key k \<le> fold (\<lambda>key m. if row_of_key key > m then row_of_key key else m) ks m)" for ks m
  proof (induction ks arbitrary: m)
    case (Cons k ks)
    let ?m = "if row_of_key k > m then row_of_key k else m" and ?f = "\<lambda>ks m. fold (\<lambda>key m. if row_of_key key > m then row_of_key key else m) ks m"
    have "m \<le> ?m" "row_of_key k \<le> ?m" by simp_all
    moreover have "?m \<le> ?f ks ?m" "\<forall>j \<in> set ks. row_of_key j \<le> ?f ks ?m" using Cons.IH [of ?m] by blast+
    moreover have "?f (k # ks) m = ?f ks ?m" by simp
    ultimately show ?case by (metis (no_types, lifting) order_trans set_ConsD)
  qed simp
  show "k \<in> set (rkeys (sh_cells s)) \<Longrightarrow> row_of_key k \<le> last_used_row s" "- 1 \<le> last_used_row s"
    using m [of "- 1" "rkeys (sh_cells s)"] unfolding last_used_row_def by auto
qed

text \<open>
  A sheet that only gained texts, each in an empty cell below every text that was there.
\<close>

definition grown :: "sheet \<Rightarrow> sheet \<Rightarrow> bool" where
  "grown s t \<longleftrightarrow> (\<forall>k. cell_text (sh_cells t) k = cell_text (sh_cells s) k
     \<or> cell_text (sh_cells s) k = [] \<and> (\<forall>j. cell_text (sh_cells s) j \<noteq> [] \<longrightarrow> row_of_key j < row_of_key k))"

lemma grown_refl [simp]: "grown s s"
  by (simp add: grown_def)

lemma append_log_grown [simp]: "grown s (append_log s rows header)"
proof -
  let ?first = "nat (last_used_row s + 1)"
  have used: "row_of_key j \<le> last_used_row s" if "cell_text (sh_cells s) j \<noteq> []" for j
  proof -
    have "j \<in> set (rkeys (sh_cells s))" using that cell_text_absent by blast
    then show ?thesis by (rule last_used_row_bound)
  qed
  have "cell_text (sh_cells (append_log s rows header)) k = cell_text (sh_cells s) k
     \<or> cell_text (sh_cells s) k = [] \<and> (\<forall>j. cell_text (sh_cells s) j \<noteq> [] \<longrightarrow> row_of_key j < row_of_key k)" for k
  proof (cases "\<exists>r c. ?first \<le> r \<and> k = address \<lparr>pt_row = r, pt_column = c\<rparr>")
    case True
    then have "last_used_row s < row_of_key k" by auto
    with used [of k] used show ?thesis by force
  next
    case False
    then show ?thesis by (simp add: append_log_def Let_def log_lines_other)
  qed
  then show ?thesis by (simp add: grown_def)
qed

text \<open>Every conflict has its row, side by side.\<close>

definition has_log_row :: "conflict_row \<Rightarrow> sheet \<Rightarrow> bool" where
  "has_log_row r s \<longleftrightarrow> (\<exists>i. \<forall>c < 4. cell_text (sh_cells s) (address \<lparr>pt_row = i, pt_column = c\<rparr>) = as_text (row_texts r ! c))"

lemma append_log_rows:
  assumes "r \<in> set rows"
  shows "has_log_row r (append_log s rows header)"
proof -
  let ?first = "nat (last_used_row s + 1)" and ?lines = "(if header then [[''Sheet'', ''Cell'', ''Local'', ''Remote'']] else []) @ map row_texts rows"
  from assms obtain j where "j < length rows" "rows ! j = r" by (auto simp: in_set_conv_nth)
  then have "\<exists>j < length ?lines. ?lines ! j = row_texts r"
    by (cases header) (auto intro: exI [of _ "Suc j"] exI [of _ j])
  then obtain i where i: "i < length ?lines" "?lines ! i = row_texts r" by blast
  have "cell_text (sh_cells (append_log s rows header)) (address \<lparr>pt_row = ?first + i, pt_column = c\<rparr>) = as_text (row_texts r ! c)" if "c < 4" for c
  proof -
    have "cell_text (sh_cells s) (address \<lparr>pt_row = ?first + i, pt_column = c\<rparr>) = []"
    proof (rule ccontr)
      assume "cell_text (sh_cells s) (address \<lparr>pt_row = ?first + i, pt_column = c\<rparr>) \<noteq> []"
      then have "address \<lparr>pt_row = ?first + i, pt_column = c\<rparr> \<in> set (rkeys (sh_cells s))" using cell_text_absent by blast
      from last_used_row_bound(1) [OF this] show False by (simp split: if_splits)
    qed
    moreover have "length (row_texts r) = 4" by (simp add: row_texts_def)
    ultimately show ?thesis using i that
      by (simp add: append_log_def Let_def log_lines_at [of ?first 0, simplified] del: append.simps)
  qed
  then show ?thesis unfolding has_log_row_def by blast
qed

section \<open>Cells by the three-way rule\<close>

definition merged_text :: "string \<Rightarrow> string \<Rightarrow> string \<Rightarrow> string" where
  "merged_text b l r = (if l = r then l else if l = b then r else l)"

definition clashing :: "string \<Rightarrow> string \<Rightarrow> string \<Rightarrow> bool" where
  "clashing b l r \<longleftrightarrow> l \<noteq> r \<and> l \<noteq> b \<and> r \<noteq> b"

lemma same_text [simp]: "same_value JStr (Some a) (Some b) \<longleftrightarrow> a = b"
  by (auto simp: same_value_def dest: stringify_inj)

lemma three_way_text: "three_way JStr (Some b) (Some l) (Some r) = (Some (merged_text b l r), clashing b l r)"
  by (auto simp: three_way_def merged_text_def clashing_def)

definition base_text :: "sheet option \<Rightarrow> string \<Rightarrow> string" where
  "base_text base = cell_text (case base of None \<Rightarrow> [] | Some s \<Rightarrow> sh_cells s)"

lemma merge_cells_rule:
  fixes base :: "sheet option" and l r :: sheet
  defines "f \<equiv> \<lambda>k. merged_text (base_text base k) (cell_text (sh_cells l) k) (cell_text (sh_cells r) k)"
  shows "cell_text (fst (merge_cells name base l r)) k = f k"
    "clashing (base_text base k) (cell_text (sh_cells l) k) (cell_text (sh_cells r) k) \<Longrightarrow>
      \<lparr>cr_sheet = name, cr_cell = k, cr_local = cell_text (sh_cells l) k, cr_remote = cell_text (sh_cells r) k\<rparr> \<in> set (snd (merge_cells name base l r))"
proof -
  let ?b = "case base of None \<Rightarrow> [] | Some s \<Rightarrow> sh_cells s"
  let ?keys = "keys_of (rkeys ?b @ rkeys (sh_cells l) @ rkeys (sh_cells r))"
  define row where "row = (\<lambda>k. \<lparr>cr_sheet = name, cr_cell = k, cr_local = cell_text (sh_cells l) k, cr_remote = cell_text (sh_cells r) k\<rparr>)"
  define clash where "clash = (\<lambda>k. clashing (base_text base k) (cell_text (sh_cells l) k) (cell_text (sh_cells r) k))"
  define step where "step = (\<lambda>key (cells, log). (if f key \<noteq> [] then rset key (f key) cells else cells, if clash key then log @ [row key] else log))"
  have m: "merge_cells name base l r = fold step ?keys ([], [])"
    unfolding merge_cells_def Let_def three_way_text step_def f_def clash_def row_def base_text_def by (simp add: three_way_text cong: if_cong)
  have step: "step j (cells, log) = (if f j \<noteq> [] then rset j (f j) cells else cells, if clash j then log @ [row j] else log)" for j cells log
    by (simp add: step_def)
  have texts: "cell_text (fst (fold step ks (cells, log))) k = (if k \<in> set ks \<and> f k \<noteq> [] then f k else cell_text cells k)" for ks cells log
    by (induction ks arbitrary: cells log) (simp_all add: step text_rset)
  have rows: "set log \<union> row ` {k \<in> set ks. clash k} \<subseteq> set (snd (fold step ks (cells, log)))" for ks cells log
  proof (induction ks arbitrary: cells log)
    case (Cons j ks)
    let ?log = "if clash j then log @ [row j] else log"
    have "set ?log \<union> row ` {k \<in> set ks. clash k} \<subseteq> set (snd (fold step (j # ks) (cells, log)))" using Cons [of ?log "if f j \<noteq> [] then rset j (f j) cells else cells"] by (simp add: step)
    moreover have "set log \<union> row ` {k \<in> set (j # ks). clash k} \<subseteq> set ?log \<union> row ` {k \<in> set ks. clash k}" by auto
    ultimately show ?case by (rule subset_trans [rotated])
  qed simp
  have all: "cell_text (fst (fold step ks ([], []))) k = (if k \<in> set ks \<and> f k \<noteq> [] then f k else cell_text [] k)"
    "row ` {k \<in> set ks. clash k} \<subseteq> set (snd (fold step ks ([], [])))" for ks
    using texts [of ks "[]" "[]"] rows [of "[]" ks "[]"] by simp_all
  have keys: "set ?keys = set (rkeys ?b) \<union> set (rkeys (sh_cells l)) \<union> set (rkeys (sh_cells r))" by (auto simp: keys_of_def)
  have out: "base_text base k = [] \<and> cell_text (sh_cells l) k = [] \<and> cell_text (sh_cells r) k = []" if "k \<notin> set ?keys"
    using that cell_text_absent unfolding keys base_text_def by blast
  have nil: "cell_text [] k = []" by (simp add: cell_text_def)
  show "cell_text (fst (merge_cells name base l r)) k = f k"
    using all(1) [of ?keys] out nil unfolding m by (cases "k \<in> set ?keys") (auto simp: f_def merged_text_def)
  assume "clashing (base_text base k) (cell_text (sh_cells l) k) (cell_text (sh_cells r) k)"
  then have c: "clash k" by (simp add: clash_def)
  then have "k \<in> set ?keys" using out by (cases "k \<in> set ?keys") (simp_all add: clash_def clashing_def)
  then have "row k \<in> set (snd (merge_cells name base l r))" using c all(2) [of ?keys] unfolding m by blast
  then show "\<lparr>cr_sheet = name, cr_cell = k, cr_local = cell_text (sh_cells l) k, cr_remote = cell_text (sh_cells r) k\<rparr> \<in> set (snd (merge_cells name base l r))"
    by (simp add: row_def)
qed

lemma merge_sheet_cells:
  "sh_cells (fst (merge_sheet name base l r)) = fst (merge_cells name base l r)" "set (snd (merge_cells name base l r)) \<subseteq> set (snd (merge_sheet name base l r))"
  by (simp_all add: merge_sheet_def Let_def case_prod_unfold)

section \<open>Names are found\<close>

lemma fresh_number:
  fixes f :: "nat \<Rightarrow> string"
  assumes "inj f"
  shows "\<exists>m \<ge> n. f m \<notin> set taken"
proof (rule ccontr)
  assume "\<not> ?thesis"
  then have "f ` {n..n + length taken} \<subseteq> set taken" by auto
  then have "card (f ` {n..n + length taken}) \<le> card (set taken)" by (intro card_mono) simp_all
  moreover have "card (f ` {n..n + length taken}) = Suc (length taken)" using assms by (simp add: card_image inj_on_subset [OF _ subset_UNIV])
  ultimately show False using card_length [of taken] by simp
qed

lemma takeWhile_prefix: "\<forall>c \<in> set a. P c \<Longrightarrow> \<not> P x \<Longrightarrow> takeWhile P (a @ x # b) = a"
  by (induction a) auto

lemma digits_suffix: "\<not> is_digit_char x \<Longrightarrow> digits_value (rev (takeWhile is_digit_char (rev (a @ x # show_nat n)))) = n"
proof -
  assume x: "\<not> is_digit_char x"
  have "\<forall>c \<in> set (rev (show_nat n)). is_digit_char c" using show_nat_digits [of n] by (simp add: list_all_iff)
  then have "takeWhile is_digit_char (rev (show_nat n) @ x # rev a) = rev (show_nat n)" using x by (rule takeWhile_prefix)
  then show ?thesis by simp
qed

lemma lower_digit: "is_digit_char c \<Longrightarrow> to_lower c = c"
  by (auto simp: is_digit_char_def to_lower_def in_range_def)

lemma lower_show_nat [simp]: "lower (show_nat n) = show_nat n"
  using show_nat_digits [of n] by (auto simp: lower_def list_all_iff lower_digit intro: map_idI)

lemma numbered_name_inj: "inj (\<lambda>n. lower (numbered_name name n))"
proof (rule inj_on_inverseI)
  fix n
  obtain a where "numbered_name name n = a @ CHR ''('' # show_nat n @ '')''" unfolding numbered_name_def Let_def by (metis append.assoc append_Cons append_Nil)
  moreover have "to_lower CHR ''('' = CHR ''(''" "to_lower CHR '')'' = CHR '')''" "\<not> is_digit_char CHR ''(''"
    by (simp_all add: to_lower_def in_range_def is_digit_char_def)
  ultimately have "butlast (lower (numbered_name name n)) = lower a @ CHR ''('' # show_nat n"
    using lower_show_nat [of n] by (simp add: lower_def butlast_append)
  then show "(\<lambda>s. digits_value (rev (takeWhile is_digit_char (rev (butlast s))))) (lower (numbered_name name n)) = n"
    using digits_suffix [of "CHR ''(''" "lower a" n] \<open>\<not> is_digit_char CHR ''(''\<close> by simp
qed

lemma free_name_found: "m \<ge> n \<Longrightarrow> lower (numbered_name name m) \<notin> set taken \<Longrightarrow> \<exists>s. free_name name taken n = Some s"
proof (induction "m - n" arbitrary: n)
  case 0
  then show ?case by (simp add: free_name.simps)
next
  case (Suc d)
  show ?case
  proof (cases "lower (numbered_name name n) \<notin> set taken")
    case True
    then show ?thesis by (simp add: free_name.simps)
  next
    case False
    with Suc have "\<exists>s. free_name name taken (Suc n) = Some s" by (intro Suc.hyps(1)) (auto simp: le_less)
    then show ?thesis using False by (subst free_name.simps) simp
  qed
qed

lemma unique_name_found: "\<exists>s. unique_name name taken = Some s"
  using fresh_number [OF numbered_name_inj] free_name_found by (metis unique_name_def)

lemma id_inj: "inj (\<lambda>n. stem @ ''-'' @ show_nat n)"
proof (rule inj_on_inverseI)
  fix n show "(\<lambda>s. digits_value (rev (takeWhile is_digit_char (rev s)))) (stem @ ''-'' @ show_nat n) = n"
    using digits_suffix [of "CHR ''-''" stem n] by (simp add: is_digit_char_def in_range_def)
qed

lemma free_id_found: "m \<ge> n \<Longrightarrow> stem @ ''-'' @ show_nat m \<notin> set ids \<Longrightarrow> \<exists>s. free_id stem ids n = Some s"
proof (induction "m - n" arbitrary: n)
  case 0
  then show ?case by (simp add: free_id.simps)
next
  case (Suc d)
  show ?case
  proof (cases "stem @ ''-'' @ show_nat n \<notin> set ids")
    case True
    then show ?thesis by (simp add: free_id.simps)
  next
    case False
    with Suc have "\<exists>s. free_id stem ids (Suc n) = Some s" by (intro Suc.hyps(1)) (auto simp: le_less)
    then show ?thesis using False by (subst free_id.simps) simp
  qed
qed

lemma unique_id_found: "\<exists>s. unique_id stem ids = Some s"
  using fresh_number [OF id_inj] free_id_found by (metis unique_id_def)

section \<open>The workbook\<close>

lemma worksheet_at_own: "distinct (map wk_id ws) \<Longrightarrow> w \<in> set ws \<Longrightarrow> worksheet_at (wk_id w) ws = Some w"
  unfolding worksheet_at_def by (rule map_of_is_SomeI) (auto simp: comp_def simp flip: rev_map)

lemma worksheet_at_Some: "worksheet_at i ws = Some w \<Longrightarrow> w \<in> set ws \<and> wk_id w = i"
  unfolding worksheet_at_def by (auto dest: map_of_SomeD)

definition merged_name :: "worksheet option \<Rightarrow> worksheet \<Rightarrow> worksheet \<Rightarrow> string" where
  "merged_name b l r = (case fst (three_way JStr (map_option wk_name b) (Some (wk_name l)) (Some (wk_name r))) of None \<Rightarrow> wk_name l | Some n \<Rightarrow> n)"

lemma merge_worksheet_both:
  "worksheet_at i ls = Some l \<Longrightarrow> worksheet_at i rs = Some r \<Longrightarrow>
     merge_worksheet bs ls rs i (sheets, log) = (sheets @ [\<lparr>wk_id = i, wk_name = merged_name (worksheet_at i bs) l r,
       wk_sheet = fst (merge_sheet (merged_name (worksheet_at i bs) l r) (map_option wk_sheet (worksheet_at i bs)) (wk_sheet l) (wk_sheet r))\<rparr>],
       log @ snd (merge_sheet (merged_name (worksheet_at i bs) l r) (map_option wk_sheet (worksheet_at i bs)) (wk_sheet l) (wk_sheet r)))"
  by (simp add: merge_worksheet_def Let_def merged_name_def case_prod_unfold)

text \<open>Each identifier adds at most one sheet, of that identifier.\<close>

lemma merge_worksheet_adds:
  "\<exists>add rows. merge_worksheet bs ls rs i (sheets, log) = (sheets @ add, log @ rows) \<and> (add = [] \<or> (\<exists>w. add = [w] \<and> wk_id w = i))"
proof (cases "worksheet_at i ls"; cases "worksheet_at i rs")
  fix l r assume "worksheet_at i ls = Some l" "worksheet_at i rs = Some r"
  then show ?thesis by (simp add: merge_worksheet_both)
qed (auto simp: merge_worksheet_def Let_def dest: worksheet_at_Some)

lemma merge_worksheets_adds:
  "\<exists>add rows. fold (merge_worksheet bs ls rs) is (sheets, log) = (sheets @ add, log @ rows) \<and> (distinct is \<longrightarrow> distinct (map wk_id add)) \<and> set (map wk_id add) \<subseteq> set is"
proof (induction "is" arbitrary: sheets log)
  case (Cons i js)
  obtain a rs1 where one: "merge_worksheet bs ls rs i (sheets, log) = (sheets @ a, log @ rs1)" "a = [] \<or> (\<exists>w. a = [w] \<and> wk_id w = i)"
    using merge_worksheet_adds by blast
  obtain b rs2 where two: "fold (merge_worksheet bs ls rs) js (sheets @ a, log @ rs1) = (sheets @ a @ b, log @ rs1 @ rs2)"
    "distinct js \<longrightarrow> distinct (map wk_id b)" "set (map wk_id b) \<subseteq> set js" using Cons [of "sheets @ a" "log @ rs1"] by auto
  have "distinct (i # js) \<longrightarrow> distinct (map wk_id (a @ b))" "set (map wk_id (a @ b)) \<subseteq> set (i # js)" using one(2) two(2,3) by auto
  then show ?case using one(1) two(1) by (intro exI [of _ "a @ b"] exI [of _ "rs1 @ rs2"]) simp
qed simp

lemma merge_worksheets_has:
  fixes bs ls rs :: "worksheet list" and l r :: worksheet and i :: string
  assumes "i \<in> set is" and l: "worksheet_at i ls = Some l" and r: "worksheet_at i rs = Some r"
  defines "m \<equiv> merge_sheet (merged_name (worksheet_at i bs) l r) (map_option wk_sheet (worksheet_at i bs)) (wk_sheet l) (wk_sheet r)"
  shows "\<exists>w \<in> set (fst (fold (merge_worksheet bs ls rs) is (sheets, log))). wk_id w = i \<and> wk_sheet w = fst m
      \<and> set (snd m) \<subseteq> set (snd (fold (merge_worksheet bs ls rs) is (sheets, log)))"
  using assms(1)
proof (induction "is" arbitrary: sheets log)
  case (Cons j js)
  obtain a rows where one: "merge_worksheet bs ls rs j (sheets, log) = (sheets @ a, log @ rows)" using merge_worksheet_adds by blast
  show ?case
  proof (cases "i = j")
    case True
    obtain b rows2 where two: "fold (merge_worksheet bs ls rs) js (sheets @ a, log @ rows) = ((sheets @ a) @ b, (log @ rows) @ rows2)"
      using merge_worksheets_adds by blast
    have "a = [\<lparr>wk_id = i, wk_name = merged_name (worksheet_at i bs) l r, wk_sheet = fst m\<rparr>]" "rows = snd m"
      using one merge_worksheet_both [OF l r, of bs sheets log] unfolding True [symmetric] m_def by auto
    then show ?thesis using one two by (auto intro: subset_trans)
  next
    case False
    with Cons show ?thesis by (simp add: one)
  qed
qed simp

lemma merge_worksheets_own:
  assumes "worksheet_at i ls = Some w" and "worksheet_at i rs = None" and "\<not> same_value json_of_worksheet (worksheet_at i bs) (Some w)"
  shows "i \<in> set is \<Longrightarrow> w \<in> set (fst (fold (merge_worksheet bs ls rs) is (sheets, log)))"
proof (induction "is" arbitrary: sheets log)
  case (Cons j js)
  obtain a rows where one: "merge_worksheet bs ls rs j (sheets, log) = (sheets @ a, log @ rows)" using merge_worksheet_adds by blast
  obtain b rows2 where two: "fold (merge_worksheet bs ls rs) js (sheets @ a, log @ rows) = ((sheets @ a) @ b, (log @ rows) @ rows2)"
    using merge_worksheets_adds by blast
  show ?case
  proof (cases "i = j")
    case True
    have "merge_worksheet bs ls rs i (sheets, log) = (sheets @ [w], log)" using assms by (simp add: merge_worksheet_def Let_def)
    then have "a = [w]" using one unfolding True by simp
    then show ?thesis using one two by simp
  next
    case False
    with Cons show ?thesis by (simp add: one)
  qed
qed simp

lemma rename_sheets_found: "\<exists>vs. rename_sheets ws taken = Some vs \<and> map wk_id vs = map wk_id ws \<and> map wk_sheet vs = map wk_sheet ws"
proof (induction ws arbitrary: taken)
  case (Cons w ws)
  obtain n where n: "unique_name (wk_name w) taken = Some n" using unique_name_found by blast
  obtain vs where "rename_sheets ws (taken @ [lower n]) = Some vs" "map wk_id vs = map wk_id ws" "map wk_sheet vs = map wk_sheet ws" using Cons by blast
  then show ?case by (simp add: n)
qed simp

text \<open>
  The sheet the log goes to: the one named like it, or, when there is none and the workbook is full,
  the active sheet.
\<close>

definition log_target :: "workbook \<Rightarrow> worksheet \<Rightarrow> bool" where
  "log_target m w \<longleftrightarrow>
     (\<exists>e \<in> set (wb_sheets m). wk_id e = wk_id w \<and> lower (wk_name e) = lower conflicts_sheet_name)
   \<or> max_sheets \<le> length (wb_sheets m) \<and> wk_id w = wb_active m"

text \<open>Where the log goes, every text stays, and every row is found.\<close>

definition keeps_texts :: "sheet \<Rightarrow> sheet \<Rightarrow> bool" where
  "keeps_texts s t \<longleftrightarrow> (\<forall>k. cell_text (sh_cells s) k \<noteq> [] \<longrightarrow> cell_text (sh_cells t) k = cell_text (sh_cells s) k)"

lemma grown_keeps: "grown s t \<Longrightarrow> keeps_texts s t"
  by (auto simp: grown_def keeps_texts_def)

lemma logged_in:
  fixes w :: worksheet and ws :: "worksheet list" and h :: "worksheet \<Rightarrow> bool"
  assumes "w \<in> set ws" and "r \<in> set log"
  defines "vs \<equiv> map (\<lambda>v. if wk_id v = wk_id w then v\<lparr>wk_sheet := append_log (wk_sheet v) log (h v)\<rparr> else v) ws"
  shows "\<exists>v \<in> set vs. has_log_row r (wk_sheet v)"
    "u \<in> set ws \<Longrightarrow> \<exists>v \<in> set vs. wk_id v = wk_id u \<and> wk_name v = wk_name u \<and> grown (wk_sheet u) (wk_sheet v)
      \<and> (wk_sheet v = wk_sheet u \<or> wk_id v = wk_id w)"
proof -
  have "has_log_row r (append_log (wk_sheet w) log (h w))" using assms(2) by (rule append_log_rows)
  then show "\<exists>v \<in> set vs. has_log_row r (wk_sheet v)"
    unfolding vs_def using assms(1) by (intro bexI [of _ "w\<lparr>wk_sheet := append_log (wk_sheet w) log (h w)\<rparr>"]) (auto intro: rev_image_eqI)
  show "\<exists>v \<in> set vs. wk_id v = wk_id u \<and> wk_name v = wk_name u \<and> grown (wk_sheet u) (wk_sheet v)
      \<and> (wk_sheet v = wk_sheet u \<or> wk_id v = wk_id w)" if "u \<in> set ws"
    unfolding vs_def using that
    by (intro bexI [of _ "if wk_id u = wk_id w then u\<lparr>wk_sheet := append_log (wk_sheet u) log (h u)\<rparr> else u"]) (auto intro: rev_image_eqI)
qed

text \<open>What \<open>place_log\<close> makes of the sheets: a sheet stays as it is unless it is the one the log goes to.\<close>

definition log_placed :: "string \<Rightarrow> conflict_row list \<Rightarrow> worksheet list \<Rightarrow> worksheet list \<Rightarrow> bool" where
  "log_placed active log us vs \<longleftrightarrow>
     (\<forall>u \<in> set us. \<exists>v \<in> set vs. wk_id v = wk_id u \<and> grown (wk_sheet u) (wk_sheet v)
        \<and> (wk_sheet v = wk_sheet u \<or> log \<noteq> [] \<and> log_target \<lparr>wb_active = active, wb_sheets = vs\<rparr> v))
   \<and> (\<forall>r \<in> set log. \<exists>v \<in> set vs. has_log_row r (wk_sheet v))"

lemma log_placedI:
  assumes "log \<noteq> []"
    and "\<And>u. u \<in> set us \<Longrightarrow> \<exists>v \<in> set vs. wk_id v = wk_id u \<and> wk_name v = wk_name u \<and> grown (wk_sheet u) (wk_sheet v)
      \<and> (wk_sheet v = wk_sheet u \<or> wk_id v = i)"
    and "\<And>v. wk_id v = i \<Longrightarrow> log_target \<lparr>wb_active = active, wb_sheets = vs\<rparr> v"
    and "\<And>r. r \<in> set log \<Longrightarrow> \<exists>v \<in> set vs. has_log_row r (wk_sheet v)"
  shows "log_placed active log us vs"
  unfolding log_placed_def using assms by blast

lemma log_placed_keeps:
  "log_placed active log us vs \<Longrightarrow> u \<in> set us \<Longrightarrow> \<exists>v \<in> set vs. wk_id v = wk_id u \<and> keeps_texts (wk_sheet u) (wk_sheet v)"
  unfolding log_placed_def using grown_keeps by blast

lemma place_log_found:
  assumes "active \<in> set (map wk_id ws)"
  shows "\<exists>vs. place_log active log ws = Some vs \<and> log_placed active log ws vs"
proof (cases "log = []")
  case True
  then show ?thesis by (auto simp: place_log_def log_placed_def)
next
  case False
  then obtain r0 where r0: "r0 \<in> set log" by (cases log) auto
  show ?thesis
  proof (cases "find (\<lambda>w. lower (wk_name w) = lower conflicts_sheet_name) ws")
    case (Some e)
    then have e: "e \<in> set ws" "lower (wk_name e) = lower conflicts_sheet_name" by (auto simp: find_Some_iff)
    let ?vs = "map (\<lambda>w. if wk_id w = wk_id e then w\<lparr>wk_sheet := append_log (wk_sheet w) log (sh_cells (wk_sheet w) = [])\<rparr> else w) ws"
    note L = logged_in [OF e(1), where h = "\<lambda>w. sh_cells (wk_sheet w) = []" and log = log]
    from L(2) [OF r0 e(1)] e(2) have "\<exists>f \<in> set ?vs. wk_id f = wk_id e \<and> lower (wk_name f) = lower conflicts_sheet_name" by auto
    then have "log_target \<lparr>wb_active = active, wb_sheets = ?vs\<rparr> v" if "wk_id v = wk_id e" for v
      using that unfolding log_target_def workbook.simps by auto
    then have "log_placed active log ws ?vs"
      using L(1) L(2) [OF r0] by (intro log_placedI [OF False, where i = "wk_id e"])
    then show ?thesis using False Some by (simp add: place_log_def)
  next
    case None
    show ?thesis
    proof (cases "length ws < max_sheets")
      case True
      obtain i where i: "unique_id ''conflicts'' (map wk_id ws) = Some i" using unique_id_found by blast
      let ?vs = "ws @ [\<lparr>wk_id = i, wk_name = conflicts_sheet_name, wk_sheet = append_log empty_sheet log True\<rparr>]"
      have "log_placed active log ws ?vs"
        using append_log_rows [of _ log empty_sheet True] by (auto simp: log_placed_def)
      then show ?thesis using False None True i by (auto simp: place_log_def)
    next
      case full: False
      obtain t where t: "find (\<lambda>w. wk_id w = active) ws = Some t" "t \<in> set ws" "wk_id t = active"
        using assms by (cases "find (\<lambda>w. wk_id w = active) ws") (auto simp: find_None_iff find_Some_iff)
      let ?vs = "map (\<lambda>w. if wk_id w = wk_id t then w\<lparr>wk_sheet := append_log (wk_sheet w) log True\<rparr> else w) ws"
      note L = logged_in [OF t(2), where h = "\<lambda>w. True" and log = log]
      have "max_sheets \<le> length ?vs" using full by simp
      then have "log_target \<lparr>wb_active = active, wb_sheets = ?vs\<rparr> v" if "wk_id v = wk_id t" for v
        using that t(3) unfolding log_target_def workbook.simps by simp
      then have "log_placed active log ws ?vs"
        using L(1) L(2) [OF r0] by (intro log_placedI [OF False, where i = "wk_id t"])
      then show ?thesis using False None full t by (simp add: place_log_def)
    qed
  qed
qed

text \<open>The order of the merge is one of distinct identifiers.\<close>

definition merge_order :: "worksheet list \<Rightarrow> worksheet list \<Rightarrow> string list" where
  "merge_order ls rs = map wk_id ls @ map wk_id (filter (\<lambda>w. wk_id w \<notin> set (map wk_id ls)) rs)"

lemma merge_order_distinct: "distinct (map wk_id ls) \<Longrightarrow> distinct (map wk_id rs) \<Longrightarrow> distinct (merge_order ls rs)"
  by (auto simp: merge_order_def distinct_map_filter) (metis image_eqI)

definition sheets_of :: "workbook option \<Rightarrow> worksheet list" where
  "sheets_of b = (case b of None \<Rightarrow> [] | Some b \<Rightarrow> wb_sheets b)"

text \<open>The run of a merge, in one place.\<close>

lemma merge_run:
  fixes base :: "workbook option" and local remote :: workbook
  defines "F \<equiv> fold (merge_worksheet (sheets_of base) (wb_sheets local) (wb_sheets remote)) (merge_order (wb_sheets local) (wb_sheets remote)) ([], [])"
  shows "fst F = [] \<Longrightarrow> merge_workbooks base local remote = Some (Inl SheetsTypeError)"
    "fst F \<noteq> [] \<Longrightarrow> \<exists>a vs. merge_workbooks base local remote = Some (Inr (\<lparr>wb_active = a, wb_sheets = vs\<rparr>, length (snd F)))
       \<and> log_placed a (snd F) (fst F) vs"
proof -
  obtain sheets log where F: "F = (sheets, log)" by (cases F) 
  obtain ws where ws: "rename_sheets sheets [] = Some ws" "map wk_id ws = map wk_id sheets" "map wk_sheet ws = map wk_sheet sheets"
    using rename_sheets_found by blast
  define active where "active = (if wb_active local \<in> set (map wk_id ws) then wb_active local else if wb_active remote \<in> set (map wk_id ws) then wb_active remote else wk_id (hd ws))"
  have m: "merge_workbooks base local remote = (if ws = [] then Some (Inl SheetsTypeError)
      else map_option (\<lambda>ws. Inr (\<lparr>wb_active = active, wb_sheets = ws\<rparr>, length log)) (place_log active log ws))"
    using F ws(1) unfolding F_def merge_workbooks_def Let_def merge_order_def sheets_of_def active_def by (simp only: prod.case option.case)
  have nil: "ws = [] \<longleftrightarrow> sheets = []" using ws(2) by (metis map_is_Nil_conv)
  show "fst F = [] \<Longrightarrow> merge_workbooks base local remote = Some (Inl SheetsTypeError)" using m nil F by simp
  assume "fst F \<noteq> []"
  then have "ws \<noteq> []" using nil F by simp
  then have "active \<in> set (map wk_id ws)" by (simp add: active_def)
  from place_log_found [OF this, of log] obtain vs where vs: "place_log active log ws = Some vs" "log_placed active log ws vs" by blast
  have "\<exists>w \<in> set ws. wk_id w = wk_id u \<and> wk_sheet w = wk_sheet u" if u: "u \<in> set sheets" for u
  proof -
    from u obtain i where "i < length sheets" "sheets ! i = u" by (auto simp: in_set_conv_nth)
    then have "i < length ws" "wk_id (ws ! i) = wk_id u" "wk_sheet (ws ! i) = wk_sheet u"
      using ws(2,3) by (metis length_map nth_map)+
    then show ?thesis by (metis nth_mem)
  qed
  with vs(2) have "log_placed active log sheets vs" unfolding log_placed_def by metis
  then show "\<exists>a vs. merge_workbooks base local remote = Some (Inr (\<lparr>wb_active = a, wb_sheets = vs\<rparr>, length (snd F)))
       \<and> log_placed a (snd F) (fst F) vs"
    using m \<open>ws \<noteq> []\<close> vs(1) F by (intro exI [of _ active] exI [of _ vs]) simp
qed

text \<open>Nothing is left exactly when each side deleted what the other did not touch.\<close>

definition deleted_untouched :: "worksheet list \<Rightarrow> worksheet list \<Rightarrow> worksheet list \<Rightarrow> bool" where
  "deleted_untouched bs mine theirs \<longleftrightarrow>
     list_all (\<lambda>w. worksheet_at (wk_id w) theirs = None \<and> same_value json_of_worksheet (worksheet_at (wk_id w) bs) (worksheet_at (wk_id w) mine)) mine"

lemma worksheet_at_None: "worksheet_at i ws = None \<longleftrightarrow> i \<notin> set (map wk_id ws)"
  unfolding worksheet_at_def map_of_eq_None_iff by (force simp: image_iff)

lemma same_value_Some: "same_value f b (Some w) \<Longrightarrow> b \<noteq> None"
  by (auto simp: same_value_def)

lemma merge_adds_nothing:
  "fst (merge_worksheet bs ls rs i (sheets, log)) = sheets \<longleftrightarrow>
     (case (worksheet_at i ls, worksheet_at i rs) of
        (Some l, Some r) \<Rightarrow> False | (Some w, None) \<Rightarrow> same_value json_of_worksheet (worksheet_at i bs) (Some w)
      | (None, Some w) \<Rightarrow> same_value json_of_worksheet (worksheet_at i bs) (Some w) | (None, None) \<Rightarrow> True)"
proof (cases "worksheet_at i ls"; cases "worksheet_at i rs")
  fix l r assume "worksheet_at i ls = Some l" "worksheet_at i rs = Some r"
  then show ?thesis by (simp add: merge_worksheet_both)
qed (auto simp: merge_worksheet_def Let_def dest: same_value_Some)

lemma merge_all_nothing:
  "fst (fold (merge_worksheet bs ls rs) is (sheets, log)) = sheets \<longleftrightarrow> list_all (\<lambda>i. fst (merge_worksheet bs ls rs i ([], [])) = []) is"
proof (induction "is" arbitrary: sheets log)
  case (Cons i js)
  obtain a rows where one: "merge_worksheet bs ls rs i (sheets, log) = (sheets @ a, log @ rows)" using merge_worksheet_adds by blast
  obtain b rows2 where two: "fold (merge_worksheet bs ls rs) js (sheets @ a, log @ rows) = ((sheets @ a) @ b, (log @ rows) @ rows2)"
    using merge_worksheets_adds by blast
  have "a = [] \<longleftrightarrow> fst (merge_worksheet bs ls rs i ([], [])) = []"
    using one merge_adds_nothing [of bs ls rs i sheets log] merge_adds_nothing [of bs ls rs i "[]" "[]"] by auto
  moreover have "b = [] \<longleftrightarrow> list_all (\<lambda>i. fst (merge_worksheet bs ls rs i ([], [])) = []) js"
    using Cons [of "sheets @ a" "log @ rows"] two by simp
  ultimately show ?case using one two by simp
qed simp

lemma nothing_left:
  "fst (fold (merge_worksheet bs ls rs) (merge_order ls rs) ([], [])) = [] \<longleftrightarrow> deleted_untouched bs ls rs \<and> deleted_untouched bs rs ls"
  (is "?l \<longleftrightarrow> ?r")
proof -
  let ?n = "\<lambda>i. fst (merge_worksheet bs ls rs i ([], [])) = []"
  have l: "?n i \<longleftrightarrow> worksheet_at i rs = None \<and> same_value json_of_worksheet (worksheet_at i bs) (worksheet_at i ls)" if "i \<in> set (map wk_id ls)" for i
    using that merge_adds_nothing [of bs ls rs i "[]" "[]"] worksheet_at_None [of i ls] by (auto split: option.splits)
  have r: "?n i \<longleftrightarrow> same_value json_of_worksheet (worksheet_at i bs) (worksheet_at i rs)" if "i \<in> set (map wk_id rs)" "i \<notin> set (map wk_id ls)" for i
    using that merge_adds_nothing [of bs ls rs i "[]" "[]"] worksheet_at_None [of i ls] worksheet_at_None [of i rs] by (auto split: option.splits)
  have "?l \<longleftrightarrow> (\<forall>w \<in> set ls. ?n (wk_id w)) \<and> (\<forall>w \<in> set rs. wk_id w \<notin> set (map wk_id ls) \<longrightarrow> ?n (wk_id w))"
    unfolding merge_all_nothing by (auto simp: merge_order_def list_all_iff)
  also have "\<dots> \<longleftrightarrow> ?r"
    using l r worksheet_at_None unfolding deleted_untouched_def list_all_iff by (auto simp: image_iff) metis+
  finally show ?thesis .
qed

section \<open>Properties\<close>

text \<open>
  C35: merging two workbooks always ends, whatever the names and identifiers of their sheets are. It fails only when each device
  deleted every sheet the other one still has and had not touched: then no sheet is left to be the active one.
\<close>

theorem merge_workbooks_ends:
  "\<exists>res. merge_workbooks base local remote = Some res \<and>
     ((\<exists>e. res = Inl e) \<longleftrightarrow> deleted_untouched (sheets_of base) (wb_sheets local) (wb_sheets remote) \<and> deleted_untouched (sheets_of base) (wb_sheets remote) (wb_sheets local))"
proof (cases "deleted_untouched (sheets_of base) (wb_sheets local) (wb_sheets remote) \<and> deleted_untouched (sheets_of base) (wb_sheets remote) (wb_sheets local)")
  case True
  then show ?thesis using merge_run(1) [of base local remote] nothing_left by simp
next
  case False
  then obtain a vs n where "merge_workbooks base local remote = Some (Inr (\<lparr>wb_active = a, wb_sheets = vs\<rparr>, n))"
    using merge_run(2) [of base local remote] nothing_left by metis
  then show ?thesis using False by simp
qed

text \<open>
  C17: in a sheet both devices have, every cell is merged by the three-way rule, empty cells included:
  the text of the side that changed it (or emptied it), or the local text when both did. Only the log
  differs from that: it is written when there was a conflict, into the log's sheet, and only into cells
  below every merged text of that sheet. Every cell both devices changed to different texts has a row
  there with both texts (quoted when they look like a formula or a quoted text, and cut to the 4096
  characters a cell takes).
\<close>

theorem merge_keeps_every_text:
  assumes "workbook_ok local" and "workbook_ok remote" and "l \<in> set (wb_sheets local)" and "r \<in> set (wb_sheets remote)" and "wk_id l = wk_id r"
    and "t = (\<lambda>k. merged_text (base_text (map_option wk_sheet (worksheet_at (wk_id l) (sheets_of base))) k)
                (cell_text (sh_cells (wk_sheet l)) k) (cell_text (sh_cells (wk_sheet r)) k))"
  shows "\<exists>m n. merge_workbooks base local remote = Some (Inr (m, n)) \<and>
     (\<exists>w \<in> set (wb_sheets m). wk_id w = wk_id l \<and>
       (\<forall>k. cell_text (sh_cells (wk_sheet w)) k = t k
          \<or> t k = [] \<and> 0 < n \<and> log_target m w \<and> (\<forall>j. t j \<noteq> [] \<longrightarrow> row_of_key j < row_of_key k)) \<and>
       (\<forall>k. clashing (base_text (map_option wk_sheet (worksheet_at (wk_id l) (sheets_of base))) k)
              (cell_text (sh_cells (wk_sheet l)) k) (cell_text (sh_cells (wk_sheet r)) k) \<longrightarrow>
          (\<exists>v \<in> set (wb_sheets m). \<exists>name. has_log_row \<lparr>cr_sheet = name, cr_cell = k,
             cr_local = cell_text (sh_cells (wk_sheet l)) k, cr_remote = cell_text (sh_cells (wk_sheet r)) k\<rparr> (wk_sheet v))))"
proof -
  let ?i = "wk_id l" and ?bs = "sheets_of base" and ?ls = "wb_sheets local" and ?rs = "wb_sheets remote"
  let ?F = "fold (merge_worksheet ?bs ?ls ?rs) (merge_order ?ls ?rs) ([], [])"
  have d: "distinct (map wk_id ?ls)" "distinct (map wk_id ?rs)" using assms(1,2) by (simp_all add: workbook_ok_def)
  have at: "worksheet_at ?i ?ls = Some l" "worksheet_at ?i ?rs = Some r"
    using worksheet_at_own [OF d(1) assms(3)] worksheet_at_own [OF d(2) assms(4)] assms(5) by simp_all
  define name where "name = merged_name (worksheet_at ?i ?bs) l r"
  let ?m = "merge_sheet name (map_option wk_sheet (worksheet_at ?i ?bs)) (wk_sheet l) (wk_sheet r)"
  have "?i \<in> set (merge_order ?ls ?rs)" using assms(3) by (simp add: merge_order_def)
  from merge_worksheets_has [OF this at, of ?bs "[]" "[]"] obtain u where u: "u \<in> set (fst ?F)" "wk_id u = ?i" "wk_sheet u = fst ?m" "set (snd ?m) \<subseteq> set (snd ?F)"
    unfolding name_def by blast
  then have "fst ?F \<noteq> []" by auto
  from merge_run(2) [OF this] obtain a vs where run: "merge_workbooks base local remote = Some (Inr (\<lparr>wb_active = a, wb_sheets = vs\<rparr>, length (snd ?F)))"
    and placed: "log_placed a (snd ?F) (fst ?F) vs" by blast
  then obtain w where w: "w \<in> set vs" "wk_id w = ?i" "grown (wk_sheet u) (wk_sheet w)"
      "wk_sheet w = wk_sheet u \<or> snd ?F \<noteq> [] \<and> log_target \<lparr>wb_active = a, wb_sheets = vs\<rparr> w"
    using u(1,2) unfolding log_placed_def by metis
  note rule = merge_cells_rule [where name = name and base = "map_option wk_sheet (worksheet_at ?i ?bs)" and l = "wk_sheet l" and r = "wk_sheet r"]
  have texts: "cell_text (sh_cells (wk_sheet u)) k = t k" for k
    using rule(1) [of k] unfolding u(3) merge_sheet_cells(1) assms(6) .
  have rows: "\<exists>v \<in> set vs. \<exists>name. has_log_row \<lparr>cr_sheet = name, cr_cell = k, cr_local = cell_text (sh_cells (wk_sheet l)) k, cr_remote = cell_text (sh_cells (wk_sheet r)) k\<rparr> (wk_sheet v)"
    if "clashing (base_text (map_option wk_sheet (worksheet_at ?i ?bs)) k) (cell_text (sh_cells (wk_sheet l)) k) (cell_text (sh_cells (wk_sheet r)) k)" for k
    using rule(2) [OF that] merge_sheet_cells(2) u(4) placed unfolding log_placed_def by blast
  have cells: "cell_text (sh_cells (wk_sheet w)) k = t k
      \<or> t k = [] \<and> 0 < length (snd ?F) \<and> log_target \<lparr>wb_active = a, wb_sheets = vs\<rparr> w \<and> (\<forall>j. t j \<noteq> [] \<longrightarrow> row_of_key j < row_of_key k)" for k
  proof (cases "wk_sheet w = wk_sheet u")
    case True
    then show ?thesis by (simp add: texts)
  next
    case False
    with w(4) have F: "0 < length (snd ?F)" "log_target \<lparr>wb_active = a, wb_sheets = vs\<rparr> w" by auto
    from w(3) have "cell_text (sh_cells (wk_sheet w)) k = t k \<or> t k = [] \<and> (\<forall>j. t j \<noteq> [] \<longrightarrow> row_of_key j < row_of_key k)"
      unfolding grown_def texts by blast
    with F show ?thesis by blast
  qed
  show ?thesis
    using run w(1,2) cells rows by (intro exI [of _ "\<lparr>wb_active = a, wb_sheets = vs\<rparr>"] exI [of _ "length (snd ?F)"]) auto
qed

definition one_cell_book :: "string \<Rightarrow> workbook" where
  "one_cell_book t = workbook_of (empty_sheet\<lparr>sh_cells := [(demo_cell, t)]\<rparr>)"

lemma one_cell_book_ok: "t \<noteq> [] \<Longrightarrow> length t \<le> max_input \<Longrightarrow> workbook_ok (one_cell_book t)"
proof -
  assume t: "t \<noteq> []" "length t \<le> max_input"
  have "point_of demo_cell = Some \<lparr>pt_row = 0, pt_column = 0\<rparr>"
    unfolding demo_cell_def by (rule point_of_address) (simp_all add: max_rows_def max_columns_def)
  then have "cell_in 1000 26 demo_cell" by (simp add: cell_in_def demo_cell_def)
  then have "sheet_ok (empty_sheet\<lparr>sh_cells := [(demo_cell, t)]\<rparr>)" using t
    by (simp add: sheet_ok_def empty_sheet_def cells_ok_def formats_ok_def widths_ok_def freeze_ok_def max_rows_def max_columns_def max_cells_def max_content_def max_input_def)
  then show ?thesis unfolding one_cell_book_def by (rule workbook_of_ok)
qed

theorem merge_keeps_every_text_witness:
  "\<exists>m n. merge_workbooks None (one_cell_book ''x'') (one_cell_book ''y'') = Some (Inr (m, n)) \<and>
     (\<exists>v \<in> set (wb_sheets m). \<exists>name. has_log_row \<lparr>cr_sheet = name, cr_cell = demo_cell, cr_local = ''x'', cr_remote = ''y''\<rparr> (wk_sheet v))"
proof -
  have ok: "workbook_ok (one_cell_book ''x'')" "workbook_ok (one_cell_book ''y'')" by (rule one_cell_book_ok; simp add: max_input_def)+
  have sheets: "hd (wb_sheets (one_cell_book t)) \<in> set (wb_sheets (one_cell_book t))" "cell_text (sh_cells (wk_sheet (hd (wb_sheets (one_cell_book t))))) demo_cell = t"
    "wk_id (hd (wb_sheets (one_cell_book t))) = ''sheet1''" for t
    by (simp_all add: one_cell_book_def workbook_of_def cell_text_def)
  have "base_text (map_option wk_sheet (worksheet_at ''sheet1'' (sheets_of None))) demo_cell = []"
    by (simp add: sheets_of_def worksheet_at_def base_text_def cell_text_def)
  then have "clashing (base_text (map_option wk_sheet (worksheet_at ''sheet1'' (sheets_of None))) demo_cell) ''x'' ''y''"
    by (simp add: clashing_def)
  moreover have "wk_id (hd (wb_sheets (one_cell_book ''x''))) = wk_id (hd (wb_sheets (one_cell_book ''y'')))" by (simp add: sheets(3))
  note merge_keeps_every_text [OF ok sheets(1) sheets(1) this refl, of None]
  ultimately show ?thesis unfolding sheets(3) by (elim exE conjE bexE) (metis sheets(2))
qed

text \<open>
  A sheet only this device still has is kept with all its texts when this device changed it since the base, or made it new: a
  deletion on the other device takes away only what was not touched here.
\<close>

theorem edited_sheet_survives:
  assumes "workbook_ok local" and "w \<in> set (wb_sheets local)" and "wk_id w \<notin> set (map wk_id (wb_sheets remote))"
    and "\<not> same_value json_of_worksheet (worksheet_at (wk_id w) (sheets_of base)) (Some w)"
  shows "\<exists>m n. merge_workbooks base local remote = Some (Inr (m, n)) \<and> (\<exists>v \<in> set (wb_sheets m). wk_id v = wk_id w \<and> keeps_texts (wk_sheet w) (wk_sheet v))"
proof -
  let ?bs = "sheets_of base" and ?ls = "wb_sheets local" and ?rs = "wb_sheets remote"
  let ?F = "fold (merge_worksheet ?bs ?ls ?rs) (merge_order ?ls ?rs) ([], [])"
  have "distinct (map wk_id ?ls)" using assms(1) by (simp add: workbook_ok_def)
  then have at: "worksheet_at (wk_id w) ?ls = Some w" "worksheet_at (wk_id w) ?rs = None"
    using worksheet_at_own assms(2,3) worksheet_at_None by blast+
  have "wk_id w \<in> set (merge_order ?ls ?rs)" using assms(2) by (simp add: merge_order_def)
  then have "w \<in> set (fst ?F)" using merge_worksheets_own [OF at assms(4)] by blast
  moreover from this have "fst ?F \<noteq> []" by auto
  from merge_run(2) [OF this] obtain a vs where "merge_workbooks base local remote = Some (Inr (\<lparr>wb_active = a, wb_sheets = vs\<rparr>, length (snd ?F)))"
    "log_placed a (snd ?F) (fst ?F) vs" by blast
  ultimately show ?thesis
    by (intro exI [of _ "\<lparr>wb_active = a, wb_sheets = vs\<rparr>"] exI [of _ "length (snd ?F)"]) (simp add: log_placed_keeps)
qed

definition renamed_demo :: workbook where
  "renamed_demo = demo_book\<lparr>wb_sheets := [\<lparr>wk_id = ''other'', wk_name = ''Sheet1'', wk_sheet = empty_sheet\<rparr>], wb_active := ''other''\<rparr>"

theorem edited_sheet_survives_witness:
  "\<exists>m n. merge_workbooks None demo_book renamed_demo = Some (Inr (m, n)) \<and>
     (\<exists>v \<in> set (wb_sheets m). wk_id v = ''sheet1'' \<and> keeps_texts empty_sheet (wk_sheet v))"
  using edited_sheet_survives [OF demo_book_ok, of "hd (wb_sheets demo_book)" renamed_demo None]
  by (simp add: demo_book_def workbook_of_def renamed_demo_def sheets_of_def worksheet_at_def same_value_def)

end
