(* ===== verification/Budget.thy ===== *)
theory Budget
  imports JsonFields "HOL-Library.Product_Lexorder"
begin

text \<open>
  The budget of \<open>plugins/budget/src/model.ts\<close> with \<open>items.ts\<close> and \<open>currencyDigits\<close> of
  \<open>money.ts\<close>: the validators, the JSONL file, and the totals. Money is a whole number of minor units;
  coordinates are thousandths of a degree, as all numbers of the JSON are thousandths. What \<open>Intl\<close> says
  of a currency is the parameter \<open>dg\<close>: the number of its fraction digits, or nothing when it throws.
\<close>

section \<open>Data\<close>

datatype transaction_kind = Income | Expense

record budget_account =
  ba_id :: string
  ba_name :: string
  ba_currency :: string
  ba_opening :: int

record budget_category =
  bc_id :: string
  bc_name :: string
  bc_kind :: transaction_kind

record budget_place =
  bp_id :: string
  bp_name :: string
  bp_latitude :: "int option"
  bp_longitude :: "int option"

record budget_item =
  bi_id :: string
  bi_name :: string
  bi_quantity :: string
  bi_unit_price :: int
  bi_total :: int

record budget_attachment =
  bh_id :: string
  bh_path :: string
  bh_name :: string
  bh_mime :: string
  bh_bytes :: int

record fiscal_receipt =
  fr_fn :: string
  fr_fd :: string
  fr_fp :: string
  fr_issued :: string
  fr_total :: int
  fr_operation :: nat

record budget_transaction =
  tx_id :: string
  tx_account :: string
  tx_category :: string
  tx_kind :: transaction_kind
  tx_amount :: int
  tx_date :: string
  tx_note :: string
  tx_place :: "string option"
  tx_items :: "budget_item list"
  tx_attachments :: "budget_attachment list"
  tx_receipt :: "fiscal_receipt option"

record budget =
  bd_accounts :: "budget_account list"
  bd_categories :: "budget_category list"
  bd_places :: "budget_place list"
  bd_transactions :: "budget_transaction list"

text \<open>\<open>Invalid <context>: <message>\<close>, an amount out of range, an unknown account, and the errors of the interface texts.\<close>

datatype budget_error = BudgetInvalid string string | MoneyOverflow string | UnknownAccount string | BudgetError string

section \<open>Fields\<close>

definition invalid :: "string \<Rightarrow> string \<Rightarrow> budget_error + 'a" where
  "invalid ctx msg = Inl (BudgetInvalid ctx msg)"

definition quoted :: "string \<Rightarrow> string" where
  "quoted s = dquote # s @ [dquote]"

definition bad_field :: "string \<Rightarrow> string \<Rightarrow> string \<Rightarrow> budget_error + 'a" where
  "bad_field ctx f msg = invalid ctx (''field '' @ quoted f @ '' '' @ msg)"

definition object_with_keys :: "json option \<Rightarrow> string list \<Rightarrow> string \<Rightarrow> budget_error + json rec" where
  "object_with_keys v ks ctx =
     (case v of
        Some (JObj kvs) \<Rightarrow>
          (let ob = js_object kvs in
             case find (\<lambda>k. k \<notin> set ks) (rkeys ob) of
               Some k \<Rightarrow> invalid ctx (''unknown field '' @ quoted k)
             | None \<Rightarrow>
                 (case find (\<lambda>k. rget ob k = None) ks of
                    Some k \<Rightarrow> invalid ctx (''missing field '' @ quoted k)
                  | None \<Rightarrow> Inr ob))
      | _ \<Rightarrow> invalid ctx ''expected an object'')"

definition string_field :: "json option \<Rightarrow> string \<Rightarrow> string \<Rightarrow> budget_error + string" where
  "string_field v f ctx = (case v of Some (JStr s) \<Rightarrow> Inr s | _ \<Rightarrow> bad_field ctx f ''must be a string'')"

definition valid_identifier :: "string \<Rightarrow> bool" where
  "valid_identifier s \<longleftrightarrow> s \<noteq> [] \<and> \<not> list_ex is_space s"

definition identifier_field :: "json option \<Rightarrow> string \<Rightarrow> string \<Rightarrow> budget_error + string" where
  "identifier_field v f ctx = and_then (string_field v f ctx) (\<lambda>s.
     if valid_identifier s then Inr s else bad_field ctx f ''must be a non-empty identifier without whitespace'')"

definition valid_display_name :: "string \<Rightarrow> bool" where
  "valid_display_name s \<longleftrightarrow> \<not> list_all is_space s"

definition display_name :: "json option \<Rightarrow> string \<Rightarrow> string \<Rightarrow> budget_error + string" where
  "display_name v f ctx = and_then (string_field v f ctx) (\<lambda>s.
     if valid_display_name s then Inr s else bad_field ctx f ''must not be empty'')"

definition max_safe :: int where "max_safe = 9007199254740991"

definition is_safe :: "int \<Rightarrow> bool" where
  "is_safe n \<longleftrightarrow> - max_safe \<le> n \<and> n \<le> max_safe"

definition safe_integer :: "json option \<Rightarrow> string \<Rightarrow> string \<Rightarrow> budget_error + int" where
  "safe_integer v f ctx =
     (case v of
        Some (JNum k) \<Rightarrow> if whole k \<and> is_safe (k div 1000) then Inr (k div 1000) else bad_field ctx f ''must be a safe integer''
      | _ \<Rightarrow> bad_field ctx f ''must be a safe integer'')"

definition positive_money :: "json option \<Rightarrow> string \<Rightarrow> string \<Rightarrow> budget_error + int" where
  "positive_money v f ctx = and_then (safe_integer v f ctx) (\<lambda>n. if n \<le> 0 then bad_field ctx f ''must be positive'' else Inr n)"

definition non_negative_money :: "json option \<Rightarrow> string \<Rightarrow> string \<Rightarrow> budget_error + int" where
  "non_negative_money v f ctx = and_then (safe_integer v f ctx) (\<lambda>n. if n < 0 then bad_field ctx f ''must not be negative'' else Inr n)"

definition kind_text :: "transaction_kind \<Rightarrow> string" where
  "kind_text k = (case k of Income \<Rightarrow> ''income'' | Expense \<Rightarrow> ''expense'')"

definition kind_field :: "json option \<Rightarrow> string \<Rightarrow> budget_error + transaction_kind" where
  "kind_field v ctx =
     (if v = Some (JStr ''income'') then Inr Income else if v = Some (JStr ''expense'') then Inr Expense
      else bad_field ctx ''kind'' (''must be '' @ quoted ''income'' @ '' or '' @ quoted ''expense''))"

definition currency_digits :: "(string \<Rightarrow> nat option) \<Rightarrow> string \<Rightarrow> nat option" where
  "currency_digits dg code = (if length code = 3 \<and> list_all (\<lambda>c. in_range CHR ''A'' c CHR ''Z'') code then dg code else None)"

definition valid_currency :: "(string \<Rightarrow> nat option) \<Rightarrow> json option \<Rightarrow> string \<Rightarrow> budget_error + string" where
  "valid_currency dg v ctx = and_then (string_field v ''currency'' ctx) (\<lambda>code.
     if currency_digits dg code = None then bad_field ctx ''currency'' ''must be a three-letter uppercase currency supported by Intl'' else Inr code)"

section \<open>Dates\<close>

definition days_of_month :: "nat \<Rightarrow> nat \<Rightarrow> nat" where
  "days_of_month year month =
     (let leap = year mod 4 = 0 \<and> (year mod 100 \<noteq> 0 \<or> year mod 400 = 0)
      in [31, if leap then 29 else 28, 31, 30, 31, 30, 31, 31, 30, 31, 30, 31] ! (month - 1))"

definition real_date :: "string \<Rightarrow> bool" where
  "real_date s \<longleftrightarrow> length s = 10 \<and> s ! 4 = CHR ''-'' \<and> s ! 7 = CHR ''-''
     \<and> list_all is_digit_char (take 4 s @ take 2 (drop 5 s) @ drop 8 s)
     \<and> (let year = digits_value (take 4 s); month = digits_value (take 2 (drop 5 s)); day = digits_value (drop 8 s)
        in year \<noteq> 0 \<and> 1 \<le> month \<and> month \<le> 12 \<and> 1 \<le> day \<and> day \<le> days_of_month year month)"

definition valid_date :: "json option \<Rightarrow> string \<Rightarrow> budget_error + string" where
  "valid_date v ctx = and_then (string_field v ''date'' ctx) (\<lambda>s.
     if real_date s then Inr s else bad_field ctx ''date'' ''must be a real local calendar date YYYY-MM-DD'')"

definition real_month :: "string \<Rightarrow> bool" where
  "real_month s \<longleftrightarrow> length s = 7 \<and> s ! 4 = CHR ''-'' \<and> list_all is_digit_char (take 4 s @ drop 5 s)
     \<and> digits_value (take 4 s) \<noteq> 0 \<and> 1 \<le> digits_value (drop 5 s) \<and> digits_value (drop 5 s) \<le> 12"

definition valid_month :: "string \<Rightarrow> string \<Rightarrow> budget_error + string" where
  "valid_month s ctx = (if real_month s then Inr s else invalid ctx ''expected a real calendar month YYYY-MM'')"

text \<open>The date, then hours, minutes and perhaps seconds.\<close>

definition date_time_shape :: "string \<Rightarrow> bool" where
  "date_time_shape s \<longleftrightarrow> (length s = 16 \<or> length s = 19 \<and> s ! 16 = CHR '':'') \<and> s ! 4 = CHR ''-'' \<and> s ! 7 = CHR ''-'' \<and> s ! 10 = CHR ''T'' \<and> s ! 13 = CHR '':''
     \<and> list_all is_digit_char (take 4 s @ take 2 (drop 5 s) @ take 2 (drop 8 s) @ take 2 (drop 11 s) @ take 2 (drop 14 s) @ drop 17 s)"

definition valid_local_date_time :: "json option \<Rightarrow> string \<Rightarrow> budget_error + string" where
  "valid_local_date_time v ctx = and_then (string_field v ''issuedAt'' ctx) (\<lambda>s.
     if \<not> date_time_shape s then bad_field ctx ''issuedAt'' ''must be a local date and time YYYY-MM-DDTHH:mm[:ss] without a timezone''
     else if \<not> real_date (take 10 s) then bad_field ctx ''issuedAt'' ''must be a real local calendar date YYYY-MM-DD''
     else if digits_value (take 2 (drop 11 s)) > 23 \<or> digits_value (take 2 (drop 14 s)) > 59 \<or> digits_value (drop 17 s) > 59
       then bad_field ctx ''issuedAt'' ''must be a real local time''
     else Inr s)"

section \<open>Records\<close>

definition tagged_keys :: "bool \<Rightarrow> string list \<Rightarrow> string list" where
  "tagged_keys tagged ks = (if tagged then ''type'' # ks else ks)"

definition wrong_type :: "bool \<Rightarrow> json rec \<Rightarrow> string \<Rightarrow> bool" where
  "wrong_type tagged ob t \<longleftrightarrow> tagged \<and> rget ob ''type'' \<noteq> Some (JStr t)"

definition account_keys :: "string list" where "account_keys = [''id'', ''name'', ''currency'', ''openingBalance'']"

definition account_from :: "(string \<Rightarrow> nat option) \<Rightarrow> bool \<Rightarrow> string \<Rightarrow> json option \<Rightarrow> budget_error + budget_account" where
  "account_from dg tagged ctx v =
     and_then (object_with_keys v (tagged_keys tagged account_keys) ctx) (\<lambda>ob.
       if wrong_type tagged ob ''account'' then invalid ctx ''expected an account record''
       else and_then (identifier_field (rget ob ''id'') ''id'' ctx) (\<lambda>i.
            and_then (display_name (rget ob ''name'') ''name'' ctx) (\<lambda>n.
            and_then (valid_currency dg (rget ob ''currency'') ctx) (\<lambda>c.
            and_then (safe_integer (rget ob ''openingBalance'') ''openingBalance'' ctx) (\<lambda>b.
              Inr \<lparr>ba_id = i, ba_name = n, ba_currency = c, ba_opening = b\<rparr>)))))"

definition category_keys :: "string list" where "category_keys = [''id'', ''name'', ''kind'']"

definition category_from :: "bool \<Rightarrow> string \<Rightarrow> json option \<Rightarrow> budget_error + budget_category" where
  "category_from tagged ctx v =
     and_then (object_with_keys v (tagged_keys tagged category_keys) ctx) (\<lambda>ob.
       if wrong_type tagged ob ''category'' then invalid ctx ''expected a category record''
       else and_then (identifier_field (rget ob ''id'') ''id'' ctx) (\<lambda>i.
            and_then (display_name (rget ob ''name'') ''name'' ctx) (\<lambda>n.
            and_then (kind_field (rget ob ''kind'') ctx) (\<lambda>k.
              Inr \<lparr>bc_id = i, bc_name = n, bc_kind = k\<rparr>))))"

definition coordinate_limit :: "string \<Rightarrow> nat" where
  "coordinate_limit f = (if f = ''latitude'' then 90 else 180)"

definition coordinate :: "json option \<Rightarrow> string \<Rightarrow> string \<Rightarrow> budget_error + int option" where
  "coordinate v f ctx =
     (let limit = coordinate_limit f in
      case v of
        Some JNull \<Rightarrow> Inr None
      | Some (JNum k) \<Rightarrow>
          if k < - 1000 * int limit \<or> k > 1000 * int limit
          then bad_field ctx f (''must be between -'' @ show_nat limit @ '' and '' @ show_nat limit) else Inr (Some k)
      | _ \<Rightarrow> bad_field ctx f ''must be finite or null'')"

definition place_keys :: "string list" where "place_keys = [''id'', ''name'', ''latitude'', ''longitude'']"

definition place_from :: "bool \<Rightarrow> string \<Rightarrow> json option \<Rightarrow> budget_error + budget_place" where
  "place_from tagged ctx v =
     and_then (object_with_keys v (tagged_keys tagged place_keys) ctx) (\<lambda>ob.
       if wrong_type tagged ob ''place'' then invalid ctx ''expected a place record''
       else and_then (coordinate (rget ob ''latitude'') ''latitude'' ctx) (\<lambda>la.
            and_then (coordinate (rget ob ''longitude'') ''longitude'' ctx) (\<lambda>lo.
              if (la = None) \<noteq> (lo = None) then invalid ctx ''latitude and longitude must either both be coordinates or both be null''
              else and_then (identifier_field (rget ob ''id'') ''id'' ctx) (\<lambda>i.
                   and_then (display_name (rget ob ''name'') ''name'' ctx) (\<lambda>n.
                     Inr \<lparr>bp_id = i, bp_name = n, bp_latitude = la, bp_longitude = lo\<rparr>)))))"

text \<open>\<open>QUANTITY\<close>: the whole part and the fraction, if there is one.\<close>

definition quantity_parts :: "string \<Rightarrow> (string \<times> string option) option" where
  "quantity_parts s =
     (let w = takeWhile is_digit_char s; r = dropWhile is_digit_char s
      in if \<not> is_index w then None
         else if r = [] then Some (w, None)
         else if hd r = CHR ''.'' \<and> tl r \<noteq> [] \<and> length (tl r) \<le> 6 \<and> list_all is_digit_char (tl r) then Some (w, Some (tl r)) else None)"

definition validate_quantity :: "string \<Rightarrow> budget_error + string" where
  "validate_quantity s =
     (case quantity_parts s of
        None \<Rightarrow> Inl (BudgetError ''BudgetQuantityInvalid'')
      | Some (w, f) \<Rightarrow>
          if digits_value w = 0 \<and> \<not> list_ex (\<lambda>c. in_range CHR ''1'' c CHR ''9'') (case f of None \<Rightarrow> [] | Some f \<Rightarrow> f)
          then Inl (BudgetError ''BudgetQuantityZero'') else Inr s)"

definition item_keys :: "string list" where "item_keys = [''id'', ''name'', ''quantity'', ''unitPrice'', ''total'']"

definition item_from :: "string \<Rightarrow> json option \<Rightarrow> budget_error + budget_item" where
  "item_from ctx v =
     and_then (object_with_keys v item_keys ctx) (\<lambda>ob.
     and_then (string_field (rget ob ''quantity'') ''quantity'' ctx) (\<lambda>q.
       if validate_quantity q \<noteq> Inr q then bad_field ctx ''quantity'' ''must be a decimal greater than zero with at most 6 fractional digits''
       else and_then (identifier_field (rget ob ''id'') ''id'' ctx) (\<lambda>i.
            and_then (display_name (rget ob ''name'') ''name'' ctx) (\<lambda>n.
            and_then (non_negative_money (rget ob ''unitPrice'') ''unitPrice'' ctx) (\<lambda>u.
            and_then (non_negative_money (rget ob ''total'') ''total'' ctx) (\<lambda>t.
              Inr \<lparr>bi_id = i, bi_name = n, bi_quantity = q, bi_unit_price = u, bi_total = t\<rparr>))))))"

definition is_uuid :: "string \<Rightarrow> bool" where
  "is_uuid s \<longleftrightarrow> map length (split_on CHR ''-'' s) = [8, 4, 4, 4, 12]
     \<and> list_all (list_all (\<lambda>c. is_digit_char c \<or> in_range CHR ''a'' c CHR ''f'')) (split_on CHR ''-'' s)"

text \<open>\<open>RECEIPT_PATH\<close>: the extension of a path it matches.\<close>

definition receipt_extension :: "string \<Rightarrow> string option" where
  "receipt_extension p =
     (let r = drop 9 p; e = drop 37 r
      in if starts_with p ''receipts/'' \<and> is_uuid (take 36 r) \<and> take 1 (drop 36 r) = ''.'' \<and> e \<in> {''jpg'', ''png'', ''webp''} then Some e else None)"

definition mime_of :: "string \<Rightarrow> string option" where
  "mime_of = map_of [(''jpg'', ''image/jpeg''), (''png'', ''image/png''), (''webp'', ''image/webp'')]"

definition max_attachment_size :: int where "max_attachment_size = 10 * 1024 * 1024"

definition attachment_keys :: "string list" where "attachment_keys = [''id'', ''path'', ''name'', ''mimeType'', ''size'']"

definition attachment_from :: "string \<Rightarrow> json option \<Rightarrow> budget_error + budget_attachment" where
  "attachment_from ctx v =
     and_then (object_with_keys v attachment_keys ctx) (\<lambda>ob.
     and_then (string_field (rget ob ''path'') ''path'' ctx) (\<lambda>p.
       case receipt_extension p of
         None \<Rightarrow> bad_field ctx ''path'' ''must be receipts/<uuid>.<jpg|png|webp>''
       | Some e \<Rightarrow>
           and_then (string_field (rget ob ''mimeType'') ''mimeType'' ctx) (\<lambda>m.
             if mime_of e \<noteq> Some m then bad_field ctx ''mimeType'' (''does not match the .'' @ e @ '' receipt path'')
             else and_then (safe_integer (rget ob ''size'') ''size'' ctx) (\<lambda>n.
               if n \<le> 0 \<or> n > max_attachment_size then bad_field ctx ''size'' (''must be between 1 and '' @ show_nat (nat max_attachment_size) @ '' bytes'')
               else and_then (identifier_field (rget ob ''id'') ''id'' ctx) (\<lambda>i.
                    and_then (display_name (rget ob ''name'') ''name'' ctx) (\<lambda>nm.
                      Inr \<lparr>bh_id = i, bh_path = p, bh_name = nm, bh_mime = m, bh_bytes = n\<rparr>))))))"

definition valid_fiscal_decimal :: "string \<Rightarrow> bool" where
  "valid_fiscal_decimal s \<longleftrightarrow> s \<noteq> [] \<and> list_all is_digit_char s \<and> digits_value s \<noteq> 0 \<and> digits_value s \<le> 4294967295"

definition fiscal_decimal :: "json option \<Rightarrow> string \<Rightarrow> string \<Rightarrow> budget_error + string" where
  "fiscal_decimal v f ctx = and_then (string_field v f ctx) (\<lambda>s.
     if valid_fiscal_decimal s then Inr s else bad_field ctx f ''must be a positive decimal up to 4294967295'')"

definition max_fiscal_total :: int where "max_fiscal_total = 281474976710655"

definition receipt_keys :: "string list" where "receipt_keys = [''fn'', ''fd'', ''fp'', ''issuedAt'', ''total'', ''operation'']"

definition valid_fn :: "string \<Rightarrow> bool" where
  "valid_fn s \<longleftrightarrow> length s = 16 \<and> list_all is_digit_char s"

definition operation_of :: "json option \<Rightarrow> nat option" where
  "operation_of v = (case v of Some (JNum k) \<Rightarrow> if k \<in> {1000, 2000, 3000, 4000} then Some (nat (k div 1000)) else None | _ \<Rightarrow> None)"

definition receipt_from :: "string \<Rightarrow> json option \<Rightarrow> budget_error + fiscal_receipt" where
  "receipt_from ctx v =
     and_then (object_with_keys v receipt_keys ctx) (\<lambda>ob.
     and_then (string_field (rget ob ''fn'') ''fn'' ctx) (\<lambda>fn.
       if \<not> valid_fn fn then bad_field ctx ''fn'' ''must contain exactly 16 decimal digits''
       else case operation_of (rget ob ''operation'') of
              None \<Rightarrow> bad_field ctx ''operation'' ''must be 1, 2, 3, or 4''
            | Some p \<Rightarrow>
                and_then (positive_money (rget ob ''total'') ''total'' ctx) (\<lambda>t.
                  if t > max_fiscal_total then bad_field ctx ''total'' (''must not exceed '' @ show_nat (nat max_fiscal_total))
                  else and_then (fiscal_decimal (rget ob ''fd'') ''fd'' ctx) (\<lambda>fd.
                       and_then (fiscal_decimal (rget ob ''fp'') ''fp'' ctx) (\<lambda>fp.
                       and_then (valid_local_date_time (rget ob ''issuedAt'') ctx) (\<lambda>d.
                         Inr \<lparr>fr_fn = fn, fr_fd = fd, fr_fp = fp, fr_issued = d, fr_total = t, fr_operation = p\<rparr>))))))"

text \<open>The first identifier that occurs a second time.\<close>

fun repeated_id :: "string list \<Rightarrow> string list \<Rightarrow> string option" where
  "repeated_id seen [] = None"
| "repeated_id seen (i # js) = (if i \<in> set seen then Some i else repeated_id (i # seen) js)"

definition unique_ids :: "string list \<Rightarrow> string \<Rightarrow> string \<Rightarrow> budget_error + unit" where
  "unique_ids js label ctx =
     (case repeated_id [] js of Some i \<Rightarrow> invalid ctx (''duplicate '' @ label @ '' id '' @ quoted i) | None \<Rightarrow> Inr ())"

definition transaction_keys :: "nat \<Rightarrow> string list" where
  "transaction_keys version =
     [''id'', ''accountId'', ''categoryId'', ''kind'', ''amount'', ''date'', ''note''] @
     (if version = 1 then [] else [''placeId'', ''items'', ''attachments'', ''fiscalReceipt''])"

text \<open>The parts only the second version of the file has.\<close>

definition items_from :: "nat \<Rightarrow> string \<Rightarrow> json rec \<Rightarrow> budget_error + (budget_item list \<times> budget_attachment list)" where
  "items_from version ctx ob =
     (if version \<noteq> 2 then Inr ([], [])
      else case (rget ob ''items'', rget ob ''attachments'') of
        (Some (JArr xs), Some (JArr ys)) \<Rightarrow>
          and_then (map_sum (\<lambda>n x. item_from (ctx @ '' item '' @ show_nat n) (Some x)) 1 xs) (\<lambda>items.
          and_then (map_sum (\<lambda>n y. attachment_from (ctx @ '' attachment '' @ show_nat n) (Some y)) 1 ys) (\<lambda>attachments.
          and_then (unique_ids (map bi_id items) ''item'' ctx) (\<lambda>_.
          and_then (unique_ids (map bh_id attachments) ''attachment'' ctx) (\<lambda>_. Inr (items, attachments)))))
      | (Some (JArr xs), _) \<Rightarrow> bad_field ctx ''attachments'' ''must be an array''
      | _ \<Rightarrow> bad_field ctx ''items'' ''must be an array'')"

definition place_field :: "nat \<Rightarrow> json option \<Rightarrow> string \<Rightarrow> budget_error + string option" where
  "place_field version v ctx =
     (if version = 1 \<or> v = Some JNull then Inr None else and_then (identifier_field v ''placeId'' ctx) (\<lambda>i. Inr (Some i)))"

definition receipt_field :: "nat \<Rightarrow> json option \<Rightarrow> string \<Rightarrow> budget_error + fiscal_receipt option" where
  "receipt_field version v ctx =
     (if version = 1 \<or> v = Some JNull then Inr None else and_then (receipt_from (ctx @ '' fiscal receipt'') v) (\<lambda>r. Inr (Some r)))"

definition transaction_from :: "bool \<Rightarrow> nat \<Rightarrow> string \<Rightarrow> json option \<Rightarrow> budget_error + budget_transaction" where
  "transaction_from tagged version ctx v =
     and_then (object_with_keys v (tagged_keys tagged (transaction_keys version)) ctx) (\<lambda>ob.
       if wrong_type tagged ob ''transaction'' then invalid ctx ''expected a transaction record''
       else and_then (items_from version ctx ob) (\<lambda>(items, attachments).
            and_then (identifier_field (rget ob ''id'') ''id'' ctx) (\<lambda>i.
            and_then (identifier_field (rget ob ''accountId'') ''accountId'' ctx) (\<lambda>a.
            and_then (identifier_field (rget ob ''categoryId'') ''categoryId'' ctx) (\<lambda>c.
            and_then (kind_field (rget ob ''kind'') ctx) (\<lambda>k.
            and_then (positive_money (rget ob ''amount'') ''amount'' ctx) (\<lambda>m.
            and_then (valid_date (rget ob ''date'') ctx) (\<lambda>d.
            and_then (string_field (rget ob ''note'') ''note'' ctx) (\<lambda>n.
            and_then (place_field version (rget ob ''placeId'') ctx) (\<lambda>p.
            and_then (receipt_field version (rget ob ''fiscalReceipt'') ctx) (\<lambda>r.
              Inr \<lparr>tx_id = i, tx_account = a, tx_category = c, tx_kind = k, tx_amount = m, tx_date = d, tx_note = n,
                tx_place = p, tx_items = items, tx_attachments = attachments, tx_receipt = r\<rparr>)))))))))))"

end
