(* ===== verification/BudgetFile.thy ===== *)
theory BudgetFile
  imports Budget
begin

text \<open>
  The rest of \<open>plugins/budget/src/model.ts\<close>: references between records, the sums that must stay in the
  safe integers, the JSONL file, and the totals of accounts, months and categories.
\<close>

section \<open>References\<close>

text \<open>A leading zero does not make a second receipt.\<close>

definition receipt_key :: "fiscal_receipt \<Rightarrow> string \<times> nat \<times> nat" where
  "receipt_key r = (fr_fn r, digits_value (fr_fd r), digits_value (fr_fp r))"

definition account_at :: "string \<Rightarrow> budget \<Rightarrow> budget_account option" where
  "account_at i d = find (\<lambda>a. ba_id a = i) (bd_accounts d)"

definition category_at :: "string \<Rightarrow> budget \<Rightarrow> budget_category option" where
  "category_at i d = find (\<lambda>c. bc_id c = i) (bd_categories d)"

text \<open>One transaction; the receipts seen so far, each with its transaction.\<close>

definition check_references ::
  "(budget_transaction \<Rightarrow> string) \<Rightarrow> budget \<Rightarrow> budget_transaction \<Rightarrow> ((string \<times> nat \<times> nat) \<times> string) list \<Rightarrow> budget_error + ((string \<times> nat \<times> nat) \<times> string) list" where
  "check_references ctx d t seen =
     (case account_at (tx_account t) d of
        None \<Rightarrow> invalid (ctx t) (''transaction '' @ quoted (tx_id t) @ '' references missing account '' @ quoted (tx_account t))
      | Some a \<Rightarrow>
     (case category_at (tx_category t) d of
        None \<Rightarrow> invalid (ctx t) (''transaction '' @ quoted (tx_id t) @ '' references missing category '' @ quoted (tx_category t))
      | Some c \<Rightarrow>
        if bc_kind c \<noteq> tx_kind t then invalid (ctx t) (''transaction '' @ quoted (tx_id t) @ '' kind does not match category '' @ quoted (tx_category t))
        else if \<not> (case tx_place t of None \<Rightarrow> True | Some p \<Rightarrow> p \<in> set (map bp_id (bd_places d)))
        then invalid (ctx t) (''transaction '' @ quoted (tx_id t) @ '' references missing place '' @ quoted (case tx_place t of None \<Rightarrow> [] | Some p \<Rightarrow> p))
        else (case tx_receipt t of
                None \<Rightarrow> Inr seen
              | Some r \<Rightarrow>
                  if ba_currency a \<noteq> ''RUB'' then invalid (ctx t) (''fiscal transaction '' @ quoted (tx_id t) @ '' must use a RUB account'')
                  else if fr_total r \<noteq> tx_amount t then invalid (ctx t) (''fiscal total does not match transaction '' @ quoted (tx_id t) @ '' amount'')
                  else if fr_operation r = 1 \<and> tx_kind t \<noteq> Expense then invalid (ctx t) ''fiscal operation 1 must be an expense''
                  else if fr_operation r = 2 \<and> tx_kind t \<noteq> Income then invalid (ctx t) ''fiscal operation 2 must be income''
                  else case map_of seen (receipt_key r) of
                         Some i \<Rightarrow> invalid (ctx t) (''fiscal receipt is already attached to transaction '' @ quoted i)
                       | None \<Rightarrow> Inr (AList.update (receipt_key r) (tx_id t) seen))))"

definition validate_references :: "(budget_transaction \<Rightarrow> string) \<Rightarrow> budget \<Rightarrow> budget_error + unit" where
  "validate_references ctx d =
     and_then (unique_ids (map ba_id (bd_accounts d)) ''account'' ''budget data'') (\<lambda>_.
     and_then (unique_ids (map bc_id (bd_categories d)) ''category'' ''budget data'') (\<lambda>_.
     and_then (unique_ids (map bp_id (bd_places d)) ''place'' ''budget data'') (\<lambda>_.
     and_then (unique_ids (map tx_id (bd_transactions d)) ''transaction'' ''budget data'') (\<lambda>_.
     and_then (fold_sum (check_references ctx d) (bd_transactions d) []) (\<lambda>_. Inr ())))))"

section \<open>Sums\<close>

definition checked_add :: "int \<Rightarrow> int \<Rightarrow> string \<Rightarrow> budget_error + int" where
  "checked_add l r ctx = (if is_safe (l + r) then Inr (l + r) else Inl (MoneyOverflow (ctx @ '' exceeds the safe integer range'')))"

definition safe_big_int :: "int \<Rightarrow> string \<Rightarrow> budget_error + int" where
  "safe_big_int n ctx = (if is_safe n then Inr n else Inl (MoneyOverflow (ctx @ '' exceeds the safe integer range'')))"

definition get0 :: "('k \<times> int) list \<Rightarrow> 'k \<Rightarrow> int" where
  "get0 m k = (case map_of m k of None \<Rightarrow> 0 | Some n \<Rightarrow> n)"

definition month_of :: "budget_transaction \<Rightarrow> string" where
  "month_of t = take 7 (tx_date t)"

definition signed_amount :: "budget_transaction \<Rightarrow> int" where
  "signed_amount t = (case tx_kind t of Income \<Rightarrow> tx_amount t | Expense \<Rightarrow> - tx_amount t)"

record sums =
  su_balances :: "(string \<times> int) list"
  su_income :: "((string \<times> string) \<times> int) list"
  su_expense :: "((string \<times> string) \<times> int) list"
  su_category :: "((string \<times> string \<times> string) \<times> int) list"

definition add_items :: "string \<Rightarrow> budget_item list \<Rightarrow> budget_error + int" where
  "add_items ctx items = fold_sum (\<lambda>i n. checked_add n (bi_total i) (ctx @ '' item total'')) items 0"

definition add_sums :: "(budget_transaction \<Rightarrow> string) \<Rightarrow> budget \<Rightarrow> budget_transaction \<Rightarrow> sums \<Rightarrow> budget_error + sums" where
  "add_sums ctx d t s =
     (case account_at (tx_account t) d of
        None \<Rightarrow> Inr s
      | Some a \<Rightarrow>
          and_then (add_items (ctx t) (tx_items t)) (\<lambda>_.
            let balances = AList.update (ba_id a) (get0 (su_balances s) (ba_id a) + signed_amount t) (su_balances s);
                k = (month_of t, ba_currency a); ck = (month_of t, tx_category t, ba_currency a)
            in and_then (checked_add (get0 (if tx_kind t = Income then su_income s else su_expense s) k) (tx_amount t) (ctx t @ '' monthly total'')) (\<lambda>n.
                 let income = (if tx_kind t = Income then AList.update k n (su_income s) else su_income s);
                     expense = (if tx_kind t = Income then su_expense s else AList.update k n (su_expense s))
                 in and_then (checked_add (get0 income k) (- get0 expense k) (ctx t @ '' monthly balance'')) (\<lambda>_.
                    and_then (checked_add (get0 (su_category s) ck) (tx_amount t) (ctx t @ '' category total'')) (\<lambda>c.
                      Inr \<lparr>su_balances = balances, su_income = income, su_expense = expense, su_category = AList.update ck c (su_category s)\<rparr>)))))"

definition first_sums :: "budget \<Rightarrow> sums" where
  "first_sums d = \<lparr>su_balances = map (\<lambda>a. (ba_id a, ba_opening a)) (bd_accounts d), su_income = [], su_expense = [], su_category = []\<rparr>"

text \<open>\<open>label\<close> is the fixed context of the caller, or \<open>budget data\<close>.\<close>

definition validate_aggregate_safety :: "(budget_transaction \<Rightarrow> string) \<Rightarrow> budget \<Rightarrow> budget_error + unit" where
  "validate_aggregate_safety ctx d =
     and_then (fold_sum (add_sums ctx d) (bd_transactions d) (first_sums d)) (\<lambda>s.
     and_then (fold_sum (\<lambda>(i, n) _. safe_big_int n (''budget data account '' @ quoted i @ '' balance'')) (su_balances s) 0) (\<lambda>_. Inr ()))"

section \<open>The budget as a value\<close>

definition empty_budget :: budget where
  "empty_budget = \<lparr>bd_accounts = [], bd_categories = [], bd_places = [], bd_transactions = []\<rparr>"

definition budget_version :: "json option \<Rightarrow> nat option" where
  "budget_version v = (if v = Some (JNum 1000) then Some 1 else if v = Some (JNum 2000) then Some 2 else None)"

definition budget_keys :: "nat \<Rightarrow> string list" where
  "budget_keys version = (if version = 1 then [''version'', ''accounts'', ''categories'', ''transactions'']
     else [''version'', ''accounts'', ''categories'', ''places'', ''transactions''])"

definition array_field :: "json rec \<Rightarrow> string \<Rightarrow> budget_error + json list" where
  "array_field ob k = (case rget ob k of Some (JArr xs) \<Rightarrow> Inr xs | _ \<Rightarrow> bad_field ''budget data'' k ''must be an array'')"

definition validate_budget :: "(string \<Rightarrow> nat option) \<Rightarrow> json \<Rightarrow> budget_error + budget" where
  "validate_budget dg value =
     (case value of
        JObj kvs \<Rightarrow>
          (case budget_version (rget (js_object kvs) ''version'') of
             None \<Rightarrow> invalid ''budget data'' ''unsupported version''
           | Some version \<Rightarrow>
               and_then (object_with_keys (Some value) (budget_keys version) ''budget data'') (\<lambda>ob.
               and_then (array_field ob ''accounts'') (\<lambda>as.
               and_then (array_field ob ''categories'') (\<lambda>cs.
               and_then (if version = 2 then array_field ob ''places'' else Inr []) (\<lambda>ps.
               and_then (array_field ob ''transactions'') (\<lambda>ts.
               and_then (map_sum (\<lambda>n x. account_from dg False (''budget account '' @ show_nat n) (Some x)) 1 as) (\<lambda>accounts.
               and_then (map_sum (\<lambda>n x. category_from False (''budget category '' @ show_nat n) (Some x)) 1 cs) (\<lambda>categories.
               and_then (map_sum (\<lambda>n x. place_from False (''budget place '' @ show_nat n) (Some x)) 1 ps) (\<lambda>places.
               and_then (map_sum (\<lambda>n x. transaction_from False version (''budget transaction '' @ show_nat n) (Some x)) 1 ts) (\<lambda>transactions.
                 let d = \<lparr>bd_accounts = accounts, bd_categories = categories, bd_places = places, bd_transactions = transactions\<rparr>
                 in and_then (validate_references (\<lambda>_. ''budget data'') d) (\<lambda>_.
                    and_then (validate_aggregate_safety (\<lambda>_. ''budget data'') d) (\<lambda>_. Inr d))))))))))))
      | _ \<Rightarrow> invalid ''budget data'' ''expected an object'')"

section \<open>The file\<close>

definition line_context :: "nat \<Rightarrow> string" where
  "line_context n = ''budget JSONL at line '' @ show_nat n"

definition parse_line :: "nat \<Rightarrow> string \<Rightarrow> budget_error + json" where
  "parse_line n line =
     (if line = [] then invalid (line_context n) ''blank lines are not allowed''
      else case parse_json line of
             None \<Rightarrow> invalid (line_context n) ''invalid JSON''
           | Some (JObj kvs) \<Rightarrow> Inr (JObj kvs)
           | Some _ \<Rightarrow> invalid (line_context n) ''expected an object'')"

definition type_of :: "json \<Rightarrow> json option" where
  "type_of v = (case v of JObj kvs \<Rightarrow> rget (js_object kvs) ''type'' | _ \<Rightarrow> None)"

text \<open>One line after the header: the data so far and the line of each transaction.\<close>

definition parse_budget_line :: "(string \<Rightarrow> nat option) \<Rightarrow> nat \<Rightarrow> nat \<times> string \<Rightarrow> budget \<times> (string \<times> nat) list \<Rightarrow> budget_error + (budget \<times> (string \<times> nat) list)" where
  "parse_budget_line dg version = (\<lambda>(n, line) (d, lines).
     and_then (parse_line n line) (\<lambda>v.
       if type_of v = Some (JStr ''account'') then
         and_then (account_from dg True (line_context n) (Some v)) (\<lambda>a.
           if ba_id a \<in> set (map ba_id (bd_accounts d)) then invalid (line_context n) (''duplicate account id '' @ quoted (ba_id a))
           else Inr (d\<lparr>bd_accounts := bd_accounts d @ [a]\<rparr>, lines))
       else if type_of v = Some (JStr ''category'') then
         and_then (category_from True (line_context n) (Some v)) (\<lambda>c.
           if bc_id c \<in> set (map bc_id (bd_categories d)) then invalid (line_context n) (''duplicate category id '' @ quoted (bc_id c))
           else Inr (d\<lparr>bd_categories := bd_categories d @ [c]\<rparr>, lines))
       else if type_of v = Some (JStr ''place'') \<and> version = 2 then
         and_then (place_from True (line_context n) (Some v)) (\<lambda>p.
           if bp_id p \<in> set (map bp_id (bd_places d)) then invalid (line_context n) (''duplicate place id '' @ quoted (bp_id p))
           else Inr (d\<lparr>bd_places := bd_places d @ [p]\<rparr>, lines))
       else if type_of v = Some (JStr ''transaction'') then
         and_then (transaction_from True version (line_context n) (Some v)) (\<lambda>t.
           if map_of lines (tx_id t) \<noteq> None then invalid (line_context n) (''duplicate transaction id '' @ quoted (tx_id t))
           else Inr (d\<lparr>bd_transactions := bd_transactions d @ [t]\<rparr>, AList.update (tx_id t) n lines))
       else invalid (line_context n) (''unknown record type '' @ quoted (case type_of v of None \<Rightarrow> ''undefined'' | Some x \<Rightarrow> js_string x)
              @ '' for budget version '' @ show_nat version)))"

definition without_cr :: "string \<Rightarrow> string" where
  "without_cr s = (if s \<noteq> [] \<and> last s = char_of (13 :: nat) then butlast s else s)"

definition file_lines :: "string \<Rightarrow> string list" where
  "file_lines s =
     (let ls = split_on (char_of (10 :: nat)) s
      in map without_cr (if last ls = [] then butlast ls else ls))"

definition transaction_context :: "(string \<times> nat) list \<Rightarrow> budget_transaction \<Rightarrow> string" where
  "transaction_context lines t = ''budget JSONL at line '' @ (case map_of lines (tx_id t) of None \<Rightarrow> ''undefined'' | Some n \<Rightarrow> show_nat n)"

definition parse_budget :: "(string \<Rightarrow> nat option) \<Rightarrow> string \<Rightarrow> budget_error + budget" where
  "parse_budget dg s =
     (if s = [] \<or> file_lines s = [] then invalid ''budget JSONL'' ''the file is empty''
      else and_then (parse_line 1 (hd (file_lines s))) (\<lambda>h.
           and_then (object_with_keys (Some h) [''type'', ''version''] (line_context 1)) (\<lambda>ob.
             if rget ob ''type'' \<noteq> Some (JStr ''budget'') then invalid (line_context 1) ''expected a budget header''
             else case budget_version (rget ob ''version'') of
                    None \<Rightarrow> invalid (line_context 1) ''unsupported version''
                  | Some version \<Rightarrow>
                      and_then (fold_sum (parse_budget_line dg version) (enumerate 2 (tl (file_lines s))) (empty_budget, [])) (\<lambda>(d, lines).
                      and_then (validate_references (transaction_context lines) d) (\<lambda>_.
                      and_then (validate_aggregate_safety (transaction_context lines) d) (\<lambda>_. Inr d))))))"

definition json_of_int :: "int \<Rightarrow> json" where
  "json_of_int n = JNum (1000 * n)"

definition json_option :: "('a \<Rightarrow> json) \<Rightarrow> 'a option \<Rightarrow> json" where
  "json_option f x = (case x of None \<Rightarrow> JNull | Some a \<Rightarrow> f a)"

definition account_members :: "budget_account \<Rightarrow> json rec" where
  "account_members a = [(''id'', JStr (ba_id a)), (''name'', JStr (ba_name a)), (''currency'', JStr (ba_currency a)), (''openingBalance'', json_of_int (ba_opening a))]"

definition category_members :: "budget_category \<Rightarrow> json rec" where
  "category_members c = [(''id'', JStr (bc_id c)), (''name'', JStr (bc_name c)), (''kind'', JStr (kind_text (bc_kind c)))]"

definition place_members :: "budget_place \<Rightarrow> json rec" where
  "place_members p = [(''id'', JStr (bp_id p)), (''name'', JStr (bp_name p)), (''latitude'', json_option JNum (bp_latitude p)), (''longitude'', json_option JNum (bp_longitude p))]"

definition json_of_item :: "budget_item \<Rightarrow> json" where
  "json_of_item i = JObj [(''id'', JStr (bi_id i)), (''name'', JStr (bi_name i)), (''quantity'', JStr (bi_quantity i)),
     (''unitPrice'', json_of_int (bi_unit_price i)), (''total'', json_of_int (bi_total i))]"

definition json_of_attachment :: "budget_attachment \<Rightarrow> json" where
  "json_of_attachment b = JObj [(''id'', JStr (bh_id b)), (''path'', JStr (bh_path b)), (''name'', JStr (bh_name b)),
     (''mimeType'', JStr (bh_mime b)), (''size'', json_of_int (bh_bytes b))]"

definition json_of_receipt :: "fiscal_receipt \<Rightarrow> json" where
  "json_of_receipt r = JObj [(''fn'', JStr (fr_fn r)), (''fd'', JStr (fr_fd r)), (''fp'', JStr (fr_fp r)), (''issuedAt'', JStr (fr_issued r)),
     (''total'', json_of_int (fr_total r)), (''operation'', json_of_nat (fr_operation r))]"

definition transaction_members :: "budget_transaction \<Rightarrow> json rec" where
  "transaction_members t = [(''id'', JStr (tx_id t)), (''accountId'', JStr (tx_account t)), (''categoryId'', JStr (tx_category t)),
     (''kind'', JStr (kind_text (tx_kind t))), (''amount'', json_of_int (tx_amount t)), (''date'', JStr (tx_date t)), (''note'', JStr (tx_note t)),
     (''placeId'', json_option JStr (tx_place t)), (''items'', JArr (map json_of_item (tx_items t))),
     (''attachments'', JArr (map json_of_attachment (tx_attachments t))), (''fiscalReceipt'', json_option json_of_receipt (tx_receipt t))]"

definition json_of_budget :: "budget \<Rightarrow> json" where
  "json_of_budget d = JObj [(''version'', JNum 2000), (''accounts'', JArr (map (JObj \<circ> account_members) (bd_accounts d))),
     (''categories'', JArr (map (JObj \<circ> category_members) (bd_categories d))), (''places'', JArr (map (JObj \<circ> place_members) (bd_places d))),
     (''transactions'', JArr (map (JObj \<circ> transaction_members) (bd_transactions d)))]"

text \<open>One line: the type before the members of the record.\<close>

definition record_line :: "string \<Rightarrow> json rec \<Rightarrow> string" where
  "record_line t members = stringify (JObj ((''type'', JStr t) # members))"

definition serialize_budget :: "(string \<Rightarrow> nat option) \<Rightarrow> budget \<Rightarrow> budget_error + string" where
  "serialize_budget dg value =
     and_then (validate_budget dg (json_of_budget value)) (\<lambda>d.
       Inr (join [char_of (10 :: nat)]
          (record_line ''budget'' [(''version'', JNum 2000)]
           # map (record_line ''account'' \<circ> account_members) (sort_key ba_id (bd_accounts d))
           @ map (record_line ''category'' \<circ> category_members) (sort_key bc_id (bd_categories d))
           @ map (record_line ''place'' \<circ> place_members) (sort_key bp_id (bd_places d))
           @ map (record_line ''transaction'' \<circ> transaction_members) (sort_key tx_id (bd_transactions d)))
         @ [char_of (10 :: nat)]))"

section \<open>Totals\<close>

definition account_balance :: "(string \<Rightarrow> nat option) \<Rightarrow> budget \<Rightarrow> string \<Rightarrow> budget_error + int" where
  "account_balance dg value i =
     and_then (validate_budget dg (json_of_budget value)) (\<lambda>d.
       case account_at i d of
         None \<Rightarrow> Inl (UnknownAccount i)
       | Some a \<Rightarrow>
           safe_big_int (fold (\<lambda>t b. if tx_account t \<noteq> i then b else b + signed_amount t) (bd_transactions d) (ba_opening a))
             (''Balance for account '' @ quoted i))"

record monthly_total =
  mt_currency :: string
  mt_income :: int
  mt_expense :: int
  mt_balance :: int

definition in_month :: "string \<Rightarrow> budget_transaction \<Rightarrow> bool" where
  "in_month month t \<longleftrightarrow> starts_with (tx_date t) (month @ ''-'')"

definition add_monthly :: "budget \<Rightarrow> string \<Rightarrow> budget_transaction \<Rightarrow> monthly_total rec \<Rightarrow> budget_error + monthly_total rec" where
  "add_monthly d month t totals =
     (if \<not> in_month month t then Inr totals
      else case account_at (tx_account t) d of
        None \<Rightarrow> Inr totals
      | Some a \<Rightarrow>
          let cur = ba_currency a;
              total = (case rget totals cur of None \<Rightarrow> \<lparr>mt_currency = cur, mt_income = 0, mt_expense = 0, mt_balance = 0\<rparr> | Some x \<Rightarrow> x)
          in and_then (case tx_kind t of
                 Income \<Rightarrow> and_then (checked_add (mt_income total) (tx_amount t) (cur @ '' monthly income'')) (\<lambda>n. Inr (total\<lparr>mt_income := n\<rparr>))
               | Expense \<Rightarrow> and_then (checked_add (mt_expense total) (tx_amount t) (cur @ '' monthly expense'')) (\<lambda>n. Inr (total\<lparr>mt_expense := n\<rparr>))) (\<lambda>x.
             and_then (checked_add (mt_income x) (- mt_expense x) (cur @ '' monthly balance'')) (\<lambda>b.
               Inr (rset cur (x\<lparr>mt_balance := b\<rparr>) totals))))"

definition monthly_totals :: "(string \<Rightarrow> nat option) \<Rightarrow> budget \<Rightarrow> string \<Rightarrow> budget_error + monthly_total list" where
  "monthly_totals dg value month =
     and_then (validate_budget dg (json_of_budget value)) (\<lambda>d.
     and_then (valid_month month ''budget month'') (\<lambda>_.
     and_then (fold_sum (add_monthly d month) (bd_transactions d) []) (\<lambda>totals.
       Inr (sort_key mt_currency (map snd totals)))))"

record category_total =
  ct_category :: string
  ct_currency :: string
  ct_amount :: int

definition add_category :: "budget \<Rightarrow> string \<Rightarrow> budget_transaction \<Rightarrow> ((string \<times> string) \<times> category_total) list \<Rightarrow> budget_error + ((string \<times> string) \<times> category_total) list" where
  "add_category d month t totals =
     (if \<not> in_month month t then Inr totals
      else case account_at (tx_account t) d of
        None \<Rightarrow> Inr totals
      | Some a \<Rightarrow>
          let cur = ba_currency a; key = (tx_category t, cur);
              total = (case map_of totals key of None \<Rightarrow> \<lparr>ct_category = tx_category t, ct_currency = cur, ct_amount = 0\<rparr> | Some x \<Rightarrow> x)
          in and_then (checked_add (ct_amount total) (tx_amount t) (''Total for category '' @ quoted (tx_category t) @ '' in '' @ cur)) (\<lambda>n.
               Inr (AList.update key (total\<lparr>ct_amount := n\<rparr>) totals)))"

definition category_totals :: "(string \<Rightarrow> nat option) \<Rightarrow> budget \<Rightarrow> string \<Rightarrow> budget_error + category_total list" where
  "category_totals dg value month =
     and_then (validate_budget dg (json_of_budget value)) (\<lambda>d.
     and_then (valid_month month ''budget month'') (\<lambda>_.
     and_then (fold_sum (add_category d month) (bd_transactions d) []) (\<lambda>totals.
       Inr (sort_key (\<lambda>c. (ct_category c, ct_currency c)) (map snd totals)))))"

end
