(* ===== verification/BudgetRecords.thy ===== *)
theory BudgetRecords
  imports BudgetFile
begin

text \<open>
  Records of a budget: what the validators let through, and that each reads its own record back, alone and from its line of the file.
\<close>

section \<open>Fields\<close>

lemma invalid_not_Inr [simp]: "invalid ctx msg \<noteq> Inr x" "bad_field ctx f msg \<noteq> Inr x" "Inr x \<noteq> invalid ctx msg" "Inr x \<noteq> bad_field ctx f msg"
  by (simp_all add: invalid_def bad_field_def)

lemma find_None: "(\<And>x. x \<in> set xs \<Longrightarrow> \<not> P x) \<Longrightarrow> find P xs = None"
  by (auto simp: find_None_iff)

lemma object_printed:
  "distinct (rkeys kvs) \<Longrightarrow> rkeys kvs = ks \<Longrightarrow> object_with_keys (Some (JObj kvs)) ks ctx = Inr kvs"
proof -
  assume d: "distinct (rkeys kvs)" and ks: "rkeys kvs = ks"
  have "find (\<lambda>k. k \<notin> set ks) (rkeys kvs) = None" using ks by (intro find_None) simp
  moreover have "find (\<lambda>k. rget kvs k = None) ks = None" using ks by (intro find_None) (auto simp: map_of_eq_None_iff)
  ultimately show ?thesis using d by (simp add: object_with_keys_def)
qed

lemma string_field_iff: "string_field v f ctx = Inr s \<longleftrightarrow> v = Some (JStr s)"
  by (auto simp: string_field_def split: option.split json.split)

lemma identifier_iff: "identifier_field v f ctx = Inr s \<longleftrightarrow> v = Some (JStr s) \<and> valid_identifier s"
  by (auto simp: identifier_field_def and_then_Inr string_field_iff split: if_splits)

lemma display_name_iff: "display_name v f ctx = Inr s \<longleftrightarrow> v = Some (JStr s) \<and> valid_display_name s"
  by (auto simp: display_name_def and_then_Inr string_field_iff split: if_splits)

lemma json_of_int_eq [simp]: "json_of_int n = json_of_int m \<longleftrightarrow> n = m"
  by (simp add: json_of_int_def)

lemma safe_integer_iff: "safe_integer v f ctx = Inr n \<longleftrightarrow> v = Some (json_of_int n) \<and> is_safe n"
proof -
  have "safe_integer (Some (JNum k)) f ctx = Inr n \<longleftrightarrow> k = 1000 * n \<and> is_safe n" for k
    by (auto simp: safe_integer_def whole_def)
  moreover have "safe_integer v f ctx \<noteq> Inr n" if "\<nexists>k. v = Some (JNum k)" using that by (auto simp: safe_integer_def split: option.split json.split)
  ultimately show ?thesis by (cases "\<exists>k. v = Some (JNum k)") (auto simp: json_of_int_def)
qed

lemma positive_money_iff: "positive_money v f ctx = Inr n \<longleftrightarrow> v = Some (json_of_int n) \<and> is_safe n \<and> 0 < n"
  by (auto simp: positive_money_def and_then_Inr safe_integer_iff split: if_splits intro: exI [of _ n])

lemma non_negative_money_iff: "non_negative_money v f ctx = Inr n \<longleftrightarrow> v = Some (json_of_int n) \<and> is_safe n \<and> 0 \<le> n"
  by (auto simp: non_negative_money_def and_then_Inr safe_integer_iff split: if_splits intro: exI [of _ n])

lemma kind_text_eq [simp]: "kind_text k = kind_text l \<longleftrightarrow> k = l"
  by (cases k; cases l) (simp_all add: kind_text_def)

lemma kind_field_iff: "kind_field v ctx = Inr k \<longleftrightarrow> v = Some (JStr (kind_text k))"
  by (cases k) (auto simp: kind_field_def kind_text_def)

lemma valid_currency_iff: "valid_currency dg v ctx = Inr c \<longleftrightarrow> v = Some (JStr c) \<and> currency_digits dg c \<noteq> None"
  by (auto simp: valid_currency_def and_then_Inr string_field_iff split: if_splits)

lemma valid_date_iff: "valid_date v ctx = Inr s \<longleftrightarrow> v = Some (JStr s) \<and> real_date s"
  by (auto simp: valid_date_def and_then_Inr string_field_iff split: if_splits)

definition real_date_time :: "string \<Rightarrow> bool" where
  "real_date_time s \<longleftrightarrow> date_time_shape s \<and> real_date (take 10 s) \<and> digits_value (take 2 (drop 11 s)) \<le> 23
     \<and> digits_value (take 2 (drop 14 s)) \<le> 59 \<and> digits_value (drop 17 s) \<le> 59"

lemma valid_local_date_time_iff: "valid_local_date_time v ctx = Inr s \<longleftrightarrow> v = Some (JStr s) \<and> real_date_time s"
  by (auto simp: valid_local_date_time_def real_date_time_def and_then_Inr string_field_iff not_less split: if_splits)

definition coordinate_ok :: "string \<Rightarrow> int option \<Rightarrow> bool" where
  "coordinate_ok f c \<longleftrightarrow> (case c of None \<Rightarrow> True | Some k \<Rightarrow> - 1000 * int (coordinate_limit f) \<le> k \<and> k \<le> 1000 * int (coordinate_limit f))"

lemma coordinate_json_eq [simp]: "json_option JNum c = json_option JNum d \<longleftrightarrow> c = d"
  by (auto simp: json_option_def split: option.splits)

lemma coordinate_iff: "coordinate v f ctx = Inr c \<longleftrightarrow> v = Some (json_option JNum c) \<and> coordinate_ok f c"
  by (auto simp: coordinate_def coordinate_ok_def json_option_def Let_def not_less split: option.split json.split if_splits)

lemma fiscal_decimal_iff: "fiscal_decimal v f ctx = Inr s \<longleftrightarrow> v = Some (JStr s) \<and> valid_fiscal_decimal s"
  by (auto simp: fiscal_decimal_def and_then_Inr string_field_iff split: if_splits)

lemma operation_of_iff: "operation_of v = Some p \<longleftrightarrow> v = Some (json_of_nat p) \<and> p \<in> {1, 2, 3, 4}"
proof -
  have "operation_of (Some (JNum k)) = Some p \<longleftrightarrow> k = 1000 * int p \<and> p \<in> {1, 2, 3, 4}" for k
    by (auto simp: operation_of_def)
  moreover have "operation_of v = None" if "\<nexists>k. v = Some (JNum k)" using that by (auto simp: operation_of_def split: option.split json.split)
  ultimately show ?thesis by (cases "\<exists>k. v = Some (JNum k)") (auto simp: json_of_nat_def)
qed

lemma repeated_id_None: "repeated_id seen js = None \<longleftrightarrow> distinct js \<and> set seen \<inter> set js = {}"
  by (induction js arbitrary: seen) auto

lemma unique_ids_iff: "unique_ids js label ctx = Inr u \<longleftrightarrow> distinct js"
  using repeated_id_None [of "[]" js] by (auto simp: unique_ids_def split: option.split)

lemmas field_iffs = and_then_Inr string_field_iff identifier_iff display_name_iff safe_integer_iff positive_money_iff non_negative_money_iff
  kind_field_iff valid_currency_iff valid_date_iff valid_local_date_time_iff coordinate_iff fiscal_decimal_iff unique_ids_iff

section \<open>Records\<close>

definition account_ok :: "(string \<Rightarrow> nat option) \<Rightarrow> budget_account \<Rightarrow> bool" where
  "account_ok dg a \<longleftrightarrow> valid_identifier (ba_id a) \<and> valid_display_name (ba_name a) \<and> currency_digits dg (ba_currency a) \<noteq> None \<and> is_safe (ba_opening a)"

definition category_ok :: "budget_category \<Rightarrow> bool" where
  "category_ok c \<longleftrightarrow> valid_identifier (bc_id c) \<and> valid_display_name (bc_name c)"

definition place_ok :: "budget_place \<Rightarrow> bool" where
  "place_ok p \<longleftrightarrow> valid_identifier (bp_id p) \<and> valid_display_name (bp_name p) \<and> coordinate_ok ''latitude'' (bp_latitude p)
     \<and> coordinate_ok ''longitude'' (bp_longitude p) \<and> (bp_latitude p = None \<longleftrightarrow> bp_longitude p = None)"

definition item_ok :: "budget_item \<Rightarrow> bool" where
  "item_ok i \<longleftrightarrow> valid_identifier (bi_id i) \<and> valid_display_name (bi_name i) \<and> validate_quantity (bi_quantity i) = Inr (bi_quantity i)
     \<and> is_safe (bi_unit_price i) \<and> 0 \<le> bi_unit_price i \<and> is_safe (bi_total i) \<and> 0 \<le> bi_total i"

definition attachment_ok :: "budget_attachment \<Rightarrow> bool" where
  "attachment_ok b \<longleftrightarrow> valid_identifier (bh_id b) \<and> valid_display_name (bh_name b)
     \<and> (\<exists>e. receipt_extension (bh_path b) = Some e \<and> mime_of e = Some (bh_mime b)) \<and> 0 < bh_bytes b \<and> bh_bytes b \<le> max_attachment_size"

definition receipt_ok :: "fiscal_receipt \<Rightarrow> bool" where
  "receipt_ok r \<longleftrightarrow> valid_fn (fr_fn r) \<and> valid_fiscal_decimal (fr_fd r) \<and> valid_fiscal_decimal (fr_fp r) \<and> real_date_time (fr_issued r)
     \<and> 0 < fr_total r \<and> fr_total r \<le> max_fiscal_total \<and> fr_operation r \<in> {1, 2, 3, 4}"

definition transaction_ok :: "budget_transaction \<Rightarrow> bool" where
  "transaction_ok t \<longleftrightarrow> valid_identifier (tx_id t) \<and> valid_identifier (tx_account t) \<and> valid_identifier (tx_category t) \<and> is_safe (tx_amount t) \<and> 0 < tx_amount t
     \<and> real_date (tx_date t) \<and> (case tx_place t of None \<Rightarrow> True | Some p \<Rightarrow> valid_identifier p)
     \<and> list_all item_ok (tx_items t) \<and> list_all attachment_ok (tx_attachments t) \<and> distinct (map bi_id (tx_items t)) \<and> distinct (map bh_id (tx_attachments t))
     \<and> (case tx_receipt t of None \<Rightarrow> True | Some r \<Rightarrow> receipt_ok r)"

lemma account_from_ok: "account_from dg tagged ctx v = Inr a \<Longrightarrow> account_ok dg a"
  by (auto simp: account_from_def account_ok_def field_iffs split: if_splits)

lemma category_from_ok: "category_from tagged ctx v = Inr c \<Longrightarrow> category_ok c"
  by (auto simp: category_from_def category_ok_def field_iffs split: if_splits)

lemma place_from_ok: "place_from tagged ctx v = Inr p \<Longrightarrow> place_ok p"
  by (auto simp: place_from_def place_ok_def field_iffs split: if_splits)

lemma item_from_ok: "item_from ctx v = Inr i \<Longrightarrow> item_ok i"
  by (auto simp: item_from_def item_ok_def field_iffs split: if_splits)

lemma attachment_from_ok: "attachment_from ctx v = Inr b \<Longrightarrow> attachment_ok b"
  by (auto simp: attachment_from_def attachment_ok_def field_iffs split: if_splits option.splits)

lemma receipt_from_ok: "receipt_from ctx v = Inr r \<Longrightarrow> receipt_ok r"
  by (auto simp: receipt_from_def receipt_ok_def field_iffs operation_of_iff split: if_splits option.splits)

lemma items_from_ok:
  assumes "items_from version ctx ob = Inr (is, bs)"
  shows "list_all item_ok is \<and> list_all attachment_ok bs \<and> distinct (map bi_id is) \<and> distinct (map bh_id bs)"
proof (cases "version = 2")
  case True
  then obtain xs ys where "rget ob ''items'' = Some (JArr xs)" "rget ob ''attachments'' = Some (JArr ys)"
    using assms by (auto simp: items_from_def split: option.splits json.splits)
  with assms True have "map_sum (\<lambda>n x. item_from (ctx @ '' item '' @ show_nat n) (Some x)) 1 xs = Inr is"
    "map_sum (\<lambda>n y. attachment_from (ctx @ '' attachment '' @ show_nat n) (Some y)) 1 ys = Inr bs" "distinct (map bi_id is)" "distinct (map bh_id bs)"
    by (auto simp: items_from_def field_iffs)
  note m = this
  have "item_ok i" if i: "i \<in> set is" for i
  proof -
    obtain n x where "item_from (ctx @ '' item '' @ show_nat n) (Some x) = Inr i" using map_sum_each [OF m(1) i] by blast
    then show ?thesis by (rule item_from_ok)
  qed
  moreover have "attachment_ok b" if b: "b \<in> set bs" for b
  proof -
    obtain n x where "attachment_from (ctx @ '' attachment '' @ show_nat n) (Some x) = Inr b" using map_sum_each [OF m(2) b] by blast
    then show ?thesis by (rule attachment_from_ok)
  qed
  ultimately show ?thesis using m(3,4) by (simp add: list_all_iff)
qed (use assms in \<open>auto simp: items_from_def\<close>)

lemma transaction_from_ok: "transaction_from tagged version ctx v = Inr t \<Longrightarrow> transaction_ok t"
proof -
  assume t: "transaction_from tagged version ctx v = Inr t"
  then obtain ob where "items_from version ctx ob = Inr (tx_items t, tx_attachments t)" "identifier_field (rget ob ''id'') ''id'' ctx = Inr (tx_id t)"
    "identifier_field (rget ob ''accountId'') ''accountId'' ctx = Inr (tx_account t)" "identifier_field (rget ob ''categoryId'') ''categoryId'' ctx = Inr (tx_category t)"
    "positive_money (rget ob ''amount'') ''amount'' ctx = Inr (tx_amount t)" "valid_date (rget ob ''date'') ctx = Inr (tx_date t)"
    "place_field version (rget ob ''placeId'') ctx = Inr (tx_place t)" "receipt_field version (rget ob ''fiscalReceipt'') ctx = Inr (tx_receipt t)"
    by (auto simp: transaction_from_def and_then_Inr split: if_splits prod.splits)
  moreover have "place_field version v ctx = Inr p \<Longrightarrow> (case p of None \<Rightarrow> True | Some p \<Rightarrow> valid_identifier p)" for v p
    by (auto simp: place_field_def field_iffs split: if_splits)
  moreover have "receipt_field version v ctx = Inr r \<Longrightarrow> (case r of None \<Rightarrow> True | Some r \<Rightarrow> receipt_ok r)" for v r
    by (auto simp: receipt_field_def and_then_Inr receipt_from_ok split: if_splits)
  ultimately show ?thesis by (simp add: transaction_ok_def field_iffs items_from_ok)
qed

section \<open>Read back\<close>

lemma account_printed:
  assumes "account_ok dg a"
  shows "account_from dg False ctx (Some (JObj (account_members a))) = Inr a" "account_from dg True ctx (Some (JObj ((''type'', JStr ''account'') # account_members a))) = Inr a"
proof -
  have "object_with_keys (Some (JObj (account_members a))) account_keys ctx = Inr (account_members a)"
    "object_with_keys (Some (JObj ((''type'', JStr ''account'') # account_members a))) (''type'' # account_keys) ctx = Inr ((''type'', JStr ''account'') # account_members a)"
    by (rule object_printed; simp add: account_members_def account_keys_def)+
  then show "account_from dg False ctx (Some (JObj (account_members a))) = Inr a" "account_from dg True ctx (Some (JObj ((''type'', JStr ''account'') # account_members a))) = Inr a"
    using assms by (simp_all add: account_from_def tagged_keys_def wrong_type_def field_iffs account_members_def account_ok_def)
qed

lemma category_printed:
  assumes "category_ok c"
  shows "category_from False ctx (Some (JObj (category_members c))) = Inr c" "category_from True ctx (Some (JObj ((''type'', JStr ''category'') # category_members c))) = Inr c"
proof -
  have "object_with_keys (Some (JObj (category_members c))) category_keys ctx = Inr (category_members c)"
    "object_with_keys (Some (JObj ((''type'', JStr ''category'') # category_members c))) (''type'' # category_keys) ctx = Inr ((''type'', JStr ''category'') # category_members c)"
    by (rule object_printed; simp add: category_members_def category_keys_def)+
  then show "category_from False ctx (Some (JObj (category_members c))) = Inr c" "category_from True ctx (Some (JObj ((''type'', JStr ''category'') # category_members c))) = Inr c"
    using assms by (simp_all add: category_from_def tagged_keys_def wrong_type_def field_iffs category_members_def category_ok_def)
qed

lemma place_printed:
  assumes "place_ok p"
  shows "place_from False ctx (Some (JObj (place_members p))) = Inr p" "place_from True ctx (Some (JObj ((''type'', JStr ''place'') # place_members p))) = Inr p"
proof -
  have "object_with_keys (Some (JObj (place_members p))) place_keys ctx = Inr (place_members p)"
    "object_with_keys (Some (JObj ((''type'', JStr ''place'') # place_members p))) (''type'' # place_keys) ctx = Inr ((''type'', JStr ''place'') # place_members p)"
    by (rule object_printed; simp add: place_members_def place_keys_def)+
  then show "place_from False ctx (Some (JObj (place_members p))) = Inr p" "place_from True ctx (Some (JObj ((''type'', JStr ''place'') # place_members p))) = Inr p"
    using assms by (simp_all add: place_from_def tagged_keys_def wrong_type_def field_iffs place_members_def place_ok_def cong: conj_cong)
qed

lemma item_printed: "item_ok i \<Longrightarrow> item_from ctx (Some (json_of_item i)) = Inr i"
proof -
  assume ok: "item_ok i"
  let ?kvs = "[(''id'', JStr (bi_id i)), (''name'', JStr (bi_name i)), (''quantity'', JStr (bi_quantity i)), (''unitPrice'', json_of_int (bi_unit_price i)), (''total'', json_of_int (bi_total i))]"
  have "object_with_keys (Some (JObj ?kvs)) item_keys ctx = Inr ?kvs" by (rule object_printed; simp add: item_keys_def)
  then show ?thesis using ok by (simp add: item_from_def json_of_item_def field_iffs item_ok_def)
qed

lemma max_attachment_safe: "n \<le> max_attachment_size \<Longrightarrow> 0 < n \<Longrightarrow> is_safe n"
  by (simp add: max_attachment_size_def is_safe_def max_safe_def)

lemma max_fiscal_safe: "n \<le> max_fiscal_total \<Longrightarrow> 0 < n \<Longrightarrow> is_safe n"
  by (simp add: max_fiscal_total_def is_safe_def max_safe_def)

lemma attachment_printed: "attachment_ok b \<Longrightarrow> attachment_from ctx (Some (json_of_attachment b)) = Inr b"
proof -
  assume ok: "attachment_ok b"
  then obtain e where e: "receipt_extension (bh_path b) = Some e" "mime_of e = Some (bh_mime b)" by (auto simp: attachment_ok_def)
  let ?kvs = "[(''id'', JStr (bh_id b)), (''path'', JStr (bh_path b)), (''name'', JStr (bh_name b)), (''mimeType'', JStr (bh_mime b)), (''size'', json_of_int (bh_bytes b))]"
  have "object_with_keys (Some (JObj ?kvs)) attachment_keys ctx = Inr ?kvs" by (rule object_printed; simp add: attachment_keys_def)
  then show ?thesis using ok e by (simp add: attachment_from_def json_of_attachment_def field_iffs attachment_ok_def max_attachment_safe)
qed

lemma receipt_printed: "receipt_ok r \<Longrightarrow> receipt_from ctx (Some (json_of_receipt r)) = Inr r"
proof -
  assume ok: "receipt_ok r"
  let ?kvs = "[(''fn'', JStr (fr_fn r)), (''fd'', JStr (fr_fd r)), (''fp'', JStr (fr_fp r)), (''issuedAt'', JStr (fr_issued r)),
     (''total'', json_of_int (fr_total r)), (''operation'', json_of_nat (fr_operation r))]"
  have "object_with_keys (Some (JObj ?kvs)) receipt_keys ctx = Inr ?kvs" by (rule object_printed; simp add: receipt_keys_def)
  moreover have "operation_of (Some (json_of_nat (fr_operation r))) = Some (fr_operation r)" using ok by (subst operation_of_iff) (simp add: receipt_ok_def)
  ultimately show ?thesis using ok by (simp add: receipt_from_def json_of_receipt_def field_iffs receipt_ok_def max_fiscal_safe)
qed

lemma items_printed:
  assumes "transaction_ok t" and "rget ob ''items'' = Some (JArr (map json_of_item (tx_items t)))"
    and "rget ob ''attachments'' = Some (JArr (map json_of_attachment (tx_attachments t)))"
  shows "items_from 2 ctx ob = Inr (tx_items t, tx_attachments t)"
proof -
  have "map_sum (\<lambda>n x. item_from (ctx @ '' item '' @ show_nat n) (Some x)) 1 (map json_of_item (tx_items t)) = Inr (tx_items t)"
    "map_sum (\<lambda>n y. attachment_from (ctx @ '' attachment '' @ show_nat n) (Some y)) 1 (map json_of_attachment (tx_attachments t)) = Inr (tx_attachments t)"
    using assms(1) by (auto intro!: map_sum_printed item_printed attachment_printed simp: transaction_ok_def list_all_iff)
  moreover have "unique_ids (map bi_id (tx_items t)) label c = Inr ()" "unique_ids (map bh_id (tx_attachments t)) label c = Inr ()" for label c
    using assms(1) by (simp_all add: unique_ids_iff transaction_ok_def)
  ultimately show ?thesis using assms(2,3) by (simp add: items_from_def)
qed

lemma transaction_fields_printed:
  assumes "transaction_ok t"
  shows "place_field 2 (Some (json_option JStr (tx_place t))) ctx = Inr (tx_place t)"
    "receipt_field 2 (Some (json_option json_of_receipt (tx_receipt t))) ctx = Inr (tx_receipt t)"
  using assms
  by (auto simp: place_field_def receipt_field_def json_option_def transaction_ok_def field_iffs receipt_printed split: option.splits)
    (simp_all add: json_of_receipt_def)

lemma transaction_printed:
  assumes "transaction_ok t"
  shows "transaction_from False 2 ctx (Some (JObj (transaction_members t))) = Inr t"
    "transaction_from True 2 ctx (Some (JObj ((''type'', JStr ''transaction'') # transaction_members t))) = Inr t"
proof -
  let ?m = "transaction_members t" and ?n = "(''type'', JStr ''transaction'') # transaction_members t"
  have o: "object_with_keys (Some (JObj ?m)) (transaction_keys 2) ctx = Inr ?m" "object_with_keys (Some (JObj ?n)) (''type'' # transaction_keys 2) ctx = Inr ?n"
    by (rule object_printed; simp add: transaction_members_def transaction_keys_def)+
  have i: "items_from 2 ctx ?m = Inr (tx_items t, tx_attachments t)" "items_from 2 ctx ?n = Inr (tx_items t, tx_attachments t)"
    by (rule items_printed [OF assms]; simp add: transaction_members_def)+
  have f: "identifier_field (Some (JStr (tx_id t))) k ctx = Inr (tx_id t)" "identifier_field (Some (JStr (tx_account t))) k ctx = Inr (tx_account t)"
    "identifier_field (Some (JStr (tx_category t))) k ctx = Inr (tx_category t)" "kind_field (Some (JStr (kind_text (tx_kind t)))) ctx = Inr (tx_kind t)"
    "positive_money (Some (json_of_int (tx_amount t))) k ctx = Inr (tx_amount t)" "valid_date (Some (JStr (tx_date t))) ctx = Inr (tx_date t)"
    "string_field (Some (JStr (tx_note t))) k ctx = Inr (tx_note t)" for k
    using assms by (simp_all add: field_iffs transaction_ok_def)
  note r = transaction_fields_printed [OF assms]
  have get: "rget ?m ''id'' = Some (JStr (tx_id t))" "rget ?m ''accountId'' = Some (JStr (tx_account t))" "rget ?m ''categoryId'' = Some (JStr (tx_category t))"
    "rget ?m ''kind'' = Some (JStr (kind_text (tx_kind t)))" "rget ?m ''amount'' = Some (json_of_int (tx_amount t))" "rget ?m ''date'' = Some (JStr (tx_date t))"
    "rget ?m ''note'' = Some (JStr (tx_note t))" "rget ?m ''placeId'' = Some (json_option JStr (tx_place t))" "rget ?m ''fiscalReceipt'' = Some (json_option json_of_receipt (tx_receipt t))"
    by (simp_all add: transaction_members_def)
  then have get': "rget ?n ''id'' = Some (JStr (tx_id t))" "rget ?n ''accountId'' = Some (JStr (tx_account t))" "rget ?n ''categoryId'' = Some (JStr (tx_category t))"
    "rget ?n ''kind'' = Some (JStr (kind_text (tx_kind t)))" "rget ?n ''amount'' = Some (json_of_int (tx_amount t))" "rget ?n ''date'' = Some (JStr (tx_date t))"
    "rget ?n ''note'' = Some (JStr (tx_note t))" "rget ?n ''placeId'' = Some (json_option JStr (tx_place t))" "rget ?n ''fiscalReceipt'' = Some (json_option json_of_receipt (tx_receipt t))"
    by simp_all
  show "transaction_from False 2 ctx (Some (JObj ?m)) = Inr t"
    by (simp only: transaction_from_def tagged_keys_def wrong_type_def if_False o(1) and_then_simps i(1) get f r prod.case simp_thms) simp
  have "rget ?n ''type'' = Some (JStr ''transaction'')" by simp
  then show "transaction_from True 2 ctx (Some (JObj ?n)) = Inr t"
    by (simp only: transaction_from_def tagged_keys_def wrong_type_def if_False if_True o(2) and_then_simps i(2) get' f r prod.case simp_thms) simp
qed

end
