(* ===== verification/BudgetSums.thy ===== *)
theory BudgetSums
  imports BudgetRecords
begin

text \<open>
  Whole budgets: when references are accepted, what the running sums of the validation add up to, and that
  neither depends on the order of the records. Valid budgets are read back from their value.
\<close>

section \<open>References\<close>

definition references_ok :: "budget \<Rightarrow> budget_transaction \<Rightarrow> bool" where
  "references_ok d t \<longleftrightarrow>
     (case (account_at (tx_account t) d, category_at (tx_category t) d) of
        (Some a, Some c) \<Rightarrow> bc_kind c = tx_kind t \<and> (case tx_place t of None \<Rightarrow> True | Some p \<Rightarrow> p \<in> set (map bp_id (bd_places d)))
          \<and> (case tx_receipt t of None \<Rightarrow> True
             | Some r \<Rightarrow> ba_currency a = ''RUB'' \<and> fr_total r = tx_amount t \<and> (fr_operation r = 1 \<longrightarrow> tx_kind t = Expense) \<and> (fr_operation r = 2 \<longrightarrow> tx_kind t = Income))
      | _ \<Rightarrow> False)"

definition receipt_keys_of :: "budget_transaction list \<Rightarrow> (string \<times> nat \<times> nat) list" where
  "receipt_keys_of ts = map receipt_key (List.map_filter tx_receipt ts)"

lemma receipt_keys_simps [simp]: "receipt_keys_of [] = []"
  "receipt_keys_of (t # ts) = (case tx_receipt t of None \<Rightarrow> receipt_keys_of ts | Some r \<Rightarrow> receipt_key r # receipt_keys_of ts)"
  by (simp_all add: receipt_keys_of_def map_filter_simps split: option.split)

lemma check_references_iff:
  "check_references ctx d t seen = Inr x \<longleftrightarrow> references_ok d t \<and>
     (case tx_receipt t of None \<Rightarrow> x = seen | Some r \<Rightarrow> map_of seen (receipt_key r) = None \<and> x = AList.update (receipt_key r) (tx_id t) seen)"
  by (auto simp: check_references_def references_ok_def split: option.splits)

lemma fold_references_iff:
  "(\<exists>x. fold_sum (check_references ctx d) ts seen = Inr x) \<longleftrightarrow>
     list_all (references_ok d) ts \<and> distinct (receipt_keys_of ts) \<and> set (receipt_keys_of ts) \<inter> fst ` set seen = {}"
proof (induction ts arbitrary: seen)
  case (Cons t ts)
  show ?case
  proof (cases "tx_receipt t")
    case None
    then show ?thesis by (simp add: and_then_Inr check_references_iff) (metis Cons.IH)
  next
    case (Some r)
    have "fst ` set (AList.update (receipt_key r) (tx_id t) seen) = insert (receipt_key r) (fst ` set seen)"
      using dom_update [of "receipt_key r" "tx_id t" seen] by simp
    then show ?thesis using Some by (auto simp: and_then_Inr check_references_iff map_of_eq_None_iff Cons.IH)
  qed
qed simp

definition all_references_ok :: "budget \<Rightarrow> bool" where
  "all_references_ok d \<longleftrightarrow> distinct (map ba_id (bd_accounts d)) \<and> distinct (map bc_id (bd_categories d)) \<and> distinct (map bp_id (bd_places d))
     \<and> distinct (map tx_id (bd_transactions d)) \<and> list_all (references_ok d) (bd_transactions d) \<and> distinct (receipt_keys_of (bd_transactions d))"

lemma validate_references_iff: "validate_references ctx d = Inr u \<longleftrightarrow> all_references_ok d"
  using fold_references_iff [of ctx d "bd_transactions d" "[]"]
  by (auto simp: validate_references_def all_references_ok_def and_then_Inr unique_ids_iff)

section \<open>Sums\<close>

definition currency_of :: "budget \<Rightarrow> budget_transaction \<Rightarrow> string option" where
  "currency_of d t = map_option ba_currency (account_at (tx_account t) d)"

definition kind_sum :: "budget \<Rightarrow> budget_transaction list \<Rightarrow> transaction_kind \<Rightarrow> string \<Rightarrow> string \<Rightarrow> int" where
  "kind_sum d ts k m c = sum_list (map tx_amount (filter (\<lambda>t. tx_kind t = k \<and> month_of t = m \<and> currency_of d t = Some c) ts))"

definition category_sum :: "budget \<Rightarrow> budget_transaction list \<Rightarrow> string \<Rightarrow> string \<Rightarrow> string \<Rightarrow> int" where
  "category_sum d ts m i c = sum_list (map tx_amount (filter (\<lambda>t. tx_category t = i \<and> month_of t = m \<and> currency_of d t = Some c) ts))"

definition balance_of :: "budget_transaction list \<Rightarrow> budget_account \<Rightarrow> int" where
  "balance_of ts a = ba_opening a + sum_list (map signed_amount (filter (\<lambda>t. tx_account t = ba_id a) ts))"

definition items_sum :: "budget_transaction \<Rightarrow> int" where
  "items_sum t = sum_list (map bi_total (tx_items t))"

definition within :: "budget \<Rightarrow> budget_transaction list \<Rightarrow> bool" where
  "within d ts \<longleftrightarrow> (\<forall>k m c. kind_sum d ts k m c \<le> max_safe) \<and> (\<forall>m i c. category_sum d ts m i c \<le> max_safe) \<and> (\<forall>t \<in> set ts. items_sum t \<le> max_safe)"

definition amounts_ok :: "budget_transaction list \<Rightarrow> bool" where
  "amounts_ok ts \<longleftrightarrow> (\<forall>t \<in> set ts. 0 < tx_amount t \<and> (\<forall>i \<in> set (tx_items t). 0 \<le> bi_total i))"

lemma sum_filter_nonneg: "amounts_ok ts \<Longrightarrow> 0 \<le> sum_list (map tx_amount (filter P ts))"
  by (rule sum_list_nonneg) (auto simp: amounts_ok_def less_imp_le)

lemma kind_sum_nonneg: "amounts_ok ts \<Longrightarrow> 0 \<le> kind_sum d ts k m c"
  by (simp add: kind_sum_def sum_filter_nonneg)

lemma category_sum_nonneg: "amounts_ok ts \<Longrightarrow> 0 \<le> category_sum d ts m i c"
  by (simp add: category_sum_def sum_filter_nonneg)

lemma amounts_ok_append [simp]: "amounts_ok (xs @ ys) \<longleftrightarrow> amounts_ok xs \<and> amounts_ok ys"
  by (auto simp: amounts_ok_def)

lemma kind_sum_append [simp]: "kind_sum d (xs @ ys) k m c = kind_sum d xs k m c + kind_sum d ys k m c"
  by (simp add: kind_sum_def)

lemma category_sum_append [simp]: "category_sum d (xs @ ys) m i c = category_sum d xs m i c + category_sum d ys m i c"
  by (simp add: category_sum_def)

lemma within_append: "within d (xs @ ys) \<Longrightarrow> amounts_ok ys \<Longrightarrow> within d xs"
  unfolding within_def kind_sum_append category_sum_append
  by (metis Un_iff add_increasing2 category_sum_nonneg kind_sum_nonneg order_trans order_refl set_append)

lemma add_items_iff: "\<forall>i \<in> set items. 0 \<le> bi_total i \<Longrightarrow> (\<exists>n. add_items ctx items = Inr n) \<longleftrightarrow> sum_list (map bi_total items) \<le> max_safe"
proof -
  assume pos: "\<forall>i \<in> set items. 0 \<le> bi_total i"
  have "(\<exists>n. fold_sum (\<lambda>i n. checked_add n (bi_total i) c) items n0 = Inr n) \<longleftrightarrow> n0 + sum_list (map bi_total items) \<le> max_safe"
    if "0 \<le> n0" "n0 \<le> max_safe" for n0 c
    using that pos
  proof (induction items arbitrary: n0)
    case (Cons i items)
    have rest: "0 \<le> sum_list (map bi_total items)" using Cons.prems(3) by (intro sum_list_nonneg) auto
    show ?case
    proof (cases "n0 + bi_total i \<le> max_safe")
      case True
      have "is_safe (n0 + bi_total i)" using True Cons.prems by (simp add: is_safe_def max_safe_def)
      then have "fold_sum (\<lambda>i n. checked_add n (bi_total i) c) (i # items) n0 = fold_sum (\<lambda>i n. checked_add n (bi_total i) c) items (n0 + bi_total i)"
        by (simp add: checked_add_def)
      then show ?thesis using Cons.IH [of "n0 + bi_total i"] True Cons.prems by (simp add: add.assoc)
    next
      case False
      then have "\<not> is_safe (n0 + bi_total i)" by (simp add: is_safe_def)
      then show ?thesis using False rest by (simp add: checked_add_def)
    qed
  qed simp
  from this [of 0] show ?thesis by (simp add: add_items_def max_safe_def)
qed

text \<open>The running sums are the sums of the transactions seen.\<close>

definition sums_match :: "budget \<Rightarrow> budget_transaction list \<Rightarrow> sums \<Rightarrow> bool" where
  "sums_match d ts s \<longleftrightarrow> map fst (su_balances s) = map ba_id (bd_accounts d) \<and> (\<forall>a \<in> set (bd_accounts d). get0 (su_balances s) (ba_id a) = balance_of ts a)
     \<and> (\<forall>m c. get0 (su_income s) (m, c) = kind_sum d ts Income m c) \<and> (\<forall>m c. get0 (su_expense s) (m, c) = kind_sum d ts Expense m c)
     \<and> (\<forall>m i c. get0 (su_category s) (m, i, c) = category_sum d ts m i c)"

lemma get0_update [simp]: "get0 (AList.update k n m) l = (if l = k then n else get0 m l)"
  by (simp add: get0_def update_conv)

lemma account_at_Some: "distinct (map ba_id (bd_accounts d)) \<Longrightarrow> account_at i d = Some a \<longleftrightarrow> a \<in> set (bd_accounts d) \<and> ba_id a = i"
  unfolding account_at_def by (auto simp: find_Some_iff in_set_conv_nth distinct_conv_nth)

lemma balance_of_snoc [simp]: "balance_of (ts @ [t]) a = balance_of ts a + (if tx_account t = ba_id a then signed_amount t else 0)"
  by (simp add: balance_of_def)

lemma kind_sum_single [simp]: "kind_sum d [t] k m c = (if tx_kind t = k \<and> month_of t = m \<and> currency_of d t = Some c then tx_amount t else 0)"
  by (simp add: kind_sum_def)

lemma category_sum_single [simp]: "category_sum d [t] m i c = (if tx_category t = i \<and> month_of t = m \<and> currency_of d t = Some c then tx_amount t else 0)"
  by (simp add: category_sum_def)

lemma add_sums_step:
  assumes "sums_match d ts s" and "within d ts" and "amounts_ok (ts @ [t])" and "distinct (map ba_id (bd_accounts d))" and "account_at (tx_account t) d = Some a"
  shows "(\<exists>s'. add_sums ctx d t s = Inr s') \<longleftrightarrow> within d (ts @ [t])" "add_sums ctx d t s = Inr s' \<Longrightarrow> sums_match d (ts @ [t]) s'"
proof -
  let ?m = "month_of t" and ?c = "ba_currency a" and ?i = "tx_category t"
  have a: "a \<in> set (bd_accounts d)" "ba_id a = tx_account t" using assms(4,5) account_at_Some by blast+
  have cur: "currency_of d t = Some ?c" using assms(5) by (simp add: currency_of_def)
  have pos: "amounts_ok ts" "0 < tx_amount t" "\<forall>i \<in> set (tx_items t). 0 \<le> bi_total i" using assms(3) by (simp_all add: amounts_ok_def)
  have bounds: "0 \<le> kind_sum d ts k m c" "kind_sum d ts k m c \<le> max_safe" "0 \<le> category_sum d ts m i c" "category_sum d ts m i c \<le> max_safe" for k m i c
    using kind_sum_nonneg [OF pos(1)] category_sum_nonneg [OF pos(1)] assms(2) by (auto simp: within_def)
  have sums: "get0 (su_income s) (?m, ?c) = kind_sum d ts Income ?m ?c" "get0 (su_expense s) (?m, ?c) = kind_sum d ts Expense ?m ?c"
    "get0 (su_category s) (?m, ?i, ?c) = category_sum d ts ?m ?i ?c" using assms(1) by (simp_all add: sums_match_def)
  have grow: "checked_add n (tx_amount t) c' = (if n + tx_amount t \<le> max_safe then Inr (n + tx_amount t) else Inl (MoneyOverflow (c' @ '' exceeds the safe integer range'')))"
    if "0 \<le> n" for n c' using that pos(2) by (auto simp: checked_add_def is_safe_def max_safe_def)
  have diff: "checked_add x (- y) c' = Inr (x - y)" if "0 \<le> x" "x \<le> max_safe" "0 \<le> y" "y \<le> max_safe" for x y c'
    using that by (simp add: checked_add_def is_safe_def)
  have diff2: "checked_add x (- y - z) c' = Inr (x - y - z)" if "0 \<le> x" "x \<le> max_safe" "0 \<le> y" "0 \<le> z" "y + z \<le> max_safe" for x y z c'
    using that by (simp add: checked_add_def is_safe_def)
  have ok: "within d (ts @ [t]) \<longleftrightarrow> items_sum t \<le> max_safe \<and> kind_sum d ts (tx_kind t) ?m ?c + tx_amount t \<le> max_safe \<and> category_sum d ts ?m ?i ?c + tx_amount t \<le> max_safe"
    using assms(2) cur by (auto simp: within_def)
  note items = add_items_iff [OF pos(3), of "ctx t", folded items_sum_def]
  have run: "add_sums ctx d t s = Inr \<lparr>su_balances = AList.update (ba_id a) (get0 (su_balances s) (ba_id a) + signed_amount t) (su_balances s),
        su_income = (if tx_kind t = Income then AList.update (?m, ?c) (kind_sum d ts Income ?m ?c + tx_amount t) (su_income s) else su_income s),
        su_expense = (if tx_kind t = Income then su_expense s else AList.update (?m, ?c) (kind_sum d ts Expense ?m ?c + tx_amount t) (su_expense s)),
        su_category = AList.update (?m, ?i, ?c) (category_sum d ts ?m ?i ?c + tx_amount t) (su_category s)\<rparr>" if w: "within d (ts @ [t])"
  proof -
    obtain n where n: "add_items (ctx t) (tx_items t) = Inr n" using w ok items by blast
    show ?thesis
    proof (cases "tx_kind t")
      case Income
      then show ?thesis using n assms(5) w sums bounds ok pos(2) by (simp add: add_sums_def Let_def grow diff)
    next
      case Expense
      then show ?thesis using n assms(5) w sums bounds ok pos(2) by (simp add: add_sums_def Let_def grow diff2)
    qed
  qed
  have stop: "add_sums ctx d t s \<noteq> Inr s'" if w: "\<not> within d (ts @ [t])" for s'
  proof (cases "items_sum t \<le> max_safe")
    case True
    then obtain n where n: "add_items (ctx t) (tx_items t) = Inr n" using items by blast
    show ?thesis
    proof (cases "kind_sum d ts (tx_kind t) ?m ?c + tx_amount t \<le> max_safe")
      case kind: True
      then have "\<not> category_sum d ts ?m ?i ?c + tx_amount t \<le> max_safe" using True w ok by blast
      then show ?thesis using n assms(5) sums bounds by (auto simp: add_sums_def Let_def grow and_then_Inr split: if_splits)
    next
      case False
      then show ?thesis using n assms(5) sums bounds
        by (cases "tx_kind t") (auto simp: add_sums_def Let_def grow and_then_Inr split: if_splits)
    qed
  next
    case False
    then show ?thesis using items assms(5) by (auto simp: add_sums_def and_then_Inr)
  qed
  show "(\<exists>s'. add_sums ctx d t s = Inr s') \<longleftrightarrow> within d (ts @ [t])" using run stop by blast
  assume s': "add_sums ctx d t s = Inr s'"
  then have eq: "s' = \<lparr>su_balances = AList.update (ba_id a) (get0 (su_balances s) (ba_id a) + signed_amount t) (su_balances s),
        su_income = (if tx_kind t = Income then AList.update (?m, ?c) (kind_sum d ts Income ?m ?c + tx_amount t) (su_income s) else su_income s),
        su_expense = (if tx_kind t = Income then su_expense s else AList.update (?m, ?c) (kind_sum d ts Expense ?m ?c + tx_amount t) (su_expense s)),
        su_category = AList.update (?m, ?i, ?c) (category_sum d ts ?m ?i ?c + tx_amount t) (su_category s)\<rparr>" using trans [OF sym [OF s'] run] stop by blast
  have keys: "map fst (AList.update (ba_id a) n (su_balances s)) = map ba_id (bd_accounts d)" for n
  proof -
    have "map fst (su_balances s) = map ba_id (bd_accounts d)" using assms(1) by (simp add: sums_match_def)
    moreover from this have "ba_id a \<in> fst ` set (su_balances s)" using a(1) by (metis image_eqI image_set)
    ultimately show ?thesis using a(1) by (simp add: update_keys)
  qed
  show "sums_match d (ts @ [t]) s'"
    using assms(1) a keys cur unfolding eq sums_match_def by (cases "tx_kind t") (auto simp: get0_update)
qed

lemma fold_sums:
  assumes "sums_match d ps s" and "within d ps" and "amounts_ok (ps @ ts)" and "distinct (map ba_id (bd_accounts d))" and "\<forall>t \<in> set ts. account_at (tx_account t) d \<noteq> None"
  shows "(\<exists>s'. fold_sum (add_sums ctx d) ts s = Inr s') \<longleftrightarrow> within d (ps @ ts)" "fold_sum (add_sums ctx d) ts s = Inr s' \<Longrightarrow> sums_match d (ps @ ts) s'"
proof -
  have "((\<exists>s'. fold_sum (add_sums ctx d) ts s = Inr s') \<longleftrightarrow> within d (ps @ ts)) \<and> (\<forall>s'. fold_sum (add_sums ctx d) ts s = Inr s' \<longrightarrow> sums_match d (ps @ ts) s')"
    using assms(1-3,5)
  proof (induction ts arbitrary: ps s)
    case (Cons t ts)
    obtain a where a: "account_at (tx_account t) d = Some a" using Cons.prems(4) by auto
    have am: "amounts_ok (ps @ [t])" "amounts_ok ts" using Cons.prems(3) by (auto simp: amounts_ok_def)
    note step = add_sums_step [OF Cons.prems(1,2) am(1) assms(4) a, of ctx]
    show ?case
    proof (cases "within d (ps @ [t])")
      case True
      then obtain u where u: "add_sums ctx d t s = Inr u" using step(1) by blast
      have "sums_match d (ps @ [t]) u" using step(2) [OF u] .
      with True Cons.IH [of "ps @ [t]" u] Cons.prems(3,4) show ?thesis by (simp add: u)
    next
      case False
      then have no: "add_sums ctx d t s \<noteq> Inr u" for u using step(1) by blast
      have "\<not> within d (ps @ t # ts)" using False within_append [of d "ps @ [t]" ts] am(2) by auto
      then show ?thesis using no by (auto simp: and_then_Inr)
    qed
  qed simp
  then show "(\<exists>s'. fold_sum (add_sums ctx d) ts s = Inr s') \<longleftrightarrow> within d (ps @ ts)" "fold_sum (add_sums ctx d) ts s = Inr s' \<Longrightarrow> sums_match d (ps @ ts) s'" by blast+
qed

definition sums_ok :: "budget \<Rightarrow> bool" where
  "sums_ok d \<longleftrightarrow> within d (bd_transactions d) \<and> (\<forall>a \<in> set (bd_accounts d). is_safe (balance_of (bd_transactions d) a))"

lemma fold_balances: "(\<exists>r. fold_sum (\<lambda>(i, n) _. safe_big_int n (c i)) xs r0 = Inr r) \<longleftrightarrow> list_all (\<lambda>(i, n). is_safe n) xs"
  by (induction xs arbitrary: r0) (auto simp: and_then_Inr safe_big_int_def split: if_splits)

lemma validate_aggregate_iff:
  assumes "all_references_ok d" and "list_all transaction_ok (bd_transactions d)"
  shows "validate_aggregate_safety ctx d = Inr u \<longleftrightarrow> sums_ok d"
proof -
  have dist: "distinct (map ba_id (bd_accounts d))" using assms(1) by (simp add: all_references_ok_def)
  have at: "\<forall>t \<in> set (bd_transactions d). account_at (tx_account t) d \<noteq> None"
    using assms(1) by (auto simp: all_references_ok_def list_all_iff references_ok_def dest!: bspec split: option.splits)
  have am: "amounts_ok (bd_transactions d)" using assms(2) by (auto simp: list_all_iff amounts_ok_def transaction_ok_def item_ok_def)
  have "get0 (map (\<lambda>a. (ba_id a, ba_opening a)) (bd_accounts d)) (ba_id a) = ba_opening a" if "a \<in> set (bd_accounts d)" for a
  proof -
    have "map_of (map (\<lambda>a. (ba_id a, ba_opening a)) (bd_accounts d)) (ba_id a) = Some (ba_opening a)"
      using that dist by (intro map_of_is_SomeI) (auto simp: comp_def)
    then show ?thesis by (simp add: get0_def)
  qed
  then have first: "sums_match d [] (first_sums d)"
    by (simp add: sums_match_def first_sums_def comp_def balance_of_def kind_sum_def category_sum_def get0_def)
  have none: "within d []" by (simp add: within_def kind_sum_def category_sum_def max_safe_def)
  note run = fold_sums [OF first none, unfolded append_Nil, OF am dist at]
  have "(\<exists>r. fold_sum (\<lambda>(i, n) _. safe_big_int n (''budget data account '' @ quoted i @ '' balance'')) (su_balances s) 0 = Inr r)
      \<longleftrightarrow> (\<forall>a \<in> set (bd_accounts d). is_safe (balance_of (bd_transactions d) a))" if "sums_match d (bd_transactions d) s" for s
  proof -
    have k: "map fst (su_balances s) = map ba_id (bd_accounts d)" using that by (simp add: sums_match_def)
    then have "distinct (map fst (su_balances s))" using dist by simp
    then have "n = get0 (su_balances s) i" if "(i, n) \<in> set (su_balances s)" for i n using that by (simp add: get0_def map_of_is_SomeI)
    moreover have "fst ` set (su_balances s) = ba_id ` set (bd_accounts d)" using k by (metis image_set)
    ultimately have "list_all (\<lambda>(i, n). is_safe n) (su_balances s) \<longleftrightarrow> (\<forall>a \<in> set (bd_accounts d). is_safe (get0 (su_balances s) (ba_id a)))"
      by (fastforce simp: list_all_iff image_iff)
    then show ?thesis using that unfolding fold_balances by (simp add: sums_match_def)
  qed
  then show ?thesis
    using run by (auto simp: validate_aggregate_safety_def sums_ok_def and_then_Inr) (metis (no_types, lifting))+
qed

end
