(* ===== verification/BudgetRoundTrip.thy ===== *)
theory BudgetRoundTrip
  imports BudgetSums
begin

text \<open>
  Valid budgets: what the validation and the parser let through, whatever the order of the records, and that a valid budget
  is read back from its value and from its file.
\<close>

section \<open>Valid budgets\<close>

definition budget_ok :: "(string \<Rightarrow> nat option) \<Rightarrow> budget \<Rightarrow> bool" where
  "budget_ok dg d \<longleftrightarrow> list_all (account_ok dg) (bd_accounts d) \<and> list_all category_ok (bd_categories d) \<and> list_all place_ok (bd_places d)
     \<and> list_all transaction_ok (bd_transactions d) \<and> all_references_ok d \<and> sums_ok d"

lemma map_sum_all: "map_sum f n xs = Inr ys \<Longrightarrow> (\<And>i x y. f i x = Inr y \<Longrightarrow> P y) \<Longrightarrow> list_all P ys"
  by (auto simp: list_all_iff dest!: map_sum_each)

lemma validate_budget_ok:
  assumes "validate_budget dg v = Inr d"
  shows "budget_ok dg d"
proof -
  obtain kvs where v: "v = JObj kvs" using assms by (cases v) (simp_all add: validate_budget_def)
  obtain version where "budget_version (rget (js_object kvs) ''version'') = Some version"
    using assms by (cases "budget_version (rget (js_object kvs) ''version'')") (simp_all add: validate_budget_def v)
  with assms obtain as cs ps ts where
    a: "map_sum (\<lambda>n x. account_from dg False (''budget account '' @ show_nat n) (Some x)) 1 as = Inr (bd_accounts d)"
    and c: "map_sum (\<lambda>n x. category_from False (''budget category '' @ show_nat n) (Some x)) 1 cs = Inr (bd_categories d)"
    and p: "map_sum (\<lambda>n x. place_from False (''budget place '' @ show_nat n) (Some x)) 1 ps = Inr (bd_places d)"
    and t: "map_sum (\<lambda>n x. transaction_from False version (''budget transaction '' @ show_nat n) (Some x)) 1 ts = Inr (bd_transactions d)"
    and r: "validate_references (\<lambda>_. ''budget data'') d = Inr ()" and s: "validate_aggregate_safety (\<lambda>_. ''budget data'') d = Inr ()"
    by (auto simp: validate_budget_def v and_then_Inr Let_def simp del: map_sum.simps)
  have "list_all (account_ok dg) (bd_accounts d)" by (rule map_sum_all [OF a account_from_ok])
  moreover have "list_all category_ok (bd_categories d)" by (rule map_sum_all [OF c category_from_ok])
  moreover have "list_all place_ok (bd_places d)" by (rule map_sum_all [OF p place_from_ok])
  moreover have t: "list_all transaction_ok (bd_transactions d)" by (rule map_sum_all [OF t transaction_from_ok])
  moreover have ok: "all_references_ok d" using r by (simp add: validate_references_iff)
  moreover have "sums_ok d" using s by (simp add: validate_aggregate_iff [OF ok t])
  ultimately show ?thesis by (simp add: budget_ok_def)
qed

lemma checks_pass:
  assumes "budget_ok dg d"
  shows "validate_references ctx d = Inr ()" "validate_aggregate_safety ctx d = Inr ()"
  using assms validate_references_iff [of ctx d "()"] validate_aggregate_iff [of d ctx "()"] by (simp_all add: budget_ok_def)

definition records_ok :: "(string \<Rightarrow> nat option) \<Rightarrow> budget \<Rightarrow> bool" where
  "records_ok dg d \<longleftrightarrow> list_all (account_ok dg) (bd_accounts d) \<and> list_all category_ok (bd_categories d) \<and> list_all place_ok (bd_places d) \<and> list_all transaction_ok (bd_transactions d)"

text \<open>Valid records are read back; the checks on the whole remain.\<close>

lemma validate_records:
  assumes "records_ok dg d"
  shows "validate_budget dg (json_of_budget d) = and_then (validate_references (\<lambda>_. ''budget data'') d) (\<lambda>_. and_then (validate_aggregate_safety (\<lambda>_. ''budget data'') d) (\<lambda>_. Inr d))"
proof -
  let ?kvs = "[(''version'', JNum 2000), (''accounts'', JArr (map (JObj \<circ> account_members) (bd_accounts d))),
     (''categories'', JArr (map (JObj \<circ> category_members) (bd_categories d))), (''places'', JArr (map (JObj \<circ> place_members) (bd_places d))),
     (''transactions'', JArr (map (JObj \<circ> transaction_members) (bd_transactions d)))]"
  have "map_sum (\<lambda>n x. account_from dg False (''budget account '' @ show_nat n) (Some x)) 1 (map (JObj \<circ> account_members) (bd_accounts d)) = Inr (bd_accounts d)"
    "map_sum (\<lambda>n x. category_from False (''budget category '' @ show_nat n) (Some x)) 1 (map (JObj \<circ> category_members) (bd_categories d)) = Inr (bd_categories d)"
    "map_sum (\<lambda>n x. place_from False (''budget place '' @ show_nat n) (Some x)) 1 (map (JObj \<circ> place_members) (bd_places d)) = Inr (bd_places d)"
    "map_sum (\<lambda>n x. transaction_from False 2 (''budget transaction '' @ show_nat n) (Some x)) 1 (map (JObj \<circ> transaction_members) (bd_transactions d)) = Inr (bd_transactions d)"
    using assms by (auto intro!: map_sum_printed account_printed category_printed place_printed transaction_printed simp: records_ok_def list_all_iff)
  moreover have "object_with_keys (Some (JObj ?kvs)) (budget_keys 2) ''budget data'' = Inr ?kvs" by (rule object_printed; simp add: budget_keys_def)
  moreover have eta: "\<lparr>bd_accounts = bd_accounts d, bd_categories = bd_categories d, bd_places = bd_places d, bd_transactions = bd_transactions d\<rparr> = d" by simp
  ultimately show ?thesis
    unfolding validate_budget_def json_of_budget_def
    by (simp add: budget_version_def array_field_def Let_def eta del: map_sum.simps)
qed

lemma validate_printed: "budget_ok dg d \<Longrightarrow> validate_budget dg (json_of_budget d) = Inr d"
  using validate_records [of dg d] checks_pass [of dg d] by (simp add: budget_ok_def records_ok_def)

section \<open>The order of the records\<close>

definition same_records :: "budget \<Rightarrow> budget \<Rightarrow> bool" where
  "same_records d e \<longleftrightarrow> mset (bd_accounts d) = mset (bd_accounts e) \<and> mset (bd_categories d) = mset (bd_categories e)
     \<and> mset (bd_places d) = mset (bd_places e) \<and> mset (bd_transactions d) = mset (bd_transactions e)"

lemma same_distinct: "mset xs = mset ys \<Longrightarrow> distinct (map f xs) \<longleftrightarrow> distinct (map f ys)"
  by (metis mset_eq_imp_distinct_iff mset_map)

lemma find_same: "mset xs = mset ys \<Longrightarrow> distinct (map f xs) \<Longrightarrow> find (\<lambda>x. f x = i) xs = find (\<lambda>x. f x = i) ys"
proof -
  assume m: "mset xs = mset ys" and d: "distinct (map f xs)"
  have one: "distinct (map f zs) \<Longrightarrow> find (\<lambda>x. f x = i) zs = Some z \<longleftrightarrow> z \<in> set zs \<and> f z = i" for zs z
    by (induction zs) (auto simp: image_iff)
  have "set xs = set ys" using m by (rule mset_eq_setD)
  then have "find (\<lambda>x. f x = i) xs = Some z \<longleftrightarrow> find (\<lambda>x. f x = i) ys = Some z" for z
    using one [of xs z] one [of ys z] d same_distinct [OF m, of f] by simp
  then show ?thesis by (metis option.exhaust)
qed

lemma same_records_set:
  assumes "same_records d e"
  shows "set (bd_accounts d) = set (bd_accounts e)" "set (bd_categories d) = set (bd_categories e)" "set (bd_places d) = set (bd_places e)" "set (bd_transactions d) = set (bd_transactions e)"
  using assms by (auto simp: same_records_def dest: mset_eq_setD)

lemma sum_filter_same: "mset xs = mset ys \<Longrightarrow> sum_list (map f (filter P xs)) = sum_list (map (f :: 'a \<Rightarrow> int) (filter P ys))"
  by (metis mset_filter mset_map sum_mset_sum_list)

lemma same_records_ok:
  assumes "same_records d e" and "budget_ok dg d"
  shows "budget_ok dg e"
proof -
  note sets = same_records_set [OF assms(1)]
  have m: "mset (bd_accounts d) = mset (bd_accounts e)" "mset (bd_categories d) = mset (bd_categories e)" "mset (bd_places d) = mset (bd_places e)" "mset (bd_transactions d) = mset (bd_transactions e)"
    using assms(1) by (simp_all add: same_records_def)
  have ok: "all_references_ok d" "sums_ok d" using assms(2) by (simp_all add: budget_ok_def)
  have at: "account_at i d = account_at i e" "category_at i d = category_at i e" for i
    using ok(1) find_same [OF m(1), of ba_id i] find_same [OF m(2), of bc_id i] by (simp_all add: account_at_def category_at_def all_references_ok_def)
  have refs: "references_ok e t \<longleftrightarrow> references_ok d t" for t 
  proof -
    have "set (map bp_id (bd_places d)) = set (map bp_id (bd_places e))" using sets(3) by simp
    then show ?thesis unfolding references_ok_def at by (simp only:)
  qed
  have "mset (receipt_keys_of xs) = mset (receipt_keys_of ys)" if "mset xs = mset ys" for xs ys
  proof -
    have "mset (receipt_keys_of zs) = \<Sum>\<^sub># (image_mset (\<lambda>t. case tx_receipt t of None \<Rightarrow> {#} | Some r \<Rightarrow> {#receipt_key r#}) (mset zs))" for zs
      by (induction zs) (auto split: option.split)
    then show ?thesis using that by simp
  qed
  then have "distinct (receipt_keys_of (bd_transactions e))" using ok(1) m(4) by (metis all_references_ok_def mset_eq_imp_distinct_iff)
  then have "all_references_ok e"
    using ok(1) refs sets(4) same_distinct [OF m(1), of ba_id] same_distinct [OF m(2), of bc_id] same_distinct [OF m(3), of bp_id] same_distinct [OF m(4), of tx_id]
    by (simp add: all_references_ok_def list_all_iff)
  moreover have "currency_of e t = currency_of d t" for t by (simp add: currency_of_def at)
  then have "kind_sum e (bd_transactions e) k mo c = kind_sum d (bd_transactions d) k mo c" "category_sum e (bd_transactions e) mo i c = category_sum d (bd_transactions d) mo i c"
    for k mo i c using sum_filter_same [OF m(4)] by (simp_all add: kind_sum_def category_sum_def)
  moreover have "balance_of (bd_transactions e) a = balance_of (bd_transactions d) a" for a using sum_filter_same [OF m(4)] by (simp add: balance_of_def)
  ultimately show ?thesis
    using assms(2) sets by (simp add: budget_ok_def list_all_iff sums_ok_def within_def)
qed

definition sorted_budget :: "budget \<Rightarrow> budget" where
  "sorted_budget d = \<lparr>bd_accounts = sort_key ba_id (bd_accounts d), bd_categories = sort_key bc_id (bd_categories d),
     bd_places = sort_key bp_id (bd_places d), bd_transactions = sort_key tx_id (bd_transactions d)\<rparr>"

lemma sorted_budget_ok: "budget_ok dg d \<Longrightarrow> budget_ok dg (sorted_budget d)"
  by (rule same_records_ok [of d]) (simp_all add: same_records_def sorted_budget_def)

section \<open>The file\<close>

text \<open>JSON text on one line: no character below the space.\<close>

definition printable :: "string \<Rightarrow> bool" where
  "printable s \<longleftrightarrow> list_all (\<lambda>c. 32 \<le> (of_char c :: nat)) s"

lemma printable_simps [simp]: "printable []" "printable (c # s) \<longleftrightarrow> 32 \<le> (of_char c :: nat) \<and> printable s" "printable (s @ t) \<longleftrightarrow> printable s \<and> printable t"
  by (simp_all add: printable_def)

lemma printable_digit: "k < 10 \<Longrightarrow> 32 \<le> (of_char (char_of (48 + k :: nat)) :: nat)"
  by simp

lemma printable_hex: "k < 16 \<Longrightarrow> 32 \<le> (of_char (hex_digit k) :: nat)"
  by (cases "k < 10") (simp_all add: hex_digit.simps)

lemma printable_escape: "printable (escape_char c)"
proof -
  have "32 \<le> (of_char (hex_digit ((of_char c :: nat) div 16)) :: nat)" "32 \<le> (of_char (hex_digit ((of_char c :: nat) mod 16)) :: nat)"
  proof -
    have "(of_char c :: nat) < 256" by simp
    then show "32 \<le> (of_char (hex_digit ((of_char c :: nat) div 16)) :: nat)" by (intro printable_hex less_mult_imp_div_less) simp
    show "32 \<le> (of_char (hex_digit ((of_char c :: nat) mod 16)) :: nat)" by (rule printable_hex) simp
  qed
  then show ?thesis by (auto simp: escape_char_def Let_def backslash_def dquote_def simp del: hex_digit.simps)
qed

lemma printable_quote: "printable (quote_json s)"
proof -
  have "printable (concat (map escape_char s))" by (induction s) (simp_all add: printable_escape)
  then show ?thesis by (simp add: quote_json_def dquote_def)
qed

lemma printable_show_nat: "printable (show_nat n)"
  using show_nat_digits [of n] unfolding printable_def by (rule list.pred_mono_strong) (auto simp: is_digit_char_def in_range_def)

lemma printable_show_num: "printable (show_num k)"
proof -
  have "printable (show_fraction f)" if "f < 1000" for f
    using that by (auto simp: show_fraction_def Let_def)
  then show ?thesis by (simp add: show_num_def printable_show_nat)
qed

lemma printable_join: "printable sep \<Longrightarrow> list_all printable ss \<Longrightarrow> printable (join sep ss)"
  by (induction sep ss rule: join.induct) simp_all

lemma printable_json: "printable (show_json (\<lambda>_. []) '':'' l v)"
proof (induction "\<lambda>_ :: nat. [] :: string" "'':''" l v rule: show_json.induct)
  case (5 l vs)
  then show ?case by (auto simp: list_all_iff intro!: printable_join)
next
  case (6 l kvs)
  then show ?case by (auto simp: list_all_iff printable_quote intro!: printable_join)
qed (simp_all add: printable_show_num printable_quote)

lemma printable_no_newline: "printable s \<Longrightarrow> char_of (10 :: nat) \<notin> set s" "printable s \<Longrightarrow> without_cr s = s"
proof -
  assume s: "printable s"
  show "char_of (10 :: nat) \<notin> set s" using s by (auto simp: printable_def list_all_iff)
  have "last s \<noteq> char_of (13 :: nat)" if "s \<noteq> []" 
  proof
    assume "last s = char_of (13 :: nat)"
    moreover have "32 \<le> (of_char (last s) :: nat)" using s last_in_set [OF that] by (simp add: printable_def list_all_iff)
    ultimately show False by simp
  qed
  then show "without_cr s = s" by (auto simp: without_cr_def)
qed

lemma file_lines_join:
  assumes "ls \<noteq> []" and "list_all printable ls" and "list_all (\<lambda>l. l \<noteq> []) ls"
  shows "file_lines (join [char_of (10 :: nat)] ls @ [char_of (10 :: nat)]) = ls"
proof -
  have "join [c] ls @ [c] = join [c] (ls @ [[]])" if "ls \<noteq> []" for ls c
    using that by (induction "[c]" ls rule: join.induct) simp_all
  moreover have "list_all (\<lambda>l. char_of (10 :: nat) \<notin> set l) (ls @ [[]])" using assms(2) printable_no_newline(1) by (auto simp: list_all_iff)
  ultimately have "split_on (char_of (10 :: nat)) (join [char_of (10 :: nat)] ls @ [char_of (10 :: nat)]) = ls @ [[]]"
    using assms(1) by (simp add: split_join)
  moreover have "map without_cr ls = ls" using assms(2) printable_no_newline(2) by (simp add: list_all_iff map_idI)
  ultimately show ?thesis by (simp add: file_lines_def)
qed

lemma record_line_printable: "printable (record_line t ms)" "record_line t ms \<noteq> []" "[] \<noteq> record_line t ms"
proof -
  show "printable (record_line t ms)" by (simp add: record_line_def stringify_def printable_json del: show_json.simps)
  show "record_line t ms \<noteq> []" "[] \<noteq> record_line t ms" by (simp_all add: record_line_def stringify_def)
qed

lemma parse_record_line: "parse_line n (record_line t ms) = Inr (JObj ((''type'', JStr t) # ms))"
  using record_line_printable(2) [of t ms] by (simp add: parse_line_def record_line_def)

lemma type_of_record: "distinct (''type'' # rkeys ms) \<Longrightarrow> type_of (JObj ((''type'', JStr t) # ms)) = Some (JStr t)"
  by (simp add: type_of_def)

lemma fold_sum_append: "fold_sum f (xs @ ys) acc = and_then (fold_sum f xs acc) (fold_sum f ys)"
  by (induction xs arbitrary: acc) (simp_all add: and_then_def split: sum.split)

lemma enumerate_append: "enumerate n (xs @ ys) = enumerate n xs @ enumerate (n + length xs) ys"
  by (simp add: enumerate_append_eq)

text \<open>
  A kind of line whose records are only collected: what one line does to the data read so far. The accounts, categories and
  places of a file are such lines.
\<close>

locale line_kind =
  fixes dg :: "string \<Rightarrow> nat option" and tag :: string and members :: "'r \<Rightarrow> json rec" and idf :: "'r \<Rightarrow> string" and ok :: "'r \<Rightarrow> bool"
    and recs :: "budget \<Rightarrow> 'r list" and add :: "'r list \<Rightarrow> budget \<Rightarrow> budget"
  assumes line: "ok r \<Longrightarrow> idf r \<notin> set (map idf (recs d)) \<Longrightarrow> parse_budget_line dg 2 (n, record_line tag (members r)) (d, ls) = Inr (add [r] d, ls)"
    and recs_add: "recs (add rs d) = recs d @ rs" and add_nil: "add [] d = d" and add_add: "add ss (add rs d) = add (rs @ ss) d"
begin

lemma lines_read:
  "list_all ok rs \<Longrightarrow> distinct (map idf (recs d @ rs)) \<Longrightarrow>
     fold_sum (parse_budget_line dg 2) (enumerate n (map (record_line tag \<circ> members) rs)) (d, ls) = Inr (add rs d, ls)"
proof (induction rs arbitrary: n d)
  case (Cons r rs)
  then have "parse_budget_line dg 2 (n, record_line tag (members r)) (d, ls) = Inr (add [r] d, ls)" by (intro line) auto
  then show ?case using Cons.IH [of "add [r] d" "Suc n"] Cons.prems by (simp add: recs_add add_add)
qed (simp add: add_nil)

end

interpretation account_line: line_kind dg "''account''" account_members ba_id "account_ok dg" bd_accounts "\<lambda>rs d. d\<lparr>bd_accounts := bd_accounts d @ rs\<rparr>" for dg
proof
  fix r n ls and d :: budget assume "account_ok dg r" and "ba_id r \<notin> set (map ba_id (bd_accounts d))"
  moreover have "type_of (JObj ((''type'', JStr ''account'') # account_members r)) = Some (JStr ''account'')" by (rule type_of_record) (simp add: account_members_def)
  ultimately show "parse_budget_line dg 2 (n, record_line ''account'' (account_members r)) (d, ls) = Inr (d\<lparr>bd_accounts := bd_accounts d @ [r]\<rparr>, ls)"
    by (simp add: parse_budget_line_def parse_record_line account_printed)
qed simp_all

interpretation category_line: line_kind dg "''category''" category_members bc_id category_ok bd_categories "\<lambda>rs d. d\<lparr>bd_categories := bd_categories d @ rs\<rparr>" for dg
proof
  fix r n ls and d :: budget assume "category_ok r" and "bc_id r \<notin> set (map bc_id (bd_categories d))"
  moreover have "type_of (JObj ((''type'', JStr ''category'') # category_members r)) = Some (JStr ''category'')" by (rule type_of_record) (simp add: category_members_def)
  ultimately show "parse_budget_line dg 2 (n, record_line ''category'' (category_members r)) (d, ls) = Inr (d\<lparr>bd_categories := bd_categories d @ [r]\<rparr>, ls)"
    by (simp add: parse_budget_line_def parse_record_line category_printed)
qed simp_all

interpretation place_line: line_kind dg "''place''" place_members bp_id place_ok bd_places "\<lambda>rs d. d\<lparr>bd_places := bd_places d @ rs\<rparr>" for dg
proof
  fix r n ls and d :: budget assume "place_ok r" and "bp_id r \<notin> set (map bp_id (bd_places d))"
  moreover have "type_of (JObj ((''type'', JStr ''place'') # place_members r)) = Some (JStr ''place'')" by (rule type_of_record) (simp add: place_members_def)
  ultimately show "parse_budget_line dg 2 (n, record_line ''place'' (place_members r)) (d, ls) = Inr (d\<lparr>bd_places := bd_places d @ [r]\<rparr>, ls)"
    by (simp add: parse_budget_line_def parse_record_line place_printed)
qed simp_all

lemma transaction_lines:
  assumes "list_all transaction_ok ts" and "distinct (map tx_id ts)" and "fst ` set ls \<inter> tx_id ` set ts = {}"
  shows "\<exists>ls'. fold_sum (parse_budget_line dg 2) (enumerate n (map (record_line ''transaction'' \<circ> transaction_members) ts)) (d, ls)
    = Inr (d\<lparr>bd_transactions := bd_transactions d @ ts\<rparr>, ls')"
  using assms
proof (induction ts arbitrary: n d ls)
  case (Cons t ts)
  have "type_of (JObj ((''type'', JStr ''transaction'') # transaction_members t)) = Some (JStr ''transaction'')" by (rule type_of_record) (simp add: transaction_members_def)
  moreover have "map_of ls (tx_id t) = None" using Cons.prems(3) by (auto simp: map_of_eq_None_iff)
  ultimately have "parse_budget_line dg 2 (n, record_line ''transaction'' (transaction_members t)) (d, ls)
      = Inr (d\<lparr>bd_transactions := bd_transactions d @ [t]\<rparr>, AList.update (tx_id t) n ls)"
    using Cons.prems by (simp add: parse_budget_line_def parse_record_line transaction_printed)
  moreover have "fst ` set (AList.update (tx_id t) n ls) \<inter> tx_id ` set ts = {}"
    using Cons.prems(2,3) dom_update [of "tx_id t" n ls] by auto
  ultimately show ?case
    using Cons.IH [of "AList.update (tx_id t) n ls" "Suc n" "d\<lparr>bd_transactions := bd_transactions d @ [t]\<rparr>"] Cons.prems by simp
qed (auto)

lemma parse_serialized:
  assumes "budget_ok dg d"
  shows "\<exists>raw. serialize_budget dg d = Inr raw \<and> parse_budget dg raw = Inr (sorted_budget d)"
proof -
  let ?e = "sorted_budget d"
  have e: "budget_ok dg ?e" using assms by (rule sorted_budget_ok)
  define body where "body = map (record_line ''account'' \<circ> account_members) (bd_accounts ?e) @ map (record_line ''category'' \<circ> category_members) (bd_categories ?e)
     @ map (record_line ''place'' \<circ> place_members) (bd_places ?e) @ map (record_line ''transaction'' \<circ> transaction_members) (bd_transactions ?e)"
  define raw where "raw = join [char_of (10 :: nat)] (record_line ''budget'' [(''version'', JNum 2000)] # body) @ [char_of (10 :: nat)]"
  have ser: "serialize_budget dg d = Inr raw" by (simp add: serialize_budget_def validate_printed [OF assms] raw_def body_def sorted_budget_def)
  have lines: "file_lines raw = record_line ''budget'' [(''version'', JNum 2000)] # body"
    unfolding raw_def by (rule file_lines_join) (auto simp: body_def list_all_iff record_line_printable)
  have ok: "list_all (account_ok dg) (bd_accounts ?e)" "list_all category_ok (bd_categories ?e)" "list_all place_ok (bd_places ?e)" "list_all transaction_ok (bd_transactions ?e)"
    "distinct (map ba_id (bd_accounts ?e))" "distinct (map bc_id (bd_categories ?e))" "distinct (map bp_id (bd_places ?e))" "distinct (map tx_id (bd_transactions ?e))"
    using e by (simp_all add: budget_ok_def all_references_ok_def)
  obtain ls where ls: "\<And>n. \<exists>ls. fold_sum (parse_budget_line dg 2) (enumerate n body) (empty_budget, []) = Inr (?e, ls)"
  proof -
    let ?d1 = "empty_budget\<lparr>bd_accounts := bd_accounts ?e\<rparr>"
    let ?d2 = "?d1\<lparr>bd_categories := bd_categories ?e\<rparr>"
    let ?d3 = "?d2\<lparr>bd_places := bd_places ?e\<rparr>"
    have "\<exists>ls. fold_sum (parse_budget_line dg 2) (enumerate n body) (empty_budget, []) = Inr (?d3\<lparr>bd_transactions := bd_transactions ?e\<rparr>, ls)" for n
      using account_line.lines_read [OF ok(1), of empty_budget] category_line.lines_read [OF ok(2), of ?d1 dg] place_line.lines_read [OF ok(3), of ?d2 dg] transaction_lines [OF ok(4,8), of "[]" dg _ ?d3] ok(5-7)
      unfolding body_def enumerate_append fold_sum_append by (simp add: empty_budget_def)
    moreover have "?d3\<lparr>bd_transactions := bd_transactions ?e\<rparr> = ?e" by (simp add: empty_budget_def)
    ultimately show thesis using that by simp
  qed
  then obtain ls where "fold_sum (parse_budget_line dg 2) (enumerate 2 body) (empty_budget, []) = Inr (?e, ls)" by blast
  moreover have "object_with_keys (Some (JObj [(''type'', JStr ''budget''), (''version'', JNum 2000)])) [''type'', ''version''] c = Inr [(''type'', JStr ''budget''), (''version'', JNum 2000)]" for c
    by (rule object_printed) simp_all
  moreover have "raw \<noteq> []" by (simp add: raw_def)
  ultimately have "parse_budget dg raw = Inr ?e"
    using checks_pass [OF e] by (simp add: parse_budget_def lines parse_record_line budget_version_def)
  then show ?thesis using ser by blast
qed

end
