(* ===== verification/BudgetTotals.thy ===== *)
theory BudgetTotals
  imports BudgetRoundTrip
begin

text \<open>
  What the totals of a valid budget are: the balance of an account, the totals of a month and of its categories, none of which
  overflows.
\<close>

section \<open>Balances\<close>

lemma fold_balance: "fold (\<lambda>t b. if tx_account t \<noteq> i then b else b + signed_amount t) ts n = n + sum_list (map signed_amount (filter (\<lambda>t. tx_account t = i) ts))"
  by (induction ts arbitrary: n) simp_all

lemma account_balance_valid:
  assumes "budget_ok dg d"
  shows "account_balance dg d i = (case account_at i d of None \<Rightarrow> Inl (UnknownAccount i) | Some a \<Rightarrow> Inr (balance_of (bd_transactions d) a))"
proof (cases "account_at i d")
  case (Some a)
  then have a: "a \<in> set (bd_accounts d)" "ba_id a = i" using assms account_at_Some [of d i a] by (simp_all add: budget_ok_def all_references_ok_def)
  then have "is_safe (balance_of (bd_transactions d) a)" using assms by (simp add: budget_ok_def sums_ok_def)
  then show ?thesis using Some a(2) by (simp add: account_balance_def validate_printed [OF assms] fold_balance balance_of_def safe_big_int_def)
qed (simp add: account_balance_def validate_printed [OF assms])

section \<open>Months\<close>

lemma in_month_iff:
  assumes "real_date (tx_date t)" and "real_month m"
  shows "in_month m t \<longleftrightarrow> month_of t = m"
proof -
  have len: "length (tx_date t) = 10" "tx_date t ! 7 = CHR ''-''" "length m = 7" using assms by (simp_all add: real_date_def real_month_def)
  have "take 8 (tx_date t) = take 7 (tx_date t) @ [tx_date t ! 7]" using len(1) take_Suc_conv_app_nth [of 7 "tx_date t"] by simp
  then show ?thesis using len by (auto simp: in_month_def starts_with_def month_of_def)
qed

definition month_transactions :: "budget \<Rightarrow> string \<Rightarrow> budget_transaction list" where
  "month_transactions d m = filter (\<lambda>t. month_of t = m) (bd_transactions d)"

definition monthly_total_of :: "budget \<Rightarrow> budget_transaction list \<Rightarrow> string \<Rightarrow> string \<Rightarrow> monthly_total" where
  "monthly_total_of d ts m c = \<lparr>mt_currency = c, mt_income = kind_sum d ts Income m c, mt_expense = kind_sum d ts Expense m c,
     mt_balance = kind_sum d ts Income m c - kind_sum d ts Expense m c\<rparr>"

definition month_currencies :: "budget \<Rightarrow> budget_transaction list \<Rightarrow> string \<Rightarrow> string set" where
  "month_currencies d ts m = {c. \<exists>t \<in> set ts. month_of t = m \<and> currency_of d t = Some c}"

lemma month_currencies_snoc [simp]: "month_currencies d (ts @ [t]) m = month_currencies d ts m \<union> (if month_of t = m then set_option (currency_of d t) else {})"
  by (auto simp: month_currencies_def)

lemma finite_month_currencies [simp]: "finite (month_currencies d ts m)"
  by (rule finite_subset [of _ "\<Union>t \<in> set ts. set_option (currency_of d t)"]) (auto simp: month_currencies_def)

lemma kind_sum_absent: "c \<notin> month_currencies d ts m \<Longrightarrow> kind_sum d ts k m c = 0"
proof -
  assume "c \<notin> month_currencies d ts m"
  then have "filter (\<lambda>t. tx_kind t = k \<and> month_of t = m \<and> currency_of d t = Some c) ts = []" by (auto simp: filter_empty_conv month_currencies_def)
  then show ?thesis by (simp only: kind_sum_def list.map sum_list.Nil)
qed

text \<open>A record of totals: one entry for each key, with the total of the transactions seen.\<close>

definition totals_match :: "('k \<Rightarrow> 'v) \<Rightarrow> 'k set \<Rightarrow> ('k \<times> 'v) list \<Rightarrow> bool" where
  "totals_match f K totals \<longleftrightarrow> distinct (map fst totals) \<and> set (map fst totals) = K \<and> (\<forall>k \<in> K. map_of totals k = Some (f k))"

lemma totals_match_get: "totals_match f K totals \<Longrightarrow> map_of totals k = (if k \<in> K then Some (f k) else None)"
  by (auto simp: totals_match_def map_of_eq_None_iff)

lemma totals_match_update:
  assumes "totals_match f K totals" and "\<And>l. l \<noteq> k \<Longrightarrow> g l = f l" and "g k = v"
  shows "totals_match g (insert k K) (AList.update k v totals)"
  using assms dom_update [of k v totals] by (auto simp: totals_match_def distinct_update update_conv)

lemma totals_match_values:
  assumes "totals_match f K totals" and "\<And>k. key (f k) = k"
  shows "sort_key key (map snd totals) = map f (sorted_list_of_set (K :: ('k :: linorder) set))"
proof (rule sort_key_inj_key_eq)
  have k: "distinct (map fst totals)" "set (map fst totals) = K" using assms(1) by (simp_all add: totals_match_def)
  have "snd e = f (fst e)" if "e \<in> set totals" for e
  proof -
    have "map_of totals (fst e) = Some (snd e)" using map_of_is_SomeI [OF k(1), of "fst e" "snd e"] that by simp
    moreover have "fst e \<in> K" using that k(2) by auto
    ultimately show ?thesis using totals_match_get [OF assms(1), of "fst e"] by simp
  qed
  then have "map snd totals = map f (map fst totals)" by simp
  moreover have "mset (map fst totals) = mset (sorted_list_of_set K)"
    using k by (metis List.finite_set distinct_sorted_list_of_set set_eq_iff_mset_eq_distinct set_sorted_list_of_set)
  ultimately show "mset (map snd totals) = mset (map f (sorted_list_of_set K))" by (metis mset_map)
  show "inj_on key (set (map snd totals))" using assms(2) \<open>map snd totals = map f (map fst totals)\<close> by (auto simp: inj_on_def)
  show "sorted (map key (map f (sorted_list_of_set K)))" using assms(2) by (simp add: comp_def)
qed

lemma add_monthly_step:
  assumes "totals_match (monthly_total_of d ts m) (month_currencies d ts m) totals" and "within d (ts @ [t])" and "amounts_ok (ts @ [t])"
    and "real_date (tx_date t)" and "real_month m" and "account_at (tx_account t) d = Some a"
  shows "\<exists>totals'. add_monthly d m t totals = Inr totals' \<and> totals_match (monthly_total_of d (ts @ [t]) m) (month_currencies d (ts @ [t]) m) totals'"
proof (cases "month_of t = m")
  case False
  moreover have "monthly_total_of d (ts @ [t]) m = monthly_total_of d ts m" using False by (intro ext) (simp add: monthly_total_of_def)
  ultimately show ?thesis using assms(1) in_month_iff [OF assms(4,5)] by (simp add: add_monthly_def)
next
  case True
  let ?c = "ba_currency a"
  have cur: "currency_of d t = Some ?c" using assms(6) by (simp add: currency_of_def)
  let ?old = "monthly_total_of d ts m ?c" and ?new = "monthly_total_of d (ts @ [t]) m ?c"
  have total: "(case rget totals ?c of None \<Rightarrow> \<lparr>mt_currency = ?c, mt_income = 0, mt_expense = 0, mt_balance = 0\<rparr> | Some x \<Rightarrow> x) = ?old"
    using totals_match_get [OF assms(1), of ?c] kind_sum_absent [of ?c d ts m] by (auto simp: monthly_total_of_def)
  have pos: "0 \<le> kind_sum d (ts @ [t]) k m ?c" "kind_sum d (ts @ [t]) k m ?c \<le> max_safe" for k
    using kind_sum_nonneg [OF assms(3)] assms(2) by (auto simp: within_def)
  have safe: "checked_add (kind_sum d ts k m ?c) (tx_amount t) c' = Inr (kind_sum d (ts @ [t]) k m ?c)" if "tx_kind t = k" for k c'
    using pos [of k] that True cur by (simp add: checked_add_def is_safe_def max_safe_def)
  have diff: "checked_add (kind_sum d (ts @ [t]) Income m ?c) (- kind_sum d (ts @ [t]) Expense m ?c) c' = Inr (mt_balance ?new)" for c'
    using pos [of Income] pos [of Expense] unfolding monthly_total_of_def by (simp only: checked_add_def is_safe_def) simp
  have other: "kind_sum d (ts @ [t]) k m ?c = kind_sum d ts k m ?c" if "tx_kind t \<noteq> k" for k using that by simp
  have "add_monthly d m t totals = Inr (rset ?c ?new totals)"
  proof (cases "tx_kind t")
    case Income
    have "checked_add (mt_income ?old) (tx_amount t) c' = Inr (mt_income ?new)" for c' using safe [OF Income] by (simp add: monthly_total_of_def del: kind_sum_append)
    moreover have "checked_add (mt_income ?new) (- mt_expense ?old) c' = Inr (mt_balance ?new)" for c'
      using diff [of c'] other [of Expense] Income by (simp add: monthly_total_of_def del: kind_sum_append)
    moreover have "?old\<lparr>mt_income := mt_income ?new, mt_balance := mt_balance ?new\<rparr> = ?new" using other [of Expense] Income by (simp add: monthly_total_of_def del: kind_sum_append)
    ultimately show ?thesis using True in_month_iff [OF assms(4,5)] assms(6) Income by (simp add: add_monthly_def Let_def total)
  next
    case Expense
    have "checked_add (mt_expense ?old) (tx_amount t) c' = Inr (mt_expense ?new)" for c' using safe [OF Expense] by (simp add: monthly_total_of_def del: kind_sum_append)
    moreover have "checked_add (mt_income ?old) (- mt_expense ?new) c' = Inr (mt_balance ?new)" for c'
      using diff [of c'] other [of Income] Expense by (simp add: monthly_total_of_def del: kind_sum_append)
    moreover have "?old\<lparr>mt_expense := mt_expense ?new, mt_balance := mt_balance ?new\<rparr> = ?new" using other [of Income] Expense by (simp add: monthly_total_of_def del: kind_sum_append)
    ultimately show ?thesis using True in_month_iff [OF assms(4,5)] assms(6) Expense by (simp add: add_monthly_def Let_def total)
  qed
  moreover have "monthly_total_of d (ts @ [t]) m c = monthly_total_of d ts m c" if "c \<noteq> ?c" for c using that cur by (simp add: monthly_total_of_def)
  then have "totals_match (monthly_total_of d (ts @ [t]) m) (insert ?c (month_currencies d ts m)) (rset ?c ?new totals)"
    by (intro totals_match_update [OF assms(1)]) simp_all
  moreover have "month_currencies d (ts @ [t]) m = insert ?c (month_currencies d ts m)" using True cur by simp
  ultimately show ?thesis by simp
qed

text \<open>The fold of a step that keeps the totals of what it has seen.\<close>

lemma fold_totals:
  assumes step: "\<And>ps t totals. set (ps @ [t]) \<subseteq> set ts \<Longrightarrow> within d (ps @ [t]) \<Longrightarrow> amounts_ok (ps @ [t]) \<Longrightarrow> totals_match (F ps) (K ps) totals \<Longrightarrow>
      \<exists>totals'. f t totals = Inr totals' \<and> totals_match (F (ps @ [t])) (K (ps @ [t])) totals'"
    and "within d ts" and "amounts_ok ts" and "totals_match (F []) (K []) []"
  shows "\<exists>totals. fold_sum f ts [] = Inr totals \<and> totals_match (F ts) (K ts) totals"
proof -
  have "\<exists>totals'. fold_sum f qs totals = Inr totals' \<and> totals_match (F (ps @ qs)) (K (ps @ qs)) totals'"
    if "ts = ps @ qs" "totals_match (F ps) (K ps) totals" for ps qs totals
    using that
  proof (induction qs arbitrary: ps totals)
    case (Cons t qs)
    have am: "amounts_ok qs" "amounts_ok (ps @ [t])" using assms(3) Cons.prems(1) by (auto simp: amounts_ok_def)
    have "ts = (ps @ [t]) @ qs" using Cons.prems(1) by simp
    then have "within d ((ps @ [t]) @ qs)" using assms(2) by (simp only:)
    then have w: "within d (ps @ [t])" "amounts_ok (ps @ [t])" "set (ps @ [t]) \<subseteq> set ts"
      using within_append am Cons.prems(1) by auto
    obtain totals1 where one: "f t totals = Inr totals1" "totals_match (F (ps @ [t])) (K (ps @ [t])) totals1" using step [OF w(3,1,2) Cons.prems(2)] by blast
    show ?case using Cons.IH [of "ps @ [t]" totals1] Cons.prems(1) one by simp
  qed simp
  from this [of "[]" ts "[]"] assms(4) show ?thesis by simp
qed

lemma transaction_facts:
  assumes "budget_ok dg d" and "t \<in> set (bd_transactions d)"
  shows "real_date (tx_date t)" "\<exists>a. account_at (tx_account t) d = Some a"
  using assms by (auto simp: budget_ok_def list_all_iff transaction_ok_def all_references_ok_def references_ok_def dest!: bspec split: option.splits)

lemma budget_sums:
  assumes "budget_ok dg d"
  shows "within d (bd_transactions d)" "amounts_ok (bd_transactions d)"
  using assms by (auto simp: budget_ok_def sums_ok_def list_all_iff amounts_ok_def transaction_ok_def item_ok_def)

lemma monthly_totals_valid:
  assumes "budget_ok dg d" and "real_month m"
  shows "monthly_totals dg d m = Inr (map (monthly_total_of d (bd_transactions d) m) (sorted_list_of_set (month_currencies d (bd_transactions d) m)))"
proof -
  have "totals_match (monthly_total_of d [] m) (month_currencies d [] m) []" by (simp add: totals_match_def month_currencies_def)
  moreover have "\<exists>totals'. add_monthly d m t totals = Inr totals' \<and> totals_match (monthly_total_of d (ps @ [t]) m) (month_currencies d (ps @ [t]) m) totals'"
    if "set (ps @ [t]) \<subseteq> set (bd_transactions d)" "within d (ps @ [t])" "amounts_ok (ps @ [t])" "totals_match (monthly_total_of d ps m) (month_currencies d ps m) totals" for ps t totals
  proof -
    have t: "t \<in> set (bd_transactions d)" using that(1) by simp
    obtain a where "account_at (tx_account t) d = Some a" using transaction_facts(2) [OF assms(1) t] by blast
    then show ?thesis using add_monthly_step that(2-4) transaction_facts(1) [OF assms(1) t] assms(2) by blast
  qed
  ultimately obtain totals where "fold_sum (add_monthly d m) (bd_transactions d) [] = Inr totals"
    and match: "totals_match (monthly_total_of d (bd_transactions d) m) (month_currencies d (bd_transactions d) m) totals"
    using fold_totals [where f = "add_monthly d m" and F = "\<lambda>ps. monthly_total_of d ps m" and K = "\<lambda>ps. month_currencies d ps m", OF _ budget_sums [OF assms(1)]] by blast
  moreover have "sort_key mt_currency (map snd totals) = map (monthly_total_of d (bd_transactions d) m) (sorted_list_of_set (month_currencies d (bd_transactions d) m))"
    by (rule totals_match_values [OF match]) (simp add: monthly_total_of_def)
  ultimately show ?thesis using assms(2) by (simp add: monthly_totals_def validate_printed [OF assms(1)] valid_month_def)
qed

section \<open>Categories\<close>

definition month_categories :: "budget \<Rightarrow> budget_transaction list \<Rightarrow> string \<Rightarrow> (string \<times> string) set" where
  "month_categories d ts m = {(i, c). \<exists>t \<in> set ts. month_of t = m \<and> tx_category t = i \<and> currency_of d t = Some c}"

definition category_total_of :: "budget \<Rightarrow> budget_transaction list \<Rightarrow> string \<Rightarrow> string \<times> string \<Rightarrow> category_total" where
  "category_total_of d ts m k = \<lparr>ct_category = fst k, ct_currency = snd k, ct_amount = category_sum d ts m (fst k) (snd k)\<rparr>"

lemma month_categories_snoc [simp]:
  "month_categories d (ts @ [t]) m = month_categories d ts m \<union> (if month_of t = m then Pair (tx_category t) ` set_option (currency_of d t) else {})"
  by (auto simp: month_categories_def)

lemma category_sum_absent: "(i, c) \<notin> month_categories d ts m \<Longrightarrow> category_sum d ts m i c = 0"
proof -
  assume "(i, c) \<notin> month_categories d ts m"
  then have "filter (\<lambda>t. tx_category t = i \<and> month_of t = m \<and> currency_of d t = Some c) ts = []" by (auto simp: filter_empty_conv month_categories_def)
  then show ?thesis by (simp only: category_sum_def list.map sum_list.Nil)
qed

lemma add_category_step:
  assumes "totals_match (category_total_of d ts m) (month_categories d ts m) totals" and "within d (ts @ [t])" and "amounts_ok (ts @ [t])"
    and "real_date (tx_date t)" and "real_month m" and "account_at (tx_account t) d = Some a"
  shows "\<exists>totals'. add_category d m t totals = Inr totals' \<and> totals_match (category_total_of d (ts @ [t]) m) (month_categories d (ts @ [t]) m) totals'"
proof (cases "month_of t = m")
  case False
  moreover have "category_total_of d (ts @ [t]) m = category_total_of d ts m" using False by (intro ext) (simp add: category_total_of_def)
  ultimately show ?thesis using assms(1) in_month_iff [OF assms(4,5)] by (simp add: add_category_def)
next
  case True
  let ?k = "(tx_category t, ba_currency a)"
  have cur: "currency_of d t = Some (ba_currency a)" using assms(6) by (simp add: currency_of_def)
  let ?old = "category_total_of d ts m ?k" and ?new = "category_total_of d (ts @ [t]) m ?k"
  have total: "(case map_of totals ?k of None \<Rightarrow> \<lparr>ct_category = tx_category t, ct_currency = ba_currency a, ct_amount = 0\<rparr> | Some x \<Rightarrow> x) = ?old"
    using totals_match_get [OF assms(1), of ?k] category_sum_absent [of "tx_category t" "ba_currency a" d ts m] by (auto simp: category_total_of_def)
  have "0 \<le> category_sum d (ts @ [t]) m (tx_category t) (ba_currency a)" "category_sum d (ts @ [t]) m (tx_category t) (ba_currency a) \<le> max_safe"
    using category_sum_nonneg [OF assms(3)] assms(2) unfolding within_def by blast+
  then have "checked_add (ct_amount ?old) (tx_amount t) c' = Inr (ct_amount ?new)" for c'
    using True cur by (simp add: category_total_of_def checked_add_def is_safe_def max_safe_def)
  then have "add_category d m t totals = Inr (AList.update ?k ?new totals)"
    using True in_month_iff [OF assms(4,5)] assms(6) by (simp add: add_category_def Let_def total) (simp add: category_total_of_def)
  moreover have "category_total_of d (ts @ [t]) m k = category_total_of d ts m k" if "k \<noteq> ?k" for k using that cur by (cases k) (auto simp: category_total_of_def)
  then have "totals_match (category_total_of d (ts @ [t]) m) (insert ?k (month_categories d ts m)) (AList.update ?k ?new totals)"
    by (intro totals_match_update [OF assms(1)]) simp_all
  moreover have "month_categories d (ts @ [t]) m = insert ?k (month_categories d ts m)" using True cur by simp
  ultimately show ?thesis by simp
qed

lemma category_totals_valid:
  assumes "budget_ok dg d" and "real_month m"
  shows "category_totals dg d m = Inr (map (category_total_of d (bd_transactions d) m) (sorted_list_of_set (month_categories d (bd_transactions d) m)))"
proof -
  have "totals_match (category_total_of d [] m) (month_categories d [] m) []" by (simp add: totals_match_def month_categories_def)
  moreover have "\<exists>totals'. add_category d m t totals = Inr totals' \<and> totals_match (category_total_of d (ps @ [t]) m) (month_categories d (ps @ [t]) m) totals'"
    if "set (ps @ [t]) \<subseteq> set (bd_transactions d)" "within d (ps @ [t])" "amounts_ok (ps @ [t])" "totals_match (category_total_of d ps m) (month_categories d ps m) totals" for ps t totals
  proof -
    have t: "t \<in> set (bd_transactions d)" using that(1) by simp
    obtain a where "account_at (tx_account t) d = Some a" using transaction_facts(2) [OF assms(1) t] by blast
    then show ?thesis using add_category_step that(2-4) transaction_facts(1) [OF assms(1) t] assms(2) by blast
  qed
  ultimately obtain totals where "fold_sum (add_category d m) (bd_transactions d) [] = Inr totals"
    and match: "totals_match (category_total_of d (bd_transactions d) m) (month_categories d (bd_transactions d) m) totals"
    using fold_totals [where f = "add_category d m" and F = "\<lambda>ps. category_total_of d ps m" and K = "\<lambda>ps. month_categories d ps m", OF _ budget_sums [OF assms(1)]] by blast
  moreover have "sort_key (\<lambda>c. (ct_category c, ct_currency c)) (map snd totals) = map (category_total_of d (bd_transactions d) m) (sorted_list_of_set (month_categories d (bd_transactions d) m))"
    by (rule totals_match_values [OF match]) (simp add: category_total_of_def)
  ultimately show ?thesis using assms(2) by (simp add: category_totals_def validate_printed [OF assms(1)] valid_month_def)
qed

end
