(* ===== verification/BudgetMerge.thy ===== *)
theory BudgetMerge
  imports BudgetTotals
begin

text \<open>
  The merge of two devices' budgets, \<open>plugins/budget/src/merge.ts\<close>: each record by its identifier, nothing merged when both
  devices changed one record differently. What it promises rests on one locale on records that are told apart by their text.
\<close>

section \<open>Reading a budget file\<close>

definition read_budget :: "(string \<Rightarrow> nat option) \<Rightarrow> bytes \<Rightarrow> budget option" where
  "read_budget dg b =
     (case decode_text b of None \<Rightarrow> None | Some s \<Rightarrow> (case parse_budget dg s of Inl _ \<Rightarrow> None | Inr d \<Rightarrow> Some d))"

section \<open>Records\<close>

definition record_at :: "('a \<Rightarrow> string) \<Rightarrow> 'a list \<Rightarrow> string \<Rightarrow> 'a option" where
  "record_at idf vs i = map_of (map (\<lambda>v. (idf v, v)) (rev vs)) i"

definition same_record :: "('a \<Rightarrow> json) \<Rightarrow> 'a option \<Rightarrow> 'a option \<Rightarrow> bool" where
  "same_record f a b \<longleftrightarrow> map_option (stringify \<circ> f) a = map_option (stringify \<circ> f) b"

fun merge_ids :: "('a \<Rightarrow> json) \<Rightarrow> (string \<Rightarrow> 'a option) \<Rightarrow> (string \<Rightarrow> 'a option) \<Rightarrow> (string \<Rightarrow> 'a option) \<Rightarrow> string list \<Rightarrow> 'a list \<Rightarrow> 'a list option" where
  "merge_ids f b l r [] merged = Some merged"
| "merge_ids f b l r (i # js) merged =
     (if same_record f (l i) (r i) then merge_ids f b l r js (merged @ (case l i of None \<Rightarrow> [] | Some v \<Rightarrow> [v]))
      else if same_record f (l i) (b i) then merge_ids f b l r js (merged @ (case r i of None \<Rightarrow> [] | Some v \<Rightarrow> [v]))
      else if same_record f (r i) (b i) then merge_ids f b l r js (merged @ (case l i of None \<Rightarrow> [] | Some v \<Rightarrow> [v]))
      else None)"

definition merge_records :: "('a \<Rightarrow> string) \<Rightarrow> ('a \<Rightarrow> json) \<Rightarrow> 'a list \<Rightarrow> 'a list \<Rightarrow> 'a list \<Rightarrow> 'a list option" where
  "merge_records idf f bs ls rs =
     merge_ids f (record_at idf bs) (record_at idf ls) (record_at idf rs) (sort (uniq (map idf bs @ map idf ls @ map idf rs))) []"

section \<open>Budgets\<close>

definition currency_change :: "budget option \<Rightarrow> budget \<Rightarrow> bool" where
  "currency_change base m =
     (case base of
        None \<Rightarrow> False
      | Some b \<Rightarrow>
          list_ex (\<lambda>a. case record_at ba_id (bd_accounts b) (ba_id a) of
              None \<Rightarrow> False
            | Some old \<Rightarrow> ba_currency old \<noteq> ba_currency a \<and> ba_id a \<in> set (map tx_account (bd_transactions m))) (bd_accounts m))"

definition read_base :: "(string \<Rightarrow> nat option) \<Rightarrow> bytes option \<Rightarrow> budget option option" where
  "read_base dg b = (case b of None \<Rightarrow> Some None | Some b \<Rightarrow> map_option Some (read_budget dg b))"

definition merged_records :: "budget \<Rightarrow> budget \<Rightarrow> budget \<Rightarrow> budget option" where
  "merged_records b l r =
     (case (merge_records ba_id (JObj \<circ> account_members) (bd_accounts b) (bd_accounts l) (bd_accounts r),
            merge_records bc_id (JObj \<circ> category_members) (bd_categories b) (bd_categories l) (bd_categories r),
            merge_records bp_id (JObj \<circ> place_members) (bd_places b) (bd_places l) (bd_places r),
            merge_records tx_id (JObj \<circ> transaction_members) (bd_transactions b) (bd_transactions l) (bd_transactions r)) of
        (Some as, Some cs, Some ps, Some ts) \<Rightarrow> Some \<lparr>bd_accounts = as, bd_categories = cs, bd_places = ps, bd_transactions = ts\<rparr>
      | _ \<Rightarrow> None)"

text \<open>\<open>None\<close> leaves the file to a conflict copy.\<close>

definition merge_budgets :: "(string \<Rightarrow> nat option) \<Rightarrow> bytes option \<Rightarrow> bytes \<Rightarrow> bytes \<Rightarrow> bytes option" where
  "merge_budgets dg base local remote =
     (case (read_base dg base, read_budget dg local, read_budget dg remote) of
        (Some b, Some l, Some r) \<Rightarrow>
          (case merged_records (case b of None \<Rightarrow> empty_budget | Some b \<Rightarrow> b) l r of
             None \<Rightarrow> None
           | Some d \<Rightarrow>
               (case validate_budget dg (json_of_budget d) of
                  Inl _ \<Rightarrow> None
                | Inr m \<Rightarrow>
                    if currency_change b m then None
                    else (case serialize_budget dg m of Inl _ \<Rightarrow> None | Inr s \<Rightarrow> Some (utf8_encode s))))
      | _ \<Rightarrow> None)"

section \<open>Three ways\<close>

definition three_way_record :: "'a option \<Rightarrow> 'a option \<Rightarrow> 'a option \<Rightarrow> 'a option option" where
  "three_way_record b l r = (if l = r then Some l else if l = b then Some r else if r = b then Some l else None)"

lemma three_way_swap: "three_way_record b l r = three_way_record b r l"
  by (auto simp: three_way_record_def)

text \<open>Records told apart by their text.\<close>

locale told_apart =
  fixes idf :: "'a \<Rightarrow> string" and f :: "'a \<Rightarrow> json"
  assumes text_inj: "f x = f y \<Longrightarrow> x = y"
begin

lemma same_record_iff: "same_record f a b \<longleftrightarrow> a = b"
proof -
  have "stringify (f x) = stringify (f y) \<Longrightarrow> x = y" for x y by (metis parse_stringify option.inject text_inj)
  then show ?thesis by (cases a; cases b) (auto simp: same_record_def)
qed

lemma merge_ids_step:
  "merge_ids f b l r (i # js) merged =
     (case three_way_record (b i) (l i) (r i) of None \<Rightarrow> None | Some v \<Rightarrow> merge_ids f b l r js (merged @ (case v of None \<Rightarrow> [] | Some v \<Rightarrow> [v])))"
  by (auto simp: same_record_iff three_way_record_def)

lemma merge_ids_swap: "merge_ids f b l r js merged = merge_ids f b r l js merged"
proof (induction js arbitrary: merged)
  case (Cons i js)
  show ?case unfolding merge_ids_step three_way_swap [of "b i" "l i" "r i"] by (simp add: Cons split: option.split)
qed simp

lemma uniq_swap: "sort (uniq (a @ b @ c)) = sort (uniq (a @ c @ b))" for a b c :: "string list"
proof -
  have "set (uniq (a @ b @ c)) = set (uniq (a @ c @ b))" by auto
  then show ?thesis by (metis distinct_uniq sorted_list_of_set_sort_remdups distinct_remdups_id)
qed

lemma merge_records_swap: "merge_records idf f bs ls rs = merge_records idf f bs rs ls"
  unfolding merge_records_def by (subst merge_ids_swap) (simp only: uniq_swap)

lemma merge_ids_Some:
  "merge_ids f b l r js merged = Some out \<longleftrightarrow> (\<forall>i \<in> set js. three_way_record (b i) (l i) (r i) \<noteq> None)
     \<and> out = merged @ concat (map (\<lambda>i. case the (three_way_record (b i) (l i) (r i)) of None \<Rightarrow> [] | Some v \<Rightarrow> [v]) js)"
proof (induction js arbitrary: merged)
  case (Cons i js)
  show ?case unfolding merge_ids_step by (cases "three_way_record (b i) (l i) (r i)") (auto simp: Cons)
qed auto

lemma record_at_iff: "distinct (map idf vs) \<Longrightarrow> record_at idf vs i = Some v \<longleftrightarrow> v \<in> set vs \<and> idf v = i"
proof -
  assume d: "distinct (map idf vs)"
  then have "distinct (map fst (map (\<lambda>v. (idf v, v)) (rev vs)))" by (simp add: comp_def distinct_rev flip: rev_map)
  then show ?thesis unfolding record_at_def by (subst map_of_eq_Some_iff) auto
qed

lemma record_at_own: "record_at idf vs i = Some v \<Longrightarrow> v \<in> set vs \<and> idf v = i"
  by (auto simp: record_at_def dest!: map_of_SomeD)

lemma record_at_None: "i \<notin> set (map idf vs) \<Longrightarrow> record_at idf vs i = None"
  by (metis image_eqI not_Some_eq record_at_own set_map)

lemma three_way_own:
  "three_way_record b (record_at idf ls i) (record_at idf rs i) = Some (Some v) \<Longrightarrow> idf v = i"
  by (auto simp: three_way_record_def record_at_own split: if_splits)

lemma merge_records_exact:
  assumes "merge_records idf f bs ls rs = Some out"
  shows "distinct (map idf out)" "three_way_record (record_at idf bs i) (record_at idf ls i) (record_at idf rs i) = Some (record_at idf out i)"
proof -
  define js where "js = sort (uniq (map idf bs @ map idf ls @ map idf rs))"
  define w where "w = (\<lambda>i. three_way_record (record_at idf bs i) (record_at idf ls i) (record_at idf rs i))"
  have js: "distinct js" "set js = set (map idf bs) \<union> set (map idf ls) \<union> set (map idf rs)" by (auto simp: js_def)
  have some: "\<forall>i \<in> set js. w i \<noteq> None" and out: "out = concat (map (\<lambda>i. case the (w i) of None \<Rightarrow> [] | Some v \<Rightarrow> [v]) js)"
    using assms unfolding merge_records_def merge_ids_Some js_def [symmetric] w_def by simp_all
  have own: "idf v = i" if "w i = Some (Some v)" for i v using that three_way_own unfolding w_def by blast
  have part: "map idf (case the (w i) of None \<Rightarrow> [] | Some v \<Rightarrow> [v]) = (case the (w i) of None \<Rightarrow> [] | Some v \<Rightarrow> [i])" if "i \<in> set js" for i
    using some that own by (auto split: option.splits)
  have ids: "map idf (concat (map (\<lambda>i. case the (w i) of None \<Rightarrow> [] | Some v \<Rightarrow> [v]) is)) = filter (\<lambda>i. the (w i) \<noteq> None) is" if "set is \<subseteq> set js" for "is"
    using that part by (induction "is") (auto split: option.split)
  show d: "distinct (map idf out)" unfolding out ids [OF subset_refl] using js(1) by simp
  have mem: "v \<in> set out \<longleftrightarrow> (\<exists>i \<in> set js. w i = Some (Some v))" for v
    unfolding out using some by (auto split: option.splits) (metis option.sel)
  show "three_way_record (record_at idf bs i) (record_at idf ls i) (record_at idf rs i) = Some (record_at idf out i)"
  proof (cases "i \<in> set js")
    case True
    then obtain x where x: "w i = Some x" using some by auto
    have "record_at idf out i = x"
    proof (cases x)
      case None
      have "v \<notin> set out \<or> idf v \<noteq> i" for v using mem own x None by (metis option.inject option.simps(3))
      then have "record_at idf out i \<noteq> Some v" for v using record_at_iff [OF d, of i v] by simp
      then show ?thesis using None by (cases "record_at idf out i") auto
    next
      case (Some v)
      then have "v \<in> set out" "idf v = i" using mem x True own by auto
      then show ?thesis using Some record_at_iff [OF d] by simp
    qed
    then show ?thesis using x by (simp add: w_def)
  next
    case False
    have "i \<notin> set (map idf out)" using False unfolding out ids [OF subset_refl] by simp
    then show ?thesis using False by (simp add: js(2) record_at_None three_way_record_def)
  qed
qed

lemma merge_records_from:
  assumes "merge_records idf f bs ls rs = Some out"
  shows "set out \<subseteq> set ls \<union> set rs"
proof
  fix v assume "v \<in> set out"
  then have "record_at idf out (idf v) = Some v" using record_at_iff [OF merge_records_exact(1) [OF assms]] by simp
  then have "three_way_record (record_at idf bs (idf v)) (record_at idf ls (idf v)) (record_at idf rs (idf v)) = Some (Some v)"
    using merge_records_exact(2) [OF assms, of "idf v"] by simp
  then have "record_at idf ls (idf v) = Some v \<or> record_at idf rs (idf v) = Some v" by (auto simp: three_way_record_def split: if_splits)
  then show "v \<in> set ls \<union> set rs" using record_at_own by blast
qed

lemma record_at_sorted: "distinct (map idf vs) \<Longrightarrow> record_at idf (sort_key idf vs) i = record_at idf vs i"
proof -
  assume d: "distinct (map idf vs)"
  then have "distinct (map idf (sort_key idf vs))" by (metis mset_eq_imp_distinct_iff mset_map mset_sort)
  then have "record_at idf (sort_key idf vs) i = Some v \<longleftrightarrow> record_at idf vs i = Some v" for v using record_at_iff d by simp
  then show ?thesis by (metis option.exhaust)
qed

end

lemma json_int_text: "json_option JStr a = json_option JStr b \<longleftrightarrow> a = b" "json_option json_of_receipt c = json_option json_of_receipt d \<longleftrightarrow> map_option json_of_receipt c = map_option json_of_receipt d"
  by (auto simp: json_option_def json_of_receipt_def split: option.splits)

lemma json_of_item_eq: "json_of_item a = json_of_item b \<longleftrightarrow> a = b"
  by (cases a; cases b) (auto simp: json_of_item_def)

lemma json_of_attachment_eq: "json_of_attachment a = json_of_attachment b \<longleftrightarrow> a = b"
  by (cases a; cases b) (auto simp: json_of_attachment_def)

lemma json_of_receipt_eq: "json_of_receipt a = json_of_receipt b \<longleftrightarrow> a = b"
  by (cases a; cases b) (auto simp: json_of_receipt_def)

interpretation account_record: told_apart ba_id "JObj \<circ> account_members"
proof
  fix a b :: budget_account assume "(JObj \<circ> account_members) a = (JObj \<circ> account_members) b"
  then show "a = b" by (cases a; cases b) (simp add: account_members_def)
qed

interpretation category_record: told_apart bc_id "JObj \<circ> category_members"
proof
  fix a b :: budget_category assume "(JObj \<circ> category_members) a = (JObj \<circ> category_members) b"
  then show "a = b" by (cases a; cases b) (simp add: category_members_def)
qed

interpretation place_record: told_apart bp_id "JObj \<circ> place_members"
proof
  fix a b :: budget_place assume "(JObj \<circ> place_members) a = (JObj \<circ> place_members) b"
  then show "a = b" by (cases a; cases b) (simp add: place_members_def)
qed

lemma map_json_eq: "(\<And>x y. f x = f y \<longleftrightarrow> x = y) \<Longrightarrow> map f xs = map f ys \<longleftrightarrow> xs = ys"
  by (metis inj_def inj_map_eq_map)

interpretation transaction_record: told_apart tx_id "JObj \<circ> transaction_members"
proof
  fix a b :: budget_transaction assume eq: "(JObj \<circ> transaction_members) a = (JObj \<circ> transaction_members) b"
  have "map_option json_of_receipt x = map_option json_of_receipt y \<longleftrightarrow> x = y" for x y by (cases x; cases y) (simp_all add: json_of_receipt_eq)
  with eq show "a = b"
    by (cases a; cases b) (simp add: transaction_members_def json_int_text map_json_eq [OF json_of_item_eq] map_json_eq [OF json_of_attachment_eq])
qed

end
