(* ===== verification/BudgetMoney.thy ===== *)
theory BudgetMoney
  imports Budget
begin

text \<open>
  Amounts: \<open>parseAmount\<close> of \<open>plugins/budget/src/money.ts\<close> and \<open>calculateItemTotal\<close> of
  \<open>items.ts\<close>, exact on whole numbers of any size.
\<close>

definition trim_spaces :: "string \<Rightarrow> string" where
  "trim_spaces s = rev (dropWhile is_space (rev (dropWhile is_space s)))"

text \<open>\<open>DECIMAL\<close>: the sign, the whole part, and the fraction or nothing.\<close>

definition decimal_parts :: "string \<Rightarrow> (bool \<times> string \<times> string) option" where
  "decimal_parts s =
     (let u = (if s \<noteq> [] \<and> hd s \<in> {CHR ''+'', CHR ''-''} then tl s else s);
          neg = (s \<noteq> [] \<and> hd s = CHR ''-'');
          w = takeWhile is_digit_char u; r = dropWhile is_digit_char u
      in if w = [] then None
         else if r = [] then Some (neg, w, [])
         else if hd r \<in> {CHR ''.'', CHR '',''} \<and> tl r \<noteq> [] \<and> list_all is_digit_char (tl r) then Some (neg, w, tl r) else None)"

text \<open>\<open>padEnd\<close>\<close>

definition pad_end :: "string \<Rightarrow> nat \<Rightarrow> string" where
  "pad_end s n = s @ replicate (n - length s) CHR ''0''"

definition parse_amount :: "(string \<Rightarrow> nat option) \<Rightarrow> string \<Rightarrow> string \<Rightarrow> budget_error + int" where
  "parse_amount dg input currency =
     (case currency_digits dg currency of
        None \<Rightarrow> Inl (BudgetError ''BudgetCurrencyInvalid'')
      | Some digits \<Rightarrow>
          (case decimal_parts (trim_spaces input) of
             None \<Rightarrow> Inl (BudgetError ''BudgetAmountInvalid'')
           | Some (neg, w, f) \<Rightarrow>
               if length f > digits then Inl (BudgetError ''BudgetAmountPrecision'')
               else let magnitude = int (digits_value w * 10 ^ digits + digits_value (pad_end f digits));
                        signed = (if neg then - magnitude else magnitude)
                    in if \<not> is_safe signed then Inl (MoneyOverflow ''Money amount exceeds the safe integer range'') else Inr signed))"

definition calculate_item_total :: "int \<Rightarrow> string \<Rightarrow> budget_error + int" where
  "calculate_item_total price quantity =
     (if \<not> is_safe price \<or> price < 0 then Inl (BudgetInvalid ''Unit price'' ''must be a non-negative safe integer'')
      else and_then (validate_quantity quantity) (\<lambda>_.
        let parts = split_on CHR ''.'' quantity; fraction = (if length parts > 1 then parts ! 1 else []);
            scale = 10 ^ length fraction;
            units = int (digits_value (hd parts)) * scale + int (digits_value fraction);
            product = price * units;
            rounded = product div scale + (if product mod scale * 2 \<ge> scale then 1 else 0)
        in if rounded > max_safe then Inl (MoneyOverflow ''Item total exceeds the safe integer range'') else Inr rounded))"

section \<open>Rounding\<close>

text \<open>The quantity as the fraction it is written as.\<close>

definition quantity_units :: "string \<Rightarrow> int \<times> int" where
  "quantity_units q =
     (case quantity_parts q of
        None \<Rightarrow> (0, 1)
      | Some (w, None) \<Rightarrow> (int (digits_value w), 1)
      | Some (w, Some f) \<Rightarrow> (int (digits_value w) * 10 ^ length f + int (digits_value f), 10 ^ length f))"

lemma dot_not_digit: "\<not> is_digit_char CHR ''.''"
  by (simp add: is_digit_char_def in_range_def)

lemma quantity_split:
  assumes "quantity_parts q = Some (w, f)"
  shows "split_on CHR ''.'' q = (case f of None \<Rightarrow> [w] | Some f \<Rightarrow> [w, f])"
proof -
  define r where "r = dropWhile is_digit_char q"
  have w: "w = takeWhile is_digit_char q" using assms by (auto simp: quantity_parts_def Let_def split: if_splits)
  have no: "CHR ''.'' \<notin> set u" if "list_all is_digit_char u" for u using that dot_not_digit by (auto simp: list_all_iff)
  have wd: "CHR ''.'' \<notin> set w" unfolding w using dot_not_digit by (meson set_takeWhileD)
  have q: "q = w @ r" unfolding w r_def by simp
  show ?thesis
  proof (cases f)
    case None
    then have "r = []" using assms by (auto simp: quantity_parts_def Let_def r_def split: if_splits)
    then show ?thesis using None q split_on_plain [OF wd] by simp
  next
    case (Some u)
    then have "r = CHR ''.'' # u" "list_all is_digit_char u"
      using assms by (auto simp: quantity_parts_def Let_def r_def [symmetric] split: if_splits) (metis list.collapse)+
    then show ?thesis using Some q split_on_append [OF wd, of u] split_on_plain [OF no, of u] by simp
  qed
qed

lemma calculate_item_total_run:
  assumes "is_safe price" and "0 \<le> price" and "validate_quantity q = Inr q"
  defines "u \<equiv> fst (quantity_units q)" and "s \<equiv> snd (quantity_units q)"
  shows "0 < s" "calculate_item_total price q = (let n = price * u div s + (if price * u mod s * 2 \<ge> s then 1 else 0)
     in if n > max_safe then Inl (MoneyOverflow ''Item total exceeds the safe integer range'') else Inr n)"
proof -
  obtain w f where parts: "quantity_parts q = Some (w, f)" using assms(3) by (auto simp: validate_quantity_def split: option.splits)
  note split = quantity_split [OF parts]
  show "0 < s" using parts by (simp add: s_def quantity_units_def split: option.split)
  have v: "digits_value [] = 0" by (simp add: digits_value_def)
  show "calculate_item_total price q = (let n = price * u div s + (if price * u mod s * 2 \<ge> s then 1 else 0)
     in if n > max_safe then Inl (MoneyOverflow ''Item total exceeds the safe integer range'') else Inr n)"
    using assms(1-3) parts split by (cases f) (simp_all add: calculate_item_total_def quantity_units_def u_def s_def v Let_def)
qed

end
