(* ===== verification/BudgetProps.thy ===== *)
theory BudgetProps
  imports BudgetMerge BudgetMoney
begin

text \<open>
  The properties of the budget: what a parsed budget is, its file and its totals, and the merge of two devices' budgets.
\<close>

section \<open>What the parser lets through\<close>

lemma parse_line_records:
  assumes "parse_budget_line dg version x (d, ls) = Inr (e, ms)" and "records_ok dg d"
  shows "records_ok dg e"
  using assms
  by (cases x) (auto simp: parse_budget_line_def and_then_Inr records_ok_def split: if_splits
      dest: account_from_ok category_from_ok place_from_ok transaction_from_ok)

lemma parse_budget_ok:
  assumes "parse_budget dg raw = Inr d"
  shows "budget_ok dg d"
proof -
  from assms obtain version xs ls where run: "fold_sum (parse_budget_line dg version) xs (empty_budget, []) = Inr (d, ls)"
    and refs: "validate_references (transaction_context ls) d = Inr ()" and sums: "validate_aggregate_safety (transaction_context ls) d = Inr ()"
    by (auto simp: parse_budget_def and_then_Inr split: if_splits option.splits prod.splits)
  have "records_ok dg (fst (d, ls))"
  proof (rule fold_sum_invariant [OF run, where P = "\<lambda>s. records_ok dg (fst s)"])
    show "records_ok dg (fst (empty_budget, [] :: (string \<times> nat) list))" by (simp add: records_ok_def empty_budget_def)
  next
    fix x and acc acc' :: "budget \<times> (string \<times> nat) list"
    assume "records_ok dg (fst acc)" and "parse_budget_line dg version x acc = Inr acc'"
    then show "records_ok dg (fst acc')" by (cases acc; cases acc') (auto intro: parse_line_records)
  qed
  moreover have "all_references_ok d" using refs by (simp add: validate_references_iff)
  moreover from this have "sums_ok d" using sums calculation by (simp add: validate_aggregate_iff records_ok_def)
  ultimately show ?thesis by (simp add: budget_ok_def records_ok_def)
qed

lemma read_budget_ok: "read_budget dg b = Some d \<Longrightarrow> budget_ok dg d"
  by (auto simp: read_budget_def parse_budget_ok split: option.splits sum.splits)

lemma merged_parts:
  assumes "merged_records b l r = Some d"
  shows "merge_records ba_id (JObj \<circ> account_members) (bd_accounts b) (bd_accounts l) (bd_accounts r) = Some (bd_accounts d)"
    "merge_records bc_id (JObj \<circ> category_members) (bd_categories b) (bd_categories l) (bd_categories r) = Some (bd_categories d)"
    "merge_records bp_id (JObj \<circ> place_members) (bd_places b) (bd_places l) (bd_places r) = Some (bd_places d)"
    "merge_records tx_id (JObj \<circ> transaction_members) (bd_transactions b) (bd_transactions l) (bd_transactions r) = Some (bd_transactions d)"
  using assms by (auto simp: merged_records_def split: option.splits)

lemma merged_records_ok:
  assumes "merged_records b l r = Some d" and "budget_ok dg l" and "budget_ok dg r"
  shows "records_ok dg d"
proof -
  note p = merged_parts [OF assms(1)]
  have "set (bd_accounts d) \<subseteq> set (bd_accounts l) \<union> set (bd_accounts r)" "set (bd_categories d) \<subseteq> set (bd_categories l) \<union> set (bd_categories r)"
    "set (bd_places d) \<subseteq> set (bd_places l) \<union> set (bd_places r)" "set (bd_transactions d) \<subseteq> set (bd_transactions l) \<union> set (bd_transactions r)"
    by (rule account_record.merge_records_from [OF p(1)] category_record.merge_records_from [OF p(2)] place_record.merge_records_from [OF p(3)] transaction_record.merge_records_from [OF p(4)])+
  then show ?thesis using assms(2,3) by (auto simp: records_ok_def budget_ok_def list_all_iff)
qed

lemma merged_validates:
  assumes "merged_records b l r = Some d" and "budget_ok dg l" and "budget_ok dg r" and "validate_budget dg (json_of_budget d) = Inr m"
  shows "m = d"
  using assms(4) validate_records [OF merged_records_ok [OF assms(1-3)]] by (auto simp: and_then_Inr)

section \<open>Sums of categories\<close>

lemma kind_sum_Cons: "kind_sum d (t # ts) k m c = (if tx_kind t = k \<and> month_of t = m \<and> currency_of d t = Some c then tx_amount t else 0) + kind_sum d ts k m c"
  by (simp add: kind_sum_def)

lemma category_sum_Cons: "category_sum d (t # ts) m i c = (if tx_category t = i \<and> month_of t = m \<and> currency_of d t = Some c then tx_amount t else 0) + category_sum d ts m i c"
  by (simp add: category_sum_def)

lemma sum_of_categories:
  assumes "finite A" and "\<And>t. t \<in> set ts \<Longrightarrow> month_of t = m \<Longrightarrow> currency_of d t = Some c \<Longrightarrow> tx_category t \<in> A"
  shows "(\<Sum>i \<in> A. category_sum d ts m i c) = kind_sum d ts Income m c + kind_sum d ts Expense m c"
  using assms(2)
proof (induction ts)
  case Nil
  show ?case by (simp add: category_sum_def kind_sum_def)
next
  case (Cons t ts)
  have "(\<Sum>i \<in> A. category_sum d (t # ts) m i c)
      = (\<Sum>i \<in> A. if tx_category t = i then (if month_of t = m \<and> currency_of d t = Some c then tx_amount t else 0) else 0) + (\<Sum>i \<in> A. category_sum d ts m i c)"
    unfolding sum.distrib [symmetric] by (rule sum.cong) (simp_all add: category_sum_Cons)
  also have "(\<Sum>i \<in> A. if tx_category t = i then (if month_of t = m \<and> currency_of d t = Some c then tx_amount t else 0) else 0)
      = (if month_of t = m \<and> currency_of d t = Some c then tx_amount t else 0)"
    using assms(1) Cons.prems [of t] by (auto simp: sum.delta')
  finally show ?case using Cons by (cases "tx_kind t") (auto simp: kind_sum_Cons)
qed

lemma finite_month_categories [simp]: "finite (month_categories d ts m)"
  by (rule finite_subset [of _ "\<Union>t \<in> set ts. Pair (tx_category t) ` set_option (currency_of d t)"]) (auto simp: month_categories_def)

lemma category_totals_add_up:
  "sum_list (map ct_amount (filter (\<lambda>k. ct_currency k = c) (map (category_total_of d ts m) (sorted_list_of_set (month_categories d ts m)))))
     = kind_sum d ts Income m c + kind_sum d ts Expense m c"
proof -
  let ?K = "month_categories d ts m" and ?A = "{i. (i, c) \<in> month_categories d ts m}"
  have "finite (fst ` ?K)" by simp
  then have fin: "finite ?A" by (rule rev_finite_subset) (auto intro: rev_image_eqI)
  have "sum_list (map ct_amount (filter (\<lambda>k. ct_currency k = c) (map (category_total_of d ts m) (sorted_list_of_set ?K))))
      = sum_list (map (\<lambda>k. category_sum d ts m (fst k) (snd k)) (filter (\<lambda>k. snd k = c) (sorted_list_of_set ?K)))"
    by (simp add: filter_map comp_def category_total_of_def)
  also have "\<dots> = (\<Sum>k \<in> set (filter (\<lambda>k. snd k = c) (sorted_list_of_set ?K)). category_sum d ts m (fst k) (snd k))"
    by (simp add: sum_list_distinct_conv_sum_set)
  also have "set (filter (\<lambda>k. snd k = c) (sorted_list_of_set ?K)) = (\<lambda>i. (i, c)) ` ?A" by (auto simp: image_iff)
  also have "(\<Sum>k \<in> (\<lambda>i. (i, c)) ` ?A. category_sum d ts m (fst k) (snd k)) = (\<Sum>i \<in> ?A. category_sum d ts m i c)"
    by (subst sum.reindex) (auto simp: inj_on_def)
  also have "\<dots> = kind_sum d ts Income m c + kind_sum d ts Expense m c" by (rule sum_of_categories [OF fin]) (auto simp: month_categories_def)
  finally show ?thesis .
qed

section \<open>A small budget\<close>

definition two_digits :: "string \<Rightarrow> nat option" where
  "two_digits code = Some 2"

definition demo_budget :: budget where
  "demo_budget = \<lparr>bd_accounts = [\<lparr>ba_id = ''cash'', ba_name = ''Cash'', ba_currency = ''USD'', ba_opening = 1000\<rparr>],
     bd_categories = [\<lparr>bc_id = ''food'', bc_name = ''Food'', bc_kind = Expense\<rparr>], bd_places = [],
     bd_transactions = [\<lparr>tx_id = ''t1'', tx_account = ''cash'', tx_category = ''food'', tx_kind = Expense, tx_amount = 250, tx_date = ''2024-05-17'', tx_note = [],
       tx_place = None, tx_items = [], tx_attachments = [], tx_receipt = None\<rparr>]\<rparr>"

lemma demo_budget_ok: "budget_ok two_digits demo_budget"
proof -
  have "real_date ''2024-05-17''" by code_simp
  moreover have "valid_identifier ''cash'' \<and> valid_identifier ''food'' \<and> valid_identifier ''t1'' \<and> valid_display_name ''Cash'' \<and> valid_display_name ''Food''" by code_simp
  moreover have "currency_digits two_digits ''USD'' \<noteq> None" by code_simp
  ultimately show ?thesis
    by (simp add: budget_ok_def demo_budget_def account_ok_def category_ok_def transaction_ok_def all_references_ok_def references_ok_def account_at_def category_at_def
        sums_ok_def within_def kind_sum_def category_sum_def items_sum_def balance_of_def signed_amount_def is_safe_def max_safe_def)
qed

section \<open>Properties\<close>

text \<open>
  C15: a budget the validation accepts is read back from the file it is written to, with the records of each kind in the order of
  their identifiers.
\<close>

theorem budget_file_round_trip:
  assumes "validate_budget dg v = Inr d"
  shows "\<exists>raw. serialize_budget dg d = Inr raw \<and> parse_budget dg raw = Inr (sorted_budget d)"
  using validate_budget_ok [OF assms] by (rule parse_serialized)

theorem budget_file_round_trip_witness:
  "\<exists>raw. serialize_budget two_digits demo_budget = Inr raw \<and> parse_budget two_digits raw = Inr (sorted_budget demo_budget)"
  by (rule budget_file_round_trip [OF validate_printed [OF demo_budget_ok]])

text \<open>
  C10: on a budget that was read from its file no total overflows: the balance of an account, the totals of a month by currency and
  the totals of its categories are exactly the sums of the amounts, in the order of their keys. The checks made when the file is
  read are enough for every total computed later.
\<close>

theorem budget_totals_exact:
  assumes "parse_budget dg raw = Inr d" and "real_month m"
  shows "account_balance dg d i = (case account_at i d of None \<Rightarrow> Inl (UnknownAccount i) | Some a \<Rightarrow> Inr (balance_of (bd_transactions d) a))
    \<and> monthly_totals dg d m = Inr (map (monthly_total_of d (bd_transactions d) m) (sorted_list_of_set (month_currencies d (bd_transactions d) m)))
    \<and> category_totals dg d m = Inr (map (category_total_of d (bd_transactions d) m) (sorted_list_of_set (month_categories d (bd_transactions d) m)))"
  using account_balance_valid monthly_totals_valid category_totals_valid parse_budget_ok [OF assms(1)] assms(2) by blast

theorem budget_totals_exact_witness:
  "\<exists>raw. parse_budget two_digits raw = Inr (sorted_budget demo_budget) \<and> account_balance two_digits (sorted_budget demo_budget) ''cash'' = Inr 750"
proof -
  obtain raw where raw: "parse_budget two_digits raw = Inr (sorted_budget demo_budget)" using parse_serialized [OF demo_budget_ok] by blast
  have "real_month ''2024-05''" by code_simp
  then have "account_balance two_digits (sorted_budget demo_budget) ''cash'' = (case account_at ''cash'' (sorted_budget demo_budget) of None \<Rightarrow> Inl (UnknownAccount ''cash'')
      | Some a \<Rightarrow> Inr (balance_of (bd_transactions (sorted_budget demo_budget)) a))"
    using budget_totals_exact [OF raw, of "''2024-05''" "''cash''"] by blast
  then show ?thesis using raw by (auto simp: sorted_budget_def demo_budget_def account_at_def balance_of_def signed_amount_def)
qed

text \<open>
  The two views of a month agree: in each currency the totals of the categories add up to the income and the expense of the month.
\<close>

theorem categories_add_up_to_month:
  assumes "parse_budget dg raw = Inr d" and "monthly_totals dg d m = Inr ms" and "category_totals dg d m = Inr cs" and "x \<in> set ms"
  shows "sum_list (map ct_amount (filter (\<lambda>k. ct_currency k = mt_currency x) cs)) = mt_income x + mt_expense x"
proof -
  have ok: "budget_ok dg d" using assms(1) by (rule parse_budget_ok)
  have m: "real_month m" using assms(2) by (auto simp: monthly_totals_def validate_printed [OF ok] valid_month_def and_then_Inr split: if_splits)
  let ?ts = "bd_transactions d"
  have "ms = map (monthly_total_of d ?ts m) (sorted_list_of_set (month_currencies d ?ts m))" using monthly_totals_valid [OF ok m] assms(2) by simp
  then obtain c where x: "x = monthly_total_of d ?ts m c" using assms(4) by auto
  have "cs = map (category_total_of d ?ts m) (sorted_list_of_set (month_categories d ?ts m))" using category_totals_valid [OF ok m] assms(3) by simp
  then show ?thesis using category_totals_add_up [of c d ?ts m] x by (simp add: monthly_total_of_def)
qed

theorem categories_add_up_to_month_witness:
  "\<exists>ms cs. monthly_totals two_digits (sorted_budget demo_budget) ''2024-05'' = Inr ms \<and> category_totals two_digits (sorted_budget demo_budget) ''2024-05'' = Inr cs
     \<and> (\<exists>x \<in> set ms. sum_list (map ct_amount (filter (\<lambda>k. ct_currency k = mt_currency x) cs)) = mt_income x + mt_expense x)"
proof -
  let ?d = "sorted_budget demo_budget"
  obtain raw where raw: "parse_budget two_digits raw = Inr ?d" using parse_serialized [OF demo_budget_ok] by blast
  have m: "real_month ''2024-05''" by code_simp
  note ok = sorted_budget_ok [OF demo_budget_ok]
  note mt = monthly_totals_valid [OF ok m] and ct = category_totals_valid [OF ok m]
  have "''USD'' \<in> month_currencies ?d (bd_transactions ?d) ''2024-05''"
    by (simp add: month_currencies_def sorted_budget_def demo_budget_def month_of_def currency_of_def account_at_def)
  then have x: "monthly_total_of ?d (bd_transactions ?d) ''2024-05'' ''USD'' \<in> set (map (monthly_total_of ?d (bd_transactions ?d) ''2024-05'') (sorted_list_of_set (month_currencies ?d (bd_transactions ?d) ''2024-05'')))"
    by simp
  show ?thesis using categories_add_up_to_month [OF raw mt ct x] mt ct x by blast
qed

text \<open>
  C16: the merge of budgets does not depend on which device runs it: both devices make the same file of the two versions, or both leave
  the file to a conflict copy.
\<close>

theorem budget_merge_commutes: "merge_budgets dg base local remote = merge_budgets dg base remote local"
proof -
  have "merged_records b l r = merged_records b r l" for b l r
    unfolding merged_records_def account_record.merge_records_swap [of "bd_accounts b" "bd_accounts l"] category_record.merge_records_swap [of "bd_categories b" "bd_categories l"]
      place_record.merge_records_swap [of "bd_places b" "bd_places l"] transaction_record.merge_records_swap [of "bd_transactions b" "bd_transactions l"] by (rule refl)
  then show ?thesis by (simp add: merge_budgets_def split: option.split)
qed

text \<open>
  C14: a merged budget is a readable one in which every account, category, place and transaction is what the three-way rule makes of
  the three versions - the record of the device that changed it, taken whole -, and no record was changed differently by both.
\<close>

theorem merged_budget_exact:
  assumes "merge_budgets dg base local remote = Some raw"
  shows "\<exists>b l r m. read_base dg base = Some b \<and> read_budget dg local = Some l \<and> read_budget dg remote = Some r \<and> parse_budget dg (utf8_decode raw) = Inr m
    \<and> (let o' = (case b of None \<Rightarrow> empty_budget | Some b \<Rightarrow> b) in
       (\<forall>i. three_way_record (record_at ba_id (bd_accounts o') i) (record_at ba_id (bd_accounts l) i) (record_at ba_id (bd_accounts r) i) = Some (record_at ba_id (bd_accounts m) i))
     \<and> (\<forall>i. three_way_record (record_at bc_id (bd_categories o') i) (record_at bc_id (bd_categories l) i) (record_at bc_id (bd_categories r) i) = Some (record_at bc_id (bd_categories m) i))
     \<and> (\<forall>i. three_way_record (record_at bp_id (bd_places o') i) (record_at bp_id (bd_places l) i) (record_at bp_id (bd_places r) i) = Some (record_at bp_id (bd_places m) i))
     \<and> (\<forall>i. three_way_record (record_at tx_id (bd_transactions o') i) (record_at tx_id (bd_transactions l) i) (record_at tx_id (bd_transactions r) i) = Some (record_at tx_id (bd_transactions m) i)))"
proof -
  from assms obtain b l r d m s where reads: "read_base dg base = Some b" "read_budget dg local = Some l" "read_budget dg remote = Some r"
    and d: "merged_records (case b of None \<Rightarrow> empty_budget | Some b \<Rightarrow> b) l r = Some d" and m: "validate_budget dg (json_of_budget d) = Inr m"
    and s: "serialize_budget dg m = Inr s" "raw = utf8_encode s"
    by (auto simp: merge_budgets_def split: option.splits sum.splits if_splits)
  let ?o = "case b of None \<Rightarrow> empty_budget | Some b \<Rightarrow> b"
  note parts = merged_parts [OF d]
  have ids: "distinct (map ba_id (bd_accounts d))" "distinct (map bc_id (bd_categories d))" "distinct (map bp_id (bd_places d))" "distinct (map tx_id (bd_transactions d))"
    using account_record.merge_records_exact(1) [OF parts(1)] category_record.merge_records_exact(1) [OF parts(2)]
      place_record.merge_records_exact(1) [OF parts(3)] transaction_record.merge_records_exact(1) [OF parts(4)] by blast+
  have ok: "budget_ok dg m" using m by (rule validate_budget_ok)
  obtain raw' where "serialize_budget dg m = Inr raw'" "parse_budget dg raw' = Inr (sorted_budget m)" using parse_serialized [OF ok] by blast
  then have parsed: "parse_budget dg (utf8_decode raw) = Inr (sorted_budget m)" using s by simp
  have same: "m = d" using merged_validates [OF d read_budget_ok [OF reads(2)] read_budget_ok [OF reads(3)] m] .
  show ?thesis
    using reads parsed account_record.merge_records_exact(2) [OF parts(1)] category_record.merge_records_exact(2) [OF parts(2)]
      place_record.merge_records_exact(2) [OF parts(3)] transaction_record.merge_records_exact(2) [OF parts(4)]
      account_record.record_at_sorted [OF ids(1)] category_record.record_at_sorted [OF ids(2)] place_record.record_at_sorted [OF ids(3)] transaction_record.record_at_sorted [OF ids(4)]
    unfolding same Let_def by (intro exI [of _ b] exI [of _ l] exI [of _ r] exI [of _ "sorted_budget d"]) (simp add: sorted_budget_def)
qed

theorem merged_budget_exact_witness:
  "\<exists>raw. merge_budgets two_digits None raw raw = Some raw \<and> parse_budget two_digits (utf8_decode raw) = Inr demo_budget"
proof -
  have sorted: "sorted_budget demo_budget = demo_budget" by (simp add: sorted_budget_def demo_budget_def)
  obtain s where s: "serialize_budget two_digits demo_budget = Inr s" "parse_budget two_digits s = Inr demo_budget"
    using parse_serialized [OF demo_budget_ok] sorted by auto
  have "s = join [char_of (10 :: nat)] [record_line ''budget'' [(''version'', JNum 2000)], record_line ''account'' (account_members (hd (bd_accounts demo_budget))),
      record_line ''category'' (category_members (hd (bd_categories demo_budget))), record_line ''transaction'' (transaction_members (hd (bd_transactions demo_budget)))] @ [char_of (10 :: nat)]"
    using s(1) by (simp add: serialize_budget_def validate_printed [OF demo_budget_ok]) (simp add: demo_budget_def)
  moreover have "ascii (record_line ''budget'' [(''version'', JNum 2000)])" "ascii (record_line ''account'' (account_members (hd (bd_accounts demo_budget))))"
    "ascii (record_line ''category'' (category_members (hd (bd_categories demo_budget))))" "ascii (record_line ''transaction'' (transaction_members (hd (bd_transactions demo_budget))))"
    by (simp_all add: demo_budget_def record_line_def stringify_def account_members_def category_members_def transaction_members_def json_of_int_def json_option_def kind_text_def
        ascii_quote ascii_show_num)
  ultimately have "ascii s" by (simp add: ascii_def)
  then have read: "read_budget two_digits (utf8_encode s) = Some demo_budget" using s(2) by (simp add: read_budget_def decode_ascii)
  have merged: "merged_records empty_budget demo_budget demo_budget = Some demo_budget"
    by (simp add: merged_records_def merge_records_def demo_budget_def empty_budget_def record_at_def same_record_def uniq_def)
  have m: "merge_budgets two_digits None (utf8_encode s) (utf8_encode s) = Some (utf8_encode s)"
    using read merged s(1) validate_printed [OF demo_budget_ok] by (simp add: merge_budgets_def read_base_def currency_change_def)
  from merged_budget_exact [OF m] obtain x where "parse_budget two_digits (utf8_decode (utf8_encode s)) = Inr x" by blast
  then show ?thesis using m s(2) by (intro exI [of _ "utf8_encode s"]) simp
qed

lemma rounded_half_up:
  fixes p s :: int
  assumes "0 < s"
  defines "n \<equiv> p div s + (if p mod s * 2 \<ge> s then 1 else 0)"
  shows "(2 * n - 1) * s \<le> 2 * p" "2 * p < (2 * n + 1) * s"
proof -
  have p: "p = p div s * s + p mod s" by simp
  have m: "0 \<le> p mod s" "p mod s < s" using assms(1) by simp_all
  have "(2 * n - 1) * s = 2 * (p div s * s) + (if p mod s * 2 \<ge> s then s else - s)"
    "(2 * n + 1) * s = 2 * (p div s * s) + (if p mod s * 2 \<ge> s then 3 * s else s)"
    by (simp_all add: n_def algebra_simps)
  moreover obtain k r where "p div s * s = k" "p mod s = r" by blast
  ultimately show "(2 * n - 1) * s \<le> 2 * p" "2 * p < (2 * n + 1) * s"
    using p m by - (cases "r * 2 \<ge> s"; simp; linarith)+
qed

text \<open>
  C36: the total of an item is the unit price times the quantity, computed exactly and rounded to whole
  minor units with ties going up: the n with (n - 1/2) \<open>\<le>\<close> price * quantity < (n + 1/2). It is
  returned when it is a safe integer, and is the overflow error otherwise; it never wraps.
\<close>

theorem item_total_rounded:
  assumes "is_safe price" and "0 \<le> price" and "validate_quantity q = Inr q"
  shows "\<exists>n. (2 * n - 1) * snd (quantity_units q) \<le> 2 * (price * fst (quantity_units q))
    \<and> 2 * (price * fst (quantity_units q)) < (2 * n + 1) * snd (quantity_units q) \<and> 0 \<le> n
    \<and> calculate_item_total price q
       = (if n \<le> max_safe then Inr n else Inl (MoneyOverflow ''Item total exceeds the safe integer range''))"
proof -
  let ?u = "fst (quantity_units q)" and ?s = "snd (quantity_units q)"
  note run = calculate_item_total_run [OF assms]
  define n where "n = price * ?u div ?s + (if price * ?u mod ?s * 2 \<ge> ?s then 1 else 0)"
  have pos: "0 \<le> ?u" by (simp add: quantity_units_def split: option.split)
  have "0 \<le> n" using run(1) pos assms(2) by (simp add: n_def pos_imp_zdiv_nonneg_iff)
  moreover have "calculate_item_total price q
      = (if n \<le> max_safe then Inr n else Inl (MoneyOverflow ''Item total exceeds the safe integer range''))"
    using run(2) by (simp add: n_def Let_def)
  ultimately show ?thesis using rounded_half_up [OF run(1), of "price * ?u"] by (intro exI [of _ n]) (simp add: n_def)
qed

theorem item_total_rounded_witness:
  "\<exists>n. (2 * n - 1) * snd (quantity_units ''0.5'') \<le> 2 * (199 * fst (quantity_units ''0.5''))
    \<and> 2 * (199 * fst (quantity_units ''0.5'')) < (2 * n + 1) * snd (quantity_units ''0.5'') \<and> 0 \<le> n
    \<and> calculate_item_total 199 ''0.5''
       = (if n \<le> max_safe then Inr n else Inl (MoneyOverflow ''Item total exceeds the safe integer range''))"
proof -
  have "validate_quantity ''0.5'' = Inr ''0.5''" by code_simp
  moreover have "is_safe 199" by (simp add: is_safe_def max_safe_def)
  ultimately show ?thesis by (intro item_total_rounded) simp_all
qed

end
