(* ===== verification/Base64Url.thy ===== *)
theory Base64Url
  imports Prelude
begin

text \<open>
  The texts pairing puts on the wire: unpadded base64url, the invitation code in Crockford's base 32,
  the QR text, and the constant-time comparison (\<open>packages/crypto/src/pairing-code.ts\<close>,
  \<open>constantTimeEqual\<close> of \<open>pairing.ts\<close>).
\<close>

section \<open>Base 64\<close>

text \<open>\<open>btoa\<close>: three bytes to four characters, padded; \<open>atob\<close> of unpadded text: trailing bits are ignored.\<close>

definition base64_alphabet :: string where
  "base64_alphabet = ''ABCDEFGHIJKLMNOPQRSTUVWXYZabcdefghijklmnopqrstuvwxyz0123456789+/''"

definition sextet_char :: "nat \<Rightarrow> char" where
  "sextet_char n = base64_alphabet ! n"

fun index_in :: "char \<Rightarrow> string \<Rightarrow> nat option" where
  "index_in c [] = None"
| "index_in c (d # ds) = (if c = d then Some 0 else map_option Suc (index_in c ds))"

fun btoa_sextets :: "nat list \<Rightarrow> nat list" where
  "btoa_sextets (a # b # c # bs) = a div 4 # (a mod 4 * 16 + b div 16) # (b mod 16 * 4 + c div 64) # c mod 64 # btoa_sextets bs"
| "btoa_sextets [a, b] = [a div 4, a mod 4 * 16 + b div 16, b mod 16 * 4]"
| "btoa_sextets [a] = [a div 4, a mod 4 * 16]"
| "btoa_sextets [] = []"

fun atob_bytes :: "nat list \<Rightarrow> nat list" where
  "atob_bytes (p # q # r # s # ns) = (p * 4 + q div 16) # (q mod 16 * 16 + r div 4) # (r mod 4 * 64 + s) # atob_bytes ns"
| "atob_bytes [p, q, r] = [p * 4 + q div 16, q mod 16 * 16 + r div 4]"
| "atob_bytes [p, q] = [p * 4 + q div 16]"
| "atob_bytes _ = []"

definition btoa_unpadded :: "bytes \<Rightarrow> string" where
  "btoa_unpadded bs = map sextet_char (btoa_sextets (map unat bs))"

text \<open>The sextets of a text, if every character has one.\<close>

definition sextets_of :: "string \<Rightarrow> nat list option" where
  "sextets_of t = those (map (\<lambda>c. index_in c base64_alphabet) t)"

definition atob_unpadded :: "string \<Rightarrow> bytes option" where
  "atob_unpadded t = map_option (\<lambda>ns. map word_of_nat (atob_bytes ns)) (sextets_of t)"

section \<open>The URL form\<close>

definition url_char :: "char \<Rightarrow> char" where
  "url_char c = (if c = CHR ''+'' then CHR ''-'' else if c = CHR ''/'' then CHR ''_'' else c)"

definition plain_char :: "char \<Rightarrow> char" where
  "plain_char c = (if c = CHR ''-'' then CHR ''+'' else if c = CHR ''_'' then CHR ''/'' else c)"

text \<open>The padding \<open>btoa\<close> adds is stripped again, so it is not built.\<close>

definition to_b64url :: "bytes \<Rightarrow> string" where
  "to_b64url bs = map url_char (btoa_unpadded bs)"

definition b64url_char :: "char \<Rightarrow> bool" where
  "b64url_char c \<longleftrightarrow> in_range CHR ''A'' c CHR ''Z'' \<or> in_range CHR ''a'' c CHR ''z'' \<or> in_range CHR ''0'' c CHR ''9'' \<or> c = CHR ''_'' \<or> c = CHR ''-''"

definition from_b64url :: "string \<Rightarrow> app_error + bytes" where
  "from_b64url t =
     (if \<not> list_all b64url_char t \<or> length t mod 4 = 1 then Inl (ValidationError ''Not base64url'')
      else case atob_unpadded (map plain_char t) of
          None \<Rightarrow> Inl (Thrown ''atob'')
        | Some bs \<Rightarrow> if to_b64url bs \<noteq> t then Inl (ValidationError ''Not canonical base64url'') else Inr bs)"

definition pairing_id_bytes :: nat where "pairing_id_bytes = 16"
definition pairing_token_bytes :: nat where "pairing_token_bytes = 32"
definition pairing_nonce_bytes :: nat where "pairing_nonce_bytes = 16"
definition pairing_key_bytes :: nat where "pairing_key_bytes = 32"

text \<open>\<open>Math.ceil((bytes * 4) / 3)\<close>\<close>

definition b64url_length :: "nat \<Rightarrow> nat" where
  "b64url_length n = (n * 4 + 2) div 3"

definition is_invitation_id :: "string \<Rightarrow> bool" where
  "is_invitation_id t \<longleftrightarrow> list_all b64url_char t \<and> length t = b64url_length pairing_id_bytes"

section \<open>What is decoded was encoded\<close>

lemma unpack: "(y::nat) < k \<Longrightarrow> (x * k + y) div k = x" "(y::nat) < k \<Longrightarrow> (x * k + y) mod k = y"
  by simp_all

lemma byte_parts:
  assumes "(a::nat) < 256"
  shows "a div 4 < 64" "a mod 4 < 4" "a div 16 < 16" "a mod 16 < 16" "a div 64 < 4" "a mod 64 < 64"
  using assms by (simp_all add: div_less_iff_less_mult)

lemma two_parts: "(x::nat) < 4 \<Longrightarrow> y < 16 \<Longrightarrow> x * 16 + y < 64" "(x::nat) < 16 \<Longrightarrow> y < 4 \<Longrightarrow> x * 4 + y < 64"
  by simp_all

lemma sextet_range: "\<forall>n \<in> set ns. n < 256 \<Longrightarrow> \<forall>m \<in> set (btoa_sextets ns). m < 64"
proof (induction ns rule: btoa_sextets.induct)
  case (1 a b c bs)
  then have "a < 256" "b < 256" "c < 256" by simp_all
  note p = byte_parts [OF this(1)] byte_parts [OF this(2)] byte_parts [OF this(3)]
  from p two_parts(1) [OF p(2) p(9)] two_parts(2) [OF p(10) p(17)] 1 show ?case by simp
next
  case (2 a b)
  then have "a < 256" "b < 256" by simp_all
  note p = byte_parts [OF this(1)] byte_parts [OF this(2)]
  from p two_parts(1) [OF p(2) p(9)] two_parts(2) [OF p(10), of 0] show ?case by simp
next
  case (3 a)
  then have "a < 256" by simp
  note p = byte_parts [OF this]
  from p two_parts(1) [OF p(2), of 0] show ?case by simp
qed simp

lemma atob_btoa_nats: "\<forall>n \<in> set ns. n < 256 \<Longrightarrow> atob_bytes (btoa_sextets ns) = ns"
proof (induction ns rule: btoa_sextets.induct)
  case (1 a b c bs)
  then have "b div 16 < 16" "c div 64 < 4" using byte_parts by simp_all
  note u = unpack [OF this(1), of "a mod 4"] unpack [OF this(2), of "b mod 16"]
  have "atob_bytes (btoa_sextets bs) = bs" using 1 by simp
  then show ?case unfolding btoa_sextets.simps atob_bytes.simps u div_mult_mod_eq by simp
next
  case (2 a b)
  then have "b div 16 < 16" using byte_parts by simp
  note u = unpack [OF this, of "a mod 4"]
  have "b mod 16 * 4 div 4 = b mod 16" by simp
  then show ?case unfolding btoa_sextets.simps atob_bytes.simps u by simp
next
  case (3 a)
  have "a mod 4 * 16 div 16 = a mod 4" by simp
  then show ?case unfolding btoa_sextets.simps atob_bytes.simps by simp
qed simp

lemma length_btoa: "length (btoa_sextets ns) mod 4 \<noteq> 1"
  by (induction ns rule: btoa_sextets.induct) auto

lemma sextet_table: "\<forall>n \<in> set [0..<64]. index_in (sextet_char n) base64_alphabet = Some n \<and> b64url_char (url_char (sextet_char n))
    \<and> plain_char (url_char (sextet_char n)) = sextet_char n"
  by code_simp

lemma sextet:
  assumes "n < 64"
  shows "index_in (sextet_char n) base64_alphabet = Some n" "b64url_char (url_char (sextet_char n))"
    "plain_char (url_char (sextet_char n)) = sextet_char n"
  using bspec [OF sextet_table, of n] assms by simp_all

lemma sextets_of_chars: "\<forall>n \<in> set ns. n < 64 \<Longrightarrow> sextets_of (map sextet_char ns) = Some ns"
  by (induction ns) (simp_all add: sextets_of_def sextet)

lemma from_to_b64url [simp]: "from_b64url (to_b64url bs) = Inr bs"
proof -
  let ?ns = "map unat bs"
  have b: "\<forall>n \<in> set ?ns. n < 256" using unsigned_less [where 'a = nat and 'b = 8] by auto
  note s = sextet_range [OF b]
  have "map plain_char (to_b64url bs) = map sextet_char (btoa_sextets ?ns)"
    using s by (simp add: to_b64url_def btoa_unpadded_def sextet comp_def)
  then have "atob_unpadded (map plain_char (to_b64url bs)) = Some bs"
    by (simp add: atob_unpadded_def sextets_of_chars [OF s] atob_btoa_nats [OF b] map_idI)
  moreover have "list_all b64url_char (to_b64url bs)" using s by (simp add: to_b64url_def btoa_unpadded_def list_all_iff sextet)
  moreover have "length (to_b64url bs) mod 4 \<noteq> 1" using length_btoa by (simp add: to_b64url_def btoa_unpadded_def)
  ultimately show ?thesis by (simp add: from_b64url_def)
qed

lemma to_from_b64url: "from_b64url t = Inr bs \<Longrightarrow> to_b64url bs = t"
  by (auto simp: from_b64url_def split: if_splits option.splits)

section \<open>The comparison without an early exit\<close>

unbundle bit_operations_syntax

definition constant_time_equal :: "bytes \<Rightarrow> bytes \<Rightarrow> bool" where
  "constant_time_equal a b \<longleftrightarrow> length a = length b \<and> fold (\<lambda>(x, y) diff. diff OR (x XOR y)) (zip a b) 0 = 0"

lemma or_is_0: "(x :: byte) OR y = 0 \<longleftrightarrow> x = 0 \<and> y = 0"
  by (rule or_eq_0_iff)

lemma xor_is_0: "(x :: byte) XOR y = 0 \<longleftrightarrow> x = y"
  by (metis xor.right_neutral xor.left_commute xor_self_eq)

lemma fold_diff: "fold (\<lambda>(x, y) diff. diff OR (x XOR y)) ps (d :: byte) = 0 \<longleftrightarrow> d = 0 \<and> (\<forall>(x, y) \<in> set ps. x = y)"
  by (induction ps arbitrary: d) (auto simp: or_is_0 xor_is_0)

lemma constant_time_equal_eq: "constant_time_equal a b \<longleftrightarrow> a = b"
proof
  assume "constant_time_equal a b"
  then have l: "length a = length b" and z: "\<forall>(x, y) \<in> set (zip a b). x = y" by (auto simp: constant_time_equal_def fold_diff)
  show "a = b"
  proof (rule nth_equalityI [OF l])
    fix i assume "i < length a"
    then have "(a ! i, b ! i) \<in> set (zip a b)" using l by (auto simp: set_zip)
    then show "a ! i = b ! i" using z by auto
  qed
next
  assume "a = b"
  then show "constant_time_equal a b" by (auto simp: constant_time_equal_def fold_diff set_zip)
qed

section \<open>The invitation code\<close>

definition crockford :: string where "crockford = ''0123456789ABCDEFGHJKMNPQRSTVWXYZ''"

definition invitation_code_length :: nat where "invitation_code_length = 8"

text \<open>The code spelled by five random bytes.\<close>

definition code_bits :: "bytes \<Rightarrow> nat" where
  "code_bits bs = foldl (\<lambda>n b. n * 256 + unat b) 0 bs"

definition invitation_code :: "bytes \<Rightarrow> string" where
  "invitation_code bs = map (\<lambda>i. crockford ! (code_bits bs div 2 ^ (i * 5) mod 32)) (rev [0..<invitation_code_length])"

definition format_invitation_code :: "string \<Rightarrow> string" where
  "format_invitation_code code = take 4 code @ ''-'' @ drop 4 code"

definition similar_char :: "char \<Rightarrow> char" where
  "similar_char c = (if c = CHR ''O'' then CHR ''0'' else if c = CHR ''I'' \<or> c = CHR ''L'' then CHR ''1'' else c)"

definition normalize_invitation_code :: "string \<Rightarrow> string option" where
  "normalize_invitation_code input =
     (let code = map similar_char (filter (\<lambda>c. \<not> is_space c \<and> c \<noteq> CHR ''-'') (map to_upper input))
      in if length code \<noteq> invitation_code_length then None
         else if list_all (\<lambda>c. c \<in> set crockford) code then Some code else None)"

lemma crockford_table: "list_all (\<lambda>c. similar_char (to_upper c) = c \<and> to_upper c = c \<and> \<not> is_space c \<and> c \<noteq> CHR ''-'') crockford"
  by code_simp

lemma normalize_spelled:
  assumes "list_all (\<lambda>c. c \<in> set crockford) code" and "length code = invitation_code_length"
  shows "normalize_invitation_code (format_invitation_code code) = Some code" and "normalize_invitation_code code = Some code"
proof -
  have c: "similar_char c = c" "to_upper c = c" "\<not> is_space c" "c \<noteq> CHR ''-''" if "c \<in> set code" for c
  proof -
    have "c \<in> set crockford" using that assms(1) unfolding list_all_iff by blast
    from bspec [OF crockford_table [unfolded list_all_iff] this]
    show "similar_char c = c" "to_upper c = c" "\<not> is_space c" "c \<noteq> CHR ''-''" by metis+
  qed
  have up: "map to_upper code = code" "map similar_char code = code" using c by (simp_all add: map_idI)
  have keep: "filter (\<lambda>c. \<not> is_space c \<and> c \<noteq> CHR ''-'') code = code" using c by (simp add: filter_id_conv)
  let ?keep = "filter (\<lambda>c. \<not> is_space c \<and> c \<noteq> CHR ''-'')"
  have dash: "?keep (map to_upper ''-'') = []" by code_simp
  have "?keep (map to_upper (format_invitation_code code)) = ?keep (map to_upper (take 4 code)) @ ?keep (map to_upper (drop 4 code))"
    unfolding format_invitation_code_def map_append filter_append dash append_Nil ..
  also have "\<dots> = ?keep (map to_upper (take 4 code @ drop 4 code))" unfolding map_append filter_append ..
  also have "\<dots> = code" unfolding append_take_drop_id up(1) keep ..
  finally have dashed: "?keep (map to_upper (format_invitation_code code)) = code" .
  have plain: "?keep (map to_upper code) = code" unfolding up(1) keep ..
  show "normalize_invitation_code (format_invitation_code code) = Some code"
    unfolding normalize_invitation_code_def dashed Let_def up(2) using assms by simp
  show "normalize_invitation_code code = Some code"
    unfolding normalize_invitation_code_def plain Let_def up(2) using assms by simp
qed

lemma invitation_code_spelled: "list_all (\<lambda>c. c \<in> set crockford) (invitation_code bs)" "length (invitation_code bs) = invitation_code_length"
proof -
  have "length crockford = 32" by (simp add: crockford_def)
  then have "crockford ! (n mod 32) \<in> set crockford" for n by simp
  then show "list_all (\<lambda>c. c \<in> set crockford) (invitation_code bs)" unfolding invitation_code_def list_all_iff set_map by blast
qed (simp add: invitation_code_def)

section \<open>The QR text\<close>

text \<open>\<open>URL\<close>, \<open>encodeURIComponent\<close> and \<open>decodeURIComponent\<close> of the platform.\<close>

record url =
  url_protocol :: string
  url_username :: string
  url_password :: string
  url_search :: string
  url_hash :: string
  url_origin :: string
  url_pathname :: string

record url_env =
  ue_parse :: "string \<Rightarrow> url option"
  ue_encode :: "string \<Rightarrow> string"
  ue_decode :: "string \<Rightarrow> string option"

definition strip_slashes :: "string \<Rightarrow> string" where
  "strip_slashes s = rev (dropWhile (\<lambda>c. c = CHR ''/'') (rev s))"

definition server_origin :: "url_env \<Rightarrow> string \<Rightarrow> string option" where
  "server_origin env server =
     (case ue_parse env server of
        None \<Rightarrow> None
      | Some u \<Rightarrow>
          if url_protocol u \<noteq> ''https:'' \<and> url_protocol u \<noteq> ''http:'' then None
          else if url_username u \<noteq> [] \<or> url_password u \<noteq> [] \<or> url_search u \<noteq> [] \<or> url_hash u \<noteq> [] then None
          else Some (url_origin u @ strip_slashes (url_pathname u)))"

definition qr_prefix :: string where "qr_prefix = ''arxhub://pair?''"

definition invitation_qr :: "url_env \<Rightarrow> string \<Rightarrow> string \<Rightarrow> app_error + string" where
  "invitation_qr env server i =
     (case server_origin env server of
        None \<Rightarrow> Inl (ValidationError ''Not a server address'')
      | Some origin \<Rightarrow>
          if \<not> is_invitation_id i then Inl (ValidationError ''Not an invitation id'')
          else Inr (qr_prefix @ ''v=1&server='' @ ue_encode env origin @ ''&id='' @ i))"

text \<open>One field of the query, cut at its first equals sign.\<close>

definition qr_field :: "url_env \<Rightarrow> string \<Rightarrow> string rec \<Rightarrow> string rec option" where
  "qr_field env field vals =
     (let key = takeWhile (\<lambda>c. c \<noteq> CHR ''='') field
      in if key = [] \<or> key = field then None
         else if rget vals key \<noteq> None then None
         else map_option (\<lambda>v. vals @ [(key, v)]) (ue_decode env (drop (Suc (length key)) field)))"

fun qr_fields :: "url_env \<Rightarrow> string list \<Rightarrow> string rec \<Rightarrow> string rec option" where
  "qr_fields env [] vals = Some vals"
| "qr_fields env (f # fs) vals = (case qr_field env f vals of None \<Rightarrow> None | Some vals \<Rightarrow> qr_fields env fs vals)"

definition parse_invitation_qr :: "url_env \<Rightarrow> string \<Rightarrow> (string \<times> string) option" where
  "parse_invitation_qr env t =
     (if \<not> starts_with t qr_prefix then None
      else let fields = split_on CHR ''&'' (drop (length qr_prefix) t)
           in if length fields \<noteq> 3 then None
              else case qr_fields env fields [] of
                  None \<Rightarrow> None
                | Some vals \<Rightarrow>
                    if rget vals ''v'' \<noteq> Some ''1'' then None
                    else (case (rget vals ''id'', rget vals ''server'') of
                            (Some i, Some server) \<Rightarrow>
                              if \<not> is_invitation_id i then None
                              else if server_origin env server = Some server then Some (server, i) else None
                          | _ \<Rightarrow> None))"

text \<open>
  What the platform documents: a component decodes to what was encoded, its encoding has no
  ampersand, text of unreserved characters decodes to itself, and an origin is its own origin.
\<close>

definition url_env_ok :: "url_env \<Rightarrow> bool" where
  "url_env_ok env \<longleftrightarrow> (\<forall>s. ue_decode env (ue_encode env s) = Some s \<and> CHR ''&'' \<notin> set (ue_encode env s))
     \<and> (\<forall>s. list_all b64url_char s \<longrightarrow> ue_decode env s = Some s)
     \<and> (\<forall>s t. server_origin env s = Some t \<longrightarrow> server_origin env t = Some t)"

lemma qr_field_of:
  assumes "CHR ''='' \<notin> set key" and "key \<noteq> []" and "rget vals key = None" and "ue_decode env v = Some w"
  shows "qr_field env (key @ CHR ''='' # v) vals = Some (vals @ [(key, w)])"
proof -
  have "takeWhile (\<lambda>c. c \<noteq> CHR ''='') (key @ CHR ''='' # v) = key"
    using assms(1) by (subst takeWhile_append2) auto
  then show ?thesis using assms(2-4) by (simp add: qr_field_def Let_def)
qed

lemma unreserved_no_ampersand: "list_all b64url_char t \<Longrightarrow> CHR ''&'' \<notin> set t"
proof
  assume "list_all b64url_char t" "CHR ''&'' \<in> set t"
  then have "b64url_char CHR ''&''" unfolding list_all_iff by blast
  moreover have "\<not> b64url_char CHR ''&''" by code_simp
  ultimately show False by blast
qed

lemma parse_written_qr:
  assumes env: "url_env_ok env" and qr: "invitation_qr env server i = Inr t"
  shows "\<exists>origin. server_origin env server = Some origin \<and> parse_invitation_qr env t = Some (origin, i)"
proof -
  from qr obtain origin where o: "server_origin env server = Some origin" and i: "is_invitation_id i"
    and t: "t = qr_prefix @ ''v=1&server='' @ ue_encode env origin @ ''&id='' @ i"
    by (auto simp: invitation_qr_def split: option.splits if_splits)
  have il: "list_all b64url_char i" using i by (simp add: is_invitation_id_def)
  have env': "ue_decode env (ue_encode env origin) = Some origin" "CHR ''&'' \<notin> set (ue_encode env origin)" "ue_decode env i = Some i"
    "server_origin env origin = Some origin" "ue_decode env ''1'' = Some ''1''"
  proof -
    have "list_all b64url_char ''1''" by code_simp
    then show "ue_decode env (ue_encode env origin) = Some origin" "CHR ''&'' \<notin> set (ue_encode env origin)" "ue_decode env i = Some i"
      "server_origin env origin = Some origin" "ue_decode env ''1'' = Some ''1''" using env il o unfolding url_env_ok_def by blast+
  qed
  define f1 f2 f3 where f: "f1 = ''v'' @ CHR ''='' # ''1''" "f2 = ''server'' @ CHR ''='' # ue_encode env origin" "f3 = ''id'' @ CHR ''='' # i"
  have no: "CHR ''&'' \<notin> set f1" "CHR ''&'' \<notin> set f2" "CHR ''&'' \<notin> set f3"
    using env'(2) unreserved_no_ampersand [OF il] by (simp_all add: f)
  have "drop (length qr_prefix) t = f1 @ CHR ''&'' # f2 @ CHR ''&'' # f3" by (simp add: t f)
  then have split: "split_on CHR ''&'' (drop (length qr_prefix) t) = [f1, f2, f3]"
    using no by (simp add: split_on_append split_on_plain)
  have "qr_field env f1 [] = Some [(''v'', ''1'')]" using qr_field_of [of "''v''" "[]" env "''1''" "''1''"] env'(5) by (simp add: f)
  moreover have "qr_field env f2 [(''v'', ''1'')] = Some [(''v'', ''1''), (''server'', origin)]"
    using qr_field_of [of "''server''" "[(''v'', ''1'')]" env _ origin] env'(1) by (simp add: f)
  moreover have "qr_field env f3 [(''v'', ''1''), (''server'', origin)] = Some [(''v'', ''1''), (''server'', origin), (''id'', i)]"
    using qr_field_of [of "''id''" "[(''v'', ''1''), (''server'', origin)]" env i i] env'(3) by (simp add: f)
  ultimately have "qr_fields env [f1, f2, f3] [] = Some [(''v'', ''1''), (''server'', origin), (''id'', i)]" by simp
  moreover have "starts_with t qr_prefix" by (simp add: t)
  ultimately have "parse_invitation_qr env t = Some (origin, i)"
    unfolding parse_invitation_qr_def split Let_def using i env'(4) by simp
  with o show ?thesis by blast
qed

text \<open>
  What one side of a pairing writes the other reads, and in one spelling only. Every base64url
  text that is accepted is the one its bytes are written as, and what was written is accepted; a
  generated code is found again as it is shown, with its dash; and a QR text made for an invitation
  scans as the server's origin and that invitation.
\<close>

theorem pairing_texts_round_trip:
  assumes "url_env_ok env"
  shows "from_b64url (to_b64url bs) = Inr bs \<and> (from_b64url t = Inr bs \<longrightarrow> t = to_b64url bs)
    \<and> normalize_invitation_code (format_invitation_code (invitation_code rs)) = Some (invitation_code rs)
    \<and> (invitation_qr env server i = Inr q \<longrightarrow> map_option fst (parse_invitation_qr env q) = server_origin env server
          \<and> map_option snd (parse_invitation_qr env q) = Some i)"
  using to_from_b64url normalize_spelled(1) [OF invitation_code_spelled] parse_written_qr [OF assms] by fastforce

fun undo_escapes :: "string \<Rightarrow> string" where
  "undo_escapes [] = []"
| "undo_escapes [c] = [c]"
| "undo_escapes (c # d # s) = (if c = CHR ''%'' then (if d = CHR ''a'' then CHR ''&'' else CHR ''%'') # undo_escapes s else c # undo_escapes (d # s))"

definition demo_url_env :: url_env where
  "demo_url_env = \<lparr>ue_parse = (\<lambda>s. if s = ''https://hub'' then Some \<lparr>url_protocol = ''https:'', url_username = [], url_password = [], url_search = [], url_hash = [],
     url_origin = ''https://hub'', url_pathname = ''/''\<rparr> else None),
     ue_encode = concat \<circ> map (\<lambda>c. if c = CHR ''&'' then ''%a'' else if c = CHR ''%'' then ''%p'' else [c]),
     ue_decode = (\<lambda>s. Some (undo_escapes s))\<rparr>"

lemma undo_plain: "c \<noteq> CHR ''%'' \<Longrightarrow> undo_escapes (c # s) = c # undo_escapes s"
  by (cases s) auto

lemma undo_escaped: "undo_escapes (concat (map (\<lambda>c. if c = CHR ''&'' then ''%a'' else if c = CHR ''%'' then ''%p'' else [c]) s)) = s"
  by (induction s) (auto simp: undo_plain)

lemma undo_unreserved: "list_all b64url_char s \<Longrightarrow> undo_escapes s = s"
proof (induction s)
  case (Cons c s)
  have "\<not> b64url_char CHR ''%''" by code_simp
  with Cons have "c \<noteq> CHR ''%''" by auto
  with Cons show ?case by (simp add: undo_plain)
qed simp

lemma demo_url_env_ok: "url_env_ok demo_url_env"
proof -
  have "server_origin demo_url_env ''https://hub'' = Some ''https://hub''" by code_simp
  moreover have "server_origin demo_url_env s = Some t \<Longrightarrow> s = ''https://hub''" for s t
    by (auto simp: server_origin_def demo_url_env_def split: if_splits)
  ultimately have "\<forall>s t. server_origin demo_url_env s = Some t \<longrightarrow> server_origin demo_url_env t = Some t" by (metis option.inject)
  then show ?thesis unfolding url_env_ok_def
    by (auto simp: demo_url_env_def undo_escaped undo_unreserved split: if_splits)
qed

theorem pairing_texts_round_trip_witness:
  "map_option snd (parse_invitation_qr demo_url_env (qr_prefix @ ''v=1&server=https://hub&id=AAAAAAAAAAAAAAAAAAAAAA'')) = Some ''AAAAAAAAAAAAAAAAAAAAAA''"
proof -
  have "invitation_qr demo_url_env ''https://hub'' ''AAAAAAAAAAAAAAAAAAAAAA'' = Inr (qr_prefix @ ''v=1&server=https://hub&id=AAAAAAAAAAAAAAAAAAAAAA'')"
    by code_simp
  with pairing_texts_round_trip [OF demo_url_env_ok] show ?thesis by blast
qed

end
