(* ===== verification/Relay.thy ===== *)
theory Relay
  imports Base64Url
begin

text \<open>
  The pairing relay of the server: \<open>plugins/protection/src/pairing/relay.ts\<close> with the limits of
  \<open>wire.ts\<close>. It holds invitations in memory and passes keys, nonces and one ciphertext between two
  devices. Every operation is called at some time \<open>now\<close>, in milliseconds; the token bucket is kept
  in thousandths of a token.
\<close>

section \<open>Limits\<close>

definition pairing_ttl_ms :: int where "pairing_ttl_ms = 5 * 60000"
definition max_open_invitations :: nat where "max_open_invitations = 4"
definition max_ciphertext_bytes :: nat where "max_ciphertext_bytes = 4096"
definition max_device_name_length :: nat where "max_device_name_length = 64"
definition join_rate_per_second :: int where "join_rate_per_second = 4"
definition join_burst :: int where "join_burst = 8"
definition join_requests_per_invitation :: nat where "join_requests_per_invitation = 600"
definition claim_misses_per_minute :: nat where "claim_misses_per_minute = 30"
definition minute_ms :: int where "minute_ms = 60000"

section \<open>State\<close>

datatype pairing_state = PsOpen | PsClaimed | PsNonced | PsRevealed | PsDelivered | PsCompleted | PsCancelled

definition terminal :: "pairing_state \<Rightarrow> bool" where
  "terminal s \<longleftrightarrow> s = PsCompleted \<or> s = PsCancelled"

record limiter =
  lm_tokens :: int
  lm_updatedAt :: int
  lm_used :: nat

record joiner =
  jn_key :: "string option"
  jn_commit :: "string option"
  jn_deviceName :: string
  jn_token :: string

record invitation =
  iv_id :: string
  iv_code :: string
  iv_state :: pairing_state
  iv_expiresAt :: int
  iv_hostKey :: "string option"
  iv_joiner :: "joiner option"
  iv_hostNonce :: "string option"
  iv_joinerNonce :: "string option"
  iv_ciphertext :: "string option"
  iv_limiter :: limiter

record relay =
  rl_invitations :: "invitation rec"
  rl_byCode :: "string rec"
  rl_windowStart :: int
  rl_misses :: nat
  rl_codes :: nat
  rl_ids :: nat
  rl_tokens :: nat

definition new_relay :: relay where
  "new_relay = \<lparr>rl_invitations = [], rl_byCode = [], rl_windowStart = 0, rl_misses = 0, rl_codes = 0, rl_ids = 0, rl_tokens = 0\<rparr>"

datatype relay_error =
    PairingNotFound
  | PairingClaimed
  | PairingState
  | PairingForbidden
  | PairingRateLimited int
  | PairingLimit
  | PairingValidation

text \<open>
  The random values to come - codes, invitation identifiers and claim tokens - and which characters
  are in Unicode's category C.
\<close>

record relay_env =
  re_codes :: "nat \<Rightarrow> bytes"
  re_ids :: "nat \<Rightarrow> bytes"
  re_tokens :: "nat \<Rightarrow> bytes"
  re_other :: "char \<Rightarrow> bool"

type_synonym 'a relay_result = "(relay_error + 'a) \<times> relay"

section \<open>Parts\<close>

text \<open>\<open>Math.ceil(x / y)\<close>\<close>

definition ceil_div :: "int \<Rightarrow> int \<Rightarrow> int" where
  "ceil_div x y = - ((- x) div y)"

definition decode_exact :: "string \<Rightarrow> nat \<Rightarrow> bool" where
  "decode_exact v n = (case from_b64url v of Inl _ \<Rightarrow> False | Inr b \<Rightarrow> length b = n)"

definition clean_device_name :: "relay_env \<Rightarrow> string \<Rightarrow> string" where
  "clean_device_name env name =
     take max_device_name_length (rev (dropWhile is_space (rev (dropWhile is_space (filter (\<lambda>c. \<not> re_other env c) name)))))"

definition token_matches :: "string \<Rightarrow> string \<Rightarrow> bool" where
  "token_matches expected provided = constant_time_equal (utf8_encode expected) (utf8_encode provided)"

definition ttl :: "int \<Rightarrow> invitation \<Rightarrow> int" where
  "ttl now v = max 0 (ceil_div (iv_expiresAt v - now) 1000)"

definition put_invitation :: "invitation \<Rightarrow> relay \<Rightarrow> relay" where
  "put_invitation v r = r\<lparr>rl_invitations := rset (iv_id v) v (rl_invitations r)\<rparr>"

definition remove_invitation :: "invitation \<Rightarrow> relay \<Rightarrow> relay" where
  "remove_invitation v r =
     r\<lparr>rl_invitations := rdel (iv_id v) (rl_invitations r),
       rl_byCode := (if rget (rl_byCode r) (iv_code v) = Some (iv_id v) then rdel (iv_code v) (rl_byCode r) else rl_byCode r)\<rparr>"

definition end_invitation :: "invitation \<Rightarrow> pairing_state \<Rightarrow> relay \<Rightarrow> relay" where
  "end_invitation v st r =
     (if terminal (iv_state v) then r
      else (put_invitation (v\<lparr>iv_state := st, iv_hostKey := None, iv_hostNonce := None, iv_joinerNonce := None, iv_ciphertext := None,
              iv_joiner := map_option (\<lambda>j. j\<lparr>jn_key := None, jn_commit := None, jn_deviceName := []\<rparr>) (iv_joiner v)\<rparr>) r)
           \<lparr>rl_byCode := rdel (iv_code v) (rl_byCode r)\<rparr>)"

definition live :: "int \<Rightarrow> string \<Rightarrow> relay \<Rightarrow> invitation relay_result" where
  "live now i r =
     (case rget (rl_invitations r) i of
        None \<Rightarrow> (Inl PairingNotFound, r)
      | Some v \<Rightarrow> if iv_expiresAt v \<le> now then (Inl PairingNotFound, remove_invitation v r) else (Inr v, r))"

definition miss :: "int \<Rightarrow> relay \<Rightarrow> 'a relay_result" where
  "miss now r =
     (let r = (if now - rl_windowStart r \<ge> minute_ms then r\<lparr>rl_windowStart := now, rl_misses := 0\<rparr> else r);
          r = r\<lparr>rl_misses := Suc (rl_misses r)\<rparr>
      in if rl_misses r > claim_misses_per_minute
         then (Inl (PairingRateLimited (max 1 (ceil_div (rl_windowStart r + minute_ms - now) 1000))), r)
         else (Inl PairingNotFound, r))"

definition lookup_ref :: "int \<Rightarrow> string \<Rightarrow> relay \<Rightarrow> invitation relay_result" where
  "lookup_ref now ref r =
     (let i = (if is_invitation_id ref then Some ref
               else rget (rl_byCode r) (case normalize_invitation_code ref of None \<Rightarrow> [] | Some c \<Rightarrow> c))
      in case Option.bind i (rget (rl_invitations r)) of
           None \<Rightarrow> miss now r
         | Some v \<Rightarrow>
             if iv_expiresAt v \<le> now then miss now (remove_invitation v r)
             else if terminal (iv_state v) then miss now r
             else (Inr v, r))"

text \<open>The budget: the invitation comes back with its limiter updated, whether or not there was a token.\<close>

definition spend :: "int \<Rightarrow> invitation \<Rightarrow> relay \<Rightarrow> invitation relay_result" where
  "spend now v r =
     (let l = iv_limiter v;
          tokens = min (1000 * join_burst) (lm_tokens l + (now - lm_updatedAt l) * join_rate_per_second);
          l = l\<lparr>lm_tokens := tokens, lm_updatedAt := now\<rparr>
      in if lm_used l \<ge> join_requests_per_invitation
         then (Inl (PairingRateLimited (max 1 (ttl now v))), put_invitation (v\<lparr>iv_limiter := l\<rparr>) r)
         else if tokens < 1000
         then (Inl (PairingRateLimited (max 1 (ceil_div (1000 - tokens) (1000 * join_rate_per_second)))), put_invitation (v\<lparr>iv_limiter := l\<rparr>) r)
         else let v = v\<lparr>iv_limiter := l\<lparr>lm_tokens := tokens - 1000, lm_used := Suc (lm_used l)\<rparr>\<rparr>
              in (Inr v, put_invitation v r))"

text \<open>Chaining: the first error ends the call.\<close>

definition relay_then :: "'a relay_result \<Rightarrow> ('a \<Rightarrow> relay \<Rightarrow> 'b relay_result) \<Rightarrow> 'b relay_result" where
  "relay_then x f = (case x of (Inl e, r) \<Rightarrow> (Inl e, r) | (Inr a, r) \<Rightarrow> f a r)"

definition require_bytes :: "string \<Rightarrow> nat \<Rightarrow> relay \<Rightarrow> unit relay_result" where
  "require_bytes v n r = (if decode_exact v n then (Inr (), r) else (Inl PairingValidation, r))"

definition require_state :: "invitation \<Rightarrow> pairing_state \<Rightarrow> relay \<Rightarrow> unit relay_result" where
  "require_state v st r = (if iv_state v \<noteq> st then (Inl PairingState, r) else (Inr (), r))"

definition joined :: "int \<Rightarrow> string \<Rightarrow> string option \<Rightarrow> relay \<Rightarrow> invitation relay_result" where
  "joined now i token r =
     relay_then (live now i r) (\<lambda>v r.
     relay_then (spend now v r) (\<lambda>v r.
       (case (iv_joiner v, token) of
          (Some j, Some t) \<Rightarrow> if token_matches (jn_token j) t then (Inr v, r) else (Inl PairingForbidden, r)
        | _ \<Rightarrow> (Inl PairingForbidden, r))))"

section \<open>The host's side\<close>

definition sweep :: "int \<Rightarrow> relay \<Rightarrow> relay" where
  "sweep now r = fold (\<lambda>(_, v) r. if iv_expiresAt v \<le> now then remove_invitation v r else r) (rl_invitations r) r"

record created =
  cr_id :: string
  cr_code :: string
  cr_expiresAt :: int
  cr_ttl :: int

text \<open>\<open>while (this.byCode.has(code)) code = generateInvitationCode()\<close>; it may not end.\<close>

partial_function (option) draw_code :: "relay_env \<Rightarrow> string rec \<Rightarrow> nat \<Rightarrow> (string \<times> nat) option" where
  "draw_code env used n =
     (let code = invitation_code (re_codes env n)
      in if rget used code \<noteq> None then draw_code env used (Suc n) else Some (code, Suc n))"

text \<open>\<open>None\<close> is a call that does not return.\<close>

definition create_invitation :: "relay_env \<Rightarrow> int \<Rightarrow> string \<Rightarrow> relay \<Rightarrow> created relay_result option" where
  "create_invitation env now host_key r =
     (if \<not> decode_exact host_key 32 then Some (Inl PairingValidation, r)
      else let r = sweep now r;
               n_open = length (filter (\<lambda>(_, v). \<not> terminal (iv_state v)) (rl_invitations r))
           in if n_open \<ge> max_open_invitations then Some (Inl PairingLimit, r)
              else case draw_code env (rl_byCode r) (rl_codes r) of
                  None \<Rightarrow> None
                | Some (code, n) \<Rightarrow>
                    let i = to_b64url (re_ids env (rl_ids r));
                        v = \<lparr>iv_id = i, iv_code = code, iv_state = PsOpen, iv_expiresAt = now + pairing_ttl_ms, iv_hostKey = Some host_key,
                             iv_joiner = None, iv_hostNonce = None, iv_joinerNonce = None, iv_ciphertext = None,
                             iv_limiter = \<lparr>lm_tokens = 1000 * join_burst, lm_updatedAt = now, lm_used = 0\<rparr>\<rparr>;
                        r = put_invitation v (r\<lparr>rl_codes := n, rl_ids := Suc (rl_ids r)\<rparr>)
                    in Some (Inr \<lparr>cr_id = i, cr_code = code, cr_expiresAt = iv_expiresAt v, cr_ttl = ttl now v\<rparr>,
                         r\<lparr>rl_byCode := rset code i (rl_byCode r)\<rparr>))"

record host_view =
  hv_state :: pairing_state
  hv_ttl :: int
  hv_joiner :: "(string \<times> string \<times> string) option"
  hv_joinerNonce :: "string option"

definition host_view_of :: "int \<Rightarrow> invitation \<Rightarrow> host_view" where
  "host_view_of now v =
     \<lparr>hv_state = iv_state v, hv_ttl = ttl now v,
       hv_joiner = (case iv_joiner v of
            None \<Rightarrow> None
          | Some j \<Rightarrow> (case (jn_key j, jn_commit j) of (Some k, Some c) \<Rightarrow> Some (k, c, jn_deviceName j) | _ \<Rightarrow> None)),
       hv_joinerNonce = iv_joinerNonce v\<rparr>"

definition host_view :: "int \<Rightarrow> string \<Rightarrow> relay \<Rightarrow> host_view relay_result" where
  "host_view now i r = relay_then (live now i r) (\<lambda>v r. (Inr (host_view_of now v), r))"

definition host_nonce :: "int \<Rightarrow> string \<Rightarrow> string \<Rightarrow> relay \<Rightarrow> unit relay_result" where
  "host_nonce now i nonce r =
     relay_then (require_bytes nonce 16 r) (\<lambda>_ r.
     relay_then (live now i r) (\<lambda>v r.
     relay_then (require_state v PsClaimed r) (\<lambda>_ r.
       (Inr (), put_invitation (v\<lparr>iv_hostNonce := Some nonce, iv_state := PsNonced\<rparr>) r))))"

definition deliver :: "int \<Rightarrow> string \<Rightarrow> string \<Rightarrow> relay \<Rightarrow> unit relay_result" where
  "deliver now i ciphertext r =
     (case from_b64url ciphertext of
        Inl _ \<Rightarrow> (Inl PairingValidation, r)
      | Inr b \<Rightarrow>
          if length b > max_ciphertext_bytes then (Inl PairingValidation, r)
          else relay_then (live now i r) (\<lambda>v r.
               relay_then (require_state v PsRevealed r) (\<lambda>_ r.
                 (Inr (), put_invitation (v\<lparr>iv_ciphertext := Some ciphertext, iv_state := PsDelivered\<rparr>) r))))"

definition host_cancel :: "int \<Rightarrow> string \<Rightarrow> relay \<Rightarrow> unit relay_result" where
  "host_cancel now i r = relay_then (live now i r) (\<lambda>v r. (Inr (), end_invitation v PsCancelled r))"

section \<open>The joiner's side\<close>

record claim_body =
  cb_joinerKey :: string
  cb_commit :: string
  cb_deviceName :: string

record claimed =
  cl_id :: string
  cl_hostKey :: string
  cl_token :: string
  cl_ttl :: int

definition claim :: "relay_env \<Rightarrow> int \<Rightarrow> string \<Rightarrow> claim_body \<Rightarrow> relay \<Rightarrow> claimed relay_result" where
  "claim env now ref body r =
     relay_then (require_bytes (cb_joinerKey body) 32 r) (\<lambda>_ r.
     relay_then (require_bytes (cb_commit body) 32 r) (\<lambda>_ r.
     relay_then (lookup_ref now ref r) (\<lambda>v r.
     relay_then (spend now v r) (\<lambda>v r.
       (case iv_hostKey v of
          None \<Rightarrow> (Inl PairingClaimed, r)
        | Some hk \<Rightarrow>
            if iv_state v \<noteq> PsOpen then (Inl PairingClaimed, r)
            else let token = to_b64url (re_tokens env (rl_tokens r));
                     j = \<lparr>jn_key = Some (cb_joinerKey body), jn_commit = Some (cb_commit body),
                          jn_deviceName = clean_device_name env (cb_deviceName body), jn_token = token\<rparr>
                 in (Inr \<lparr>cl_id = iv_id v, cl_hostKey = hk, cl_token = token, cl_ttl = ttl now v\<rparr>,
                     put_invitation (v\<lparr>iv_joiner := Some j, iv_state := PsClaimed\<rparr>) (r\<lparr>rl_tokens := Suc (rl_tokens r)\<rparr>)))))))"

record joiner_view =
  jv_state :: pairing_state
  jv_ttl :: int
  jv_hostNonce :: "string option"
  jv_ciphertext :: "string option"

definition joiner_view :: "int \<Rightarrow> string \<Rightarrow> string option \<Rightarrow> relay \<Rightarrow> joiner_view relay_result" where
  "joiner_view now i token r =
     relay_then (joined now i token r) (\<lambda>v r.
       (Inr \<lparr>jv_state = iv_state v, jv_ttl = ttl now v, jv_hostNonce = iv_hostNonce v, jv_ciphertext = iv_ciphertext v\<rparr>, r))"

definition reveal :: "int \<Rightarrow> string \<Rightarrow> string option \<Rightarrow> string \<Rightarrow> relay \<Rightarrow> unit relay_result" where
  "reveal now i token nonce r =
     relay_then (require_bytes nonce 16 r) (\<lambda>_ r.
     relay_then (joined now i token r) (\<lambda>v r.
     relay_then (require_state v PsNonced r) (\<lambda>_ r.
       (Inr (), put_invitation (v\<lparr>iv_joinerNonce := Some nonce, iv_state := PsRevealed\<rparr>) r))))"

definition ack :: "int \<Rightarrow> string \<Rightarrow> string option \<Rightarrow> relay \<Rightarrow> unit relay_result" where
  "ack now i token r =
     relay_then (joined now i token r) (\<lambda>v r.
     relay_then (require_state v PsDelivered r) (\<lambda>_ r.
       (Inr (), end_invitation v PsCompleted r)))"

definition joiner_cancel :: "int \<Rightarrow> string \<Rightarrow> string option \<Rightarrow> relay \<Rightarrow> unit relay_result" where
  "joiner_cancel now i token r = relay_then (joined now i token r) (\<lambda>v r. (Inr (), end_invitation v PsCancelled r))"

end
