(* ===== verification/Pairing.thy ===== *)
theory Pairing
  imports Relay Cipher JsonFields
begin

text \<open>
  What the two devices of a pairing compute and how they talk to the relay: the commitment, the digits,
  the key and the payload (\<open>packages/crypto/src/pairing.ts\<close>), the errors of
  \<open>plugins/protection/src/pairing/errors.ts\<close>, the routes of the server (\<open>pairing-routes.ts\<close>) and how a
  client reads a refusal (\<open>relayError\<close> of \<open>pairing-client.ts\<close>).
\<close>

section \<open>Errors\<close>

text \<open>
  The codes of the errors; a rate limit carries its seconds in thousandths. \<open>PeForeign\<close> is a value that
  is not an error at all: \<open>rebuild[code]\<close> finds what every object inherits, and what that returns is
  taken for one; where that is not a function or throws, nothing is even assigned (\<open>PeFault\<close>).
\<close>

datatype pair_error =
    PeNotFound
  | PeClaimed
  | PeState
  | PeForbidden
  | PeRateLimited int
  | PeLimit
  | PeCommitMismatch
  | PeSasMismatch
  | PeExpired
  | PeCancelled
  | PeUnreachable
  | PeRefused nat
  | PeValidation
  | PeKeyInvalid
  | PePayloadInvalid
  | PeDecryption
  | PeForeign
  | PeFault

definition pair_retry_after :: "pair_error \<Rightarrow> int option" where
  "pair_retry_after e = (case e of PeRateLimited s \<Rightarrow> Some s | _ \<Rightarrow> None)"

definition inherited_names :: "string list" where
  "inherited_names = [''constructor'', ''toString'', ''toLocaleString'', ''valueOf'', ''hasOwnProperty'', ''isPrototypeOf'',
     ''propertyIsEnumerable'']"

definition faulting_names :: "string list" where
  "faulting_names = [''__proto__'', ''__defineGetter__'', ''__defineSetter__'']"

definition pairing_error_from_body :: "json option \<Rightarrow> pair_error option" where
  "pairing_error_from_body body =
     (case body of
        Some (JObj kvs) \<Rightarrow>
          (case (rget (js_object kvs) ''code'', rget (js_object kvs) ''message'') of
             (Some (JStr code), Some (JStr message)) \<Rightarrow>
               if code = ''PairingNotFoundError'' then Some PeNotFound
               else if code = ''PairingClaimedError'' then Some PeClaimed
               else if code = ''PairingStateError'' then Some PeState
               else if code = ''PairingForbiddenError'' then Some PeForbidden
               else if code = ''PairingRateLimitedError''
               then Some (PeRateLimited (case rget (js_object kvs) ''retryAfterSeconds'' of Some (JNum k) \<Rightarrow> k | _ \<Rightarrow> 1000))
               else if code = ''PairingLimitError'' then Some PeLimit
               else if code \<in> set inherited_names then Some PeForeign
               else if code \<in> set faulting_names then Some PeFault
               else None
           | _ \<Rightarrow> None)
      | _ \<Rightarrow> None)"

section \<open>Keys, digits and the payload\<close>

text \<open>
  SHA-256, HKDF, X25519 and AES-GCM are libraries, so are the phrase's checksum and the URL parser;
  \<open>pe_shared\<close> is \<open>None\<close> where the library throws. The random values are those to come.
\<close>

record pairing_env =
  pe_sha256 :: "bytes \<Rightarrow> bytes"
  pe_hkdf :: "bytes \<Rightarrow> bytes \<Rightarrow> bytes \<Rightarrow> nat \<Rightarrow> bytes"
  pe_public :: "bytes \<Rightarrow> bytes"
  pe_shared :: "bytes \<Rightarrow> bytes \<Rightarrow> bytes option"
  pe_gcm :: gcm
  pe_phrase_ok :: "string \<Rightarrow> bool"
  pe_url :: url_env
  pe_secrets :: "nat \<Rightarrow> bytes"
  pe_nonces :: "nat \<Rightarrow> bytes"
  pe_ivs :: "nat \<Rightarrow> bytes"

definition require_length :: "bytes \<Rightarrow> nat \<Rightarrow> pair_error + unit" where
  "require_length b n = (if length b \<noteq> n then Inl PeKeyInvalid else Inr ())"

definition pairing_commit :: "pairing_env \<Rightarrow> bytes \<Rightarrow> bytes \<Rightarrow> pair_error + bytes" where
  "pairing_commit env joiner_nonce joiner_key =
     and_then (require_length joiner_nonce pairing_nonce_bytes) (\<lambda>_.
     and_then (require_length joiner_key pairing_key_bytes) (\<lambda>_.
       Inr (pe_sha256 env (joiner_nonce @ joiner_key))))"

definition pairing_commit_matches :: "pairing_env \<Rightarrow> bytes \<Rightarrow> bytes \<Rightarrow> bytes \<Rightarrow> pair_error + bool" where
  "pairing_commit_matches env commit joiner_nonce joiner_key =
     and_then (pairing_commit env joiner_nonce joiner_key) (\<lambda>c. Inr (constant_time_equal commit c))"

definition sas_info :: bytes where "sas_info = utf8_encode ''arxhub/pair/sas/v1''"
definition key_info :: bytes where "key_info = utf8_encode ''arxhub/pair/key/v1''"

text \<open>\<open>DataView.getUint32(0, false)\<close> and \<open>padStart(6, '0')\<close>\<close>

definition sas_uint32 :: "bytes \<Rightarrow> 32 word" where
  "sas_uint32 b = push_bit 24 (ucast (b ! 0)) OR push_bit 16 (ucast (b ! 1)) OR push_bit 8 (ucast (b ! 2)) OR ucast (b ! 3)"

definition pad_start :: "nat \<Rightarrow> char \<Rightarrow> string \<Rightarrow> string" where
  "pad_start n c s = replicate (n - length s) c @ s"

definition derive_pairing_sas :: "pairing_env \<Rightarrow> string \<Rightarrow> bytes \<Rightarrow> bytes \<Rightarrow> bytes \<Rightarrow> bytes \<Rightarrow> pair_error + string" where
  "derive_pairing_sas env i host_key joiner_key hn jn =
     and_then (require_length host_key pairing_key_bytes) (\<lambda>_.
     and_then (require_length joiner_key pairing_key_bytes) (\<lambda>_.
     and_then (require_length hn pairing_nonce_bytes) (\<lambda>_.
     and_then (require_length jn pairing_nonce_bytes) (\<lambda>_.
       (let okm = pe_hkdf env (host_key @ joiner_key) (pe_sha256 env (utf8_encode i)) (sas_info @ hn @ jn) 4
        in Inr (pad_start 6 CHR ''0'' (show_nat (unat (sas_uint32 okm) mod 1000000))))))))"

definition format_pairing_sas :: "string \<Rightarrow> string" where
  "format_pairing_sas sas = take 3 sas @ '' '' @ drop 3 sas"

definition derive_pairing_key :: "pairing_env \<Rightarrow> string \<Rightarrow> bytes \<Rightarrow> bytes \<Rightarrow> bytes \<Rightarrow> bytes \<Rightarrow> pair_error + bytes" where
  "derive_pairing_key env i own_secret peer_public host_key joiner_key =
     and_then (require_length peer_public pairing_key_bytes) (\<lambda>_.
     and_then (require_length host_key pairing_key_bytes) (\<lambda>_.
     and_then (require_length joiner_key pairing_key_bytes) (\<lambda>_.
       (case pe_shared env own_secret peer_public of
          None \<Rightarrow> Inl PeKeyInvalid
        | Some shared \<Rightarrow>
            if list_all (\<lambda>b. b = 0) shared then Inl PeKeyInvalid
            else Inr (pe_hkdf env shared (pe_sha256 env (utf8_encode i)) (key_info @ host_key @ joiner_key) 32)))))"

record pairing_payload =
  pp_mnemonic :: string
  pp_serverUrl :: string

definition seal_pairing_payload :: "pairing_env \<Rightarrow> bytes \<Rightarrow> bytes \<Rightarrow> pairing_payload \<Rightarrow> bytes" where
  "seal_pairing_payload env key iv p =
     encrypt (pe_gcm env) key iv (utf8_encode (stringify
       (JObj [(''v'', JNum 1000), (''mnemonic'', JStr (pp_mnemonic p)), (''serverUrl'', JStr (pp_serverUrl p))])))"

definition open_pairing_payload :: "pairing_env \<Rightarrow> bytes \<Rightarrow> bytes \<Rightarrow> pair_error + pairing_payload" where
  "open_pairing_payload env key blob =
     (case decrypt (pe_gcm env) key blob of
        Inl _ \<Rightarrow> Inl PeDecryption
      | Inr plaintext \<Rightarrow>
          (case Option.bind (decode_text plaintext) parse_json of
             Some (JObj kvs) \<Rightarrow>
               (case (rget (js_object kvs) ''v'', rget (js_object kvs) ''mnemonic'', rget (js_object kvs) ''serverUrl'') of
                  (Some v, Some (JStr mnemonic), Some (JStr server)) \<Rightarrow>
                    if v \<noteq> JNum 1000 \<or> \<not> pe_phrase_ok env mnemonic then Inl PePayloadInvalid
                    else Inr \<lparr>pp_mnemonic = mnemonic, pp_serverUrl = server\<rparr>
                | _ \<Rightarrow> Inl PePayloadInvalid)
           | _ \<Rightarrow> Inl PePayloadInvalid))"

section \<open>The wire\<close>

datatype pair_request =
    RqCreate string
  | RqHostView string
  | RqNonce string string
  | RqPayload string string
  | RqHostCancel string
  | RqClaim string claim_body
  | RqJoinerView string "string option"
  | RqReveal string "string option" string
  | RqAck string "string option"
  | RqJoinerCancel string "string option"

text \<open>
  What comes back: an answer, a status that is not a success with the body, if it was JSON, or nothing.
\<close>

datatype pair_reply =
    RpCreated created
  | RpHostView host_view
  | RpClaimed claimed
  | RpJoinerView joiner_view
  | RpEmpty
  | RpStatus nat "json option"
  | RpNothing

definition is_failure :: "pair_reply \<Rightarrow> bool" where
  "is_failure r = (case r of RpStatus _ _ \<Rightarrow> True | RpNothing \<Rightarrow> True | _ \<Rightarrow> False)"

text \<open>\<open>relayError\<close> of what a failed request throws; \<open>None\<close> where the failure has no status.\<close>

definition relay_error_of :: "pair_reply \<Rightarrow> pair_error option" where
  "relay_error_of r =
     (case r of
        RpStatus s body \<Rightarrow>
          (case pairing_error_from_body body of
             Some e \<Rightarrow> Some e
           | None \<Rightarrow> if s = 404 then Some PeNotFound else Some (PeRefused s))
      | _ \<Rightarrow> None)"

section \<open>The routes\<close>

text \<open>The status and the code of a refusal of the relay; the title is left out, the message is any text.\<close>

definition refusal_status :: "relay_error \<Rightarrow> nat" where
  "refusal_status e =
     (case e of PairingNotFound \<Rightarrow> 404 | PairingClaimed \<Rightarrow> 409 | PairingState \<Rightarrow> 409 | PairingForbidden \<Rightarrow> 403
      | PairingRateLimited _ \<Rightarrow> 429 | PairingLimit \<Rightarrow> 429 | PairingValidation \<Rightarrow> 400)"

definition refusal_code :: "relay_error \<Rightarrow> string" where
  "refusal_code e =
     (case e of PairingNotFound \<Rightarrow> ''PairingNotFoundError'' | PairingClaimed \<Rightarrow> ''PairingClaimedError''
      | PairingState \<Rightarrow> ''PairingStateError'' | PairingForbidden \<Rightarrow> ''PairingForbiddenError''
      | PairingRateLimited _ \<Rightarrow> ''PairingRateLimitedError'' | PairingLimit \<Rightarrow> ''PairingLimitError''
      | PairingValidation \<Rightarrow> ''ValidationError'')"

definition refuse :: "relay_error \<Rightarrow> pair_reply" where
  "refuse e = RpStatus (refusal_status e) (Some (JObj
     ([(''code'', JStr (refusal_code e)), (''statusCode'', json_of_nat (refusal_status e)), (''message'', JStr [])] @
      (case e of PairingRateLimited s \<Rightarrow> [(''retryAfterSeconds'', JNum (1000 * s))] | _ \<Rightarrow> []))))"

definition answer :: "('a \<Rightarrow> pair_reply) \<Rightarrow> 'a relay_result \<Rightarrow> pair_reply \<times> relay" where
  "answer f x = (case x of (Inl e, r) \<Rightarrow> (refuse e, r) | (Inr a, r) \<Rightarrow> (f a, r))"

text \<open>The schemas of \<open>wire.ts\<close>.\<close>

definition b64_wire :: "nat \<Rightarrow> string \<Rightarrow> bool" where
  "b64_wire n s \<longleftrightarrow> length s = b64url_length n \<and> list_all b64url_char s"

definition ref_wire :: "string \<Rightarrow> bool" where
  "ref_wire s \<longleftrightarrow> 1 \<le> length s \<and> length s \<le> 32"

definition payload_wire :: "string \<Rightarrow> bool" where
  "payload_wire s \<longleftrightarrow> s \<noteq> [] \<and> list_all b64url_char s \<and> length s \<le> b64url_length max_ciphertext_bytes"

definition claim_wire :: "claim_body \<Rightarrow> bool" where
  "claim_wire b \<longleftrightarrow> b64_wire 32 (cb_joinerKey b) \<and> b64_wire 32 (cb_commit b) \<and> length (cb_deviceName b) \<le> max_device_name_length"

definition well_formed_request :: "pair_request \<Rightarrow> bool" where
  "well_formed_request q =
     (case q of
        RqCreate k \<Rightarrow> b64_wire 32 k
      | RqHostView i \<Rightarrow> ref_wire i
      | RqNonce i n \<Rightarrow> ref_wire i \<and> b64_wire 16 n
      | RqPayload i c \<Rightarrow> ref_wire i \<and> payload_wire c
      | RqHostCancel i \<Rightarrow> ref_wire i
      | RqClaim ref b \<Rightarrow> ref_wire ref \<and> claim_wire b
      | RqJoinerView i _ \<Rightarrow> ref_wire i
      | RqReveal i _ n \<Rightarrow> ref_wire i \<and> b64_wire 16 n
      | RqAck i _ \<Rightarrow> ref_wire i
      | RqJoinerCancel i _ \<Rightarrow> ref_wire i)"

definition serve :: "relay_env \<Rightarrow> int \<Rightarrow> pair_request \<Rightarrow> relay \<Rightarrow> pair_reply \<times> relay" where
  "serve env now q r =
     (if \<not> well_formed_request q then (refuse PairingValidation, r)
      else case q of
        RqCreate k \<Rightarrow> (case create_invitation env now k r of None \<Rightarrow> (RpNothing, r) | Some x \<Rightarrow> answer RpCreated x)
      | RqHostView i \<Rightarrow> answer RpHostView (host_view now i r)
      | RqNonce i n \<Rightarrow> answer (\<lambda>_. RpEmpty) (host_nonce now i n r)
      | RqPayload i c \<Rightarrow> answer (\<lambda>_. RpEmpty) (deliver now i c r)
      | RqHostCancel i \<Rightarrow> answer (\<lambda>_. RpEmpty) (host_cancel now i r)
      | RqClaim ref b \<Rightarrow> answer RpClaimed (claim env now ref b r)
      | RqJoinerView i t \<Rightarrow> answer RpJoinerView (joiner_view now i t r)
      | RqReveal i t n \<Rightarrow> answer (\<lambda>_. RpEmpty) (reveal now i t n r)
      | RqAck i t \<Rightarrow> answer (\<lambda>_. RpEmpty) (ack now i t r)
      | RqJoinerCancel i t \<Rightarrow> answer (\<lambda>_. RpEmpty) (joiner_cancel now i t r))"

section \<open>Tasks under way\<close>

text \<open>At most one of a list.\<close>

definition single :: "('a \<Rightarrow> bool) \<Rightarrow> 'a list \<Rightarrow> bool" where
  "single Q ts \<longleftrightarrow> length (filter Q ts) \<le> 1"

lemma single_simps [simp]: "single Q []" "single Q (t # ts) \<longleftrightarrow> (if Q t then \<forall>u \<in> set ts. \<not> Q u else single Q ts)"
  by (auto simp: single_def filter_empty_conv)

lemma single_remove1: "single Q ts \<Longrightarrow> single Q (remove1 t ts)"
  unfolding single_def by (metis filter_remove1 length_remove1 diff_le_self le_trans)

lemma single_taken: "t \<in> set ts \<Longrightarrow> Q t \<Longrightarrow> single Q ts \<Longrightarrow> u \<in> set (remove1 t ts) \<Longrightarrow> \<not> Q u"
proof (induction ts)
  case (Cons s ts)
  then show ?case by (cases "s = t") (auto split: if_splits)
qed simp

lemma in_remove1: "u \<in> set (remove1 t ts) \<Longrightarrow> u \<in> set ts"
  using set_remove1_subset by fastforce

end
