(* ===== verification/PairHost.thy ===== *)
theory PairHost
  imports Pairing
begin

text \<open>
  The first device of a pairing: \<open>PairingHost\<close> of \<open>plugins/protection/src/pairing/pairing-client.ts\<close>.
  Its methods suspend at every \<open>await\<close>; what is left of a suspended one is a task, and the calls of the
  owner, the answers of the network and the timers come in any order. The answers are those of a relay
  that is not trusted: anything at all.
\<close>

section \<open>State\<close>

datatype host_phase = HpIdle | HpCreating | HpWaiting | HpConnecting | HpCompare | HpSending | HpDone | HpExpired | HpCancelled | HpFailed

record pair_host =
  ho_phase :: host_phase
  ho_invitation :: "(string \<times> string \<times> string) option"
  ho_sas :: "string option"
  ho_deviceName :: "string option"
  ho_ttl :: int
  ho_error :: "pair_error option"
  ho_run :: "nat option"
  ho_aborted :: "nat list"
  ho_runs :: nat
  ho_keys :: "(bytes \<times> bytes) option"
  ho_joiner :: "(bytes \<times> bytes) option"
  ho_hostNonce :: "bytes option"
  ho_joinerNonce :: "bytes option"
  ho_nonces :: nat
  ho_ivs :: nat

definition new_host :: pair_host where
  "new_host = \<lparr>ho_phase = HpIdle, ho_invitation = None, ho_sas = None, ho_deviceName = None, ho_ttl = 0, ho_error = None,
     ho_run = None, ho_aborted = [], ho_runs = 0, ho_keys = None, ho_joiner = None, ho_hostNonce = None, ho_joinerNonce = None,
     ho_nonces = 0, ho_ivs = 0\<rparr>"

text \<open>
  A controller is the number of its run. The tasks, by what they await: the end of \<open>cancel()\<close> in
  \<open>start()\<close> with nothing to delete, the new invitation, the pause before a poll, the pause a rate limit
  asks for, the view of a poll, the nonce's post, the payload's post, the delete of a cancel (in
  \<open>start()\<close> or alone) and the delete of \<open>abandon()\<close> (in a poll or in \<open>confirm()\<close>).
\<close>

datatype host_task =
    HtStarting
  | HtCreate nat
  | HtPause nat string
  | HtBackoff nat string int
  | HtView nat string
  | HtNonce nat string bytes
  | HtPayload
  | HtDelete bool
  | HtAbandoned "nat option"

datatype host_call = CallStart | CallConfirm | CallReject | CallCancel

datatype host_entry = Called host_call | Asked pair_request | Told host_task pair_reply

record host_world =
  hw_host :: pair_host
  hw_tasks :: "host_task list"
  hw_log :: "host_entry list"

record host_options =
  hp_server :: string
  hp_mnemonic :: string

definition new_host_world :: host_world where
  "new_host_world = \<lparr>hw_host = new_host, hw_tasks = [], hw_log = []\<rparr>"

definition on_host :: "(pair_host \<Rightarrow> pair_host) \<Rightarrow> host_world \<Rightarrow> host_world" where
  "on_host f w = w\<lparr>hw_host := f (hw_host w)\<rparr>"

definition await :: "host_task \<Rightarrow> host_world \<Rightarrow> host_world" where
  "await t w = w\<lparr>hw_tasks := t # hw_tasks w\<rparr>"

definition ask :: "pair_request \<Rightarrow> host_task \<Rightarrow> host_world \<Rightarrow> host_world" where
  "ask q t w = await t (w\<lparr>hw_log := Asked q # hw_log w\<rparr>)"

section \<open>Parts\<close>

definition run_aborted :: "nat \<Rightarrow> pair_host \<Rightarrow> bool" where
  "run_aborted run h \<longleftrightarrow> run \<in> set (ho_aborted h)"

definition invitation_id :: "pair_host \<Rightarrow> string option" where
  "invitation_id h = map_option fst (ho_invitation h)"

definition host_forget :: "pair_host \<Rightarrow> pair_host" where
  "host_forget h = h\<lparr>ho_keys := None, ho_joiner := None, ho_hostNonce := None, ho_joinerNonce := None\<rparr>"

text \<open>\<open>this.run = null\<close> and \<open>run.abort()\<close>\<close>

definition abort_run :: "pair_host \<Rightarrow> pair_host" where
  "abort_run h = h\<lparr>ho_run := None, ho_aborted := (case ho_run h of None \<Rightarrow> ho_aborted h | Some run \<Rightarrow> run # ho_aborted h)\<rparr>"

text \<open>\<open>error.body.code\<close> of what is no error throws after the assignment.\<close>

definition settle_failure :: "pair_error \<Rightarrow> pair_host \<Rightarrow> pair_host" where
  "settle_failure e h =
     (if e = PeFault then h
      else if e = PeForeign then h\<lparr>ho_error := Some e\<rparr>
      else h\<lparr>ho_error := Some e, ho_phase := (if e = PeExpired then HpExpired else HpFailed)\<rparr>)"

definition settle_throws :: "pair_error \<Rightarrow> bool" where
  "settle_throws e \<longleftrightarrow> e = PeForeign \<or> e = PeFault"

text \<open>The \<open>finally\<close> and the \<open>catch\<close> of \<open>start()\<close>.\<close>

definition finish_run :: "nat \<Rightarrow> host_world \<Rightarrow> host_world" where
  "finish_run run w = (if ho_run (hw_host w) = Some run then on_host (\<lambda>h. host_forget (h\<lparr>ho_run := None\<rparr>)) w else w)"

definition fail_run :: "nat \<Rightarrow> pair_error \<Rightarrow> host_world \<Rightarrow> host_world" where
  "fail_run run e w = finish_run run (if run_aborted run (hw_host w) then w else on_host (settle_failure e) w)"

text \<open>What the poll does with an error thrown by its step; \<open>None\<close> is a failure without a status.\<close>

definition poll_error :: "nat \<Rightarrow> string \<Rightarrow> pair_error option \<Rightarrow> host_world \<Rightarrow> host_world" where
  "poll_error run i e w =
     (if run_aborted run (hw_host w) then finish_run run w
      else case e of
        None \<Rightarrow> await (HtPause run i) w
      | Some e \<Rightarrow>
          if settle_throws e then fail_run run PeUnreachable w
          else if e = PeNotFound then fail_run run PeExpired w
          else (case pair_retry_after e of
                  Some s \<Rightarrow> await (HtBackoff run i s) w
                | None \<Rightarrow> fail_run run e w))"

definition abandon :: "pair_error \<Rightarrow> nat option \<Rightarrow> host_world \<Rightarrow> host_world" where
  "abandon e back w =
     (let w1 = on_host (settle_failure e) w
      in if settle_throws e then w1
         else let w2 = on_host (\<lambda>h. host_forget (abort_run h)) w1
              in case invitation_id (hw_host w) of
                   Some i \<Rightarrow> ask (RqHostCancel i) (HtAbandoned back) w2
                 | None \<Rightarrow> (case back of None \<Rightarrow> w2 | Some run \<Rightarrow> finish_run run w2))"

section \<open>The step of a poll, once its view is there\<close>

definition step_claimed :: "pairing_env \<Rightarrow> nat \<Rightarrow> string \<Rightarrow> host_view \<Rightarrow> host_world \<Rightarrow> host_world" where
  "step_claimed env run i v w =
     (case (ho_hostNonce (hw_host w), hv_joiner v) of
        (None, Some (k, c, name)) \<Rightarrow>
          (case (from_b64url k, from_b64url c) of
             (Inr joiner_key, Inr joiner_commit) \<Rightarrow>
               (let n = pe_nonces env (ho_nonces (hw_host w))
                in ask (RqNonce i (to_b64url n)) (HtNonce run i n)
                     (on_host (\<lambda>h. h\<lparr>ho_joiner := Some (joiner_key, joiner_commit), ho_deviceName := Some name, ho_nonces := Suc (ho_nonces h)\<rparr>) w))
           | _ \<Rightarrow> poll_error run i (Some PeValidation) w)
      | _ \<Rightarrow> await (HtPause run i) w)"

definition step_revealed :: "pairing_env \<Rightarrow> nat \<Rightarrow> string \<Rightarrow> host_view \<Rightarrow> host_world \<Rightarrow> host_world" where
  "step_revealed env run i v w =
     (if ho_phase (hw_host w) \<noteq> HpConnecting then await (HtPause run i) w
      else case (ho_keys (hw_host w), ho_joiner (hw_host w), ho_hostNonce (hw_host w), hv_joinerNonce v) of
        (Some (secret, pub), Some (joiner_key, joiner_commit), Some hn, Some jn) \<Rightarrow>
          (case from_b64url jn of
             Inl _ \<Rightarrow> poll_error run i (Some PeValidation) w
           | Inr jn \<Rightarrow>
               (case pairing_commit_matches env joiner_commit jn joiner_key of
                  Inl e \<Rightarrow> poll_error run i (Some e) w
                | Inr False \<Rightarrow> abandon PeCommitMismatch (Some run) w
                | Inr True \<Rightarrow>
                    (let w = on_host (\<lambda>h. h\<lparr>ho_joinerNonce := Some jn\<rparr>) w
                     in case derive_pairing_sas env i pub joiner_key hn jn of
                          Inl e \<Rightarrow> poll_error run i (Some e) w
                        | Inr sas \<Rightarrow> await (HtPause run i) (on_host (\<lambda>h. h\<lparr>ho_sas := Some sas, ho_phase := HpCompare\<rparr>) w))))
      | _ \<Rightarrow> poll_error run i (Some PeState) w)"

definition host_step :: "pairing_env \<Rightarrow> nat \<Rightarrow> string \<Rightarrow> host_view \<Rightarrow> host_world \<Rightarrow> host_world" where
  "host_step env run i v w =
     (let w = on_host (\<lambda>h. h\<lparr>ho_ttl := hv_ttl v\<rparr>) w
      in case hv_state v of
           PsClaimed \<Rightarrow> step_claimed env run i v w
         | PsRevealed \<Rightarrow> step_revealed env run i v w
         | PsCompleted \<Rightarrow> finish_run run (on_host (\<lambda>h. h\<lparr>ho_phase := HpDone\<rparr>) w)
         | PsCancelled \<Rightarrow> poll_error run i (Some PeCancelled) w
         | _ \<Rightarrow> await (HtPause run i) w)"

section \<open>Calls\<close>

text \<open>\<open>start()\<close> after its \<open>await this.cancel()\<close>.\<close>

definition begin_run :: "pairing_env \<Rightarrow> host_world \<Rightarrow> host_world" where
  "begin_run env w =
     (let run = ho_runs (hw_host w); secret = pe_secrets env run; pub = pe_public env secret
      in ask (RqCreate (to_b64url pub)) (HtCreate run)
           (on_host (\<lambda>h. h\<lparr>ho_runs := Suc run, ho_run := Some run, ho_error := None, ho_sas := None, ho_deviceName := None,
              ho_phase := HpCreating, ho_keys := Some (secret, pub)\<rparr>) w))"

definition settled :: "pair_host \<Rightarrow> bool" where
  "settled h \<longleftrightarrow> ho_phase h \<in> {HpDone, HpExpired, HpFailed}"

definition cancelled :: "pair_host \<Rightarrow> pair_host" where
  "cancelled h = host_forget ((abort_run h)\<lparr>ho_phase := (if settled h then ho_phase h else HpCancelled)\<rparr>)"

definition cancel_run :: "bool \<Rightarrow> host_world \<Rightarrow> host_world" where
  "cancel_run starting w =
     (if ho_run (hw_host w) = None then (if starting then await HtStarting w else w)
      else case invitation_id (hw_host w) of
             Some i \<Rightarrow>
               if \<not> settled (hw_host w) then ask (RqHostCancel i) (HtDelete starting) (on_host cancelled w)
               else if starting then await HtStarting (on_host cancelled w) else on_host cancelled w
           | None \<Rightarrow> if starting then await HtStarting (on_host cancelled w) else on_host cancelled w)"

definition host_confirm :: "pairing_env \<Rightarrow> host_options \<Rightarrow> host_world \<Rightarrow> pair_error option \<times> host_world" where
  "host_confirm env op w =
     (case (invitation_id (hw_host w), ho_keys (hw_host w), ho_joiner (hw_host w)) of
        (Some i, Some (secret, pub), Some (joiner_key, joiner_commit)) \<Rightarrow>
          if ho_phase (hw_host w) \<noteq> HpCompare then (Some PeState, w)
          else let w = on_host (\<lambda>h. h\<lparr>ho_phase := HpSending\<rparr>) w
               in (case derive_pairing_key env i secret joiner_key pub joiner_key of
                     Inl e \<Rightarrow> (Some e, w)
                   | Inr key \<Rightarrow>
                       (let c = seal_pairing_payload env key (pe_ivs env (ho_ivs (hw_host w)))
                                  \<lparr>pp_mnemonic = hp_mnemonic op, pp_serverUrl = hp_server op\<rparr>
                        in (None, ask (RqPayload i (to_b64url c)) HtPayload (on_host (\<lambda>h. h\<lparr>ho_ivs := Suc (ho_ivs h)\<rparr>) w))))
      | _ \<Rightarrow> (Some PeState, w))"

text \<open>The call, and what it throws before it suspends.\<close>

definition host_call :: "pairing_env \<Rightarrow> host_options \<Rightarrow> host_call \<Rightarrow> host_world \<Rightarrow> pair_error option \<times> host_world" where
  "host_call env op c w =
     (let w = w\<lparr>hw_log := Called c # hw_log w\<rparr>
      in case c of
           CallStart \<Rightarrow> (None, cancel_run True w)
         | CallReject \<Rightarrow> (None, cancel_run True w)
         | CallCancel \<Rightarrow> (None, cancel_run False w)
         | CallConfirm \<Rightarrow> host_confirm env op w)"

section \<open>Resuming\<close>

text \<open>The invitation is there, or not.\<close>

definition host_created :: "pairing_env \<Rightarrow> host_options \<Rightarrow> nat \<Rightarrow> pair_reply \<Rightarrow> host_world \<Rightarrow> host_world" where
  "host_created env op run r w =
     (case r of
        RpCreated c \<Rightarrow>
          if run_aborted run (hw_host w) then finish_run run w
          else (case invitation_qr (pe_url env) (hp_server op) (cr_id c) of
                  Inl _ \<Rightarrow> fail_run run PeValidation w
                | Inr qr \<Rightarrow> await (HtPause run (cr_id c))
                    (on_host (\<lambda>h. h\<lparr>ho_invitation := Some (cr_id c, cr_code c, qr), ho_ttl := cr_ttl c, ho_phase := HpWaiting\<rparr>) w))
      | _ \<Rightarrow> fail_run run (case relay_error_of r of None \<Rightarrow> PeUnreachable | Some e \<Rightarrow> e) w)"

text \<open>A pause rejects as soon as its controller is aborted; otherwise its timer fires.\<close>

definition host_resume :: "pairing_env \<Rightarrow> host_options \<Rightarrow> host_task \<Rightarrow> pair_reply \<Rightarrow> host_world \<Rightarrow> host_world" where
  "host_resume env op t r w =
     (let w = w\<lparr>hw_tasks := remove1 t (hw_tasks w), hw_log := Told t r # hw_log w\<rparr>
      in case t of
           HtStarting \<Rightarrow> begin_run env w
         | HtDelete starting \<Rightarrow> if starting then begin_run env w else w
         | HtCreate run \<Rightarrow> host_created env op run r w
         | HtPause run i \<Rightarrow> if run_aborted run (hw_host w) then finish_run run w else ask (RqHostView i) (HtView run i) w
         | HtBackoff run i s \<Rightarrow> if run_aborted run (hw_host w) then finish_run run w else await (HtPause run i) w
         | HtView run i \<Rightarrow>
             (case r of RpHostView v \<Rightarrow> host_step env run i v w | _ \<Rightarrow> poll_error run i (relay_error_of r) w)
         | HtNonce run i n \<Rightarrow>
             if is_failure r then poll_error run i (relay_error_of r) w
             else await (HtPause run i) (on_host (\<lambda>h. h\<lparr>ho_hostNonce := Some n, ho_phase := HpConnecting\<rparr>) w)
         | HtPayload \<Rightarrow>
             if is_failure r then abandon (case relay_error_of r of None \<Rightarrow> PeUnreachable | Some e \<Rightarrow> e) None w else w
         | HtAbandoned back \<Rightarrow> (case back of None \<Rightarrow> w | Some run \<Rightarrow> finish_run run w))"

section \<open>Runs\<close>

text \<open>
  What can happen to a host. \<open>calm\<close> says in which states the owner's calls may come: always, or only
  when nothing of an earlier run is under way.
\<close>

inductive host_runs :: "pairing_env \<Rightarrow> host_options \<Rightarrow> (host_call \<Rightarrow> host_world \<Rightarrow> bool) \<Rightarrow> host_world \<Rightarrow> bool"
  for env :: pairing_env and op :: host_options and calm :: "host_call \<Rightarrow> host_world \<Rightarrow> bool" where
  fresh: "host_runs env op calm new_host_world"
| called: "host_runs env op calm w \<Longrightarrow> calm c w \<Longrightarrow> host_runs env op calm (snd (host_call env op c w))"
| resumed: "host_runs env op calm w \<Longrightarrow> t \<in> set (hw_tasks w) \<Longrightarrow> host_runs env op calm (host_resume env op t r w)"

end
