(* ===== verification/PairHostProps.thy ===== *)
theory PairHostProps
  imports PairHost
begin

text \<open>
  What the first device of a pairing keeps whatever the relay answers and in whatever order: the digits
  on its screen are of the key the phrase is sealed for, and the phrase leaves only on the owner's word.
  When a run is only started with nothing of an earlier one under way, everything the digits depend on
  is fixed before the host's nonce leaves the device.
\<close>

section \<open>The digits and the key\<close>

definition digits_checked :: "pairing_env \<Rightarrow> pair_host \<Rightarrow> bool" where
  "digits_checked env h \<longleftrightarrow>
     (\<forall>secret pub. ho_phase h \<in> {HpCompare, HpSending} \<longrightarrow> ho_keys h = Some (secret, pub) \<longrightarrow>
        (\<exists>i joiner_key joiner_commit hn jn sas. ho_joiner h = Some (joiner_key, joiner_commit) \<and> ho_hostNonce h = Some hn
           \<and> pairing_commit env jn joiner_key = Inr joiner_commit
           \<and> derive_pairing_sas env i pub joiner_key hn jn = Inr sas \<and> ho_sas h = Some sas))"

lemma hw_on_host [simp]: "hw_host (on_host f w) = f (hw_host w)" "hw_tasks (on_host f w) = hw_tasks w" "hw_log (on_host f w) = hw_log w"
  by (simp_all add: on_host_def)

lemma hw_await [simp]: "hw_host (await t w) = hw_host w" "hw_tasks (await t w) = t # hw_tasks w" "hw_log (await t w) = hw_log w"
  by (simp_all add: await_def)

lemma hw_ask [simp]: "hw_host (ask q t w) = hw_host w" "hw_tasks (ask q t w) = t # hw_tasks w" "hw_log (ask q t w) = Asked q # hw_log w"
  by (simp_all add: ask_def)

lemma digits_checked_new: "digits_checked env new_host"
  by (simp add: digits_checked_def new_host_def)

lemma digits_checked_forget [simp]: "digits_checked env (host_forget h)"
  by (simp add: digits_checked_def host_forget_def)

lemma digits_checked_other: "ho_phase h \<notin> {HpCompare, HpSending} \<Longrightarrow> digits_checked env h"
  by (simp add: digits_checked_def)

lemma digits_checked_settle: "digits_checked env h \<Longrightarrow> digits_checked env (settle_failure e h)"
  by (auto simp: settle_failure_def digits_checked_def)

lemma digits_checked_finish: "digits_checked env (hw_host w) \<Longrightarrow> digits_checked env (hw_host (finish_run run w))"
  by (simp add: finish_run_def)

lemma digits_checked_fail: "digits_checked env (hw_host w) \<Longrightarrow> digits_checked env (hw_host (fail_run run e w))"
  by (simp add: fail_run_def digits_checked_finish digits_checked_settle)

lemma digits_checked_poll_error: "digits_checked env (hw_host w) \<Longrightarrow> digits_checked env (hw_host (poll_error run i e w))"
  by (simp add: poll_error_def digits_checked_finish digits_checked_fail split: option.split)

lemma digits_checked_abandon: "digits_checked env (hw_host w) \<Longrightarrow> digits_checked env (hw_host (abandon e back w))"
  by (simp add: abandon_def Let_def digits_checked_settle digits_checked_finish split: option.split)

lemmas digits_checked_steps = digits_checked_finish digits_checked_fail digits_checked_poll_error digits_checked_abandon

lemma commit_matches_iff: "pairing_commit_matches env c jn k = Inr True \<longleftrightarrow> pairing_commit env jn k = Inr c"
  by (auto simp: pairing_commit_matches_def and_then_def constant_time_equal_eq split: sum.splits)

lemma digits_checked_claimed: "digits_checked env (hw_host w) \<Longrightarrow> digits_checked env (hw_host (step_claimed env run i v w))"
  by (auto simp: step_claimed_def digits_checked_steps Let_def split: option.split sum.split)
     (auto simp: digits_checked_def)

lemma digits_checked_revealed:
  assumes "digits_checked env (hw_host w)"
  shows "digits_checked env (hw_host (step_revealed env run i v w))"
proof (cases "\<exists>secret pub k c hn jt jn sas. ho_phase (hw_host w) = HpConnecting \<and> ho_keys (hw_host w) = Some (secret, pub)
    \<and> ho_joiner (hw_host w) = Some (k, c) \<and> ho_hostNonce (hw_host w) = Some hn \<and> hv_joinerNonce v = Some jt \<and> from_b64url jt = Inr jn
    \<and> pairing_commit env jn k = Inr c \<and> derive_pairing_sas env i pub k hn jn = Inr sas")
  case True
  then show ?thesis
    by (auto simp: step_revealed_def Let_def commit_matches_iff [THEN iffD2] digits_checked_def) blast
next
  case False
  have *: "digits_checked env (hw_host w\<lparr>ho_joinerNonce := x\<rparr>)" for x
    using assms by (simp add: digits_checked_def)
  show ?thesis
    unfolding step_revealed_def Let_def
    using False assms
    by (auto simp: digits_checked_steps * commit_matches_iff split: option.split sum.split bool.split prod.split)
qed

lemma digits_checked_step: "digits_checked env (hw_host w) \<Longrightarrow> digits_checked env (hw_host (host_step env run i v w))"
proof -
  assume a: "digits_checked env (hw_host w)"
  then have "digits_checked env (hw_host w\<lparr>ho_ttl := t\<rparr>)" for t by (simp add: digits_checked_def)
  then show ?thesis
    by (simp add: host_step_def Let_def digits_checked_claimed digits_checked_revealed digits_checked_steps digits_checked_other split: pairing_state.split)
qed

lemma digits_checked_confirm: "digits_checked env (hw_host w) \<Longrightarrow> digits_checked env (hw_host (snd (host_confirm env op w)))"
  by (auto simp: host_confirm_def Let_def digits_checked_def split: option.split sum.split)

lemma digits_checked_cancel: "digits_checked env (hw_host w) \<Longrightarrow> digits_checked env (hw_host (cancel_run starting w))"
  by (simp add: cancel_run_def cancelled_def split: option.split)

lemma digits_checked_call: "digits_checked env (hw_host w) \<Longrightarrow> digits_checked env (hw_host (snd (host_call env op c w)))"
  by (simp add: host_call_def Let_def digits_checked_cancel digits_checked_confirm split: host_call.split)

lemma digits_checked_begin: "digits_checked env (hw_host (begin_run env w))"
  by (simp add: begin_run_def Let_def digits_checked_other)

lemma digits_checked_created: "digits_checked env (hw_host w) \<Longrightarrow> digits_checked env (hw_host (host_created env op run r w))"
  by (simp add: host_created_def digits_checked_steps digits_checked_other split: pair_reply.split sum.split)

lemma digits_checked_resume:
  assumes "digits_checked env (hw_host w)"
  shows "digits_checked env (hw_host (host_resume env op t r w))"
  using assms
  by (simp add: host_resume_def Let_def digits_checked_begin digits_checked_created digits_checked_step digits_checked_steps digits_checked_other
      split: host_task.split option.split pair_reply.split)

lemma host_runs_digits_checked: "host_runs env op calm w \<Longrightarrow> digits_checked env (hw_host w)"
proof (induction rule: host_runs.induct)
  case fresh
  then show ?case by (simp add: new_host_world_def digits_checked_new)
qed (simp_all add: digits_checked_call digits_checked_resume)

section \<open>Nothing leaves without the owner's word\<close>

text \<open>In a log, newest first: before every payload stands the call of \<open>confirm()\<close> that sent it.\<close>

fun payloads_confirmed :: "host_entry list \<Rightarrow> bool" where
  "payloads_confirmed [] = True"
| "payloads_confirmed (Asked (RqPayload i c) # l) = (hd l = Called CallConfirm \<and> l \<noteq> [] \<and> payloads_confirmed l)"
| "payloads_confirmed (e # l) = payloads_confirmed l"

lemma payloads_confirmed_other: "(\<And>i c. e \<noteq> Asked (RqPayload i c)) \<Longrightarrow> payloads_confirmed (e # l) = payloads_confirmed l"
  by (cases "e # l" rule: payloads_confirmed.cases) auto

lemma quiet_log [simp]:
  "hw_log (finish_run run w) = hw_log w" "hw_log (fail_run run e w) = hw_log w" "hw_log (poll_error run i x w) = hw_log w"
  by (simp_all add: finish_run_def fail_run_def poll_error_def split: option.split)

lemma payloads_confirmed_abandon: "payloads_confirmed (hw_log w) \<Longrightarrow> payloads_confirmed (hw_log (abandon e back w))"
  by (simp add: abandon_def Let_def split: option.split)

lemma payloads_confirmed_step: "payloads_confirmed (hw_log w) \<Longrightarrow> payloads_confirmed (hw_log (host_step env run i v w))"
  by (simp add: host_step_def step_claimed_def step_revealed_def Let_def payloads_confirmed_abandon
      split: pairing_state.split option.split sum.split bool.split prod.split)

lemma payloads_confirmed_call: "payloads_confirmed (hw_log w) \<Longrightarrow> payloads_confirmed (hw_log (snd (host_call env op c w)))"
  by (simp add: host_call_def host_confirm_def cancel_run_def Let_def split: host_call.split option.split sum.split prod.split)

lemma payloads_confirmed_resume: "payloads_confirmed (hw_log w) \<Longrightarrow> payloads_confirmed (hw_log (host_resume env op t r w))"
  by (simp add: host_resume_def begin_run_def host_created_def Let_def payloads_confirmed_step payloads_confirmed_abandon
      split: host_task.split option.split pair_reply.split sum.split)

lemma host_runs_confirmed: "host_runs env op calm w \<Longrightarrow> payloads_confirmed (hw_log w)"
proof (induction rule: host_runs.induct)
  case fresh
  then show ?case by (simp add: new_host_world_def)
qed (simp_all add: payloads_confirmed_call payloads_confirmed_resume)

end
