(* ===== verification/PairHostCalm.thy ===== *)
theory PairHostCalm
  imports PairHostProps
begin

text \<open>
  A host that is only started again when nothing of an earlier run is under way. The invariant: a run
  polls with one task at a time, only the current run has a request under way, and from the moment the
  host has sent its nonce the invitation, its own key, the joiner's key and the commitment are in the
  log before it.
\<close>

section \<open>Tasks\<close>

fun poll_run :: "host_task \<Rightarrow> nat option" where
  "poll_run (HtCreate r) = Some r"
| "poll_run (HtPause r _) = Some r"
| "poll_run (HtBackoff r _ _) = Some r"
| "poll_run (HtView r _) = Some r"
| "poll_run (HtNonce r _ _) = Some r"
| "poll_run _ = None"

fun poll_id :: "host_task \<Rightarrow> string option" where
  "poll_id (HtPause _ i) = Some i"
| "poll_id (HtBackoff _ i _) = Some i"
| "poll_id (HtView _ i) = Some i"
| "poll_id (HtNonce _ i _) = Some i"
| "poll_id _ = None"

fun in_flight :: "host_task \<Rightarrow> bool" where
  "in_flight (HtCreate _) = True"
| "in_flight (HtView _ _) = True"
| "in_flight (HtNonce _ _ _) = True"
| "in_flight _ = False"

fun is_starting :: "host_task \<Rightarrow> bool" where
  "is_starting HtStarting = True"
| "is_starting (HtDelete s) = s"
| "is_starting _ = False"

definition calm_start :: "host_call \<Rightarrow> host_world \<Rightarrow> bool" where
  "calm_start c w \<longleftrightarrow> c \<in> {CallStart, CallReject} \<longrightarrow> list_all (\<lambda>t. \<not> in_flight t \<and> \<not> is_starting t) (hw_tasks w)"

section \<open>The invariant\<close>

definition was_created :: "host_entry list \<Rightarrow> nat \<Rightarrow> string \<Rightarrow> bool" where
  "was_created l r i \<longleftrightarrow> (\<exists>c. Told (HtCreate r) (RpCreated c) \<in> set l \<and> cr_id c = i)"

text \<open>What is in the log when the nonce is sent.\<close>

definition fixed_before :: "pairing_env \<Rightarrow> host_entry list \<Rightarrow> nat \<Rightarrow> string \<Rightarrow> bytes \<Rightarrow> bytes \<Rightarrow> bytes \<Rightarrow> bool" where
  "fixed_before env l r i hn joiner_key joiner_commit \<longleftrightarrow>
     (\<exists>later earlier v k c name. l = later @ Asked (RqNonce i (to_b64url hn)) # earlier
        \<and> Asked (RqCreate (to_b64url (pe_public env (pe_secrets env r)))) \<in> set earlier \<and> was_created earlier r i
        \<and> Told (HtView r i) (RpHostView v) \<in> set earlier \<and> hv_joiner v = Some (k, c, name)
        \<and> from_b64url k = Inr joiner_key \<and> from_b64url c = Inr joiner_commit)"

lemma fixed_before_Cons: "fixed_before env l r i hn k c \<Longrightarrow> fixed_before env (e # l) r i hn k c"
  unfolding fixed_before_def by (metis append_Cons)

lemma was_created_Cons: "was_created l r i \<Longrightarrow> was_created (e # l) r i"
  by (auto simp: was_created_def)

text \<open>The parts that do not look at the phase.\<close>

definition known_task :: "host_world \<Rightarrow> host_task \<Rightarrow> bool" where
  "known_task w t \<longleftrightarrow>
     (\<forall>r. poll_run t = Some r \<longrightarrow> r < ho_runs (hw_host w)
        \<and> (r \<in> set (ho_aborted (hw_host w)) \<or> ho_run (hw_host w) = Some r)
        \<and> (\<forall>i. poll_id t = Some i \<longrightarrow> was_created (hw_log w) r i)
        \<and> (in_flight t \<longrightarrow> ho_run (hw_host w) = None \<or> ho_run (hw_host w) = Some r))
   \<and> (\<forall>r. t = HtAbandoned (Some r) \<longrightarrow> r \<in> set (ho_aborted (hw_host w)))"

definition current_run :: "pairing_env \<Rightarrow> host_world \<Rightarrow> bool" where
  "current_run env w \<longleftrightarrow>
     (case ho_run (hw_host w) of
        None \<Rightarrow> ho_keys (hw_host w) = None
      | Some r \<Rightarrow> r < ho_runs (hw_host w) \<and> r \<notin> set (ho_aborted (hw_host w))
          \<and> ho_keys (hw_host w) = Some (pe_secrets env r, pe_public env (pe_secrets env r))
          \<and> Asked (RqCreate (to_b64url (pe_public env (pe_secrets env r)))) \<in> set (hw_log w))"

definition turns :: "pairing_env \<Rightarrow> host_world \<Rightarrow> bool" where
  "turns env w \<longleftrightarrow>
     (\<forall>r. single (\<lambda>t. poll_run t = Some r) (hw_tasks w)) \<and> (\<forall>t \<in> set (hw_tasks w). known_task w t)
   \<and> single is_starting (hw_tasks w)
   \<and> ((\<exists>t \<in> set (hw_tasks w). is_starting t) \<longrightarrow> ho_run (hw_host w) = None \<and> (\<forall>t \<in> set (hw_tasks w). \<not> in_flight t))
   \<and> current_run env w \<and> set (ho_aborted (hw_host w)) \<subseteq> {..< ho_runs (hw_host w)}"

text \<open>What the digits are made of, once the host's nonce is with the relay.\<close>

definition agreed :: "pairing_env \<Rightarrow> host_world \<Rightarrow> nat \<Rightarrow> string \<Rightarrow> bool" where
  "agreed env w r i \<longleftrightarrow>
     (\<exists>n k c. ho_joiner (hw_host w) = Some (k, c) \<and> ho_hostNonce (hw_host w) = Some n \<and> fixed_before env (hw_log w) r i n k c
        \<and> (ho_phase (hw_host w) \<noteq> HpConnecting \<longrightarrow>
             (\<exists>jn sas. pairing_commit env jn k = Inr c \<and> ho_sas (hw_host w) = Some sas
                \<and> derive_pairing_sas env i (pe_public env (pe_secrets env r)) k n jn = Inr sas)))"

definition connected :: "host_phase set" where "connected = {HpConnecting, HpCompare, HpSending}"

definition nonce_sent :: "pairing_env \<Rightarrow> host_world \<Rightarrow> bool" where
  "nonce_sent env w \<longleftrightarrow>
     (\<forall>r. ho_run (hw_host w) = Some r \<longrightarrow>
        (\<forall>i n. HtNonce r i n \<in> set (hw_tasks w) \<longrightarrow>
           (\<exists>k c. ho_joiner (hw_host w) = Some (k, c) \<and> ho_hostNonce (hw_host w) = None \<and> fixed_before env (hw_log w) r i n k c))
      \<and> (ho_phase (hw_host w) \<in> connected \<longrightarrow>
           (\<exists>i. agreed env w r i \<and> (\<forall>t \<in> set (hw_tasks w). \<forall>j. poll_run t = Some r \<longrightarrow> poll_id t = Some j \<longrightarrow> j = i))))"

definition calm_ok :: "pairing_env \<Rightarrow> host_world \<Rightarrow> bool" where
  "calm_ok env w \<longleftrightarrow> turns env w \<and> nonce_sent env w"

lemma calm_ok_new: "calm_ok env new_host_world"
  by (simp add: calm_ok_def turns_def current_run_def nonce_sent_def new_host_world_def new_host_def)

section \<open>Taking a turn\<close>

text \<open>After a task of run r was taken off: nothing of the run is left, and it may go on.\<close>

definition has_turn :: "host_world \<Rightarrow> nat \<Rightarrow> bool" where
  "has_turn w r \<longleftrightarrow> (\<forall>t \<in> set (hw_tasks w). poll_run t \<noteq> Some r) \<and> r < ho_runs (hw_host w)
     \<and> (r \<in> set (ho_aborted (hw_host w)) \<or> ho_run (hw_host w) = Some r)"

definition took :: "host_task \<Rightarrow> pair_reply \<Rightarrow> host_world \<Rightarrow> host_world" where
  "took t q w = w\<lparr>hw_tasks := remove1 t (hw_tasks w), hw_log := Told t q # hw_log w\<rparr>"

lemma took_simps [simp]: "hw_host (took t q w) = hw_host w" "hw_tasks (took t q w) = remove1 t (hw_tasks w)" "hw_log (took t q w) = Told t q # hw_log w"
  by (simp_all add: took_def)

lemma known_task_log: "known_task w t \<Longrightarrow> hw_host w' = hw_host w \<Longrightarrow> hw_log w' = e # hw_log w \<Longrightarrow> known_task w' t"
  by (auto simp: known_task_def was_created_Cons)

lemma current_run_log: "current_run env w \<Longrightarrow> hw_host w' = hw_host w \<Longrightarrow> hw_log w' = e # hw_log w \<Longrightarrow> current_run env w'"
  by (auto simp: current_run_def split: option.splits)

lemma turns_took:
  assumes "turns env w"
  shows "turns env (took t q w)"
proof -
  note a = assms [unfolded turns_def]
  have "known_task (took t q w) u" if "u \<in> set (remove1 t (hw_tasks w))" for u
    using a in_remove1 [OF that] known_task_log [of w u "took t q w"] by auto
  moreover have "current_run env (took t q w)"
    using a current_run_log [of env w "took t q w"] by simp
  ultimately show ?thesis
    unfolding turns_def took_simps using a by (auto simp: single_remove1 dest: in_remove1)
qed

lemma took_turn:
  assumes "turns env w" and "t \<in> set (hw_tasks w)" and "poll_run t = Some r"
  shows "has_turn (took t q w) r" "poll_id t = Some i \<Longrightarrow> was_created (hw_log w) r i"
    "in_flight t \<Longrightarrow> (ho_run (hw_host w) = None \<or> ho_run (hw_host w) = Some r) \<and> list_all (\<lambda>u. \<not> is_starting u) (hw_tasks w)"
proof -
  note a = assms(1) [unfolded turns_def]
  have k: "known_task w t" using a assms(2) by blast
  show "poll_id t = Some i \<Longrightarrow> was_created (hw_log w) r i" using k assms(3) by (simp add: known_task_def)
  show "in_flight t \<Longrightarrow> (ho_run (hw_host w) = None \<or> ho_run (hw_host w) = Some r) \<and> list_all (\<lambda>u. \<not> is_starting u) (hw_tasks w)"
    using k assms(2,3) a unfolding known_task_def list_all_iff by blast
  have "poll_run u \<noteq> Some r" if "u \<in> set (remove1 t (hw_tasks w))" for u
    using single_taken [OF assms(2), of "\<lambda>u. poll_run u = Some r"] assms(3) a that by blast
  then show "has_turn (took t q w) r" using k assms(3) by (simp add: has_turn_def known_task_def)
qed

text \<open>The task's invitation is the one the digits are of, where there are digits.\<close>

definition fits :: "pairing_env \<Rightarrow> host_world \<Rightarrow> nat \<Rightarrow> string \<Rightarrow> bool" where
  "fits env w r i \<longleftrightarrow> (ho_run (hw_host w) = Some r \<longrightarrow> ho_phase (hw_host w) \<in> connected \<longrightarrow> agreed env w r i)"

lemma agreed_log: "agreed env w r i \<Longrightarrow> hw_host w' = hw_host w \<Longrightarrow> hw_log w' = e # hw_log w \<Longrightarrow> agreed env w' r i"
  unfolding agreed_def by (metis fixed_before_Cons)

lemma nonce_sent_took:
  assumes "nonce_sent env w"
  shows "nonce_sent env (took t q w)"
  unfolding nonce_sent_def took_simps
proof (intro allI impI conjI)
  fix r i n assume run: "ho_run (hw_host w) = Some r" and "HtNonce r i n \<in> set (remove1 t (hw_tasks w))"
  then have "HtNonce r i n \<in> set (hw_tasks w)" by (rule_tac in_remove1)
  with run assms show "\<exists>k c. ho_joiner (hw_host w) = Some (k, c) \<and> ho_hostNonce (hw_host w) = None \<and> fixed_before env (Told t q # hw_log w) r i n k c"
    unfolding nonce_sent_def by (metis fixed_before_Cons)
next
  fix r assume "ho_run (hw_host w) = Some r" and "ho_phase (hw_host w) \<in> connected"
  then obtain i where i: "agreed env w r i" "\<forall>u \<in> set (hw_tasks w). \<forall>j. poll_run u = Some r \<longrightarrow> poll_id u = Some j \<longrightarrow> j = i"
    using assms unfolding nonce_sent_def by blast
  have "agreed env (took t q w) r i" by (rule agreed_log [OF i(1)]) simp_all
  then show "\<exists>i. agreed env (took t q w) r i \<and> (\<forall>u \<in> set (remove1 t (hw_tasks w)). \<forall>j. poll_run u = Some r \<longrightarrow> poll_id u = Some j \<longrightarrow> j = i)"
    using i(2) in_remove1 by metis
qed

lemma calm_ok_took: "calm_ok env w \<Longrightarrow> calm_ok env (took t q w)"
  by (simp add: calm_ok_def turns_took nonce_sent_took)

lemma fits_took:
  assumes "calm_ok env w" and "t \<in> set (hw_tasks w)" and "poll_run t = Some r" and "poll_id t = Some i"
  shows "fits env (took t q w) r i"
  unfolding fits_def took_simps
proof (intro impI)
  assume "ho_run (hw_host w) = Some r" and "ho_phase (hw_host w) \<in> connected"
  then have "agreed env w r i" using assms unfolding calm_ok_def nonce_sent_def by metis
  then show "agreed env (took t q w) r i" by (rule agreed_log) simp_all
qed

section \<open>What keeps the invariant\<close>

lemma calm_ok_on_host:
  assumes "calm_ok env w" and "\<And>h. ho_run (f h) = ho_run h \<and> ho_runs (f h) = ho_runs h \<and> ho_aborted (f h) = ho_aborted h \<and> ho_keys (f h) = ho_keys h"
    and "\<And>h. ho_joiner (f h) = ho_joiner h \<and> ho_hostNonce (f h) = ho_hostNonce h"
    and "\<And>h. (ho_phase (f h) = ho_phase h \<and> ho_sas (f h) = ho_sas h) \<or> ho_phase (f h) \<notin> connected"
  shows "calm_ok env (on_host f w)" "has_turn (on_host f w) r = has_turn w r" "fits env w r i \<Longrightarrow> fits env (on_host f w) r i"
proof -
  have k: "known_task (on_host f w) t = known_task w t" for t using assms(2) by (simp add: known_task_def)
  have c: "current_run env (on_host f w) = current_run env w" using assms(2) by (simp add: current_run_def split: option.split)
  have t: "turns env (on_host f w)" using assms(1) unfolding calm_ok_def turns_def hw_on_host k c by (simp add: assms(2))
  have a: "agreed env (on_host f w) r j = agreed env w r j" if "ho_phase (f (hw_host w)) \<in> connected" for r j
  proof -
    have "ho_phase (f (hw_host w)) = ho_phase (hw_host w)" "ho_sas (f (hw_host w)) = ho_sas (hw_host w)" using assms(4) that by metis+
    then show ?thesis using assms(3) by (simp add: agreed_def)
  qed
  have same: "ho_phase (f (hw_host w)) \<in> connected \<Longrightarrow> ho_phase (hw_host w) \<in> connected" using assms(4) by metis
  have "nonce_sent env (on_host f w)"
    using assms(1) same unfolding calm_ok_def nonce_sent_def hw_on_host by (simp add: assms(2,3) a)
  with t show "calm_ok env (on_host f w)" by (simp add: calm_ok_def)
  show "has_turn (on_host f w) r = has_turn w r" by (simp add: has_turn_def assms(2))
  show "fits env w r i \<Longrightarrow> fits env (on_host f w) r i" using a same by (simp add: fits_def assms(2))
qed

lemma known_task_tasks [simp]: "known_task (await t w) u = known_task w u" "current_run env (await t w) = current_run env w"
  "agreed env (await t w) r i = agreed env w r i"
  by (simp_all add: known_task_def current_run_def agreed_def split: option.split)

text \<open>The run goes on with another task.\<close>

lemma calm_ok_await:
  assumes "calm_ok env w" and "has_turn w r" and "poll_run t = Some r"
    and "poll_id t = Some i" and "was_created (hw_log w) r i" and "fits env w r i"
    and "in_flight t \<Longrightarrow> (ho_run (hw_host w) = None \<or> ho_run (hw_host w) = Some r) \<and> list_all (\<lambda>u. \<not> is_starting u) (hw_tasks w)"
    and "\<And>n. t = HtNonce r i n \<Longrightarrow> ho_run (hw_host w) = Some r \<Longrightarrow>
      \<exists>k c. ho_joiner (hw_host w) = Some (k, c) \<and> ho_hostNonce (hw_host w) = None \<and> fixed_before env (hw_log w) r i n k c"
  shows "calm_ok env (await t w)"
proof -
  note a = assms(1) [unfolded calm_ok_def turns_def]
  note turn = assms(2) [unfolded has_turn_def]
  have ns: "\<not> is_starting t" using assms(3) by (cases t) auto
  have kt: "known_task w t" using turn assms(3-5,7) by (cases t) (auto simp: known_task_def)
  have "turns env (await t w)"
    unfolding turns_def known_task_tasks hw_await list.set
  proof (intro conjI allI ballI impI)
    fix q show "single (\<lambda>u. poll_run u = Some q) (t # hw_tasks w)" using a turn assms(3) by auto
  next
    fix u assume "u \<in> insert t (set (hw_tasks w))" then show "known_task w u" using kt a by auto
  next
    show "single is_starting (t # hw_tasks w)" using ns a by simp
  next
    assume "\<exists>u \<in> insert t (set (hw_tasks w)). is_starting u"
    then show "ho_run (hw_host w) = None" using ns a by auto
  next
    fix u assume "\<exists>u \<in> insert t (set (hw_tasks w)). is_starting u" and "u \<in> insert t (set (hw_tasks w))"
    then show "\<not> in_flight u" using ns a assms(7) by (auto simp: list_all_iff)
  qed (use a in auto)
  moreover have "nonce_sent env (await t w)"
    unfolding nonce_sent_def known_task_tasks hw_await list.set
  proof (intro allI impI conjI)
    fix q j n assume "ho_run (hw_host w) = Some q" and "HtNonce q j n \<in> insert t (set (hw_tasks w))"
    then show "\<exists>k c. ho_joiner (hw_host w) = Some (k, c) \<and> ho_hostNonce (hw_host w) = None \<and> fixed_before env (hw_log w) q j n k c"
      using assms(1,3,4,8) unfolding calm_ok_def nonce_sent_def by auto
  next
    fix q assume q: "ho_run (hw_host w) = Some q" "ho_phase (hw_host w) \<in> connected"
    show "\<exists>i. agreed env w q i \<and> (\<forall>u \<in> insert t (set (hw_tasks w)). \<forall>j. poll_run u = Some q \<longrightarrow> poll_id u = Some j \<longrightarrow> j = i)"
    proof (cases "q = r")
      case True
      then have "agreed env w q i" using assms(6) q by (simp add: fits_def)
      then show ?thesis using True turn assms(3,4) by auto
    next
      case False
      then show ?thesis using q assms(1,3) unfolding calm_ok_def nonce_sent_def by auto
    qed
  qed
  ultimately show ?thesis by (simp add: calm_ok_def)
qed

lemma calm_ok_pause:
  "calm_ok env w \<Longrightarrow> has_turn w r \<Longrightarrow> was_created (hw_log w) r i \<Longrightarrow> fits env w r i \<Longrightarrow>
     calm_ok env (await (HtPause r i) w) \<and> calm_ok env (await (HtBackoff r i s) w)"
  using calm_ok_await [of env w r "HtPause r i" i] calm_ok_await [of env w r "HtBackoff r i s" i] by simp

text \<open>A task of no run.\<close>

lemma calm_ok_aside:
  assumes "calm_ok env w" and "poll_run t = None"
    and "is_starting t \<Longrightarrow> ho_run (hw_host w) = None \<and> list_all (\<lambda>u. \<not> in_flight u \<and> \<not> is_starting u) (hw_tasks w)"
    and "\<And>r. t = HtAbandoned (Some r) \<Longrightarrow> r \<in> set (ho_aborted (hw_host w))"
  shows "calm_ok env (await t w)"
proof -
  note a = assms(1) [unfolded calm_ok_def turns_def]
  have nf: "\<not> in_flight t" using assms(2) by (cases t) auto
  have kt: "known_task w t" using assms(2,4) by (simp add: known_task_def)
  have "turns env (await t w)"
    unfolding turns_def known_task_tasks hw_await list.set
    using a kt nf assms(2,3) by (auto simp: list_all_iff)
  moreover have "nonce_sent env (await t w)"
    using assms(1,2) unfolding calm_ok_def nonce_sent_def known_task_tasks hw_await list.set by auto
  ultimately show ?thesis by (simp add: calm_ok_def)
qed

text \<open>A request is logged.\<close>

definition logged :: "host_entry \<Rightarrow> host_world \<Rightarrow> host_world" where
  "logged e w = w\<lparr>hw_log := e # hw_log w\<rparr>"

lemma logged_simps [simp]: "hw_host (logged e w) = hw_host w" "hw_tasks (logged e w) = hw_tasks w" "hw_log (logged e w) = e # hw_log w"
  by (simp_all add: logged_def)

lemma ask_logged: "ask q t w = await t (logged (Asked q) w)"
  by (simp add: ask_def logged_def)

lemma calm_ok_logged:
  assumes "calm_ok env w"
  shows "calm_ok env (logged e w)" "has_turn (logged e w) r = has_turn w r" "fits env w r i \<Longrightarrow> fits env (logged e w) r i"
proof -
  note a = assms [unfolded calm_ok_def]
  have k: "known_task w t \<Longrightarrow> known_task (logged e w) t" for t by (rule known_task_log) simp_all
  have c: "current_run env w \<Longrightarrow> current_run env (logged e w)" by (rule current_run_log) simp_all
  have g: "agreed env w q j \<Longrightarrow> agreed env (logged e w) q j" for q j by (rule agreed_log) simp_all
  have "turns env (logged e w)" using a k c unfolding turns_def logged_simps by blast
  moreover have "nonce_sent env (logged e w)"
    using a g unfolding nonce_sent_def logged_simps by (metis fixed_before_Cons)
  ultimately show "calm_ok env (logged e w)" by (simp add: calm_ok_def)
  show "has_turn (logged e w) r = has_turn w r" by (simp add: has_turn_def)
  show "fits env w r i \<Longrightarrow> fits env (logged e w) r i" using g by (simp add: fits_def)
qed

text \<open>The run ends, by its own end or by an abort.\<close>

lemma calm_ok_end:
  assumes "calm_ok env w" and "ho_run h = None" and "ho_keys h = None" and "ho_runs h = ho_runs (hw_host w)"
    and "\<forall>t \<in> set (hw_tasks w). \<forall>r. poll_run t = Some r \<longrightarrow> r \<in> set (ho_aborted h)"
    and "set (ho_aborted h) \<subseteq> {..< ho_runs h}" and "set (ho_aborted (hw_host w)) \<subseteq> set (ho_aborted h)"
  shows "calm_ok env (on_host (\<lambda>_. h) w)"
proof -
  note a = assms(1) [unfolded calm_ok_def turns_def]
  have "known_task (on_host (\<lambda>_. h) w) t" if "t \<in> set (hw_tasks w)" for t
    using a assms that unfolding known_task_def hw_on_host by auto
  then show ?thesis using a assms by (simp add: calm_ok_def turns_def nonce_sent_def current_run_def)
qed

lemma on_host_const: "on_host f w = on_host (\<lambda>_. f (hw_host w)) w"
  by (simp add: on_host_def)

lemma forget_simps [simp]:
  "ho_run (host_forget h) = ho_run h" "ho_keys (host_forget h) = None" "ho_runs (host_forget h) = ho_runs h" "ho_aborted (host_forget h) = ho_aborted h"
  "ho_phase (host_forget h) = ho_phase h" "ho_invitation (host_forget h) = ho_invitation h"
  by (simp_all add: host_forget_def)

lemma calm_ok_finish:
  assumes "calm_ok env w" and "has_turn w run"
  shows "calm_ok env (finish_run run w)"
proof (cases "ho_run (hw_host w) = Some run")
  case True
  note a = assms(1) [unfolded calm_ok_def turns_def known_task_def]
  have "calm_ok env (on_host (\<lambda>_. host_forget (hw_host w\<lparr>ho_run := None\<rparr>)) w)"
    using a True assms(2) unfolding has_turn_def by (intro calm_ok_end [OF assms(1)]) auto
  then show ?thesis using True by (simp add: finish_run_def on_host_const [of "\<lambda>h. host_forget (h\<lparr>ho_run := None\<rparr>)"])
qed (use assms in \<open>simp add: finish_run_def\<close>)

lemma calm_ok_abort:
  assumes "calm_ok env w" and "ho_run (g (abort_run (hw_host w))) = ho_run (abort_run (hw_host w))"
    and "ho_runs (g (abort_run (hw_host w))) = ho_runs (hw_host w)" and "ho_aborted (g (abort_run (hw_host w))) = ho_aborted (abort_run (hw_host w))"
  shows "calm_ok env (on_host (\<lambda>h. host_forget (g (abort_run h))) w)"
proof -
  note a = assms(1) [unfolded calm_ok_def turns_def known_task_def current_run_def]
  have "calm_ok env (on_host (\<lambda>_. host_forget (g (abort_run (hw_host w)))) w)"
    using a assms(2-4) by (intro calm_ok_end [OF assms(1)]) (auto simp: abort_run_def split: option.splits)
  then show ?thesis by (simp add: on_host_const [of "\<lambda>h. host_forget (g (abort_run h))"])
qed

lemma settle_simps [simp]:
  "ho_run (settle_failure e h) = ho_run h" "ho_runs (settle_failure e h) = ho_runs h" "ho_aborted (settle_failure e h) = ho_aborted h"
  "ho_keys (settle_failure e h) = ho_keys h" "ho_joiner (settle_failure e h) = ho_joiner h" "ho_hostNonce (settle_failure e h) = ho_hostNonce h"
  "ho_sas (settle_failure e h) = ho_sas h" "ho_invitation (settle_failure e h) = ho_invitation h"
  by (simp_all add: settle_failure_def)

lemma calm_ok_settle: "calm_ok env w \<Longrightarrow> calm_ok env (on_host (settle_failure e) w) \<and> has_turn (on_host (settle_failure e) w) r = has_turn w r"
  by (intro conjI calm_ok_on_host) (auto simp: settle_failure_def connected_def)

lemma calm_ok_fail: "calm_ok env w \<Longrightarrow> has_turn w run \<Longrightarrow> calm_ok env (fail_run run e w)"
  by (simp add: fail_run_def calm_ok_finish calm_ok_settle)

lemma calm_ok_poll_error:
  "calm_ok env w \<Longrightarrow> has_turn w run \<Longrightarrow> was_created (hw_log w) run i \<Longrightarrow> fits env w run i \<Longrightarrow> calm_ok env (poll_error run i e w)"
  by (simp add: poll_error_def calm_ok_finish calm_ok_fail calm_ok_pause split: option.split)

lemma calm_ok_abandon:
  assumes "calm_ok env w" and "\<And>run. back = Some run \<Longrightarrow> has_turn w run"
  shows "calm_ok env (abandon e back w)"
proof -
  let ?w = "on_host (\<lambda>h. host_forget (abort_run h)) (on_host (settle_failure e) w)"
  have ok: "calm_ok env ?w"
    using calm_ok_abort [of env "on_host (settle_failure e) w" "\<lambda>h. h"] calm_ok_settle [OF assms(1)] by (simp add: abort_run_def)
  have ended: "r \<in> set (ho_aborted (hw_host ?w))" if "back = Some r" for r
    using assms(2) [OF that] by (auto simp: has_turn_def abort_run_def split: option.split)
  have idle: "ho_run (hw_host ?w) = None" by (simp add: abort_run_def)
  then have "finish_run run ?w = ?w" for run by (simp add: finish_run_def)
  moreover have "calm_ok env (ask (RqHostCancel i) (HtAbandoned back) ?w)" for i
    unfolding ask_logged by (rule calm_ok_aside) (use ended in \<open>simp_all add: calm_ok_logged ok\<close>)
  ultimately show ?thesis using ok calm_ok_settle [OF assms(1)] by (simp add: abandon_def Let_def split: option.split)
qed

section \<open>The steps of a poll\<close>

lemma calm_ok_claimed:
  assumes "calm_ok env w" and "has_turn w run" and "was_created (hw_log w) run i" and "fits env w run i"
    and "(ho_run (hw_host w) = None \<or> ho_run (hw_host w) = Some run) \<and> list_all (\<lambda>u. \<not> is_starting u) (hw_tasks w)"
    and "Told (HtView run i) (RpHostView v) \<in> set (hw_log w)"
  shows "calm_ok env (step_claimed env run i v w)"
proof (cases "\<exists>k c name key commit. ho_hostNonce (hw_host w) = None \<and> hv_joiner v = Some (k, c, name)
    \<and> from_b64url k = Inr key \<and> from_b64url c = Inr commit")
  case False
  then show ?thesis unfolding step_claimed_def
    using assms by (auto simp: calm_ok_pause calm_ok_poll_error split: option.split sum.split)
next
  case True
  then obtain k c name key commit where t: "ho_hostNonce (hw_host w) = None" "hv_joiner v = Some (k, c, name)" "from_b64url k = Inr key"
    "from_b64url c = Inr commit" by blast
  let ?f = "\<lambda>h. h\<lparr>ho_joiner := Some (key, commit), ho_deviceName := Some name, ho_nonces := Suc (ho_nonces h)\<rparr>"
  let ?n = "pe_nonces env (ho_nonces (hw_host w))"
  let ?w = "logged (Asked (RqNonce i (to_b64url ?n))) (on_host ?f w)"
  have quiet: "ho_phase (hw_host w) \<notin> connected" if "ho_run (hw_host w) = Some r" for r
    using assms(1) that t(1) unfolding calm_ok_def nonce_sent_def agreed_def by fastforce
  have "calm_ok env (on_host ?f w)"
  proof -
    note a = assms(1) [unfolded calm_ok_def turns_def]
    have "known_task (on_host ?f w) u = known_task w u" for u by (simp add: known_task_def)
    moreover have "current_run env (on_host ?f w) = current_run env w" by (simp add: current_run_def split: option.split)
    ultimately have "turns env (on_host ?f w)" using a by (simp add: turns_def)
    moreover have "nonce_sent env (on_host ?f w)"
      unfolding nonce_sent_def hw_on_host
      using quiet assms(2,5) a unfolding has_turn_def by (auto simp: nonce_sent_def)
    ultimately show ?thesis by (simp add: calm_ok_def)
  qed
  moreover have "fits env (on_host ?f w) run i" using quiet by (simp add: fits_def)
  moreover have "has_turn (on_host ?f w) run" using assms(2) by (simp add: has_turn_def)
  moreover have "fixed_before env (hw_log ?w) run i ?n key commit" if "ho_run (hw_host w) = Some run"
  proof -
    have "Asked (RqCreate (to_b64url (pe_public env (pe_secrets env run)))) \<in> set (hw_log w)"
      using assms(1) that by (simp add: calm_ok_def turns_def current_run_def)
    then show ?thesis using assms(3,6) t unfolding fixed_before_def
      by (intro exI [of _ "[]"] exI [of _ "hw_log w"] exI [of _ v] exI [of _ k] exI [of _ c] exI [of _ name]) simp
  qed
  ultimately have all: "calm_ok env ?w" "has_turn ?w run" "fits env ?w run i"
      "ho_run (hw_host w) = Some run \<Longrightarrow> fixed_before env (hw_log ?w) run i ?n key commit"
    using calm_ok_logged by blast+
  have "calm_ok env (await (HtNonce run i ?n) ?w)"
    by (rule calm_ok_await [OF all(1,2) _ _ _ all(3)]) (use assms(3,5) t(1) all(4) in \<open>simp_all add: was_created_Cons\<close>)
  then show ?thesis using t by (simp add: step_claimed_def Let_def ask_logged)
qed

text \<open>The digits appear.\<close>

lemma calm_ok_shown:
  assumes "calm_ok env w" and "ho_phase (hw_host w) = HpConnecting" and "ho_keys (hw_host w) = Some (secret, pub)"
    and "ho_joiner (hw_host w) = Some (k, c)" and "ho_hostNonce (hw_host w) = Some hn" and "fits env w run i"
    and "has_turn w run" and "ho_run (hw_host w) = None \<or> ho_run (hw_host w) = Some run"
    and "pairing_commit env jn k = Inr c" and "derive_pairing_sas env i pub k hn jn = Inr sas"
  shows "calm_ok env (on_host (\<lambda>h. h\<lparr>ho_joinerNonce := Some jn, ho_sas := Some sas, ho_phase := HpCompare\<rparr>) w) \<and>
    fits env (on_host (\<lambda>h. h\<lparr>ho_joinerNonce := Some jn, ho_sas := Some sas, ho_phase := HpCompare\<rparr>) w) run i"
proof -
  let ?w = "on_host (\<lambda>h. h\<lparr>ho_joinerNonce := Some jn, ho_sas := Some sas, ho_phase := HpCompare\<rparr>) w"
  note a = assms(1) [unfolded calm_ok_def turns_def]
  have run: "ho_run (hw_host w) = Some run" using a assms(3,8) by (auto simp: current_run_def)
  have pub: "pub = pe_public env (pe_secrets env run)" using a run assms(3) by (simp add: current_run_def)
  have "known_task ?w u = known_task w u" for u by (simp add: known_task_def)
  moreover have "current_run env ?w = current_run env w" by (simp add: current_run_def split: option.split)
  ultimately have "turns env ?w" using a by (simp add: turns_def)
  moreover have ag: "agreed env ?w run i"
    using assms run pub unfolding fits_def agreed_def by (auto simp: connected_def)
  moreover have "nonce_sent env ?w"
    using a run ag assms(5,7) unfolding nonce_sent_def has_turn_def by auto
  ultimately show ?thesis by (simp add: calm_ok_def fits_def)
qed

lemma calm_ok_revealed:
  assumes "calm_ok env w" and "has_turn w run" and "was_created (hw_log w) run i" and "fits env w run i"
    and "ho_run (hw_host w) = None \<or> ho_run (hw_host w) = Some run"
  shows "calm_ok env (step_revealed env run i v w)"
proof (cases "\<exists>secret pub k c hn jt jn sas. ho_phase (hw_host w) = HpConnecting \<and> ho_keys (hw_host w) = Some (secret, pub)
    \<and> ho_joiner (hw_host w) = Some (k, c) \<and> ho_hostNonce (hw_host w) = Some hn \<and> hv_joinerNonce v = Some jt \<and> from_b64url jt = Inr jn
    \<and> pairing_commit env jn k = Inr c \<and> derive_pairing_sas env i pub k hn jn = Inr sas")
  case True
  then obtain secret pub k c hn jt jn sas where t: "ho_phase (hw_host w) = HpConnecting" "ho_keys (hw_host w) = Some (secret, pub)"
    "ho_joiner (hw_host w) = Some (k, c)" "ho_hostNonce (hw_host w) = Some hn" "hv_joinerNonce v = Some jt" "from_b64url jt = Inr jn"
    "pairing_commit env jn k = Inr c" "derive_pairing_sas env i pub k hn jn = Inr sas" by blast
  let ?w = "on_host (\<lambda>h. h\<lparr>ho_joinerNonce := Some jn, ho_sas := Some sas, ho_phase := HpCompare\<rparr>) w"
  have "calm_ok env ?w" "fits env ?w run i" using calm_ok_shown [OF assms(1) t(1-4) assms(4,2,5) t(7,8)] by auto
  moreover have "has_turn ?w run" using assms(2) by (simp add: has_turn_def)
  ultimately have "calm_ok env (await (HtPause run i) ?w)" using assms(3) calm_ok_pause by fastforce
  moreover have two: "on_host (\<lambda>h. h\<lparr>ho_sas := Some sas, ho_phase := HpCompare\<rparr>) (on_host (\<lambda>h. h\<lparr>ho_joinerNonce := Some jn\<rparr>) w) = ?w"
    by (simp add: on_host_def)
  ultimately have "calm_ok env (await (HtPause run i) (on_host (\<lambda>h. h\<lparr>ho_sas := Some sas, ho_phase := HpCompare\<rparr>)
      (on_host (\<lambda>h. h\<lparr>ho_joinerNonce := Some jn\<rparr>) w)))" unfolding two by simp
  then show ?thesis using t by (simp add: step_revealed_def Let_def commit_matches_iff [THEN iffD2])
next
  case False
  let ?j = "\<lambda>x. on_host (\<lambda>h. h\<lparr>ho_joinerNonce := x\<rparr>) w"
  have j: "calm_ok env (?j x)" "has_turn (?j x) run" "fits env (?j x) run i" "was_created (hw_log (?j x)) run i" for x
    using calm_ok_on_host(1) [OF assms(1), of "\<lambda>h. h\<lparr>ho_joinerNonce := x\<rparr>"] calm_ok_on_host(3) [OF assms(1), of "\<lambda>h. h\<lparr>ho_joinerNonce := x\<rparr>" run i]
      assms(2-4) by (simp_all add: has_turn_def)
  have "calm_ok env (abandon e (Some run) w)" for e using assms(1,2) by (intro calm_ok_abandon) simp_all
  then show ?thesis
    unfolding step_revealed_def Let_def
    using False assms j by (auto simp: calm_ok_pause calm_ok_poll_error commit_matches_iff split: option.split sum.split bool.split prod.split)
qed

lemma calm_ok_step:
  assumes "calm_ok env w" and "has_turn w run" and "was_created (hw_log w) run i" and "fits env w run i"
    and "(ho_run (hw_host w) = None \<or> ho_run (hw_host w) = Some run) \<and> list_all (\<lambda>u. \<not> is_starting u) (hw_tasks w)"
    and "Told (HtView run i) (RpHostView v) \<in> set (hw_log w)"
  shows "calm_ok env (host_step env run i v w)"
proof -
  let ?w = "on_host (\<lambda>h. h\<lparr>ho_ttl := hv_ttl v\<rparr>) w"
  have t: "calm_ok env ?w" "has_turn ?w run" "fits env ?w run i"
    using calm_ok_on_host(1) [OF assms(1), of "\<lambda>h. h\<lparr>ho_ttl := hv_ttl v\<rparr>"] calm_ok_on_host(3) [OF assms(1), of "\<lambda>h. h\<lparr>ho_ttl := hv_ttl v\<rparr>" run i]
      assms(2,4) by (simp_all add: has_turn_def)
  have "calm_ok env (on_host (\<lambda>h. h\<lparr>ho_phase := HpDone\<rparr>) ?w)" "has_turn (on_host (\<lambda>h. h\<lparr>ho_phase := HpDone\<rparr>) ?w) run"
    using calm_ok_on_host(1) [OF t(1), of "\<lambda>h. h\<lparr>ho_phase := HpDone\<rparr>"] t(2) by (simp_all add: connected_def has_turn_def)
  with t assms show ?thesis
    by (simp add: host_step_def Let_def calm_ok_claimed calm_ok_revealed calm_ok_finish calm_ok_poll_error calm_ok_pause split: pairing_state.split)
qed

section \<open>Calls\<close>

lemma calm_ok_begin:
  assumes "calm_ok env w" and "ho_run (hw_host w) = None" and "list_all (\<lambda>u. \<not> in_flight u \<and> \<not> is_starting u) (hw_tasks w)"
  shows "calm_ok env (begin_run env w)"
proof -
  let ?r = "ho_runs (hw_host w)" and ?w' = "begin_run env w"
  note a = assms(1) [unfolded calm_ok_def turns_def]
  have host: "ho_run (hw_host ?w') = Some ?r" "ho_runs (hw_host ?w') = Suc ?r" "ho_aborted (hw_host ?w') = ho_aborted (hw_host w)"
    "ho_keys (hw_host ?w') = Some (pe_secrets env ?r, pe_public env (pe_secrets env ?r))" "ho_phase (hw_host ?w') = HpCreating"
    "hw_tasks ?w' = HtCreate ?r # hw_tasks w" "hw_log ?w' = Asked (RqCreate (to_b64url (pe_public env (pe_secrets env ?r)))) # hw_log w"
    by (simp_all add: begin_run_def Let_def)
  have old: "known_task w t \<Longrightarrow> t \<in> set (hw_tasks w) \<Longrightarrow> known_task ?w' t" for t
    using assms(2,3) unfolding known_task_def host by (auto simp: list_all_iff was_created_Cons)
  have new: "poll_run t \<noteq> Some ?r" if "t \<in> set (hw_tasks w)" for t using a that unfolding known_task_def by blast
  have "turns env ?w'"
    unfolding turns_def host list.set
  proof (intro conjI allI ballI impI)
    fix q show "single (\<lambda>u. poll_run u = Some q) (HtCreate ?r # hw_tasks w)" using a new by auto
  next
    fix u assume "u \<in> insert (HtCreate ?r) (set (hw_tasks w))"
    moreover have "known_task ?w' (HtCreate ?r)" by (simp add: known_task_def host)
    ultimately show "known_task ?w' u" using a old by auto
  next
    assume "\<exists>u \<in> insert (HtCreate ?r) (set (hw_tasks w)). is_starting u"
    then show "Some ?r = None" using assms(3) by (auto simp: list_all_iff)
  next
    fix u assume "\<exists>u \<in> insert (HtCreate ?r) (set (hw_tasks w)). is_starting u"
    then show "\<not> in_flight u" using assms(3) by (auto simp: list_all_iff)
  next
    show "current_run env ?w'" using a by (auto simp: current_run_def host)
  qed (use a in auto)
  moreover have "nonce_sent env ?w'"
    unfolding nonce_sent_def host using new by (fastforce simp: connected_def)
  ultimately show ?thesis by (simp add: calm_ok_def)
qed

lemma calm_ok_cancelled: "calm_ok env w \<Longrightarrow> calm_ok env (on_host cancelled w) \<and> ho_run (hw_host (on_host cancelled w)) = None"
proof -
  assume ok: "calm_ok env w"
  let ?g = "\<lambda>h. h\<lparr>ho_phase := (if settled (hw_host w) then ho_phase (hw_host w) else HpCancelled)\<rparr>"
  have "calm_ok env (on_host (\<lambda>h. host_forget (?g (abort_run h))) w)" by (rule calm_ok_abort [OF ok]) (simp_all add: abort_run_def)
  moreover have "on_host (\<lambda>h. host_forget (?g (abort_run h))) w = on_host cancelled w" by (simp add: on_host_def cancelled_def)
  ultimately have "calm_ok env (on_host cancelled w)" by metis
  then show ?thesis by (simp add: cancelled_def abort_run_def)
qed

lemma calm_ok_cancel:
  assumes "calm_ok env w" and "starting \<Longrightarrow> list_all (\<lambda>u. \<not> in_flight u \<and> \<not> is_starting u) (hw_tasks w)"
  shows "calm_ok env (cancel_run starting w)"
proof -
  note ended = calm_ok_cancelled [OF assms(1)]
  have pending: "calm_ok env (await HtStarting w')" if "calm_ok env w'" "ho_run (hw_host w') = None" "hw_tasks w' = hw_tasks w" starting for w'
    using that assms(2) by (intro calm_ok_aside) simp_all
  have told: "calm_ok env (ask (RqHostCancel i) (HtDelete starting) (on_host cancelled w))" for i
    unfolding ask_logged by (rule calm_ok_aside) (use ended assms(2) in \<open>simp_all add: calm_ok_logged\<close>)
  show ?thesis unfolding cancel_run_def
    using ended pending [OF assms(1)] pending [OF conjunct1 [OF ended] conjunct2 [OF ended]] told assms(1)
    by (cases starting) (auto simp del: hw_on_host(1) split: option.split)
qed

lemma calm_ok_confirm:
  assumes "calm_ok env w"
  shows "calm_ok env (snd (host_confirm env op w))"
proof -
  have sending: "calm_ok env (on_host (\<lambda>h. h\<lparr>ho_phase := HpSending\<rparr>) w)" if compare: "ho_phase (hw_host w) = HpCompare"
  proof -
    let ?w = "on_host (\<lambda>h. h\<lparr>ho_phase := HpSending\<rparr>) w"
    note a = assms [unfolded calm_ok_def turns_def]
    have "known_task ?w u = known_task w u" for u by (simp add: known_task_def)
    moreover have "current_run env ?w = current_run env w" by (simp add: current_run_def split: option.split)
    moreover have "agreed env ?w r i = agreed env w r i" for r i by (simp add: agreed_def compare)
    ultimately show ?thesis using a compare by (simp add: calm_ok_def turns_def nonce_sent_def connected_def)
  qed
  have "calm_ok env (ask q HtPayload (on_host (\<lambda>h. h\<lparr>ho_ivs := Suc (ho_ivs h)\<rparr>) w'))" if ok: "calm_ok env w'" for q w'
  proof -
    have "calm_ok env (on_host (\<lambda>h. h\<lparr>ho_ivs := Suc (ho_ivs h)\<rparr>) w')"
      by (rule calm_ok_on_host(1) [OF ok]) simp_all
    then show ?thesis unfolding ask_logged by (intro calm_ok_aside) (simp_all add: calm_ok_logged)
  qed
  then show ?thesis using assms sending
    by (simp add: host_confirm_def Let_def split: option.split sum.split prod.split)
qed

lemma calm_ok_call:
  assumes "calm_ok env w" and "calm_start c w"
  shows "calm_ok env (snd (host_call env op c w))"
  using assms(2) calm_ok_logged(1) [OF assms(1)]
  by (simp add: host_call_def Let_def logged_def [symmetric] calm_start_def calm_ok_cancel calm_ok_confirm split: host_call.split)

section \<open>Resuming\<close>

lemma calm_ok_created:
  assumes "calm_ok env w" and "has_turn w run" and "Told (HtCreate run) r \<in> set (hw_log w)"
  shows "calm_ok env (host_created env op run r w)"
proof (cases r)
  case (RpCreated c)
  let ?f = "\<lambda>qr h. h\<lparr>ho_invitation := Some (cr_id c, cr_code c, qr), ho_ttl := cr_ttl c, ho_phase := HpWaiting\<rparr>"
  have "calm_ok env (on_host (?f qr) w)" "has_turn (on_host (?f qr) w) run" for qr
    using calm_ok_on_host(1) [OF assms(1), of "?f qr"] assms(2) by (simp_all add: connected_def has_turn_def)
  moreover have "fits env (on_host (?f qr) w) run (cr_id c)" for qr by (simp add: fits_def connected_def)
  moreover have "was_created (hw_log w) run (cr_id c)" using assms(3) RpCreated by (auto simp: was_created_def)
  ultimately show ?thesis
    using RpCreated assms by (simp add: host_created_def calm_ok_finish calm_ok_fail calm_ok_pause split: sum.split)
qed (use assms in \<open>simp_all add: host_created_def calm_ok_fail\<close>)

lemma calm_ok_nonced:
  assumes "calm_ok env w" and "HtNonce run i n \<in> set (hw_tasks w)"
  shows "calm_ok env (await (HtPause run i) (on_host (\<lambda>h. h\<lparr>ho_hostNonce := Some n, ho_phase := HpConnecting\<rparr>) (took (HtNonce run i n) q w)))"
proof -
  let ?t = "took (HtNonce run i n) q w"
  let ?w = "on_host (\<lambda>h. h\<lparr>ho_hostNonce := Some n, ho_phase := HpConnecting\<rparr>) ?t"
  note a = assms(1) [unfolded calm_ok_def]
  have turn: "has_turn ?t run" "was_created (hw_log w) run i" "ho_run (hw_host w) = None \<or> ho_run (hw_host w) = Some run"
    using took_turn [OF conjunct1 [OF a] assms(2), of run] by auto
  have ag: "agreed env ?w run i" if current: "ho_run (hw_host w) = Some run"
  proof -
    obtain k c where "ho_joiner (hw_host w) = Some (k, c)" "fixed_before env (hw_log w) run i n k c"
      using conjunct2 [OF a, unfolded nonce_sent_def, rule_format, OF current, THEN conjunct1, rule_format, OF assms(2)] by blast
    then show ?thesis using fixed_before_Cons by (simp add: agreed_def)
  qed
  have "known_task ?w u = known_task ?t u" for u by (simp add: known_task_def)
  moreover have "current_run env ?w = current_run env ?t" by (simp add: current_run_def split: option.split)
  moreover have "turns env ?t" using a turns_took by blast
  ultimately have "turns env ?w" by (simp add: turns_def)
  moreover have "nonce_sent env ?w"
    unfolding nonce_sent_def hw_on_host using turn ag unfolding has_turn_def by auto
  ultimately have ok: "calm_ok env ?w" by (simp add: calm_ok_def)
  have "has_turn ?w run" using turn(1) by (simp add: has_turn_def)
  moreover have "fits env ?w run i" using ag by (simp add: fits_def)
  ultimately show ?thesis using calm_ok_pause [OF ok] turn(2) by (simp add: was_created_Cons)
qed

lemma calm_ok_resume:
  assumes "calm_ok env w" and "t \<in> set (hw_tasks w)"
  shows "calm_ok env (host_resume env op t q w)"
proof -
  let ?w = "took t q w"
  note a = assms(1) [unfolded calm_ok_def turns_def]
  have ok: "calm_ok env ?w" by (rule calm_ok_took [OF assms(1)])
  note turn = took_turn [OF conjunct1 [OF assms(1) [unfolded calm_ok_def]] assms(2)]
  note fit = fits_took [OF assms]
  have begin_ok: "calm_ok env (begin_run env ?w)" if "is_starting t"
  proof (rule calm_ok_begin [OF ok])
    show "ho_run (hw_host ?w) = None" using a assms(2) that by auto
    have "\<not> is_starting u" if "u \<in> set (remove1 t (hw_tasks w))" for u
      using single_taken [OF assms(2), of is_starting] \<open>is_starting t\<close> a that by blast
    then show "list_all (\<lambda>u. \<not> in_flight u \<and> \<not> is_starting u) (hw_tasks ?w)"
      using a assms(2) that by (auto simp: list_all_iff dest: in_remove1)
  qed
  have idle: "ho_run (hw_host w) = Some run \<Longrightarrow> list_all (\<lambda>u. \<not> is_starting u) (remove1 t (hw_tasks w))" for run
    using a by (auto simp: list_all_iff dest: in_remove1)
  have less: "list_all Q (hw_tasks w) \<Longrightarrow> list_all Q (remove1 t (hw_tasks w))" for Q
    by (auto simp: list_all_iff dest: in_remove1)
  have left: "calm_ok env (abandon e None ?w)" for e using ok by (rule calm_ok_abandon) simp
  show ?thesis
  proof (cases t)
    case (HtCreate run)
    then show ?thesis using turn(1) ok by (simp add: host_resume_def Let_def took_def [symmetric] calm_ok_created)
  next
    case (HtPause run i)
    have "calm_ok env (ask (RqHostView i) (HtView run i) ?w)" if "\<not> run_aborted run (hw_host w)"
      unfolding ask_logged
    proof (rule calm_ok_await [OF calm_ok_logged(1) [OF ok]])
      have r: "has_turn ?w run" "fits env ?w run i" "was_created (hw_log w) run i" using turn(1,2) fit HtPause by simp_all
      then have current: "ho_run (hw_host w) = Some run" using that by (simp add: has_turn_def run_aborted_def)
      show "has_turn (logged (Asked (RqHostView i)) ?w) run" "fits env (logged (Asked (RqHostView i)) ?w) run i"
        using r calm_ok_logged(2,3) [OF ok] by auto
      show "was_created (hw_log (logged (Asked (RqHostView i)) ?w)) run i" using r by (simp add: was_created_Cons)
      show "(ho_run (hw_host (logged (Asked (RqHostView i)) ?w)) = None \<or> ho_run (hw_host (logged (Asked (RqHostView i)) ?w)) = Some run)
          \<and> list_all (\<lambda>u. \<not> is_starting u) (hw_tasks (logged (Asked (RqHostView i)) ?w))"
        using current idle [OF current] by simp
    qed simp_all
    then show ?thesis using turn(1) ok HtPause by (simp add: host_resume_def Let_def took_def [symmetric] calm_ok_finish)
  next
    case (HtBackoff run i s)
    then show ?thesis using turn(1,2) fit ok
      by (simp add: host_resume_def Let_def took_def [symmetric] calm_ok_finish calm_ok_pause was_created_Cons)
  next
    case (HtView run i)
    then have r: "has_turn ?w run" "fits env ?w run i" "was_created (hw_log ?w) run i"
      "(ho_run (hw_host ?w) = None \<or> ho_run (hw_host ?w) = Some run) \<and> list_all (\<lambda>u. \<not> is_starting u) (hw_tasks ?w)"
      using turn fit less by (simp_all add: was_created_Cons)
    have "calm_ok env (host_step env run i v ?w)" if "q = RpHostView v" for v
      by (rule calm_ok_step [OF ok r(1,3,2,4)]) (simp add: HtView that)
    moreover have "calm_ok env (poll_error run i e ?w)" for e by (rule calm_ok_poll_error [OF ok r(1,3,2)])
    ultimately show ?thesis using HtView by (cases q) (simp_all add: host_resume_def Let_def took_def)
  next
    case (HtNonce run i n)
    then show ?thesis using turn(1,2) fit ok calm_ok_nonced [OF assms(1) assms(2) [unfolded HtNonce]]
      by (simp add: host_resume_def Let_def took_def [symmetric] calm_ok_poll_error was_created_Cons)
  next
    case (HtAbandoned who)
    have "finish_run run ?w = ?w" if "who = Some run" for run
      using a assms(2) HtAbandoned that by (auto simp: finish_run_def known_task_def current_run_def)
    then show ?thesis using ok HtAbandoned by (auto simp: host_resume_def Let_def took_def [symmetric] split: option.split)
  qed (use ok begin_ok left in \<open>auto simp: host_resume_def Let_def took_def [symmetric]\<close>)
qed

lemma host_runs_calm: "host_runs env op calm_start w \<Longrightarrow> calm_ok env w"
proof (induction rule: host_runs.induct)
  case fresh
  then show ?case by (rule calm_ok_new)
next
  case (called w c)
  then show ?case by (intro calm_ok_call)
next
  case (resumed w t r)
  then show ?case by (intro calm_ok_resume)
qed

end
