(* ===== verification/PairJoiner.thy ===== *)
theory PairJoiner
  imports Pairing
begin

text \<open>
  The new device of a pairing: \<open>PairingJoiner\<close> of \<open>plugins/protection/src/pairing/pairing-client.ts\<close>,
  with its suspended methods as tasks, like the first device's. What \<open>start()\<close> keeps in its own
  variables - keys, nonces, the invitation and the host's key - is carried by its tasks.
\<close>

section \<open>State\<close>

datatype joiner_phase = JpIdle | JpClaiming | JpWaiting | JpCompare | JpReceived | JpExpired | JpCancelled | JpFailed

text \<open>A controller with what it was aborted with: an error of ours, or the platform's own.\<close>

record pair_joiner =
  jo_phase :: joiner_phase
  jo_sas :: "string option"
  jo_matched :: bool
  jo_ttl :: int
  jo_error :: "pair_error option"
  jo_token :: "string option"
  jo_id :: "string option"
  jo_run :: "nat option"
  jo_aborted :: "(nat \<times> pair_error option) list"
  jo_runs :: nat

definition new_joiner :: pair_joiner where
  "new_joiner = \<lparr>jo_phase = JpIdle, jo_sas = None, jo_matched = False, jo_ttl = 0, jo_error = None, jo_token = None, jo_id = None,
     jo_run = None, jo_aborted = [], jo_runs = 0\<rparr>"

record join_run =
  jr_no :: nat
  jr_secret :: bytes
  jr_public :: bytes
  jr_nonce :: bytes
  jr_id :: string
  jr_hostKey :: bytes
  jr_hostNonce :: "bytes option"

datatype join_task =
    JtClaim join_run
  | JtPause join_run
  | JtBackoff join_run int
  | JtView join_run
  | JtReveal join_run
  | JtAck join_run pairing_payload
  | JtReleased "(nat \<times> pair_error) option"

datatype join_call = CallJoin | CallMatch | CallMismatch | CallLeave

datatype join_entry = JCalled join_call | JAsked pair_request | JTold join_task pair_reply | JReturned nat "pair_error + pairing_payload"

record join_world =
  jw_joiner :: pair_joiner
  jw_tasks :: "join_task list"
  jw_log :: "join_entry list"

record join_options =
  jp_ref :: string
  jp_deviceName :: string

definition new_join_world :: join_world where
  "new_join_world = \<lparr>jw_joiner = new_joiner, jw_tasks = [], jw_log = []\<rparr>"

definition on_joiner :: "(pair_joiner \<Rightarrow> pair_joiner) \<Rightarrow> join_world \<Rightarrow> join_world" where
  "on_joiner f w = w\<lparr>jw_joiner := f (jw_joiner w)\<rparr>"

definition jawait :: "join_task \<Rightarrow> join_world \<Rightarrow> join_world" where
  "jawait t w = w\<lparr>jw_tasks := t # jw_tasks w\<rparr>"

definition jask :: "pair_request \<Rightarrow> join_task \<Rightarrow> join_world \<Rightarrow> join_world" where
  "jask q t w = jawait t (w\<lparr>jw_log := JAsked q # jw_log w\<rparr>)"

section \<open>Parts\<close>

definition jrun_aborted :: "nat \<Rightarrow> pair_joiner \<Rightarrow> bool" where
  "jrun_aborted n j \<longleftrightarrow> n \<in> fst ` set (jo_aborted j)"

definition abort_reason :: "nat \<Rightarrow> pair_joiner \<Rightarrow> pair_error" where
  "abort_reason n j = (case map_of (jo_aborted j) n of Some (Some e) \<Rightarrow> e | _ \<Rightarrow> PeCancelled)"

text \<open>\<open>this.run = null\<close> and \<open>run?.abort(reason)\<close>; aborting twice keeps the first reason.\<close>

definition jabort :: "pair_error option \<Rightarrow> pair_joiner \<Rightarrow> pair_joiner" where
  "jabort reason j =
     j\<lparr>jo_run := None,
       jo_aborted := (case jo_run j of
          None \<Rightarrow> jo_aborted j
        | Some n \<Rightarrow> if jrun_aborted n j then jo_aborted j else (n, reason) # jo_aborted j)\<rparr>"

text \<open>What \<open>start()\<close> resolves or rejects with, after its \<open>finally\<close>.\<close>

definition jreturn :: "nat \<Rightarrow> pair_error + pairing_payload \<Rightarrow> join_world \<Rightarrow> join_world" where
  "jreturn n x w =
     (let w1 = (if jo_run (jw_joiner w) = Some n then on_joiner (\<lambda>j. j\<lparr>jo_run := None\<rparr>) w else w)
      in w1\<lparr>jw_log := JReturned n x # jw_log w1\<rparr>)"

text \<open>\<open>release()\<close>, with the end of \<open>start()\<close> behind it where it was called there.\<close>

definition release :: "(nat \<times> pair_error) option \<Rightarrow> join_world \<Rightarrow> join_world" where
  "release back w =
     (case (jo_id (jw_joiner w), jo_token (jw_joiner w)) of
        (Some i, Some t) \<Rightarrow> jask (RqJoinerCancel i (Some t)) (JtReleased back) (on_joiner (\<lambda>j. j\<lparr>jo_id := None\<rparr>) w)
      | _ \<Rightarrow> (case back of None \<Rightarrow> w | Some (n, e) \<Rightarrow> jreturn n (Inl e) w))"

definition join_failed_phase :: "pair_error \<Rightarrow> joiner_phase" where
  "join_failed_phase e = (if e = PeExpired then JpExpired else if e = PeCancelled then JpCancelled else JpFailed)"

text \<open>The \<open>catch\<close> of \<open>start()\<close>; what is no error has no \<open>body.code\<close>, and nothing is released.\<close>

definition join_fail :: "nat \<Rightarrow> pair_error \<Rightarrow> join_world \<Rightarrow> join_world" where
  "join_fail n e w =
     (if jrun_aborted n (jw_joiner w) then jreturn n (Inl (abort_reason n (jw_joiner w))) w
      else if e = PeFault then jreturn n (Inl e) w
      else if e = PeForeign then jreturn n (Inl e) (on_joiner (\<lambda>j. j\<lparr>jo_error := Some e\<rparr>) w)
      else release (Some (n, e)) (on_joiner (\<lambda>j. j\<lparr>jo_error := Some e, jo_phase := join_failed_phase e\<rparr>) w))"

definition join_poll_error :: "join_run \<Rightarrow> pair_error option \<Rightarrow> join_world \<Rightarrow> join_world" where
  "join_poll_error r e w =
     (if jrun_aborted (jr_no r) (jw_joiner w) then jreturn (jr_no r) (Inl (abort_reason (jr_no r) (jw_joiner w))) w
      else case e of
        None \<Rightarrow> jawait (JtPause r) w
      | Some e \<Rightarrow>
          if e = PeForeign \<or> e = PeFault then join_fail (jr_no r) PeUnreachable w
          else if e = PeNotFound then join_fail (jr_no r) PeExpired w
          else (case pair_retry_after e of
                  Some s \<Rightarrow> jawait (JtBackoff r s) w
                | None \<Rightarrow> join_fail (jr_no r) e w))"

section \<open>Calls\<close>

definition join_ref :: "join_options \<Rightarrow> string option" where
  "join_ref op = (if is_invitation_id (jp_ref op) then Some (jp_ref op) else normalize_invitation_code (jp_ref op))"

definition join_start :: "pairing_env \<Rightarrow> join_options \<Rightarrow> join_world \<Rightarrow> join_world" where
  "join_start env op w =
     (let n = jo_runs (jw_joiner w); secret = pe_secrets env n; pub = pe_public env secret; nonce = pe_nonces env n;
          w = on_joiner (\<lambda>j. j\<lparr>jo_runs := Suc n, jo_run := Some n, jo_phase := JpClaiming\<rparr>) w
      in case join_ref op of
           None \<Rightarrow> join_fail n PeValidation w
         | Some ref \<Rightarrow>
             (case pairing_commit env nonce pub of
                Inl e \<Rightarrow> join_fail n e w
              | Inr c \<Rightarrow> jask (RqClaim ref \<lparr>cb_joinerKey = to_b64url pub, cb_commit = to_b64url c, cb_deviceName = jp_deviceName op\<rparr>)
                  (JtClaim \<lparr>jr_no = n, jr_secret = secret, jr_public = pub, jr_nonce = nonce, jr_id = [], jr_hostKey = [], jr_hostNonce = None\<rparr>) w))"

definition join_call :: "pairing_env \<Rightarrow> join_options \<Rightarrow> join_call \<Rightarrow> join_world \<Rightarrow> pair_error option \<times> join_world" where
  "join_call env op c w =
     (let w = w\<lparr>jw_log := JCalled c # jw_log w\<rparr>
      in case c of
           CallJoin \<Rightarrow> (None, join_start env op w)
         | CallMatch \<Rightarrow>
             if jo_phase (jw_joiner w) \<noteq> JpCompare then (Some PeState, w)
             else (None, on_joiner (\<lambda>j. j\<lparr>jo_matched := True\<rparr>) w)
         | CallMismatch \<Rightarrow>
             if jo_phase (jw_joiner w) \<noteq> JpCompare then (Some PeState, w)
             else (None, release None (on_joiner (\<lambda>j. (jabort (Some PeSasMismatch) j)\<lparr>jo_error := Some PeSasMismatch, jo_phase := JpFailed\<rparr>) w))
         | CallLeave \<Rightarrow>
             (None, release None (on_joiner (\<lambda>j. (jabort None j)\<lparr>jo_phase := (if jo_phase j = JpReceived then JpReceived else JpCancelled)\<rparr>) w)))"

section \<open>The step of a poll\<close>

text \<open>The host's nonce is pinned the first time it is seen.\<close>

definition pin_nonce :: "join_run \<Rightarrow> string option \<Rightarrow> pair_error + join_run" where
  "pin_nonce r hn =
     (case hn of
        None \<Rightarrow> Inr r
      | Some text \<Rightarrow>
          (case from_b64url text of
             Inl _ \<Rightarrow> Inl PeValidation
           | Inr seen \<Rightarrow>
               (case jr_hostNonce r of
                  None \<Rightarrow> Inr (r\<lparr>jr_hostNonce := Some seen\<rparr>)
                | Some pinned \<Rightarrow> if constant_time_equal pinned seen then Inr r else Inl PeCommitMismatch)))"

definition join_nonced :: "pairing_env \<Rightarrow> join_run \<Rightarrow> bytes \<Rightarrow> join_world \<Rightarrow> join_world" where
  "join_nonced env r hn w =
     (let send = jask (RqReveal (jr_id r) (jo_token (jw_joiner w)) (to_b64url (jr_nonce r))) (JtReveal r)
      in if jo_sas (jw_joiner w) \<noteq> None then send w
         else case derive_pairing_sas env (jr_id r) (jr_hostKey r) (jr_public r) hn (jr_nonce r) of
                Inl e \<Rightarrow> join_poll_error r (Some e) w
              | Inr sas \<Rightarrow> send (on_joiner (\<lambda>j. j\<lparr>jo_sas := Some sas, jo_phase := JpCompare\<rparr>) w))"

definition join_delivered :: "pairing_env \<Rightarrow> join_run \<Rightarrow> string \<Rightarrow> join_world \<Rightarrow> join_world" where
  "join_delivered env r c w =
     (case derive_pairing_key env (jr_id r) (jr_secret r) (jr_hostKey r) (jr_hostKey r) (jr_public r) of
        Inl e \<Rightarrow> join_poll_error r (Some e) w
      | Inr key \<Rightarrow>
          (case from_b64url c of
             Inl _ \<Rightarrow> join_poll_error r (Some PeValidation) w
           | Inr blob \<Rightarrow>
               (case open_pairing_payload env key blob of
                  Inl e \<Rightarrow> join_poll_error r (Some e) w
                | Inr p \<Rightarrow> jask (RqAck (jr_id r) (jo_token (jw_joiner w))) (JtAck r p) w)))"

definition join_step :: "pairing_env \<Rightarrow> join_run \<Rightarrow> joiner_view \<Rightarrow> join_world \<Rightarrow> join_world" where
  "join_step env r v w =
     (let w = on_joiner (\<lambda>j. j\<lparr>jo_ttl := jv_ttl v\<rparr>) w
      in if jv_state v = PsCancelled then join_poll_error r (Some PeCancelled) w
         else case pin_nonce r (jv_hostNonce v) of
                Inl e \<Rightarrow> join_poll_error r (Some e) w
              | Inr r \<Rightarrow>
                  (case (jv_state v, jr_hostNonce r, jv_ciphertext v) of
                     (PsNonced, Some hn, _) \<Rightarrow> join_nonced env r hn w
                   | (PsDelivered, _, Some c) \<Rightarrow> if jo_matched (jw_joiner w) then join_delivered env r c w else jawait (JtPause r) w
                   | _ \<Rightarrow> jawait (JtPause r) w))"

section \<open>Resuming\<close>

definition join_resume :: "pairing_env \<Rightarrow> join_task \<Rightarrow> pair_reply \<Rightarrow> join_world \<Rightarrow> join_world" where
  "join_resume env t q w =
     (let w = w\<lparr>jw_tasks := remove1 t (jw_tasks w), jw_log := JTold t q # jw_log w\<rparr>;
          ends = (\<lambda>r. jreturn (jr_no r) (Inl (abort_reason (jr_no r) (jw_joiner w))) w)
      in case t of
           JtClaim r \<Rightarrow>
             (case q of
                RpClaimed c \<Rightarrow>
                  (case from_b64url (cl_hostKey c) of
                     Inl _ \<Rightarrow> join_fail (jr_no r) PeValidation w
                   | Inr hk \<Rightarrow> jawait (JtPause (r\<lparr>jr_id := cl_id c, jr_hostKey := hk\<rparr>))
                       (on_joiner (\<lambda>j. j\<lparr>jo_id := Some (cl_id c), jo_token := Some (cl_token c), jo_ttl := cl_ttl c, jo_phase := JpWaiting\<rparr>) w))
              | _ \<Rightarrow> join_fail (jr_no r) (case relay_error_of q of None \<Rightarrow> PeUnreachable | Some e \<Rightarrow> e) w)
         | JtPause r \<Rightarrow> if jrun_aborted (jr_no r) (jw_joiner w) then ends r else jask (RqJoinerView (jr_id r) (jo_token (jw_joiner w))) (JtView r) w
         | JtBackoff r s \<Rightarrow> if jrun_aborted (jr_no r) (jw_joiner w) then ends r else jawait (JtPause r) w
         | JtView r \<Rightarrow> (case q of RpJoinerView v \<Rightarrow> join_step env r v w | _ \<Rightarrow> join_poll_error r (relay_error_of q) w)
         | JtReveal r \<Rightarrow> if is_failure q then join_poll_error r (relay_error_of q) w else jawait (JtPause r) w
         | JtAck r p \<Rightarrow>
             if is_failure q then join_poll_error r (relay_error_of q) w
             else jreturn (jr_no r) (Inr p) (on_joiner (\<lambda>j. j\<lparr>jo_phase := JpReceived\<rparr>) w)
         | JtReleased back \<Rightarrow> (case back of None \<Rightarrow> w | Some (n, e) \<Rightarrow> jreturn n (Inl e) w))"

text \<open>What can happen to a joiner; \<open>once\<close> says which calls of \<open>start()\<close> there may be.\<close>

inductive join_runs :: "pairing_env \<Rightarrow> join_options \<Rightarrow> (join_call \<Rightarrow> join_world \<Rightarrow> bool) \<Rightarrow> join_world \<Rightarrow> bool"
  for env :: pairing_env and op :: join_options and once :: "join_call \<Rightarrow> join_world \<Rightarrow> bool" where
  fresh: "join_runs env op once new_join_world"
| called: "join_runs env op once w \<Longrightarrow> once c w \<Longrightarrow> join_runs env op once (snd (join_call env op c w))"
| resumed: "join_runs env op once w \<Longrightarrow> t \<in> set (jw_tasks w) \<Longrightarrow> join_runs env op once (join_resume env t q w)"

end
