(* ===== verification/PairJoinerProps.thy ===== *)
theory PairJoinerProps
  imports PairJoiner
begin

text \<open>
  What the new device keeps, whatever the relay answers: its nonce leaves only with the host's pinned
  and the digits on the screen, the digits never change, and a payload is only opened after the owner
  said that they match, with the key that goes with them.
\<close>

section \<open>The run behind a task\<close>

fun task_run :: "join_task \<Rightarrow> join_run option" where
  "task_run (JtClaim r) = Some r"
| "task_run (JtPause r) = Some r"
| "task_run (JtBackoff r _) = Some r"
| "task_run (JtView r) = Some r"
| "task_run (JtReveal r) = Some r"
| "task_run (JtAck r _) = Some r"
| "task_run (JtReleased _) = None"

definition join_once :: "join_call \<Rightarrow> join_world \<Rightarrow> bool" where
  "join_once c w \<longleftrightarrow> (c = CallJoin \<longrightarrow> jo_runs (jw_joiner w) = 0)"

lemma jw_simps [simp]:
  "jw_joiner (on_joiner f w) = f (jw_joiner w)" "jw_tasks (on_joiner f w) = jw_tasks w" "jw_log (on_joiner f w) = jw_log w"
  "jw_joiner (jawait t w) = jw_joiner w" "jw_tasks (jawait t w) = t # jw_tasks w" "jw_log (jawait t w) = jw_log w"
  "jw_joiner (jask q t w) = jw_joiner w" "jw_tasks (jask q t w) = t # jw_tasks w" "jw_log (jask q t w) = JAsked q # jw_log w"
  by (simp_all add: on_joiner_def jawait_def jask_def)

section \<open>The invariant\<close>

text \<open>The digits are of this run's invitation, keys and nonces.\<close>

definition digits_of :: "pairing_env \<Rightarrow> join_run \<Rightarrow> string \<Rightarrow> bool" where
  "digits_of env r sas \<longleftrightarrow>
     jr_secret r = pe_secrets env 0 \<and> jr_public r = pe_public env (pe_secrets env 0) \<and> jr_nonce r = pe_nonces env 0
   \<and> (\<exists>hn. jr_hostNonce r = Some hn \<and> derive_pairing_sas env (jr_id r) (jr_hostKey r) (jr_public r) hn (jr_nonce r) = Inr sas)"

definition opened_by :: "pairing_env \<Rightarrow> join_run \<Rightarrow> pairing_payload \<Rightarrow> bool" where
  "opened_by env r p \<longleftrightarrow>
     (\<exists>key blob. derive_pairing_key env (jr_id r) (jr_secret r) (jr_hostKey r) (jr_hostKey r) (jr_public r) = Inr key
        \<and> open_pairing_payload env key blob = Inr p)"

definition own_values :: "pairing_env \<Rightarrow> join_run \<Rightarrow> bool" where
  "own_values env r \<longleftrightarrow> jr_secret r = pe_secrets env 0 \<and> jr_public r = pe_public env (pe_secrets env 0) \<and> jr_nonce r = pe_nonces env 0"

text \<open>What a task of the run may rely on.\<close>

definition run_fits :: "pairing_env \<Rightarrow> pair_joiner \<Rightarrow> join_run \<Rightarrow> bool" where
  "run_fits env j r \<longleftrightarrow> own_values env r \<and> (\<forall>sas. jo_sas j = Some sas \<longrightarrow> digits_of env r sas)"

definition entry_fits :: "pairing_env \<Rightarrow> pair_joiner \<Rightarrow> join_entry \<Rightarrow> bool" where
  "entry_fits env j e \<longleftrightarrow>
     (case e of
        JAsked (RqReveal i t n) \<Rightarrow> n = to_b64url (pe_nonces env 0) \<and> jo_sas j \<noteq> None
      | JReturned n (Inr p) \<Rightarrow> jo_matched j \<and> (\<exists>r sas. jo_sas j = Some sas \<and> digits_of env r sas \<and> opened_by env r p)
      | _ \<Rightarrow> True)"

definition joiner_ok :: "pairing_env \<Rightarrow> join_world \<Rightarrow> bool" where
  "joiner_ok env w \<longleftrightarrow>
     single (\<lambda>t. task_run t \<noteq> None) (jw_tasks w)
   \<and> (\<forall>t \<in> set (jw_tasks w). \<forall>r. task_run t = Some r \<longrightarrow> run_fits env (jw_joiner w) r)
   \<and> (\<forall>r p. JtAck r p \<in> set (jw_tasks w) \<longrightarrow> jo_matched (jw_joiner w) \<and> opened_by env r p)
   \<and> (\<forall>r. JtClaim r \<in> set (jw_tasks w) \<longrightarrow> jo_sas (jw_joiner w) = None)
   \<and> (jo_runs (jw_joiner w) = 0 \<longrightarrow> (\<forall>t \<in> set (jw_tasks w). task_run t = None) \<and> jo_sas (jw_joiner w) = None)
   \<and> (jo_phase (jw_joiner w) = JpCompare \<or> jo_matched (jw_joiner w) \<longrightarrow> jo_sas (jw_joiner w) \<noteq> None)
   \<and> (jo_matched (jw_joiner w) \<longrightarrow> JCalled CallMatch \<in> set (jw_log w))
   \<and> (\<forall>e \<in> set (jw_log w). entry_fits env (jw_joiner w) e)"

lemma joiner_ok_new: "joiner_ok env new_join_world"
  by (simp add: joiner_ok_def new_join_world_def new_joiner_def)

text \<open>An event is logged, a task taken off.\<close>

definition jlogged :: "join_entry \<Rightarrow> join_world \<Rightarrow> join_world" where
  "jlogged e w = w\<lparr>jw_log := e # jw_log w\<rparr>"

definition jtook :: "join_task \<Rightarrow> pair_reply \<Rightarrow> join_world \<Rightarrow> join_world" where
  "jtook t q w = w\<lparr>jw_tasks := remove1 t (jw_tasks w), jw_log := JTold t q # jw_log w\<rparr>"

lemma jlogged_simps [simp]:
  "jw_joiner (jlogged e w) = jw_joiner w" "jw_tasks (jlogged e w) = jw_tasks w" "jw_log (jlogged e w) = e # jw_log w"
  "jw_joiner (jtook t q w) = jw_joiner w" "jw_tasks (jtook t q w) = remove1 t (jw_tasks w)" "jw_log (jtook t q w) = JTold t q # jw_log w"
  by (simp_all add: jlogged_def jtook_def)

lemma jask_logged: "jask q t w = jawait t (jlogged (JAsked q) w)"
  by (simp add: jask_def jlogged_def)

lemma joiner_ok_logged: "joiner_ok env w \<Longrightarrow> entry_fits env (jw_joiner w) e \<Longrightarrow> joiner_ok env (jlogged e w)"
  by (simp add: joiner_ok_def)

lemma joiner_ok_took: "joiner_ok env w \<Longrightarrow> joiner_ok env (jtook t q w)"
  unfolding joiner_ok_def jlogged_simps by (auto simp: single_remove1 entry_fits_def dest: in_remove1)

definition no_run_task :: "join_world \<Rightarrow> bool" where
  "no_run_task w \<longleftrightarrow> (\<forall>t \<in> set (jw_tasks w). task_run t = None)"

lemma took_run:
  assumes "joiner_ok env w" and "t \<in> set (jw_tasks w)" and "task_run t = Some r"
  shows "no_run_task (jtook t q w)" "run_fits env (jw_joiner w) r" "0 < jo_runs (jw_joiner w)"
proof -
  note a = assms(1) [unfolded joiner_ok_def]
  show "no_run_task (jtook t q w)"
    unfolding no_run_task_def jlogged_simps
    using single_taken [OF assms(2), of "\<lambda>t. task_run t \<noteq> None"] assms(3) a by auto
  show "run_fits env (jw_joiner w) r" using a assms(2,3) by blast
  show "0 < jo_runs (jw_joiner w)" using a assms(2,3) by fastforce
qed

section \<open>What keeps it\<close>

text \<open>The state changes, the digits and the confirmation do not.\<close>

lemma joiner_ok_on:
  assumes "joiner_ok env w" and "jo_sas (f (jw_joiner w)) = jo_sas (jw_joiner w)" and "jo_matched (f (jw_joiner w)) = jo_matched (jw_joiner w)"
    and "jo_runs (f (jw_joiner w)) = jo_runs (jw_joiner w)" and "jo_phase (f (jw_joiner w)) = JpCompare \<Longrightarrow> jo_phase (jw_joiner w) = JpCompare"
  shows "joiner_ok env (on_joiner f w)"
proof -
  have "entry_fits env (f (jw_joiner w)) e = entry_fits env (jw_joiner w) e" for e
    using assms(2,3) by (simp add: entry_fits_def split: join_entry.split pair_request.split sum.split)
  moreover have "run_fits env (f (jw_joiner w)) r = run_fits env (jw_joiner w) r" for r using assms(2) by (simp add: run_fits_def)
  ultimately show ?thesis using assms unfolding joiner_ok_def jw_simps by auto
qed

lemma joiner_ok_await:
  assumes "joiner_ok env w" and "task_run t = Some r" and "no_run_task w" and "run_fits env (jw_joiner w) r" and "0 < jo_runs (jw_joiner w)"
    and "\<And>p. t = JtAck r p \<Longrightarrow> jo_matched (jw_joiner w) \<and> opened_by env r p" and "t = JtClaim r \<Longrightarrow> jo_sas (jw_joiner w) = None"
  shows "joiner_ok env (jawait t w)"
  using assms unfolding joiner_ok_def jw_simps no_run_task_def by (cases t) auto

lemma joiner_ok_aside: "joiner_ok env w \<Longrightarrow> joiner_ok env (jawait (JtReleased x) w)"
  unfolding joiner_ok_def jw_simps by auto

lemma joiner_ok_return:
  assumes "joiner_ok env w" and "entry_fits env (jw_joiner w) (JReturned n x)"
  shows "joiner_ok env (jreturn n x w)"
proof -
  let ?w = "if jo_run (jw_joiner w) = Some n then on_joiner (\<lambda>j. j\<lparr>jo_run := None\<rparr>) w else w"
  have "joiner_ok env ?w" using joiner_ok_on [OF assms(1), of "\<lambda>j. j\<lparr>jo_run := None\<rparr>"] assms(1) by simp
  moreover have "entry_fits env (jw_joiner ?w) (JReturned n x)" using assms(2) by (simp add: entry_fits_def split: sum.splits)
  ultimately show ?thesis using joiner_ok_logged by (fastforce simp: jreturn_def Let_def jlogged_def)
qed

lemma entry_fits_error [simp]: "entry_fits env j (JReturned n (Inl e))"
  by (simp add: entry_fits_def)

lemma joiner_ok_release: "joiner_ok env w \<Longrightarrow> joiner_ok env (release x w)"
proof -
  assume ok: "joiner_ok env w"
  have "joiner_ok env (on_joiner (\<lambda>j. j\<lparr>jo_id := None\<rparr>) w)" by (rule joiner_ok_on [OF ok]) simp_all
  then have "joiner_ok env (jask (RqJoinerCancel i t) (JtReleased x) (on_joiner (\<lambda>j. j\<lparr>jo_id := None\<rparr>) w))" for i t
    unfolding jask_logged by (intro joiner_ok_aside joiner_ok_logged) (simp_all add: entry_fits_def)
  with ok show ?thesis by (cases x) (auto simp: release_def joiner_ok_return split: option.split)
qed

lemma joiner_ok_fail:
  assumes "joiner_ok env w"
  shows "joiner_ok env (join_fail n e w)"
proof -
  have "joiner_ok env (on_joiner (\<lambda>j. j\<lparr>jo_error := Some e, jo_phase := join_failed_phase e\<rparr>) w)"
    by (rule joiner_ok_on [OF assms]) (simp_all add: join_failed_phase_def split: if_splits)
  moreover have "joiner_ok env (on_joiner (\<lambda>j. j\<lparr>jo_error := Some e\<rparr>) w)" by (rule joiner_ok_on [OF assms]) simp_all
  ultimately show ?thesis using assms by (auto simp: join_fail_def joiner_ok_return joiner_ok_release)
qed

lemma joiner_ok_poll_error:
  "joiner_ok env w \<Longrightarrow> no_run_task w \<Longrightarrow> run_fits env (jw_joiner w) r \<Longrightarrow> 0 < jo_runs (jw_joiner w) \<Longrightarrow> joiner_ok env (join_poll_error r e w)"
  using joiner_ok_await [of env w "JtPause r" r] joiner_ok_await [of env w "JtBackoff r _" r]
  by (simp add: join_poll_error_def joiner_ok_return joiner_ok_fail split: option.split)

section \<open>The steps\<close>

lemma joiner_ok_nonced:
  assumes "joiner_ok env w" and "no_run_task w" and "run_fits env (jw_joiner w) r" and "0 < jo_runs (jw_joiner w)" and "jr_hostNonce r = Some hn"
  shows "joiner_ok env (join_nonced env r hn w)"
proof -
  have own: "own_values env r" using assms(3) by (simp add: run_fits_def)
  have send: "joiner_ok env (jask (RqReveal i t (to_b64url (jr_nonce r))) (JtReveal r) w')"
    if "joiner_ok env w'" "jw_tasks w' = jw_tasks w" "run_fits env (jw_joiner w') r" "0 < jo_runs (jw_joiner w')" "jo_sas (jw_joiner w') \<noteq> None" for i t w'
    unfolding jask_logged
  proof (rule joiner_ok_await [where r = r])
    show "joiner_ok env (jlogged (JAsked (RqReveal i t (to_b64url (jr_nonce r)))) w')"
      using that own by (intro joiner_ok_logged) (simp_all add: entry_fits_def own_values_def)
  qed (use that assms(2) in \<open>simp_all add: no_run_task_def\<close>)
  show ?thesis
  proof (cases "jo_sas (jw_joiner w)")
    case (Some s)
    then show ?thesis using send [of w] assms by (simp add: join_nonced_def Let_def)
  next
    case None
    show ?thesis
    proof (cases "derive_pairing_sas env (jr_id r) (jr_hostKey r) (jr_public r) hn (jr_nonce r)")
      case (Inl e)
      then show ?thesis using None assms by (simp add: join_nonced_def Let_def joiner_ok_poll_error)
    next
      case (Inr sas)
      let ?w = "on_joiner (\<lambda>j. j\<lparr>jo_sas := Some sas, jo_phase := JpCompare\<rparr>) w"
      have "entry_fits env (jw_joiner w) e \<Longrightarrow> entry_fits env (jw_joiner ?w) e" for e
        using None by (auto simp: entry_fits_def split: join_entry.splits pair_request.splits sum.splits)
      moreover have "run_fits env (jw_joiner ?w) r"
        using own Inr assms(5) by (simp add: run_fits_def digits_of_def own_values_def)
      moreover have "\<forall>t \<in> set (jw_tasks w). task_run t = None" using assms(2) by (simp add: no_run_task_def)
      moreover have idle: "JtClaim q \<notin> set (jw_tasks w)" for q using assms(2) by (auto simp: no_run_task_def)
      ultimately have "joiner_ok env ?w"
        using assms(1) None assms(4) unfolding joiner_ok_def jw_simps by auto
      then show ?thesis using send [of ?w] None Inr assms(4) \<open>run_fits env (jw_joiner ?w) r\<close> by (simp add: join_nonced_def Let_def)
    qed
  qed
qed

lemma joiner_ok_delivered:
  assumes "joiner_ok env w" and "no_run_task w" and "run_fits env (jw_joiner w) r" and "0 < jo_runs (jw_joiner w)" and "jo_matched (jw_joiner w)"
  shows "joiner_ok env (join_delivered env r c w)"
proof -
  have "joiner_ok env (jask (RqAck i t) (JtAck r p) w)" if "opened_by env r p" for i t p
    unfolding jask_logged
  proof (rule joiner_ok_await [where r = r])
    show "joiner_ok env (jlogged (JAsked (RqAck i t)) w)" using assms(1) by (rule joiner_ok_logged) (simp add: entry_fits_def)
  qed (use that assms in \<open>simp_all add: no_run_task_def\<close>)
  then show ?thesis using assms
    by (auto simp: join_delivered_def joiner_ok_poll_error opened_by_def split: sum.split) blast
qed

lemma pinned_fits: "pin_nonce r x = Inr r' \<Longrightarrow> run_fits env j r \<Longrightarrow> run_fits env j r'"
  by (auto simp: pin_nonce_def run_fits_def digits_of_def own_values_def split: option.splits sum.splits if_splits)

lemma joiner_ok_step:
  assumes "joiner_ok env w" and "no_run_task w" and "run_fits env (jw_joiner w) r" and "0 < jo_runs (jw_joiner w)"
  shows "joiner_ok env (join_step env r v w)"
proof -
  let ?w = "on_joiner (\<lambda>j. j\<lparr>jo_ttl := jv_ttl v\<rparr>) w"
  have ok: "joiner_ok env ?w" by (rule joiner_ok_on [OF assms(1)]) simp_all
  have w: "no_run_task ?w" "0 < jo_runs (jw_joiner ?w)" using assms by (simp_all add: no_run_task_def)
  have fits: "run_fits env (jw_joiner ?w) r'" if "run_fits env (jw_joiner w) r'" for r' using that by (simp add: run_fits_def)
  note err = joiner_ok_poll_error [OF ok w(1) fits [OF assms(3)] w(2)]
  show ?thesis
  proof (cases "pin_nonce r (jv_hostNonce v)")
    case (Inl e)
    then show ?thesis using err by (simp add: join_step_def Let_def)
  next
    case (Inr r')
    have f: "run_fits env (jw_joiner ?w) r'" by (rule fits [OF pinned_fits [OF Inr assms(3)]])
    have "joiner_ok env (jawait (JtPause r') ?w)" by (rule joiner_ok_await [OF ok _ w(1) f w(2)]) simp_all
    moreover have "joiner_ok env (join_nonced env r' hn ?w)" if "jr_hostNonce r' = Some hn" for hn
      by (rule joiner_ok_nonced [OF ok w(1) f w(2) that])
    moreover have "joiner_ok env (join_delivered env r' c ?w)" if "jo_matched (jw_joiner w)" for c
      by (rule joiner_ok_delivered [OF ok w(1) f w(2)]) (simp add: that)
    ultimately show ?thesis using Inr err
      by (simp add: join_step_def Let_def split: pairing_state.split option.split)
  qed
qed

section \<open>Calls and resumptions\<close>

lemma joiner_ok_start:
  assumes "joiner_ok env w" and "jo_runs (jw_joiner w) = 0"
  shows "joiner_ok env (join_start env op w)"
proof -
  let ?w = "on_joiner (\<lambda>j. j\<lparr>jo_runs := Suc (jo_runs (jw_joiner w)), jo_run := Some (jo_runs (jw_joiner w)), jo_phase := JpClaiming\<rparr>) w"
  note a = assms(1) [unfolded joiner_ok_def]
  have fresh: "jo_sas (jw_joiner w) = None" "\<forall>t \<in> set (jw_tasks w). task_run t = None" "\<not> jo_matched (jw_joiner w)" using a assms(2) by auto
  have "entry_fits env (jw_joiner ?w) e = entry_fits env (jw_joiner w) e" for e
    by (simp add: entry_fits_def split: join_entry.split pair_request.split sum.split)
  then have ok: "joiner_ok env ?w" using a fresh by (simp add: joiner_ok_def)
  have "joiner_ok env (jask (RqClaim ref b) (JtClaim r) ?w)" if "own_values env r" for ref b r
    unfolding jask_logged
  proof (rule joiner_ok_await [where r = r])
    show "joiner_ok env (jlogged (JAsked (RqClaim ref b)) ?w)" using ok by (rule joiner_ok_logged) (simp add: entry_fits_def)
  qed (use that fresh in \<open>simp_all add: no_run_task_def run_fits_def\<close>)
  then show ?thesis using ok assms(2)
    by (simp add: join_start_def Let_def joiner_ok_fail own_values_def split: option.split sum.split)
qed

lemma joiner_ok_call:
  assumes "joiner_ok env w" and "join_once c w"
  shows "joiner_ok env (snd (join_call env op c w))"
proof -
  let ?w = "jlogged (JCalled c) w"
  have ok: "joiner_ok env ?w" by (rule joiner_ok_logged [OF assms(1)]) (simp add: entry_fits_def)
  show ?thesis
  proof (cases c)
    case CallJoin
    then show ?thesis using ok assms(2) joiner_ok_start [OF ok]
      by (simp add: join_call_def Let_def jlogged_def join_once_def)
  next
    case CallMatch
    let ?m = "on_joiner (\<lambda>j. j\<lparr>jo_matched := True\<rparr>) ?w"
    have "entry_fits env (jw_joiner ?w) e \<Longrightarrow> entry_fits env (jw_joiner ?m) e" for e
      by (auto simp: entry_fits_def split: join_entry.splits pair_request.splits sum.splits)
    then have "joiner_ok env ?m" if "jo_phase (jw_joiner w) = JpCompare"
      using ok that CallMatch unfolding joiner_ok_def by (auto simp: run_fits_def)
    then show ?thesis using ok CallMatch by (simp add: join_call_def Let_def jlogged_def)
  next
    case CallMismatch
    have "joiner_ok env (on_joiner (\<lambda>j. (jabort (Some PeSasMismatch) j)\<lparr>jo_error := Some PeSasMismatch, jo_phase := JpFailed\<rparr>) ?w)"
      by (rule joiner_ok_on [OF ok]) (simp_all add: jabort_def)
    then show ?thesis using ok CallMismatch joiner_ok_release by (simp add: join_call_def Let_def jlogged_def)
  next
    case CallLeave
    have "joiner_ok env (on_joiner (\<lambda>j. (jabort None j)\<lparr>jo_phase := (if jo_phase j = JpReceived then JpReceived else JpCancelled)\<rparr>) ?w)"
      by (rule joiner_ok_on [OF ok]) (auto simp: jabort_def split: if_splits)
    then show ?thesis using CallLeave joiner_ok_release by (simp add: join_call_def Let_def jlogged_def)
  qed
qed

lemma joiner_ok_claimed:
  assumes "joiner_ok env w" and "t = JtClaim r" and "t \<in> set (jw_tasks w)"
  shows "joiner_ok env (join_resume env t q w)"
proof -
  let ?w = "jtook t q w"
  have task: "task_run t = Some r" using assms(2) by simp
  have turn: "no_run_task ?w" "run_fits env (jw_joiner w) r" "0 < jo_runs (jw_joiner w)" using took_run [OF assms(1,3) task] by auto
  have none: "jo_sas (jw_joiner w) = None" using assms unfolding joiner_ok_def by blast
  have ok: "joiner_ok env ?w" by (rule joiner_ok_took [OF assms(1)])
  have "joiner_ok env (jawait (JtPause (r\<lparr>jr_id := cl_id c, jr_hostKey := hk\<rparr>))
      (on_joiner (\<lambda>j. j\<lparr>jo_id := Some (cl_id c), jo_token := Some (cl_token c), jo_ttl := cl_ttl c, jo_phase := JpWaiting\<rparr>) ?w))" for c hk
  proof (rule joiner_ok_await [where r = "r\<lparr>jr_id := cl_id c, jr_hostKey := hk\<rparr>"])
    show "joiner_ok env (on_joiner (\<lambda>j. j\<lparr>jo_id := Some (cl_id c), jo_token := Some (cl_token c), jo_ttl := cl_ttl c, jo_phase := JpWaiting\<rparr>) ?w)"
      by (rule joiner_ok_on [OF ok]) simp_all
  qed (use turn none in \<open>simp_all add: no_run_task_def run_fits_def own_values_def\<close>)
  then show ?thesis using joiner_ok_fail [OF ok] assms(2)
    by (auto simp: join_resume_def Let_def jtook_def split: pair_reply.split sum.split)
qed

lemma joiner_ok_resume:
  assumes "joiner_ok env w" and "t \<in> set (jw_tasks w)"
  shows "joiner_ok env (join_resume env t q w)"
proof -
  let ?w = "jtook t q w"
  have ok: "joiner_ok env ?w" by (rule joiner_ok_took [OF assms(1)])
  have turn: "no_run_task ?w" "run_fits env (jw_joiner ?w) r" "0 < jo_runs (jw_joiner ?w)" if "task_run t = Some r" for r
    using took_run [OF assms that] by simp_all
  have pause: "joiner_ok env (jawait (JtPause r) ?w)" if "task_run t = Some r" for r
    by (rule joiner_ok_await [OF ok _ turn [OF that]]) simp_all
  have err: "joiner_ok env (join_poll_error r e ?w)" if "task_run t = Some r" for r e
    by (rule joiner_ok_poll_error [OF ok turn [OF that]])
  have ended: "joiner_ok env (jreturn n (Inl e) ?w)" for n e by (rule joiner_ok_return [OF ok]) simp
  show ?thesis
  proof (cases t)
    case (JtClaim r)
    then show ?thesis using joiner_ok_claimed [OF assms(1) JtClaim assms(2)] by simp
  next
    case (JtPause r)
    have "joiner_ok env (jask (RqJoinerView i x) (JtView r) ?w)" for i x
      unfolding jask_logged
    proof (rule joiner_ok_await [where r = r])
      show "joiner_ok env (jlogged (JAsked (RqJoinerView i x)) ?w)" using ok by (rule joiner_ok_logged) (simp add: entry_fits_def)
    qed (use turn [of r] JtPause in \<open>simp_all add: no_run_task_def\<close>)
    then show ?thesis using ended JtPause by (simp add: join_resume_def Let_def jtook_def [symmetric])
  next
    case (JtBackoff r s)
    then show ?thesis using pause [of r] ended by (simp add: join_resume_def Let_def jtook_def [symmetric])
  next
    case (JtView r)
    have "joiner_ok env (join_step env r v ?w)" for v using JtView by (intro joiner_ok_step ok turn) simp_all
    then show ?thesis using err [of r] JtView by (cases q) (simp_all add: join_resume_def Let_def jtook_def)
  next
    case (JtReveal r)
    then show ?thesis using pause [of r] err [of r] by (simp add: join_resume_def Let_def jtook_def [symmetric])
  next
    case (JtAck r p)
    let ?r = "on_joiner (\<lambda>j. j\<lparr>jo_phase := JpReceived\<rparr>) ?w"
    have "joiner_ok env ?r" by (rule joiner_ok_on [OF ok]) simp_all
    moreover have "entry_fits env (jw_joiner ?r) (JReturned n (Inr p))" for n
    proof -
      have m: "jo_matched (jw_joiner w)" "opened_by env r p" "jo_sas (jw_joiner w) \<noteq> None"
        using assms JtAck unfolding joiner_ok_def by auto
      moreover have "run_fits env (jw_joiner w) r" using turn(2) [of r] JtAck by simp
      ultimately show ?thesis by (auto simp: entry_fits_def run_fits_def)
    qed
    ultimately have "joiner_ok env (jreturn (jr_no r) (Inr p) ?r)" by (rule joiner_ok_return)
    then show ?thesis using err [of r] JtAck by (simp add: join_resume_def Let_def jtook_def [symmetric])
  next
    case (JtReleased x)
    then show ?thesis using ok ended by (auto simp: join_resume_def Let_def jtook_def [symmetric] split: option.split)
  qed
qed

lemma join_runs_ok: "join_runs env op join_once w \<Longrightarrow> joiner_ok env w"
proof (induction rule: join_runs.induct)
  case fresh
  then show ?case by (rule joiner_ok_new)
next
  case (called w c)
  then show ?case by (intro joiner_ok_call)
next
  case (resumed w t q)
  then show ?case by (intro joiner_ok_resume)
qed

section \<open>The digits stay\<close>

lemma sas_of_parts [simp]:
  "jo_sas (jw_joiner (jreturn n x w)) = jo_sas (jw_joiner w)" "jo_sas (jw_joiner (release y w)) = jo_sas (jw_joiner w)"
  "jo_sas (jw_joiner (join_fail n e w)) = jo_sas (jw_joiner w)" "jo_sas (jw_joiner (join_poll_error r z w)) = jo_sas (jw_joiner w)"
proof -
  show 1: "jo_sas (jw_joiner (jreturn n x w)) = jo_sas (jw_joiner w)" for n x w by (simp add: jreturn_def Let_def on_joiner_def)
  show 2: "jo_sas (jw_joiner (release y w)) = jo_sas (jw_joiner w)" for y w by (simp add: release_def 1 split: option.split)
  show 3: "jo_sas (jw_joiner (join_fail n e w)) = jo_sas (jw_joiner w)" for n e w by (simp add: join_fail_def 1 2)
  show "jo_sas (jw_joiner (join_poll_error r z w)) = jo_sas (jw_joiner w)" by (simp add: join_poll_error_def 1 3 split: option.split)
qed

lemma sas_stays_call: "jo_sas (jw_joiner w) = Some sas \<Longrightarrow> jo_sas (jw_joiner (snd (join_call env op c w))) = Some sas"
  by (simp add: join_call_def join_start_def jabort_def Let_def split: join_call.split option.split sum.split)

lemma sas_stays_step: "jo_sas (jw_joiner w) = Some sas \<Longrightarrow> jo_sas (jw_joiner (join_step env r v w)) = Some sas"
  by (simp add: join_step_def join_nonced_def join_delivered_def Let_def split: pairing_state.split option.split sum.split)

lemma sas_stays_resume: "jo_sas (jw_joiner w) = Some sas \<Longrightarrow> jo_sas (jw_joiner (join_resume env t q w)) = Some sas"
  by (simp add: join_resume_def Let_def sas_stays_step split: join_task.split option.split sum.split pair_reply.split)

end
