(* ===== verification/PairingProps.thy ===== *)
theory PairingProps
  imports PairHostCalm PairJoinerProps
begin

text \<open>
  The properties of the two devices of a pairing against a relay that may answer anything, and what one
  request left over from an earlier run does to them.
\<close>

section \<open>What the libraries promise\<close>

definition pairing_lawful :: "pairing_env \<Rightarrow> bool" where
  "pairing_lawful env \<longleftrightarrow>
     (\<forall>b. length (pe_sha256 env b) = 32) \<and> (\<forall>k s i n. length (pe_hkdf env k s i n) = n)
   \<and> (\<forall>s. length s = 32 \<longrightarrow> length (pe_public env s) = 32)
   \<and> (\<forall>a b. length a = 32 \<longrightarrow> length b = 32 \<longrightarrow> pe_shared env a (pe_public env b) = pe_shared env b (pe_public env a))
   \<and> gcm_lawful (pe_gcm env)
   \<and> (\<forall>n. length (pe_secrets env n) = 32) \<and> (\<forall>n. length (pe_nonces env n) = 16) \<and> (\<forall>n. length (pe_ivs env n) = iv_bytes)"

definition demo_pairing_env :: pairing_env where
  "demo_pairing_env = \<lparr>pe_sha256 = (\<lambda>b. take 32 (b @ replicate 32 0)), pe_hkdf = (\<lambda>k s i n. take n (s @ k @ i @ replicate n 0)),
     pe_public = map (\<lambda>b. b + 1), pe_shared = (\<lambda>s p. Some (map2 (\<lambda>x y. x + (y - 1)) s p)),
     pe_gcm = \<lparr>gcm_seal = (\<lambda>key iv b. b @ take 16 (key @ replicate 16 0)),
       gcm_unseal = (\<lambda>key iv c. if drop (length c - 16) c = take 16 (key @ replicate 16 0) then Some (take (length c - 16) c) else None)\<rparr>,
     pe_phrase_ok = (\<lambda>s. s \<noteq> []), pe_url = demo_url_env,
     pe_secrets = (\<lambda>n. replicate 32 (word_of_nat (Suc n))), pe_nonces = (\<lambda>n. replicate 16 (word_of_nat n)), pe_ivs = (\<lambda>n. replicate iv_bytes 0)\<rparr>"

lemma demo_shared: "map2 (\<lambda>x y. x + (y - 1)) a (map (\<lambda>y. y + 1) b) = map2 (+) a (b :: bytes)"
  by (induction a b rule: list_induct2') simp_all

lemma map2_plus_commute: "map2 (+) a b = map2 (+) b (a :: bytes)"
  by (induction a b rule: list_induct2') (simp_all add: add.commute)

lemma length_take_padded: "length (take n (b @ replicate n x)) = n"
  by simp

lemma demo_gcm_lawful: "gcm_lawful (pe_gcm demo_pairing_env)"
proof -
  have "length (take 16 (key @ replicate 16 (0 :: byte))) = 16" for key by (rule length_take_padded)
  then show ?thesis by (simp add: gcm_lawful_def demo_pairing_env_def del: length_take)
qed

lemma demo_pairing_lawful: "pairing_lawful demo_pairing_env"
  unfolding pairing_lawful_def
proof (intro conjI allI impI)
  fix k s i n show "length (pe_hkdf demo_pairing_env k s i n) = n"
    using length_take_padded [of n "s @ k @ i"] by (simp add: demo_pairing_env_def del: length_take)
next
  fix b show "length (pe_sha256 demo_pairing_env b) = 32"
    using length_take_padded [of 32 b] by (simp add: demo_pairing_env_def del: length_take)
next
  fix a b show "pe_shared demo_pairing_env a (pe_public demo_pairing_env b) = pe_shared demo_pairing_env b (pe_public demo_pairing_env a)"
    using map2_plus_commute by (simp add: demo_pairing_env_def demo_shared)
qed (simp_all add: demo_gcm_lawful, simp_all add: demo_pairing_env_def)

lemma lawful_commit: "length jk = 32 \<Longrightarrow> length jn = 16 \<Longrightarrow> pairing_commit env jn jk = Inr (pe_sha256 env (jn @ jk))"
  by (simp add: pairing_commit_def require_length_def pairing_nonce_bytes_def pairing_key_bytes_def)

lemma lawful_digits:
  assumes "length hk = 32" and "length jk = 32" and "length hn = 16" and "length jn = 16"
  obtains sas where "derive_pairing_sas env i hk jk hn jn = Inr sas"
  using assms by (simp add: derive_pairing_sas_def require_length_def pairing_nonce_bytes_def pairing_key_bytes_def Let_def)

lemma lawful_lengths [simp]:
  assumes "pairing_lawful env"
  shows "length (pe_public env (pe_secrets env n)) = 32" "length (pe_nonces env n) = 16" "length (pe_secrets env n) = 32" "length (pe_ivs env n) = iv_bytes"
    "length (pe_sha256 env b) = 32"
  using assms by (simp_all add: pairing_lawful_def)

section \<open>Runs\<close>

lemma resumed_by: "host_runs env op calm w \<Longrightarrow> t \<in> set (hw_tasks w) \<Longrightarrow> host_resume env op t r w = w' \<Longrightarrow> host_runs env op calm w'"
  using host_runs.resumed by blast

lemma called_by: "host_runs env op calm w \<Longrightarrow> calm c w \<Longrightarrow> snd (host_call env op c w) = w' \<Longrightarrow> host_runs env op calm w'"
  using host_runs.called by blast

lemmas host_steps = host_call_def host_confirm_def cancel_run_def host_resume_def begin_run_def host_created_def host_step_def step_claimed_def step_revealed_def
  cancelled_def settled_def host_forget_def abort_run_def invitation_id_def run_aborted_def finish_run_def Let_def on_host_def await_def ask_def

text \<open>An undisturbed run up to the digits.\<close>

definition comparing :: "pairing_env \<Rightarrow> string \<times> string \<times> string \<Rightarrow> string \<Rightarrow> string \<Rightarrow> bytes \<Rightarrow> bytes \<Rightarrow> bytes \<Rightarrow> int \<Rightarrow> pair_host" where
  "comparing env shown sas name jk jc jn t = \<lparr>ho_phase = HpCompare, ho_invitation = Some shown, ho_sas = Some sas, ho_deviceName = Some name, ho_ttl = t,
     ho_error = None, ho_run = Some 0, ho_aborted = [], ho_runs = 1, ho_keys = Some (pe_secrets env 0, pe_public env (pe_secrets env 0)),
     ho_joiner = Some (jk, jc), ho_hostNonce = Some (pe_nonces env 0), ho_joinerNonce = Some jn, ho_nonces = 1, ho_ivs = 0\<rparr>"

lemma first_run_compares:
  assumes "\<And>c w. c = CallStart \<Longrightarrow> hw_tasks w = [] \<Longrightarrow> calm c w" and "invitation_qr (pe_url env) (hp_server op) i = Inr qr"
    and "pairing_commit env jn jk = Inr jc" and "derive_pairing_sas env i (pe_public env (pe_secrets env 0)) jk (pe_nonces env 0) jn = Inr sas"
  shows "\<exists>l. host_runs env op calm \<lparr>hw_host = comparing env (i, code, qr) sas name jk jc jn t, hw_tasks = [HtPause 0 i], hw_log = l\<rparr>
    \<and> (\<forall>r. Told (HtCreate 1) r \<notin> set l)"
proof -
  let ?pub = "pe_public env (pe_secrets env 0)" and ?n = "pe_nonces env 0"
  let ?claimed = "\<lparr>hv_state = PsClaimed, hv_ttl = t, hv_joiner = Some (to_b64url jk, to_b64url jc, name), hv_joinerNonce = None\<rparr>"
  let ?revealed = "\<lparr>hv_state = PsRevealed, hv_ttl = t, hv_joiner = Some (to_b64url jk, to_b64url jc, name), hv_joinerNonce = Some (to_b64url jn)\<rparr>"
  let ?created = "\<lparr>cr_id = i, cr_code = code, cr_expiresAt = 0, cr_ttl = t\<rparr>"
  let ?h1 = "new_host\<lparr>ho_runs := 1, ho_run := Some 0, ho_phase := HpCreating, ho_keys := Some (pe_secrets env 0, ?pub)\<rparr>"
  let ?h2 = "?h1\<lparr>ho_invitation := Some (i, code, qr), ho_ttl := t, ho_phase := HpWaiting\<rparr>"
  let ?h3 = "?h2\<lparr>ho_joiner := Some (jk, jc), ho_deviceName := Some name, ho_nonces := 1\<rparr>"
  let ?h4 = "?h3\<lparr>ho_hostNonce := Some ?n, ho_phase := HpConnecting\<rparr>"
  let ?l1 = "[Asked (RqCreate (to_b64url ?pub)), Told HtStarting RpEmpty, Called CallStart]"
  let ?l2 = "Asked (RqHostView i) # Told (HtPause 0 i) RpEmpty # Told (HtCreate 0) (RpCreated ?created) # ?l1"
  let ?l3 = "Asked (RqHostView i) # Told (HtPause 0 i) RpEmpty # Told (HtNonce 0 i ?n) RpEmpty # Asked (RqNonce i (to_b64url ?n))
    # Told (HtView 0 i) (RpHostView ?claimed) # ?l2"
  have "host_runs env op calm \<lparr>hw_host = new_host, hw_tasks = [HtStarting], hw_log = [Called CallStart]\<rparr>"
    by (rule called_by [OF host_runs.fresh, of _ CallStart]) (simp_all add: assms(1) new_host_world_def new_host_def host_steps)
  then have "host_runs env op calm \<lparr>hw_host = ?h1, hw_tasks = [HtCreate 0], hw_log = ?l1\<rparr>"
    by (rule resumed_by [where t = HtStarting and r = RpEmpty]) (simp_all add: host_steps new_host_def)
  then have "host_runs env op calm \<lparr>hw_host = ?h2, hw_tasks = [HtPause 0 i], hw_log = Told (HtCreate 0) (RpCreated ?created) # ?l1\<rparr>"
    by (rule resumed_by [where t = "HtCreate 0" and r = "RpCreated ?created"]) (simp_all add: host_steps new_host_def assms(2))
  then have "host_runs env op calm \<lparr>hw_host = ?h2, hw_tasks = [HtView 0 i], hw_log = ?l2\<rparr>"
    by (rule resumed_by [where t = "HtPause 0 i" and r = RpEmpty]) (simp_all add: host_steps new_host_def)
  then have "host_runs env op calm \<lparr>hw_host = ?h3, hw_tasks = [HtNonce 0 i ?n], hw_log = Asked (RqNonce i (to_b64url ?n)) # Told (HtView 0 i) (RpHostView ?claimed) # ?l2\<rparr>"
    by (rule resumed_by [where t = "HtView 0 i" and r = "RpHostView ?claimed"]) (simp_all add: host_steps new_host_def)
  then have "host_runs env op calm \<lparr>hw_host = ?h4, hw_tasks = [HtPause 0 i],
      hw_log = Told (HtNonce 0 i ?n) RpEmpty # Asked (RqNonce i (to_b64url ?n)) # Told (HtView 0 i) (RpHostView ?claimed) # ?l2\<rparr>"
    by (rule resumed_by [where t = "HtNonce 0 i ?n" and r = RpEmpty]) (simp_all add: host_steps new_host_def is_failure_def)
  then have "host_runs env op calm \<lparr>hw_host = ?h4, hw_tasks = [HtView 0 i], hw_log = ?l3\<rparr>"
    by (rule resumed_by [where t = "HtPause 0 i" and r = RpEmpty]) (simp_all add: host_steps new_host_def)
  then have "host_runs env op calm \<lparr>hw_host = comparing env (i, code, qr) sas name jk jc jn t, hw_tasks = [HtPause 0 i],
      hw_log = Told (HtView 0 i) (RpHostView ?revealed) # ?l3\<rparr>"
    by (rule resumed_by [where t = "HtView 0 i" and r = "RpHostView ?revealed"])
       (simp_all add: host_steps new_host_def comparing_def commit_matches_iff [THEN iffD2] assms(3,4))
  then show ?thesis by (rule_tac exI) (erule conjI, simp)
qed

section \<open>The first device\<close>

text \<open>
  C2: the first device hands its phrase out only when the owner says so while digits are on its screen -
  every payload in its log directly follows a call of \<open>confirm()\<close> -, and it is sealed with the key agreed
  with the very key those digits are of, whose nonce was committed to; whatever the relay answered before
  and however polls, restarts and answers interleave.
\<close>

theorem phrase_sealed_for_shown_digits:
  assumes "host_runs env op calm w" and "host_call env op CallConfirm w = (None, w')"
  shows "payloads_confirmed (hw_log w) \<and>
    (\<exists>secret pub joiner_key joiner_commit hn jn sas i j key iv.
       ho_phase (hw_host w) = HpCompare \<and> ho_sas (hw_host w) = Some sas \<and> ho_keys (hw_host w) = Some (secret, pub)
     \<and> ho_joiner (hw_host w) = Some (joiner_key, joiner_commit) \<and> pairing_commit env jn joiner_key = Inr joiner_commit
     \<and> derive_pairing_sas env i pub joiner_key hn jn = Inr sas
     \<and> invitation_id (hw_host w) = Some j \<and> derive_pairing_key env j secret joiner_key pub joiner_key = Inr key
     \<and> hw_log w' = Asked (RqPayload j (to_b64url (seal_pairing_payload env key iv \<lparr>pp_mnemonic = hp_mnemonic op, pp_serverUrl = hp_server op\<rparr>)))
          # Called CallConfirm # hw_log w)"
proof -
  have "digits_checked env (hw_host w)" by (rule host_runs_digits_checked [OF assms(1)])
  moreover obtain i secret pub k c where h: "invitation_id (hw_host w) = Some i" "ho_keys (hw_host w) = Some (secret, pub)"
      "ho_joiner (hw_host w) = Some (k, c)" "ho_phase (hw_host w) = HpCompare"
    using assms(2) by (auto simp: host_call_def host_confirm_def Let_def split: option.splits prod.splits if_splits)
  ultimately obtain j hn jn sas where d: "pairing_commit env jn k = Inr c" "derive_pairing_sas env j pub k hn jn = Inr sas"
      "ho_sas (hw_host w) = Some sas" by (auto simp: digits_checked_def)
  obtain key where key: "derive_pairing_key env i secret k pub k = Inr key"
    using assms(2) h by (auto simp: host_call_def host_confirm_def Let_def split: sum.splits)
  then have "hw_log w' = Asked (RqPayload i (to_b64url (seal_pairing_payload env key (pe_ivs env (ho_ivs (hw_host w)))
      \<lparr>pp_mnemonic = hp_mnemonic op, pp_serverUrl = hp_server op\<rparr>))) # Called CallConfirm # hw_log w"
    using assms(2) h by (auto simp: host_call_def host_confirm_def Let_def)
  with h d key host_runs_confirmed [OF assms(1)] show ?thesis by blast
qed

text \<open>
  C4: as long as a run is only started when no request of an earlier one is under way, everything the
  digits are made of is fixed before the host's nonce leaves the device: when the nonce is sent, the
  invitation, the host's key, the joiner's key and its commitment are already in the log.
\<close>

theorem nonce_leaves_last:
  assumes "host_runs env op calm_start w" and "ho_run (hw_host w) = Some run" and "ho_phase (hw_host w) \<in> {HpCompare, HpSending}"
  shows "\<exists>i hn joiner_key joiner_commit jn sas. ho_joiner (hw_host w) = Some (joiner_key, joiner_commit)
    \<and> pairing_commit env jn joiner_key = Inr joiner_commit \<and> ho_sas (hw_host w) = Some sas
    \<and> derive_pairing_sas env i (pe_public env (pe_secrets env run)) joiner_key hn jn = Inr sas
    \<and> fixed_before env (hw_log w) run i hn joiner_key joiner_commit"
proof -
  have "nonce_sent env w" using host_runs_calm [OF assms(1)] by (simp add: calm_ok_def)
  moreover have "ho_phase (hw_host w) \<in> connected" using assms(3) by (auto simp: connected_def)
  ultimately obtain i where "agreed env w run i" using assms(2) unfolding nonce_sent_def by blast
  then obtain n k c where a: "ho_joiner (hw_host w) = Some (k, c)" "fixed_before env (hw_log w) run i n k c"
      "ho_phase (hw_host w) \<noteq> HpConnecting \<longrightarrow> (\<exists>jn sas. pairing_commit env jn k = Inr c \<and> ho_sas (hw_host w) = Some sas
         \<and> derive_pairing_sas env i (pe_public env (pe_secrets env run)) k n jn = Inr sas)"
    unfolding agreed_def by blast
  moreover have "ho_phase (hw_host w) \<noteq> HpConnecting" using assms(3) by auto
  ultimately show ?thesis by blast
qed

text \<open>
  C5: a run started while a poll of an earlier one is still unanswered shows digits whose invitation the
  relay chooses last. The owner says that the digits do not match; the answer of the poll under way makes
  the host send its nonce for the joiner that answer names, before the new run has an invitation. Whatever
  identifier the relay then gives the new run, the digits are of that identifier, although the host's new
  key, the joiner's key and both nonces were known before it was named.
\<close>

theorem stale_answer_lets_relay_choose_digits:
  assumes "pairing_lawful env" and "invitation_qr (pe_url env) (hp_server op) i1 = Inr qr1" and "invitation_qr (pe_url env) (hp_server op) i2 = Inr qr2"
    and "length jk = 32" and "length jn = 16"
  shows "\<exists>w sas later earlier. host_runs env op (\<lambda>_ _. True) w \<and> ho_phase (hw_host w) = HpCompare \<and> ho_run (hw_host w) = Some 1
    \<and> derive_pairing_sas env i2 (pe_public env (pe_secrets env 1)) jk (pe_nonces env 1) jn = Inr sas \<and> ho_sas (hw_host w) = Some sas
    \<and> hw_log w = later @ Asked (RqNonce i1 (to_b64url (pe_nonces env 1))) # earlier
    \<and> Asked (RqCreate (to_b64url (pe_public env (pe_secrets env 1)))) \<in> set earlier \<and> \<not> was_created earlier 1 i2"
proof -
  let ?jc = "pe_sha256 env (jn @ jk)" and ?pub = "pe_public env (pe_secrets env 1)" and ?n = "pe_nonces env 1"
  note commit = lawful_commit [OF assms(4,5), of env]
  obtain s1 where s1: "derive_pairing_sas env i1 (pe_public env (pe_secrets env 0)) jk (pe_nonces env 0) jn = Inr s1"
    using lawful_digits [of _ jk _ jn] assms by (metis lawful_lengths(1,2))
  obtain s2 where s2: "derive_pairing_sas env i2 ?pub jk ?n jn = Inr s2"
    using lawful_digits [of _ jk _ jn] assms by (metis lawful_lengths(1,2))
  let ?h0 = "comparing env (i1, [], qr1) s1 [] jk ?jc jn 0"
  obtain l where l: "host_runs env op (\<lambda>_ _. True) \<lparr>hw_host = ?h0, hw_tasks = [HtPause 0 i1], hw_log = l\<rparr>" "\<forall>r. Told (HtCreate 1) r \<notin> set l"
    using first_run_compares [OF _ assms(2) commit s1, of "\<lambda>_ _. True"] by blast
  let ?claimed = "\<lparr>hv_state = PsClaimed, hv_ttl = 0, hv_joiner = Some (to_b64url jk, to_b64url ?jc, []), hv_joinerNonce = None\<rparr>"
  let ?revealed = "\<lparr>hv_state = PsRevealed, hv_ttl = 0, hv_joiner = Some (to_b64url jk, to_b64url ?jc, []), hv_joinerNonce = Some (to_b64url jn)\<rparr>"
  let ?created = "\<lparr>cr_id = i2, cr_code = [], cr_expiresAt = 0, cr_ttl = 0\<rparr>"
  let ?h1 = "?h0\<lparr>ho_phase := HpCancelled, ho_run := None, ho_aborted := [0], ho_keys := None, ho_joiner := None, ho_hostNonce := None, ho_joinerNonce := None\<rparr>"
  let ?h2 = "?h1\<lparr>ho_runs := 2, ho_run := Some 1, ho_sas := None, ho_deviceName := None, ho_phase := HpCreating, ho_keys := Some (pe_secrets env 1, ?pub)\<rparr>"
  let ?h3 = "?h2\<lparr>ho_joiner := Some (jk, ?jc), ho_deviceName := Some [], ho_nonces := 2\<rparr>"
  let ?h4 = "?h3\<lparr>ho_invitation := Some (i2, [], qr2), ho_phase := HpWaiting\<rparr>"
  let ?h5 = "?h4\<lparr>ho_hostNonce := Some ?n, ho_phase := HpConnecting\<rparr>"
  let ?l1 = "Asked (RqHostView i1) # Told (HtPause 0 i1) RpEmpty # l"
  let ?l2 = "Asked (RqCreate (to_b64url ?pub)) # Told (HtDelete True) RpEmpty # Asked (RqHostCancel i1) # Called CallReject # ?l1"
  let ?l3 = "Asked (RqNonce i1 (to_b64url ?n)) # Told (HtView 0 i1) (RpHostView ?claimed) # ?l2"
  let ?l4 = "Told (HtNonce 0 i1 ?n) RpEmpty # Told (HtCreate 1) (RpCreated ?created) # ?l3"
  have "host_runs env op (\<lambda>_ _. True) \<lparr>hw_host = ?h0, hw_tasks = [HtView 0 i1], hw_log = ?l1\<rparr>"
    by (rule resumed_by [OF l(1), where t = "HtPause 0 i1" and r = RpEmpty]) (simp_all add: host_steps comparing_def)
  then have "host_runs env op (\<lambda>_ _. True) \<lparr>hw_host = ?h1, hw_tasks = [HtDelete True, HtView 0 i1], hw_log = Asked (RqHostCancel i1) # Called CallReject # ?l1\<rparr>"
    by (rule called_by [where c = CallReject]) (simp_all add: host_steps comparing_def)
  then have "host_runs env op (\<lambda>_ _. True) \<lparr>hw_host = ?h2, hw_tasks = [HtCreate 1, HtView 0 i1], hw_log = ?l2\<rparr>"
    by (rule resumed_by [where t = "HtDelete True" and r = RpEmpty]) (simp_all add: host_steps comparing_def)
  then have "host_runs env op (\<lambda>_ _. True) \<lparr>hw_host = ?h3, hw_tasks = [HtNonce 0 i1 ?n, HtCreate 1], hw_log = ?l3\<rparr>"
    by (rule resumed_by [where t = "HtView 0 i1" and r = "RpHostView ?claimed"]) (simp_all add: host_steps comparing_def)
  then have "host_runs env op (\<lambda>_ _. True) \<lparr>hw_host = ?h4, hw_tasks = [HtPause 1 i2, HtNonce 0 i1 ?n], hw_log = Told (HtCreate 1) (RpCreated ?created) # ?l3\<rparr>"
    by (rule resumed_by [where t = "HtCreate 1" and r = "RpCreated ?created"]) (simp_all add: host_steps comparing_def assms(3))
  then have "host_runs env op (\<lambda>_ _. True) \<lparr>hw_host = ?h5, hw_tasks = [HtPause 0 i1, HtPause 1 i2], hw_log = ?l4\<rparr>"
    by (rule resumed_by [where t = "HtNonce 0 i1 ?n" and r = RpEmpty]) (simp_all add: host_steps comparing_def is_failure_def)
  then have "host_runs env op (\<lambda>_ _. True) \<lparr>hw_host = ?h5, hw_tasks = [HtView 1 i2, HtPause 0 i1], hw_log = Asked (RqHostView i2) # Told (HtPause 1 i2) RpEmpty # ?l4\<rparr>"
    by (rule resumed_by [where t = "HtPause 1 i2" and r = RpEmpty]) (simp_all add: host_steps comparing_def)
  then have run: "host_runs env op (\<lambda>_ _. True) \<lparr>hw_host = ?h5\<lparr>ho_joinerNonce := Some jn, ho_sas := Some s2, ho_phase := HpCompare\<rparr>,
      hw_tasks = [HtPause 1 i2, HtPause 0 i1], hw_log = Told (HtView 1 i2) (RpHostView ?revealed) # Asked (RqHostView i2) # Told (HtPause 1 i2) RpEmpty # ?l4\<rparr>"
    by (rule resumed_by [where t = "HtView 1 i2" and r = "RpHostView ?revealed"])
       (simp_all add: host_steps comparing_def commit_matches_iff [THEN iffD2] commit s2 del: One_nat_def)
  let ?later = "[Told (HtView 1 i2) (RpHostView ?revealed), Asked (RqHostView i2), Told (HtPause 1 i2) RpEmpty, Told (HtNonce 0 i1 ?n) RpEmpty, Told (HtCreate 1) (RpCreated ?created)]"
  let ?earlier = "Told (HtView 0 i1) (RpHostView ?claimed) # ?l2"
  have "\<not> was_created ?earlier 1 i2" using l(2) by (simp add: was_created_def del: One_nat_def)
  show ?thesis
  proof (rule exI, rule exI [of _ s2], rule exI [of _ ?later], rule exI [of _ ?earlier], intro conjI)
    show "\<not> was_created ?earlier 1 i2" by fact
  qed (rule run, simp_all add: s2 comparing_def del: One_nat_def)
qed

definition demo_host_options :: host_options where
  "demo_host_options = \<lparr>hp_server = ''https://hub'', hp_mnemonic = ''zoo''\<rparr>"

definition demo_invitation :: string where "demo_invitation = ''AAAAAAAAAAAAAAAAAAAAAA''"
definition demo_other_id :: string where "demo_other_id = ''AQAAAAAAAAAAAAAAAAAAAA''"

lemma demo_qr: "\<exists>q. invitation_qr (pe_url demo_pairing_env) (hp_server demo_host_options) demo_invitation = Inr q"
  "\<exists>q. invitation_qr (pe_url demo_pairing_env) (hp_server demo_host_options) demo_other_id = Inr q"
proof -
  have "server_origin demo_url_env ''https://hub'' = Some ''https://hub''" "is_invitation_id demo_invitation" "is_invitation_id demo_other_id" by code_simp+
  then show "\<exists>q. invitation_qr (pe_url demo_pairing_env) (hp_server demo_host_options) demo_invitation = Inr q"
    "\<exists>q. invitation_qr (pe_url demo_pairing_env) (hp_server demo_host_options) demo_other_id = Inr q"
    by (simp_all add: invitation_qr_def demo_pairing_env_def demo_host_options_def)
qed

theorem stale_answer_lets_relay_choose_digits_witness:
  "\<exists>w sas. host_runs demo_pairing_env demo_host_options (\<lambda>_ _. True) w \<and> ho_phase (hw_host w) = HpCompare \<and> ho_sas (hw_host w) = Some sas
     \<and> derive_pairing_sas demo_pairing_env demo_other_id (pe_public demo_pairing_env (pe_secrets demo_pairing_env 1)) (replicate 32 2)
         (pe_nonces demo_pairing_env 1) (replicate 16 7) = Inr sas"
proof -
  obtain q1 q2 where q: "invitation_qr (pe_url demo_pairing_env) (hp_server demo_host_options) demo_invitation = Inr q1"
    "invitation_qr (pe_url demo_pairing_env) (hp_server demo_host_options) demo_other_id = Inr q2" using demo_qr by blast
  show ?thesis
    using stale_answer_lets_relay_choose_digits [OF demo_pairing_lawful q, of "replicate 32 2" "replicate 16 7"] by (simp del: One_nat_def) blast
qed

lemma demo_compares:
  assumes "\<And>c w. c = CallStart \<Longrightarrow> hw_tasks w = [] \<Longrightarrow> calm c w"
  shows "\<exists>w. host_runs demo_pairing_env demo_host_options calm w \<and> ho_phase (hw_host w) = HpCompare \<and> ho_run (hw_host w) = Some 0
    \<and> ho_keys (hw_host w) = Some (pe_secrets demo_pairing_env 0, pe_public demo_pairing_env (pe_secrets demo_pairing_env 0))
    \<and> invitation_id (hw_host w) = Some demo_invitation \<and> (\<exists>c. ho_joiner (hw_host w) = Some (replicate 32 2, c))"
proof -
  obtain q where q: "invitation_qr (pe_url demo_pairing_env) (hp_server demo_host_options) demo_invitation = Inr q" using demo_qr by blast
  obtain sas where "derive_pairing_sas demo_pairing_env demo_invitation (pe_public demo_pairing_env (pe_secrets demo_pairing_env 0)) (replicate 32 2)
      (pe_nonces demo_pairing_env 0) (replicate 16 7) = Inr sas"
    using lawful_digits lawful_lengths [OF demo_pairing_lawful] length_replicate by metis
  from first_run_compares [OF assms q lawful_commit this]
  show ?thesis by (fastforce simp: comparing_def invitation_id_def)
qed

lemma demo_shared_key: "\<exists>key. derive_pairing_key demo_pairing_env demo_invitation (pe_secrets demo_pairing_env 0) (replicate 32 2)
    (pe_public demo_pairing_env (pe_secrets demo_pairing_env 0)) (replicate 32 2) = Inr key"
proof -
  have "pe_shared demo_pairing_env (pe_secrets demo_pairing_env 0) (replicate 32 2) = Some (replicate 32 2)"
    by (simp add: demo_pairing_env_def zip_replicate)
  then show ?thesis using lawful_lengths(1) [OF demo_pairing_lawful, of 0]
    by (simp add: derive_pairing_key_def require_length_def pairing_key_bytes_def list_all_iff)
qed

theorem phrase_sealed_for_shown_digits_witness:
  "\<exists>w w' sas. host_runs demo_pairing_env demo_host_options (\<lambda>_ _. True) w \<and> host_call demo_pairing_env demo_host_options CallConfirm w = (None, w')
     \<and> payloads_confirmed (hw_log w) \<and> ho_sas (hw_host w) = Some sas"
proof -
  obtain w c where w: "host_runs demo_pairing_env demo_host_options (\<lambda>_ _. True) w" "ho_phase (hw_host w) = HpCompare"
    "ho_keys (hw_host w) = Some (pe_secrets demo_pairing_env 0, pe_public demo_pairing_env (pe_secrets demo_pairing_env 0))"
    "invitation_id (hw_host w) = Some demo_invitation" "ho_joiner (hw_host w) = Some (replicate 32 2, c)"
    using demo_compares [of "\<lambda>_ _. True"] by blast
  obtain w' where w': "host_call demo_pairing_env demo_host_options CallConfirm w = (None, w')"
    using w(2-5) demo_shared_key by (auto simp: host_call_def host_confirm_def Let_def)
  from phrase_sealed_for_shown_digits [OF w(1) w'] show ?thesis using w(1) w' by blast
qed

theorem nonce_leaves_last_witness:
  "\<exists>w i hn k c. host_runs demo_pairing_env demo_host_options calm_start w \<and> ho_phase (hw_host w) = HpCompare
     \<and> fixed_before demo_pairing_env (hw_log w) 0 i hn k c"
proof -
  have "\<And>c w. c = CallStart \<Longrightarrow> hw_tasks w = [] \<Longrightarrow> calm_start c w" by (simp add: calm_start_def)
  then obtain w where w: "host_runs demo_pairing_env demo_host_options calm_start w" "ho_phase (hw_host w) = HpCompare" "ho_run (hw_host w) = Some 0"
    using demo_compares by blast
  then show ?thesis using nonce_leaves_last [OF w(1,3)] by blast
qed

end
