(* ===== verification/PairingSession.thy ===== *)
theory PairingSession
  imports PairingProps
begin

text \<open>
  The two devices and the relay together: when every request is answered by the relay of the server, the
  phrase arrives. First what the relay answers on one invitation, then the session step by step.
\<close>

section \<open>Values on the wire\<close>

lemma length_sextets: "length (btoa_sextets ns) = b64url_length (length ns)"
  by (induction ns rule: btoa_sextets.induct) (auto simp: b64url_length_def)

lemma to_b64url_chars: "list_all b64url_char (to_b64url bs)"
  using from_to_b64url [of bs] unfolding from_b64url_def by (auto split: if_splits)

lemma length_to_b64url: "length (to_b64url b) = b64url_length (length b)"
  using length_sextets [of "map unat b"] by (simp add: to_b64url_def btoa_unpadded_def)

lemma written_wire:
  "b64_wire n (to_b64url b) \<longleftrightarrow> b64url_length (length b) = b64url_length n" "decode_exact (to_b64url b) n \<longleftrightarrow> length b = n"
  by (simp_all add: b64_wire_def decode_exact_def to_b64url_chars length_to_b64url)

section \<open>One invitation at the relay\<close>

definition alive :: "int \<Rightarrow> string \<Rightarrow> invitation \<Rightarrow> relay \<Rightarrow> bool" where
  "alive now i v r \<longleftrightarrow> rget (rl_invitations r) i = Some v \<and> iv_id v = i \<and> now < iv_expiresAt v"

text \<open>At least n more requests of the joiner are granted.\<close>

definition relay_budget :: "nat \<Rightarrow> int \<Rightarrow> invitation \<Rightarrow> bool" where
  "relay_budget n now v \<longleftrightarrow> 1000 * int n \<le> lm_tokens (iv_limiter v) \<and> n \<le> 8 \<and> lm_used (iv_limiter v) + n \<le> join_requests_per_invitation
     \<and> lm_updatedAt (iv_limiter v) \<le> now"

lemma alive_live: "alive now i v r \<Longrightarrow> live now i r = (Inr v, r)"
  by (simp add: alive_def live_def)

lemma alive_put: "now < iv_expiresAt v \<Longrightarrow> iv_id v = i \<Longrightarrow> alive now i v (put_invitation v r)"
  by (simp add: alive_def put_invitation_def)

lemma alive_later: "alive now i v r \<Longrightarrow> later < iv_expiresAt v \<Longrightarrow> alive later i v r"
  by (simp add: alive_def)

lemma relay_budget_later: "relay_budget n now v \<Longrightarrow> now \<le> later \<Longrightarrow> relay_budget n later v"
  by (simp add: relay_budget_def)

lemma spend_granted:
  assumes "relay_budget (Suc n) now v"
  obtains l where "spend now v r = (Inr (v\<lparr>iv_limiter := l\<rparr>), put_invitation (v\<lparr>iv_limiter := l\<rparr>) r)" "relay_budget n now (v\<lparr>iv_limiter := l\<rparr>)"
proof -
  let ?t = "min (1000 * join_burst) (lm_tokens (iv_limiter v) + (now - lm_updatedAt (iv_limiter v)) * join_rate_per_second)"
  have t: "1000 * int (Suc n) \<le> ?t" using assms by (auto simp: relay_budget_def join_burst_def join_rate_per_second_def)
  have "1000 \<le> 1000 * int (Suc n)" by simp
  from order.trans [OF this t] have "\<not> ?t < 1000" by (rule leD)
  then show ?thesis using assms t
    by (intro that [of "(iv_limiter v)\<lparr>lm_updatedAt := now, lm_tokens := ?t - 1000, lm_used := Suc (lm_used (iv_limiter v))\<rparr>"])
       (auto simp: spend_def Let_def relay_budget_def)
qed

lemma joined_granted:
  assumes "alive now i v r" and "relay_budget (Suc n) now v" and "iv_joiner v = Some j" and "jn_token j = t"
  obtains l where "joined now i (Some t) r = (Inr (v\<lparr>iv_limiter := l\<rparr>), put_invitation (v\<lparr>iv_limiter := l\<rparr>) r)" "relay_budget n now (v\<lparr>iv_limiter := l\<rparr>)"
proof -
  obtain l where "spend now v r = (Inr (v\<lparr>iv_limiter := l\<rparr>), put_invitation (v\<lparr>iv_limiter := l\<rparr>) r)" "relay_budget n now (v\<lparr>iv_limiter := l\<rparr>)"
    by (rule spend_granted [OF assms(2)])
  then show ?thesis using assms by (intro that) (simp_all add: joined_def alive_live relay_then_def token_matches_def constant_time_equal_eq)
qed

lemma ref_of_id: "is_invitation_id i \<Longrightarrow> ref_wire i"
  by (simp add: is_invitation_id_def ref_wire_def pairing_id_bytes_def b64url_length_def)

section \<open>What the server answers\<close>

lemmas served = serve_def well_formed_request_def answer_def written_wire

lemma serve_host_view: "alive now i v r \<Longrightarrow> ref_wire i \<Longrightarrow> serve renv now (RqHostView i) r = (RpHostView (host_view_of now v), r)"
  by (simp add: served host_view_def alive_live relay_then_def)

lemma serve_nonce:
  "alive now i v r \<Longrightarrow> ref_wire i \<Longrightarrow> length n = 16 \<Longrightarrow> iv_state v = PsClaimed \<Longrightarrow>
     serve renv now (RqNonce i (to_b64url n)) r = (RpEmpty, put_invitation (v\<lparr>iv_hostNonce := Some (to_b64url n), iv_state := PsNonced\<rparr>) r)"
  by (simp add: served host_nonce_def require_bytes_def require_state_def alive_live relay_then_def)

lemma serve_payload:
  "alive now i v r \<Longrightarrow> ref_wire i \<Longrightarrow> c \<noteq> [] \<Longrightarrow> length c \<le> max_ciphertext_bytes \<Longrightarrow> iv_state v = PsRevealed \<Longrightarrow>
     serve renv now (RqPayload i (to_b64url c)) r = (RpEmpty, put_invitation (v\<lparr>iv_ciphertext := Some (to_b64url c), iv_state := PsDelivered\<rparr>) r)"
proof -
  assume a: "alive now i v r" "ref_wire i" "c \<noteq> []" "length c \<le> max_ciphertext_bytes" "iv_state v = PsRevealed"
  have "to_b64url [] = []" by (simp add: to_b64url_def btoa_unpadded_def)
  then have "to_b64url c \<noteq> []" using a(3) by (metis from_to_b64url sum.inject(2))
  moreover have "b64url_length (length c) \<le> b64url_length max_ciphertext_bytes" using a(4) by (simp add: b64url_length_def div_le_mono)
  ultimately show ?thesis using a
    by (simp add: served payload_wire_def to_b64url_chars length_to_b64url deliver_def require_state_def alive_live relay_then_def)
qed

lemma serve_claim:
  assumes "alive now i v r" and "ref_wire ref" and "claim_wire b" and "decode_exact (cb_joinerKey b) 32" and "decode_exact (cb_commit b) 32"
    and "is_invitation_id ref \<and> ref = i \<or> \<not> is_invitation_id ref \<and> rget (rl_byCode r) (case normalize_invitation_code ref of None \<Rightarrow> [] | Some c \<Rightarrow> c) = Some i"
    and "relay_budget (Suc n) now v" and "iv_state v = PsOpen" and "iv_hostKey v = Some hk"
  obtains l t r' where "serve renv now (RqClaim ref b) r = (RpClaimed \<lparr>cl_id = i, cl_hostKey = hk, cl_token = t, cl_ttl = ttl now v\<rparr>, r')"
    "alive now i (v\<lparr>iv_limiter := l, iv_joiner := Some \<lparr>jn_key = Some (cb_joinerKey b), jn_commit = Some (cb_commit b),
        jn_deviceName = clean_device_name renv (cb_deviceName b), jn_token = t\<rparr>, iv_state := PsClaimed\<rparr>) r'"
    "relay_budget n now (v\<lparr>iv_limiter := l\<rparr>)"
proof -
  have found: "lookup_ref now ref r = (Inr v, r)"
    using assms(1,6,8) by (auto simp: lookup_ref_def alive_def terminal_def Let_def)
  obtain l where l: "spend now v r = (Inr (v\<lparr>iv_limiter := l\<rparr>), put_invitation (v\<lparr>iv_limiter := l\<rparr>) r)" "relay_budget n now (v\<lparr>iv_limiter := l\<rparr>)"
    by (rule spend_granted [OF assms(7)])
  let ?t = "to_b64url (re_tokens renv (rl_tokens r))"
  let ?v = "v\<lparr>iv_limiter := l, iv_joiner := Some \<lparr>jn_key = Some (cb_joinerKey b), jn_commit = Some (cb_commit b),
        jn_deviceName = clean_device_name renv (cb_deviceName b), jn_token = ?t\<rparr>, iv_state := PsClaimed\<rparr>"
  let ?r = "put_invitation ?v ((put_invitation (v\<lparr>iv_limiter := l\<rparr>) r)\<lparr>rl_tokens := Suc (rl_tokens r)\<rparr>)"
  have "serve renv now (RqClaim ref b) r = (RpClaimed \<lparr>cl_id = i, cl_hostKey = hk, cl_token = ?t, cl_ttl = ttl now v\<rparr>, ?r)"
    using assms found l(1) by (simp add: served claim_def require_bytes_def relay_then_def Let_def ttl_def alive_def put_invitation_def)
  moreover have "alive now i ?v ?r" using assms(1) by (simp add: alive_def put_invitation_def)
  ultimately show ?thesis using l(2) by (rule that)
qed

lemma serve_joiner_view:
  assumes "alive now i v r" and "ref_wire i" and "relay_budget (Suc n) now v" and "iv_joiner v = Some j" and "jn_token j = t"
  obtains l where "serve renv now (RqJoinerView i (Some t)) r =
      (RpJoinerView \<lparr>jv_state = iv_state v, jv_ttl = ttl now v, jv_hostNonce = iv_hostNonce v, jv_ciphertext = iv_ciphertext v\<rparr>, put_invitation (v\<lparr>iv_limiter := l\<rparr>) r)"
    "relay_budget n now (v\<lparr>iv_limiter := l\<rparr>)"
proof -
  obtain l where "joined now i (Some t) r = (Inr (v\<lparr>iv_limiter := l\<rparr>), put_invitation (v\<lparr>iv_limiter := l\<rparr>) r)" "relay_budget n now (v\<lparr>iv_limiter := l\<rparr>)"
    by (rule joined_granted [OF assms(1,3-5)])
  then show ?thesis using assms(2) by (intro that) (simp_all add: served joiner_view_def relay_then_def ttl_def)
qed

lemma serve_reveal:
  assumes "alive now i v r" and "ref_wire i" and "relay_budget (Suc n) now v" and "iv_joiner v = Some j" and "jn_token j = t" and "length m = 16" and "iv_state v = PsNonced"
  obtains l where "serve renv now (RqReveal i (Some t) (to_b64url m)) r =
      (RpEmpty, put_invitation (v\<lparr>iv_limiter := l, iv_joinerNonce := Some (to_b64url m), iv_state := PsRevealed\<rparr>) (put_invitation (v\<lparr>iv_limiter := l\<rparr>) r))"
    "relay_budget n now (v\<lparr>iv_limiter := l\<rparr>)"
proof -
  obtain l where "joined now i (Some t) r = (Inr (v\<lparr>iv_limiter := l\<rparr>), put_invitation (v\<lparr>iv_limiter := l\<rparr>) r)" "relay_budget n now (v\<lparr>iv_limiter := l\<rparr>)"
    by (rule joined_granted [OF assms(1,3-5)])
  then show ?thesis using assms(2,6,7) by (intro that) (simp_all add: served reveal_def require_bytes_def require_state_def relay_then_def)
qed

lemma serve_ack:
  assumes "alive now i v r" and "ref_wire i" and "relay_budget (Suc n) now v" and "iv_joiner v = Some j" and "jn_token j = t" and "iv_state v = PsDelivered"
  obtains v' r' where "serve renv now (RqAck i (Some t)) r = (RpEmpty, r')" "alive now i v' r'" "iv_state v' = PsCompleted" "iv_expiresAt v' = iv_expiresAt v"
proof -
  obtain l where "joined now i (Some t) r = (Inr (v\<lparr>iv_limiter := l\<rparr>), put_invitation (v\<lparr>iv_limiter := l\<rparr>) r)"
    by (rule joined_granted [OF assms(1,3-5)])
  then have served: "serve renv now (RqAck i (Some t)) r = (RpEmpty, end_invitation (v\<lparr>iv_limiter := l\<rparr>) PsCompleted (put_invitation (v\<lparr>iv_limiter := l\<rparr>) r))"
    using assms(2,6) by (simp add: served ack_def require_state_def relay_then_def)
  let ?v = "v\<lparr>iv_limiter := l, iv_state := PsCompleted, iv_hostKey := None, iv_hostNonce := None, iv_joinerNonce := None, iv_ciphertext := None,
    iv_joiner := map_option (\<lambda>j. j\<lparr>jn_key := None, jn_commit := None, jn_deviceName := []\<rparr>) (iv_joiner v)\<rparr>"
  have ended: "alive now i ?v (end_invitation (v\<lparr>iv_limiter := l\<rparr>) PsCompleted (put_invitation (v\<lparr>iv_limiter := l\<rparr>) r))"
    using assms(1,6) by (simp add: end_invitation_def terminal_def alive_def put_invitation_def)
  show ?thesis by (rule that [OF served ended]) simp_all
qed

text \<open>A new invitation.\<close>

lemma drawn_code_spelled: "draw_code env used n = Some p \<Longrightarrow> \<exists>m. fst p = invitation_code (re_codes env m)"
proof (rule draw_code.raw_induct [of "\<lambda>env used n p. \<exists>m. fst p = invitation_code (re_codes env m)" env used n p, rotated])
  fix draw env used n p
  assume "\<And>env used n p. draw env used n = Some p \<Longrightarrow> \<exists>m. fst p = invitation_code (re_codes env m)"
    and "(let code = invitation_code (re_codes env n) in if rget used code \<noteq> None then draw env used (Suc n) else Some (code, Suc n)) = Some p"
  then show "\<exists>m. fst p = invitation_code (re_codes env m)" by (auto simp: Let_def split: if_splits)
qed

definition relay_opened :: "int \<Rightarrow> string \<Rightarrow> created \<Rightarrow> invitation \<Rightarrow> relay \<Rightarrow> bool" where
  "relay_opened now host_key c v r \<longleftrightarrow> alive now (cr_id c) v r \<and> iv_expiresAt v = now + pairing_ttl_ms \<and> iv_state v = PsOpen \<and> iv_hostKey v = Some host_key
     \<and> iv_joiner v = None \<and> iv_hostNonce v = None \<and> iv_joinerNonce v = None \<and> iv_ciphertext v = None
     \<and> rget (rl_byCode r) (cr_code c) = Some (cr_id c) \<and> relay_budget 8 now v \<and> (\<exists>b. cr_code c = invitation_code b) \<and> (\<exists>n. cr_id c = to_b64url n)"

lemma served_created:
  assumes "serve renv now (RqCreate k) r = (RpCreated c, r')"
  obtains v where "relay_opened now k c v r'"
proof -
  obtain r0 code n i v where d: "draw_code renv (rl_byCode r0) (rl_codes r0) = Some (code, n)" "i = to_b64url (re_ids renv (rl_ids r0))"
    "v = \<lparr>iv_id = i, iv_code = code, iv_state = PsOpen, iv_expiresAt = now + pairing_ttl_ms, iv_hostKey = Some k,
       iv_joiner = None, iv_hostNonce = None, iv_joinerNonce = None, iv_ciphertext = None,
       iv_limiter = \<lparr>lm_tokens = 1000 * join_burst, lm_updatedAt = now, lm_used = 0\<rparr>\<rparr>"
    "cr_id c = i" "cr_code c = code" "r' = (put_invitation v (r0\<lparr>rl_codes := n, rl_ids := Suc (rl_ids r0)\<rparr>))\<lparr>rl_byCode := rset code i (rl_byCode r0)\<rparr>"
    using assms by (auto simp: serve_def create_invitation_def answer_def refuse_def Let_def put_invitation_def split: if_splits option.splits prod.splits sum.splits)
  then show ?thesis using drawn_code_spelled [OF d(1)]
    by (intro that [of v]) (auto simp: relay_opened_def alive_def put_invitation_def relay_budget_def join_burst_def join_requests_per_invitation_def pairing_ttl_ms_def)
qed

section \<open>A session\<close>

text \<open>A turn of a device: its latest task gets the relay's answer to the request it waits for, or its timer fires.\<close>

definition host_turn :: "pairing_env \<Rightarrow> host_options \<Rightarrow> relay_env \<Rightarrow> int \<Rightarrow> host_world \<times> relay \<Rightarrow> host_world \<times> relay" where
  "host_turn env op renv now = (\<lambda>(w, r).
     (case (hw_tasks w, hw_log w) of
        (t # _, Asked q # _) \<Rightarrow> (case serve renv now q r of (a, r) \<Rightarrow> (host_resume env op t a w, r))
      | (t # _, _) \<Rightarrow> (host_resume env op t RpEmpty w, r)
      | _ \<Rightarrow> (w, r)))"

definition join_turn :: "pairing_env \<Rightarrow> relay_env \<Rightarrow> int \<Rightarrow> join_world \<times> relay \<Rightarrow> join_world \<times> relay" where
  "join_turn env renv now = (\<lambda>(j, r).
     (case (jw_tasks j, jw_log j) of
        (t # _, JAsked q # _) \<Rightarrow> (case serve renv now q r of (a, r) \<Rightarrow> (join_resume env t a j, r))
      | (t # _, _) \<Rightarrow> (join_resume env t RpEmpty j, r)
      | _ \<Rightarrow> (j, r)))"

definition host_paused :: "host_world \<Rightarrow> string \<Rightarrow> pair_host \<Rightarrow> bool" where
  "host_paused w i h \<longleftrightarrow> hw_host w = h \<and> hw_tasks w = [HtPause 0 i] \<and> (\<exists>e l. hw_log w = e # l \<and> (\<forall>q. e \<noteq> Asked q))"

lemma host_turn_answer:
  "serve renv now q r = (a, r') \<Longrightarrow> hw_tasks w = t # ts \<Longrightarrow> hw_log w = Asked q # l \<Longrightarrow> host_turn env op renv now (w, r) = (host_resume env op t a w, r')"
  by (simp add: host_turn_def)

lemma host_turn_timer:
  "hw_tasks w = t # ts \<Longrightarrow> hw_log w = e # l \<Longrightarrow> (\<And>q. e \<noteq> Asked q) \<Longrightarrow> host_turn env op renv now (w, r) = (host_resume env op t RpEmpty w, r)"
  by (cases e) (auto simp: host_turn_def)

text \<open>A poll: the timer, then the view.\<close>

lemma host_polls:
  assumes "host_paused w i h" and "0 \<notin> set (ho_aborted h)" and "alive now i v r" and "ref_wire i"
  obtains l where "(host_turn env op renv now ^^ 2) (w, r) =
    (host_step env 0 i (host_view_of now v) \<lparr>hw_host = h, hw_tasks = [], hw_log = Told (HtView 0 i) (RpHostView (host_view_of now v)) # l\<rparr>, r)"
proof -
  obtain e l where w: "w = \<lparr>hw_host = h, hw_tasks = [HtPause 0 i], hw_log = e # l\<rparr>" "\<And>q. e \<noteq> Asked q"
    using assms(1) by (cases w) (auto simp: host_paused_def)
  let ?w = "\<lparr>hw_host = h, hw_tasks = [HtView 0 i], hw_log = Asked (RqHostView i) # Told (HtPause 0 i) RpEmpty # e # l\<rparr>"
  have "host_turn env op renv now (w, r) = (host_resume env op (HtPause 0 i) RpEmpty w, r)"
    by (rule host_turn_timer [where ts = "[]"]) (use w in simp_all)
  also have "host_resume env op (HtPause 0 i) RpEmpty w = ?w"
    using assms(2) by (simp add: w(1) host_resume_def Let_def ask_def await_def run_aborted_def)
  finally have "(host_turn env op renv now ^^ 2) (w, r) = host_turn env op renv now (?w, r)" by (simp add: numeral_2_eq_2)
  also have "\<dots> = (host_resume env op (HtView 0 i) (RpHostView (host_view_of now v)) ?w, r)"
    by (rule host_turn_answer [where ts = "[]", OF serve_host_view [OF assms(3,4)]]) simp_all
  finally show ?thesis by (intro that) (simp add: host_resume_def Let_def)
qed

lemma host_opens:
  assumes "serve renv now (RqCreate (to_b64url (pe_public env (pe_secrets env 0)))) r = (RpCreated c, r')"
    and "invitation_qr (pe_url env) (hp_server op) (cr_id c) = Inr qr"
  obtains w where "(host_turn env op renv now ^^ 2) (snd (host_call env op CallStart new_host_world), r) = (w, r')"
    "host_paused w (cr_id c) (new_host\<lparr>ho_runs := 1, ho_run := Some 0, ho_keys := Some (pe_secrets env 0, pe_public env (pe_secrets env 0)),
       ho_invitation := Some (cr_id c, cr_code c, qr), ho_ttl := cr_ttl c, ho_phase := HpWaiting\<rparr>)"
proof -
  let ?k = "to_b64url (pe_public env (pe_secrets env 0))"
  let ?h = "new_host\<lparr>ho_runs := 1, ho_run := Some 0, ho_keys := Some (pe_secrets env 0, pe_public env (pe_secrets env 0)), ho_phase := HpCreating\<rparr>"
  let ?new = "\<lparr>hw_host = new_host, hw_tasks = [HtStarting], hw_log = [Called CallStart]\<rparr>"
  let ?w = "\<lparr>hw_host = ?h, hw_tasks = [HtCreate 0], hw_log = [Asked (RqCreate ?k), Told HtStarting RpEmpty, Called CallStart]\<rparr>"
  have "snd (host_call env op CallStart new_host_world) = ?new"
    by (simp add: host_steps new_host_world_def new_host_def)
  moreover have "host_turn env op renv now (?new, r) = (?w, r)"
    by (simp add: host_turn_def) (simp add: host_steps new_host_def)
  moreover have "host_turn env op renv now (?w, r) = (host_resume env op (HtCreate 0) (RpCreated c) ?w, r')"
    by (rule host_turn_answer [where ts = "[]", OF assms(1)]) simp_all
  ultimately have "(host_turn env op renv now ^^ 2) (snd (host_call env op CallStart new_host_world), r) = (host_resume env op (HtCreate 0) (RpCreated c) ?w, r')"
    by (simp add: numeral_2_eq_2)
  then show ?thesis by (rule that) (simp add: host_paused_def host_steps new_host_def assms(2))
qed

lemma host_connects:
  assumes "host_paused w i h" and "0 \<notin> set (ho_aborted h)" and "ho_hostNonce h = None" and "alive now i v r" and "ref_wire i" and "iv_state v = PsClaimed"
    and "iv_joiner v = Some \<lparr>jn_key = Some (to_b64url jk), jn_commit = Some (to_b64url jc), jn_deviceName = name, jn_token = t\<rparr>"
    and "length (pe_nonces env (ho_nonces h)) = 16"
  obtains w' where "(host_turn env op renv now ^^ 3) (w, r) =
      (w', put_invitation (v\<lparr>iv_hostNonce := Some (to_b64url (pe_nonces env (ho_nonces h))), iv_state := PsNonced\<rparr>) r)"
    "host_paused w' i (h\<lparr>ho_ttl := ttl now v, ho_joiner := Some (jk, jc), ho_deviceName := Some name, ho_nonces := Suc (ho_nonces h),
       ho_hostNonce := Some (pe_nonces env (ho_nonces h)), ho_phase := HpConnecting\<rparr>)"
proof -
  let ?n = "pe_nonces env (ho_nonces h)"
  obtain l where l: "(host_turn env op renv now ^^ 2) (w, r) =
    (host_step env 0 i (host_view_of now v) \<lparr>hw_host = h, hw_tasks = [], hw_log = Told (HtView 0 i) (RpHostView (host_view_of now v)) # l\<rparr>, r)"
    by (rule host_polls [OF assms(1,2,4,5)])
  let ?h = "h\<lparr>ho_ttl := ttl now v, ho_joiner := Some (jk, jc), ho_deviceName := Some name, ho_nonces := Suc (ho_nonces h)\<rparr>"
  let ?w = "\<lparr>hw_host = ?h, hw_tasks = [HtNonce 0 i ?n], hw_log = Asked (RqNonce i (to_b64url ?n)) # Told (HtView 0 i) (RpHostView (host_view_of now v)) # l\<rparr>"
  have "host_step env 0 i (host_view_of now v) \<lparr>hw_host = h, hw_tasks = [], hw_log = Told (HtView 0 i) (RpHostView (host_view_of now v)) # l\<rparr> = ?w"
    using assms(3,6,7) by (simp add: host_steps host_view_of_def)
  then have "(host_turn env op renv now ^^ 3) (w, r) = host_turn env op renv now (?w, r)" using l by (simp add: numeral_3_eq_3 numeral_2_eq_2)
  also have "\<dots> = (host_resume env op (HtNonce 0 i ?n) RpEmpty ?w, put_invitation (v\<lparr>iv_hostNonce := Some (to_b64url ?n), iv_state := PsNonced\<rparr>) r)"
    by (rule host_turn_answer [where ts = "[]", OF serve_nonce [OF assms(4,5,8,6)]]) simp_all
  finally show ?thesis by (rule that) (simp add: host_paused_def host_steps is_failure_def)
qed

lemma host_compares:
  assumes "host_paused w i h" and "0 \<notin> set (ho_aborted h)" and "alive now i v r" and "ref_wire i" and "iv_state v = PsRevealed"
    and "ho_phase h = HpConnecting" and "ho_keys h = Some (secret, pub)" and "ho_joiner h = Some (jk, jc)" and "ho_hostNonce h = Some hn"
    and "iv_joinerNonce v = Some (to_b64url jn)" and "pairing_commit env jn jk = Inr jc" and "derive_pairing_sas env i pub jk hn jn = Inr sas"
  obtains w' where "(host_turn env op renv now ^^ 2) (w, r) = (w', r)"
    "host_paused w' i (h\<lparr>ho_ttl := ttl now v, ho_joinerNonce := Some jn, ho_sas := Some sas, ho_phase := HpCompare\<rparr>)"
proof -
  obtain l where l: "(host_turn env op renv now ^^ 2) (w, r) =
    (host_step env 0 i (host_view_of now v) \<lparr>hw_host = h, hw_tasks = [], hw_log = Told (HtView 0 i) (RpHostView (host_view_of now v)) # l\<rparr>, r)"
    by (rule host_polls [OF assms(1-4)])
  then show ?thesis
    by (rule that) (use assms(5-12) in \<open>simp add: host_paused_def host_steps host_view_of_def commit_matches_iff [THEN iffD2]\<close>)
qed

lemma host_sends:
  assumes "host_paused w i h" and "alive now i v r" and "ref_wire i" and "iv_state v = PsRevealed"
    and "ho_phase h = HpCompare" and "ho_keys h = Some (secret, pub)" and "ho_joiner h = Some (jk, jc)" and "invitation_id h = Some i"
    and "derive_pairing_key env i secret jk pub jk = Inr key"
    and "c = seal_pairing_payload env key (pe_ivs env (ho_ivs h)) \<lparr>pp_mnemonic = hp_mnemonic op, pp_serverUrl = hp_server op\<rparr>"
    and "c \<noteq> []" and "length c \<le> max_ciphertext_bytes"
  obtains w' where "host_turn env op renv now (snd (host_call env op CallConfirm w), r) =
      (w', put_invitation (v\<lparr>iv_ciphertext := Some (to_b64url c), iv_state := PsDelivered\<rparr>) r)"
    "host_paused w' i (h\<lparr>ho_phase := HpSending, ho_ivs := Suc (ho_ivs h)\<rparr>)"
proof -
  obtain l where w: "w = \<lparr>hw_host = h, hw_tasks = [HtPause 0 i], hw_log = l\<rparr>" using assms(1) by (cases w) (auto simp: host_paused_def)
  let ?w = "\<lparr>hw_host = h\<lparr>ho_phase := HpSending, ho_ivs := Suc (ho_ivs h)\<rparr>, hw_tasks = [HtPayload, HtPause 0 i],
    hw_log = Asked (RqPayload i (to_b64url c)) # Called CallConfirm # l\<rparr>"
  have "snd (host_call env op CallConfirm w) = ?w"
    using assms(5-9) by (simp add: assms(10) w host_call_def host_confirm_def Let_def on_host_def ask_def await_def)
  moreover have "host_turn env op renv now (?w, r) = (host_resume env op HtPayload RpEmpty ?w, put_invitation (v\<lparr>iv_ciphertext := Some (to_b64url c), iv_state := PsDelivered\<rparr>) r)"
    by (rule host_turn_answer [where ts = "[HtPause 0 i]", OF serve_payload [OF assms(2,3,11,12,4)]]) simp_all
  ultimately have "host_turn env op renv now (snd (host_call env op CallConfirm w), r) =
      (host_resume env op HtPayload RpEmpty ?w, put_invitation (v\<lparr>iv_ciphertext := Some (to_b64url c), iv_state := PsDelivered\<rparr>) r)" by simp
  then show ?thesis by (rule that) (simp add: host_paused_def host_resume_def Let_def is_failure_def)
qed

lemma host_finishes:
  assumes "host_paused w i h" and "0 \<notin> set (ho_aborted h)" and "alive now i v r" and "ref_wire i" and "iv_state v = PsCompleted"
  obtains w' where "(host_turn env op renv now ^^ 2) (w, r) = (w', r)" "ho_phase (hw_host w') = HpDone" "ho_sas (hw_host w') = ho_sas h"
proof -
  obtain l where l: "(host_turn env op renv now ^^ 2) (w, r) =
    (host_step env 0 i (host_view_of now v) \<lparr>hw_host = h, hw_tasks = [], hw_log = Told (HtView 0 i) (RpHostView (host_view_of now v)) # l\<rparr>, r)"
    by (rule host_polls [OF assms(1-4)])
  then show ?thesis
    by (rule that) (use assms(5) in \<open>simp_all add: host_steps host_view_of_def\<close>)
qed

section \<open>The new device's turns\<close>

definition join_paused :: "join_world \<Rightarrow> join_run \<Rightarrow> pair_joiner \<Rightarrow> bool" where
  "join_paused w x j \<longleftrightarrow> jw_joiner w = j \<and> jw_tasks w = [JtPause x] \<and> (\<exists>e l. jw_log w = e # l \<and> (\<forall>q. e \<noteq> JAsked q))"

lemma join_turn_answer:
  "serve renv now q r = (a, r') \<Longrightarrow> jw_tasks w = t # ts \<Longrightarrow> jw_log w = JAsked q # l \<Longrightarrow> join_turn env renv now (w, r) = (join_resume env t a w, r')"
  by (simp add: join_turn_def)

lemma join_turn_timer:
  "jw_tasks w = t # ts \<Longrightarrow> jw_log w = e # l \<Longrightarrow> (\<And>q. e \<noteq> JAsked q) \<Longrightarrow> join_turn env renv now (w, r) = (join_resume env t RpEmpty w, r)"
  by (cases e) (auto simp: join_turn_def)

lemmas join_steps = join_call_def join_start_def join_resume_def join_step_def join_nonced_def join_delivered_def jrun_aborted_def Let_def
  on_joiner_def jawait_def jask_def pin_nonce_def is_failure_def

definition own_run :: "pairing_env \<Rightarrow> string \<Rightarrow> bytes \<Rightarrow> bytes option \<Rightarrow> join_run" where
  "own_run env i hk hn = \<lparr>jr_no = 0, jr_secret = pe_secrets env 0, jr_public = pe_public env (pe_secrets env 0), jr_nonce = pe_nonces env 0,
     jr_id = i, jr_hostKey = hk, jr_hostNonce = hn\<rparr>"

lemma join_claims:
  assumes "join_ref jp = Some ref" and "pairing_commit env (pe_nonces env 0) (pe_public env (pe_secrets env 0)) = Inr jc"
    and "serve renv now (RqClaim ref \<lparr>cb_joinerKey = to_b64url (pe_public env (pe_secrets env 0)), cb_commit = to_b64url jc, cb_deviceName = jp_deviceName jp\<rparr>) r =
      (RpClaimed \<lparr>cl_id = i, cl_hostKey = to_b64url hk, cl_token = t, cl_ttl = d\<rparr>, r')"
  obtains w where "join_turn env renv now (snd (join_call env jp CallJoin new_join_world), r) = (w, r')"
    "join_paused w (own_run env i hk None) (new_joiner\<lparr>jo_runs := 1, jo_run := Some 0, jo_id := Some i, jo_token := Some t, jo_ttl := d, jo_phase := JpWaiting\<rparr>)"
proof -
  let ?q = "RqClaim ref \<lparr>cb_joinerKey = to_b64url (pe_public env (pe_secrets env 0)), cb_commit = to_b64url jc, cb_deviceName = jp_deviceName jp\<rparr>"
  let ?w = "\<lparr>jw_joiner = new_joiner\<lparr>jo_runs := 1, jo_run := Some 0, jo_phase := JpClaiming\<rparr>, jw_tasks = [JtClaim (own_run env [] [] None)],
    jw_log = [JAsked ?q, JCalled CallJoin]\<rparr>"
  have "snd (join_call env jp CallJoin new_join_world) = ?w"
    by (simp add: join_steps new_join_world_def new_joiner_def own_run_def assms(1,2))
  moreover have "join_turn env renv now (?w, r) =
      (join_resume env (JtClaim (own_run env [] [] None)) (RpClaimed \<lparr>cl_id = i, cl_hostKey = to_b64url hk, cl_token = t, cl_ttl = d\<rparr>) ?w, r')"
    by (rule join_turn_answer [where ts = "[]", OF assms(3)]) simp_all
  ultimately have "join_turn env renv now (snd (join_call env jp CallJoin new_join_world), r) =
      (join_resume env (JtClaim (own_run env [] [] None)) (RpClaimed \<lparr>cl_id = i, cl_hostKey = to_b64url hk, cl_token = t, cl_ttl = d\<rparr>) ?w, r')" by simp
  then show ?thesis by (rule that) (simp add: join_paused_def join_steps new_joiner_def own_run_def)
qed

lemma join_polls:
  assumes "join_paused w x j" and "jo_aborted j = []" and "jo_token j = Some t" and "serve renv now (RqJoinerView (jr_id x) (Some t)) r = (RpJoinerView v, r')"
  obtains l where "(join_turn env renv now ^^ 2) (w, r) =
    (join_step env x v \<lparr>jw_joiner = j, jw_tasks = [], jw_log = JTold (JtView x) (RpJoinerView v) # l\<rparr>, r')"
proof -
  obtain e l where w: "w = \<lparr>jw_joiner = j, jw_tasks = [JtPause x], jw_log = e # l\<rparr>" "\<And>q. e \<noteq> JAsked q"
    using assms(1) by (cases w) (auto simp: join_paused_def)
  let ?w = "\<lparr>jw_joiner = j, jw_tasks = [JtView x], jw_log = JAsked (RqJoinerView (jr_id x) (Some t)) # JTold (JtPause x) RpEmpty # e # l\<rparr>"
  have "join_turn env renv now (w, r) = (join_resume env (JtPause x) RpEmpty w, r)"
    by (rule join_turn_timer [where ts = "[]"]) (use w in simp_all)
  also have "join_resume env (JtPause x) RpEmpty w = ?w"
    using assms(2,3) by (simp add: w(1) join_steps)
  finally have "(join_turn env renv now ^^ 2) (w, r) = join_turn env renv now (?w, r)" by (simp add: numeral_2_eq_2)
  also have "\<dots> = (join_resume env (JtView x) (RpJoinerView v) ?w, r')"
    by (rule join_turn_answer [where ts = "[]", OF assms(4)]) simp_all
  finally show ?thesis by (intro that) (simp add: join_resume_def Let_def)
qed

lemma join_compares:
  assumes "join_paused w (own_run env i hk None) j" and "jo_aborted j = []" and "jo_token j = Some t" and "jo_sas j = None"
    and "serve renv now (RqJoinerView i (Some t)) r = (RpJoinerView \<lparr>jv_state = PsNonced, jv_ttl = d, jv_hostNonce = Some (to_b64url hn), jv_ciphertext = c\<rparr>, r')"
    and "derive_pairing_sas env i hk (pe_public env (pe_secrets env 0)) hn (pe_nonces env 0) = Inr sas"
    and "serve renv now (RqReveal i (Some t) (to_b64url (pe_nonces env 0))) r' = (RpEmpty, r'')"
  obtains w' where "(join_turn env renv now ^^ 3) (w, r) = (w', r'')"
    "join_paused w' (own_run env i hk (Some hn)) (j\<lparr>jo_ttl := d, jo_sas := Some sas, jo_phase := JpCompare\<rparr>)"
proof -
  let ?v = "\<lparr>jv_state = PsNonced, jv_ttl = d, jv_hostNonce = Some (to_b64url hn), jv_ciphertext = c\<rparr>"
  have "serve renv now (RqJoinerView (jr_id (own_run env i hk None)) (Some t)) r = (RpJoinerView ?v, r')" using assms(5) by (simp add: own_run_def)
  then obtain l where l: "(join_turn env renv now ^^ 2) (w, r) =
    (join_step env (own_run env i hk None) ?v \<lparr>jw_joiner = j, jw_tasks = [], jw_log = JTold (JtView (own_run env i hk None)) (RpJoinerView ?v) # l\<rparr>, r')"
    by (rule join_polls [OF assms(1-3)])
  let ?w = "\<lparr>jw_joiner = j\<lparr>jo_ttl := d, jo_sas := Some sas, jo_phase := JpCompare\<rparr>, jw_tasks = [JtReveal (own_run env i hk (Some hn))],
    jw_log = JAsked (RqReveal i (Some t) (to_b64url (pe_nonces env 0))) # JTold (JtView (own_run env i hk None)) (RpJoinerView ?v) # l\<rparr>"
  have "join_step env (own_run env i hk None) ?v \<lparr>jw_joiner = j, jw_tasks = [], jw_log = JTold (JtView (own_run env i hk None)) (RpJoinerView ?v) # l\<rparr> = ?w"
    using assms(3,4,6) by (simp add: join_steps own_run_def)
  then have "(join_turn env renv now ^^ 3) (w, r) = join_turn env renv now (?w, r')" using l by (simp add: numeral_3_eq_3 numeral_2_eq_2)
  also have "\<dots> = (join_resume env (JtReveal (own_run env i hk (Some hn))) RpEmpty ?w, r'')"
    by (rule join_turn_answer [where ts = "[]", OF assms(7)]) simp_all
  finally show ?thesis by (rule that) (simp add: join_paused_def join_steps)
qed

lemma join_receives:
  assumes "join_paused w (own_run env i hk (Some hn)) j" and "jo_aborted j = []" and "jo_token j = Some t" and "jo_phase j = JpCompare"
    and "serve renv now (RqJoinerView i (Some t)) r = (RpJoinerView \<lparr>jv_state = PsDelivered, jv_ttl = d, jv_hostNonce = Some (to_b64url hn), jv_ciphertext = Some (to_b64url c)\<rparr>, r')"
    and "derive_pairing_key env i (pe_secrets env 0) hk hk (pe_public env (pe_secrets env 0)) = Inr key"
    and "open_pairing_payload env key c = Inr p"
    and "serve renv now (RqAck i (Some t)) r' = (RpEmpty, r'')"
  obtains w' where "(join_turn env renv now ^^ 3) (snd (join_call env jp CallMatch w), r) = (w', r'')"
    "jo_phase (jw_joiner w') = JpReceived" "JReturned 0 (Inr p) \<in> set (jw_log w')" "jo_sas (jw_joiner w') = jo_sas j"
proof -
  let ?v = "\<lparr>jv_state = PsDelivered, jv_ttl = d, jv_hostNonce = Some (to_b64url hn), jv_ciphertext = Some (to_b64url c)\<rparr>"
  let ?x = "own_run env i hk (Some hn)" and ?j = "j\<lparr>jo_matched := True\<rparr>"
  have "join_paused (snd (join_call env jp CallMatch w)) ?x ?j"
    using assms(1,4) by (cases w) (auto simp: join_paused_def join_call_def Let_def on_joiner_def)
  moreover have "serve renv now (RqJoinerView (jr_id ?x) (Some t)) r = (RpJoinerView ?v, r')" using assms(5) by (simp add: own_run_def)
  ultimately obtain l where l: "(join_turn env renv now ^^ 2) (snd (join_call env jp CallMatch w), r) =
    (join_step env ?x ?v \<lparr>jw_joiner = ?j, jw_tasks = [], jw_log = JTold (JtView ?x) (RpJoinerView ?v) # l\<rparr>, r')"
    using assms(2,3) by (elim join_polls [of _ _ ?j t]) simp_all
  let ?w = "\<lparr>jw_joiner = ?j\<lparr>jo_ttl := d\<rparr>, jw_tasks = [JtAck ?x p], jw_log = JAsked (RqAck i (Some t)) # JTold (JtView ?x) (RpJoinerView ?v) # l\<rparr>"
  have "join_step env ?x ?v \<lparr>jw_joiner = ?j, jw_tasks = [], jw_log = JTold (JtView ?x) (RpJoinerView ?v) # l\<rparr> = ?w"
    using assms(3,6,7) by (simp add: join_steps own_run_def constant_time_equal_eq)
  then have "(join_turn env renv now ^^ 3) (snd (join_call env jp CallMatch w), r) = join_turn env renv now (?w, r')"
    using l by (simp add: numeral_3_eq_3 numeral_2_eq_2)
  also have "\<dots> = (join_resume env (JtAck ?x p) RpEmpty ?w, r'')"
    by (rule join_turn_answer [where ts = "[]", OF assms(8)]) simp_all
  finally show ?thesis by (rule that) (simp_all add: join_steps jreturn_def own_run_def)
qed

end
