(* ===== verification/RelayProps.thy ===== *)
theory RelayProps
  imports Relay
begin

text \<open>
  What the relay promises two devices that do not trust it: an invitation goes through its states in
  one direction, what either side has put on it stays as it is until the invitation ends, what ended
  holds no key material, and without the claim's token nothing is read or moved.
\<close>

section \<open>The states of an invitation\<close>

text \<open>Everything that can happen to one invitation while the relay holds it.\<close>

inductive inv_step :: "invitation \<Rightarrow> invitation \<Rightarrow> bool" where
  Spent: "lm_used l \<le> join_requests_per_invitation \<Longrightarrow> inv_step v (v\<lparr>iv_limiter := l\<rparr>)"
| Claimed: "iv_state v = PsOpen \<Longrightarrow> jn_key j \<noteq> None \<Longrightarrow> jn_commit j \<noteq> None \<Longrightarrow> inv_step v (v\<lparr>iv_joiner := Some j, iv_state := PsClaimed\<rparr>)"
| Nonced: "iv_state v = PsClaimed \<Longrightarrow> inv_step v (v\<lparr>iv_hostNonce := Some n, iv_state := PsNonced\<rparr>)"
| Revealed: "iv_state v = PsNonced \<Longrightarrow> inv_step v (v\<lparr>iv_joinerNonce := Some n, iv_state := PsRevealed\<rparr>)"
| Delivered: "iv_state v = PsRevealed \<Longrightarrow> inv_step v (v\<lparr>iv_ciphertext := Some c, iv_state := PsDelivered\<rparr>)"
| Ended: "\<not> terminal (iv_state v) \<Longrightarrow> terminal st \<Longrightarrow>
    inv_step v (v\<lparr>iv_state := st, iv_hostKey := None, iv_hostNonce := None, iv_joinerNonce := None, iv_ciphertext := None,
      iv_joiner := map_option (\<lambda>j. j\<lparr>jn_key := None, jn_commit := None, jn_deviceName := []\<rparr>) (iv_joiner v)\<rparr>)"

abbreviation inv_steps :: "invitation \<Rightarrow> invitation \<Rightarrow> bool" where
  "inv_steps \<equiv> inv_step\<^sup>*\<^sup>*"

fun rank :: "pairing_state \<Rightarrow> nat" where
  "rank PsOpen = 0" | "rank PsClaimed = 1" | "rank PsNonced = 2" | "rank PsRevealed = 3" | "rank PsDelivered = 4"
| "rank PsCompleted = 5" | "rank PsCancelled = 5"

definition joiner_key :: "invitation \<Rightarrow> string option" where
  "joiner_key v = Option.bind (iv_joiner v) jn_key"

definition joiner_commit :: "invitation \<Rightarrow> string option" where
  "joiner_commit v = Option.bind (iv_joiner v) jn_commit"

text \<open>What is on an invitation in each state, and nothing else.\<close>

definition well_formed :: "invitation \<Rightarrow> bool" where
  "well_formed v \<longleftrightarrow>
     (iv_hostKey v \<noteq> None \<longleftrightarrow> \<not> terminal (iv_state v))
   \<and> (joiner_key v \<noteq> None \<longleftrightarrow> 1 \<le> rank (iv_state v) \<and> rank (iv_state v) \<le> 4)
   \<and> (joiner_commit v \<noteq> None \<longleftrightarrow> 1 \<le> rank (iv_state v) \<and> rank (iv_state v) \<le> 4)
   \<and> (iv_hostNonce v \<noteq> None \<longleftrightarrow> 2 \<le> rank (iv_state v) \<and> rank (iv_state v) \<le> 4)
   \<and> (iv_joinerNonce v \<noteq> None \<longleftrightarrow> 3 \<le> rank (iv_state v) \<and> rank (iv_state v) \<le> 4)
   \<and> (iv_ciphertext v \<noteq> None \<longleftrightarrow> rank (iv_state v) = 4)
   \<and> (iv_state v = PsOpen \<longrightarrow> iv_joiner v = None) \<and> lm_used (iv_limiter v) \<le> join_requests_per_invitation"

lemma terminal_rank: "terminal s \<longleftrightarrow> rank s = 5"
  by (cases s) (simp_all add: terminal_def)

lemma inv_step_same: "inv_step v w \<Longrightarrow> iv_id w = iv_id v \<and> iv_code w = iv_code v \<and> iv_expiresAt w = iv_expiresAt v"
  by (induction rule: inv_step.induct) simp_all

lemma rank_bound: "rank s \<le> 5"
  by (cases s) simp_all

lemma wiped_joiner [simp]:
  "Option.bind (map_option (\<lambda>j. j\<lparr>jn_key := None, jn_commit := None, jn_deviceName := []\<rparr>) x) jn_key = None"
  "Option.bind (map_option (\<lambda>j. j\<lparr>jn_key := None, jn_commit := None, jn_deviceName := []\<rparr>) x) jn_commit = None"
  by (cases x; simp)+

lemma inv_step_well_formed: "inv_step v w \<Longrightarrow> well_formed v \<Longrightarrow> well_formed w"
proof (induction rule: inv_step.induct)
  case (Ended v st)
  then show ?case by (cases st) (simp_all add: well_formed_def terminal_def joiner_key_def joiner_commit_def)
qed (simp_all add: well_formed_def terminal_def joiner_key_def joiner_commit_def)

text \<open>A value stays as it was put until it is wiped at the end.\<close>

definition holds :: "pairing_state \<Rightarrow> 'a option \<Rightarrow> 'a option \<Rightarrow> bool" where
  "holds st x y \<longleftrightarrow> x = None \<or> y = x \<or> terminal st \<and> y = None"

definition pinned :: "invitation \<Rightarrow> invitation \<Rightarrow> bool" where
  "pinned v w \<longleftrightarrow> iv_id w = iv_id v \<and> iv_code w = iv_code v \<and> iv_expiresAt w = iv_expiresAt v \<and> rank (iv_state v) \<le> rank (iv_state w)
     \<and> holds (iv_state w) (iv_hostKey v) (iv_hostKey w) \<and> holds (iv_state w) (joiner_key v) (joiner_key w)
     \<and> holds (iv_state w) (joiner_commit v) (joiner_commit w) \<and> holds (iv_state w) (iv_hostNonce v) (iv_hostNonce w)
     \<and> holds (iv_state w) (iv_joinerNonce v) (iv_joinerNonce w) \<and> holds (iv_state w) (iv_ciphertext v) (iv_ciphertext w)
     \<and> (\<forall>j. iv_joiner v = Some j \<longrightarrow> map_option jn_token (iv_joiner w) = Some (jn_token j))"

lemma holds_refl [simp]: "holds st x x"
  by (simp add: holds_def)

lemma holds_trans: "holds s x y \<Longrightarrow> holds t y z \<Longrightarrow> (terminal s \<Longrightarrow> terminal t) \<Longrightarrow> (terminal s \<Longrightarrow> y = None \<Longrightarrow> z = None) \<Longrightarrow> holds t x z"
  by (auto simp: holds_def)

lemma pinned_refl: "pinned v v"
  by (simp add: pinned_def)

lemma inv_step_pinned: "inv_step v w \<Longrightarrow> well_formed v \<Longrightarrow> pinned v w"
proof (induction rule: inv_step.induct)
  case (Ended v st)
  have "map_option jn_token (map_option (\<lambda>j. j\<lparr>jn_key := None, jn_commit := None, jn_deviceName := []\<rparr>) (iv_joiner v)) = Some (jn_token j)"
    if "iv_joiner v = Some j" for j using that by simp
  then show ?case using Ended rank_bound [of "iv_state v"] by (simp add: pinned_def holds_def terminal_rank joiner_key_def joiner_commit_def)
next
  case (Nonced v n)
  then show ?case by (simp add: pinned_def holds_def well_formed_def joiner_key_def joiner_commit_def)
next
  case (Revealed v n)
  then show ?case by (simp add: pinned_def holds_def well_formed_def joiner_key_def joiner_commit_def)
next
  case (Delivered v c)
  then show ?case by (simp add: pinned_def holds_def well_formed_def joiner_key_def joiner_commit_def)
next
  case (Claimed v j)
  then show ?case by (simp add: pinned_def holds_def well_formed_def joiner_key_def joiner_commit_def)
next
  case (Spent l v)
  then show ?case by (simp add: pinned_def holds_def joiner_key_def joiner_commit_def)
qed

lemma ended_values:
  assumes "well_formed v" and "terminal (iv_state v)"
  shows "iv_hostKey v = None" "joiner_key v = None" "joiner_commit v = None" "iv_hostNonce v = None" "iv_joinerNonce v = None" "iv_ciphertext v = None"
  using assms by (auto simp: well_formed_def terminal_rank)

lemma rank_terminal: "terminal s \<Longrightarrow> rank s \<le> rank t \<Longrightarrow> terminal t"
  by (cases s; cases t) (simp_all add: terminal_def)

lemma pinned_trans:
  assumes "pinned u v" and "pinned v w" and "well_formed v" and "well_formed w"
  shows "pinned u w"
proof -
  have t: "terminal (iv_state v) \<Longrightarrow> terminal (iv_state w)" using assms(2) rank_terminal by (auto simp: pinned_def)
  note h = holds_trans [where s = "iv_state v" and t = "iv_state w"]
  show ?thesis using assms(1,2) t ended_values [OF assms(4)]
    unfolding pinned_def by (auto intro: h)
qed

lemma inv_steps_keep:
  "inv_steps v w \<Longrightarrow> well_formed v \<Longrightarrow> well_formed w \<and> pinned v w"
proof (induction rule: rtranclp_induct)
  case (step w x)
  then have "well_formed w" "pinned v w" by simp_all
  with inv_step_well_formed [OF step(2)] inv_step_pinned [OF step(2)] pinned_trans show ?case by blast
qed (simp add: pinned_refl)

section \<open>The moves of the relay\<close>

definition held :: "relay \<Rightarrow> string \<Rightarrow> invitation option" where
  "held r = rget (rl_invitations r)"

definition open_ids :: "relay \<Rightarrow> string set" where
  "open_ids r = {i. \<exists>v. held r i = Some v \<and> \<not> terminal (iv_state v)}"

definition drawn_id :: "relay_env \<Rightarrow> relay \<Rightarrow> string \<Rightarrow> bool" where
  "drawn_id env r i \<longleftrightarrow> (\<exists>n < rl_ids r. i = to_b64url (re_ids env n))"

inductive relay_move :: "relay_env \<Rightarrow> relay \<Rightarrow> relay \<Rightarrow> bool" for env where
  Changed: "held r (iv_id v) = Some v \<Longrightarrow> inv_step v w \<Longrightarrow> terminal (iv_state w) = terminal (iv_state v) \<Longrightarrow>
    relay_move env r (put_invitation w r)"
| Over: "held r (iv_id v) = Some v \<Longrightarrow> terminal st \<Longrightarrow> relay_move env r (end_invitation v st r)"
| Removed: "held r (iv_id v) = Some v \<Longrightarrow> relay_move env r (remove_invitation v r)"
| Counted: "relay_move env r (r\<lparr>rl_windowStart := s, rl_misses := m, rl_tokens := t\<rparr>)"
| Opened: "iv_state v = PsOpen \<Longrightarrow> well_formed v \<Longrightarrow> iv_id v = to_b64url (re_ids env (rl_ids r)) \<Longrightarrow>
    \<not> drawn_id env r (iv_id v) \<Longrightarrow> rget (rl_byCode r) (iv_code v) = None \<Longrightarrow> card (open_ids r) < max_open_invitations \<Longrightarrow>
    relay_move env r (put_invitation v (r\<lparr>rl_codes := n, rl_ids := Suc (rl_ids r)\<rparr>)
      \<lparr>rl_byCode := rset (iv_code v) (iv_id v) (rl_byCode r)\<rparr>)"

abbreviation relay_moves :: "relay_env \<Rightarrow> relay \<Rightarrow> relay \<Rightarrow> bool" where
  "relay_moves env \<equiv> (relay_move env)\<^sup>*\<^sup>*"

definition relay_ok :: "relay_env \<Rightarrow> relay \<Rightarrow> bool" where
  "relay_ok env r \<longleftrightarrow>
     distinct (rkeys (rl_invitations r)) \<and>
     (\<forall>i v. held r i = Some v \<longrightarrow> iv_id v = i \<and> well_formed v \<and> drawn_id env r i) \<and>
     (\<forall>c i. rget (rl_byCode r) c = Some i \<longleftrightarrow> (\<exists>v. held r i = Some v \<and> iv_code v = c \<and> \<not> terminal (iv_state v))) \<and>
     card (open_ids r) \<le> max_open_invitations"

lemma held_put [simp]: "held (put_invitation v r) = (held r)(iv_id v \<mapsto> v)"
  by (simp add: held_def put_invitation_def)

lemma held_remove [simp]: "held (remove_invitation v r) = (held r)(iv_id v := None)"
  by (simp add: held_def remove_invitation_def)

lemma held_counted [simp]: "held (r\<lparr>rl_windowStart := s, rl_misses := m, rl_tokens := t\<rparr>) = held r"
  "held (r\<lparr>rl_byCode := b\<rparr>) = held r" "held (r\<lparr>rl_codes := n, rl_ids := k\<rparr>) = held r"
  by (simp_all add: held_def)

lemma relay_okD:
  assumes "relay_ok env r"
  shows "held r i = Some v \<Longrightarrow> iv_id v = i" "held r i = Some v \<Longrightarrow> well_formed v" "held r i = Some v \<Longrightarrow> drawn_id env r i"
    "rget (rl_byCode r) c = Some i \<longleftrightarrow> (\<exists>v. held r i = Some v \<and> iv_code v = c \<and> \<not> terminal (iv_state v))"
    "distinct (rkeys (rl_invitations r))" "card (open_ids r) \<le> max_open_invitations"
  using assms by (simp_all add: relay_ok_def)

lemma relay_okI:
  assumes "distinct (rkeys (rl_invitations r))" and "\<And>i v. held r i = Some v \<Longrightarrow> iv_id v = i \<and> well_formed v \<and> drawn_id env r i"
    and "\<And>c i. rget (rl_byCode r) c = Some i \<longleftrightarrow> (\<exists>v. held r i = Some v \<and> iv_code v = c \<and> \<not> terminal (iv_state v))"
    and "card (open_ids r) \<le> max_open_invitations"
  shows "relay_ok env r"
  unfolding relay_ok_def using assms by blast

lemma finite_open [simp]: "finite (open_ids r)"
proof -
  have "open_ids r \<subseteq> set (rkeys (rl_invitations r))"
    by (auto simp: open_ids_def held_def dest!: map_of_SomeD intro: rev_image_eqI)
  then show ?thesis by (rule finite_subset) simp
qed

lemma count_open:
  assumes "distinct (rkeys (rl_invitations r))"
  shows "length (filter (\<lambda>(_, v). \<not> terminal (iv_state v)) (rl_invitations r)) = card (open_ids r)"
proof -
  let ?l = "filter (\<lambda>(_, v). \<not> terminal (iv_state v)) (rl_invitations r)"
  have "distinct (map fst ?l)" using assms by (rule distinct_map_filter)
  then have "length ?l = card (set (map fst ?l))" by (metis distinct_card length_map)
  moreover have "set (map fst ?l) = open_ids r"
    using assms by (force simp: open_ids_def held_def map_of_eq_Some_iff)
  ultimately show ?thesis by simp
qed

lemma open_put: "open_ids (put_invitation v r) = (if terminal (iv_state v) then open_ids r - {iv_id v} else insert (iv_id v) (open_ids r))"
  by (auto simp: open_ids_def)

lemma open_remove: "open_ids (remove_invitation v r) = open_ids r - {iv_id v}"
  by (auto simp: open_ids_def)

lemma open_same: "held r = held r' \<Longrightarrow> open_ids r = open_ids r'"
  by (simp add: open_ids_def)

lemma drawn_id_mono: "drawn_id env r i \<Longrightarrow> rl_ids r \<le> rl_ids r' \<Longrightarrow> drawn_id env r' i"
  unfolding drawn_id_def using less_le_trans by blast

lemma fields_put [simp]:
  "rl_byCode (put_invitation v r) = rl_byCode r" "rl_ids (put_invitation v r) = rl_ids r"
  "rl_ids (remove_invitation v r) = rl_ids r" "drawn_id env (put_invitation v r) i = drawn_id env r i"
  "rl_byCode (end_invitation v st r) = (if terminal (iv_state v) then rl_byCode r else rdel (iv_code v) (rl_byCode r))"
  "rl_ids (end_invitation v st r) = rl_ids r"
  by (simp_all add: put_invitation_def remove_invitation_def drawn_id_def end_invitation_def)

lemma keys_put [simp]: "distinct (rkeys (rl_invitations r)) \<Longrightarrow> distinct (rkeys (rl_invitations (put_invitation v r)))"
  "distinct (rkeys (rl_invitations r)) \<Longrightarrow> distinct (rkeys (rl_invitations (remove_invitation v r)))"
  by (simp_all add: put_invitation_def remove_invitation_def)

text \<open>Ending an invitation, as a step of it.\<close>

lemma end_invitation_step:
  assumes "\<not> terminal (iv_state v)" and "terminal st"
  obtains w where "inv_step v w" "terminal (iv_state w)"
    "end_invitation v st r = (put_invitation w r)\<lparr>rl_byCode := rdel (iv_code v) (rl_byCode r)\<rparr>"
  using assms inv_step.Ended [OF assms] by (auto simp: end_invitation_def intro: that)

lemma ok_changed:
  assumes ok: "relay_ok env r" and v: "held r (iv_id v) = Some v" and st: "inv_step v w" and t: "terminal (iv_state w) = terminal (iv_state v)"
  shows "relay_ok env (put_invitation w r)"
proof -
  note same = inv_step_same [OF st]
  have open_same: "open_ids (put_invitation w r) = open_ids r"
    using v t same by (auto simp: open_put open_ids_def)
  have byc: "rget (rl_byCode r) c = Some i \<longleftrightarrow> (\<exists>u. held (put_invitation w r) i = Some u \<and> iv_code u = c \<and> \<not> terminal (iv_state u))" for c i
    using relay_okD(4) [OF ok, of c i] v t same by auto
  have each: "iv_id u = i \<and> well_formed u \<and> drawn_id env r i" if "held (put_invitation w r) i = Some u" for i u
    using that relay_okD(1-3) [OF ok, of i u] relay_okD(2,3) [OF ok v] inv_step_well_formed [OF st] same
    by (cases "i = iv_id v") simp_all
  show ?thesis
    using relay_okD(5,6) [OF ok] open_same by (intro relay_okI) (simp_all only: keys_put fields_put byc each)
qed

lemma ok_over:
  assumes ok: "relay_ok env r" and v: "held r (iv_id v) = Some v" and t: "terminal st"
  shows "relay_ok env (end_invitation v st r)"
proof (cases "terminal (iv_state v)")
  case True
  then show ?thesis using ok by (simp add: end_invitation_def)
next
  case False
  obtain w where st: "inv_step v w" and tw: "terminal (iv_state w)"
    and eq: "end_invitation v st r = (put_invitation w r)\<lparr>rl_byCode := rdel (iv_code v) (rl_byCode r)\<rparr>"
    by (rule end_invitation_step [OF False t])
  note same = inv_step_same [OF st]
  have byc: "rget (rdel (iv_code v) (rl_byCode r)) c = Some i \<longleftrightarrow>
      (\<exists>u. held (put_invitation w r) i = Some u \<and> iv_code u = c \<and> \<not> terminal (iv_state u))" for c i
  proof (cases "i = iv_id v")
    case True
    with relay_okD(4) [OF ok, of c i] v tw same show ?thesis by auto
  next
    case other: False
    have "rget (rl_byCode r) (iv_code v) = Some (iv_id v)" using relay_okD(4) [OF ok] v False by blast
    with other relay_okD(4) [OF ok, of c i] same show ?thesis by auto
  qed
  have each: "iv_id u = i \<and> well_formed u \<and> drawn_id env r i" if "held (put_invitation w r) i = Some u" for i u
    using that relay_okD(1-3) [OF ok, of i u] relay_okD(2,3) [OF ok v] inv_step_well_formed [OF st] same
    by (cases "i = iv_id v") simp_all
  have "open_ids (end_invitation v st r) \<subseteq> open_ids r" using tw unfolding eq by (auto simp: open_ids_def split: if_splits)
  then have "card (open_ids (end_invitation v st r)) \<le> max_open_invitations"
    using relay_okD(6) [OF ok] card_mono [OF finite_open] le_trans by blast
  moreover have "distinct (rkeys (rl_invitations (end_invitation v st r)))" using relay_okD(5) [OF ok] unfolding eq by simp
  moreover have "held (end_invitation v st r) = held (put_invitation w r)" unfolding eq by simp
  moreover have "rl_byCode (end_invitation v st r) = rdel (iv_code v) (rl_byCode r)" unfolding eq by simp
  moreover have "drawn_id env (end_invitation v st r) i = drawn_id env r i" for i by (simp add: drawn_id_def)
  ultimately show ?thesis using byc each by (intro relay_okI) (simp_all only:)
qed

lemma ok_removed:
  assumes ok: "relay_ok env r" and v: "held r (iv_id v) = Some v"
  shows "relay_ok env (remove_invitation v r)"
proof -
  have byc: "rget (rl_byCode (remove_invitation v r)) c = Some i \<longleftrightarrow>
      (\<exists>u. held (remove_invitation v r) i = Some u \<and> iv_code u = c \<and> \<not> terminal (iv_state u))" for c i
    using relay_okD(4) [OF ok, of c i] relay_okD(4) [OF ok, of "iv_code v" "iv_id v"] v
    by (cases "i = iv_id v") (auto simp: remove_invitation_def held_def)
  have "card (open_ids (remove_invitation v r)) \<le> max_open_invitations"
    unfolding open_remove using relay_okD(6) [OF ok] card_mono [OF finite_open, of "open_ids r - {iv_id v}" r] by auto
  moreover have "iv_id u = i \<and> well_formed u \<and> drawn_id env (remove_invitation v r) i" if "held (remove_invitation v r) i = Some u" for i u
    using that relay_okD(1-3) [OF ok, of i u] by (cases "i = iv_id v") (simp_all add: drawn_id_def)
  ultimately show ?thesis using relay_okD(5) [OF ok] byc by (intro relay_okI) (simp_all only: keys_put)
qed

lemma ok_opened:
  assumes ok: "relay_ok env r" and v: "iv_state v = PsOpen" "well_formed v" "iv_id v = to_b64url (re_ids env (rl_ids r))"
    and new: "\<not> drawn_id env r (iv_id v)" and code: "rget (rl_byCode r) (iv_code v) = None" and room: "card (open_ids r) < max_open_invitations"
  fixes n :: nat
  defines "r' \<equiv> (put_invitation v (r\<lparr>rl_codes := n, rl_ids := Suc (rl_ids r)\<rparr>))\<lparr>rl_byCode := rset (iv_code v) (iv_id v) (rl_byCode r)\<rparr>"
  shows "relay_ok env r'" and "held r (iv_id v) = None"
proof -
  from new relay_okD(3) [OF ok] show fresh: "held r (iv_id v) = None" by (cases "held r (iv_id v)") auto
  have h: "held r' = (held r)(iv_id v \<mapsto> v)" by (simp add: r'_def)
  have byc: "rget (rl_byCode r') c = Some i \<longleftrightarrow> (\<exists>u. held r' i = Some u \<and> iv_code u = c \<and> \<not> terminal (iv_state u))" for c i
    using relay_okD(4) [OF ok, of c i] relay_okD(4) [OF ok, of "iv_code v" i] v(1) code fresh unfolding h by (auto simp: r'_def terminal_def)
  have "open_ids r' = insert (iv_id v) (open_ids r)" using v(1) unfolding open_ids_def h by (auto simp: terminal_def)
  then have card: "card (open_ids r') \<le> max_open_invitations" using room card_insert_le_m1 [of max_open_invitations "open_ids r"]
    by (simp add: card_insert_if)
  have "drawn_id env r' (iv_id v)" unfolding drawn_id_def v(3) r'_def by auto
  moreover have "rl_ids r \<le> rl_ids r'" by (simp add: r'_def)
  moreover note drawn_id_mono [of env r _ r']
  ultimately have "iv_id u = i \<and> well_formed u \<and> drawn_id env r' i" if "held r' i = Some u" for i u
    using that relay_okD(1-3) [OF ok, of i u] v(2) by (cases "i = iv_id v") (simp_all add: h)
  moreover have "distinct (rkeys (rl_invitations r'))" using relay_okD(5) [OF ok] by (simp add: r'_def put_invitation_def)
  ultimately show "relay_ok env r'" using byc card by (intro relay_okI) (simp_all only:)
qed

lemma relay_move_ok: "relay_move env r r' \<Longrightarrow> relay_ok env r \<Longrightarrow> relay_ok env r'"
proof (induction rule: relay_move.induct)
  case (Counted r s m t)
  then show ?case unfolding relay_ok_def by (simp add: drawn_id_def open_ids_def)
qed (blast intro: ok_changed ok_over ok_removed ok_opened)+

text \<open>An identifier that was drawn names one invitation for good: it goes through its steps, and once gone it stays gone.\<close>

definition follows :: "invitation option \<Rightarrow> invitation option \<Rightarrow> bool" where
  "follows x y \<longleftrightarrow> (case y of None \<Rightarrow> True | Some w \<Rightarrow> (case x of None \<Rightarrow> False | Some v \<Rightarrow> inv_steps v w))"

lemma follows_refl [simp]: "follows x x"
  by (simp add: follows_def split: option.splits)

lemma follows_None [simp]: "follows x None"
  by (simp add: follows_def)

lemma follows_trans: "follows x y \<Longrightarrow> follows y z \<Longrightarrow> follows x z"
  by (auto simp: follows_def split: option.splits)

lemma follows_step: "inv_step v w \<Longrightarrow> follows (Some v) (Some w)"
  by (simp add: follows_def r_into_rtranclp)

lemma relay_move_follows:
  "relay_move env r r' \<Longrightarrow> relay_ok env r \<Longrightarrow> rl_ids r \<le> rl_ids r' \<and> (drawn_id env r i \<longrightarrow> follows (held r i) (held r' i))"
proof (induction rule: relay_move.induct)
  case (Changed r v w)
  then show ?case using inv_step_same [OF Changed(2)] follows_step [OF Changed(2)] by simp
next
  case (Over r v st)
  show ?case
  proof (cases "terminal (iv_state v)")
    case True
    then show ?thesis by (simp add: end_invitation_def)
  next
    case False
    from end_invitation_step [OF False Over(2)] obtain w where w: "inv_step v w"
      "end_invitation v st r = (put_invitation w r)\<lparr>rl_byCode := rdel (iv_code v) (rl_byCode r)\<rparr>" by blast
    then show ?thesis using Over(1) inv_step_same [OF w(1)] follows_step [OF w(1)] by simp
  qed
next
  case (Opened v r n)
  from Opened(4) show ?case by auto
qed simp_all

lemma relay_moves_keep:
  "relay_moves env r r' \<Longrightarrow> relay_ok env r \<Longrightarrow>
     relay_ok env r' \<and> rl_ids r \<le> rl_ids r' \<and> (drawn_id env r i \<longrightarrow> follows (held r i) (held r' i))"
proof (induction rule: rtranclp_induct)
  case (step r' r'')
  then have "relay_ok env r'" "rl_ids r \<le> rl_ids r'" "drawn_id env r i \<longrightarrow> follows (held r i) (held r' i)" by simp_all
  with relay_move_ok [OF step(2)] relay_move_follows [OF step(2), of i] drawn_id_mono [of env r i r'] step(4) show ?case
    by (meson follows_trans le_trans)
qed simp

section \<open>The calls\<close>

definition reached :: "relay_env \<Rightarrow> relay \<Rightarrow> relay \<Rightarrow> bool" where
  "reached env r0 r \<longleftrightarrow> relay_moves env r0 r \<and> relay_ok env r"

definition result_ok :: "(relay \<Rightarrow> bool) \<Rightarrow> ('a \<Rightarrow> relay \<Rightarrow> bool) \<Rightarrow> 'a relay_result \<Rightarrow> bool" where
  "result_ok P Q x \<longleftrightarrow> P (snd x) \<and> (case fst x of Inl _ \<Rightarrow> True | Inr a \<Rightarrow> Q a (snd x))"

lemma result_ok_simps [simp]:
  "result_ok P Q (Inl e, r) \<longleftrightarrow> P r" "result_ok P Q (Inr a, r) \<longleftrightarrow> P r \<and> Q a r"
  by (simp_all add: result_ok_def)

lemma result_ok_then:
  "result_ok P Q x \<Longrightarrow> (\<And>a r. P r \<Longrightarrow> Q a r \<Longrightarrow> result_ok P R (f a r)) \<Longrightarrow> result_ok P R (relay_then x f)"
  by (cases x; cases "fst x") (auto simp: relay_then_def)

definition is_held :: "invitation \<Rightarrow> relay \<Rightarrow> bool" where
  "is_held v r \<longleftrightarrow> held r (iv_id v) = Some v"

abbreviation any_result :: "'a \<Rightarrow> relay \<Rightarrow> bool" where
  "any_result \<equiv> \<lambda>_ _. True"

lemma reached_move: "reached env r0 r \<Longrightarrow> relay_move env r r' \<Longrightarrow> reached env r0 r'"
  unfolding reached_def using relay_move_ok by (metis rtranclp.rtrancl_into_rtrancl)

lemma reached_change:
  "reached env r0 r \<Longrightarrow> is_held v r \<Longrightarrow> inv_step v w \<Longrightarrow> terminal (iv_state w) = terminal (iv_state v) \<Longrightarrow>
     reached env r0 (put_invitation w r)"
  unfolding is_held_def by (blast intro: reached_move relay_move.Changed)

lemma reached_over: "reached env r0 r \<Longrightarrow> is_held v r \<Longrightarrow> terminal st \<Longrightarrow> reached env r0 (end_invitation v st r)"
  unfolding is_held_def by (blast intro: reached_move relay_move.Over)

lemma reached_removed: "reached env r0 r \<Longrightarrow> is_held v r \<Longrightarrow> reached env r0 (remove_invitation v r)"
  unfolding is_held_def by (blast intro: reached_move relay_move.Removed)

lemma reached_held: "reached env r0 r \<Longrightarrow> rget (rl_invitations r) i = Some v \<Longrightarrow> is_held v r"
  unfolding reached_def is_held_def using relay_okD(1) [of env r i v] by (simp add: held_def)

lemma live_ok: "reached env r0 r \<Longrightarrow> result_ok (reached env r0) is_held (live now i r)"
  by (auto simp: live_def reached_removed reached_held split: option.splits)

lemma miss_ok: "reached env r0 r \<Longrightarrow> result_ok (reached env r0) Q (miss now r)"
proof -
  assume r: "reached env r0 r"
  have "reached env r0 (r\<lparr>rl_windowStart := s, rl_misses := m\<rparr>)" for s :: int and m :: nat
    using reached_move [OF r Counted [where s = s and m = m and t = "rl_tokens r"]] by simp
  moreover have "reached env r0 (r\<lparr>rl_misses := m\<rparr>)" for m :: nat
    using reached_move [OF r Counted [where s = "rl_windowStart r" and m = m and t = "rl_tokens r"]] by simp
  ultimately show ?thesis by (simp add: miss_def Let_def)
qed

lemma lookup_ok: "reached env r0 r \<Longrightarrow> result_ok (reached env r0) is_held (lookup_ref now x r)"
  unfolding lookup_ref_def Let_def
  by (split option.split) (auto simp: bind_eq_Some_conv reached_held intro!: miss_ok reached_removed)

lemma is_held_put [simp]: "is_held v (put_invitation v r)"
  by (simp add: is_held_def)

lemma spend_ok:
  assumes "reached env r0 r" and "is_held v r"
  shows "result_ok (reached env r0) is_held (spend now v r)"
proof -
  have lim: "lm_used (iv_limiter v) \<le> join_requests_per_invitation"
    using assms(1,2) relay_okD(2) [of env r "iv_id v" v] unfolding reached_def is_held_def well_formed_def by blast
  have "reached env r0 (put_invitation (v\<lparr>iv_limiter := l\<rparr>) r)" if "lm_used l \<le> join_requests_per_invitation" for l
    using assms that by (intro reached_change [OF assms]) (simp_all add: inv_step.Spent)
  then show ?thesis using lim by (simp add: spend_def Let_def)
qed

lemma joined_ok: "reached env r0 r \<Longrightarrow> result_ok (reached env r0) is_held (joined now i token r)"
  unfolding joined_def
  by (rule result_ok_then [OF live_ok], assumption+, rule result_ok_then [OF spend_ok], assumption+) (auto split: option.splits)

lemma require_bytes_ok: "reached env r0 r \<Longrightarrow> result_ok (reached env r0) any_result (require_bytes b n r)"
  by (simp add: require_bytes_def)

text \<open>A call that needs the state \<open>st\<close> and then takes the invitation one step on.\<close>

lemma advance_ok:
  assumes "reached env r0 r" and "is_held v r" and "\<not> terminal st"
    and "iv_state v = st \<Longrightarrow> inv_step v w" and "\<not> terminal (iv_state w)"
  shows "result_ok (reached env r0) any_result (relay_then (require_state v st r) (\<lambda>_ r. (Inr (), put_invitation w r)))"
  using assms reached_change [OF assms(1,2), of w] by (simp add: require_state_def relay_then_def)

lemma open_states [simp]: "\<not> terminal PsOpen" "\<not> terminal PsClaimed" "\<not> terminal PsNonced" "\<not> terminal PsRevealed" "\<not> terminal PsDelivered"
  "terminal PsCompleted" "terminal PsCancelled"
  by (simp_all add: terminal_def)

text \<open>Where a call that reaches only good states ends, whatever its result.\<close>

lemma host_view_ok: "reached env r0 r \<Longrightarrow> result_ok (reached env r0) any_result (host_view now i r)"
  unfolding host_view_def by (rule result_ok_then [OF live_ok], assumption+) simp

lemma host_nonce_ok: "reached env r0 r \<Longrightarrow> result_ok (reached env r0) any_result (host_nonce now i nonce r)"
  unfolding host_nonce_def
  by (rule result_ok_then [OF require_bytes_ok], assumption+, rule result_ok_then [OF live_ok], assumption+,
      rule advance_ok, assumption+) (simp_all add: inv_step.Nonced)

lemma deliver_ok: "reached env r0 r \<Longrightarrow> result_ok (reached env r0) any_result (deliver now i c r)"
proof -
  assume r: "reached env r0 r"
  have "result_ok (reached env r0) any_result (relay_then (live now i r) (\<lambda>v r. relay_then (require_state v PsRevealed r)
      (\<lambda>_ r. (Inr (), put_invitation (v\<lparr>iv_ciphertext := Some c, iv_state := PsDelivered\<rparr>) r))))"
    by (intro result_ok_then [OF live_ok [OF r]] advance_ok) (simp_all add: inv_step.Delivered)
  then show ?thesis using r by (simp add: deliver_def split: sum.split)
qed

lemma host_cancel_ok: "reached env r0 r \<Longrightarrow> result_ok (reached env r0) any_result (host_cancel now i r)"
  unfolding host_cancel_def by (rule result_ok_then [OF live_ok], assumption+) (simp add: reached_over)

lemma joiner_view_ok: "reached env r0 r \<Longrightarrow> result_ok (reached env r0) any_result (joiner_view now i t r)"
  unfolding joiner_view_def by (rule result_ok_then [OF joined_ok], assumption+) simp

lemma reveal_ok: "reached env r0 r \<Longrightarrow> result_ok (reached env r0) any_result (reveal now i t nonce r)"
  unfolding reveal_def
  by (rule result_ok_then [OF require_bytes_ok], assumption+, rule result_ok_then [OF joined_ok], assumption+,
      rule advance_ok, assumption+) (simp_all add: inv_step.Revealed)

lemma ack_ok: "reached env r0 r \<Longrightarrow> result_ok (reached env r0) any_result (ack now i t r)"
  unfolding ack_def
  by (rule result_ok_then [OF joined_ok], assumption+) (simp add: require_state_def relay_then_def reached_over)

lemma joiner_cancel_ok: "reached env r0 r \<Longrightarrow> result_ok (reached env r0) any_result (joiner_cancel now i t r)"
  unfolding joiner_cancel_def by (rule result_ok_then [OF joined_ok], assumption+) (simp add: reached_over)

lemma reached_token: "reached env r0 r \<Longrightarrow> reached env r0 (r\<lparr>rl_tokens := t\<rparr>)"
  using reached_move [of env r0 r, OF _ Counted [where s = "rl_windowStart r" and m = "rl_misses r" and t = t]] by simp

lemma claim_ok: "reached env r0 r \<Longrightarrow> result_ok (reached env r0) any_result (claim env now x body r)"
  unfolding claim_def
proof (rule result_ok_then [OF require_bytes_ok], assumption, rule result_ok_then [OF require_bytes_ok], assumption,
    rule result_ok_then [OF lookup_ok], assumption+, rule result_ok_then [OF spend_ok], assumption+, goal_cases)
  case (1 u ra w rb v rc v' rd)
  have "reached env r0 (put_invitation (v'\<lparr>iv_joiner := Some j, iv_state := PsClaimed\<rparr>) (rd\<lparr>rl_tokens := t\<rparr>))"
    if "iv_state v' = PsOpen" "jn_key j \<noteq> None" "jn_commit j \<noteq> None" for j t
    using that 1 by (intro reached_change [OF reached_token, of env r0 rd v'] inv_step.Claimed) (simp_all add: is_held_def held_def)
  then show ?case using 1 by (simp add: Let_def split: option.split)
qed

lemma sweep_ok:
  assumes "reached env r0 r"
  shows "reached env r0 (sweep now r)"
proof -
  have "reached env r0 (fold (\<lambda>(_, v) r. if iv_expiresAt v \<le> now then remove_invitation v r else r) xs r)"
    if "reached env r0 r" "distinct (map fst xs)" "\<And>i v. (i, v) \<in> set xs \<Longrightarrow> iv_id v = i \<and> is_held v r" for xs r
    using that
  proof (induction xs arbitrary: r)
    case (Cons x xs)
    obtain i v where x: "x = (i, v)" by force
    have "reached env r0 (remove_invitation v r)" using Cons.prems by (intro reached_removed) (auto simp: x)
    moreover have "iv_id w = j \<and> is_held w (remove_invitation v r)" if "(j, w) \<in> set xs" for j w
    proof -
      have "iv_id v = i" using Cons.prems(3) [of i v] x by simp
      moreover have "iv_id w = j" "is_held w r" using Cons.prems(3) [of j w] that by simp_all
      moreover have "j \<noteq> i" using Cons.prems(2) that unfolding x by force
      ultimately show ?thesis by (simp add: is_held_def)
    qed
    moreover have "distinct (map fst xs)" using Cons.prems(2) by simp
    moreover note Cons.prems(3) [OF list.set_intros(2)]
    ultimately show ?case using Cons.prems(1) Cons.IH [of r] Cons.IH [of "remove_invitation v r"] unfolding x
      by (cases "iv_expiresAt v \<le> now") (simp_all only: fold_Cons comp_apply prod.case if_True if_False)
  qed simp
  moreover have "distinct (rkeys (rl_invitations r))" using assms(1) by (simp add: reached_def relay_ok_def)
  moreover have "iv_id v = i \<and> is_held v r" if "(i, v) \<in> set (rl_invitations r)" for i v
  proof -
    have "rget (rl_invitations r) i = Some v" using that calculation(2) by simp
    moreover from this have "iv_id v = i"
      using assms(1) relay_okD(1) unfolding reached_def held_def by blast
    ultimately show ?thesis by (simp add: is_held_def held_def)
  qed
  ultimately show ?thesis unfolding sweep_def using assms(1) by blast
qed

lemma draw_code_unused: "draw_code env used n = Some p \<Longrightarrow> rget used (fst p) = None"
proof (rule draw_code.raw_induct [where P = "\<lambda>env used n p. rget used (fst p) = None"])
qed (auto simp: Let_def split: if_splits)

lemma rl_ids_sweep [simp]: "rl_ids (sweep now r) = rl_ids r"
proof -
  have "rl_ids (fold (\<lambda>(_, v) r. if iv_expiresAt v \<le> now then remove_invitation v r else r) xs r) = rl_ids r" for xs
    by (induction xs arbitrary: r) (simp_all split: prod.split)
  then show ?thesis by (simp add: sweep_def)
qed

lemma create_ok:
  assumes "create_invitation env now k r = Some x" and "reached env r0 r" and new: "\<not> drawn_id env r (to_b64url (re_ids env (rl_ids r)))"
  shows "result_ok (reached env r0) any_result x"
proof -
  let ?s = "sweep now r"
  have s: "reached env r0 ?s" by (rule sweep_ok [OF assms(2)])
  then have d: "distinct (rkeys (rl_invitations ?s))" by (simp add: reached_def relay_ok_def)
  have "reached env r0 (put_invitation v (?s\<lparr>rl_codes := n, rl_ids := Suc (rl_ids ?s)\<rparr>)\<lparr>rl_byCode := rset (iv_code v) (iv_id v) (rl_byCode ?s)\<rparr>)"
    if "iv_state v = PsOpen" "well_formed v" "iv_id v = to_b64url (re_ids env (rl_ids ?s))" "rget (rl_byCode ?s) (iv_code v) = None"
      "card (open_ids ?s) < max_open_invitations" for v n
    using that new by (intro reached_move [OF s] relay_move.Opened) (simp_all add: drawn_id_def)
  note opened = this
  show ?thesis
  proof (cases "decode_exact k 32 \<and> card (open_ids ?s) < max_open_invitations")
    case True
    with assms(1) obtain code n where c: "draw_code env (rl_byCode ?s) (rl_codes ?s) = Some (code, n)"
      by (auto simp: create_invitation_def Let_def count_open [OF d] split: option.splits)
    let ?v = "\<lparr>iv_id = to_b64url (re_ids env (rl_ids r)), iv_code = code, iv_state = PsOpen, iv_expiresAt = now + pairing_ttl_ms, iv_hostKey = Some k,
      iv_joiner = None, iv_hostNonce = None, iv_joinerNonce = None, iv_ciphertext = None,
      iv_limiter = \<lparr>lm_tokens = 1000 * join_burst, lm_updatedAt = now, lm_used = 0\<rparr>\<rparr>"
    have "well_formed ?v" by (simp add: well_formed_def joiner_key_def joiner_commit_def)
    with True draw_code_unused [OF c] opened [of ?v n] assms(1) c show ?thesis
      by (auto simp: create_invitation_def Let_def count_open [OF d] put_invitation_def)
  next
    case False
    with assms(1,2) s show ?thesis
      by (cases "decode_exact k 32") (auto simp: create_invitation_def Let_def count_open [OF d])
  qed
qed

section \<open>Runs of the relay\<close>

datatype relay_call =
    CreateInvitation string
  | HostView string
  | HostNonce string string
  | Deliver string string
  | HostCancel string
  | Claim string claim_body
  | JoinerView string "string option"
  | Reveal string "string option" string
  | Ack string "string option"
  | JoinerCancel string "string option"

text \<open>The relay after a call at the time \<open>now\<close>, whatever the answer; \<open>None\<close> when the call does not return.\<close>

fun run_call :: "relay_env \<Rightarrow> int \<Rightarrow> relay_call \<Rightarrow> relay \<Rightarrow> relay option" where
  "run_call env now (CreateInvitation k) r = map_option snd (create_invitation env now k r)"
| "run_call env now (HostView i) r = Some (snd (host_view now i r))"
| "run_call env now (HostNonce i n) r = Some (snd (host_nonce now i n r))"
| "run_call env now (Deliver i c) r = Some (snd (deliver now i c r))"
| "run_call env now (HostCancel i) r = Some (snd (host_cancel now i r))"
| "run_call env now (Claim x b) r = Some (snd (claim env now x b r))"
| "run_call env now (JoinerView i t) r = Some (snd (joiner_view now i t r))"
| "run_call env now (Reveal i t n) r = Some (snd (reveal now i t n r))"
| "run_call env now (Ack i t) r = Some (snd (ack now i t r))"
| "run_call env now (JoinerCancel i t) r = Some (snd (joiner_cancel now i t r))"

definition next_id :: "relay_env \<Rightarrow> relay \<Rightarrow> string" where
  "next_id env r = to_b64url (re_ids env (rl_ids r))"

text \<open>Any calls by anybody in any order at any times, while no identifier of sixteen random bytes is drawn twice.\<close>

inductive relay_run :: "relay_env \<Rightarrow> relay \<Rightarrow> relay \<Rightarrow> bool" for env r where
  Start: "relay_run env r r"
| Call: "relay_run env r r' \<Longrightarrow> run_call env now c r' = Some r'' \<Longrightarrow> \<not> drawn_id env r' (next_id env r') \<Longrightarrow> relay_run env r r''"

lemma run_call_reached:
  assumes "run_call env now c r = Some r'" and "relay_ok env r" and "\<not> drawn_id env r (next_id env r)"
  shows "reached env r r'"
proof -
  have r: "reached env r r" using assms(2) by (simp add: reached_def)
  note oks = host_view_ok host_nonce_ok deliver_ok host_cancel_ok claim_ok joiner_view_ok reveal_ok ack_ok joiner_cancel_ok
  note oks [OF r]
  then show ?thesis using assms(1,3) create_ok [OF _ r] unfolding result_ok_def next_id_def by (cases c) auto
qed

lemma relay_run_reached: "relay_run env r r' \<Longrightarrow> relay_ok env r \<Longrightarrow> reached env r r'"
proof (induction rule: relay_run.induct)
  case (Call r' now c r'')
  then have "reached env r r'" by simp
  moreover from this have "reached env r' r''" using run_call_reached [OF Call(2) _ Call(3)] by (simp add: reached_def)
  ultimately show ?case by (auto simp: reached_def)
qed (simp add: reached_def)

lemma new_relay_ok: "relay_ok env new_relay"
  by (simp add: relay_ok_def new_relay_def held_def open_ids_def)

section \<open>Without the token\<close>

lemma token_matches_eq: "token_matches a b \<longleftrightarrow> a = b"
  by (simp add: token_matches_def constant_time_equal_eq)

definition has_token :: "invitation \<Rightarrow> string option \<Rightarrow> bool" where
  "has_token v t \<longleftrightarrow> (\<exists>j. iv_joiner v = Some j \<and> t = Some (jn_token j))"

text \<open>A refused call leaves everything but the budget of the invitation alone.\<close>

definition refused :: "invitation \<Rightarrow> relay \<Rightarrow> 'a relay_result \<Rightarrow> bool" where
  "refused v r x \<longleftrightarrow>
     (case x of
        (Inr _, _) \<Rightarrow> False
      | (Inl _, r') \<Rightarrow> r' = r \<or> (\<exists>l. r' = put_invitation (v\<lparr>iv_limiter := l\<rparr>) r))"

lemma refused_then: "refused v r x \<Longrightarrow> refused v r (relay_then x f)"
  by (auto simp: refused_def relay_then_def split: sum.splits prod.splits)

lemma joined_refused:
  assumes "held r i = Some v" and "now < iv_expiresAt v" and "\<not> has_token v t"
  shows "refused v r (joined now i t r)"
proof -
  have "live now i r = (Inr v, r)" using assms(1,2) by (simp add: live_def held_def)
  moreover have "iv_joiner (v\<lparr>iv_limiter := l\<rparr>) = iv_joiner v" for l by simp
  ultimately show ?thesis using assms(3)
    by (auto simp: joined_def relay_then_def refused_def spend_def Let_def has_token_def token_matches_eq split: option.split)
qed

section \<open>A pairing, call by call\<close>

definition demo_env :: relay_env where
  "demo_env = \<lparr>re_codes = \<lambda>n. replicate 5 (word_of_nat n), re_ids = \<lambda>n. replicate 15 0 @ [word_of_nat n], re_tokens = \<lambda>n. replicate 32 (word_of_nat n),
     re_other = \<lambda>c. False\<rparr>"

definition demo_bytes :: "nat \<Rightarrow> nat \<Rightarrow> string" where
  "demo_bytes n x = to_b64url (replicate n (word_of_nat x))"

definition demo_id :: string where "demo_id = to_b64url (replicate 16 0)"

definition demo_call :: "int \<Rightarrow> relay_call \<Rightarrow> relay \<Rightarrow> relay" where
  "demo_call now c r = the (run_call demo_env now c r)"

lemma demo_draw: "draw_code demo_env [] 0 = Some (''00000000'', 1)"
proof -
  have "replicate 5 (0 :: byte) = [0, 0, 0, 0, 0]" by (simp add: numeral_eq_Suc)
  then show ?thesis
    by (subst draw_code.simps) (simp add: demo_env_def invitation_code_def code_bits_def invitation_code_length_def crockford_def upt_rec)
qed

definition demo_open :: relay where
  "demo_open = \<lparr>rl_invitations = [(demo_id,
      \<lparr>iv_id = demo_id, iv_code = ''00000000'', iv_state = PsOpen, iv_expiresAt = 10 + pairing_ttl_ms, iv_hostKey = Some (demo_bytes 32 1),
        iv_joiner = None, iv_hostNonce = None, iv_joinerNonce = None, iv_ciphertext = None,
        iv_limiter = \<lparr>lm_tokens = 1000 * join_burst, lm_updatedAt = 10, lm_used = 0\<rparr>\<rparr>)],
     rl_byCode = [(''00000000'', demo_id)], rl_windowStart = 0, rl_misses = 0, rl_codes = 1, rl_ids = 1, rl_tokens = 0\<rparr>"

lemma demo_key: "decode_exact (demo_bytes 32 n) 32"
  by (simp add: decode_exact_def demo_bytes_def)

lemma demo_opened: "run_call demo_env 10 (CreateInvitation (demo_bytes 32 1)) new_relay = Some demo_open"
proof -
  have "to_b64url (re_ids demo_env 0) = demo_id" by (simp add: demo_env_def demo_id_def replicate_append_same numeral_eq_Suc)
  then show ?thesis by (simp add: create_invitation_def demo_key sweep_def new_relay_def Let_def demo_draw put_invitation_def demo_open_def
    max_open_invitations_def)
qed

definition demo_claimed :: relay where
  "demo_claimed = demo_call 20 (Claim demo_id \<lparr>cb_joinerKey = demo_bytes 32 2, cb_commit = demo_bytes 32 3, cb_deviceName = ''phone''\<rparr>) demo_open"

definition demo_nonced :: relay where
  "demo_nonced = demo_call 30 (HostNonce demo_id (demo_bytes 16 4)) demo_claimed"

definition demo_ended :: relay where
  "demo_ended = demo_call 40 (JoinerCancel demo_id (Some (demo_bytes 32 0))) demo_nonced"

lemma demo_run:
  "relay_run demo_env new_relay demo_claimed" "relay_run demo_env demo_claimed demo_ended"
proof -
  have n: "\<not> drawn_id demo_env r (next_id demo_env r)" if "rl_ids r \<le> 1" for r
  proof -
    have "next_id demo_env r \<noteq> to_b64url (re_ids demo_env n)" if "n < rl_ids r" for n
    proof -
      from that \<open>rl_ids r \<le> 1\<close> have "n = 0" "rl_ids r = 1" by simp_all
      moreover have "to_b64url (re_ids demo_env 1) \<noteq> to_b64url (re_ids demo_env 0)" by code_simp
      ultimately show ?thesis by (simp add: next_id_def)
    qed
    then show ?thesis by (auto simp: drawn_id_def)
  qed
  have step: "relay_run demo_env a c" if "relay_run demo_env a b" "run_call demo_env t x b \<noteq> None" "rl_ids b \<le> 1" "c = demo_call t x b" for a b c t x
    using relay_run.Call [OF that(1) _ n [OF that(3)], of t x c] that(2,4) by (auto simp: demo_call_def)
  have "relay_run demo_env new_relay demo_open"
    using relay_run.Call [OF Start demo_opened n] by (simp add: new_relay_def)
  then show "relay_run demo_env new_relay demo_claimed"
    by (rule step [OF _ _ _ demo_claimed_def]) (simp_all add: demo_open_def)
  show "relay_run demo_env demo_claimed demo_ended"
    by (rule step [OF step [OF Start _ _ demo_nonced_def] _ _ demo_ended_def]) (simp, code_simp, simp, code_simp)
qed

section \<open>What the relay promises\<close>

text \<open>
  C31: whatever is called, in any order and at any time, the relay stays consistent: every record it
  holds carries exactly the keys, nonces and ciphertext of its state - an ended one none of them -,
  the codes lead to the open invitations and to nothing else, and at most four are open.
\<close>

theorem relay_stays_consistent:
  assumes "relay_run env new_relay r"
  shows "relay_ok env r"
  using relay_run_reached [OF assms new_relay_ok] by (simp add: reached_def)

theorem relay_stays_consistent_witness: "relay_ok demo_env demo_claimed \<and> held demo_claimed demo_id \<noteq> None"
proof
  show "held demo_claimed demo_id \<noteq> None" by code_simp
qed (rule relay_stays_consistent [OF demo_run(1)])

text \<open>
  C30: once a key, a commitment, a nonce or the ciphertext of an invitation is on the relay, no later
  call replaces it: the invitation still has that very value, or it has ended and the value is
  wiped, or it is gone; and its state never goes back. This is what makes the comparison of the six digits
  mean something.
\<close>

theorem relay_values_pinned:
  assumes "relay_run env new_relay r" and "relay_run env r r'" and "held r i = Some v" and "held r' i = Some w"
  shows "pinned v w \<and> well_formed w"
proof -
  have r: "relay_ok env r" using relay_run_reached [OF assms(1) new_relay_ok] by (simp add: reached_def)
  then have "follows (held r i) (held r' i)"
    using relay_moves_keep [of env r r' i] relay_run_reached [OF assms(2) r] relay_okD(3) [OF r assms(3)] by (simp add: reached_def)
  then have "inv_steps v w" using assms(3,4) by (simp add: follows_def)
  then show ?thesis using inv_steps_keep relay_okD(2) [OF r assms(3)] by blast
qed

theorem relay_values_pinned_witness:
  "pinned (the (held demo_claimed demo_id)) (the (held demo_ended demo_id)) \<and> joiner_key (the (held demo_claimed demo_id)) \<noteq> None"
proof -
  have "held demo_claimed demo_id = Some (the (held demo_claimed demo_id))" "held demo_ended demo_id = Some (the (held demo_ended demo_id))"
    "joiner_key (the (held demo_claimed demo_id)) \<noteq> None" by code_simp+
  then show ?thesis using relay_values_pinned [OF demo_run, of demo_id "the (held demo_claimed demo_id)" "the (held demo_ended demo_id)"] by blast
qed

text \<open>
  On an invitation that is still alive, none of the four calls of the joiner gets anything or does
  anything without the token that the claim handed out: each is refused, and changes nothing of the relay but the
  request budget of that invitation.
\<close>

theorem joiner_needs_token:
  assumes "held r i = Some v" and "now < iv_expiresAt v" and "\<not> has_token v t"
  shows "refused v r (joiner_view now i t r) \<and> refused v r (reveal now i t nonce r) \<and> refused v r (ack now i t r) \<and> refused v r (joiner_cancel now i t r)"
proof -
  note j = refused_then [OF joined_refused [OF assms]]
  have "refused v r (reveal now i t nonce r)"
  proof (cases "decode_exact nonce 16")
    case True
    then have "reveal now i t nonce r = relay_then (joined now i t r) (\<lambda>v r. relay_then (require_state v PsNonced r)
        (\<lambda>_ r. (Inr (), put_invitation (v\<lparr>iv_joinerNonce := Some nonce, iv_state := PsRevealed\<rparr>) r)))"
      by (simp add: reveal_def require_bytes_def relay_then_def)
    with j show ?thesis by simp
  next
    case False
    then show ?thesis by (simp add: reveal_def require_bytes_def relay_then_def refused_def)
  qed
  then show ?thesis by (simp add: joiner_view_def ack_def joiner_cancel_def refused_then [OF joined_refused [OF assms]])
qed

theorem joiner_needs_token_witness:
  "refused (the (held demo_claimed demo_id)) demo_claimed (joiner_view 30 demo_id (Some ''guess'') demo_claimed)"
proof -
  have "held demo_claimed demo_id = Some (the (held demo_claimed demo_id))" "30 < iv_expiresAt (the (held demo_claimed demo_id))" by code_simp+
  moreover have "\<not> has_token (the (held demo_claimed demo_id)) (Some ''guess'')"
  proof -
    have "map_option jn_token (iv_joiner (the (held demo_claimed demo_id))) \<noteq> Some ''guess''" by code_simp
    then show ?thesis by (auto simp: has_token_def)
  qed
  ultimately show ?thesis using joiner_needs_token by blast
qed

end
