(* ===== verification/PairingHonest.thy ===== *)
theory PairingHonest
  imports PairingSession RelayProps
begin

text \<open>
  A whole pairing: both devices and the relay of the server, every request answered. The phrase arrives.
\<close>

section \<open>The payload\<close>

lemma length_quote_json: "length (quote_json s) \<le> 6 * length s + 2"
proof -
  have "length (escape_char c) \<le> 6" for c by (simp add: escape_char_def Let_def)
  then have "length (concat (map escape_char s)) \<le> 6 * length s"
  proof (induction s)
    case (Cons c s)
    then have "length (escape_char c) \<le> 6" "length (concat (map escape_char s)) \<le> 6 * length s" by blast+
    then show ?case by simp
  qed simp
  then show ?thesis by (simp add: quote_json_def)
qed

lemma payload_opens:
  assumes "gcm_lawful (pe_gcm env)" and "length iv = iv_bytes" and "ascii m" and "ascii u" and "pe_phrase_ok env m" and "length m + length u \<le> 600"
    and c_def: "c = seal_pairing_payload env key iv \<lparr>pp_mnemonic = m, pp_serverUrl = u\<rparr>"
  shows "open_pairing_payload env key c = Inr \<lparr>pp_mnemonic = m, pp_serverUrl = u\<rparr>" "c \<noteq> []" "length c \<le> max_ciphertext_bytes"
proof -
  let ?kvs = "[(''v'', JNum 1000), (''mnemonic'', JStr m), (''serverUrl'', JStr u)]"
  let ?s = "stringify (JObj ?kvs)"
  have one: "show_num 1000 = ''1''" by code_simp
  have keys: "quote_json ''v'' = dquote # ''v'' @ [dquote]" "quote_json ''mnemonic'' = dquote # ''mnemonic'' @ [dquote]"
    "quote_json ''serverUrl'' = dquote # ''serverUrl'' @ [dquote]" by code_simp+
  have s: "?s = ''{'' @ dquote # ''v'' @ dquote # '':1,'' @ dquote # ''mnemonic'' @ dquote # '':'' @ quote_json m @ '','' @ dquote # ''serverUrl'' @ dquote # '':'' @ quote_json u @ ''}''"
    unfolding stringify_def by (simp add: one keys)
  have "ascii ?s" unfolding s using assms(3,4) by (simp add: ascii_quote dquote_def)
  then have decoded: "decode_text (utf8_encode ?s) = Some ?s" by (rule decode_ascii)
  have size: "length (utf8_encode ?s) \<le> 6 * (length m + length u) + 100"
    using length_quote_json [of m] length_quote_json [of u] unfolding s utf8_encode_def by simp
  have c: "c = encrypt (pe_gcm env) key iv (utf8_encode ?s)" by (simp add: c_def seal_pairing_payload_def)
  have "decrypt (pe_gcm env) key c = Inr (utf8_encode ?s)" unfolding c by (rule decrypt_encrypt [OF assms(1,2)])
  moreover have "js_object ?kvs = ?kvs" by code_simp
  ultimately show "open_pairing_payload env key c = Inr \<lparr>pp_mnemonic = m, pp_serverUrl = u\<rparr>"
    using decoded assms(5) by (simp add: open_pairing_payload_def)
  have "length c = length (utf8_encode ?s) + 28" unfolding c using assms(1,2) by (simp add: encrypt_def gcm_lawful_def iv_bytes_def)
  then show "c \<noteq> []" "length c \<le> max_ciphertext_bytes" using size assms(6) by (auto simp: max_ciphertext_bytes_def)
qed

section \<open>The session\<close>

text \<open>
  The host opens an invitation, the joiner claims it by its code or its identifier, each polls when there
  is something to see, both owners say that the digits match. \<open>tm\<close> are the relay's clock readings.
\<close>

definition session_digits :: "pairing_env \<Rightarrow> pairing_env \<Rightarrow> host_options \<Rightarrow> join_options \<Rightarrow> relay_env \<Rightarrow> (nat \<Rightarrow> int) \<Rightarrow> relay \<Rightarrow> host_world \<times> join_world \<times> relay" where
  "session_digits env jenv op jp renv tm r =
     (let (w, r) = (host_turn env op renv (tm 0) ^^ 2) (snd (host_call env op CallStart new_host_world), r);
          (j, r) = join_turn jenv renv (tm 1) (snd (join_call jenv jp CallJoin new_join_world), r);
          (w, r) = (host_turn env op renv (tm 2) ^^ 3) (w, r);
          (j, r) = (join_turn jenv renv (tm 3) ^^ 3) (j, r);
          (w, r) = (host_turn env op renv (tm 4) ^^ 2) (w, r)
      in (w, j, r))"

definition session_phrase :: "pairing_env \<Rightarrow> pairing_env \<Rightarrow> host_options \<Rightarrow> join_options \<Rightarrow> relay_env \<Rightarrow> (nat \<Rightarrow> int) \<Rightarrow> host_world \<times> join_world \<times> relay \<Rightarrow> host_world \<times> join_world" where
  "session_phrase env jenv op jp renv tm = (\<lambda>(w, j, r).
     (let (w, r) = host_turn env op renv (tm 5) (snd (host_call env op CallConfirm w), r);
          (j, r) = (join_turn jenv renv (tm 6) ^^ 3) (snd (join_call jenv jp CallMatch j), r);
          (w, r) = (host_turn env op renv (tm 7) ^^ 2) (w, r)
      in (w, j)))"

definition pairing_session :: "pairing_env \<Rightarrow> pairing_env \<Rightarrow> host_options \<Rightarrow> join_options \<Rightarrow> relay_env \<Rightarrow> (nat \<Rightarrow> int) \<Rightarrow> relay \<Rightarrow> host_world \<times> join_world" where
  "pairing_session env jenv op jp renv tm r = session_phrase env jenv op jp renv tm (session_digits env jenv op jp renv tm r)"

text \<open>It is one of the runs of either device.\<close>

lemma host_turn_runs: "host_runs env op calm w \<Longrightarrow> host_runs env op calm (fst (host_turn env op renv now (w, r)))"
  by (auto simp: host_turn_def intro: host_runs.resumed split: list.splits host_entry.splits prod.splits)

lemma host_turns_run: "host_runs env op calm (fst x) \<Longrightarrow> host_runs env op calm (fst ((host_turn env op renv now ^^ n) x))"
proof (induction n)
  case (Suc n)
  then show ?case using host_turn_runs [of env op calm "fst ((host_turn env op renv now ^^ n) x)"] by (metis funpow.simps(2) o_apply prod.collapse)
qed simp

lemma join_turn_runs: "join_runs env op once w \<Longrightarrow> join_runs env op once (fst (join_turn env renv now (w, r)))"
  by (auto simp: join_turn_def intro: join_runs.resumed split: list.splits join_entry.splits prod.splits)

lemma join_turns_run: "join_runs env op once (fst x) \<Longrightarrow> join_runs env op once (fst ((join_turn env renv now ^^ n) x))"
proof (induction n)
  case (Suc n)
  then show ?case using join_turn_runs [of env op once "fst ((join_turn env renv now ^^ n) x)"] by (metis funpow.simps(2) o_apply prod.collapse)
qed simp

lemma session_runs:
  assumes "pairing_session env jenv op jp renv tm r = (w, j)"
  shows "host_runs env op calm_start w" "join_runs jenv jp join_once j"
proof -
  obtain w0 r0 where w0: "(host_turn env op renv (tm 0) ^^ 2) (snd (host_call env op CallStart new_host_world), r) = (w0, r0)" by fastforce
  obtain j1 r1 where j1: "join_turn jenv renv (tm 1) (snd (join_call jenv jp CallJoin new_join_world), r0) = (j1, r1)" by fastforce
  obtain w2 r2 where w2: "(host_turn env op renv (tm 2) ^^ 3) (w0, r1) = (w2, r2)" by fastforce
  obtain j3 r3 where j3: "(join_turn jenv renv (tm 3) ^^ 3) (j1, r2) = (j3, r3)" by fastforce
  obtain w4 r4 where w4: "(host_turn env op renv (tm 4) ^^ 2) (w2, r3) = (w4, r4)" by fastforce
  obtain w5 r5 where w5: "host_turn env op renv (tm 5) (snd (host_call env op CallConfirm w4), r4) = (w5, r5)" by fastforce
  obtain j6 r6 where j6: "(join_turn jenv renv (tm 6) ^^ 3) (snd (join_call jenv jp CallMatch j3), r5) = (j6, r6)" by fastforce
  obtain w7 r7 where w7: "(host_turn env op renv (tm 7) ^^ 2) (w5, r6) = (w7, r7)" by fastforce
  have ends: "w = w7" "j = j6" using assms 
    by (simp_all add: pairing_session_def session_digits_def session_phrase_def w0 j1 w2 j3 w4 w5 j6 w7 del: One_nat_def)
  note turns = host_turns_run [of env op calm_start] and turn = host_turn_runs [of env op calm_start]
  have "host_runs env op calm_start (snd (host_call env op CallStart new_host_world))"
    by (rule host_runs.called [OF host_runs.fresh]) (simp add: calm_start_def new_host_world_def)
  then have "host_runs env op calm_start w0" using turns w0 by (metis fst_conv)
  then have "host_runs env op calm_start w2" using turns w2 by (metis fst_conv)
  then have "host_runs env op calm_start w4" using turns w4 by (metis fst_conv)
  then have "host_runs env op calm_start (snd (host_call env op CallConfirm w4))" by (rule host_runs.called) (simp add: calm_start_def)
  then have "host_runs env op calm_start w5" using turn w5 by (metis fst_conv)
  then show "host_runs env op calm_start w" using turns w7 ends(1) by (metis fst_conv)
  note turns = join_turns_run [of jenv jp join_once] and turn = join_turn_runs [of jenv jp join_once]
  have "join_runs jenv jp join_once (snd (join_call jenv jp CallJoin new_join_world))"
    by (rule join_runs.called [OF join_runs.fresh]) (simp add: join_once_def new_join_world_def new_joiner_def)
  then have "join_runs jenv jp join_once j1" using turn j1 by (metis fst_conv)
  then have "join_runs jenv jp join_once j3" using turns j3 by (metis fst_conv)
  then have "join_runs jenv jp join_once (snd (join_call jenv jp CallMatch j3))" by (rule join_runs.called) (simp add: join_once_def)
  then show "join_runs jenv jp join_once j" using turns j6 ends(2) by (metis fst_conv)
qed

text \<open>What the joiner types or scans.\<close>

definition names :: "string \<Rightarrow> created \<Rightarrow> bool" where
  "names ref c \<longleftrightarrow> ref = cr_id c \<or> ref = cr_code c \<or> ref = format_invitation_code (cr_code c)"

lemma named_ref:
  assumes "relay_opened now hk c v r" and "names (jp_ref jp) c" and "is_invitation_id (cr_id c)"
  obtains ref where "join_ref jp = Some ref" "ref_wire ref"
    "is_invitation_id ref \<and> ref = cr_id c \<or> \<not> is_invitation_id ref
      \<and> rget (rl_byCode r) (case normalize_invitation_code ref of None \<Rightarrow> [] | Some k \<Rightarrow> k) = Some (cr_id c)"
proof -
  obtain b where b: "cr_code c = invitation_code b" using assms(1) by (auto simp: relay_opened_def)
  have code: "list_all (\<lambda>x. x \<in> set crockford) (cr_code c)" "length (cr_code c) = invitation_code_length"
    using invitation_code_spelled [of b] by (simp_all add: b)
  have "length (format_invitation_code (cr_code c)) = 9" using code(2) by (simp add: format_invitation_code_def invitation_code_length_def)
  then have no: "\<not> is_invitation_id (cr_code c)" "\<not> is_invitation_id (format_invitation_code (cr_code c))"
    using code(2) by (auto simp: is_invitation_id_def b64url_length_def pairing_id_bytes_def invitation_code_length_def)
  show ?thesis
  proof (cases "jp_ref jp = cr_id c")
    case True
    then show ?thesis using assms(3) by (intro that [of "cr_id c"]) (simp_all add: join_ref_def ref_of_id)
  next
    case False
    then have "join_ref jp = Some (cr_code c)"
      using assms(2) no normalize_spelled [OF code] by (auto simp: names_def join_ref_def)
    moreover have "ref_wire (cr_code c)" using code(2) by (simp add: ref_wire_def invitation_code_length_def)
    moreover have "rget (rl_byCode r) (cr_code c) = Some (cr_id c)" using assms(1) by (simp add: relay_opened_def)
    ultimately show ?thesis using no(1) normalize_spelled(2) [OF code] by (intro that [of "cr_code c"]) simp_all
  qed
qed

section \<open>Up to the digits\<close>

lemma relay_budget_same: "relay_budget n now v \<Longrightarrow> iv_limiter v' = iv_limiter v \<Longrightarrow> relay_budget n now v'"
  by (simp add: relay_budget_def)

text \<open>Both wait with the digits on their screens.\<close>

definition digits_shown :: "pairing_env \<Rightarrow> pairing_env \<Rightarrow> string \<Rightarrow> int \<Rightarrow> int \<Rightarrow> host_world \<times> join_world \<times> relay \<Rightarrow> bool" where
  "digits_shown env jenv i now ends x \<longleftrightarrow>
     (case x of (w, j, r) \<Rightarrow> \<exists>h y v sas t a.
        host_paused w i h \<and> ho_aborted h = [] \<and> ho_phase h = HpCompare \<and> ho_sas h = Some sas \<and> invitation_id h = Some i
      \<and> ho_keys h = Some (pe_secrets env 0, pe_public env (pe_secrets env 0)) \<and> (\<exists>jc. ho_joiner h = Some (pe_public env (pe_secrets jenv 0), jc))
      \<and> join_paused j (own_run jenv i (pe_public env (pe_secrets env 0)) (Some (pe_nonces env 0))) y
      \<and> jo_aborted y = [] \<and> jo_token y = Some t \<and> jo_phase y = JpCompare \<and> jo_sas y = Some sas
      \<and> alive now i v r \<and> iv_state v = PsRevealed \<and> iv_joiner v = Some a \<and> jn_token a = t \<and> iv_hostNonce v = Some (to_b64url (pe_nonces env 0))
      \<and> iv_expiresAt v = ends \<and> relay_budget 5 now v)"

definition other_device :: "pairing_env \<Rightarrow> (nat \<Rightarrow> bytes) \<Rightarrow> (nat \<Rightarrow> bytes) \<Rightarrow> pairing_env" where
  "other_device env s n = env\<lparr>pe_secrets := s, pe_nonces := n\<rparr>"

lemma other_device_fields [simp]:
  "pe_sha256 (other_device env s n) = pe_sha256 env" "pe_hkdf (other_device env s n) = pe_hkdf env" "pe_public (other_device env s n) = pe_public env"
  "pe_shared (other_device env s n) = pe_shared env" "pe_gcm (other_device env s n) = pe_gcm env" "pe_phrase_ok (other_device env s n) = pe_phrase_ok env"
  "pe_secrets (other_device env s n) = s" "pe_nonces (other_device env s n) = n"
  by (simp_all add: other_device_def)

lemma other_device_same [simp]:
  "pairing_commit (other_device env s n) = pairing_commit env" "derive_pairing_sas (other_device env s n) = derive_pairing_sas env"
  "derive_pairing_key (other_device env s n) = derive_pairing_key env" "open_pairing_payload (other_device env s n) = open_pairing_payload env"
  unfolding fun_eq_iff pairing_commit_def derive_pairing_sas_def derive_pairing_key_def open_pairing_payload_def other_device_fields by simp_all

text \<open>The invitation is claimed.\<close>

lemma session_claims:
  fixes tm :: "nat \<Rightarrow> int"
  assumes "pairing_lawful env" and "length jk = 32" and jk: "jk = pe_public jenv (pe_secrets jenv 0)"
    and "length jc = 32" and "pairing_commit jenv (pe_nonces jenv 0) jk = Inr jc"
    and "serve renv (tm 0) (RqCreate (to_b64url (pe_public env (pe_secrets env 0)))) r = (RpCreated c, r0)"
    and "invitation_qr (pe_url env) (hp_server op) (cr_id c) = Inr qr" and "names (jp_ref jp) c"
    and "length (jp_deviceName jp) \<le> max_device_name_length" and "tm 0 \<le> tm 1" and "tm 1 < tm 0 + pairing_ttl_ms"
  obtains h y w j r1 v t name where
    "(host_turn env op renv (tm 0) ^^ 2) (snd (host_call env op CallStart new_host_world), r) = (w, r0)"
    "join_turn jenv renv (tm 1) (snd (join_call jenv jp CallJoin new_join_world), r0) = (j, r1)"
    "host_paused w (cr_id c) h" "ho_aborted h = []" "ho_nonces h = 0" "ho_hostNonce h = None" "invitation_id h = Some (cr_id c)"
    "ho_keys h = Some (pe_secrets env 0, pe_public env (pe_secrets env 0))"
    "join_paused j (own_run jenv (cr_id c) (pe_public env (pe_secrets env 0)) None) y" "jo_aborted y = []" "jo_token y = Some t" "jo_sas y = None"
    "alive (tm 1) (cr_id c) v r1" "iv_state v = PsClaimed" "relay_budget 7 (tm 1) v" "iv_expiresAt v = tm 0 + pairing_ttl_ms"
    "iv_joiner v = Some \<lparr>jn_key = Some (to_b64url jk), jn_commit = Some (to_b64url jc), jn_deviceName = name, jn_token = t\<rparr>"
proof -
  let ?pub = "pe_public env (pe_secrets env 0)" and ?i = "cr_id c"
  define h where "h = new_host\<lparr>ho_runs := 1, ho_run := Some 0, ho_keys := Some (pe_secrets env 0, ?pub),
       ho_invitation := Some (?i, cr_code c, qr), ho_ttl := cr_ttl c, ho_phase := HpWaiting\<rparr>"
  have f: "ho_aborted h = []" "ho_nonces h = 0" "ho_hostNonce h = None" "invitation_id h = Some ?i" "ho_keys h = Some (pe_secrets env 0, ?pub)"
    by (simp_all add: h_def new_host_def invitation_id_def)
  have id: "is_invitation_id ?i" using assms(7) by (auto simp: invitation_qr_def split: option.splits if_splits)
  obtain v0 where v0: "relay_opened (tm 0) (to_b64url ?pub) c v0 r0" by (rule served_created [OF assms(6)])
  obtain w where w: "(host_turn env op renv (tm 0) ^^ 2) (snd (host_call env op CallStart new_host_world), r) = (w, r0)" and hw: "host_paused w ?i h"
    using host_opens [OF assms(6,7)] unfolding h_def by blast
  obtain ref where r': "join_ref jp = Some ref" "ref_wire ref" "is_invitation_id ref \<and> ref = ?i \<or> \<not> is_invitation_id ref
      \<and> rget (rl_byCode r0) (case normalize_invitation_code ref of None \<Rightarrow> [] | Some k \<Rightarrow> k) = Some ?i"
    by (rule named_ref [OF v0 assms(8) id])
  let ?b = "\<lparr>cb_joinerKey = to_b64url jk, cb_commit = to_b64url jc, cb_deviceName = jp_deviceName jp\<rparr>"
  have a0: "alive (tm 1) ?i v0 r0" "relay_budget (Suc 7) (tm 1) v0" "iv_expiresAt v0 = tm 0 + pairing_ttl_ms" "iv_state v0 = PsOpen" "iv_hostKey v0 = Some (to_b64url ?pub)"
    using v0 assms(10,11) by (auto simp: relay_opened_def alive_def relay_budget_def)
  have b: "claim_wire ?b" "decode_exact (cb_joinerKey ?b) 32" "decode_exact (cb_commit ?b) 32"
    using assms(2,4,9) by (simp_all add: claim_wire_def written_wire)
  obtain l t r1 where c1: "serve renv (tm 1) (RqClaim ref ?b) r0 = (RpClaimed \<lparr>cl_id = ?i, cl_hostKey = to_b64url ?pub, cl_token = t, cl_ttl = ttl (tm 1) v0\<rparr>, r1)"
    and a1: "alive (tm 1) ?i (v0\<lparr>iv_limiter := l, iv_joiner := Some \<lparr>jn_key = Some (cb_joinerKey ?b), jn_commit = Some (cb_commit ?b),
        jn_deviceName = clean_device_name renv (cb_deviceName ?b), jn_token = t\<rparr>, iv_state := PsClaimed\<rparr>) r1"
    and b1: "relay_budget 7 (tm 1) (v0\<lparr>iv_limiter := l\<rparr>)"
    by (rule serve_claim [OF a0(1) r'(2) b r'(3) a0(2,4,5)])
  obtain j where j: "join_turn jenv renv (tm 1) (snd (join_call jenv jp CallJoin new_join_world), r0) = (j, r1)"
    and y: "join_paused j (own_run jenv ?i ?pub None) (new_joiner\<lparr>jo_runs := 1, jo_run := Some 0, jo_id := Some ?i, jo_token := Some t,
       jo_ttl := ttl (tm 1) v0, jo_phase := JpWaiting\<rparr>)"
    by (rule join_claims [where env = jenv and jc = jc and hk = ?pub and t = t and i = ?i, OF r'(1)]) (use assms(5) c1 in \<open>simp_all add: jk\<close>)
  show ?thesis
    by (rule that [OF w j hw f y _ _ _ a1]) (use a0(3) relay_budget_same [OF b1] in \<open>simp_all add: new_joiner_def\<close>)
qed

lemma session_shows_digits:
  assumes "pairing_lawful env" and "pairing_lawful jenv" and jenv: "jenv = other_device env s n"
    and "serve renv (tm 0) (RqCreate (to_b64url (pe_public env (pe_secrets env 0)))) r = (RpCreated c, r0)"
    and "invitation_qr (pe_url env) (hp_server op) (cr_id c) = Inr qr" and "names (jp_ref jp) c"
    and "length (jp_deviceName jp) \<le> max_device_name_length"
    and "mono tm" and "tm 4 < tm 0 + pairing_ttl_ms"
  shows "digits_shown env jenv (cr_id c) (tm 4) (tm 0 + pairing_ttl_ms) (session_digits env jenv op jp renv tm r)"
proof -
  let ?pub = "pe_public env (pe_secrets env 0)" and ?i = "cr_id c" and ?jk = "pe_public env (s 0)" and ?hn = "pe_nonces env 0"
  let ?jc = "pe_sha256 env (n 0 @ ?jk)" and ?x = "tm 0 + pairing_ttl_ms"
  have len: "length ?pub = 32" "length ?jk = 32" "length (n 0) = 16" "length ?hn = 16" "length ?jc = 32"
    using assms(1) lawful_lengths(1,2) [OF assms(2), of 0] by (simp_all add: jenv)
  have commit: "pairing_commit env (n 0) ?jk = Inr ?jc" by (rule lawful_commit [OF len(2,3)])
  obtain sas where sas: "derive_pairing_sas env ?i ?pub ?jk ?hn (n 0) = Inr sas" by (rule lawful_digits [OF len(1,2,4,3)])
  have tm: "tm 0 \<le> tm 1" "tm 1 \<le> tm 2" "tm 2 \<le> tm 3" "tm 3 \<le> tm 4" using assms(8) by (simp_all add: mono_def)
  have ref: "ref_wire ?i" using assms(5) by (intro ref_of_id) (auto simp: invitation_qr_def split: option.splits if_splits)
  obtain h0 y w0 j1 r1 v1 t name where
    w0: "(host_turn env op renv (tm 0) ^^ 2) (snd (host_call env op CallStart new_host_world), r) = (w0, r0)" and
    j1: "join_turn jenv renv (tm 1) (snd (join_call jenv jp CallJoin new_join_world), r0) = (j1, r1)" and
    h0: "host_paused w0 ?i h0" and f0: "ho_aborted h0 = []" "ho_nonces h0 = 0" "ho_hostNonce h0 = None" "invitation_id h0 = Some ?i"
      "ho_keys h0 = Some (pe_secrets env 0, ?pub)" and
    y: "join_paused j1 (own_run jenv ?i ?pub None) y" "jo_aborted y = []" "jo_token y = Some t" "jo_sas y = None" and
    v1: "alive (tm 1) ?i v1 r1" "iv_state v1 = PsClaimed" "relay_budget 7 (tm 1) v1" "iv_expiresAt v1 = ?x"
      "iv_joiner v1 = Some \<lparr>jn_key = Some (to_b64url ?jk), jn_commit = Some (to_b64url ?jc), jn_deviceName = name, jn_token = t\<rparr>"
    by (rule session_claims [where tm = tm and env = env and jenv = jenv and jk = ?jk and jc = ?jc, OF assms(1) len(2) _ len(5) _ assms(4-7)])
       (use commit tm assms(9) in \<open>auto simp: jenv\<close>)
  have a2: "alive (tm 2) ?i v1 r1" using v1(1,4) assms(9) tm by (auto simp: alive_def)
  let ?j = "\<lparr>jn_key = Some (to_b64url ?jk), jn_commit = Some (to_b64url ?jc), jn_deviceName = name, jn_token = t\<rparr>"
  let ?v2 = "v1\<lparr>iv_hostNonce := Some (to_b64url ?hn), iv_state := PsNonced\<rparr>"
  define h2 where "h2 = h0\<lparr>ho_ttl := ttl (tm 2) v1, ho_joiner := Some (?jk, ?jc), ho_deviceName := Some name,
       ho_nonces := Suc (ho_nonces h0), ho_hostNonce := Some (pe_nonces env (ho_nonces h0)), ho_phase := HpConnecting\<rparr>"
  have f2: "ho_aborted h2 = []" "ho_hostNonce h2 = Some ?hn" "invitation_id h2 = Some ?i" "ho_keys h2 = Some (pe_secrets env 0, ?pub)"
      "ho_phase h2 = HpConnecting" "ho_joiner h2 = Some (?jk, ?jc)"
    using f0 by (simp_all add: h2_def invitation_id_def)
  obtain w2 where w2: "(host_turn env op renv (tm 2) ^^ 3) (w0, r1) = (w2, put_invitation ?v2 r1)" and h2: "host_paused w2 ?i h2"
  proof (rule host_connects [where env = env and op = op and h = h0 and jk = ?jk and jc = ?jc, OF h0 _ f0(3) a2 ref v1(2,5)])
    show "\<And>w'. (host_turn env op renv (tm 2) ^^ 3) (w0, r1) = (w', put_invitation (v1\<lparr>iv_hostNonce := Some (to_b64url (pe_nonces env (ho_nonces h0))), iv_state := PsNonced\<rparr>) r1) \<Longrightarrow>
      host_paused w' ?i (h0\<lparr>ho_ttl := ttl (tm 2) v1, ho_joiner := Some (?jk, ?jc), ho_deviceName := Some name,
       ho_nonces := Suc (ho_nonces h0), ho_hostNonce := Some (pe_nonces env (ho_nonces h0)), ho_phase := HpConnecting\<rparr>) \<Longrightarrow> thesis"
      using that f0(2) unfolding h2_def by simp
  qed (use f0 len in simp_all)
  have a3: "alive (tm 3) ?i ?v2 (put_invitation ?v2 r1)" using v1(4) assms(9) tm v1(1) by (intro alive_put) (auto simp: alive_def)
  have b3: "relay_budget (Suc 6) (tm 3) ?v2" using relay_budget_later [OF v1(3), of "tm 3"] tm by (auto intro: relay_budget_same)
  obtain l3 where c3: "serve renv (tm 3) (RqJoinerView ?i (Some t)) (put_invitation ?v2 r1) =
      (RpJoinerView \<lparr>jv_state = iv_state ?v2, jv_ttl = ttl (tm 3) ?v2, jv_hostNonce = iv_hostNonce ?v2, jv_ciphertext = iv_ciphertext ?v2\<rparr>,
       put_invitation (?v2\<lparr>iv_limiter := l3\<rparr>) (put_invitation ?v2 r1))" and b3': "relay_budget 6 (tm 3) (?v2\<lparr>iv_limiter := l3\<rparr>)"
    by (rule serve_joiner_view [OF a3 ref b3, where j = ?j and t = t]) (simp_all add: v1(5))
  let ?v3 = "?v2\<lparr>iv_limiter := l3\<rparr>" and ?r3 = "put_invitation (?v2\<lparr>iv_limiter := l3\<rparr>) (put_invitation ?v2 r1)"
  have a3': "alive (tm 3) ?i ?v3 ?r3" using a3 by (intro alive_put) (auto simp: alive_def)
  obtain l4 where c4: "serve renv (tm 3) (RqReveal ?i (Some t) (to_b64url (n 0))) ?r3 =
      (RpEmpty, put_invitation (?v3\<lparr>iv_limiter := l4, iv_joinerNonce := Some (to_b64url (n 0)), iv_state := PsRevealed\<rparr>) (put_invitation (?v3\<lparr>iv_limiter := l4\<rparr>) ?r3))"
      and b4: "relay_budget 5 (tm 3) (?v3\<lparr>iv_limiter := l4\<rparr>)"
    by (rule serve_reveal [OF a3' ref, where j = ?j and t = t and m = "n 0" and n = 5]) (use b3' len(3) v1(5) in simp_all)
  let ?v4 = "?v3\<lparr>iv_limiter := l4, iv_joinerNonce := Some (to_b64url (n 0)), iv_state := PsRevealed\<rparr>"
  let ?r4 = "put_invitation ?v4 (put_invitation (?v3\<lparr>iv_limiter := l4\<rparr>) ?r3)"
  have a4: "alive (tm 4) ?i ?v4 ?r4" using a3' v1(4) assms(9) by (intro alive_put) (auto simp: alive_def)
  obtain j3 where j3: "(join_turn jenv renv (tm 3) ^^ 3) (j1, put_invitation ?v2 r1) = (j3, ?r4)"
    and o3: "join_paused j3 (own_run jenv ?i ?pub (Some ?hn)) (y\<lparr>jo_ttl := ttl (tm 3) ?v2, jo_sas := Some sas, jo_phase := JpCompare\<rparr>)"
    by (rule join_compares [where env = jenv and i = ?i and hk = ?pub and hn = ?hn and t = t and sas = sas, OF y])
       (use c3 c4 sas in \<open>simp_all add: jenv\<close>)
  obtain w4 where w4: "(host_turn env op renv (tm 4) ^^ 2) (w2, ?r4) = (w4, ?r4)"
    and h4: "host_paused w4 ?i (h2\<lparr>ho_ttl := ttl (tm 4) ?v4, ho_joinerNonce := Some (n 0), ho_sas := Some sas, ho_phase := HpCompare\<rparr>)"
    by (rule host_compares [where env = env and h = h2 and hn = ?hn and jn = "n 0" and sas = sas, OF h2 _ a4 ref _ f2(5,4,6,2)]) (use commit sas f2(1) in simp_all)
  have "session_digits env jenv op jp renv tm r = (w4, j3, ?r4)"
    unfolding session_digits_def Let_def w0 j1 w2 j3 w4 prod.case ..
  moreover have "relay_budget 5 (tm 4) ?v4" using relay_budget_later [OF b4 tm(4)] by (auto intro: relay_budget_same)
  ultimately show ?thesis
    using h4 o3 a4 f2 v1(4,5) y(2,3)
    unfolding digits_shown_def
    by (simp del: One_nat_def) (fastforce simp: invitation_id_def jenv)
qed

section \<open>Up to the phrase\<close>

lemma key_derived:
  "length p = 32 \<Longrightarrow> length hk = 32 \<Longrightarrow> length jk = 32 \<Longrightarrow> pe_shared env a p = Some x \<Longrightarrow> \<not> list_all (\<lambda>b. b = 0) x \<Longrightarrow>
     derive_pairing_key env i a p hk jk = Inr (pe_hkdf env x (pe_sha256 env (utf8_encode i)) (key_info @ hk @ jk) 32)"
  by (simp add: derive_pairing_key_def require_length_def pairing_key_bytes_def)

lemma session_hands_over:
  fixes tm :: "nat \<Rightarrow> int"
  assumes "digits_shown env jenv i (tm 4) ends (w, j, r)" and "pairing_lawful env" and "pairing_lawful jenv" and jenv: "jenv = other_device env s n"
    and "ref_wire i" and "ascii (hp_mnemonic op)" and "ascii (hp_server op)" and "pe_phrase_ok env (hp_mnemonic op)"
    and "length (hp_mnemonic op) + length (hp_server op) \<le> 600"
    and "pe_shared env (pe_secrets env 0) (pe_public env (s 0)) = Some shared" and "\<not> list_all (\<lambda>b. b = 0) shared"
    and "mono tm" and "tm 7 < ends"
  shows "\<exists>w' j' sas. session_phrase env jenv op jp renv tm (w, j, r) = (w', j') \<and> ho_phase (hw_host w') = HpDone \<and> jo_phase (jw_joiner j') = JpReceived
    \<and> JReturned 0 (Inr \<lparr>pp_mnemonic = hp_mnemonic op, pp_serverUrl = hp_server op\<rparr>) \<in> set (jw_log j')
    \<and> ho_sas (hw_host w') = Some sas \<and> jo_sas (jw_joiner j') = Some sas"
proof -
  let ?pub = "pe_public env (pe_secrets env 0)" and ?jk = "pe_public env (s 0)" and ?hn = "pe_nonces env 0"
  let ?p = "\<lparr>pp_mnemonic = hp_mnemonic op, pp_serverUrl = hp_server op\<rparr>"
  obtain h y v sas t a jc where d: "host_paused w i h" "ho_aborted h = []" "ho_phase h = HpCompare" "ho_sas h = Some sas" "invitation_id h = Some i"
      "ho_keys h = Some (pe_secrets env 0, ?pub)" "ho_joiner h = Some (?jk, jc)" and
    y: "join_paused j (own_run jenv i ?pub (Some ?hn)) y" "jo_aborted y = []" "jo_token y = Some t" "jo_phase y = JpCompare" "jo_sas y = Some sas" and
    v: "alive (tm 4) i v r" "iv_state v = PsRevealed" "iv_joiner v = Some a" "jn_token a = t" "iv_hostNonce v = Some (to_b64url ?hn)" "iv_expiresAt v = ends" "relay_budget 5 (tm 4) v"
    using assms(1) unfolding digits_shown_def by (auto simp: jenv)
  have tm: "tm 4 \<le> tm 6" "tm 5 < ends" "tm 6 < ends" using monoD [OF assms(12), of 4 6] monoD [OF assms(12), of 5 7] monoD [OF assms(12), of 6 7] assms(13) by auto
  have len: "length ?pub = 32" "length ?jk = 32" "length (pe_ivs env (ho_ivs h)) = iv_bytes" "length (s 0) = 32"
    using assms(2) lawful_lengths(1,3) [OF assms(3), of 0] by (simp_all add: jenv)
  let ?key = "pe_hkdf env shared (pe_sha256 env (utf8_encode i)) (key_info @ ?pub @ ?jk) 32"
  have agree: "pe_shared env (s 0) ?pub = Some shared"
  proof -
    have "length (pe_secrets env 0) = 32" "\<forall>a b. length a = 32 \<longrightarrow> length b = 32 \<longrightarrow> pe_shared env a (pe_public env b) = pe_shared env b (pe_public env a)"
      using assms(2) unfolding pairing_lawful_def by blast+
    then show ?thesis using assms(10) len(4) by metis
  qed
  note key = key_derived [OF len(2) len(1) len(2) assms(10,11), of i] key_derived [OF len(1) len(1) len(2) agree assms(11), of i]
  define c where "c = seal_pairing_payload env ?key (pe_ivs env (ho_ivs h)) ?p"
  have "gcm_lawful (pe_gcm env)" using assms(2) unfolding pairing_lawful_def by blast
  from payload_opens [OF this len(3) assms(6,7,8,9) c_def]
  have c: "open_pairing_payload env ?key c = Inr ?p" "c \<noteq> []" "length c \<le> max_ciphertext_bytes" .
  let ?v5 = "v\<lparr>iv_ciphertext := Some (to_b64url c), iv_state := PsDelivered\<rparr>"
  obtain w5 where w5: "host_turn env op renv (tm 5) (snd (host_call env op CallConfirm w), r) = (w5, put_invitation ?v5 r)"
    and h5: "host_paused w5 i (h\<lparr>ho_phase := HpSending, ho_ivs := Suc (ho_ivs h)\<rparr>)"
    by (rule host_sends [OF d(1) alive_later [OF v(1)] assms(5) v(2) d(3,6,7,5) key(1) c_def c(2,3)]) (use tm v(6) in simp)
  have a5: "alive (tm 6) i ?v5 (put_invitation ?v5 r)" using v(1,6) tm by (intro alive_put) (auto simp: alive_def)
  have "relay_budget (Suc 4) (tm 6) ?v5" using relay_budget_later [OF v(7) tm(1)] by (auto intro: relay_budget_same)
  then obtain l where c6: "serve renv (tm 6) (RqJoinerView i (Some t)) (put_invitation ?v5 r) =
      (RpJoinerView \<lparr>jv_state = iv_state ?v5, jv_ttl = ttl (tm 6) ?v5, jv_hostNonce = iv_hostNonce ?v5, jv_ciphertext = iv_ciphertext ?v5\<rparr>,
       put_invitation (?v5\<lparr>iv_limiter := l\<rparr>) (put_invitation ?v5 r))" and b6: "relay_budget 4 (tm 6) (?v5\<lparr>iv_limiter := l\<rparr>)"
    by (rule serve_joiner_view [OF a5 assms(5), where j = a and t = t]) (simp_all add: v(3,4))
  let ?v6 = "?v5\<lparr>iv_limiter := l\<rparr>" and ?r6 = "put_invitation (?v5\<lparr>iv_limiter := l\<rparr>) (put_invitation ?v5 r)"
  have "alive (tm 6) i ?v6 ?r6" using a5 by (intro alive_put) (auto simp: alive_def)
  then obtain v7 r7 where c7: "serve renv (tm 6) (RqAck i (Some t)) ?r6 = (RpEmpty, r7)" and
    v7: "alive (tm 6) i v7 r7" "iv_state v7 = PsCompleted" "iv_expiresAt v7 = iv_expiresAt ?v6"
    by (rule serve_ack [where j = a and t = t and n = 3]) (use b6 assms(5) v(3,4) in simp_all)
  obtain j6 where j6: "(join_turn jenv renv (tm 6) ^^ 3) (snd (join_call jenv jp CallMatch j), put_invitation ?v5 r) = (j6, r7)"
    and o6: "jo_phase (jw_joiner j6) = JpReceived" "JReturned 0 (Inr ?p) \<in> set (jw_log j6)" "jo_sas (jw_joiner j6) = jo_sas y"
    by (rule join_receives [where env = jenv and key = ?key and c = c and p = ?p and jp = jp, OF y(1-4)])
       (use c6 c7 key(2) c(1) v(5) in \<open>simp_all add: jenv\<close>)
  have a7: "alive (tm 7) i v7 r7" using v7(1,3) v(6) assms(13) by (simp add: alive_def)
  obtain w7 where w7: "(host_turn env op renv (tm 7) ^^ 2) (w5, r7) = (w7, r7)" "ho_phase (hw_host w7) = HpDone" "ho_sas (hw_host w7) = ho_sas h"
    by (rule host_finishes [where env = env and op = op, OF h5 _ a7 assms(5) v7(2)]) (use d(2) in simp_all)
  have "session_phrase env jenv op jp renv tm (w, j, r) = (w7, j6)"
    unfolding session_phrase_def Let_def prod.case w5 j6 w7(1) ..
  then show ?thesis using w7(2,3) o6 d(4) y(5) by auto
qed

section \<open>The whole\<close>

lemma session_delivers:
  assumes "pairing_lawful env" and "pairing_lawful (other_device env s n)"
    and "serve renv (tm 0) (RqCreate (to_b64url (pe_public env (pe_secrets env 0)))) r = (RpCreated c, r0)"
    and "invitation_qr (pe_url env) (hp_server op) (cr_id c) = Inr qr" and "names (jp_ref jp) c"
    and "length (jp_deviceName jp) \<le> max_device_name_length"
    and "ascii (hp_mnemonic op)" and "ascii (hp_server op)" and "pe_phrase_ok env (hp_mnemonic op)"
    and "length (hp_mnemonic op) + length (hp_server op) \<le> 600"
    and "pe_shared env (pe_secrets env 0) (pe_public env (s 0)) = Some shared" and "\<not> list_all (\<lambda>b. b = 0) shared"
    and "mono tm" and "tm 7 < tm 0 + pairing_ttl_ms"
  shows "\<exists>w j sas. pairing_session env (other_device env s n) op jp renv tm r = (w, j)
    \<and> ho_phase (hw_host w) = HpDone \<and> jo_phase (jw_joiner j) = JpReceived
    \<and> JReturned 0 (Inr \<lparr>pp_mnemonic = hp_mnemonic op, pp_serverUrl = hp_server op\<rparr>) \<in> set (jw_log j)
    \<and> ho_sas (hw_host w) = Some sas \<and> jo_sas (jw_joiner j) = Some sas"
proof -
  let ?jenv = "other_device env s n" and ?ends = "tm 0 + pairing_ttl_ms"
  have "tm 4 < ?ends" using monoD [OF assms(13), of 4 7] assms(14) by simp
  from session_shows_digits [OF assms(1,2) refl assms(3-6,13) this]
  have shown: "digits_shown env ?jenv (cr_id c) (tm 4) ?ends (session_digits env ?jenv op jp renv tm r)" .
  have "ref_wire (cr_id c)" using assms(4) by (intro ref_of_id) (auto simp: invitation_qr_def split: option.splits if_splits)
  moreover obtain w j r4 where "session_digits env ?jenv op jp renv tm r = (w, j, r4)" by (rule prod_cases3)
  ultimately show ?thesis
    using session_hands_over [OF shown [unfolded \<open>session_digits env ?jenv op jp renv tm r = (w, j, r4)\<close>] assms(1,2) refl _ assms(7-14)]
    by (simp add: pairing_session_def)
qed

text \<open>
  C6: the undisturbed pairing succeeds. The two devices take turns in the one order of
  \<open>pairing_session\<close>, each when there is something for it to see, and both owners say that the digits
  match. If the relay opens the invitation, the joiner names it by its identifier or its code, the last
  request is answered before the invitation ends, the device name is within its limit, the phrase is one
  the wordlist accepts and together with the server's address ASCII text of at most 600 characters, the
  key agreement gives a shared secret that is not zero, and the primitives keep their laws, then the
  digits on both screens are the same, the new device gets exactly the phrase and the server of the
  first one, and both end so.
\<close>

theorem honest_pairing_delivers:
  assumes "pairing_lawful env" and "pairing_lawful (other_device env s n)"
    and "serve renv (tm 0) (RqCreate (to_b64url (pe_public env (pe_secrets env 0)))) r = (RpCreated c, r0)"
    and "invitation_qr (pe_url env) (hp_server op) (cr_id c) = Inr qr" and "names (jp_ref jp) c"
    and "length (jp_deviceName jp) \<le> max_device_name_length"
    and "ascii (hp_mnemonic op)" and "ascii (hp_server op)" and "pe_phrase_ok env (hp_mnemonic op)"
    and "length (hp_mnemonic op) + length (hp_server op) \<le> 600"
    and "pe_shared env (pe_secrets env 0) (pe_public env (s 0)) = Some shared" and "\<not> list_all (\<lambda>b. b = 0) shared"
    and "mono tm" and "tm 7 < tm 0 + pairing_ttl_ms"
  shows "\<exists>w j sas. pairing_session env (other_device env s n) op jp renv tm r = (w, j)
    \<and> ho_phase (hw_host w) = HpDone \<and> jo_phase (jw_joiner j) = JpReceived
    \<and> JReturned 0 (Inr \<lparr>pp_mnemonic = hp_mnemonic op, pp_serverUrl = hp_server op\<rparr>) \<in> set (jw_log j)
    \<and> ho_sas (hw_host w) = Some sas \<and> jo_sas (jw_joiner j) = Some sas"
  by (rule session_delivers [OF assms])

definition demo_joiner_env :: pairing_env where
  "demo_joiner_env = other_device demo_pairing_env (\<lambda>n. replicate 32 7) (\<lambda>n. replicate 16 9)"

definition demo_join_options :: "string \<Rightarrow> join_options" where
  "demo_join_options ref = \<lparr>jp_ref = ref, jp_deviceName = ''phone''\<rparr>"

lemma demo_joiner_lawful: "pairing_lawful demo_joiner_env"
  using demo_pairing_lawful unfolding demo_joiner_env_def pairing_lawful_def other_device_fields by (simp add: other_device_def)

lemma demo_created:
  "\<exists>c r0. serve RelayProps.demo_env 10 (RqCreate (to_b64url (replicate 32 2))) new_relay = (RpCreated c, r0) \<and> cr_id c = to_b64url (replicate 16 0) \<and> cr_code c = ''00000000''"
proof -
  have "to_b64url (re_ids RelayProps.demo_env 0) = to_b64url (replicate 16 0)"
    by (simp add: RelayProps.demo_env_def replicate_append_same numeral_eq_Suc)
  moreover have "b64_wire 32 (to_b64url (replicate 32 2))" "decode_exact (to_b64url (replicate 32 2)) 32" by (simp_all add: written_wire)
  ultimately show ?thesis
    by (simp add: serve_def well_formed_request_def create_invitation_def sweep_def new_relay_def Let_def demo_draw put_invitation_def max_open_invitations_def answer_def)
qed

lemma demo_conditions:
  obtains c r0 qr where
    "serve RelayProps.demo_env (10 + int 0) (RqCreate (to_b64url (pe_public demo_pairing_env (pe_secrets demo_pairing_env 0)))) new_relay = (RpCreated c, r0)"
    "invitation_qr (pe_url demo_pairing_env) (hp_server demo_host_options) (cr_id c) = Inr qr" "names (jp_ref (demo_join_options ''0000-0000'')) c"
proof -
  obtain c r0 where c: "serve RelayProps.demo_env 10 (RqCreate (to_b64url (replicate 32 2))) new_relay = (RpCreated c, r0)"
    "cr_id c = to_b64url (replicate 16 0)" "cr_code c = ''00000000''" using demo_created by blast
  have "is_invitation_id (to_b64url (replicate 16 0))" "server_origin demo_url_env ''https://hub'' = Some ''https://hub''" by code_simp+
  then obtain qr where "invitation_qr (pe_url demo_pairing_env) (hp_server demo_host_options) (cr_id c) = Inr qr"
    by (simp add: c(2) invitation_qr_def demo_pairing_env_def demo_host_options_def)
  moreover have "names (jp_ref (demo_join_options ''0000-0000'')) c" by (simp add: names_def c(3) demo_join_options_def format_invitation_code_def)
  moreover have "pe_public demo_pairing_env (pe_secrets demo_pairing_env 0) = replicate 32 2" by (simp add: demo_pairing_env_def)
  ultimately show ?thesis using c(1) by (intro that) simp_all
qed

lemma demo_texts:
  "length (jp_deviceName (demo_join_options ''0000-0000'')) \<le> max_device_name_length"
  "ascii (hp_mnemonic demo_host_options)" "ascii (hp_server demo_host_options)" "pe_phrase_ok demo_pairing_env (hp_mnemonic demo_host_options)"
  "length (hp_mnemonic demo_host_options) + length (hp_server demo_host_options) \<le> 600"
  "pe_shared demo_pairing_env (pe_secrets demo_pairing_env 0) (pe_public demo_pairing_env (replicate 32 7)) = Some (replicate 32 8)"
  "\<not> list_all (\<lambda>b. b = (0 :: byte)) (replicate 32 8)"
  by (simp_all add: demo_join_options_def demo_host_options_def demo_pairing_env_def max_device_name_length_def zip_replicate list_all_iff)

lemma demo_clock: "mono (\<lambda>k. 10 + int k)" "10 + int 7 < 10 + int 0 + pairing_ttl_ms"
  by (simp_all add: mono_def pairing_ttl_ms_def)

theorem honest_pairing_delivers_witness:
  "\<exists>w j sas. pairing_session demo_pairing_env demo_joiner_env demo_host_options (demo_join_options ''0000-0000'') RelayProps.demo_env (\<lambda>k. 10 + int k) new_relay = (w, j)
     \<and> JReturned 0 (Inr \<lparr>pp_mnemonic = ''zoo'', pp_serverUrl = ''https://hub''\<rparr>) \<in> set (jw_log j) \<and> jo_sas (jw_joiner j) = Some sas"
proof -
  obtain c r0 qr where c:
    "serve RelayProps.demo_env (10 + int 0) (RqCreate (to_b64url (pe_public demo_pairing_env (pe_secrets demo_pairing_env 0)))) new_relay = (RpCreated c, r0)"
    "invitation_qr (pe_url demo_pairing_env) (hp_server demo_host_options) (cr_id c) = Inr qr" "names (jp_ref (demo_join_options ''0000-0000'')) c"
    by (rule demo_conditions)
  from honest_pairing_delivers [OF demo_pairing_lawful demo_joiner_lawful [unfolded demo_joiner_env_def] c demo_texts demo_clock]
  show ?thesis by (fastforce simp: demo_joiner_env_def demo_host_options_def)
qed

section \<open>The new device\<close>

text \<open>
  C3: on a joiner that is started at most once (the class does not guard against a second start, which
  keeps the match and the digits of the first), the new device gives a phrase on only after its owner
  said that the digits match; it was opened with the key agreed with the host key those digits are of,
  over the nonce the host was held to. Its own nonce never leaves before digits are on the screen, it
  is always the same, and the digits never change.
\<close>

theorem phrase_taken_only_when_matched:
  assumes "join_runs env op join_once w"
  shows "(JReturned n (Inr p) \<in> set (jw_log w) \<longrightarrow>
      JCalled CallMatch \<in> set (jw_log w) \<and> (\<exists>r sas. jo_sas (jw_joiner w) = Some sas \<and> digits_of env r sas \<and> opened_by env r p))
    \<and> (JAsked (RqReveal i t m) \<in> set (jw_log w) \<longrightarrow> m = to_b64url (pe_nonces env 0) \<and> jo_sas (jw_joiner w) \<noteq> None)
    \<and> (join_once c w \<longrightarrow> jo_sas (jw_joiner w) = Some sas \<longrightarrow> jo_sas (jw_joiner (snd (join_call env op c w))) = Some sas)
    \<and> (u \<in> set (jw_tasks w) \<longrightarrow> jo_sas (jw_joiner w) = Some sas \<longrightarrow> jo_sas (jw_joiner (join_resume env u q w)) = Some sas)"
proof -
  have ok: "joiner_ok env w" by (rule join_runs_ok [OF assms])
  have "entry_fits env (jw_joiner w) e" if "e \<in> set (jw_log w)" for e using ok that by (simp add: joiner_ok_def)
  from this [of "JReturned n (Inr p)"] this [of "JAsked (RqReveal i t m)"] show ?thesis
    using ok sas_stays_call sas_stays_resume by (auto simp: entry_fits_def joiner_ok_def)
qed

theorem phrase_taken_only_when_matched_witness:
  "\<exists>j. join_runs demo_joiner_env (demo_join_options ''0000-0000'') join_once j
     \<and> JReturned 0 (Inr \<lparr>pp_mnemonic = ''zoo'', pp_serverUrl = ''https://hub''\<rparr>) \<in> set (jw_log j) \<and> JCalled CallMatch \<in> set (jw_log j)"
proof -
  obtain c r0 qr where c:
    "serve RelayProps.demo_env (10 + int 0) (RqCreate (to_b64url (pe_public demo_pairing_env (pe_secrets demo_pairing_env 0)))) new_relay = (RpCreated c, r0)"
    "invitation_qr (pe_url demo_pairing_env) (hp_server demo_host_options) (cr_id c) = Inr qr" "names (jp_ref (demo_join_options ''0000-0000'')) c"
    by (rule demo_conditions)
  obtain w j where j: "pairing_session demo_pairing_env demo_joiner_env demo_host_options (demo_join_options ''0000-0000'') RelayProps.demo_env (\<lambda>k. 10 + int k) new_relay = (w, j)"
    "JReturned 0 (Inr \<lparr>pp_mnemonic = ''zoo'', pp_serverUrl = ''https://hub''\<rparr>) \<in> set (jw_log j)"
    using session_delivers [OF demo_pairing_lawful demo_joiner_lawful [unfolded demo_joiner_env_def] c demo_texts demo_clock]
    by (auto simp: demo_joiner_env_def demo_host_options_def)
  have run: "join_runs demo_joiner_env (demo_join_options ''0000-0000'') join_once j" by (rule session_runs(2) [OF j(1)])
  from phrase_taken_only_when_matched [OF run] j(2) run show ?thesis by blast
qed

end
