(* ===== verification/Spec2Isabelle.thy ===== *)
theory Spec2Isabelle
  imports Wire StorageProps SyncProps PushProps RangeReader TextMerge LockProps PanelFile WorkbookMergeProps BudgetProps PairingHonest
begin

text \<open>
  A verification library of arxhub, a local-first workspace: a vault of files on every device, kept
  in a content-addressed repository (\<open>packages/sync\<close>) over a virtual file system (\<open>packages/vfs\<close>),
  synchronised through a remote that may be encrypted, and edited through plugins (\<open>plugins/*\<close>) that
  give the files their formats and the sync engine their content mergers.

  \<^bold>\<open>How the parts interact.\<close> Files are read and written through \<open>VirtualFileSystem\<close>; the Node backend
  maps paths to a directory, scoped and observed views restrict and announce its calls. \<open>Repo\<close> keeps
  chunks, snapshots and the head in such a file system, \<open>Checkout\<close> compares the working tree with the
  last recorded state, \<open>Chunker\<close> cuts files. \<open>SyncEngine\<close> runs fetch, merge and push against a
  \<open>SyncRemote\<close>: a directory store, the same store behind HTTP routes, either one behind the encrypting
  decorator. File history and the range readers read the snapshots. When both sides changed a file, the
  engine asks the merger of its format: text, workbook or budget. The key store keeps the secrets of the
  device behind an unlock code; pairing carries the vault's phrase to a new device through a relay on the
  server.

  \<^bold>\<open>Theories and sources.\<close>

  \<^item> \<open>Prelude\<close>: bytes, text, insertion-ordered records, the state-and-error effects (\<open>eff\<close>: every
    exception is an \<open>Inl\<close> with the state reached) with a small logic of preserved predicates and triples.
  \<^item> \<open>Wire\<close>: \<open>sync/src/remote/{is-object-hash,encode-object-frame,decode-object-frame}.ts\<close>; lengths
    are 32-bit words, decoding is exact.
  \<^item> \<open>Json\<close>, \<open>JsonFields\<close>: \<open>stable-stringify.ts\<close>, \<open>JSON.stringify\<close> and \<open>JSON.parse\<close>, and how the
    parsers of the file formats read fields.
  \<^item> \<open>Path\<close>, \<open>NodeFs\<close>, \<open>Vfs\<close>, \<open>Views\<close>: \<open>packages/path\<close>, \<open>vfs-node/src/node-file-system.ts\<close>,
    \<open>vfs/src\<close> (operations, handles, walker, scoped and observed views, pinned range reader). The disk is
    a tree of named nodes with modification times; the locale \<open>file_store\<close> is what a client relies on.
  \<^item> \<open>Snapshot\<close>, \<open>Checkout\<close>, \<open>Chunker\<close>, \<open>Repo\<close>, \<open>Merge\<close>: the files of the same names in
    \<open>sync/src\<close>, over a \<open>world\<close> of one working tree and one repository store.
  \<^item> \<open>Engine\<close>, \<open>Remote\<close>, \<open>Cipher\<close>, \<open>Transport\<close>: \<open>engine.ts\<close>, \<open>remote/*.ts\<close>, \<open>crypto/src/cipher.ts\<close>, \<open>server.ts\<close>.
    The locale \<open>sync_remote\<close> is the contract of a remote, interpreted on the directory store; the HTTP
    client, the routes and the decorator are proved to keep it.
  \<^item> \<open>FileHistory\<close>, \<open>RangeReader\<close>, \<open>TextMerge\<close>: \<open>file-history.ts\<close>, \<open>snapshot-range-reader.ts\<close>,
    \<open>merge/text-merge.ts\<close>.
  \<^item> \<open>StorageProps\<close>, \<open>RepoInv\<close>, \<open>MergeProps\<close>, \<open>Layout\<close>, \<open>PushProps\<close>, \<open>HistoryProps\<close>, \<open>SyncProps\<close>: the
    lemmas of these parts. \<open>RepoInv\<close> has the invariant that the head names a stored snapshot, kept by
    every operation with other writers in between; \<open>MergeProps\<close> what a merge does to the files;
    \<open>Layout\<close> the stores only this code wrote, on which no operation fails; \<open>PushProps\<close> rounds with
    other devices; \<open>HistoryProps\<close> recording and reading versions.
  \<^item> \<open>Keystore\<close>, \<open>KeystoreProps\<close>, \<open>LockProps\<close>: \<open>plugins/keystore/src\<close>. The locale \<open>key_storage\<close> is
    interpreted on the in-memory and on the local-storage backend; an interrupted operation is a run
    that stops after any number of writes.
  \<^item> \<open>Panels\<close>, \<open>PanelProps\<close>, \<open>PanelCalls\<close>, \<open>PanelFile\<close>: \<open>plugins/panels/src\<close>.
  \<^item> \<open>Base64Url\<close>, \<open>Relay\<close>, \<open>RelayProps\<close>: \<open>crypto/src/pairing-code.ts\<close> and
    \<open>plugins/protection/src/pairing/{relay,wire}.ts\<close>.
  \<^item> \<open>Pairing\<close>, \<open>PairHost\<close>, \<open>PairJoiner\<close>: \<open>crypto/src/pairing.ts\<close> and
    \<open>plugins/protection/src/pairing/{errors,pairing-client,pairing-routes,wire}.ts\<close>. A suspended method
    of either device is a task; the calls of the owners, the answers - of a relay that is not trusted -
    and the timers come in any order. \<open>PairHostProps\<close>, \<open>PairHostCalm\<close> and \<open>PairJoinerProps\<close> have the
    invariants of these runs, \<open>PairingProps\<close> what the digits protect and where they do not,
    \<open>PairingSession\<close> and \<open>PairingHonest\<close> both devices with the modelled relay: the phrase arrives.
  \<^item> \<open>Sheets\<close>, \<open>SheetProps\<close>, \<open>Workbook\<close>, \<open>WorkbookProps\<close>, \<open>WorkbookMerge\<close>, \<open>WorkbookMergeProps\<close>:
    \<open>plugins/sheets/src/{model,format,workbook,workbook-merge}.ts\<close> and the merger of \<open>sheets-plugin.ts\<close>.
  \<^item> \<open>Budget\<close>, \<open>BudgetFile\<close>, \<open>BudgetMoney\<close>, \<open>BudgetMerge\<close>, with \<open>BudgetRecords\<close>, \<open>BudgetSums\<close>,
    \<open>BudgetRoundTrip\<close>, \<open>BudgetTotals\<close>, \<open>BudgetProps\<close>: \<open>plugins/budget/src/{model,items,money,merge}.ts\<close>.
    The locales \<open>line_kind\<close> (a kind of line of the file) and \<open>told_apart\<close> (a kind of record of the
    merge) are interpreted on every kind the code has.

  \<^bold>\<open>Conventions.\<close> A class is a record of its fields and its methods are functions on it; a thrown error is
  an \<open>Inl\<close>. A \<open>Map\<close> or an object whose order can be seen is an association list in insertion order.
  What interleaves is explicit: other writers of a repository, other devices on a remote, the calls on
  the relay and on the panel store are arbitrary sequences of steps, and so is what resumes the
  suspended methods of a pairing device.

  \<^bold>\<open>Parameters\<close> stand for what is not under \<open>src/\<close>: SHA-256, HKDF, X25519, AES-GCM, scrypt and random bytes, the
  Rabin cutter, \<open>diff3\<close>, the URL parser and percent coding of the platform, what \<open>Intl\<close> says of a
  currency and of a character. A property that needs something of them says so in its hypotheses (a
  digest is a hash of 64 hexadecimal digits, decryption undoes encryption, cut chunks join to their
  input) and has a witness on a concrete instance.

  \<^bold>\<open>Bounds and fuel.\<close> \<open>parse_json\<close> descends at most twice the length of its input plus two times, and every
  call of the parser consumes a character or returns to one that has; printed values parse back, so the
  bound is enough for what the code itself writes. The search for a free conflict name tries one more
  candidate than there are nodes in the tree; the walkers visit at most every node. Retry loops carry the
  number of attempts their constants allow. Chains of snapshots are followed with the visited set as
  measure. Two loops of the code have no bound - drawing an unused invitation code, and a free sheet
  name or identifier - and are partial functions; the second is proved to end, where the first does not
  the call of the relay has no answer.

  \<^bold>\<open>Abstractions.\<close> Text is a list of code units of its UTF-8 form, so lengths of non-ASCII text are not
  JavaScript's; case and white space are ASCII. JSON numbers are kept in thousandths without exponents,
  which covers every number the modelled formats store with at most three decimals; \<open>parse_json\<close>
  refuses finer ones, exponents and escapes above \<open>00ff\<close>, which \<open>JSON.parse\<close> takes, and so a budget's
  coordinate finer than a thousandth. A file is replaced the POSIX way (\<open>replace_file\<close>); the copy that
  Windows needs is not modelled. Locks and promise queues appear as the granularity of the operations
  they protect.

  \<^bold>\<open>What the statements assume.\<close> The merge of files is about paths that name different files on the
  disk; with a content merger registered a file holds what the merger made of it. The panel properties
  are about calls whose named targets exist (\<open>names_known\<close>: \<open>panel-store.ts\<close> takes any name, and
  \<open>stale_target_hides_groups\<close> shows what an unknown one does) and restarts that read back what the
  session before saved, in sessions whose identifiers never repeat. A subscriber follows the groups, their
  active panels and the order of their panels; which group is active no event tells in every case. A
  joiner is started at most once (\<open>join_once\<close>: \<open>pairing-client.ts\<close> does not guard against a second
  start, which keeps the match of the first); the whole pairing is the undisturbed one, in the one order
  of \<open>pairing_session\<close>. A valid workbook (\<open>workbook_ok\<close>) can be longer, as a file, than the parser
  takes: the size is checked only on saving and reading.

  \<^bold>\<open>Not modelled.\<close> Components of the user interface, catalogs and styles; the document editor, whose
  nodes and transactions are ProseMirror's; the index and search, whose queries run in PGlite; the code
  editor, media preview and publishing reader, which drive packages; delivery of operating-system file
  events; the Tauri bridge; the schedules that start the modelled operations (sync plugin, index queue,
  debounced writers); the kernel of plugins and extensions, whose state is closures and classes. Of the
  sheets the formula worker, the import, the export and the display of values; of the budget the
  receipts, photos and months on screen; of protection the entry flow and the signatures of requests.
\<close>

end
